(* ===== verification/Prelude.thy ===== *)
theory Prelude
  imports Main "HOL-Library.Word" "HOL-Library.Multiset"
begin

text \<open>
  Shared vocabulary of the development: the machine integers of the C++ code
  as words, the byte-order helpers every codec of the repository writes by
  hand (shift and mask loops), the option and list lemmas the components share,
  and the collections the component proofs add to the simplifier.

  Conventions. A \<^verbatim>\<open>std::uint8_t\<close>, \<^verbatim>\<open>std::uint16_t\<close>, \<^verbatim>\<open>std::uint32_t\<close> or
  \<^verbatim>\<open>std::uint64_t\<close> whose width matters is a word of that width, so that \<open>+\<close> wraps as
  the C++ does. A \<^verbatim>\<open>std::size_t\<close> that counts bytes or indexes a fixed array is a
  \<open>nat\<close>: every one of them is bounded far below the width of the type, and the
  invariants of the components say so. A fixed array is a list of its length.
\<close>

unbundle bit_operations_syntax

type_synonym u8 = "8 word"
type_synonym u16 = "16 word"
type_synonym u32 = "32 word"
type_synonym u64 = "64 word"
type_synonym bytes = "u8 list"

named_theorems codec_simps \<open>byte-level facts about the hand-written codecs\<close>
named_theorems frame_simps \<open>which fields an operation leaves alone\<close>
named_theorems inv_intros \<open>preservation of component invariants\<close>


section \<open>Little-endian fields\<close>

text \<open>The byte of a word at a given shift, as \<^verbatim>\<open>static_cast<std::uint8_t>(word >> shift)\<close>.\<close>

definition byte_at :: "'a::len word \<Rightarrow> nat \<Rightarrow> u8" where
  "byte_at w shift = ucast (drop_bit shift w)"

definition le16 :: "u16 \<Rightarrow> bytes" where
  "le16 w = [byte_at w 0, byte_at w 8]"

definition le32 :: "u32 \<Rightarrow> bytes" where
  "le32 w = [byte_at w 0, byte_at w 8, byte_at w 16, byte_at w 24]"

definition rd16 :: "u8 \<Rightarrow> u8 \<Rightarrow> u16" where
  "rd16 a b = ucast a OR push_bit 8 (ucast b)"

definition rd32 :: "u8 \<Rightarrow> u8 \<Rightarrow> u8 \<Rightarrow> u8 \<Rightarrow> u32" where
  "rd32 a b c d =
     ucast a OR push_bit 8 (ucast b) OR push_bit 16 (ucast c) OR push_bit 24 (ucast d)"

lemma bit_byte_at: "bit (byte_at w s) n \<longleftrightarrow> n < 8 \<and> bit w (s + n)"
  by (simp add: byte_at_def bit_ucast_iff bit_drop_bit_eq add.commute eval_nat_numeral)

lemma bit_rd16:
  "bit (rd16 a b) n \<longleftrightarrow> (if n < 8 then bit a n else n < 16 \<and> bit b (n - 8))"
  by (auto simp: rd16_def bit_or_iff bit_ucast_iff bit_push_bit_iff dest: bit_imp_le_length)

lemma bit_rd32:
  "bit (rd32 a b c d) n \<longleftrightarrow>
     (if n < 8 then bit a n else if n < 16 then bit b (n - 8)
      else if n < 24 then bit c (n - 16) else n < 32 \<and> bit d (n - 24))"
  by (auto simp: rd32_def bit_or_iff bit_ucast_iff bit_push_bit_iff dest: bit_imp_le_length)

lemma rd32_xor: "rd32 a b c d = rd32 a 0 0 0 XOR rd32 0 b 0 0 XOR rd32 0 0 c 0 XOR rd32 0 0 0 d"
  by (rule bit_word_eqI) (auto simp: bit_rd32 bit_xor_iff)

lemma rd16_le16 [simp, codec_simps]: "rd16 (byte_at w 0) (byte_at w 8) = w"
  by (rule bit_word_eqI) (auto simp: bit_rd16 bit_byte_at)

lemma rd32_le32 [simp, codec_simps]:
  "rd32 (byte_at w 0) (byte_at w 8) (byte_at w 16) (byte_at w 24) = w"
  by (rule bit_word_eqI) (auto simp: bit_rd32 bit_byte_at)

lemma byte_at_rd16 [simp, codec_simps]:
  "byte_at (rd16 a b) 0 = a" "byte_at (rd16 a b) 8 = b"
  by (rule bit_word_eqI, simp add: bit_rd16 bit_byte_at)+

lemma byte_at_rd32 [simp, codec_simps]:
  "byte_at (rd32 a b c d) 0 = a" "byte_at (rd32 a b c d) 8 = b"
  "byte_at (rd32 a b c d) 16 = c" "byte_at (rd32 a b c d) 24 = d"
  by (rule bit_word_eqI, simp add: bit_rd32 bit_byte_at)+

lemma rd32_eq_iff: "rd32 a b c d = rd32 a' b' c' d' \<longleftrightarrow> a = a' \<and> b = b' \<and> c = c' \<and> d = d'"
  by (metis byte_at_rd32)

lemma length_le [simp]: "length (le16 w) = 2" "length (le32 v) = 4"
  by (simp_all add: le16_def le32_def)

lemma le32_inject: "le32 v = le32 w \<longleftrightarrow> v = w"
proof
  assume "le32 v = le32 w"
  then have "rd32 (byte_at v 0) (byte_at v 8) (byte_at v 16) (byte_at v 24) =
             rd32 (byte_at w 0) (byte_at w 8) (byte_at w 16) (byte_at w 24)"
    by (simp add: le32_def)
  then show "v = w" by simp
qed simp


section \<open>Exclusive or\<close>

lemma word_eq_bits: "(a::'a::len word) = b \<longleftrightarrow> (\<forall>n < LENGTH('a). bit a n = bit b n)"
  by (auto intro: bit_word_eqI)

lemma xor_cancel_outer: "(c XOR a) XOR (c XOR b) = a XOR (b::'a::len word)"
  by (auto simp: word_eq_bits bit_xor_iff)

lemma xor_right_cancel: "(a::'a::len word) XOR k = b XOR k \<longleftrightarrow> a = b"
  by (metis xor.assoc xor_self_eq xor.right_neutral)

lemma xor_left_cancel: "(k::'a::len word) XOR a = k XOR b \<longleftrightarrow> a = b"
  by (simp add: xor.commute [of k] xor_right_cancel)

lemma xor_shift_eq: "(a::'a::len word) XOR k = b XOR l \<longleftrightarrow> a XOR b = k XOR l"
  by (auto simp: word_eq_bits bit_xor_iff)

lemma xor_eq_zero_iff: "(a::'a::len word) XOR b = 0 \<longleftrightarrow> a = b"
  by (metis xor_right_cancel xor_self_eq)


section \<open>Lists\<close>

lemma list_of_length_1: "length xs = 1 \<Longrightarrow> \<exists>a. xs = [a]"
  by (cases xs) auto

lemma list_of_length_2: "length xs = 2 \<Longrightarrow> \<exists>a b. xs = [a, b]"
  by (cases xs; cases "tl xs") auto

lemma set_list_update_swap_last:
  \<comment> \<open>removing entry \<open>i\<close> of a dense array by moving the last entry into its place\<close>
  assumes "i < length xs" "distinct xs"
  shows "set (butlast (xs[i := last xs])) = set xs - {xs ! i}"
    and "distinct (butlast (xs[i := last xs]))"
proof -
  obtain ys y where xs: "xs = ys @ [y]"
    using assms(1) by (metis append_butlast_last_id list.size(3) not_less_zero)
  have "set (butlast (xs[i := last xs])) = set xs - {xs ! i} \<and>
        distinct (butlast (xs[i := last xs]))"
  proof (cases "i < length ys")
    case True
    then have b: "butlast (xs[i := last xs]) = ys[i := y]" "xs ! i = ys ! i"
      by (simp_all add: xs list_update_append nth_append)
    have d: "distinct ys" "y \<notin> set ys" using assms(2) by (auto simp: xs)
    have "set (ys[i := y]) = insert y (set ys - {ys ! i})"
      by (rule set_update_distinct) (use d True in auto)
    moreover have "distinct (ys[i := y])"
      by (rule distinct_list_update) (use d True in auto)
    moreover have "insert y (set ys - {ys ! i}) = set xs - {ys ! i}"
      using d True by (auto simp: xs)
    ultimately show ?thesis by (simp only: b)
  next
    case False
    then have "i = length ys" using assms(1) by (simp add: xs)
    then have b: "butlast (xs[i := last xs]) = ys" "xs ! i = y"
      by (simp_all add: xs list_update_append nth_append)
    moreover have "distinct ys" "set ys = set xs - {y}" using assms(2) by (auto simp: xs)
    ultimately show ?thesis by (simp only: b)
  qed
  then show "set (butlast (xs[i := last xs])) = set xs - {xs ! i}"
    and "distinct (butlast (xs[i := last xs]))" by auto
qed

lemma swap_remove_parts:
  assumes "i < length xs"
  shows "take i (butlast (xs[i := last xs])) = take i xs"
    and "mset (drop i (butlast (xs[i := last xs]))) = mset (drop (Suc i) xs)"
proof -
  obtain ys y where xs: "xs = ys @ [y]"
    using assms by (metis append_butlast_last_id list.size(3) not_less_zero)
  have "i < length ys \<or> i = length ys" using assms xs by auto
  then show "take i (butlast (xs[i := last xs])) = take i xs"
    and "mset (drop i (butlast (xs[i := last xs]))) = mset (drop (Suc i) xs)"
    by (auto simp: xs list_update_append drop_update_swap Cons_nth_drop_Suc [symmetric])
qed

lemma foldl_cong_append: "foldl f (foldl f a xs) ys = foldl f a (xs @ ys)"
  by simp

lemma take_update_snoc: "i < length xs \<Longrightarrow> take (Suc i) (xs[i := x]) = take i xs @ [x]"
  by (simp add: take_Suc_conv_app_nth)

lemma unat_add_no_overflow:
  fixes a b :: "'a::len word"
  assumes "unat a + unat b < 2 ^ LENGTH('a)"
  shows "unat (a + b) = unat a + unat b"
  using assms by (simp add: unat_word_ariths)

lemma unat_bound: "unat (w :: 'a::len word) < 2 ^ LENGTH('a)"
  by (rule unsigned_less)

lemma unat_of_nat_small: "n < 2 ^ LENGTH('a) \<Longrightarrow> unat (of_nat n :: 'a::len word) = n"
  by (simp add: unsigned_of_nat take_bit_nat_eq_self)

lemma unat_plus_of_nat:
  fixes a :: "'a::len word"
  assumes "unat a + n < 2 ^ LENGTH('a)"
  shows "unat (a + of_nat n) = unat a + n"
proof -
  have "unat (of_nat n :: 'a word) = n" using assms by (intro unat_of_nat_small) linarith
  then show ?thesis using assms by (simp add: unat_add_no_overflow)
qed

lemma unat_inc_less:
  fixes a b :: "'a::len word"
  assumes "a < b"
  shows "unat (a + 1) = unat a + 1" and "a + 1 \<le> b" and "1 \<le> a + 1"
proof -
  have ab: "unat a < unat b" using assms by (simp add: word_less_nat_alt)
  moreover have "unat b < 2 ^ LENGTH('a)" by (rule unsigned_less)
  ultimately have "unat a + 1 < 2 ^ LENGTH('a)" by linarith
  from unat_plus_of_nat [of a 1, OF this] show u: "unat (a + 1) = unat a + 1" by simp
  show "a + 1 \<le> b" using ab by (simp add: word_le_nat_alt u)
  have "unat (1 :: 'a word) = 1" by simp
  then show "1 \<le> a + 1" by (simp only: word_le_nat_alt u)
qed


section \<open>Printed numbers\<close>

text \<open>Decimal digits, and the \<^verbatim>\<open>%08lx\<close> the log lines print a node id with.\<close>

fun to_string :: "nat \<Rightarrow> string" where
  "to_string n = (if n < 10 then [char_of (48 + n)] else to_string (n div 10) @ [char_of (48 + n mod 10)])"

declare to_string.simps [simp del]

definition hex_digits :: string where "hex_digits = ''0123456789abcdef''"

definition hex08 :: "u32 \<Rightarrow> string" where
  "hex08 v = map (\<lambda>nibble. hex_digits ! unat (drop_bit ((7 - nibble) * 4) v AND 0xF)) [0..<8]"

end
