(* ===== verification/Serial_Framing.thy ===== *)
theory Serial_Framing
  imports Prelude
begin

text \<open>
  The stream framing of a serial line
  (\<^verbatim>\<open>components/transport/include/transport/serial_framing.hpp\<close>): the CRC-16 over the
  length bytes and the payload, the frame encoder, and the incremental decoder
  \<^verbatim>\<open>SerialFrameParser\<close> with its seven states. The lemmas show that the decoder never
  writes outside its payload buffer, that it inverts the encoder, that it finds the
  next frame again after any loss, and that the CRC rejects every frame whose
  corruption is confined to two neighbouring payload bytes.
\<close>


section \<open>CRC-16/CCITT-FALSE\<close>

definition SERIAL_SYNC0 :: u8 where "SERIAL_SYNC0 = 0xA5"
definition SERIAL_SYNC1 :: u8 where "SERIAL_SYNC1 = 0x5A"
definition SERIAL_MAX_PAYLOAD :: nat where "SERIAL_MAX_PAYLOAD = 512"
definition SERIAL_FRAME_OVERHEAD :: nat where "SERIAL_FRAME_OVERHEAD = 6"
definition CRC16_INIT :: u16 where "CRC16_INIT = 0xFFFF"
definition CRC16_POLYNOMIAL :: u16 where "CRC16_POLYNOMIAL = 0x1021"
definition CRC16_MSB :: u16 where "CRC16_MSB = 0x8000"

text \<open>One round of the inner loop of \<^verbatim>\<open>crc16\<close>: shift, and fold the polynomial in when
  the bit shifted out was set.\<close>

definition crc16_bit :: "u16 \<Rightarrow> u16" where
  "crc16_bit crc =
     (if crc AND CRC16_MSB \<noteq> 0 then push_bit 1 crc XOR CRC16_POLYNOMIAL else push_bit 1 crc)"

definition crc16_byte :: "u16 \<Rightarrow> u8 \<Rightarrow> u16" where
  "crc16_byte crc b = (crc16_bit ^^ 8) (crc XOR push_bit 8 (ucast b))"

fun crc16 :: "u16 \<Rightarrow> bytes \<Rightarrow> u16" where
  "crc16 crc [] = crc"
| "crc16 crc (b # bs) = crc16 (crc16_byte crc b) bs"


section \<open>The encoder\<close>

text \<open>The bytes \<^verbatim>\<open>encodeSerialFrame\<close> writes; the empty list is its return value 0.\<close>

definition encodeSerialFrame :: "bytes \<Rightarrow> bytes" where
  "encodeSerialFrame payload =
     (let size = length payload in
      if size = 0 \<or> size > SERIAL_MAX_PAYLOAD then []
      else let header = [of_nat (size AND 0xFF), of_nat (drop_bit 8 size)];
               crc = crc16 CRC16_INIT (header @ payload)
           in [SERIAL_SYNC0, SERIAL_SYNC1] @ header @ payload @
              [ucast (crc AND 0xFF), ucast (drop_bit 8 crc)])"


section \<open>The decoder\<close>

datatype parser_state =
  ST_SYNC0 | ST_SYNC1 | ST_LENGTH_LOW | ST_LENGTH_HIGH | ST_PAYLOAD | ST_CRC_LOW | ST_CRC_HIGH

record serial_parser =
  sp_payload :: bytes
  sp_expected :: nat
  sp_received :: nat
  sp_crc :: u16
  sp_errors :: u32
  sp_crcLow :: u8
  sp_state :: parser_state

definition SerialFrameParser_init :: serial_parser where
  "SerialFrameParser_init =
     \<lparr>sp_payload = replicate SERIAL_MAX_PAYLOAD 0, sp_expected = 0, sp_received = 0,
      sp_crc = CRC16_INIT, sp_errors = 0, sp_crcLow = 0, sp_state = ST_SYNC0\<rparr>"

text \<open>\<^verbatim>\<open>SerialFrameParser::feed\<close>: the parser after the byte, and the value returned
  (0, or the size of the payload this byte completed).\<close>

definition SerialFrameParser_feed :: "serial_parser \<Rightarrow> u8 \<Rightarrow> serial_parser \<times> nat" where
  "SerialFrameParser_feed p byte =
     (case sp_state p of
        ST_SYNC0 \<Rightarrow> (p\<lparr>sp_state := if byte = SERIAL_SYNC0 then ST_SYNC1 else ST_SYNC0\<rparr>, 0)
      | ST_SYNC1 \<Rightarrow> (p\<lparr>sp_state := if byte = SERIAL_SYNC1 then ST_LENGTH_LOW
                                    else if byte = SERIAL_SYNC0 then ST_SYNC1 else ST_SYNC0\<rparr>, 0)
      | ST_LENGTH_LOW \<Rightarrow> (p\<lparr>sp_expected := unat byte, sp_crc := crc16 CRC16_INIT [byte],
                             sp_state := ST_LENGTH_HIGH\<rparr>, 0)
      | ST_LENGTH_HIGH \<Rightarrow>
          (let expected = sp_expected p OR push_bit 8 (unat byte);
               p = p\<lparr>sp_expected := expected, sp_crc := crc16 (sp_crc p) [byte]\<rparr>
           in if expected = 0 \<or> expected > SERIAL_MAX_PAYLOAD
              then (p\<lparr>sp_errors := sp_errors p + 1, sp_state := ST_SYNC0\<rparr>, 0)
              else (p\<lparr>sp_received := 0, sp_state := ST_PAYLOAD\<rparr>, 0))
      | ST_PAYLOAD \<Rightarrow>
          (let p = p\<lparr>sp_payload := (sp_payload p)[sp_received p := byte],
                     sp_received := sp_received p + 1, sp_crc := crc16 (sp_crc p) [byte]\<rparr>
           in (if sp_received p = sp_expected p then p\<lparr>sp_state := ST_CRC_LOW\<rparr> else p, 0))
      | ST_CRC_LOW \<Rightarrow> (p\<lparr>sp_crcLow := byte, sp_state := ST_CRC_HIGH\<rparr>, 0)
      | ST_CRC_HIGH \<Rightarrow>
          (let p = p\<lparr>sp_state := ST_SYNC0\<rparr>
           in if sp_crc p = (push_bit 8 (ucast byte) OR ucast (sp_crcLow p)) then (p, sp_expected p)
              else (p\<lparr>sp_errors := sp_errors p + 1\<rparr>, 0)))"

text \<open>A caller feeds the stream byte by byte and copies \<^verbatim>\<open>payload()\<close> out whenever a size
  comes back (\<^verbatim>\<open>UartLink::receive\<close> does exactly that).\<close>

fun parser_run :: "serial_parser \<Rightarrow> bytes \<Rightarrow> serial_parser \<times> bytes list" where
  "parser_run p [] = (p, [])"
| "parser_run p (b # bs) =
     (let (p', n) = SerialFrameParser_feed p b;
          (p'', out) = parser_run p' bs
      in (p'', if n = 0 then out else take n (sp_payload p') # out))"


section \<open>The payload buffer is never overrun\<close>

text \<open>The invariant the decoder keeps: the buffer has its fixed length, and wherever a
  payload byte is about to be written there is room for it.\<close>

definition parser_inv :: "serial_parser \<Rightarrow> bool" where
  "parser_inv p \<longleftrightarrow>
     length (sp_payload p) = SERIAL_MAX_PAYLOAD \<and>
     (sp_state p = ST_LENGTH_HIGH \<longrightarrow> sp_expected p < 256) \<and>
     (sp_state p = ST_PAYLOAD \<longrightarrow>
        sp_received p < sp_expected p \<and> sp_expected p \<le> SERIAL_MAX_PAYLOAD) \<and>
     (sp_state p \<in> {ST_CRC_LOW, ST_CRC_HIGH} \<longrightarrow>
        sp_received p = sp_expected p \<and> 0 < sp_expected p \<and> sp_expected p \<le> SERIAL_MAX_PAYLOAD)"

lemma parser_inv_init: "parser_inv SerialFrameParser_init"
  by (simp add: parser_inv_def SerialFrameParser_init_def)

lemma parser_inv_feed [inv_intros]:
  assumes "parser_inv p"
  shows "parser_inv (fst (SerialFrameParser_feed p b))"
proof -
  have "unat b < 256" using unsigned_less [of b, where ?'a = nat] by simp
  then show ?thesis using assms
    by (cases "sp_state p")
      (auto simp: parser_inv_def SerialFrameParser_feed_def Let_def)
qed

lemma feed_size_bound:
  assumes "parser_inv p" "snd (SerialFrameParser_feed p b) = n"
  shows "n \<le> SERIAL_MAX_PAYLOAD"
  using assms
  by (cases "sp_state p") (auto simp: parser_inv_def SerialFrameParser_feed_def Let_def split: if_splits)

lemma parser_run_append:
  "parser_run p (xs @ ys) =
     (let (q, a) = parser_run p xs; (r, b) = parser_run q ys in (r, a @ b))"
  by (induction xs arbitrary: p) (auto simp: Let_def split: prod.splits)

lemma parser_run_append2:
  "parser_run p xs = (q, a) \<Longrightarrow>
     parser_run p (xs @ ys) = (fst (parser_run q ys), a @ snd (parser_run q ys))"
  by (simp add: parser_run_append split_beta Let_def)

lemma fst_run_append: "fst (parser_run p (xs @ ys)) = fst (parser_run (fst (parser_run p xs)) ys)"
  and snd_run_append:
    "snd (parser_run p (xs @ ys)) = snd (parser_run p xs) @ snd (parser_run (fst (parser_run p xs)) ys)"
  by (simp_all add: parser_run_append split_beta Let_def)

lemma parser_inv_run: "parser_inv p \<Longrightarrow> parser_inv (fst (parser_run p bs))"
proof (induction bs arbitrary: p)
  case (Cons b bs)
  then have "parser_inv (fst (parser_run (fst (SerialFrameParser_feed p b)) bs))"
    by (blast intro: parser_inv_feed)
  then show ?case by (simp add: Let_def split_beta)
qed simp


section \<open>Decoding one frame\<close>

lemma crc16_append: "crc16 c (xs @ ys) = crc16 (crc16 c xs) ys"
  by (induction xs arbitrary: c) auto

lemma run_payload:
  assumes "sp_state p = ST_PAYLOAD" "bs \<noteq> []" "sp_received p + length bs = sp_expected p"
    and "sp_expected p \<le> length (sp_payload p)"
  shows "\<exists>buf. parser_run p bs =
           (p\<lparr>sp_payload := buf, sp_received := sp_expected p, sp_crc := crc16 (sp_crc p) bs,
              sp_state := ST_CRC_LOW\<rparr>, []) \<and>
         length buf = length (sp_payload p) \<and>
         take (sp_expected p) buf = take (sp_received p) (sp_payload p) @ bs"
  using assms
proof (induction bs arbitrary: p)
  case (Cons b bs)
  let ?q = "p\<lparr>sp_payload := (sp_payload p)[sp_received p := b], sp_received := sp_received p + 1,
              sp_crc := crc16 (sp_crc p) [b]\<rparr>"
  show ?case
  proof (cases "bs = []")
    case True
    then have "take (sp_expected p) ((sp_payload p)[sp_received p := b]) =
               take (sp_received p) (sp_payload p) @ [b]"
      using take_update_snoc [of "sp_received p" "sp_payload p" b] Cons.prems by simp
    then show ?thesis using Cons.prems True
      by (auto simp: SerialFrameParser_feed_def Let_def)
  next
    case False
    then have feed: "SerialFrameParser_feed p b = (?q, 0)"
      using Cons.prems by (auto simp: SerialFrameParser_feed_def Let_def neq_Nil_conv)
    have "\<exists>buf. parser_run ?q bs =
           (?q\<lparr>sp_payload := buf, sp_received := sp_expected ?q, sp_crc := crc16 (sp_crc ?q) bs,
              sp_state := ST_CRC_LOW\<rparr>, []) \<and>
         length buf = length (sp_payload ?q) \<and>
         take (sp_expected ?q) buf = take (sp_received ?q) (sp_payload ?q) @ bs"
      by (rule Cons.IH) (use Cons.prems False in auto)
    then show ?thesis using Cons.prems
      by (auto simp: feed Let_def take_update_snoc)
  qed
qed simp

text \<open>What the decoder makes of a frame whose length bytes are honest: the payload when the
  CRC bytes are those of the length and the payload, one more error otherwise.\<close>

definition frame_bytes :: "bytes \<Rightarrow> u8 \<Rightarrow> u8 \<Rightarrow> bytes" where
  "frame_bytes body c1 c2 =
     [SERIAL_SYNC0, SERIAL_SYNC1, of_nat (length body AND 0xFF), of_nat (drop_bit 8 (length body))]
     @ body @ [c1, c2]"

definition frame_crc :: "bytes \<Rightarrow> u16" where
  "frame_crc body =
     crc16 CRC16_INIT ([of_nat (length body AND 0xFF), of_nat (drop_bit 8 (length body))] @ body)"

lemma length_bytes_inverse:
  fixes n :: nat
  assumes "n \<le> SERIAL_MAX_PAYLOAD"
  shows "unat (of_nat (n AND 0xFF) :: u8) OR push_bit 8 (unat (of_nat (drop_bit 8 n) :: u8)) = n"
proof -
  have m: "(0xFF::nat) = mask 8" by (simp add: mask_eq_exp_minus_1)
  have "unat (of_nat (n AND 0xFF) :: u8) = take_bit 8 n"
    by (simp add: m flip: take_bit_eq_mask) (simp add: unat_of_nat take_bit_eq_mod)
  moreover have "unat (of_nat (drop_bit 8 n) :: u8) = drop_bit 8 n"
    using assms by (simp add: unat_of_nat drop_bit_eq_div SERIAL_MAX_PAYLOAD_def)
  moreover have "take_bit 8 n OR push_bit 8 (drop_bit 8 n) = n"
  proof (rule bit_eqI)
    fix m
    show "bit (take_bit 8 n OR push_bit 8 (drop_bit 8 n)) m = bit n m"
      by (cases "m < 8")
        (simp_all add: bit_or_iff bit_take_bit_iff bit_push_bit_iff bit_drop_bit_eq)
  qed
  ultimately show ?thesis by simp
qed

lemma run_frame:
  assumes p: "parser_inv p" "sp_state p = ST_SYNC0"
    and body: "body \<noteq> []" "length body \<le> SERIAL_MAX_PAYLOAD"
  shows "\<exists>q. parser_run p (frame_bytes body c1 c2) =
           (q, if frame_crc body = rd16 c1 c2 then [body] else []) \<and>
         parser_inv q \<and> sp_state q = ST_SYNC0 \<and>
         sp_errors q = (if frame_crc body = rd16 c1 c2 then sp_errors p else sp_errors p + 1)"
proof -
  let ?lo = "of_nat (length body AND 0xFF) :: u8" and ?hi = "of_nat (drop_bit 8 (length body)) :: u8"
  define q1 where "q1 = p\<lparr>sp_expected := length body, sp_received := 0,
      sp_crc := crc16 CRC16_INIT [?lo, ?hi], sp_state := ST_PAYLOAD\<rparr>"
  have len: "unat ?lo OR push_bit 8 (unat ?hi) = length body"
    using body(2) by (rule length_bytes_inverse)
  have head: "parser_run p [SERIAL_SYNC0, SERIAL_SYNC1, ?lo, ?hi] = (q1, [])"
    using p(2) body by (simp add: SerialFrameParser_feed_def Let_def len q1_def)
  have lenp: "length (sp_payload p) = SERIAL_MAX_PAYLOAD" using p(1) by (simp add: parser_inv_def)
  obtain buf where mid: "parser_run q1 body =
       (q1\<lparr>sp_payload := buf, sp_received := length body, sp_crc := frame_crc body,
           sp_state := ST_CRC_LOW\<rparr>, [])"
    and buf: "length buf = SERIAL_MAX_PAYLOAD" "take (length body) buf = body"
    using run_payload [of q1 body] body lenp
    by (auto simp: q1_def frame_crc_def)
  define q2 where "q2 = q1\<lparr>sp_payload := buf, sp_received := length body,
      sp_crc := frame_crc body, sp_state := ST_CRC_LOW\<rparr>"
  have crc: "(push_bit 8 (ucast c2) OR ucast c1 :: u16) = rd16 c1 c2"
    by (simp add: rd16_def or.commute)
  have tail: "snd (parser_run q2 [c1, c2]) = (if frame_crc body = rd16 c1 c2 then [body] else [])"
    "sp_state (fst (parser_run q2 [c1, c2])) = ST_SYNC0"
    "sp_errors (fst (parser_run q2 [c1, c2])) =
       (if frame_crc body = rd16 c1 c2 then sp_errors p else sp_errors p + 1)"
    using body buf by (simp_all add: q2_def q1_def SerialFrameParser_feed_def Let_def crc)
  let ?q = "fst (parser_run p (frame_bytes body c1 c2))"
  have "frame_bytes body c1 c2 = [SERIAL_SYNC0, SERIAL_SYNC1, ?lo, ?hi] @ body @ [c1, c2]"
    by (simp add: frame_bytes_def)
  then have whole: "parser_run p (frame_bytes body c1 c2) = parser_run q2 [c1, c2]"
    using parser_run_append2 [OF head] parser_run_append2 [OF mid] by (simp add: q2_def)
  have run: "parser_run p (frame_bytes body c1 c2) =
      (?q, if frame_crc body = rd16 c1 c2 then [body] else [])"
    "sp_state ?q = ST_SYNC0"
    "sp_errors ?q = (if frame_crc body = rd16 c1 c2 then sp_errors p else sp_errors p + 1)"
    unfolding whole tail [symmetric] by simp_all
  moreover have "parser_inv ?q" using p(1) by (rule parser_inv_run)
  ultimately show ?thesis by blast
qed


section \<open>Round trip, resynchronization\<close>

lemma encode_is_frame:
  assumes "pl \<noteq> []" "length pl \<le> SERIAL_MAX_PAYLOAD"
  shows "encodeSerialFrame pl = frame_bytes pl (byte_at (frame_crc pl) 0) (byte_at (frame_crc pl) 8)"
proof -
  have "ucast (x AND 0xFF) = byte_at x 0" for x :: u16
    by (rule bit_word_eqI)
      (auto simp: bit_byte_at bit_ucast_iff bit_and_iff mask_eq_exp_minus_1 [of 8, where ?'a = u16, simplified, symmetric]
        bit_mask_iff)
  then show ?thesis
    using assms
    by (simp add: encodeSerialFrame_def frame_bytes_def frame_crc_def Let_def byte_at_def)
qed

lemma length_encode:
  "pl \<noteq> [] \<Longrightarrow> length pl \<le> SERIAL_MAX_PAYLOAD \<Longrightarrow>
     length (encodeSerialFrame pl) = length pl + SERIAL_FRAME_OVERHEAD"
  by (simp add: encode_is_frame frame_bytes_def SERIAL_FRAME_OVERHEAD_def)

lemma run_encoded:
  assumes "parser_inv p" "sp_state p = ST_SYNC0" "pl \<noteq> []" "length pl \<le> SERIAL_MAX_PAYLOAD"
  shows "\<exists>q. parser_run p (encodeSerialFrame pl) = (q, [pl]) \<and>
           parser_inv q \<and> sp_state q = ST_SYNC0 \<and> sp_errors q = sp_errors p"
  using run_frame [OF assms, of "byte_at (frame_crc pl) 0" "byte_at (frame_crc pl) 8"]
  by (simp add: encode_is_frame [OF assms(3,4)])

lemma run_encoded_list:
  assumes "parser_inv p" "sp_state p = ST_SYNC0"
    and "list_all (\<lambda>pl. pl \<noteq> [] \<and> length pl \<le> SERIAL_MAX_PAYLOAD) pls"
  shows "\<exists>q. parser_run p (concat (map encodeSerialFrame pls)) = (q, pls) \<and>
           parser_inv q \<and> sp_state q = ST_SYNC0 \<and> sp_errors q = sp_errors p"
  using assms
proof (induction pls arbitrary: p)
  case (Cons pl pls)
  then obtain q where q: "parser_run p (encodeSerialFrame pl) = (q, [pl])"
    "parser_inv q" "sp_state q = ST_SYNC0" "sp_errors q = sp_errors p"
    using run_encoded [of p pl] by auto
  then show ?case using Cons.IH [of q] Cons.prems by (auto simp: parser_run_append2 [OF q(1)])
qed simp

text \<open>Bytes after which the decoder is hunting again, whatever it was doing, provided none of
  them opens a sync pair.\<close>

fun bytes_to_hunt :: "serial_parser \<Rightarrow> nat" where
  "bytes_to_hunt p =
     (case sp_state p of
        ST_SYNC0 \<Rightarrow> 0
      | ST_SYNC1 \<Rightarrow> SERIAL_MAX_PAYLOAD + 5
      | ST_LENGTH_LOW \<Rightarrow> SERIAL_MAX_PAYLOAD + 4
      | ST_LENGTH_HIGH \<Rightarrow> SERIAL_MAX_PAYLOAD + 3
      | ST_PAYLOAD \<Rightarrow> sp_expected p - sp_received p + 2
      | ST_CRC_LOW \<Rightarrow> 2
      | ST_CRC_HIGH \<Rightarrow> 1)"

lemma bytes_to_hunt_bound: "parser_inv p \<Longrightarrow> bytes_to_hunt p \<le> SERIAL_MAX_PAYLOAD + 5"
  by (auto simp: parser_inv_def split: parser_state.splits)

lemma feed_hunts:
  assumes "parser_inv p" "b \<noteq> SERIAL_SYNC0"
  shows "bytes_to_hunt (fst (SerialFrameParser_feed p b)) \<le> bytes_to_hunt p - 1"
  using assms
  by (cases "sp_state p") (auto simp: parser_inv_def SerialFrameParser_feed_def Let_def)

lemma run_hunts:
  assumes "parser_inv p" "SERIAL_SYNC0 \<notin> set gap"
  shows "bytes_to_hunt (fst (parser_run p gap)) \<le> bytes_to_hunt p - length gap"
  using assms
proof (induction gap arbitrary: p)
  case (Cons b gap)
  let ?q = "fst (SerialFrameParser_feed p b)"
  have "bytes_to_hunt (fst (parser_run ?q gap)) \<le> bytes_to_hunt ?q - length gap"
    using Cons by (auto intro: parser_inv_feed)
  moreover have "bytes_to_hunt ?q \<le> bytes_to_hunt p - 1"
    by (rule feed_hunts) (use Cons.prems in auto)
  ultimately show ?case by (simp add: Let_def split_beta del: bytes_to_hunt.simps)
qed simp


section \<open>What the CRC detects\<close>

lemma bit_push16: "bit (push_bit m (w::u16)) n \<longleftrightarrow> m \<le> n \<and> n < 16 \<and> bit w (n - m)"
  by (auto simp: bit_push_bit_iff)

lemma crc16_msb_bit: "x AND CRC16_MSB \<noteq> 0 \<longleftrightarrow> bit x 15"
proof -
  have m: "bit CRC16_MSB n \<longleftrightarrow> n = 15" for n
  proof -
    have e: "CRC16_MSB = 2 ^ 15" by (simp add: CRC16_MSB_def)
    show ?thesis by (simp only: e bit_exp_iff) (auto simp: possible_bit_def)
  qed
  show ?thesis by (auto simp: word_eq_bits bit_and_iff m)
qed

lemma bit_crc16_bit:
  "bit (crc16_bit x) n \<longleftrightarrow>
     n < 16 \<and> ((0 < n \<and> bit x (n - 1)) \<noteq> (bit x 15 \<and> bit CRC16_POLYNOMIAL n))"
proof -
  have "bit CRC16_POLYNOMIAL n \<Longrightarrow> n < 16" using bit_imp_le_length [of CRC16_POLYNOMIAL n] by simp
  then show ?thesis
    unfolding crc16_bit_def crc16_msb_bit
    by (cases "bit x 15") (simp_all only: bit_xor_iff bit_push16 if_True if_False, auto)
qed

lemma crc16_bit_xor: "crc16_bit (x XOR y) = crc16_bit x XOR crc16_bit y"
  by (rule bit_word_eqI) (auto simp: bit_crc16_bit bit_xor_iff)

lemma inj_crc16_bit: "inj crc16_bit"
proof (rule injI)
  fix x y assume eq: "crc16_bit x = crc16_bit y"
  have poly0: "bit CRC16_POLYNOMIAL 0" by (simp add: CRC16_POLYNOMIAL_def)
  have "bit (crc16_bit z) 0 \<longleftrightarrow> bit z 15" for z
    by (simp add: bit_crc16_bit poly0)
  with eq have msb: "bit x 15 = bit y 15" by metis
  show "x = y"
  proof (rule bit_word_eqI)
    fix n assume "n < LENGTH(16)"
    then consider "n = 15" | "n < 15" by fastforce
    then show "bit x n = bit y n"
    proof cases
      case 2
      have "bit (crc16_bit x) (Suc n) = bit (crc16_bit y) (Suc n)" by (simp only: eq)
      with 2 msb show ?thesis by (auto simp: bit_crc16_bit)
    qed (use msb in simp)
  qed
qed

lemma crc16_rounds_xor: "(crc16_bit ^^ n) (x XOR y) = (crc16_bit ^^ n) x XOR (crc16_bit ^^ n) y"
  by (induction n) (simp_all add: crc16_bit_xor)

lemma crc16_rounds_eq: "(crc16_bit ^^ n) x = (crc16_bit ^^ n) y \<longleftrightarrow> x = y"
  using inj_fn [OF inj_crc16_bit, of n] by (auto dest: injD)

lemma crc16_rounds_low: "n \<le> 8 \<Longrightarrow> (crc16_bit ^^ n) (ucast (b::u8)) = push_bit n (ucast b)"
proof (induction n)
  case (Suc n)
  have high: "bit b m \<Longrightarrow> m < 8" for m using bit_imp_le_length [of b m] by simp
  have "crc16_bit (push_bit n (ucast b)) = push_bit (Suc n) (ucast b)"
  proof (rule bit_word_eqI)
    fix m
    have "\<not> bit b (15 - n)" using Suc.prems high [of "15 - n"] by auto
    then show "bit (crc16_bit (push_bit n (ucast b))) m = bit (push_bit (Suc n) (ucast b :: u16)) m"
      by (simp only: bit_crc16_bit bit_push16 bit_ucast_iff) (cases m; auto)
  qed
  then show ?case using Suc by simp
qed simp

lemma crc16_state_eq: "crc16 c bs = crc16 d bs \<longleftrightarrow> c = d"
  by (induction bs arbitrary: c d) (simp_all add: crc16_byte_def crc16_rounds_eq xor_right_cancel)

lemma crc16_two_bytes: "crc16 c [a, b] = crc16 c [a', b'] \<longleftrightarrow> a = a' \<and> b = b'"
proof
  let ?M = "crc16_bit ^^ 8"
  assume "crc16 c [a, b] = crc16 c [a', b']"
  then have "?M (c XOR push_bit 8 (ucast a)) XOR push_bit 8 (ucast b) =
             ?M (c XOR push_bit 8 (ucast a')) XOR push_bit 8 (ucast b')"
    by (simp only: crc16.simps crc16_byte_def crc16_rounds_eq)
  then have "?M ((c XOR push_bit 8 (ucast a)) XOR (c XOR push_bit 8 (ucast a'))) =
             ?M (ucast b XOR ucast b')"
    unfolding crc16_rounds_low [OF order_refl, symmetric] crc16_rounds_xor xor_shift_eq
    by (simp only: crc16_rounds_xor)
  then have "(c XOR push_bit 8 (ucast a)) XOR (c XOR push_bit 8 (ucast a')) = ucast b XOR ucast b'"
    by (simp only: crc16_rounds_eq)
  then have eq: "push_bit 8 (ucast a) XOR push_bit 8 (ucast a') = (ucast b XOR ucast b' :: u16)"
    by (simp only: xor_cancel_outer)
  have "bit a n = bit a' n" if "n < 8" for n
  proof -
    have "bit (push_bit 8 (ucast a) XOR push_bit 8 (ucast a') :: u16) (8 + n) =
          bit (ucast b XOR ucast b' :: u16) (8 + n)" by (simp only: eq)
    with that show ?thesis
      by (auto simp: bit_xor_iff bit_push_bit_iff bit_ucast_iff dest: bit_imp_le_length)
  qed
  then have a: "a = a'" by (intro bit_word_eqI) simp
  with eq have "ucast b XOR ucast b' = (0::u16)" by simp
  then have "ucast b = (ucast b' :: u16)" by (simp only: xor_eq_zero_iff)
  then have "bit b n = bit b' n" if "n < 8" for n
    using that by (auto simp: bit_eq_iff bit_ucast_iff)
  then have "b = b'" by (intro bit_word_eqI) simp
  with a show "a = a' \<and> b = b'" by simp
qed simp

lemma crc16_one_byte: "crc16 c [a] = crc16 c [a'] \<longleftrightarrow> a = a'"
  using crc16_two_bytes [of c a 0 a' 0] crc16_state_eq [of "crc16 c [a]" "[0]" "crc16 c [a']"] by simp

lemma frame_crc_detects:
  assumes "length d = length d'" "length d \<le> 2" "d \<noteq> d'"
  shows "frame_crc (xs @ d @ ys) \<noteq> frame_crc (xs @ d' @ ys)"
proof -
  have "crc16 c d \<noteq> crc16 c d'" for c
  proof -
    consider "length d = 0" | "length d = 1" | "length d = 2" using assms(2) by linarith
    then show ?thesis
    proof cases
      case 2
      with assms obtain a a' where "d = [a]" "d' = [a']"
        using list_of_length_1 [of d] list_of_length_1 [of d'] by metis
      with assms(3) show ?thesis by (simp only: crc16_one_byte) simp
    next
      case 3
      with assms obtain a b a' b' where "d = [a, b]" "d' = [a', b']"
        using list_of_length_2 [of d] list_of_length_2 [of d'] by metis
      with assms(3) show ?thesis by (simp only: crc16_two_bytes) simp
    qed (use assms in simp)
  qed
  then show ?thesis
    using assms(1) by (simp add: frame_crc_def crc16_append crc16_state_eq)
qed


section \<open>Properties\<close>

lemma parser_inv_run_init: "parser_inv (fst (parser_run SerialFrameParser_init bs))"
  by (rule parser_inv_run [OF parser_inv_init])

text \<open>Whatever bytes the line delivers, the decoder keeps its 512-byte buffer, writes a
  payload byte only inside it, and never announces a payload longer than the buffer.\<close>

lemma serial_parser_memory_safe:
  "length (sp_payload (fst (parser_run SerialFrameParser_init bs))) = SERIAL_MAX_PAYLOAD \<and>
   (sp_state (fst (parser_run SerialFrameParser_init bs)) = ST_PAYLOAD \<longrightarrow>
      sp_received (fst (parser_run SerialFrameParser_init bs)) < SERIAL_MAX_PAYLOAD) \<and>
   snd (SerialFrameParser_feed (fst (parser_run SerialFrameParser_init bs)) b) \<le> SERIAL_MAX_PAYLOAD"
  using parser_inv_run_init [of bs] feed_size_bound [OF parser_inv_run_init [of bs] refl, of b]
  by (auto simp: parser_inv_def)

lemma serial_parser_memory_safe_example:
  "length (sp_payload (fst (parser_run SerialFrameParser_init [0xA5, 0x5A, 2, 0, 7]))) = 512 \<and>
   sp_received (fst (parser_run SerialFrameParser_init [0xA5, 0x5A, 2, 0, 7])) < 512"
proof -
  have "sp_state (fst (parser_run SerialFrameParser_init [0xA5, 0x5A, 2, 0, 7])) = ST_PAYLOAD"
    by (simp add: SerialFrameParser_feed_def SerialFrameParser_init_def SERIAL_SYNC0_def
        SERIAL_SYNC1_def SERIAL_MAX_PAYLOAD_def Let_def)
  then show ?thesis
    using serial_parser_memory_safe [of "[0xA5, 0x5A, 2, 0, 7]" 0] by (simp only: SERIAL_MAX_PAYLOAD_def)
qed

text \<open>(C24) Every sequence of payloads of 1 to 512 bytes survives the line: encoded one after the
  other and fed to a fresh decoder, exactly those payloads come out, in order, with no error
  counted.\<close>

theorem serial_stream_roundtrip:
  assumes "list_all (\<lambda>pl. pl \<noteq> [] \<and> length pl \<le> SERIAL_MAX_PAYLOAD) pls"
  shows "snd (parser_run SerialFrameParser_init (concat (map encodeSerialFrame pls))) = pls \<and>
         sp_errors (fst (parser_run SerialFrameParser_init (concat (map encodeSerialFrame pls)))) = 0"
  using run_encoded_list [OF parser_inv_init _ assms]
  by (auto simp: SerialFrameParser_init_def)

theorem serial_stream_roundtrip_witness:
  "snd (parser_run SerialFrameParser_init (concat (map encodeSerialFrame [[1, 0xA5], [0x5A]]))) =
     [[1, 0xA5], [0x5A]]"
  using serial_stream_roundtrip [of "[[1, 0xA5], [0x5A]]"] by (simp add: SERIAL_MAX_PAYLOAD_def)

text \<open>(C36) The decoder finds the stream again after any loss: whatever it was fed before, once
  517 bytes without a first sync byte went by, the next frame is delivered, payload and
  all.\<close>

theorem serial_resynchronizes:
  assumes "SERIAL_SYNC0 \<notin> set gap" "SERIAL_MAX_PAYLOAD + 5 \<le> length gap"
    and "pl \<noteq> []" "length pl \<le> SERIAL_MAX_PAYLOAD"
  shows "snd (parser_run SerialFrameParser_init (garbage @ gap @ encodeSerialFrame pl)) =
         snd (parser_run SerialFrameParser_init (garbage @ gap)) @ [pl]"
proof -
  let ?p = "fst (parser_run SerialFrameParser_init garbage)"
  let ?q = "fst (parser_run ?p gap)"
  have p: "parser_inv ?p" by (rule parser_inv_run_init)
  have q: "parser_inv ?q" by (rule parser_inv_run [OF p])
  have "bytes_to_hunt ?q = 0"
    using run_hunts [OF p assms(1)] bytes_to_hunt_bound [OF p] assms(2) by linarith
  then have "sp_state ?q = ST_SYNC0" by (auto split: parser_state.splits)
  then have "snd (parser_run ?q (encodeSerialFrame pl)) = [pl]"
    using run_encoded [OF q _ assms(3,4)] by auto
  then show ?thesis
    by (simp add: parser_run_append split_beta Let_def)
qed

theorem serial_resynchronizes_witness:
  "snd (parser_run SerialFrameParser_init
          ([0xA5, 0x5A, 0xFF, 1, 9] @ replicate 517 0 @ encodeSerialFrame [4, 2])) =
   snd (parser_run SerialFrameParser_init ([0xA5, 0x5A, 0xFF, 1, 9] @ replicate 517 0)) @ [[4, 2]]"
  by (rule serial_resynchronizes) (simp_all add: SERIAL_SYNC0_def SERIAL_MAX_PAYLOAD_def)

text \<open>The CRC catches every corruption confined to two neighbouring payload bytes: such a
  frame yields no payload, costs exactly one error, and leaves the decoder hunting.\<close>

lemma serial_burst_detected:
  assumes "parser_inv p" "sp_state p = ST_SYNC0"
    and "length (xs @ d @ ys) \<le> SERIAL_MAX_PAYLOAD"
    and "length d' = length d" "length d \<le> 2" "d' \<noteq> d"
  shows "\<exists>q. parser_run p (take (4 + length xs) (encodeSerialFrame (xs @ d @ ys)) @ d' @
                         drop (4 + length xs + length d) (encodeSerialFrame (xs @ d @ ys))) = (q, []) \<and>
           sp_state q = ST_SYNC0 \<and> sp_errors q = sp_errors p + 1"
proof -
  let ?good = "xs @ d @ ys" and ?bad = "xs @ d' @ ys"
  have ne: "?good \<noteq> []" "?bad \<noteq> []" and len: "length ?bad \<le> SERIAL_MAX_PAYLOAD"
    and same: "length ?bad = length ?good"
    using assms by auto
  let ?c1 = "byte_at (frame_crc ?good) 0" and ?c2 = "byte_at (frame_crc ?good) 8"
  have e: "4 + length xs = Suc (Suc (Suc (Suc (length xs))))"
    "4 + length xs + length d = Suc (Suc (Suc (Suc (length xs + length d))))" by simp_all
  have "take (4 + length xs) (encodeSerialFrame ?good) @ d' @
          drop (4 + length xs + length d) (encodeSerialFrame ?good) = frame_bytes ?bad ?c1 ?c2"
    using encode_is_frame [OF ne(1) assms(3)] same by (simp add: frame_bytes_def e)
  moreover have "frame_crc ?bad \<noteq> rd16 ?c1 ?c2"
    using frame_crc_detects [of d' d xs ys] assms(4-6) by simp
  ultimately show ?thesis
    using run_frame [OF assms(1,2) ne(2) len, of ?c1 ?c2] by auto
qed

lemma serial_burst_detected_example:
  "\<exists>q. parser_run SerialFrameParser_init
         (take (4 + length [7::u8]) (encodeSerialFrame ([7] @ [1, 2] @ [3])) @ [9, 2] @
          drop (4 + length [7::u8] + length [1, 2::u8]) (encodeSerialFrame ([7] @ [1, 2] @ [3]))) = (q, []) \<and>
       sp_state q = ST_SYNC0 \<and> sp_errors q = sp_errors SerialFrameParser_init + 1"
  by (rule serial_burst_detected)
    (simp_all add: parser_inv_init SERIAL_MAX_PAYLOAD_def, simp add: SerialFrameParser_init_def)

end
