(* ===== verification/Uart_Link.thy ===== *)
theory Uart_Link
  imports Serial_Framing
begin

text \<open>
  The point-to-point link over a byte stream (\<^verbatim>\<open>components/transport/src/uart_link.cpp\<close>): a
  send wraps the frame in the serial framing, a receive feeds the bytes read so far to the
  decoder until a frame is whole or the stream has nothing left. The byte stream is the
  environment (\<^verbatim>\<open>AbsByteStream\<close>): what its successive reads return and whether it takes
  each write are given, arbitrary, in the link's state.

  The interface a link offers to the transport is the locale \<open>abs_link\<close>: a receive
  returns either nothing or a non-empty frame that fits the caller's buffer, and every frame
  handed over consumes part of what was pending, so that the drain loop of the transport ends.
\<close>


section \<open>The contract of a link\<close>

text \<open>The drain loop of \<^verbatim>\<open>Transport::poll\<close> over one link: receive until the link returns 0.
  The fuel bounds the rounds; \<open>drain_fuel\<close> below shows that any fuel above what the link has
  pending gives the same result.\<close>

fun link_drain :: "('l \<Rightarrow> nat \<Rightarrow> 'l \<times> bytes) \<Rightarrow> nat \<Rightarrow> 'l \<Rightarrow> nat \<Rightarrow> 'l \<times> bytes list" where
  "link_drain receive 0 l capacity = (l, [])"
| "link_drain receive (Suc fuel) l capacity =
     (case receive l capacity of (l', f) \<Rightarrow>
        if f = [] then (l', []) else apsnd ((#) f) (link_drain receive fuel l' capacity))"

locale abs_link =
  fixes receive :: "'l \<Rightarrow> nat \<Rightarrow> 'l \<times> bytes"
    and pending :: "'l \<Rightarrow> nat"
  assumes receive_fits: "receive l capacity = (l', f) \<Longrightarrow> length f \<le> capacity"
    and receive_consumes: "receive l capacity = (l', f) \<Longrightarrow> f \<noteq> [] \<Longrightarrow> pending l' < pending l"
begin

lemma drain_frames_fit:
  "f \<in> set (snd (link_drain receive fuel l capacity)) \<Longrightarrow> f \<noteq> [] \<and> length f \<le> capacity"
  by (induction fuel arbitrary: l) (auto split: prod.splits if_splits dest: receive_fits)

lemma drain_length: "length (snd (link_drain receive fuel l capacity)) \<le> pending l"
proof (induction fuel arbitrary: l)
  case (Suc fuel)
  obtain l' f where r: "receive l capacity = (l', f)" by fastforce
  show ?case
    using Suc [of l'] receive_consumes [OF r] r by (auto split: if_splits)
qed simp

text \<open>Fuel beyond what is pending changes nothing: the loop of the transport terminates.\<close>

lemma drain_fuel:
  "pending l < n \<Longrightarrow> pending l < m \<Longrightarrow> link_drain receive n l capacity = link_drain receive m l capacity"
proof (induction n arbitrary: l m)
  case (Suc n)
  obtain l' f where r: "receive l capacity = (l', f)" by fastforce
  obtain k where m: "m = Suc k" using Suc.prems by (cases m) auto
  show ?case
  proof (cases "f = []")
    case False
    then have "pending l' < n" "pending l' < k" using receive_consumes [OF r] Suc.prems m by simp_all
    then show ?thesis using Suc.IH [of l' k] r m by simp
  qed (simp add: r m)
qed simp

end


section \<open>The UART link\<close>

record byte_stream =
  bs_reads :: "bytes list"
  bs_accepts :: "bool list"
  bs_written :: bytes

text \<open>\<^verbatim>\<open>AbsByteStream::read\<close>: the next bytes of the line, at most \<open>capacity\<close> of them (the
  rest stays pending), none when nothing is pending.\<close>

definition AbsByteStream_read :: "byte_stream \<Rightarrow> nat \<Rightarrow> byte_stream \<times> bytes" where
  "AbsByteStream_read s capacity =
     (case bs_reads s of
        [] \<Rightarrow> (s, [])
      | r # rs \<Rightarrow>
          (s\<lparr>bs_reads := (if length r \<le> capacity then rs else drop capacity r # rs)\<rparr>,
           take capacity r))"

text \<open>\<^verbatim>\<open>AbsByteStream::write\<close>: the medium says whether it took every byte.\<close>

definition AbsByteStream_write :: "byte_stream \<Rightarrow> bytes \<Rightarrow> byte_stream \<times> bool" where
  "AbsByteStream_write s data =
     (case bs_accepts s of
        False # as \<Rightarrow> (s\<lparr>bs_accepts := as\<rparr>, False)
      | _ \<Rightarrow> (s\<lparr>bs_accepts := tl (bs_accepts s), bs_written := bs_written s @ data\<rparr>, True))"

definition READ_CHUNK :: nat where "READ_CHUNK = 64"

record uart_link =
  ul_stream :: byte_stream
  ul_parser :: serial_parser
  ul_pending :: bytes \<comment> \<open>\<^verbatim>\<open>m_pending[m_pendingIndex .. m_pendingSize)\<close>\<close>
  ul_oversized :: u32

definition UartLink_init :: "byte_stream \<Rightarrow> uart_link" where
  "UartLink_init s =
     \<lparr>ul_stream = s, ul_parser = SerialFrameParser_init, ul_pending = [], ul_oversized = 0\<rparr>"

definition UartLink_send :: "uart_link \<Rightarrow> bytes \<Rightarrow> uart_link \<times> bool" where
  "UartLink_send l data =
     (let frame = encodeSerialFrame data in
      if length frame = 0 then (l, False)
      else let (s, ok) = AbsByteStream_write (ul_stream l) frame in (l\<lparr>ul_stream := s\<rparr>, ok))"

definition UartLink_broadcast :: "uart_link \<Rightarrow> bytes \<Rightarrow> uart_link \<times> bool" where
  "UartLink_broadcast l data = UartLink_send l data"

definition UartLink_rxErrors :: "uart_link \<Rightarrow> u32" where
  "UartLink_rxErrors l = sp_errors (ul_parser l) + ul_oversized l"

text \<open>The inner \<^verbatim>\<open>while\<close> of \<^verbatim>\<open>UartLink::receive\<close>: the pending bytes up to the first frame that
  fits the caller.\<close>

fun uart_scan :: "serial_parser \<Rightarrow> bytes \<Rightarrow> u32 \<Rightarrow> nat \<Rightarrow> serial_parser \<times> bytes \<times> u32 \<times> bytes" where
  "uart_scan p [] oversized capacity = (p, [], oversized, [])"
| "uart_scan p (b # bs) oversized capacity =
     (let (p', frameSize) = SerialFrameParser_feed p b in
      if frameSize = 0 then uart_scan p' bs oversized capacity
      else if frameSize > capacity then uart_scan p' bs (oversized + 1) capacity
      else (p', bs, oversized, take frameSize (sp_payload p')))"

definition stream_size :: "byte_stream \<Rightarrow> nat" where
  "stream_size s = sum_list (map length (bs_reads s)) + length (bs_reads s)"

lemma read_shrinks:
  assumes "AbsByteStream_read s READ_CHUNK = (s', r)" "r \<noteq> []"
  shows "stream_size s' + length r \<le> stream_size s" "stream_size s' < stream_size s"
  using assms
  by (auto simp: AbsByteStream_read_def stream_size_def READ_CHUNK_def split: list.splits if_splits)

text \<open>\<^verbatim>\<open>UartLink::receive\<close>: the outer \<^verbatim>\<open>for (;;)\<close>, refilling the pending bytes from the stream
  until a frame is whole or nothing is left. The empty list is its return value 0.\<close>

function UartLink_receive :: "uart_link \<Rightarrow> nat \<Rightarrow> uart_link \<times> bytes" where
  "UartLink_receive l capacity =
     (let (p, rest, oversized, frame) =
            uart_scan (ul_parser l) (ul_pending l) (ul_oversized l) capacity;
          l = l\<lparr>ul_parser := p, ul_pending := rest, ul_oversized := oversized\<rparr>
      in if frame \<noteq> [] then (l, frame)
         else let (s, r) = AbsByteStream_read (ul_stream l) READ_CHUNK
              in if r = [] then (l\<lparr>ul_stream := s, ul_pending := []\<rparr>, [])
                 else UartLink_receive (l\<lparr>ul_stream := s, ul_pending := r\<rparr>) capacity)"
  by pat_completeness auto
termination
proof (relation "measure (\<lambda>(l, capacity). stream_size (ul_stream l))", goal_cases)
  case (2 l capacity x p y rest z oversized frame l' xa s r)
  then show ?case
    using read_shrinks(2) [of "ul_stream l" s r] by simp
qed simp

declare UartLink_receive.simps [simp del]


section \<open>The UART link keeps the contract\<close>

definition uart_backlog :: "uart_link \<Rightarrow> nat" where
  "uart_backlog l = length (ul_pending l) + stream_size (ul_stream l)"

lemma scan_fits: "uart_scan p bs ov capacity = (p', rest, ov', f) \<Longrightarrow> length f \<le> capacity"
  by (induction p bs ov capacity rule: uart_scan.induct)
    (auto simp: Let_def split: prod.splits if_splits)

lemma scan_consumes:
  "uart_scan p bs ov capacity = (p', rest, ov', f) \<Longrightarrow>
     length rest \<le> length bs \<and> (f \<noteq> [] \<longrightarrow> length rest < length bs)"
  by (induction bs arbitrary: p ov)
    (fastforce simp: Let_def split: prod.splits if_splits)+

lemma receive_unfold:
  assumes "uart_scan (ul_parser l) (ul_pending l) (ul_oversized l) capacity = (p, rest, ov, frame)"
    and "AbsByteStream_read (ul_stream l) READ_CHUNK = (s, r)"
  shows "UartLink_receive l capacity =
      (if frame \<noteq> []
       then (l\<lparr>ul_parser := p, ul_pending := rest, ul_oversized := ov\<rparr>, frame)
       else if r = []
       then (l\<lparr>ul_parser := p, ul_oversized := ov, ul_stream := s, ul_pending := []\<rparr>, [])
       else UartLink_receive
              (l\<lparr>ul_parser := p, ul_oversized := ov, ul_stream := s, ul_pending := r\<rparr>) capacity)"
  by (subst UartLink_receive.simps) (simp add: assms Let_def)

lemma receive_fits_uart: "UartLink_receive l capacity = (l', f) \<Longrightarrow> length f \<le> capacity"
proof (induction l capacity rule: UartLink_receive.induct)
  case (1 l capacity)
  then show ?case
    by (subst (asm) (2) UartLink_receive.simps)
      (auto simp: Let_def split: prod.splits if_splits dest: scan_fits)
qed

lemma receive_backlog:
  "UartLink_receive l capacity = (l', f) \<Longrightarrow>
     uart_backlog l' \<le> uart_backlog l \<and> (f \<noteq> [] \<longrightarrow> uart_backlog l' < uart_backlog l)"
proof (induction "stream_size (ul_stream l)" arbitrary: l rule: less_induct)
  case less
  obtain p rest ov frame where sc:
    "uart_scan (ul_parser l) (ul_pending l) (ul_oversized l) capacity = (p, rest, ov, frame)"
    by (metis prod_cases4)
  obtain s r where rd: "AbsByteStream_read (ul_stream l) READ_CHUNK = (s, r)" by fastforce
  let ?n = "l\<lparr>ul_parser := p, ul_oversized := ov, ul_stream := s, ul_pending := r\<rparr>"
  note eq = receive_unfold [OF sc rd]
  have rest: "length rest \<le> length (ul_pending l)" "frame \<noteq> [] \<Longrightarrow> length rest < length (ul_pending l)"
    using scan_consumes [OF sc] by auto
  show ?case
  proof (cases "frame = [] \<and> r \<noteq> []")
    case True
    then have "uart_backlog l' \<le> uart_backlog ?n \<and> (f \<noteq> [] \<longrightarrow> uart_backlog l' < uart_backlog ?n)"
      using less eq read_shrinks(2) [OF rd] by simp
    moreover have "uart_backlog ?n \<le> uart_backlog l"
      using read_shrinks(1) [OF rd] True by (simp add: uart_backlog_def)
    ultimately show ?thesis by linarith
  next
    case False
    have "r = [] \<Longrightarrow> stream_size s \<le> stream_size (ul_stream l)"
      using rd by (auto simp: AbsByteStream_read_def stream_size_def READ_CHUNK_def split: list.splits if_splits)
    then show ?thesis
      using False rest less.prems unfolding eq by (auto simp: uart_backlog_def split: if_splits)
  qed
qed

interpretation uart: abs_link UartLink_receive uart_backlog
proof
  fix l capacity l' f
  assume r: "UartLink_receive l capacity = (l', f)"
  show "length f \<le> capacity" by (rule receive_fits_uart [OF r])
  show "uart_backlog l' < uart_backlog l" if "f \<noteq> []" using receive_backlog [OF r] that by simp
qed


section \<open>What a receive delivers\<close>

text \<open>The link delivers what the decoder makes of the bytes, less the frames too long for the
  caller, however the line cuts the bytes into reads.\<close>

abbreviation fits :: "nat \<Rightarrow> bytes \<Rightarrow> bool" where
  "fits capacity f \<equiv> length f \<le> capacity"

lemma scan_spec:
  assumes "parser_inv p" "uart_scan p bs ov capacity = (p', rest, ov', f)"
  shows "\<exists>used. bs = used @ rest \<and> p' = fst (parser_run p used) \<and>
           filter (fits capacity) (snd (parser_run p used)) = (if f = [] then [] else [f]) \<and>
           (f = [] \<longrightarrow> rest = [])"
  using assms
proof (induction bs arbitrary: p ov)
  case (Cons b bs)
  obtain q n where fd: "SerialFrameParser_feed p b = (q, n)" by fastforce
  have q: "parser_inv q" "n \<le> length (sp_payload q)"
    using parser_inv_feed [OF Cons.prems(1), of b] feed_size_bound [OF Cons.prems(1), of b] fd
    by (auto simp: parser_inv_def)
  have run: "parser_run p (b # us) = (fst (parser_run q us),
      if n = 0 then snd (parser_run q us) else take n (sp_payload q) # snd (parser_run q us))" for us
    by (simp add: fd Let_def split_beta)
  have step: ?case
    if sc: "uart_scan q bs ov2 capacity = (p', rest, ov', f)" and n: "n = 0 \<or> capacity < n" for ov2
  proof -
    obtain used where "bs = used @ rest" "p' = fst (parser_run q used)"
      "filter (fits capacity) (snd (parser_run q used)) = (if f = [] then [] else [f])"
      "f = [] \<longrightarrow> rest = []"
      using Cons.IH [OF q(1) sc] by blast
    then show ?thesis using n q(2)
      by (intro exI [of _ "b # used"]) (auto simp: run simp del: parser_run.simps)
  qed
  show ?case
  proof (cases "n = 0 \<or> capacity < n")
    case True
    then show ?thesis using Cons.prems(2) step by (auto simp: fd split: if_splits)
  next
    case False
    then show ?thesis using Cons.prems(2) q
      by (intro exI [of _ "[b]"]) (auto simp: fd Let_def)
  qed
qed simp

text \<open>The bytes still to come on a link, and the reads being all non-empty: a stream that
  answers 0 has nothing pending.\<close>

definition uart_bytes :: "uart_link \<Rightarrow> bytes" where
  "uart_bytes l = ul_pending l @ concat (bs_reads (ul_stream l))"

definition uart_ok :: "uart_link \<Rightarrow> bool" where
  "uart_ok l \<longleftrightarrow> parser_inv (ul_parser l) \<and> [] \<notin> set (bs_reads (ul_stream l))"

lemma read_spec:
  assumes "AbsByteStream_read s READ_CHUNK = (s', r)" "[] \<notin> set (bs_reads s)"
  shows "concat (bs_reads s) = r @ concat (bs_reads s')" "[] \<notin> set (bs_reads s')"
    "r = [] \<longleftrightarrow> bs_reads s = []"
  using assms
  by (auto simp: AbsByteStream_read_def READ_CHUNK_def split: list.splits if_splits)

lemma receive_spec:
  assumes "uart_ok l" "UartLink_receive l capacity = (l', f)"
  shows "uart_ok l' \<and> (\<exists>used. uart_bytes l = used @ uart_bytes l' \<and>
           ul_parser l' = fst (parser_run (ul_parser l) used) \<and>
           filter (fits capacity) (snd (parser_run (ul_parser l) used)) = (if f = [] then [] else [f]) \<and>
           (f = [] \<longrightarrow> uart_bytes l' = []))"
  using assms
proof (induction "stream_size (ul_stream l)" arbitrary: l rule: less_induct)
  case less
  obtain p rest ov frame where sc:
    "uart_scan (ul_parser l) (ul_pending l) (ul_oversized l) capacity = (p, rest, ov, frame)"
    by (metis prod_cases4)
  obtain s r where rd: "AbsByteStream_read (ul_stream l) READ_CHUNK = (s, r)" by fastforce
  let ?n = "l\<lparr>ul_parser := p, ul_oversized := ov, ul_stream := s, ul_pending := r\<rparr>"
  note eq = receive_unfold [OF sc rd]
  have inv: "parser_inv (ul_parser l)" and nn: "[] \<notin> set (bs_reads (ul_stream l))"
    using less.prems(1) by (simp_all add: uart_ok_def)
  obtain used where used: "ul_pending l = used @ rest" "p = fst (parser_run (ul_parser l) used)"
    "filter (fits capacity) (snd (parser_run (ul_parser l) used)) = (if frame = [] then [] else [frame])"
    "frame = [] \<longrightarrow> rest = []"
    using scan_spec [OF inv sc] by blast
  have pinv: "parser_inv p" using parser_inv_run [OF inv] used(2) by simp
  note rds = read_spec [OF rd nn]
  show ?case
  proof (cases "frame = [] \<and> r \<noteq> []")
    case True
    have "uart_ok ?n" using pinv rds by (simp add: uart_ok_def)
    then obtain used' where u': "uart_ok l'" "uart_bytes ?n = used' @ uart_bytes l'"
       "ul_parser l' = fst (parser_run p used')"
       "filter (fits capacity) (snd (parser_run p used')) = (if f = [] then [] else [f])"
       "f = [] \<longrightarrow> uart_bytes l' = []"
      using less.hyps [of ?n] less.prems(2) True eq read_shrinks(2) [OF rd] by auto
    have "uart_bytes l = (used @ used') @ uart_bytes l'"
      using u'(2) used True rds by (simp add: uart_bytes_def)
    then show ?thesis
      using u' used(2,3) True
      by (intro conjI exI [of _ "used @ used'"]) (simp_all add: fst_run_append snd_run_append)
  next
    case False
    then show ?thesis
      using less.prems(2) used pinv rds nn unfolding eq
      by (intro conjI exI [of _ used]) (auto simp: uart_ok_def uart_bytes_def split: if_splits)
  qed
qed

lemma drain_spec:
  assumes "uart_ok l" "uart_backlog l < fuel"
  shows "snd (link_drain UartLink_receive fuel l capacity) =
         filter (fits capacity) (snd (parser_run (ul_parser l) (uart_bytes l)))"
  using assms
proof (induction fuel arbitrary: l)
  case (Suc fuel)
  obtain l' f where r: "UartLink_receive l capacity = (l', f)" by fastforce
  obtain used where u: "uart_ok l'" "uart_bytes l = used @ uart_bytes l'"
    "ul_parser l' = fst (parser_run (ul_parser l) used)"
    "filter (fits capacity) (snd (parser_run (ul_parser l) used)) = (if f = [] then [] else [f])"
    "f = [] \<longrightarrow> uart_bytes l' = []"
    using receive_spec [OF Suc.prems(1) r] by blast
  have run: "parser_run (ul_parser l) used = (ul_parser l', snd (parser_run (ul_parser l) used))"
    using u(3) by simp
  show ?case
  proof (cases "f = []")
    case False
    then have "uart_backlog l' < fuel" using receive_backlog [OF r] Suc.prems(2) by simp
    from Suc.IH [OF u(1) this] False show ?thesis
      using u by (simp add: r parser_run_append2 [OF run])
  qed (use u in \<open>simp add: r\<close>)
qed simp


section \<open>Properties\<close>

text \<open>A UART link refuses every frame longer than 512 bytes, header included, and sends
  nothing of it; a shorter non-empty frame is refused only when the medium refuses it.\<close>

lemma uart_send_bound:
  "snd (UartLink_send l data) =
     (data \<noteq> [] \<and> length data \<le> SERIAL_MAX_PAYLOAD \<and>
      snd (AbsByteStream_write (ul_stream l) (encodeSerialFrame data)))"
proof (cases "data \<noteq> [] \<and> length data \<le> SERIAL_MAX_PAYLOAD")
  case True
  then have "length (encodeSerialFrame data) \<noteq> 0"
    by (simp add: length_encode SERIAL_FRAME_OVERHEAD_def)
  with True show ?thesis by (simp add: UartLink_send_def Let_def split_beta)
next
  case False
  then have "encodeSerialFrame data = []" by (auto simp: encodeSerialFrame_def Let_def)
  with False show ?thesis by (auto simp: UartLink_send_def)
qed

text \<open>A run of sends, and the frames the link said it took.\<close>

fun UartLink_sends :: "uart_link \<Rightarrow> bytes list \<Rightarrow> uart_link \<times> bytes list" where
  "UartLink_sends l [] = (l, [])"
| "UartLink_sends l (f # fs) =
     (let (l, ok) = UartLink_send l f; (l, taken) = UartLink_sends l fs in (l, if ok then f # taken else taken))"

lemma send_cases:
  assumes "UartLink_send l f = (l', ok)"
  shows "bs_written (ul_stream l') = bs_written (ul_stream l) @ (if ok then encodeSerialFrame f else [])"
    and "ok \<Longrightarrow> f \<noteq> [] \<and> length f \<le> SERIAL_MAX_PAYLOAD"
    and "list_all (\<lambda>a. a) (bs_accepts (ul_stream l)) \<Longrightarrow>
      list_all (\<lambda>a. a) (bs_accepts (ul_stream l')) \<and> (ok \<longleftrightarrow> f \<noteq> [] \<and> length f \<le> SERIAL_MAX_PAYLOAD)"
proof -
  show "bs_written (ul_stream l') = bs_written (ul_stream l) @ (if ok then encodeSerialFrame f else [])"
    using assms by (auto simp: UartLink_send_def AbsByteStream_write_def Let_def split: if_splits list.splits bool.splits)
  have ok: "ok = (f \<noteq> [] \<and> length f \<le> SERIAL_MAX_PAYLOAD \<and> snd (AbsByteStream_write (ul_stream l) (encodeSerialFrame f)))"
    using uart_send_bound [of l f] assms by simp
  then show "ok \<Longrightarrow> f \<noteq> [] \<and> length f \<le> SERIAL_MAX_PAYLOAD" by blast
  assume a: "list_all (\<lambda>a. a) (bs_accepts (ul_stream l))"
  then have w: "snd (AbsByteStream_write (ul_stream l) d)" "list_all (\<lambda>a. a) (bs_accepts (fst (AbsByteStream_write (ul_stream l) d)))" for d
    by (cases "bs_accepts (ul_stream l)"; auto simp: AbsByteStream_write_def)+
  have "list_all (\<lambda>a. a) (bs_accepts (ul_stream l'))"
    using assms a w(2) [of "encodeSerialFrame f"] by (auto simp: UartLink_send_def Let_def split_beta split: if_splits)
  then show "list_all (\<lambda>a. a) (bs_accepts (ul_stream l')) \<and> (ok \<longleftrightarrow> f \<noteq> [] \<and> length f \<le> SERIAL_MAX_PAYLOAD)" using ok w(1) by blast
qed

lemma sends_spec:
  assumes "UartLink_sends l fs = (l', taken)"
  shows "bs_written (ul_stream l') = bs_written (ul_stream l) @ concat (map encodeSerialFrame taken) \<and>
    list_all (\<lambda>f. f \<noteq> [] \<and> length f \<le> SERIAL_MAX_PAYLOAD) taken \<and>
    (list_all (\<lambda>a. a) (bs_accepts (ul_stream l)) \<longrightarrow> taken = filter (\<lambda>f. f \<noteq> [] \<and> length f \<le> SERIAL_MAX_PAYLOAD) fs)"
  using assms
proof (induction fs arbitrary: l taken)
  case (Cons f fs)
  obtain m ok rest where s: "UartLink_send l f = (m, ok)" "UartLink_sends m fs = (l', rest)" "taken = (if ok then f # rest else rest)"
    using Cons.prems by (auto split: prod.splits)
  show ?case using Cons.IH [OF s(2)] send_cases [OF s(1)] by (cases ok) (auto simp: s(3))
qed simp

text \<open>(C35) A UART link is transparent. One end sends any frames, over a medium that takes or refuses each write
  as it likes, and the other end's line carries the bytes the sending end wrote, cut into reads in any
  way. Then the receive loop of the other end, with a buffer of at least 512 bytes, gives exactly the
  frames whose send reported success, the same bytes in the same order; and when the medium refuses
  nothing those are all the frames of 1 to 512 bytes.\<close>

theorem uart_link_transparent:
  assumes "UartLink_sends a frames = (a', taken)"
    and "bs_written (ul_stream a') = bs_written (ul_stream a) @ concat reads" "[] \<notin> set reads"
    and "SERIAL_MAX_PAYLOAD \<le> capacity" "b = UartLink_init \<lparr>bs_reads = reads, bs_accepts = accepts, bs_written = written\<rparr>"
    and "uart_backlog b < fuel"
  shows "snd (link_drain UartLink_receive fuel b capacity) = taken \<and>
    (list_all (\<lambda>answer. answer) (bs_accepts (ul_stream a)) \<longrightarrow> taken = filter (\<lambda>f. f \<noteq> [] \<and> length f \<le> SERIAL_MAX_PAYLOAD) frames)"
proof -
  note s = sends_spec [OF assms(1)]
  have b: "uart_ok b" "ul_parser b = SerialFrameParser_init" "uart_bytes b = concat reads"
    using assms(3) by (simp_all add: assms(5) uart_ok_def uart_bytes_def UartLink_init_def parser_inv_init)
  have "concat reads = concat (map encodeSerialFrame taken)" using s assms(2) by simp
  then have "snd (link_drain UartLink_receive fuel b capacity) =
      filter (fits capacity) (snd (parser_run SerialFrameParser_init (concat (map encodeSerialFrame taken))))"
    using drain_spec [OF b(1) assms(6)] by (simp only: b)
  also have "\<dots> = filter (fits capacity) taken"
    using run_encoded_list [OF parser_inv_init, of taken] s by (auto simp: SerialFrameParser_init_def)
  also have "\<dots> = taken" by (rule filter_True) (use s assms(4) in \<open>auto simp: list_all_iff\<close>)
  finally show ?thesis using s by blast
qed

theorem uart_link_transparent_witness:
  "snd (link_drain UartLink_receive 100
     (UartLink_init \<lparr>bs_reads = map (\<lambda>b. [b]) (concat (map encodeSerialFrame [[1, 2], [3]])), bs_accepts = [], bs_written = []\<rparr>) 512) = [[1, 2], [3]]"
proof -
  let ?a = "UartLink_init \<lparr>bs_reads = [], bs_accepts = [True, False, True], bs_written = []\<rparr>"
  let ?reads = "map (\<lambda>b. [b]) (concat (map encodeSerialFrame [[1, 2], [3]]))"
  let ?b = "UartLink_init \<lparr>bs_reads = ?reads, bs_accepts = [], bs_written = []\<rparr>"
  have ne: "encodeSerialFrame [1, 2] \<noteq> []" "encodeSerialFrame [9] \<noteq> []" "encodeSerialFrame [3] \<noteq> []" "encodeSerialFrame [] = []"
    by (simp_all add: encodeSerialFrame_def SERIAL_MAX_PAYLOAD_def Let_def)
  obtain a' where s: "UartLink_sends ?a [[1, 2], [9], [], [3]] = (a', [[1, 2], [3]])"
      "bs_written (ul_stream a') = concat (map encodeSerialFrame [[1, 2], [3]])"
    using ne by (simp add: UartLink_send_def AbsByteStream_write_def UartLink_init_def Let_def)
  have "length (concat (map encodeSerialFrame [[1, 2], [3]])) = 15"
    by (simp add: length_encode SERIAL_MAX_PAYLOAD_def SERIAL_FRAME_OVERHEAD_def)
  then have b: "uart_backlog ?b < 100"
    by (simp add: uart_backlog_def UartLink_init_def stream_size_def sum_list_triv o_def)
  have w: "bs_written (ul_stream a') = bs_written (ul_stream ?a) @ concat ?reads" using s(2) by (simp add: UartLink_init_def)
  have r: "[] \<notin> set ?reads" "SERIAL_MAX_PAYLOAD \<le> 512" by (auto simp: SERIAL_MAX_PAYLOAD_def)
  show ?thesis by (rule uart_link_transparent [OF s(1) w r refl b, THEN conjunct1])
qed

end
