(* ===== verification/Frame_Codec.thy ===== *)
theory Frame_Codec
  imports Prelude
begin

text \<open>
  The header the transport puts in front of every payload
  (\<^verbatim>\<open>components/transport/include/transport/frame.hpp\<close>): source, destination, sequence and the
  shared byte of hop count and flags, little-endian, eleven bytes. The lemmas show that the
  codec is a round trip on every header whose hop count fits its nibble, and what a relay's
  re-encoding of a received header changes.
\<close>

definition BROADCAST_NODE :: u32 where "BROADCAST_NODE = 0"
definition FRAME_HEADER_SIZE :: nat where "FRAME_HEADER_SIZE = 11"
definition MAX_PAYLOAD :: nat where "MAX_PAYLOAD = 512"
definition MAX_FRAME_SIZE :: nat where "MAX_FRAME_SIZE = FRAME_HEADER_SIZE + MAX_PAYLOAD"
definition FRAME_HOPS_MASK :: u8 where "FRAME_HOPS_MASK = 0x0F"
definition FRAME_FLAG_KEEPALIVE :: u8 where "FRAME_FLAG_KEEPALIVE = 0x80"
definition KEEPALIVE_PAYLOAD_SIZE :: nat where "KEEPALIVE_PAYLOAD_SIZE = 4"

record frame_header =
  fh_src :: u32
  fh_dst :: u32
  fh_seq :: u16
  fh_hops :: u8
  fh_keepalive :: bool

definition encodeFrameHeader :: "frame_header \<Rightarrow> bytes" where
  "encodeFrameHeader h =
     le32 (fh_src h) @ le32 (fh_dst h) @ le16 (fh_seq h) @
     [(fh_hops h AND FRAME_HOPS_MASK) OR (if fh_keepalive h then FRAME_FLAG_KEEPALIVE else 0)]"

definition decodeFrameHeader :: "bytes \<Rightarrow> frame_header option" where
  "decodeFrameHeader data =
     (if length data < FRAME_HEADER_SIZE then None
      else Some \<lparr>fh_src = rd32 (data ! 0) (data ! 1) (data ! 2) (data ! 3),
                 fh_dst = rd32 (data ! 4) (data ! 5) (data ! 6) (data ! 7),
                 fh_seq = rd16 (data ! 8) (data ! 9),
                 fh_hops = data ! 10 AND FRAME_HOPS_MASK,
                 fh_keepalive = (data ! 10 AND FRAME_FLAG_KEEPALIVE \<noteq> 0)\<rparr>)"

lemma length_encodeFrameHeader [simp]: "length (encodeFrameHeader h) = FRAME_HEADER_SIZE"
  by (simp add: encodeFrameHeader_def FRAME_HEADER_SIZE_def)

lemma bit_keepalive: "bit FRAME_FLAG_KEEPALIVE n \<longleftrightarrow> n = 7"
proof -
  have e: "FRAME_FLAG_KEEPALIVE = 2 ^ 7" by (simp add: FRAME_FLAG_KEEPALIVE_def)
  show ?thesis by (simp only: e bit_exp_iff) (auto simp: possible_bit_def)
qed

lemma bit_hops_mask: "bit FRAME_HOPS_MASK n \<longleftrightarrow> n < 4"
proof -
  have e: "FRAME_HOPS_MASK = mask 4" by (simp add: FRAME_HOPS_MASK_def mask_eq_exp_minus_1)
  show ?thesis by (simp only: e bit_mask_iff) (auto simp: possible_bit_def)
qed

lemma hops_byte:
  fixes x :: u8
  assumes "b = (x AND FRAME_HOPS_MASK) OR (if k then FRAME_FLAG_KEEPALIVE else 0)"
  shows "b AND FRAME_HOPS_MASK = x AND FRAME_HOPS_MASK" "(b AND FRAME_FLAG_KEEPALIVE \<noteq> 0) = k"
  unfolding assms
  by (auto simp: word_eq_bits bit_and_iff bit_or_iff bit_keepalive bit_hops_mask)

text \<open>What a decoder reads back from an encoded header, whatever follows it: the header, its
  hop count cut to the nibble it travels in.\<close>

lemma decode_encode:
  "decodeFrameHeader (encodeFrameHeader h @ payload) = Some (h\<lparr>fh_hops := fh_hops h AND FRAME_HOPS_MASK\<rparr>)"
proof -
  define b where "b = (fh_hops h AND FRAME_HOPS_MASK) OR (if fh_keepalive h then FRAME_FLAG_KEEPALIVE else 0)"
  have "encodeFrameHeader h @ payload =
      [byte_at (fh_src h) 0, byte_at (fh_src h) 8, byte_at (fh_src h) 16, byte_at (fh_src h) 24,
       byte_at (fh_dst h) 0, byte_at (fh_dst h) 8, byte_at (fh_dst h) 16, byte_at (fh_dst h) 24,
       byte_at (fh_seq h) 0, byte_at (fh_seq h) 8, b] @ payload"
    by (simp add: encodeFrameHeader_def le32_def le16_def b_def)
  then show ?thesis
    using hops_byte [OF b_def]
    by (simp add: decodeFrameHeader_def FRAME_HEADER_SIZE_def)
qed

lemma decode_hops_nibble:
  "decodeFrameHeader data = Some h \<Longrightarrow> fh_hops h AND FRAME_HOPS_MASK = fh_hops h"
  by (auto simp: decodeFrameHeader_def and.assoc split: if_splits)

lemma decode_hops_bound: "decodeFrameHeader data = Some h \<Longrightarrow> fh_hops h \<le> 15"
  using decode_hops_nibble [of data h] word_and_le1 [of "fh_hops h" FRAME_HOPS_MASK]
  by (simp add: FRAME_HOPS_MASK_def)

lemma hops_nibble_id: "x \<le> 15 \<Longrightarrow> x AND FRAME_HOPS_MASK = x"
proof -
  assume "x \<le> 15"
  then have "unat x < 2 ^ 4" by (simp add: word_le_nat_alt)
  then have "x = take_bit 4 x"
    by (simp add: word_unat_eq_iff unsigned_take_bit_eq take_bit_nat_eq_self)
  moreover have "FRAME_HOPS_MASK = mask 4" by (simp add: FRAME_HOPS_MASK_def mask_eq_exp_minus_1)
  ultimately show ?thesis by (metis take_bit_eq_mask)
qed


section \<open>Properties\<close>

text \<open>The header codec is a round trip: every header with a hop count of at most 15 is read
  back unchanged from its eleven bytes, whatever payload follows.\<close>

lemma frame_header_roundtrip:
  assumes "fh_hops h \<le> 15"
  shows "length (encodeFrameHeader h) = 11 \<and> decodeFrameHeader (encodeFrameHeader h @ payload) = Some h"
  using assms by (simp add: decode_encode hops_nibble_id FRAME_HEADER_SIZE_def)

lemma frame_header_roundtrip_example:
  "decodeFrameHeader (encodeFrameHeader
     \<lparr>fh_src = 0x12345678, fh_dst = 0, fh_seq = 0xFFFF, fh_hops = 3, fh_keepalive = True\<rparr> @ [1, 2]) =
   Some \<lparr>fh_src = 0x12345678, fh_dst = 0, fh_seq = 0xFFFF, fh_hops = 3, fh_keepalive = True\<rparr>"
  using frame_header_roundtrip
    [of "\<lparr>fh_src = 0x12345678, fh_dst = 0, fh_seq = 0xFFFF, fh_hops = 3, fh_keepalive = True\<rparr>" "[1, 2]"]
  by simp

end
