(* ===== verification/Transport.thy ===== *)
theory Transport
  imports Frame_Codec
begin

text \<open>
  The interface manager of a node (\<^verbatim>\<open>components/transport/src/transport.cpp\<close> and
  \<^verbatim>\<open>include/transport/transport.hpp\<close>): the table of nodes heard, the sending side with one
  sequence per stream, the receiving side that learns, delivers and relays, the expiry of
  silent nodes and the keepalive.

  State. The record \<open>transport\<close> holds the fields of the class. \<^verbatim>\<open>m_nodes\<close>, \<^verbatim>\<open>m_links\<close> and
  \<^verbatim>\<open>m_listeners\<close> are dense prefixes of fixed arrays with a count beside them: each is the
  list of its live entries, and the capacities are part of the invariant. A link is what the
  transport sees of it: the answers its next sends and broadcasts will give (taken when it has
  no more to say) and the record of what was handed to it. The transmit and receive buffers are
  the byte lists the operations build. \<^verbatim>\<open>m_sentBytes\<close> is a \<^verbatim>\<open>std::size_t\<close>, as wide as the target
  makes it: it is a natural number here, and no statement below reads it.

  Callbacks. The delivery function and the presence listeners are application code that may
  call \<^verbatim>\<open>send\<close> from inside. They are a parameter of the operations that call them, over a
  state that pairs the transport with whatever the application keeps; the locale
  \<open>transport_client\<close> states what the transport relies on: the application reaches the
  transport through \<^verbatim>\<open>send\<close> only.
\<close>


section \<open>Data\<close>

datatype link_address = UartAddress | UdpAddress u32 u16

datatype link_kind = LK_UART | LK_UDP

record node =
  n_id :: u32
  n_link :: nat
  n_address :: link_address
  n_lastSeenUs :: u64
  n_txSeq :: u16
  n_unicastSeq :: u16
  n_broadcastSeq :: u16
  n_unicastHeard :: bool
  n_broadcastHeard :: bool
  n_received :: u32
  n_lost :: u32
  n_duplicates :: u32
  n_hops :: u8
  n_boot :: u32

definition Node_init :: node where
  "Node_init =
     \<lparr>n_id = 0, n_link = 0, n_address = UartAddress, n_lastSeenUs = 0, n_txSeq = 0,
      n_unicastSeq = 0, n_broadcastSeq = 0, n_unicastHeard = False, n_broadcastHeard = False,
      n_received = 0, n_lost = 0, n_duplicates = 0, n_hops = 0, n_boot = 0\<rparr>"

record link_stats =
  ls_framesIn :: u32
  ls_bytesIn :: u32
  ls_framesOut :: u32
  ls_bytesOut :: u32
  ls_refused :: u32

definition LinkStats_init :: link_stats where
  "LinkStats_init =
     \<lparr>ls_framesIn = 0, ls_bytesIn = 0, ls_framesOut = 0, ls_bytesOut = 0, ls_refused = 0\<rparr>"

text \<open>What the transport sees of a link: \<open>lp_out\<close> records every call, with the address of a
  unicast (none for a broadcast), the frame and the answer.\<close>

record link_port =
  lp_answers :: "bool list"
  lp_out :: "(link_address option \<times> bytes \<times> bool) list"

record transport =
  t_nodeId :: u32
  t_bootId :: u32
  t_links :: "link_port list"
  t_linkStats :: "link_stats list"
  t_nodes :: "node list"
  t_broadcastSeq :: u16
  t_lastKeepaliveUs :: u64
  t_keepaliveSent :: bool
  t_listeners :: "nat list"
  t_listenersOverflow :: bool
  t_dropped :: u32
  t_sent :: u32
  t_sentBytes :: nat
  t_refused :: u32
  t_relayed :: u32
  t_expired :: u32
  t_restarted :: u32

definition MAX_LINKS :: nat where "MAX_LINKS = 4"
definition MAX_LISTENERS :: nat where "MAX_LISTENERS = 4"
definition MAX_NODES :: nat where "MAX_NODES = 32"
definition KEEPALIVE_PERIOD_US :: u64 where "KEEPALIVE_PERIOD_US = 1000000"
definition NODE_EXPIRY_US :: u64 where "NODE_EXPIRY_US = 3000000"
definition MAX_HOPS :: u8 where "MAX_HOPS = 4"
definition RESYNC_THRESHOLD :: u16 where "RESYNC_THRESHOLD = 1024"

definition Transport_init :: "u32 \<Rightarrow> u32 \<Rightarrow> transport" where
  "Transport_init nodeId bootId =
     \<lparr>t_nodeId = nodeId, t_bootId = bootId, t_links = [],
      t_linkStats = replicate MAX_LINKS LinkStats_init, t_nodes = [], t_broadcastSeq = 0,
      t_lastKeepaliveUs = 0, t_keepaliveSent = False, t_listeners = [],
      t_listenersOverflow = False, t_dropped = 0, t_sent = 0, t_sentBytes = 0, t_refused = 0,
      t_relayed = 0, t_expired = 0, t_restarted = 0\<rparr>"


section \<open>Composition\<close>

definition Transport_addLink :: "link_port \<Rightarrow> transport \<Rightarrow> transport \<times> bool" where
  "Transport_addLink link t =
     (if length (t_links t) \<ge> MAX_LINKS then (t, False)
      else (t\<lparr>t_links := t_links t @ [link]\<rparr>, True))"

definition Transport_ready :: "transport \<Rightarrow> bool" where
  "Transport_ready t \<longleftrightarrow>
     t_nodeId t \<noteq> BROADCAST_NODE \<and> length (t_links t) > 0 \<and> \<not> t_listenersOverflow t"

definition Transport_attach :: "nat \<Rightarrow> transport \<Rightarrow> transport" where
  "Transport_attach listener t =
     (if length (t_listeners t) \<ge> MAX_LISTENERS then t\<lparr>t_listenersOverflow := True\<rparr>
      else t\<lparr>t_listeners := t_listeners t @ [listener]\<rparr>)"

text \<open>The entry found is closed up by shifting the later ones down.\<close>

definition Transport_detach :: "nat \<Rightarrow> transport \<Rightarrow> transport" where
  "Transport_detach listener t = t\<lparr>t_listeners := remove1 listener (t_listeners t)\<rparr>"


section \<open>Lookup\<close>

fun find_index :: "(node \<Rightarrow> bool) \<Rightarrow> node list \<Rightarrow> nat option" where
  "find_index P [] = None"
| "find_index P (n # ns) = (if P n then Some 0 else map_option Suc (find_index P ns))"

text \<open>\<^verbatim>\<open>lookup\<close> returns a pointer into the table: here, the index of the entry.\<close>

definition Transport_lookup :: "u32 \<Rightarrow> transport \<Rightarrow> nat option" where
  "Transport_lookup nodeId t = find_index (\<lambda>n. n_id n = nodeId) (t_nodes t)"

definition Transport_findNode :: "u32 \<Rightarrow> transport \<Rightarrow> node option" where
  "Transport_findNode nodeId t = find (\<lambda>n. n_id n = nodeId) (t_nodes t)"

definition Transport_isAlive :: "u32 \<Rightarrow> transport \<Rightarrow> bool" where
  "Transport_isAlive nodeId t \<longleftrightarrow> Transport_findNode nodeId t \<noteq> None"


section \<open>Sending\<close>

text \<open>One call of a link's \<^verbatim>\<open>send\<close> or \<^verbatim>\<open>broadcast\<close>.\<close>

definition AbsLink_put :: "link_address option \<Rightarrow> bytes \<Rightarrow> link_port \<Rightarrow> link_port \<times> bool" where
  "AbsLink_put dest frame l =
     (let ok = (case lp_answers l of [] \<Rightarrow> True | a # _ \<Rightarrow> a)
      in (l\<lparr>lp_answers := tl (lp_answers l), lp_out := lp_out l @ [(dest, frame, ok)]\<rparr>, ok))"

definition Transport_countLinkSend :: "nat \<Rightarrow> bool \<Rightarrow> nat \<Rightarrow> transport \<Rightarrow> transport" where
  "Transport_countLinkSend linkIndex ok frameSize t =
     (let stats = t_linkStats t ! linkIndex
      in t\<lparr>t_linkStats := (t_linkStats t)[linkIndex :=
             (if ok then stats\<lparr>ls_framesOut := ls_framesOut stats + 1,
                              ls_bytesOut := ls_bytesOut stats + of_nat frameSize\<rparr>
              else stats\<lparr>ls_refused := ls_refused stats + 1\<rparr>)]\<rparr>)"

definition Transport_countSend :: "bool \<Rightarrow> nat \<Rightarrow> transport \<Rightarrow> transport" where
  "Transport_countSend ok counted t =
     (if ok then t\<lparr>t_sent := t_sent t + 1, t_sentBytes := t_sentBytes t + counted\<rparr>
      else t\<lparr>t_refused := t_refused t + 1\<rparr>)"

text \<open>A frame handed to one link, its outcome folded into the link's counters.\<close>

definition put_on_link :: "nat \<Rightarrow> link_address option \<Rightarrow> bytes \<Rightarrow> transport \<Rightarrow> transport \<times> bool" where
  "put_on_link i dest frame t =
     (let (l, ok) = AbsLink_put dest frame (t_links t ! i)
      in (Transport_countLinkSend i ok (length frame) (t\<lparr>t_links := (t_links t)[i := l]\<rparr>), ok))"

fun broadcast_on :: "nat list \<Rightarrow> bytes \<Rightarrow> transport \<Rightarrow> transport \<times> bool" where
  "broadcast_on [] frame t = (t, True)"
| "broadcast_on (i # is) frame t =
     (let (t, ok) = put_on_link i None frame t;
          (t, all) = broadcast_on is frame t
      in (t, ok \<and> all))"

definition Transport_nextSeq :: "nat option \<Rightarrow> transport \<Rightarrow> transport \<times> u16" where
  "Transport_nextSeq target t =
     (case target of
        None \<Rightarrow> (t\<lparr>t_broadcastSeq := t_broadcastSeq t + 1\<rparr>, t_broadcastSeq t)
      | Some i \<Rightarrow>
          (let n = t_nodes t ! i
           in (t\<lparr>t_nodes := (t_nodes t)[i := n\<lparr>n_txSeq := n_txSeq n + 1\<rparr>]\<rparr>, n_txSeq n)))"

text \<open>The part \<^verbatim>\<open>send\<close> and \<^verbatim>\<open>sendKeepalive\<close> share: number the frame, write the header, hand it to
  every link or to the one link of the destination, count the outcome (a keepalive counts no
  payload bytes).\<close>

definition emit_frame :: "u32 \<Rightarrow> nat option \<Rightarrow> bool \<Rightarrow> bytes \<Rightarrow> nat \<Rightarrow> transport \<Rightarrow> transport \<times> bool" where
  "emit_frame dst target keepalive payload counted t =
     (let (t, seq) = Transport_nextSeq target t;
          frame = encodeFrameHeader \<lparr>fh_src = t_nodeId t, fh_dst = dst, fh_seq = seq, fh_hops = 0,
                                     fh_keepalive = keepalive\<rparr> @ payload;
          (t, ok) = (case target of
                       None \<Rightarrow> broadcast_on [0..<length (t_links t)] frame t
                     | Some i \<Rightarrow> put_on_link (n_link (t_nodes t ! i))
                                   (Some (n_address (t_nodes t ! i))) frame t)
      in (Transport_countSend ok counted t, ok))"

definition Transport_send :: "u32 \<Rightarrow> bytes \<Rightarrow> transport \<Rightarrow> transport \<times> bool" where
  "Transport_send dst payload t =
     (if length payload = 0 \<or> length payload > MAX_PAYLOAD \<or> length (t_links t) = 0
      then (t\<lparr>t_refused := t_refused t + 1\<rparr>, False)
      else if dst \<noteq> BROADCAST_NODE
      then (case Transport_lookup dst t of
              None \<Rightarrow> (t\<lparr>t_dropped := t_dropped t + 1, t_refused := t_refused t + 1\<rparr>, False)
            | Some i \<Rightarrow> emit_frame dst (Some i) False payload (length payload) t)
      else emit_frame dst None False payload (length payload) t)"

definition Transport_sendKeepalive :: "u32 \<Rightarrow> transport \<Rightarrow> transport" where
  "Transport_sendKeepalive dst t =
     (if dst \<noteq> BROADCAST_NODE
      then (case Transport_lookup dst t of
              None \<Rightarrow> Transport_countSend False 0 t
            | Some i \<Rightarrow> fst (emit_frame dst (Some i) True (le32 (t_bootId t)) 0 t))
      else fst (emit_frame dst None True (le32 (t_bootId t)) 0 t))"


section \<open>Receiving\<close>

text \<open>\<^verbatim>\<open>track\<close>: takes one frame into the stream its destination names; \<open>False\<close> for a repeat.\<close>

definition Transport_track :: "u32 \<Rightarrow> node \<Rightarrow> frame_header \<Rightarrow> node \<times> bool" where
  "Transport_track nodeId node header =
     (let unicast = (fh_dst header = nodeId) in
      if \<not> unicast \<and> fh_dst header \<noteq> BROADCAST_NODE then (node, True)
      else
        let seq = (if unicast then n_unicastSeq node else n_broadcastSeq node);
            heard = (if unicast then n_unicastHeard node else n_broadcastHeard node);
            accept = (\<lambda>n. (if unicast then n\<lparr>n_unicastSeq := fh_seq header, n_unicastHeard := True\<rparr>
                           else n\<lparr>n_broadcastSeq := fh_seq header, n_broadcastHeard := True\<rparr>)
                          \<lparr>n_received := n_received n + 1\<rparr>)
        in if \<not> heard then (accept node, True)
           else let delta = fh_seq header - seq in
             if delta = 0 then (node\<lparr>n_duplicates := n_duplicates node + 1\<rparr>, False)
             else (accept (if 1 < delta \<and> delta < RESYNC_THRESHOLD
                           then node\<lparr>n_lost := n_lost node + ucast (delta - 1)\<rparr> else node), True))"

text \<open>\<^verbatim>\<open>learn\<close>: the new table, whether the frame goes on, and whether the node is new.\<close>

definition Transport_learn ::
    "frame_header \<Rightarrow> nat \<Rightarrow> link_address \<Rightarrow> u64 \<Rightarrow> transport \<Rightarrow> transport \<times> bool \<times> bool" where
  "Transport_learn header linkIndex from nowUs t =
     (let found = Transport_lookup (fh_src header) t in
      if found = None \<and> length (t_nodes t) \<ge> MAX_NODES
      then (t\<lparr>t_dropped := t_dropped t + 1\<rparr>, False, False)
      else
        let isNew = (found = None);
            i = (case found of None \<Rightarrow> length (t_nodes t) | Some j \<Rightarrow> j);
            nodes = (if isNew then t_nodes t @ [Node_init\<lparr>n_id := fh_src header\<rparr>] else t_nodes t);
            (node, ok) = Transport_track (t_nodeId t) ((nodes ! i)\<lparr>n_lastSeenUs := nowUs\<rparr>) header;
            node = (if ok then node\<lparr>n_link := linkIndex, n_address := from, n_hops := fh_hops header\<rparr>
                    else node)
        in (t\<lparr>t_nodes := nodes[i := node]\<rparr>, ok, isNew))"

definition Transport_relay :: "frame_header \<Rightarrow> nat \<Rightarrow> bytes \<Rightarrow> transport \<Rightarrow> transport" where
  "Transport_relay header arrivalLink frame t =
     (if fh_hops header \<ge> MAX_HOPS then t\<lparr>t_dropped := t_dropped t + 1\<rparr>
      else
        let forwarded = encodeFrameHeader (header\<lparr>fh_hops := fh_hops header + 1\<rparr>) @
                        drop FRAME_HEADER_SIZE frame
        in if fh_dst header = BROADCAST_NODE
           then let others = filter (\<lambda>i. i \<noteq> arrivalLink) [0..<length (t_links t)];
                    t = fst (broadcast_on others forwarded t)
                in t\<lparr>t_relayed := t_relayed t + of_nat (length others)\<rparr>
           else (case Transport_findNode (fh_dst header) t of
                   None \<Rightarrow> t\<lparr>t_dropped := t_dropped t + 1\<rparr>
                 | Some target \<Rightarrow>
                     if n_link target = arrivalLink then t\<lparr>t_dropped := t_dropped t + 1\<rparr>
                     else let t = fst (put_on_link (n_link target) (Some (n_address target)) forwarded t)
                          in t\<lparr>t_relayed := t_relayed t + 1\<rparr>))"


section \<open>Callbacks\<close>

text \<open>The application behind the transport: the listeners by the name they attached under,
  and the delivery function (\<open>None\<close> for a null pointer).\<close>

record 'a callbacks =
  cb_up :: "nat \<Rightarrow> node \<Rightarrow> transport \<times> 'a \<Rightarrow> transport \<times> 'a"
  cb_down :: "nat \<Rightarrow> node \<Rightarrow> transport \<times> 'a \<Rightarrow> transport \<times> 'a"
  cb_deliver :: "(u32 \<Rightarrow> bytes \<Rightarrow> transport \<times> 'a \<Rightarrow> transport \<times> 'a) option"

text \<open>\<^verbatim>\<open>notifyUp\<close> hands each listener a reference to the entry, so each sees the entry as the
  previous one left it; \<^verbatim>\<open>notifyDown\<close> hands each the same copy.\<close>

definition Transport_notifyUp :: "'a callbacks \<Rightarrow> nat \<Rightarrow> transport \<times> 'a \<Rightarrow> transport \<times> 'a" where
  "Transport_notifyUp cb i w =
     fold (\<lambda>l w. cb_up cb l (t_nodes (fst w) ! i) w) (t_listeners (fst w)) w"

definition Transport_notifyDown :: "'a callbacks \<Rightarrow> node \<Rightarrow> transport \<times> 'a \<Rightarrow> transport \<times> 'a" where
  "Transport_notifyDown cb node w = fold (\<lambda>l w. cb_down cb l node w) (t_listeners (fst w)) w"

definition Transport_onBootId ::
    "'a callbacks \<Rightarrow> frame_header \<Rightarrow> bytes \<Rightarrow> bool \<Rightarrow> transport \<times> 'a \<Rightarrow> transport \<times> 'a" where
  "Transport_onBootId cb header payload isNew w =
     (let boot = rd32 (payload ! 0) (payload ! 1) (payload ! 2) (payload ! 3); t = fst w in
      case Transport_lookup (fh_src header) t of
        None \<Rightarrow> w
      | Some i \<Rightarrow>
          let node = t_nodes t ! i in
          if isNew \<or> n_boot node = 0
          then (t\<lparr>t_nodes := (t_nodes t)[i := node\<lparr>n_boot := boot\<rparr>]\<rparr>, snd w)
          else if boot = 0 \<or> boot = n_boot node then w
          else
            let fresh = Node_init\<lparr>n_id := n_id node, n_link := n_link node,
                                  n_address := n_address node, n_lastSeenUs := n_lastSeenUs node,
                                  n_hops := fh_hops header, n_boot := boot\<rparr>;
                t = t\<lparr>t_nodes := (t_nodes t)[i := fst (Transport_track (t_nodeId t) fresh header)],
                      t_restarted := t_restarted t + 1\<rparr>
            in Transport_notifyUp cb i (Transport_notifyDown cb node (t, snd w)))"

text \<open>The four stages of \<^verbatim>\<open>onFrame\<close> once a frame is learnt: the boot id of a keepalive, the
  announcement of a new node with the keepalive that answers it, the delivery, the relay.\<close>

definition onFrame_boot ::
    "'a callbacks \<Rightarrow> frame_header \<Rightarrow> bytes \<Rightarrow> bool \<Rightarrow> transport \<times> 'a \<Rightarrow> transport \<times> 'a" where
  "onFrame_boot cb header payload isNew w =
     (if fh_keepalive header \<and> length payload \<ge> KEEPALIVE_PAYLOAD_SIZE
      then Transport_onBootId cb header payload isNew w else w)"

definition onFrame_new :: "'a callbacks \<Rightarrow> frame_header \<Rightarrow> bool \<Rightarrow> transport \<times> 'a \<Rightarrow> transport \<times> 'a" where
  "onFrame_new cb header isNew w =
     (if isNew
      then (let w = (case Transport_lookup (fh_src header) (fst w) of
                       None \<Rightarrow> w | Some i \<Rightarrow> Transport_notifyUp cb i w)
            in (Transport_sendKeepalive (fh_src header) (fst w), snd w))
      else w)"

definition onFrame_deliver ::
    "'a callbacks \<Rightarrow> frame_header \<Rightarrow> bytes \<Rightarrow> transport \<times> 'a \<Rightarrow> transport \<times> 'a" where
  "onFrame_deliver cb header payload w =
     (if \<not> fh_keepalive header \<and> length payload > 0 \<and>
         (fh_dst header = t_nodeId (fst w) \<or> fh_dst header = BROADCAST_NODE)
      then (case cb_deliver cb of
              None \<Rightarrow> w | Some deliver \<Rightarrow> deliver (fh_src header) payload w)
      else w)"

definition onFrame_relay :: "frame_header \<Rightarrow> nat \<Rightarrow> bytes \<Rightarrow> transport \<times> 'a \<Rightarrow> transport \<times> 'a" where
  "onFrame_relay header linkIndex frame w =
     (if fh_dst header \<noteq> t_nodeId (fst w)
      then (Transport_relay header linkIndex frame (fst w), snd w) else w)"

definition Transport_onFrame ::
    "'a callbacks \<Rightarrow> nat \<Rightarrow> link_address \<Rightarrow> bytes \<Rightarrow> u64 \<Rightarrow> transport \<times> 'a \<Rightarrow> transport \<times> 'a" where
  "Transport_onFrame cb linkIndex from frame nowUs w =
     (case decodeFrameHeader frame of
        None \<Rightarrow> ((fst w)\<lparr>t_dropped := t_dropped (fst w) + 1\<rparr>, snd w)
      | Some header \<Rightarrow>
          if fh_src header = t_nodeId (fst w) \<or> fh_src header = BROADCAST_NODE then w
          else
            let (t, ok, isNew) = Transport_learn header linkIndex from nowUs (fst w);
                payload = drop FRAME_HEADER_SIZE frame
            in if \<not> ok then (t, snd w)
               else onFrame_relay header linkIndex frame
                      (onFrame_deliver cb header payload
                        (onFrame_new cb header isNew
                          (onFrame_boot cb header payload isNew (t, snd w)))))"


section \<open>Expiry and the poll\<close>

definition node_silent :: "u64 \<Rightarrow> node \<Rightarrow> bool" where
  "node_silent nowUs n \<longleftrightarrow>
     \<not> (nowUs < n_lastSeenUs n \<or> nowUs - n_lastSeenUs n < NODE_EXPIRY_US)"

text \<open>The body of the backward loop of \<^verbatim>\<open>expire\<close> for one index: a silent node is replaced by
  the last one and the table shrinks.\<close>

definition expire_at :: "'a callbacks \<Rightarrow> u64 \<Rightarrow> nat \<Rightarrow> transport \<times> 'a \<Rightarrow> transport \<times> 'a" where
  "expire_at cb nowUs i w =
     (let t = fst w; node = t_nodes t ! i in
      if \<not> node_silent nowUs node then w
      else Transport_notifyDown cb node
             (t\<lparr>t_nodes := butlast ((t_nodes t)[i := last (t_nodes t)]),
                t_expired := t_expired t + 1\<rparr>, snd w))"

definition Transport_expire :: "'a callbacks \<Rightarrow> u64 \<Rightarrow> transport \<times> 'a \<Rightarrow> transport \<times> 'a" where
  "Transport_expire cb nowUs w = fold (expire_at cb nowUs) (rev [0..<length (t_nodes (fst w))]) w"

definition count_in :: "nat \<Rightarrow> nat \<Rightarrow> transport \<Rightarrow> transport" where
  "count_in i frameSize t =
     (let stats = t_linkStats t ! i
      in t\<lparr>t_linkStats := (t_linkStats t)[i := stats\<lparr>ls_framesIn := ls_framesIn stats + 1,
                                               ls_bytesIn := ls_bytesIn stats + of_nat frameSize\<rparr>]\<rparr>)"

text \<open>The drain loop of one link over what its successive receives return; an empty frame is the
  return value 0 that ends it.\<close>

fun poll_link :: "'a callbacks \<Rightarrow> u64 \<Rightarrow> nat \<Rightarrow> (bytes \<times> link_address) list \<Rightarrow>
                  transport \<times> 'a \<Rightarrow> transport \<times> 'a" where
  "poll_link cb nowUs i [] w = w"
| "poll_link cb nowUs i ((frame, from) # rest) w =
     (if length frame = 0 then w
      else poll_link cb nowUs i rest
             (Transport_onFrame cb i from frame nowUs (count_in i (length frame) (fst w), snd w)))"

definition poll_keepalive :: "u64 \<Rightarrow> transport \<Rightarrow> transport" where
  "poll_keepalive nowUs t =
     (if \<not> t_keepaliveSent t \<or> nowUs - t_lastKeepaliveUs t \<ge> KEEPALIVE_PERIOD_US
      then Transport_sendKeepalive BROADCAST_NODE
             (t\<lparr>t_lastKeepaliveUs := nowUs, t_keepaliveSent := True\<rparr>)
      else t)"

text \<open>\<^verbatim>\<open>poll\<close>: \<open>rx i\<close> is what link \<open>i\<close> receives during this poll.\<close>

definition Transport_poll ::
    "'a callbacks \<Rightarrow> u64 \<Rightarrow> (nat \<Rightarrow> (bytes \<times> link_address) list) \<Rightarrow>
     transport \<times> 'a \<Rightarrow> transport \<times> 'a" where
  "Transport_poll cb nowUs rx w =
     (let w = fold (\<lambda>i. poll_link cb nowUs i (rx i)) [0..<length (t_links (fst w))] w;
          w = Transport_expire cb nowUs w
      in (poll_keepalive nowUs (fst w), snd w))"


section \<open>Lookup facts\<close>

lemma find_index_Some:
  "find_index P ns = Some i \<Longrightarrow> i < length ns \<and> P (ns ! i)"
  by (induction ns arbitrary: i) (auto split: if_splits)

lemma find_index_None: "find_index P ns = None \<longleftrightarrow> (\<forall>n \<in> set ns. \<not> P n)"
  by (induction ns) auto

lemma find_index_first: "find_index P ns = Some i \<Longrightarrow> j < i \<Longrightarrow> \<not> P (ns ! j)"
  by (induction ns arbitrary: i j) (auto split: if_splits simp: nth_Cons split: nat.splits)

lemma find_find_index: "find P ns = map_option ((!) ns) (find_index P ns)"
  by (induction ns) (auto simp: option.map_comp comp_def)

lemma find_index_cong:
  "length ms = length ns \<Longrightarrow> (\<And>i. i < length ns \<Longrightarrow> P (ms ! i) = P (ns ! i)) \<Longrightarrow>
   find_index P ms = find_index P ns"
proof (induction ns arbitrary: ms)
  case (Cons n ns)
  obtain m ms' where ms: "ms = m # ms'" using Cons.prems(1) by (cases ms) auto
  have "P m = P n" using Cons.prems(2) [of 0] ms by simp
  moreover have "find_index P ms' = find_index P ns"
    using Cons.prems(1) Cons.prems(2) [of "Suc _"] by (intro Cons.IH) (simp_all add: ms)
  ultimately show ?case by (simp add: ms)
qed simp

lemma lookup_Some:
  "Transport_lookup d t = Some i \<Longrightarrow> i < length (t_nodes t) \<and> n_id (t_nodes t ! i) = d"
  unfolding Transport_lookup_def by (drule find_index_Some) simp

lemma lookup_None: "Transport_lookup d t = None \<longleftrightarrow> d \<notin> n_id ` set (t_nodes t)"
  unfolding Transport_lookup_def find_index_None by auto

lemma lookup_unique:
  assumes "distinct (map n_id (t_nodes t))" "i < length (t_nodes t)"
  shows "Transport_lookup (n_id (t_nodes t ! i)) t = Some i"
proof (cases "Transport_lookup (n_id (t_nodes t ! i)) t")
  case None
  then show ?thesis using assms(2) by (auto simp: lookup_None)
next
  case (Some j)
  then have "j < length (t_nodes t)" "n_id (t_nodes t ! j) = n_id (t_nodes t ! i)"
    by (auto dest: lookup_Some)
  then have "j = i" using assms by (metis length_map nth_eq_iff_index_eq nth_map)
  then show ?thesis using Some by simp
qed

lemma findNode_lookup: "Transport_findNode d t = map_option ((!) (t_nodes t)) (Transport_lookup d t)"
  by (simp add: Transport_findNode_def Transport_lookup_def find_find_index)


section \<open>What a send may change\<close>

text \<open>A table entry without its sending side.\<close>

definition rx_view :: "node \<Rightarrow> node" where "rx_view n = n\<lparr>n_txSeq := 0\<rparr>"

lemma rx_view_simps [simp]:
  "n_id (rx_view n) = n_id n" "n_link (rx_view n) = n_link n" "n_address (rx_view n) = n_address n"
  "n_lastSeenUs (rx_view n) = n_lastSeenUs n" "n_unicastSeq (rx_view n) = n_unicastSeq n"
  "n_broadcastSeq (rx_view n) = n_broadcastSeq n" "n_unicastHeard (rx_view n) = n_unicastHeard n"
  "n_broadcastHeard (rx_view n) = n_broadcastHeard n" "n_received (rx_view n) = n_received n"
  "n_lost (rx_view n) = n_lost n" "n_duplicates (rx_view n) = n_duplicates n"
  "n_hops (rx_view n) = n_hops n" "n_boot (rx_view n) = n_boot n"
  "rx_view (n\<lparr>n_txSeq := s\<rparr>) = rx_view n"
  by (simp_all add: rx_view_def)

definition rx_table :: "transport \<times> 'a \<Rightarrow> node list" where
  "rx_table w = map rx_view (t_nodes (fst w))"

lemma node_silent_rx_view [simp]: "node_silent now (rx_view n) = node_silent now n"
  by (simp add: node_silent_def)

text \<open>Two states of a transport that differ at most by frames handed to links: the same
  identity, composition and table up to the transmit sequences, and the counters of the
  receiving side alike.\<close>

definition tx_only :: "transport \<Rightarrow> transport \<Rightarrow> bool" where
  "tx_only t u \<longleftrightarrow>
     t_nodeId u = t_nodeId t \<and> t_bootId u = t_bootId t \<and>
     length (t_links u) = length (t_links t) \<and> length (t_linkStats u) = length (t_linkStats t) \<and>
     map rx_view (t_nodes u) = map rx_view (t_nodes t) \<and> t_listeners u = t_listeners t \<and>
     t_listenersOverflow u = t_listenersOverflow t \<and> t_expired u = t_expired t \<and>
     t_restarted u = t_restarted t"

lemma tx_only_refl [simp]: "tx_only t t" by (simp add: tx_only_def)

lemma tx_only_trans [trans]: "tx_only t u \<Longrightarrow> tx_only u v \<Longrightarrow> tx_only t v"
  by (simp add: tx_only_def)

lemma put_on_link_tx_only [frame_simps]: "tx_only t (fst (put_on_link i d f t))"
  by (simp add: put_on_link_def AbsLink_put_def Transport_countLinkSend_def tx_only_def Let_def
      split: prod.splits)

lemma put_on_link_nodes [simp]: "t_nodes (fst (put_on_link i d f t)) = t_nodes t"
  by (simp add: put_on_link_def AbsLink_put_def Transport_countLinkSend_def Let_def)

lemma broadcast_on_tx_only [frame_simps]: "tx_only t (fst (broadcast_on is f t))"
proof (induction "is" arbitrary: t)
  case (Cons i "is")
  have "tx_only t (fst (put_on_link i None f t))" by (rule put_on_link_tx_only)
  also have "tx_only \<dots> (fst (broadcast_on is f (fst (put_on_link i None f t))))" by (rule Cons)
  finally show ?case by (simp add: Let_def split_beta)
qed simp

lemma countSend_tx_only [frame_simps]: "tx_only t (Transport_countSend ok n t)"
  by (simp add: Transport_countSend_def tx_only_def)

lemma map_rx_view_update [simp]:
  "map rx_view (ns[i := (ns ! i)\<lparr>n_txSeq := s\<rparr>]) = map rx_view ns"
  by (rule nth_equalityI)
     (simp_all, metis nth_list_update_eq nth_list_update_neq rx_view_simps(14))

lemma nextSeq_tx_only [frame_simps]: "tx_only t (fst (Transport_nextSeq target t))"
  by (cases target) (simp_all add: Transport_nextSeq_def tx_only_def Let_def)

lemma emit_frame_tx_only [frame_simps]: "tx_only t (fst (emit_frame dst target ka p n t))"
proof -
  let ?u = "fst (Transport_nextSeq target t)"
  have "tx_only ?u (fst (emit_frame dst target ka p n t))"
    by (cases target)
       (auto simp: emit_frame_def Let_def split_beta
         intro: tx_only_trans [OF broadcast_on_tx_only countSend_tx_only]
                tx_only_trans [OF put_on_link_tx_only countSend_tx_only])
  then show ?thesis by (rule tx_only_trans [OF nextSeq_tx_only])
qed

lemma send_tx_only [frame_simps]: "tx_only t (fst (Transport_send dst p t))"
  by (auto simp: Transport_send_def emit_frame_tx_only split: option.splits)
     (simp_all add: tx_only_def)

lemma sendKeepalive_tx_only [frame_simps]: "tx_only t (Transport_sendKeepalive dst t)"
  by (auto simp: Transport_sendKeepalive_def emit_frame_tx_only countSend_tx_only split: option.splits)


section \<open>The invariant\<close>

text \<open>Every index the code uses stays inside the fixed arrays, the table holds at most one entry
  per node, never an entry for the node itself or for the broadcast address, and every entry
  names a declared link.\<close>

definition node_ok :: "u32 \<Rightarrow> nat \<Rightarrow> node \<Rightarrow> bool" where
  "node_ok self links n \<longleftrightarrow>
     n_id n \<noteq> BROADCAST_NODE \<and> n_id n \<noteq> self \<and> n_link n < links \<and> n_hops n \<le> 15"

definition transport_inv :: "transport \<Rightarrow> bool" where
  "transport_inv t \<longleftrightarrow>
     length (t_links t) \<le> MAX_LINKS \<and> length (t_linkStats t) = MAX_LINKS \<and>
     length (t_nodes t) \<le> MAX_NODES \<and> length (t_listeners t) \<le> MAX_LISTENERS \<and>
     distinct (map n_id (t_nodes t)) \<and>
     (\<forall>n \<in> set (t_nodes t). node_ok (t_nodeId t) (length (t_links t)) n)"

lemma node_ok_rx_view [simp]: "node_ok self k (rx_view n) = node_ok self k n"
  by (simp add: node_ok_def)

lemma tx_only_ids: "tx_only t u \<Longrightarrow> map n_id (t_nodes u) = map n_id (t_nodes t)"
proof -
  assume "tx_only t u"
  then have "map n_id (map rx_view (t_nodes u)) = map n_id (map rx_view (t_nodes t))"
    by (simp add: tx_only_def)
  then show ?thesis by (simp add: comp_def)
qed

lemma tx_only_nodes:
  "tx_only t u \<Longrightarrow> length (t_nodes u) = length (t_nodes t)"
  "tx_only t u \<Longrightarrow> i < length (t_nodes t) \<Longrightarrow> rx_view (t_nodes u ! i) = rx_view (t_nodes t ! i)"
proof -
  assume "tx_only t u"
  then have m: "map rx_view (t_nodes u) = map rx_view (t_nodes t)" by (simp add: tx_only_def)
  show l: "length (t_nodes u) = length (t_nodes t)" using map_eq_imp_length_eq [OF m] .
  show "i < length (t_nodes t) \<Longrightarrow> rx_view (t_nodes u ! i) = rx_view (t_nodes t ! i)"
    using arg_cong [OF m, of "\<lambda>xs. xs ! i"] l by simp
qed

lemma tx_only_lookup: "tx_only t u \<Longrightarrow> Transport_lookup d u = Transport_lookup d t"
  unfolding Transport_lookup_def
  by (rule find_index_cong) (metis tx_only_nodes rx_view_simps(1))+

lemma tx_only_inv [inv_intros]: "tx_only t u \<Longrightarrow> transport_inv t \<Longrightarrow> transport_inv u"
proof -
  assume tu: "tx_only t u" and inv: "transport_inv t"
  then have "list_all (node_ok (t_nodeId t) (length (t_links t))) (map rx_view (t_nodes t))"
    by (simp add: transport_inv_def list_all_iff)
  then have "list_all (node_ok (t_nodeId t) (length (t_links t))) (map rx_view (t_nodes u))"
    using tu by (simp add: tx_only_def)
  then show ?thesis
    using tu inv tx_only_ids [OF tu] tx_only_nodes(1) [OF tu]
    by (simp add: transport_inv_def tx_only_def list_all_iff)
qed

lemma inv_counters [simp]:
  "transport_inv (t\<lparr>t_dropped := a\<rparr>) = transport_inv t"
  "transport_inv (t\<lparr>t_relayed := a\<rparr>) = transport_inv t"
  "transport_inv (t\<lparr>t_expired := a\<rparr>) = transport_inv t"
  "transport_inv (t\<lparr>t_restarted := a\<rparr>) = transport_inv t"
  "transport_inv (t\<lparr>t_lastKeepaliveUs := b, t_keepaliveSent := c\<rparr>) = transport_inv t"
  by (simp_all add: transport_inv_def)

lemma inv_update_node:
  assumes "transport_inv t" "n_id n = n_id (t_nodes t ! i)"
    "node_ok (t_nodeId t) (length (t_links t)) n"
  shows "transport_inv (t\<lparr>t_nodes := (t_nodes t)[i := n]\<rparr>)"
proof (cases "i < length (t_nodes t)")
  case True
  have "map n_id ((t_nodes t)[i := n]) = map n_id (t_nodes t)"
    using True assms(2) by (intro nth_equalityI) (auto simp: nth_list_update)
  then show ?thesis
    using assms True by (auto simp: transport_inv_def dest!: set_update_subset_insert [THEN subsetD])
qed (use assms(1) in \<open>simp add: list_update_beyond\<close>)

lemma track_frame [simp]:
  "n_id (fst (Transport_track self n h)) = n_id n"
  "n_link (fst (Transport_track self n h)) = n_link n"
  "n_hops (fst (Transport_track self n h)) = n_hops n"
  "n_lastSeenUs (fst (Transport_track self n h)) = n_lastSeenUs n"
  "n_txSeq (fst (Transport_track self n h)) = n_txSeq n"
  "n_boot (fst (Transport_track self n h)) = n_boot n"
  "n_address (fst (Transport_track self n h)) = n_address n"
  by (simp_all add: Transport_track_def Let_def)

lemma track_rx_view: "Transport_track self (rx_view n) h = apfst rx_view (Transport_track self n h)"
  by (simp add: Transport_track_def Let_def rx_view_def)

text \<open>A fresh entry starts its stream, so it is always accepted.\<close>

lemma track_fresh: "snd (Transport_track self (Node_init\<lparr>n_id := d, n_lastSeenUs := s\<rparr>) h)"
  by (simp add: Transport_track_def Node_init_def Let_def)

lemma inv_snoc_node:
  assumes "transport_inv t" "length (t_nodes t) < MAX_NODES" "n_id n \<notin> n_id ` set (t_nodes t)"
    "node_ok (t_nodeId t) (length (t_links t)) n"
  shows "transport_inv (t\<lparr>t_nodes := t_nodes t @ [n]\<rparr>)"
  using assms by (auto simp: transport_inv_def)

lemma learn_inv [inv_intros]:
  assumes inv: "transport_inv t" and h: "fh_src h \<noteq> t_nodeId t" "fh_src h \<noteq> BROADCAST_NODE"
    "fh_hops h \<le> 15" and i: "i < length (t_links t)"
  shows "transport_inv (fst (Transport_learn h i from now t))"
proof (cases "Transport_lookup (fh_src h) t")
  case None
  then have new: "fh_src h \<notin> n_id ` set (t_nodes t)" by (simp add: lookup_None)
  show ?thesis
  proof (cases "length (t_nodes t) \<ge> MAX_NODES")
    case False
    have "fst (Transport_learn h i from now t) = t\<lparr>t_nodes := t_nodes t @
        [(fst (Transport_track (t_nodeId t) (Node_init\<lparr>n_id := fh_src h, n_lastSeenUs := now\<rparr>) h))
           \<lparr>n_link := i, n_address := from, n_hops := fh_hops h\<rparr>]\<rparr>"
      using False None track_fresh
      by (simp add: Transport_learn_def Let_def split_beta list_update_append)
    moreover have "transport_inv \<dots>"
      by (rule inv_snoc_node) (use inv h i new False in \<open>simp_all add: node_ok_def\<close>)
    ultimately show ?thesis by simp
  qed (use inv None in \<open>simp add: Transport_learn_def\<close>)
next
  case (Some j)
  then have j: "j < length (t_nodes t)" "n_id (t_nodes t ! j) = fh_src h"
    by (auto dest: lookup_Some)
  then have ok: "node_ok (t_nodeId t) (length (t_links t)) (t_nodes t ! j)"
    using inv by (simp add: transport_inv_def)
  show ?thesis
    using Some inv_update_node [OF inv] ok h i j
    by (simp add: Transport_learn_def Let_def split_beta node_ok_def)
qed

lemma relay_tx_only [frame_simps]: "tx_only t (Transport_relay h i f t)"
proof -
  have c: "tx_only u v \<Longrightarrow> tx_only u (v\<lparr>t_relayed := x\<rparr>)" "tx_only u (u\<lparr>t_dropped := x\<rparr>)" for u v x
    by (simp_all add: tx_only_def)
  show ?thesis
    by (auto simp: Transport_relay_def Let_def c frame_simps split: option.splits)
qed

lemma count_in_tx_only [frame_simps]: "tx_only t (count_in i n t)"
  by (simp add: count_in_def Let_def tx_only_def)


section \<open>The contract of the application behind the transport\<close>

text \<open>A listener or delivery function may send, and nothing else reaches the transport from
  inside a callback.\<close>

inductive sends :: "transport \<Rightarrow> transport \<Rightarrow> bool" where
  sends_refl: "sends t t"
| sends_step: "sends t u \<Longrightarrow> sends t (fst (Transport_send dst p u))"

lemma sends_tx_only: "sends t u \<Longrightarrow> tx_only t u"
  by (induction rule: sends.induct) (auto intro: tx_only_trans send_tx_only)

lemma sends_trans: "sends u v \<Longrightarrow> sends t u \<Longrightarrow> sends t v"
  by (induction rule: sends.induct) (auto intro: sends.intros)

locale transport_client =
  fixes cb :: "'a callbacks"
  assumes up_sends: "sends (fst w) (fst (cb_up cb l n w))"
    and down_sends: "sends (fst w) (fst (cb_down cb l n w))"
    and deliver_sends: "cb_deliver cb = Some f \<Longrightarrow> sends (fst w) (fst (f src payload w))"
begin

lemma fold_sends:
  assumes "\<And>l w. sends (fst w) (fst (g l w))"
  shows "sends (fst w) (fst (fold g ls w))"
proof (induction ls arbitrary: w)
  case (Cons l ls)
  show ?case using sends_trans [OF Cons [of "g l w"] assms] by simp
qed (simp add: sends_refl)

lemma notifyUp_tx_only: "tx_only (fst w) (fst (Transport_notifyUp cb i w))"
  unfolding Transport_notifyUp_def by (intro sends_tx_only fold_sends up_sends)

lemma notifyDown_tx_only: "tx_only (fst w) (fst (Transport_notifyDown cb n w))"
  unfolding Transport_notifyDown_def by (intro sends_tx_only fold_sends down_sends)

lemma deliver_tx_only: "cb_deliver cb = Some f \<Longrightarrow> tx_only (fst w) (fst (f src p w))"
  by (intro sends_tx_only deliver_sends)

lemma onBootId_inv:
  assumes inv: "transport_inv (fst w)" and h: "fh_hops h \<le> 15"
  shows "transport_inv (fst (Transport_onBootId cb h p isNew w))"
proof (cases "Transport_lookup (fh_src h) (fst w)")
  case (Some i)
  then have "i < length (t_nodes (fst w))" by (auto dest: lookup_Some)
  then have ok: "node_ok (t_nodeId (fst w)) (length (t_links (fst w))) (t_nodes (fst w) ! i)"
    using inv by (simp add: transport_inv_def)
  have up: "transport_inv (t\<lparr>t_nodes := ns, t_restarted := r\<rparr>) = transport_inv (t\<lparr>t_nodes := ns\<rparr>)" for t ns r
    by (simp add: transport_inv_def)
  show ?thesis
    using Some inv inv_update_node [OF inv, of _ i] ok h
    by (auto simp: Transport_onBootId_def Let_def node_ok_def up
        intro!: tx_only_inv [OF notifyUp_tx_only] tx_only_inv [OF notifyDown_tx_only])
qed (use inv in \<open>simp add: Transport_onBootId_def\<close>)

lemma onFrame_boot_inv:
  "transport_inv (fst w) \<Longrightarrow> fh_hops h \<le> 15 \<Longrightarrow> transport_inv (fst (onFrame_boot cb h p isNew w))"
  by (simp add: onFrame_boot_def onBootId_inv)

lemma onFrame_new_tx_only: "tx_only (fst w) (fst (onFrame_new cb h isNew w))"
  by (auto simp: onFrame_new_def Let_def sendKeepalive_tx_only split: option.splits
      intro: tx_only_trans [OF notifyUp_tx_only sendKeepalive_tx_only])

lemma onFrame_deliver_tx_only: "tx_only (fst w) (fst (onFrame_deliver cb h p w))"
  by (auto simp: onFrame_deliver_def deliver_tx_only split: option.splits)

lemma onFrame_relay_tx_only: "tx_only (fst w) (fst (onFrame_relay h i f w))"
  by (simp add: onFrame_relay_def relay_tx_only)

lemma onFrame_inv:
  assumes inv: "transport_inv (fst w)" and i: "i < length (t_links (fst w))"
  shows "transport_inv (fst (Transport_onFrame cb i from frame now w))"
proof (cases "decodeFrameHeader frame")
  case (Some h)
  note hops = decode_hops_bound [OF Some]
  show ?thesis
  proof (cases "fh_src h = t_nodeId (fst w) \<or> fh_src h = BROADCAST_NODE")
    case False
    then have "transport_inv (fst (Transport_learn h i from now (fst w)))"
      by (intro learn_inv inv i hops) auto
    then show ?thesis
      using False Some hops
      by (auto simp: Transport_onFrame_def Let_def split_beta
          intro!: tx_only_inv [OF onFrame_relay_tx_only] tx_only_inv [OF onFrame_deliver_tx_only]
                  tx_only_inv [OF onFrame_new_tx_only] onFrame_boot_inv)
  qed (use inv Some in \<open>simp add: Transport_onFrame_def\<close>)
qed (use inv in \<open>simp add: Transport_onFrame_def\<close>)

text \<open>No operation of the receiving side declares a link.\<close>

lemma links_tx_only: "tx_only t u \<Longrightarrow> length (t_links u) = length (t_links t)"
  by (simp add: tx_only_def)

lemma onBootId_links: "length (t_links (fst (Transport_onBootId cb h p isNew w))) = length (t_links (fst w))"
  using links_tx_only [OF notifyUp_tx_only] links_tx_only [OF notifyDown_tx_only]
  by (auto simp: Transport_onBootId_def Let_def split: option.splits)

lemma onFrame_links: "length (t_links (fst (Transport_onFrame cb i from frame now w))) = length (t_links (fst w))"
proof -
  have l: "t_links (fst (Transport_learn h i from now t)) = t_links t" for h t
    by (simp add: Transport_learn_def Let_def split_beta)
  show ?thesis
    by (auto simp: Transport_onFrame_def Let_def split_beta l links_tx_only [OF onFrame_relay_tx_only]
        links_tx_only [OF onFrame_deliver_tx_only] links_tx_only [OF onFrame_new_tx_only]
        onFrame_boot_def onBootId_links split: option.splits)
qed

lemma poll_link_inv:
  "transport_inv (fst w) \<Longrightarrow> i < length (t_links (fst w)) \<Longrightarrow>
   transport_inv (fst (poll_link cb now i rx w)) \<and>
   length (t_links (fst (poll_link cb now i rx w))) = length (t_links (fst w))"
proof (induction rx arbitrary: w)
  case (Cons r rx)
  obtain frame sender where r: "r = (frame, sender)" by fastforce
  let ?w = "(count_in i (length frame) (fst w), snd w)"
  have c: "transport_inv (fst ?w)" "length (t_links (fst ?w)) = length (t_links (fst w))"
    using Cons.prems tx_only_inv [OF count_in_tx_only] links_tx_only [OF count_in_tx_only] by auto
  show ?case
    using Cons.IH [of "Transport_onFrame cb i sender frame now ?w"] Cons.prems
      onFrame_inv [OF c(1)] onFrame_links c(2) by (simp add: r)
qed simp

lemma poll_links_inv:
  assumes "set is \<subseteq> {..<length (t_links (fst w))}" "transport_inv (fst w)"
  shows "transport_inv (fst (fold (\<lambda>i. poll_link cb now i (rx i)) is w))"
  using assms
proof (induction "is" arbitrary: w)
  case (Cons i "is")
  then have "transport_inv (fst (poll_link cb now i (rx i) w)) \<and>
      length (t_links (fst (poll_link cb now i (rx i) w))) = length (t_links (fst w))"
    by (intro poll_link_inv) auto
  then show ?case using Cons.IH [of "poll_link cb now i (rx i) w"] Cons.prems by simp
qed simp

text \<open>The backward loop, from any index down: the entries below it lose their silent ones, the
  others stay, whatever order the removals leave them in.\<close>

lemma expire_at_silent:
  assumes "k < length (t_nodes (fst w))" "node_silent now (t_nodes (fst w) ! k)"
  shows "take k (rx_table (expire_at cb now k w)) = take k (rx_table w)"
    and "mset (drop k (rx_table (expire_at cb now k w))) = mset (drop (Suc k) (rx_table w))"
    and "t_expired (fst (expire_at cb now k w)) = t_expired (fst w) + 1"
proof -
  let ?ns = "t_nodes (fst w)"
  let ?rs = "butlast (?ns[k := last ?ns])"
  let ?v = "((fst w)\<lparr>t_nodes := ?rs, t_expired := t_expired (fst w) + 1\<rparr>, snd w)"
  have "expire_at cb now k w = Transport_notifyDown cb (?ns ! k) ?v"
    using assms(2) by (simp add: expire_at_def Let_def)
  then have "tx_only (fst ?v) (fst (expire_at cb now k w))" using notifyDown_tx_only [of ?v] by simp
  then have m: "rx_table (expire_at cb now k w) = map rx_view ?rs"
    and "t_expired (fst (expire_at cb now k w)) = t_expired (fst w) + 1"
    by (simp_all add: tx_only_def rx_table_def)
  then show "t_expired (fst (expire_at cb now k w)) = t_expired (fst w) + 1" by simp
  show "take k (rx_table (expire_at cb now k w)) = take k (rx_table w)"
    unfolding m by (simp only: rx_table_def take_map swap_remove_parts(1) [OF assms(1)])
  show "mset (drop k (rx_table (expire_at cb now k w))) = mset (drop (Suc k) (rx_table w))"
    unfolding m by (simp only: rx_table_def drop_map mset_map swap_remove_parts(2) [OF assms(1)])
qed

lemma expire_loop:
  assumes "k \<le> length (t_nodes (fst w))"
  shows "mset (rx_table (fold (expire_at cb now) (rev [0..<k]) w)) =
         mset (filter (\<lambda>n. \<not> node_silent now n) (take k (rx_table w)) @ drop k (rx_table w)) \<and>
         t_expired (fst (fold (expire_at cb now) (rev [0..<k]) w)) =
         t_expired (fst w) + of_nat (length (filter (node_silent now) (take k (rx_table w))))"
  using assms
proof (induction k arbitrary: w)
  case (Suc k)
  have k: "k < length (t_nodes (fst w))" "k < length (rx_table w)"
    using Suc.prems by (simp_all add: rx_table_def)
  note tk = take_Suc_conv_app_nth [OF k(2)] Cons_nth_drop_Suc [OF k(2), symmetric]
  have nk: "node_silent now (rx_table w ! k) = node_silent now (t_nodes (fst w) ! k)"
    using k by (simp add: rx_table_def)
  show ?case
  proof (cases "node_silent now (t_nodes (fst w) ! k)")
    case False
    then have "expire_at cb now k w = w" by (simp add: expire_at_def Let_def)
    then show ?thesis using Suc.IH [of w] k False nk by (simp add: tk)
  next
    case True
    note e = expire_at_silent [OF k(1) True]
    have "length (t_nodes (fst (expire_at cb now k w))) \<ge> k"
      using arg_cong [OF e(1), of length] k by (simp add: rx_table_def)
    then show ?thesis
      using Suc.IH [of "expire_at cb now k w"] True nk e by (simp add: tk(1))
  qed
qed (simp add: rx_table_def)

lemma expire_spec:
  "mset (rx_table (Transport_expire cb now w)) = mset (filter (\<lambda>n. \<not> node_silent now n) (rx_table w))"
  "t_expired (fst (Transport_expire cb now w)) =
   t_expired (fst w) + of_nat (length (filter (node_silent now) (rx_table w)))"
  using expire_loop [of "length (t_nodes (fst w))" w now]
  by (simp_all add: Transport_expire_def rx_table_def)

lemma swap_remove_inv:
  assumes "transport_inv t" "k < length (t_nodes t)"
  shows "transport_inv (t\<lparr>t_nodes := butlast ((t_nodes t)[k := last (t_nodes t)]), t_expired := e\<rparr>)"
proof -
  let ?ns = "t_nodes t"
  have d: "distinct (map n_id ?ns)" using assms(1) by (simp add: transport_inv_def)
  have ne: "?ns \<noteq> []" using assms(2) by auto
  have "map n_id (butlast (?ns[k := last ?ns])) = butlast ((map n_id ?ns)[k := last (map n_id ?ns)])"
    by (simp add: map_butlast map_update last_map [OF ne])
  then have "distinct (map n_id (butlast (?ns[k := last ?ns])))"
    using set_list_update_swap_last(2) [of k "map n_id ?ns"] d assms(2) by simp
  moreover have "set (butlast (?ns[k := last ?ns])) \<subseteq> set ?ns"
    using set_list_update_swap_last(1) [of k ?ns] distinct_map [THEN iffD1, OF d] assms(2) by auto
  ultimately show ?thesis using assms(1) by (auto simp: transport_inv_def)
qed

lemma expire_at_inv:
  assumes "transport_inv (fst w)" "k < length (t_nodes (fst w))"
  shows "transport_inv (fst (expire_at cb now k w))"
  using assms swap_remove_inv [OF assms]
  by (auto simp: expire_at_def Let_def intro!: tx_only_inv [OF notifyDown_tx_only])

lemma expire_at_length:
  assumes "k < length (t_nodes (fst w))"
  shows "k \<le> length (t_nodes (fst (expire_at cb now k w)))"
proof (cases "node_silent now (t_nodes (fst w) ! k)")
  case True
  show ?thesis using arg_cong [OF expire_at_silent(1) [OF assms True], of length] assms
    by (simp add: rx_table_def)
qed (use assms in \<open>simp add: expire_at_def Let_def\<close>)

lemma expire_loop_inv:
  "transport_inv (fst w) \<Longrightarrow> k \<le> length (t_nodes (fst w)) \<Longrightarrow>
   transport_inv (fst (fold (expire_at cb now) (rev [0..<k]) w))"
proof (induction k arbitrary: w)
  case (Suc k)
  then show ?case
    using Suc.IH [of "expire_at cb now k w"] expire_at_inv [of w k now] expire_at_length [of k w now] by simp
qed simp

lemma expire_inv: "transport_inv (fst w) \<Longrightarrow> transport_inv (fst (Transport_expire cb now w))"
  unfolding Transport_expire_def by (intro expire_loop_inv) auto

lemma poll_keepalive_inv: "transport_inv t \<Longrightarrow> transport_inv (poll_keepalive now t)"
  by (simp add: poll_keepalive_def tx_only_inv [OF sendKeepalive_tx_only])

lemma poll_inv: "transport_inv (fst w) \<Longrightarrow> transport_inv (fst (Transport_poll cb now rx w))"
  by (simp add: Transport_poll_def Let_def poll_keepalive_inv expire_inv poll_links_inv atLeast0LessThan)

end


section \<open>What the application keeps through a poll\<close>

text \<open>A relation every callback respects on the application's own state holds across a whole
  poll, however many callbacks it runs.\<close>

locale callback_relation =
  fixes cb :: "'a callbacks" and R :: "'a \<Rightarrow> 'a \<Rightarrow> bool"
  assumes R_refl: "R x x"
    and R_trans: "R x y \<Longrightarrow> R y z \<Longrightarrow> R x z"
    and up_R: "R (snd w) (snd (cb_up cb l n w))"
    and down_R: "R (snd w) (snd (cb_down cb l n w))"
    and deliver_R: "cb_deliver cb = Some f \<Longrightarrow> R (snd w) (snd (f src payload w))"
begin

lemma fold_R:
  assumes "\<And>i w. R (snd w) (snd (f i w))"
  shows "R (snd w) (snd (fold f is w))"
proof (induction "is" arbitrary: w)
  case (Cons i "is")
  show ?case using R_trans [OF assms Cons [of "f i w"]] by simp
qed (simp add: R_refl)

lemma notifyUp_R: "R (snd w) (snd (Transport_notifyUp cb i w))"
  unfolding Transport_notifyUp_def by (rule fold_R) (rule up_R)

lemma notifyDown_R: "R (snd w) (snd (Transport_notifyDown cb n w))"
  unfolding Transport_notifyDown_def by (rule fold_R) (rule down_R)

lemma onBootId_R: "R (snd w) (snd (Transport_onBootId cb h p isNew w))"
proof -
  have "R (snd v) (snd (Transport_notifyUp cb i (Transport_notifyDown cb n v)))" for i n v
    by (rule R_trans [OF notifyDown_R notifyUp_R])
  then have "R y (snd (Transport_notifyUp cb i (Transport_notifyDown cb n (t, y))))" for i n t y
    by (metis snd_conv)
  then show ?thesis by (auto simp: Transport_onBootId_def Let_def R_refl split: option.splits)
qed

lemma onFrame_stages_R:
  "R (snd w) (snd (onFrame_boot cb h p isNew w))" "R (snd w) (snd (onFrame_new cb h isNew w))"
  "R (snd w) (snd (onFrame_deliver cb h p w))" "snd (onFrame_relay h i f w) = snd w"
  by (auto simp: onFrame_boot_def onFrame_new_def onFrame_deliver_def onFrame_relay_def Let_def
      onBootId_R notifyUp_R deliver_R R_refl split: option.splits)

lemma onFrame_R: "R (snd w) (snd (Transport_onFrame cb i a f now w))"
proof -
  have "R y (snd (onFrame_deliver cb h p (onFrame_new cb h n (onFrame_boot cb h p n (t, y)))))" for h p n t y
    using R_trans [OF R_trans [OF onFrame_stages_R(1) onFrame_stages_R(2)] onFrame_stages_R(3)] by (metis snd_conv)
  then show ?thesis
    by (auto simp: Transport_onFrame_def Let_def split_beta R_refl onFrame_stages_R(4) split: option.splits)
qed

lemma poll_link_R: "R (snd w) (snd (poll_link cb now i rx w))"
proof (induction rx arbitrary: w)
  case (Cons r rx)
  obtain frame sender where r: "r = (frame, sender)" by fastforce
  let ?w = "(count_in i (length frame) (fst w), snd w)"
  have "R (snd ?w) (snd (poll_link cb now i rx (Transport_onFrame cb i sender frame now ?w)))"
    by (rule R_trans [OF onFrame_R Cons])
  then show ?case by (simp add: r R_refl)
qed (simp add: R_refl)

lemma expire_R: "R (snd w) (snd (Transport_expire cb now w))"
proof -
  have "R y (snd (Transport_notifyDown cb n (t, y)))" for n t y using notifyDown_R by (metis snd_conv)
  then have "R (snd w) (snd (expire_at cb now i w))" for i w by (simp add: expire_at_def Let_def R_refl)
  then show ?thesis unfolding Transport_expire_def by (rule fold_R)
qed

lemma poll_R: "R (snd w) (snd (Transport_poll cb now rx w))"
proof -
  have "R (snd w) (snd (fold (\<lambda>i. poll_link cb now i (rx i)) is w))" for "is"
    by (rule fold_R) (rule poll_link_R)
  then show ?thesis using R_trans [OF _ expire_R] by (simp add: Transport_poll_def Let_def)
qed

end

end
