(* ===== verification/Transport_Correct.thy ===== *)
theory Transport_Correct
  imports Transport
begin

text \<open>
  What the interface manager promises, over the definitions of \<open>Transport\<close>: the table stays
  inside its bounds through every poll, a frame heard twice in a row acts once, the counters of
  a peer account for every frame of its stream, the sender numbers each stream without a hole,
  a relay changes the hop count alone and a relayed frame dies within four hops, a silent node
  leaves the table with one call per listener.
\<close>


section \<open>The recording application\<close>

text \<open>An application that notes every call it receives and sends nothing.\<close>

datatype event = EvUp nat u32 | EvDown nat u32 | EvDeliver u32 bytes

definition recorder :: "event list callbacks" where
  "recorder = \<lparr>cb_up = (\<lambda>l n w. (fst w, snd w @ [EvUp l (n_id n)])),
               cb_down = (\<lambda>l n w. (fst w, snd w @ [EvDown l (n_id n)])),
               cb_deliver = Some (\<lambda>src payload w. (fst w, snd w @ [EvDeliver src payload]))\<rparr>"

interpretation rec: transport_client recorder
  by unfold_locales (auto simp: recorder_def intro: sends_refl)

lemma recorder_notifyUp:
  "Transport_notifyUp recorder i (t, log) =
   (t, log @ map (\<lambda>l. EvUp l (n_id (t_nodes t ! i))) (t_listeners t))"
proof -
  have "fold (\<lambda>l w. cb_up recorder l (t_nodes (fst w) ! i) w) ls (t, log) =
        (t, log @ map (\<lambda>l. EvUp l (n_id (t_nodes t ! i))) ls)" for ls
    by (induction ls arbitrary: log) (simp_all add: recorder_def)
  then show ?thesis by (simp add: Transport_notifyUp_def)
qed

lemma recorder_notifyDown:
  "Transport_notifyDown recorder n (t, log) = (t, log @ map (\<lambda>l. EvDown l (n_id n)) (t_listeners t))"
proof -
  have "fold (\<lambda>l w. cb_down recorder l n w) ls (t, log) = (t, log @ map (\<lambda>l. EvDown l (n_id n)) ls)" for ls
    by (induction ls arbitrary: log) (simp_all add: recorder_def)
  then show ?thesis by (simp add: Transport_notifyDown_def)
qed

lemmas recorder_simps = recorder_notifyUp recorder_notifyDown


section \<open>A frame heard again\<close>

text \<open>The stream a header belongs to has its number as the last accepted one.\<close>

definition stream_seen :: "u32 \<Rightarrow> frame_header \<Rightarrow> node \<Rightarrow> bool" where
  "stream_seen self h n \<longleftrightarrow>
     (if fh_dst h = self then n_unicastHeard n \<and> n_unicastSeq n = fh_seq h
      else n_broadcastHeard n \<and> n_broadcastSeq n = fh_seq h)"

definition frame_seen :: "frame_header \<Rightarrow> transport \<Rightarrow> bool" where
  "frame_seen h t \<longleftrightarrow>
     (\<exists>i. Transport_lookup (fh_src h) t = Some i \<and> stream_seen (t_nodeId t) h (t_nodes t ! i))"

lemma stream_seen_rx_view [simp]: "stream_seen self h (rx_view n) = stream_seen self h n"
  by (simp add: stream_seen_def)

lemma track_seen:
  "fh_dst h = self \<or> fh_dst h = BROADCAST_NODE \<Longrightarrow> stream_seen self h (fst (Transport_track self n h))"
  by (auto simp: Transport_track_def stream_seen_def Let_def)

lemma seen_track:
  "fh_dst h = self \<or> fh_dst h = BROADCAST_NODE \<Longrightarrow> stream_seen self h n \<Longrightarrow>
   \<not> snd (Transport_track self n h)"
  by (auto simp: Transport_track_def stream_seen_def Let_def)

lemma tx_only_frame_seen: "tx_only t u \<Longrightarrow> frame_seen h t \<Longrightarrow> frame_seen h u"
proof -
  assume tu: "tx_only t u" and "frame_seen h t"
  then obtain i where i: "Transport_lookup (fh_src h) t = Some i" "stream_seen (t_nodeId t) h (t_nodes t ! i)"
    by (auto simp: frame_seen_def)
  then have "rx_view (t_nodes u ! i) = rx_view (t_nodes t ! i)"
    using tx_only_nodes(2) [OF tu] lookup_Some by blast
  then have "stream_seen (t_nodeId u) h (t_nodes u ! i)"
    using i(2) tu by (metis stream_seen_rx_view tx_only_def)
  then show ?thesis using tx_only_lookup [OF tu] i(1) by (auto simp: frame_seen_def)
qed

lemma lookup_update_same:
  assumes "i < length (t_nodes t)" "n_id n = n_id (t_nodes t ! i)"
  shows "Transport_lookup d (t\<lparr>t_nodes := (t_nodes t)[i := n]\<rparr>) = Transport_lookup d t"
  unfolding Transport_lookup_def
  by (rule find_index_cong) (use assms in \<open>auto simp: nth_list_update\<close>)

lemma find_index_snoc:
  "find_index P ns = None \<Longrightarrow> P n \<Longrightarrow> find_index P (ns @ [n]) = Some (length ns)"
  by (induction ns) (auto split: if_splits)

text \<open>\<^verbatim>\<open>learn\<close> on each of its branches.\<close>

lemma learn_full:
  "Transport_lookup (fh_src h) t = None \<Longrightarrow> MAX_NODES \<le> length (t_nodes t) \<Longrightarrow>
   Transport_learn h i a now t = (t\<lparr>t_dropped := t_dropped t + 1\<rparr>, False, False)"
  by (simp add: Transport_learn_def)

lemma learn_new:
  "Transport_lookup (fh_src h) t = None \<Longrightarrow> length (t_nodes t) < MAX_NODES \<Longrightarrow>
   Transport_learn h i a now t =
   (t\<lparr>t_nodes := t_nodes t @
       [(fst (Transport_track (t_nodeId t) (Node_init\<lparr>n_id := fh_src h, n_lastSeenUs := now\<rparr>) h))
          \<lparr>n_link := i, n_address := a, n_hops := fh_hops h\<rparr>]\<rparr>, True, True)"
  using track_fresh
  by (simp add: Transport_learn_def Let_def split_beta list_update_append not_le)

lemma learn_known:
  assumes "Transport_lookup (fh_src h) t = Some j"
    and "Transport_track (t_nodeId t) ((t_nodes t ! j)\<lparr>n_lastSeenUs := now\<rparr>) h = (n, ok)"
  shows "Transport_learn h i a now t =
    (t\<lparr>t_nodes := (t_nodes t)[j := (if ok then n\<lparr>n_link := i, n_address := a, n_hops := fh_hops h\<rparr> else n)]\<rparr>,
     ok, False)"
  using assms by (simp add: Transport_learn_def Let_def)

lemma stream_seen_updates [simp]:
  "stream_seen s h (n\<lparr>n_lastSeenUs := a\<rparr>) = stream_seen s h n"
  "stream_seen s h (n\<lparr>n_link := i, n_address := ad, n_hops := hp\<rparr>) = stream_seen s h n"
  "stream_seen s h (n\<lparr>n_boot := b\<rparr>) = stream_seen s h n"
  by (simp_all add: stream_seen_def)

lemma learn_frame_seen:
  assumes dst: "fh_dst h = t_nodeId t \<or> fh_dst h = BROADCAST_NODE"
    and space: "Transport_lookup (fh_src h) t \<noteq> None \<or> length (t_nodes t) < MAX_NODES"
  shows "frame_seen h (fst (Transport_learn h i a now t))"
proof (cases "Transport_lookup (fh_src h) t")
  case None
  then have l: "length (t_nodes t) < MAX_NODES" using space by simp
  let ?n = "(fst (Transport_track (t_nodeId t) (Node_init\<lparr>n_id := fh_src h, n_lastSeenUs := now\<rparr>) h))
          \<lparr>n_link := i, n_address := a, n_hops := fh_hops h\<rparr>"
  have "find_index (\<lambda>n. n_id n = fh_src h) (t_nodes t @ [?n]) = Some (length (t_nodes t))"
    by (rule find_index_snoc) (use None in \<open>simp_all add: Transport_lookup_def\<close>)
  then show ?thesis
    using learn_new [OF None l, of i a now] track_seen [OF dst]
    by (simp add: frame_seen_def Transport_lookup_def)
next
  case (Some j)
  then have j: "j < length (t_nodes t)" "n_id (t_nodes t ! j) = fh_src h" using lookup_Some by auto
  obtain n ok where tr: "Transport_track (t_nodeId t) ((t_nodes t ! j)\<lparr>n_lastSeenUs := now\<rparr>) h = (n, ok)"
    by fastforce
  then have "n_id n = fh_src h" "stream_seen (t_nodeId t) h n"
    using track_frame(1) [of "t_nodeId t" "(t_nodes t ! j)\<lparr>n_lastSeenUs := now\<rparr>" h] j(2)
      track_seen [OF dst, of "(t_nodes t ! j)\<lparr>n_lastSeenUs := now\<rparr>"] by simp_all
  then show ?thesis
    using learn_known [OF Some tr, of i a] Some j lookup_update_same [OF j(1)]
    by (auto simp: frame_seen_def)
qed

lemma seen_learn:
  assumes "fh_dst h = t_nodeId t \<or> fh_dst h = BROADCAST_NODE" "frame_seen h t"
  obtains u where "Transport_learn h i a now t = (u, False, False)" "t_links u = t_links t"
proof -
  obtain j where j: "Transport_lookup (fh_src h) t = Some j" "stream_seen (t_nodeId t) h (t_nodes t ! j)"
    using assms(2) by (auto simp: frame_seen_def)
  obtain n ok where tr: "Transport_track (t_nodeId t) ((t_nodes t ! j)\<lparr>n_lastSeenUs := now\<rparr>) h = (n, ok)"
    by fastforce
  then have "\<not> ok" using seen_track [OF assms(1), of "(t_nodes t ! j)\<lparr>n_lastSeenUs := now\<rparr>"] j(2) by simp
  then show ?thesis using learn_known [OF j(1) tr, of i a] that by simp
qed


lemma learn_nodeId [simp]: "t_nodeId (fst (Transport_learn h i a now t)) = t_nodeId t"
  by (simp add: Transport_learn_def Let_def split_beta)

context transport_client
begin

lemma onBootId_seen:
  assumes dst: "fh_dst h = t_nodeId (fst w) \<or> fh_dst h = BROADCAST_NODE" and seen: "frame_seen h (fst w)"
  shows "frame_seen h (fst (Transport_onBootId cb h p isNew w))"
proof -
  obtain j where j: "Transport_lookup (fh_src h) (fst w) = Some j" "j < length (t_nodes (fst w))"
      "stream_seen (t_nodeId (fst w)) h (t_nodes (fst w) ! j)"
    using seen lookup_Some by (fastforce simp: frame_seen_def)
  have upd: "frame_seen h ((fst w)\<lparr>t_nodes := (t_nodes (fst w))[j := n]\<rparr>)"
    if "n_id n = n_id (t_nodes (fst w) ! j)" "stream_seen (t_nodeId (fst w)) h n" for n
    using that j lookup_update_same [OF j(2) that(1)] by (auto simp: frame_seen_def)
  have r: "frame_seen h (t\<lparr>t_nodes := ns, t_restarted := x\<rparr>) = frame_seen h (t\<lparr>t_nodes := ns\<rparr>)" for t ns x
    by (simp add: frame_seen_def Transport_lookup_def)
  show ?thesis
    using j seen upd track_seen [OF dst]
    by (auto simp: Transport_onBootId_def Let_def r
        intro!: tx_only_frame_seen [OF notifyUp_tx_only] tx_only_frame_seen [OF notifyDown_tx_only])
qed

lemma onFrame_nodeId [simp]: "t_nodeId (fst (Transport_onFrame cb i a f now w)) = t_nodeId (fst w)"
proof -
  have tx: "tx_only t u \<Longrightarrow> t_nodeId u = t_nodeId t" for t u by (simp add: tx_only_def)
  have b: "t_nodeId (fst (Transport_onBootId cb h p n v)) = t_nodeId (fst v)" for h p n v
    using tx [OF notifyUp_tx_only] tx [OF notifyDown_tx_only]
    by (auto simp: Transport_onBootId_def Let_def split: option.splits)
  show ?thesis
    by (auto simp: Transport_onFrame_def Let_def split_beta tx [OF onFrame_relay_tx_only]
        tx [OF onFrame_deliver_tx_only] tx [OF onFrame_new_tx_only] onFrame_boot_def b
        split: option.splits)
qed

text \<open>After a frame for this node or for everyone, either its number is the last of its stream
  or the table was full and its sender is still unknown.\<close>

lemma onFrame_seen:
  assumes h: "decodeFrameHeader f = Some h" "fh_src h \<noteq> t_nodeId (fst w)" "fh_src h \<noteq> BROADCAST_NODE"
    and dst: "fh_dst h = t_nodeId (fst w) \<or> fh_dst h = BROADCAST_NODE"
    and space: "Transport_lookup (fh_src h) (fst w) \<noteq> None \<or> length (t_nodes (fst w)) < MAX_NODES"
  shows "frame_seen h (fst (Transport_onFrame cb i a f now w))"
proof -
  let ?t = "fst (Transport_learn h i a now (fst w))"
  have l: "frame_seen h ?t" by (rule learn_frame_seen [OF dst space])
  have "frame_seen h (fst (onFrame_boot cb h p n (?t, snd w)))" for p n
    using onBootId_seen [of h "(?t, snd w)"] dst l by (simp add: onFrame_boot_def)
  then show ?thesis
    using h l
    by (auto simp: Transport_onFrame_def Let_def split_beta
        intro!: tx_only_frame_seen [OF onFrame_relay_tx_only] tx_only_frame_seen [OF onFrame_deliver_tx_only]
          tx_only_frame_seen [OF onFrame_new_tx_only])
qed

lemma onFrame_repeat:
  fixes i now a
  assumes h: "decodeFrameHeader f = Some h" and dst: "fh_dst h = t_nodeId (fst w) \<or> fh_dst h = BROADCAST_NODE"
  defines "v \<equiv> Transport_onFrame cb i a f now w"
  shows "snd (Transport_onFrame cb j b f now' v) = snd v \<and>
         t_links (fst (Transport_onFrame cb j b f now' v)) = t_links (fst v)"
proof -
  have self: "t_nodeId (fst v) = t_nodeId (fst w)" by (simp add: v_def)
  consider (own) "fh_src h = t_nodeId (fst w) \<or> fh_src h = BROADCAST_NODE"
    | (full) "fh_src h \<noteq> t_nodeId (fst w)" "fh_src h \<noteq> BROADCAST_NODE"
        "Transport_lookup (fh_src h) (fst w) = None" "MAX_NODES \<le> length (t_nodes (fst w))"
    | (known) "fh_src h \<noteq> t_nodeId (fst w)" "fh_src h \<noteq> BROADCAST_NODE"
        "Transport_lookup (fh_src h) (fst w) \<noteq> None \<or> length (t_nodes (fst w)) < MAX_NODES"
    by linarith
  then show ?thesis
  proof cases
    case own
    then show ?thesis using h self by (simp add: Transport_onFrame_def)
  next
    case full
    then have "fst v = (fst w)\<lparr>t_dropped := t_dropped (fst w) + 1\<rparr>"
      using h learn_full by (simp add: v_def Transport_onFrame_def)
    then have "Transport_learn h j b now' (fst v) = ((fst v)\<lparr>t_dropped := t_dropped (fst v) + 1\<rparr>, False, False)"
      using full by (intro learn_full) (simp_all add: Transport_lookup_def)
    then show ?thesis using full h self by (simp add: Transport_onFrame_def)
  next
    case known
    have dv: "fh_dst h = t_nodeId (fst v) \<or> fh_dst h = BROADCAST_NODE" using dst self by simp
    obtain u where "Transport_learn h j b now' (fst v) = (u, False, False)" "t_links u = t_links (fst v)"
      using seen_learn [OF dv] onFrame_seen [OF h known(1,2) dst known(3), of i a now] unfolding v_def by metis
    then show ?thesis using known h self by (simp add: Transport_onFrame_def)
  qed
qed

end


section \<open>What the application is told of a frame\<close>

text \<open>The calls one frame causes, in order, from the state before it: nothing for a repeat or when
  the table is full; a restart (a keepalive with another non-zero boot id) is one departure and
  one arrival for every listener; a new node is one arrival; then the payload, when the frame
  carries one for this node.\<close>

definition boot_of :: "bytes \<Rightarrow> u32" where
  "boot_of p = rd32 (p ! 0) (p ! 1) (p ! 2) (p ! 3)"

definition restarts :: "frame_header \<Rightarrow> bytes \<Rightarrow> node \<Rightarrow> bool" where
  "restarts h p n \<longleftrightarrow> fh_keepalive h \<and> length p \<ge> KEEPALIVE_PAYLOAD_SIZE \<and>
     n_boot n \<noteq> 0 \<and> boot_of p \<noteq> 0 \<and> boot_of p \<noteq> n_boot n"

definition frame_events :: "transport \<Rightarrow> frame_header \<Rightarrow> bytes \<Rightarrow> event list" where
  "frame_events t h p =
     (let ups = map (\<lambda>l. EvUp l (fh_src h)) (t_listeners t);
          downs = map (\<lambda>l. EvDown l (fh_src h)) (t_listeners t);
          data = (if \<not> fh_keepalive h \<and> p \<noteq> [] \<and> (fh_dst h = t_nodeId t \<or> fh_dst h = BROADCAST_NODE)
                  then [EvDeliver (fh_src h) p] else [])
      in case Transport_findNode (fh_src h) t of
           None \<Rightarrow> if length (t_nodes t) < MAX_NODES then ups @ data else []
         | Some n \<Rightarrow>
             if \<not> snd (Transport_track (t_nodeId t) n h) then []
             else (if restarts h p n then downs @ ups else []) @ data)"

lemma track_lastSeen:
  "Transport_track self (n\<lparr>n_lastSeenUs := now\<rparr>) h =
   apfst (n_lastSeenUs_update (\<lambda>_. now)) (Transport_track self n h)"
  by (simp add: Transport_track_def Let_def)

lemma recorder_deliver:
  "onFrame_deliver recorder h p (t, log) =
   (t, log @ (if \<not> fh_keepalive h \<and> p \<noteq> [] \<and> (fh_dst h = t_nodeId t \<or> fh_dst h = BROADCAST_NODE)
              then [EvDeliver (fh_src h) p] else []))"
  by (simp add: onFrame_deliver_def recorder_def)

lemma relay_snd [simp]: "snd (onFrame_relay h i f w) = snd w"
  by (simp add: onFrame_relay_def)


lemma recorder_new:
  assumes "Transport_lookup (fh_src h) t = Some i"
  shows "snd (onFrame_new recorder h isNew (t, log)) =
         log @ (if isNew then map (\<lambda>l. EvUp l (fh_src h)) (t_listeners t) else [])"
  using lookup_Some [OF assms] assms by (simp add: onFrame_new_def recorder_simps Let_def)

lemma recorder_boot_new:
  assumes "Transport_lookup (fh_src h) t = Some i"
  shows "\<exists>u. onFrame_boot recorder h p True (t, log) = (u, log) \<and>
             Transport_lookup (fh_src h) u = Some i \<and> t_listeners u = t_listeners t \<and> t_nodeId u = t_nodeId t"
  using assms lookup_Some [OF assms] lookup_update_same [of i t]
  by (simp add: onFrame_boot_def Transport_onBootId_def Let_def)

lemma recorder_boot_known:
  assumes "Transport_lookup (fh_src h) t = Some i"
  shows "snd (onFrame_boot recorder h p False (t, log)) =
           log @ (if restarts h p (t_nodes t ! i)
                  then map (\<lambda>l. EvDown l (fh_src h)) (t_listeners t) @
                       map (\<lambda>l. EvUp l (fh_src h)) (t_listeners t) else [])"
    and "t_nodeId (fst (onFrame_boot recorder h p False (t, log))) = t_nodeId t"
  using assms lookup_Some [OF assms]
  by (auto simp: onFrame_boot_def Transport_onBootId_def Let_def restarts_def boot_of_def recorder_simps)

lemma onFrame_new_nodeId: "t_nodeId (fst (onFrame_new recorder h n w)) = t_nodeId (fst w)"
  using rec.onFrame_new_tx_only [of w h n] by (simp add: tx_only_def)

lemma recorder_deliver_snd:
  "snd (onFrame_deliver recorder h p w) =
   snd w @ (if \<not> fh_keepalive h \<and> p \<noteq> [] \<and> (fh_dst h = t_nodeId (fst w) \<or> fh_dst h = BROADCAST_NODE)
            then [EvDeliver (fh_src h) p] else [])"
  using recorder_deliver [of h p "fst w" "snd w"] by simp

lemma onFrame_events_new:
  assumes h: "decodeFrameHeader f = Some h" "fh_src h \<noteq> t_nodeId t" "fh_src h \<noteq> BROADCAST_NODE"
    and new: "Transport_lookup (fh_src h) t = None" "length (t_nodes t) < MAX_NODES"
  shows "snd (Transport_onFrame recorder i a f now (t, log)) =
         log @ frame_events t h (drop FRAME_HEADER_SIZE f)"
proof -
  let ?n = "(fst (Transport_track (t_nodeId t) (Node_init\<lparr>n_id := fh_src h, n_lastSeenUs := now\<rparr>) h))
          \<lparr>n_link := i, n_address := a, n_hops := fh_hops h\<rparr>"
  let ?t = "t\<lparr>t_nodes := t_nodes t @ [?n]\<rparr>"
  note l = learn_new [OF new, of i a now]
  have "Transport_lookup (fh_src h) ?t = Some (length (t_nodes t))"
    unfolding Transport_lookup_def
    by (simp, rule find_index_snoc) (use new(1) in \<open>simp_all add: Transport_lookup_def\<close>)
  then obtain u where u: "onFrame_boot recorder h (drop FRAME_HEADER_SIZE f) True (?t, log) = (u, log)"
      "Transport_lookup (fh_src h) u = Some (length (t_nodes t))" "t_listeners u = t_listeners t"
      "t_nodeId u = t_nodeId t"
    using recorder_boot_new [of h ?t "length (t_nodes t)" "drop FRAME_HEADER_SIZE f" log] by auto
  show ?thesis
    using h new l u recorder_new [OF u(2), of True log] onFrame_new_nodeId [of h True "(u, log)"]
    by (simp add: Transport_onFrame_def recorder_deliver_snd frame_events_def findNode_lookup Let_def)
qed

lemma onFrame_events_known:
  assumes h: "decodeFrameHeader f = Some h" "fh_src h \<noteq> t_nodeId t" "fh_src h \<noteq> BROADCAST_NODE"
    and known: "Transport_lookup (fh_src h) t = Some j"
  shows "snd (Transport_onFrame recorder i a f now (t, log)) =
         log @ frame_events t h (drop FRAME_HEADER_SIZE f)"
proof -
  have j: "j < length (t_nodes t)" "n_id (t_nodes t ! j) = fh_src h" using lookup_Some [OF known] by auto
  obtain n ok where tr: "Transport_track (t_nodeId t) ((t_nodes t ! j)\<lparr>n_lastSeenUs := now\<rparr>) h = (n, ok)"
    by fastforce
  then have ok: "ok = snd (Transport_track (t_nodeId t) (t_nodes t ! j) h)"
    by (simp add: track_lastSeen) (metis snd_apfst snd_conv)
  define n' where "n' = (if ok then n\<lparr>n_link := i, n_address := a, n_hops := fh_hops h\<rparr> else n)"
  define t' where "t' = t\<lparr>t_nodes := (t_nodes t)[j := n']\<rparr>"
  have n: "n_id n' = n_id (t_nodes t ! j)" "n_boot n' = n_boot (t_nodes t ! j)"
    using track_frame(1,6) [of "t_nodeId t" "(t_nodes t ! j)\<lparr>n_lastSeenUs := now\<rparr>" h] tr by (simp_all add: n'_def)
  have lk: "Transport_lookup (fh_src h) t' = Some j"
    using lookup_update_same [OF j(1) n(1)] known by (simp add: t'_def)
  have r: "restarts h p (t_nodes t' ! j) = restarts h p (t_nodes t ! j)" for p
    using j(1) n(2) by (simp add: t'_def restarts_def)
  have f: "t_listeners t' = t_listeners t" "t_nodeId t' = t_nodeId t" by (simp_all add: t'_def)
  have l: "Transport_learn h i a now t = (t', ok, False)"
    using learn_known [OF known tr, of i a] by (simp add: t'_def n'_def)
  define p where "p = drop FRAME_HEADER_SIZE f"
  show ?thesis
    using h l ok known recorder_boot_known [OF lk, of p log] r [of p] f
    by (simp add: Transport_onFrame_def recorder_deliver_snd frame_events_def findNode_lookup
        onFrame_new_def Let_def flip: p_def)
qed

lemma onFrame_events:
  assumes h: "decodeFrameHeader f = Some h" "fh_src h \<noteq> t_nodeId t" "fh_src h \<noteq> BROADCAST_NODE"
  shows "snd (Transport_onFrame recorder i a f now (t, log)) =
         log @ frame_events t h (drop FRAME_HEADER_SIZE f)"
proof (cases "Transport_lookup (fh_src h) t")
  case None
  show ?thesis
  proof (cases "length (t_nodes t) < MAX_NODES")
    case False
    then show ?thesis
      using h None learn_full [OF None, of i a now]
      by (simp add: Transport_onFrame_def frame_events_def findNode_lookup Let_def)
  qed (rule onFrame_events_new [OF h None])
qed (rule onFrame_events_known [OF h])



section \<open>Expiry\<close>

lemma recorder_expire_loop:
  assumes "k \<le> length (t_nodes t)"
  shows "snd (fold (expire_at recorder now) (rev [0..<k]) (t, log)) =
         log @ concat (map (\<lambda>n. map (\<lambda>l. EvDown l (n_id n)) (t_listeners t))
                           (rev (filter (node_silent now) (take k (t_nodes t)))))"
  using assms
proof (induction k arbitrary: t log)
  case (Suc k)
  have k: "k < length (t_nodes t)" using Suc.prems by simp
  note tk = take_Suc_conv_app_nth [OF k]
  show ?case
  proof (cases "node_silent now (t_nodes t ! k)")
    case False
    then show ?thesis using Suc.IH [of t log] k by (simp add: expire_at_def tk Let_def)
  next
    case True
    let ?t = "t\<lparr>t_nodes := butlast ((t_nodes t)[k := last (t_nodes t)]), t_expired := t_expired t + 1\<rparr>"
    have "expire_at recorder now k (t, log) =
          (?t, log @ map (\<lambda>l. EvDown l (n_id (t_nodes t ! k))) (t_listeners t))"
      using True by (simp add: expire_at_def recorder_simps Let_def)
    moreover have "take k (t_nodes ?t) = take k (t_nodes t)"
      using swap_remove_parts(1) [OF k] by simp
    ultimately show ?thesis
      using Suc.IH [of ?t] k True by (simp add: tk)
  qed
qed simp


section \<open>Accounting of a stream\<close>

definition stream_heard :: "u32 \<Rightarrow> u32 \<Rightarrow> node \<Rightarrow> bool" where
  "stream_heard self dst n = (if dst = self then n_unicastHeard n else n_broadcastHeard n)"

definition stream_seq :: "u32 \<Rightarrow> u32 \<Rightarrow> node \<Rightarrow> u16" where
  "stream_seq self dst n = (if dst = self then n_unicastSeq n else n_broadcastSeq n)"

text \<open>The entry after a sequence of headers of one sender.\<close>

definition track_run :: "u32 \<Rightarrow> frame_header list \<Rightarrow> node \<Rightarrow> node" where
  "track_run self hs n = fold (\<lambda>h n. fst (Transport_track self n h)) hs n"

text \<open>One frame of a heard stream, its number \<open>d\<close> past the last one.\<close>

lemma track_step:
  assumes dst: "fh_dst h = self \<or> fh_dst h = BROADCAST_NODE" and heard: "stream_heard self (fh_dst h) n"
    and seq: "fh_seq h = stream_seq self (fh_dst h) n + of_nat d" and d: "d < 1024"
  defines "m \<equiv> fst (Transport_track self n h)"
  shows "stream_heard self (fh_dst h) m" "stream_seq self (fh_dst h) m = fh_seq h"
    "n_received m = n_received n + (if d = 0 then 0 else 1)"
    "n_duplicates m = n_duplicates n + (if d = 0 then 1 else 0)"
    "n_lost m = n_lost n + of_nat (d - 1)"
proof -
  have delta: "fh_seq h - stream_seq self (fh_dst h) n = of_nat d" using seq by simp
  have u: "unat (of_nat d :: u16) = d" using d by (simp add: unsigned_of_nat take_bit_nat_eq_self)
  have z: "(of_nat d :: u16) = 0 \<longleftrightarrow> d = 0" by (simp add: word_unat_eq_iff u)
  have one: "\<not> Suc 0 < d \<Longrightarrow> 0 < d \<Longrightarrow> (of_nat d :: u16) = 1 \<and> (of_nat d :: u32) = 1" by (cases d) auto
  have b: "1 < (of_nat d :: u16) \<and> (of_nat d :: u16) < RESYNC_THRESHOLD \<longleftrightarrow> 1 < d"
    using d by (auto simp: word_less_nat_alt u RESYNC_THRESHOLD_def)
  have c: "1 < d \<Longrightarrow> (ucast ((of_nat d :: u16) - 1) :: u32) = of_nat (d - 1)"
  proof -
    assume "1 < d"
    then have "(of_nat d :: u16) - 1 = of_nat (d - 1)" by (simp add: of_nat_diff)
    then show ?thesis using d by (simp add: unsigned_of_nat take_bit_nat_eq_self)
  qed
  show "stream_heard self (fh_dst h) m" "stream_seq self (fh_dst h) m = fh_seq h"
    "n_received m = n_received n + (if d = 0 then 0 else 1)"
    "n_duplicates m = n_duplicates n + (if d = 0 then 1 else 0)"
    "n_lost m = n_lost n + of_nat (d - 1)"
    using dst heard delta z b c one unfolding m_def
    by (auto simp: Transport_track_def stream_heard_def stream_seq_def Let_def)
qed


text \<open>Positions in the sender's stream as they arrive: in order, a position may repeat, and fewer
  than 1024 are skipped at once. The number on the wire is the position modulo 65536.\<close>

definition in_order :: "nat list \<Rightarrow> bool" where
  "in_order ps \<longleftrightarrow> successively (\<lambda>p q. p \<le> q \<and> q - p < 1024) ps"

lemma in_order_last: "in_order (p # ps) \<Longrightarrow> p \<le> last (p # ps)"
proof (induction ps arbitrary: p)
  case (Cons q ps)
  then have "q \<le> last (q # ps)" "p \<le> q" using Cons.IH [of q] by (auto simp: in_order_def)
  then show ?case by (simp del: last.simps add: last_ConsR)
qed simp

lemma track_run_accounting:
  assumes dst: "dst = self \<or> dst = BROADCAST_NODE"
    and hs: "map fh_dst hs = replicate (length ps) dst" "map fh_seq hs = map of_nat ps"
    and n: "stream_heard self dst n" "stream_seq self dst n = of_nat p" and ord: "in_order (p # ps)"
  shows "n_received (track_run self hs n) + 1 = n_received n + of_nat (length (remdups_adj (p # ps))) \<and>
         n_received (track_run self hs n) + n_lost (track_run self hs n) =
           n_received n + n_lost n + of_nat (last (p # ps) - p) \<and>
         n_received (track_run self hs n) + n_duplicates (track_run self hs n) =
           n_received n + n_duplicates n + of_nat (length ps)"
  using hs n ord
proof (induction ps arbitrary: hs n p)
  case Nil
  then show ?case by (simp add: track_run_def)
next
  case (Cons q ps)
  obtain h hs' where hs: "hs = h # hs'" using Cons.prems(1) by (cases hs) auto
  have h: "fh_dst h = dst" "fh_seq h = of_nat q" and hs': "map fh_dst hs' = replicate (length ps) dst"
      "map fh_seq hs' = map of_nat ps"
    using Cons.prems(1,2) by (simp_all add: hs)
  have pq: "p \<le> q" "q - p < 1024" and ord: "in_order (q # ps)"
    using Cons.prems(5) by (simp_all add: in_order_def)
  let ?m = "fst (Transport_track self n h)"
  have seq: "fh_seq h = stream_seq self (fh_dst h) n + of_nat (q - p)"
    using h Cons.prems(4) pq(1) by (simp add: of_nat_diff)
  note step = track_step [OF _ _ seq pq(2)]
  have m: "stream_heard self dst ?m" "stream_seq self dst ?m = of_nat q"
    and c: "n_received ?m = n_received n + (if q - p = 0 then 0 else 1)"
      "n_duplicates ?m = n_duplicates n + (if q - p = 0 then 1 else 0)"
      "n_lost ?m = n_lost n + of_nat (q - p - 1)"
    using step dst h Cons.prems(3) by simp_all
  note IH = Cons.IH [OF hs' m ord]
  have run: "track_run self hs n = track_run self hs' ?m" by (simp add: hs track_run_def)
  have last: "last (p # q # ps) - p = (q - p) + (last (q # ps) - q)"
    using in_order_last [OF ord] pq(1) by simp
  show ?case
  proof (cases "q = p")
    case True
    then show ?thesis using IH c by (simp add: run algebra_simps)
  next
    case False
    then have "q - p = Suc (q - p - 1)" using pq(1) by simp
    then have qp: "(of_nat (q - p) :: u32) = 1 + of_nat (q - p - 1)" by (metis of_nat_Suc)
    have c': "n_received ?m = n_received n + 1" "n_duplicates ?m = n_duplicates n"
      using c False pq(1) by simp_all
    note IH' = IH [unfolded c'(1) c'(2) c(3), folded run]
    have "n_received (track_run self hs n) + 1 = n_received n + of_nat (length (remdups_adj (p # q # ps)))"
      using IH' False by simp
    moreover have "n_received (track_run self hs n) + n_lost (track_run self hs n) =
        n_received n + n_lost n + of_nat (last (p # q # ps) - p)"
      using IH' unfolding last of_nat_add qp by (simp only: ac_simps)
    moreover have "n_received (track_run self hs n) + n_duplicates (track_run self hs n) =
        n_received n + n_duplicates n + of_nat (length (q # ps))"
      using IH' by (simp only: length_Cons of_nat_Suc ac_simps)
    ultimately show ?thesis by blast
  qed
qed



section \<open>Numbering on the sending side\<close>

text \<open>The frames for one destination a link was handed, as number and payload, in order.\<close>

definition frames_for :: "u32 \<Rightarrow> link_port \<Rightarrow> (u16 \<times> bytes) list" where
  "frames_for d l = concat (map (\<lambda>(_, f, _). case decodeFrameHeader f of
       None \<Rightarrow> [] | Some h \<Rightarrow> if fh_dst h = d then [(fh_seq h, drop FRAME_HEADER_SIZE f)] else [])
     (lp_out l))"

definition Transport_sends :: "(u32 \<times> bytes) list \<Rightarrow> transport \<Rightarrow> transport" where
  "Transport_sends msgs t = fold (\<lambda>(dst, p) t. fst (Transport_send dst p t)) msgs t"

definition sendable :: "bytes \<Rightarrow> bool" where
  "sendable p \<longleftrightarrow> 0 < length p \<and> length p \<le> MAX_PAYLOAD"

text \<open>The payloads of a burst that go to one destination, numbered from \<open>s\<close>.\<close>

fun numbered :: "u16 \<Rightarrow> bytes list \<Rightarrow> (u16 \<times> bytes) list" where
  "numbered s [] = []"
| "numbered s (p # ps) = (s, p) # numbered (s + 1) ps"

lemma links_put_on_link:
  "t_links (fst (put_on_link i d f t)) = (t_links t)[i := fst (AbsLink_put d f (t_links t ! i))]"
  by (simp add: put_on_link_def Transport_countLinkSend_def Let_def split_beta)

lemma frames_for_put:
  "frames_for d (fst (AbsLink_put a (encodeFrameHeader h @ p) l)) =
   frames_for d l @ (if fh_dst h = d then [(fh_seq h, p)] else [])"
  by (simp add: frames_for_def AbsLink_put_def decode_encode Let_def)

lemma links_broadcast_on:
  "k < length (t_links t) \<Longrightarrow> distinct is \<Longrightarrow>
   t_links (fst (broadcast_on is f t)) ! k =
   (if k \<in> set is then fst (AbsLink_put None f (t_links t ! k)) else t_links t ! k)"
proof (induction "is" arbitrary: t)
  case (Cons i "is")
  let ?u = "fst (put_on_link i None f t)"
  have "t_links (fst (broadcast_on is f ?u)) ! k =
      (if k \<in> set is then fst (AbsLink_put None f (t_links ?u ! k)) else t_links ?u ! k)"
    using Cons by (intro Cons.IH) (simp_all add: links_put_on_link)
  then show ?case using Cons.prems by (cases "k = i") (auto simp: Let_def split_beta links_put_on_link)
qed simp

lemma countSend_frame [simp]:
  "t_links (Transport_countSend ok n t) = t_links t" "t_nodes (Transport_countSend ok n t) = t_nodes t"
  "t_broadcastSeq (Transport_countSend ok n t) = t_broadcastSeq t"
  by (simp_all add: Transport_countSend_def)

lemma put_on_link_bseq [simp]: "t_broadcastSeq (fst (put_on_link i d f t)) = t_broadcastSeq t"
  by (simp add: put_on_link_def Transport_countLinkSend_def Let_def split_beta)

lemma broadcast_on_frame [simp]:
  "t_nodes (fst (broadcast_on is f t)) = t_nodes t"
  "t_broadcastSeq (fst (broadcast_on is f t)) = t_broadcastSeq t"
  by (induction "is" arbitrary: t) (simp_all add: Let_def split_beta)

text \<open>One unicast: its frame goes to the link of the destination with that entry's number.\<close>

lemma send_unicast:
  assumes "sendable p" "t_links t \<noteq> []" "d \<noteq> BROADCAST_NODE" "Transport_lookup d t = Some i"
  defines "n \<equiv> t_nodes t ! i"
  shows "t_nodes (fst (Transport_send d p t)) = (t_nodes t)[i := n\<lparr>n_txSeq := n_txSeq n + 1\<rparr>]"
    and "t_links (fst (Transport_send d p t)) = (t_links t)[n_link n :=
           fst (AbsLink_put (Some (n_address n))
             (encodeFrameHeader \<lparr>fh_src = t_nodeId t, fh_dst = d, fh_seq = n_txSeq n, fh_hops = 0,
                                 fh_keepalive = False\<rparr> @ p) (t_links t ! n_link n))]"
    and "t_broadcastSeq (fst (Transport_send d p t)) = t_broadcastSeq t"
proof -
  have i: "i < length (t_nodes t)" using lookup_Some [OF assms(4)] by simp
  show "t_nodes (fst (Transport_send d p t)) = (t_nodes t)[i := n\<lparr>n_txSeq := n_txSeq n + 1\<rparr>]"
    "t_links (fst (Transport_send d p t)) = (t_links t)[n_link n :=
           fst (AbsLink_put (Some (n_address n))
             (encodeFrameHeader \<lparr>fh_src = t_nodeId t, fh_dst = d, fh_seq = n_txSeq n, fh_hops = 0,
                                 fh_keepalive = False\<rparr> @ p) (t_links t ! n_link n))]"
    "t_broadcastSeq (fst (Transport_send d p t)) = t_broadcastSeq t"
    using assms i
    by (simp_all add: Transport_send_def sendable_def emit_frame_def Transport_nextSeq_def Let_def
        split_beta links_put_on_link)
qed

text \<open>One broadcast: the same frame to every link, numbered by the broadcast counter.\<close>

lemma send_broadcast:
  assumes "sendable p" "t_links t \<noteq> []"
  shows "t_nodes (fst (Transport_send BROADCAST_NODE p t)) = t_nodes t"
    and "t_broadcastSeq (fst (Transport_send BROADCAST_NODE p t)) = t_broadcastSeq t + 1"
    and "k < length (t_links t) \<Longrightarrow> t_links (fst (Transport_send BROADCAST_NODE p t)) ! k =
           fst (AbsLink_put None
             (encodeFrameHeader \<lparr>fh_src = t_nodeId t, fh_dst = BROADCAST_NODE, fh_seq = t_broadcastSeq t,
                                 fh_hops = 0, fh_keepalive = False\<rparr> @ p) (t_links t ! k))"
  using assms
  by (simp_all add: Transport_send_def sendable_def emit_frame_def Transport_nextSeq_def Let_def
      split_beta links_broadcast_on)

text \<open>A send that is refused before a link is asked leaves the streams alone.\<close>

lemma send_refused:
  assumes "\<not> sendable p \<or> t_links t = [] \<or> d \<noteq> BROADCAST_NODE \<and> Transport_lookup d t = None"
  shows "t_nodes (fst (Transport_send d p t)) = t_nodes t"
    "t_links (fst (Transport_send d p t)) = t_links t"
    "t_broadcastSeq (fst (Transport_send d p t)) = t_broadcastSeq t"
    "snd (Transport_send d p t) = False"
  using assms by (auto simp: Transport_send_def sendable_def)


lemma unicast_stream_step:
  fixes d' p
  assumes inv: "transport_inv t" and d: "d \<noteq> BROADCAST_NODE" "Transport_lookup d t = Some i"
  defines "k \<equiv> n_link (t_nodes t ! i)" and "u \<equiv> fst (Transport_send d' p t)"
  shows "Transport_lookup d u = Some i" "n_link (t_nodes u ! i) = k"
    "n_txSeq (t_nodes u ! i) = n_txSeq (t_nodes t ! i) + (if d' = d \<and> sendable p then 1 else 0)"
    "frames_for d (t_links u ! k) =
     frames_for d (t_links t ! k) @ (if d' = d \<and> sendable p then [(n_txSeq (t_nodes t ! i), p)] else [])"
proof -
  have i: "i < length (t_nodes t)" "n_id (t_nodes t ! i) = d" using lookup_Some [OF d(2)] by auto
  have k: "k < length (t_links t)"
    using inv i(1) by (simp add: k_def transport_inv_def node_ok_def)
  then have ne: "t_links t \<noteq> []" by auto
  have tx: "tx_only t u" unfolding u_def by (rule send_tx_only)
  show "Transport_lookup d u = Some i" using tx_only_lookup [OF tx] d(2) by simp
  have "n_link (rx_view (t_nodes u ! i)) = n_link (rx_view (t_nodes t ! i))"
    using tx_only_nodes(2) [OF tx i(1)] by simp
  then show "n_link (t_nodes u ! i) = k" by (simp add: k_def)
  consider (mine) "d' = d" "sendable p"
    | (refused) "\<not> sendable p \<or> d' \<noteq> BROADCAST_NODE \<and> Transport_lookup d' t = None"
    | (bcast) "d' = BROADCAST_NODE" "sendable p"
    | (other) j where "sendable p" "d' \<noteq> BROADCAST_NODE" "d' \<noteq> d" "Transport_lookup d' t = Some j"
    using d by (cases "Transport_lookup d' t") auto
  then have "n_txSeq (t_nodes u ! i) = n_txSeq (t_nodes t ! i) + (if d' = d \<and> sendable p then 1 else 0) \<and>
    frames_for d (t_links u ! k) =
     frames_for d (t_links t ! k) @ (if d' = d \<and> sendable p then [(n_txSeq (t_nodes t ! i), p)] else [])"
  proof cases
    case mine
    then show ?thesis
      using send_unicast [OF mine(2) ne d] i(1) k by (simp add: u_def k_def frames_for_put)
  next
    case refused
    then show ?thesis using send_refused [of p t d'] d by (auto simp: u_def)
  next
    case bcast
    then show ?thesis
      using send_broadcast [OF bcast(2) ne] d(1) k by (simp add: u_def frames_for_put)
  next
    case other
    then have "j \<noteq> i" using i(2) lookup_Some by auto
    then show ?thesis
      using send_unicast [OF other(1) ne other(2) other(4)] other(3) k
      by (cases "k = n_link (t_nodes t ! j)") (simp_all add: u_def frames_for_put)
  qed
  then show "n_txSeq (t_nodes u ! i) = n_txSeq (t_nodes t ! i) + (if d' = d \<and> sendable p then 1 else 0)"
    "frames_for d (t_links u ! k) =
     frames_for d (t_links t ! k) @ (if d' = d \<and> sendable p then [(n_txSeq (t_nodes t ! i), p)] else [])"
    by auto
qed

lemma broadcast_stream_step:
  fixes d' p
  assumes inv: "transport_inv t" and k: "k < length (t_links t)"
  defines "u \<equiv> fst (Transport_send d' p t)"
  shows "t_broadcastSeq u = t_broadcastSeq t + (if d' = BROADCAST_NODE \<and> sendable p then 1 else 0)"
    "frames_for BROADCAST_NODE (t_links u ! k) = frames_for BROADCAST_NODE (t_links t ! k) @
       (if d' = BROADCAST_NODE \<and> sendable p then [(t_broadcastSeq t, p)] else [])"
proof -
  have ne: "t_links t \<noteq> []" using k by auto
  consider (refused) "\<not> sendable p \<or> d' \<noteq> BROADCAST_NODE \<and> Transport_lookup d' t = None"
    | (bcast) "d' = BROADCAST_NODE" "sendable p"
    | (other) j where "sendable p" "d' \<noteq> BROADCAST_NODE" "Transport_lookup d' t = Some j"
    by (cases "Transport_lookup d' t") auto
  then have "t_broadcastSeq u = t_broadcastSeq t + (if d' = BROADCAST_NODE \<and> sendable p then 1 else 0) \<and>
    frames_for BROADCAST_NODE (t_links u ! k) = frames_for BROADCAST_NODE (t_links t ! k) @
       (if d' = BROADCAST_NODE \<and> sendable p then [(t_broadcastSeq t, p)] else [])"
  proof cases
    case refused
    then show ?thesis using send_refused [of p t d'] by (auto simp: u_def)
  next
    case bcast
    then show ?thesis using send_broadcast [OF bcast(2) ne] k by (simp add: u_def frames_for_put)
  next
    case other
    then show ?thesis
      using send_unicast [OF other(1) ne other(2,3)] k
      by (cases "k = n_link (t_nodes t ! j)") (simp_all add: u_def frames_for_put)
  qed
  then show "t_broadcastSeq u = t_broadcastSeq t + (if d' = BROADCAST_NODE \<and> sendable p then 1 else 0)"
    "frames_for BROADCAST_NODE (t_links u ! k) = frames_for BROADCAST_NODE (t_links t ! k) @
       (if d' = BROADCAST_NODE \<and> sendable p then [(t_broadcastSeq t, p)] else [])"
    by auto
qed

text \<open>The payloads of a burst for one destination.\<close>

definition payloads_for :: "u32 \<Rightarrow> (u32 \<times> bytes) list \<Rightarrow> bytes list" where
  "payloads_for d msgs = map snd (filter (\<lambda>(d', p). d' = d \<and> sendable p) msgs)"

lemma unicast_stream:
  assumes "transport_inv t" "d \<noteq> BROADCAST_NODE" "Transport_lookup d t = Some i"
  shows "frames_for d (t_links (Transport_sends msgs t) ! n_link (t_nodes t ! i)) =
         frames_for d (t_links t ! n_link (t_nodes t ! i)) @
         numbered (n_txSeq (t_nodes t ! i)) (payloads_for d msgs)"
  using assms
proof (induction msgs arbitrary: t)
  case (Cons m msgs)
  obtain d' p where m: "m = (d', p)" by fastforce
  note step = unicast_stream_step [OF Cons.prems, of d' p]
  have "transport_inv (fst (Transport_send d' p t))"
    by (rule tx_only_inv [OF send_tx_only Cons.prems(1)])
  note IH = Cons.IH [OF this Cons.prems(2) step(1)]
  show ?case using IH step by (simp add: m Transport_sends_def payloads_for_def)
qed (simp add: Transport_sends_def payloads_for_def)

lemma broadcast_stream:
  assumes "transport_inv t" "k < length (t_links t)"
  shows "frames_for BROADCAST_NODE (t_links (Transport_sends msgs t) ! k) =
         frames_for BROADCAST_NODE (t_links t ! k) @ numbered (t_broadcastSeq t) (payloads_for BROADCAST_NODE msgs)"
  using assms
proof (induction msgs arbitrary: t)
  case (Cons m msgs)
  obtain d' p where m: "m = (d', p)" by fastforce
  note step = broadcast_stream_step [OF Cons.prems, of d' p]
  have tx: "tx_only t (fst (Transport_send d' p t))" by (rule send_tx_only)
  have "transport_inv (fst (Transport_send d' p t))" by (rule tx_only_inv [OF tx Cons.prems(1)])
  moreover have "k < length (t_links (fst (Transport_send d' p t)))"
    using tx Cons.prems(2) by (simp add: tx_only_def)
  ultimately show ?case
    using Cons.IH [of "fst (Transport_send d' p t)"] step by (simp add: m Transport_sends_def payloads_for_def)
qed (simp add: Transport_sends_def payloads_for_def)



section \<open>Relaying\<close>

text \<open>What a relay hands to link \<open>j\<close>.\<close>

definition relayed_on :: "frame_header \<Rightarrow> nat \<Rightarrow> bytes \<Rightarrow> transport \<Rightarrow> nat \<Rightarrow>
    (link_address option \<times> bytes \<times> bool) list" where
  "relayed_on h arrival f t j =
     drop (length (lp_out (t_links t ! j))) (lp_out (t_links (Transport_relay h arrival f t) ! j))"

lemma put_out: "\<exists>ok. lp_out (fst (AbsLink_put a f l)) = lp_out l @ [(a, f, ok)]"
  by (simp add: AbsLink_put_def Let_def)

lemma relay_out:
  fixes h f
  assumes j: "j < length (t_links t)"
  defines "F \<equiv> encodeFrameHeader (h\<lparr>fh_hops := fh_hops h + 1\<rparr>) @ drop FRAME_HEADER_SIZE f"
  shows "(if fh_hops h \<ge> MAX_HOPS \<or> j = arrival then relayed_on h arrival f t j = []
          else if fh_dst h = BROADCAST_NODE then \<exists>ok. relayed_on h arrival f t j = [(None, F, ok)]
          else case Transport_findNode (fh_dst h) t of
            None \<Rightarrow> relayed_on h arrival f t j = []
          | Some n \<Rightarrow> if n_link n = j then \<exists>ok. relayed_on h arrival f t j = [(Some (n_address n), F, ok)]
                      else relayed_on h arrival f t j = [])"
proof -
  consider (dead) "fh_hops h \<ge> MAX_HOPS" | (bcast) "\<not> fh_hops h \<ge> MAX_HOPS" "fh_dst h = BROADCAST_NODE"
    | (unicast) "\<not> fh_hops h \<ge> MAX_HOPS" "fh_dst h \<noteq> BROADCAST_NODE" by blast
  then show ?thesis
  proof cases
    case bcast
    have "t_links (Transport_relay h arrival f t) ! j =
        (if j \<noteq> arrival then fst (AbsLink_put None F (t_links t ! j)) else t_links t ! j)"
      using bcast j by (simp add: Transport_relay_def Let_def links_broadcast_on F_def)
    then show ?thesis using bcast put_out [of None F "t_links t ! j"] by (auto simp: relayed_on_def)
  next
    case unicast
    show ?thesis
    proof (cases "Transport_findNode (fh_dst h) t")
      case (Some n)
      have "t_links (Transport_relay h arrival f t) ! j =
          (if n_link n = j \<and> j \<noteq> arrival then fst (AbsLink_put (Some (n_address n)) F (t_links t ! j))
           else t_links t ! j)"
        using unicast j Some
        by (cases "n_link n = j") (simp_all add: Transport_relay_def Let_def links_put_on_link F_def)
      then show ?thesis
        using unicast Some put_out [of "Some (n_address n)" F "t_links t ! j"] by (auto simp: relayed_on_def)
    qed (use unicast in \<open>simp add: relayed_on_def Transport_relay_def\<close>)
  qed (simp add: relayed_on_def Transport_relay_def)
qed

text \<open>A frame leaves a relay as another frame.\<close>

inductive relay_hop :: "bytes \<Rightarrow> bytes \<Rightarrow> bool" where
  "decodeFrameHeader f = Some h \<Longrightarrow> j < length (t_links t) \<Longrightarrow>
   (a, g, ok) \<in> set (relayed_on h arrival f t j) \<Longrightarrow> relay_hop f g"

lemma hops_plus_one: "(x::u8) < MAX_HOPS \<Longrightarrow> x + 1 \<le> 15 \<and> unat (x + 1) = unat x + 1"
proof -
  assume "x < MAX_HOPS"
  then have "unat x < 4" by (simp add: MAX_HOPS_def word_less_nat_alt)
  moreover from this have "unat (x + 1) = unat x + 1" by (subst unat_add_no_overflow) simp_all
  ultimately show ?thesis by (simp add: word_le_nat_alt)
qed

lemma relay_hop_frame:
  assumes "relay_hop f g"
  obtains h where "decodeFrameHeader f = Some h" "fh_hops h < MAX_HOPS"
    "decodeFrameHeader g = Some (h\<lparr>fh_hops := fh_hops h + 1\<rparr>)"
    "g = encodeFrameHeader (h\<lparr>fh_hops := fh_hops h + 1\<rparr>) @ drop FRAME_HEADER_SIZE f"
proof -
  from assms obtain h j t a ok arrival where h: "decodeFrameHeader f = Some h" "j < length (t_links t)"
      "(a, g, ok) \<in> set (relayed_on h arrival f t j)" by (auto elim: relay_hop.cases)
  let ?F = "encodeFrameHeader (h\<lparr>fh_hops := fh_hops h + 1\<rparr>) @ drop FRAME_HEADER_SIZE f"
  have g: "fh_hops h < MAX_HOPS" "g = ?F"
    using relay_out [OF h(2), of h arrival f] h(3)
    by (auto split: if_splits option.splits simp: not_le)
  moreover have "decodeFrameHeader ?F = Some (h\<lparr>fh_hops := fh_hops h + 1\<rparr>)"
    using hops_plus_one [OF g(1)] by (simp add: decode_encode hops_nibble_id)
  ultimately show ?thesis using that h(1) by simp
qed

lemma relay_chain:
  "(relay_hop ^^ n) f g \<Longrightarrow> decodeFrameHeader f = Some h \<Longrightarrow>
   decodeFrameHeader g = Some (h\<lparr>fh_hops := fh_hops h + of_nat n\<rparr>) \<and> unat (fh_hops h + of_nat n) = unat (fh_hops h) + n \<and>
   (n = 0 \<and> g = f \<or> unat (fh_hops h) + n \<le> 4 \<and> g = encodeFrameHeader (h\<lparr>fh_hops := fh_hops h + of_nat n\<rparr>) @ drop FRAME_HEADER_SIZE f)"
proof (induction n arbitrary: g)
  case (Suc n)
  from Suc.prems(1) obtain m where m: "(relay_hop ^^ n) f m" "relay_hop m g" by auto
  let ?h = "h\<lparr>fh_hops := fh_hops h + of_nat n\<rparr>"
  have h': "decodeFrameHeader m = Some ?h" "unat (fh_hops ?h) = unat (fh_hops h) + n" "drop FRAME_HEADER_SIZE m = drop FRAME_HEADER_SIZE f"
    using Suc.IH [OF m(1) Suc.prems(2)] by auto
  from m(2) obtain h'' where "decodeFrameHeader m = Some h''" and g: "fh_hops h'' < MAX_HOPS"
    "decodeFrameHeader g = Some (h''\<lparr>fh_hops := fh_hops h'' + 1\<rparr>)"
    "g = encodeFrameHeader (h''\<lparr>fh_hops := fh_hops h'' + 1\<rparr>) @ drop FRAME_HEADER_SIZE m"
    by (rule relay_hop_frame)
  with h'(1) have eq: "h'' = ?h" by simp
  have "unat (fh_hops ?h) < 4" using g(1) eq by (simp add: MAX_HOPS_def word_less_nat_alt)
  moreover have "fh_hops ?h + 1 = fh_hops h + of_nat (Suc n)" by simp
  ultimately show ?case
    using g h' hops_plus_one [OF g(1)] unfolding eq by (simp add: add_ac)
qed simp



section \<open>Runs\<close>

text \<open>Everything a composition root and an application can do with a transport, in any order.\<close>

inductive transport_run :: "'a callbacks \<Rightarrow> transport \<times> 'a \<Rightarrow> bool" for cb where
  run_init: "transport_run cb (Transport_init nodeId bootId, x)"
| run_addLink: "transport_run cb w \<Longrightarrow> transport_run cb (fst (Transport_addLink l (fst w)), snd w)"
| run_attach: "transport_run cb w \<Longrightarrow> transport_run cb (Transport_attach l (fst w), snd w)"
| run_detach: "transport_run cb w \<Longrightarrow> transport_run cb (Transport_detach l (fst w), snd w)"
| run_send: "transport_run cb w \<Longrightarrow> transport_run cb (fst (Transport_send d p (fst w)), snd w)"
| run_poll: "transport_run cb w \<Longrightarrow> transport_run cb (Transport_poll cb now rx w)"
| run_app: "transport_run cb w \<Longrightarrow> transport_run cb (fst w, x)"

lemma init_inv: "transport_inv (Transport_init nodeId bootId)"
  by (simp add: transport_inv_def Transport_init_def)

lemma addLink_inv: "transport_inv t \<Longrightarrow> transport_inv (fst (Transport_addLink l t))"
  by (auto simp: Transport_addLink_def transport_inv_def node_ok_def intro: less_SucI)

lemma attach_inv: "transport_inv t \<Longrightarrow> transport_inv (Transport_attach l t)"
  by (simp add: Transport_attach_def transport_inv_def)

lemma detach_inv: "transport_inv t \<Longrightarrow> transport_inv (Transport_detach l t)"
  by (auto simp: Transport_detach_def transport_inv_def length_remove1)

lemmas run_invs = init_inv addLink_inv attach_inv detach_inv tx_only_inv [OF send_tx_only]

context transport_client
begin

lemma run_inv: "transport_run cb w \<Longrightarrow> transport_inv (fst w)"
  by (induction rule: transport_run.induct) (auto intro: run_invs poll_inv)

end


section \<open>Properties\<close>

text \<open>(C25) Memory safety and integrity of the node table. Whatever links are declared, listeners come
  and go, frames arrive and payloads are sent, in any order and with any application that only
  sends from inside its callbacks, the fixed arrays of the transport are never overrun, the
  table holds at most one entry per node and none for the node itself or for the broadcast id,
  and every entry names a declared link (the index the next unicast uses).\<close>

theorem transport_table_invariant:
  assumes "transport_client cb" "transport_run cb w"
  shows "transport_inv (fst w)"
  by (rule transport_client.run_inv [OF assms])

definition demo_link :: link_port where "demo_link = \<lparr>lp_answers = [], lp_out = []\<rparr>"

definition demo_transport :: transport where
  "demo_transport = fst (Transport_addLink demo_link (fst (Transport_addLink demo_link (Transport_init 7 1))))"

lemma demo_run: "transport_run recorder (demo_transport, [])"
  using run_addLink [OF run_addLink [OF run_init [of recorder 7 1 "[]"]]]
  by (simp add: demo_transport_def)

definition demo_frame :: bytes where
  "demo_frame = encodeFrameHeader \<lparr>fh_src = 9, fh_dst = 7, fh_seq = 65535, fh_hops = 1,
                                   fh_keepalive = False\<rparr> @ [1, 2, 3]"

lemma demo_decode:
  "decodeFrameHeader demo_frame = Some \<lparr>fh_src = 9, fh_dst = 7, fh_seq = 65535, fh_hops = 1, fh_keepalive = False\<rparr>"
  by (simp add: demo_frame_def decode_encode hops_nibble_id)

theorem transport_table_invariant_witness:
  "transport_inv (fst (Transport_poll recorder 5000000 (\<lambda>_. [(demo_frame, UartAddress)]) (demo_transport, [])))"
  by (rule transport_table_invariant [OF rec.transport_client_axioms run_poll [OF demo_run]])

text \<open>A frame heard twice in a row acts once. When a frame for this node or for everyone
  comes back, on whatever link and at whatever time, while its number is the last of its
  stream, no callback runs and no link is handed anything: a relay loop, an echoing medium
  and a duplicating one are all silenced here.\<close>

lemma transport_repeat_silent:
  assumes "transport_client cb" "decodeFrameHeader f = Some h"
    and "fh_dst h = t_nodeId (fst w) \<or> fh_dst h = BROADCAST_NODE"
    and "v = Transport_onFrame cb i a f now w"
  shows "snd (Transport_onFrame cb j b f now' v) = snd v \<and>
         t_links (fst (Transport_onFrame cb j b f now' v)) = t_links (fst v)"
  using transport_client.onFrame_repeat [OF assms(1-3)] assms(4) by blast

lemma transport_repeat_silent_example:
  "snd (Transport_onFrame recorder 1 UartAddress demo_frame 20
          (Transport_onFrame recorder 0 UartAddress demo_frame 10 (demo_transport, []))) =
   snd (Transport_onFrame recorder 0 UartAddress demo_frame 10 (demo_transport, []))"
proof -
  have "fh_dst \<lparr>fh_src = 9, fh_dst = 7, fh_seq = 65535, fh_hops = 1, fh_keepalive = False\<rparr> =
        t_nodeId (fst (demo_transport, [] :: event list))"
    by (simp add: demo_transport_def Transport_addLink_def Transport_init_def)
  from transport_repeat_silent [OF rec.transport_client_axioms demo_decode disjI1 [OF this] refl]
  show ?thesis by blast
qed

text \<open>What the application is told. For every frame from another node the callbacks run exactly
  as the events of the frame say: nothing for a repeat or when the table is full, one departure
  and one arrival per listener when a keepalive carries another boot id, one arrival per
  listener for a new node, and the payload delivered once, last, when the frame is data for
  this node or for everyone.\<close>

lemma transport_frame_events:
  assumes "decodeFrameHeader f = Some h" "fh_src h \<noteq> t_nodeId t" "fh_src h \<noteq> BROADCAST_NODE"
  shows "snd (Transport_onFrame recorder i a f now (t, log)) =
         log @ frame_events t h (drop FRAME_HEADER_SIZE f)"
  by (rule onFrame_events [OF assms])

lemma transport_frame_events_example:
  "snd (Transport_onFrame recorder 0 UartAddress demo_frame 10 (Transport_attach 4 demo_transport, [])) =
   [EvUp 4 9, EvDeliver 9 [1, 2, 3]]"
proof -
  let ?t = "Transport_attach 4 demo_transport"
  let ?h = "\<lparr>fh_src = 9, fh_dst = 7, fh_seq = 65535, fh_hops = 1, fh_keepalive = False\<rparr>"
  have t: "t_nodeId ?t = 7" "t_nodes ?t = []" "t_listeners ?t = [4]"
    by (simp_all add: demo_transport_def Transport_addLink_def Transport_init_def Transport_attach_def
        MAX_LISTENERS_def)
  have "snd (Transport_onFrame recorder 0 UartAddress demo_frame 10 (?t, [])) =
        [] @ frame_events ?t ?h (drop FRAME_HEADER_SIZE demo_frame)"
    by (rule transport_frame_events [OF demo_decode]) (simp_all add: t BROADCAST_NODE_def)
  moreover have "drop FRAME_HEADER_SIZE demo_frame = [1, 2, 3]" by (simp add: demo_frame_def)
  ultimately show ?thesis
    by (simp add: frame_events_def Transport_findNode_def t MAX_NODES_def)
qed


text \<open>Expiry removes exactly the silent nodes. Whatever the listeners send meanwhile, the
  table after \<^verbatim>\<open>expire\<close> holds the entries heard less than three seconds ago (or stamped in
  the future) and no other, up to order and the transmit sequences, and the counter of
  forgotten peers grew by the number removed: the backward swap-removal skips none.\<close>

lemma transport_expire_exact:
  assumes "transport_client cb"
  shows "mset (map rx_view (t_nodes (fst (Transport_expire cb now w)))) =
           mset (map rx_view (filter (\<lambda>n. \<not> node_silent now n) (t_nodes (fst w)))) \<and>
         t_expired (fst (Transport_expire cb now w)) =
           t_expired (fst w) + of_nat (length (filter (node_silent now) (t_nodes (fst w))))"
  using transport_client.expire_spec [OF assms, of now w]
  by (simp add: rx_table_def filter_map comp_def)

definition demo_nodes :: "node list" where
  "demo_nodes = [Node_init\<lparr>n_id := 3, n_lastSeenUs := 100\<rparr>, Node_init\<lparr>n_id := 4, n_lastSeenUs := 2999999\<rparr>,
                 Node_init\<lparr>n_id := 5, n_lastSeenUs := 0\<rparr>]"

lemma transport_expire_exact_example:
  "mset (map rx_view (t_nodes (fst (Transport_expire recorder 3000100 (demo_transport\<lparr>t_nodes := demo_nodes\<rparr>, []))))) =
   {#rx_view (Node_init\<lparr>n_id := 4, n_lastSeenUs := 2999999\<rparr>)#}"
  using transport_expire_exact [OF rec.transport_client_axioms, of 3000100 "(demo_transport\<lparr>t_nodes := demo_nodes\<rparr>, [])"]
  by (simp add: demo_nodes_def node_silent_def NODE_EXPIRY_US_def word_less_nat_alt)

text \<open>Every silent node is announced down exactly once to every listener: the calls are those of
  the silent entries of the table before, from the last to the first, each to the listeners in
  the order they attached.\<close>

lemma transport_expire_notifies:
  "snd (Transport_expire recorder now (t, log)) =
   log @ concat (map (\<lambda>n. map (\<lambda>l. EvDown l (n_id n)) (t_listeners t))
                     (rev (filter (node_silent now) (t_nodes t))))"
  using recorder_expire_loop [of "length (t_nodes t)" t now log] by (simp add: Transport_expire_def)

text \<open>The loss counters are exact. Let the frames of one stream of a peer (its unicasts to
  this node, or its broadcasts) arrive in order, some repeated, fewer than 1024 missing at
  once, numbered modulo 65536. From an entry that never heard the stream, the frames accepted
  are the distinct ones, accepted and lost together are all the frames sent from the first
  heard to the last, and accepted and duplicates together are all that arrived (the counters
  being 32-bit). In particular the wrap of the 16-bit number costs nothing.\<close>

lemma transport_stream_accounting:
  assumes "dst = self \<or> dst = BROADCAST_NODE" and "\<not> stream_heard self dst n"
    and "in_order (p # ps)"
    and "map fh_dst hs = replicate (Suc (length ps)) dst" "map fh_seq hs = map of_nat (p # ps)"
    and "m = track_run self hs n"
  shows "n_received m = n_received n + of_nat (length (remdups_adj (p # ps))) \<and>
         n_received m + n_lost m = n_received n + n_lost n + of_nat (last (p # ps) - p + 1) \<and>
         n_received m + n_duplicates m = n_received n + n_duplicates n + of_nat (length (p # ps))"
proof -
  obtain h hs' where hs: "hs = h # hs'" using assms(4) by (cases hs) auto
  have h: "fh_dst h = dst" "fh_seq h = of_nat p" and hs': "map fh_dst hs' = replicate (length ps) dst"
      "map fh_seq hs' = map of_nat ps"
    using assms(4,5) by (simp_all add: hs)
  let ?n = "fst (Transport_track self n h)"
  have n: "stream_heard self dst ?n" "stream_seq self dst ?n = of_nat p"
    and c: "n_received ?n = n_received n + 1" "n_lost ?n = n_lost n" "n_duplicates ?n = n_duplicates n"
    using assms(1,2) h
    by (auto simp: Transport_track_def stream_heard_def stream_seq_def Let_def)
  have run: "m = track_run self hs' ?n" using assms(6) by (simp add: hs track_run_def)
  note acc = track_run_accounting [OF assms(1) hs' n assms(3), unfolded c, folded run]
  have "n_received m = n_received n + of_nat (length (remdups_adj (p # ps)))"
    using acc by simp
  moreover have "n_received m + n_lost m = n_received n + n_lost n + of_nat (last (p # ps) - p + 1)"
    using acc by (simp only: of_nat_add of_nat_1 ac_simps)
  moreover have "n_received m + n_duplicates m = n_received n + n_duplicates n + of_nat (length (p # ps))"
    using acc by (simp only: length_Cons of_nat_Suc ac_simps)
  ultimately show ?thesis by blast
qed

definition demo_header :: "nat \<Rightarrow> frame_header" where
  "demo_header p = \<lparr>fh_src = 9, fh_dst = 7, fh_seq = of_nat p, fh_hops = 0, fh_keepalive = False\<rparr>"

lemma transport_stream_accounting_example:
  "n_lost (track_run 7 (map demo_header [65534, 65534, 65536, 65539]) Node_init) = 3"
proof -
  define m where "m = track_run 7 (map demo_header [65534, 65534, 65536, 65539]) Node_init"
  have c: "n_received m = n_received Node_init + of_nat (length (remdups_adj [65534, 65534, 65536, 65539::nat])) \<and>
        n_received m + n_lost m =
        n_received Node_init + n_lost Node_init + of_nat (last [65534, 65534, 65536, 65539::nat] - 65534 + 1) \<and>
        n_received m + n_duplicates m =
        n_received Node_init + n_duplicates Node_init + of_nat (length [65534, 65534, 65536, 65539::nat])"
    by (rule transport_stream_accounting [OF _ _ _ _ _ m_def, where dst = 7])
       (simp_all add: stream_heard_def Node_init_def in_order_def demo_header_def)
  have "n_received m = 3" using c [THEN conjunct1] by (simp add: Node_init_def)
  moreover have "n_received m + n_lost m = 6"
    using c [THEN conjunct2, THEN conjunct1] by (simp add: Node_init_def)
  ultimately have "3 + n_lost m = 3 + 3" by simp
  then show ?thesis unfolding m_def [symmetric] by (simp only: add_left_cancel)
qed

text \<open>The sender numbers every unicast stream without a hole. Whatever a node sends, to whomever
  and in whatever order, accepted by the links or refused, the frames for one known peer are
  handed to the link of that peer with consecutive numbers (modulo 65536), with the payloads
  it was given, in their order; broadcasts and the traffic of other peers do not consume a
  number.\<close>

lemma transport_unicast_numbering:
  assumes "transport_inv t" "d \<noteq> BROADCAST_NODE" "Transport_lookup d t = Some i"
  shows "frames_for d (t_links (Transport_sends msgs t) ! n_link (t_nodes t ! i)) =
         frames_for d (t_links t ! n_link (t_nodes t ! i)) @
         numbered (n_txSeq (t_nodes t ! i)) (payloads_for d msgs)"
  by (rule unicast_stream [OF assms])

definition demo_peered :: transport where
  "demo_peered = demo_transport\<lparr>t_nodes := [Node_init\<lparr>n_id := 3, n_link := 1, n_txSeq := 65535\<rparr>,
                                            Node_init\<lparr>n_id := 4\<rparr>]\<rparr>"

lemma demo_peered_inv: "transport_inv demo_peered"
  by (simp add: demo_peered_def demo_transport_def Transport_addLink_def Transport_init_def demo_link_def
      transport_inv_def node_ok_def MAX_LINKS_def MAX_NODES_def MAX_LISTENERS_def BROADCAST_NODE_def Node_init_def)

lemma transport_unicast_numbering_example:
  "frames_for 3 (t_links (Transport_sends [(3, [1]), (0, [9]), (4, [7]), (3, []), (3, [2, 2])] demo_peered) ! 1) =
   [(65535, [1]), (0, [2, 2])]"
proof -
  have l: "Transport_lookup 3 demo_peered = Some 0"
    by (simp add: Transport_lookup_def demo_peered_def)
  show ?thesis
    using transport_unicast_numbering [OF demo_peered_inv _ l, of "[(3, [1]), (0, [9]), (4, [7]), (3, []), (3, [2, 2])]"]
    by (simp add: BROADCAST_NODE_def payloads_for_def sendable_def MAX_PAYLOAD_def frames_for_def
        demo_peered_def demo_transport_def Transport_addLink_def Transport_init_def demo_link_def MAX_LINKS_def)
qed

text \<open>The broadcast stream is numbered apart, and every link is handed the same broadcasts with
  the same consecutive numbers, whatever unicasts are sent in between.\<close>

lemma transport_broadcast_numbering:
  assumes "transport_inv t" "k < length (t_links t)"
  shows "frames_for BROADCAST_NODE (t_links (Transport_sends msgs t) ! k) =
         frames_for BROADCAST_NODE (t_links t ! k) @
         numbered (t_broadcastSeq t) (payloads_for BROADCAST_NODE msgs)"
  by (rule broadcast_stream [OF assms])

lemma transport_broadcast_numbering_example:
  "frames_for BROADCAST_NODE (t_links (Transport_sends [(0, [1]), (3, [9]), (0, [2])] demo_peered) ! 0) =
   [(0, [1]), (1, [2])]"
  using transport_broadcast_numbering [OF demo_peered_inv, of 0 "[(0, [1]), (3, [9]), (0, [2])]"]
  by (simp add: BROADCAST_NODE_def payloads_for_def sendable_def MAX_PAYLOAD_def frames_for_def
        demo_peered_def demo_transport_def Transport_addLink_def Transport_init_def demo_link_def MAX_LINKS_def)

text \<open>What a relay forwards. A frame that crossed four relays goes no further and nothing ever
  goes back on the link it came from; otherwise a broadcast leaves once on every other link, a
  unicast once on the link its destination was last heard on, to that node's address, and
  nowhere when the destination is unknown; what leaves is the frame with its hop count one
  higher, same payload, same source, destination, number and keepalive flag.\<close>

lemma transport_relay_forwards:
  assumes "decodeFrameHeader f = Some h" "j < length (t_links t)"
    and "F = encodeFrameHeader (h\<lparr>fh_hops := fh_hops h + 1\<rparr>) @ drop FRAME_HEADER_SIZE f"
  shows "(fh_hops h < MAX_HOPS \<longrightarrow> decodeFrameHeader F = Some (h\<lparr>fh_hops := fh_hops h + 1\<rparr>)) \<and>
         drop FRAME_HEADER_SIZE F = drop FRAME_HEADER_SIZE f \<and>
         (if fh_hops h \<ge> MAX_HOPS \<or> j = arrival then relayed_on h arrival f t j = []
          else if fh_dst h = BROADCAST_NODE then \<exists>ok. relayed_on h arrival f t j = [(None, F, ok)]
          else case Transport_findNode (fh_dst h) t of
            None \<Rightarrow> relayed_on h arrival f t j = []
          | Some n \<Rightarrow> if n_link n = j then \<exists>ok. relayed_on h arrival f t j = [(Some (n_address n), F, ok)]
                      else relayed_on h arrival f t j = [])"
proof -
  have "fh_hops h < MAX_HOPS \<longrightarrow> decodeFrameHeader F = Some (h\<lparr>fh_hops := fh_hops h + 1\<rparr>)"
    using hops_plus_one [of "fh_hops h"] by (simp add: assms(3) decode_encode hops_nibble_id)
  moreover have "drop FRAME_HEADER_SIZE F = drop FRAME_HEADER_SIZE f" by (simp add: assms(3))
  ultimately show ?thesis using relay_out [OF assms(2), of h arrival f] unfolding assms(3) by blast
qed

lemma transport_relay_forwards_example:
  "relayed_on \<lparr>fh_src = 9, fh_dst = 7, fh_seq = 65535, fh_hops = 1, fh_keepalive = False\<rparr> 1 demo_frame demo_peered 1 = []"
  using transport_relay_forwards [OF demo_decode _ refl, of 1 demo_peered 1]
  by (simp add: demo_peered_def demo_transport_def Transport_addLink_def Transport_init_def MAX_LINKS_def)

text \<open>(C34) A relayed frame dies within four hops. Whatever the tables of the relays it meets, in
  whatever topology, loops included, a chain of \<open>n\<close> relays from a frame with \<open>h\<close> hops has
  \<open>h + n \<le> 4\<close>. The frame at its end is, byte for byte, the payload of the frame at its start behind the
  encoding of the same source, destination, sequence number and keepalive flag with \<open>h + n\<close> hops: a
  relay writes the header anew, so the bits of the flags byte that no field uses are cleared.\<close>

theorem transport_relay_chain_bounded:
  assumes "(relay_hop ^^ n) f g" "decodeFrameHeader f = Some h" "0 < n"
  shows "unat (fh_hops h) + n \<le> 4 \<and> unat (fh_hops h + of_nat n) = unat (fh_hops h) + n \<and>
         g = encodeFrameHeader (h\<lparr>fh_hops := fh_hops h + of_nat n\<rparr>) @ drop FRAME_HEADER_SIZE f \<and>
         decodeFrameHeader g = Some (h\<lparr>fh_hops := fh_hops h + of_nat n\<rparr>)"
  using relay_chain [OF assms(1,2)] assms(3) by auto

lemma demo_hop: "\<exists>g. relay_hop demo_frame g"
proof -
  let ?h = "\<lparr>fh_src = 9, fh_dst = 7, fh_seq = 65535, fh_hops = 1, fh_keepalive = False\<rparr>"
  let ?t = "demo_transport\<lparr>t_nodes := [Node_init\<lparr>n_id := 7\<rparr>]\<rparr>"
  have j: "0 < length (t_links ?t)"
    by (simp add: demo_transport_def Transport_addLink_def Transport_init_def MAX_LINKS_def)
  have n: "Transport_findNode 7 ?t = Some (Node_init\<lparr>n_id := 7\<rparr>)" by (simp add: Transport_findNode_def)
  have c: "\<not> MAX_HOPS \<le> 1" "7 \<noteq> BROADCAST_NODE" "n_link (Node_init\<lparr>n_id := 7\<rparr>) = 0"
    by (simp_all add: MAX_HOPS_def BROADCAST_NODE_def Node_init_def word_le_nat_alt)
  have "\<exists>a g ok. (a, g, ok) \<in> set (relayed_on ?h 1 demo_frame ?t 0)"
    using relay_out [OF j, of ?h 1 demo_frame] n c by auto
  then show ?thesis using relay_hop.intros [OF demo_decode j] by blast
qed

theorem transport_relay_chain_bounded_witness:
  "\<exists>g. (relay_hop ^^ 1) demo_frame g \<and> drop FRAME_HEADER_SIZE g = drop FRAME_HEADER_SIZE demo_frame"
proof -
  obtain g where "(relay_hop ^^ 1) demo_frame g" using demo_hop by auto
  then show ?thesis using transport_relay_chain_bounded [OF _ demo_decode zero_less_one] by fastforce
qed

end
