(* ===== verification/Subscriber_Table.thy ===== *)
theory Subscriber_Table
  imports Prelude
begin

text \<open>
  The subscribers of one stream (\<^verbatim>\<open>components/messaging/include/messaging/subscriber_table.hpp\<close>): at
  most \<open>N\<close> node ids in the dense prefix of a fixed array, removal by moving the last entry into
  the freed slot. The table is the list of that prefix; \<open>N\<close> is an argument of \<^verbatim>\<open>add\<close>, the only
  operation that reads it.

  The contract the providers of streams rely on is the locale \<open>bounded_set\<close>: the table is a set
  of at most \<open>N\<close> ids, whatever order the removals leave. Its lemmas answer the question a provider
  has after any sequence of subscriptions and departures: who receives the stream.
\<close>


section \<open>The table\<close>

type_synonym subscriber_table = "u32 list"

definition SubscriberTable_contains :: "u32 \<Rightarrow> subscriber_table \<Rightarrow> bool" where
  "SubscriberTable_contains i ids = list_ex (\<lambda>x. x = i) ids"

definition SubscriberTable_add :: "nat \<Rightarrow> u32 \<Rightarrow> subscriber_table \<Rightarrow> subscriber_table \<times> bool" where
  "SubscriberTable_add N i ids =
     (if SubscriberTable_contains i ids then (ids, True)
      else if length ids = N then (ids, False)
      else (ids @ [i], True))"

text \<open>The search loop of \<^verbatim>\<open>remove\<close> from a given index.\<close>

function remove_from :: "nat \<Rightarrow> u32 \<Rightarrow> subscriber_table \<Rightarrow> subscriber_table \<times> bool" where
  "remove_from index i ids =
     (if index < length ids
      then (if ids ! index \<noteq> i then remove_from (index + 1) i ids
            else (butlast (ids[index := ids ! (length ids - 1)]), True))
      else (ids, False))"
  by auto
termination by (relation "measure (\<lambda>(index, i, ids). length ids - index)") auto

declare remove_from.simps [simp del]

definition SubscriberTable_remove :: "u32 \<Rightarrow> subscriber_table \<Rightarrow> subscriber_table \<times> bool" where
  "SubscriberTable_remove i ids = remove_from 0 i ids"

definition SubscriberTable_size :: "subscriber_table \<Rightarrow> nat" where
  "SubscriberTable_size ids = length ids"

definition SubscriberTable_empty :: "subscriber_table \<Rightarrow> bool" where
  "SubscriberTable_empty ids \<longleftrightarrow> length ids = 0"

definition SubscriberTable_id :: "nat \<Rightarrow> subscriber_table \<Rightarrow> u32" where
  "SubscriberTable_id index ids = ids ! index"

definition SubscriberTable_clear :: "subscriber_table \<Rightarrow> subscriber_table" where
  "SubscriberTable_clear ids = []"


section \<open>The contract of a bounded set\<close>

datatype sub_op = Sub u32 | Unsub u32

fun sub_id :: "sub_op \<Rightarrow> u32" where
  "sub_id (Sub i) = i"
| "sub_id (Unsub i) = i"

text \<open>What a sequence of operations leaves in the set, without the bound.\<close>

fun set_op :: "sub_op \<Rightarrow> u32 set \<Rightarrow> u32 set" where
  "set_op (Sub i) S = insert i S"
| "set_op (Unsub i) S = S - {i}"

fun table_op :: "(u32 \<Rightarrow> 't \<Rightarrow> 't \<times> bool) \<Rightarrow> (u32 \<Rightarrow> 't \<Rightarrow> 't \<times> bool) \<Rightarrow> sub_op \<Rightarrow> 't \<Rightarrow> 't" where
  "table_op add remove (Sub i) t = fst (add i t)"
| "table_op add remove (Unsub i) t = fst (remove i t)"

locale bounded_set =
  fixes N :: nat
    and add remove :: "u32 \<Rightarrow> 't \<Rightarrow> 't \<times> bool"
    and contains :: "u32 \<Rightarrow> 't \<Rightarrow> bool"
    and ids :: "'t \<Rightarrow> u32 set"
    and ok :: "'t \<Rightarrow> bool"
  assumes ok_card: "ok t \<Longrightarrow> finite (ids t) \<and> card (ids t) \<le> N"
    and contains_iff: "contains i t \<longleftrightarrow> i \<in> ids t"
    and add_ok: "ok t \<Longrightarrow> ok (fst (add i t))"
    and add_room: "ok t \<Longrightarrow> i \<in> ids t \<or> card (ids t) < N \<Longrightarrow>
                   ids (fst (add i t)) = insert i (ids t) \<and> snd (add i t)"
    and add_full: "ok t \<Longrightarrow> i \<notin> ids t \<Longrightarrow> card (ids t) = N \<Longrightarrow> add i t = (t, False)"
    and remove_ok: "ok t \<Longrightarrow> ok (fst (remove i t))"
    and remove_ids: "ok t \<Longrightarrow> ids (fst (remove i t)) = ids t - {i}"
    and remove_flag: "ok t \<Longrightarrow> snd (remove i t) \<longleftrightarrow> i \<in> ids t"
begin

lemma run_ok: "ok t \<Longrightarrow> ok (fold (table_op add remove) ops t)"
proof (induction ops arbitrary: t)
  case (Cons op ops)
  then show ?case by (cases op) (simp_all add: add_ok remove_ok)
qed simp

lemma add_subset: "ok t \<Longrightarrow> ids (fst (add i t)) \<subseteq> insert i (ids t)"
  using add_room [of t i] add_full [of t i] ok_card [of t] by (cases "i \<in> ids t \<or> card (ids t) < N") auto

text \<open>As long as no more than \<open>N\<close> distinct ids ever ask, the table is exactly the set.\<close>

lemma run_exact:
  assumes "ok t" "finite S" "card S \<le> N" "ids t \<subseteq> S" "\<forall>op \<in> set ops. sub_id op \<in> S"
  shows "ids (fold (table_op add remove) ops t) = fold set_op ops (ids t)"
  using assms
proof (induction ops arbitrary: t)
  case (Cons op ops)
  have op: "sub_id op \<in> S" using Cons.prems(5) by simp
  show ?case
  proof (cases op)
    case (Sub i)
    have "i \<in> ids t \<or> card (ids t) < N"
      using Cons.prems(2-4) op Sub
      by (metis card_mono card_seteq le_neq_implies_less order.trans sub_id.simps(1))
    then have a: "ids (fst (add i t)) = insert i (ids t)" using add_room Cons.prems(1) by blast
    then have "ids (fst (add i t)) \<subseteq> S" using Cons.prems(4) op Sub by simp
    then show ?thesis
      using Cons.IH [OF add_ok [OF Cons.prems(1)] Cons.prems(2,3)] Cons.prems(5) a Sub by simp
  next
    case (Unsub i)
    then show ?thesis
      using Cons.IH [OF remove_ok [OF Cons.prems(1)] Cons.prems(2,3)] Cons.prems(1,4,5) remove_ids
      by auto
  qed
qed simp

lemma run_contains:
  assumes "ok t" "finite S" "card S \<le> N" "ids t \<subseteq> S" "\<forall>op \<in> set ops. sub_id op \<in> S"
  shows "contains i (fold (table_op add remove) ops t) \<longleftrightarrow> i \<in> fold set_op ops (ids t)"
  using run_exact [OF assms] contains_iff by simp

end


section \<open>The table is a bounded set\<close>

definition table_ok :: "nat \<Rightarrow> subscriber_table \<Rightarrow> bool" where
  "table_ok N ids \<longleftrightarrow> distinct ids \<and> length ids \<le> N"

lemma contains_set: "SubscriberTable_contains i ids \<longleftrightarrow> i \<in> set ids"
  by (auto simp: SubscriberTable_contains_def list_ex_iff)

lemma remove_from_spec:
  assumes "distinct ids" "\<forall>j < index. j < length ids \<longrightarrow> ids ! j \<noteq> i"
  shows "distinct (fst (remove_from index i ids)) \<and> set (fst (remove_from index i ids)) = set ids - {i} \<and>
         (snd (remove_from index i ids) \<longleftrightarrow> i \<in> set ids) \<and> length (fst (remove_from index i ids)) \<le> length ids"
  using assms
proof (induction index i ids rule: remove_from.induct)
  case (1 index i ids)
  consider (miss) "index < length ids" "ids ! index \<noteq> i" | (hit) "index < length ids" "ids ! index = i"
    | (out) "\<not> index < length ids" by blast
  then show ?case
  proof cases
    case miss
    then have "\<forall>j < index + 1. j < length ids \<longrightarrow> ids ! j \<noteq> i" using "1.prems"(2) less_Suc_eq by auto
    then show ?thesis using "1.IH" [OF miss] "1.prems"(1) miss by (simp add: remove_from.simps [of index])
  next
    case hit
    have "ids ! (length ids - 1) = last ids" using hit(1) by (subst last_conv_nth) auto
    then have "remove_from index i ids = (butlast (ids[index := last ids]), True)"
      using hit by (simp add: remove_from.simps [of index])
    then show ?thesis
      using set_list_update_swap_last [OF hit(1) "1.prems"(1)] hit nth_mem by force
  next
    case out
    then have "i \<notin> set ids" using "1.prems"(2) by (auto simp: in_set_conv_nth)
    then show ?thesis using out "1.prems"(1) by (simp add: remove_from.simps [of index])
  qed
qed

lemmas remove_spec = remove_from_spec [of _ 0, folded SubscriberTable_remove_def, simplified]

interpretation subs: bounded_set N "SubscriberTable_add N" SubscriberTable_remove SubscriberTable_contains set
  "table_ok N" for N
proof unfold_locales
  fix t i
  assume t: "table_ok N t"
  show "finite (set t) \<and> card (set t) \<le> N" using t by (simp add: table_ok_def distinct_card)
  show "table_ok N (fst (SubscriberTable_add N i t))"
    using t by (auto simp: SubscriberTable_add_def table_ok_def contains_set)
  show "i \<in> set t \<or> card (set t) < N \<Longrightarrow>
        set (fst (SubscriberTable_add N i t)) = insert i (set t) \<and> snd (SubscriberTable_add N i t)"
    using t by (auto simp: SubscriberTable_add_def table_ok_def contains_set distinct_card)
  show "i \<notin> set t \<Longrightarrow> card (set t) = N \<Longrightarrow> SubscriberTable_add N i t = (t, False)"
    using t by (auto simp: SubscriberTable_add_def table_ok_def contains_set distinct_card)
  show "table_ok N (fst (SubscriberTable_remove i t))" "set (fst (SubscriberTable_remove i t)) = set t - {i}"
    "snd (SubscriberTable_remove i t) \<longleftrightarrow> i \<in> set t"
    using t remove_spec [of t i] by (auto simp: table_ok_def)
qed (rule contains_set)


section \<open>Properties\<close>

text \<open>The subscriber table refines a set. After any sequence of subscriptions and departures
  from an empty table that involves at most \<open>N\<close> distinct nodes, the table holds each id once,
  never more than \<open>N\<close> of them, and a node receives the stream exactly when its last operation
  was a subscription: the set computed from the operations is the set of the entries the
  emitter walks. The swap that fills a freed slot loses and repeats nobody.\<close>

lemma subscriber_table_is_set:
  assumes "finite S" "card S \<le> N" "\<forall>op \<in> set ops. sub_id op \<in> S"
    and "ids = fold (table_op (SubscriberTable_add N) SubscriberTable_remove) ops []"
  shows "distinct ids \<and> length ids \<le> N \<and> set ids = fold set_op ops {} \<and>
         (\<forall>i. SubscriberTable_contains i ids \<longleftrightarrow> i \<in> fold set_op ops {})"
proof -
  have ok: "table_ok N []" by (simp add: table_ok_def)
  have "table_ok N ids" unfolding assms(4) by (rule subs.run_ok [OF ok])
  moreover have "set ids = fold set_op ops {}"
    unfolding assms(4) using subs.run_exact [OF ok assms(1,2)] assms(3) by simp
  ultimately show ?thesis by (simp add: table_ok_def contains_set)
qed

lemma subscriber_table_is_set_example:
  "SubscriberTable_contains 7 (fold (table_op (SubscriberTable_add 2) SubscriberTable_remove)
     [Sub 5, Sub 7, Unsub 5, Sub 5, Sub 7] [])"
  using subscriber_table_is_set [OF _ _ _ refl, of "{5, 7}" 2 "[Sub 5, Sub 7, Unsub 5, Sub 5, Sub 7]"]
  by simp

end
