(* ===== verification/Table_Pull.thy ===== *)
theory Table_Pull
  imports Prelude
begin

text \<open>
  The walk of one paged table (\<^verbatim>\<open>components/messaging/include/messaging/table_pull.hpp\<close>): the
  items pulled so far, the cursor the next page request carries, the request outstanding.
  The template argument \<^verbatim>\<open>MAX\<close> is an argument of \<^verbatim>\<open>applyPage\<close>; \<^verbatim>\<open>m_items\<close> and
  \<^verbatim>\<open>m_count\<close> are the list of the items of the dense prefix.

  The properties are about the dialogue with a node that serves pages of a fixed table: pages
  may be repeated, late or of any size, and the pull still ends with the table (cut at \<open>cap\<close>).
\<close>


record 'a table_pull =
  tp_items :: "'a list"
  tp_cursor :: u32
  tp_total :: u32
  tp_requestId :: u32
  tp_complete :: bool
  tp_abandoned :: bool

definition TablePull_init :: "'a table_pull" where
  "TablePull_init = \<lparr>tp_items = [], tp_cursor = 0, tp_total = 0, tp_requestId = 0, tp_complete = False,
                     tp_abandoned = False\<rparr>"

definition TablePull_reset :: "'a table_pull \<Rightarrow> 'a table_pull" where
  "TablePull_reset p = p\<lparr>tp_items := [], tp_cursor := 0, tp_total := 0, tp_requestId := 0,
                         tp_complete := False, tp_abandoned := False\<rparr>"

definition TablePull_setRequestId :: "u32 \<Rightarrow> 'a table_pull \<Rightarrow> 'a table_pull" where
  "TablePull_setRequestId i p = p\<lparr>tp_requestId := i\<rparr>"

text \<open>The loop over the items of a page: the items kept and whether one found the storage full.\<close>

fun append_items :: "nat \<Rightarrow> 'a list \<Rightarrow> 'a list \<Rightarrow> 'a list \<times> bool" where
  "append_items cap items [] = (items, False)"
| "append_items cap items (x # xs) =
     (if length items = cap then (items, True) else append_items cap (items @ [x]) xs)"

definition TablePull_applyPage :: "nat \<Rightarrow> u32 \<Rightarrow> u32 \<Rightarrow> 'a list \<Rightarrow> 'a table_pull \<Rightarrow> 'a table_pull \<times> bool" where
  "TablePull_applyPage cap itemsTotal pageCursor pageItems p =
     (if pageCursor \<noteq> tp_cursor p then (p, False)
      else
        let p = (if pageCursor = 0 then p\<lparr>tp_items := [], tp_complete := False\<rparr> else p);
            p = p\<lparr>tp_total := itemsTotal, tp_requestId := 0\<rparr>;
            (items, overflow) = append_items cap (tp_items p) pageItems;
            p = p\<lparr>tp_items := items, tp_cursor := tp_cursor p + of_nat (length pageItems)\<rparr>
        in ((if overflow \<or> pageItems = [] \<or> tp_cursor p \<ge> tp_total p
             then p\<lparr>tp_complete := True\<rparr> else p), True))"

definition TablePull_abandon :: "'a table_pull \<Rightarrow> 'a table_pull" where
  "TablePull_abandon p = p\<lparr>tp_abandoned := True, tp_requestId := 0\<rparr>"


section \<open>Pages of a table\<close>

text \<open>A page a node with this table may send: some items from the cursor on, at least one unless
  the cursor is at the end.\<close>

definition honest_page :: "'a list \<Rightarrow> u32 \<times> 'a list \<Rightarrow> bool" where
  "honest_page table pg \<longleftrightarrow>
     (\<exists>k. snd pg = take k (drop (unat (fst pg)) table)) \<and> unat (fst pg) \<le> length table \<and>
     (snd pg = [] \<longrightarrow> unat (fst pg) = length table)"

definition apply_pages :: "nat \<Rightarrow> 'a list \<Rightarrow> (u32 \<times> 'a list) list \<Rightarrow> 'a table_pull \<Rightarrow> 'a table_pull" where
  "apply_pages cap table pgs p =
     fold (\<lambda>(c, items) p. fst (TablePull_applyPage cap (of_nat (length table)) c items p)) pgs p"

text \<open>What the pull holds at any moment of an honest dialogue.\<close>

definition pull_inv :: "nat \<Rightarrow> 'a list \<Rightarrow> 'a table_pull \<Rightarrow> bool" where
  "pull_inv cap table p \<longleftrightarrow>
     unat (tp_cursor p) \<le> length table \<and> tp_items p = take cap (take (unat (tp_cursor p)) table) \<and>
     (tp_complete p \<longrightarrow> tp_items p = take cap table) \<and>
     (\<not> tp_complete p \<longrightarrow> table \<noteq> [] \<longrightarrow> unat (tp_cursor p) < length table)"

lemma append_items_spec:
  "length items \<le> cap \<Longrightarrow>
   append_items cap items xs = (take cap (items @ xs), cap < length items + length xs)"
  by (induction cap items xs rule: append_items.induct) (auto simp: not_less_eq_eq)

lemma pull_inv_init: "pull_inv cap table TablePull_init"
  by (simp add: pull_inv_def TablePull_init_def)

text \<open>An accepted page of the table moves the cursor by what it carries.\<close>

lemma accepted_page:
  assumes inv: "pull_inv cap table p" and pg: "honest_page table (c, items)" "c = tp_cursor p"
    and len: "length table < 2 ^ 32"
  defines "q \<equiv> fst (TablePull_applyPage cap (of_nat (length table)) c items p)"
  shows "pull_inv cap table q \<and> unat (tp_cursor q) = unat (tp_cursor p) + length items \<and>
         snd (TablePull_applyPage cap (of_nat (length table)) c items p) \<and>
         (tp_complete p \<longrightarrow> c \<noteq> 0 \<longrightarrow> tp_complete q)"
proof -
  let ?c = "unat (tp_cursor p)"
  obtain k where items: "items = take k (drop ?c table)" and empty: "items = [] \<longrightarrow> ?c = length table"
    using pg(1) unfolding pg(2) honest_page_def fst_conv snd_conv by blast
  have "length items \<le> length table - ?c" by (simp add: items)
  moreover have "?c \<le> length table" using inv by (simp add: pull_inv_def)
  ultimately have le: "?c + length items \<le> length table" by linarith
  have drop: "items = take (length items) (drop ?c table)" by (simp add: items min_def)
  have cur: "unat (tp_cursor p + of_nat (length items)) = ?c + length items"
    by (rule unat_plus_of_nat) (use le len in simp)
  have tot: "unat (of_nat (length table) :: u32) = length table"
    by (rule unat_of_nat_small) (use len in simp)
  have done_iff: "tp_cursor p + of_nat (length items) \<ge> (of_nat (length table) :: u32) \<longleftrightarrow>
      ?c + length items = length table"
    using le by (auto simp: word_le_nat_alt cur tot)
  have app: "append_items cap (take cap (take ?c table)) items =
      (take cap (take (?c + length items) table), cap < min cap ?c + length items)"
  proof -
    have "take (?c + length items) table = take ?c table @ items" by (subst drop) (rule take_add)
    then have "take cap (take cap (take ?c table) @ items) = take cap (take (?c + length items) table)"
      by (simp add: min_def)
    moreover have "length (take cap (take ?c table)) = min cap ?c"
      using inv by (simp add: pull_inv_def min_def)
    ultimately show ?thesis by (simp add: append_items_spec)
  qed
  have full: "cap < min cap ?c + length items \<Longrightarrow> take cap (take (?c + length items) table) = take cap table"
    using le by (simp add: min_def split: if_splits)
  define stop where "stop \<longleftrightarrow> cap < min cap ?c + length items \<or> items = [] \<or> ?c + length items = length table"
  have it: "tp_items p = take cap (take ?c table)" using inv by (simp add: pull_inv_def)
  have q: "tp_items q = take cap (take (?c + length items) table)" "tp_cursor q = tp_cursor p + of_nat (length items)"
      "tp_complete q \<longleftrightarrow> stop \<or> c \<noteq> 0 \<and> tp_complete p"
      "snd (TablePull_applyPage cap (of_nat (length table)) c items p)"
    unfolding q_def TablePull_applyPage_def stop_def
    using pg(2) app it done_iff by (cases "c = 0"; simp add: Let_def)+
  have "stop \<Longrightarrow> take cap (take (?c + length items) table) = take cap table"
    using full empty by (auto simp: stop_def min_def)
  moreover have "tp_complete p \<Longrightarrow> take cap (take (?c + length items) table) = take cap table"
  proof (cases "cap \<le> ?c")
    case False
    assume "tp_complete p"
    then have "take ?c table = take cap table" using inv it False by (simp add: pull_inv_def min_def)
    then have "length (take ?c table) = length (take cap table)" by simp
    then have "?c = length table" using False le by (simp add: min_def split: if_splits)
    then show ?thesis using le False by simp
  qed (simp add: min_def)
  moreover have "\<not> stop \<Longrightarrow> ?c + length items < length table" using le by (auto simp: stop_def)
  ultimately show ?thesis
    using q le by (auto simp: pull_inv_def cur)
qed

lemma stale_page:
  "c \<noteq> tp_cursor p \<Longrightarrow> TablePull_applyPage cap n c items p = (p, False)"
  by (simp add: TablePull_applyPage_def)

lemma apply_pages_inv:
  assumes "length table < 2 ^ 32" "\<forall>pg \<in> set pgs. honest_page table pg" "pull_inv cap table p"
  shows "pull_inv cap table (apply_pages cap table pgs p)"
  using assms(2,3)
proof (induction pgs arbitrary: p)
  case (Cons pg pgs)
  obtain c items where pg: "pg = (c, items)" by fastforce
  have "pull_inv cap table (fst (TablePull_applyPage cap (of_nat (length table)) c items p))"
    using accepted_page [OF Cons.prems(2) _ _ assms(1), of c items] stale_page [of c p] Cons.prems pg
    by (cases "c = tp_cursor p") auto
  then show ?case using Cons.IH Cons.prems(1) by (simp add: apply_pages_def pg)
qed (simp add: apply_pages_def)

text \<open>The dialogue in which every request is answered: the node serves some items, at least one
  when any is left, from the cursor asked.\<close>

definition served_page :: "'a list \<Rightarrow> nat \<Rightarrow> 'a table_pull \<Rightarrow> u32 \<times> 'a list" where
  "served_page table k p = (tp_cursor p, take (max 1 k) (drop (unat (tp_cursor p)) table))"

definition pull_walk :: "nat \<Rightarrow> 'a list \<Rightarrow> nat list \<Rightarrow> 'a table_pull \<Rightarrow> 'a table_pull" where
  "pull_walk cap table ks p =
     fold (\<lambda>k p. if tp_complete p then p
                 else apply_pages cap table [served_page table k p] p) ks p"

lemma served_honest: "pull_inv cap table p \<Longrightarrow> honest_page table (served_page table k p)"
  by (auto simp: honest_page_def served_page_def pull_inv_def)

lemma walk_step:
  fixes k
  assumes "length table < 2 ^ 32" "pull_inv cap table p" "\<not> tp_complete p"
  defines "q \<equiv> apply_pages cap table [served_page table k p] p"
  shows "pull_inv cap table q"
    "tp_complete q \<or> length table - unat (tp_cursor q) < length table - unat (tp_cursor p)"
proof -
  let ?items = "take (max 1 k) (drop (unat (tp_cursor p)) table)"
  have q: "q = fst (TablePull_applyPage cap (of_nat (length table)) (tp_cursor p) ?items p)"
    by (simp add: q_def apply_pages_def served_page_def)
  note a = accepted_page [OF assms(2) served_honest [OF assms(2), of k, unfolded served_page_def] refl assms(1)]
  show "pull_inv cap table q" using a by (simp add: q)
  show "tp_complete q \<or> length table - unat (tp_cursor q) < length table - unat (tp_cursor p)"
  proof (cases "table = []")
    case True
    then show ?thesis by (simp add: q TablePull_applyPage_def Let_def)
  next
    case False
    then have "unat (tp_cursor p) < length table" using assms(2,3) by (simp add: pull_inv_def)
    then show ?thesis using a by (auto simp: q)
  qed
qed

lemma walk_completes:
  "length table < 2 ^ 32 \<Longrightarrow> pull_inv cap table p \<Longrightarrow> length table - unat (tp_cursor p) < length ks \<Longrightarrow>
   pull_inv cap table (pull_walk cap table ks p) \<and> tp_complete (pull_walk cap table ks p)"
proof (induction ks arbitrary: p)
  case (Cons k ks)
  have stay: "tp_complete q \<Longrightarrow> pull_walk cap table ks q = q" for q
    by (induction ks) (simp_all add: pull_walk_def)
  show ?case
  proof (cases "tp_complete p")
    case True
    then show ?thesis using stay Cons.prems(2) by (simp add: pull_walk_def)
  next
    case False
    note step = walk_step [OF Cons.prems(1,2) False, of k]
    let ?q = "apply_pages cap table [served_page table k p] p"
    have w: "pull_walk cap table (k # ks) p = pull_walk cap table ks ?q"
      using False by (simp add: pull_walk_def)
    show ?thesis
    proof (cases "tp_complete ?q")
      case True
      then show ?thesis unfolding w using stay step(1) by simp
    next
      case False
      then show ?thesis unfolding w using Cons.IH [OF Cons.prems(1) step(1)] step(2) Cons.prems(3) by simp
    qed
  qed
qed simp


section \<open>Properties\<close>

text \<open>A pull never holds anything but a prefix of the table. Whatever pages of the node's table
  arrive, repeated, late, out of order and of any size, the items pulled are the first ones of
  the table, up to the storage the composition affords, and a pull that says it is complete
  holds the whole table, cut at that storage.\<close>

lemma table_pull_safe:
  assumes "length table < 2 ^ 32" "\<forall>pg \<in> set pgs. honest_page table pg"
    and "p = apply_pages cap table pgs TablePull_init"
  shows "tp_items p = take cap (take (unat (tp_cursor p)) table) \<and> length (tp_items p) \<le> cap \<and>
         (tp_complete p \<longrightarrow> tp_items p = take cap table)"
  using apply_pages_inv [OF assms(1,2) pull_inv_init, of cap]
  unfolding assms(3) by (auto simp: pull_inv_def)

lemma table_pull_safe_example:
  "tp_items (apply_pages 2 [10, 20, 30::nat] [(1, [20]), (0, [10, 20]), (0, [10]), (2, [30])] TablePull_init) = [10, 20]"
proof -
  have "\<forall>pg \<in> set [(1, [20]), (0, [10, 20]), (0, [10]), (2, [30])]. honest_page [10, 20, 30::nat] pg"
    by (auto simp: honest_page_def intro: exI [of _ 1] exI [of _ 2])
  from table_pull_safe [OF _ this refl, of 2]
  show ?thesis by (simp add: apply_pages_def TablePull_applyPage_def TablePull_init_def Let_def)
qed

text \<open>A pull whose requests are answered ends. With pages of any size of at least one item,
  one more round than the table has items is always enough to complete it (an empty page at
  the end of the table, or a table larger than the storage, closes the walk too), and what it
  then holds is the table cut at the storage.\<close>

lemma table_pull_completes:
  assumes "length table < 2 ^ 32" "length table < length ks"
  shows "tp_complete (pull_walk cap table ks TablePull_init) \<and>
         tp_items (pull_walk cap table ks TablePull_init) = take cap table"
proof -
  have "length table - unat (tp_cursor (TablePull_init :: 'a table_pull)) < length ks"
    using assms(2) by (simp add: TablePull_init_def)
  from walk_completes [OF assms(1) pull_inv_init this, of cap]
  show ?thesis by (auto simp: pull_inv_def)
qed

lemma table_pull_completes_example:
  "tp_items (pull_walk 8 [10, 20, 30::nat] [2, 0, 5, 1] TablePull_init) = [10, 20, 30]"
  using table_pull_completes [of "[10, 20, 30::nat]" "[2, 0, 5, 1]" 8] by simp

end
