(* ===== verification/Envelope.thy ===== *)
theory Envelope
  imports Frame_Codec
begin

text \<open>
  The one wire message (\<^verbatim>\<open>components/protocol/include/protocol/envelope.hpp\<close> and
  \<^verbatim>\<open>src/envelope.cpp\<close>). The struct \<^verbatim>\<open>mark4_Envelope\<close> and its codec are generated from the schema by
  nanopb: a message is its body tag, its request id and an opaque body, and nanopb's encoder and
  decoder are the parameter \<open>codec\<close> of every operation that touches bytes. What the
  repository adds is modelled here: the guards around the codec, and the reader of the body tag
  that spends no decode on a payload nobody claims.
\<close>


record 'b envelope =
  env_which_body :: nat
  env_request_id :: u32
  env_body :: 'b

text \<open>nanopb over a buffer: \<open>pb_encode\<close> is given the capacity of the output, \<open>env_zero\<close> is the
  body of \<^verbatim>\<open>mark4_Envelope_init_zero\<close>, \<open>env_max\<close> the generated \<^verbatim>\<open>mark4_Envelope_size\<close>.\<close>

record 'b codec =
  pb_encode :: "'b envelope \<Rightarrow> nat \<Rightarrow> bytes option"
  pb_decode :: "bytes \<Rightarrow> 'b envelope option"
  env_zero :: 'b
  env_max :: nat

definition encodeEnvelope :: "'b codec \<Rightarrow> 'b envelope \<Rightarrow> nat \<Rightarrow> bytes option" where
  "encodeEnvelope codec envelope capacity =
     (if env_which_body envelope = 0 then None else pb_encode codec envelope capacity)"

definition decodeEnvelope :: "'b codec \<Rightarrow> bytes \<Rightarrow> 'b envelope option" where
  "decodeEnvelope codec data = (if length data = 0 then None else pb_decode codec data)"

text \<open>The documented behaviour of nanopb the messages rely on: what fits the buffer is not empty
  and is read back.\<close>

definition codec_roundtrips :: "'b codec \<Rightarrow> bool" where
  "codec_roundtrips codec \<longleftrightarrow>
     (\<forall>e n bs. env_which_body e \<noteq> 0 \<longrightarrow> pb_encode codec e n = Some bs \<longrightarrow>
        bs \<noteq> [] \<and> length bs \<le> n \<and> pb_decode codec bs = Some e)"


section \<open>The body tag\<close>

definition PB_TAG_FIELD_SHIFT :: nat where "PB_TAG_FIELD_SHIFT = 3"
definition PB_TAG_MAX_BYTES :: nat where "PB_TAG_MAX_BYTES = 5"
definition PB_WT_STRING :: u32 where "PB_WT_STRING = 2"

text \<open>The loop of \<^verbatim>\<open>envelopeBodyTag\<close> from byte \<open>i\<close>, with the bytes left and the tag so far.\<close>

fun body_tag_loop :: "nat \<Rightarrow> u32 \<Rightarrow> bytes \<Rightarrow> u32" where
  "body_tag_loop i tag [] = 0"
| "body_tag_loop i tag (b # bs) =
     (if i < PB_TAG_MAX_BYTES
      then let tag = tag OR push_bit (7 * i) (ucast (b AND 0x7F))
           in if b AND 0x80 = 0
              then (if tag AND 0x07 = PB_WT_STRING then drop_bit PB_TAG_FIELD_SHIFT tag else 0)
              else body_tag_loop (i + 1) tag bs
      else 0)"

definition envelopeBodyTag :: "bytes \<Rightarrow> u32" where
  "envelopeBodyTag data = body_tag_loop 0 0 data"

text \<open>The varint that opens an encoded message whose body has field number \<open>n\<close> (protobuf wire
  format: seven bits a byte, least significant first, the top bit set on all but the last).\<close>

function varint :: "nat \<Rightarrow> bytes" where
  "varint n = (if n < 128 then [of_nat n] else of_nat (n mod 128 + 128) # varint (n div 128))"
  by auto
termination by (relation "measure id") auto

declare varint.simps [simp del]

definition field_tag :: "nat \<Rightarrow> bytes" where
  "field_tag n = varint (8 * n + 2)"

lemma low_byte_all:
  "list_all (\<lambda>m. (of_nat m :: u8) AND 0x7F = of_nat m \<and> (of_nat m :: u8) AND 0x80 = 0 \<and>
     (of_nat (m + 128) :: u8) AND 0x7F = of_nat m \<and> (of_nat (m + 128) :: u8) AND 0x80 \<noteq> 0) [0..<128]"
  by code_simp

lemma low_byte:
  assumes "m < 128"
  shows "(of_nat m :: u8) AND 0x7F = of_nat m" "(of_nat m :: u8) AND 0x80 = 0"
    "(of_nat (m + 128) :: u8) AND 0x7F = of_nat m" "(of_nat (m + 128) :: u8) AND 0x80 \<noteq> 0"
  using low_byte_all assms unfolding list_all_iff by auto

lemma ucast_small: "m < 128 \<Longrightarrow> (ucast (of_nat m :: u8) :: u32) = of_nat m"
  by (simp add: unsigned_of_nat take_bit_nat_eq_self)

lemma bit_of_nat_word: "bit (of_nat n :: u32) k \<longleftrightarrow> k < 32 \<and> bit n k"
  by (simp add: bit_of_nat_iff)

lemma split_seven: "(of_nat (n mod 128) :: u32) OR push_bit 7 (of_nat (n div 128)) = of_nat n"
proof (rule bit_word_eqI)
  fix k :: nat
  have m: "bit (n mod 128) k \<longleftrightarrow> k < 7 \<and> bit n k"
    using bit_take_bit_iff [of 7 n k] by (simp add: take_bit_eq_mod)
  have d: "bit (n div 128) k' \<longleftrightarrow> bit n (7 + k')" for k'
    using bit_drop_bit_eq [of 7 n] by (simp add: drop_bit_eq_div fun_eq_iff)
  assume "k < LENGTH(32)"
  then show "bit ((of_nat (n mod 128) :: u32) OR push_bit 7 (of_nat (n div 128))) k = bit (of_nat n :: u32) k"
    by (auto simp: bit_or_iff bit_push_bit_iff bit_of_nat_word m d)
qed

lemma body_tag_varint:
  assumes "n < 128 ^ (5 - i)" "i < 5"
  shows "body_tag_loop i acc (varint n @ rest) =
    (let tag = acc OR push_bit (7 * i) (of_nat n)
     in if tag AND 0x07 = PB_WT_STRING then drop_bit PB_TAG_FIELD_SHIFT tag else 0)"
  using assms
proof (induction n arbitrary: i acc rule: varint.induct)
  case (1 n)
  show ?case
  proof (cases "n < 128")
    case True
    then show ?thesis
      using "1.prems" by (simp add: varint.simps [of n] low_byte ucast_small PB_TAG_MAX_BYTES_def)
  next
    case False
    have i: "i + 1 < 5"
    proof (rule ccontr)
      assume "\<not> i + 1 < 5"
      then have "5 - i = 1" using "1.prems"(2) by simp
      then show False using "1.prems"(1) False by simp
    qed
    then have "5 - i = Suc (5 - (i + 1))" by simp
    then have "n < 128 ^ (5 - (i + 1)) * 128" using "1.prems"(1) by simp
    then have n: "n div 128 < 128 ^ (5 - (i + 1))" by (rule less_mult_imp_div_less)
    have m: "n mod 128 < 128" by simp
    let ?acc = "acc OR push_bit (7 * i) (of_nat (n mod 128))"
    have "body_tag_loop i acc (varint n @ rest) = body_tag_loop (i + 1) ?acc (varint (n div 128) @ rest)"
      using False low_byte(3,4) [OF m] ucast_small [OF m] "1.prems"(2)
      by (subst varint.simps) (simp add: PB_TAG_MAX_BYTES_def)
    also have "\<dots> = (let tag = ?acc OR push_bit (7 * (i + 1)) (of_nat (n div 128))
       in if tag AND 0x07 = PB_WT_STRING then drop_bit PB_TAG_FIELD_SHIFT tag else 0)"
      by (rule "1.IH" [OF False n i])
    also have "?acc OR push_bit (7 * (i + 1)) (of_nat (n div 128)) =
        acc OR push_bit (7 * i) (of_nat (n mod 128) OR push_bit 7 (of_nat (n div 128)))"
      by (simp add: or.assoc push_bit_or push_bit_push_bit distrib_left add.commute)
    finally show ?thesis unfolding split_seven .
  qed
qed


section \<open>Properties\<close>

text \<open>The body tag is read off the bytes without a decode: for every field number below
  \<open>2\<^sup>2\<^sup>9\<close> the reader returns it from a message that opens with that field, whatever follows,
  so a payload can be turned away by its tag alone.\<close>

lemma envelope_body_tag_correct:
  assumes "n < 2 ^ 29"
  shows "envelopeBodyTag (field_tag n @ rest) = of_nat n"
proof -
  have "8 * n + 2 < 128 ^ (5 - 0)" using assms by simp
  from body_tag_varint [OF this, of 0 rest]
  have e: "envelopeBodyTag (field_tag n @ rest) =
      (if (of_nat (8 * n + 2) :: u32) AND 0x07 = PB_WT_STRING
       then drop_bit PB_TAG_FIELD_SHIFT (of_nat (8 * n + 2)) else 0)"
    by (simp add: envelopeBodyTag_def field_tag_def)
  have u: "unat (of_nat (8 * n + 2) :: u32) = 8 * n + 2"
    by (rule unat_of_nat_small) (use assms in simp)
  have m7: "(0x07 :: u32) = mask 3" by (simp add: mask_eq_exp_minus_1)
  have "(8 * n + 2) mod 8 = 2" by presburger
  then have "take_bit 3 (8 * n + 2) = (2 :: nat)" by (simp add: take_bit_eq_mod)
  then have "(of_nat (8 * n + 2) :: u32) AND 0x07 = 2"
    by (simp only: m7 and.commute [of _ "mask 3"] word_unat_eq_iff unsigned_take_bit_eq u flip: take_bit_eq_mask) simp
  moreover have "drop_bit 3 (of_nat (8 * n + 2) :: u32) = of_nat n"
  proof -
    have "unat (drop_bit 3 (of_nat (8 * n + 2) :: u32)) = n"
    proof -
      have "take_bit 32 (8 * n + 2) = 8 * n + 2" by (rule take_bit_nat_eq_self) (use assms in simp)
      moreover have "(8 * n + 2) div 8 = n" by presburger
      ultimately show ?thesis by (simp only: unsigned_drop_bit_eq u) (simp add: drop_bit_eq_div)
    qed
    then show ?thesis by (metis of_nat_unat ucast_id)
  qed
  ultimately show ?thesis using e by (simp add: PB_WT_STRING_def PB_TAG_FIELD_SHIFT_def)
qed

lemma envelope_body_tag_correct_example:
  "envelopeBodyTag (field_tag 40 @ [3, 1]) = 40"
  using envelope_body_tag_correct [of 40 "[3, 1]"] by simp

end
