(* ===== verification/Messenger.thy ===== *)
theory Messenger
  imports Transport Envelope
begin

text \<open>
  The postman (\<^verbatim>\<open>components/messaging/src/messenger.cpp\<close>, \<^verbatim>\<open>include/messaging/messenger.hpp\<close>):
  the dispatch table from body tags to handlers, the requests kept and resent until they are
  acknowledged, the acknowledgement of what arrives.

  State. The record \<open>messenger\<close> holds the fields of the class; a handler is named by a number, the
  dispatch table is the list of its \<open>64\<close> slots, the table of pending requests the list of its
  entries, whose length the composition chooses. Handlers call the messenger back from inside
  their callbacks, so every operation that calls one works on the whole node: the transport,
  the messenger and whatever the application keeps.

  Handlers. They are the parameter \<open>H\<close>. The locale \<open>messenger_client\<close> states what the messenger
  relies on: a handler reaches the node through \<^verbatim>\<open>send\<close> and \<^verbatim>\<open>request\<close> only. It gives the
  contract of the transport (\<open>transport_client\<close>) for the callbacks the messenger installs.
\<close>


section \<open>Data\<close>

record request_policy =
  rp_periodUs :: u64
  rp_retries :: u8

definition RequestPolicy_default :: request_policy where
  "RequestPolicy_default = \<lparr>rp_periodUs = 500000, rp_retries = 5\<rparr>"

record pending_request =
  pr_used :: bool
  pr_dst :: u32
  pr_id :: u32
  pr_owner :: "nat option"
  pr_policy :: request_policy
  pr_sentUs :: u64
  pr_sends :: u8
  pr_bytes :: bytes

definition PendingRequest_init :: pending_request where
  "PendingRequest_init =
     \<lparr>pr_used = False, pr_dst = 0, pr_id = 0, pr_owner = None, pr_policy = RequestPolicy_default,
      pr_sentUs = 0, pr_sends = 0, pr_bytes = []\<rparr>"

definition TAG_SLOTS :: nat where "TAG_SLOTS = 64"

text \<open>The tag of \<^verbatim>\<open>RequestAck ack = 40\<close> in the schema.\<close>

definition ack_tag :: nat where "ack_tag = 40"

record messenger =
  m_pending :: "pending_request list"
  m_handlers :: "nat option list"
  m_shadowed :: u32
  m_tap :: "nat option"
  m_nowUs :: u64
  m_received :: u32
  m_undecodable :: u32
  m_unhandled :: u32
  m_handled :: u32
  m_ignored :: u32
  m_sent :: u32
  m_refused :: u32
  m_nextId :: u32
  m_requests :: u32
  m_resent :: u32
  m_completed :: u32
  m_failed :: u32
  m_acked :: u32
  m_unmatchedAcks :: u32

definition Messenger_new :: "nat \<Rightarrow> messenger" where
  "Messenger_new pendings =
     \<lparr>m_pending = replicate pendings PendingRequest_init, m_handlers = replicate TAG_SLOTS None,
      m_shadowed = 0, m_tap = None, m_nowUs = 0, m_received = 0, m_undecodable = 0, m_unhandled = 0,
      m_handled = 0, m_ignored = 0, m_sent = 0, m_refused = 0, m_nextId = 0, m_requests = 0,
      m_resent = 0, m_completed = 0, m_failed = 0, m_acked = 0, m_unmatchedAcks = 0\<rparr>"

definition Messenger_init :: "messenger \<Rightarrow> bool" where
  "Messenger_init m \<longleftrightarrow> m_shadowed m = 0"

definition Messenger_setTap :: "nat option \<Rightarrow> messenger \<Rightarrow> messenger" where
  "Messenger_setTap tap m = m\<lparr>m_tap := tap\<rparr>"

type_synonym 'a world = "transport \<times> messenger \<times> 'a"

abbreviation msgr :: "'a world \<Rightarrow> messenger" where "msgr w \<equiv> fst (snd w)"
abbreviation app :: "'a world \<Rightarrow> 'a" where "app w \<equiv> snd (snd w)"

definition on_msgr :: "(messenger \<Rightarrow> messenger) \<Rightarrow> 'a world \<Rightarrow> 'a world" where
  "on_msgr f w = (fst w, f (msgr w), app w)"

text \<open>The handlers, the tap, and the presence listeners other than the messenger.\<close>

record ('b, 'a) handlers =
  h_message :: "nat \<Rightarrow> u32 \<Rightarrow> 'b envelope \<Rightarrow> u64 \<Rightarrow> 'a world \<Rightarrow> 'a world \<times> bool"
  h_failed :: "nat \<Rightarrow> u32 \<Rightarrow> u32 \<Rightarrow> 'a world \<Rightarrow> 'a world"
  h_up :: "nat \<Rightarrow> u32 \<Rightarrow> 'a world \<Rightarrow> 'a world"
  h_down :: "nat \<Rightarrow> u32 \<Rightarrow> 'a world \<Rightarrow> 'a world"
  h_tap :: "nat \<Rightarrow> u32 \<Rightarrow> bytes \<Rightarrow> 'a world \<Rightarrow> 'a world"
  h_listenerUp :: "nat \<Rightarrow> node \<Rightarrow> 'a world \<Rightarrow> 'a world"
  h_listenerDown :: "nat \<Rightarrow> node \<Rightarrow> 'a world \<Rightarrow> 'a world"


section \<open>Handlers come and go\<close>

definition attach_tag :: "nat \<Rightarrow> nat \<Rightarrow> messenger \<Rightarrow> messenger" where
  "attach_tag handler tag m =
     (if tag < TAG_SLOTS \<and> m_handlers m ! tag = None
      then m\<lparr>m_handlers := (m_handlers m)[tag := Some handler]\<rparr>
      else m\<lparr>m_shadowed := m_shadowed m + 1\<rparr>)"

definition Messenger_attach :: "nat \<Rightarrow> nat list \<Rightarrow> messenger \<Rightarrow> messenger" where
  "Messenger_attach handler tags m = fold (attach_tag handler) tags m"

definition detach_tag :: "nat \<Rightarrow> nat \<Rightarrow> messenger \<Rightarrow> messenger" where
  "detach_tag handler tag m =
     (if tag < TAG_SLOTS \<and> m_handlers m ! tag = Some handler
      then m\<lparr>m_handlers := (m_handlers m)[tag := None]\<rparr>
      else m\<lparr>m_shadowed := m_shadowed m - 1\<rparr>)"

definition Messenger_detach :: "nat \<Rightarrow> nat list \<Rightarrow> messenger \<Rightarrow> messenger" where
  "Messenger_detach handler tags m =
     (let m = fold (detach_tag handler) tags m
      in m\<lparr>m_pending := map (\<lambda>e. if pr_used e \<and> pr_owner e = Some handler then e\<lparr>pr_used := False\<rparr> else e)
                           (m_pending m)\<rparr>)"


section \<open>Sending\<close>

definition Messenger_send :: "'b codec \<Rightarrow> u32 \<Rightarrow> 'b envelope \<Rightarrow> 'a world \<Rightarrow> 'a world \<times> bool" where
  "Messenger_send codec dst envelope w =
     (let refused = (\<lambda>w. (on_msgr (\<lambda>m. m\<lparr>m_refused := m_refused m + 1\<rparr>) w, False)) in
      if dst = BROADCAST_NODE then refused w
      else case encodeEnvelope codec envelope (env_max codec) of
             None \<Rightarrow> refused w
           | Some bytes \<Rightarrow>
               let (t, ok) = Transport_send dst bytes (fst w); w = (t, snd w)
               in if \<not> ok then refused w
                  else (on_msgr (\<lambda>m. m\<lparr>m_sent := m_sent m + 1\<rparr>) w, True))"

definition Messenger_nextId :: "messenger \<Rightarrow> messenger \<times> u32" where
  "Messenger_nextId m =
     (let n = m_nextId m + 1; n = (if n = 0 then 1 else n) in (m\<lparr>m_nextId := n\<rparr>, n))"

definition Messenger_emit :: "pending_request \<Rightarrow> 'a world \<Rightarrow> 'a world" where
  "Messenger_emit entry w =
     (let (t, ok) = Transport_send (pr_dst entry) (pr_bytes entry) (fst w)
      in on_msgr (\<lambda>m. if ok then m\<lparr>m_sent := m_sent m + 1\<rparr> else m\<lparr>m_refused := m_refused m + 1\<rparr>) (t, snd w))"

fun free_slot :: "pending_request list \<Rightarrow> nat option" where
  "free_slot [] = None"
| "free_slot (e # es) = (if \<not> pr_used e then Some 0 else map_option Suc (free_slot es))"

definition Messenger_request ::
    "'b codec \<Rightarrow> u32 \<Rightarrow> 'b envelope \<Rightarrow> nat \<Rightarrow> request_policy \<Rightarrow> 'a world \<Rightarrow> 'a world \<times> u32" where
  "Messenger_request codec dst envelope owner policy w =
     (let refused = (\<lambda>w. (on_msgr (\<lambda>m. m\<lparr>m_refused := m_refused m + 1\<rparr>) w, 0)) in
      if dst = BROADCAST_NODE \<or> Transport_findNode dst (fst w) = None then refused w
      else case free_slot (m_pending (msgr w)) of
             None \<Rightarrow> refused w
           | Some i \<Rightarrow>
               let (m, reqId) = Messenger_nextId (msgr w); w = (fst w, m, app w) in
               (case encodeEnvelope codec (envelope\<lparr>env_request_id := reqId\<rparr>) (env_max codec) of
                  None \<Rightarrow> refused w
                | Some bytes \<Rightarrow>
                    let entry = \<lparr>pr_used = True, pr_dst = dst, pr_id = reqId, pr_owner = Some owner,
                                 pr_policy = policy, pr_sentUs = m_nowUs m, pr_sends = 1, pr_bytes = bytes\<rparr>;
                        w = on_msgr (\<lambda>m. m\<lparr>m_pending := (m_pending m)[i := entry],
                                           m_requests := m_requests m + 1\<rparr>) w
                    in (Messenger_emit entry w, reqId)))"


section \<open>Acknowledgements\<close>

definition Messenger_acknowledge :: "'b codec \<Rightarrow> u32 \<Rightarrow> u32 \<Rightarrow> 'a world \<Rightarrow> 'a world" where
  "Messenger_acknowledge codec dst requestId w =
     (case encodeEnvelope codec \<lparr>env_which_body = ack_tag, env_request_id = requestId, env_body = env_zero codec\<rparr>
             (env_max codec) of
        None \<Rightarrow> w
      | Some bytes \<Rightarrow>
          let (t, ok) = Transport_send dst bytes (fst w); w = (t, snd w)
          in if ok then on_msgr (\<lambda>m. m\<lparr>m_acked := m_acked m + 1\<rparr>) w else w)"

text \<open>The first pending request an acknowledgement matches is released.\<close>

fun release_first :: "u32 \<Rightarrow> u32 \<Rightarrow> pending_request list \<Rightarrow> pending_request list option" where
  "release_first src requestId [] = None"
| "release_first src requestId (e # es) =
     (if pr_used e \<and> pr_dst e = src \<and> pr_id e = requestId then Some (e\<lparr>pr_used := False\<rparr> # es)
      else map_option ((#) e) (release_first src requestId es))"

definition Messenger_onAck :: "u32 \<Rightarrow> u32 \<Rightarrow> messenger \<Rightarrow> messenger" where
  "Messenger_onAck src requestId m =
     (case release_first src requestId (m_pending m) of
        Some es \<Rightarrow> m\<lparr>m_pending := es, m_completed := m_completed m + 1\<rparr>
      | None \<Rightarrow> m\<lparr>m_unmatchedAcks := m_unmatchedAcks m + 1\<rparr>)"


section \<open>Retries\<close>

text \<open>Giving up on entry \<open>i\<close>: the slot is free before its owner hears of it.\<close>

definition give_up :: "('b, 'a) handlers \<Rightarrow> nat \<Rightarrow> 'a world \<Rightarrow> 'a world" where
  "give_up H i w =
     (let entry = m_pending (msgr w) ! i;
          w = on_msgr (\<lambda>m. m\<lparr>m_pending := (m_pending m)[i := entry\<lparr>pr_used := False\<rparr>],
                             m_failed := m_failed m + 1\<rparr>) w
      in case pr_owner entry of None \<Rightarrow> w | Some owner \<Rightarrow> h_failed H owner (pr_dst entry) (pr_id entry) w)"

definition tick_at :: "('b, 'a) handlers \<Rightarrow> u64 \<Rightarrow> nat \<Rightarrow> 'a world \<Rightarrow> 'a world" where
  "tick_at H nowUs i w =
     (let entry = m_pending (msgr w) ! i in
      if \<not> pr_used entry \<or> nowUs - pr_sentUs entry < rp_periodUs (pr_policy entry) then w
      else if pr_sends entry < rp_retries (pr_policy entry)
      then let entry = entry\<lparr>pr_sends := pr_sends entry + 1, pr_sentUs := nowUs\<rparr>
           in Messenger_emit entry
                (on_msgr (\<lambda>m. m\<lparr>m_pending := (m_pending m)[i := entry], m_resent := m_resent m + 1\<rparr>) w)
      else give_up H i w)"

definition Messenger_tick :: "('b, 'a) handlers \<Rightarrow> u64 \<Rightarrow> 'a world \<Rightarrow> 'a world" where
  "Messenger_tick H nowUs w = fold (tick_at H nowUs) [0..<length (m_pending (msgr w))] w"


section \<open>Presence\<close>

definition notify_slot :: "('b, 'a) handlers \<Rightarrow> u32 \<Rightarrow> bool \<Rightarrow> nat \<Rightarrow> 'a world \<Rightarrow> 'a world" where
  "notify_slot H nodeId up slot w =
     (case m_handlers (msgr w) ! slot of
        None \<Rightarrow> w
      | Some handler \<Rightarrow>
          if list_ex (\<lambda>earlier. m_handlers (msgr w) ! earlier = Some handler) [0..<slot] then w
          else if up then h_up H handler nodeId w else h_down H handler nodeId w)"

definition Messenger_notifyHandlers :: "('b, 'a) handlers \<Rightarrow> u32 \<Rightarrow> bool \<Rightarrow> 'a world \<Rightarrow> 'a world" where
  "Messenger_notifyHandlers H nodeId up w = fold (notify_slot H nodeId up) [0..<TAG_SLOTS] w"

definition Messenger_onNodeUp :: "('b, 'a) handlers \<Rightarrow> node \<Rightarrow> 'a world \<Rightarrow> 'a world" where
  "Messenger_onNodeUp H node w = Messenger_notifyHandlers H (n_id node) True w"

definition down_at :: "('b, 'a) handlers \<Rightarrow> u32 \<Rightarrow> nat \<Rightarrow> 'a world \<Rightarrow> 'a world" where
  "down_at H nodeId i w =
     (let entry = m_pending (msgr w) ! i in
      if \<not> pr_used entry \<or> pr_dst entry \<noteq> nodeId then w else give_up H i w)"

definition Messenger_onNodeDown :: "('b, 'a) handlers \<Rightarrow> node \<Rightarrow> 'a world \<Rightarrow> 'a world" where
  "Messenger_onNodeDown H node w =
     Messenger_notifyHandlers H (n_id node) False
       (fold (down_at H (n_id node)) [0..<length (m_pending (msgr w))] w)"


section \<open>Receiving\<close>

definition dispatch :: "('b, 'a) handlers \<Rightarrow> u32 \<Rightarrow> 'b envelope \<Rightarrow> 'a world \<Rightarrow> 'a world" where
  "dispatch H src envelope w =
     (case (if env_which_body envelope < TAG_SLOTS then m_handlers (msgr w) ! env_which_body envelope else None) of
        None \<Rightarrow> on_msgr (\<lambda>m. m\<lparr>m_unhandled := m_unhandled m + 1\<rparr>) w
      | Some handler \<Rightarrow>
          let (w, acted) = h_message H handler src envelope (m_nowUs (msgr w)) w
          in on_msgr (\<lambda>m. if acted then m\<lparr>m_handled := m_handled m + 1\<rparr>
                          else m\<lparr>m_ignored := m_ignored m + 1\<rparr>) w)"

definition Messenger_onPayload ::
    "'b codec \<Rightarrow> ('b, 'a) handlers \<Rightarrow> u32 \<Rightarrow> bytes \<Rightarrow> 'a world \<Rightarrow> 'a world" where
  "Messenger_onPayload codec H src payload w =
     (let w = on_msgr (\<lambda>m. m\<lparr>m_received := m_received m + 1\<rparr>) w;
          w = (case m_tap (msgr w) of None \<Rightarrow> w | Some tap \<Rightarrow> h_tap H tap src payload w)
      in case decodeEnvelope codec payload of
           None \<Rightarrow> on_msgr (\<lambda>m. m\<lparr>m_undecodable := m_undecodable m + 1\<rparr>) w
         | Some envelope \<Rightarrow>
             if env_which_body envelope = ack_tag
             then on_msgr (Messenger_onAck src (env_request_id envelope)) w
             else dispatch H src envelope
                    (if env_request_id envelope \<noteq> 0
                     then Messenger_acknowledge codec src (env_request_id envelope) w else w))"

text \<open>The messenger attached to the transport under the name 0.\<close>

definition messenger_callbacks :: "'b codec \<Rightarrow> ('b, 'a) handlers \<Rightarrow> (messenger \<times> 'a) callbacks" where
  "messenger_callbacks codec H =
     \<lparr>cb_up = (\<lambda>l n w. if l = 0 then Messenger_onNodeUp H n w else h_listenerUp H l n w),
      cb_down = (\<lambda>l n w. if l = 0 then Messenger_onNodeDown H n w else h_listenerDown H l n w),
      cb_deliver = Some (Messenger_onPayload codec H)\<rparr>"

definition Messenger_poll ::
    "'b codec \<Rightarrow> ('b, 'a) handlers \<Rightarrow> u64 \<Rightarrow> (nat \<Rightarrow> (bytes \<times> link_address) list) \<Rightarrow> 'a world \<Rightarrow> 'a world" where
  "Messenger_poll codec H nowUs rx w =
     Messenger_tick H nowUs
       (Transport_poll (messenger_callbacks codec H) nowUs rx (on_msgr (\<lambda>m. m\<lparr>m_nowUs := nowUs\<rparr>) w))"


section \<open>The contract of the handlers\<close>

text \<open>What a handler may do to the node from inside a callback: send, start a request, change what
  the application keeps, in any order.\<close>

inductive acts :: "'b codec \<Rightarrow> 'a world \<Rightarrow> 'a world \<Rightarrow> bool" for codec where
  acts_refl: "acts codec w w"
| acts_send: "acts codec w v \<Longrightarrow> acts codec w (fst (Messenger_send codec dst e v))"
| acts_request: "acts codec w v \<Longrightarrow> acts codec w (fst (Messenger_request codec dst e owner policy v))"
| acts_app: "acts codec w v \<Longrightarrow> acts codec w (fst v, msgr v, x)"

lemma acts_trans: "acts codec u v \<Longrightarrow> acts codec w u \<Longrightarrow> acts codec w v"
  by (induction rule: acts.induct) (auto intro: acts.intros)

lemma fst_on_msgr [simp]: "fst (on_msgr f w) = fst w" "msgr (on_msgr f w) = f (msgr w)" "app (on_msgr f w) = app w"
  by (simp_all add: on_msgr_def)

lemma emit_sends: "sends (fst w) (fst (Messenger_emit e w))"
  by (simp add: Messenger_emit_def split_beta Let_def sends_step [OF sends_refl])

lemma send_sends: "sends (fst w) (fst (fst (Messenger_send codec dst e w)))"
  by (auto simp: Messenger_send_def split_beta Let_def sends_refl sends_step [OF sends_refl] split: option.splits)

lemma request_sends: "sends (fst w) (fst (fst (Messenger_request codec dst e owner policy w)))"
  by (auto simp: Messenger_request_def split_beta Let_def sends_refl split: option.splits
      intro: sends_trans [OF emit_sends])

lemma acts_sends: "acts codec w v \<Longrightarrow> sends (fst w) (fst v)"
  by (induction rule: acts.induct)
     (auto intro: sends_refl sends_trans [OF send_sends] sends_trans [OF request_sends])

text \<open>The counters of the receiving side and the composition, which no handler can touch.\<close>

definition rx_side :: "messenger \<Rightarrow> (u32 \<times> u32 \<times> u32 \<times> u32 \<times> u32) \<times> (u32 \<times> u32 \<times> u32) \<times> nat option list \<times> u32 \<times> u64 \<times> nat option" where
  "rx_side m = ((m_received m, m_undecodable m, m_unhandled m, m_handled m, m_ignored m),
                (m_completed m, m_failed m, m_unmatchedAcks m), m_handlers m, m_shadowed m, m_nowUs m, m_tap m)"

lemma send_rx_side: "rx_side (msgr (fst (Messenger_send codec dst e w))) = rx_side (msgr w)"
  by (auto simp: Messenger_send_def rx_side_def split_beta Let_def split: option.splits)

lemma emit_msgr:
  "msgr (Messenger_emit e w) = (msgr w)\<lparr>m_sent := m_sent (msgr w) + 1\<rparr> \<or>
   msgr (Messenger_emit e w) = (msgr w)\<lparr>m_refused := m_refused (msgr w) + 1\<rparr>"
  by (simp add: Messenger_emit_def split_beta Let_def)

lemma nextId_same [simp]: "(m :: messenger)\<lparr>m_nextId := m_nextId m\<rparr> = m"
  by (cases m) simp

lemma emit_fields [simp]:
  "rx_side (msgr (Messenger_emit e w)) = rx_side (msgr w)"
  "m_pending (msgr (Messenger_emit e w)) = m_pending (msgr w)"
  "m_requests (msgr (Messenger_emit e w)) = m_requests (msgr w)"
  "m_nextId (msgr (Messenger_emit e w)) = m_nextId (msgr w)"
  "app (Messenger_emit e w) = app w"
  using emit_msgr [of e w] by (auto simp: rx_side_def Messenger_emit_def split_beta Let_def)

lemma send_fields [simp]:
  "m_pending (msgr (fst (Messenger_send codec dst e w))) = m_pending (msgr w)"
  "m_requests (msgr (fst (Messenger_send codec dst e w))) = m_requests (msgr w)"
  "m_nextId (msgr (fst (Messenger_send codec dst e w))) = m_nextId (msgr w)"
  by (auto simp: Messenger_send_def split_beta Let_def split: option.splits)

text \<open>A request on each of its branches.\<close>

lemma request_cases:
  obtains (refused) n r where "snd (Messenger_request codec dst e owner policy w) = 0"
      "fst (Messenger_request codec dst e owner policy w) = (fst w, (msgr w)\<lparr>m_nextId := n, m_refused := r\<rparr>, app w)"
  | (started) i reqId bytes entry where "free_slot (m_pending (msgr w)) = Some i"
      "reqId = snd (Messenger_nextId (msgr w))" "dst \<noteq> BROADCAST_NODE"
      "encodeEnvelope codec (e\<lparr>env_request_id := reqId\<rparr>) (env_max codec) = Some bytes"
      "entry = \<lparr>pr_used = True, pr_dst = dst, pr_id = reqId, pr_owner = Some owner,
                pr_policy = policy, pr_sentUs = m_nowUs (msgr w), pr_sends = 1, pr_bytes = bytes\<rparr>"
      "snd (Messenger_request codec dst e owner policy w) = reqId"
      "fst (Messenger_request codec dst e owner policy w) =
       Messenger_emit entry (fst w, (msgr w)\<lparr>m_nextId := reqId, m_pending := (m_pending (msgr w))[i := entry],
                                              m_requests := m_requests (msgr w) + 1\<rparr>, app w)"
proof (cases "dst = BROADCAST_NODE \<or> Transport_findNode dst (fst w) = None")
  case True
  then show ?thesis
    using refused [where n = "m_nextId (msgr w)" and r = "m_refused (msgr w) + 1"]
    by (simp add: Messenger_request_def Let_def on_msgr_def)
next
  case False
  then obtain n where n: "dst \<noteq> BROADCAST_NODE" "Transport_findNode dst (fst w) = Some n" by auto
  show ?thesis
  proof (cases "free_slot (m_pending (msgr w))")
    case None
    then have "Messenger_request codec dst e owner policy w =
        ((fst w, (msgr w)\<lparr>m_nextId := m_nextId (msgr w), m_refused := m_refused (msgr w) + 1\<rparr>, app w), 0)"
      using n by (simp add: Messenger_request_def Let_def on_msgr_def)
    then show ?thesis
      by (intro refused [where n = "m_nextId (msgr w)" and r = "m_refused (msgr w) + 1"]) simp_all
  next
    case (Some i)
    define reqId where "reqId = snd (Messenger_nextId (msgr w))"
    have id: "Messenger_nextId (msgr w) = ((msgr w)\<lparr>m_nextId := reqId\<rparr>, reqId)"
      by (simp add: reqId_def Messenger_nextId_def Let_def)
    show ?thesis
    proof (cases "encodeEnvelope codec (e\<lparr>env_request_id := reqId\<rparr>) (env_max codec)")
      case None
      then have "Messenger_request codec dst e owner policy w =
          ((fst w, (msgr w)\<lparr>m_nextId := reqId, m_refused := m_refused (msgr w) + 1\<rparr>, app w), 0)"
        using n Some id by (simp add: Messenger_request_def Let_def on_msgr_def)
      then show ?thesis using refused by simp
    next
      case (Some bytes)
      let ?entry = "\<lparr>pr_used = True, pr_dst = dst, pr_id = reqId, pr_owner = Some owner,
                pr_policy = policy, pr_sentUs = m_nowUs (msgr w), pr_sends = 1, pr_bytes = bytes\<rparr>"
      have "Messenger_request codec dst e owner policy w =
        (Messenger_emit ?entry (fst w, (msgr w)\<lparr>m_nextId := reqId, m_pending := (m_pending (msgr w))[i := ?entry],
                                              m_requests := m_requests (msgr w) + 1\<rparr>, app w), reqId)"
        using n Some \<open>free_slot _ = Some i\<close> id by (simp add: Messenger_request_def Let_def on_msgr_def)
      then show ?thesis
        using started [OF \<open>free_slot _ = Some i\<close> reqId_def n(1) Some refl] by simp
    qed
  qed
qed

lemma rx_side_tx [simp]:
  "rx_side (m\<lparr>m_nextId := n, m_refused := r\<rparr>) = rx_side m"
  "rx_side (m\<lparr>m_nextId := n, m_pending := ps, m_requests := q\<rparr>) = rx_side m"
  "rx_side (m\<lparr>m_pending := ps, m_resent := q\<rparr>) = rx_side m"
  by (simp_all add: rx_side_def)

lemma request_rx_side: "rx_side (msgr (fst (Messenger_request codec dst e owner policy w))) = rx_side (msgr w)"
  by (cases codec dst e owner policy w rule: request_cases) simp_all

lemma acts_rx_side: "acts codec w v \<Longrightarrow> rx_side (msgr v) = rx_side (msgr w)"
  by (induction rule: acts.induct) (simp_all add: send_rx_side request_rx_side)


section \<open>The invariant of the pending table\<close>

text \<open>An entry in use carries a non-zero id for a real destination, has been sent at least once and
  at most as often as its policy allows (a policy of 0 still sends once).\<close>

definition entry_ok :: "pending_request \<Rightarrow> bool" where
  "entry_ok e \<longleftrightarrow> (pr_used e \<longrightarrow> pr_id e \<noteq> 0 \<and> pr_dst e \<noteq> BROADCAST_NODE \<and> 1 \<le> pr_sends e \<and>
     pr_sends e \<le> max 1 (rp_retries (pr_policy e)))"

definition used_count :: "messenger \<Rightarrow> nat" where
  "used_count m = length (filter pr_used (m_pending m))"

text \<open>Every request started is completed, failed or still pending.\<close>

definition requests_balance :: "messenger \<Rightarrow> u32" where
  "requests_balance m = m_requests m - m_completed m - m_failed m - of_nat (used_count m)"

text \<open>Every payload received is undecodable, an acknowledgement, unhandled, handled or ignored.\<close>

definition payloads_balance :: "messenger \<Rightarrow> u32" where
  "payloads_balance m = m_received m - m_undecodable m - (m_completed m + m_unmatchedAcks m) -
     m_unhandled m - m_handled m - m_ignored m"

definition messenger_inv :: "messenger \<Rightarrow> bool" where
  "messenger_inv m \<longleftrightarrow> length (m_handlers m) = TAG_SLOTS \<and> list_all entry_ok (m_pending m)"

text \<open>What every operation keeps: the shape of the tables, the invariant and the balance of the
  requests; \<open>d\<close> is what it adds to the balance of the payloads, 0 outside of \<^verbatim>\<open>onPayload\<close>.\<close>

definition keeps :: "u32 \<Rightarrow> messenger \<Rightarrow> messenger \<Rightarrow> bool" where
  "keeps d m m' \<longleftrightarrow> length (m_pending m') = length (m_pending m) \<and> m_handlers m' = m_handlers m \<and>
     m_shadowed m' = m_shadowed m \<and> m_nowUs m' = m_nowUs m \<and> (messenger_inv m \<longrightarrow> messenger_inv m') \<and>
     requests_balance m' = requests_balance m \<and> payloads_balance m' = payloads_balance m + d"

lemma keeps_refl [simp]: "keeps 0 m m" by (simp add: keeps_def)

lemma keeps_trans: "keeps a l m \<Longrightarrow> keeps b m n \<Longrightarrow> keeps (a + b) l n"
  by (simp add: keeps_def)

lemma keeps_trans0: "keeps 0 l m \<Longrightarrow> keeps b m n \<Longrightarrow> keeps b l n" "keeps a l m \<Longrightarrow> keeps 0 m n \<Longrightarrow> keeps a l n"
  by (simp_all add: keeps_def)

lemma free_slot_Some: "free_slot es = Some i \<Longrightarrow> i < length es \<and> \<not> pr_used (es ! i)"
  by (induction es arbitrary: i) (auto split: if_splits)

lemma count_update:
  "i < length es \<Longrightarrow>
   length (filter pr_used (es[i := e])) + (if pr_used (es ! i) then 1 else 0) =
   length (filter pr_used es) + (if pr_used e then 1 else 0)"
proof (induction es arbitrary: i)
  case (Cons f es)
  then show ?case using Cons.IH [of "i - 1"] by (cases i) simp_all
qed simp

lemma nextId_nonzero: "snd (Messenger_nextId m) \<noteq> 0"
  by (simp add: Messenger_nextId_def Let_def)

text \<open>A step that only rewrites the pending table and the counters of the requests.\<close>

lemma keeps_pending:
  assumes "m_handlers m' = m_handlers m" "m_shadowed m' = m_shadowed m" "m_nowUs m' = m_nowUs m"
    and "m_pending m' = (m_pending m)[i := e]" "messenger_inv m \<Longrightarrow> entry_ok e" "i < length (m_pending m)"
    and "m_received m' = m_received m" "m_undecodable m' = m_undecodable m" "m_unhandled m' = m_unhandled m"
      "m_handled m' = m_handled m" "m_ignored m' = m_ignored m" "m_unmatchedAcks m' = m_unmatchedAcks m"
      "m_completed m' = m_completed m"
    and "m_requests m' + of_nat (if pr_used (m_pending m ! i) then 1 else 0) + m_failed m =
         m_requests m + of_nat (if pr_used e then 1 else 0) + m_failed m'"
  shows "keeps 0 m m'"
proof -
  define x y :: u32 where "x = of_nat (if pr_used (m_pending m ! i) then 1 else 0)"
    and "y = of_nat (if pr_used e then 1 else 0)"
  have "(of_nat (used_count m') :: u32) + x = of_nat (used_count m) + y"
    unfolding used_count_def assms(4) x_def y_def of_nat_add [symmetric] by (subst count_update [OF assms(6)]) simp
  then have u: "of_nat (used_count m') = of_nat (used_count m) + y - x" by (metis add_diff_cancel_right')
  have "m_requests m' + x + m_failed m = m_requests m + y + m_failed m'"
    using assms(14) by (simp only: x_def y_def)
  then have r: "m_requests m' = m_requests m + y + m_failed m' - x - m_failed m" by (simp add: eq_diff_eq ac_simps)
  have "requests_balance m' = requests_balance m"
    unfolding requests_balance_def u r assms(13) by (simp add: algebra_simps)
  moreover have "messenger_inv m \<Longrightarrow> messenger_inv m'"
    using assms(1,4,5) by (auto simp: messenger_inv_def list_all_iff dest!: set_update_subset_insert [THEN subsetD])
  ultimately show ?thesis using assms by (simp add: keeps_def payloads_balance_def)
qed


lemma keeps_same:
  assumes "rx_side m' = rx_side m" "m_pending m' = m_pending m" "m_requests m' = m_requests m"
  shows "keeps 0 m m'"
  using assms
  by (simp add: keeps_def rx_side_def messenger_inv_def requests_balance_def payloads_balance_def used_count_def)

lemma send_keeps: "keeps 0 (msgr w) (msgr (fst (Messenger_send codec dst e w)))"
  by (rule keeps_same) (simp_all add: send_rx_side)

lemma emit_keeps: "keeps 0 (msgr w) (msgr (Messenger_emit e w))"
  by (rule keeps_same) simp_all

lemma request_keeps: "keeps 0 (msgr w) (msgr (fst (Messenger_request codec dst e owner policy w)))"
proof (cases codec dst e owner policy w rule: request_cases)
  case (refused n r)
  then show ?thesis by (simp add: keeps_same)
next
  case (started i reqId bytes entry)
  let ?m = "(msgr w)\<lparr>m_nextId := reqId, m_pending := (m_pending (msgr w))[i := entry],
                     m_requests := m_requests (msgr w) + 1\<rparr>"
  have "entry_ok entry" using nextId_nonzero started(2,3,5) by (simp add: entry_ok_def)
  then have "keeps 0 (msgr w) ?m"
    using free_slot_Some [OF started(1)] started(5) by (intro keeps_pending [where i = i and e = entry]) simp_all
  from keeps_trans0(2) [OF this, of "msgr (Messenger_emit entry (fst w, ?m, app w))"] emit_keeps [of "(fst w, ?m, app w)" entry]
  show ?thesis unfolding started(7) by simp
qed

lemma acts_keeps: "acts codec w v \<Longrightarrow> keeps 0 (msgr w) (msgr v)"
  by (induction rule: acts.induct) (auto intro: keeps_trans0(2) send_keeps request_keeps)

lemma release_first_Some:
  "release_first src r es = Some fs \<Longrightarrow>
   \<exists>i < length es. pr_used (es ! i) \<and> pr_dst (es ! i) = src \<and> pr_id (es ! i) = r \<and>
     fs = es[i := (es ! i)\<lparr>pr_used := False\<rparr>] \<and>
     (\<forall>j < i. \<not> (pr_used (es ! j) \<and> pr_dst (es ! j) = src \<and> pr_id (es ! j) = r))"
proof (induction es arbitrary: fs)
  case (Cons e es)
  show ?case
  proof (cases "pr_used e \<and> pr_dst e = src \<and> pr_id e = r")
    case True
    then show ?thesis using Cons.prems by (intro exI [of _ 0]) simp
  next
    case False
    then obtain gs where gs: "release_first src r es = Some gs" "fs = e # gs"
      using Cons.prems by auto
    from Cons.IH [OF gs(1)] obtain i where "i < length es" "pr_used (es ! i) \<and> pr_dst (es ! i) = src \<and> pr_id (es ! i) = r"
      "gs = es[i := (es ! i)\<lparr>pr_used := False\<rparr>]"
      "\<forall>j < i. \<not> (pr_used (es ! j) \<and> pr_dst (es ! j) = src \<and> pr_id (es ! j) = r)" by blast
    then show ?thesis
      using gs(2) False by (intro exI [of _ "Suc i"]) (auto simp: less_Suc_eq_0_disj)
  qed
qed simp

lemma onAck_keeps: "keeps (-1) m (Messenger_onAck src r m)"
proof (cases "release_first src r (m_pending m)")
  case None
  then show ?thesis
    by (simp add: Messenger_onAck_def keeps_def messenger_inv_def requests_balance_def payloads_balance_def used_count_def)
next
  case (Some fs)
  then obtain i where i: "i < length (m_pending m)" "pr_used (m_pending m ! i)"
      "fs = (m_pending m)[i := (m_pending m ! i)\<lparr>pr_used := False\<rparr>]"
    using release_first_Some by blast
  have "used_count m = length (filter pr_used fs) + 1"
    using count_update [OF i(1), of "(m_pending m ! i)\<lparr>pr_used := False\<rparr>"] i(2) by (simp add: i(3) used_count_def)
  then have u: "of_nat (used_count m) = (of_nat (length (filter pr_used fs)) :: u32) + 1" by simp
  have "entry_ok ((m_pending m ! i)\<lparr>pr_used := False\<rparr>)" by (simp add: entry_ok_def)
  then have "messenger_inv m \<Longrightarrow> list_all entry_ok fs"
    by (auto simp: i(3) messenger_inv_def list_all_iff dest!: set_update_subset_insert [THEN subsetD])
  then show ?thesis
    using Some i(3) u
    by (simp add: Messenger_onAck_def keeps_def messenger_inv_def requests_balance_def payloads_balance_def)
       (simp add: used_count_def algebra_simps)
qed

locale messenger_client =
  fixes codec :: "'b codec" and H :: "('b, 'a) handlers"
  assumes message_acts: "acts codec w (fst (h_message H h src e now w))"
    and failed_acts: "acts codec w (h_failed H h dst reqId w)"
    and up_acts: "acts codec w (h_up H h nodeId w)"
    and down_acts: "acts codec w (h_down H h nodeId w)"
    and tap_acts: "acts codec w (h_tap H h src payload w)"
    and listenerUp_acts: "acts codec w (h_listenerUp H l n w)"
    and listenerDown_acts: "acts codec w (h_listenerDown H l n w)"
begin

lemma give_up_keeps:
  assumes "i < length (m_pending (msgr w))" "pr_used (m_pending (msgr w) ! i)"
  shows "keeps 0 (msgr w) (msgr (give_up H i w))"
proof -
  let ?e = "(m_pending (msgr w) ! i)\<lparr>pr_used := False\<rparr>"
  let ?w = "on_msgr (\<lambda>m. m\<lparr>m_pending := (m_pending m)[i := ?e], m_failed := m_failed m + 1\<rparr>) w"
  have "keeps 0 (msgr w) (msgr ?w)"
    using assms by (intro keeps_pending [where i = i and e = ?e]) (simp_all add: entry_ok_def)
  then have "keeps 0 (msgr w) (msgr ?w)" "keeps 0 (msgr w) (msgr (h_failed H h d n ?w))" for h d n
    using keeps_trans0(2) [OF _ acts_keeps [OF failed_acts]] by blast+
  then show ?thesis by (simp add: give_up_def Let_def split: option.splits)
qed

lemma tick_at_keeps:
  assumes i: "i < length (m_pending (msgr w))"
  shows "keeps 0 (msgr w) (msgr (tick_at H now i w))"
proof -
  let ?e = "m_pending (msgr w) ! i"
  let ?f = "?e\<lparr>pr_sends := pr_sends ?e + 1, pr_sentUs := now\<rparr>"
  let ?w = "on_msgr (\<lambda>m. m\<lparr>m_pending := (m_pending m)[i := ?f], m_resent := m_resent m + 1\<rparr>) w"
  have "keeps 0 (msgr w) (msgr ?w)" if less: "pr_sends ?e < rp_retries (pr_policy ?e)"
  proof (rule keeps_pending [where i = i and e = ?f])
    assume "messenger_inv (msgr w)"
    then have "entry_ok ?e" using i by (simp add: messenger_inv_def list_all_length)
    then show "entry_ok ?f" using unat_inc_less(2,3) [OF less] by (simp add: entry_ok_def le_max_iff_disj)
  qed (simp_all add: i)
  then show ?thesis
    using give_up_keeps [OF i] keeps_trans0(2) [OF _ emit_keeps [of ?w ?f]]
    by (simp add: tick_at_def Let_def)
qed

lemma fold_keeps:
  assumes "\<And>i w. i < length (m_pending (msgr w)) \<Longrightarrow> keeps 0 (msgr w) (msgr (f i w))"
    and "set is \<subseteq> {..<length (m_pending (msgr w))}"
  shows "keeps 0 (msgr w) (msgr (fold f is w))"
  using assms(2)
proof (induction "is" arbitrary: w)
  case (Cons i "is")
  have k: "keeps 0 (msgr w) (msgr (f i w))" using Cons.prems by (intro assms(1)) simp
  then have "length (m_pending (msgr (f i w))) = length (m_pending (msgr w))" by (simp add: keeps_def)
  then show ?case using keeps_trans0(2) [OF k Cons.IH] Cons.prems by simp
qed simp

lemma tick_keeps: "keeps 0 (msgr w) (msgr (Messenger_tick H now w))"
  unfolding Messenger_tick_def by (rule fold_keeps) (auto intro: tick_at_keeps)

lemma notify_slot_acts: "acts codec w (notify_slot H nodeId up slot w)"
  by (auto simp: notify_slot_def up_acts down_acts acts_refl split: option.splits)

lemma fold_acts:
  assumes "\<And>i w. acts codec w (f i w)"
  shows "acts codec w (fold f is w)"
proof (induction "is" arbitrary: w)
  case (Cons i "is")
  show ?case using acts_trans [OF Cons [of "f i w"] assms] by simp
qed (simp add: acts_refl)

lemma notifyHandlers_acts: "acts codec w (Messenger_notifyHandlers H nodeId up w)"
  unfolding Messenger_notifyHandlers_def by (rule fold_acts) (rule notify_slot_acts)

lemma onNodeUp_keeps: "keeps 0 (msgr w) (msgr (Messenger_onNodeUp H n w))"
  unfolding Messenger_onNodeUp_def by (rule acts_keeps [OF notifyHandlers_acts])

lemma onNodeDown_keeps: "keeps 0 (msgr w) (msgr (Messenger_onNodeDown H n w))"
proof -
  let ?w = "fold (down_at H (n_id n)) [0..<length (m_pending (msgr w))] w"
  have "keeps 0 (msgr w) (msgr ?w)"
    by (rule fold_keeps) (auto simp: down_at_def Let_def intro: give_up_keeps)
  then show ?thesis
    unfolding Messenger_onNodeDown_def by (rule keeps_trans0(2) [OF _ acts_keeps [OF notifyHandlers_acts]])
qed

lemma dispatch_keeps: "keeps (-1) (msgr w) (msgr (dispatch H src e w))"
proof -
  have c: "keeps (-1) m (m\<lparr>m_unhandled := m_unhandled m + 1\<rparr>)" "keeps (-1) m (m\<lparr>m_handled := m_handled m + 1\<rparr>)"
    "keeps (-1) m (m\<lparr>m_ignored := m_ignored m + 1\<rparr>)" for m
    by (simp_all add: keeps_def messenger_inv_def requests_balance_def payloads_balance_def used_count_def)
  have "keeps 0 (msgr w) (msgr (fst (h_message H h src e n w)))" for h n
    by (rule acts_keeps [OF message_acts])
  note h = keeps_trans0(1) [OF this c(2)] keeps_trans0(1) [OF this c(3)]
  show ?thesis
    by (auto simp: dispatch_def Let_def split_beta c h split: option.splits)
qed

lemma acknowledge_keeps: "keeps 0 (msgr w) (msgr (Messenger_acknowledge codec dst r w))"
proof -
  have "keeps 0 m (m\<lparr>m_acked := x\<rparr>)" for m x by (rule keeps_same) (simp_all add: rx_side_def)
  then show ?thesis
    by (auto simp: Messenger_acknowledge_def Let_def split_beta split: option.splits)
qed

lemma onPayload_keeps: "keeps 0 (msgr w) (msgr (Messenger_onPayload codec H src p w))"
proof -
  let ?r = "on_msgr (\<lambda>m. m\<lparr>m_received := m_received m + 1\<rparr>) w"
  let ?t = "case m_tap (msgr ?r) of None \<Rightarrow> ?r | Some tap \<Rightarrow> h_tap H tap src p ?r"
  have "keeps 1 (msgr w) (msgr ?r)"
    by (simp add: keeps_def messenger_inv_def requests_balance_def payloads_balance_def used_count_def)
  moreover have "keeps 0 (msgr ?r) (msgr ?t)"
    by (cases "m_tap (msgr ?r)") (simp_all del: fst_on_msgr add: acts_keeps [OF tap_acts])
  ultimately have t: "keeps 1 (msgr w) (msgr ?t)" by (rule keeps_trans0(2))
  have "keeps (-1) (msgr ?t) (msgr (Messenger_onPayload codec H src p w))"
  proof (cases "decodeEnvelope codec p")
    case None
    then show ?thesis
      unfolding Messenger_onPayload_def Let_def None
      by (simp add: keeps_def messenger_inv_def requests_balance_def payloads_balance_def used_count_def)
  next
    case (Some e)
    show ?thesis
      unfolding Messenger_onPayload_def Let_def Some
      using onAck_keeps [of "msgr ?t" src "env_request_id e"] dispatch_keeps
        keeps_trans0(1) [OF acknowledge_keeps dispatch_keeps]
      by (simp del: fst_on_msgr(2) add: fst_on_msgr(2) [where w = ?t])
  qed
  from keeps_trans [OF t this] show ?thesis by simp
qed

lemma give_up_sends: "sends (fst w) (fst (give_up H i w))"
proof -
  define v where "v = on_msgr (\<lambda>m. m\<lparr>m_pending := (m_pending m)[i := (m_pending (msgr w) ! i)\<lparr>pr_used := False\<rparr>],
                             m_failed := m_failed m + 1\<rparr>) w"
  have v: "fst v = fst w" by (simp add: v_def)
  have "sends (fst v) (fst (h_failed H h d r v))" for h d r by (rule acts_sends [OF failed_acts])
  then show ?thesis
    by (cases "pr_owner (m_pending (msgr w) ! i)") (simp_all add: give_up_def Let_def sends_refl v flip: v_def)
qed

lemma fold_down_sends: "sends (fst w) (fst (fold (down_at H d) is w))"
proof (induction "is" arbitrary: w)
  case (Cons i "is")
  have "sends (fst w) (fst (down_at H d i w))"
    by (simp add: down_at_def Let_def give_up_sends sends_refl)
  then show ?case using sends_trans [OF Cons] by simp
qed (simp add: sends_refl)

lemma onNodeDown_sends: "sends (fst w) (fst (Messenger_onNodeDown H n w))"
  unfolding Messenger_onNodeDown_def
  by (rule sends_trans [OF acts_sends [OF notifyHandlers_acts] fold_down_sends])

lemma dispatch_sends: "sends (fst w) (fst (dispatch H src e w))"
  using acts_sends [OF message_acts]
  by (auto simp: dispatch_def Let_def split_beta sends_refl split: option.splits)

lemma acknowledge_sends: "sends (fst w) (fst (Messenger_acknowledge codec dst r w))"
  by (auto simp: Messenger_acknowledge_def Let_def split_beta sends_refl sends_step [OF sends_refl]
      split: option.splits)

lemma onPayload_sends: "sends (fst w) (fst (Messenger_onPayload codec H src p w))"
proof -
  let ?r = "on_msgr (\<lambda>m. m\<lparr>m_received := m_received m + 1\<rparr>) w"
  let ?t = "case m_tap (msgr ?r) of None \<Rightarrow> ?r | Some tap \<Rightarrow> h_tap H tap src p ?r"
  have "sends (fst ?r) (fst ?t)"
    by (cases "m_tap (msgr ?r)") (simp_all del: fst_on_msgr add: acts_sends [OF tap_acts] sends_refl)
  moreover have "sends (fst ?t) (fst (Messenger_onPayload codec H src p w))"
    unfolding Messenger_onPayload_def Let_def
    by (cases "decodeEnvelope codec p")
       (simp_all add: sends_refl dispatch_sends sends_trans [OF dispatch_sends acknowledge_sends])
  ultimately show ?thesis by (simp only: fst_on_msgr sends_trans)
qed

end

text \<open>What the messenger installs in the transport honours the contract of the transport, so
  every result about the transport holds of a node that runs a messenger.\<close>

sublocale messenger_client \<subseteq> tc: transport_client "messenger_callbacks codec H"
proof unfold_locales
  fix w :: "transport \<times> messenger \<times> 'a" and l n
  show "sends (fst w) (fst (cb_up (messenger_callbacks codec H) l n w))"
    using acts_sends [OF notifyHandlers_acts] acts_sends [OF listenerUp_acts]
    by (simp add: messenger_callbacks_def Messenger_onNodeUp_def)
  show "sends (fst w) (fst (cb_down (messenger_callbacks codec H) l n w))"
    using onNodeDown_sends acts_sends [OF listenerDown_acts] by (simp add: messenger_callbacks_def)
next
  fix f and w :: "transport \<times> messenger \<times> 'a" and src payload
  assume "cb_deliver (messenger_callbacks codec H) = Some f"
  then show "sends (fst w) (fst (f src payload w))"
    using onPayload_sends by (auto simp: messenger_callbacks_def)
qed

sublocale messenger_client \<subseteq> cr: callback_relation "messenger_callbacks codec H" "\<lambda>x y. keeps 0 (fst x) (fst y)"
proof unfold_locales
  fix x y z :: "messenger \<times> 'a"
  show "keeps 0 (fst x) (fst x)" by simp
  show "keeps 0 (fst x) (fst y) \<Longrightarrow> keeps 0 (fst y) (fst z) \<Longrightarrow> keeps 0 (fst x) (fst z)"
    by (rule keeps_trans0(1))
next
  fix w :: "transport \<times> messenger \<times> 'a" and l n
  show "keeps 0 (fst (snd w)) (fst (snd (cb_up (messenger_callbacks codec H) l n w)))"
    using onNodeUp_keeps acts_keeps [OF listenerUp_acts] by (simp add: messenger_callbacks_def)
  show "keeps 0 (fst (snd w)) (fst (snd (cb_down (messenger_callbacks codec H) l n w)))"
    using onNodeDown_keeps acts_keeps [OF listenerDown_acts] by (simp add: messenger_callbacks_def)
next
  fix f and w :: "transport \<times> messenger \<times> 'a" and src payload
  assume "cb_deliver (messenger_callbacks codec H) = Some f"
  then show "keeps 0 (fst (snd w)) (fst (snd (f src payload w)))"
    using onPayload_keeps by (auto simp: messenger_callbacks_def)
qed


section \<open>Runs\<close>

text \<open>The life of a node that keeps its handlers: any interleaving of construction, sends, requests
  and polls.\<close>

inductive messenger_run :: "'b codec \<Rightarrow> ('b, 'a) handlers \<Rightarrow> 'a world \<Rightarrow> bool" for codec H where
  mrun_new: "transport_inv t \<Longrightarrow> messenger_run codec H (t, Messenger_new n, x)"
| mrun_attach: "messenger_run codec H w \<Longrightarrow> messenger_run codec H (on_msgr (Messenger_attach h tags) w)"
| mrun_tap: "messenger_run codec H w \<Longrightarrow> messenger_run codec H (on_msgr (Messenger_setTap tap) w)"
| mrun_acts: "messenger_run codec H w \<Longrightarrow> acts codec w v \<Longrightarrow> messenger_run codec H v"
| mrun_tick: "messenger_run codec H w \<Longrightarrow> messenger_run codec H (Messenger_tick H now w)"
| mrun_poll: "messenger_run codec H w \<Longrightarrow> messenger_run codec H (Messenger_poll codec H now rx w)"

definition node_ok_inv :: "'a world \<Rightarrow> bool" where
  "node_ok_inv w \<longleftrightarrow> transport_inv (fst w) \<and> messenger_inv (msgr w) \<and>
     requests_balance (msgr w) = 0 \<and> payloads_balance (msgr w) = 0"

lemma attach_fold:
  "length (m_handlers m) = TAG_SLOTS \<Longrightarrow>
   length (m_handlers (fold (attach_tag h) tags m)) = TAG_SLOTS \<and>
   m_pending (fold (attach_tag h) tags m) = m_pending m \<and>
   requests_balance (fold (attach_tag h) tags m) = requests_balance m \<and>
   payloads_balance (fold (attach_tag h) tags m) = payloads_balance m"
proof (induction tags arbitrary: m)
  case (Cons tag tags)
  have "length (m_handlers (attach_tag h tag m)) = TAG_SLOTS" "m_pending (attach_tag h tag m) = m_pending m"
    "requests_balance (attach_tag h tag m) = requests_balance m"
    "payloads_balance (attach_tag h tag m) = payloads_balance m"
    using Cons.prems
    by (simp_all add: attach_tag_def requests_balance_def payloads_balance_def used_count_def)
  then show ?case using Cons.IH [of "attach_tag h tag m"] by simp
qed simp

context messenger_client
begin

lemma tick_sends: "sends (fst w) (fst (Messenger_tick H now w))"
proof -
  have step: "sends (fst v) (fst (tick_at H now i v))" for i v
  proof -
    let ?e = "m_pending (msgr v) ! i"
    let ?f = "?e\<lparr>pr_sends := pr_sends ?e + 1, pr_sentUs := now\<rparr>"
    let ?v = "on_msgr (\<lambda>m. m\<lparr>m_pending := (m_pending m)[i := ?f], m_resent := m_resent m + 1\<rparr>) v"
    have "sends (fst v) (fst (Messenger_emit ?f ?v))" using emit_sends [of ?v ?f] by simp
    then show ?thesis using give_up_sends [of v i] by (simp add: tick_at_def Let_def sends_refl)
  qed
  have "sends (fst v) (fst (fold (tick_at H now) is v))" for "is" v
  proof (induction "is" arbitrary: v)
    case (Cons i "is")
    show ?case using sends_trans [OF Cons step] by simp
  qed (simp add: sends_refl)
  then show ?thesis by (simp add: Messenger_tick_def)
qed

lemma keeps_node_ok:
  "keeps 0 (msgr w) (msgr v) \<Longrightarrow> transport_inv (fst v) \<Longrightarrow> node_ok_inv w \<Longrightarrow> node_ok_inv v"
  by (simp add: node_ok_inv_def keeps_def)

lemma tick_node_ok: "node_ok_inv w \<Longrightarrow> node_ok_inv (Messenger_tick H now w)"
  using keeps_node_ok [OF tick_keeps] tx_only_inv [OF sends_tx_only [OF tick_sends]]
  by (simp add: node_ok_inv_def)

lemma poll_node_ok: "node_ok_inv w \<Longrightarrow> node_ok_inv (Messenger_poll codec H now rx w)"
proof -
  assume w: "node_ok_inv w"
  let ?w = "on_msgr (\<lambda>m. m\<lparr>m_nowUs := now\<rparr>) w"
  let ?v = "Transport_poll (messenger_callbacks codec H) now rx ?w"
  have ok: "node_ok_inv ?w"
    using w by (simp add: node_ok_inv_def messenger_inv_def requests_balance_def payloads_balance_def used_count_def)
  have "keeps 0 (fst (snd ?w)) (fst (snd ?v))" by (rule cr.poll_R)
  moreover have "transport_inv (fst ?v)" using ok by (intro tc.poll_inv) (simp add: node_ok_inv_def)
  ultimately have "node_ok_inv ?v" using keeps_node_ok [of ?w ?v] ok by blast
  then show ?thesis unfolding Messenger_poll_def by (rule tick_node_ok)
qed

lemma run_node_ok: "messenger_run codec H w \<Longrightarrow> node_ok_inv w"
proof (induction rule: messenger_run.induct)
  case (mrun_new t n x)
  then show ?case
    by (simp add: node_ok_inv_def messenger_inv_def Messenger_new_def requests_balance_def
        payloads_balance_def used_count_def list_all_iff entry_ok_def PendingRequest_init_def)
next
  case (mrun_attach w h tags)
  then show ?case
    using attach_fold [of "msgr w" h tags] by (simp add: node_ok_inv_def messenger_inv_def Messenger_attach_def)
next
  case (mrun_tap w tap)
  then show ?case
    by (simp add: node_ok_inv_def messenger_inv_def Messenger_setTap_def requests_balance_def
        payloads_balance_def used_count_def)
next
  case (mrun_acts w v)
  then show ?case
    using keeps_node_ok [OF acts_keeps [OF mrun_acts(2)]]
      tx_only_inv [OF sends_tx_only [OF acts_sends [OF mrun_acts(2)]]] by (simp add: node_ok_inv_def)
qed (simp_all add: tick_node_ok poll_node_ok)

end

end
