(* ===== verification/Messenger_Correct.thy ===== *)
theory Messenger_Correct
  imports Messenger Transport_Correct
begin

text \<open>
  What the messenger promises, over the definitions of \<open>Messenger\<close>: nothing is lost from its
  books whatever the handlers do, a request is retried as its policy says and its owner is told
  once, an acknowledgement completes exactly the request it answers, a numbered message is
  acknowledged once whether or not somebody handles it, a departure fails the requests of the
  node that left and only those, and \<^verbatim>\<open>init\<close> reports every claim that holds no slot.
\<close>


section \<open>Recording handlers\<close>

text \<open>Handlers that note every call, answer whether their number is even, and send nothing. The codec
  only fixes the type of the messages.\<close>

datatype mevent = MMessage nat u32 nat u32 | MFailed nat u32 u32 | MUp nat u32 | MDown nat u32 | MTap nat u32 bytes

abbreviation note_event :: "mevent \<Rightarrow> mevent list world \<Rightarrow> mevent list world" where
  "note_event e w \<equiv> (fst w, msgr w, app w @ [e])"

definition mrecorder :: "'b codec \<Rightarrow> ('b, mevent list) handlers" where
  "mrecorder codec =
     \<lparr>h_message = (\<lambda>h src e now w. (note_event (MMessage h src (env_which_body e) (env_request_id e)) w, even h)),
      h_failed = (\<lambda>h dst r w. note_event (MFailed h dst r) w),
      h_up = (\<lambda>h i w. note_event (MUp h i) w), h_down = (\<lambda>h i w. note_event (MDown h i) w),
      h_tap = (\<lambda>h src p w. note_event (MTap h src p) w),
      h_listenerUp = (\<lambda>l n w. w), h_listenerDown = (\<lambda>l n w. w)\<rparr>"

interpretation mrec: messenger_client codec "mrecorder codec" for codec
  by unfold_locales (auto simp: mrecorder_def intro: acts_refl acts_app [OF acts_refl])

text \<open>A codec for concrete runs: tag, request id, nothing else.\<close>

definition demo_codec :: "unit codec" where
  "demo_codec =
     \<lparr>pb_encode = (\<lambda>e n. if env_which_body e < 256 \<and> 5 \<le> n
                         then Some (of_nat (env_which_body e) # le32 (env_request_id e)) else None),
      pb_decode = (\<lambda>bs. case bs of [a, b, c, d, e] \<Rightarrow>
                         Some \<lparr>env_which_body = unat a, env_request_id = rd32 b c d e, env_body = ()\<rparr> | _ \<Rightarrow> None),
      env_zero = (), env_max = 64\<rparr>"

lemma demo_codec_ok: "codec_roundtrips demo_codec"
  by (auto simp: codec_roundtrips_def demo_codec_def le32_def unat_of_nat_small split: if_splits)


section \<open>The life of a request\<close>

text \<open>One tick at the entry it is about, with recording handlers.\<close>

lemma mrecorder_give_up:
  "give_up (mrecorder codec) i w =
   (fst w, (msgr w)\<lparr>m_pending := (m_pending (msgr w))[i := (m_pending (msgr w) ! i)\<lparr>pr_used := False\<rparr>],
                    m_failed := m_failed (msgr w) + 1\<rparr>,
    app w @ (case pr_owner (m_pending (msgr w) ! i) of None \<Rightarrow> []
             | Some h \<Rightarrow> [MFailed h (pr_dst (m_pending (msgr w) ! i)) (pr_id (m_pending (msgr w) ! i))]))"
  by (simp add: give_up_def mrecorder_def on_msgr_def Let_def split: option.splits)

text \<open>What a tick does to one entry.\<close>

definition ticked :: "u64 \<Rightarrow> pending_request \<Rightarrow> pending_request" where
  "ticked now e =
     (if \<not> pr_used e \<or> now - pr_sentUs e < rp_periodUs (pr_policy e) then e
      else if pr_sends e < rp_retries (pr_policy e) then e\<lparr>pr_sends := pr_sends e + 1, pr_sentUs := now\<rparr>
      else e\<lparr>pr_used := False\<rparr>)"

definition tick_fails :: "u64 \<Rightarrow> pending_request \<Rightarrow> bool" where
  "tick_fails now e \<longleftrightarrow> pr_used e \<and> \<not> pr_used (ticked now e)"

definition failure_event :: "pending_request \<Rightarrow> mevent list" where
  "failure_event e = (case pr_owner e of None \<Rightarrow> [] | Some h \<Rightarrow> [MFailed h (pr_dst e) (pr_id e)])"









lemma ticked_unused [simp]: "\<not> pr_used e \<Longrightarrow> ticked t e = e" "\<not> pr_used e \<Longrightarrow> \<not> tick_fails t e"
  by (simp_all add: ticked_def tick_fails_def)





section \<open>Acknowledgements\<close>

definition matches :: "u32 \<Rightarrow> u32 \<Rightarrow> pending_request \<Rightarrow> bool" where
  "matches src r e \<longleftrightarrow> pr_used e \<and> pr_dst e = src \<and> pr_id e = r"

lemma release_first_None: "release_first src r es = None \<longleftrightarrow> list_all (\<lambda>e. \<not> matches src r e) es"
  by (induction es) (auto simp: matches_def)

lemma release_unique:
  assumes "i < length es" "\<forall>j < length es. matches src r (es ! j) \<longleftrightarrow> j = i"
  shows "release_first src r es = Some (es[i := (es ! i)\<lparr>pr_used := False\<rparr>])"
proof (cases "release_first src r es")
  case None
  then show ?thesis using assms by (auto simp: release_first_None list_all_length)
next
  case (Some fs)
  then obtain j where j: "j < length es" "matches src r (es ! j)" "fs = es[j := (es ! j)\<lparr>pr_used := False\<rparr>]"
    using release_first_Some [OF Some] unfolding matches_def by blast
  then have "j = i" using assms by blast
  then show ?thesis using Some j by simp
qed

text \<open>An acknowledgement received with no tap installed: no callback, nothing sent, one counter.\<close>

lemma onPayload_ack:
  assumes "m_tap (msgr w) = None" "decodeEnvelope codec p = Some e" "env_which_body e = ack_tag"
  shows "Messenger_onPayload codec H src p w =
         (fst w, Messenger_onAck src (env_request_id e) ((msgr w)\<lparr>m_received := m_received (msgr w) + 1\<rparr>), app w)"
  using assms by (simp add: Messenger_onPayload_def on_msgr_def Let_def)

definition ack_of :: "'b codec \<Rightarrow> u32 \<Rightarrow> 'b envelope" where
  "ack_of codec r = \<lparr>env_which_body = ack_tag, env_request_id = r, env_body = env_zero codec\<rparr>"

lemma mrecorder_dispatch_transport: "fst (dispatch (mrecorder codec) src e w) = fst w"
  by (simp add: dispatch_def mrecorder_def Let_def split_beta split: option.splits)

lemma mrecorder_numbered:
  assumes "m_tap (msgr w) = None" "decodeEnvelope codec p = Some e" "env_which_body e \<noteq> ack_tag"
    and "env_request_id e \<noteq> 0"
    and "encodeEnvelope codec (ack_of codec (env_request_id e)) (env_max codec) = Some a"
  shows "fst (Messenger_onPayload codec (mrecorder codec) src p w) = fst (Transport_send src a (fst w))"
  using assms
  by (simp add: Messenger_onPayload_def mrecorder_dispatch_transport Messenger_acknowledge_def ack_of_def Let_def split_beta)

lemma mrecorder_numbered_log:
  assumes "m_tap (msgr w) = None" "decodeEnvelope codec p = Some e" "env_which_body e \<noteq> ack_tag"
  shows "app (Messenger_onPayload codec (mrecorder codec) src p w) = app w @
         (if env_which_body e < TAG_SLOTS
          then (case m_handlers (msgr w) ! env_which_body e of None \<Rightarrow> []
                | Some h \<Rightarrow> [MMessage h src (env_which_body e) (env_request_id e)]) else [])"
proof -
  have a: "app (Messenger_acknowledge codec src r v) = app v" "m_handlers (msgr (Messenger_acknowledge codec src r v)) = m_handlers (msgr v)" for r and v :: "mevent list world"
    by (auto simp: Messenger_acknowledge_def Let_def split_beta split: option.splits)
  have d: "app (dispatch (mrecorder codec) src e v) = app v @
         (if env_which_body e < TAG_SLOTS
          then (case m_handlers (msgr v) ! env_which_body e of None \<Rightarrow> []
                | Some h \<Rightarrow> [MMessage h src (env_which_body e) (env_request_id e)]) else [])" for v
    by (simp add: dispatch_def mrecorder_def Let_def split_beta split: option.splits)
  show ?thesis using assms by (simp add: Messenger_onPayload_def Let_def a d)
qed


section \<open>Presence\<close>

text \<open>The requests of a node that leaves, and what its departure makes of an entry.\<close>

definition addressed :: "u32 \<Rightarrow> pending_request \<Rightarrow> bool" where
  "addressed d e \<longleftrightarrow> pr_used e \<and> pr_dst e = d"

definition downed :: "u32 \<Rightarrow> pending_request \<Rightarrow> pending_request" where
  "downed d e = (if addressed d e then e\<lparr>pr_used := False\<rparr> else e)"

lemma mrecorder_down_at:
  assumes "i < length (m_pending (msgr w))"
  shows "m_pending (msgr (down_at (mrecorder codec) d i w)) = (m_pending (msgr w))[i := downed d (m_pending (msgr w) ! i)]"
    and "app (down_at (mrecorder codec) d i w) =
         app w @ (if addressed d (m_pending (msgr w) ! i) then failure_event (m_pending (msgr w) ! i) else [])"
    and "m_handlers (msgr (down_at (mrecorder codec) d i w)) = m_handlers (msgr w)"
  using assms by (auto simp: down_at_def downed_def addressed_def mrecorder_give_up failure_event_def Let_def)

lemma mrecorder_down_loop:
  assumes "k \<le> length (m_pending (msgr w))"
  shows "m_pending (msgr (fold (down_at (mrecorder codec) d) [0..<k] w)) =
           map (downed d) (take k (m_pending (msgr w))) @ drop k (m_pending (msgr w)) \<and>
         app (fold (down_at (mrecorder codec) d) [0..<k] w) =
           app w @ concat (map failure_event (filter (addressed d) (take k (m_pending (msgr w))))) \<and>
         m_handlers (msgr (fold (down_at (mrecorder codec) d) [0..<k] w)) = m_handlers (msgr w)"
  using assms
proof (induction k)
  case (Suc k)
  let ?w = "fold (down_at (mrecorder codec) d) [0..<k] w"
  let ?ps = "m_pending (msgr w)"
  have k: "k < length ?ps" using Suc.prems by simp
  have IH: "m_pending (msgr ?w) = map (downed d) (take k ?ps) @ drop k ?ps"
    "app ?w = app w @ concat (map failure_event (filter (addressed d) (take k ?ps)))"
    "m_handlers (msgr ?w) = m_handlers (msgr w)"
    using Suc by simp_all
  have nth: "m_pending (msgr ?w) ! k = ?ps ! k" "k < length (m_pending (msgr ?w))"
    using k by (simp_all add: IH(1) nth_append)
  have "(map (downed d) (take k ?ps) @ drop k ?ps)[k := downed d (?ps ! k)] =
      map (downed d) (take k ?ps) @ downed d (?ps ! k) # drop (Suc k) ?ps"
    using k by (simp add: list_update_append Cons_nth_drop_Suc [symmetric])
  then show ?case
    using mrecorder_down_at [OF nth(2), of codec d] IH nth(1) k by (simp add: take_Suc_conv_app_nth)
qed simp

text \<open>The handlers of the table, each at the first of its slots.\<close>

fun first_uses :: "nat option list \<Rightarrow> nat list \<Rightarrow> nat list" where
  "first_uses [] seen = []"
| "first_uses (None # hs) seen = first_uses hs seen"
| "first_uses (Some h # hs) seen = (if h \<in> set seen then first_uses hs seen else h # first_uses hs (h # seen))"

lemma first_uses_set: "set (first_uses hs seen) = {h. Some h \<in> set hs} - set seen"
  by (induction hs seen rule: first_uses.induct) auto

lemma first_uses_distinct: "distinct (first_uses hs seen)"
  by (induction hs seen rule: first_uses.induct) (auto simp: first_uses_set)

lemma mrecorder_notify_slot:
  "notify_slot (mrecorder codec) d up slot w =
   (fst w, msgr w, app w @ (case m_handlers (msgr w) ! slot of None \<Rightarrow> []
      | Some h \<Rightarrow> if list_ex (\<lambda>k. m_handlers (msgr w) ! k = Some h) [0..<slot] then []
                  else [if up then MUp h d else MDown h d]))"
  by (simp add: notify_slot_def mrecorder_def split: option.splits)

lemma first_uses_snoc:
  "first_uses (hs @ [x]) seen =
   first_uses hs seen @ (case x of None \<Rightarrow> [] | Some h \<Rightarrow> if Some h \<in> set hs \<or> h \<in> set seen then [] else [h])"
  by (induction hs seen rule: first_uses.induct) (auto split: option.splits)

lemma mrecorder_notify_loop:
  assumes "k \<le> length (m_handlers (msgr w))"
  shows "fold (notify_slot (mrecorder codec) d up) [0..<k] w =
         (fst w, msgr w, app w @ map (\<lambda>h. if up then MUp h d else MDown h d) (first_uses (take k (m_handlers (msgr w))) []))"
  using assms
proof (induction k)
  case (Suc k)
  let ?hs = "m_handlers (msgr w)"
  have k: "k < length ?hs" using Suc.prems by simp
  have ex: "list_ex (\<lambda>j. ?hs ! j = Some h) [0..<k] \<longleftrightarrow> Some h \<in> set (take k ?hs)" for h
    using k by (auto simp: list_ex_iff in_set_conv_nth)
  show ?case
    using Suc k
    by (cases "?hs ! k")
       (auto simp: mrecorder_notify_slot take_Suc_conv_app_nth first_uses_snoc ex)
qed simp



section \<open>Claims\<close>

text \<open>The handlers alive after constructions and destructions in any order; a handler's tags are
  fixed for its life.\<close>

inductive composition :: "(nat \<Rightarrow> nat list) \<Rightarrow> messenger \<Rightarrow> nat set \<Rightarrow> bool" for tags where
  comp_new: "composition tags (Messenger_new n) {}"
| comp_attach: "composition tags m L \<Longrightarrow> h \<notin> L \<Longrightarrow> composition tags (Messenger_attach h (tags h) m) (insert h L)"
| comp_detach: "composition tags m L \<Longrightarrow> h \<in> L \<Longrightarrow> composition tags (Messenger_detach h (tags h) m) (L - {h})"

definition slots_held :: "messenger \<Rightarrow> (nat \<times> nat) set" where
  "slots_held m = {(h, s). s < TAG_SLOTS \<and> m_handlers m ! s = Some h}"

lemma finite_slots_held [simp]: "finite (slots_held m)"
proof -
  have "slots_held m = (\<lambda>s. (the (m_handlers m ! s), s)) ` {s. s < TAG_SLOTS \<and> m_handlers m ! s \<noteq> None}"
    by (force simp: slots_held_def)
  then show ?thesis by simp
qed

text \<open>The claims a messenger accounts for: the slots held and the failed claims. Every step of the
  attach and detach loops adds or releases one.\<close>

definition claims :: "messenger \<Rightarrow> u32" where
  "claims m = m_shadowed m + of_nat (card (slots_held m))"

lemma attach_tag_held:
  assumes "length (m_handlers m) = TAG_SLOTS"
  shows "length (m_handlers (attach_tag h tag m)) = TAG_SLOTS"
    "slots_held (attach_tag h tag m) \<subseteq> insert (h, tag) (slots_held m)"
    "claims (attach_tag h tag m) = claims m + 1"
proof -
  show "length (m_handlers (attach_tag h tag m)) = TAG_SLOTS" using assms by (simp add: attach_tag_def)
  have "slots_held (attach_tag h tag m) \<subseteq> insert (h, tag) (slots_held m) \<and> claims (attach_tag h tag m) = claims m + 1"
  proof (cases "tag < TAG_SLOTS \<and> m_handlers m ! tag = None")
    case True
    then have "slots_held (attach_tag h tag m) = insert (h, tag) (slots_held m)" "(h, tag) \<notin> slots_held m"
      using assms by (auto simp: slots_held_def attach_tag_def nth_list_update split: if_splits)
    then show ?thesis using True by (simp add: claims_def attach_tag_def)
  next
    case False
    then have "attach_tag h tag m = m\<lparr>m_shadowed := m_shadowed m + 1\<rparr>" by (auto simp: attach_tag_def)
    then show ?thesis by (auto simp: claims_def slots_held_def)
  qed
  then show "slots_held (attach_tag h tag m) \<subseteq> insert (h, tag) (slots_held m)"
    "claims (attach_tag h tag m) = claims m + 1" by blast+
qed

lemma attach_held:
  assumes "length (m_handlers m) = TAG_SLOTS"
  shows "length (m_handlers (Messenger_attach h ts m)) = TAG_SLOTS \<and>
    slots_held (Messenger_attach h ts m) \<subseteq> slots_held m \<union> {h} \<times> set ts \<and>
    claims (Messenger_attach h ts m) = claims m + of_nat (length ts)"
  using assms unfolding Messenger_attach_def
proof (induction ts arbitrary: m)
  case (Cons t ts)
  note step = attach_tag_held [OF Cons.prems, of h t]
  show ?case using Cons.IH [OF step(1)] step by auto
qed simp

lemma detach_tag_held:
  assumes "length (m_handlers m) = TAG_SLOTS"
  shows "length (m_handlers (detach_tag h tag m)) = TAG_SLOTS"
    "slots_held (detach_tag h tag m) = slots_held m - {(h, tag)}"
    "claims (detach_tag h tag m) = claims m - 1"
proof -
  show "length (m_handlers (detach_tag h tag m)) = TAG_SLOTS" using assms by (simp add: detach_tag_def)
  show eq: "slots_held (detach_tag h tag m) = slots_held m - {(h, tag)}"
  proof (cases "tag < TAG_SLOTS \<and> m_handlers m ! tag = Some h")
    case True
    then show ?thesis
      using assms by (auto simp: slots_held_def detach_tag_def nth_list_update split: if_splits)
  qed (auto simp: slots_held_def detach_tag_def)
  show "claims (detach_tag h tag m) = claims m - 1"
  proof (cases "(h, tag) \<in> slots_held m")
    case True
    then have "card (slots_held m) = card (slots_held m - {(h, tag)}) + 1"
      using card_Suc_Diff1 [OF finite_slots_held True] by simp
    then have "(of_nat (card (slots_held m)) :: u32) = of_nat (card (slots_held m - {(h, tag)}) + 1)"
      by (rule arg_cong)
    moreover have "m_shadowed (detach_tag h tag m) = m_shadowed m"
      using True by (simp add: detach_tag_def slots_held_def)
    ultimately show ?thesis using eq by (simp add: claims_def)
  next
    case False
    then have "m_shadowed (detach_tag h tag m) = m_shadowed m - 1" by (auto simp: detach_tag_def slots_held_def)
    moreover have "slots_held m - {(h, tag)} = slots_held m" using False by auto
    ultimately show ?thesis using eq by (simp add: claims_def)
  qed
qed

lemma detach_held:
  assumes "length (m_handlers m) = TAG_SLOTS"
  shows "length (m_handlers (Messenger_detach h ts m)) = TAG_SLOTS \<and>
    slots_held (Messenger_detach h ts m) = slots_held m - {h} \<times> set ts \<and>
    claims (Messenger_detach h ts m) = claims m - of_nat (length ts)"
proof -
  have "length (m_handlers (fold (detach_tag h) ts m)) = TAG_SLOTS \<and>
    slots_held (fold (detach_tag h) ts m) = slots_held m - {h} \<times> set ts \<and>
    claims (fold (detach_tag h) ts m) = claims m - of_nat (length ts)"
    using assms
  proof (induction ts arbitrary: m)
    case (Cons t ts)
    note step = detach_tag_held [OF Cons.prems, of h t]
    have "slots_held m - {(h, t)} - {h} \<times> set ts = slots_held m - {h} \<times> set (t # ts)" by auto
    then show ?case using Cons.IH [OF step(1)] step(2,3) by (simp add: diff_diff_eq)
  qed simp
  moreover have "slots_held (n\<lparr>m_pending := ps\<rparr>) = slots_held n" for n ps by (simp add: slots_held_def)
  moreover from this have "claims (n\<lparr>m_pending := ps\<rparr>) = claims n" for n ps by (simp add: claims_def)
  ultimately show ?thesis by (simp add: Messenger_detach_def Let_def)
qed

lemma composition_held:
  "composition tags m L \<Longrightarrow> finite L \<and> length (m_handlers m) = TAG_SLOTS \<and>
     slots_held m \<subseteq> Sigma L (set \<circ> tags) \<and> claims m = of_nat (\<Sum>h\<in>L. length (tags h))"
proof (induction rule: composition.induct)
  case (comp_new n)
  have "slots_held (Messenger_new n) = {}" by (auto simp: Messenger_new_def slots_held_def)
  then show ?case by (simp add: Messenger_new_def claims_def)
next
  case (comp_attach m L h)
  have len: "length (m_handlers m) = TAG_SLOTS" using comp_attach by simp
  have "(\<Sum>h\<in>insert h L. length (tags h)) = (\<Sum>h\<in>L. length (tags h)) + length (tags h)"
    using comp_attach by simp
  then show ?case using attach_held [OF len, of h "tags h"] comp_attach by auto
next
  case (comp_detach m L h)
  have len: "length (m_handlers m) = TAG_SLOTS" using comp_detach by simp
  have "(\<Sum>h\<in>L. length (tags h)) = (\<Sum>h\<in>L - {h}. length (tags h)) + length (tags h)"
    using comp_detach by (simp add: sum.remove)
  then have "claims m = of_nat (\<Sum>h\<in>L - {h}. length (tags h)) + of_nat (length (tags h))"
    using comp_detach by simp
  then show ?case using detach_held [OF len, of h "tags h"] comp_detach by auto
qed

text \<open>No failed claim exactly when every claim of every live handler holds its slot.\<close>

lemma composition_init:
  assumes c: "composition tags m L" and distinct: "\<forall>h \<in> L. distinct (tags h)"
    and bound: "(\<Sum>h\<in>L. length (tags h)) < 2 ^ 32"
  shows "Messenger_init m \<longleftrightarrow> (\<forall>h \<in> L. \<forall>t \<in> set (tags h). t < TAG_SLOTS \<and> m_handlers m ! t = Some h)"
proof -
  have fin: "finite L" and sub: "slots_held m \<subseteq> Sigma L (set \<circ> tags)"
    and cl: "claims m = of_nat (\<Sum>h\<in>L. length (tags h))"
    using composition_held [OF c] by auto
  have finS: "finite (Sigma L (set \<circ> tags))" using fin by auto
  have card: "card (Sigma L (set \<circ> tags)) = (\<Sum>h\<in>L. length (tags h))"
    using fin distinct by (simp add: card_SigmaI distinct_card)
  have le: "card (slots_held m) \<le> card (Sigma L (set \<circ> tags))" by (rule card_mono [OF finS sub])
  have "Messenger_init m \<longleftrightarrow> (of_nat (card (slots_held m)) :: u32) = of_nat (card (Sigma L (set \<circ> tags)))"
    using cl card by (auto simp: Messenger_init_def claims_def)
  also have "\<dots> \<longleftrightarrow> card (slots_held m) = card (Sigma L (set \<circ> tags))"
  proof -
    have "unat (of_nat (card (slots_held m)) :: u32) = card (slots_held m)"
      "unat (of_nat (card (Sigma L (set \<circ> tags))) :: u32) = card (Sigma L (set \<circ> tags))"
      by (rule unat_of_nat_small, use le bound card in simp)+
    then show ?thesis by (simp add: word_unat_eq_iff)
  qed
  also have "\<dots> \<longleftrightarrow> slots_held m = Sigma L (set \<circ> tags)" using card_subset_eq [OF finS sub] by auto
  also have "\<dots> \<longleftrightarrow> (\<forall>h \<in> L. \<forall>t \<in> set (tags h). t < TAG_SLOTS \<and> m_handlers m ! t = Some h)"
    using sub by (auto simp: slots_held_def)
  finally show ?thesis .
qed



section \<open>Properties\<close>

text \<open>(C28) The books of the messenger balance. In any life of a node that keeps its handlers (any
  interleaving of construction, sends, requests, ticks and polls, with any frames received and
  any handlers that only send and request from inside their callbacks), every request started
  is completed, failed or still pending, every payload received is undecodable, an
  acknowledgement, unhandled, handled or ignored (the counters being 32-bit), every pending
  request has a non-zero id, a real destination and at most as many sends as its policy
  allows, and the transport below keeps its own invariant.\<close>

theorem messenger_books_balance:
  assumes "messenger_client codec H" "messenger_run codec H w"
  shows "m_requests (msgr w) = m_completed (msgr w) + m_failed (msgr w) + of_nat (used_count (msgr w)) \<and>
         m_received (msgr w) = m_undecodable (msgr w) + (m_completed (msgr w) + m_unmatchedAcks (msgr w)) +
           m_unhandled (msgr w) + m_handled (msgr w) + m_ignored (msgr w) \<and>
         messenger_inv (msgr w) \<and> transport_inv (fst w)"
  using messenger_client.run_node_ok [OF assms]
  by (simp add: node_ok_inv_def requests_balance_def payloads_balance_def algebra_simps)

lemma demo_transport_inv: "transport_inv demo_transport"
  unfolding demo_transport_def by (intro addLink_inv init_inv)

theorem messenger_books_balance_witness:
  "messenger_inv (msgr (Messenger_poll demo_codec (mrecorder demo_codec) 7000000 (\<lambda>_. [(demo_frame, UartAddress)])
     (demo_transport, Messenger_new 4, [])))"
  using messenger_books_balance [OF mrec.messenger_client_axioms mrun_poll [OF mrun_new [OF demo_transport_inv]]]
  by blast










definition demo_entry :: pending_request where
  "demo_entry = \<lparr>pr_used = True, pr_dst = 9, pr_id = 1, pr_owner = Some 3,
                 pr_policy = \<lparr>rp_periodUs = 500000, rp_retries = 2\<rparr>, pr_sentUs = 100, pr_sends = 1, pr_bytes = [18]\<rparr>"

definition demo_pending :: messenger where
  "demo_pending = (Messenger_new 2)\<lparr>m_pending := [PendingRequest_init, demo_entry]\<rparr>"




text \<open>An acknowledgement completes the request it answers and nothing else. It must come from
  the node the request went to and carry its id; then that entry is freed, the completion
  counted, and no handler runs and nothing is sent. Any other acknowledgement only counts as
  unmatched.\<close>

lemma ack_completes_its_request:
  assumes "m_tap (msgr w) = None" "decodeEnvelope codec p = Some a" "env_which_body a = ack_tag"
    and "v = Messenger_onPayload codec H src p w"
  shows "fst v = fst w \<and> app v = app w \<and>
    (\<forall>i < length (m_pending (msgr w)).
       (\<forall>j < length (m_pending (msgr w)). matches src (env_request_id a) (m_pending (msgr w) ! j) \<longleftrightarrow> j = i) \<longrightarrow>
       m_pending (msgr v) = (m_pending (msgr w))[i := (m_pending (msgr w) ! i)\<lparr>pr_used := False\<rparr>] \<and>
       m_completed (msgr v) = m_completed (msgr w) + 1) \<and>
    (list_all (\<lambda>e. \<not> matches src (env_request_id a) e) (m_pending (msgr w)) \<longrightarrow>
       m_pending (msgr v) = m_pending (msgr w) \<and> m_completed (msgr v) = m_completed (msgr w) \<and>
       m_unmatchedAcks (msgr v) = m_unmatchedAcks (msgr w) + 1)"
proof -
  have v: "v = (fst w, Messenger_onAck src (env_request_id a) ((msgr w)\<lparr>m_received := m_received (msgr w) + 1\<rparr>), app w)"
    unfolding assms(4) by (rule onPayload_ack [OF assms(1-3)])
  show ?thesis
    by (auto simp: v Messenger_onAck_def release_unique release_first_None [symmetric])
qed

lemma ack_completes_its_request_example:
  "m_pending (msgr (Messenger_onPayload demo_codec (mrecorder demo_codec) 9 [40, 1, 0, 0, 0] (demo_transport, demo_pending, []))) =
   [PendingRequest_init, demo_entry\<lparr>pr_used := False\<rparr>]"
proof -
  let ?w = "(demo_transport, demo_pending, [] :: mevent list)"
  let ?a = "\<lparr>env_which_body = 40, env_request_id = 1, env_body = ()\<rparr>"
  have t: "m_tap (msgr ?w) = None" by (simp add: demo_pending_def Messenger_new_def)
  have d: "decodeEnvelope demo_codec [40, 1, 0, 0, 0] = Some ?a"
    by (simp add: decodeEnvelope_def demo_codec_def rd32_def)
  have b: "env_which_body ?a = ack_tag" by (simp add: ack_tag_def)
  have m: "\<forall>j < length (m_pending (msgr ?w)). matches 9 (env_request_id ?a) (m_pending (msgr ?w) ! j) \<longleftrightarrow> j = 1"
    by (auto simp: demo_pending_def matches_def PendingRequest_init_def demo_entry_def less_Suc_eq)
  have "1 < length (m_pending (msgr ?w))" by (simp add: demo_pending_def)
  then have "m_pending (msgr (Messenger_onPayload demo_codec (mrecorder demo_codec) 9 [40, 1, 0, 0, 0] ?w)) =
      (m_pending (msgr ?w))[1 := (m_pending (msgr ?w) ! 1)\<lparr>pr_used := False\<rparr>]"
    using ack_completes_its_request [OF t d b refl, of "mrecorder demo_codec" 9] m by blast
  then show ?thesis by (simp add: demo_pending_def)
qed


text \<open>A numbered message is acknowledged exactly once, whether or not somebody handles it, and
  reaches the handler of its tag exactly once. The acknowledgement goes to the node the message
  came from, carries its id, and is the only frame the messenger adds to that node's stream.\<close>

lemma numbered_message_acknowledged:
  assumes "transport_inv (fst w)" "src \<noteq> BROADCAST_NODE" "Transport_lookup src (fst w) = Some i"
    and "m_tap (msgr w) = None" "decodeEnvelope codec p = Some e" "env_which_body e \<noteq> ack_tag"
    and "env_request_id e \<noteq> 0"
    and "encodeEnvelope codec (ack_of codec (env_request_id e)) (env_max codec) = Some a" "sendable a"
    and "v = Messenger_onPayload codec (mrecorder codec) src p w"
  shows "frames_for src (t_links (fst v) ! n_link (t_nodes (fst w) ! i)) =
           frames_for src (t_links (fst w) ! n_link (t_nodes (fst w) ! i)) @ [(n_txSeq (t_nodes (fst w) ! i), a)] \<and>
         app v = app w @
         (if env_which_body e < TAG_SLOTS
          then (case m_handlers (msgr w) ! env_which_body e of None \<Rightarrow> []
                | Some h \<Rightarrow> [MMessage h src (env_which_body e) (env_request_id e)]) else [])"
proof -
  have "fst v = fst (Transport_send src a (fst w))"
    unfolding assms(10) by (rule mrecorder_numbered [OF assms(4-8)])
  then show ?thesis
    using unicast_stream_step(4) [OF assms(1-3), of src a] assms(9) mrecorder_numbered_log [OF assms(4-6), of src]
    by (simp add: assms(10))
qed

lemma demo_encode_ack: "encodeEnvelope demo_codec (ack_of demo_codec 5) (env_max demo_codec) = Some [40, 5, 0, 0, 0]"
  by (simp add: encodeEnvelope_def ack_of_def demo_codec_def ack_tag_def le32_def byte_at_def)

lemma numbered_message_acknowledged_example:
  "frames_for 3 (t_links (fst (Messenger_onPayload demo_codec (mrecorder demo_codec) 3 [18, 5, 0, 0, 0]
      (demo_peered, Messenger_new 2, []))) ! 1) = [(65535, [40, 5, 0, 0, 0])]"
proof -
  let ?w = "(demo_peered, Messenger_new 2, [] :: mevent list)"
  let ?e = "\<lparr>env_which_body = 18, env_request_id = 5, env_body = ()\<rparr>"
  have d: "decodeEnvelope demo_codec [18, 5, 0, 0, 0] = Some ?e"
    by (simp add: decodeEnvelope_def demo_codec_def rd32_def)
  have l: "Transport_lookup 3 (fst ?w) = Some 0" by (simp add: Transport_lookup_def demo_peered_def)
  have n: "n_link (t_nodes demo_peered ! 0) = 1" "n_txSeq (t_nodes demo_peered ! 0) = 65535"
    by (simp_all add: demo_peered_def)
  have f: "frames_for 3 (t_links demo_peered ! 1) = []"
    by (simp add: frames_for_def demo_peered_def demo_transport_def Transport_addLink_def Transport_init_def
        demo_link_def MAX_LINKS_def)
  have "frames_for 3 (t_links (fst (Messenger_onPayload demo_codec (mrecorder demo_codec) 3 [18, 5, 0, 0, 0] ?w)) ! n_link (t_nodes (fst ?w) ! 0)) =
        frames_for 3 (t_links (fst ?w) ! n_link (t_nodes (fst ?w) ! 0)) @ [(n_txSeq (t_nodes (fst ?w) ! 0), [40, 5, 0, 0, 0])]"
    using numbered_message_acknowledged [OF _ _ l _ d _ _ _ _ refl, of "[40, 5, 0, 0, 0]"] demo_peered_inv demo_encode_ack
    by (simp add: BROADCAST_NODE_def Messenger_new_def ack_tag_def sendable_def MAX_PAYLOAD_def)
  then show ?thesis by (simp add: n f [unfolded One_nat_def])
qed

text \<open>When a node goes down every request to it is given up on at once and its owner told, the
  requests to other nodes stay as they are, and then every handler hears of the departure
  exactly once, however many tags it claims.\<close>

lemma node_down_fails_its_requests:
  assumes "length (m_handlers (msgr w)) = TAG_SLOTS" "v = Messenger_onNodeDown (mrecorder codec) n w"
    and "hs = first_uses (m_handlers (msgr w)) []"
  shows "m_pending (msgr v) = map (downed (n_id n)) (m_pending (msgr w)) \<and>
         app v = app w @ concat (map failure_event (filter (addressed (n_id n)) (m_pending (msgr w)))) @
                 map (\<lambda>h. MDown h (n_id n)) hs \<and>
         distinct hs \<and> set hs = {h. Some h \<in> set (m_handlers (msgr w))}"
proof -
  let ?w = "fold (down_at (mrecorder codec) (n_id n)) [0..<length (m_pending (msgr w))] w"
  have l: "m_pending (msgr ?w) = map (downed (n_id n)) (m_pending (msgr w))"
    "app ?w = app w @ concat (map failure_event (filter (addressed (n_id n)) (m_pending (msgr w))))"
    "m_handlers (msgr ?w) = m_handlers (msgr w)"
    using mrecorder_down_loop [of "length (m_pending (msgr w))" w codec "n_id n"] by simp_all
  have "v = (fst ?w, msgr ?w, app ?w @ map (\<lambda>h. MDown h (n_id n)) (first_uses (m_handlers (msgr w)) []))"
    using mrecorder_notify_loop [of TAG_SLOTS ?w codec "n_id n" False] assms(1)
    by (simp add: assms(2) Messenger_onNodeDown_def Messenger_notifyHandlers_def l(3))
  then show ?thesis by (simp add: l assms(3) first_uses_distinct first_uses_set)
qed

lemma node_down_fails_its_requests_example:
  "app (Messenger_onNodeDown (mrecorder demo_codec) (Node_init\<lparr>n_id := 9\<rparr>)
     (demo_transport, Messenger_attach 6 [2, 4] demo_pending, [])) = [MFailed 3 9 1, MDown 6 9]"
proof -
  let ?w = "(demo_transport, Messenger_attach 6 [2, 4] demo_pending, [] :: mevent list)"
  have h: "m_handlers (msgr ?w) = (replicate 64 None)[2 := Some 6, 4 := Some 6]" "m_pending (msgr ?w) = [PendingRequest_init, demo_entry]"
    by (simp_all add: Messenger_attach_def attach_tag_def demo_pending_def Messenger_new_def TAG_SLOTS_def)
  then have "first_uses (m_handlers (msgr ?w)) [] = [6]" by (simp add: numeral_eq_Suc)
  then show ?thesis
    using node_down_fails_its_requests [OF _ refl refl, of ?w demo_codec "Node_init\<lparr>n_id := 9\<rparr>"] h
    by (simp add: TAG_SLOTS_def addressed_def PendingRequest_init_def demo_entry_def failure_event_def)
qed

text \<open>\<^verbatim>\<open>init\<close> tells the truth about the composition. After handlers were constructed and destroyed in
  any order, the messenger reports no failed claim exactly when every live handler holds every
  tag it claimed: a claim that failed is reported as long as its handler lives and forgotten
  with it.\<close>

lemma messenger_init_reports_claims:
  assumes "composition tags m L" "\<forall>h \<in> L. distinct (tags h)" "(\<Sum>h\<in>L. length (tags h)) < 2 ^ 32"
  shows "Messenger_init m \<longleftrightarrow> (\<forall>h \<in> L. \<forall>t \<in> set (tags h). t < TAG_SLOTS \<and> m_handlers m ! t = Some h)"
  by (rule composition_init [OF assms])

lemma messenger_init_reports_claims_example:
  "\<not> Messenger_init (Messenger_attach 1 [7, 8] (Messenger_attach 0 [8, 9] (Messenger_new 4)))"
proof -
  let ?tags = "\<lambda>h::nat. if h = 0 then [8, 9] else [7, 8::nat]"
  have c: "composition ?tags (Messenger_attach 1 [7, 8] (Messenger_attach 0 [8, 9] (Messenger_new 4))) {1, 0}"
    using comp_attach [OF comp_attach [OF comp_new [of ?tags 4], of 0], of 1] by simp
  have "m_handlers (Messenger_attach 1 [7, 8] (Messenger_attach 0 [8, 9] (Messenger_new 4))) ! 8 \<noteq> Some 1"
    by (simp add: Messenger_attach_def attach_tag_def Messenger_new_def TAG_SLOTS_def)
  then show ?thesis using messenger_init_reports_claims [OF c] by auto
qed


lemma ack_tag_claim_unreported:
  \<comment> \<open>the acknowledgement tag is not reserved: a handler that claims it holds the slot, \<^verbatim>\<open>init\<close> reports
    nothing, and \<^verbatim>\<open>onPayload\<close> never reaches it (the comment there says it is shadowed)\<close>
  "Messenger_init (Messenger_attach h [ack_tag] (Messenger_new n)) \<and>
   m_handlers (Messenger_attach h [ack_tag] (Messenger_new n)) ! ack_tag = Some h"
  by (simp add: Messenger_attach_def attach_tag_def Messenger_new_def Messenger_init_def TAG_SLOTS_def ack_tag_def)

text \<open>A request makes the round trip. Node A starts a request to node B and keeps the bytes; when
  those bytes reach B (on the first send or any later one), B answers A with one frame; and
  when the payload of that frame reaches A from B, the entry is freed and the request counts as
  completed. The two nodes need share nothing but a codec that reads back what it wrote.\<close>

lemma request_ack_round_trip:
  assumes codec: "codec_roundtrips codec" and body: "env_which_body e \<noteq> 0" "env_which_body e \<noteq> ack_tag"
    and req: "Messenger_request codec nodeB e owner policy wa = (va, r)" "r \<noteq> 0"
    and fresh: "list_all (\<lambda>x. \<not> matches nodeB r x) (m_pending (msgr wa))" and tapA: "m_tap (msgr wa) = None"
    and B: "transport_inv (fst wb)" "nodeA \<noteq> BROADCAST_NODE" "Transport_lookup nodeA (fst wb) = Some i" "m_tap (msgr wb) = None"
    and ack: "pb_encode codec (ack_of codec r) (env_max codec) = Some a" "length a \<le> MAX_PAYLOAD"
  shows "\<exists>k < length (m_pending (msgr va)). matches nodeB r (m_pending (msgr va) ! k) \<and>
    frames_for nodeA (t_links (fst (Messenger_onPayload codec (mrecorder codec) nodeA (pr_bytes (m_pending (msgr va) ! k)) wb)) !
        n_link (t_nodes (fst wb) ! i)) =
      frames_for nodeA (t_links (fst wb) ! n_link (t_nodes (fst wb) ! i)) @ [(n_txSeq (t_nodes (fst wb) ! i), a)] \<and>
    m_pending (msgr (Messenger_onPayload codec H nodeB a va)) =
      (m_pending (msgr va))[k := (m_pending (msgr va) ! k)\<lparr>pr_used := False\<rparr>] \<and>
    m_completed (msgr (Messenger_onPayload codec H nodeB a va)) = m_completed (msgr va) + 1"
proof (cases codec nodeB e owner policy wa rule: request_cases)
  case (refused n q)
  then show ?thesis using req by simp
next
  case (started k reqId bs entry)
  have r: "reqId = r" using started(6) req(1) by simp
  have k: "k < length (m_pending (msgr wa))" using free_slot_Some [OF started(1)] by simp
  have "rx_side (msgr va) = rx_side (msgr wa)"
    using request_rx_side [of codec nodeB e owner policy wa] req(1) by simp
  then have pa: "m_pending (msgr va) = (m_pending (msgr wa))[k := entry]" "m_tap (msgr va) = None"
    using started(7) req(1) tapA by (simp, simp add: rx_side_def)
  have kv: "k < length (m_pending (msgr va))" "m_pending (msgr va) ! k = entry" using k pa(1) by simp_all
  have m: "\<forall>j < length (m_pending (msgr va)). matches nodeB r (m_pending (msgr va) ! j) \<longleftrightarrow> j = k"
    using fresh k started(5) r by (auto simp: pa(1) nth_list_update matches_def list_all_length)
  have bs: "pb_encode codec (e\<lparr>env_request_id := r\<rparr>) (env_max codec) = Some bs" "pr_bytes entry = bs"
    using started(4,5) body(1) r by (simp_all add: encodeEnvelope_def)
  have db: "decodeEnvelope codec bs = Some (e\<lparr>env_request_id := r\<rparr>)"
    using codec [unfolded codec_roundtrips_def, rule_format, OF _ bs(1)] body(1) by (simp add: decodeEnvelope_def)
  have "a \<noteq> []" "pb_decode codec a = Some (ack_of codec r)"
    using codec [unfolded codec_roundtrips_def, rule_format, OF _ ack(1)] by (simp_all add: ack_of_def ack_tag_def)
  then have da: "decodeEnvelope codec a = Some (ack_of codec r)" and sa: "sendable a"
    using ack(2) by (auto simp: decodeEnvelope_def sendable_def)
  have ea: "encodeEnvelope codec (ack_of codec r) (env_max codec) = Some a"
    using ack(1) by (simp add: encodeEnvelope_def ack_of_def ack_tag_def)
  have one: "frames_for nodeA (t_links (fst (Messenger_onPayload codec (mrecorder codec) nodeA bs wb)) ! n_link (t_nodes (fst wb) ! i)) =
      frames_for nodeA (t_links (fst wb) ! n_link (t_nodes (fst wb) ! i)) @ [(n_txSeq (t_nodes (fst wb) ! i), a)]"
    using mrecorder_numbered [OF B(4) db, of a nodeA] unicast_stream_step(4) [OF B(1-3), of nodeA a] body(2) req(2) ea sa
    by simp
  have "env_which_body (ack_of codec r) = ack_tag" "env_request_id (ack_of codec r) = r" by (simp_all add: ack_of_def)
  then have two: "msgr (Messenger_onPayload codec H nodeB a va) =
      Messenger_onAck nodeB r ((msgr va)\<lparr>m_received := m_received (msgr va) + 1\<rparr>)"
    using onPayload_ack [OF pa(2) da] by simp
  show ?thesis
  proof (intro exI [of _ k] conjI)
    show "matches nodeB r (m_pending (msgr va) ! k)" using m kv(1) by blast
    show "frames_for nodeA (t_links (fst (Messenger_onPayload codec (mrecorder codec) nodeA (pr_bytes (m_pending (msgr va) ! k)) wb)) !
        n_link (t_nodes (fst wb) ! i)) =
      frames_for nodeA (t_links (fst wb) ! n_link (t_nodes (fst wb) ! i)) @ [(n_txSeq (t_nodes (fst wb) ! i), a)]"
      using one by (simp add: kv(2) bs(2))
    show "m_pending (msgr (Messenger_onPayload codec H nodeB a va)) =
      (m_pending (msgr va))[k := (m_pending (msgr va) ! k)\<lparr>pr_used := False\<rparr>]"
      "m_completed (msgr (Messenger_onPayload codec H nodeB a va)) = m_completed (msgr va) + 1"
      using release_unique [OF kv(1) m] by (simp_all add: two Messenger_onAck_def)
  qed (rule kv(1))
qed

definition demo_request :: "unit envelope" where
  "demo_request = \<lparr>env_which_body = 18, env_request_id = 0, env_body = ()\<rparr>"

lemma demo_request_id:
  "snd (Messenger_request demo_codec 3 demo_request 0 RequestPolicy_default (demo_peered, Messenger_new 2, [] :: mevent list)) = 1"
proof -
  have n: "Transport_findNode 3 demo_peered \<noteq> None" by (simp add: Transport_findNode_def demo_peered_def)
  have f: "free_slot (m_pending (Messenger_new 2)) = Some 0"
    by (simp add: Messenger_new_def PendingRequest_init_def numeral_2_eq_2)
  have i: "Messenger_nextId (Messenger_new 2) = ((Messenger_new 2)\<lparr>m_nextId := 1\<rparr>, 1)"
    by (simp add: Messenger_nextId_def Messenger_new_def)
  have e: "encodeEnvelope demo_codec (demo_request\<lparr>env_request_id := 1\<rparr>) (env_max demo_codec) = Some [18, 1, 0, 0, 0]"
    by (simp add: encodeEnvelope_def demo_codec_def demo_request_def le32_def byte_at_def)
  have "(3 :: u32) \<noteq> BROADCAST_NODE" by (simp add: BROADCAST_NODE_def)
  then show ?thesis using n by (simp add: Messenger_request_def f i e Let_def)
qed

definition demo_started :: "mevent list world" where
  "demo_started = fst (Messenger_request demo_codec 3 demo_request 0 RequestPolicy_default (demo_peered, Messenger_new 2, []))"

lemma request_ack_round_trip_example:
  "\<exists>k. m_pending (msgr (Messenger_onPayload demo_codec (mrecorder demo_codec) 3 [40, 1, 0, 0, 0] demo_started)) =
       (m_pending (msgr demo_started))[k := (m_pending (msgr demo_started) ! k)\<lparr>pr_used := False\<rparr>]"
proof -
  let ?w = "(demo_peered, Messenger_new 2, [] :: mevent list)"
  obtain va where va: "Messenger_request demo_codec 3 demo_request 0 RequestPolicy_default ?w = (va, 1)"
    using demo_request_id by (metis prod.collapse)
  have l: "Transport_lookup 4 (fst ?w) = Some 1" by (simp add: Transport_lookup_def demo_peered_def)
  have f: "list_all (\<lambda>x. \<not> matches 3 1 x) (m_pending (msgr ?w))" and t: "m_tap (msgr ?w) = None"
    by (simp_all add: Messenger_new_def matches_def PendingRequest_init_def list_all_iff)
  have a: "pb_encode demo_codec (ack_of demo_codec 1) (env_max demo_codec) = Some [40, 1, 0, 0, 0]"
    "length [40, 1, 0, 0, 0 :: u8] \<le> MAX_PAYLOAD"
    by (simp_all add: ack_of_def demo_codec_def ack_tag_def le32_def byte_at_def MAX_PAYLOAD_def)
  have b: "env_which_body demo_request \<noteq> 0" "env_which_body demo_request \<noteq> ack_tag" "(1 :: u32) \<noteq> 0"
    "(4 :: u32) \<noteq> BROADCAST_NODE" "transport_inv (fst ?w)"
    by (simp_all add: demo_request_def ack_tag_def BROADCAST_NODE_def demo_peered_inv)
  from request_ack_round_trip [OF demo_codec_ok b(1,2) va b(3) f t b(5) b(4) l t a, of "mrecorder demo_codec"]
  show ?thesis unfolding demo_started_def va fst_conv by blast
qed

end
