(* ===== verification/Ota_Image.thy ===== *)
theory Ota_Image
  imports Prelude
begin

text \<open>
  The data the update system shares between the bootloader, the firmware and the ground
  (\<^verbatim>\<open>components/protocol/include/protocol/ota_image.hpp\<close> and the structs of
  \<^verbatim>\<open>components/ota/include/ota/firmware_store.hpp\<close>): slot indices and lifecycle states, the image
  header, the boot metadata and its packed record. The packed structs are read and written with
  \<^verbatim>\<open>memcpy\<close>; \<open>memcpy_header\<close>, \<open>record_bytes\<close> and \<open>memcpy_record\<close> are those copies, little endian.
\<close>


section \<open>Slots and constants\<close>

definition OTA_SLOT_A :: u8 where "OTA_SLOT_A = 0"
definition OTA_SLOT_B :: u8 where "OTA_SLOT_B = 1"
definition OTA_SLOT_COUNT :: nat where "OTA_SLOT_COUNT = 2"

definition OTA_SLOT_STAGED :: u8 where "OTA_SLOT_STAGED = 1"
definition OTA_SLOT_TESTING :: u8 where "OTA_SLOT_TESTING = 2"
definition OTA_SLOT_VALID :: u8 where "OTA_SLOT_VALID = 3"
definition OTA_SLOT_BAD :: u8 where "OTA_SLOT_BAD = 4"
definition OTA_SLOT_EMPTY :: u8 where "OTA_SLOT_EMPTY = 0xFF"

lemmas slot_defs = OTA_SLOT_A_def OTA_SLOT_B_def OTA_SLOT_COUNT_def
lemmas slot_state_defs = OTA_SLOT_STAGED_def OTA_SLOT_TESTING_def OTA_SLOT_VALID_def OTA_SLOT_BAD_def
  OTA_SLOT_EMPTY_def

text \<open>The wire enumeration of the slot states (\<^verbatim>\<open>mark4_OtaSlotState\<close>).\<close>

datatype wire_slot_state = SlotState_EMPTY | SlotState_STAGED | SlotState_TESTING | SlotState_VALID | SlotState_BAD

definition otaSlotStateToWire :: "u8 \<Rightarrow> wire_slot_state" where
  "otaSlotStateToWire state =
     (if state = OTA_SLOT_STAGED then SlotState_STAGED
      else if state = OTA_SLOT_TESTING then SlotState_TESTING
      else if state = OTA_SLOT_VALID then SlotState_VALID
      else if state = OTA_SLOT_BAD then SlotState_BAD
      else SlotState_EMPTY)"

definition OTA_MCU_STM32F405 :: u8 where "OTA_MCU_STM32F405 = 1"

definition OTA_CHUNK_DATA_SIZE :: nat where "OTA_CHUNK_DATA_SIZE = 240"
definition OTA_CHUNK_ACK_WINDOW :: u32 where "OTA_CHUNK_ACK_WINDOW = 16"
definition OTA_GIT_HASH_SIZE :: nat where "OTA_GIT_HASH_SIZE = 8"
definition OTA_IMAGE_MAGIC :: u32 where "OTA_IMAGE_MAGIC = 0x5746344D"
definition OTA_IMAGE_HEADER_VERSION :: u16 where "OTA_IMAGE_HEADER_VERSION = 1"
definition OTA_IMAGE_HEADER_SIZE :: u32 where "OTA_IMAGE_HEADER_SIZE = 512"
definition OTA_IMAGE_UNSTAMPED :: u32 where "OTA_IMAGE_UNSTAMPED = 0xFFFFFFFF"
definition OTA_IMAGE_RESERVED_SIZE :: nat where "OTA_IMAGE_RESERVED_SIZE = 480"
definition OTA_ERASED_BYTE :: u8 where "OTA_ERASED_BYTE = 0xFF"

lemmas image_defs = OTA_IMAGE_MAGIC_def OTA_IMAGE_HEADER_VERSION_def OTA_IMAGE_HEADER_SIZE_def
  OTA_IMAGE_UNSTAMPED_def OTA_IMAGE_RESERVED_SIZE_def OTA_ERASED_BYTE_def OTA_GIT_HASH_SIZE_def
  OTA_CHUNK_DATA_SIZE_def OTA_CHUNK_ACK_WINDOW_def OTA_MCU_STM32F405_def


section \<open>The image header\<close>

record image_header =
  magic :: u32
  headerVersion :: u16
  mcuId :: u8
  slotId :: u8
  imageSize :: u32
  imageCrc :: u32
  buildEpoch :: u32
  gitHash :: bytes
  reserved :: bytes
  headerCrc :: u32

text \<open>A little-endian field at a byte offset of a packed struct.\<close>

definition field16 :: "bytes \<Rightarrow> nat \<Rightarrow> u16" where
  "field16 bs i = rd16 (bs ! i) (bs ! (i + 1))"

definition field32 :: "bytes \<Rightarrow> nat \<Rightarrow> u32" where
  "field32 bs i = rd32 (bs ! i) (bs ! (i + 1)) (bs ! (i + 2)) (bs ! (i + 3))"

text \<open>\<^verbatim>\<open>memcpy\<close> of 512 bytes into the packed struct.\<close>

definition memcpy_header :: "bytes \<Rightarrow> image_header" where
  "memcpy_header bs = \<lparr> magic = field32 bs 0, headerVersion = field16 bs 4, mcuId = bs ! 6, slotId = bs ! 7,
     imageSize = field32 bs 8, imageCrc = field32 bs 12, buildEpoch = field32 bs 16,
     gitHash = take OTA_GIT_HASH_SIZE (drop 20 bs), reserved = take OTA_IMAGE_RESERVED_SIZE (drop 28 bs),
     headerCrc = field32 bs 508 \<rparr>"

text \<open>The wire string of a git hash: the characters before the first zero or erased byte.\<close>

definition otaGitHashToWire :: "bytes \<Rightarrow> bytes" where
  "otaGitHashToWire hash = takeWhile (\<lambda>c. c \<noteq> 0 \<and> c \<noteq> OTA_ERASED_BYTE) hash"

record image_identity =
  id_buildEpoch :: u32
  id_gitHash :: bytes

definition OtaImageIdentity_init :: image_identity where
  "OtaImageIdentity_init = \<lparr> id_buildEpoch = 0, id_gitHash = replicate OTA_GIT_HASH_SIZE 0 \<rparr>"


section \<open>The boot metadata\<close>

record meta_state =
  activeSlot :: u8
  slotState :: bytes
  trialAttempted :: bool

definition OtaMetaState_init :: meta_state where
  "OtaMetaState_init =
     \<lparr> activeSlot = OTA_SLOT_A, slotState = [OTA_SLOT_VALID, OTA_SLOT_EMPTY], trialAttempted = False \<rparr>"

text \<open>\<^verbatim>\<open>slotState\<close> is an array of two.\<close>

definition meta_ok :: "meta_state \<Rightarrow> bool" where
  "meta_ok m \<longleftrightarrow> length (slotState m) = OTA_SLOT_COUNT"

abbreviation slot_state :: "meta_state \<Rightarrow> u8 \<Rightarrow> u8" where
  "slot_state m slot \<equiv> slotState m ! unat slot"

definition set_slot_state :: "u8 \<Rightarrow> u8 \<Rightarrow> meta_state \<Rightarrow> meta_state" where
  "set_slot_state slot v m = m\<lparr> slotState := (slotState m)[unat slot := v] \<rparr>"

lemma set_slot_state_simps [simp]:
  "activeSlot (set_slot_state s v m) = activeSlot m"
  "trialAttempted (set_slot_state s v m) = trialAttempted m"
  "slotState (set_slot_state s v m) = (slotState m)[unat s := v]"
  by (simp_all add: set_slot_state_def)

lemma meta_ok_set [simp, inv_intros]: "meta_ok (set_slot_state s v m) \<longleftrightarrow> meta_ok m"
  by (simp add: meta_ok_def)

lemma meta_ok_upd [simp]:
  "meta_ok (m\<lparr> activeSlot := s \<rparr>) \<longleftrightarrow> meta_ok m" "meta_ok (m\<lparr> trialAttempted := b \<rparr>) \<longleftrightarrow> meta_ok m"
  by (simp_all add: meta_ok_def)

lemma meta_ok_init [simp]: "meta_ok OtaMetaState_init"
  by (simp add: meta_ok_def OtaMetaState_init_def OTA_SLOT_COUNT_def)

lemma meta_ok_cases: "meta_ok m \<Longrightarrow> \<exists>a b. slotState m = [a, b]"
  by (auto simp: meta_ok_def OTA_SLOT_COUNT_def intro: list_of_length_2)


section \<open>The metadata record\<close>

definition OTA_META_FLAG_TRIAL_ATTEMPTED :: u8 where "OTA_META_FLAG_TRIAL_ATTEMPTED = 1"
definition OTA_META_RECORD_SIZE :: nat where "OTA_META_RECORD_SIZE = 16"

record meta_record =
  r_counter :: u32
  r_activeSlot :: u8
  r_slotState :: bytes
  r_flags :: u8
  r_reserved :: u32
  r_crc :: u32

definition record_bytes :: "meta_record \<Rightarrow> bytes" where
  "record_bytes r = le32 (r_counter r) @ [r_activeSlot r] @ r_slotState r @ [r_flags r] @
     le32 (r_reserved r) @ le32 (r_crc r)"

definition memcpy_record :: "bytes \<Rightarrow> meta_record" where
  "memcpy_record bs = \<lparr> r_counter = field32 bs 0, r_activeSlot = bs ! 4, r_slotState = [bs ! 5, bs ! 6],
     r_flags = bs ! 7, r_reserved = field32 bs 8, r_crc = field32 bs 12 \<rparr>"

lemma length_record_bytes: "length (r_slotState r) = 2 \<Longrightarrow> length (record_bytes r) = OTA_META_RECORD_SIZE"
  by (simp add: record_bytes_def OTA_META_RECORD_SIZE_def)

lemma memcpy_record_bytes: "length (r_slotState r) = 2 \<Longrightarrow> memcpy_record (record_bytes r) = r"
proof -
  assume "length (r_slotState r) = 2"
  then obtain a b where "r_slotState r = [a, b]" using list_of_length_2 by blast
  then show ?thesis by (simp add: memcpy_record_def record_bytes_def le32_def field32_def)
qed

end
