(* ===== verification/Internal_Flash.thy ===== *)
theory Internal_Flash
  imports Ota_Image
begin

text \<open>
  The flash map of the update system and the driver of the embedded flash
  (\<^verbatim>\<open>components/platform/src/stm32/include/platform_stm32/ota_slots.hpp\<close>,
  \<^verbatim>\<open>components/platform/src/stm32/internal_flash.cpp\<close>).

  The program/erase controller is silicon, not source: it is the parameter \<open>flash_ctl\<close>, three
  functions for the three register sequences the driver runs (poll and unlock, start a sector
  erase, store one word), each of which may change a hidden state of the controller and may fail.
  What the driver relies on is the locale \<open>flash_controller\<close>: an erase stays inside its sector and a
  word store inside its word (RM0090 section 3.6). Nothing else is assumed of it, because the driver
  reads back what it wrote. The locale \<open>working_flash\<close> adds what a sound part does: an erase and a
  store onto erased cells take effect. Both are interpreted on a NOR array whose operations fail
  according to an arbitrary script.

  The lemmas show that the sectors, the metadata areas and the slots are where the constants say and
  do not overlap, that a successful erase or program has exactly its effect and that a failed one
  stays inside its range.
\<close>


section \<open>The flash map\<close>

definition INTERNAL_FLASH_BASE :: u32 where "INTERNAL_FLASH_BASE = 0x08000000"
definition FLASH_SECTOR_COUNT :: u8 where "FLASH_SECTOR_COUNT = 12"
definition BOOTLOADER_SIZE :: u32 where "BOOTLOADER_SIZE = 32 * 1024"
definition OTA_SLOT_SIZE :: u32 where "OTA_SLOT_SIZE = 384 * 1024"
definition OTA_SLOT_SECTOR_COUNT :: u8 where "OTA_SLOT_SECTOR_COUNT = 3"
definition OTA_SLOT_A_BASE :: u32 where "OTA_SLOT_A_BASE = 0x08020000"
definition OTA_SLOT_B_BASE :: u32 where "OTA_SLOT_B_BASE = 0x08080000"
definition OTA_SLOT_A_FIRST_SECTOR :: u8 where "OTA_SLOT_A_FIRST_SECTOR = 5"
definition OTA_SLOT_B_FIRST_SECTOR :: u8 where "OTA_SLOT_B_FIRST_SECTOR = 8"
definition OTA_META_AREA_SIZE :: u32 where "OTA_META_AREA_SIZE = 16 * 1024"
definition OTA_META_AREA_COUNT :: u8 where "OTA_META_AREA_COUNT = 2"
definition OTA_META_AREA_0_SECTOR :: u8 where "OTA_META_AREA_0_SECTOR = 2"
definition OTA_META_AREA_1_SECTOR :: u8 where "OTA_META_AREA_1_SECTOR = 3"
definition OTA_META_AREA_0_BASE :: u32 where "OTA_META_AREA_0_BASE = 0x08008000"
definition OTA_META_AREA_1_BASE :: u32 where "OTA_META_AREA_1_BASE = 0x0800C000"

definition otaSlotBase :: "u8 \<Rightarrow> u32" where
  "otaSlotBase slot = (if slot = OTA_SLOT_B then OTA_SLOT_B_BASE else OTA_SLOT_A_BASE)"

definition otaSlotFirstSector :: "u8 \<Rightarrow> u8" where
  "otaSlotFirstSector slot = (if slot = OTA_SLOT_B then OTA_SLOT_B_FIRST_SECTOR else OTA_SLOT_A_FIRST_SECTOR)"

definition otaOtherSlot :: "u8 \<Rightarrow> u8" where
  "otaOtherSlot slot = (if slot = OTA_SLOT_A then OTA_SLOT_B else OTA_SLOT_A)"

definition otaMetaAreaSector :: "u8 \<Rightarrow> u8" where
  "otaMetaAreaSector area = (if area = 0 then OTA_META_AREA_0_SECTOR else OTA_META_AREA_1_SECTOR)"

definition otaMetaAreaBase :: "u8 \<Rightarrow> u32" where
  "otaMetaAreaBase area = (if area = 0 then OTA_META_AREA_0_BASE else OTA_META_AREA_1_BASE)"

lemmas flash_map_defs = INTERNAL_FLASH_BASE_def FLASH_SECTOR_COUNT_def BOOTLOADER_SIZE_def OTA_SLOT_SIZE_def
  OTA_SLOT_SECTOR_COUNT_def OTA_SLOT_A_BASE_def OTA_SLOT_B_BASE_def OTA_SLOT_A_FIRST_SECTOR_def
  OTA_SLOT_B_FIRST_SECTOR_def OTA_META_AREA_SIZE_def OTA_META_AREA_COUNT_def OTA_META_AREA_0_SECTOR_def
  OTA_META_AREA_1_SECTOR_def OTA_META_AREA_0_BASE_def OTA_META_AREA_1_BASE_def OTA_SLOT_A_def OTA_SLOT_B_def
  otaSlotBase_def otaSlotFirstSector_def otaOtherSlot_def otaMetaAreaSector_def otaMetaAreaBase_def


section \<open>The driver\<close>

definition SECTOR_SMALL_SIZE :: u32 where "SECTOR_SMALL_SIZE = 16 * 1024"
definition SECTOR_MEDIUM_SIZE :: u32 where "SECTOR_MEDIUM_SIZE = 64 * 1024"
definition SECTOR_LARGE_SIZE :: u32 where "SECTOR_LARGE_SIZE = 128 * 1024"
definition SECTOR_SMALL_COUNT :: u8 where "SECTOR_SMALL_COUNT = 4"
definition SECTOR_MEDIUM_INDEX :: u8 where "SECTOR_MEDIUM_INDEX = 4"
definition SECTOR_LARGE_FIRST :: u8 where "SECTOR_LARGE_FIRST = 5"
definition SECTOR_LARGE_FIRST_BASE :: u32 where "SECTOR_LARGE_FIRST_BASE = 0x08020000"

definition SectorBase :: "u8 \<Rightarrow> u32" where
  "SectorBase sector =
     (if sector < SECTOR_SMALL_COUNT then INTERNAL_FLASH_BASE + ucast sector * SECTOR_SMALL_SIZE
      else if sector = SECTOR_MEDIUM_INDEX
      then INTERNAL_FLASH_BASE + ucast SECTOR_SMALL_COUNT * SECTOR_SMALL_SIZE
      else if sector < FLASH_SECTOR_COUNT
      then SECTOR_LARGE_FIRST_BASE + ucast (sector - SECTOR_LARGE_FIRST) * SECTOR_LARGE_SIZE
      else INTERNAL_FLASH_BASE)"

definition SectorSize :: "u8 \<Rightarrow> u32" where
  "SectorSize sector =
     (if sector < SECTOR_SMALL_COUNT then SECTOR_SMALL_SIZE
      else if sector = SECTOR_MEDIUM_INDEX then SECTOR_MEDIUM_SIZE
      else if sector < FLASH_SECTOR_COUNT then SECTOR_LARGE_SIZE
      else 0)"

lemmas sector_defs = SectorBase_def SectorSize_def SECTOR_SMALL_SIZE_def SECTOR_MEDIUM_SIZE_def
  SECTOR_LARGE_SIZE_def SECTOR_SMALL_COUNT_def SECTOR_MEDIUM_INDEX_def SECTOR_LARGE_FIRST_def
  SECTOR_LARGE_FIRST_BASE_def INTERNAL_FLASH_BASE_def FLASH_SECTOR_COUNT_def

text \<open>The memory the core reads, and the hidden state of the controller.\<close>

record 'h flash =
  cells :: "u32 \<Rightarrow> u8"
  hw :: 'h

text \<open>The register sequences of the driver: \<open>ctl_ready\<close> is \<^verbatim>\<open>waitNotBusy() && unlock()\<close>,
  \<open>ctl_erase\<close> the sequence from the status clear to \<^verbatim>\<open>lock()\<close> with the sector number in SNB and
  STRT set, \<open>ctl_write\<close> the store to the memory-mapped cell followed by the wait. Their flag is
  \<^verbatim>\<open>idle && operationSucceeded()\<close>.\<close>

record 'h flash_ctl =
  ctl_ready :: "'h \<Rightarrow> 'h \<times> bool"
  ctl_erase :: "u8 \<Rightarrow> 'h flash \<Rightarrow> 'h flash \<times> bool"
  ctl_write :: "u32 \<Rightarrow> u32 \<Rightarrow> 'h flash \<Rightarrow> 'h flash \<times> bool"

definition InternalFlash_Read :: "u32 \<Rightarrow> nat \<Rightarrow> 'h flash \<Rightarrow> bytes" where
  "InternalFlash_Read address n f = map (\<lambda>i. cells f (address + of_nat i)) [0..<n]"

definition InternalFlash_IsErased :: "u32 \<Rightarrow> nat \<Rightarrow> 'h flash \<Rightarrow> bool" where
  "InternalFlash_IsErased address n f = list_all (\<lambda>b. b = 0xFF) (InternalFlash_Read address n f)"

definition wait_unlock :: "'h flash_ctl \<Rightarrow> 'h flash \<Rightarrow> 'h flash \<times> bool" where
  "wait_unlock ctl f = (let (h, ok) = ctl_ready ctl (hw f) in (f\<lparr> hw := h \<rparr>, ok))"

definition InternalFlash_eraseSector :: "'h flash_ctl \<Rightarrow> u8 \<Rightarrow> 'h flash \<Rightarrow> 'h flash \<times> bool" where
  "InternalFlash_eraseSector ctl sector f =
     (if FLASH_SECTOR_COUNT \<le> sector then (f, False)
      else let (f, ready) = wait_unlock ctl f in
        if \<not> ready then (f, False)
        else let (f, ok) = ctl_erase ctl sector f in
          (f, ok \<and> InternalFlash_IsErased (SectorBase sector) (unat (SectorSize sector)) f))"

text \<open>The word \<^verbatim>\<open>program\<close> assembles from the at most four bytes left, and the memory-mapped word it
  reads back.\<close>

definition put_byte :: "u32 \<Rightarrow> nat \<times> u8 \<Rightarrow> u32" where
  "put_byte word = (\<lambda>(i, b). (word AND NOT (push_bit (8 * i) 0xFF)) OR push_bit (8 * i) (ucast b))"

definition pack_word :: "bytes \<Rightarrow> u32" where
  "pack_word chunk = foldl put_byte 0xFFFFFFFF (enumerate 0 chunk)"

definition cell_word :: "u32 \<Rightarrow> 'h flash \<Rightarrow> u32" where
  "cell_word a f = rd32 (cells f a) (cells f (a + 1)) (cells f (a + 2)) (cells f (a + 3))"

text \<open>One word: store it, wait, and compare what the cell reads.\<close>

definition write_word :: "'h flash_ctl \<Rightarrow> u32 \<Rightarrow> u32 \<Rightarrow> 'h flash \<Rightarrow> 'h flash \<times> bool" where
  "write_word ctl a word f = (let (f, ok) = ctl_write ctl a word f in (f, ok \<and> cell_word a f = word))"

text \<open>The word loop of \<^verbatim>\<open>program\<close>, from the bytes still to write.\<close>

function program_words :: "'h flash_ctl \<Rightarrow> u32 \<Rightarrow> bytes \<Rightarrow> 'h flash \<Rightarrow> 'h flash \<times> bool" where
  "program_words ctl a data f =
     (if data = [] then (f, True)
      else let (f, ok) = write_word ctl a (pack_word (take 4 data)) f in
        if ok then program_words ctl (a + 4) (drop 4 data) f else (f, False))"
  by auto
termination by (relation "measure (\<lambda>(ctl, a, data, f). length data)") auto

declare program_words.simps [simp del]

definition InternalFlash_program :: "'h flash_ctl \<Rightarrow> u32 \<Rightarrow> bytes \<Rightarrow> 'h flash \<Rightarrow> 'h flash \<times> bool" where
  "InternalFlash_program ctl address data f =
     (if address mod 4 \<noteq> 0 then (f, False)
      else if data = [] then (f, True)
      else let (f, ready) = wait_unlock ctl f in
        if \<not> ready then (f, False) else program_words ctl address data f)"


section \<open>Ranges of addresses\<close>

definition in_range :: "u32 \<Rightarrow> nat \<Rightarrow> u32 \<Rightarrow> bool" where
  "in_range base n x \<longleftrightarrow> unat base \<le> unat x \<and> unat x < unat base + n"

definition in_sector :: "u8 \<Rightarrow> u32 \<Rightarrow> bool" where
  "in_sector s = in_range (SectorBase s) (unat (SectorSize s))"

lemma unat_offset: "unat (base :: u32) + n \<le> 2 ^ 32 \<Longrightarrow> i < n \<Longrightarrow> unat (base + of_nat i) = unat base + i"
  by (rule unat_plus_of_nat) simp

lemma in_range_offset:
  "unat base + n \<le> 2 ^ 32 \<Longrightarrow> in_range base n x \<longleftrightarrow> (\<exists>i < n. x = base + of_nat i)"
proof
  assume "in_range base n x"
  then obtain i where i: "i < n" "unat x = unat base + i"
    unfolding in_range_def by (metis le_add_diff_inverse less_diff_conv2 add.commute nat_add_left_cancel_less)
  then have "x = base + of_nat i"
    by (metis of_nat_add of_nat_unat ucast_id)
  with i show "\<exists>i < n. x = base + of_nat i" by blast
qed (auto simp: in_range_def unat_offset)

lemma length_Read [simp]: "length (InternalFlash_Read a n f) = n"
  by (simp add: InternalFlash_Read_def)

lemma Read_eqI:
  "(\<And>i. i < n \<Longrightarrow> cells f (a + of_nat i) = cells g (a + of_nat i)) \<Longrightarrow>
     InternalFlash_Read a n f = InternalFlash_Read a n g"
  by (simp add: InternalFlash_Read_def)

lemma Read_append:
  "InternalFlash_Read a (m + n) f = InternalFlash_Read a m f @ InternalFlash_Read (a + of_nat m) n f"
proof -
  have "[0..<m + n] = [0..<m] @ map (\<lambda>i. m + i) [0..<n]"
    using map_add_upt [of m n] by (simp add: upt_add_eq_append [of 0 m n] add.commute)
  then show ?thesis by (simp add: InternalFlash_Read_def comp_def add.assoc)
qed

lemma take_Read: "m \<le> n \<Longrightarrow> take m (InternalFlash_Read a n f) = InternalFlash_Read a m f"
  by (simp add: InternalFlash_Read_def take_map)

lemma drop_Read: "m \<le> n \<Longrightarrow> drop m (InternalFlash_Read a n f) = InternalFlash_Read (a + of_nat m) (n - m) f"
  using Read_append [of a m "n - m" f] by simp

lemma IsErased_iff:
  "InternalFlash_IsErased a n f \<longleftrightarrow> InternalFlash_Read a n f = replicate n 0xFF"
  by (auto simp: InternalFlash_IsErased_def list_all_iff list_eq_iff_nth_eq all_set_conv_all_nth)


section \<open>Words\<close>

definition pad4 :: "bytes \<Rightarrow> bytes" where
  "pad4 chunk = take 4 (chunk @ replicate 4 0xFF)"

lemma bit_put_byte:
  "i < 4 \<Longrightarrow> n < 32 \<Longrightarrow>
     bit (put_byte w (i, b)) n \<longleftrightarrow> (if 8 * i \<le> n \<and> n < 8 * i + 8 then bit b (n - 8 * i) else bit w n)"
proof -
  assume i: "i < 4" "n < 32"
  have m: "(0xFF :: u32) = mask 8" by (simp add: mask_eq_exp_minus_1)
  show ?thesis using i
    unfolding put_byte_def prod.case m
    by (auto simp only: bit_or_iff bit_and_iff bit_not_iff bit_push_bit_iff bit_mask_iff bit_ucast_iff
        possible_bit_word len_num0 len_num1 len_bit0 len_bit1 len_num1)
       (auto dest: bit_imp_le_length split: if_splits)
qed

lemma bit_ones: "bit (0xFFFFFFFF :: u32) n \<longleftrightarrow> n < 32" "bit (0xFF :: u8) n \<longleftrightarrow> n < 8"
proof -
  have m: "(0xFFFFFFFF :: u32) = mask 32" "(0xFF :: u8) = mask 8" by (simp_all add: mask_eq_exp_minus_1)
  show "bit (0xFFFFFFFF :: u32) n \<longleftrightarrow> n < 32" "bit (0xFF :: u8) n \<longleftrightarrow> n < 8"
    unfolding m bit_mask_iff by auto
qed

lemma pad4_simps [simp]:
  "pad4 [a] = [a, 0xFF, 0xFF, 0xFF]" "pad4 [a, b] = [a, b, 0xFF, 0xFF]"
  "pad4 [a, b, c] = [a, b, c, 0xFF]" "pad4 [a, b, c, d] = [a, b, c, d]"
  by (simp_all add: pad4_def numeral_eq_Suc)

lemma pack_word_pad4:
  assumes "chunk \<noteq> []" "length chunk \<le> 4"
  shows "pack_word chunk = rd32 (pad4 chunk ! 0) (pad4 chunk ! 1) (pad4 chunk ! 2) (pad4 chunk ! 3)"
proof -
  consider (1) a where "chunk = [a]" | (2) a b where "chunk = [a, b]" | (3) a b c where "chunk = [a, b, c]"
    | (4) a b c d where "chunk = [a, b, c, d]"
    using assms by (cases chunk; cases "tl chunk"; cases "tl (tl chunk)"; cases "tl (tl (tl chunk))") auto
  then show ?thesis
    by cases (simp_all only:, rule_tac [!] bit_word_eqI,
        auto simp: pack_word_def bit_put_byte bit_rd32 bit_ones simp del: bit_numeral_word_iff)
qed

lemma cell_word_bytes:
  "cell_word a f = rd32 w x y z \<longleftrightarrow>
     cells f a = w \<and> cells f (a + 1) = x \<and> cells f (a + 2) = y \<and> cells f (a + 3) = z"
  unfolding cell_word_def by (metis byte_at_rd32)



lemma below_12: "(s :: u8) < 12 \<Longrightarrow> s \<in> {0, 1, 2, 3, 4, 5, 6, 7, 8, 9, 10, 11}"
proof -
  assume "s < 12"
  then have "unat s < 12" by (simp add: word_less_nat_alt)
  then have "unat s \<in> set [0..<12]" by simp
  then have "unat s \<in> unat ` {0, 1, 2, 3, 4, 5, 6, 7, 8, 9, 10, 11 :: u8}" by (simp add: upt_rec) auto
  then show ?thesis by (auto simp: word_unat_eq_iff)
qed

lemma sector_fits: "unat (SectorBase s) + unat (SectorSize s) \<le> 2 ^ 32"
proof (cases "s < 12")
  case True
  then have "s \<in> {0, 1, 2, 3, 4, 5, 6, 7, 8, 9, 10, 11}" by (rule below_12)
  then show ?thesis by (auto simp: sector_defs)
next
  case False
  then show ?thesis by (auto simp: sector_defs word_less_nat_alt)
qed

lemma unat_mod_4: "(a :: u32) mod 4 = 0 \<Longrightarrow> unat a mod 4 = 0"
  using unat_mod [of a 4] by simp

lemma mod_4_unat: "unat (a :: u32) mod 4 = 0 \<Longrightarrow> a mod 4 = 0"
  using unat_mod [of a 4] by (simp add: unat_eq_zero)

lemma words_left: "4 < length data \<Longrightarrow> 4 * ((length data + 3) div 4) = 4 + 4 * ((length (drop 4 data) + 3) div 4)"
proof -
  assume "4 < length data"
  then have "length data + 3 = length (drop 4 data) + 3 + 4" by simp
  then show ?thesis
    by (simp only: div_add_self2 [of 4 "length (drop 4 data) + 3"] zero_neq_numeral not_False_eq_True) simp
qed

lemma next_word:
  assumes "unat (a :: u32) mod 4 = 0" "unat a + length data \<le> 2 ^ 32"
    "\<not> in_range a (4 * ((length data + 3) div 4)) x" "drop 4 data \<noteq> []"
  shows "unat (a + 4) mod 4 = 0" "unat (a + 4) + length (drop 4 data) \<le> 2 ^ 32"
    "\<not> in_range (a + 4) (4 * ((length (drop 4 data) + 3) div 4)) x" "unat (a + 4) = unat a + 4"
proof -
  have l: "4 < length data" using assms(4) by simp
  then show u: "unat (a + 4) = unat a + 4" using unat_plus_of_nat [of a 4] assms(2) by simp
  show "unat (a + 4) mod 4 = 0" "unat (a + 4) + length (drop 4 data) \<le> 2 ^ 32" using assms l u by auto
  have "4 * ((length data + 3) div 4) = 4 + 4 * ((length (drop 4 data) + 3) div 4)" using l by (rule words_left)
  then show "\<not> in_range (a + 4) (4 * ((length (drop 4 data) + 3) div 4)) x"
    using assms(3) unfolding in_range_def u by linarith
qed

lemma word_addrs:
  assumes "unat (a :: u32) mod 4 = 0"
  shows "unat (a + 1) = unat a + 1" "unat (a + 2) = unat a + 2" "unat (a + 3) = unat a + 3"
proof -
  have "unat a < 2 ^ 32" using unsigned_less [of a] by simp
  then have "unat a + 3 < 2 ^ 32" using assms by (simp, presburger)
  then show "unat (a + 1) = unat a + 1" "unat (a + 2) = unat a + 2" "unat (a + 3) = unat a + 3"
    using unat_plus_of_nat [of a 1] unat_plus_of_nat [of a 2] unat_plus_of_nat [of a 3] by simp_all
qed

lemma word_not_in:
  assumes "unat (a :: u32) mod 4 = 0" "unat a + length data \<le> 2 ^ 32"
    "\<not> in_range a (4 * ((length data + 3) div 4)) x" "data \<noteq> []"
  shows "x \<notin> {a, a + 1, a + 2, a + 3}"
proof -
  have "1 \<le> (length data + 3) div 4" using assms(4) by (cases data) auto
  then show ?thesis using assms(3) word_addrs [OF assms(1)] by (auto simp: in_range_def)
qed


lemma next_word_addr:
  assumes "unat (a :: u32) mod 4 = 0" "unat a + length data \<le> 2 ^ 32" "drop 4 data \<noteq> []"
  shows "unat (a + 4) = unat a + 4"
  using unat_plus_of_nat [of a 4] assms by simp

lemma write_word_written:
  assumes "chunk \<noteq> []" "length chunk \<le> 4" "snd (write_word ctl a (pack_word chunk) f)"
  shows "InternalFlash_Read a (length chunk) (fst (write_word ctl a (pack_word chunk) f)) = chunk"
proof -
  let ?f = "fst (write_word ctl a (pack_word chunk) f)"
  have "cell_word a ?f = pack_word chunk" using assms(3) by (simp add: write_word_def split_beta)
  then have c: "cells ?f a = pad4 chunk ! 0" "cells ?f (a + 1) = pad4 chunk ! 1"
    "cells ?f (a + 2) = pad4 chunk ! 2" "cells ?f (a + 3) = pad4 chunk ! 3"
    using assms(1,2) by (auto simp: pack_word_pad4 cell_word_bytes)
  have "cells ?f (a + of_nat i) = chunk ! i" if "i < length chunk" for i
  proof -
    have "pad4 chunk ! i = chunk ! i" using that assms(2) by (simp add: pad4_def nth_append)
    have "i \<in> {0, 1, 2, 3}" using that assms(2) by auto
    then consider "i = 0" | "i = 1" | "i = 2" | "i = 3" by blast
    then show ?thesis using c \<open>pad4 chunk ! i = chunk ! i\<close> by cases simp_all
  qed
  then show ?thesis by (intro nth_equalityI) (simp_all add: InternalFlash_Read_def)
qed


section \<open>What the driver relies on\<close>

locale flash_controller =
  fixes ctl :: "'h flash_ctl"
  assumes erase_frame: "\<not> in_sector s x \<Longrightarrow> cells (fst (ctl_erase ctl s f)) x = cells f x"
    and write_frame: "x \<notin> {a, a + 1, a + 2, a + 3} \<Longrightarrow> cells (fst (ctl_write ctl a w f)) x = cells f x"
begin

lemma write_word_frame: "x \<notin> {a, a + 1, a + 2, a + 3} \<Longrightarrow> cells (fst (write_word ctl a w f)) x = cells f x"
  by (simp add: write_word_def split_beta write_frame)

lemma eraseSector_frame:
  "\<not> in_sector s x \<Longrightarrow> cells (fst (InternalFlash_eraseSector ctl s f)) x = cells f x"
  by (simp add: InternalFlash_eraseSector_def wait_unlock_def Let_def split_beta erase_frame)

lemma eraseSector_erased:
  assumes "snd (InternalFlash_eraseSector ctl s f)" "in_sector s x"
  shows "cells (fst (InternalFlash_eraseSector ctl s f)) x = 0xFF"
proof -
  let ?f = "fst (InternalFlash_eraseSector ctl s f)"
  have e: "InternalFlash_IsErased (SectorBase s) (unat (SectorSize s)) ?f"
    using assms(1) by (auto simp: InternalFlash_eraseSector_def Let_def split_beta split: if_splits)
  have "unat (SectorBase s) + unat (SectorSize s) \<le> 2 ^ 32"
    by (rule sector_fits)
  then obtain i where "i < unat (SectorSize s)" "x = SectorBase s + of_nat i"
    using assms(2) by (auto simp: in_sector_def in_range_offset)
  then show ?thesis using e by (auto simp: InternalFlash_IsErased_def InternalFlash_Read_def list_all_iff)
qed

lemma program_words_frame:
  assumes "unat a mod 4 = 0" "unat a + length data \<le> 2 ^ 32" "\<not> in_range a (4 * ((length data + 3) div 4)) x"
  shows "cells (fst (program_words ctl a data f)) x = cells f x"
  using assms
proof (induction "length data" arbitrary: a data f rule: less_induct)
  case less
  show ?case
  proof (cases "data = []")
    case False
    let ?r = "write_word ctl a (pack_word (take 4 data)) f"
    have x: "x \<notin> {a, a + 1, a + 2, a + 3}" by (rule word_not_in [OF less.prems False])
    show ?thesis
    proof (cases "snd ?r \<and> drop 4 data \<noteq> []")
      case True
      have "cells (fst (program_words ctl (a + 4) (drop 4 data) (fst ?r))) x = cells (fst ?r) x"
        by (rule less.hyps) (use next_word [OF less.prems] True in auto)
      then show ?thesis using x True False
        by (subst program_words.simps) (simp add: split_beta write_word_frame)
    next
      case last: False
      then show ?thesis using x False
        by (subst program_words.simps) (auto simp: split_beta write_word_frame program_words.simps [of ctl _ "[]"])
    qed
  qed (simp add: program_words.simps)
qed

lemma program_words_written:
  assumes "unat a mod 4 = 0" "unat a + length data \<le> 2 ^ 32" "snd (program_words ctl a data f)"
  shows "InternalFlash_Read a (length data) (fst (program_words ctl a data f)) = data"
  using assms
proof (induction "length data" arbitrary: a data f rule: less_induct)
  case less
  show ?case
  proof (cases "data = []")
    case False
    let ?w = "fst (write_word ctl a (pack_word (take 4 data)) f)"
    let ?f = "fst (program_words ctl (a + 4) (drop 4 data) ?w)"
    have ok: "snd (write_word ctl a (pack_word (take 4 data)) f)" "snd (program_words ctl (a + 4) (drop 4 data) ?w)"
      and eq: "program_words ctl a data f = program_words ctl (a + 4) (drop 4 data) ?w"
      using less.prems(3) False by (auto simp: program_words.simps [of ctl a data f] split_beta split: if_splits)
    have first: "InternalFlash_Read a (length (take 4 data)) ?w = take 4 data"
      by (rule write_word_written [OF _ _ ok(1)]) (use False in auto)
    show ?thesis
    proof (cases "drop 4 data = []")
      case True
      then show ?thesis using first False unfolding eq by (simp add: program_words.simps)
    next
      case more: False
      have u: "unat (a + 4) = unat a + 4" by (rule next_word_addr [OF less.prems(1,2) more])
      have l: "4 < length data" using more by simp
      have fit: "unat (a + 4) mod 4 = 0" "unat (a + 4) + length (drop 4 data) \<le> 2 ^ 32"
        using u l less.prems(1,2) by auto
      have "InternalFlash_Read a 4 ?f = InternalFlash_Read a 4 ?w"
      proof (rule Read_eqI)
        fix i :: nat assume "i < 4"
        then have "unat (a + of_nat i) = unat a + i"
          using l less.prems(2) by (intro unat_plus_of_nat) simp
        then show "cells ?f (a + of_nat i) = cells ?w (a + of_nat i)"
          using \<open>i < 4\<close> by (intro program_words_frame [OF fit]) (simp add: in_range_def u)
      qed
      moreover have "InternalFlash_Read (a + 4) (length (drop 4 data)) ?f = drop 4 data"
        by (rule less.hyps [OF _ fit ok(2)]) (use l in simp)
      moreover have "InternalFlash_Read a (length data) ?f =
          InternalFlash_Read a 4 ?f @ InternalFlash_Read (a + 4) (length (drop 4 data)) ?f"
        using Read_append [of a 4 "length (drop 4 data)" ?f] l by simp
      moreover have "InternalFlash_Read a 4 ?w = take 4 data" using first l by simp
      ultimately show ?thesis unfolding eq by (simp only: append_take_drop_id)
    qed
  qed (simp add: program_words.simps InternalFlash_Read_def)
qed

lemma program_frame:
  assumes "unat a + length data \<le> 2 ^ 32" "\<not> in_range a (4 * ((length data + 3) div 4)) x"
  shows "cells (fst (InternalFlash_program ctl a data f)) x = cells f x"
proof (cases "a mod 4 = 0")
  case True
  then have "unat a mod 4 = 0" by (rule unat_mod_4)
  then show ?thesis using assms
    by (simp add: InternalFlash_program_def wait_unlock_def Let_def split_beta program_words_frame)
qed (simp add: InternalFlash_program_def)

lemma program_written:
  assumes "unat a + length data \<le> 2 ^ 32" "snd (InternalFlash_program ctl a data f)"
  shows "InternalFlash_Read a (length data) (fst (InternalFlash_program ctl a data f)) = data"
proof -
  have "a mod 4 = 0" using assms(2) by (auto simp: InternalFlash_program_def split: if_splits)
  then have u: "unat a mod 4 = 0" by (rule unat_mod_4)
  show ?thesis
    using assms(2) program_words_written [OF u assms(1)]
    by (auto simp: InternalFlash_program_def Let_def split_beta InternalFlash_Read_def split: if_splits)
qed

end

text \<open>A part that works: the controller is released when asked, an erase erases and a store onto an
  erased word takes.\<close>

locale working_flash = flash_controller +
  assumes ready_ok: "snd (ctl_ready ctl h)"
    and erase_ok: "s < FLASH_SECTOR_COUNT \<Longrightarrow> snd (ctl_erase ctl s f)"
    and erase_cells: "s < FLASH_SECTOR_COUNT \<Longrightarrow> in_sector s x \<Longrightarrow> cells (fst (ctl_erase ctl s f)) x = 0xFF"
    and write_ok: "a mod 4 = 0 \<Longrightarrow> cell_word a f = 0xFFFFFFFF \<Longrightarrow>
      snd (ctl_write ctl a w f) \<and> cell_word a (fst (ctl_write ctl a w f)) = w"
begin

lemma eraseSector_ok: "s < FLASH_SECTOR_COUNT \<Longrightarrow> snd (InternalFlash_eraseSector ctl s f)"
proof -
  assume s: "s < FLASH_SECTOR_COUNT"
  have "InternalFlash_IsErased (SectorBase s) (unat (SectorSize s)) (fst (ctl_erase ctl s g))" for g
    unfolding InternalFlash_IsErased_def InternalFlash_Read_def list_all_iff
    by (auto intro!: erase_cells [OF s] simp: in_sector_def in_range_offset [OF sector_fits])
  then show ?thesis using s
    by (auto simp: InternalFlash_eraseSector_def wait_unlock_def Let_def split_beta erase_ok ready_ok)
qed

lemma program_words_ok:
  assumes "unat a mod 4 = 0" "unat a + 4 * ((length data + 3) div 4) \<le> 2 ^ 32"
    "\<And>x. in_range a (4 * ((length data + 3) div 4)) x \<Longrightarrow> cells f x = 0xFF"
  shows "snd (program_words ctl a data f)"
  using assms
proof (induction "length data" arbitrary: a data f rule: less_induct)
  case less
  show ?case
  proof (cases "data = []")
    case False
    let ?r = "write_word ctl a (pack_word (take 4 data)) f"
    have "1 \<le> (length data + 3) div 4" using False by (cases data) auto
    then have "cell_word a f = rd32 0xFF 0xFF 0xFF 0xFF"
      using less.prems(3) word_addrs [OF less.prems(1)] by (simp add: cell_word_bytes in_range_def)
    then have c: "cell_word a f = 0xFFFFFFFF" by (simp add: rd32_def)
    have ok: "snd ?r" using write_ok [OF mod_4_unat [OF less.prems(1)] c] by (simp add: write_word_def split_beta)
    show ?thesis
    proof (cases "drop 4 data = []")
      case True
      then show ?thesis using ok False
        by (auto simp: program_words.simps [of ctl a] program_words.simps [of ctl _ "[]"] split_beta)
    next
      case more: False
      have l: "4 < length data" using more by simp
      then have n: "4 * ((length data + 3) div 4) = 4 + 4 * ((length (drop 4 data) + 3) div 4)"
        by (rule words_left)
      have u: "unat (a + 4) = unat a + 4" using unat_plus_of_nat [of a 4] less.prems(2) n l by simp
      have "snd (program_words ctl (a + 4) (drop 4 data) (fst ?r))"
      proof (rule less.hyps)
        fix x assume x: "in_range (a + 4) (4 * ((length (drop 4 data) + 3) div 4)) x"
        then have "x \<notin> {a, a + 1, a + 2, a + 3}"
          using word_addrs [OF less.prems(1)] u by (auto simp: in_range_def)
        then have "cells (fst ?r) x = cells f x" by (rule write_word_frame)
        then show "cells (fst ?r) x = 0xFF" using less.prems(3) x n u by (simp add: in_range_def)
      qed (use l n u less.prems in auto)
      then show ?thesis using ok False by (simp add: program_words.simps [of ctl a] split_beta)
    qed
  qed (simp add: program_words.simps)
qed

lemma program_ok:
  assumes "unat a mod 4 = 0" "unat a + 4 * ((length data + 3) div 4) \<le> 2 ^ 32"
    "\<And>x. in_range a (4 * ((length data + 3) div 4)) x \<Longrightarrow> cells f x = 0xFF"
  shows "snd (InternalFlash_program ctl a data f)"
proof -
  have "snd (program_words ctl a data (f\<lparr> hw := h \<rparr>))" for h
    by (rule program_words_ok [OF assms(1,2)]) (use assms(3) in simp)
  then show ?thesis using mod_4_unat [OF assms(1)]
    by (simp add: InternalFlash_program_def wait_unlock_def Let_def split_beta ready_ok)
qed

end


section \<open>A NOR array\<close>

text \<open>A memory of NOR cells: an erase sets the bits of a sector, a store clears bits of a word, and
  the \<open>n\<close>th operation fails, leaving the memory alone, when the script says so. The hidden state
  counts the operations.\<close>

definition nor_ctl :: "(nat \<Rightarrow> bool) \<Rightarrow> nat flash_ctl" where
  "nor_ctl fails = \<lparr>
     ctl_ready = (\<lambda>n. (n, True)),
     ctl_erase = (\<lambda>s f. (f\<lparr> hw := hw f + 1,
        cells := if fails (hw f) then cells f else (\<lambda>x. if in_sector s x then 0xFF else cells f x) \<rparr>,
        \<not> fails (hw f))),
     ctl_write = (\<lambda>a w f. (f\<lparr> hw := hw f + 1,
        cells := if fails (hw f) then cells f else (cells f)
          (a := cells f a AND byte_at w 0, a + 1 := cells f (a + 1) AND byte_at w 8,
           a + 2 := cells f (a + 2) AND byte_at w 16, a + 3 := cells f (a + 3) AND byte_at w 24) \<rparr>,
        \<not> fails (hw f))) \<rparr>"

interpretation nor: flash_controller "nor_ctl fails" for fails
  by unfold_locales (simp_all add: nor_ctl_def)

lemma and_ones8: "(0xFF :: u8) AND w = w" "w AND (0xFF :: u8) = w"
proof -
  show "(0xFF :: u8) AND w = w" "w AND (0xFF :: u8) = w"
    by (rule bit_word_eqI, simp add: bit_and_iff bit_ones del: bit_numeral_word_iff)+
qed

interpretation wnor: working_flash "nor_ctl (\<lambda>_. False)"
proof unfold_locales
  fix a :: u32 and f :: "nat flash" and w :: u32
  assume a: "a mod 4 = 0" and c: "cell_word a f = 0xFFFFFFFF"
  have "0xFFFFFFFF = rd32 0xFF 0xFF 0xFF 0xFF" by (simp add: rd32_def)
  with c have ff: "cells f a = 0xFF" "cells f (a + 1) = 0xFF" "cells f (a + 2) = 0xFF" "cells f (a + 3) = 0xFF"
    by (simp_all only: cell_word_bytes)
  have d: "a \<noteq> a + 1" "a \<noteq> a + 2" "a \<noteq> a + 3" "a + 1 \<noteq> a + 2" "a + 1 \<noteq> a + 3" "a + 2 \<noteq> a + 3" by simp_all
  show "snd (ctl_write (nor_ctl (\<lambda>_. False)) a w f) \<and> cell_word a (fst (ctl_write (nor_ctl (\<lambda>_. False)) a w f)) = w"
    using d by (simp add: nor_ctl_def cell_word_def ff and_ones8)
qed (simp_all add: nor_ctl_def)

end
