(* ===== verification/Crc32_Mpeg2.thy ===== *)
theory Crc32_Mpeg2
  imports Prelude
begin

text \<open>
  The checksum of the update system (\<^verbatim>\<open>components/ota/include/ota/crc32_mpeg2.hpp\<close>): a streaming
  CRC-32/MPEG-2 that gathers bytes into 32-bit words, least significant byte first, and pads the
  tail with \<open>0xFF\<close>. The class is the record \<open>crc32\<close>, one definition per member function.

  The reference is the checksum of a list of words, \<open>crc_words\<close>: it is what the hardware unit of
  the F405 computes. The lemmas show that the streaming class computes it however the bytes are
  cut into calls, and that it distinguishes any two contents that differ in a single word.
\<close>


section \<open>The class\<close>

definition POLYNOMIAL :: u32 where "POLYNOMIAL = 0x04C11DB7"
definition TOP_BIT :: u32 where "TOP_BIT = 0x80000000"
definition BITS_PER_BYTE :: nat where "BITS_PER_BYTE = 8"
definition BITS_PER_WORD :: nat where "BITS_PER_WORD = 32"
definition BYTES_PER_WORD :: nat where "BYTES_PER_WORD = 4"

record crc32 =
  m_crc :: u32
  m_word :: u32
  m_pending :: nat

definition Crc32Mpeg2_init :: crc32 where
  "Crc32Mpeg2_init = \<lparr> m_crc = 0xFFFFFFFF, m_word = 0, m_pending = 0 \<rparr>"

text \<open>One round of the bit loop of \<^verbatim>\<open>consumeWord\<close>.\<close>

definition crc_round :: "u32 \<Rightarrow> u32" where
  "crc_round crc =
     (if crc AND TOP_BIT \<noteq> 0 then push_bit 1 crc XOR POLYNOMIAL else push_bit 1 crc)"

definition consumeWord :: "crc32 \<Rightarrow> crc32" where
  "consumeWord c = c\<lparr> m_crc := (crc_round ^^ BITS_PER_WORD) (m_crc c XOR m_word c), m_word := 0, m_pending := 0 \<rparr>"

text \<open>The body of the loop of \<^verbatim>\<open>update\<close>, then the loop.\<close>

definition update_byte :: "crc32 \<Rightarrow> u8 \<Rightarrow> crc32" where
  "update_byte c b =
     (let c' = c\<lparr> m_word := m_word c OR push_bit (BITS_PER_BYTE * m_pending c) (ucast b),
                  m_pending := m_pending c + 1 \<rparr>
      in if m_pending c' = BYTES_PER_WORD then consumeWord c' else c')"

definition Crc32Mpeg2_update :: "crc32 \<Rightarrow> bytes \<Rightarrow> crc32" where
  "Crc32Mpeg2_update c data = foldl update_byte c data"

text \<open>The padding loop. It ends because \<^verbatim>\<open>m_pending\<close> is 0 to 3 in every object the class can
  make (\<open>crc_ok\<close> below); the guard on \<open>BYTES_PER_WORD\<close> is never true of such an object, as
  \<open>finish_loop\<close> shows.\<close>

function Crc32Mpeg2_finish :: "crc32 \<Rightarrow> u32" where
  "Crc32Mpeg2_finish c =
     (if m_pending c = 0 \<or> BYTES_PER_WORD \<le> m_pending c then m_crc c
      else Crc32Mpeg2_finish (Crc32Mpeg2_update c [0xFF]))"
  by auto
termination
  by (relation "measure (\<lambda>c. if m_pending c = 0 then 0 else 4 - m_pending c)")
     (auto simp: Crc32Mpeg2_update_def update_byte_def BYTES_PER_WORD_def Let_def consumeWord_def)

declare Crc32Mpeg2_finish.simps [simp del]

definition crc32Mpeg2 :: "bytes \<Rightarrow> u32" where
  "crc32Mpeg2 data = Crc32Mpeg2_finish (Crc32Mpeg2_update Crc32Mpeg2_init data)"


section \<open>The object invariant\<close>

definition crc_ok :: "crc32 \<Rightarrow> bool" where
  "crc_ok c \<longleftrightarrow> m_pending c < BYTES_PER_WORD"

lemma crc_ok_init [inv_intros, simp]: "crc_ok Crc32Mpeg2_init"
  by (simp add: crc_ok_def Crc32Mpeg2_init_def BYTES_PER_WORD_def)

lemma crc_ok_byte [inv_intros]: "crc_ok c \<Longrightarrow> crc_ok (update_byte c b)"
  by (auto simp: crc_ok_def update_byte_def consumeWord_def Let_def BYTES_PER_WORD_def)

lemma crc_ok_update [inv_intros]: "crc_ok c \<Longrightarrow> crc_ok (Crc32Mpeg2_update c data)"
  unfolding Crc32Mpeg2_update_def by (induction data arbitrary: c) (auto intro: crc_ok_byte)

lemma finish_loop:
  "crc_ok c \<Longrightarrow> Crc32Mpeg2_finish c =
     (if m_pending c \<noteq> 0 then Crc32Mpeg2_finish (Crc32Mpeg2_update c [0xFF]) else m_crc c)"
  by (subst Crc32Mpeg2_finish.simps) (auto simp: crc_ok_def)

lemma update_append: "Crc32Mpeg2_update c (xs @ ys) = Crc32Mpeg2_update (Crc32Mpeg2_update c xs) ys"
  by (simp add: Crc32Mpeg2_update_def)

lemma update_blocks: "foldl Crc32Mpeg2_update c blocks = Crc32Mpeg2_update c (concat blocks)"
  by (induction blocks arbitrary: c) (simp_all add: update_append, simp add: Crc32Mpeg2_update_def)


section \<open>The reference: a checksum of words\<close>

fun le_words :: "bytes \<Rightarrow> u32 list" where
  "le_words (a # b # c # d # rest) = rd32 a b c d # le_words rest"
| "le_words _ = []"

definition crc_step :: "u32 \<Rightarrow> u32 \<Rightarrow> u32" where
  "crc_step crc w = (crc_round ^^ 32) (crc XOR w)"

definition crc_words :: "u32 list \<Rightarrow> u32" where
  "crc_words ws = foldl crc_step 0xFFFFFFFF ws"

definition pad_word :: "bytes \<Rightarrow> bytes" where
  "pad_word data = data @ replicate ((4 - length data mod 4) mod 4) 0xFF"

lemma update_word:
  assumes "m_pending c = 0" "m_word c = 0"
  shows "Crc32Mpeg2_update c [x0, x1, x2, x3] = c\<lparr> m_crc := crc_step (m_crc c) (rd32 x0 x1 x2 x3) \<rparr>"
  using assms
  by (simp add: Crc32Mpeg2_update_def update_byte_def consumeWord_def crc_step_def rd32_def Let_def
      BYTES_PER_WORD_def BITS_PER_BYTE_def BITS_PER_WORD_def or.assoc)

lemma update_words:
  assumes "m_pending c = 0" "m_word c = 0" "length data mod 4 = 0"
  shows "Crc32Mpeg2_update c data = c\<lparr> m_crc := foldl crc_step (m_crc c) (le_words data) \<rparr>"
  using assms
proof (induction data arbitrary: c rule: le_words.induct)
  case (1 x0 x1 x2 x3 rest)
  have "Crc32Mpeg2_update c (x0 # x1 # x2 # x3 # rest) =
        Crc32Mpeg2_update (Crc32Mpeg2_update c [x0, x1, x2, x3]) rest"
    using update_append [of c "[x0, x1, x2, x3]" rest] by simp
  then show ?case using "1.IH" [of "c\<lparr> m_crc := crc_step (m_crc c) (rd32 x0 x1 x2 x3) \<rparr>"] "1.prems"
    by (simp add: update_word)
qed (simp_all add: Crc32Mpeg2_update_def)

lemma pending_update:
  "crc_ok c \<Longrightarrow> m_pending (Crc32Mpeg2_update c data) = (m_pending c + length data) mod 4"
proof (induction data arbitrary: c)
  case Nil
  then show ?case by (simp add: Crc32Mpeg2_update_def crc_ok_def BYTES_PER_WORD_def)
next
  case (Cons b data)
  have "m_pending (update_byte c b) = (m_pending c + 1) mod 4"
    using Cons.prems by (auto simp: update_byte_def consumeWord_def Let_def crc_ok_def BYTES_PER_WORD_def)
  then show ?case using Cons.IH [OF crc_ok_byte [OF Cons.prems]]
    by (simp add: Crc32Mpeg2_update_def mod_simps add.commute)
qed

text \<open>Finishing is consuming the padding.\<close>

lemma finish_pads:
  "crc_ok c \<Longrightarrow> Crc32Mpeg2_finish c = m_crc (Crc32Mpeg2_update c (replicate ((4 - m_pending c) mod 4) 0xFF))"
proof (induction c rule: Crc32Mpeg2_finish.induct)
  case (1 c)
  show ?case
  proof (cases "m_pending c = 0")
    case True
    then show ?thesis by (subst finish_loop [OF "1.prems"]) (simp add: Crc32Mpeg2_update_def)
  next
    case False
    let ?c = "Crc32Mpeg2_update c [0xFF]"
    have lt: "m_pending c < 4" using "1.prems" by (simp add: crc_ok_def BYTES_PER_WORD_def)
    have p: "m_pending ?c = (m_pending c + 1) mod 4" using pending_update [OF "1.prems"] by simp
    have n: "(4 - m_pending c) mod 4 = Suc ((4 - m_pending ?c) mod 4)"
      using lt False unfolding p by (cases "m_pending c = 3") auto
    have "Crc32Mpeg2_finish c = Crc32Mpeg2_finish ?c"
      by (subst finish_loop [OF "1.prems"]) (use False in simp)
    also have "\<dots> = m_crc (Crc32Mpeg2_update ?c (replicate ((4 - m_pending ?c) mod 4) 0xFF))"
      using "1.IH" False lt crc_ok_update [OF "1.prems"] by (simp add: BYTES_PER_WORD_def)
    finally show ?thesis by (simp add: n update_append [symmetric])
  qed
qed

lemma crc32Mpeg2_words: "crc32Mpeg2 data = crc_words (le_words (pad_word data))"
proof -
  let ?c = "Crc32Mpeg2_update Crc32Mpeg2_init data"
  have "m_pending ?c = length data mod 4"
    using pending_update [OF crc_ok_init, of data] by (simp add: Crc32Mpeg2_init_def)
  then have "crc32Mpeg2 data = m_crc (Crc32Mpeg2_update Crc32Mpeg2_init (pad_word data))"
    unfolding crc32Mpeg2_def pad_word_def
    by (subst finish_pads) (simp_all add: crc_ok_update update_append)
  moreover have "length (pad_word data) mod 4 = 0"
    unfolding pad_word_def by (simp add: mod_simps) presburger
  ultimately show ?thesis
    by (simp add: update_words Crc32Mpeg2_init_def crc_words_def)
qed


section \<open>Distinguishing contents\<close>

lemma bit_crc_round:
  "n < 32 \<Longrightarrow> bit (crc_round c) n \<longleftrightarrow> ((0 < n \<and> bit c (n - 1)) \<noteq> (bit c 31 \<and> bit POLYNOMIAL n))"
proof -
  assume n: "n < 32"
  have t: "c AND TOP_BIT \<noteq> 0 \<longleftrightarrow> bit c 31"
    using and_exp_eq_0_iff_not_bit [of c 31] by (simp add: TOP_BIT_def)
  have d: "bit (push_bit 1 c) n \<longleftrightarrow> 0 < n \<and> bit c (n - 1)"
    using n by (simp only: bit_push_bit_iff) auto
  show ?thesis unfolding crc_round_def t by (cases "bit c 31") (simp_all only: d bit_xor_iff if_True if_False, auto)
qed

lemma crc_round_inj: "crc_round a = crc_round b \<longleftrightarrow> a = b"
proof
  assume eq: "crc_round a = crc_round b"
  have "bit POLYNOMIAL 0" by (simp add: POLYNOMIAL_def)
  then have top: "bit a 31 = bit b 31"
    using bit_crc_round [of 0 a] bit_crc_round [of 0 b] eq by simp
  show "a = b"
  proof (rule bit_word_eqI)
    fix n assume "n < LENGTH(32)"
    then have "n = 31 \<or> Suc n < 32" by auto
    then show "bit a n = bit b n"
      using top bit_crc_round [of "Suc n" a] bit_crc_round [of "Suc n" b] eq by auto
  qed
qed simp

lemma crc_rounds_inj: "(crc_round ^^ n) a = (crc_round ^^ n) b \<longleftrightarrow> a = b"
  by (induction n) (simp_all add: crc_round_inj)

lemma crc_step_inj [simp]: "crc_step a w = crc_step b w \<longleftrightarrow> a = b" "crc_step a v = crc_step a w \<longleftrightarrow> v = w"
  by (simp_all add: crc_step_def crc_rounds_inj xor_right_cancel xor_left_cancel)

lemma foldl_crc_inj: "foldl crc_step a ws = foldl crc_step b ws \<longleftrightarrow> a = b"
  by (induction ws arbitrary: a b) simp_all

lemma crc_words_one_word:
  "crc_words (us @ v # ws) = crc_words (us @ w # ws) \<longleftrightarrow> v = w"
  by (simp add: crc_words_def foldl_crc_inj)

lemma le_words_append: "length xs mod 4 = 0 \<Longrightarrow> le_words (xs @ ys) = le_words xs @ le_words ys"
  by (induction xs rule: le_words.induct) auto

lemma le_words_word: "length xs = 4 \<Longrightarrow> le_words (xs @ ys) = rd32 (xs!0) (xs!1) (xs!2) (xs!3) # le_words ys"
  by (auto simp: eval_nat_numeral length_Suc_conv)


section \<open>Running the register backwards\<close>

definition crc_unround :: "u32 \<Rightarrow> u32" where
  "crc_unround c = (if bit c 0 then drop_bit 1 (c XOR POLYNOMIAL) OR TOP_BIT else drop_bit 1 c)"

lemma bit_TOP_BIT: "bit TOP_BIT k \<longleftrightarrow> k = 31"
proof -
  have t: "TOP_BIT = push_bit 31 1" by (simp add: TOP_BIT_def)
  show ?thesis unfolding t bit_push_bit_iff bit_1_iff by auto
qed

lemma crc_round_unround: "crc_round (crc_unround c) = c"
proof (rule bit_word_eqI)
  fix n assume "n < LENGTH(32)"
  then have n: "n < 32" by simp
  have u: "bit (crc_unround c) k \<longleftrightarrow>
      (if bit c 0 then k = 31 \<or> bit c (Suc k) \<noteq> bit POLYNOMIAL (Suc k) else bit c (Suc k))" if "k < 32" for k
    using that by (auto simp: crc_unround_def bit_or_iff bit_drop_bit_eq bit_xor_iff bit_TOP_BIT)
  have "\<not> bit c 32" "\<not> bit POLYNOMIAL 32" by (auto dest: bit_imp_le_length)
  then have 31: "bit (crc_unround c) 31 \<longleftrightarrow> bit c 0" by (simp add: u)
  have p: "bit POLYNOMIAL 0" by (simp add: POLYNOMIAL_def)
  show "bit (crc_round (crc_unround c)) n \<longleftrightarrow> bit c n"
  proof (cases n)
    case 0
    then show ?thesis using p 31 by (simp add: bit_crc_round)
  next
    case (Suc k)
    then show ?thesis using n 31 u [of k] by (auto simp: bit_crc_round)
  qed
qed

lemma crc_rounds_unrounds: "(crc_round ^^ n) ((crc_unround ^^ n) c) = c"
proof (induction n)
  case (Suc n)
  have "(crc_round ^^ Suc n) ((crc_unround ^^ Suc n) c) =
        (crc_round ^^ n) (crc_round (crc_unround ((crc_unround ^^ n) c)))"
    by (subst funpow_Suc_right) simp
  then show ?case using Suc by (simp add: crc_round_unround)
qed simp

definition crc_unstep :: "u32 \<Rightarrow> u32" where
  "crc_unstep crc = (crc_unround ^^ 32) crc"

lemma crc_unround_xor: "crc_unround (a XOR b) = crc_unround a XOR crc_unround b"
proof (rule bit_word_eqI)
  fix n assume "n < LENGTH(32)"
  have "bit (crc_unround c) n \<longleftrightarrow> (if bit c 0 then bit TOP_BIT n \<or> bit c (Suc n) \<noteq> bit POLYNOMIAL (Suc n) else bit c (Suc n))" for c
    by (auto simp: crc_unround_def bit_or_iff bit_drop_bit_eq bit_xor_iff)
  moreover have "bit TOP_BIT n \<Longrightarrow> \<not> bit x (Suc n)" for x :: u32
    by (auto simp: bit_TOP_BIT dest: bit_imp_le_length)
  ultimately show "bit (crc_unround (a XOR b)) n = bit (crc_unround a XOR crc_unround b) n"
    by (auto simp: bit_xor_iff)
qed

lemma crc_unstep_xor: "crc_unstep (a XOR b) = crc_unstep a XOR crc_unstep b"
proof -
  have "(crc_unround ^^ n) (a XOR b) = (crc_unround ^^ n) a XOR (crc_unround ^^ n) b" for n
    by (induction n) (simp_all add: crc_unround_xor)
  then show ?thesis by (simp add: crc_unstep_def)
qed

lemma crc_unstep_unfold:
  "crc_unstep c = (let f = (\<lambda>c. crc_unround (crc_unround (crc_unround (crc_unround c))));
                       g = (\<lambda>c. f (f c)) in g (g (g (g c))))"
  by (simp add: crc_unstep_def numeral_eq_Suc)

lemma crc_unround_numeral:
  "crc_unround (numeral (num.Bit0 k)) = drop_bit 1 (numeral (num.Bit0 k))"
  "crc_unround (numeral (num.Bit1 k)) = drop_bit 1 (numeral (num.Bit1 k) XOR 0x04C11DB7) OR 0x80000000"
  by (simp_all add: crc_unround_def POLYNOMIAL_def TOP_BIT_def del: drop_bit_numeral_bit0 drop_bit_numeral_bit1)

lemma crc_unround_small: "crc_unround 0 = 0" "crc_unround 1 = 0x82608EDB"
  by (simp_all add: crc_unround_def POLYNOMIAL_def TOP_BIT_def)

lemmas crc_unstep_eval = crc_unstep_unfold crc_unround_numeral crc_unround_small Let_def

lemma crc_step_eq: "crc_step x w = y \<longleftrightarrow> x XOR w = crc_unstep y"
  by (metis crc_rounds_inj crc_rounds_unrounds crc_step_def crc_unstep_def)


section \<open>Property\<close>

lemma rd32_bytes: "length (v :: bytes) = 4 \<Longrightarrow> length w = 4 \<Longrightarrow>
   rd32 (v!0) (v!1) (v!2) (v!3) = rd32 (w!0) (w!1) (w!2) (w!3) \<longleftrightarrow> v = w"
  by (auto simp: rd32_eq_iff numeral_eq_Suc length_Suc_conv)

lemma le_words_four: "length v = 4 \<Longrightarrow> le_words v = [rd32 (v!0) (v!1) (v!2) (v!3)]"
  using le_words_word [of v "[]"] by simp

lemma pad_word_tail: "length pre mod 4 = 0 \<Longrightarrow> length (w :: bytes) = 4 \<Longrightarrow> pad_word (pre @ w @ post) = pre @ w @ pad_word post"
  by (simp add: pad_word_def mod_simps) (metis add.commute add_0 mod_add_left_eq mod_add_self2)

text \<open>(C38) The streaming checksum is the checksum of words. However the bytes are cut into blocks,
  also in the middle of a word, the value the object finishes with is the register of the
  reference run over the little-endian words of all the bytes, padded with the erased value to a
  whole word. Two contents of one length that differ in exactly one aligned word always have
  different checksums.\<close>

theorem crc32_streaming:
  "Crc32Mpeg2_finish (foldl Crc32Mpeg2_update Crc32Mpeg2_init blocks) = crc_words (le_words (pad_word (concat blocks))) \<and>
   (length pre mod 4 = 0 \<and> length v = 4 \<and> length w = 4 \<longrightarrow>
      (crc32Mpeg2 (pre @ v @ post) = crc32Mpeg2 (pre @ w @ post) \<longleftrightarrow> v = w))"
proof -
  have "crc32Mpeg2 (pre @ v @ post) = crc32Mpeg2 (pre @ w @ post) \<longleftrightarrow> v = w"
    if "length pre mod 4 = 0" "length v = 4" "length w = 4"
    using that by (simp add: crc32Mpeg2_words pad_word_tail le_words_append le_words_four crc_words_one_word rd32_bytes [unfolded One_nat_def])
  then show ?thesis by (simp add: update_blocks crc32Mpeg2_words [symmetric] crc32Mpeg2_def)
qed

theorem crc32_streaming_witness:
  "crc32Mpeg2 ([1, 2, 3, 4] @ [5, 6, 7, 8] @ [9]) \<noteq> crc32Mpeg2 ([1, 2, 3, 4] @ [5, 6, 7, 0] @ [9])"
  using crc32_streaming [of "[]" "[1, 2, 3, 4]" "[5, 6, 7, 8]" "[5, 6, 7, 0]" "[9]"] by simp

end
