(* ===== verification/Meta_Log.thy ===== *)
theory Meta_Log
  imports Ota_Image Crc32_Mpeg2
begin

text \<open>
  The boot metadata log (\<^verbatim>\<open>components/ota/include/ota/meta_log.hpp\<close>): 16-byte records appended to
  two areas erased separately, the valid record with the highest counter wins, and an append goes
  to the other area when the current one is full. The backend is the template parameter of the
  class: the record \<open>backend\<close> of its three calls, and the locale \<open>meta_backend\<close> of what they
  promise, in terms of the content of each record slot. The flash backend of the board is the
  instance (theory \<open>Firmware_Store\<close>).

  The lemmas of the locale: the scan finds the first record of highest counter among the valid
  ones; an append that succeeds is what the next read returns, whether or not it had to change
  areas; an append cut after any number of words leaves the old content or the new one.
\<close>


section \<open>The log\<close>

record 'b backend =
  AREA_SIZE :: nat
  be_read :: "u8 \<Rightarrow> u32 \<Rightarrow> nat \<Rightarrow> 'b \<Rightarrow> bytes option"
  be_program :: "u8 \<Rightarrow> u32 \<Rightarrow> bytes \<Rightarrow> 'b \<Rightarrow> 'b \<times> bool"
  be_erase :: "u8 \<Rightarrow> 'b \<Rightarrow> 'b \<times> bool"

definition SLOT_COUNT_PER_AREA :: "'b backend \<Rightarrow> nat" where
  "SLOT_COUNT_PER_AREA be = AREA_SIZE be div OTA_META_RECORD_SIZE"

definition BLANK_BYTE :: u8 where "BLANK_BYTE = 0xFF"
definition BLANK_WORD :: u32 where "BLANK_WORD = 0xFFFFFFFF"

definition IsBlank :: "bytes \<Rightarrow> bool" where
  "IsBlank bytes = list_all (\<lambda>b. b = BLANK_BYTE) bytes"

record scan =
  sc_found :: bool
  sc_newest :: meta_record
  sc_newestArea :: u8

definition Scan_init :: scan where
  "Scan_init = \<lparr> sc_found = False,
     sc_newest = \<lparr> r_counter = 0, r_activeSlot = 0, r_slotState = [0, 0], r_flags = 0, r_reserved = 0, r_crc = 0 \<rparr>,
     sc_newestArea = 0 \<rparr>"

definition record_offset :: "nat \<Rightarrow> u32" where
  "record_offset slot = of_nat (slot * OTA_META_RECORD_SIZE)"

text \<open>What the scan does with the bytes of one record slot.\<close>

definition scan_record :: "u8 \<Rightarrow> bytes \<Rightarrow> scan \<Rightarrow> scan" where
  "scan_record area bytes sc =
     (if IsBlank bytes then sc
      else let record = memcpy_record bytes in
        if r_crc record \<noteq> crc32Mpeg2 (take 12 bytes) then sc
        else if \<not> sc_found sc \<or> r_counter (sc_newest sc) < r_counter record
        then \<lparr> sc_found = True, sc_newest = record, sc_newestArea = area \<rparr>
        else sc)"

fun scan_slots :: "'b backend \<Rightarrow> (u8 \<times> nat) list \<Rightarrow> 'b \<Rightarrow> scan \<Rightarrow> scan option" where
  "scan_slots be [] b sc = Some sc"
| "scan_slots be ((area, slot) # rest) b sc =
     (case be_read be area (record_offset slot) OTA_META_RECORD_SIZE b of
        None \<Rightarrow> None
      | Some bytes \<Rightarrow> scan_slots be rest b (scan_record area bytes sc))"

definition log_slots :: "'b backend \<Rightarrow> (u8 \<times> nat) list" where
  "log_slots be = List.product [0, 1] [0..<SLOT_COUNT_PER_AREA be]"

definition scanAreas :: "'b backend \<Rightarrow> 'b \<Rightarrow> scan option" where
  "scanAreas be b = scan_slots be (log_slots be) b Scan_init"

text \<open>The blank search of an area from a slot on; None when there is none or a read fails.\<close>

function blank_from :: "'b backend \<Rightarrow> u8 \<Rightarrow> nat \<Rightarrow> 'b \<Rightarrow> u32 option" where
  "blank_from be area slot b =
     (if slot < SLOT_COUNT_PER_AREA be
      then (case be_read be area (record_offset slot) OTA_META_RECORD_SIZE b of
              None \<Rightarrow> None
            | Some bytes \<Rightarrow> if IsBlank bytes then Some (record_offset slot) else blank_from be area (slot + 1) b)
      else None)"
  by auto
termination by (relation "measure (\<lambda>(be, area, slot, b). SLOT_COUNT_PER_AREA be - slot)") auto

declare blank_from.simps [simp del]

definition firstBlankSlot :: "'b backend \<Rightarrow> u8 \<Rightarrow> 'b \<Rightarrow> u32 option" where
  "firstBlankSlot be area b = blank_from be area 0 b"

text \<open>\<^verbatim>\<open>read\<close>: the state it stores, or None where it returns false.\<close>

definition OtaMetaLog_read :: "'b backend \<Rightarrow> 'b \<Rightarrow> meta_state option" where
  "OtaMetaLog_read be b =
     (case scanAreas be b of
        None \<Rightarrow> None
      | Some scan \<Rightarrow>
          Some (if sc_found scan
                then \<lparr> activeSlot = r_activeSlot (sc_newest scan), slotState = r_slotState (sc_newest scan),
                       trialAttempted = (r_flags (sc_newest scan) AND OTA_META_FLAG_TRIAL_ATTEMPTED \<noteq> 0) \<rparr>
                else OtaMetaState_init))"

text \<open>The record \<^verbatim>\<open>append\<close> assembles, checksum included.\<close>

definition new_record :: "scan \<Rightarrow> meta_state \<Rightarrow> meta_record" where
  "new_record scan state =
     (let record = \<lparr> r_counter = (if sc_found scan then r_counter (sc_newest scan) + 1 else 1),
            r_activeSlot = activeSlot state, r_slotState = slotState state,
            r_flags = (if trialAttempted state then OTA_META_FLAG_TRIAL_ATTEMPTED else 0),
            r_reserved = BLANK_WORD, r_crc = 0 \<rparr>
      in record\<lparr> r_crc := crc32Mpeg2 (take 12 (record_bytes record)) \<rparr>)"

text \<open>Where the record goes: the area and offset, erasing as needed; None where \<^verbatim>\<open>append\<close> returns
  false before it programs anything.\<close>

definition make_room :: "'b backend \<Rightarrow> scan \<Rightarrow> 'b \<Rightarrow> 'b \<times> (u8 \<times> u32) option" where
  "make_room be scan b =
     (let area = (if sc_found scan then sc_newestArea scan else 0) in
      case firstBlankSlot be area b of
        None \<Rightarrow> (let area = 1 - area; (b, ok) = be_erase be area b in (b, if ok then Some (area, 0) else None))
      | Some offset \<Rightarrow>
          if \<not> sc_found scan \<and> offset = 0
          then (let (b, ok) = be_erase be area b in (b, if ok then Some (area, offset) else None))
          else (b, Some (area, offset)))"

definition OtaMetaLog_append :: "'b backend \<Rightarrow> meta_state \<Rightarrow> 'b \<Rightarrow> 'b \<times> bool" where
  "OtaMetaLog_append be state b =
     (case scanAreas be b of
        None \<Rightarrow> (b, False)
      | Some scan \<Rightarrow>
          (case make_room be scan b of
             (b, None) \<Rightarrow> (b, False)
           | (b, Some (area, offset)) \<Rightarrow> be_program be area offset (record_bytes (new_record scan state)) b))"


section \<open>Valid records and the newest one\<close>

definition valid_record :: "bytes \<Rightarrow> bool" where
  "valid_record bs \<longleftrightarrow> \<not> IsBlank bs \<and> r_crc (memcpy_record bs) = crc32Mpeg2 (take 12 bs)"

abbreviation counter_of :: "bytes \<Rightarrow> u32" where
  "counter_of bs \<equiv> r_counter (memcpy_record bs)"

text \<open>The scan as a pass over the contents of the slots.\<close>

definition scan_pass :: "(u8 \<times> nat \<Rightarrow> bytes) \<Rightarrow> (u8 \<times> nat) list \<Rightarrow> scan \<Rightarrow> scan" where
  "scan_pass rec = fold (\<lambda>p. scan_record (fst p) (rec p))"

definition scan_at :: "(u8 \<times> nat \<Rightarrow> bytes) \<Rightarrow> u8 \<times> nat \<Rightarrow> scan" where
  "scan_at rec p = \<lparr> sc_found = True, sc_newest = memcpy_record (rec p), sc_newestArea = fst p \<rparr>"

lemma scan_record_cases:
  "scan_record area bs sc =
     (if valid_record bs \<and> (\<not> sc_found sc \<or> r_counter (sc_newest sc) < counter_of bs)
      then \<lparr> sc_found = True, sc_newest = memcpy_record bs, sc_newestArea = area \<rparr> else sc)"
  by (simp add: scan_record_def valid_record_def Let_def)

text \<open>Slot \<open>p\<close> is where the scan of \<open>L\<close> ends: the first valid record of highest counter.\<close>

definition first_newest :: "(u8 \<times> nat \<Rightarrow> bytes) \<Rightarrow> (u8 \<times> nat) list \<Rightarrow> u8 \<times> nat \<Rightarrow> bool" where
  "first_newest rec L p \<longleftrightarrow> valid_record (rec p) \<and> (\<exists>pre post. L = pre @ p # post \<and>
     (\<forall>q \<in> set pre. valid_record (rec q) \<longrightarrow> counter_of (rec q) < counter_of (rec p)) \<and>
     (\<forall>q \<in> set post. valid_record (rec q) \<longrightarrow> counter_of (rec q) \<le> counter_of (rec p)))"

lemma first_newestI:
  "valid_record (rec p) \<Longrightarrow> L = pre @ p # post \<Longrightarrow>
   (\<forall>q \<in> set pre. valid_record (rec q) \<longrightarrow> counter_of (rec q) < counter_of (rec p)) \<Longrightarrow>
   (\<forall>q \<in> set post. valid_record (rec q) \<longrightarrow> counter_of (rec q) \<le> counter_of (rec p)) \<Longrightarrow> first_newest rec L p"
  by (auto simp: first_newest_def)

lemma first_newest_strict:
  assumes "p \<in> set L" "valid_record (rec p)"
    "\<forall>q \<in> set L. q \<noteq> p \<longrightarrow> valid_record (rec q) \<longrightarrow> counter_of (rec q) < counter_of (rec p)"
  shows "first_newest rec L p"
proof -
  obtain pre post where L: "L = pre @ p # post" "p \<notin> set pre" using assms(1) split_list_first by metis
  show ?thesis
  proof (rule first_newestI [of rec p L pre post, OF assms(2) L(1)])
    show "\<forall>q \<in> set post. valid_record (rec q) \<longrightarrow> counter_of (rec q) \<le> counter_of (rec p)"
      using assms(3) L(1) by (metis Un_iff less_imp_le list.set_intros(2) order_refl set_append)
  qed (use assms(3) L in auto)
qed

lemma scan_pass_append: "scan_pass rec (xs @ ys) sc = scan_pass rec ys (scan_pass rec xs sc)"
  by (simp add: scan_pass_def)

lemma scan_pass_none:
  "(\<forall>q \<in> set L. \<not> valid_record (rec q)) \<Longrightarrow> scan_pass rec L sc = sc"
  by (induction L arbitrary: sc) (simp_all add: scan_pass_def scan_record_cases)

lemma scan_pass_kept:
  "sc_found sc \<Longrightarrow> (\<forall>q \<in> set L. valid_record (rec q) \<longrightarrow> counter_of (rec q) \<le> r_counter (sc_newest sc)) \<Longrightarrow>
     scan_pass rec L sc = sc"
  by (induction L arbitrary: sc) (auto simp: scan_pass_def scan_record_cases)

lemma scan_pass_exists:
  "scan_pass rec L Scan_init = Scan_init \<and> (\<forall>q \<in> set L. \<not> valid_record (rec q)) \<or>
   (\<exists>p. first_newest rec L p \<and> scan_pass rec L Scan_init = scan_at rec p)"
proof (induction L rule: rev_induct)
  case Nil
  then show ?case by (simp add: scan_pass_def)
next
  case (snoc q L)
  have s: "scan_pass rec (L @ [q]) Scan_init = scan_record (fst q) (rec q) (scan_pass rec L Scan_init)"
    by (simp add: scan_pass_def)
  from snoc.IH show ?case
  proof (elim disjE exE conjE)
    assume none: "scan_pass rec L Scan_init = Scan_init" "\<forall>p \<in> set L. \<not> valid_record (rec p)"
    show ?thesis
    proof (cases "valid_record (rec q)")
      case True
      then have "first_newest rec (L @ [q]) q" using none(2)
        by (intro first_newestI [of _ _ _ L "[]"]) auto
      moreover have "scan_pass rec (L @ [q]) Scan_init = scan_at rec q"
        using True unfolding s none(1) by (simp add: scan_record_cases scan_at_def) (simp add: Scan_init_def)
      ultimately show ?thesis by blast
    qed (use none in \<open>auto simp: s scan_record_cases\<close>)
  next
    fix p assume p: "first_newest rec L p" "scan_pass rec L Scan_init = scan_at rec p"
    then obtain pre post where L: "L = pre @ p # post" "valid_record (rec p)"
      "\<forall>q \<in> set pre. valid_record (rec q) \<longrightarrow> counter_of (rec q) < counter_of (rec p)"
      "\<forall>q \<in> set post. valid_record (rec q) \<longrightarrow> counter_of (rec q) \<le> counter_of (rec p)"
      unfolding first_newest_def by blast
    show ?thesis
    proof (cases "valid_record (rec q) \<and> counter_of (rec p) < counter_of (rec q)")
      case True
      then have "first_newest rec (L @ [q]) q"
        using L(3,4) by (intro first_newestI [of _ _ _ L "[]"]) (auto simp: L(1))
      moreover have "scan_pass rec (L @ [q]) Scan_init = scan_at rec q"
        using True unfolding s p(2) by (simp add: scan_record_cases scan_at_def)
      ultimately show ?thesis by blast
    next
      case False
      then have "first_newest rec (L @ [q]) p"
        unfolding first_newest_def using L
        by (intro conjI exI [of _ pre] exI [of _ "post @ [q]"]) (auto simp: not_less)
      moreover have "scan_pass rec (L @ [q]) Scan_init = scan_at rec p"
        using False unfolding s p(2) by (auto simp: scan_record_cases scan_at_def)
      ultimately show ?thesis by blast
    qed
  qed
qed

lemma scan_pass_first_newest:
  assumes "first_newest rec L p"
  shows "scan_pass rec L Scan_init = scan_at rec p"
proof -
  obtain pre post where L: "L = pre @ p # post" "valid_record (rec p)"
    "\<forall>q \<in> set pre. valid_record (rec q) \<longrightarrow> counter_of (rec q) < counter_of (rec p)"
    "\<forall>q \<in> set post. valid_record (rec q) \<longrightarrow> counter_of (rec q) \<le> counter_of (rec p)"
    using assms unfolding first_newest_def by blast
  have "\<not> sc_found (scan_pass rec pre Scan_init) \<or>
        r_counter (sc_newest (scan_pass rec pre Scan_init)) < counter_of (rec p)"
    using scan_pass_exists [of rec pre] L(3) by (auto simp: Scan_init_def scan_at_def first_newest_def)
  then have "scan_pass rec (pre @ [p]) Scan_init = scan_at rec p"
    using L(2) by (simp add: scan_pass_append scan_record_cases scan_at_def scan_pass_def)
  then have "scan_pass rec L Scan_init = scan_pass rec post (scan_at rec p)"
    using scan_pass_append [of rec "pre @ [p]" post] L(1) by simp
  also have "\<dots> = scan_at rec p" by (rule scan_pass_kept) (use L(4) in \<open>simp_all add: scan_at_def\<close>)
  finally show ?thesis .
qed


lemma scan_pass_survives:
  assumes "\<forall>q \<in> set L. rec' q = rec q \<or> \<not> valid_record (rec' q)"
    and "\<forall>p. first_newest rec L p \<longrightarrow> rec' p = rec p"
  shows "scan_pass rec' L Scan_init = scan_pass rec L Scan_init"
  using scan_pass_exists [of rec L]
proof (elim disjE exE conjE)
  assume "scan_pass rec L Scan_init = Scan_init" "\<forall>q \<in> set L. \<not> valid_record (rec q)"
  then show ?thesis using assms(1) by (auto intro!: scan_pass_none)
next
  fix p assume p: "first_newest rec L p" "scan_pass rec L Scan_init = scan_at rec p"
  have e: "rec' p = rec p" using assms(2) p(1) by blast
  have "first_newest rec' L p"
    using p(1) assms(1) unfolding first_newest_def e by (metis Un_iff list.set_intros(2) set_append)
  then show ?thesis using p(2) e by (simp add: scan_pass_first_newest scan_at_def)
qed

lemma first_newest_in: "first_newest rec L p \<Longrightarrow> p \<in> set L"
  by (auto simp: first_newest_def)

lemma log_slots_iff: "p \<in> set (log_slots be) \<longleftrightarrow> fst p \<in> {0, 1} \<and> snd p < SLOT_COUNT_PER_AREA be"
  by (cases p) (auto simp: log_slots_def)


section \<open>The record of an append\<close>

lemma new_record_fields:
  "r_activeSlot (new_record sc m) = activeSlot m" "r_slotState (new_record sc m) = slotState m"
  "r_counter (new_record sc m) = (if sc_found sc then r_counter (sc_newest sc) + 1 else 1)"
  "r_flags (new_record sc m) = (if trialAttempted m then OTA_META_FLAG_TRIAL_ATTEMPTED else 0)"
  "r_reserved (new_record sc m) = BLANK_WORD"
  by (simp_all add: new_record_def Let_def)

lemma take_record_bytes: "length (r_slotState r) = 2 \<Longrightarrow> take 12 (record_bytes r) =
    le32 (r_counter r) @ [r_activeSlot r] @ r_slotState r @ [r_flags r] @ le32 (r_reserved r)"
  by (simp add: record_bytes_def)

lemma new_record_crc:
  "meta_ok m \<Longrightarrow> r_crc (new_record sc m) = crc32Mpeg2 (take 12 (record_bytes (new_record sc m)))"
  by (simp add: new_record_def Let_def take_record_bytes meta_ok_def OTA_SLOT_COUNT_def)

lemma length_new_record: "meta_ok m \<Longrightarrow> length (record_bytes (new_record sc m)) = OTA_META_RECORD_SIZE"
  by (simp add: length_record_bytes new_record_fields meta_ok_def OTA_SLOT_COUNT_def)

lemma memcpy_new_record: "meta_ok m \<Longrightarrow> memcpy_record (record_bytes (new_record sc m)) = new_record sc m"
  by (simp add: memcpy_record_bytes new_record_fields meta_ok_def OTA_SLOT_COUNT_def)

lemma new_record_valid: "meta_ok m \<Longrightarrow> valid_record (record_bytes (new_record sc m))"
proof -
  assume m: "meta_ok m"
  have "r_flags (new_record sc m) \<in> set (record_bytes (new_record sc m))" by (simp add: record_bytes_def)
  moreover have "r_flags (new_record sc m) \<noteq> BLANK_BYTE"
    by (simp add: new_record_fields OTA_META_FLAG_TRIAL_ATTEMPTED_def BLANK_BYTE_def)
  ultimately have "\<not> IsBlank (record_bytes (new_record sc m))" by (auto simp: IsBlank_def list_all_iff)
  then show ?thesis using m by (simp add: valid_record_def memcpy_new_record new_record_crc)
qed


section \<open>Torn records\<close>

text \<open>A record of which only the first \<open>k\<close> words reached the flash.\<close>

definition torn :: "nat \<Rightarrow> bytes \<Rightarrow> bytes" where
  "torn k bs = take (4 * k) bs @ replicate (OTA_META_RECORD_SIZE - 4 * k) BLANK_BYTE"

text \<open>Metadata the update system writes: existing slots in one of the five states.\<close>

definition legal_meta :: "meta_state \<Rightarrow> bool" where
  "legal_meta m \<longleftrightarrow> meta_ok m \<and> activeSlot m \<in> {OTA_SLOT_A, OTA_SLOT_B} \<and>
     set (slotState m) \<subseteq> {OTA_SLOT_STAGED, OTA_SLOT_TESTING, OTA_SLOT_VALID, OTA_SLOT_BAD, OTA_SLOT_EMPTY}"

text \<open>The one counter for which the first two words of a record and blank flash after them pass
  the checksum, by the four bytes of the second word.\<close>

definition clash :: "u8 \<Rightarrow> u8 \<Rightarrow> u8 \<Rightarrow> u8 \<Rightarrow> u32" where
  "clash a b c d = 0xFFFFFFFF XOR crc_unstep (crc_unstep (crc_unstep 0xFFFFFFFF XOR 0xFFFFFFFF) XOR rd32 a b c d)"

lemma clash_iff:
  "crc_words [w, rd32 a b c d, 0xFFFFFFFF] = 0xFFFFFFFF \<longleftrightarrow> w = clash a b c d"
proof -
  have "x XOR y = z \<longleftrightarrow> x = z XOR y" for x y z :: u32 by (auto simp: word_eq_bits bit_xor_iff)
  then show ?thesis
    by (simp add: crc_words_def crc_step_eq clash_def) (metis xor.commute)
qed

text \<open>The register run backwards is linear, so fourteen evaluations cover the hundred records.\<close>

lemma clash_linear:
  "clash a b c d = 0xDCE8E26D XOR crc_unstep (rd32 a 0 0 0) XOR crc_unstep (rd32 0 b 0 0) XOR
     crc_unstep (rd32 0 0 c 0) XOR crc_unstep (rd32 0 0 0 d)"
proof -
  have k: "crc_unstep 0xFFFFFFFF XOR 0xFFFFFFFF = 0xB9509BB6" "crc_unstep 0xB9509BB6 = 0xB3A443BE" "crc_unstep 0xB3A443BE = 0x23171D92"
    by (simp_all add: crc_unstep_eval)
  show ?thesis unfolding clash_def k
    by (subst rd32_xor) (simp add: crc_unstep_xor k xor.assoc [symmetric])
qed

lemma clash_table_a: "a \<in> {0, 1} \<Longrightarrow> crc_unstep (rd32 a 0 0 0) \<in> {0, 0xCBF1ACDA}"
  by (elim insertE) (simp_all add: crc_unstep_eval rd32_def)

lemma clash_table_d: "d \<in> {0, 1} \<Longrightarrow> crc_unstep (rd32 0 0 0 d) \<in> {0, 0xA9D3E6A6}"
  by (elim insertE) (simp_all add: crc_unstep_eval rd32_def)

lemma clash_table_b: "b \<in> {1, 2, 3, 4, 0xFF} \<Longrightarrow> crc_unstep (rd32 0 b 0 0) \<in> {0x876D81F8, 0xA1A1E47, 0x8D779FBF, 0x14343C8E, 0x88DDB39C}"
  by (elim insertE) (simp_all add: crc_unstep_eval rd32_def)

lemma clash_table_c: "c \<in> {1, 2, 3, 4, 0xFF} \<Longrightarrow> crc_unstep (rd32 0 0 c 0) \<in> {0x1ACA48EB, 0x359491D6, 0x2F5ED93D, 0x6B2923AC, 0x92B79156}"
  by (elim insertE) (simp_all add: crc_unstep_eval rd32_def)

lemma clash_large:
  assumes "a \<in> {0, 1}" "b \<in> {1, 2, 3, 4, 0xFF}" "c \<in> {1, 2, 3, 4, 0xFF}" "d \<in> {0, 1}"
  shows "40000000 \<le> clash a b c d"
proof -
  have "\<forall>x \<in> {0, 0xCBF1ACDA :: u32}. \<forall>y \<in> {0x876D81F8, 0xA1A1E47, 0x8D779FBF, 0x14343C8E, 0x88DDB39C}. \<forall>z \<in> {0x1ACA48EB, 0x359491D6, 0x2F5ED93D, 0x6B2923AC, 0x92B79156}. \<forall>w \<in> {0, 0xA9D3E6A6}.
      40000000 \<le> 0xDCE8E26D XOR x XOR y XOR z XOR w"
    by (simp add: word_le_nat_alt)
  then show ?thesis
    unfolding clash_linear
    using clash_table_a [OF assms(1)] clash_table_b [OF assms(2)] clash_table_c [OF assms(3)] clash_table_d [OF assms(4)]
    by blast
qed

lemma clash_blank: "40000000 \<le> clash 0xFF 0xFF 0xFF 0xFF"
  by (simp add: clash_def rd32_def crc_unstep_eval word_le_nat_alt)


lemma crc_12: "crc32Mpeg2 [a0, a1, a2, a3, b0, b1, b2, b3, c0, c1, c2, c3] =
    crc_words [rd32 a0 a1 a2 a3, rd32 b0 b1 b2 b3, rd32 c0 c1 c2 c3]"
  by (simp add: crc32Mpeg2_words pad_word_def)

lemma rd32_blank: "rd32 0xFF 0xFF 0xFF 0xFF = 0xFFFFFFFF"
  by (simp add: rd32_def)

text \<open>A torn record does not pass for one, as long as the log is younger than forty million
  records: the endurance of the two sectors, ten thousand erases of 1024 records each, is half that.\<close>

lemma torn_invalid:
  assumes m: "legal_meta m" and c: "r_counter (new_record sc m) < 40000000"
    and v: "valid_record (torn k (record_bytes (new_record sc m)))"
  shows "torn k (record_bytes (new_record sc m)) = record_bytes (new_record sc m)"
proof -
  let ?r = "new_record sc m" and ?R = "record_bytes (new_record sc m)"
  have ok: "meta_ok m" using m by (simp add: legal_meta_def)
  obtain x y where xy: "slotState m = [x, y]" using meta_ok_cases [OF ok] by blast
  have dom: "activeSlot m \<in> {0, 1}" "x \<in> {1, 2, 3, 4, 0xFF}" "y \<in> {1, 2, 3, 4, 0xFF}" "r_flags ?r \<in> {0, 1}"
    using m xy by (auto simp: legal_meta_def slot_defs slot_state_defs new_record_fields OTA_META_FLAG_TRIAL_ATTEMPTED_def)
  have R: "?R = le32 (r_counter ?r) @ [activeSlot m, x, y, r_flags ?r] @ [0xFF, 0xFF, 0xFF, 0xFF] @ le32 (r_crc ?r)"
    by (simp add: record_bytes_def new_record_fields xy BLANK_WORD_def le32_def byte_at_def)
  have crc: "r_crc ?r = crc_words [r_counter ?r, rd32 (activeSlot m) x y (r_flags ?r), 0xFFFFFFFF]"
    using new_record_crc [OF ok, of sc] by (simp add: R crc_12 rd32_blank le32_def)
  have reps: "replicate 12 (0xFF :: u8) = [0xFF, 0xFF, 0xFF, 0xFF, 0xFF, 0xFF, 0xFF, 0xFF, 0xFF, 0xFF, 0xFF, 0xFF]"
    "replicate 8 (0xFF :: u8) = [0xFF, 0xFF, 0xFF, 0xFF, 0xFF, 0xFF, 0xFF, 0xFF]"
    "replicate 4 (0xFF :: u8) = [0xFF, 0xFF, 0xFF, 0xFF]"
    by (rule nth_equalityI; simp add: nth_Cons' numeral_eq_Suc)+
  consider "k = 0" | "k = 1" | "k = 2" | "k = 3" | "4 \<le> k" by linarith
  then show ?thesis
  proof cases
    case 1
    then show ?thesis using v by (simp add: torn_def valid_record_def IsBlank_def list_all_iff)
  next
    case 2
    have t: "torn k ?R = le32 (r_counter ?r) @ replicate 12 0xFF"
      using 2 by (simp add: torn_def R BLANK_BYTE_def OTA_META_RECORD_SIZE_def le32_def)
    have "crc_words [r_counter ?r, rd32 0xFF 0xFF 0xFF 0xFF, 0xFFFFFFFF] = 0xFFFFFFFF"
      using v unfolding t reps
      by (simp add: valid_record_def memcpy_record_def field32_def le32_def crc_12 rd32_blank)
    then show ?thesis using c clash_blank by (auto simp only: clash_iff not_less [symmetric])
  next
    case 3
    have t: "torn k ?R = le32 (r_counter ?r) @ [activeSlot m, x, y, r_flags ?r] @ replicate 8 0xFF"
      using 3 by (simp add: torn_def R BLANK_BYTE_def OTA_META_RECORD_SIZE_def le32_def)
    have "crc_words [r_counter ?r, rd32 (activeSlot m) x y (r_flags ?r), 0xFFFFFFFF] = 0xFFFFFFFF"
      using v unfolding t reps
      by (simp add: valid_record_def memcpy_record_def field32_def le32_def crc_12 rd32_blank)
    then show ?thesis using c clash_large [OF dom] by (auto simp only: clash_iff not_less [symmetric])
  next
    case 4
    have t: "torn k ?R = le32 (r_counter ?r) @ [activeSlot m, x, y, r_flags ?r] @ [0xFF, 0xFF, 0xFF, 0xFF] @ replicate 4 0xFF"
      using 4 by (simp add: torn_def R BLANK_BYTE_def OTA_META_RECORD_SIZE_def le32_def)
    have "r_crc ?r = 0xFFFFFFFF"
      using v unfolding t crc reps
      by (simp add: valid_record_def memcpy_record_def field32_def le32_def crc_12 rd32_blank)
    then have "le32 (r_crc ?r) = replicate 4 0xFF" unfolding reps by (simp add: le32_def byte_at_def)
    then show ?thesis unfolding t by (simp add: R)
  next
    case 5
    then have "OTA_META_RECORD_SIZE - 4 * k = 0" by (simp add: OTA_META_RECORD_SIZE_def)
    then show ?thesis using length_new_record [OF ok, of sc] 5
      by (simp add: torn_def OTA_META_RECORD_SIZE_def)
  qed
qed


text \<open>The number the newest record carries, 0 in a log without one.\<close>

definition log_counter :: "'b backend \<Rightarrow> 'b \<Rightarrow> nat" where
  "log_counter be b =
     (case scanAreas be b of
        None \<Rightarrow> 0 | Some sc \<Rightarrow> if sc_found sc then unat (r_counter (sc_newest sc)) else 0)"


section \<open>What a backend promises\<close>

locale meta_backend =
  fixes be :: "'b backend" and rec :: "'b \<Rightarrow> u8 \<times> nat \<Rightarrow> bytes"
  assumes some_slot: "0 < SLOT_COUNT_PER_AREA be"
    and read_slot: "p \<in> set (log_slots be) \<Longrightarrow>
      be_read be (fst p) (record_offset (snd p)) OTA_META_RECORD_SIZE b = Some (rec b p)"
    and slot_length: "p \<in> set (log_slots be) \<Longrightarrow> length (rec b p) = OTA_META_RECORD_SIZE"
    and program_slot: "p \<in> set (log_slots be) \<Longrightarrow> length data \<le> OTA_META_RECORD_SIZE \<Longrightarrow> length data mod 4 = 0 \<Longrightarrow>
      snd (be_program be (fst p) (record_offset (snd p)) data b) \<Longrightarrow>
      rec (fst (be_program be (fst p) (record_offset (snd p)) data b)) p = data @ drop (length data) (rec b p)"
    and program_others: "p \<in> set (log_slots be) \<Longrightarrow> q \<in> set (log_slots be) \<Longrightarrow> q \<noteq> p \<Longrightarrow>
      length data \<le> OTA_META_RECORD_SIZE \<Longrightarrow> length data mod 4 = 0 \<Longrightarrow>
      rec (fst (be_program be (fst p) (record_offset (snd p)) data b)) q = rec b q"
    and erase_slot: "p \<in> set (log_slots be) \<Longrightarrow> snd (be_erase be (fst p) b) \<Longrightarrow>
      rec (fst (be_erase be (fst p) b)) p = replicate OTA_META_RECORD_SIZE BLANK_BYTE"
    and erase_others: "area \<in> {0, 1} \<Longrightarrow> q \<in> set (log_slots be) \<Longrightarrow> fst q \<noteq> area \<Longrightarrow>
      rec (fst (be_erase be area b)) q = rec b q"
begin

abbreviation scan_of :: "'b \<Rightarrow> scan" where
  "scan_of b \<equiv> scan_pass (rec b) (log_slots be) Scan_init"

lemma scanAreas_pass: "scanAreas be b = Some (scan_of b)"
proof -
  have "set L \<subseteq> set (log_slots be) \<Longrightarrow> scan_slots be L b sc = Some (scan_pass (rec b) L sc)" for L sc
    by (induction L arbitrary: sc) (auto simp: scan_pass_def read_slot [of "(_, _)", simplified])
  then show ?thesis by (simp add: scanAreas_def)
qed

lemma read_congruent: "scan_of b' = scan_of b \<Longrightarrow> OtaMetaLog_read be b' = OtaMetaLog_read be b"
  by (simp add: OtaMetaLog_read_def scanAreas_pass)

lemma scan_of_cases:
  obtains (blank) "\<not> sc_found (scan_of b)" "\<forall>q \<in> set (log_slots be). \<not> valid_record (rec b q)"
  | (found) p where "sc_found (scan_of b)" "first_newest (rec b) (log_slots be) p" "scan_of b = scan_at (rec b) p"
  using scan_pass_exists [of "rec b" "log_slots be"] by (auto simp: Scan_init_def scan_at_def)

lemma read_meta_ok: "OtaMetaLog_read be b = Some m \<Longrightarrow> meta_ok m"
  by (cases rule: scan_of_cases [of b])
     (auto simp: OtaMetaLog_read_def scanAreas_pass scan_at_def memcpy_record_def meta_ok_def OTA_SLOT_COUNT_def
       OtaMetaState_init_def split: if_splits)

lemma scan_of_cong: "(\<And>q. q \<in> set (log_slots be) \<Longrightarrow> rec b' q = rec b q) \<Longrightarrow> scanAreas be b' = scanAreas be b"
  unfolding scanAreas_pass scan_pass_def by (auto intro: fold_cong)

lemma read_total: "\<exists>m. OtaMetaLog_read be b = Some m"
  by (simp add: OtaMetaLog_read_def scanAreas_pass)

lemma read_survives:
  assumes "\<forall>q \<in> set (log_slots be). rec b' q = rec b q \<or> \<not> valid_record (rec b' q)"
    and "\<forall>p. first_newest (rec b) (log_slots be) p \<longrightarrow> rec b' p = rec b p"
  shows "OtaMetaLog_read be b' = OtaMetaLog_read be b"
  by (rule read_congruent, rule scan_pass_survives [OF assms])

lemma firstBlankSlot_Some:
  assumes "firstBlankSlot be area b = Some off" "area \<in> {0, 1}"
  obtains i where "(area, i) \<in> set (log_slots be)" "off = record_offset i" "IsBlank (rec b (area, i))"
proof -
  have "blank_from be area (SLOT_COUNT_PER_AREA be - n) b = Some off \<Longrightarrow>
      \<exists>i. (area, i) \<in> set (log_slots be) \<and> off = record_offset i \<and> IsBlank (rec b (area, i))" for n
  proof (induction n)
    case (Suc n)
    let ?k = "SLOT_COUNT_PER_AREA be - Suc n"
    show ?case
    proof (cases "?k < SLOT_COUNT_PER_AREA be \<and> n < SLOT_COUNT_PER_AREA be")
      case True
      then have k: "(area, ?k) \<in> set (log_slots be)" using assms(2) by (simp add: log_slots_iff)
      have "?k + 1 = SLOT_COUNT_PER_AREA be - n" using True by linarith
      then show ?thesis using Suc k read_slot [OF k, of b] True
        by (subst (asm) blank_from.simps) (auto split: if_splits)
    next
      case False
      then have "?k = SLOT_COUNT_PER_AREA be - n" by auto
      then show ?thesis using Suc by simp
    qed
  qed (simp add: blank_from.simps)
  from this [of "SLOT_COUNT_PER_AREA be"] show thesis
    using assms(1) that by (auto simp: firstBlankSlot_def)
qed

lemma erase_blanks:
  assumes "a \<in> {0, 1}" "snd (be_erase be a b)" "q \<in> set (log_slots be)"
  shows "rec (fst (be_erase be a b)) q = rec b q \<or> IsBlank (rec (fst (be_erase be a b)) q)"
    and "fst q = a \<Longrightarrow> IsBlank (rec (fst (be_erase be a b)) q)"
proof -
  show "IsBlank (rec (fst (be_erase be a b)) q)" if "fst q = a"
    using erase_slot [OF assms(3)] assms(2) that by (simp add: IsBlank_def list_all_iff)
  then show "rec (fst (be_erase be a b)) q = rec b q \<or> IsBlank (rec (fst (be_erase be a b)) q)"
    using erase_others [OF assms(1,3)] by blast
qed

text \<open>Making room: a blank slot to write to, every other slot kept or blank, the newest record kept.\<close>

lemma make_room_Some:
  assumes "make_room be (scan_of b) b = (b', Some (area, off))"
  obtains i where "(area, i) \<in> set (log_slots be)" "off = record_offset i" "IsBlank (rec b' (area, i))"
    "\<forall>q \<in> set (log_slots be). rec b' q = rec b q \<or> IsBlank (rec b' q)"
    "\<forall>p. first_newest (rec b) (log_slots be) p \<longrightarrow> rec b' p = rec b p"
proof -
  let ?area = "if sc_found (scan_of b) then sc_newestArea (scan_of b) else 0"
  have area: "?area \<in> {0, 1}"
    by (cases rule: scan_of_cases [of b]) (auto simp: scan_at_def log_slots_iff dest: first_newest_in)
  then have other: "1 - ?area \<in> {0, 1}" "1 - ?area \<noteq> ?area" by auto
  have newest: "fst p = ?area" if "first_newest (rec b) (log_slots be) p" for p
    using scan_pass_first_newest [OF that] by (simp add: scan_at_def)
  show thesis
  proof (cases "firstBlankSlot be ?area b")
    case None
    then have e: "snd (be_erase be (1 - ?area) b)" "b' = fst (be_erase be (1 - ?area) b)"
      "area = 1 - ?area" "off = 0"
      using assms by (auto simp: make_room_def Let_def split_beta split: if_splits)
    have 0: "(area, 0) \<in> set (log_slots be)" using other some_slot by (simp add: log_slots_iff e(3))
    show ?thesis
    proof (rule that [OF 0])
      show "off = record_offset 0" by (simp add: record_offset_def e(4))
      show "IsBlank (rec b' (area, 0))" unfolding e(2) by (rule erase_blanks(2) [OF other(1) e(1) 0]) (simp add: e(3))
      show "\<forall>q \<in> set (log_slots be). rec b' q = rec b q \<or> IsBlank (rec b' q)"
        unfolding e(2) using erase_blanks(1) [OF other(1) e(1)] by blast
      show "\<forall>p. first_newest (rec b) (log_slots be) p \<longrightarrow> rec b' p = rec b p"
        using erase_others [OF other(1)] newest other(2) first_newest_in unfolding e(2) by metis
    qed
  next
    case (Some o')
    obtain i where i: "(?area, i) \<in> set (log_slots be)" "o' = record_offset i" "IsBlank (rec b (?area, i))"
      using firstBlankSlot_Some [OF Some area] by blast
    show ?thesis
    proof (cases "\<not> sc_found (scan_of b) \<and> o' = 0")
      case True
      then have e: "snd (be_erase be ?area b)" "b' = fst (be_erase be ?area b)" "area = ?area" "off = o'"
        using assms Some by (auto simp: make_room_def Let_def split_beta split: if_splits)
      have none: "\<not> first_newest (rec b) (log_slots be) p" for p
        using scan_pass_first_newest [of "rec b" "log_slots be" p] True by (auto simp: scan_at_def)
      have "\<forall>q \<in> set (log_slots be). rec b' q = rec b q \<or> IsBlank (rec b' q)"
        unfolding e(2) using erase_blanks(1) [OF area e(1)] by blast
      moreover have "IsBlank (rec b' (?area, i))" unfolding e(2) by (rule erase_blanks(2) [OF area e(1) i(1)]) simp
      ultimately show ?thesis using that [of i] i e(3,4) none by simp
    next
      case False
      then have "b' = b" "area = ?area" "off = o'" using assms Some by (auto simp: make_room_def Let_def)
      then show ?thesis using that [of i] i by simp
    qed
  qed
qed

lemma log_counter_scan:
  "log_counter be b = (if sc_found (scan_of b) then unat (r_counter (sc_newest (scan_of b))) else 0)"
  by (simp add: log_counter_def scanAreas_pass)

lemma new_counter:
  assumes "log_counter be b < 2 ^ 32 - 1"
  shows "unat (r_counter (new_record (scan_of b) m)) = log_counter be b + 1"
proof (cases "sc_found (scan_of b)")
  case True
  then have "unat (r_counter (sc_newest (scan_of b)) + 1) = unat (r_counter (sc_newest (scan_of b))) + 1"
    using assms unat_plus_of_nat [of "r_counter (sc_newest (scan_of b))" 1] by (simp add: log_counter_scan)
  then show ?thesis using True by (simp add: new_record_fields log_counter_scan)
qed (simp add: new_record_fields log_counter_scan)

lemma counter_le_log: "q \<in> set (log_slots be) \<Longrightarrow> valid_record (rec b q) \<Longrightarrow> unat (counter_of (rec b q)) \<le> log_counter be b"
proof (cases rule: scan_of_cases [of b])
  case (found p)
  assume q: "q \<in> set (log_slots be)" "valid_record (rec b q)"
  have "counter_of (rec b q) \<le> counter_of (rec b p)"
    using found(2) q unfolding first_newest_def by (auto simp: less_le)
  then show ?thesis using found by (simp add: log_counter_scan scan_at_def word_le_nat_alt)
qed blast

lemma append_cases:
  assumes "OtaMetaLog_append be m b = (b', True)"
  obtains b1 area i where "make_room be (scan_of b) b = (b1, Some (area, record_offset i))"
    "(area, i) \<in> set (log_slots be)" "IsBlank (rec b1 (area, i))"
    "\<forall>q \<in> set (log_slots be). rec b1 q = rec b q \<or> IsBlank (rec b1 q)"
    "\<forall>p. first_newest (rec b) (log_slots be) p \<longrightarrow> rec b1 p = rec b p"
    "be_program be area (record_offset i) (record_bytes (new_record (scan_of b) m)) b1 = (b', True)"
proof -
  obtain b1 area off where r: "make_room be (scan_of b) b = (b1, Some (area, off))"
    "be_program be area off (record_bytes (new_record (scan_of b) m)) b1 = (b', True)"
    using assms by (auto simp: OtaMetaLog_append_def scanAreas_pass split: prod.splits option.splits)
  show thesis by (rule make_room_Some [OF r(1)], rule that) (use r in auto)
qed

lemma IsBlank_invalid: "IsBlank bs \<Longrightarrow> \<not> valid_record bs"
  by (simp add: valid_record_def)

lemma newest_written:
  assumes m: "meta_ok m" and c: "log_counter be b < 2 ^ 32 - 1" and p: "p \<in> set (log_slots be)"
    and R: "rec b' p = record_bytes (new_record (scan_of b) m)"
    and others: "\<forall>q \<in> set (log_slots be). q \<noteq> p \<longrightarrow> rec b' q = rec b q \<or> IsBlank (rec b' q)"
  shows "OtaMetaLog_read be b' = Some m" "log_counter be b' = log_counter be b + 1"
proof -
  have "first_newest (rec b') (log_slots be) p"
  proof (rule first_newest_strict [OF p])
    show "valid_record (rec b' p)" unfolding R by (rule new_record_valid [OF m])
    show "\<forall>q \<in> set (log_slots be). q \<noteq> p \<longrightarrow> valid_record (rec b' q) \<longrightarrow> counter_of (rec b' q) < counter_of (rec b' p)"
    proof (intro ballI impI)
      fix q assume q: "q \<in> set (log_slots be)" "q \<noteq> p" "valid_record (rec b' q)"
      then have "rec b' q = rec b q" using others IsBlank_invalid by metis
      then have "unat (counter_of (rec b' q)) \<le> log_counter be b" using counter_le_log [OF q(1), of b] q(3) by simp
      then show "counter_of (rec b' q) < counter_of (rec b' p)"
        using new_counter [OF c, of m] by (simp add: R memcpy_new_record [OF m] word_less_nat_alt)
    qed
  qed
  from scan_pass_first_newest [OF this] have "sc_found (scan_of b')" "sc_newest (scan_of b') = new_record (scan_of b) m"
    by (simp_all add: scan_at_def R memcpy_new_record [OF m])
  then show "OtaMetaLog_read be b' = Some m" "log_counter be b' = log_counter be b + 1"
    using new_counter [OF c, of m]
    by (simp_all add: OtaMetaLog_read_def scanAreas_pass new_record_fields OTA_META_FLAG_TRIAL_ATTEMPTED_def log_counter_scan)
qed

lemma append_read:
  assumes a: "OtaMetaLog_append be m b = (b', True)" and m: "meta_ok m" and c: "log_counter be b < 2 ^ 32 - 1"
  shows "OtaMetaLog_read be b' = Some m" "log_counter be b' = log_counter be b + 1"
proof -
  let ?R = "record_bytes (new_record (scan_of b) m)"
  obtain b1 area i where r: "(area, i) \<in> set (log_slots be)"
    "\<forall>q \<in> set (log_slots be). rec b1 q = rec b q \<or> IsBlank (rec b1 q)"
    "be_program be area (record_offset i) ?R b1 = (b', True)"
    using append_cases [OF a] by metis
  have len: "length ?R \<le> OTA_META_RECORD_SIZE" "length ?R mod 4 = 0" "length ?R = OTA_META_RECORD_SIZE"
    using length_new_record [OF m] by (simp_all add: OTA_META_RECORD_SIZE_def)
  have p: "rec b' (area, i) = ?R"
    using program_slot [OF r(1) len(1,2), of b1] r(3) slot_length [OF r(1)] len(3) by simp
  have q: "\<forall>q \<in> set (log_slots be). q \<noteq> (area, i) \<longrightarrow> rec b' q = rec b q \<or> IsBlank (rec b' q)"
    using program_others [OF r(1) _ _ len(1,2), of _ b1] r(2,3) by (metis fst_conv snd_conv)
  show "OtaMetaLog_read be b' = Some m" "log_counter be b' = log_counter be b + 1"
    by (rule newest_written [OF m c r(1) p q])+
qed

end

text \<open>The backend of a board whose power goes after \<open>k\<close> words of the record: what it programmed
  until then, it programmed.\<close>

definition power_cut :: "nat \<Rightarrow> 'b backend \<Rightarrow> 'b backend" where
  "power_cut k be = be\<lparr> be_program := (\<lambda>area offset data. be_program be area offset (take (4 * k) data)) \<rparr>"

lemma power_cut_program: "be_program (power_cut k be) area offset data b = be_program be area offset (take (4 * k) data) b"
  by (simp add: power_cut_def)

context meta_backend
begin

lemma power_cut_room:
  "scanAreas (power_cut k be) b = scanAreas be b" "make_room (power_cut k be) sc b = make_room be sc b"
proof -
  have "scan_slots (power_cut k be) L b sc = scan_slots be L b sc" for L sc
    by (induction L arbitrary: sc) (auto simp: power_cut_def split: option.splits)
  then show "scanAreas (power_cut k be) b = scanAreas be b"
    by (simp add: scanAreas_def log_slots_def power_cut_def SLOT_COUNT_PER_AREA_def)
  have "SLOT_COUNT_PER_AREA (power_cut k be) = SLOT_COUNT_PER_AREA be" by (simp add: power_cut_def SLOT_COUNT_PER_AREA_def)
  then have "blank_from (power_cut k be) area s b = blank_from be area s b" for area s
  proof (induction "SLOT_COUNT_PER_AREA be - s" arbitrary: s)
    case (Suc n)
    then show ?case
      by (subst (1 2) blank_from.simps) (auto simp: power_cut_def split: option.splits)
  qed (simp add: blank_from.simps)
  moreover have "be_erase (power_cut k be) = be_erase be" by (simp add: power_cut_def)
  ultimately show "make_room (power_cut k be) sc b = make_room be sc b"
    by (simp only: make_room_def firstBlankSlot_def)
qed

lemma append_whole: "meta_ok m \<Longrightarrow> OtaMetaLog_append (power_cut 4 be) m b = OtaMetaLog_append be m b"
  using length_new_record [of m "scan_of b"]
  by (simp add: OtaMetaLog_append_def power_cut_room scanAreas_pass power_cut_program OTA_META_RECORD_SIZE_def
      cong: option.case_cong prod.case_cong)

lemma append_power_cut:
  assumes a: "OtaMetaLog_append (power_cut k be) m b = (b', True)"
    and m: "legal_meta m" and c: "log_counter be b < 39999999"
  shows "OtaMetaLog_read be b' = OtaMetaLog_read be b \<or> OtaMetaLog_read be b' = Some m"
proof -
  let ?R = "record_bytes (new_record (scan_of b) m)"
  have ok: "meta_ok m" using m by (simp add: legal_meta_def)
  obtain b1 area off where room: "make_room be (scan_of b) b = (b1, Some (area, off))"
    and prog: "be_program be area off (take (4 * k) ?R) b1 = (b', True)"
    using a by (auto simp: OtaMetaLog_append_def power_cut_room scanAreas_pass split: prod.splits option.splits)
       (auto simp: power_cut_def)
  from make_room_Some [OF room] obtain i where r: "(area, i) \<in> set (log_slots be)" "off = record_offset i"
    "IsBlank (rec b1 (area, i))" "\<forall>q \<in> set (log_slots be). rec b1 q = rec b q \<or> IsBlank (rec b1 q)"
    "\<forall>p. first_newest (rec b) (log_slots be) p \<longrightarrow> rec b1 p = rec b p" by metis
  let ?d = "take (4 * k) ?R"
  have len: "length ?d \<le> OTA_META_RECORD_SIZE" "length ?d mod 4 = 0"
    using length_new_record [OF ok, of "scan_of b"] by (auto simp: OTA_META_RECORD_SIZE_def min_def)
  have blank: "rec b1 (area, i) = replicate OTA_META_RECORD_SIZE BLANK_BYTE"
    using r(3) slot_length [OF r(1), of b1] by (auto simp: IsBlank_def list_all_iff intro: replicate_eqI)
  have p: "rec b' (area, i) = torn k ?R"
    using program_slot [OF r(1) len, of b1] prog r(2) length_new_record [OF ok, of "scan_of b"]
    by (simp add: torn_def blank min_def)
  have q: "rec b' q = rec b1 q" if "q \<in> set (log_slots be)" "q \<noteq> (area, i)" for q
    using program_others [OF r(1) that len, of b1] prog r(2) by simp
  have "r_counter (new_record (scan_of b) m) < 40000000"
    using new_counter [of b m] c by (simp add: word_less_nat_alt)
  then have t: "valid_record (torn k ?R) \<Longrightarrow> torn k ?R = ?R" by (rule torn_invalid [OF m])
  show ?thesis
  proof (cases "valid_record (torn k ?R)")
    case True
    have "OtaMetaLog_read be b' = Some m"
      by (rule newest_written(1) [OF ok _ r(1)]) (use c p t [OF True] q r(4) in auto)
    then show ?thesis ..
  next
    case False
    have "OtaMetaLog_read be b' = OtaMetaLog_read be b"
    proof (rule read_survives)
      show "\<forall>s \<in> set (log_slots be). rec b' s = rec b s \<or> \<not> valid_record (rec b' s)"
        using q p False r(4) IsBlank_invalid by metis
      show "\<forall>s. first_newest (rec b) (log_slots be) s \<longrightarrow> rec b' s = rec b s"
        using q r(3,5) IsBlank_invalid by (metis first_newest_def first_newest_in)
    qed
    then show ?thesis ..
  qed
qed

end

end
