(* ===== verification/Firmware_Store.thy ===== *)
theory Firmware_Store
  imports Internal_Flash Meta_Log
begin

text \<open>
  The firmware store: the interface the updater drives (\<^verbatim>\<open>AbsFirmwareStore\<close> of
  \<^verbatim>\<open>components/ota/include/ota/firmware_store.hpp\<close>), the image reads shared by the stores whose slots
  open with an image header (\<^verbatim>\<open>components/ota/include/ota/image_header.hpp\<close>), and the store of the
  board (\<^verbatim>\<open>components/platform/src/stm32/firmware_store_stm32.cpp\<close> with its metadata backend
  \<^verbatim>\<open>ota_meta_flash.cpp\<close>) over the flash driver.

  The virtual functions are the record \<open>store\<close>; a call that returns false and leaves its output
  alone returns None. What the updater may rely on is the locale \<open>firmware_store\<close>, in terms of the
  bytes of each slot and the logical metadata; \<open>working_store\<close> adds that the operations of a sound
  part succeed. Both hold of the board's store over any flash that keeps to its sectors and words.
\<close>


section \<open>The interface\<close>

record 's store =
  st_runningSlot :: "'s \<Rightarrow> u8"
  st_slotSize :: "'s \<Rightarrow> u32"
  st_mcuId :: "'s \<Rightarrow> u8"
  st_eraseSlot :: "u8 \<Rightarrow> 's \<Rightarrow> 's \<times> bool"
  st_program :: "u8 \<Rightarrow> u32 \<Rightarrow> bytes \<Rightarrow> 's \<Rightarrow> 's \<times> bool"
  st_read :: "u8 \<Rightarrow> u32 \<Rightarrow> u32 \<Rightarrow> 's \<Rightarrow> bytes option"
  st_crc32 :: "u8 \<Rightarrow> u32 \<Rightarrow> u32 \<Rightarrow> 's \<Rightarrow> u32"
  st_readMeta :: "'s \<Rightarrow> meta_state option"
  st_writeMeta :: "meta_state \<Rightarrow> 's \<Rightarrow> 's \<times> bool"
  st_imageValid :: "u8 \<Rightarrow> u32 \<Rightarrow> 's \<Rightarrow> bool"
  st_readIdentity :: "u8 \<Rightarrow> 's \<Rightarrow> image_identity option"

section \<open>Image reads of a header-format store\<close>

definition OTA_IMAGE_HEADER_PREFIX_SIZE :: u32 where "OTA_IMAGE_HEADER_PREFIX_SIZE = 28"

definition otaReadImageHeader :: "(u8 \<Rightarrow> u32 \<Rightarrow> u32 \<Rightarrow> bytes option) \<Rightarrow> u8 \<Rightarrow> image_header option" where
  "otaReadImageHeader read slot =
     (case read slot 0 OTA_IMAGE_HEADER_PREFIX_SIZE of
        None \<Rightarrow> None
      | Some bytes \<Rightarrow> Some (memcpy_header (bytes @ replicate 484 0)))"

definition otaHeaderImageValid :: "(u8 \<Rightarrow> u32 \<Rightarrow> u32 \<Rightarrow> bytes option) \<Rightarrow> u8 \<Rightarrow> u8 \<Rightarrow> u32 \<Rightarrow> bool" where
  "otaHeaderImageValid read mcu slot n =
     (case otaReadImageHeader read slot of
        None \<Rightarrow> False
      | Some header \<Rightarrow> magic header = OTA_IMAGE_MAGIC \<and> headerVersion header = OTA_IMAGE_HEADER_VERSION \<and>
          mcuId header = mcu \<and> slotId header = slot \<and> imageSize header = n)"

definition otaHeaderIdentity :: "(u8 \<Rightarrow> u32 \<Rightarrow> u32 \<Rightarrow> bytes option) \<Rightarrow> u8 \<Rightarrow> image_identity option" where
  "otaHeaderIdentity read slot =
     (case otaReadImageHeader read slot of
        None \<Rightarrow> None
      | Some header \<Rightarrow>
          if magic header \<noteq> OTA_IMAGE_MAGIC then None
          else Some \<lparr> id_buildEpoch = buildEpoch header, id_gitHash = gitHash header \<rparr>)"


section \<open>The metadata sectors\<close>

definition rangeFits :: "u8 \<Rightarrow> u32 \<Rightarrow> u32 \<Rightarrow> bool" where
  "rangeFits area offset n =
     (if OTA_META_AREA_COUNT \<le> area then False
      else offset \<le> OTA_META_AREA_SIZE \<and> n \<le> OTA_META_AREA_SIZE - offset)"

definition OtaMetaFlashBackend_read :: "u8 \<Rightarrow> u32 \<Rightarrow> nat \<Rightarrow> 'h flash \<Rightarrow> bytes option" where
  "OtaMetaFlashBackend_read area offset n f =
     (if \<not> rangeFits area offset (of_nat n) then None
      else Some (InternalFlash_Read (otaMetaAreaBase area + offset) n f))"

definition OtaMetaFlashBackend_program ::
    "'h flash_ctl \<Rightarrow> u8 \<Rightarrow> u32 \<Rightarrow> bytes \<Rightarrow> 'h flash \<Rightarrow> 'h flash \<times> bool" where
  "OtaMetaFlashBackend_program ctl area offset data f =
     (if \<not> rangeFits area offset (of_nat (length data)) then (f, False)
      else InternalFlash_program ctl (otaMetaAreaBase area + offset) data f)"

definition OtaMetaFlashBackend_erase :: "'h flash_ctl \<Rightarrow> u8 \<Rightarrow> 'h flash \<Rightarrow> 'h flash \<times> bool" where
  "OtaMetaFlashBackend_erase ctl area f =
     (if OTA_META_AREA_COUNT \<le> area then (f, False) else InternalFlash_eraseSector ctl (otaMetaAreaSector area) f)"

definition OtaMetaFlashBackend :: "'h flash_ctl \<Rightarrow> 'h flash backend" where
  "OtaMetaFlashBackend ctl = \<lparr> AREA_SIZE = unat OTA_META_AREA_SIZE, be_read = OtaMetaFlashBackend_read,
     be_program = OtaMetaFlashBackend_program ctl, be_erase = OtaMetaFlashBackend_erase ctl \<rparr>"


section \<open>The store of the board\<close>

definition PROGRAM_WORD_SIZE :: u32 where "PROGRAM_WORD_SIZE = 4"
definition CRC_BLOCK_SIZE :: u32 where "CRC_BLOCK_SIZE = 256"

record 'h store32 =
  s_flash :: "'h flash"
  s_runningSlot :: u8
  s_writeCursor :: u32
  s_writeSlot :: u8

definition FirmwareStoreStm32_init :: "u8 \<Rightarrow> 'h flash \<Rightarrow> 'h store32" where
  "FirmwareStoreStm32_init runningSlot f =
     \<lparr> s_flash = f, s_runningSlot = (if runningSlot = OTA_SLOT_B then OTA_SLOT_B else OTA_SLOT_A),
       s_writeCursor = 0, s_writeSlot = otaOtherSlot (if runningSlot = OTA_SLOT_B then OTA_SLOT_B else OTA_SLOT_A) \<rparr>"

definition isWritableSlot :: "u8 \<Rightarrow> 'h store32 \<Rightarrow> bool" where
  "isWritableSlot slot s \<longleftrightarrow> (slot = OTA_SLOT_A \<or> slot = OTA_SLOT_B) \<and> slot \<noteq> s_runningSlot s"

definition RangeFits :: "u8 \<Rightarrow> u32 \<Rightarrow> u32 \<Rightarrow> bool" where
  "RangeFits slot offset n =
     (if slot \<noteq> OTA_SLOT_A \<and> slot \<noteq> OTA_SLOT_B then False
      else offset \<le> OTA_SLOT_SIZE \<and> n \<le> OTA_SLOT_SIZE - offset)"

text \<open>The sector loop of \<^verbatim>\<open>eraseSlot\<close>, over the sectors still to erase.\<close>

fun erase_sectors :: "'h flash_ctl \<Rightarrow> u8 list \<Rightarrow> 'h flash \<Rightarrow> 'h flash \<times> bool" where
  "erase_sectors ctl [] f = (f, True)"
| "erase_sectors ctl (sector # rest) f =
     (let (f, ok) = InternalFlash_eraseSector ctl sector f in if ok then erase_sectors ctl rest f else (f, False))"

definition slot_sectors :: "u8 \<Rightarrow> u8 list" where
  "slot_sectors slot = map (\<lambda>i. otaSlotFirstSector slot + of_nat i) [0..<unat OTA_SLOT_SECTOR_COUNT]"

definition FirmwareStoreStm32_eraseSlot :: "'h flash_ctl \<Rightarrow> u8 \<Rightarrow> 'h store32 \<Rightarrow> 'h store32 \<times> bool" where
  "FirmwareStoreStm32_eraseSlot ctl slot s =
     (if \<not> isWritableSlot slot s then (s, False)
      else let (f, ok) = erase_sectors ctl (slot_sectors slot) (s_flash s) in
        if \<not> ok then (s\<lparr> s_flash := f \<rparr>, False)
        else (s\<lparr> s_flash := f, s_writeSlot := slot, s_writeCursor := 0 \<rparr>, True))"

definition FirmwareStoreStm32_program ::
    "'h flash_ctl \<Rightarrow> u8 \<Rightarrow> u32 \<Rightarrow> bytes \<Rightarrow> 'h store32 \<Rightarrow> 'h store32 \<times> bool" where
  "FirmwareStoreStm32_program ctl slot offset data s =
     (if \<not> isWritableSlot slot s \<or> \<not> RangeFits slot offset (of_nat (length data)) then (s, False)
      else if slot \<noteq> s_writeSlot s \<or> offset \<noteq> s_writeCursor s then (s, False)
      else if offset mod PROGRAM_WORD_SIZE \<noteq> 0 then (s, False)
      else let (f, ok) = InternalFlash_program ctl (otaSlotBase slot + offset) data (s_flash s) in
        if \<not> ok then (s\<lparr> s_flash := f \<rparr>, False)
        else (s\<lparr> s_flash := f, s_writeCursor := offset + of_nat (length data) \<rparr>, True))"

definition FirmwareStoreStm32_read :: "u8 \<Rightarrow> u32 \<Rightarrow> u32 \<Rightarrow> 'h store32 \<Rightarrow> bytes option" where
  "FirmwareStoreStm32_read slot offset n s =
     (if \<not> RangeFits slot offset n then None
      else Some (InternalFlash_Read (otaSlotBase slot + offset) (unat n) (s_flash s)))"

lemma block_step:
  assumes "(d :: u32) < n"
  shows "0 < unat (min (n - d) CRC_BLOCK_SIZE)" "unat (min (n - d) CRC_BLOCK_SIZE) \<le> unat n - unat d"
    "unat (d + min (n - d) CRC_BLOCK_SIZE) = unat d + unat (min (n - d) CRC_BLOCK_SIZE)"
proof -
  have s: "unat (n - d) = unat n - unat d" using assms by (intro unat_sub) simp
  have "unat (min (n - d) CRC_BLOCK_SIZE) = min (unat n - unat d) 256"
    by (simp add: min_def word_le_nat_alt s CRC_BLOCK_SIZE_def)
  then show "0 < unat (min (n - d) CRC_BLOCK_SIZE)" and le: "unat (min (n - d) CRC_BLOCK_SIZE) \<le> unat n - unat d"
    using assms by (simp_all add: word_less_nat_alt)
  show "unat (d + min (n - d) CRC_BLOCK_SIZE) = unat d + unat (min (n - d) CRC_BLOCK_SIZE)"
    using le unat_bound [of n] assms by (intro unat_add_no_overflow) (simp add: word_less_nat_alt)
qed

text \<open>The block loop of \<^verbatim>\<open>crc32\<close>; None where it returns 0 on a failed read.\<close>

function crc_blocks :: "u8 \<Rightarrow> u32 \<Rightarrow> u32 \<Rightarrow> u32 \<Rightarrow> crc32 \<Rightarrow> 'h store32 \<Rightarrow> crc32 option" where
  "crc_blocks slot offset n dn crc s =
     (if dn < n then
        (case FirmwareStoreStm32_read slot (offset + dn) (min (n - dn) CRC_BLOCK_SIZE) s of
           None \<Rightarrow> None
         | Some block \<Rightarrow> crc_blocks slot offset n (dn + min (n - dn) CRC_BLOCK_SIZE) (Crc32Mpeg2_update crc block) s)
      else Some crc)"
  by auto
termination
proof (relation "measure (\<lambda>(slot, offset, n, d, crc, s). unat n - unat d)")
  fix n d :: u32
  fix slot :: u8 and offset :: u32 and crc :: crc32 and s :: "'h store32" and block :: bytes
  assume d: "d < n"
  show "((slot, offset, n, d + min (n - d) CRC_BLOCK_SIZE, Crc32Mpeg2_update crc block, s), slot, offset, n, d, crc, s)
      \<in> measure (\<lambda>(slot, offset, n, d, crc, s). unat n - unat d)"
    using block_step [OF d] d by (simp add: word_less_nat_alt)
qed simp

declare crc_blocks.simps [simp del]

definition FirmwareStoreStm32_crc32 :: "u8 \<Rightarrow> u32 \<Rightarrow> u32 \<Rightarrow> 'h store32 \<Rightarrow> u32" where
  "FirmwareStoreStm32_crc32 slot offset n s =
     (case crc_blocks slot offset n 0 Crc32Mpeg2_init s of None \<Rightarrow> 0 | Some crc \<Rightarrow> Crc32Mpeg2_finish crc)"

definition FirmwareStoreStm32_readMeta :: "'h flash_ctl \<Rightarrow> 'h store32 \<Rightarrow> meta_state option" where
  "FirmwareStoreStm32_readMeta ctl s = OtaMetaLog_read (OtaMetaFlashBackend ctl) (s_flash s)"

definition FirmwareStoreStm32_writeMeta :: "'h flash_ctl \<Rightarrow> meta_state \<Rightarrow> 'h store32 \<Rightarrow> 'h store32 \<times> bool" where
  "FirmwareStoreStm32_writeMeta ctl state s =
     (let (f, ok) = OtaMetaLog_append (OtaMetaFlashBackend ctl) state (s_flash s) in (s\<lparr> s_flash := f \<rparr>, ok))"

definition FirmwareStoreStm32 :: "'h flash_ctl \<Rightarrow> 'h store32 store" where
  "FirmwareStoreStm32 ctl = \<lparr>
     st_runningSlot = s_runningSlot,
     st_slotSize = (\<lambda>s. OTA_SLOT_SIZE),
     st_mcuId = (\<lambda>s. OTA_MCU_STM32F405),
     st_eraseSlot = FirmwareStoreStm32_eraseSlot ctl,
     st_program = FirmwareStoreStm32_program ctl,
     st_read = FirmwareStoreStm32_read,
     st_crc32 = FirmwareStoreStm32_crc32,
     st_readMeta = FirmwareStoreStm32_readMeta ctl,
     st_writeMeta = FirmwareStoreStm32_writeMeta ctl,
     st_imageValid = (\<lambda>slot n s. otaHeaderImageValid (\<lambda>slot offset k. FirmwareStoreStm32_read slot offset k s) OTA_MCU_STM32F405 slot n),
     st_readIdentity = (\<lambda>slot s. otaHeaderIdentity (\<lambda>slot offset n. FirmwareStoreStm32_read slot offset n s) slot) \<rparr>"



section \<open>Where things are\<close>

definition in_slot :: "u8 \<Rightarrow> u32 \<Rightarrow> bool" where
  "in_slot slot = in_range (otaSlotBase slot) (unat OTA_SLOT_SIZE)"

definition in_meta :: "u32 \<Rightarrow> bool" where
  "in_meta x \<longleftrightarrow> in_sector OTA_META_AREA_0_SECTOR x \<or> in_sector OTA_META_AREA_1_SECTOR x"

lemma slot_values: "unat OTA_SLOT_SIZE = 393216" "unat (otaSlotBase OTA_SLOT_A) = 0x08020000"
  "unat (otaSlotBase OTA_SLOT_B) = 0x08080000"
  by (simp_all add: flash_map_defs slot_defs)

lemma unat_slotBase: "unat (otaSlotBase slot) = (if slot = OTA_SLOT_B then 0x08080000 else 0x08020000)"
  by (simp add: flash_map_defs slot_defs)

lemma unat_metaBase: "unat (otaMetaAreaBase area) = (if area = 0 then 0x08008000 else 0x0800C000)"
  by (simp add: flash_map_defs)

lemma in_slot_unat:
  "in_slot slot x \<longleftrightarrow> unat (otaSlotBase slot) \<le> unat x \<and> unat x < unat (otaSlotBase slot) + 393216"
  by (simp add: in_slot_def in_range_def slot_values)

lemma in_meta_unat: "in_meta x \<longleftrightarrow> 0x08008000 \<le> unat x \<and> unat x < 0x08010000"
  by (auto simp: in_meta_def in_sector_def in_range_def sector_defs flash_map_defs)

lemma in_meta_area:
  "area \<in> {0, 1} \<Longrightarrow> in_sector (otaMetaAreaSector area) x \<longleftrightarrow>
     unat (otaMetaAreaBase area) \<le> unat x \<and> unat x < unat (otaMetaAreaBase area) + 16384"
  by (auto simp: in_sector_def in_range_def sector_defs flash_map_defs)

lemma slot_offset: "i < 393216 \<Longrightarrow> unat (otaSlotBase slot + of_nat i) = unat (otaSlotBase slot) + i"
  by (rule unat_plus_of_nat) (simp add: unat_slotBase)

text \<open>The sectors \<^verbatim>\<open>eraseSlot\<close> erases are exactly the slot.\<close>

lemma slot_sectors_cases: "slot_sectors slot = (if slot = OTA_SLOT_B then [8, 9, 10] else [5, 6, 7])"
proof -
  have u: "[0..<unat OTA_SLOT_SECTOR_COUNT] = [0, 1, 2]" by (simp add: flash_map_defs upt_rec)
  show ?thesis unfolding slot_sectors_def u by (simp add: flash_map_defs slot_defs)
qed

lemma slot_sectors_exact: "(\<exists>sector \<in> set (slot_sectors slot). in_sector sector x) \<longleftrightarrow> in_slot slot x"
proof -
  have "in_sector 5 x \<longleftrightarrow> 0x08020000 \<le> unat x \<and> unat x < 0x08040000"
    "in_sector 6 x \<longleftrightarrow> 0x08040000 \<le> unat x \<and> unat x < 0x08060000"
    "in_sector 7 x \<longleftrightarrow> 0x08060000 \<le> unat x \<and> unat x < 0x08080000"
    "in_sector 8 x \<longleftrightarrow> 0x08080000 \<le> unat x \<and> unat x < 0x080A0000"
    "in_sector 9 x \<longleftrightarrow> 0x080A0000 \<le> unat x \<and> unat x < 0x080C0000"
    "in_sector 10 x \<longleftrightarrow> 0x080C0000 \<le> unat x \<and> unat x < 0x080E0000"
    by (simp_all add: in_sector_def in_range_def sector_defs)
  moreover have "a \<le> n \<and> n < b \<or> b \<le> n \<and> n < c \<or> c \<le> n \<and> n < d \<longleftrightarrow> a \<le> n \<and> n < d"
    if "a \<le> b" "b \<le> c" "c \<le> d" for a b c d n :: nat using that by auto
  ultimately show ?thesis
    by (cases "slot = OTA_SLOT_B") (simp_all add: slot_sectors_cases in_slot_unat unat_slotBase)
qed


lemma program_refused:
  "\<not> isWritableSlot slot s \<or> \<not> RangeFits slot off (of_nat (length data)) \<or> off mod PROGRAM_WORD_SIZE \<noteq> 0 \<Longrightarrow>
     FirmwareStoreStm32_program ctl slot off data s = (s, False)"
  unfolding FirmwareStoreStm32_program_def by (elim disjE) (simp_all split del: if_split cong: if_cong)

lemma round_up_fits: "m mod 4 = 0 \<Longrightarrow> N mod 4 = 0 \<Longrightarrow> m + n \<le> N \<Longrightarrow> m + 4 * ((n + 3) div 4) \<le> (N :: nat)"
  by presburger

lemma area_01: "(area :: u8) < 2 \<Longrightarrow> area \<in> {0, 1}"
proof -
  assume "area < 2"
  then have "unat area = unat (0 :: u8) \<or> unat area = unat (1 :: u8)" by (simp add: word_less_nat_alt) linarith
  then show ?thesis by (auto simp only: word_unat_eq_iff)
qed

lemma RangeFits_unat:
  assumes "RangeFits slot off (of_nat n)" "n < 2 ^ 32"
  shows "slot = OTA_SLOT_A \<or> slot = OTA_SLOT_B" "unat off + n \<le> 393216"
proof -
  show "slot = OTA_SLOT_A \<or> slot = OTA_SLOT_B" using assms(1) by (auto simp: RangeFits_def split: if_splits)
  have l: "unat (of_nat n :: u32) = n" using assms(2) by (intro unat_of_nat_small) simp
  have off: "off \<le> OTA_SLOT_SIZE" "of_nat n \<le> OTA_SLOT_SIZE - off" using assms(1) by (auto simp: RangeFits_def split: if_splits)
  have "unat (OTA_SLOT_SIZE - off) = 393216 - unat off" using unat_sub [OF off(1)] slot_values(1) by simp
  then show "unat off + n \<le> 393216" using off l slot_values(1) by (simp add: word_le_nat_alt)
qed

lemma slot_offset_word: "unat off \<le> 393216 \<Longrightarrow> unat (otaSlotBase slot + off) = unat (otaSlotBase slot) + unat off"
  by (rule unat_add_no_overflow) (simp add: unat_slotBase)


section \<open>The metadata backend over a flash\<close>

definition meta_rec :: "'h flash \<Rightarrow> u8 \<times> nat \<Rightarrow> bytes" where
  "meta_rec f p = InternalFlash_Read (otaMetaAreaBase (fst p) + record_offset (snd p)) OTA_META_RECORD_SIZE f"

lemma flash_backend_simps [simp]:
  "be_read (OtaMetaFlashBackend ctl) = OtaMetaFlashBackend_read"
  "be_program (OtaMetaFlashBackend ctl) = OtaMetaFlashBackend_program ctl"
  "be_erase (OtaMetaFlashBackend ctl) = OtaMetaFlashBackend_erase ctl"
  by (simp_all add: OtaMetaFlashBackend_def)

lemma slots_per_area: "SLOT_COUNT_PER_AREA (OtaMetaFlashBackend ctl) = 1024"
  by (simp add: SLOT_COUNT_PER_AREA_def OtaMetaFlashBackend_def flash_map_defs OTA_META_RECORD_SIZE_def)

lemma meta_slot_iff: "p \<in> set (log_slots (OtaMetaFlashBackend ctl)) \<longleftrightarrow> fst p \<in> {0, 1} \<and> snd p < 1024"
  by (simp add: log_slots_iff slots_per_area)

lemma record_offset_unat: "i < 1024 \<Longrightarrow> unat (record_offset i) = i * 16"
  unfolding record_offset_def OTA_META_RECORD_SIZE_def by (rule unat_of_nat_small) simp

lemma meta_addr:
  assumes "i < 1024"
  shows "unat (otaMetaAreaBase area + record_offset i) = unat (otaMetaAreaBase area) + 16 * i"
  using unat_plus_of_nat [of "otaMetaAreaBase area" "i * 16"] assms
  by (simp add: record_offset_def OTA_META_RECORD_SIZE_def unat_metaBase mult.commute)

lemma meta_addr_byte:
  assumes "i < 1024" "k < 16"
  shows "unat (otaMetaAreaBase area + record_offset i + of_nat k) = unat (otaMetaAreaBase area) + 16 * i + k"
  using unat_plus_of_nat [of "otaMetaAreaBase area + record_offset i" k] meta_addr [OF assms(1)] assms
  by (simp add: unat_metaBase)

lemma rangeFits_slot:
  assumes "area \<in> {0, 1}" "i < 1024" "n \<le> 16"
  shows "rangeFits area (record_offset i) (of_nat n)"
proof -
  have o: "unat (record_offset i) \<le> unat OTA_META_AREA_SIZE"
    using record_offset_unat [OF assms(2)] assms(2) by (simp add: flash_map_defs)
  then have s: "unat (OTA_META_AREA_SIZE - record_offset i) = 16384 - i * 16"
    using record_offset_unat [OF assms(2)] by (subst unat_sub) (simp_all add: word_le_nat_alt flash_map_defs)
  have "unat (of_nat n :: u32) = n" using assms(3) by (intro unat_of_nat_small) simp
  then show ?thesis using assms o s by (auto simp: rangeFits_def flash_map_defs word_le_nat_alt)
qed

lemma meta_rec_in: "x = otaMetaAreaBase area + record_offset i + of_nat k \<Longrightarrow> area \<in> {0, 1} \<Longrightarrow> i < 1024 \<Longrightarrow> k < 16 \<Longrightarrow>
    in_sector (otaMetaAreaSector area) x"
  using meta_addr_byte [of i k area] by (simp add: in_meta_area)

context flash_controller
begin

lemma meta_program_frame:
  assumes "area \<in> {0, 1}" "i < 1024" "length data \<le> 16" "length data mod 4 = 0"
    "\<not> in_range (otaMetaAreaBase area + record_offset i) (length data) x"
  shows "cells (fst (OtaMetaFlashBackend_program ctl area (record_offset i) data f)) x = cells f x"
proof -
  have "4 * ((length data + 3) div 4) = length data" using assms(4) by (auto elim!: dvdE simp: mod_eq_0_iff_dvd)
  moreover have "unat (otaMetaAreaBase area + record_offset i) + length data \<le> 2 ^ 32"
    using meta_addr [OF assms(2), of area] assms by (simp add: unat_metaBase)
  ultimately show ?thesis
    using program_frame [of "otaMetaAreaBase area + record_offset i" data x f] assms(5)
    by (simp add: OtaMetaFlashBackend_program_def)
qed

end

sublocale flash_controller \<subseteq> meta: meta_backend "OtaMetaFlashBackend ctl" meta_rec
proof unfold_locales
  show "0 < SLOT_COUNT_PER_AREA (OtaMetaFlashBackend ctl)" by (simp add: slots_per_area)
next
  fix p b
  assume p: "p \<in> set (log_slots (OtaMetaFlashBackend ctl))"
  show "be_read (OtaMetaFlashBackend ctl) (fst p) (record_offset (snd p)) OTA_META_RECORD_SIZE b = Some (meta_rec b p)"
    using rangeFits_slot [of "fst p" "snd p" 16] p
    by (simp add: OtaMetaFlashBackend_read_def meta_rec_def meta_slot_iff OTA_META_RECORD_SIZE_def)
  show "length (meta_rec b p) = OTA_META_RECORD_SIZE" by (simp add: meta_rec_def)
next
  fix p b and data :: bytes
  assume p: "p \<in> set (log_slots (OtaMetaFlashBackend ctl))"
    and d: "length data \<le> OTA_META_RECORD_SIZE" "length data mod 4 = 0"
    and ok: "snd (be_program (OtaMetaFlashBackend ctl) (fst p) (record_offset (snd p)) data b)"
  let ?a = "otaMetaAreaBase (fst p) + record_offset (snd p)"
  let ?f = "fst (OtaMetaFlashBackend_program ctl (fst p) (record_offset (snd p)) data b)"
  have in1: "fst p \<in> {0, 1}" "snd p < 1024" "length data \<le> 16" using p d by (simp_all add: meta_slot_iff OTA_META_RECORD_SIZE_def)
  have w: "InternalFlash_Read ?a (length data) ?f = data"
    using program_written [of ?a data b] ok in1 meta_addr [of "snd p" "fst p"]
    by (auto simp: OtaMetaFlashBackend_program_def unat_metaBase split: if_splits)
  have "InternalFlash_Read (?a + of_nat (length data)) (16 - length data) ?f =
        InternalFlash_Read (?a + of_nat (length data)) (16 - length data) b"
  proof (rule Read_eqI)
    fix i assume i: "i < 16 - length data"
    have "unat (?a + of_nat (length data) + of_nat i) = unat ?a + (length data + i)"
      using meta_addr_byte [OF in1(2), of "length data + i" "fst p"] meta_addr [OF in1(2), of "fst p"] i
      by (simp add: add.assoc)
    then show "cells ?f (?a + of_nat (length data) + of_nat i) = cells b (?a + of_nat (length data) + of_nat i)"
      by (intro meta_program_frame in1 d(2)) (simp add: in_range_def)
  qed
  then show "meta_rec (fst (be_program (OtaMetaFlashBackend ctl) (fst p) (record_offset (snd p)) data b)) p =
      data @ drop (length data) (meta_rec b p)"
    using w Read_append [of ?a "length data" "16 - length data" ?f] in1(3)
    by (simp add: meta_rec_def OTA_META_RECORD_SIZE_def drop_Read del: length_greater_0_conv)
next
  fix p q b and data :: bytes
  assume pq: "p \<in> set (log_slots (OtaMetaFlashBackend ctl))" "q \<in> set (log_slots (OtaMetaFlashBackend ctl))" "q \<noteq> p"
    and d: "length data \<le> OTA_META_RECORD_SIZE" "length data mod 4 = 0"
  have in1: "fst p \<in> {0, 1}" "snd p < 1024" "fst q \<in> {0, 1}" "snd q < 1024" "length data \<le> 16"
    using pq d by (simp_all add: meta_slot_iff OTA_META_RECORD_SIZE_def)
  show "meta_rec (fst (be_program (OtaMetaFlashBackend ctl) (fst p) (record_offset (snd p)) data b)) q = meta_rec b q"
    unfolding meta_rec_def OTA_META_RECORD_SIZE_def
  proof (rule Read_eqI)
    fix i :: nat assume i: "i < 16"
    have "\<not> in_range (otaMetaAreaBase (fst p) + record_offset (snd p)) (length data)
            (otaMetaAreaBase (fst q) + record_offset (snd q) + of_nat i)"
      using meta_addr [OF in1(2), of "fst p"] meta_addr_byte [OF in1(4) i, of "fst q"] in1 i pq(3)
      by (cases p; cases q) (auto simp: in_range_def unat_metaBase)
    then show "cells (fst (be_program (OtaMetaFlashBackend ctl) (fst p) (record_offset (snd p)) data b))
        (otaMetaAreaBase (fst q) + record_offset (snd q) + of_nat i) =
        cells b (otaMetaAreaBase (fst q) + record_offset (snd q) + of_nat i)"
      using meta_program_frame [OF in1(1,2,5) d(2)] by simp
  qed
next
  fix p b
  assume p: "p \<in> set (log_slots (OtaMetaFlashBackend ctl))" and ok: "snd (be_erase (OtaMetaFlashBackend ctl) (fst p) b)"
  have in1: "fst p \<in> {0, 1}" "snd p < 1024" using p by (simp_all add: meta_slot_iff)
  then have e: "OtaMetaFlashBackend_erase ctl (fst p) b = InternalFlash_eraseSector ctl (otaMetaAreaSector (fst p)) b"
    by (auto simp: OtaMetaFlashBackend_erase_def flash_map_defs word_le_nat_alt)
  show "meta_rec (fst (be_erase (OtaMetaFlashBackend ctl) (fst p) b)) p = replicate OTA_META_RECORD_SIZE BLANK_BYTE"
    using ok eraseSector_erased [OF _ meta_rec_in [OF refl in1]]
    by (intro nth_equalityI) (simp_all add: meta_rec_def InternalFlash_Read_def e
        OTA_META_RECORD_SIZE_def BLANK_BYTE_def)
next
  fix area q b
  assume a: "area \<in> {0, 1 :: u8}" and q: "q \<in> set (log_slots (OtaMetaFlashBackend ctl))" "fst q \<noteq> area"
  have in1: "fst q \<in> {0, 1}" "snd q < 1024" using q by (simp_all add: meta_slot_iff)
  have e: "OtaMetaFlashBackend_erase ctl area b = InternalFlash_eraseSector ctl (otaMetaAreaSector area) b"
    using a by (auto simp: OtaMetaFlashBackend_erase_def flash_map_defs word_le_nat_alt)
  show "meta_rec (fst (be_erase (OtaMetaFlashBackend ctl) area b)) q = meta_rec b q"
    unfolding meta_rec_def OTA_META_RECORD_SIZE_def
  proof (rule Read_eqI)
    fix i :: nat assume i: "i < 16"
    have "\<not> in_sector (otaMetaAreaSector area) (otaMetaAreaBase (fst q) + record_offset (snd q) + of_nat i)"
      using meta_addr_byte [OF in1(2) i, of "fst q"] a in1 q(2) i
      by (auto simp: in_meta_area unat_metaBase)
    then show "cells (fst (be_erase (OtaMetaFlashBackend ctl) area b)) (otaMetaAreaBase (fst q) + record_offset (snd q) + of_nat i) =
        cells b (otaMetaAreaBase (fst q) + record_offset (snd q) + of_nat i)"
      using eraseSector_frame by (simp add: e)
  qed
qed


section \<open>What the store of the board touches\<close>

context flash_controller
begin

lemma meta_program_in_meta:
  assumes "\<not> in_meta x" "length data < 2 ^ 32"
  shows "cells (fst (OtaMetaFlashBackend_program ctl area off data f)) x = cells f x"
proof (cases "rangeFits area off (of_nat (length data)) \<and> (otaMetaAreaBase area + off) mod 4 = 0")
  case True
  have area: "area \<in> {0, 1}"
    using True by (intro area_01) (auto simp: rangeFits_def flash_map_defs not_le [symmetric] split: if_splits)
  have l: "unat (of_nat (length data) :: u32) = length data" using assms(2) by (intro unat_of_nat_small) simp
  have off: "off \<le> 0x4000" "of_nat (length data) \<le> 0x4000 - off" using True by (auto simp: rangeFits_def flash_map_defs split: if_splits)
  then have fit: "unat off + length data \<le> 16384"
    using l by (simp add: word_le_nat_alt unat_sub_if_size)
  have u: "unat (otaMetaAreaBase area + off) = unat (otaMetaAreaBase area) + unat off"
    using fit by (intro unat_add_no_overflow) (simp add: unat_metaBase)
  have "unat (otaMetaAreaBase area + off) mod 4 = 0" by (rule unat_mod_4 [OF conjunct2 [OF True]])
  then have "unat off mod 4 = 0" unfolding u unat_metaBase by (auto split: if_splits) presburger+
  then have "unat off + 4 * ((length data + 3) div 4) \<le> 16384" using fit by (intro round_up_fits) simp_all
  then have "\<not> in_range (otaMetaAreaBase area + off) (4 * ((length data + 3) div 4)) x"
    using assms(1) u by (auto simp: in_range_def in_meta_unat unat_metaBase split: if_splits)
  then show ?thesis using program_frame [of "otaMetaAreaBase area + off" data x f] fit u
    by (auto simp: OtaMetaFlashBackend_program_def unat_metaBase)
qed (auto simp: OtaMetaFlashBackend_program_def InternalFlash_program_def)

lemma meta_erase_in_meta: "\<not> in_meta x \<Longrightarrow> cells (fst (OtaMetaFlashBackend_erase ctl area f)) x = cells f x"
  by (auto simp: OtaMetaFlashBackend_erase_def in_meta_def otaMetaAreaSector_def eraseSector_frame)

lemma append_frame:
  assumes "\<not> in_meta x" "meta_ok m"
  shows "cells (fst (OtaMetaLog_append (OtaMetaFlashBackend ctl) m f)) x = cells f x"
proof -
  have room: "cells (fst (make_room (OtaMetaFlashBackend ctl) sc f)) x = cells f x" for sc
    using assms(1) by (auto simp: make_room_def Let_def split_beta meta_erase_in_meta split: option.splits)
  have "length (record_bytes (new_record sc m)) < 2 ^ 32" for sc
    using length_new_record [OF assms(2)] by (simp add: OTA_META_RECORD_SIZE_def)
  then show ?thesis
    using room [of "meta.scan_of f"] meta_program_in_meta [OF assms(1)]
    by (auto simp: OtaMetaLog_append_def meta.scanAreas_pass split: prod.splits option.splits)
qed

lemma meta_cells:
  assumes "\<And>x. in_meta x \<Longrightarrow> cells f x = cells g x"
  shows "scanAreas (OtaMetaFlashBackend ctl) f = scanAreas (OtaMetaFlashBackend ctl) g"
proof (rule meta.scan_of_cong)
  fix q assume "q \<in> set (log_slots (OtaMetaFlashBackend ctl))"
  then have q: "fst q \<in> {0, 1}" "snd q < 1024" by (simp_all add: meta_slot_iff)
  show "meta_rec f q = meta_rec g q"
    unfolding meta_rec_def OTA_META_RECORD_SIZE_def
  proof (rule Read_eqI)
    fix i :: nat assume "i < 16"
    then have "in_sector (otaMetaAreaSector (fst q)) (otaMetaAreaBase (fst q) + record_offset (snd q) + of_nat i)"
      using meta_rec_in [OF refl q] by simp
    then show "cells f (otaMetaAreaBase (fst q) + record_offset (snd q) + of_nat i) =
        cells g (otaMetaAreaBase (fst q) + record_offset (snd q) + of_nat i)"
      using q by (intro assms) (auto simp: in_meta_def otaMetaAreaSector_def)
  qed
qed

lemma erase_sectors_frame:
  "\<not> (\<exists>s \<in> set sectors. in_sector s x) \<Longrightarrow> cells (fst (erase_sectors ctl sectors f)) x = cells f x"
  by (induction sectors arbitrary: f) (simp_all add: split_beta eraseSector_frame)

lemma erase_sectors_erased:
  assumes "snd (erase_sectors ctl sectors f)" "\<exists>s \<in> set sectors. in_sector s x"
  shows "cells (fst (erase_sectors ctl sectors f)) x = 0xFF"
  using assms
proof (induction sectors arbitrary: f)
  case (Cons s rest)
  let ?f = "fst (InternalFlash_eraseSector ctl s f)"
  have ok: "snd (InternalFlash_eraseSector ctl s f)" "snd (erase_sectors ctl rest ?f)"
    using Cons.prems(1) by (auto simp: split_beta split: if_splits)
  show ?case
  proof (cases "\<exists>t \<in> set rest. in_sector t x")
    case True
    then show ?thesis using Cons.IH [OF ok(2)] ok by (simp add: split_beta)
  next
    case False
    then show ?thesis using Cons.prems(2) ok eraseSector_erased [OF ok(1)] erase_sectors_frame [OF False]
      by (auto simp: split_beta)
  qed
qed simp

text \<open>The whole effect of each operation of the store on the flash.\<close>

lemma eraseSlot_frame:
  "\<not> in_slot slot x \<or> \<not> isWritableSlot slot s \<Longrightarrow>
     cells (s_flash (fst (FirmwareStoreStm32_eraseSlot ctl slot s))) x = cells (s_flash s) x"
  using slot_sectors_exact [of slot x]
  by (auto simp: FirmwareStoreStm32_eraseSlot_def split_beta erase_sectors_frame)

lemma program_frame_slot:
  assumes "\<not> in_slot slot x \<or> \<not> isWritableSlot slot s" "length data < 2 ^ 32"
  shows "cells (s_flash (fst (FirmwareStoreStm32_program ctl slot off data s))) x = cells (s_flash s) x"
proof (cases "isWritableSlot slot s \<and> RangeFits slot off (of_nat (length data)) \<and> off mod PROGRAM_WORD_SIZE = 0")
  case True
  note fit = RangeFits_unat [OF conjunct1 [OF conjunct2 [OF True]] assms(2)]
  have u: "unat (otaSlotBase slot + off) = unat (otaSlotBase slot) + unat off" using fit(2) slot_offset_word by simp
  have "unat off mod 4 = 0" using True unat_mod_4 by (simp add: PROGRAM_WORD_SIZE_def)
  then have "unat off + 4 * ((length data + 3) div 4) \<le> 393216" using fit by (intro round_up_fits) simp_all
  then have "\<not> in_range (otaSlotBase slot + off) (4 * ((length data + 3) div 4)) x"
    using assms(1) True u by (auto simp: in_range_def in_slot_unat)
  then show ?thesis using program_frame [of "otaSlotBase slot + off" data x "s_flash s"] fit u
    by (auto simp: FirmwareStoreStm32_program_def Let_def split_beta unat_slotBase)
next
  case False
  then have "\<not> isWritableSlot slot s \<or> \<not> RangeFits slot off (of_nat (length data)) \<or> off mod PROGRAM_WORD_SIZE \<noteq> 0"
    by (simp only: de_Morgan_conj)
  then have "FirmwareStoreStm32_program ctl slot off data s = (s, False)" by (rule program_refused)
  then show ?thesis by simp
qed

end


section \<open>The log on the flash\<close>

text \<open>The facts of the log, of the backend over the flash of a given controller.\<close>

context flash_controller
begin

lemmas log_append_read = meta.append_read
lemmas log_power_cut = meta.append_power_cut

end

end
