(* ===== verification/Store_Contract.thy ===== *)
theory Store_Contract
  imports Firmware_Store
begin

text \<open>
  What a firmware store promises the updater, and that the store of the board keeps it. The contract
  speaks of the bytes of each slot (\<open>content\<close>) and of the number of metadata records written so far
  (\<open>metas\<close>), and of all the rest of the memory (\<open>rest\<close>), which no operation touches: an erase or a program touches its own slot and nothing else, a program that returns true
  extends the prefix by exactly its bytes, the checksum is that of the bytes, and a metadata record
  that was written is the one read. \<open>working_store\<close> is the store of a part that does not fail:
  \<open>open_at\<close> says that a slot was erased and programmed up to an offset, and \<open>image_ok\<close> what makes the
  bytes of a transfer an image for a slot.
\<close>

locale firmware_store =
  fixes st :: "'s store" and content :: "'s \<Rightarrow> u8 \<Rightarrow> bytes" and metas :: "'s \<Rightarrow> nat" and rest :: "'s \<Rightarrow> 'r"
  assumes content_length: "length (content s t) = unat (st_slotSize st s)"
    and erase_content: "t \<in> {OTA_SLOT_A, OTA_SLOT_B} \<Longrightarrow> t \<noteq> slot \<Longrightarrow> content (fst (st_eraseSlot st slot s)) t = content s t"
    and erase_rest: "rest (fst (st_eraseSlot st slot s)) = rest s"
    and erase_meta: "st_readMeta st (fst (st_eraseSlot st slot s)) = st_readMeta st s"
      "metas (fst (st_eraseSlot st slot s)) = metas s"
    and erase_const: "st_runningSlot st (fst (st_eraseSlot st slot s)) = st_runningSlot st s"
      "st_slotSize st (fst (st_eraseSlot st slot s)) = st_slotSize st s"
    and program_content: "t \<in> {OTA_SLOT_A, OTA_SLOT_B} \<Longrightarrow> t \<noteq> slot \<Longrightarrow> length data < 2 ^ 32 \<Longrightarrow>
      content (fst (st_program st slot off data s)) t = content s t"
    and program_rest: "length data < 2 ^ 32 \<Longrightarrow> rest (fst (st_program st slot off data s)) = rest s"
    and program_meta: "length data < 2 ^ 32 \<Longrightarrow> st_readMeta st (fst (st_program st slot off data s)) = st_readMeta st s"
      "length data < 2 ^ 32 \<Longrightarrow> metas (fst (st_program st slot off data s)) = metas s"
    and program_const: "st_runningSlot st (fst (st_program st slot off data s)) = st_runningSlot st s"
      "st_slotSize st (fst (st_program st slot off data s)) = st_slotSize st s"
    and program_prefix: "snd (st_program st slot off data s) \<Longrightarrow> length data < 2 ^ 32 \<Longrightarrow>
      unat off + length data \<le> unat (st_slotSize st s) \<and>
      take (unat off + length data) (content (fst (st_program st slot off data s)) slot) =
        take (unat off) (content s slot) @ data"
    and crc_content: "slot \<in> {OTA_SLOT_A, OTA_SLOT_B} \<Longrightarrow> unat n \<le> unat (st_slotSize st s) \<Longrightarrow>
      st_crc32 st slot 0 n s = crc32Mpeg2 (take (unat n) (content s slot))"
    and meta_content: "meta_ok m \<Longrightarrow> t \<in> {OTA_SLOT_A, OTA_SLOT_B} \<Longrightarrow> content (fst (st_writeMeta st m s)) t = content s t"
    and meta_rest: "meta_ok m \<Longrightarrow> rest (fst (st_writeMeta st m s)) = rest s"
    and meta_const: "st_runningSlot st (fst (st_writeMeta st m s)) = st_runningSlot st s"
      "st_slotSize st (fst (st_writeMeta st m s)) = st_slotSize st s"
    and meta_written: "meta_ok m \<Longrightarrow> metas s < 2 ^ 32 - 1 \<Longrightarrow> snd (st_writeMeta st m s) \<Longrightarrow>
      st_readMeta st (fst (st_writeMeta st m s)) = Some m \<and> metas (fst (st_writeMeta st m s)) = metas s + 1"
    and meta_read: "st_readMeta st s = Some m \<Longrightarrow> meta_ok m"

locale working_store = firmware_store +
  fixes open_at :: "'s \<Rightarrow> u8 \<Rightarrow> nat \<Rightarrow> bool" and image_ok :: "u8 \<Rightarrow> u32 \<Rightarrow> bytes \<Rightarrow> bool"
  assumes image_content: "slot \<in> {OTA_SLOT_A, OTA_SLOT_B} \<Longrightarrow> OTA_IMAGE_HEADER_SIZE \<le> k \<Longrightarrow> k \<le> st_slotSize st s \<Longrightarrow>
      st_imageValid st slot k s \<longleftrightarrow> image_ok slot k (take (unat k) (content s slot))"
    and erase_works: "slot \<in> {OTA_SLOT_A, OTA_SLOT_B} \<Longrightarrow> slot \<noteq> st_runningSlot st s \<Longrightarrow>
      snd (st_eraseSlot st slot s) \<and> open_at (fst (st_eraseSlot st slot s)) slot 0"
    and program_works: "open_at s slot (unat off) \<Longrightarrow> unat off mod 4 = 0 \<Longrightarrow> data \<noteq> [] \<Longrightarrow>
      unat off + length data \<le> unat (st_slotSize st s) \<Longrightarrow>
      snd (st_program st slot off data s) \<and> open_at (fst (st_program st slot off data s)) slot (unat off + length data)"
    and meta_works: "meta_ok m \<Longrightarrow> snd (st_writeMeta st m s)"
    and meta_reads: "\<exists>m. st_readMeta st s = Some m"
    and meta_open: "meta_ok m \<Longrightarrow> open_at s slot n \<Longrightarrow> open_at (fst (st_writeMeta st m s)) slot n"


section \<open>The board keeps the contract\<close>

definition slot_content :: "'h store32 \<Rightarrow> u8 \<Rightarrow> bytes" where
  "slot_content s slot = InternalFlash_Read (otaSlotBase slot) (unat OTA_SLOT_SIZE) (s_flash s)"

definition other_cells :: "'h store32 \<Rightarrow> u32 \<Rightarrow> u8" where
  "other_cells s = (\<lambda>x. if in_slot OTA_SLOT_A x \<or> in_slot OTA_SLOT_B x \<or> in_meta x then 0 else cells (s_flash s) x)"

definition meta_count :: "'h flash_ctl \<Rightarrow> 'h store32 \<Rightarrow> nat" where
  "meta_count ctl s = log_counter (OtaMetaFlashBackend ctl) (s_flash s)"

lemma store32_simps [simp]:
  "st_runningSlot (FirmwareStoreStm32 ctl) = s_runningSlot"
  "st_slotSize (FirmwareStoreStm32 ctl) s = OTA_SLOT_SIZE"
  "st_mcuId (FirmwareStoreStm32 ctl) s = OTA_MCU_STM32F405"
  "st_eraseSlot (FirmwareStoreStm32 ctl) = FirmwareStoreStm32_eraseSlot ctl"
  "st_program (FirmwareStoreStm32 ctl) = FirmwareStoreStm32_program ctl"
  "st_read (FirmwareStoreStm32 ctl) = FirmwareStoreStm32_read"
  "st_crc32 (FirmwareStoreStm32 ctl) = FirmwareStoreStm32_crc32"
  "st_readMeta (FirmwareStoreStm32 ctl) = FirmwareStoreStm32_readMeta ctl"
  "st_writeMeta (FirmwareStoreStm32 ctl) = FirmwareStoreStm32_writeMeta ctl"
  by (simp_all add: FirmwareStoreStm32_def)

lemma slot_content_cong:
  assumes "\<And>x. in_slot t x \<Longrightarrow> cells (s_flash s) x = cells (s_flash s') x"
  shows "slot_content s t = slot_content s' t"
  unfolding slot_content_def
proof (rule Read_eqI)
  fix i assume "i < unat OTA_SLOT_SIZE"
  then have "in_slot t (otaSlotBase t + of_nat i)" by (simp add: in_slot_unat slot_offset slot_values)
  then show "cells (s_flash s) (otaSlotBase t + of_nat i) = cells (s_flash s') (otaSlotBase t + of_nat i)" by (rule assms)
qed

lemma slot_content_take: "n \<le> 393216 \<Longrightarrow> take n (slot_content s slot) = InternalFlash_Read (otaSlotBase slot) n (s_flash s)"
  by (simp add: slot_content_def take_Read slot_values)

lemma slots_apart: "in_slot t x \<Longrightarrow> t \<in> {OTA_SLOT_A, OTA_SLOT_B} \<Longrightarrow> slot \<in> {OTA_SLOT_A, OTA_SLOT_B} \<Longrightarrow> t \<noteq> slot \<Longrightarrow> \<not> in_slot slot x"
  by (auto simp: in_slot_unat unat_slotBase split: if_splits)

lemma slot_not_meta: "in_slot t x \<Longrightarrow> \<not> in_meta x"
  by (auto simp: in_slot_unat in_meta_unat unat_slotBase split: if_splits)

lemma eraseSlot_fields [simp]:
  "s_runningSlot (fst (FirmwareStoreStm32_eraseSlot ctl slot s)) = s_runningSlot s"
  by (auto simp: FirmwareStoreStm32_eraseSlot_def split_beta)

lemma program_fields [simp]:
  "s_runningSlot (fst (FirmwareStoreStm32_program ctl slot off data s)) = s_runningSlot s"
  by (auto simp: FirmwareStoreStm32_program_def Let_def split_beta)

lemma writeMeta_fields [simp]:
  "s_runningSlot (fst (FirmwareStoreStm32_writeMeta ctl m s)) = s_runningSlot s"
  "s_writeSlot (fst (FirmwareStoreStm32_writeMeta ctl m s)) = s_writeSlot s"
  "s_writeCursor (fst (FirmwareStoreStm32_writeMeta ctl m s)) = s_writeCursor s"
  by (simp_all add: FirmwareStoreStm32_writeMeta_def split_beta)

lemma unknown_slot_erase: "slot \<notin> {OTA_SLOT_A, OTA_SLOT_B} \<Longrightarrow> FirmwareStoreStm32_eraseSlot ctl slot s = (s, False)"
  by (simp add: FirmwareStoreStm32_eraseSlot_def isWritableSlot_def)

lemma unknown_slot_program: "slot \<notin> {OTA_SLOT_A, OTA_SLOT_B} \<Longrightarrow> FirmwareStoreStm32_program ctl slot off data s = (s, False)"
  by (rule program_refused) (simp add: isWritableSlot_def)

lemma drop_split: "drop a xs = take c (drop a xs) @ drop (a + c) xs"
proof -
  have "drop (a + c) xs = drop c (drop a xs)" by (simp add: add.commute)
  then show ?thesis by (simp only: append_take_drop_id)
qed

text \<open>The block loop checksums the whole range.\<close>

lemma crc_blocks_content:
  assumes "slot \<in> {OTA_SLOT_A, OTA_SLOT_B}" "unat n \<le> 393216" "dn \<le> n"
  shows "crc_blocks slot 0 n dn crc s = Some (Crc32Mpeg2_update crc (drop (unat dn) (take (unat n) (slot_content s slot))))"
  using assms(3)
proof (induction "unat n - unat dn" arbitrary: dn crc rule: less_induct)
  case less
  show ?case
  proof (cases "dn < n")
    case True
    let ?c = "min (n - dn) CRC_BLOCK_SIZE"
    note st = block_step [OF True]
    have lt: "unat dn < unat n" using True by (simp add: word_less_nat_alt)
    have fits: "RangeFits slot dn ?c"
    proof -
      have "unat dn + unat ?c \<le> 393216" using st(2) lt assms(2) by linarith
      then show ?thesis using assms(1) slot_values(1) unat_sub [of dn OTA_SLOT_SIZE]
        by (auto simp: RangeFits_def word_le_nat_alt)
    qed
    have block: "FirmwareStoreStm32_read slot (0 + dn) ?c s =
        Some (take (unat ?c) (drop (unat dn) (take (unat n) (slot_content s slot))))"
    proof -
      have "take (unat n) (slot_content s slot) = InternalFlash_Read (otaSlotBase slot) (unat n) (s_flash s)"
        by (rule slot_content_take [OF assms(2)])
      then show ?thesis using fits st(2) lt by (simp add: FirmwareStoreStm32_read_def drop_Read take_Read)
    qed
    have le: "dn + ?c \<le> n" using st(2,3) lt by (simp add: word_le_nat_alt)
    have "crc_blocks slot 0 n (dn + ?c) c' s =
        Some (Crc32Mpeg2_update c' (drop (unat (dn + ?c)) (take (unat n) (slot_content s slot))))" for c'
      by (rule less.hyps [OF _ le]) (use st lt in linarith)
    moreover have "drop (unat dn) (take (unat n) (slot_content s slot)) =
        take (unat ?c) (drop (unat dn) (take (unat n) (slot_content s slot))) @
        drop (unat (dn + ?c)) (take (unat n) (slot_content s slot))"
      unfolding st(3) by (rule drop_split)
    ultimately show ?thesis
      using True block by (subst crc_blocks.simps) (simp add: update_append [symmetric])
  next
    case False
    then have "dn = n" using less.prems by simp
    then show ?thesis by (subst crc_blocks.simps) (simp add: Crc32Mpeg2_update_def)
  qed
qed


lemma program_ok_fits:
  assumes "snd (FirmwareStoreStm32_program ctl slot off data s)" "length data < 2 ^ 32"
  shows "isWritableSlot slot s" "unat off + length data \<le> 393216"
    "snd (InternalFlash_program ctl (otaSlotBase slot + off) data (s_flash s))"
    "s_flash (fst (FirmwareStoreStm32_program ctl slot off data s)) =
       fst (InternalFlash_program ctl (otaSlotBase slot + off) data (s_flash s))"
proof -
  have r: "RangeFits slot off (of_nat (length data))" "isWritableSlot slot s"
    using assms(1) by (auto simp: FirmwareStoreStm32_program_def split: if_splits)
  then show "isWritableSlot slot s" "unat off + length data \<le> 393216" using RangeFits_unat [OF r(1) assms(2)] by simp_all
  show "snd (InternalFlash_program ctl (otaSlotBase slot + off) data (s_flash s))"
    "s_flash (fst (FirmwareStoreStm32_program ctl slot off data s)) =
       fst (InternalFlash_program ctl (otaSlotBase slot + off) data (s_flash s))"
    using assms(1) by (auto simp: FirmwareStoreStm32_program_def Let_def split_beta split: if_splits)
qed

context flash_controller
begin

lemma program_slot_prefix:
  assumes "snd (FirmwareStoreStm32_program ctl slot off data s)" "length data < 2 ^ 32"
  shows "take (unat off + length data) (slot_content (fst (FirmwareStoreStm32_program ctl slot off data s)) slot) =
           take (unat off) (slot_content s slot) @ data"
proof -
  let ?s = "fst (FirmwareStoreStm32_program ctl slot off data s)"
  let ?a = "otaSlotBase slot + off"
  note fits = program_ok_fits [OF assms]
  have u: "unat ?a = unat (otaSlotBase slot) + unat off" using fits(2) by (intro slot_offset_word) simp
  have a: "otaSlotBase slot + of_nat (unat off) = ?a" by simp
  have top: "unat ?a + length data \<le> 2 ^ 32" using u fits(2) by (simp add: unat_slotBase)
  have w: "InternalFlash_Read ?a (length data) (s_flash ?s) = data"
    unfolding fits(4) by (rule program_written [OF top fits(3)])
  have "InternalFlash_Read (otaSlotBase slot) (unat off) (s_flash ?s) = InternalFlash_Read (otaSlotBase slot) (unat off) (s_flash s)"
  proof (rule Read_eqI)
    fix i assume i: "i < unat off"
    have "unat (otaSlotBase slot + of_nat i) = unat (otaSlotBase slot) + i" using i fits(2) by (intro slot_offset) simp
    then show "cells (s_flash ?s) (otaSlotBase slot + of_nat i) = cells (s_flash s) (otaSlotBase slot + of_nat i)"
      unfolding fits(4) using i u by (intro program_frame [OF top]) (simp add: in_range_def)
  qed
  then show ?thesis
    using w Read_append [of "otaSlotBase slot" "unat off" "length data" "s_flash ?s"] fits(2) a
    by (simp add: slot_content_take)
qed

lemma readMeta_frame:
  assumes "\<And>x. in_meta x \<Longrightarrow> cells (s_flash s') x = cells (s_flash s) x"
  shows "FirmwareStoreStm32_readMeta ctl s' = FirmwareStoreStm32_readMeta ctl s" "meta_count ctl s' = meta_count ctl s"
  using meta_cells [OF assms]
  by (simp_all add: FirmwareStoreStm32_readMeta_def OtaMetaLog_read_def meta_count_def log_counter_def)

end

sublocale flash_controller \<subseteq> board: firmware_store "FirmwareStoreStm32 ctl" slot_content "meta_count ctl" other_cells
proof unfold_locales
  fix s :: "'h store32" and t slot :: u8 and off n :: u32 and data :: bytes and m :: meta_state
  show "length (slot_content s t) = unat (st_slotSize (FirmwareStoreStm32 ctl) s)" by (simp add: slot_content_def)
  show "t \<in> {OTA_SLOT_A, OTA_SLOT_B} \<Longrightarrow> t \<noteq> slot \<Longrightarrow>
      slot_content (fst (st_eraseSlot (FirmwareStoreStm32 ctl) slot s)) t = slot_content s t"
    using slots_apart [of t _ slot] eraseSlot_frame unknown_slot_erase [of slot ctl s]
    by (cases "slot \<in> {OTA_SLOT_A, OTA_SLOT_B}") (auto intro!: slot_content_cong)
  have e: "cells (s_flash (fst (FirmwareStoreStm32_eraseSlot ctl slot s))) x = cells (s_flash s) x" if "in_meta x" for x
    using eraseSlot_frame slot_not_meta that by blast
  show "other_cells (fst (st_eraseSlot (FirmwareStoreStm32 ctl) slot s)) = other_cells s"
    using eraseSlot_frame [of slot _ s] unknown_slot_erase [of slot ctl s]
    by (cases "slot \<in> {OTA_SLOT_A, OTA_SLOT_B}") (auto simp: other_cells_def)
  show "length data < 2 ^ 32 \<Longrightarrow> other_cells (fst (st_program (FirmwareStoreStm32 ctl) slot off data s)) = other_cells s"
    using program_frame_slot [of slot _ s data off] unknown_slot_program [of slot ctl off data s]
    by (cases "slot \<in> {OTA_SLOT_A, OTA_SLOT_B}") (auto simp: other_cells_def)
  show "meta_ok m \<Longrightarrow> other_cells (fst (st_writeMeta (FirmwareStoreStm32 ctl) m s)) = other_cells s"
    using append_frame by (auto simp: other_cells_def FirmwareStoreStm32_writeMeta_def split_beta)
  show "st_readMeta (FirmwareStoreStm32 ctl) (fst (st_eraseSlot (FirmwareStoreStm32 ctl) slot s)) = st_readMeta (FirmwareStoreStm32 ctl) s"
    "meta_count ctl (fst (st_eraseSlot (FirmwareStoreStm32 ctl) slot s)) = meta_count ctl s"
    using readMeta_frame [OF e] by simp_all
  show "t \<in> {OTA_SLOT_A, OTA_SLOT_B} \<Longrightarrow> t \<noteq> slot \<Longrightarrow> length data < 2 ^ 32 \<Longrightarrow>
      slot_content (fst (st_program (FirmwareStoreStm32 ctl) slot off data s)) t = slot_content s t"
    using slots_apart [of t _ slot] program_frame_slot unknown_slot_program [of slot ctl off data s]
    by (cases "slot \<in> {OTA_SLOT_A, OTA_SLOT_B}") (auto intro!: slot_content_cong)
  have p: "cells (s_flash (fst (FirmwareStoreStm32_program ctl slot off data s))) x = cells (s_flash s) x"
    if "length data < 2 ^ 32" "in_meta x" for x
    using program_frame_slot slot_not_meta that by blast
  show "length data < 2 ^ 32 \<Longrightarrow>
      st_readMeta (FirmwareStoreStm32 ctl) (fst (st_program (FirmwareStoreStm32 ctl) slot off data s)) = st_readMeta (FirmwareStoreStm32 ctl) s"
    "length data < 2 ^ 32 \<Longrightarrow> meta_count ctl (fst (st_program (FirmwareStoreStm32 ctl) slot off data s)) = meta_count ctl s"
    using readMeta_frame [OF p] by simp_all
  show "snd (st_program (FirmwareStoreStm32 ctl) slot off data s) \<Longrightarrow> length data < 2 ^ 32 \<Longrightarrow>
      unat off + length data \<le> unat (st_slotSize (FirmwareStoreStm32 ctl) s) \<and>
      take (unat off + length data) (slot_content (fst (st_program (FirmwareStoreStm32 ctl) slot off data s)) slot) =
        take (unat off) (slot_content s slot) @ data"
    using program_slot_prefix program_ok_fits(2) by (simp add: slot_values)
  show "slot \<in> {OTA_SLOT_A, OTA_SLOT_B} \<Longrightarrow> unat n \<le> unat (st_slotSize (FirmwareStoreStm32 ctl) s) \<Longrightarrow>
      st_crc32 (FirmwareStoreStm32 ctl) slot 0 n s = crc32Mpeg2 (take (unat n) (slot_content s slot))"
    using crc_blocks_content [of slot n 0 Crc32Mpeg2_init s]
    by (simp add: FirmwareStoreStm32_crc32_def crc32Mpeg2_def slot_values)
  show "meta_ok m \<Longrightarrow> t \<in> {OTA_SLOT_A, OTA_SLOT_B} \<Longrightarrow>
      slot_content (fst (st_writeMeta (FirmwareStoreStm32 ctl) m s)) t = slot_content s t"
    using append_frame slot_not_meta
    by (auto intro!: slot_content_cong simp: FirmwareStoreStm32_writeMeta_def split_beta)
  show "meta_ok m \<Longrightarrow> meta_count ctl s < 2 ^ 32 - 1 \<Longrightarrow> snd (st_writeMeta (FirmwareStoreStm32 ctl) m s) \<Longrightarrow>
      st_readMeta (FirmwareStoreStm32 ctl) (fst (st_writeMeta (FirmwareStoreStm32 ctl) m s)) = Some m \<and>
      meta_count ctl (fst (st_writeMeta (FirmwareStoreStm32 ctl) m s)) = meta_count ctl s + 1"
    using meta.append_read [of m "s_flash s" "fst (OtaMetaLog_append (OtaMetaFlashBackend ctl) m (s_flash s))"]
    by (auto simp: FirmwareStoreStm32_writeMeta_def FirmwareStoreStm32_readMeta_def meta_count_def split_beta prod_eq_iff)
  show "st_readMeta (FirmwareStoreStm32 ctl) s = Some m \<Longrightarrow> meta_ok m"
    by (auto simp: FirmwareStoreStm32_readMeta_def dest: meta.read_meta_ok)
qed simp_all



section \<open>A working part gives a working store\<close>

text \<open>The slot is open for writing at byte \<open>n\<close>: it is the one last erased, the cursor stands at \<open>n\<close>
  and the flash from the next word on is still erased.\<close>

definition slot_open :: "'h store32 \<Rightarrow> u8 \<Rightarrow> nat \<Rightarrow> bool" where
  "slot_open s slot n \<longleftrightarrow> isWritableSlot slot s \<and> s_writeSlot s = slot \<and> unat (s_writeCursor s) = n \<and>
     (\<forall>x. in_slot slot x \<longrightarrow> unat (otaSlotBase slot) + 4 * ((n + 3) div 4) \<le> unat x \<longrightarrow> cells (s_flash s) x = 0xFF)"

text \<open>The header the board asks of an image: known layout, this chip, this slot, the announced size.\<close>

definition image_header_ok :: "u8 \<Rightarrow> u32 \<Rightarrow> bytes \<Rightarrow> bool" where
  "image_header_ok slot n img = otaHeaderImageValid (\<lambda>_ _ k. Some (take (unat k) img)) OTA_MCU_STM32F405 slot n"

lemma RangeFits_intro:
  assumes "slot \<in> {OTA_SLOT_A, OTA_SLOT_B}" "unat off + n \<le> 393216"
  shows "RangeFits slot off (of_nat n)"
proof -
  have l: "unat (of_nat n :: u32) = n" using assms(2) by (intro unat_of_nat_small) simp
  have "unat (OTA_SLOT_SIZE - off) = 393216 - unat off"
    using unat_sub [of off OTA_SLOT_SIZE] assms(2) slot_values(1) by (simp add: word_le_nat_alt)
  then show ?thesis using assms l slot_values(1) by (auto simp: RangeFits_def word_le_nat_alt)
qed

context working_flash
begin

lemma erase_sectors_ok: "(\<forall>s \<in> set sectors. s < FLASH_SECTOR_COUNT) \<Longrightarrow> snd (erase_sectors ctl sectors f)"
  by (induction sectors arbitrary: f) (simp_all add: split_beta eraseSector_ok)

lemma eraseSlot_works:
  assumes "isWritableSlot slot s"
  shows "snd (FirmwareStoreStm32_eraseSlot ctl slot s)" "slot_open (fst (FirmwareStoreStm32_eraseSlot ctl slot s)) slot 0"
proof -
  have ok: "snd (erase_sectors ctl (slot_sectors slot) (s_flash s))"
    by (rule erase_sectors_ok) (simp add: slot_sectors_cases FLASH_SECTOR_COUNT_def word_less_nat_alt)
  then show "snd (FirmwareStoreStm32_eraseSlot ctl slot s)"
    using assms by (simp add: FirmwareStoreStm32_eraseSlot_def split_beta)
  have "cells (fst (erase_sectors ctl (slot_sectors slot) (s_flash s))) x = 0xFF" if "in_slot slot x" for x
    by (rule erase_sectors_erased [OF ok]) (simp only: slot_sectors_exact that)
  then show "slot_open (fst (FirmwareStoreStm32_eraseSlot ctl slot s)) slot 0"
    using assms ok by (simp add: FirmwareStoreStm32_eraseSlot_def split_beta slot_open_def isWritableSlot_def)
qed

lemma program_slot_works:
  assumes "slot_open s slot (unat off)" "unat off mod 4 = 0" "data \<noteq> []" "unat off + length data \<le> 393216"
  shows "snd (FirmwareStoreStm32_program ctl slot off data s)"
    "slot_open (fst (FirmwareStoreStm32_program ctl slot off data s)) slot (unat off + length data)"
proof -
  let ?a = "otaSlotBase slot + off" and ?n = "4 * ((length data + 3) div 4)"
  have w: "isWritableSlot slot s" "s_writeSlot s = slot" "s_writeCursor s = off"
    using assms(1) by (simp_all add: slot_open_def word_unat_eq_iff)
  then have slot: "slot \<in> {OTA_SLOT_A, OTA_SLOT_B}" by (simp add: isWritableSlot_def)
  have u: "unat ?a = unat (otaSlotBase slot) + unat off" using assms(4) by (intro slot_offset_word) simp
  have up: "unat off + ?n \<le> 393216" using assms(2,4) by (intro round_up_fits) simp_all
  have "4 * ((unat off + 3) div 4) = unat off" using assms(2) by presburger
  then have erased: "cells (s_flash s) x = 0xFF" if "in_range ?a ?n x" for x
    using assms(1) that up by (simp add: slot_open_def in_range_def in_slot_unat u)
  have ok: "snd (InternalFlash_program ctl ?a data (s_flash s))"
  proof (rule program_ok)
    show "unat ?a mod 4 = 0" using assms(2) u by (auto simp: unat_slotBase)
    show "unat ?a + ?n \<le> 2 ^ 32" using u up by (simp add: unat_slotBase)
  qed (rule erased)
  have m: "off mod PROGRAM_WORD_SIZE = 0" using mod_4_unat [OF assms(2)] by (simp add: PROGRAM_WORD_SIZE_def)
  have r: "FirmwareStoreStm32_program ctl slot off data s =
      (s\<lparr> s_flash := fst (InternalFlash_program ctl ?a data (s_flash s)), s_writeCursor := off + of_nat (length data) \<rparr>, True)"
    using w RangeFits_intro [OF slot assms(4)] m ok by (simp add: FirmwareStoreStm32_program_def split_beta)
  then show "snd (FirmwareStoreStm32_program ctl slot off data s)" by simp
  have c: "unat (off + of_nat (length data)) = unat off + length data" using assms(4) by (intro unat_plus_of_nat) simp
  have e: "4 * ((unat off + length data + 3) div 4) = unat off + ?n" using assms(2) by presburger
  have "cells (fst (InternalFlash_program ctl ?a data (s_flash s))) x = 0xFF"
    if x: "in_slot slot x" "unat (otaSlotBase slot) + (unat off + ?n) \<le> unat x" for x
  proof -
    have "cells (fst (InternalFlash_program ctl ?a data (s_flash s))) x = cells (s_flash s) x"
      by (rule program_frame) (use u assms(4) x(2) in \<open>simp_all add: in_range_def unat_slotBase\<close>)
    then show ?thesis using assms(1) x \<open>4 * ((unat off + 3) div 4) = unat off\<close> by (simp add: slot_open_def)
  qed
  then show "slot_open (fst (FirmwareStoreStm32_program ctl slot off data s)) slot (unat off + length data)"
    using w by (simp add: r slot_open_def c e isWritableSlot_def)
qed

lemma meta_append_cut_works:
  assumes m: "meta_ok m"
  shows "snd (OtaMetaLog_append (power_cut k (OtaMetaFlashBackend ctl)) m f)"
proof -
  have e: "snd (OtaMetaFlashBackend_erase ctl area g)" if "area \<in> {0, 1}" for area g
    using that by (auto simp: OtaMetaFlashBackend_erase_def flash_map_defs word_le_nat_alt
        intro!: eraseSector_ok [unfolded FLASH_SECTOR_COUNT_def])
  let ?A = "if sc_found (meta.scan_of f) then sc_newestArea (meta.scan_of f) else 0"
  have area: "?A \<in> {0, 1}"
    by (cases rule: meta.scan_of_cases [of f]) (auto simp: scan_at_def log_slots_iff dest: first_newest_in)
  then have "snd (OtaMetaFlashBackend_erase ctl ?A f)" "snd (OtaMetaFlashBackend_erase ctl (1 - ?A) f)"
    by (auto intro!: e)
  then have "snd (make_room (OtaMetaFlashBackend ctl) (meta.scan_of f) f) \<noteq> None"
    unfolding make_room_def Let_def flash_backend_simps
    by (cases "firstBlankSlot (OtaMetaFlashBackend ctl) ?A f") (simp_all only: option.case split_beta snd_conv, simp_all)
  then obtain f1 area' off where room: "make_room (OtaMetaFlashBackend ctl) (meta.scan_of f) f = (f1, Some (area', off))"
    by (metis not_None_eq prod.collapse surj_pair)
  from meta.make_room_Some [OF room] obtain i where i: "(area', i) \<in> set (log_slots (OtaMetaFlashBackend ctl))"
    "off = record_offset i" "IsBlank (meta_rec f1 (area', i))" by metis
  let ?a = "otaMetaAreaBase area' + record_offset i"
  define D where "D = take (4 * k) (record_bytes (new_record (meta.scan_of f) m))"
  have in1: "area' \<in> {0, 1}" "i < 1024" using i(1) by (simp_all add: meta_slot_iff)
  have len: "length D \<le> 16" "4 * ((length D + 3) div 4) \<le> 16"
    using length_new_record [OF m, of "meta.scan_of f"] by (simp_all add: D_def OTA_META_RECORD_SIZE_def)
  have u: "unat ?a = unat (otaMetaAreaBase area') + 16 * i" by (rule meta_addr [OF in1(2)])
  have "snd (InternalFlash_program ctl ?a D f1)"
  proof (rule program_ok)
    show "unat ?a mod 4 = 0" unfolding u unat_metaBase by (auto simp: mod_eq_0_iff_dvd intro!: dvd_add)
    show "unat ?a + 4 * ((length D + 3) div 4) \<le> 2 ^ 32" using u in1(2) len(2) by (simp add: unat_metaBase split: if_splits)
    fix x assume "in_range ?a (4 * ((length D + 3) div 4)) x"
    then obtain k where k: "k < 4 * ((length D + 3) div 4)" "x = ?a + of_nat k"
      using u in1(2) len(2) by (subst (asm) in_range_offset) (auto simp: unat_metaBase split: if_splits)
    have "k < 16" using k(1) len(2) by simp
    then have "cells f1 x \<in> set (meta_rec f1 (area', i))" using k(2) by (auto simp: meta_rec_def InternalFlash_Read_def OTA_META_RECORD_SIZE_def)
    then show "cells f1 x = 0xFF" using i(3) by (auto simp: IsBlank_def list_all_iff BLANK_BYTE_def)
  qed
  then show ?thesis
    using room i(2) rangeFits_slot [OF in1 len(1)]
    by (simp add: OtaMetaLog_append_def meta.power_cut_room meta.scanAreas_pass power_cut_program
        OtaMetaFlashBackend_program_def D_def [symmetric])
qed

lemma meta_append_works: "meta_ok m \<Longrightarrow> snd (OtaMetaLog_append (OtaMetaFlashBackend ctl) m f)"
  using meta_append_cut_works [of m 4 f] meta.append_whole [of m f] by simp

end

sublocale working_flash \<subseteq> wboard: working_store "FirmwareStoreStm32 ctl" slot_content "meta_count ctl" other_cells slot_open image_header_ok
proof unfold_locales
  fix s :: "'a store32" and slot :: u8 and off :: u32 and data :: bytes and m :: meta_state and n :: nat
  show "slot \<in> {OTA_SLOT_A, OTA_SLOT_B} \<Longrightarrow> OTA_IMAGE_HEADER_SIZE \<le> k \<Longrightarrow> k \<le> st_slotSize (FirmwareStoreStm32 ctl) s \<Longrightarrow>
      st_imageValid (FirmwareStoreStm32 ctl) slot k s \<longleftrightarrow> image_header_ok slot k (take (unat k) (slot_content s slot))" for k
  proof -
    assume slot: "slot \<in> {OTA_SLOT_A, OTA_SLOT_B}" and k: "OTA_IMAGE_HEADER_SIZE \<le> k" "k \<le> st_slotSize (FirmwareStoreStm32 ctl) s"
    have "28 \<le> unat k" "unat k \<le> 393216"
      using k slot_values(1) by (auto simp: word_le_nat_alt OTA_IMAGE_HEADER_SIZE_def)
    moreover have "FirmwareStoreStm32_read slot 0 28 s = Some (InternalFlash_Read (otaSlotBase slot) 28 (s_flash s))"
      using RangeFits_intro [OF slot, of 0 28] by (simp add: FirmwareStoreStm32_read_def)
    ultimately show ?thesis
      by (simp add: FirmwareStoreStm32_def image_header_ok_def otaHeaderImageValid_def otaReadImageHeader_def
          OTA_IMAGE_HEADER_PREFIX_SIZE_def slot_content_take take_Read)
  qed
  show "slot \<in> {OTA_SLOT_A, OTA_SLOT_B} \<Longrightarrow> slot \<noteq> st_runningSlot (FirmwareStoreStm32 ctl) s \<Longrightarrow>
      snd (st_eraseSlot (FirmwareStoreStm32 ctl) slot s) \<and> slot_open (fst (st_eraseSlot (FirmwareStoreStm32 ctl) slot s)) slot 0"
    using eraseSlot_works [of slot s] by (simp add: isWritableSlot_def)
  show "slot_open s slot (unat off) \<Longrightarrow> unat off mod 4 = 0 \<Longrightarrow> data \<noteq> [] \<Longrightarrow>
      unat off + length data \<le> unat (st_slotSize (FirmwareStoreStm32 ctl) s) \<Longrightarrow>
      snd (st_program (FirmwareStoreStm32 ctl) slot off data s) \<and>
      slot_open (fst (st_program (FirmwareStoreStm32 ctl) slot off data s)) slot (unat off + length data)"
    using program_slot_works by (simp add: slot_values)
  show "meta_ok m \<Longrightarrow> snd (st_writeMeta (FirmwareStoreStm32 ctl) m s)"
    using meta_append_works by (simp add: FirmwareStoreStm32_writeMeta_def split_beta)
  show "\<exists>m. st_readMeta (FirmwareStoreStm32 ctl) s = Some m"
    using meta.read_total by (simp add: FirmwareStoreStm32_readMeta_def)
  show "meta_ok m \<Longrightarrow> slot_open s slot n \<Longrightarrow> slot_open (fst (st_writeMeta (FirmwareStoreStm32 ctl) m s)) slot n"
    using append_frame slot_not_meta
    by (auto simp: slot_open_def isWritableSlot_def) (auto simp: FirmwareStoreStm32_writeMeta_def split_beta)
qed


section \<open>The log on the flash\<close>

text \<open>The part that never fails and the flash of a new board, for examples.\<close>

abbreviation sound_ctl :: "nat flash_ctl" where
  "sound_ctl \<equiv> nor_ctl (\<lambda>_. False)"

abbreviation blank_flash :: "nat flash" where
  "blank_flash \<equiv> \<lparr> cells = (\<lambda>_. 0xFF), hw = 0 \<rparr>"

context flash_controller
begin

lemma blank_log:
  assumes "cells f = (\<lambda>_. 0xFF)"
  shows "scanAreas (OtaMetaFlashBackend ctl) f = Some Scan_init"
proof -
  have "\<forall>q \<in> set (log_slots (OtaMetaFlashBackend ctl)). \<not> valid_record (meta_rec f q)"
    by (auto simp: assms valid_record_def IsBlank_def meta_rec_def InternalFlash_Read_def BLANK_BYTE_def list_all_iff)
  then show ?thesis by (simp add: meta.scanAreas_pass scan_pass_none)
qed

end

lemma blank_flash_log: "scanAreas (OtaMetaFlashBackend sound_ctl) blank_flash = Some Scan_init"
  by (rule flash_controller.blank_log [OF nor.flash_controller_axioms]) simp

lemma blank_counter: "log_counter (OtaMetaFlashBackend sound_ctl) blank_flash = 0"
  by (simp add: log_counter_def blank_flash_log Scan_init_def)

text \<open>What is appended is what is read. Whatever is in the two metadata sectors, an append that
  returns true makes the record it was given the one every later read returns, and the counter one
  more than the newest before; no byte outside the two sectors changes.\<close>

lemma meta_log_append_read:
  assumes "flash_controller ctl" "meta_ok m" "OtaMetaLog_append (OtaMetaFlashBackend ctl) m f = (f', True)"
    and "log_counter (OtaMetaFlashBackend ctl) f < 2 ^ 32 - 1"
  shows "OtaMetaLog_read (OtaMetaFlashBackend ctl) f' = Some m \<and>
    log_counter (OtaMetaFlashBackend ctl) f' = log_counter (OtaMetaFlashBackend ctl) f + 1 \<and>
    (\<forall>x. in_meta x \<or> cells f' x = cells f x)"
  using flash_controller.log_append_read [OF assms(1,3,2,4)] flash_controller.append_frame [OF assms(1) _ assms(2), of _ f] assms(3)
  by auto

lemma meta_log_append_read_example:
  "\<exists>f'. OtaMetaLog_append (OtaMetaFlashBackend sound_ctl) OtaMetaState_init blank_flash = (f', True) \<and>
    OtaMetaLog_read (OtaMetaFlashBackend sound_ctl) f' = Some OtaMetaState_init \<and>
    log_counter (OtaMetaFlashBackend sound_ctl) f' = 1"
proof -
  have m: "meta_ok OtaMetaState_init" by (simp add: meta_ok_def OtaMetaState_init_def OTA_SLOT_COUNT_def)
  obtain f' where a: "OtaMetaLog_append (OtaMetaFlashBackend sound_ctl) OtaMetaState_init blank_flash = (f', True)"
    using working_flash.meta_append_works [OF wnor.working_flash_axioms m] by (metis prod.collapse)
  then show ?thesis using meta_log_append_read [OF nor.flash_controller_axioms m a] by (auto simp: blank_counter)
qed

text \<open>(C16) Losing power while a record is programmed loses nothing. Let the power go after any number
  of words of the record: at the next boot the log reads either the state from before the append or
  the new one, never a third. The bound on the counter is the life of the log: 40 million appends
  of 16 bytes into 32 KB are some twenty thousand erasures of each sector.\<close>

theorem meta_log_power_cut:
  assumes "flash_controller ctl" "legal_meta m"
    and "OtaMetaLog_append (power_cut k (OtaMetaFlashBackend ctl)) m f = (f', True)"
    and "log_counter (OtaMetaFlashBackend ctl) f < 39999999"
  shows "OtaMetaLog_read (OtaMetaFlashBackend ctl) f' = OtaMetaLog_read (OtaMetaFlashBackend ctl) f \<or>
         OtaMetaLog_read (OtaMetaFlashBackend ctl) f' = Some m"
  by (rule flash_controller.log_power_cut [OF assms(1,3,2,4)])


theorem meta_log_power_cut_witness:
  "\<exists>f'. OtaMetaLog_append (power_cut 2 (OtaMetaFlashBackend sound_ctl))
       (set_slot_state OTA_SLOT_B OTA_SLOT_STAGED OtaMetaState_init) blank_flash = (f', True) \<and>
    OtaMetaLog_read (OtaMetaFlashBackend sound_ctl) f' \<in>
      {Some OtaMetaState_init, Some (set_slot_state OTA_SLOT_B OTA_SLOT_STAGED OtaMetaState_init)}"
proof -
  let ?m = "set_slot_state OTA_SLOT_B OTA_SLOT_STAGED OtaMetaState_init"
  have m: "legal_meta ?m"
    by (simp add: legal_meta_def meta_ok_def OtaMetaState_init_def OTA_SLOT_COUNT_def set_slot_state_def slot_defs)
  then have ok: "meta_ok ?m" by (simp add: legal_meta_def)
  obtain f' where a: "OtaMetaLog_append (power_cut 2 (OtaMetaFlashBackend sound_ctl)) ?m blank_flash = (f', True)"
    using working_flash.meta_append_cut_works [OF wnor.working_flash_axioms ok] by (metis prod.collapse)
  have "OtaMetaLog_read (OtaMetaFlashBackend sound_ctl) blank_flash = Some OtaMetaState_init"
    by (simp add: OtaMetaLog_read_def blank_flash_log Scan_init_def)
  then show ?thesis using meta_log_power_cut [OF nor.flash_controller_axioms m a] a by (auto simp: blank_counter)
qed

end
