(* ===== verification/Boot_Policy.thy ===== *)
theory Boot_Policy
  imports Ota_Image
begin

text \<open>
  The two decisions the boot metadata drives outside the updater
  (\<^verbatim>\<open>components/ota/include/ota/boot_policy.hpp\<close>): which slot a reset boots, and whether the running
  image is still on trial. Both are pure functions of the metadata.

  A run of resets is \<open>boots\<close>: each decides, persists what the decision implies and runs the slot
  chosen; nothing else touches the metadata in between, as when the image on trial never comes up.
  The property is the one-shot trial: one boot of the staged image, then the old slot for ever.
\<close>


section \<open>The decisions\<close>

record boot_decision =
  bd_slot :: u8
  bd_persist :: bool

text \<open>The search loop from a given slot; the slot found, or None.\<close>

function find_slot_from :: "nat \<Rightarrow> meta_state \<Rightarrow> u8 \<Rightarrow> u8 option" where
  "find_slot_from slot state wanted =
     (if slot < OTA_SLOT_COUNT
      then (if slotState state ! slot = wanted then Some (of_nat slot) else find_slot_from (slot + 1) state wanted)
      else None)"
  by auto
termination by (relation "measure (\<lambda>(slot, state, wanted). OTA_SLOT_COUNT - slot)") auto

declare find_slot_from.simps [simp del]

definition otaFindSlotInState :: "meta_state \<Rightarrow> u8 \<Rightarrow> u8 option" where
  "otaFindSlotInState state wanted = find_slot_from 0 state wanted"

definition otaDecideBoot :: "meta_state \<Rightarrow> meta_state \<times> boot_decision" where
  "otaDecideBoot m =
     (case otaFindSlotInState m OTA_SLOT_STAGED of
        Some slot \<Rightarrow>
          ((set_slot_state slot OTA_SLOT_TESTING m)\<lparr> trialAttempted := True \<rparr>, \<lparr> bd_slot = slot, bd_persist = True \<rparr>)
      | None \<Rightarrow>
         (case otaFindSlotInState m OTA_SLOT_TESTING of
            Some slot \<Rightarrow>
              if trialAttempted m
              then ((set_slot_state slot OTA_SLOT_BAD m)\<lparr> trialAttempted := False \<rparr>,
                    \<lparr> bd_slot = activeSlot m, bd_persist = True \<rparr>)
              else (m\<lparr> trialAttempted := True \<rparr>, \<lparr> bd_slot = slot, bd_persist = True \<rparr>)
          | None \<Rightarrow> (m, \<lparr> bd_slot = activeSlot m, bd_persist = False \<rparr>)))"

definition otaTrialUnconfirmed :: "meta_state \<Rightarrow> u8 \<Rightarrow> bool" where
  "otaTrialUnconfirmed state runningSlot \<longleftrightarrow>
     unat runningSlot < OTA_SLOT_COUNT \<and> slot_state state runningSlot = OTA_SLOT_TESTING"


section \<open>Facts\<close>

lemma find_slot_cases:
  "otaFindSlotInState m w =
     (if slotState m ! 0 = w then Some OTA_SLOT_A else if slotState m ! 1 = w then Some OTA_SLOT_B else None)"
proof -
  have "find_slot_from (Suc (Suc 0)) m w = None" by (subst find_slot_from.simps) (simp add: OTA_SLOT_COUNT_def)
  then have "find_slot_from 1 m w = (if slotState m ! 1 = w then Some OTA_SLOT_B else None)"
    by (subst find_slot_from.simps) (simp add: slot_defs)
  then show ?thesis
    unfolding otaFindSlotInState_def
    by (subst find_slot_from.simps) (simp add: slot_defs)
qed

lemma find_slot_Some:
  "otaFindSlotInState m w = Some slot \<Longrightarrow> slot_state m slot = w \<and> (slot = OTA_SLOT_A \<or> slot = OTA_SLOT_B)"
  by (auto simp: find_slot_cases slot_defs split: if_splits)

lemma find_slot_None:
  "otaFindSlotInState m w = None \<longleftrightarrow> slot_state m OTA_SLOT_A \<noteq> w \<and> slot_state m OTA_SLOT_B \<noteq> w"
  by (auto simp: find_slot_cases slot_defs)

lemma meta_ok_decide [inv_intros]: "meta_ok m \<Longrightarrow> meta_ok (fst (otaDecideBoot m))"
  by (auto simp: otaDecideBoot_def split: option.splits)

lemma decide_no_persist: "\<not> bd_persist (snd (otaDecideBoot m)) \<Longrightarrow> fst (otaDecideBoot m) = m"
  by (auto simp: otaDecideBoot_def split: option.splits if_splits)


section \<open>Runs of resets\<close>

text \<open>The slots run by \<open>n\<close> resets in a row, and the metadata they leave.\<close>

fun boots :: "nat \<Rightarrow> meta_state \<Rightarrow> u8 list \<times> meta_state" where
  "boots 0 m = ([], m)"
| "boots (Suc n) m =
     (let (m, d) = otaDecideBoot m; (slots, m) = boots n m in (bd_slot d # slots, m))"

text \<open>Metadata at rest: the preferred slot is one of the two and is not itself awaiting a trial.\<close>

definition rest_ok :: "meta_state \<Rightarrow> bool" where
  "rest_ok m \<longleftrightarrow> meta_ok m \<and> (activeSlot m = OTA_SLOT_A \<or> activeSlot m = OTA_SLOT_B) \<and>
     slot_state m (activeSlot m) \<noteq> OTA_SLOT_STAGED \<and> slot_state m (activeSlot m) \<noteq> OTA_SLOT_TESTING"

definition spare_slot :: "meta_state \<Rightarrow> u8" where
  "spare_slot m = (if activeSlot m = OTA_SLOT_A then OTA_SLOT_B else OTA_SLOT_A)"

text \<open>A slot that still has its trial: staged, or on trial without the attempt recorded.\<close>

definition trial_due :: "meta_state \<Rightarrow> bool" where
  "trial_due m \<longleftrightarrow> slot_state m (spare_slot m) = OTA_SLOT_STAGED \<or>
     slot_state m (spare_slot m) = OTA_SLOT_TESTING \<and> \<not> trialAttempted m"

definition trial_spent :: "meta_state \<Rightarrow> bool" where
  "trial_spent m \<longleftrightarrow> slot_state m (spare_slot m) = OTA_SLOT_TESTING \<and> trialAttempted m"

lemma rest_cases:
  assumes "rest_ok m"
  obtains a b t where "m = \<lparr> activeSlot = OTA_SLOT_A, slotState = [a, b], trialAttempted = t \<rparr>"
      "a \<noteq> OTA_SLOT_STAGED" "a \<noteq> OTA_SLOT_TESTING"
  | a b t where "m = \<lparr> activeSlot = OTA_SLOT_B, slotState = [a, b], trialAttempted = t \<rparr>"
      "b \<noteq> OTA_SLOT_STAGED" "b \<noteq> OTA_SLOT_TESTING"
proof -
  obtain a b where ab: "slotState m = [a, b]" using assms meta_ok_cases [of m] by (auto simp: rest_ok_def)
  have m: "m = \<lparr> activeSlot = activeSlot m, slotState = [a, b], trialAttempted = trialAttempted m \<rparr>"
    using ab by (cases m) simp
  consider "activeSlot m = OTA_SLOT_A" | "activeSlot m = OTA_SLOT_B" using assms by (auto simp: rest_ok_def)
  then show thesis
  proof cases
    case 1
    then show ?thesis using that(1) [of a b "trialAttempted m"] m assms ab by (auto simp: rest_ok_def slot_defs)
  next
    case 2
    then show ?thesis using that(2) [of a b "trialAttempted m"] m assms ab by (auto simp: rest_ok_def slot_defs)
  qed
qed

lemmas decide_defs = otaDecideBoot_def find_slot_cases set_slot_state_def spare_slot_def

lemma decide_due:
  assumes "rest_ok m" "trial_due m"
  shows "otaDecideBoot m =
     ((set_slot_state (spare_slot m) OTA_SLOT_TESTING m)\<lparr> trialAttempted := True \<rparr>,
      \<lparr> bd_slot = spare_slot m, bd_persist = True \<rparr>)"
  using assms(1)
  by (cases rule: rest_cases)
     (use assms(2) in \<open>auto simp: decide_defs trial_due_def slot_defs slot_state_defs\<close>)

lemma decide_spent:
  assumes "rest_ok m" "trial_spent m"
  shows "otaDecideBoot m =
     ((set_slot_state (spare_slot m) OTA_SLOT_BAD m)\<lparr> trialAttempted := False \<rparr>,
      \<lparr> bd_slot = activeSlot m, bd_persist = True \<rparr>)"
  using assms(1)
  by (cases rule: rest_cases)
     (use assms(2) in \<open>auto simp: decide_defs trial_spent_def slot_defs slot_state_defs\<close>)

lemma decide_rest:
  assumes "rest_ok m" "\<not> trial_due m" "\<not> trial_spent m"
  shows "otaDecideBoot m = (m, \<lparr> bd_slot = activeSlot m, bd_persist = False \<rparr>)"
  using assms(1)
  by (cases rule: rest_cases)
     (use assms(2,3) in \<open>auto simp: decide_defs trial_due_def trial_spent_def slot_defs slot_state_defs\<close>)

lemma rest_ok_mark:
  assumes "rest_ok m"
  shows "rest_ok ((set_slot_state (spare_slot m) v m)\<lparr> trialAttempted := t \<rparr>)"
    and "slot_state (set_slot_state (spare_slot m) v m) (spare_slot m) = v"
  using assms
  by (cases rule: rest_cases; auto simp: rest_ok_def meta_ok_def spare_slot_def slot_defs)+

lemma spare_upd [simp]:
  "spare_slot (set_slot_state s v m) = spare_slot m" "spare_slot (m\<lparr> trialAttempted := t \<rparr>) = spare_slot m"
  by (simp_all add: spare_slot_def)

lemma set_slot_twice:
  "set_slot_state s v ((set_slot_state s u m)\<lparr> trialAttempted := t \<rparr>) = (set_slot_state s v m)\<lparr> trialAttempted := t \<rparr>"
  by (simp add: set_slot_state_def)

lemma boots_rest:
  assumes "rest_ok m" "\<not> trial_due m" "\<not> trial_spent m"
  shows "boots n m = (replicate n (activeSlot m), m)"
  using decide_rest [OF assms] by (induction n) simp_all

lemma boots_spent:
  assumes "rest_ok m" "trial_spent m" "0 < n"
  shows "boots n m = (replicate n (activeSlot m), (set_slot_state (spare_slot m) OTA_SLOT_BAD m)\<lparr> trialAttempted := False \<rparr>)"
proof -
  let ?m = "(set_slot_state (spare_slot m) OTA_SLOT_BAD m)\<lparr> trialAttempted := False \<rparr>"
  obtain k where n: "n = Suc k" using assms(3) gr0_conv_Suc by blast
  have "slot_state ?m (spare_slot ?m) = OTA_SLOT_BAD" using rest_ok_mark(2) [OF assms(1)] by simp
  then have "boots k ?m = (replicate k (activeSlot ?m), ?m)"
    by (intro boots_rest rest_ok_mark(1) [OF assms(1)]) (simp_all add: trial_due_def trial_spent_def slot_state_defs)
  then show ?thesis using decide_spent [OF assms(1,2)] by (simp add: n)
qed


section \<open>Property\<close>

text \<open>The one-shot trial. Take metadata at rest in which the spare slot has its trial due: it
  is staged, or a power cut left it on trial with no attempt recorded. The first reset runs the
  spare slot and records the attempt before it does, so the arming interlock holds while it runs.
  If nobody confirms the image, every later reset, however many there are, runs the old slot: the
  second one marks the spare slot bad, and nothing changes any more. The interlock is off again.
  With no trial due every reset runs the preferred slot and never the spare one.\<close>

lemma boot_trial_once:
  assumes "rest_ok m"
  shows "(trial_due m \<longrightarrow>
            fst (boots (Suc n) m) = spare_slot m # replicate n (activeSlot m) \<and>
            otaTrialUnconfirmed (snd (boots 1 m)) (spare_slot m) \<and>
            snd (boots (n + 2) m) = (set_slot_state (spare_slot m) OTA_SLOT_BAD m)\<lparr> trialAttempted := False \<rparr>) \<and>
         (\<not> trial_due m \<longrightarrow> fst (boots n m) = replicate n (activeSlot m)) \<and>
         \<not> otaTrialUnconfirmed (snd (boots (n + 2) m)) (activeSlot m)"
proof -
  let ?t = "(set_slot_state (spare_slot m) OTA_SLOT_TESTING m)\<lparr> trialAttempted := True \<rparr>"
  have t: "rest_ok ?t" "trial_spent ?t"
    using rest_ok_mark [OF assms] by (simp_all add: trial_spent_def)
  have spent: "boots k ?t = (replicate k (activeSlot m),
      (set_slot_state (spare_slot m) OTA_SLOT_BAD m)\<lparr> trialAttempted := False \<rparr>)" if "0 < k" for k
    using boots_spent [OF t that] by (simp add: set_slot_twice)
  have due: "fst (boots (Suc n) m) = spare_slot m # replicate n (activeSlot m)" if "trial_due m"
    using decide_due [OF assms that] spent [of n] by (cases n) (simp_all add: split_beta)
  have lock: "otaTrialUnconfirmed (snd (boots 1 m)) (spare_slot m)" if "trial_due m"
    using decide_due [OF assms that] rest_ok_mark(2) [OF assms]
    by (simp add: otaTrialUnconfirmed_def spare_slot_def slot_defs)
  have bad: "snd (boots (n + 2) m) = (set_slot_state (spare_slot m) OTA_SLOT_BAD m)\<lparr> trialAttempted := False \<rparr>"
    if "trial_due m"
    using decide_due [OF assms that] spent [of "Suc n"] by (simp add: split_beta)
  have idle: "fst (boots n m) = replicate n (activeSlot m)" if "\<not> trial_due m"
    using boots_rest [OF assms that] boots_spent [OF assms, of n] by (cases "trial_spent m"; cases "n = 0") simp_all
  have "rest_ok (snd (boots (n + 2) m)) \<and> activeSlot (snd (boots (n + 2) m)) = activeSlot m"
    using bad boots_rest [OF assms] boots_spent [OF assms, of "n + 2"] rest_ok_mark(1) [OF assms] assms
    by (cases "trial_due m"; cases "trial_spent m") simp_all
  then have "\<not> otaTrialUnconfirmed (snd (boots (n + 2) m)) (activeSlot m)"
    by (auto simp: otaTrialUnconfirmed_def rest_ok_def)
  then show ?thesis using due lock bad idle by blast
qed

lemma boot_trial_once_example:
  "fst (boots 3 \<lparr> activeSlot = 0, slotState = [3, 1], trialAttempted = False \<rparr>) = [1, 0, 0]"
  using boot_trial_once [of "\<lparr> activeSlot = 0, slotState = [3, 1], trialAttempted = False \<rparr>" 2]
  by (simp add: rest_ok_def meta_ok_def trial_due_def spare_slot_def slot_defs slot_state_defs
      numeral_eq_Suc)

end
