(* ===== verification/Updater_Correct.thy ===== *)
theory Updater_Correct
  imports Ota_Updater
begin

text \<open>
  The correctness of the update session. The first part is proved in the contract of the store:
  every event leaves the running slot and the rest of the memory alone and keeps the session
  invariant; the chunks of an image, whatever is lost, repeated or reordered, only ever extend a
  prefix of that image; a finish that answers OK has verified what it staged; on a working part an
  in-order transfer is staged. The second part states these of the board's store over the flash.
\<close>


section \<open>Against the contract\<close>

lemma slots_two: "runningSlot st s \<in> {OTA_SLOT_A, OTA_SLOT_B}" "targetSlot st s \<in> {OTA_SLOT_A, OTA_SLOT_B}"
  "targetSlot st s \<noteq> runningSlot st s" "runningSlot st s \<noteq> targetSlot st s"
  by (auto simp: runningSlot_def targetSlot_def slot_defs)

lemma slots_cong: "st_runningSlot st s' = st_runningSlot st s \<Longrightarrow> runningSlot st s' = runningSlot st s"
  "st_runningSlot st s' = st_runningSlot st s \<Longrightarrow> targetSlot st s' = targetSlot st s"
  by (simp_all add: runningSlot_def targetSlot_def)

lemma closeSession_inactive [simp]: "\<not> u_sessionActive (closeSession u)"
  by (simp add: closeSession_def)

lemma session_ok_inactive: "\<not> u_sessionActive u \<Longrightarrow> session_ok st (u, s)"
  by (simp add: session_ok_def)

lemma chunk_sane_time [simp]: "chunk_sane off data (u\<lparr> u_lastPacketUs := t \<rparr>) = chunk_sane off data u"
  by (simp add: chunk_sane_def)

context firmware_store
begin

text \<open>What every event keeps, as one relation between states of the store.\<close>

definition safe_step :: "'s \<Rightarrow> 's \<Rightarrow> bool" where
  "safe_step s s' \<longleftrightarrow> st_runningSlot st s' = st_runningSlot st s \<and> st_slotSize st s' = st_slotSize st s \<and>
     rest s' = rest s \<and> content s' (runningSlot st s) = content s (runningSlot st s)"

lemma safe_refl [simp, intro]: "safe_step s s"
  by (simp add: safe_step_def)

lemma safe_slots: "safe_step s s' \<Longrightarrow> runningSlot st s' = runningSlot st s \<and> targetSlot st s' = targetSlot st s"
  using slots_cong [of st s' s] by (auto simp: safe_step_def)

lemma safe_trans [trans]: "safe_step s s' \<Longrightarrow> safe_step s' s'' \<Longrightarrow> safe_step s s''"
  using safe_slots [of s s'] by (auto simp: safe_step_def)

lemma safe_meta [intro]: "meta_ok m \<Longrightarrow> safe_step s (fst (st_writeMeta st m s))"
  using slots_two(1) [of st s] by (simp add: safe_step_def meta_const meta_rest meta_content)

lemma safe_erase [intro]: "slot \<noteq> runningSlot st s \<Longrightarrow> safe_step s (fst (st_eraseSlot st slot s))"
  using slots_two(1) [of st s] by (simp add: safe_step_def erase_const erase_rest erase_content)

lemma safe_program [intro]:
  "slot \<noteq> runningSlot st s \<Longrightarrow> length data < 2 ^ 32 \<Longrightarrow> safe_step s (fst (st_program st slot off data s))"
  using slots_two(1) [of st s] by (simp add: safe_step_def program_const program_rest program_content)

lemma session_ok_safe:
  "session_ok st (u, s) \<Longrightarrow> safe_step s s' \<Longrightarrow> session_ok st (u, s')"
  using safe_slots [of s s'] by (auto simp: session_ok_def safe_step_def)

lemma chunk_sane_next:
  assumes "chunk_sane off data u" "off = u_nextOffset u" "u_nextOffset u \<le> u_imageSize u"
  shows "unat (u_nextOffset u + of_nat (length data)) = unat (u_nextOffset u) + length data"
    "unat (u_nextOffset u) + length data \<le> unat (u_imageSize u)" "length data < 2 ^ 32"
proof -
  have d: "length data \<le> 240" "of_nat (length data) \<le> u_imageSize u - u_nextOffset u"
    using assms(1,2) by (simp_all add: chunk_sane_def OTA_CHUNK_DATA_SIZE_def)
  then show "length data < 2 ^ 32" by simp
  have "unat (of_nat (length data) :: u32) = length data" using d(1) by (intro unat_of_nat_small) simp
  then show le: "unat (u_nextOffset u) + length data \<le> unat (u_imageSize u)"
    using d(2) unat_sub [OF assms(3)] assms(3) by (simp add: word_le_nat_alt)
  show "unat (u_nextOffset u + of_nat (length data)) = unat (u_nextOffset u) + length data"
    by (rule unat_plus_of_nat) (use le unat_bound [of "u_imageSize u"] in linarith)
qed

lemma begin_step:
  assumes "handleBegin st session n crc inp u s = (u', s', r)" "session_ok st (u, s)"
  shows "safe_step s s' \<and> session_ok st (u', s')"
proof (cases "st_readMeta st s")
  case None
  then show ?thesis using assms
    by (auto simp: handleBegin_def Let_def session_ok_inactive split: if_splits)
next
  case (Some m)
  let ?m = "set_slot_state (targetSlot st s) OTA_SLOT_EMPTY m"
  let ?s1 = "fst (st_writeMeta st ?m s)" and ?s2 = "fst (st_eraseSlot st (targetSlot st s) (fst (st_writeMeta st ?m s)))"
  have m: "meta_ok ?m" using meta_read [OF Some] by simp
  have 1: "safe_step s ?s1" using m by blast
  have "targetSlot st s \<noteq> runningSlot st ?s1" using safe_slots [OF 1] slots_two(3) [of st s] by simp
  then have 2: "safe_step s ?s2" using safe_trans [OF 1] by blast
  show ?thesis
  proof (cases "(u', s') = (u, s) \<or> \<not> u_sessionActive u'")
    case True
    then show ?thesis using assms Some 1 2
      by (auto simp: handleBegin_def Let_def split_beta session_ok_inactive split: if_splits)
  next
    case False
    then have "s' = ?s2" "u_targetSlot u' = targetSlot st s" "u_nextOffset u' = 0" "u_imageSize u' = n" "n \<le> st_slotSize st s"
      using assms Some by (auto simp: handleBegin_def Let_def split_beta split: if_splits)
    then show ?thesis using 2 safe_slots [OF 2] by (simp add: session_ok_def safe_step_def)
  qed
qed

lemma chunk_step:
  assumes "handleChunk st session off data inp u s = (u', s', r)" "session_ok st (u, s)"
  shows "safe_step s s' \<and> session_ok st (u', s')"
proof (cases "u_sessionActive u \<and> session = u_session u \<and> chunk_sane off data u \<and> off = u_nextOffset u")
  case True
  let ?s = "fst (st_program st (u_targetSlot u) off data s)"
  have ok: "u_targetSlot u = targetSlot st s" "u_nextOffset u \<le> u_imageSize u" "u_imageSize u \<le> st_slotSize st s"
    using True assms(2) by (simp_all add: session_ok_def)
  note nx = chunk_sane_next [of off data u, OF _ _ ok(2)]
  have safe: "safe_step s ?s" using True ok(1) slots_two(3) [of st s] nx(3) by (intro safe_program) auto
  have "s' = ?s" "u_sessionActive u' \<Longrightarrow> u_targetSlot u' = u_targetSlot u \<and> u_imageSize u' = u_imageSize u \<and>
      u_nextOffset u' = u_nextOffset u + of_nat (length data)"
    using assms(1) True by (auto simp: handleChunk_def Let_def split_beta closeSession_def split: if_splits)
  then show ?thesis using safe ok nx True safe_slots [OF safe]
    by (auto simp: session_ok_def safe_step_def word_le_nat_alt)
next
  case False
  then have "s' = s" "u' = u \<or> u' = u\<lparr> u_lastPacketUs := in_nowUs inp \<rparr>"
    using assms(1) by (auto simp: handleChunk_def Let_def chunk_sane_def split: if_splits)
  then show ?thesis using assms(2) by (auto simp: session_ok_def)
qed

lemma finish_step:
  assumes "handleFinish st session inp u s = (u', s', r)" "session_ok st (u, s)"
  shows "safe_step s s' \<and> session_ok st (u', s')"
proof -
  have "safe_step s s'"
    using assms(1) by (auto simp: handleFinish_def Let_def split_beta dest: meta_read intro!: safe_meta split: if_splits option.splits)
  moreover have "u' = u \<or> u' = u\<lparr> u_lastPacketUs := in_nowUs inp \<rparr> \<or> \<not> u_sessionActive u'"
    using assms(1) by (auto simp: handleFinish_def Let_def split_beta split: if_splits option.splits)
  ultimately show ?thesis
    using session_ok_safe [OF assms(2)] by (auto simp: session_ok_def)
qed

lemma status_step: "safe_step s (selfConfirmTrial st s)"
  by (auto simp: selfConfirmTrial_def dest: meta_read intro!: safe_meta split: option.splits)

lemma revert_step: "safe_step s (fst (handleRevert st s))"
  by (auto simp: handleRevert_def Let_def split_beta dest: meta_read intro!: safe_meta split: option.splits)

lemma event_step:
  assumes "session_ok st (u, s)" "updater_step st e (u, s) = (u', s')"
  shows "safe_step s s' \<and> session_ok st (u', s')"
proof (cases e)
  case (Tick now)
  then show ?thesis using assms by (auto simp: OtaUpdater_tick_def session_ok_def closeSession_def split: if_splits)
next
  case (Message req inp)
  show ?thesis
  proof (cases req)
    case (Begin a b c)
    then show ?thesis using assms Message begin_step by (auto simp: split: prod.splits)
  next
    case (Chunk a b c)
    then show ?thesis using assms Message chunk_step by (auto simp: split: prod.splits)
  next
    case (Finish a)
    then show ?thesis using assms Message finish_step by (auto simp: split: prod.splits)
  next
    case StatusRequest
    then show ?thesis using assms Message status_step session_ok_safe by (auto simp: Let_def split: if_splits)
  next
    case Revert
    then show ?thesis using assms Message revert_step session_ok_safe by (auto simp: split_beta)
  next
    case (Abort a)
    then show ?thesis using assms Message by (auto simp: handleAbort_def session_ok_inactive split: if_splits)
  next
    case OtherBody
    then show ?thesis using assms Message by auto
  qed
qed

lemma run_safe:
  assumes "session_ok st (u, s)" "updater_run st es (u, s) = (u', s')"
  shows "safe_step s s' \<and> session_ok st (u', s')"
  using assms
proof (induction es arbitrary: u s)
  case Nil
  then show ?case by (simp add: updater_run_def)
next
  case (Cons e es)
  obtain u1 s1 where e: "updater_step st e (u, s) = (u1, s1)" by (cases "updater_step st e (u, s)")
  from event_step [OF Cons.prems(1) this] have 1: "safe_step s s1" "session_ok st (u1, s1)" by simp_all
  have "updater_run st es (u1, s1) = (u', s')" using Cons.prems(2) e by (simp add: updater_run_def)
  from Cons.IH [OF 1(2) this] show ?case using safe_trans [OF 1(1)] by blast
qed

text \<open>The bytes of the session's slot are a prefix of the image.\<close>

definition holds_prefix :: "bytes \<Rightarrow> u32 \<Rightarrow> updater \<times> 's \<Rightarrow> bool" where
  "holds_prefix img session = (\<lambda>(u, s). u_sessionActive u \<and> u_session u = session \<longrightarrow>
     take (unat (u_nextOffset u)) (content s (u_targetSlot u)) = take (unat (u_nextOffset u)) img)"

lemma chunk_prefix:
  assumes "handleChunk st a off data inp u s = (u', s', r)" "session_ok st (u, s)" "holds_prefix img session (u, s)"
    and "a = session \<longrightarrow> data = take (length data) (drop (unat off) img)"
  shows "holds_prefix img session (u', s')"
proof (cases "u_sessionActive u \<and> a = u_session u \<and> u_session u = session \<and> chunk_sane off data u \<and> off = u_nextOffset u")
  case True
  let ?s = "fst (st_program st (u_targetSlot u) off data s)"
  have ok: "u_nextOffset u \<le> u_imageSize u" using True assms(2) by (simp add: session_ok_def)
  have sane: "chunk_sane off data u" "off = u_nextOffset u" using True by auto
  note nx = chunk_sane_next [OF sane ok]
  show ?thesis
  proof (cases "u_sessionActive u'")
    case act: True
    then have p: "snd (st_program st (u_targetSlot u) off data s)" "s' = ?s" "u_targetSlot u' = u_targetSlot u"
      "u_nextOffset u' = u_nextOffset u + of_nat (length data)"
      using assms(1) True by (auto simp: handleChunk_def Let_def split_beta closeSession_def split: if_splits)
    have "take (unat off + length data) (content ?s (u_targetSlot u)) = take (unat off) (content s (u_targetSlot u)) @ data"
      using program_prefix [OF p(1) nx(3)] by blast
    also have "\<dots> = take (unat off) img @ take (length data) (drop (unat off) img)"
      using True assms(3,4) by (simp add: holds_prefix_def)
    also have "\<dots> = take (unat off + length data) img" by (simp add: take_add)
    finally show ?thesis using p(2-4) nx(1) sane(2) by (simp add: holds_prefix_def)
  qed (simp add: holds_prefix_def)
next
  case False
  then show ?thesis
  proof (cases "u_sessionActive u \<and> a = u_session u \<and> chunk_sane off data u \<and> off = u_nextOffset u")
    case True
    then have "u_session u \<noteq> session" using False by auto
    moreover have "u_session u' = u_session u"
      using assms(1) by (auto simp: handleChunk_def Let_def split_beta closeSession_def split: if_splits)
    ultimately show ?thesis by (simp add: holds_prefix_def)
  next
    case no: False
    then have "s' = s" "u' = u \<or> u' = u\<lparr> u_lastPacketUs := in_nowUs inp \<rparr>"
      using assms(1) by (auto simp: handleChunk_def Let_def split: if_splits)
    then show ?thesis using assms(3) by (auto simp: holds_prefix_def)
  qed
qed

lemma begin_prefix:
  assumes "handleBegin st a n crc inp u s = (u', s', r)" "session_ok st (u, s)" "holds_prefix img session (u, s)"
  shows "holds_prefix img session (u', s')"
proof -
  have "(u', s') = (u, s) \<or> \<not> u_sessionActive u' \<or> u_nextOffset u' = 0"
    using assms(1) by (auto simp: handleBegin_def Let_def split_beta split: if_splits option.splits)
  then show ?thesis using assms(3) by (auto simp: holds_prefix_def)
qed

lemma finish_prefix:
  assumes "handleFinish st a inp u s = (u', s', r)" "session_ok st (u, s)" "holds_prefix img session (u, s)"
  shows "holds_prefix img session (u', s')"
proof (cases "u_sessionActive u'")
  case True
  then have u: "u' = u \<or> u' = u\<lparr> u_lastPacketUs := in_nowUs inp \<rparr>"
    using assms(1) by (auto simp: handleFinish_def Let_def split_beta split: if_splits option.splits)
  then have act: "u_targetSlot u = targetSlot st s" using True assms(2) by (auto simp: session_ok_def)
  have "s' = s \<or> (\<exists>m. meta_ok m \<and> s' = fst (st_writeMeta st m s))"
    using assms(1)
    by (auto simp: handleFinish_def Let_def split_beta dest!: meta_read split: if_splits option.splits)
       (metis meta_ok_set meta_ok_upd(2))+
  then have "content s' (u_targetSlot u) = content s (u_targetSlot u)"
    using meta_content slots_two(2) [of st s] act by auto
  then show ?thesis using assms(3) u by (auto simp: holds_prefix_def)
qed (simp add: holds_prefix_def)

end

text \<open>Every chunk of the session is a piece of the image, at its place.\<close>

fun honest :: "bytes \<Rightarrow> u32 \<Rightarrow> updater_event \<Rightarrow> bool" where
  "honest img session (Message (Chunk a off data) inp) =
     (a = session \<longrightarrow> data = take (length data) (drop (unat off) img))"
| "honest img session _ = True"

context firmware_store
begin

lemma meta_prefix:
  assumes "session_ok st (u, s)" "holds_prefix img session (u, s)" "meta_ok m"
  shows "holds_prefix img session (u, fst (st_writeMeta st m s))"
  using assms meta_content [OF assms(3), of "u_targetSlot u" s] slots_two(2) [of st s]
  by (auto simp: holds_prefix_def session_ok_def)

lemma event_prefix:
  assumes "session_ok st (u, s)" "holds_prefix img session (u, s)" "honest img session e"
    "updater_step st e (u, s) = (u', s')"
  shows "holds_prefix img session (u', s')"
proof (cases e)
  case (Tick now)
  then show ?thesis using assms
    by (auto simp: OtaUpdater_tick_def holds_prefix_def closeSession_def split: if_splits)
next
  case (Message req inp)
  show ?thesis
  proof (cases req)
    case (Begin a b c)
    then show ?thesis using assms Message begin_prefix by (auto split: prod.splits)
  next
    case (Chunk a b c)
    then show ?thesis using assms Message chunk_prefix by (auto split: prod.splits)
  next
    case (Finish a)
    then show ?thesis using assms Message finish_prefix by (auto split: prod.splits)
  next
    case StatusRequest
    then show ?thesis using assms Message meta_prefix [OF assms(1,2)]
      by (auto simp: Let_def selfConfirmTrial_def dest: meta_read split: if_splits option.splits)
  next
    case Revert
    then show ?thesis using assms Message meta_prefix [OF assms(1,2)]
      by (auto simp: handleRevert_def Let_def split_beta dest: meta_read split: if_splits option.splits)
  next
    case (Abort a)
    then show ?thesis using assms Message by (auto simp: handleAbort_def holds_prefix_def split: if_splits)
  next
    case OtherBody
    then show ?thesis using assms Message by auto
  qed
qed

lemma run_prefix:
  assumes "session_ok st (u, s)" "holds_prefix img session (u, s)" "\<forall>e \<in> set es. honest img session e"
    "updater_run st es (u, s) = (u', s')"
  shows "holds_prefix img session (u', s')"
  using assms
proof (induction es arbitrary: u s)
  case Nil
  then show ?case by (simp add: updater_run_def)
next
  case (Cons e es)
  obtain u1 s1 where e: "updater_step st e (u, s) = (u1, s1)" by (cases "updater_step st e (u, s)")
  have "updater_run st es (u1, s1) = (u', s')" using Cons.prems(4) e by (simp add: updater_run_def)
  then show ?case
    using Cons.IH [OF conjunct2 [OF event_step [OF Cons.prems(1) e]] event_prefix [OF Cons.prems(1,2) _ e]] Cons.prems(3) by simp
qed

text \<open>What a finish that answers OK has checked and done.\<close>

lemma finish_ok:
  assumes "handleFinish st session inp u s = (u', s', Ack OtaOp_FINISH a OTA_OK)" "session_ok st (u, s)" "metas s < 2 ^ 32 - 1"
  shows "u_sessionActive u \<and> session = u_session u \<and> u_nextOffset u = u_imageSize u \<and>
    crc32Mpeg2 (take (unat (u_imageSize u)) (content s (targetSlot st s))) = u_imageCrc u \<and>
    st_imageValid st (targetSlot st s) (u_imageSize u) s \<and>
    content s' (targetSlot st s) = content s (targetSlot st s) \<and> \<not> u_sessionActive u' \<and> metas s' = metas s + 1 \<and>
    (\<exists>m. st_readMeta st s = Some m \<and>
       st_readMeta st s' = Some ((set_slot_state (targetSlot st s) OTA_SLOT_STAGED m)\<lparr> trialAttempted := False \<rparr>))"
proof -
  from assms(1) obtain m where f: "u_sessionActive u" "session = u_session u" "\<not> u_nextOffset u < u_imageSize u"
    "st_crc32 st (u_targetSlot u) 0 (u_imageSize u) s = u_imageCrc u" "st_imageValid st (u_targetSlot u) (u_imageSize u) s"
    "st_readMeta st s = Some m" "snd (st_writeMeta st ((set_slot_state (u_targetSlot u) OTA_SLOT_STAGED m)\<lparr> trialAttempted := False \<rparr>) s)"
    "s' = fst (st_writeMeta st ((set_slot_state (u_targetSlot u) OTA_SLOT_STAGED m)\<lparr> trialAttempted := False \<rparr>) s)"
    "\<not> u_sessionActive u'"
    by (auto simp: handleFinish_def Let_def split_beta split: if_splits option.splits)
  have ok: "u_targetSlot u = targetSlot st s" "u_nextOffset u = u_imageSize u" "u_imageSize u \<le> st_slotSize st s"
    using assms(2) f(1,3) by (auto simp: session_ok_def)
  have m: "meta_ok ((set_slot_state (targetSlot st s) OTA_SLOT_STAGED m)\<lparr> trialAttempted := False \<rparr>)" using meta_read [OF f(6)] by simp
  have "st_crc32 st (targetSlot st s) 0 (u_imageSize u) s = crc32Mpeg2 (take (unat (u_imageSize u)) (content s (targetSlot st s)))"
    using ok(3) by (intro crc_content slots_two) (simp add: word_le_nat_alt)
  then show ?thesis
    using f ok meta_content [OF m slots_two(2)] meta_written [OF m assms(3)] by (simp add: ok(1))
qed

end

text \<open>An image cut into chunks: whole words except in the last one, and each at its offset.\<close>

fun chunking :: "bytes list \<Rightarrow> bool" where
  "chunking [] \<longleftrightarrow> True"
| "chunking (d # ds) \<longleftrightarrow> d \<noteq> [] \<and> length d \<le> OTA_CHUNK_DATA_SIZE \<and> (ds = [] \<or> length d mod 4 = 0) \<and> chunking ds"

fun chunk_messages :: "u32 \<Rightarrow> u32 \<Rightarrow> inputs \<Rightarrow> bytes list \<Rightarrow> updater_event list" where
  "chunk_messages session off inp [] = []"
| "chunk_messages session off inp (d # ds) =
     Message (Chunk session off d) inp # chunk_messages session (off + of_nat (length d)) inp ds"

definition transfer :: "u32 \<Rightarrow> inputs \<Rightarrow> bytes list \<Rightarrow> updater_event list" where
  "transfer session inp chunks =
     Message (Begin session (of_nat (length (concat chunks))) (crc32Mpeg2 (concat chunks))) inp #
     chunk_messages session 0 inp chunks"

context working_store
begin

lemma begin_works:
  assumes "\<not> in_armed inp" "in_voltageOk inp" "\<not> u_sessionActive u" "metas s < 2 ^ 32 - 1"
    "OTA_IMAGE_HEADER_SIZE \<le> n" "n \<le> st_slotSize st s" "targetSlot st s \<noteq> st_runningSlot st s"
    and m: "st_readMeta st s = Some m"
  obtains u' s' where "handleBegin st session n crc inp u s = (u', s', Ack OtaOp_BEGIN session OTA_OK)"
    "u_sessionActive u'" "u_session u' = session" "u_targetSlot u' = targetSlot st s" "u_imageSize u' = n" "u_imageCrc u' = crc"
    "u_nextOffset u' = 0" "open_at s' (targetSlot st s) 0" "safe_step s s'" "metas s' = metas s + 1"
    "st_readMeta st s' = Some (set_slot_state (targetSlot st s) OTA_SLOT_EMPTY m)"
proof -
  let ?m = "set_slot_state (targetSlot st s) OTA_SLOT_EMPTY m"
  let ?s1 = "fst (st_writeMeta st ?m s)" let ?s2 = "fst (st_eraseSlot st (targetSlot st s) ?s1)"
  have mo: "meta_ok ?m" using meta_read [OF m] by simp
  have ok1: "snd (st_writeMeta st ?m s)" by (rule meta_works [OF mo])
  have safe: "safe_step s ?s1" using mo by blast
  have e: "snd (st_eraseSlot st (targetSlot st s) ?s1)" "open_at ?s2 (targetSlot st s) 0"
    using erase_works [OF slots_two(2), of st s ?s1] assms(7) by (simp_all add: meta_const)
  have "targetSlot st s \<noteq> runningSlot st ?s1" using safe_slots [OF safe] slots_two(3) [of st s] by simp
  then have safe2: "safe_step s ?s2" using safe_trans [OF safe] by blast
  show thesis
    by (rule that [of _ ?s2])
       (use assms ok1 e safe2 meta_written [OF mo assms(4) ok1] in
        \<open>auto simp: handleBegin_def Let_def split_beta erase_meta not_le [symmetric]\<close>)
qed

text \<open>Between two states of one session the slot gained the bytes \<open>bs\<close> and nothing else changed.\<close>

definition gained :: "bytes \<Rightarrow> updater \<times> 's \<Rightarrow> updater \<times> 's \<Rightarrow> bool" where
  "gained bs = (\<lambda>(u, s) (u', s'). u_sessionActive u' \<and> u_session u' = u_session u \<and> u_targetSlot u' = u_targetSlot u \<and>
     u_imageSize u' = u_imageSize u \<and> u_imageCrc u' = u_imageCrc u \<and> unat (u_nextOffset u') = unat (u_nextOffset u) + length bs \<and>
     safe_step s s' \<and> st_readMeta st s' = st_readMeta st s \<and> metas s' = metas s \<and>
     take (unat (u_nextOffset u')) (content s' (u_targetSlot u)) = take (unat (u_nextOffset u)) (content s (u_targetSlot u)) @ bs)"

lemma gained_trans: "gained bs x y \<Longrightarrow> gained cs y z \<Longrightarrow> gained (bs @ cs) x z"
  by (cases x; cases y; cases z) (auto simp: gained_def intro: safe_trans)

definition receiving :: "updater \<times> 's \<Rightarrow> bool" where
  "receiving = (\<lambda>(u, s). u_sessionActive u \<and> u_imageSize u \<le> st_slotSize st s \<and> u_targetSlot u = targetSlot st s \<and>
     open_at s (u_targetSlot u) (unat (u_nextOffset u)))"

lemma chunk_works:
  assumes rcv: "receiving (u, s)" and d: "d \<noteq> []" "length d \<le> OTA_CHUNK_DATA_SIZE"
    "unat (u_nextOffset u) + length d \<le> unat (u_imageSize u)" "unat (u_nextOffset u) mod 4 = 0"
    and h: "handleChunk st (u_session u) (u_nextOffset u) d inp u s = (u', s', r)"
  shows "receiving (u', s') \<and> gained d (u, s) (u', s') \<and> u_nextOffset u' = u_nextOffset u + of_nat (length d)"
proof -
  let ?p = "st_program st (u_targetSlot u) (u_nextOffset u) d s"
  have r: "u_sessionActive u" "u_imageSize u \<le> st_slotSize st s" "u_targetSlot u = targetSlot st s"
    "open_at s (u_targetSlot u) (unat (u_nextOffset u))" using rcv unfolding receiving_def by auto
  have l: "unat (of_nat (length d) :: u32) = length d" using d(2) by (intro unat_of_nat_small) (simp add: OTA_CHUNK_DATA_SIZE_def)
  have le: "u_nextOffset u \<le> u_imageSize u" using d(3) by (simp add: word_le_nat_alt)
  have sane: "chunk_sane (u_nextOffset u) d u"
    using d(1-3) le l unat_sub [OF le] by (simp add: chunk_sane_def word_le_nat_alt)
  note nx = chunk_sane_next [OF sane refl le]
  have fit: "unat (u_nextOffset u) + length d \<le> unat (st_slotSize st s)" using d(3) r(2) by (simp add: word_le_nat_alt)
  have p: "snd ?p" "open_at (fst ?p) (u_targetSlot u) (unat (u_nextOffset u) + length d)"
    using program_works [OF r(4) d(4,1) fit] by simp_all
  have safe: "safe_step s (fst ?p)" using r(3) slots_two(3) [of st s] nx(3) by (intro safe_program) simp_all
  have u': "s' = fst ?p" "u_sessionActive u'" "u_session u' = u_session u" "u_targetSlot u' = u_targetSlot u"
    "u_imageSize u' = u_imageSize u" "u_imageCrc u' = u_imageCrc u" "u_nextOffset u' = u_nextOffset u + of_nat (length d)"
    using h r(1) sane p(1) by (auto simp: handleChunk_def Let_def split_beta split: if_splits)
  show ?thesis
    using u' r nx p safe safe_slots [OF safe] program_meta [OF nx(3)] program_prefix [OF p(1) nx(3)]
    by (simp add: receiving_def gained_def safe_step_def)
qed

lemma chunks_work:
  assumes "receiving (u, s)" "chunking ds" "unat (u_nextOffset u) + length (concat ds) = unat (u_imageSize u)"
    "ds = [] \<or> unat (u_nextOffset u) mod 4 = 0"
    "updater_run st (chunk_messages (u_session u) (u_nextOffset u) inp ds) (u, s) = (u', s')"
  shows "receiving (u', s') \<and> gained (concat ds) (u, s) (u', s')"
  using assms
proof (induction ds arbitrary: u s)
  case Nil
  then show ?case by (auto simp: updater_run_def gained_def receiving_def)
next
  case (Cons d ds)
  obtain u1 s1 r where h: "handleChunk st (u_session u) (u_nextOffset u) d inp u s = (u1, s1, r)"
    by (cases "handleChunk st (u_session u) (u_nextOffset u) d inp u s")
  have d: "d \<noteq> []" "length d \<le> OTA_CHUNK_DATA_SIZE" "ds = [] \<or> length d mod 4 = 0" "chunking ds"
    "unat (u_nextOffset u) + length d \<le> unat (u_imageSize u)" "unat (u_nextOffset u) mod 4 = 0"
    using Cons.prems(2-4) by simp_all
  have 1: "receiving (u1, s1)" "gained d (u, s) (u1, s1)" "u_nextOffset u1 = u_nextOffset u + of_nat (length d)"
    using chunk_works [OF Cons.prems(1) d(1,2,5,6) h] by simp_all
  have g: "u_session u1 = u_session u" "u_imageSize u1 = u_imageSize u" "unat (u_nextOffset u1) = unat (u_nextOffset u) + length d"
    using 1(2) by (simp_all add: gained_def)
  have "receiving (u', s') \<and> gained (concat ds) (u1, s1) (u', s')"
  proof (rule Cons.IH [OF 1(1) d(4)])
    show "ds = [] \<or> unat (u_nextOffset u1) mod 4 = 0" using d(3,6) g(3) by auto
    show "unat (u_nextOffset u1) + length (concat ds) = unat (u_imageSize u1)" using Cons.prems(3) g by simp
    show "updater_run st (chunk_messages (u_session u1) (u_nextOffset u1) inp ds) (u1, s1) = (u', s')"
      using Cons.prems(5) h g(1) 1(3) by (simp add: updater_run_def)
  qed
  then show ?case using gained_trans [OF 1(2)] by simp
qed

text \<open>A transfer on a working part is staged.\<close>

lemma transfer_works:
  assumes "\<not> in_armed inp" "in_voltageOk inp" "\<not> u_sessionActive u" "metas s < 2 ^ 32 - 2"
    and size: "unat OTA_IMAGE_HEADER_SIZE \<le> length (concat ds)" "length (concat ds) \<le> unat (st_slotSize st s)"
    and tgt: "targetSlot st s \<noteq> st_runningSlot st s" and ch: "chunking ds"
    and img: "image_ok (targetSlot st s) (of_nat (length (concat ds))) (concat ds)"
    and m: "st_readMeta st s = Some m"
    and run: "updater_run st (transfer session inp ds) (u, s) = (u2, s2)"
    and h: "handleFinish st session inp u2 s2 = (u', s', r)"
  shows "r = Ack OtaOp_FINISH session OTA_OK \<and> unat (u_imageSize u2) = length (concat ds) \<and> metas s2 = metas s + 1 \<and>
    st_readMeta st s' = Some ((set_slot_state (targetSlot st s) OTA_SLOT_STAGED m)\<lparr> trialAttempted := False \<rparr>) \<and>
    take (length (concat ds)) (content s' (targetSlot st s)) = concat ds \<and> safe_step s s' \<and> \<not> u_sessionActive u' \<and>
    metas s' = metas s + 2"
proof -
  let ?n = "of_nat (length (concat ds)) :: u32" and ?t = "targetSlot st s"
  have n: "unat ?n = length (concat ds)" using size(2) unat_bound [of "st_slotSize st s"] by (intro unat_of_nat_small) simp
  obtain u1 s1 where 1: "handleBegin st session ?n (crc32Mpeg2 (concat ds)) inp u s = (u1, s1, Ack OtaOp_BEGIN session OTA_OK)"
    "u_sessionActive u1" "u_session u1 = session" "u_targetSlot u1 = ?t" "u_imageSize u1 = ?n" "u_imageCrc u1 = crc32Mpeg2 (concat ds)"
    "u_nextOffset u1 = 0" "open_at s1 ?t 0" "safe_step s s1" "metas s1 = metas s + 1" "st_readMeta st s1 = Some (set_slot_state ?t OTA_SLOT_EMPTY m)"
    by (rule begin_works [OF assms(1-3) _ _ _ tgt m, of ?n]) (use assms(4) size n in \<open>auto simp: word_le_nat_alt\<close>)
  have sl: "st_slotSize st s1 = st_slotSize st s" "targetSlot st s1 = ?t"
    using 1(9) safe_slots [OF 1(9)] by (simp_all add: safe_step_def)
  have rcv: "receiving (u1, s1)" using 1 sl n size(2) by (simp add: receiving_def word_le_nat_alt)
  have run2: "updater_run st (chunk_messages (u_session u1) (u_nextOffset u1) inp ds) (u1, s1) = (u2, s2)"
    using run 1(1,3,7) by (simp add: transfer_def updater_run_def)
  have 2: "receiving (u2, s2)" "gained (concat ds) (u1, s1) (u2, s2)"
    using chunks_work [OF rcv ch _ _ run2] 1(5,7) n by simp_all
  then have g: "u_sessionActive u2" "u_session u2 = session" "u_targetSlot u2 = ?t" "u_imageSize u2 = ?n"
    "u_imageCrc u2 = crc32Mpeg2 (concat ds)" "u_nextOffset u2 = ?n" "safe_step s1 s2" "metas s2 = metas s + 1"
    "st_readMeta st s2 = Some (set_slot_state ?t OTA_SLOT_EMPTY m)"
    "take (length (concat ds)) (content s2 ?t) = concat ds"
    using 1 n by (auto simp: gained_def word_unat_eq_iff)
  have s2: "safe_step s s2" by (rule safe_trans [OF 1(9) g(7)])
  then have sl2: "st_slotSize st s2 = st_slotSize st s" "targetSlot st s2 = ?t"
    using safe_slots [OF s2] by (simp_all add: safe_step_def)
  have le: "?n \<le> st_slotSize st s2" "OTA_IMAGE_HEADER_SIZE \<le> ?n" using size n sl2(1) by (simp_all add: word_le_nat_alt)
  have crc: "st_crc32 st ?t 0 ?n s2 = crc32Mpeg2 (concat ds)"
    using crc_content [OF slots_two(2), of ?n s2 st s] n g(10) le(1) by (simp add: word_le_nat_alt)
  have valid: "st_imageValid st ?t ?n s2"
    using image_content [OF slots_two(2) [of st s] le(2,1)] img n g(10) by simp
  let ?m = "(set_slot_state ?t OTA_SLOT_STAGED (set_slot_state ?t OTA_SLOT_EMPTY m))\<lparr> trialAttempted := False \<rparr>"
  have mo: "meta_ok ?m" using meta_read [OF m] by simp
  have ok: "snd (st_writeMeta st ?m s2)" by (rule meta_works [OF mo])
  have s': "s' = fst (st_writeMeta st ?m s2)" "\<not> u_sessionActive u'" "r = Ack OtaOp_FINISH session OTA_OK"
    using h g ok crc valid by (auto simp: handleFinish_def Let_def split_beta split: if_splits)
  have "st_readMeta st s' = Some ?m" "metas s' = metas s + 2"
    using meta_written [OF mo _ ok] assms(4) g(8) by (simp_all add: s'(1))
  moreover have "content s' ?t = content s2 ?t" unfolding s'(1) by (rule meta_content [OF mo slots_two(2)])
  moreover have "safe_step s s'" unfolding s'(1) using safe_trans [OF s2] mo by blast
  moreover have "?m = (set_slot_state ?t OTA_SLOT_STAGED m)\<lparr> trialAttempted := False \<rparr>" by (simp add: set_slot_state_def)
  ultimately show ?thesis using g(4,8,10) n s'(2,3) by simp
qed

end


section \<open>Of the board\<close>

lemma slot_content_cell: "in_slot t x \<Longrightarrow> slot_content s' t = slot_content s t \<Longrightarrow> cells (s_flash s') x = cells (s_flash s) x"
proof -
  assume x: "in_slot t x" and eq: "slot_content s' t = slot_content s t"
  have "unat (otaSlotBase t) + unat OTA_SLOT_SIZE \<le> 2 ^ 32" by (simp add: unat_slotBase slot_values)
  then obtain i where i: "i < unat OTA_SLOT_SIZE" "x = otaSlotBase t + of_nat i"
    using x by (auto simp: in_slot_def in_range_offset)
  have "slot_content s' t ! i = slot_content s t ! i" using eq by simp
  then show ?thesis using i by (simp add: slot_content_def InternalFlash_Read_def)
qed

lemma two_slots: "t \<in> {OTA_SLOT_A, OTA_SLOT_B} \<longleftrightarrow> t = targetSlot st s \<or> t = runningSlot st s"
  by (auto simp: targetSlot_def runningSlot_def slot_defs)

context flash_controller
begin

lemma untouched:
  assumes "session_ok (FirmwareStoreStm32 ctl) (u, s)" "updater_run (FirmwareStoreStm32 ctl) es (u, s) = (u', s')"
    "\<not> in_slot (targetSlot (FirmwareStoreStm32 ctl) s) x" "\<not> in_meta x"
  shows "cells (s_flash s') x = cells (s_flash s) x"
proof (cases "in_slot (runningSlot (FirmwareStoreStm32 ctl) s) x")
  case True
  then show ?thesis using board.run_safe [OF assms(1,2)] slot_content_cell by (auto simp: board.safe_step_def)
next
  case False
  have out: "\<not> in_slot t x" if "t \<in> {OTA_SLOT_A, OTA_SLOT_B}" for t
    using that False assms(3) two_slots [of t "FirmwareStoreStm32 ctl" s] by auto
  have "other_cells s' x = other_cells s x" using board.run_safe [OF assms(1,2)] by (simp add: board.safe_step_def)
  then show ?thesis using out [of OTA_SLOT_A] out [of OTA_SLOT_B] assms(4) by (simp add: other_cells_def)
qed

lemma staged_is_image:
  assumes "\<not> u_sessionActive u" "\<forall>e \<in> set es. honest img session e"
    and run: "updater_run (FirmwareStoreStm32 ctl) es (u, s) = (u1, s1)"
    and fin: "OtaUpdater_handle (FirmwareStoreStm32 ctl) (Finish session) inp u1 s1 = (u2, s2, Ack OtaOp_FINISH session OTA_OK, c)"
    and cnt: "meta_count ctl s1 < 2 ^ 32 - 1" and n: "n = unat (u_imageSize u1)"
  shows "take n (slot_content s2 (targetSlot (FirmwareStoreStm32 ctl) s)) = take n img"
    "crc32Mpeg2 (take n img) = u_imageCrc u1"
    "st_imageValid (FirmwareStoreStm32 ctl) (targetSlot (FirmwareStoreStm32 ctl) s) (u_imageSize u1) s1"
    "\<exists>m. FirmwareStoreStm32_readMeta ctl s1 = Some m \<and> FirmwareStoreStm32_readMeta ctl s2 =
       Some ((set_slot_state (targetSlot (FirmwareStoreStm32 ctl) s) OTA_SLOT_STAGED m)\<lparr> trialAttempted := False \<rparr>)"
proof -
  let ?st = "FirmwareStoreStm32 ctl"
  have ok: "session_ok ?st (u, s)" using assms(1) by (rule session_ok_inactive)
  note safe = board.run_safe [OF ok run]
  have t: "targetSlot ?st s1 = targetSlot ?st s" using safe board.safe_slots by blast
  have pre: "board.holds_prefix img session (u1, s1)"
    by (rule board.run_prefix [OF ok _ assms(2) run]) (use assms(1) in \<open>simp add: board.holds_prefix_def\<close>)
  have h: "handleFinish ?st session inp u1 s1 = (u2, s2, Ack OtaOp_FINISH session OTA_OK)"
    using fin by (auto split: prod.splits)
  note f = board.finish_ok [OF h conjunct2 [OF safe] cnt]
  have "u_targetSlot u1 = targetSlot ?st s1" using f safe by (auto simp: session_ok_def)
  then have img: "take n (slot_content s1 (targetSlot ?st s)) = take n img"
    using pre f by (auto simp: board.holds_prefix_def t n)
  then show "take n (slot_content s2 (targetSlot ?st s)) = take n img" using f by (simp add: t)
  show "crc32Mpeg2 (take n img) = u_imageCrc u1" using f img by (simp add: t n)
  show "st_imageValid ?st (targetSlot ?st s) (u_imageSize u1) s1" using f by (simp add: t)
  show "\<exists>m. FirmwareStoreStm32_readMeta ctl s1 = Some m \<and> FirmwareStoreStm32_readMeta ctl s2 =
       Some ((set_slot_state (targetSlot ?st s) OTA_SLOT_STAGED m)\<lparr> trialAttempted := False \<rparr>)"
    using f by (simp add: t)
qed

end

text \<open>(C4) The update session cannot touch the running firmware. Whatever messages arrive, in
  whatever order and with whatever content, and whatever the flash controller does short of writing
  outside the sector or word it was given, every byte of the flash outside the other slot and the
  two metadata sectors is what it was: the bootloader, the reserved sectors and the whole slot the
  firmware runs from.\<close>

theorem updater_running_slot_untouched:
  assumes "flash_controller ctl" "s = FirmwareStoreStm32_init r f" "u = OtaUpdater_init selfConfirm"
    and "updater_run (FirmwareStoreStm32 ctl) es (u, s) = (u', s')"
    and "\<not> in_slot (targetSlot (FirmwareStoreStm32 ctl) s) x" "\<not> in_meta x"
  shows "cells (s_flash s') x = cells f x"
proof -
  have "session_ok (FirmwareStoreStm32 ctl) (u, s)" by (simp add: assms(3) session_ok_def OtaUpdater_init_def)
  then show ?thesis using flash_controller.untouched [OF assms(1) _ assms(4-6)]
    by (simp add: assms(2) FirmwareStoreStm32_init_def)
qed

theorem updater_running_slot_untouched_witness:
  "\<exists>u' s'. updater_run (FirmwareStoreStm32 (nor_ctl (\<lambda>n. n mod 2 = 0)))
      [Message (Begin 7 600 1) \<lparr> in_armed = False, in_voltageOk = True, in_nowUs = 0 \<rparr>, Tick 5]
      (OtaUpdater_init True, FirmwareStoreStm32_init 0 \<lparr> cells = (\<lambda>_. 0x42), hw = 0 \<rparr>) = (u', s') \<and>
    cells (s_flash s') 0x08020010 = 0x42"
proof -
  let ?ctl = "nor_ctl (\<lambda>n. n mod 2 = 0)" and ?f = "\<lparr> cells = (\<lambda>_. 0x42), hw = 0 \<rparr> :: nat flash"
  let ?s = "FirmwareStoreStm32_init 0 ?f"
  let ?es = "[Message (Begin 7 600 1) \<lparr> in_armed = False, in_voltageOk = True, in_nowUs = 0 \<rparr>, Tick 5]"
  obtain u' s' where r: "updater_run (FirmwareStoreStm32 ?ctl) ?es (OtaUpdater_init True, ?s) = (u', s')"
    by (cases "updater_run (FirmwareStoreStm32 ?ctl) ?es (OtaUpdater_init True, ?s)")
  have t: "targetSlot (FirmwareStoreStm32 ?ctl) ?s = OTA_SLOT_B"
    by (simp add: targetSlot_def runningSlot_def FirmwareStoreStm32_init_def slot_defs)
  have "cells (s_flash s') 0x08020010 = cells ?f 0x08020010"
    by (rule updater_running_slot_untouched [OF nor.flash_controller_axioms refl refl r])
       (simp_all only: t, simp_all add: in_slot_unat unat_slotBase in_meta_unat)
  then show ?thesis using r by simp
qed

text \<open>(C15) What is staged is the image that was sent. Let the chunks carrying the session nonce each
  be a piece of one image at its offset, as a sender makes them, and let the link lose, repeat and
  reorder them and mix in any other traffic. If a finish is then answered OK, the slot holds exactly
  the announced number of bytes of that image, their checksum is the one announced at the
  beginning, the header is for this chip, this slot and this size, and the metadata stages that
  slot for one fresh trial with the preferred slot unchanged. The 32-bit counter of the metadata
  records must not be at its end, which is past the life of the flash.\<close>

theorem updater_stages_the_image:
  assumes "flash_controller ctl" "\<not> u_sessionActive u" "\<forall>e \<in> set es. honest img session e"
    and "updater_run (FirmwareStoreStm32 ctl) es (u, s) = (u1, s1)"
    and "OtaUpdater_handle (FirmwareStoreStm32 ctl) (Finish session) inp u1 s1 = (u2, s2, Ack OtaOp_FINISH session OTA_OK, c)"
    and "meta_count ctl s1 < 2 ^ 32 - 1" and "n = unat (u_imageSize u1)" and "t = targetSlot (FirmwareStoreStm32 ctl) s"
  shows "take n (slot_content s2 t) = take n img \<and> crc32Mpeg2 (take n img) = u_imageCrc u1 \<and>
         st_imageValid (FirmwareStoreStm32 ctl) t (u_imageSize u1) s1 \<and>
         (\<exists>m. FirmwareStoreStm32_readMeta ctl s1 = Some m \<and>
            FirmwareStoreStm32_readMeta ctl s2 = Some ((set_slot_state t OTA_SLOT_STAGED m)\<lparr> trialAttempted := False \<rparr>))"
  unfolding assms(8) using flash_controller.staged_is_image [OF assms(1-7)] by blast


text \<open>An unpackaged image for slot B of the F405, the shortest one: the header with the erased bytes
  the packaging script would stamp, except for the size, and the two vectors.\<close>

definition small_image :: bytes where
  "small_image = [0x4D, 0x34, 0x46, 0x57, 1, 0, 1, 1, 0x08, 0x02, 0, 0] @ replicate 500 0xFF @
     [0, 0, 2, 0x20, 1, 0x02, 0x08, 0x08]"

definition small_chunks :: "bytes list" where
  "small_chunks = [take 240 small_image, take 240 (drop 240 small_image), drop 480 small_image]"

lemma length_small_image [simp]: "length small_image = 520"
  by (simp add: small_image_def)

lemma concat_small_chunks [simp]: "concat small_chunks = small_image"
proof -
  have "take 240 small_image @ take 240 (drop 240 small_image) @ drop 480 small_image = small_image"
    using append_take_drop_id [of 240 small_image] append_take_drop_id [of 240 "drop 240 small_image"] by simp
  then show ?thesis by (simp add: small_chunks_def)
qed

lemma chunking_small_chunks [simp]: "chunking small_chunks"
proof -
  have "length (take 240 small_image) = 240" "length (take 240 (drop 240 small_image)) = 240" "length (drop 480 small_image) = 40"
    by simp_all
  moreover have "small_image \<noteq> []" using length_small_image by force
  ultimately show ?thesis unfolding small_chunks_def by (auto simp: OTA_CHUNK_DATA_SIZE_def)
qed

lemma small_image_header: "image_header_ok OTA_SLOT_B 520 small_image"
proof -
  have "take 28 small_image = [0x4D, 0x34, 0x46, 0x57, 1, 0, 1, 1, 0x08, 0x02, 0, 0] @ replicate 16 0xFF"
    by (simp add: small_image_def)
  then show ?thesis
    by (simp add: image_header_ok_def otaHeaderImageValid_def otaReadImageHeader_def OTA_IMAGE_HEADER_PREFIX_SIZE_def
        memcpy_header_def field32_def field16_def rd32_def rd16_def image_defs slot_defs)
qed

abbreviation idle_inputs :: inputs where
  "idle_inputs \<equiv> \<lparr> in_armed = False, in_voltageOk = True, in_nowUs = 0 \<rparr>"

abbreviation blank_board :: "nat store32" where
  "blank_board \<equiv> FirmwareStoreStm32_init 0 blank_flash"

lemma blank_board_facts:
  "targetSlot (FirmwareStoreStm32 sound_ctl) blank_board = OTA_SLOT_B"
  "FirmwareStoreStm32_readMeta sound_ctl blank_board = Some OtaMetaState_init"
  "meta_count sound_ctl blank_board = 0" "s_runningSlot blank_board = OTA_SLOT_A"
  by (simp_all add: targetSlot_def runningSlot_def FirmwareStoreStm32_init_def slot_defs
      FirmwareStoreStm32_readMeta_def OtaMetaLog_read_def blank_flash_log Scan_init_def meta_count_def log_counter_def)

lemma honest_chunk_messages:
  assumes "img = pre @ concat ds" "length img < 2 ^ 32" "off = of_nat (length pre)"
  shows "\<forall>e \<in> set (chunk_messages session off inp ds). honest img session e"
  using assms
proof (induction ds arbitrary: pre off)
  case (Cons d ds)
  have "unat off = length pre" using Cons.prems by (simp add: unat_of_nat_small)
  then have "honest img session (Message (Chunk session off d) inp)" using Cons.prems(1) by simp
  moreover have "\<forall>e \<in> set (chunk_messages session (off + of_nat (length d)) inp ds). honest img session e"
    by (rule Cons.IH [of "pre @ d"]) (use Cons.prems in simp_all)
  ultimately show ?case by simp
qed simp

lemma honest_transfer:
  "length (concat ds) < 2 ^ 32 \<Longrightarrow> \<forall>e \<in> set (transfer session inp ds). honest (concat ds) session e"
  using honest_chunk_messages [of "concat ds" "[]" ds 0] by (simp add: transfer_def)

context working_flash
begin

lemma transfer_staged:
  assumes "\<not> in_armed inp" "in_voltageOk inp" "\<not> u_sessionActive u" "meta_count ctl s < 2 ^ 32 - 2"
    "chunking ds" "unat OTA_IMAGE_HEADER_SIZE \<le> length (concat ds)" "length (concat ds) \<le> unat OTA_SLOT_SIZE"
    "t = targetSlot (FirmwareStoreStm32 ctl) s" "image_header_ok t (of_nat (length (concat ds))) (concat ds)"
    and run: "updater_run (FirmwareStoreStm32 ctl) (transfer session inp ds) (u, s) = (u1, s1)"
    and fin: "OtaUpdater_handle (FirmwareStoreStm32 ctl) (Finish session) inp u1 s1 = (u2, s2, r, c)"
  shows "r = Ack OtaOp_FINISH session OTA_OK \<and> take (length (concat ds)) (slot_content s2 t) = concat ds \<and>
    unat (u_imageSize u1) = length (concat ds) \<and> meta_count ctl s1 = meta_count ctl s + 1 \<and> \<not> u_sessionActive u2 \<and>
    (\<exists>m. FirmwareStoreStm32_readMeta ctl s = Some m \<and>
       FirmwareStoreStm32_readMeta ctl s2 = Some ((set_slot_state t OTA_SLOT_STAGED m)\<lparr> trialAttempted := False \<rparr>))"
proof -
  let ?st = "FirmwareStoreStm32 ctl"
  obtain m where m: "st_readMeta ?st s = Some m" using wboard.meta_reads by blast
  have h: "handleFinish ?st session inp u1 s1 = (u2, s2, r)" using fin by (auto split: prod.splits)
  have tgt: "targetSlot ?st s \<noteq> st_runningSlot ?st s" by (auto simp: targetSlot_def runningSlot_def slot_defs)
  show ?thesis
    using wboard.transfer_works [OF assms(1-4) _ _ tgt assms(5) _ m run h] assms(6-9) m by simp
qed

end

text \<open>(C19) A good transfer goes through. On a flash that does not fail, with the vehicle disarmed and
  powered and no session open, an image with the header of the spare slot, cut into chunks of whole
  words except the last and sent in order, is staged: the finish is answered OK, the slot holds the
  image byte for byte, the session is closed, and the metadata is what it was with that slot staged
  for a fresh trial. The 32-bit counter of the metadata records must not be at its end, which is past
  the life of the flash.\<close>

theorem updater_transfer_staged:
  assumes "working_flash ctl" "\<not> in_armed inp" "in_voltageOk inp" "\<not> u_sessionActive u" "meta_count ctl s < 2 ^ 32 - 2"
    and "chunking ds" "unat OTA_IMAGE_HEADER_SIZE \<le> length (concat ds)" "length (concat ds) \<le> unat OTA_SLOT_SIZE"
    and "t = targetSlot (FirmwareStoreStm32 ctl) s" "image_header_ok t (of_nat (length (concat ds))) (concat ds)"
  shows "\<exists>u1 s1 u2 s2 m. updater_run (FirmwareStoreStm32 ctl) (transfer session inp ds) (u, s) = (u1, s1) \<and>
    OtaUpdater_handle (FirmwareStoreStm32 ctl) (Finish session) inp u1 s1 = (u2, s2, Ack OtaOp_FINISH session OTA_OK, True) \<and>
    take (length (concat ds)) (slot_content s2 t) = concat ds \<and> \<not> u_sessionActive u2 \<and>
    FirmwareStoreStm32_readMeta ctl s = Some m \<and>
    FirmwareStoreStm32_readMeta ctl s2 = Some ((set_slot_state t OTA_SLOT_STAGED m)\<lparr> trialAttempted := False \<rparr>)"
proof -
  let ?st = "FirmwareStoreStm32 ctl"
  obtain u1 s1 where run: "updater_run ?st (transfer session inp ds) (u, s) = (u1, s1)" by fastforce
  obtain u2 s2 r c where fin: "OtaUpdater_handle ?st (Finish session) inp u1 s1 = (u2, s2, r, c)" by (metis prod_cases4)
  have "c = True" using fin by (auto split: prod.splits)
  then show ?thesis using working_flash.transfer_staged [OF assms run fin] run fin by auto
qed

lemma small_transfer_fits:
  "chunking small_chunks" "unat OTA_IMAGE_HEADER_SIZE \<le> length (concat small_chunks)"
  "length (concat small_chunks) \<le> unat OTA_SLOT_SIZE" "image_header_ok OTA_SLOT_B (of_nat (length (concat small_chunks))) (concat small_chunks)"
  "length (concat small_chunks) < 2 ^ 32"
  using small_image_header by (simp_all add: slot_values image_defs)

theorem updater_transfer_staged_witness:
  "\<exists>u1 s1 u2 s2. updater_run (FirmwareStoreStm32 sound_ctl) (transfer 9 idle_inputs small_chunks) (OtaUpdater_init True, blank_board) = (u1, s1) \<and>
    OtaUpdater_handle (FirmwareStoreStm32 sound_ctl) (Finish 9) idle_inputs u1 s1 = (u2, s2, Ack OtaOp_FINISH 9 OTA_OK, True) \<and>
    take 520 (slot_content s2 OTA_SLOT_B) = small_image \<and>
    FirmwareStoreStm32_readMeta sound_ctl s2 = Some (set_slot_state OTA_SLOT_B OTA_SLOT_STAGED OtaMetaState_init)"
  using updater_transfer_staged [OF wnor.working_flash_axioms _ _ _ _ small_transfer_fits(1-3) blank_board_facts(1) [symmetric] small_transfer_fits(4),
      of idle_inputs "OtaUpdater_init True" 9]
  by (auto simp: blank_board_facts OtaUpdater_init_def OtaMetaState_init_def set_slot_state_def)

theorem updater_stages_the_image_witness:
  "\<exists>u1 s1 u2 s2. updater_run (FirmwareStoreStm32 sound_ctl) (transfer 9 idle_inputs small_chunks) (OtaUpdater_init True, blank_board) = (u1, s1) \<and>
    OtaUpdater_handle (FirmwareStoreStm32 sound_ctl) (Finish 9) idle_inputs u1 s1 = (u2, s2, Ack OtaOp_FINISH 9 OTA_OK, True) \<and>
    take 520 (slot_content s2 OTA_SLOT_B) = small_image \<and> crc32Mpeg2 small_image = u_imageCrc u1"
proof -
  let ?st = "FirmwareStoreStm32 sound_ctl" and ?u = "OtaUpdater_init True"
  obtain u1 s1 where run: "updater_run ?st (transfer 9 idle_inputs small_chunks) (?u, blank_board) = (u1, s1)" by fastforce
  obtain u2 s2 r c where fin: "OtaUpdater_handle ?st (Finish 9) idle_inputs u1 s1 = (u2, s2, r, c)" by (metis prod_cases4)
  have c: "c = True" using fin by (auto split: prod.splits)
  have u: "\<not> u_sessionActive ?u" by (simp add: OtaUpdater_init_def)
  have ok: "r = Ack OtaOp_FINISH 9 OTA_OK" "unat (u_imageSize u1) = 520" "meta_count sound_ctl s1 = 1"
    using working_flash.transfer_staged [OF wnor.working_flash_axioms _ _ u _ small_transfer_fits(1-3)
        blank_board_facts(1) [symmetric] small_transfer_fits(4) run fin] by (simp_all add: blank_board_facts)
  have fin': "OtaUpdater_handle ?st (Finish 9) idle_inputs u1 s1 = (u2, s2, Ack OtaOp_FINISH 9 OTA_OK, True)"
    using fin ok(1) c by simp
  have "take 520 (slot_content s2 OTA_SLOT_B) = take 520 small_image \<and> crc32Mpeg2 (take 520 small_image) = u_imageCrc u1"
    using updater_stages_the_image [OF nor.flash_controller_axioms u honest_transfer [OF small_transfer_fits(5)] run fin'
        _ ok(2) [symmetric] blank_board_facts(1) [symmetric]] ok(3) by simp
  then show ?thesis using run fin' by auto
qed

end
