(* ===== verification/Boot_App.thy ===== *)
theory Boot_App
  imports Store_Contract Boot_Policy
begin

text \<open>
  The bootloader (\<^verbatim>\<open>drone_boot/boot_app.cpp\<close>): read the metadata, decide, validate the image, jump.
  The two calls that do not return are the outcomes of \<open>BootApp_run\<close>: a jump into a slot or the
  panic pattern; what they do to the core and the LED is hardware. The flash is the one of
  \<open>Internal_Flash\<close> and the metadata log the one the firmware shares.
\<close>


section \<open>Validation\<close>

definition RAM_BASE :: u32 where "RAM_BASE = 0x20000000"
definition RAM_SIZE :: u32 where "RAM_SIZE = 128 * 1024"

text \<open>The block loop of \<^verbatim>\<open>crcRange\<close>.\<close>

function range_blocks :: "u32 \<Rightarrow> u32 \<Rightarrow> u32 \<Rightarrow> crc32 \<Rightarrow> 'h flash \<Rightarrow> crc32" where
  "range_blocks address n dn crc f =
     (if dn < n
      then range_blocks address n (dn + min (n - dn) CRC_BLOCK_SIZE)
             (Crc32Mpeg2_update crc (InternalFlash_Read (address + dn) (unat (min (n - dn) CRC_BLOCK_SIZE)) f)) f
      else crc)"
  by auto
termination
proof (relation "measure (\<lambda>(address, n, d, crc, f). unat n - unat d)")
  fix address n d :: u32 and crc :: crc32 and f :: "'h flash"
  assume d: "d < n"
  show "((address, n, d + min (n - d) CRC_BLOCK_SIZE,
      Crc32Mpeg2_update crc (InternalFlash_Read (address + d) (unat (min (n - d) CRC_BLOCK_SIZE)) f), f), address, n, d, crc, f)
    \<in> measure (\<lambda>(address, n, d, crc, f). unat n - unat d)"
    using block_step [OF d] d by (simp add: word_less_nat_alt)
qed simp

declare range_blocks.simps [simp del]

definition crcRange :: "u32 \<Rightarrow> u32 \<Rightarrow> 'h flash \<Rightarrow> u32" where
  "crcRange address n f = Crc32Mpeg2_finish (range_blocks address n 0 Crc32Mpeg2_init f)"

definition read_header :: "u8 \<Rightarrow> 'h flash \<Rightarrow> image_header" where
  "read_header slot f = memcpy_header (InternalFlash_Read (otaSlotBase slot) (unat OTA_IMAGE_HEADER_SIZE) f)"

text \<open>The initial stack pointer and the reset vector.\<close>

definition read_vectors :: "u8 \<Rightarrow> 'h flash \<Rightarrow> u32 \<times> u32" where
  "read_vectors slot f =
     (let bytes = InternalFlash_Read (otaSlotBase slot + OTA_IMAGE_HEADER_SIZE) 8 f in (field32 bytes 0, field32 bytes 4))"

definition BootApp_Validates :: "u8 \<Rightarrow> 'h flash \<Rightarrow> bool" where
  "BootApp_Validates slot f =
     (let base = otaSlotBase slot; header = read_header slot f; (sp, entry) = read_vectors slot f in
      if magic header \<noteq> OTA_IMAGE_MAGIC \<or> headerVersion header \<noteq> OTA_IMAGE_HEADER_VERSION then False
      else if mcuId header \<noteq> OTA_MCU_STM32F405 \<or> slotId header \<noteq> slot then False
      else if sp \<le> RAM_BASE \<or> RAM_BASE + RAM_SIZE < sp then False
      else if entry < base + OTA_IMAGE_HEADER_SIZE \<or> base + OTA_SLOT_SIZE \<le> entry then False
      else if imageCrc header = OTA_IMAGE_UNSTAMPED then True
      else if imageSize header \<le> OTA_IMAGE_HEADER_SIZE \<or> OTA_SLOT_SIZE < imageSize header then False
      else if headerCrc header \<noteq> crcRange base 508 f then False
      else imageCrc header = crcRange (base + OTA_IMAGE_HEADER_SIZE) (imageSize header - OTA_IMAGE_HEADER_SIZE) f)"


section \<open>The boot\<close>

datatype boot_outcome = JumpToSlot u8 | PanicBlink

definition BootApp_markBad :: "'h flash_ctl \<Rightarrow> meta_state \<Rightarrow> u8 \<Rightarrow> 'h flash \<Rightarrow> meta_state \<times> 'h flash" where
  "BootApp_markBad ctl state slot f =
     (let state = (set_slot_state slot OTA_SLOT_BAD state)\<lparr> trialAttempted := False \<rparr>
      in (state, fst (OtaMetaLog_append (OtaMetaFlashBackend ctl) state f)))"

definition BootApp_chooseSlot :: "'h flash_ctl \<Rightarrow> 'h flash \<Rightarrow> meta_state \<times> u8 \<times> 'h flash" where
  "BootApp_chooseSlot ctl f =
     (let state = (case OtaMetaLog_read (OtaMetaFlashBackend ctl) f of None \<Rightarrow> OtaMetaState_init | Some state \<Rightarrow> state);
          (state, decision) = otaDecideBoot state;
          f = (if bd_persist decision then fst (OtaMetaLog_append (OtaMetaFlashBackend ctl) state f) else f)
      in (state, bd_slot decision, f))"

definition BootApp_run :: "'h flash_ctl \<Rightarrow> 'h flash \<Rightarrow> boot_outcome \<times> 'h flash" where
  "BootApp_run ctl f =
     (let (state, slot, f) = BootApp_chooseSlot ctl f;
          slot = (if slot \<noteq> OTA_SLOT_A \<and> slot \<noteq> OTA_SLOT_B then OTA_SLOT_A else slot)
      in if \<not> BootApp_Validates slot f
         then (let (state, f) = BootApp_markBad ctl state slot f; slot = otaOtherSlot slot
               in if \<not> BootApp_Validates slot f then (PanicBlink, f) else (JumpToSlot slot, f))
         else (JumpToSlot slot, f))"


section \<open>What the validation checks\<close>

lemma range_blocks_read:
  assumes "dn \<le> n"
  shows "range_blocks address n dn crc f =
    Crc32Mpeg2_update crc (InternalFlash_Read (address + dn) (unat n - unat dn) f)"
  using assms
proof (induction "unat n - unat dn" arbitrary: dn crc rule: less_induct)
  case less
  show ?case
  proof (cases "dn < n")
    case True
    let ?c = "min (n - dn) CRC_BLOCK_SIZE"
    note st = block_step [OF True]
    have lt: "unat dn < unat n" using True by (simp add: word_less_nat_alt)
    have le: "dn + ?c \<le> n" using st(2,3) lt by (simp add: word_le_nat_alt)
    have "range_blocks address n (dn + ?c) crc' f =
        Crc32Mpeg2_update crc' (InternalFlash_Read (address + (dn + ?c)) (unat n - unat (dn + ?c)) f)" for crc'
      by (rule less.hyps [OF _ le]) (use st lt in linarith)
    moreover have "InternalFlash_Read (address + dn) (unat n - unat dn) f = InternalFlash_Read (address + dn) (unat ?c) f @
        InternalFlash_Read (address + (dn + ?c)) (unat n - unat (dn + ?c)) f"
      using Read_append [of "address + dn" "unat ?c" "unat n - unat dn - unat ?c" f] st lt by (simp add: add.assoc)
    ultimately show ?thesis using True by (subst range_blocks.simps) (simp add: update_append [symmetric])
  next
    case False
    then have "dn = n" using less.prems by simp
    then show ?thesis by (subst range_blocks.simps) (simp add: Crc32Mpeg2_update_def InternalFlash_Read_def)
  qed
qed

lemma crcRange_read: "crcRange address n f = crc32Mpeg2 (InternalFlash_Read address (unat n) f)"
  using range_blocks_read [of 0 n address Crc32Mpeg2_init f] by (simp add: crcRange_def crc32Mpeg2_def)

text \<open>An image that may be started from a slot, as a predicate on the bytes of the slot.\<close>

definition bootable :: "u8 \<Rightarrow> bytes \<Rightarrow> bool" where
  "bootable slot img \<longleftrightarrow>
     (let h = memcpy_header (take 512 img); sp = unat (field32 img 512); entry = unat (field32 img 516);
          base = unat (otaSlotBase slot); n = unat (imageSize h) in
      magic h = OTA_IMAGE_MAGIC \<and> headerVersion h = OTA_IMAGE_HEADER_VERSION \<and> mcuId h = OTA_MCU_STM32F405 \<and> slotId h = slot \<and>
      0x20000000 < sp \<and> sp \<le> 0x20020000 \<and> base + 512 \<le> entry \<and> entry < base + length img \<and>
      (imageCrc h = OTA_IMAGE_UNSTAMPED \<or>
       512 < n \<and> n \<le> length img \<and> headerCrc h = crc32Mpeg2 (take 508 img) \<and>
       imageCrc h = crc32Mpeg2 (drop 512 (take n img))))"

definition slot_bytes :: "u8 \<Rightarrow> 'h flash \<Rightarrow> bytes" where
  "slot_bytes slot f = InternalFlash_Read (otaSlotBase slot) (unat OTA_SLOT_SIZE) f"

lemma field32_Read: "i + 4 \<le> n \<Longrightarrow> k + 4 \<le> m \<Longrightarrow> b = a + of_nat k \<Longrightarrow> j = k + i \<Longrightarrow> j + 4 \<le> m \<Longrightarrow>
   field32 (InternalFlash_Read b n f) i = field32 (InternalFlash_Read a m f) j"
  by (simp add: field32_def InternalFlash_Read_def ac_simps)

lemma slot_word_bounds:
  "otaSlotBase slot + OTA_IMAGE_HEADER_SIZE \<le> x \<longleftrightarrow> unat (otaSlotBase slot) + 512 \<le> unat x"
  "x < otaSlotBase slot + OTA_SLOT_SIZE \<longleftrightarrow> unat x < unat (otaSlotBase slot) + 393216"
proof -
  have "unat (otaSlotBase slot + OTA_IMAGE_HEADER_SIZE) = unat (otaSlotBase slot) + 512"
    "unat (otaSlotBase slot + OTA_SLOT_SIZE) = unat (otaSlotBase slot) + 393216"
    using unat_add_no_overflow [of "otaSlotBase slot" OTA_IMAGE_HEADER_SIZE] unat_add_no_overflow [of "otaSlotBase slot" OTA_SLOT_SIZE]
    by (simp_all add: unat_slotBase slot_values OTA_IMAGE_HEADER_SIZE_def)
  then show "otaSlotBase slot + OTA_IMAGE_HEADER_SIZE \<le> x \<longleftrightarrow> unat (otaSlotBase slot) + 512 \<le> unat x"
    "x < otaSlotBase slot + OTA_SLOT_SIZE \<longleftrightarrow> unat x < unat (otaSlotBase slot) + 393216"
    by (simp_all add: word_le_nat_alt word_less_nat_alt)
qed

lemma read_vectors_slot:
  assumes "img = InternalFlash_Read (otaSlotBase slot) 393216 f"
  shows "read_vectors slot f = (field32 img 512, field32 img 516)"
proof -
  have "field32 (InternalFlash_Read (otaSlotBase slot + OTA_IMAGE_HEADER_SIZE) 8 f) 0 = field32 img 512"
    "field32 (InternalFlash_Read (otaSlotBase slot + OTA_IMAGE_HEADER_SIZE) 8 f) 4 = field32 img 516"
    unfolding assms OTA_IMAGE_HEADER_SIZE_def by (rule field32_Read [where k = 512]; simp)+
  then show ?thesis by (simp add: read_vectors_def)
qed

lemma code_bytes:
  assumes "512 < unat n" "unat n \<le> 393216"
  shows "InternalFlash_Read (otaSlotBase slot + OTA_IMAGE_HEADER_SIZE) (unat (n - OTA_IMAGE_HEADER_SIZE)) f =
    drop 512 (take (unat n) (InternalFlash_Read (otaSlotBase slot) 393216 f))"
proof -
  have "unat (n - OTA_IMAGE_HEADER_SIZE) = unat n - 512"
    using assms(1) unat_sub [of OTA_IMAGE_HEADER_SIZE n] by (simp add: word_le_nat_alt OTA_IMAGE_HEADER_SIZE_def)
  then show ?thesis using assms by (simp add: take_Read drop_Read OTA_IMAGE_HEADER_SIZE_def)
qed

lemma validates_bootable:
  "BootApp_Validates slot f \<longleftrightarrow> bootable slot (slot_bytes slot f)"
proof -
  define img where "img = InternalFlash_Read (otaSlotBase slot) 393216 f"
  define h where "h = memcpy_header (take 512 img)"
  have hd: "read_header slot f = h"
    by (simp add: read_header_def h_def img_def take_Read OTA_IMAGE_HEADER_SIZE_def)
  have l: "length img = 393216" by (simp add: img_def)
  have hcrc: "crcRange (otaSlotBase slot) 508 f = crc32Mpeg2 (take 508 img)"
    by (simp add: crcRange_read img_def take_Read)
  have icrc: "crcRange (otaSlotBase slot + OTA_IMAGE_HEADER_SIZE) (imageSize h - OTA_IMAGE_HEADER_SIZE) f =
      crc32Mpeg2 (drop 512 (take (unat (imageSize h)) img))"
    if "512 < unat (imageSize h)" "unat (imageSize h) \<le> 393216"
    using code_bytes [where slot = slot and f = f, OF that] by (simp add: crcRange_read img_def)
  have n: "imageSize h \<le> OTA_IMAGE_HEADER_SIZE \<longleftrightarrow> unat (imageSize h) \<le> 512" "OTA_SLOT_SIZE < imageSize h \<longleftrightarrow> 393216 < unat (imageSize h)"
    using slot_values(1) by (simp_all add: word_le_nat_alt word_less_nat_alt OTA_IMAGE_HEADER_SIZE_def)
  have sp: "sp \<le> RAM_BASE \<longleftrightarrow> unat sp \<le> 0x20000000" "RAM_BASE + RAM_SIZE < sp \<longleftrightarrow> 0x20020000 < unat sp" for sp
    by (simp_all add: word_le_nat_alt word_less_nat_alt RAM_BASE_def RAM_SIZE_def)
  have e: "entry < otaSlotBase slot + OTA_IMAGE_HEADER_SIZE \<longleftrightarrow> \<not> unat (otaSlotBase slot) + 512 \<le> unat entry"
    "otaSlotBase slot + OTA_SLOT_SIZE \<le> entry \<longleftrightarrow> \<not> unat entry < unat (otaSlotBase slot) + 393216" for entry
    by (simp_all only: slot_word_bounds(1) [symmetric] slot_word_bounds(2) [symmetric] not_le not_less)
  show ?thesis
    unfolding BootApp_Validates_def bootable_def Let_def hd read_vectors_slot [OF img_def] slot_bytes_def slot_values(1) img_def [symmetric]
      h_def [symmetric] prod.case sp e n l hcrc
    using icrc by auto
qed


section \<open>What a boot does\<close>

lemma run_after_choice:
  assumes "BootApp_chooseSlot ctl f = (state, s0, f1)"
    and "s = (if s0 \<noteq> OTA_SLOT_A \<and> s0 \<noteq> OTA_SLOT_B then OTA_SLOT_A else s0)"
  shows "BootApp_run ctl f = (if BootApp_Validates s f1 then (JumpToSlot s, f1)
     else let f2 = snd (BootApp_markBad ctl state s f1) in
       if BootApp_Validates (otaOtherSlot s) f2 then (JumpToSlot (otaOtherSlot s), f2) else (PanicBlink, f2))"
  unfolding BootApp_run_def assms by (simp add: split_beta Let_def)

context flash_controller
begin

lemma validates_frame:
  assumes "\<And>x. \<not> in_meta x \<Longrightarrow> cells f' x = cells f x"
  shows "BootApp_Validates slot f' = BootApp_Validates slot f"
proof -
  have "InternalFlash_Read (otaSlotBase slot) (unat OTA_SLOT_SIZE) f' = InternalFlash_Read (otaSlotBase slot) (unat OTA_SLOT_SIZE) f"
  proof (rule Read_eqI)
    fix i assume "i < unat OTA_SLOT_SIZE"
    then have "in_slot slot (otaSlotBase slot + of_nat i)" by (simp add: in_slot_unat slot_offset slot_values)
    then show "cells f' (otaSlotBase slot + of_nat i) = cells f (otaSlotBase slot + of_nat i)"
      using assms slot_not_meta by blast
  qed
  then show ?thesis by (simp add: validates_bootable slot_bytes_def)
qed

lemma chooseSlot_effect:
  assumes "BootApp_chooseSlot ctl f = (state, slot, f')"
  shows "meta_ok state" "\<not> in_meta x \<Longrightarrow> cells f' x = cells f x"
proof -
  let ?m = "case OtaMetaLog_read (OtaMetaFlashBackend ctl) f of None \<Rightarrow> OtaMetaState_init | Some state \<Rightarrow> state"
  have "meta_ok ?m" by (auto dest: meta.read_meta_ok simp: meta_ok_def OtaMetaState_init_def OTA_SLOT_COUNT_def split: option.split)
  moreover have "state = fst (otaDecideBoot ?m)" using assms by (auto simp: BootApp_chooseSlot_def Let_def split_beta)
  ultimately show ok: "meta_ok state" using meta_ok_decide by simp
  show "\<not> in_meta x \<Longrightarrow> cells f' x = cells f x"
    using assms ok append_frame [of x state f] by (auto simp: BootApp_chooseSlot_def Let_def split_beta)
qed

lemma markBad_effect: "meta_ok state \<Longrightarrow> \<not> in_meta x \<Longrightarrow> cells (snd (BootApp_markBad ctl state slot f)) x = cells f x"
  by (simp add: BootApp_markBad_def Let_def append_frame)

lemma boot_effect:
  assumes "BootApp_run ctl f = (out, f')"
  shows "\<not> in_meta x \<Longrightarrow> cells f' x = cells f x"
    "out = JumpToSlot slot \<Longrightarrow> slot \<in> {OTA_SLOT_A, OTA_SLOT_B} \<and> BootApp_Validates slot f"
    "out = PanicBlink \<longleftrightarrow> \<not> BootApp_Validates OTA_SLOT_A f \<and> \<not> BootApp_Validates OTA_SLOT_B f"
proof -
  obtain state s0 f1 where c: "BootApp_chooseSlot ctl f = (state, s0, f1)" by (cases "BootApp_chooseSlot ctl f")
  define s where "s = (if s0 \<noteq> OTA_SLOT_A \<and> s0 \<noteq> OTA_SLOT_B then OTA_SLOT_A else s0)"
  define f2 where "f2 = snd (BootApp_markBad ctl state s f1)"
  note eff = chooseSlot_effect [OF c]
  have f1: "cells f1 x = cells f x" if "\<not> in_meta x" for x using eff(2) that .
  have f2: "cells f2 x = cells f x" if "\<not> in_meta x" for x
    unfolding f2_def using markBad_effect [OF eff(1) that] f1 [OF that] by simp
  have v: "BootApp_Validates t f1 = BootApp_Validates t f" "BootApp_Validates t f2 = BootApp_Validates t f" for t
    using validates_frame [of f1 f] validates_frame [of f2 f] f1 f2 by blast+
  have s: "s \<in> {OTA_SLOT_A, OTA_SLOT_B}" by (simp add: s_def)
  have o: "otaOtherSlot OTA_SLOT_A = OTA_SLOT_B" "otaOtherSlot OTA_SLOT_B = OTA_SLOT_A" by (simp_all add: otaOtherSlot_def slot_defs)
  have r: "(out, f') = (if BootApp_Validates s f then (JumpToSlot s, f1)
      else if BootApp_Validates (otaOtherSlot s) f then (JumpToSlot (otaOtherSlot s), f2) else (PanicBlink, f2))"
    using assms unfolding run_after_choice [OF c s_def] Let_def f2_def [symmetric] v by (rule sym)
  show "\<not> in_meta x \<Longrightarrow> cells f' x = cells f x" using r f1 f2 by (auto split: if_splits)
  show "out = JumpToSlot slot \<Longrightarrow> slot \<in> {OTA_SLOT_A, OTA_SLOT_B} \<and> BootApp_Validates slot f"
    using r s o by (auto split: if_splits)
  show "out = PanicBlink \<longleftrightarrow> \<not> BootApp_Validates OTA_SLOT_A f \<and> \<not> BootApp_Validates OTA_SLOT_B f"
    using r s o by (auto split: if_splits)
qed

end

text \<open>(C7) The bootloader never starts a broken image and always starts a good one. Whatever the two
  metadata sectors hold and whether or not the flash accepts the records it writes, the slot it
  jumps into is one of the two and holds a bootable image: a header of the known layout for this
  chip and this slot, a stack pointer in SRAM, an entry point behind the header and inside the
  slot, and, unless the image was never stamped, the right checksums of the header and of the code
  up to the size the header gives. It gives up exactly when neither slot holds one, and it writes
  nothing outside the metadata sectors.\<close>

theorem boot_runs_only_valid:
  assumes "flash_controller ctl" "BootApp_run ctl f = (out, f')"
  shows "(case out of
            JumpToSlot slot \<Rightarrow> slot \<in> {OTA_SLOT_A, OTA_SLOT_B} \<and> bootable slot (slot_bytes slot f)
          | PanicBlink \<Rightarrow> \<not> bootable OTA_SLOT_A (slot_bytes OTA_SLOT_A f) \<and> \<not> bootable OTA_SLOT_B (slot_bytes OTA_SLOT_B f)) \<and>
         (\<forall>x. in_meta x \<or> cells f' x = cells f x)"
  using flash_controller.boot_effect [OF assms] by (cases out) (auto simp: validates_bootable)

theorem boot_runs_only_valid_witness:
  "fst (BootApp_run (nor_ctl (\<lambda>n. n mod 2 = 0)) \<lparr> cells = (\<lambda>_. 0xFF), hw = 0 \<rparr>) = PanicBlink"
proof -
  let ?ctl = "nor_ctl (\<lambda>n. n mod 2 = 0)" and ?f = "\<lparr> cells = (\<lambda>_. 0xFF), hw = 0 \<rparr> :: nat flash"
  obtain out f' where r: "BootApp_run ?ctl ?f = (out, f')" by fastforce
  have "\<not> BootApp_Validates slot ?f" for slot
    by (simp add: BootApp_Validates_def read_header_def read_vectors_def memcpy_header_def field32_def InternalFlash_Read_def
        rd32_def image_defs)
  then show ?thesis using boot_runs_only_valid [OF nor.flash_controller_axioms r] r by (cases out) (auto simp: validates_bootable)
qed

end
