(* ===== verification/Ota_Lifecycle.thy ===== *)
theory Ota_Lifecycle
  imports Updater_Correct Boot_App
begin

text \<open>
  The parts of the update system together, and the session over time: the timeout that closes a
  silent session, the refusals, and the life of a staged image from the reset that tries it to its
  confirmation or its rollback. The last section is the order of operations that defeats the
  rollback.
\<close>


section \<open>Silence\<close>

lemma ticks_expire:
  assumes "u_sessionActive u" "\<not> u_sessionFresh u" "sorted (u_lastPacketUs u # ts)"
  shows "fold OtaUpdater_tick ts u =
    (if ts \<noteq> [] \<and> SESSION_TIMEOUT_US \<le> last ts - u_lastPacketUs u then closeSession u else u)"
  using assms
proof (induction ts)
  case (Cons t ts)
  have le: "u_lastPacketUs u \<le> t" "sorted (u_lastPacketUs u # ts)" using Cons.prems(3) by auto
  have dead: "fold OtaUpdater_tick ts (closeSession u) = closeSession u"
    by (induction ts) (simp_all add: OtaUpdater_tick_def)
  have tick: "OtaUpdater_tick t u = (if SESSION_TIMEOUT_US \<le> t - u_lastPacketUs u then closeSession u else u)"
    using Cons.prems(1,2) le(1) by (simp add: OtaUpdater_tick_def)
  show ?case
  proof (cases "SESSION_TIMEOUT_US \<le> t - u_lastPacketUs u")
    case True
    have "t \<le> last (t # ts)" using Cons.prems(3) by (cases ts) auto
    then have "t - u_lastPacketUs u \<le> last (t # ts) - u_lastPacketUs u"
      using le(1) by (simp add: word_le_nat_alt unat_sub)
    then show ?thesis using True tick dead by simp
  next
    case False
    then show ?thesis using tick Cons.IH [OF Cons.prems(1,2) le(2)] by auto
  qed
qed simp

lemma run_ticks: "updater_run st (map Tick ts) (u, s) = (fold OtaUpdater_tick ts u, s)"
  unfolding updater_run_def by (induction ts arbitrary: u) simp_all

text \<open>A silent session is closed after three seconds and not before. Let a session have been
  opened and let only ticks follow, at times that do not go back. The clock starts at the first
  tick, so the seconds the erase took are not counted; the session is what it was as long as the
  last tick is less than three seconds after the first, and is closed, with nothing of the transfer
  kept, from then on. The store is never touched.\<close>

lemma updater_session_timeout:
  assumes "u_sessionActive u" "u_sessionFresh u" "sorted (t # ts)"
  shows "updater_run st (map Tick (t # ts)) (u, s) =
    (if last (t # ts) - t < 3000000 then u\<lparr> u_sessionFresh := False, u_lastPacketUs := t \<rparr>
     else closeSession (u\<lparr> u_sessionFresh := False, u_lastPacketUs := t \<rparr>), s)"
proof -
  let ?u = "u\<lparr> u_sessionFresh := False, u_lastPacketUs := t \<rparr>"
  have "OtaUpdater_tick t u = ?u" using assms(1,2) by (simp add: OtaUpdater_tick_def)
  moreover have "fold OtaUpdater_tick ts ?u = (if ts \<noteq> [] \<and> SESSION_TIMEOUT_US \<le> last ts - t then closeSession ?u else ?u)"
    using ticks_expire [of ?u ts] assms by simp
  ultimately show ?thesis
    unfolding run_ticks by (auto simp: SESSION_TIMEOUT_US_def not_le [symmetric])
qed

lemma updater_session_timeout_example:
  "u_sessionActive (fst (updater_run (FirmwareStoreStm32 sound_ctl) (map Tick [5, 2000000, 3000004])
      (OtaUpdater_init True\<lparr> u_sessionActive := True, u_sessionFresh := True \<rparr>, blank_board))) \<and>
   \<not> u_sessionActive (fst (updater_run (FirmwareStoreStm32 sound_ctl) (map Tick [5, 2000000, 3000005])
      (OtaUpdater_init True\<lparr> u_sessionActive := True, u_sessionFresh := True \<rparr>, blank_board)))"
  using updater_session_timeout [of "OtaUpdater_init True\<lparr> u_sessionActive := True, u_sessionFresh := True \<rparr>" 5 "[2000000, 3000004]"
      "FirmwareStoreStm32 sound_ctl" blank_board]
    updater_session_timeout [of "OtaUpdater_init True\<lparr> u_sessionActive := True, u_sessionFresh := True \<rparr>" 5 "[2000000, 3000005]"
      "FirmwareStoreStm32 sound_ctl" blank_board]
  by simp


section \<open>Refusals\<close>

text \<open>Messages an open session refuses: another nonce, or a beginning while armed or without power.
  Their answers, in the order of the conditions of the code.\<close>

fun refused :: "updater \<Rightarrow> ota_request \<Rightarrow> inputs \<Rightarrow> bool" where
  "refused u (Begin session n crc) inp \<longleftrightarrow> session \<noteq> u_session u \<or> in_armed inp \<or> \<not> in_voltageOk inp"
| "refused u (Chunk session off data) inp \<longleftrightarrow> session \<noteq> u_session u"
| "refused u (Finish session) inp \<longleftrightarrow> session \<noteq> u_session u"
| "refused u (Abort session) inp \<longleftrightarrow> session \<noteq> u_session u"
| "refused u OtherBody inp \<longleftrightarrow> True"
| "refused u _ inp \<longleftrightarrow> False"

fun refusal :: "ota_request \<Rightarrow> inputs \<Rightarrow> ota_reply" where
  "refusal (Begin session n crc) inp = Ack OtaOp_BEGIN 0
     (if in_armed inp then DENIED_ARMED else if \<not> in_voltageOk inp then DENIED_VOLTAGE else DENIED_BUSY)"
| "refusal (Finish session) inp = Ack OtaOp_FINISH session BAD_SESSION"
| "refusal (Abort session) inp = Ack OtaOp_ABORT session BAD_SESSION"
| "refusal _ inp = NoReply"

lemma refused_inert:
  assumes "u_sessionActive u" "refused u req inp"
  shows "OtaUpdater_handle st req inp u s = (u, s, refusal req inp, req \<noteq> OtherBody)"
  using assms by (cases req) (auto simp: handleBegin_def handleChunk_def handleFinish_def handleAbort_def)

text \<open>Nobody else can disturb an open session. Any sequence of messages that carry another nonce,
  or try to begin while the vehicle is armed or the voltage is low, or are not updater messages at
  all, leaves the session and the store exactly as they were, and each is answered with its own
  refusal: armed first, then voltage, then busy for a beginning, a bad session for a finish or an
  abort, silence for a chunk.\<close>

lemma updater_refusals:
  assumes "u_sessionActive u" "\<forall>(req, inp) \<in> set msgs. refused u req inp"
  shows "updater_run st (map (\<lambda>(req, inp). Message req inp) msgs) (u, s) = (u, s) \<and>
    updater_replies st (map (\<lambda>(req, inp). Message req inp) msgs) (u, s) = map (\<lambda>(req, inp). refusal req inp) msgs"
  using assms(2)
proof (induction msgs)
  case (Cons m msgs)
  obtain req inp where m: "m = (req, inp)" by (cases m)
  have "refused u req inp" using Cons.prems m by simp
  note h = refused_inert [OF assms(1) this, of st s]
  show ?case using Cons h m by (simp add: updater_run_def)
qed (simp add: updater_run_def)

lemma updater_refusals_example:
  "updater_replies (FirmwareStoreStm32 sound_ctl)
     [Message (Begin 8 600 0) idle_inputs, Message (Chunk 8 0 [1]) idle_inputs, Message (Finish 8) idle_inputs]
     (OtaUpdater_init True\<lparr> u_sessionActive := True, u_session := 7 \<rparr>, blank_board) =
     [Ack OtaOp_BEGIN 0 DENIED_BUSY, NoReply, Ack OtaOp_FINISH 8 BAD_SESSION]"
  using updater_refusals [of "OtaUpdater_init True\<lparr> u_sessionActive := True, u_session := 7 \<rparr>"
      "[(Begin 8 600 0, idle_inputs), (Chunk 8 0 [1], idle_inputs), (Finish 8, idle_inputs)]" "FirmwareStoreStm32 sound_ctl" blank_board]
  by simp


section \<open>The life of a staged image\<close>

text \<open>The outcomes of \<open>n\<close> resets in a row and the flash they leave.\<close>

fun resets :: "'h flash_ctl \<Rightarrow> nat \<Rightarrow> 'h flash \<Rightarrow> boot_outcome list \<times> 'h flash" where
  "resets ctl 0 f = ([], f)"
| "resets ctl (Suc n) f = (let (out, f) = BootApp_run ctl f; (outs, f) = resets ctl n f in (out # outs, f))"

text \<open>The log and the metadata of the board, by their short names.\<close>

abbreviation board_meta :: "'h flash_ctl \<Rightarrow> 'h flash \<Rightarrow> meta_state option" where
  "board_meta ctl f \<equiv> OtaMetaLog_read (OtaMetaFlashBackend ctl) f"

abbreviation board_count :: "'h flash_ctl \<Rightarrow> 'h flash \<Rightarrow> nat" where
  "board_count ctl f \<equiv> log_counter (OtaMetaFlashBackend ctl) f"

lemma rest_slots: "rest_ok m \<Longrightarrow> activeSlot m \<in> {OTA_SLOT_A, OTA_SLOT_B} \<and> spare_slot m \<in> {OTA_SLOT_A, OTA_SLOT_B} \<and>
    otaOtherSlot (spare_slot m) = activeSlot m \<and> otaOtherSlot (activeSlot m) = spare_slot m \<and> activeSlot m \<noteq> spare_slot m"
  by (auto simp: rest_ok_def spare_slot_def otaOtherSlot_def slot_defs)

lemma known_slot: "slot \<in> {OTA_SLOT_A, OTA_SLOT_B} \<Longrightarrow> (if slot \<noteq> OTA_SLOT_A \<and> slot \<noteq> OTA_SLOT_B then OTA_SLOT_A else slot) = slot"
  by auto

context working_flash
begin

lemma log_write:
  assumes "meta_ok m" "board_count ctl f < 2 ^ 32 - 1"
  shows "board_meta ctl (fst (OtaMetaLog_append (OtaMetaFlashBackend ctl) m f)) = Some m \<and>
    board_count ctl (fst (OtaMetaLog_append (OtaMetaFlashBackend ctl) m f)) = board_count ctl f + 1 \<and>
    (\<forall>x. in_meta x \<or> cells (fst (OtaMetaLog_append (OtaMetaFlashBackend ctl) m f)) x = cells f x)"
proof -
  have "OtaMetaLog_append (OtaMetaFlashBackend ctl) m f = (fst (OtaMetaLog_append (OtaMetaFlashBackend ctl) m f), True)"
    using meta_append_works [OF assms(1), of f] by (simp add: prod_eq_iff)
  from meta.append_read [OF this assms] show ?thesis using append_frame [OF _ assms(1)] by auto
qed

text \<open>A reset on a part that does not fail, decided and persisted.\<close>

lemma boot_decided:
  assumes m: "board_meta ctl f = Some m" "board_count ctl f < 2 ^ 32 - 2"
    and d: "otaDecideBoot m = (m', d)" and slot: "bd_slot d \<in> {OTA_SLOT_A, OTA_SLOT_B}"
    and r: "BootApp_run ctl f = (out, f')"
  shows "BootApp_Validates (bd_slot d) f \<Longrightarrow>
      out = JumpToSlot (bd_slot d) \<and> board_meta ctl f' = Some m' \<and> board_count ctl f' \<le> board_count ctl f + 1"
    and "\<not> BootApp_Validates (bd_slot d) f \<Longrightarrow> BootApp_Validates (otaOtherSlot (bd_slot d)) f \<Longrightarrow>
      out = JumpToSlot (otaOtherSlot (bd_slot d)) \<and> board_count ctl f' \<le> board_count ctl f + 2 \<and>
      board_meta ctl f' = Some ((set_slot_state (bd_slot d) OTA_SLOT_BAD m')\<lparr> trialAttempted := False \<rparr>)"
proof -
  let ?bad = "(set_slot_state (bd_slot d) OTA_SLOT_BAD m')\<lparr> trialAttempted := False \<rparr>"
  define f1 where "f1 = (if bd_persist d then fst (OtaMetaLog_append (OtaMetaFlashBackend ctl) m' f) else f)"
  have c: "BootApp_chooseSlot ctl f = (m', bd_slot d, f1)"
    by (simp add: BootApp_chooseSlot_def m(1) d f1_def)
  have ok: "meta_ok m'" using meta_ok_decide [OF meta.read_meta_ok [OF m(1)]] d by simp
  have f1: "board_meta ctl f1 = Some m'" "board_count ctl f1 \<le> board_count ctl f + 1" "\<forall>x. in_meta x \<or> cells f1 x = cells f x"
    using log_write [OF ok] m decide_no_persist [of m] d by (auto simp: f1_def)
  define f2 where "f2 = snd (BootApp_markBad ctl m' (bd_slot d) f1)"
  have w: "board_meta ctl f2 = Some ?bad" "board_count ctl f2 = board_count ctl f1 + 1" "\<forall>x. in_meta x \<or> cells f2 x = cells f1 x"
    using log_write [of ?bad f1] ok m(2) f1(2) by (simp_all add: f2_def BootApp_markBad_def Let_def)
  then have f2: "\<forall>x. in_meta x \<or> cells f2 x = cells f x" using f1(3) by metis
  have v: "BootApp_Validates t f1 = BootApp_Validates t f" "BootApp_Validates t f2 = BootApp_Validates t f" for t
    using validates_frame [of f1 f] validates_frame [of f2 f] f1(3) f2 by metis+
  note run = run_after_choice [OF c known_slot [OF slot, symmetric], folded f2_def, unfolded Let_def f2_def [symmetric] v]
  show "BootApp_Validates (bd_slot d) f \<Longrightarrow>
      out = JumpToSlot (bd_slot d) \<and> board_meta ctl f' = Some m' \<and> board_count ctl f' \<le> board_count ctl f + 1"
    using run r f1 by simp
  show "\<not> BootApp_Validates (bd_slot d) f \<Longrightarrow> BootApp_Validates (otaOtherSlot (bd_slot d)) f \<Longrightarrow>
      out = JumpToSlot (otaOtherSlot (bd_slot d)) \<and> board_count ctl f' \<le> board_count ctl f + 2 \<and> board_meta ctl f' = Some ?bad"
    using run r f1 w by simp
qed

end


lemma confirm_writes:
  assumes "st_readMeta st s = Some m" "slot_state m (runningSlot st s) = OTA_SLOT_TESTING"
  shows "selfConfirmTrial st s = fst (st_writeMeta st ((set_slot_state (runningSlot st s) OTA_SLOT_VALID m)
     \<lparr> activeSlot := runningSlot st s, trialAttempted := False \<rparr>) s)"
  using assms by (simp add: selfConfirmTrial_def)

lemma init_running: "slot \<in> {OTA_SLOT_A, OTA_SLOT_B} \<Longrightarrow> runningSlot (FirmwareStoreStm32 ctl) (FirmwareStoreStm32_init slot f) = slot"
  by (auto simp: runningSlot_def FirmwareStoreStm32_init_def slot_defs)

text \<open>The metadata after the first contact with an image on trial is at rest, with no trial left.\<close>

lemma confirmed_rests:
  assumes "rest_ok m" "slot_state m (activeSlot m) = OTA_SLOT_VALID"
    and "m' = (set_slot_state (spare_slot m) OTA_SLOT_VALID m)\<lparr> activeSlot := spare_slot m, trialAttempted := False \<rparr>"
  shows "rest_ok m' \<and> \<not> trial_due m' \<and> \<not> trial_spent m' \<and> activeSlot m' = spare_slot m"
  using assms(1)
  by (cases rule: rest_cases)
     (use assms(2,3) in \<open>auto simp: set_slot_state_def spare_slot_def rest_ok_def meta_ok_def trial_due_def trial_spent_def
        slot_defs slot_state_defs OTA_SLOT_COUNT_def\<close>)

context working_flash
begin

lemma contact_confirms:
  assumes m: "board_meta ctl f = Some m" "board_count ctl f < 2 ^ 32 - 1" and slot: "slot \<in> {OTA_SLOT_A, OTA_SLOT_B}"
    and t: "slot_state m slot = OTA_SLOT_TESTING"
    and h: "OtaUpdater_handle (FirmwareStoreStm32 ctl) StatusRequest inp (OtaUpdater_init True) (FirmwareStoreStm32_init slot f) = (u, s, r, c)"
  shows "board_meta ctl (s_flash s) = Some ((set_slot_state slot OTA_SLOT_VALID m)\<lparr> activeSlot := slot, trialAttempted := False \<rparr>) \<and>
    board_count ctl (s_flash s) = board_count ctl f + 1 \<and> (\<forall>x. in_meta x \<or> cells (s_flash s) x = cells f x)"
proof -
  let ?st = "FirmwareStoreStm32 ctl" and ?s = "FirmwareStoreStm32_init slot f"
  let ?m = "(set_slot_state slot OTA_SLOT_VALID m)\<lparr> activeSlot := slot, trialAttempted := False \<rparr>"
  have f: "s_flash ?s = f" by (simp add: FirmwareStoreStm32_init_def)
  have rd: "st_readMeta ?st ?s = Some m" by (simp add: FirmwareStoreStm32_readMeta_def f m(1))
  have "s = selfConfirmTrial ?st ?s" using h by (auto simp: OtaUpdater_init_def Let_def)
  also have "\<dots> = fst (st_writeMeta ?st ?m ?s)" using t by (simp add: confirm_writes [OF rd] init_running [OF slot])
  finally have "s_flash s = fst (OtaMetaLog_append (OtaMetaFlashBackend ctl) ?m f)"
    by (simp add: FirmwareStoreStm32_writeMeta_def split_beta f)
  then show ?thesis using log_write [OF _ m(2), of ?m] meta.read_meta_ok [OF m(1)] by simp
qed

lemma boot_frame: "BootApp_run ctl f = (out, f') \<Longrightarrow> BootApp_Validates slot f' = BootApp_Validates slot f"
  using boot_effect(1) by (intro validates_frame)

text \<open>The bootloader over the flash implements the policy over the metadata.\<close>

lemma resets_refine_boots:
  assumes "board_meta ctl f = Some m" "activeSlot m \<in> {OTA_SLOT_A, OTA_SLOT_B}" "board_count ctl f + n < 2 ^ 32 - 1"
    and "BootApp_Validates OTA_SLOT_A f" "BootApp_Validates OTA_SLOT_B f"
  shows "fst (resets ctl n f) = map JumpToSlot (fst (boots n m)) \<and> board_meta ctl (snd (resets ctl n f)) = Some (snd (boots n m))"
  using assms
proof (induction n arbitrary: f m)
  case (Suc n)
  obtain m' d where d: "otaDecideBoot m = (m', d)" by fastforce
  obtain out f' where r: "BootApp_run ctl f = (out, f')" by fastforce
  have slot: "bd_slot d \<in> {OTA_SLOT_A, OTA_SLOT_B}" "activeSlot m' \<in> {OTA_SLOT_A, OTA_SLOT_B}"
    using d Suc.prems(2) by (auto simp: otaDecideBoot_def dest!: find_slot_Some split: option.splits if_splits)
  then have "BootApp_Validates (bd_slot d) f" using Suc.prems(4,5) by auto
  from boot_decided(1) [OF Suc.prems(1) _ d slot(1) r this] Suc.prems(3)
  have o: "out = JumpToSlot (bd_slot d)" "board_meta ctl f' = Some m'" "board_count ctl f' \<le> board_count ctl f + 1" by simp_all
  have "fst (resets ctl n f') = map JumpToSlot (fst (boots n m')) \<and> board_meta ctl (snd (resets ctl n f')) = Some (snd (boots n m'))"
    by (rule Suc.IH [OF o(2) slot(2)]) (use o(3) Suc.prems(3-5) boot_frame [OF r] in simp_all)
  then show ?case using d r o(1) by (simp add: split_beta)
qed simp

end

text \<open>(C12) A staged image gets one trial and stays only if it is confirmed. Take a flash that does not
  fail, metadata with a valid preferred slot and the other one staged, both with bootable images.
  The first reset runs the staged slot. If that firmware is never contacted, every later reset runs
  the old slot, and the metadata marks the new one bad. If it receives one status request before
  the next reset, every later reset runs the new slot, with both slots valid and no trial left. The
  counter of the metadata records, 32 bits wide, must have room for these resets; it starts at 1 and
  grows by one per record, so the flash is worn out long before it ends.\<close>

theorem staged_image_lifecycle:
  assumes "working_flash ctl" "board_meta ctl f = Some m" "rest_ok m" "board_count ctl f + n < 2 ^ 32 - 4"
    and "slot_state m (activeSlot m) = OTA_SLOT_VALID" "slot_state m (spare_slot m) = OTA_SLOT_STAGED"
    and "bootable OTA_SLOT_A (slot_bytes OTA_SLOT_A f)" "bootable OTA_SLOT_B (slot_bytes OTA_SLOT_B f)"
  shows "\<exists>f1 u s r. BootApp_run ctl f = (JumpToSlot (spare_slot m), f1) \<and>
    fst (resets ctl n f1) = replicate n (JumpToSlot (activeSlot m)) \<and>
    (n = 0 \<or> board_meta ctl (snd (resets ctl n f1)) = Some ((set_slot_state (spare_slot m) OTA_SLOT_BAD m)\<lparr> trialAttempted := False \<rparr>)) \<and>
    OtaUpdater_handle (FirmwareStoreStm32 ctl) StatusRequest inp (OtaUpdater_init True) (FirmwareStoreStm32_init (spare_slot m) f1) = (u, s, r, True) \<and>
    fst (resets ctl n (s_flash s)) = replicate n (JumpToSlot (spare_slot m)) \<and>
    board_meta ctl (snd (resets ctl n (s_flash s))) =
      Some ((set_slot_state (spare_slot m) OTA_SLOT_VALID m)\<lparr> activeSlot := spare_slot m, trialAttempted := False \<rparr>)"
proof -
  note wf = assms(1)
  note fc = working_flash.axioms(1) [OF wf]
  let ?spare = "spare_slot m"
  let ?t = "(set_slot_state ?spare OTA_SLOT_TESTING m)\<lparr> trialAttempted := True \<rparr>"
  let ?c = "(set_slot_state ?spare OTA_SLOT_VALID m)\<lparr> activeSlot := ?spare, trialAttempted := False \<rparr>"
  have due: "trial_due m" using assms(6) by (simp add: trial_due_def)
  note d = decide_due [OF assms(3) due] and sl = rest_slots [OF assms(3)]
  have v: "BootApp_Validates OTA_SLOT_A f" "BootApp_Validates OTA_SLOT_B f" using assms(7,8) by (simp_all add: validates_bootable)
  obtain out f1 where r: "BootApp_run ctl f = (out, f1)" by fastforce
  have "bd_slot \<lparr> bd_slot = ?spare, bd_persist = True \<rparr> \<in> {OTA_SLOT_A, OTA_SLOT_B}" using sl by simp
  from working_flash.boot_decided(1) [OF wf assms(2) _ d this r] assms(4) v sl
  have o: "out = JumpToSlot ?spare" "board_meta ctl f1 = Some ?t" "board_count ctl f1 \<le> board_count ctl f + 1" by auto
  have v1: "BootApp_Validates OTA_SLOT_A f1" "BootApp_Validates OTA_SLOT_B f1"
    using v flash_controller.boot_effect(1) [OF fc r] flash_controller.validates_frame [OF fc] by metis+
  have ts: "rest_ok ?t" "trial_spent ?t" "slot_state ?t ?spare = OTA_SLOT_TESTING"
    using rest_ok_mark [OF assms(3)] by (simp_all add: trial_spent_def)
  have old: "fst (resets ctl n f1) = map JumpToSlot (fst (boots n ?t)) \<and> board_meta ctl (snd (resets ctl n f1)) = Some (snd (boots n ?t))"
    by (rule working_flash.resets_refine_boots [OF wf o(2)]) (use sl o(3) assms(4) v1 in simp_all)
  have b: "boots n ?t = (replicate n (activeSlot m), if n = 0 then ?t else (set_slot_state ?spare OTA_SLOT_BAD m)\<lparr> trialAttempted := False \<rparr>)"
    using boots_spent [OF ts(1,2), of n] by (cases "n = 0") (simp_all add: set_slot_twice)
  obtain u s rep c where h: "OtaUpdater_handle (FirmwareStoreStm32 ctl) StatusRequest inp (OtaUpdater_init True)
      (FirmwareStoreStm32_init ?spare f1) = (u, s, rep, c)" by (metis prod_cases4)
  have c: "c = True" using h by (auto simp: Let_def)
  have "board_meta ctl (s_flash s) = Some ((set_slot_state ?spare OTA_SLOT_VALID ?t)\<lparr> activeSlot := ?spare, trialAttempted := False \<rparr>) \<and>
      board_count ctl (s_flash s) = board_count ctl f1 + 1 \<and> (\<forall>x. in_meta x \<or> cells (s_flash s) x = cells f1 x)"
    by (rule working_flash.contact_confirms [OF wf o(2) _ _ ts(3) h]) (use o(3) assms(4) sl in simp_all)
  then have k: "board_meta ctl (s_flash s) = Some ?c" "board_count ctl (s_flash s) \<le> board_count ctl f + 2"
    "\<And>x. \<not> in_meta x \<Longrightarrow> cells (s_flash s) x = cells f1 x"
    using o(3) by (auto simp: set_slot_twice)
  have v2: "BootApp_Validates slot (s_flash s) = BootApp_Validates slot f1" for slot
    by (rule flash_controller.validates_frame [OF fc k(3)])
  have new: "fst (resets ctl n (s_flash s)) = map JumpToSlot (fst (boots n ?c)) \<and>
      board_meta ctl (snd (resets ctl n (s_flash s))) = Some (snd (boots n ?c))"
    by (rule working_flash.resets_refine_boots [OF wf k(1)]) (use sl k(2) assms(4) v1 v2 in simp_all)
  have "boots n ?c = (replicate n ?spare, ?c)" using confirmed_rests [OF assms(3,5)] boots_rest by simp
  then show ?thesis using r o(1) old b h c new by auto
qed

text \<open>A board with an unstamped image in both slots, slot A preferred and slot B staged.\<close>

definition example_cells :: "u32 \<Rightarrow> u8" where
  "example_cells x =
     (let slot = (if x < OTA_SLOT_B_BASE then OTA_SLOT_A else OTA_SLOT_B); i = unat (x - otaSlotBase slot) in
      if i < 8 then [0x4D, 0x34, 0x46, 0x57, 1, 0, 1, slot] ! i
      else if 512 \<le> i \<and> i < 520 then [0, 0, 2, 0x20, 1, 0x02, if slot = OTA_SLOT_A then 0x02 else 0x08, 0x08] ! (i - 512)
      else 0xFF)"

definition example_flash :: "nat flash" where
  "example_flash = fst (OtaMetaLog_append (OtaMetaFlashBackend sound_ctl)
     (set_slot_state OTA_SLOT_B OTA_SLOT_STAGED OtaMetaState_init) \<lparr> cells = example_cells, hw = 0 \<rparr>)"

lemma example_image: "i < 393216 \<Longrightarrow> slot \<in> {OTA_SLOT_A, OTA_SLOT_B} \<Longrightarrow> example_cells (otaSlotBase slot + of_nat i) =
   (if i < 8 then [0x4D, 0x34, 0x46, 0x57, 1, 0, 1, slot] ! i
      else if 512 \<le> i \<and> i < 520 then [0, 0, 2, 0x20, 1, 0x02, if slot = OTA_SLOT_A then 0x02 else 0x08, 0x08] ! (i - 512)
      else 0xFF)"
proof -
  assume i: "i < 393216" and slot: "slot \<in> {OTA_SLOT_A, OTA_SLOT_B}"
  have "unat (otaSlotBase slot + of_nat i) = unat (otaSlotBase slot) + i" using i by (intro slot_offset) simp
  then have "otaSlotBase slot + of_nat i < OTA_SLOT_B_BASE \<longleftrightarrow> slot = OTA_SLOT_A"
    using slot i by (auto simp: word_less_nat_alt unat_slotBase slot_defs flash_map_defs split: if_splits)
  moreover have "unat (of_nat i :: u32) = i" using i by (intro unat_of_nat_small) simp
  ultimately show ?thesis using slot by (auto simp: example_cells_def Let_def slot_defs)
qed

lemma example_bootable: "slot \<in> {OTA_SLOT_A, OTA_SLOT_B} \<Longrightarrow> bootable slot (slot_bytes slot \<lparr> cells = example_cells, hw = 0 :: nat \<rparr>)"
proof -
  assume slot: "slot \<in> {OTA_SLOT_A, OTA_SLOT_B}"
  let ?img = "slot_bytes slot \<lparr> cells = example_cells, hw = 0 :: nat \<rparr>"
  have n: "?img ! i = example_cells (otaSlotBase slot + of_nat i)" if "i < 393216" for i
    using that by (simp add: slot_bytes_def InternalFlash_Read_def slot_values)
  have img: "?img ! i = (if i < 8 then [0x4D, 0x34, 0x46, 0x57, 1, 0, 1, slot] ! i
      else if 512 \<le> i \<and> i < 520 then [0, 0, 2, 0x20, 1, 0x02, if slot = OTA_SLOT_A then 0x02 else 0x08, 0x08] ! (i - 512)
      else 0xFF)" if "i < 393216" for i
    unfolding n [OF that] by (rule example_image [OF that slot])
  have l: "length ?img = 393216" by (simp add: slot_bytes_def slot_values)
  show ?thesis
    using slot unfolding bootable_def l
    by (auto simp: memcpy_header_def field32_def field16_def img rd32_def rd16_def image_defs slot_defs unat_slotBase)
qed

lemma example_facts:
  "board_meta sound_ctl example_flash = Some (set_slot_state OTA_SLOT_B OTA_SLOT_STAGED OtaMetaState_init)"
  "board_count sound_ctl example_flash = 1"
  "bootable OTA_SLOT_A (slot_bytes OTA_SLOT_A example_flash)" "bootable OTA_SLOT_B (slot_bytes OTA_SLOT_B example_flash)"
proof -
  let ?f = "\<lparr> cells = example_cells, hw = 0 \<rparr> :: nat flash" and ?m = "set_slot_state OTA_SLOT_B OTA_SLOT_STAGED OtaMetaState_init"
  have "example_cells x = 0xFF" if "in_meta x" for x
  proof -
    have x: "unat x < unat OTA_SLOT_A_BASE" "x < OTA_SLOT_B_BASE" using that by (auto simp: in_meta_unat flash_map_defs word_less_nat_alt)
    then have "520 \<le> unat (x - OTA_SLOT_A_BASE)" using that
      by (auto simp: in_meta_unat flash_map_defs unat_sub_if_size word_size)
    then show ?thesis using x by (simp add: example_cells_def otaSlotBase_def slot_defs)
  qed
  then have "scanAreas (OtaMetaFlashBackend sound_ctl) ?f = Some Scan_init"
    using flash_controller.meta_cells [OF nor.flash_controller_axioms, of ?f blank_flash] blank_flash_log by simp
  then have c: "board_count sound_ctl ?f = 0" by (simp add: log_counter_def Scan_init_def)
  note w = working_flash.log_write [OF wnor.working_flash_axioms, of ?m ?f, folded example_flash_def]
  show "board_meta sound_ctl example_flash = Some ?m" "board_count sound_ctl example_flash = 1" using w c by simp_all
  have "BootApp_Validates slot example_flash = BootApp_Validates slot ?f" for slot
    by (rule flash_controller.validates_frame [OF nor.flash_controller_axioms]) (use w c in auto)
  then show "bootable OTA_SLOT_A (slot_bytes OTA_SLOT_A example_flash)" "bootable OTA_SLOT_B (slot_bytes OTA_SLOT_B example_flash)"
    using example_bootable by (simp_all add: validates_bootable)
qed

theorem staged_image_lifecycle_witness:
  "\<exists>f1 u s r. BootApp_run sound_ctl example_flash = (JumpToSlot OTA_SLOT_B, f1) \<and>
    fst (resets sound_ctl 2 f1) = [JumpToSlot OTA_SLOT_A, JumpToSlot OTA_SLOT_A] \<and>
    OtaUpdater_handle (FirmwareStoreStm32 sound_ctl) StatusRequest idle_inputs (OtaUpdater_init True)
      (FirmwareStoreStm32_init OTA_SLOT_B f1) = (u, s, r, True) \<and>
    fst (resets sound_ctl 2 (s_flash s)) = [JumpToSlot OTA_SLOT_B, JumpToSlot OTA_SLOT_B]"
proof -
  let ?m = "set_slot_state OTA_SLOT_B OTA_SLOT_STAGED OtaMetaState_init"
  have m: "rest_ok ?m" "slot_state ?m (activeSlot ?m) = OTA_SLOT_VALID" "slot_state ?m (spare_slot ?m) = OTA_SLOT_STAGED"
    "activeSlot ?m = OTA_SLOT_A" "spare_slot ?m = OTA_SLOT_B"
    by (simp_all add: rest_ok_def meta_ok_def OtaMetaState_init_def set_slot_state_def spare_slot_def slot_defs slot_state_defs OTA_SLOT_COUNT_def)
  have c: "board_count sound_ctl example_flash + 2 < 2 ^ 32 - 4" by (simp add: example_facts(2))
  have two: "replicate 2 x = [x, x]" for x :: boot_outcome by (simp add: numeral_2_eq_2)
  show ?thesis
    using staged_image_lifecycle [OF wnor.working_flash_axioms example_facts(1) m(1) c m(2,3) example_facts(3,4), of idle_inputs]
    unfolding m(4,5) two by blast
qed


section \<open>A revert followed by an update\<close>

text \<open>A revert makes the other slot the preferred one and leaves it valid. If no reset follows and the
  next update begins, that slot is erased and staged while the metadata still prefers it. A
  failed trial then \<^emph>\<open>rolls back\<close> to the slot it marks bad: every reset runs the image nobody
  confirmed, and the firmware that was running is never chosen again.\<close>

lemma revert_meta:
  assumes "firmware_store st content metas others" "st_readMeta st s = Some m" "metas s < 2 ^ 32 - 1"
    and "handleRevert st s = (s', Ack OtaOp_REVERT 0 OTA_OK)"
  shows "st_readMeta st s' = Some (m\<lparr> activeSlot := targetSlot st s \<rparr>)" "slot_state m (targetSlot st s) = OTA_SLOT_VALID"
proof -
  let ?m = "m\<lparr> activeSlot := targetSlot st s \<rparr>"
  have ok: "meta_ok ?m" using firmware_store.meta_read [OF assms(1,2)] by (simp add: meta_ok_def)
  have w: "slot_state m (targetSlot st s) = OTA_SLOT_VALID" "snd (st_writeMeta st ?m s)" "s' = fst (st_writeMeta st ?m s)"
    using assms(2,4) by (auto simp: handleRevert_def Let_def split_beta split: if_splits)
  show "slot_state m (targetSlot st s) = OTA_SLOT_VALID" by (rule w(1))
  show "st_readMeta st s' = Some ?m"
    using firmware_store.meta_written [OF assms(1) ok assms(3) w(2)] w(3) by simp
qed

lemma boots_preferred_trial:
  assumes "slot \<in> {OTA_SLOT_A, OTA_SLOT_B}" "meta_ok m" "activeSlot m = slot" "slot_state m slot = OTA_SLOT_STAGED"
    and "slot_state m (otaOtherSlot slot) = OTA_SLOT_VALID"
  shows "fst (boots n m) = replicate n slot"
proof -
  obtain a b t where m: "m = \<lparr> activeSlot = slot, slotState = [a, b], trialAttempted = t \<rparr>"
    using assms(2,3) meta_ok_cases [of m] by (cases m) auto
  let ?bad = "(set_slot_state slot OTA_SLOT_BAD m)\<lparr> trialAttempted := False \<rparr>"
  let ?trial = "(set_slot_state slot OTA_SLOT_TESTING m)\<lparr> trialAttempted := True \<rparr>"
  have d: "otaDecideBoot m = (?trial, \<lparr> bd_slot = slot, bd_persist = True \<rparr>)"
    "otaDecideBoot ?trial = (?bad, \<lparr> bd_slot = slot, bd_persist = True \<rparr>)"
    "otaDecideBoot ?bad = (?bad, \<lparr> bd_slot = slot, bd_persist = False \<rparr>)"
    using assms(1,4,5) by (auto simp: m decide_defs otaOtherSlot_def slot_defs slot_state_defs)
  have bad: "boots k ?bad = (replicate k slot, ?bad)" for k using d(3) by (induction k) simp_all
  then have "fst (boots k ?trial) = replicate k slot" for k using d(2) by (cases k) (simp_all add: split_beta)
  then show ?thesis using d(1) by (cases n) (simp_all add: split_beta)
qed

context flash_controller
begin

lemma board_store: "firmware_store (FirmwareStoreStm32 ctl) slot_content (meta_count ctl) other_cells"
  by (rule board.firmware_store_axioms)

lemma revert_keeps:
  assumes "handleRevert (FirmwareStoreStm32 ctl) s = (s', Ack OtaOp_REVERT 0 OTA_OK)" "st_readMeta (FirmwareStoreStm32 ctl) s = Some m"
    and "meta_count ctl s < 2 ^ 32 - 1"
  shows "targetSlot (FirmwareStoreStm32 ctl) s' = targetSlot (FirmwareStoreStm32 ctl) s \<and> meta_count ctl s' = meta_count ctl s + 1"
proof -
  let ?m = "m\<lparr> activeSlot := targetSlot (FirmwareStoreStm32 ctl) s \<rparr>"
  have ok: "meta_ok ?m" using board.meta_read [OF assms(2)] by (simp add: meta_ok_def)
  have w: "snd (st_writeMeta (FirmwareStoreStm32 ctl) ?m s)" "s' = fst (st_writeMeta (FirmwareStoreStm32 ctl) ?m s)"
    using assms(1,2) by (auto simp: handleRevert_def Let_def split_beta split: if_splits)
  show ?thesis
    using board.meta_written [OF ok assms(3) w(1)] w(2) board.safe_slots [OF board.safe_meta [OF ok, of s]] by simp
qed

end

lemma revert_then_update_no_rollback:
  assumes "working_flash ctl" "\<not> in_armed inp" "in_voltageOk inp" "\<not> u_sessionActive u" "meta_count ctl s < 2 ^ 32 - 3"
    and "chunking ds" "unat OTA_IMAGE_HEADER_SIZE \<le> length (concat ds)" "length (concat ds) \<le> unat OTA_SLOT_SIZE"
    and "t = targetSlot (FirmwareStoreStm32 ctl) s" "image_header_ok t (of_nat (length (concat ds))) (concat ds)"
    and "FirmwareStoreStm32_readMeta ctl s = Some m" "slotState m = [OTA_SLOT_VALID, OTA_SLOT_VALID]"
    and "OtaUpdater_handle (FirmwareStoreStm32 ctl) Revert inp u s = (u, s0, Ack OtaOp_REVERT 0 OTA_OK, True)"
  shows "\<exists>u1 s1 u2 s2 m'. updater_run (FirmwareStoreStm32 ctl) (transfer session inp ds) (u, s0) = (u1, s1) \<and>
    OtaUpdater_handle (FirmwareStoreStm32 ctl) (Finish session) inp u1 s1 = (u2, s2, Ack OtaOp_FINISH session OTA_OK, True) \<and>
    FirmwareStoreStm32_readMeta ctl s2 = Some m' \<and> (\<forall>n. fst (boots n m') = replicate n t)"
proof -
  let ?st = "FirmwareStoreStm32 ctl"
  note fc = working_flash.axioms(1) [OF assms(1)]
  note bs = flash_controller.board_store [OF fc]
  have rv: "handleRevert ?st s = (s0, Ack OtaOp_REVERT 0 OTA_OK)" using assms(13) by (auto split: prod.splits)
  have rm: "st_readMeta ?st s = Some m" "meta_count ctl s < 2 ^ 32 - 1" using assms(5,11) by simp_all
  have m0: "FirmwareStoreStm32_readMeta ctl s0 = Some (m\<lparr> activeSlot := t \<rparr>)" using revert_meta(1) [OF bs rm rv] assms(9) by simp
  have safe: "targetSlot ?st s0 = t" "meta_count ctl s0 \<le> meta_count ctl s + 1"
    using flash_controller.revert_keeps [OF fc rv rm] assms(9) by simp_all
  obtain u1 s1 where run: "updater_run ?st (transfer session inp ds) (u, s0) = (u1, s1)" by fastforce
  obtain u2 s2 r c where fin: "OtaUpdater_handle ?st (Finish session) inp u1 s1 = (u2, s2, r, c)" by (metis prod_cases4)
  have c: "c = True" using fin by (auto split: prod.splits)
  let ?m' = "(set_slot_state t OTA_SLOT_STAGED (m\<lparr> activeSlot := t \<rparr>))\<lparr> trialAttempted := False \<rparr>"
  have "meta_count ctl s0 < 2 ^ 32 - 2" using safe(2) assms(5) by simp
  from working_flash.transfer_staged [OF assms(1-4) this assms(6-8) safe(1) [symmetric] assms(10) run fin] m0
  have ok: "r = Ack OtaOp_FINISH session OTA_OK" "FirmwareStoreStm32_readMeta ctl s2 = Some ?m'" by auto
  have "t \<in> {OTA_SLOT_A, OTA_SLOT_B}" using slots_two(2) assms(9) by metis
  then have "fst (boots n ?m') = replicate n t" for n
    by (rule boots_preferred_trial)
       (use assms(12) \<open>t \<in> _\<close> in \<open>auto simp: meta_ok_def set_slot_state_def otaOtherSlot_def slot_defs OTA_SLOT_COUNT_def\<close>)
  then show ?thesis using run fin ok c by auto
qed

end
