(* ===== verification/Ota_Bundle.thy ===== *)
theory Ota_Bundle
  imports Crc32_Mpeg2 Ota_Image
begin

text \<open>
  The reader of a firmware bundle (\<^verbatim>\<open>components/ota/src/bundle.cpp\<close>): a magic, a JSON manifest behind
  its length, then the images behind theirs. A function that fills an output and returns false with
  a sentence is a function into \<open>string + 'a\<close>, with the sentences of the source.

  Outside the repository and therefore parameters: the file system (\<open>read_file\<close>), the JSON parser
  (\<open>parse\<close>, None for a discarded text) and the schema hash the build generates (\<open>wire\<close>). A parsed
  document is a value of \<open>json\<close>, with the kinds of value the reader tells apart.

  The reference is the file a packager would write, \<open>bundle_file\<close>, and what makes an image agree
  with its manifest entry, \<open>image_consistent\<close>.
\<close>


section \<open>Texts\<close>

definition quoted :: "string \<Rightarrow> string" where
  "quoted s = [CHR 0x27] @ s @ [CHR 0x27]"

definition hexText :: "u32 \<Rightarrow> string" where
  "hexText v = ''0x'' @ map (\<lambda>nibble. hex_digits ! unat (drop_bit ((7 - nibble) * 4) v AND 0xF)) [0..<8]"


section \<open>The data of a bundle\<close>

definition OTA_BUNDLE_MAGIC_SIZE :: nat where "OTA_BUNDLE_MAGIC_SIZE = 8"

definition otaBundleMagic :: bytes where
  "otaBundleMagic = [0x4D, 0x34, 0x4F, 0x54, 0x41, 0x31, 0, 0]"

definition ESP_IMAGE_MAGIC :: u8 where "ESP_IMAGE_MAGIC = 0xE9"
definition LENGTH_FIELD_SIZE :: nat where "LENGTH_FIELD_SIZE = 4"
definition MAX_MANIFEST_SIZE :: u32 where "MAX_MANIFEST_SIZE = 64 * 1024"
definition MAX_IMAGE_SIZE :: u32 where "MAX_IMAGE_SIZE = 8 * 1024 * 1024"
definition OTA_MCU_STM32F722 :: u8 where "OTA_MCU_STM32F722 = 2"
definition OTA_MCU_ESP32C3 :: u8 where "OTA_MCU_ESP32C3 = 3"
definition OTA_MCU_SIM :: u8 where "OTA_MCU_SIM = 200"

lemmas bundle_defs = OTA_BUNDLE_MAGIC_SIZE_def otaBundleMagic_def ESP_IMAGE_MAGIC_def LENGTH_FIELD_SIZE_def
  MAX_MANIFEST_SIZE_def MAX_IMAGE_SIZE_def

record bundle_image =
  bi_slot :: u8
  bi_size :: u32
  bi_crc32 :: u32
  bi_bytes :: bytes

record ota_bundle =
  ob_path :: string
  ob_name :: string
  ob_mcuId :: u8
  ob_buildEpoch :: u32
  ob_gitHash :: string
  ob_wireHash :: string
  ob_images :: "bundle_image list"

definition OtaBundle_init :: ota_bundle where
  "OtaBundle_init = \<lparr> ob_path = [], ob_name = [], ob_mcuId = 0, ob_buildEpoch = 0, ob_gitHash = [], ob_wireHash = [], ob_images = [] \<rparr>"

definition OtaBundle_loaded :: "ota_bundle \<Rightarrow> bool" where
  "OtaBundle_loaded b \<longleftrightarrow> ob_images b \<noteq> []"

definition headerImageFormat :: "u8 \<Rightarrow> bool" where
  "headerImageFormat mcu \<longleftrightarrow> mcu = OTA_MCU_STM32F405 \<or> mcu = OTA_MCU_STM32F722 \<or> mcu = OTA_MCU_SIM"

definition readU32 :: "bytes \<Rightarrow> nat \<Rightarrow> u32" where
  "readU32 data offset = rd32 (data ! offset) (data ! (offset + 1)) (data ! (offset + 2)) (data ! (offset + 3))"

definition otaGitHashText :: "bytes \<Rightarrow> bytes" where
  "otaGitHashText hash = takeWhile (\<lambda>c. c \<noteq> 0 \<and> c \<noteq> OTA_ERASED_BYTE) hash"

definition findOtaBundleImage :: "ota_bundle \<Rightarrow> u8 \<Rightarrow> bundle_image option" where
  "findOtaBundleImage b slot =
     (if OTA_SLOT_COUNT \<le> unat slot \<or> ob_images b = [] then None
      else Some (ob_images b ! min (unat slot) (length (ob_images b) - 1)))"


section \<open>The manifest\<close>

datatype json = JOther | JUnsigned u64 | JString string | JArray "json list" | JObject "(string \<times> json) list"

definition json_find :: "(string \<times> json) list \<Rightarrow> string \<Rightarrow> json option" where
  "json_find obj key = map_of obj key"

definition chip_name :: "string \<Rightarrow> string + u8" where
  "chip_name name =
     (if name = ''stm32f405'' \<or> name = ''f405'' then Inr OTA_MCU_STM32F405
      else if name = ''stm32f722'' \<or> name = ''f722'' then Inr OTA_MCU_STM32F722
      else if name = ''sim'' then Inr OTA_MCU_SIM
      else if name = ''esp32c3'' then Inr OTA_MCU_ESP32C3
      else Inl (''the manifest names an unknown mcu '' @ quoted name))"

definition readMcuId :: "(string \<times> json) list \<Rightarrow> string + u8" where
  "readMcuId manifest =
     (case json_find manifest ''mcuId'' of
        None \<Rightarrow> Inl (''the manifest carries no '' @ quoted ''mcuId'')
      | Some (JUnsigned raw) \<Rightarrow>
          if 255 < raw then Inl (''the manifest '' @ quoted ''mcuId'' @ '' is out of range'') else Inr (ucast raw)
      | Some (JString name) \<Rightarrow> chip_name name
      | Some _ \<Rightarrow> Inl (''the manifest '' @ quoted ''mcuId'' @ '' must be a number or a chip name''))"

definition readManifestU32 :: "(string \<times> json) list \<Rightarrow> string \<Rightarrow> string \<Rightarrow> string + u32" where
  "readManifestU32 obj key what =
     (case json_find obj key of
        Some (JUnsigned raw) \<Rightarrow>
          if 0xFFFFFFFF < raw then Inl (''the manifest '' @ what @ '' is out of range'') else Inr (ucast raw)
      | _ \<Rightarrow> Inl (''the manifest carries no '' @ what))"

definition readBuildEpoch :: "(string \<times> json) list \<Rightarrow> string + u32" where
  "readBuildEpoch manifest = readManifestU32 manifest ''buildEpoch'' ''build epoch''"

text \<open>One entry of the image list after a previous slot, -1 at first.\<close>

definition read_image :: "json \<Rightarrow> int \<Rightarrow> string + bundle_image" where
  "read_image entry previous =
     (case entry of
        JObject obj \<Rightarrow>
          (case readManifestU32 obj ''slot'' ''image slot'' of
             Inl e \<Rightarrow> Inl e
           | Inr slot \<Rightarrow>
              (case readManifestU32 obj ''size'' ''image size'' of
                 Inl e \<Rightarrow> Inl e
               | Inr n \<Rightarrow>
                  (case readManifestU32 obj ''crc32'' ''image crc32'' of
                     Inl e \<Rightarrow> Inl e
                   | Inr crc \<Rightarrow>
                       if OTA_SLOT_COUNT \<le> unat slot
                       then Inl (''the manifest describes a slot '' @ to_string (unat slot) @ '' this system does not have'')
                       else if int (unat slot) \<le> previous then Inl ''the manifest images are not in slot order''
                       else if n = 0 \<or> MAX_IMAGE_SIZE < n
                       then Inl (''the manifest announces an implausible image size '' @ to_string (unat n) @ '' bytes'')
                       else Inr \<lparr> bi_slot = ucast slot, bi_size = n, bi_crc32 = crc, bi_bytes = [] \<rparr>)))
      | _ \<Rightarrow> Inl ''the manifest image list holds something that is not an image'')"

fun read_images :: "json list \<Rightarrow> int \<Rightarrow> string + bundle_image list" where
  "read_images [] previous = Inr []"
| "read_images (entry # entries) previous =
     (case read_image entry previous of
        Inl e \<Rightarrow> Inl e
      | Inr img \<Rightarrow>
         (case read_images entries (int (unat (bi_slot img))) of
            Inl e \<Rightarrow> Inl e
          | Inr imgs \<Rightarrow> Inr (img # imgs)))"

definition readImageList :: "(string \<times> json) list \<Rightarrow> u8 \<Rightarrow> string + bundle_image list" where
  "readImageList manifest mcu =
     (case json_find manifest ''images'' of
        Some (JArray (e # es)) \<Rightarrow>
          (case read_images (e # es) (-1) of
             Inl err \<Rightarrow> Inl err
           | Inr imgs \<Rightarrow>
              (let announced = (case readManifestU32 manifest ''imageCount'' ''image count'' of Inl _ \<Rightarrow> 0 | Inr n \<Rightarrow> n) in
               if json_find manifest ''imageCount'' \<noteq> None \<and>
                  ((case readManifestU32 manifest ''imageCount'' ''image count'' of Inl _ \<Rightarrow> True | Inr _ \<Rightarrow> False) \<or>
                   unat announced \<noteq> length imgs)
               then Inl (''the manifest announces '' @ to_string (unat announced) @ '' images and lists '' @ to_string (length imgs))
               else if headerImageFormat mcu \<and> length imgs \<noteq> OTA_SLOT_COUNT
               then Inl (''a bundle for this chip needs one image per slot, this one holds '' @ to_string (length imgs))
               else Inr imgs))
      | _ \<Rightarrow> Inl ''the manifest lists no image'')"

definition optional_text :: "(string \<times> json) list \<Rightarrow> string \<Rightarrow> string" where
  "optional_text manifest key = (case json_find manifest key of Some (JString s) \<Rightarrow> s | _ \<Rightarrow> [])"

text \<open>Everything \<^verbatim>\<open>loadOtaBundle\<close> reads out of the manifest, in its order.\<close>

definition read_manifest :: "u32 \<Rightarrow> string \<Rightarrow> (string \<times> json) list \<Rightarrow> string + ota_bundle" where
  "read_manifest wire path manifest =
     (case readMcuId manifest of
        Inl e \<Rightarrow> Inl e
      | Inr mcu \<Rightarrow>
         (case readBuildEpoch manifest of
            Inl e \<Rightarrow> Inl e
          | Inr epoch \<Rightarrow>
             (case readImageList manifest mcu of
                Inl e \<Rightarrow> Inl e
              | Inr imgs \<Rightarrow>
                 (case json_find manifest ''wireHash'' of
                    Some (JString hash) \<Rightarrow>
                      if hash \<noteq> drop 2 (hexText wire)
                      then Inl (''the bundle speaks wire '' @ hash @ '', this hub speaks '' @ drop 2 (hexText wire))
                      else Inr \<lparr> ob_path = path, ob_name = optional_text manifest ''name'', ob_mcuId = mcu, ob_buildEpoch = epoch,
                             ob_gitHash = optional_text manifest ''gitHash'', ob_wireHash = hash, ob_images = imgs \<rparr>
                  | _ \<Rightarrow> Inl (''the manifest carries no '' @ quoted ''wireHash'')))))"


section \<open>The images\<close>

definition checkEspImage :: "bundle_image \<Rightarrow> string + unit" where
  "checkEspImage img =
     (if bi_bytes img = [] \<or> bi_bytes img ! 0 \<noteq> ESP_IMAGE_MAGIC
      then Inl ''the image does not start with an ESP-IDF application header'' else Inr ())"

definition slot_text :: "u8 \<Rightarrow> string" where
  "slot_text slot = ''slot '' @ to_string (unat slot)"

definition checkImageHeader :: "u8 \<Rightarrow> bundle_image \<Rightarrow> string + unit" where
  "checkImageHeader mcu img =
     (let which = slot_text (bi_slot img); header = memcpy_header (take 512 (bi_bytes img)) in
      if length (bi_bytes img) < unat OTA_IMAGE_HEADER_SIZE then Inl (''the '' @ which @ '' image is shorter than its own header'')
      else if magic header \<noteq> OTA_IMAGE_MAGIC
      then Inl (''the '' @ which @ '' image does not start with a firmware header ('' @ hexText (magic header) @ '')'')
      else if headerVersion header \<noteq> OTA_IMAGE_HEADER_VERSION
      then Inl (''the '' @ which @ '' image header is revision '' @ to_string (unat (headerVersion header)) @
                '', this hub reads revision '' @ to_string (unat OTA_IMAGE_HEADER_VERSION))
      else if mcuId header \<noteq> mcu
      then Inl (''the '' @ which @ '' image is built for mcu '' @ to_string (unat (mcuId header)) @ '' but the manifest says '' @ to_string (unat mcu))
      else if slotId header \<noteq> bi_slot img
      then Inl (''the '' @ which @ '' image is linked for slot '' @ to_string (unat (slotId header)) @ '', not for the slot it is filed under'')
      else if imageSize header \<noteq> bi_size img
      then Inl (''the '' @ which @ '' image header announces '' @ to_string (unat (imageSize header)) @ '' bytes, the manifest '' @
                to_string (unat (bi_size img)))
      else Inr ())"

text \<open>One image of the file from a cursor: the image with its bytes and the cursor behind it.\<close>

definition load_image :: "bytes \<Rightarrow> u8 \<Rightarrow> nat \<Rightarrow> bundle_image \<Rightarrow> string + (bundle_image \<times> nat)" where
  "load_image file mcu cursor img =
     (let which = slot_text (bi_slot img) in
      if length file - cursor < LENGTH_FIELD_SIZE then Inl (''the bundle ends before its '' @ which @ '' image'')
      else let stored = readU32 file cursor; cursor = cursor + LENGTH_FIELD_SIZE in
        if stored \<noteq> bi_size img
        then Inl (''the bundle holds '' @ to_string (unat stored) @ '' bytes for '' @ which @ '', the manifest announces '' @ to_string (unat (bi_size img)))
        else if length file - cursor < unat stored then Inl (''the '' @ which @ '' image is truncated'')
        else let img = img\<lparr> bi_bytes := take (unat stored) (drop cursor file) \<rparr>; cursor = cursor + unat stored in
          case (if headerImageFormat mcu then checkImageHeader mcu img else checkEspImage img) of
            Inl e \<Rightarrow> Inl e
          | Inr _ \<Rightarrow>
              (let whole = crc32Mpeg2 (bi_bytes img) in
               if whole \<noteq> bi_crc32 img
               then Inl (''the '' @ which @ '' image announces crc32 '' @ hexText (bi_crc32 img) @ '' but its bytes hash to '' @ hexText whole @
                         (if headerImageFormat mcu
                          then '' ('' @ hexText (crc32Mpeg2 (drop (unat OTA_IMAGE_HEADER_SIZE) (bi_bytes img))) @ '' without the header)'' else []))
               else Inr (img, cursor)))"

fun load_images :: "bytes \<Rightarrow> u8 \<Rightarrow> nat \<Rightarrow> bundle_image list \<Rightarrow> string + (bundle_image list \<times> nat)" where
  "load_images file mcu cursor [] = Inr ([], cursor)"
| "load_images file mcu cursor (img # imgs) =
     (case load_image file mcu cursor img of
        Inl e \<Rightarrow> Inl e
      | Inr (img, cursor) \<Rightarrow>
         (case load_images file mcu cursor imgs of
            Inl e \<Rightarrow> Inl e
          | Inr (imgs, cursor) \<Rightarrow> Inr (img # imgs, cursor)))"

definition loadOtaBundle ::
    "(bytes \<Rightarrow> json option) \<Rightarrow> (string \<Rightarrow> bytes option) \<Rightarrow> u32 \<Rightarrow> string \<Rightarrow> string + ota_bundle" where
  "loadOtaBundle parse read_file wire path =
     (if path = [] then Inl ''no bundle path given''
      else case read_file path of
        None \<Rightarrow> Inl (''cannot read '' @ quoted path)
      | Some file \<Rightarrow>
         if length file < OTA_BUNDLE_MAGIC_SIZE + LENGTH_FIELD_SIZE then Inl (quoted path @ '' is too short to be a bundle'')
         else if take OTA_BUNDLE_MAGIC_SIZE file \<noteq> otaBundleMagic then Inl (quoted path @ '' is not an .ota bundle'')
         else
           let manifestSize = readU32 file OTA_BUNDLE_MAGIC_SIZE; cursor = OTA_BUNDLE_MAGIC_SIZE + LENGTH_FIELD_SIZE in
           if manifestSize = 0 \<or> MAX_MANIFEST_SIZE < manifestSize \<or> length file - cursor < unat manifestSize
           then Inl ''the bundle manifest length is out of bounds''
           else case parse (take (unat manifestSize) (drop cursor file)) of
               Some (JObject manifest) \<Rightarrow>
                 (case read_manifest wire path manifest of
                    Inl e \<Rightarrow> Inl e
                  | Inr b \<Rightarrow>
                     (case load_images file (ob_mcuId b) (cursor + unat manifestSize) (ob_images b) of
                        Inl e \<Rightarrow> Inl e
                      | Inr (imgs, cursor) \<Rightarrow>
                          if cursor \<noteq> length file
                          then Inl (''the bundle carries '' @ to_string (length file - cursor) @ '' trailing bytes that belong to no image'')
                          else Inr (b\<lparr> ob_images := imgs \<rparr>)))
             | _ \<Rightarrow> Inl ''the bundle manifest is not a JSON object'')"


section \<open>What a loaded bundle is\<close>

text \<open>The file a packager writes, and an image that agrees with its manifest entry.\<close>

definition framed :: "bytes \<Rightarrow> bytes" where
  "framed bs = le32 (of_nat (length bs)) @ bs"

definition bundle_file :: "bytes \<Rightarrow> bytes list \<Rightarrow> bytes" where
  "bundle_file manifest imgs = otaBundleMagic @ framed manifest @ concat (map framed imgs)"

definition image_consistent :: "u8 \<Rightarrow> bundle_image \<Rightarrow> bool" where
  "image_consistent mcu img \<longleftrightarrow> length (bi_bytes img) = unat (bi_size img) \<and> crc32Mpeg2 (bi_bytes img) = bi_crc32 img \<and>
     (if headerImageFormat mcu
      then (let h = memcpy_header (take 512 (bi_bytes img)) in 512 \<le> length (bi_bytes img) \<and> magic h = OTA_IMAGE_MAGIC \<and>
              headerVersion h = OTA_IMAGE_HEADER_VERSION \<and> mcuId h = mcu \<and> slotId h = bi_slot img \<and> imageSize h = bi_size img)
      else bi_bytes img \<noteq> [] \<and> hd (bi_bytes img) = ESP_IMAGE_MAGIC)"

definition without_bytes :: "bundle_image \<Rightarrow> bundle_image" where
  "without_bytes img = img\<lparr> bi_bytes := [] \<rparr>"

lemma check_header_iff: "checkImageHeader mcu img = Inr u \<longleftrightarrow>
   (let h = memcpy_header (take 512 (bi_bytes img)) in 512 \<le> length (bi_bytes img) \<and> magic h = OTA_IMAGE_MAGIC \<and>
      headerVersion h = OTA_IMAGE_HEADER_VERSION \<and> mcuId h = mcu \<and> slotId h = bi_slot img \<and> imageSize h = bi_size img)"
  by (simp add: checkImageHeader_def Let_def OTA_IMAGE_HEADER_SIZE_def)

lemma check_esp_iff: "checkEspImage img = Inr u \<longleftrightarrow> bi_bytes img \<noteq> [] \<and> hd (bi_bytes img) = ESP_IMAGE_MAGIC"
  by (auto simp: checkEspImage_def hd_conv_nth)

lemma take_four: "4 \<le> length xs \<Longrightarrow> take 4 xs = [xs ! 0, xs ! 1, xs ! 2, xs ! 3]"
  by (rule nth_equalityI) (auto simp: less_Suc_eq numeral_eq_Suc)

lemma readU32_take: "cursor + 4 \<le> length file \<Longrightarrow> take 4 (drop cursor file) = le32 (readU32 file cursor)"
  using take_four [of "drop cursor file"] by (simp add: readU32_def le32_def)

lemma framed_read:
  assumes "take (4 + length bs) (drop cursor file) = framed bs" "length bs < 2 ^ 32"
  shows "cursor + 4 + length bs \<le> length file" "readU32 file cursor = of_nat (length bs)"
    "take (length bs) (drop (cursor + 4) file) = bs"
proof -
  have "length (take (4 + length bs) (drop cursor file)) = 4 + length bs" unfolding assms(1) by (simp add: framed_def)
  then show fit: "cursor + 4 + length bs \<le> length file" by (simp add: min_def split: if_splits)
  have sp: "take 4 (drop cursor file) @ take (length bs) (drop (cursor + 4) file) = le32 (of_nat (length bs)) @ bs"
    using assms(1) unfolding framed_def take_add drop_drop by (simp only: add.commute)
  have "length (take 4 (drop cursor file)) = length (le32 (of_nat (length bs)))" using fit by simp
  with sp have eq: "take 4 (drop cursor file) = le32 (of_nat (length bs))" "take (length bs) (drop (cursor + 4) file) = bs"
    by (metis append_eq_append_conv)+
  then show "take (length bs) (drop (cursor + 4) file) = bs" by blast
  show "readU32 file cursor = of_nat (length bs)" using eq(1) readU32_take [of cursor "file"] fit by (simp add: le32_inject)
qed

lemma read_framed:
  assumes "cursor + 4 + unat (readU32 file cursor) \<le> length file"
  shows "take (4 + unat (readU32 file cursor)) (drop cursor file) = framed (take (unat (readU32 file cursor)) (drop (cursor + 4) file))"
proof -
  have "length (take (unat (readU32 file cursor)) (drop (cursor + 4) file)) = unat (readU32 file cursor)" using assms by simp
  then show ?thesis
    unfolding framed_def take_add drop_drop using readU32_take [of cursor "file"] assms by (simp add: add.commute)
qed

lemma load_image_iff:
  assumes "cursor \<le> length file"
  shows "load_image file mcu cursor img = Inr (img', c') \<longleftrightarrow>
    img = img'\<lparr> bi_bytes := bi_bytes img \<rparr> \<and> image_consistent mcu img' \<and> c' = cursor + 4 + length (bi_bytes img') \<and>
    take (4 + length (bi_bytes img')) (drop cursor file) = framed (bi_bytes img')" (is "?l \<longleftrightarrow> ?r")
proof
  assume l: ?l
  have 1: "\<not> length file - cursor < 4" "readU32 file cursor = bi_size img" "\<not> length file - (cursor + 4) < unat (bi_size img)"
    using l by (auto simp: load_image_def Let_def LENGTH_FIELD_SIZE_def split: if_splits)
  have 2: "img' = img\<lparr> bi_bytes := take (unat (bi_size img)) (drop (cursor + 4) file) \<rparr>" "c' = cursor + 4 + unat (bi_size img)"
    "crc32Mpeg2 (bi_bytes img') = bi_crc32 img'"
    "if headerImageFormat mcu then checkImageHeader mcu img' = Inr () else checkEspImage img' = Inr ()"
    using l 1 by (auto simp: load_image_def Let_def LENGTH_FIELD_SIZE_def split: if_splits sum.splits)
  have len: "length (bi_bytes img') = unat (bi_size img)" using 1 2(1) assms by simp
  have "take (4 + unat (bi_size img)) (drop cursor file) = framed (bi_bytes img')"
    using read_framed [of cursor "file"] 1 2(1) assms by simp
  moreover have "image_consistent mcu img'"
    using 2 len by (simp add: image_consistent_def check_header_iff check_esp_iff split: if_splits)
  ultimately show ?r using 2 len by (cases img) auto
next
  assume r: ?r
  then have "unat (bi_size img') = length (bi_bytes img')" by (simp add: image_consistent_def)
  moreover have "length (bi_bytes img') < 2 ^ 32" using calculation unat_bound [of "bi_size img'"] by simp
  ultimately have f: "cursor + 4 + length (bi_bytes img') \<le> length file" "readU32 file cursor = bi_size img'"
    "take (length (bi_bytes img')) (drop (cursor + 4) file) = bi_bytes img'"
    using framed_read [of "bi_bytes img'" cursor "file"] r by (auto simp: word_unat_eq_iff unat_of_nat_small)
  have n: "unat (bi_size img') = length (bi_bytes img')" using r by (simp add: image_consistent_def)
  have i: "img\<lparr> bi_bytes := bi_bytes img' \<rparr> = img'" "bi_size img = bi_size img'" "bi_crc32 img = bi_crc32 img'" "bi_slot img = bi_slot img'"
    using conjunct1 [OF r] by (cases img; cases img'; simp)+
  have c: "if headerImageFormat mcu then checkImageHeader mcu img' = Inr () else checkEspImage img' = Inr ()"
    "crc32Mpeg2 (bi_bytes img') = bi_crc32 img'"
    using conjunct1 [OF conjunct2 [OF r]] by (auto simp: image_consistent_def check_header_iff check_esp_iff)
  have g: "\<not> length file - cursor < 4" "\<not> length file - (cursor + 4) < length (bi_bytes img')" using f(1) by simp_all
  have "load_image file mcu cursor img = Inr (img', cursor + 4 + length (bi_bytes img'))"
    unfolding load_image_def Let_def LENGTH_FIELD_SIZE_def f(2) i(2) n f(3) i(1) using g c by (simp split: if_splits)
  then show ?l using r by simp
qed

definition image_frames :: "bundle_image list \<Rightarrow> bytes" where
  "image_frames imgs = concat (map framed (map bi_bytes imgs))"

lemma image_frames_simps [simp]: "image_frames [] = []" "image_frames (i # js) = framed (bi_bytes i) @ image_frames js"
  by (simp_all add: image_frames_def)

lemma load_images_Cons:
  "load_images file mcu cursor (img # imgs) = Inr (i # js, c') \<longleftrightarrow>
     (\<exists>c1. load_image file mcu cursor img = Inr (i, c1) \<and> load_images file mcu c1 imgs = Inr (js, c'))"
  by (auto split: sum.splits prod.splits)

lemma load_images_iff:
  assumes "cursor \<le> length file"
  shows "load_images file mcu cursor imgs = Inr (imgs', c') \<longleftrightarrow>
    map without_bytes imgs = map without_bytes imgs' \<and> (\<forall>img \<in> set imgs'. image_consistent mcu img) \<and>
    c' = cursor + length (image_frames imgs') \<and>
    take (length (image_frames imgs')) (drop cursor file) = image_frames imgs'"
  using assms
proof (induction imgs arbitrary: cursor imgs' c')
  case Nil
  then show ?case by auto
next
  case (Cons img imgs)
  show ?case
  proof (cases imgs')
    case Nil
    then show ?thesis by (auto split: sum.splits prod.splits)
  next
    case imgs': (Cons i js)
    let ?c1 = "cursor + 4 + length (bi_bytes i)" and ?tail = "image_frames js"
    have at: "c1 = ?c1" if "load_image file mcu cursor img = Inr (i, c1)" for c1
      using that unfolding load_image_iff [OF Cons.prems] by simp
    have step: "load_images file mcu cursor (img # imgs) = Inr (imgs', c') \<longleftrightarrow>
        load_image file mcu cursor img = Inr (i, ?c1) \<and> load_images file mcu ?c1 imgs = Inr (js, c')"
      unfolding imgs' load_images_Cons by (auto dest: at)
    have l: "length (framed (bi_bytes i)) = 4 + length (bi_bytes i)" by (simp add: framed_def)
    show ?thesis
    proof (cases "image_consistent mcu i \<and> take (4 + length (bi_bytes i)) (drop cursor file) = framed (bi_bytes i)")
      case True
      then have "length (bi_bytes i) < 2 ^ 32" using unat_bound [of "bi_size i"] by (simp add: image_consistent_def)
      then have c1: "?c1 \<le> length file" using framed_read(1) True by blast
      have "take (length (framed (bi_bytes i) @ ?tail)) (drop cursor file) =
          take (4 + length (bi_bytes i)) (drop cursor file) @ take (length ?tail) (drop (4 + length (bi_bytes i) + cursor) file)"
        unfolding length_append l take_add [of "4 + length (bi_bytes i)"] drop_drop ..
      then have "take (length (framed (bi_bytes i) @ ?tail)) (drop cursor file) = framed (bi_bytes i) @ ?tail \<longleftrightarrow>
          take (length ?tail) (drop ?c1 file) = ?tail"
        using True by (simp only: same_append_eq ac_simps)
      moreover have "img = i\<lparr> bi_bytes := bi_bytes img \<rparr> \<longleftrightarrow> without_bytes img = without_bytes i"
        by (cases img; cases i) (auto simp: without_bytes_def)
      ultimately show ?thesis
        unfolding step load_image_iff [OF Cons.prems] Cons.IH [OF c1] using True by (auto simp: imgs' l)
    next
      case False
      have "take (4 + length (bi_bytes i)) (drop cursor file) = framed (bi_bytes i)"
        if "take (length (framed (bi_bytes i) @ ?tail)) (drop cursor file) = framed (bi_bytes i) @ ?tail"
        using arg_cong [OF that, of "take (4 + length (bi_bytes i))"] l by simp
      then show ?thesis
        unfolding step load_image_iff [OF Cons.prems] using False by (auto simp: imgs')
    qed
  qed
qed

lemma unat_ucast_byte: "unat (w :: u32) < 256 \<Longrightarrow> unat (ucast w :: u8) = unat w"
  by (simp only: unsigned_ucast_eq take_bit_eq_mod) simp

lemma uint_ucast_byte: "unat (w :: u32) < 256 \<Longrightarrow> uint (ucast w :: u8) = uint w"
  using unat_ucast_byte [of w] by (simp only: uint_nat)

lemma read_image_fields:
  "read_image entry previous = Inr img \<Longrightarrow> bi_bytes img = [] \<and> unat (bi_slot img) < OTA_SLOT_COUNT \<and> previous < uint (bi_slot img) \<and>
     bi_size img \<noteq> 0 \<and> bi_size img \<le> MAX_IMAGE_SIZE"
  by (auto simp: read_image_def OTA_SLOT_COUNT_def unat_ucast_byte uint_ucast_byte not_le split: json.splits sum.splits if_splits)

lemma read_images_fields:
  "read_images entries previous = Inr imgs \<Longrightarrow>
     (\<forall>img \<in> set imgs. bi_bytes img = [] \<and> unat (bi_slot img) < OTA_SLOT_COUNT \<and> previous < uint (bi_slot img) \<and>
        bi_size img \<noteq> 0 \<and> bi_size img \<le> MAX_IMAGE_SIZE) \<and>
     sorted_wrt (\<lambda>a b. bi_slot a < bi_slot b) imgs \<and> length imgs = length entries"
proof (induction entries arbitrary: previous imgs)
  case (Cons e es)
  obtain i js where i: "read_image e previous = Inr i" "read_images es (int (unat (bi_slot i))) = Inr js" "imgs = i # js"
    using Cons.prems by (auto split: sum.splits)
  show ?case using Cons.IH [OF i(2)] read_image_fields [OF i(1)] i(3) by (auto simp: word_less_def)
qed simp

lemma read_manifest_images:
  assumes "read_manifest wire path obj = Inr b"
  shows "(\<forall>img \<in> set (ob_images b). bi_bytes img = [] \<and> unat (bi_slot img) < OTA_SLOT_COUNT \<and> bi_size img \<noteq> 0 \<and> bi_size img \<le> MAX_IMAGE_SIZE) \<and>
    sorted_wrt (\<lambda>x y. bi_slot x < bi_slot y) (ob_images b) \<and> ob_images b \<noteq> [] \<and>
    (headerImageFormat (ob_mcuId b) \<longrightarrow> length (ob_images b) = 2)"
proof -
  obtain mcu where imgs: "readImageList obj mcu = Inr (ob_images b)" "ob_mcuId b = mcu"
    using assms by (auto simp: read_manifest_def split: sum.splits option.splits json.splits if_splits)
  obtain e es where e: "read_images (e # es) (-1) = Inr (ob_images b)" "headerImageFormat mcu \<longrightarrow> length (ob_images b) = OTA_SLOT_COUNT"
    using imgs(1) by (auto simp: readImageList_def Let_def simp del: read_images.simps split: option.splits json.splits list.splits sum.splits if_splits)
  show ?thesis using read_images_fields [OF e(1)] e(2) imgs(2) by (auto simp: OTA_SLOT_COUNT_def)
qed

lemma without_bytes_id: "(\<forall>img \<in> set imgs. bi_bytes img = []) \<Longrightarrow> map without_bytes imgs = imgs"
  by (rule map_idI) (auto simp: without_bytes_def)

lemma length_image_frames: "list_all (image_consistent mcu) imgs \<Longrightarrow> length (image_frames imgs) = (\<Sum>i\<leftarrow>imgs. 4 + unat (bi_size i))"
  by (induction imgs) (simp_all add: framed_def image_consistent_def)

lemma bundle_file_parts:
  assumes "file = bundle_file m (map bi_bytes imgs)" "length m < 2 ^ 32"
  shows "take 8 file = otaBundleMagic" "readU32 file 8 = of_nat (length m)" "take (length m) (drop 12 file) = m"
    "drop (12 + length m) file = image_frames imgs" "length file = 12 + length m + length (image_frames imgs)"
proof -
  have f: "file = otaBundleMagic @ framed m @ image_frames imgs" by (simp add: assms(1) bundle_file_def image_frames_def)
  have l: "length otaBundleMagic = 8" "length (framed m) = 4 + length m" by (simp_all add: otaBundleMagic_def framed_def)
  show "take 8 file = otaBundleMagic" using f l by simp
  have "take (4 + length m) (drop 8 file) = framed m" using f l by simp
  from framed_read [OF this assms(2)] show "readU32 file 8 = of_nat (length m)" "take (length m) (drop 12 file) = m" by simp_all
  have "drop (12 + length m) file = drop (4 + length m) (drop 8 file)" by simp
  then show "drop (12 + length m) file = image_frames imgs" using f l by simp
  show "length file = 12 + length m + length (image_frames imgs)" using f l by simp
qed

section \<open>What a manifest states\<close>

text \<open>A manifest as its documentation describes it, member by member, with no reference to how it is read: a
  number that fits the field, the names of the chips, eight lower-case hexadecimal digits.\<close>

definition number_of :: "(string \<times> json) list \<Rightarrow> string \<Rightarrow> nat \<Rightarrow> bool" where
  "number_of obj key n \<longleftrightarrow> (\<exists>raw. map_of obj key = Some (JUnsigned raw) \<and> unat raw = n)"

definition chip_names :: "u8 \<Rightarrow> string list" where
  "chip_names mcu = map fst (filter (\<lambda>(name, chip). chip = mcu)
     [(''stm32f405'', OTA_MCU_STM32F405), (''f405'', OTA_MCU_STM32F405), (''stm32f722'', OTA_MCU_STM32F722), (''f722'', OTA_MCU_STM32F722),
      (''sim'', OTA_MCU_SIM), (''esp32c3'', OTA_MCU_ESP32C3)])"

definition hex8 :: "u32 \<Rightarrow> string" where
  "hex8 w = map (\<lambda>k. ''0123456789abcdef'' ! (unat w div 16 ^ (7 - k) mod 16)) [0..<8]"

definition text_of :: "(string \<times> json) list \<Rightarrow> string \<Rightarrow> string" where
  "text_of obj key = (case map_of obj key of Some (JString s) \<Rightarrow> s | _ \<Rightarrow> [])"

definition entry_states :: "json \<Rightarrow> bundle_image \<Rightarrow> bool" where
  "entry_states entry img \<longleftrightarrow> (\<exists>obj. entry = JObject obj \<and> number_of obj ''slot'' (unat (bi_slot img)) \<and>
     number_of obj ''size'' (unat (bi_size img)) \<and> number_of obj ''crc32'' (unat (bi_crc32 img)))"

definition manifest_states :: "u32 \<Rightarrow> (string \<times> json) list \<Rightarrow> ota_bundle \<Rightarrow> bool" where
  "manifest_states wire obj b \<longleftrightarrow>
     (number_of obj ''mcuId'' (unat (ob_mcuId b)) \<or> (\<exists>name \<in> set (chip_names (ob_mcuId b)). map_of obj ''mcuId'' = Some (JString name))) \<and>
     number_of obj ''buildEpoch'' (unat (ob_buildEpoch b)) \<and>
     ob_wireHash b = hex8 wire \<and> map_of obj ''wireHash'' = Some (JString (hex8 wire)) \<and>
     ob_name b = text_of obj ''name'' \<and> ob_gitHash b = text_of obj ''gitHash'' \<and>
     (\<exists>entries. map_of obj ''images'' = Some (JArray entries) \<and> list_all2 entry_states entries (ob_images b)) \<and>
     ob_images b \<noteq> [] \<and> sorted_wrt (\<lambda>x y. bi_slot x < bi_slot y) (ob_images b) \<and>
     (\<forall>img \<in> set (ob_images b). unat (bi_slot img) < 2 \<and> 0 < unat (bi_size img) \<and> unat (bi_size img) \<le> 8 * 1024 * 1024) \<and>
     (map_of obj ''imageCount'' = None \<or> number_of obj ''imageCount'' (length (ob_images b))) \<and>
     (ob_mcuId b \<in> {OTA_MCU_STM32F405, OTA_MCU_STM32F722, OTA_MCU_SIM} \<longrightarrow> length (ob_images b) = 2)"

lemma narrow_iff: "unat (raw :: u64) = unat (n :: u32) \<longleftrightarrow> \<not> 0xFFFFFFFF < raw \<and> ucast raw = n"
proof -
  have f: "unat (ucast raw :: u32) = unat raw mod 2 ^ 32" by (simp add: unsigned_ucast_eq take_bit_eq_mod)
  have n: "unat n < 2 ^ 32" using unat_bound [of n] by simp
  have "0xFFFFFFFF < raw \<longleftrightarrow> \<not> unat raw < 2 ^ 32" by (simp add: word_less_nat_alt not_less) linarith
  then show ?thesis using f n by (auto simp: word_unat_eq_iff)
qed

lemma read_number: "readManifestU32 obj key what = Inr n \<longleftrightarrow> number_of obj key (unat n)"
  by (auto simp: readManifestU32_def json_find_def number_of_def narrow_iff split: option.splits json.splits)

lemma read_number_fails: "(\<exists>e. readManifestU32 obj key what = Inl e) \<longleftrightarrow> (\<forall>n :: u32. \<not> number_of obj key (unat n))"
  using read_number [of obj key what] by (cases "readManifestU32 obj key what") auto

lemma slot_widen: "unat (ucast (s :: u8) :: u32) = unat s" "ucast (ucast s :: u32) = s"
proof -
  show u: "unat (ucast s :: u32) = unat s" using unat_bound [of s] by (simp add: unsigned_ucast_eq take_bit_eq_mod)
  have "unat (ucast (ucast s :: u32) :: u8) = unat (ucast s :: u32)" using unat_bound [of s] u by (intro unat_ucast_byte) simp
  then show "ucast (ucast s :: u32) = s" using u by (simp add: word_unat_eq_iff)
qed

lemma read_image_iff: "read_image entry previous = Inr img \<longleftrightarrow>
  entry_states entry img \<and> bi_bytes img = [] \<and> unat (bi_slot img) < 2 \<and> previous < int (unat (bi_slot img)) \<and>
  0 < unat (bi_size img) \<and> unat (bi_size img) \<le> 8 * 1024 * 1024" (is "?l \<longleftrightarrow> ?r")
proof
  assume l: ?l
  obtain obj slot n crc where o: "entry = JObject obj" "readManifestU32 obj ''slot'' ''image slot'' = Inr slot"
    "readManifestU32 obj ''size'' ''image size'' = Inr n" "readManifestU32 obj ''crc32'' ''image crc32'' = Inr crc"
    "img = \<lparr> bi_slot = ucast slot, bi_size = n, bi_crc32 = crc, bi_bytes = [] \<rparr>" "unat slot < 2" "previous < int (unat slot)" "n \<noteq> 0" "n \<le> MAX_IMAGE_SIZE"
    using l by (auto simp: read_image_def OTA_SLOT_COUNT_def not_le not_less split: json.splits sum.splits if_splits)
  have "unat (ucast slot :: u8) = unat slot" using o(6) by (intro unat_ucast_byte) simp
  then show ?r using o by (auto simp: entry_states_def read_number unat_gt_0 word_le_nat_alt MAX_IMAGE_SIZE_def)
next
  assume r: ?r
  then obtain obj where o: "entry = JObject obj" "number_of obj ''slot'' (unat (bi_slot img))" "number_of obj ''size'' (unat (bi_size img))"
    "number_of obj ''crc32'' (unat (bi_crc32 img))" by (auto simp: entry_states_def)
  have s: "unat (ucast (bi_slot img) :: u32) = unat (bi_slot img)" "ucast (ucast (bi_slot img) :: u32) = bi_slot img"
    using unat_bound [of "bi_slot img"] by (simp_all add: slot_widen)
  have n: "readManifestU32 obj ''slot'' ''image slot'' = Inr (ucast (bi_slot img))" using o(2) by (simp add: read_number s)
  have m: "readManifestU32 obj ''size'' ''image size'' = Inr (bi_size img)" "readManifestU32 obj ''crc32'' ''image crc32'' = Inr (bi_crc32 img)"
    using o(3,4) by (simp_all add: read_number)
  show ?l using r by (simp add: read_image_def o(1) n m s OTA_SLOT_COUNT_def not_le not_less MAX_IMAGE_SIZE_def word_less_nat_alt word_unat_eq_iff)
qed

lemma read_images_iff: "read_images entries previous = Inr imgs \<longleftrightarrow>
  list_all2 entry_states entries imgs \<and> (\<forall>img \<in> set imgs. bi_bytes img = [] \<and> unat (bi_slot img) < 2 \<and> previous < int (unat (bi_slot img)) \<and>
    0 < unat (bi_size img) \<and> unat (bi_size img) \<le> 8 * 1024 * 1024) \<and> sorted_wrt (\<lambda>x y. bi_slot x < bi_slot y) imgs"
proof (induction entries arbitrary: previous imgs)
  case (Cons e es)
  show ?case
  proof (cases imgs)
    case (Cons i js)
    have "read_images (e # es) previous = Inr imgs \<longleftrightarrow> read_image e previous = Inr i \<and> read_images es (int (unat (bi_slot i))) = Inr js"
      unfolding Cons by (auto split: sum.splits)
    let ?ok = "\<lambda>img. bi_bytes img = [] \<and> unat (bi_slot img) < 2 \<and> 0 < unat (bi_size img) \<and> unat (bi_size img) \<le> 8 * 1024 * 1024"
    have "previous < int (unat (bi_slot x))" if "previous < int (unat (bi_slot i))" "bi_slot i < bi_slot x" for x
      using that by (simp add: word_less_def)
    moreover have "bi_slot i < bi_slot x \<longleftrightarrow> int (unat (bi_slot i)) < int (unat (bi_slot x))" for x by (simp add: word_less_def)
    ultimately show ?thesis
      unfolding read_image_iff Cons.IH \<open>read_images (e # es) previous = Inr imgs \<longleftrightarrow> _\<close> unfolding Cons list_all2_Cons sorted_wrt.simps list.set ball_simps by blast
  qed (auto split: sum.splits)
qed auto

lemma unat_numeral_fifteen: "unat (0xF :: u32) = 15"
  by simp

lemma hex_text: "drop 2 (hexText w) = hex8 w"
proof -
  have "unat (drop_bit k w AND 0xF) = unat w div 2 ^ k mod 16" for k
  proof -
    have "unat (drop_bit k w) = unat w div 2 ^ k" using unat_bound [of w]
      by (simp only: unsigned_drop_bit_eq) (simp add: drop_bit_eq_div take_bit_nat_eq_self)
    moreover have "(n :: nat) AND 15 = n mod 16" for n using take_bit_eq_mask [of 4 n] by (simp add: take_bit_eq_mod mask_eq_exp_minus_1)
    ultimately show ?thesis by (simp only: unsigned_and_eq unat_numeral_fifteen)
  qed
  moreover have "2 ^ ((7 - k) * 4) = (16 :: nat) ^ (7 - k)" for k using power_mult [of "2 :: nat" 4 "7 - k"] by (simp add: mult.commute)
  ultimately show ?thesis by (simp add: hexText_def hex8_def hex_digits_def)
qed

lemma chip_iff: "chip_name name = Inr mcu \<longleftrightarrow> name \<in> set (chip_names mcu)"
  by (auto simp: chip_name_def chip_names_def)

lemma mcu_iff: "readMcuId obj = Inr mcu \<longleftrightarrow>
  number_of obj ''mcuId'' (unat mcu) \<or> (\<exists>name \<in> set (chip_names mcu). map_of obj ''mcuId'' = Some (JString name))"
proof -
  have f: "unat (ucast raw :: u8) = unat raw mod 256" for raw :: u64 by (simp add: unsigned_ucast_eq take_bit_eq_mod)
  have "255 < raw \<longleftrightarrow> \<not> unat raw < 256" for raw :: u64 by (simp add: word_less_nat_alt not_less) linarith
  then have "unat raw = unat mcu \<longleftrightarrow> \<not> 255 < raw \<and> ucast raw = mcu" for raw :: u64
    using f unat_bound [of mcu] by (auto simp: word_unat_eq_iff)
  then show ?thesis by (auto simp: readMcuId_def json_find_def number_of_def chip_iff split: option.splits json.splits)
qed

lemma header_format_iff: "headerImageFormat mcu \<longleftrightarrow> mcu \<in> {OTA_MCU_STM32F405, OTA_MCU_STM32F722, OTA_MCU_SIM}"
  by (auto simp: headerImageFormat_def)

lemma image_list_iff: "readImageList obj mcu = Inr imgs \<longleftrightarrow>
  (\<exists>entries. map_of obj ''images'' = Some (JArray entries) \<and> list_all2 entry_states entries imgs) \<and> imgs \<noteq> [] \<and>
  sorted_wrt (\<lambda>x y. bi_slot x < bi_slot y) imgs \<and>
  (\<forall>img \<in> set imgs. bi_bytes img = [] \<and> unat (bi_slot img) < 2 \<and> 0 < unat (bi_size img) \<and> unat (bi_size img) \<le> 8 * 1024 * 1024) \<and>
  (map_of obj ''imageCount'' = None \<or> number_of obj ''imageCount'' (length imgs)) \<and>
  (mcu \<in> {OTA_MCU_STM32F405, OTA_MCU_STM32F722, OTA_MCU_SIM} \<longrightarrow> length imgs = 2)" (is "_ \<longleftrightarrow> ?r imgs")
proof -
  have short: "length imgs \<le> 2" if "\<forall>img \<in> set imgs. unat (bi_slot img) < 2" "sorted_wrt (\<lambda>x y. bi_slot x < bi_slot y) imgs" for imgs
  proof -
    have "sorted_wrt (<) (map (\<lambda>i. unat (bi_slot i)) imgs)" using that(2) by (simp add: sorted_wrt_map word_less_nat_alt)
    then have "distinct (map (\<lambda>i. unat (bi_slot i)) imgs)" by (simp add: strict_sorted_iff)
    moreover have "set (map (\<lambda>i. unat (bi_slot i)) imgs) \<subseteq> {0, 1}" using that(1) by (auto simp: less_2_cases_iff)
    ultimately show ?thesis using card_mono [of "{0, 1 :: nat}" "set (map (\<lambda>i. unat (bi_slot i)) imgs)"] distinct_card by fastforce
  qed
  have announced: "(\<exists>n. readManifestU32 obj ''imageCount'' ''image count'' = Inr n \<and> unat n = length imgs) \<longleftrightarrow> number_of obj ''imageCount'' (length imgs)"
    if "length imgs \<le> 2" for imgs :: "bundle_image list"
  proof -
    have "unat (of_nat (length imgs) :: u32) = length imgs" using that by (intro unat_of_nat_small) simp
    then show ?thesis unfolding read_number by metis
  qed
  show ?thesis
  proof (cases "\<exists>e es. map_of obj ''images'' = Some (JArray (e # es))")
    case False
    then have "\<not> ?r imgs" by (auto simp: neq_Nil_conv list_all2_Cons2)
    moreover have "readImageList obj mcu \<noteq> Inr imgs"
      using False by (auto simp: readImageList_def json_find_def simp del: read_images.simps split: option.splits json.splits list.splits)
    ultimately show ?thesis by blast
  next
    case True
    then obtain e es where m: "map_of obj ''images'' = Some (JArray (e # es))" by blast
    let ?count = "map_of obj ''imageCount'' = None \<or> (\<exists>n. readManifestU32 obj ''imageCount'' ''image count'' = Inr n \<and> unat n = length imgs)"
    have "readImageList obj mcu = Inr imgs \<longleftrightarrow> read_images (e # es) (-1) = Inr imgs \<and> ?count \<and> (headerImageFormat mcu \<longrightarrow> length imgs = 2)"
      by (auto simp: readImageList_def json_find_def m Let_def OTA_SLOT_COUNT_def simp del: read_images.simps split: sum.splits if_splits)
    moreover have neg: "- 1 < int (unat x)" for x :: u8 by linarith
    have "read_images (e # es) (-1) = Inr imgs \<longleftrightarrow> list_all2 entry_states (e # es) imgs \<and>
        (\<forall>img \<in> set imgs. bi_bytes img = [] \<and> unat (bi_slot img) < 2 \<and> 0 < unat (bi_size img) \<and> unat (bi_size img) \<le> 8 * 1024 * 1024) \<and>
        sorted_wrt (\<lambda>x y. bi_slot x < bi_slot y) imgs"
      unfolding read_images_iff using neg by blast
    moreover have "(\<exists>entries. map_of obj ''images'' = Some (JArray entries) \<and> list_all2 entry_states entries imgs) \<longleftrightarrow> list_all2 entry_states (e # es) imgs"
      by (simp add: m)
    moreover have "list_all2 entry_states (e # es) imgs \<longrightarrow> imgs \<noteq> []" by auto
    ultimately show ?thesis unfolding header_format_iff using short [of imgs] announced [of imgs] by blast
  qed
qed

lemma read_manifest_iff: "read_manifest wire path obj = Inr (b\<lparr> ob_images := map without_bytes (ob_images b) \<rparr>) \<longleftrightarrow>
  ob_path b = path \<and> manifest_states wire obj b"
proof -
  let ?imgs = "map without_bytes (ob_images b)"
  have "read_manifest wire path obj = Inr (b\<lparr> ob_images := ?imgs \<rparr>) \<longleftrightarrow>
    readMcuId obj = Inr (ob_mcuId b) \<and> readBuildEpoch obj = Inr (ob_buildEpoch b) \<and> readImageList obj (ob_mcuId b) = Inr ?imgs \<and>
    map_of obj ''wireHash'' = Some (JString (hex8 wire)) \<and> ob_wireHash b = hex8 wire \<and> ob_path b = path \<and>
    ob_name b = optional_text obj ''name'' \<and> ob_gitHash b = optional_text obj ''gitHash''"
    by (cases b) (auto simp: read_manifest_def hex_text json_find_def split: sum.splits option.splits json.splits)
  moreover have "list_all2 entry_states entries ?imgs \<longleftrightarrow> list_all2 entry_states entries (ob_images b)" for entries
  proof -
    have "entry_states entry (without_bytes i) = entry_states entry i" for entry i by (simp add: entry_states_def without_bytes_def)
    then show ?thesis by (simp add: list_all2_map2)
  qed
  moreover have "sorted_wrt (\<lambda>x y. bi_slot x < bi_slot y) ?imgs \<longleftrightarrow> sorted_wrt (\<lambda>x y. bi_slot x < bi_slot y) (ob_images b)"
    by (simp add: sorted_wrt_map without_bytes_def)
  moreover have "?imgs \<noteq> [] \<longleftrightarrow> ob_images b \<noteq> []" "length ?imgs = length (ob_images b)"
    "(\<forall>img \<in> set ?imgs. bi_bytes img = [] \<and> unat (bi_slot img) < 2 \<and> 0 < unat (bi_size img) \<and> unat (bi_size img) \<le> 8 * 1024 * 1024) \<longleftrightarrow>
     (\<forall>img \<in> set (ob_images b). unat (bi_slot img) < 2 \<and> 0 < unat (bi_size img) \<and> unat (bi_size img) \<le> 8 * 1024 * 1024)"
    by (simp_all add: without_bytes_def)
  moreover have "optional_text obj = text_of obj" by (rule ext) (simp add: text_of_def optional_text_def json_find_def)
  ultimately show ?thesis
    unfolding mcu_iff image_list_iff readBuildEpoch_def read_number manifest_states_def by (simp only:) blast
qed

lemma load_bundle_iff:
  "loadOtaBundle parse read_file wire path = Inr b \<longleftrightarrow>
     path \<noteq> [] \<and>
     (\<exists>m obj. read_file path = Some (bundle_file m (map bi_bytes (ob_images b))) \<and> 0 < length m \<and> length m \<le> 65536 \<and>
        parse m = Some (JObject obj) \<and> read_manifest wire path obj = Inr (b\<lparr> ob_images := map without_bytes (ob_images b) \<rparr>)) \<and>
     list_all (image_consistent (ob_mcuId b)) (ob_images b)" (is "?l \<longleftrightarrow> ?r")
proof
  assume l: ?l
  obtain "file" where f: "path \<noteq> []" "read_file path = Some file" "\<not> length file < 12" "take 8 file = otaBundleMagic"
    using l by (auto simp: loadOtaBundle_def bundle_defs split: if_splits option.splits)
  define n where "n = readU32 file 8"
  define m where "m = take (unat n) (drop 12 file)"
  have n: "n \<noteq> 0" "n \<le> 65536" "\<not> length file - 12 < unat n"
    using l f by (auto simp: loadOtaBundle_def bundle_defs n_def Let_def not_le split: if_splits)
  obtain obj b0 imgs where p: "parse m = Some (JObject obj)" "read_manifest wire path obj = Inr b0"
    "load_images file (ob_mcuId b0) (12 + unat n) (ob_images b0) = Inr (imgs, length file)" "b = b0\<lparr> ob_images := imgs \<rparr>"
    using l f n
    by (auto simp: loadOtaBundle_def bundle_defs n_def [symmetric] m_def [symmetric] Let_def not_le
        split: if_splits option.splits json.splits sum.splits prod.splits)
  have fit: "12 + unat n \<le> length file" using n(3) f(3) by simp
  note im = p(3) [unfolded load_images_iff [OF fit]]
  have "length (drop (12 + unat n) file) = length (image_frames imgs)" using im by simp
  then have d: "drop (12 + unat n) file = image_frames imgs" using im by (metis order_refl take_all)
  have lm: "length m = unat n" using fit by (simp add: m_def)
  have "take (4 + unat n) (drop 8 file) = framed m"
    using read_framed [of 8 "file", folded n_def] fit by (simp add: m_def)
  then have "drop 8 file = framed m @ image_frames imgs"
    using append_take_drop_id [of "4 + unat n" "drop 8 file"] d by (simp add: add.commute)
  then have "file = bundle_file m (map bi_bytes (ob_images b))"
    using append_take_drop_id [of 8 "file"] f(4) p(4) by (simp add: bundle_file_def image_frames_def)
  moreover have "b0 = b\<lparr> ob_images := map without_bytes (ob_images b) \<rparr>"
    using im p(4) read_manifest_images [OF p(2)] without_bytes_id [of "ob_images b0"] by (cases b0) auto
  moreover have "0 < unat n" "unat n \<le> 65536" using n by (simp_all add: word_le_nat_alt unat_gt_0)
  moreover have "list_all (image_consistent (ob_mcuId b)) (ob_images b)" using im p(4) by (simp add: list_all_iff)
  ultimately show ?r using f(1,2) p(1,2) lm by auto
next
  assume r: ?r
  then obtain m obj where m: "read_file path = Some (bundle_file m (map bi_bytes (ob_images b)))" "0 < length m" "length m \<le> 65536"
    "parse m = Some (JObject obj)" "read_manifest wire path obj = Inr (b\<lparr> ob_images := map without_bytes (ob_images b) \<rparr>)" by blast
  define "file" where "file = bundle_file m (map bi_bytes (ob_images b))"
  note parts = bundle_file_parts [OF file_def]
  have n: "unat (of_nat (length m) :: u32) = length m" using m(3) by (intro unat_of_nat_small) simp
  have nz: "(of_nat (length m) :: u32) \<noteq> 0" "\<not> MAX_MANIFEST_SIZE < (of_nat (length m) :: u32)"
    using n m(2,3) by (auto simp: word_less_nat_alt MAX_MANIFEST_SIZE_def)
  have fit: "12 + length m \<le> length file" using parts(5) m(3) by simp
  have "load_images file (ob_mcuId b) (12 + length m) (map without_bytes (ob_images b)) = Inr (ob_images b, length file)"
    unfolding load_images_iff [OF fit] using r parts(4,5) m(3) by (simp add: list_all_iff without_bytes_def)
  then show ?l
    using r m parts nz n fit
    by (simp add: loadOtaBundle_def file_def [symmetric] OTA_BUNDLE_MAGIC_SIZE_def LENGTH_FIELD_SIZE_def Let_def)
qed

text \<open>(C37) A bundle that loads is consistent, and a consistent bundle loads. The reader succeeds with a
  bundle exactly when the file is the magic, a manifest of 1 byte to 64 KB behind its length and the
  images behind theirs, with nothing missing and nothing left over; when the manifest is an object that
  states the bundle: its chip by number or by name, its build epoch, the wire hash of this build,
  and the slot, size and checksum of every image, the slots known, ascending, once each, the sizes
  from 1 byte to 8 MB, as many images as it announces when it announces a number, and one per slot
  for a chip that links its images per slot; and when every image has the announced size and checksum and
  opens with a header for its chip, slot and size, or with the ESP-IDF magic. Everything else is one
  of the refusals. What a manifest states is written member by member, apart from the reader.\<close>

theorem bundle_load_exact:
  "loadOtaBundle parse read_file wire path = Inr b \<longleftrightarrow>
     path \<noteq> [] \<and> ob_path b = path \<and>
     (\<exists>m obj. read_file path = Some (bundle_file m (map bi_bytes (ob_images b))) \<and> 0 < length m \<and> length m \<le> 65536 \<and>
        parse m = Some (JObject obj) \<and> manifest_states wire obj b) \<and>
     list_all (image_consistent (ob_mcuId b)) (ob_images b)"
  unfolding load_bundle_iff read_manifest_iff by blast

end
