(* ===== verification/Ota_Consumer.thy ===== *)
theory Ota_Consumer
  imports Ota_Bundle Ota_Updater
begin

text \<open>
  The ground side of an update (\<^verbatim>\<open>components/ota/src/consumer.cpp\<close>): one session state machine that
  queries the board, sends the image chunk by chunk inside a window, stages it, reboots the board and
  judges what came back. The record \<open>consumer\<close> has the fields of \<^verbatim>\<open>OtaConsumer\<close>, every member
  function is a function on it, with the sentences of the source.

  What the object calls is outside of it: the route to the board (\<^verbatim>\<open>MessageSink\<close>), the observer
  (\<^verbatim>\<open>ChangeHandler\<close>), the files and the random source. The state of all of them is the one field
  \<open>k_world\<close>, of any type; the two \<^verbatim>\<open>std::function\<close> members are functions on it, and the record
  \<open>ota_env\<close> holds what the operating system and the JSON library answer. A sink answers None when the
  message went out and the reason otherwise. Neither function calls back into the consumer.

  The messages are the nanopb structs of \<^verbatim>\<open>mark4.proto\<close>: an enumeration of the wire is its 32-bit
  number, which may be outside the enumeration.
\<close>


section \<open>Messages\<close>

datatype ground_message = ToUpdater ota_request | RebootCommand

record wire_slot =
  wl_state :: u32
  wl_build_epoch :: u32
  wl_git_hash :: string

record wire_status =
  ws_mcu :: u32
  ws_running_slot :: u32
  ws_active_slot :: u32
  ws_updater_busy :: bool
  ws_slots :: "wire_slot list"
  ws_slot_size :: u32
  ws_max_chunk_data :: u32

datatype board_message = OtaStatus wire_status | OtaAck u32 u32 u32 | OtaChunkAck u32 u32 | OtherMessage

text \<open>The numbers of the enumerations, and a reply of the board as the ground decodes it.\<close>

definition slot_state_code :: "wire_slot_state \<Rightarrow> u32" where
  "slot_state_code state = (case state of SlotState_EMPTY \<Rightarrow> 0 | SlotState_STAGED \<Rightarrow> 1 | SlotState_TESTING \<Rightarrow> 2
     | SlotState_VALID \<Rightarrow> 3 | SlotState_BAD \<Rightarrow> 4)"

definition result_code :: "ota_result \<Rightarrow> u32" where
  "result_code r = (case r of OTA_OK \<Rightarrow> 0 | DENIED_ARMED \<Rightarrow> 1 | DENIED_VOLTAGE \<Rightarrow> 2 | DENIED_BUSY \<Rightarrow> 3 | BAD_SESSION \<Rightarrow> 4
     | BAD_STATE \<Rightarrow> 5 | BAD_IMAGE \<Rightarrow> 6 | CRC_MISMATCH \<Rightarrow> 7 | STORE_FAILURE \<Rightarrow> 8)"

definition op_code :: "ota_op \<Rightarrow> u32" where
  "op_code op = (case op of OtaOp_BEGIN \<Rightarrow> 1 | OtaOp_CHUNK \<Rightarrow> 2 | OtaOp_FINISH \<Rightarrow> 3 | OtaOp_REVERT \<Rightarrow> 4 | OtaOp_ABORT \<Rightarrow> 5)"

definition wire_slot_of :: "slot_status \<Rightarrow> wire_slot" where
  "wire_slot_of s = \<lparr> wl_state = slot_state_code (ss_state s), wl_build_epoch = ss_build_epoch s,
     wl_git_hash = map (\<lambda>b. char_of (unat b)) (ss_git_hash s) \<rparr>"

fun wire_reply :: "ota_reply \<Rightarrow> board_message option" where
  "wire_reply NoReply = None"
| "wire_reply (Ack op session result) = Some (OtaAck session (op_code op) (result_code result))"
| "wire_reply (ChunkAck session next) = Some (OtaChunkAck session next)"
| "wire_reply (Status s) = Some (OtaStatus \<lparr> ws_mcu = ucast (os_mcu s), ws_running_slot = ucast (os_running_slot s),
     ws_active_slot = ucast (os_active_slot s), ws_updater_busy = os_updater_busy s, ws_slots = map wire_slot_of (os_slots s),
     ws_slot_size = os_slot_size s, ws_max_chunk_data = os_max_chunk_data s \<rparr>)"


section \<open>Texts\<close>

definition slotLetter :: "u8 \<Rightarrow> string" where
  "slotLetter slot = (if slot = OTA_SLOT_A then ''A'' else if slot = OTA_SLOT_B then ''B'' else ''?'')"

definition int_text :: "int \<Rightarrow> string" where
  "int_text i = (if i < 0 then ''-'' @ to_string (nat (- i)) else to_string (nat i))"

text \<open>\<^verbatim>\<open>gmtime_r\<close> and \<^verbatim>\<open>strftime\<close> with \<^verbatim>\<open>%Y-%m-%d %H:%M:%S\<close>: the civil date of a day count (in years that
  begin in March, in cycles of 400 years) and the time of the day.\<close>

definition civil_date :: "nat \<Rightarrow> nat \<times> nat \<times> nat" where
  "civil_date days =
     (let z = days + 719468; era = z div 146097; doe = z mod 146097;
          yoe = (doe - doe div 1460 + doe div 36524 - doe div 146096) div 365;
          doy = doe - (365 * yoe + yoe div 4 - yoe div 100);
          mp = (5 * doy + 2) div 153; d = doy - (153 * mp + 2) div 5 + 1;
          m = (if mp < 10 then mp + 3 else mp - 9)
      in (yoe + era * 400 + (if m \<le> 2 then 1 else 0), m, d))"

definition two_digits :: "nat \<Rightarrow> string" where
  "two_digits n = (if n < 10 then ''0'' @ to_string n else to_string n)"

definition utc_text :: "u32 \<Rightarrow> string" where
  "utc_text epoch =
     (let days = unat epoch div 86400; s = unat epoch mod 86400; (y, m, d) = civil_date days in
      to_string y @ ''-'' @ two_digits m @ ''-'' @ two_digits d @ '' '' @ two_digits (s div 3600) @ '':'' @
      two_digits (s div 60 mod 60) @ '':'' @ two_digits (s mod 60))"

definition buildText :: "u32 \<Rightarrow> string" where
  "buildText epoch =
     (if epoch = 0 then ''an image with no header''
      else if epoch = OTA_IMAGE_UNSTAMPED then ''an unpackaged build''
      else ''the build of '' @ utc_text epoch @ '' UTC'')"

datatype ota_phase = IDLE | QUERY | ERASING | TRANSFER | VERIFYING | REBOOTING | WAITING_BOARD | TESTING | CONFIRMED
  | ROLLED_BACK | REVERTING | FAILED

datatype ota_verdict = V_NONE | V_CONFIRMED | V_ROLLED_BACK | V_REVERTED | V_FAILED

fun otaPhaseName :: "ota_phase \<Rightarrow> string" where
  "otaPhaseName IDLE = ''idle''"
| "otaPhaseName QUERY = ''query''"
| "otaPhaseName ERASING = ''erasing''"
| "otaPhaseName TRANSFER = ''transfer''"
| "otaPhaseName VERIFYING = ''verifying''"
| "otaPhaseName REBOOTING = ''rebooting''"
| "otaPhaseName WAITING_BOARD = ''waitingBoard''"
| "otaPhaseName TESTING = ''testing''"
| "otaPhaseName CONFIRMED = ''confirmed''"
| "otaPhaseName ROLLED_BACK = ''rolledBack''"
| "otaPhaseName REVERTING = ''reverting''"
| "otaPhaseName FAILED = ''failed''"

fun otaVerdictName :: "ota_verdict \<Rightarrow> string" where
  "otaVerdictName V_NONE = ''none''"
| "otaVerdictName V_CONFIRMED = ''confirmed''"
| "otaVerdictName V_ROLLED_BACK = ''rolledBack''"
| "otaVerdictName V_REVERTED = ''reverted''"
| "otaVerdictName V_FAILED = ''failed''"

definition otaSlotStateName :: "u32 \<Rightarrow> string" where
  "otaSlotStateName state =
     (if state = 1 then ''staged'' else if state = 2 then ''testing'' else if state = 3 then ''valid''
      else if state = 4 then ''bad'' else if state = 0 then ''empty'' else ''unknown'')"

definition otaResultText :: "u32 \<Rightarrow> string" where
  "otaResultText result =
     (if result = 0 then ''ok''
      else if result = 1 then ''the board refused: it is armed''
      else if result = 2 then ''the board refused: the battery is under the update floor''
      else if result = 3 then ''the board refused: another update session is already open''
      else if result = 4 then ''the board does not know this session any more''
      else if result = 5 then ''the board refused: the request makes no sense in its current state''
      else if result = 6 then ''the board rejected the image: wrong chip, wrong slot or too large''
      else if result = 7 then ''the image in flash does not match the announced CRC''
      else if result = 8 then ''the board could not erase, program or record the update''
      else ''the board answered with unknown refusal code '' @ int_text (sint result))"


section \<open>The state\<close>

definition US_PER_MS :: u64 where "US_PER_MS = 1000"
definition BUNDLE_CHECK_MS :: u64 where "BUNDLE_CHECK_MS = 1000"

record consumer_config =
  cf_beginTimeoutMs :: u64
  cf_finishTimeoutMs :: u64
  cf_chunkAckTimeoutMs :: u64
  cf_ackTimeoutMs :: u64
  cf_statusPeriodMs :: u64
  cf_rebootSettleMs :: u64
  cf_boardReturnTimeoutMs :: u64
  cf_chunkDelayUs :: u64
  cf_statusTries :: u32
  cf_maxRetries :: u32
  cf_maxAckTries :: u32

definition Config_default :: consumer_config where
  "Config_default = \<lparr> cf_beginTimeoutMs = 15000, cf_finishTimeoutMs = 5000, cf_chunkAckTimeoutMs = 500, cf_ackTimeoutMs = 2000,
     cf_statusPeriodMs = 1000, cf_rebootSettleMs = 1500, cf_boardReturnTimeoutMs = 30000, cf_chunkDelayUs = 3000,
     cf_statusTries = 5, cf_maxRetries = 8, cf_maxAckTries = 3 \<rparr>"

record slot_info =
  si_state :: u32
  si_buildEpoch :: u32
  si_gitHash :: string

record board_status =
  bs_seen :: bool
  bs_seenAtUs :: u64
  bs_mcu :: u32
  bs_runningSlot :: u8
  bs_activeSlot :: u8
  bs_slots :: "slot_info list"
  bs_updaterBusy :: bool
  bs_buildEpoch :: u32
  bs_gitHash :: string
  bs_slotSize :: u32
  bs_maxChunkData :: u32

definition OtaBoardStatus_init :: board_status where
  "OtaBoardStatus_init = \<lparr> bs_seen = False, bs_seenAtUs = 0, bs_mcu = 0, bs_runningSlot = OTA_SLOT_A, bs_activeSlot = OTA_SLOT_A,
     bs_slots = replicate OTA_SLOT_COUNT \<lparr> si_state = 0, si_buildEpoch = 0, si_gitHash = [] \<rparr>, bs_updaterBusy = False,
     bs_buildEpoch = 0, bs_gitHash = [], bs_slotSize = 0, bs_maxChunkData = 0 \<rparr>"

record progress =
  pg_sentBytes :: u32
  pg_ackedBytes :: u32
  pg_totalBytes :: u32
  pg_retries :: u32

definition OtaProgress_init :: progress where
  "OtaProgress_init = \<lparr> pg_sentBytes = 0, pg_ackedBytes = 0, pg_totalBytes = 0, pg_retries = 0 \<rparr>"

type_synonym 'w sink = "ground_message \<Rightarrow> 'w \<Rightarrow> 'w \<times> string option"

text \<open>What the consumer asks of the system: the parser, the files, the schema hash, the time and size of
  a file (None on an error) and a draw of the random source.\<close>

record 'w ota_env =
  e_parse :: "bytes \<Rightarrow> json option"
  e_file :: "'w \<Rightarrow> string \<Rightarrow> bytes option"
  e_wire :: u32
  e_written :: "'w \<Rightarrow> string \<Rightarrow> int option"
  e_size :: "'w \<Rightarrow> string \<Rightarrow> u64 option"
  e_draw :: "'w \<Rightarrow> nat \<times> 'w"

record 'w consumer =
  k_config :: consumer_config
  k_sink :: "'w sink option"
  k_onChange :: "('w \<Rightarrow> 'w) option"
  k_defaultBundlePath :: string
  k_bundlePath :: string
  k_bundle :: ota_bundle
  k_bundleFileTime :: int
  k_bundleFileSize :: u64
  k_nextBundleCheckUs :: u64
  k_board :: board_status
  k_progress :: progress
  k_phase :: ota_phase
  k_verdict :: ota_verdict
  k_lastError :: string
  k_session :: u32
  k_targetSlot :: u8
  k_chunkData :: u32
  k_deadlineUs :: u64
  k_nextStatusUs :: u64
  k_nextChunkUs :: u64
  k_chunkDeadlineUs :: u64
  k_stalledRounds :: u32
  k_resendOffset :: u32
  k_resendGuardUs :: u64
  k_settleUntilUs :: u64
  k_statusTries :: u32
  k_ackTries :: u32
  k_previousKnown :: bool
  k_previousBuildEpoch :: u32
  k_world :: 'w

definition NO_SLOT :: u8 where "NO_SLOT = of_nat OTA_SLOT_COUNT"

definition OtaConsumer_init :: "consumer_config \<Rightarrow> 'w \<Rightarrow> 'w consumer" where
  "OtaConsumer_init config w = \<lparr> k_config = config, k_sink = None, k_onChange = None, k_defaultBundlePath = [], k_bundlePath = [],
     k_bundle = OtaBundle_init, k_bundleFileTime = 0, k_bundleFileSize = 0, k_nextBundleCheckUs = 0, k_board = OtaBoardStatus_init,
     k_progress = OtaProgress_init, k_phase = IDLE, k_verdict = V_NONE, k_lastError = [], k_session = 0, k_targetSlot = NO_SLOT,
     k_chunkData = 0, k_deadlineUs = 0, k_nextStatusUs = 0, k_nextChunkUs = 0, k_chunkDeadlineUs = 0, k_stalledRounds = 0,
     k_resendOffset = 0, k_resendGuardUs = 0, k_settleUntilUs = 0, k_statusTries = 0, k_ackTries = 0, k_previousKnown = False,
     k_previousBuildEpoch = 0, k_world = w \<rparr>"

definition setSink :: "'w sink option \<Rightarrow> 'w consumer \<Rightarrow> 'w consumer" where
  "setSink sink k = k\<lparr> k_sink := sink \<rparr>"

definition setOnChange :: "('w \<Rightarrow> 'w) option \<Rightarrow> 'w consumer \<Rightarrow> 'w consumer" where
  "setOnChange handler k = k\<lparr> k_onChange := handler \<rparr>"

definition setDefaultBundlePath :: "string \<Rightarrow> 'w consumer \<Rightarrow> 'w consumer" where
  "setDefaultBundlePath path k =
     (let k = k\<lparr> k_defaultBundlePath := path \<rparr> in if k_bundlePath k = [] then k\<lparr> k_bundlePath := path \<rparr> else k)"

definition busy_phase :: "ota_phase \<Rightarrow> bool" where
  "busy_phase p \<longleftrightarrow> p \<in> {QUERY, ERASING, TRANSFER, VERIFYING, REBOOTING, WAITING_BOARD, TESTING, REVERTING}"

definition OtaConsumer_busy :: "'w consumer \<Rightarrow> bool" where
  "OtaConsumer_busy k \<longleftrightarrow> busy_phase (k_phase k)"

definition build_of_board :: "board_status \<Rightarrow> string" where
  "build_of_board b = buildText (bs_buildEpoch b) @ (if bs_gitHash b = [] then [] else '' ('' @ bs_gitHash b @ '')'')"

definition verdictText :: "'w consumer \<Rightarrow> string" where
  "verdictText k =
     (let board = (if bs_seen (k_board k)
                   then build_of_board (k_board k) @ '' from slot '' @ slotLetter (bs_runningSlot (k_board k))
                   else ''an unknown firmware'') in
      case k_verdict k of
        V_NONE \<Rightarrow> []
      | V_CONFIRMED \<Rightarrow> ''update confirmed: the board runs '' @ board @ ''.''
      | V_ROLLED_BACK \<Rightarrow> ''rolled back: the new image did not prove itself, the board runs '' @ board @ '' again.''
      | V_REVERTED \<Rightarrow> ''reverted: the board runs '' @ board @ ''.''
      | V_FAILED \<Rightarrow> ''update failed: '' @ k_lastError k)"

definition boardRunsBundle :: "'w consumer \<Rightarrow> bool" where
  "boardRunsBundle k \<longleftrightarrow> bs_seen (k_board k) \<and> bs_buildEpoch (k_board k) = ob_buildEpoch (k_bundle k)"

definition boardRunsPrevious :: "'w consumer \<Rightarrow> bool" where
  "boardRunsPrevious k \<longleftrightarrow> bs_seen (k_board k) \<and> k_previousKnown k \<and> bs_buildEpoch (k_board k) = k_previousBuildEpoch k"


section \<open>Sending\<close>

definition notifyChange :: "'w consumer \<Rightarrow> 'w consumer" where
  "notifyChange k = (case k_onChange k of None \<Rightarrow> k | Some handler \<Rightarrow> k\<lparr> k_world := handler (k_world k) \<rparr>)"

definition enter :: "ota_phase \<Rightarrow> 'w consumer \<Rightarrow> 'w consumer" where
  "enter phase k = notifyChange (k\<lparr> k_phase := phase \<rparr>)"

definition fail :: "string \<Rightarrow> 'w consumer \<Rightarrow> 'w consumer" where
  "fail reason k = enter FAILED (k\<lparr> k_lastError := reason, k_verdict := V_FAILED \<rparr>)"

text \<open>A call of a sink that is set: the consumer after it and the reason when the message did not go out.\<close>

definition call_sink :: "'w sink \<Rightarrow> ground_message \<Rightarrow> 'w consumer \<Rightarrow> 'w consumer \<times> string option" where
  "call_sink sink m k = (let (w, r) = sink m (k_world k) in (k\<lparr> k_world := w \<rparr>, r))"

definition emit :: "ground_message \<Rightarrow> 'w consumer \<Rightarrow> 'w consumer \<times> bool" where
  "emit m k =
     (case k_sink k of
        None \<Rightarrow> (fail ''no route to the board'' k, False)
      | Some sink \<Rightarrow>
          (case call_sink sink m k of
             (k, None) \<Rightarrow> (k, True)
           | (k, Some reason) \<Rightarrow> (fail (if reason = [] then ''the board link went away'' else reason) k, False)))"

definition sendStatusRequest :: "'w consumer \<Rightarrow> 'w consumer \<times> bool" where
  "sendStatusRequest = emit (ToUpdater StatusRequest)"

definition sendReboot :: "'w consumer \<Rightarrow> 'w consumer \<times> bool" where
  "sendReboot = emit RebootCommand"

definition sendRevert :: "'w consumer \<Rightarrow> 'w consumer \<times> bool" where
  "sendRevert = emit (ToUpdater Revert)"

definition sendChunk :: "'w consumer \<Rightarrow> 'w consumer \<times> bool" where
  "sendChunk k =
     (case findOtaBundleImage (k_bundle k) (k_targetSlot k) of
        None \<Rightarrow> (fail ''the bundle lost the image it was sending'' k, False)
      | Some img \<Rightarrow>
          (let sent = pg_sentBytes (k_progress k); remaining = pg_totalBytes (k_progress k) - sent;
               len = min remaining (k_chunkData k);
               chunk = Chunk (k_session k) sent (take (unat len) (drop (unat sent) (bi_bytes img))) in
           case emit (ToUpdater chunk) k of
             (k, False) \<Rightarrow> (k, False)
           | (k, True) \<Rightarrow> (k\<lparr> k_progress := (k_progress k)\<lparr> pg_sentBytes := pg_sentBytes (k_progress k) + len \<rparr> \<rparr>, True)))"

lemma progress_kept [simp]:
  "k_progress (notifyChange k) = k_progress k" "k_progress (enter p k) = k_progress k" "k_progress (fail r k) = k_progress k"
  "k_chunkData (notifyChange k) = k_chunkData k" "k_chunkData (enter p k) = k_chunkData k" "k_chunkData (fail r k) = k_chunkData k"
  by (simp_all add: notifyChange_def enter_def fail_def split: option.split)

lemma emit_progress: "k_progress (fst (emit m k)) = k_progress k \<and> k_chunkData (fst (emit m k)) = k_chunkData k"
  by (auto simp: emit_def call_sink_def split: option.split prod.split)

lemma sendChunk_advances:
  assumes "sendChunk k = (k', True)"
  shows "k_chunkData k' = k_chunkData k"
    "k_progress k' = (k_progress k)\<lparr> pg_sentBytes := pg_sentBytes (k_progress k) +
       min (pg_totalBytes (k_progress k) - pg_sentBytes (k_progress k)) (k_chunkData k) \<rparr>"
  using assms emit_progress [where k = k]
  by (auto simp: sendChunk_def Let_def split: option.splits prod.splits bool.splits) (metis fst_conv)+

lemma unat_lt2p_32: "unat (t::u32) < 2 ^ 32"
  using unsigned_less [where w = t] by simp

lemma word_min_step:
  fixes s :: u32
  assumes "s < t" "c \<noteq> 0"
  shows "unat (s + min (t - s) c) = unat s + unat (min (t - s) c)" "unat (min (t - s) c) = min (unat t - unat s) (unat c)"
    "s < s + min (t - s) c" "s + min (t - s) c \<le> t"
proof -
  have st: "unat s < unat t" using assms(1) by (simp add: word_less_nat_alt)
  have ts: "unat (t - s) = unat t - unat s" using assms(1) by (simp add: unat_sub)
  show m: "unat (min (t - s) c) = min (unat t - unat s) (unat c)" using ts by (auto simp: min_def word_le_nat_alt)
  have "unat s + unat (min (t - s) c) \<le> unat t" using st m by auto
  then have b: "unat s + unat (min (t - s) c) < 2 ^ 32" using unat_lt2p_32 [of t] by simp
  then show a: "unat (s + min (t - s) c) = unat s + unat (min (t - s) c)" by (simp add: unat_word_ariths)
  have "0 < unat c" using assms(2) by (simp add: unat_gt_0)
  then show "s < s + min (t - s) c" "s + min (t - s) c \<le> t" using a m st by (auto simp: word_less_nat_alt word_le_nat_alt)
qed

lemma sendChunk_measure:
  assumes "(k', True) = sendChunk k" "pg_sentBytes (k_progress k) < pg_totalBytes (k_progress k)" "k_chunkData k \<noteq> 0"
  shows "unat (pg_totalBytes (k_progress k')) - unat (pg_sentBytes (k_progress k')) <
         unat (pg_totalBytes (k_progress k)) - unat (pg_sentBytes (k_progress k))"
  using sendChunk_advances [OF assms(1) [symmetric]] word_min_step(3) [OF assms(2,3)] assms(2)
  by (simp add: word_less_nat_alt diff_less_mono2)

text \<open>The sending loop. The last argument tells whether a chunk has gone out; the result also tells whether
  the loop was left by a failed send. \<open>pumpChunks\<close> enters it with a chunk size that is not zero and no
  send changes the size, so that its test here is the one made before the loop.\<close>

function chunk_loop :: "u64 \<Rightarrow> u32 \<Rightarrow> 'w consumer \<Rightarrow> bool \<Rightarrow> 'w consumer \<times> bool \<times> bool" where
  "chunk_loop nowUs windowBytes k sent =
     (if pg_sentBytes (k_progress k) < pg_totalBytes (k_progress k) \<and>
         pg_sentBytes (k_progress k) - pg_ackedBytes (k_progress k) < windowBytes \<and> k_nextChunkUs k \<le> nowUs \<and> k_chunkData k \<noteq> 0
      then (case sendChunk k of
              (k', False) \<Rightarrow> (k', sent, False)
            | (k', True) \<Rightarrow> chunk_loop nowUs windowBytes (k'\<lparr> k_nextChunkUs := nowUs + cf_chunkDelayUs (k_config k') \<rparr>) True)
      else (k, sent, True))"
  by pat_completeness auto
termination
  apply (relation "measure (\<lambda>(n, wb, k, b). unat (pg_totalBytes (k_progress k)) - unat (pg_sentBytes (k_progress k)))")
  by (simp_all add: sendChunk_measure)

declare chunk_loop.simps [simp del]

definition pumpChunks :: "u64 \<Rightarrow> 'w consumer \<Rightarrow> 'w consumer" where
  "pumpChunks nowUs k =
     (if k_phase k \<noteq> TRANSFER \<or> k_chunkData k = 0 then k
      else case chunk_loop nowUs (OTA_CHUNK_ACK_WINDOW * k_chunkData k) k False of
        (k, sent, False) \<Rightarrow> k
      | (k, sent, True) \<Rightarrow>
          if sent then k\<lparr> k_chunkDeadlineUs := nowUs + cf_chunkAckTimeoutMs (k_config k) * US_PER_MS \<rparr> else k)"


section \<open>The session\<close>

text \<open>\<^verbatim>\<open>uniform_int_distribution(1, UINT32_MAX)\<close> picks one of the values of that range; the random source says which.\<close>

definition drawSession :: "'w ota_env \<Rightarrow> 'w \<Rightarrow> u32 \<times> 'w" where
  "drawSession env w = (let (n, w') = e_draw env w in (of_nat (1 + n mod (2 ^ 32 - 1)), w'))"

definition openTransfer :: "'w ota_env \<Rightarrow> u64 \<Rightarrow> 'w consumer \<Rightarrow> 'w consumer" where
  "openTransfer env nowUs k =
     (let board = k_board k in
      if ucast (bs_mcu board) \<noteq> ob_mcuId (k_bundle k)
      then fail (''the bundle is built for mcu '' @ to_string (unat (ob_mcuId (k_bundle k))) @ '' and the board is mcu '' @
                 int_text (sint (bs_mcu board))) k
      else if bs_updaterBusy board then fail ''the board already has an update session open: reboot it and retry'' k
      else if OTA_SLOT_COUNT \<le> unat (bs_runningSlot board)
      then fail ''the board reports running from a slot this system does not have'' k
      else let k = k\<lparr> k_targetSlot := 1 - bs_runningSlot board \<rparr> in
        case findOtaBundleImage (k_bundle k) (k_targetSlot k) of
          None \<Rightarrow> fail (''the bundle holds no image for slot '' @ slotLetter (k_targetSlot k)) k
        | Some img \<Rightarrow>
            if bs_slotSize board \<noteq> 0 \<and> bs_slotSize board < bi_size img
            then fail (''the image is '' @ to_string (unat (bi_size img)) @ '' bytes and a slot holds '' @
                       to_string (unat (bs_slotSize board))) k
            else
              let k = k\<lparr> k_chunkData := (if bs_maxChunkData board = 0 then of_nat OTA_CHUNK_DATA_SIZE
                                          else min (of_nat OTA_CHUNK_DATA_SIZE) (bs_maxChunkData board)) \<rparr> in
              if k_chunkData k = 0 then fail ''the board accepts no chunk data at all'' k
              else
                let (nonce, w) = drawSession env (k_world k);
                    k = k\<lparr> k_previousKnown := True, k_previousBuildEpoch := bs_buildEpoch board, k_world := w, k_session := nonce,
                           k_progress := OtaProgress_init\<lparr> pg_totalBytes := bi_size img \<rparr>, k_stalledRounds := 0,
                           k_resendOffset := 0, k_resendGuardUs := 0,
                           k_deadlineUs := nowUs + cf_beginTimeoutMs (k_config k) * US_PER_MS \<rparr> in
                fst (emit (ToUpdater (Begin nonce (bi_size img) (bi_crc32 img))) (enter ERASING k)))"

definition running_state :: "board_status \<Rightarrow> u32" where
  "running_state b =
     (if unat (bs_runningSlot b) < OTA_SLOT_COUNT then si_state (bs_slots b ! unat (bs_runningSlot b))
      else slot_state_code SlotState_EMPTY)"

definition judgeReturn :: "u64 \<Rightarrow> 'w consumer \<Rightarrow> 'w consumer" where
  "judgeReturn nowUs k =
     (if boardRunsBundle k
      then if running_state (k_board k) = slot_state_code SlotState_TESTING
           then enter TESTING (k\<lparr> k_nextStatusUs := nowUs + cf_statusPeriodMs (k_config k) * US_PER_MS \<rparr>)
           else enter CONFIRMED (k\<lparr> k_verdict := V_CONFIRMED \<rparr>)
      else if boardRunsPrevious k then enter ROLLED_BACK (k\<lparr> k_verdict := V_ROLLED_BACK \<rparr>)
      else fail (''the board came back running '' @ build_of_board (k_board k) @
                 '', which is neither the bundle nor what it ran before'') k)"

text \<open>The snapshot of the board a status gives.\<close>

definition board_of :: "wire_status \<Rightarrow> u64 \<Rightarrow> board_status" where
  "board_of status nowUs =
     (let slots = map (\<lambda>slot. let s = ws_slots status ! slot in
                        \<lparr> si_state = wl_state s, si_buildEpoch = wl_build_epoch s, si_gitHash = wl_git_hash s \<rparr>) [0..<OTA_SLOT_COUNT];
          runningSlot = ucast (ws_running_slot status) :: u8;
          running = slots ! (if unat runningSlot < OTA_SLOT_COUNT then unat runningSlot else 0) in
      \<lparr> bs_seen = True, bs_seenAtUs = nowUs, bs_mcu = ws_mcu status, bs_runningSlot = runningSlot,
        bs_activeSlot = ucast (ws_active_slot status), bs_slots = slots, bs_updaterBusy = ws_updater_busy status,
        bs_buildEpoch = si_buildEpoch running, bs_gitHash = si_gitHash running, bs_slotSize = ws_slot_size status,
        bs_maxChunkData = ws_max_chunk_data status \<rparr>)"

definition onStatus :: "'w ota_env \<Rightarrow> wire_status \<Rightarrow> u64 \<Rightarrow> 'w consumer \<Rightarrow> 'w consumer" where
  "onStatus env status nowUs k =
     (if k_phase k \<in> {REBOOTING, WAITING_BOARD} \<and> nowUs < k_settleUntilUs k then k
      else let k = k\<lparr> k_board := board_of status nowUs \<rparr> in
        case k_phase k of
          QUERY \<Rightarrow> openTransfer env nowUs k
        | WAITING_BOARD \<Rightarrow> judgeReturn nowUs k
        | TESTING \<Rightarrow>
            if boardRunsBundle k
            then if running_state (k_board k) \<noteq> slot_state_code SlotState_TESTING
                 then enter CONFIRMED (k\<lparr> k_verdict := V_CONFIRMED \<rparr>) else notifyChange k
            else if boardRunsPrevious k then enter ROLLED_BACK (k\<lparr> k_verdict := V_ROLLED_BACK \<rparr>)
            else notifyChange k
        | _ \<Rightarrow> notifyChange k)"

definition onAck :: "u32 \<Rightarrow> u32 \<Rightarrow> u32 \<Rightarrow> u64 \<Rightarrow> 'w consumer \<Rightarrow> 'w consumer" where
  "onAck session op result nowUs k =
     (if op = op_code OtaOp_BEGIN
      then if k_phase k \<noteq> ERASING \<or> session \<noteq> k_session k then k
           else if result \<noteq> result_code OTA_OK then fail (otaResultText result) k
           else pumpChunks nowUs (enter TRANSFER (k\<lparr>
                  k_progress := (k_progress k)\<lparr> pg_sentBytes := 0, pg_ackedBytes := 0, pg_retries := 0 \<rparr>, k_nextChunkUs := nowUs,
                  k_chunkDeadlineUs := nowUs + cf_chunkAckTimeoutMs (k_config k) * US_PER_MS \<rparr>))
      else if op = op_code OtaOp_FINISH
      then if k_phase k \<noteq> VERIFYING \<or> session \<noteq> k_session k then k
           else if result \<noteq> result_code OTA_OK then fail (otaResultText result) k
           else fst (sendReboot (enter REBOOTING (k\<lparr> k_settleUntilUs := nowUs + cf_rebootSettleMs (k_config k) * US_PER_MS,
                  k_deadlineUs := nowUs + cf_boardReturnTimeoutMs (k_config k) * US_PER_MS \<rparr>)))
      else if op = op_code OtaOp_REVERT
      then if k_phase k \<noteq> REVERTING then k
           else if result \<noteq> result_code OTA_OK then fail (otaResultText result) k
           else enter IDLE (fst (sendReboot (k\<lparr> k_verdict := V_REVERTED,
                  k_settleUntilUs := nowUs + cf_rebootSettleMs (k_config k) * US_PER_MS,
                  k_deadlineUs := nowUs + cf_boardReturnTimeoutMs (k_config k) * US_PER_MS \<rparr>)))
      else k)"

text \<open>The four ways a chunk acknowledgement of this session is taken.\<close>

definition resume_at :: "u32 \<Rightarrow> u64 \<Rightarrow> 'w consumer \<Rightarrow> 'w consumer" where
  "resume_at next nowUs k = pumpChunks nowUs (enter TRANSFER (k\<lparr>
     k_progress := (k_progress k)\<lparr> pg_ackedBytes := next, pg_sentBytes := next \<rparr>, k_nextChunkUs := nowUs,
     k_chunkDeadlineUs := nowUs + cf_chunkAckTimeoutMs (k_config k) * US_PER_MS \<rparr>))"

definition resend_at :: "u32 \<Rightarrow> u64 \<Rightarrow> 'w consumer \<Rightarrow> 'w consumer" where
  "resend_at next nowUs k =
     (if next = k_resendOffset k \<and> nowUs < k_resendGuardUs k then k
      else if cf_maxRetries (k_config k) \<le> k_stalledRounds k
      then fail (''the board kept refusing chunks at '' @ to_string (unat (pg_ackedBytes (k_progress k))) @ '' of '' @
                 to_string (unat (pg_totalBytes (k_progress k))) @ '' bytes'') k
      else pumpChunks nowUs (notifyChange (k\<lparr>
             k_progress := (k_progress k)\<lparr> pg_retries := pg_retries (k_progress k) + 1, pg_sentBytes := pg_ackedBytes (k_progress k) \<rparr>,
             k_stalledRounds := k_stalledRounds k + 1, k_resendOffset := next,
             k_resendGuardUs := nowUs + cf_chunkAckTimeoutMs (k_config k) * US_PER_MS, k_nextChunkUs := nowUs,
             k_chunkDeadlineUs := nowUs + cf_chunkAckTimeoutMs (k_config k) * US_PER_MS \<rparr>)))"

definition advance_to :: "u32 \<Rightarrow> u64 \<Rightarrow> 'w consumer \<Rightarrow> 'w consumer" where
  "advance_to next nowUs k =
     (let k = k\<lparr> k_stalledRounds := 0,
            k_progress := (k_progress k)\<lparr> pg_ackedBytes := next, pg_sentBytes := max (pg_sentBytes (k_progress k)) next \<rparr>,
            k_chunkDeadlineUs := nowUs + cf_chunkAckTimeoutMs (k_config k) * US_PER_MS \<rparr> in
      if pg_totalBytes (k_progress k) \<le> pg_ackedBytes (k_progress k)
      then fst (emit (ToUpdater (Finish (k_session k))) (enter VERIFYING (k\<lparr>
             k_deadlineUs := nowUs + cf_finishTimeoutMs (k_config k) * US_PER_MS \<rparr>)))
      else if k_phase k = VERIFYING then pumpChunks nowUs (enter TRANSFER (k\<lparr> k_nextChunkUs := nowUs \<rparr>))
      else pumpChunks nowUs (notifyChange k))"

definition onChunkAck :: "u32 \<Rightarrow> u32 \<Rightarrow> u64 \<Rightarrow> 'w consumer \<Rightarrow> 'w consumer" where
  "onChunkAck session next nowUs k =
     (if session \<noteq> k_session k \<or> k_session k = 0 then k
      else if k_phase k \<noteq> TRANSFER \<and> k_phase k \<noteq> VERIFYING then k
      else if pg_totalBytes (k_progress k) < next then fail ''the board acknowledged more bytes than the image holds'' k
      else if next < pg_ackedBytes (k_progress k) then if k_phase k \<noteq> VERIFYING then k else resume_at next nowUs k
      else if next = pg_ackedBytes (k_progress k) \<and> pg_ackedBytes (k_progress k) \<noteq> pg_sentBytes (k_progress k)
      then resend_at next nowUs k
      else advance_to next nowUs k)"

fun OtaConsumer_onEnvelope :: "'w ota_env \<Rightarrow> board_message \<Rightarrow> u64 \<Rightarrow> 'w consumer \<Rightarrow> 'w consumer \<times> bool" where
  "OtaConsumer_onEnvelope env (OtaStatus status) nowUs k = (onStatus env status nowUs k, True)"
| "OtaConsumer_onEnvelope env (OtaAck session op result) nowUs k = (onAck session op result nowUs k, True)"
| "OtaConsumer_onEnvelope env (OtaChunkAck session next) nowUs k = (onChunkAck session next nowUs k, True)"
| "OtaConsumer_onEnvelope env OtherMessage nowUs k = (k, False)"


section \<open>Time\<close>

definition load_bundle :: "'w ota_env \<Rightarrow> string \<Rightarrow> 'w consumer \<Rightarrow> string + ota_bundle" where
  "load_bundle env path k = loadOtaBundle (e_parse env) (e_file env (k_world k)) (e_wire env) path"

definition refreshBundle :: "'w ota_env \<Rightarrow> u64 \<Rightarrow> 'w consumer \<Rightarrow> 'w consumer" where
  "refreshBundle env nowUs k =
     (if OtaConsumer_busy k \<or> nowUs < k_nextBundleCheckUs k then k
      else let k = k\<lparr> k_nextBundleCheckUs := nowUs + BUNDLE_CHECK_MS * US_PER_MS \<rparr>;
               path = (if k_bundlePath k = [] then k_defaultBundlePath k else k_bundlePath k) in
        if path = [] then k
        else case (e_written env (k_world k) path, e_size env (k_world k) path) of
          (Some written, Some n) \<Rightarrow>
            if OtaBundle_loaded (k_bundle k) \<and> written = k_bundleFileTime k \<and> n = k_bundleFileSize k then k
            else (case load_bundle env path k of
                    Inl e \<Rightarrow> k
                  | Inr b \<Rightarrow> notifyChange (k\<lparr> k_bundle := b, k_bundleFileTime := written, k_bundleFileSize := n \<rparr>))
        | _ \<Rightarrow> if OtaBundle_loaded (k_bundle k) then notifyChange (k\<lparr> k_bundle := OtaBundle_init \<rparr>) else k)"

definition status_poll :: "u64 \<Rightarrow> 'w consumer \<Rightarrow> 'w consumer" where
  "status_poll nowUs k =
     (if k_nextStatusUs k \<le> nowUs
      then fst (sendStatusRequest (k\<lparr> k_nextStatusUs := nowUs + cf_statusPeriodMs (k_config k) * US_PER_MS \<rparr>)) else k)"

definition tick_transfer :: "u64 \<Rightarrow> 'w consumer \<Rightarrow> 'w consumer" where
  "tick_transfer nowUs k =
     (if k_chunkDeadlineUs k \<le> nowUs
      then if cf_maxRetries (k_config k) \<le> k_stalledRounds k
           then fail (''the board stopped acknowledging chunks at '' @ to_string (unat (pg_ackedBytes (k_progress k))) @ '' of '' @
                      to_string (unat (pg_totalBytes (k_progress k))) @ '' bytes'') k
           else pumpChunks nowUs (notifyChange (k\<lparr>
                  k_progress := (k_progress k)\<lparr> pg_retries := pg_retries (k_progress k) + 1, pg_sentBytes := pg_ackedBytes (k_progress k) \<rparr>,
                  k_stalledRounds := k_stalledRounds k + 1, k_nextChunkUs := nowUs,
                  k_chunkDeadlineUs := nowUs + cf_chunkAckTimeoutMs (k_config k) * US_PER_MS \<rparr>))
      else pumpChunks nowUs k)"

text \<open>The switch of \<^verbatim>\<open>tick\<close>.\<close>

definition tick_phase :: "u64 \<Rightarrow> 'w consumer \<Rightarrow> 'w consumer" where
  "tick_phase nowUs k =
     (case k_phase k of
        QUERY \<Rightarrow>
          if k_nextStatusUs k \<le> nowUs
          then if cf_statusTries (k_config k) \<le> k_statusTries k then fail ''the board did not answer a status request'' k
               else fst (sendStatusRequest (k\<lparr> k_statusTries := k_statusTries k + 1,
                      k_nextStatusUs := nowUs + cf_statusPeriodMs (k_config k) * US_PER_MS \<rparr>))
          else k
      | ERASING \<Rightarrow>
          if k_deadlineUs k \<le> nowUs then fail (''the board did not finish erasing slot '' @ slotLetter (k_targetSlot k) @ '' in time'') k else k
      | TRANSFER \<Rightarrow> tick_transfer nowUs k
      | VERIFYING \<Rightarrow> if k_deadlineUs k \<le> nowUs then fail ''the board did not answer the end of the transfer'' k else k
      | REBOOTING \<Rightarrow> if k_settleUntilUs k \<le> nowUs then enter WAITING_BOARD (k\<lparr> k_nextStatusUs := nowUs \<rparr>) else k
      | WAITING_BOARD \<Rightarrow>
          if k_deadlineUs k \<le> nowUs then fail ''the board did not come back after the reboot'' k else status_poll nowUs k
      | TESTING \<Rightarrow> status_poll nowUs k
      | REVERTING \<Rightarrow>
          if k_deadlineUs k \<le> nowUs
          then if cf_maxAckTries (k_config k) \<le> k_ackTries k then fail ''the board did not acknowledge the revert'' k
               else fst (sendRevert (k\<lparr> k_ackTries := k_ackTries k + 1,
                      k_deadlineUs := nowUs + cf_ackTimeoutMs (k_config k) * US_PER_MS \<rparr>))
          else k
      | _ \<Rightarrow> k)"

definition OtaConsumer_tick :: "'w ota_env \<Rightarrow> u64 \<Rightarrow> 'w consumer \<Rightarrow> 'w consumer" where
  "OtaConsumer_tick env nowUs k = tick_phase nowUs (refreshBundle env nowUs k)"


section \<open>Requests of the operator\<close>

text \<open>Each returns the consumer and the reason when it refuses. \<^verbatim>\<open>file_time_type::min()\<close> and the largest
  \<^verbatim>\<open>uintmax_t\<close> are what the file system library returns on an error.\<close>

definition FILE_TIME_MIN :: int where "FILE_TIME_MIN = - (2 ^ 63)"

definition sent_or_reason :: "'w consumer \<times> bool \<Rightarrow> 'w consumer \<times> string option" where
  "sent_or_reason r = (case r of (k, ok) \<Rightarrow> (k, if ok then None else Some (k_lastError k)))"

definition OtaConsumer_start :: "'w ota_env \<Rightarrow> string \<Rightarrow> u64 \<Rightarrow> 'w consumer \<Rightarrow> 'w consumer \<times> string option" where
  "OtaConsumer_start env bundlePath nowUs k =
     (if OtaConsumer_busy k then (k, Some ''an update is already running'')
      else if k_sink k = None then (k, Some ''no route to the board'')
      else let path = (if bundlePath = [] then k_defaultBundlePath k else bundlePath); k = k\<lparr> k_bundlePath := path \<rparr> in
        case load_bundle env path k of
          Inl e \<Rightarrow> (enter FAILED (k\<lparr> k_bundle := OtaBundle_init, k_verdict := V_FAILED, k_lastError := e \<rparr>), Some e)
        | Inr b \<Rightarrow>
            sent_or_reason (sendStatusRequest (enter QUERY (k\<lparr> k_bundle := b,
              k_bundleFileTime := (case e_written env (k_world k) path of Some t \<Rightarrow> t | None \<Rightarrow> FILE_TIME_MIN),
              k_bundleFileSize := (case e_size env (k_world k) path of Some n \<Rightarrow> n | None \<Rightarrow> - 1),
              k_lastError := [], k_verdict := V_NONE, k_progress := OtaProgress_init, k_targetSlot := NO_SLOT, k_session := 0,
              k_chunkData := 0, k_previousKnown := False, k_previousBuildEpoch := 0, k_ackTries := 0, k_statusTries := 1,
              k_nextStatusUs := nowUs + cf_statusPeriodMs (k_config k) * US_PER_MS \<rparr>))))"

definition OtaConsumer_abortSession :: "'w consumer \<Rightarrow> 'w consumer \<times> string option" where
  "OtaConsumer_abortSession k =
     (if \<not> OtaConsumer_busy k then (k, Some ''no update to abort'')
      else let k = (if k_phase k \<in> {ERASING, TRANSFER, VERIFYING}
                    then (case k_sink k of None \<Rightarrow> k | Some sink \<Rightarrow> fst (call_sink sink (ToUpdater (Abort (k_session k))) k)) else k) in
        (enter IDLE (k\<lparr> k_progress := OtaProgress_init, k_targetSlot := NO_SLOT, k_session := 0, k_verdict := V_NONE,
                        k_lastError := ''aborted by the operator'' \<rparr>), None))"

definition OtaConsumer_revert :: "u64 \<Rightarrow> 'w consumer \<Rightarrow> 'w consumer \<times> string option" where
  "OtaConsumer_revert nowUs k =
     (if OtaConsumer_busy k \<and> k_phase k \<noteq> TESTING then (k, Some ''an update is running: abort it first'')
      else if k_sink k = None then (k, Some ''no route to the board'')
      else sent_or_reason (sendRevert (enter REVERTING (k\<lparr> k_lastError := [], k_verdict := V_NONE, k_ackTries := 1,
             k_deadlineUs := nowUs + cf_ackTimeoutMs (k_config k) * US_PER_MS \<rparr>))))"

definition OtaConsumer_requestBoardStatus :: "'w consumer \<Rightarrow> 'w consumer \<times> string option" where
  "OtaConsumer_requestBoardStatus k =
     (case k_sink k of
        None \<Rightarrow> (k, Some ''no route to the board'')
      | Some sink \<Rightarrow>
          (case call_sink sink (ToUpdater StatusRequest) k of
             (k, None) \<Rightarrow> (k, None)
           | (k, Some reason) \<Rightarrow> (k, Some (if reason = [] then ''the board is not reachable'' else reason))))"


section \<open>Runs\<close>

datatype consumer_event = Start string u64 | AbortSession | RevertSlot u64 | AskStatus | Incoming board_message u64 | ClientTick u64

fun consumer_step :: "'w ota_env \<Rightarrow> consumer_event \<Rightarrow> 'w consumer \<Rightarrow> 'w consumer" where
  "consumer_step env (Start path now) k = fst (OtaConsumer_start env path now k)"
| "consumer_step env AbortSession k = fst (OtaConsumer_abortSession k)"
| "consumer_step env (RevertSlot now) k = fst (OtaConsumer_revert now k)"
| "consumer_step env AskStatus k = fst (OtaConsumer_requestBoardStatus k)"
| "consumer_step env (Incoming m now) k = fst (OtaConsumer_onEnvelope env m now k)"
| "consumer_step env (ClientTick now) k = OtaConsumer_tick env now k"

definition consumer_run :: "'w ota_env \<Rightarrow> consumer_event list \<Rightarrow> 'w consumer \<Rightarrow> 'w consumer" where
  "consumer_run env = fold (consumer_step env)"

end
