(* ===== verification/Consumer_Correct.thy ===== *)
theory Consumer_Correct
  imports Ota_Consumer Updater_Correct
begin

text \<open>
  What the ground side of an update guarantees. The state invariant \<open>consumer_ok\<close> keeps the offsets of
  the transfer inside the image and inside the window. The abstract sender \<open>sends\<close> is the language of
  the messages a correct sender may emit; every run of the consumer, over any route, refines it. With
  the board of theory \<open>Updater_Correct\<close> behind any link this gives the end-to-end statement: what is
  staged is the image of the bundle. The last part bounds the retries and judges the verdicts.
\<close>


section \<open>What sending leaves alone\<close>

text \<open>Two consumers that differ in the world, the phase, the verdict and the reason at most.\<close>

definition same_session :: "'w consumer \<Rightarrow> 'w consumer \<Rightarrow> bool" where
  "same_session k k' \<longleftrightarrow>
     k'\<lparr> k_world := k_world k, k_phase := k_phase k, k_verdict := k_verdict k, k_lastError := k_lastError k \<rparr> = k"

lemma same_sessionD:
  assumes "same_session k k'"
  shows "k_config k' = k_config k" "k_sink k' = k_sink k" "k_onChange k' = k_onChange k" "k_bundle k' = k_bundle k" "k_board k' = k_board k"
    "k_progress k' = k_progress k" "k_session k' = k_session k" "k_targetSlot k' = k_targetSlot k" "k_chunkData k' = k_chunkData k"
    "k_deadlineUs k' = k_deadlineUs k" "k_nextStatusUs k' = k_nextStatusUs k" "k_nextChunkUs k' = k_nextChunkUs k"
    "k_chunkDeadlineUs k' = k_chunkDeadlineUs k" "k_stalledRounds k' = k_stalledRounds k" "k_settleUntilUs k' = k_settleUntilUs k"
    "k_statusTries k' = k_statusTries k" "k_ackTries k' = k_ackTries k" "k_previousKnown k' = k_previousKnown k"
    "k_previousBuildEpoch k' = k_previousBuildEpoch k" "k_resendOffset k' = k_resendOffset k" "k_resendGuardUs k' = k_resendGuardUs k"
    "k_bundlePath k' = k_bundlePath k" "k_defaultBundlePath k' = k_defaultBundlePath k"
  using assms by (cases k; cases k'; simp add: same_session_def)+

lemma same_session_world [simp]: "same_session k (k\<lparr> k_world := w \<rparr>)"
  by (cases k) (simp add: same_session_def)

lemma same_session_trans: "same_session k1 k2 \<Longrightarrow> same_session k2 k3 \<Longrightarrow> same_session k1 k3"
  by (cases k1; cases k2; cases k3) (simp add: same_session_def)

lemma notifyChange_fields [simp]:
  "same_session k (notifyChange k)" "k_phase (notifyChange k) = k_phase k" "k_verdict (notifyChange k) = k_verdict k"
  "k_lastError (notifyChange k) = k_lastError k"
  by (simp_all add: notifyChange_def split: option.split) (simp add: same_session_def)

lemma enter_fields [simp]:
  "same_session k (enter p k)" "k_phase (enter p k) = p" "k_verdict (enter p k) = k_verdict k" "k_lastError (enter p k) = k_lastError k"
  by (simp_all add: enter_def) (cases k; simp add: notifyChange_def same_session_def split: option.split)

lemma fail_fields [simp]:
  "same_session k (fail r k)" "k_phase (fail r k) = FAILED" "k_verdict (fail r k) = V_FAILED" "k_lastError (fail r k) = r"
  by (simp_all add: fail_def) (cases k; simp add: enter_def notifyChange_def same_session_def split: option.split)

lemmas kept [simp] = same_sessionD [OF notifyChange_fields(1)] same_sessionD [OF enter_fields(1)] same_sessionD [OF fail_fields(1)]


section \<open>The route to the board\<close>

text \<open>A piece of an image a chunk may carry, and the messages that do not belong to a transfer.\<close>

definition piece :: "bytes \<Rightarrow> u32 \<Rightarrow> bytes \<Rightarrow> bool" where
  "piece img off d \<longleftrightarrow> 0 < length d \<and> length d \<le> OTA_CHUNK_DATA_SIZE \<and> unat off + length d \<le> length img \<and>
     d = take (length d) (drop (unat off) img)"

fun quiet :: "ground_message \<Rightarrow> bool" where
  "quiet (ToUpdater (Begin s n crc)) = False"
| "quiet (ToUpdater (Chunk s off d)) = False"
| "quiet (ToUpdater (Finish s)) = False"
| "quiet (ToUpdater r) = True"
| "quiet RebootCommand = True"

text \<open>The image of a bundle for the board that a status describes: the chip is the one the bundle is built
  for, and the image is that of the slot the board does not run from.\<close>

definition picked :: "wire_status \<Rightarrow> ota_bundle \<Rightarrow> bundle_image \<Rightarrow> bool" where
  "picked status b img \<longleftrightarrow> ucast (ws_mcu status) = ob_mcuId b \<and> unat (ucast (ws_running_slot status) :: u8) < OTA_SLOT_COUNT \<and>
     findOtaBundleImage b (1 - ucast (ws_running_slot status)) = Some img"

definition bundle_ok :: "ota_bundle \<Rightarrow> bool" where
  "bundle_ok b \<longleftrightarrow> list_all (image_consistent (ob_mcuId b)) (ob_images b)"

text \<open>A consumer talks to its world through its sink, its observer and the draw of a nonce. An
  observation \<open>I\<close> of the world follows the transfer when each of them keeps it: a begin opens the
  transfer of one image, chunks are pieces of that image, a finish closes it. The image is picked from
  a bundle that was loaded in a world the run has reached, for a status it has heard.\<close>

locale tracked_route =
  fixes env :: "'w ota_env" and sink :: "'w sink" and obs :: "'w \<Rightarrow> 'w" and I :: "'w \<Rightarrow> (u32 \<times> bytes) option \<Rightarrow> bool"
    and reached :: "'w \<Rightarrow> bool" and source :: "ota_bundle \<Rightarrow> bool" and heard :: "wire_status \<Rightarrow> bool"
  assumes source_init: "source OtaBundle_init"
    and source_load: "reached (k_world k) \<Longrightarrow> load_bundle env path k = Inr b \<Longrightarrow> source b"
    and quiet_kept: "I w c \<Longrightarrow> quiet m \<Longrightarrow> I (fst (sink m w)) c"
    and begin_opens: "I w c \<Longrightarrow> s \<noteq> 0 \<Longrightarrow> bundle_ok b \<Longrightarrow> source b \<Longrightarrow> heard status \<Longrightarrow> picked status b i \<Longrightarrow>
      I (fst (sink (ToUpdater (Begin s (bi_size i) (bi_crc32 i))) w)) (Some (s, bi_bytes i))"
    and chunk_kept: "I w (Some (s, img)) \<Longrightarrow> piece img off d \<Longrightarrow> I (fst (sink (ToUpdater (Chunk s off d)) w)) (Some (s, img))"
    and finish_kept: "I w (Some (s, img)) \<Longrightarrow> I (fst (sink (ToUpdater (Finish s)) w)) (Some (s, img))"
    and obs_kept: "I w c \<Longrightarrow> I (obs w) c"
    and draw_kept: "I w c \<Longrightarrow> I (snd (e_draw env w)) c"

lemma draw_nonce: "fst (drawSession env w) \<noteq> 0"
proof -
  obtain n w' where d: "e_draw env w = (n, w')" by fastforce
  have "unat (of_nat (1 + n mod (2 ^ 32 - 1)) :: u32) = 1 + n mod (2 ^ 32 - 1)"
    using mod_less_divisor [of "2 ^ 32 - 1" n] by (intro unat_of_nat_small) simp
  then show ?thesis by (auto simp: drawSession_def d)
qed

definition sending :: "ota_phase \<Rightarrow> bool" where
  "sending p \<longleftrightarrow> p \<in> {ERASING, TRANSFER, VERIFYING}"

text \<open>The offsets of the transfer of one image: inside the image and at most one chunk past the window.\<close>

definition offsets_ok :: "'w consumer \<Rightarrow> bundle_image \<Rightarrow> bool" where
  "offsets_ok k img \<longleftrightarrow> findOtaBundleImage (k_bundle k) (k_targetSlot k) = Some img \<and> pg_totalBytes (k_progress k) = bi_size img \<and>
     0 < k_chunkData k \<and> unat (k_chunkData k) \<le> OTA_CHUNK_DATA_SIZE \<and> pg_ackedBytes (k_progress k) \<le> pg_sentBytes (k_progress k) \<and>
     pg_sentBytes (k_progress k) \<le> pg_totalBytes (k_progress k) \<and>
     unat (pg_sentBytes (k_progress k)) - unat (pg_ackedBytes (k_progress k)) < 17 * unat (k_chunkData k) \<and> k_session k \<noteq> 0"

definition consumer_ok :: "'w consumer \<Rightarrow> bool" where
  "consumer_ok k \<longleftrightarrow> bundle_ok (k_bundle k) \<and>
     (sending (k_phase k) \<longrightarrow> (\<exists>img. offsets_ok k img))"

lemma offsets_same: "same_session k k' \<Longrightarrow> offsets_ok k' img \<longleftrightarrow> offsets_ok k img"
  by (simp add: offsets_ok_def same_sessionD)

lemma bundle_image:
  assumes "bundle_ok b" "findOtaBundleImage b slot = Some img"
  shows "length (bi_bytes img) = unat (bi_size img)" "crc32Mpeg2 (bi_bytes img) = bi_crc32 img" "0 < unat (bi_size img)"
    "of_nat (length (bi_bytes img)) = bi_size img" "length (bi_bytes img) < 2 ^ 32"
proof -
  have "ob_images b \<noteq> []" "img = ob_images b ! min (unat slot) (length (ob_images b) - 1)"
    using assms(2) by (auto simp: findOtaBundleImage_def split: if_splits)
  then have "img \<in> set (ob_images b)" by (simp add: min.strict_coboundedI2)
  then have c: "image_consistent (ob_mcuId b) img" using assms(1) by (simp add: bundle_ok_def list_all_iff)
  then show l: "length (bi_bytes img) = unat (bi_size img)" "crc32Mpeg2 (bi_bytes img) = bi_crc32 img" by (simp_all add: image_consistent_def)
  have "bi_bytes img \<noteq> []" using c by (auto simp: image_consistent_def Let_def split: if_splits)
  then show "0 < unat (bi_size img)" unfolding l(1) [symmetric] by simp
  show "of_nat (length (bi_bytes img)) = bi_size img" "length (bi_bytes img) < 2 ^ 32"
    using l(1) unat_lt2p_32 [of "bi_size img"] by simp_all
qed

lemma loaded_consistent: "loadOtaBundle parse read_file wire path = Inr b \<Longrightarrow> bundle_ok b"
  by (simp add: load_bundle_iff bundle_ok_def)


section \<open>Every run keeps the offsets and the trace\<close>

lemma bundle_ok_init: "bundle_ok OtaBundle_init"
  by (simp add: bundle_ok_def OtaBundle_init_def)

lemma load_ok: "load_bundle env path k = Inr b \<Longrightarrow> bundle_ok b"
  by (auto simp: load_bundle_def intro: loaded_consistent)

lemma fst_sent_or_reason [simp]: "fst (sent_or_reason r) = fst r"
  by (simp add: sent_or_reason_def split: prod.split)

context tracked_route
begin

definition live :: "'w consumer \<Rightarrow> (u32 \<times> bytes) option \<Rightarrow> bool" where
  "live k c \<longleftrightarrow> (k_sink k = None \<or> k_sink k = Some sink) \<and> (k_onChange k = None \<or> k_onChange k = Some obs) \<and> bundle_ok (k_bundle k) \<and> source (k_bundle k) \<and> I (k_world k) c"

definition tracked :: "'w consumer \<Rightarrow> bool" where
  "tracked k \<longleftrightarrow> (\<exists>c. live k c \<and> (sending (k_phase k) \<longrightarrow> (\<exists>img. offsets_ok k img \<and> c = Some (k_session k, bi_bytes img))))"

lemma live_cong:
  "k_sink k' = k_sink k \<Longrightarrow> k_onChange k' = k_onChange k \<Longrightarrow> k_bundle k' = k_bundle k \<Longrightarrow> k_world k' = k_world k \<Longrightarrow> live k' c = live k c"
  by (simp add: live_def)

lemma notify_live [simp]: "live k c \<Longrightarrow> live (notifyChange k) c"
  by (auto simp: live_def notifyChange_def intro: obs_kept split: option.split)

lemma enter_live [simp]: "live k c \<Longrightarrow> live (enter p k) c"
  unfolding enter_def by (rule notify_live) (simp add: live_def)

lemma fail_live [simp]: "live k c \<Longrightarrow> live (fail r k) c"
  unfolding fail_def by (rule enter_live) (simp add: live_def)

lemma emit_live:
  assumes "live k c" "\<And>w. I w c \<Longrightarrow> I (fst (sink m w)) c'"
  obtains (sent) w where "emit m k = (k\<lparr> k_world := w \<rparr>, True)" "live (k\<lparr> k_world := w \<rparr>) c'"
    | (lost) k' c'' where "emit m k = (k', False)" "live k' c''" "same_session k k'" "k_phase k' = FAILED" "k_verdict k' = V_FAILED"
proof (cases "k_sink k")
  case None
  then show thesis using assms(1) by (intro lost [of "fail ''no route to the board'' k" c]) (simp_all add: emit_def)
next
  case (Some s)
  then have s: "s = sink" using assms(1) by (auto simp: live_def)
  obtain w r where w: "sink m (k_world k) = (w, r)" by fastforce
  have l: "live (k\<lparr> k_world := w \<rparr>) c'" using assms w by (force simp: live_def)
  show thesis
  proof (cases r)
    case None
    then show thesis using Some s w l by (intro sent) (simp_all add: emit_def call_sink_def)
  next
    case r: (Some reason)
    let ?k = "fail (if reason = [] then ''the board link went away'' else reason) (k\<lparr> k_world := w \<rparr>)"
    have "emit m k = (?k, False)" using Some s w r by (simp add: emit_def call_sink_def)
    moreover have "same_session k ?k" by (rule same_session_trans [OF same_session_world fail_fields(1)])
    ultimately show thesis using l by (intro lost [of ?k c']) simp_all
  qed
qed


lemma chunk_sent:
  assumes "live k (Some (k_session k, bi_bytes img))" "offsets_ok k img" "pg_sentBytes (k_progress k) < pg_totalBytes (k_progress k)"
    "pg_sentBytes (k_progress k) - pg_ackedBytes (k_progress k) < OTA_CHUNK_ACK_WINDOW * k_chunkData k"
  obtains (sent) k' where "sendChunk k = (k', True)" "live k' (Some (k_session k', bi_bytes img))" "offsets_ok k' img" "k_phase k' = k_phase k"
    | (lost) k' c where "sendChunk k = (k', False)" "live k' c" "k_phase k' = FAILED"
proof -
  let ?p = "k_progress k" let ?s = "pg_sentBytes ?p" let ?len = "min (pg_totalBytes ?p - ?s) (k_chunkData k)"
  let ?d = "take (unat ?len) (drop (unat ?s) (bi_bytes img))"
  have o: "findOtaBundleImage (k_bundle k) (k_targetSlot k) = Some img" "pg_totalBytes ?p = bi_size img" "0 < k_chunkData k"
    "unat (k_chunkData k) \<le> OTA_CHUNK_DATA_SIZE" "pg_ackedBytes ?p \<le> ?s" "k_session k \<noteq> 0" using assms(2) by (simp_all add: offsets_ok_def)
  have bok: "bundle_ok (k_bundle k)" using assms(1) by (simp add: live_def)
  note b = bundle_image [OF bok o(1)]
  note w = word_min_step [OF assms(3), of "k_chunkData k"]
  have cd: "k_chunkData k \<noteq> 0" using o(3) by auto
  have len: "unat ?len = min (unat (bi_size img) - unat ?s) (unat (k_chunkData k))" using w(2) [OF cd] o(2) by simp
  have st: "unat ?s < unat (bi_size img)" using assms(3) o(2) by (simp add: word_less_nat_alt)
  have "0 < unat (k_chunkData k)" using o(3) by (simp add: word_less_nat_alt)
  then have "piece (bi_bytes img) ?s ?d" using len st b(1) o(4) by (auto simp: piece_def)
  note step = chunk_kept [OF _ this]
  have win: "unat ?s - unat (pg_ackedBytes ?p) < 16 * unat (k_chunkData k)"
  proof -
    have "unat (OTA_CHUNK_ACK_WINDOW * k_chunkData k) = 16 * unat (k_chunkData k)"
      using o(4) by (simp add: OTA_CHUNK_ACK_WINDOW_def unat_word_ariths OTA_CHUNK_DATA_SIZE_def)
    then show ?thesis using assms(4) unat_sub [OF o(5)] by (simp add: word_less_nat_alt)
  qed
  consider (sent) w' where "emit (ToUpdater (Chunk (k_session k) ?s ?d)) k = (k\<lparr> k_world := w' \<rparr>, True)"
      "live (k\<lparr> k_world := w' \<rparr>) (Some (k_session k, bi_bytes img))"
    | (lost) k' c'' where "emit (ToUpdater (Chunk (k_session k) ?s ?d)) k = (k', False)" "live k' c''" "k_phase k' = FAILED"
    by (rule emit_live [OF assms(1) step])
  then show thesis
  proof cases
    case (sent w')
    let ?k = "k\<lparr> k_world := w', k_progress := ?p\<lparr> pg_sentBytes := ?s + ?len \<rparr> \<rparr>"
    have "sendChunk k = (?k, True)" using sent(1) o(1) by (simp add: sendChunk_def Let_def)
    moreover have "unat (?s + ?len) - unat (pg_ackedBytes ?p) < 17 * unat (k_chunkData k)"
      using win len o(5) unfolding w(1) [OF cd] word_le_nat_alt by linarith
    then have "offsets_ok ?k img"
      using assms(2) w(3,4) [OF cd] order_trans [OF o(5) less_imp_le [OF w(3) [OF cd]]] by (simp add: offsets_ok_def)
    moreover have "live ?k (Some (k_session ?k, bi_bytes img))" using sent(2) by (simp add: live_def)
    ultimately show thesis by (intro that(1) [of ?k]) simp_all
  next
    case (lost k' c'')
    then show thesis using o(1) by (intro that(2) [of k' c'']) (simp_all add: sendChunk_def Let_def)
  qed
qed

lemma loop_live:
  assumes "live k (Some (k_session k, bi_bytes img))" "offsets_ok k img" "chunk_loop nowUs (OTA_CHUNK_ACK_WINDOW * k_chunkData k) k b = (k', b', fin)"
  shows "if fin then live k' (Some (k_session k', bi_bytes img)) \<and> offsets_ok k' img \<and> k_phase k' = k_phase k
    else k_phase k' = FAILED \<and> (\<exists>c. live k' c)"
  using assms
proof (induction nowUs "OTA_CHUNK_ACK_WINDOW * k_chunkData k" k b rule: chunk_loop.induct)
  case (1 nowUs k b)
  show ?case
  proof (cases "pg_sentBytes (k_progress k) < pg_totalBytes (k_progress k) \<and>
         pg_sentBytes (k_progress k) - pg_ackedBytes (k_progress k) < OTA_CHUNK_ACK_WINDOW * k_chunkData k \<and> k_nextChunkUs k \<le> nowUs \<and> k_chunkData k \<noteq> 0")
    case True
    consider (sent) k1 where "sendChunk k = (k1, True)" "live k1 (Some (k_session k1, bi_bytes img))" "offsets_ok k1 img" "k_phase k1 = k_phase k"
      | (lost) k1 c where "sendChunk k = (k1, False)" "live k1 c" "k_phase k1 = FAILED"
      using chunk_sent [OF "1.prems"(1,2)] True by blast
    then show ?thesis
    proof cases
      case (sent k1)
      let ?k = "k1\<lparr> k_nextChunkUs := nowUs + cf_chunkDelayUs (k_config k1) \<rparr>"
      have cd: "k_chunkData ?k = k_chunkData k" using sendChunk_advances(1) [OF sent(1)] by simp
      have r: "chunk_loop nowUs (OTA_CHUNK_ACK_WINDOW * k_chunkData ?k) ?k True = (k', b', fin)"
        using "1.prems"(3) True sent(1) cd by (simp add: chunk_loop.simps [of _ _ k])
      have "live ?k (Some (k_session ?k, bi_bytes img))" "offsets_ok ?k img" using sent(2,3) by (auto simp: live_def offsets_ok_def)
      from "1.hyps" [OF True sent(1) [symmetric] refl _ this r] cd show ?thesis using sent(4) by simp
    next
      case (lost k1 c)
      then show ?thesis using "1.prems"(3) True by (auto simp: chunk_loop.simps [of _ _ k])
    qed
  next
    case False
    then show ?thesis using "1.prems" by (auto simp: chunk_loop.simps [of _ _ k])
  qed
qed

lemma pump_tracked:
  assumes "live k (Some (k_session k, bi_bytes img))" "offsets_ok k img"
  shows "tracked (pumpChunks nowUs k)"
proof (cases "k_phase k \<noteq> TRANSFER \<or> k_chunkData k = 0")
  case True
  then show ?thesis using assms by (auto simp: pumpChunks_def tracked_def)
next
  case False
  obtain k' b' fin where l: "chunk_loop nowUs (OTA_CHUNK_ACK_WINDOW * k_chunkData k) k False = (k', b', fin)" by (metis prod_cases3)
  show ?thesis using loop_live [OF assms l] False l
    by (auto simp: pumpChunks_def tracked_def live_def offsets_ok_def sending_def split: if_splits)
qed


lemma trackedI: "live k c \<Longrightarrow> \<not> sending (k_phase k) \<Longrightarrow> tracked k"
  by (auto simp: tracked_def)

lemma tracked_live: "tracked k \<Longrightarrow> \<exists>c. live k c"
  by (auto simp: tracked_def)

lemma tracked_sending:
  assumes "tracked k" "sending (k_phase k)"
  obtains img where "offsets_ok k img" "live k (Some (k_session k, bi_bytes img))"
  using assms by (auto simp: tracked_def)

lemma tracked_upd [simp]:
  "tracked (k\<lparr> k_lastError := e \<rparr>) = tracked k" "tracked (k\<lparr> k_verdict := v \<rparr>) = tracked k" "tracked (k\<lparr> k_nextBundleCheckUs := t \<rparr>) = tracked k"
  "tracked (k\<lparr> k_board := b \<rparr>) = tracked k" "tracked (k\<lparr> k_deadlineUs := t \<rparr>) = tracked k" "tracked (k\<lparr> k_nextStatusUs := t \<rparr>) = tracked k"
  "tracked (k\<lparr> k_nextChunkUs := t \<rparr>) = tracked k" "tracked (k\<lparr> k_chunkDeadlineUs := t \<rparr>) = tracked k" "tracked (k\<lparr> k_stalledRounds := n \<rparr>) = tracked k"
  "tracked (k\<lparr> k_settleUntilUs := t \<rparr>) = tracked k" "tracked (k\<lparr> k_statusTries := n \<rparr>) = tracked k" "tracked (k\<lparr> k_ackTries := n \<rparr>) = tracked k"
  "tracked (k\<lparr> k_bundlePath := q \<rparr>) = tracked k"
  by (simp_all add: tracked_def live_def offsets_ok_def)

lemma tracked_enter: "tracked k \<Longrightarrow> \<not> sending p \<Longrightarrow> tracked (enter p k)"
  using trackedI [OF enter_live, of k] by (auto dest: tracked_live)

lemma tracked_fail: "tracked k \<Longrightarrow> tracked (fail r k)"
  using trackedI [OF fail_live, of k] by (auto dest: tracked_live simp: sending_def)

lemma tracked_notify: "tracked k \<Longrightarrow> tracked (notifyChange k)"
  unfolding tracked_def using notify_live offsets_same [OF notifyChange_fields(1)] by fastforce

lemma emit_tracked:
  assumes "tracked k" "quiet m"
  shows "tracked (fst (emit m k))"
proof -
  obtain c where c: "live k c" "sending (k_phase k) \<longrightarrow> (\<exists>img. offsets_ok k img \<and> c = Some (k_session k, bi_bytes img))"
    using assms(1) by (auto simp: tracked_def)
  consider (sent) w where "emit m k = (k\<lparr> k_world := w \<rparr>, True)" "live (k\<lparr> k_world := w \<rparr>) c"
    | (lost) k' c'' where "emit m k = (k', False)" "live k' c''" "k_phase k' = FAILED"
    by (rule emit_live [OF c(1) quiet_kept [OF _ assms(2)]])
  then show ?thesis
  proof cases
    case sent
    then show ?thesis using c(2) by (auto simp: tracked_def offsets_ok_def)
  next
    case lost
    then show ?thesis by (auto intro: trackedI simp: sending_def)
  qed
qed

lemmas tracked_sends = emit_tracked [where m = "ToUpdater StatusRequest", simplified, folded sendStatusRequest_def]
  emit_tracked [where m = RebootCommand, simplified, folded sendReboot_def]
  emit_tracked [where m = "ToUpdater Revert", simplified, folded sendRevert_def]

lemma live_upd [simp]:
  "live (k\<lparr> k_progress := p \<rparr>) c = live k c" "live (k\<lparr> k_nextChunkUs := t \<rparr>) c = live k c" "live (k\<lparr> k_chunkDeadlineUs := t \<rparr>) c = live k c"
  "live (k\<lparr> k_stalledRounds := n \<rparr>) c = live k c" "live (k\<lparr> k_resendOffset := n \<rparr>) c = live k c" "live (k\<lparr> k_resendGuardUs := t \<rparr>) c = live k c"
  "live (k\<lparr> k_deadlineUs := t \<rparr>) c = live k c" "live (k\<lparr> k_targetSlot := b \<rparr>) c = live k c" "live (k\<lparr> k_chunkData := n \<rparr>) c = live k c"
  "live (k\<lparr> k_session := n \<rparr>) c = live k c" "live (k\<lparr> k_previousKnown := q \<rparr>) c = live k c" "live (k\<lparr> k_previousBuildEpoch := n \<rparr>) c = live k c"
  "live (k\<lparr> k_verdict := v \<rparr>) c = live k c" "live (k\<lparr> k_lastError := e \<rparr>) c = live k c" "live (k\<lparr> k_statusTries := n \<rparr>) c = live k c"
  "live (k\<lparr> k_ackTries := n \<rparr>) c = live k c" "live (k\<lparr> k_nextStatusUs := t \<rparr>) c = live k c" "live (k\<lparr> k_bundleFileTime := z \<rparr>) c = live k c"
  "live (k\<lparr> k_bundleFileSize := t \<rparr>) c = live k c" "live (k\<lparr> k_nextBundleCheckUs := t \<rparr>) c = live k c" "live (k\<lparr> k_bundlePath := e \<rparr>) c = live k c"
  by (simp_all add: live_def)

lemma tick_transfer_tracked:
  assumes "tracked k" "k_phase k = TRANSFER"
  shows "tracked (tick_transfer nowUs k)"
proof -
  obtain img where i: "offsets_ok k img" "live k (Some (k_session k, bi_bytes img))" using assms tracked_sending by (auto simp: sending_def)
  show ?thesis unfolding tick_transfer_def using tracked_fail [OF assms(1)] pump_tracked [OF i(2,1)]
    by (auto intro!: pump_tracked [where img = img] simp: i(2)) (use i(1) in \<open>auto simp: offsets_ok_def word_less_nat_alt\<close>)
qed

lemma resend_tracked:
  assumes "tracked k" "k_phase k \<in> {TRANSFER, VERIFYING}"
  shows "tracked (resend_at n nowUs k)"
proof -
  obtain img where i: "offsets_ok k img" "live k (Some (k_session k, bi_bytes img))" using assms tracked_sending by (auto simp: sending_def)
  show ?thesis unfolding resend_at_def using tracked_fail [OF assms(1)] assms(1)
    by (auto intro!: pump_tracked [where img = img] simp: i(2)) (use i(1) in \<open>auto simp: offsets_ok_def word_less_nat_alt\<close>)
qed

lemma resume_tracked:
  assumes "tracked k" "k_phase k = VERIFYING" "n \<le> pg_totalBytes (k_progress k)"
  shows "tracked (resume_at n nowUs k)"
proof -
  obtain img where i: "offsets_ok k img" "live k (Some (k_session k, bi_bytes img))" using assms tracked_sending by (auto simp: sending_def)
  show ?thesis unfolding resume_at_def
    by (auto intro!: pump_tracked [where img = img] simp: i(2)) (use i(1) assms(3) in \<open>auto simp: offsets_ok_def word_less_nat_alt\<close>)
qed


lemma finish_tracked:
  assumes "live k (Some (k_session k, bi_bytes img))" "offsets_ok k img"
  shows "tracked (fst (emit (ToUpdater (Finish (k_session k))) k))"
  by (rule emit_live [OF assms(1) finish_kept])
     (use assms(2) in \<open>auto simp: tracked_def offsets_ok_def sending_def\<close>)

lemma begin_tracked:
  assumes "live k c" "offsets_ok k img" "\<And>w. I w c \<Longrightarrow> I (fst (sink m w)) (Some (s, bi_bytes img))" "k_session k = s"
  shows "tracked (fst (emit m k))"
  by (rule emit_live [OF assms(1,3)]) (use assms(2,4) in \<open>auto simp: tracked_def offsets_ok_def sending_def\<close>)

lemma advance_tracked:
  assumes "tracked k" "k_phase k \<in> {TRANSFER, VERIFYING}" "n \<le> pg_totalBytes (k_progress k)" "pg_ackedBytes (k_progress k) \<le> n"
  shows "tracked (advance_to n nowUs k)"
proof -
  obtain img where i: "offsets_ok k img" "live k (Some (k_session k, bi_bytes img))" using assms tracked_sending by (auto simp: sending_def)
  define k1 where "k1 = k\<lparr> k_stalledRounds := 0,
    k_progress := (k_progress k)\<lparr> pg_ackedBytes := n, pg_sentBytes := max (pg_sentBytes (k_progress k)) n \<rparr>,
    k_chunkDeadlineUs := nowUs + cf_chunkAckTimeoutMs (k_config k) * US_PER_MS \<rparr>"
  have l: "live k1 (Some (k_session k1, bi_bytes img))" using i(2) by (simp add: k1_def)
  have o: "offsets_ok k1 img"
    using i(1) assms(3,4) by (auto simp: k1_def offsets_ok_def max_def word_less_nat_alt word_le_nat_alt)
  have "tracked (fst (emit (ToUpdater (Finish (k_session k1))) (enter VERIFYING (k1\<lparr> k_deadlineUs := t \<rparr>))))" for t
    using finish_tracked [of "enter VERIFYING (k1\<lparr> k_deadlineUs := t \<rparr>)" img] l o by (auto simp: offsets_ok_def)
  moreover have "tracked (pumpChunks nowUs (enter TRANSFER (k1\<lparr> k_nextChunkUs := nowUs \<rparr>)))" "tracked (pumpChunks nowUs (notifyChange k1))"
    using l o by (auto intro!: pump_tracked [where img = img] simp: offsets_ok_def)
  ultimately show ?thesis unfolding advance_to_def Let_def k1_def [symmetric] by simp
qed

lemma onChunkAck_tracked: "tracked k \<Longrightarrow> tracked (onChunkAck session n nowUs k)"
  unfolding onChunkAck_def
  by (auto simp: not_less intro: tracked_fail resume_tracked resend_tracked advance_tracked)

lemma onAck_tracked:
  assumes "tracked k"
  shows "tracked (onAck session op result nowUs k)"
proof -
  have first: "tracked (pumpChunks nowUs (enter TRANSFER (k\<lparr>
      k_progress := (k_progress k)\<lparr> pg_sentBytes := 0, pg_ackedBytes := 0, pg_retries := 0 \<rparr>, k_nextChunkUs := nowUs, k_chunkDeadlineUs := t \<rparr>)))"
    if "k_phase k = ERASING" for t
  proof -
    have "sending (k_phase k)" using that by (simp add: sending_def)
    then obtain img where i: "offsets_ok k img" "live k (Some (k_session k, bi_bytes img))" by (rule tracked_sending [OF assms])
    then show ?thesis by (auto intro!: pump_tracked [where img = img] simp: offsets_ok_def word_less_nat_alt)
  qed
  have "tracked (fst (sendReboot (enter REBOOTING (k\<lparr> k_settleUntilUs := t, k_deadlineUs := t' \<rparr>))))"
    "tracked (enter IDLE (fst (sendReboot (k\<lparr> k_verdict := V_REVERTED, k_settleUntilUs := t, k_deadlineUs := t' \<rparr>))))" for t t'
    using assms by (auto intro!: tracked_enter tracked_sends simp: sending_def)
  then show ?thesis using assms first by (auto simp: onAck_def intro: tracked_fail)
qed

lemma openTransfer_tracked:
  assumes "tracked k" "\<not> sending (k_phase k)" "k_board k = board_of status nowUs" "heard status"
  shows "tracked (openTransfer env nowUs k)"
proof -
  obtain c where c: "live k c" using tracked_live [OF assms(1)] by blast
  have f: "tracked (fail r k)" "tracked (fail r (k\<lparr> k_targetSlot := t \<rparr>))" "tracked (fail r (k\<lparr> k_targetSlot := t, k_chunkData := n \<rparr>))" for r t n
    using c by (auto intro!: trackedI [where c = c] simp: sending_def)
  have go: "tracked (fst (emit (ToUpdater (Begin nonce (bi_size img) (bi_crc32 img))) (enter ERASING (k\<lparr> k_targetSlot := t, k_chunkData := n,
      k_previousKnown := True, k_previousBuildEpoch := ep, k_world := w, k_session := nonce,
      k_progress := OtaProgress_init\<lparr> pg_totalBytes := bi_size img \<rparr>, k_stalledRounds := 0, k_resendOffset := 0, k_resendGuardUs := 0,
      k_deadlineUs := dl \<rparr>))))" (is "tracked (fst (emit ?m ?k))")
    if "findOtaBundleImage (k_bundle k) t = Some img" "drawSession env (k_world k) = (nonce, w)" "n \<noteq> 0" "unat n \<le> OTA_CHUNK_DATA_SIZE"
      "t = 1 - bs_runningSlot (k_board k)" "ucast (bs_mcu (k_board k)) = ob_mcuId (k_bundle k)" "unat (bs_runningSlot (k_board k)) < OTA_SLOT_COUNT"
    for img t nonce w n ep dl
  proof -
    have b: "bundle_ok (k_bundle k)" using c by (simp add: live_def)
    note bi = bundle_image [OF b that(1)]
    have l: "live ?k c" using c draw_kept [of "k_world k" c] that(2) by (intro enter_live) (auto simp: live_def drawSession_def split: prod.splits)
    have nz: "nonce \<noteq> 0" using draw_nonce [of env "k_world k"] that(2) by simp
    have o: "offsets_ok ?k img" using that(1,3,4) nz by (simp add: offsets_ok_def OtaProgress_init_def word_less_nat_alt unat_gt_0)
    have "picked status (k_bundle k) img" using that(1,5-7) assms(3) by (simp add: picked_def board_of_def Let_def)
    from begin_opens [OF _ nz b _ assms(4) this] c
    have "I (fst (sink ?m v)) (Some (nonce, bi_bytes img))" if "I v c" for v using that by (simp add: live_def)
    then show ?thesis by (rule begin_tracked [OF l o]) simp_all
  qed
  have cd: "unat (of_nat OTA_CHUNK_DATA_SIZE :: u32) \<le> OTA_CHUNK_DATA_SIZE" "unat (min (of_nat OTA_CHUNK_DATA_SIZE) m :: u32) \<le> OTA_CHUNK_DATA_SIZE" for m
    by (auto simp: OTA_CHUNK_DATA_SIZE_def min_def word_le_nat_alt)
  show ?thesis unfolding openTransfer_def Let_def
    by (auto intro!: f go cd split: option.split prod.split)
qed


lemma judge_tracked: "tracked k \<Longrightarrow> tracked (judgeReturn nowUs k)"
  by (auto simp: judgeReturn_def sending_def intro!: tracked_enter tracked_fail)

lemma onStatus_tracked:
  assumes "tracked k" "heard status"
  shows "tracked (onStatus env status nowUs k)"
proof -
  have b: "tracked (k\<lparr> k_board := b \<rparr>)" for b using assms(1) by simp
  show ?thesis unfolding onStatus_def Let_def
    using openTransfer_tracked [OF b, of "board_of status nowUs" status nowUs] judge_tracked [OF b] tracked_notify [OF b] assms
    by (auto simp: sending_def intro!: tracked_enter split: ota_phase.split)
qed

lemma onEnvelope_tracked:
  "tracked k \<Longrightarrow> (\<And>status. m = OtaStatus status \<Longrightarrow> heard status) \<Longrightarrow> tracked (fst (OtaConsumer_onEnvelope env m nowUs k))"
  by (cases m) (simp_all add: onStatus_tracked onAck_tracked onChunkAck_tracked)

lemma not_busy_not_sending: "\<not> OtaConsumer_busy k \<Longrightarrow> \<not> sending (k_phase k)"
  by (auto simp: OtaConsumer_busy_def busy_phase_def sending_def)

lemma load_here:
  assumes "reached (k_world k)" "load_bundle env path k' = Inr b" "k_world k' = k_world k"
  shows "bundle_ok b \<and> source b"
  using load_ok [OF assms(2)] source_load [of k' path b] assms by simp

lemma refresh_tracked:
  assumes "tracked k" "reached (k_world k)"
  shows "tracked (refreshBundle env nowUs k)"
proof (cases "OtaConsumer_busy k")
  case True
  then show ?thesis using assms by (simp add: refreshBundle_def)
next
  case False
  then have q: "\<not> sending (k_phase k)" by (rule not_busy_not_sending)
  obtain c where c: "live k c" using tracked_live [OF assms(1)] by blast
  have n: "tracked (notifyChange (k\<lparr> k_nextBundleCheckUs := t, k_bundle := b \<rparr>))"
    "tracked (notifyChange (k\<lparr> k_nextBundleCheckUs := t, k_bundle := b, k_bundleFileTime := ft, k_bundleFileSize := fs \<rparr>))" if "bundle_ok b" "source b" for b t ft fs
    using c q that by (auto intro!: tracked_notify trackedI [where c = c] simp: live_def)
  show ?thesis unfolding refreshBundle_def Let_def using assms n load_here [OF assms(2)] bundle_ok_init source_init by (auto split: option.split sum.split)
qed

lemma tick_tracked:
  assumes "tracked k" "reached (k_world k)"
  shows "tracked (OtaConsumer_tick env nowUs k)"
proof -
  have p: "tracked (status_poll nowUs k)" if "tracked k" for k :: "'w consumer"
    using that by (auto simp: status_poll_def intro!: tracked_sends)
  have "tracked (tick_phase nowUs k)" if "tracked k" for k :: "'w consumer"
    using that p by (auto simp: tick_phase_def sending_def intro!: tracked_fail tracked_sends tracked_enter tick_transfer_tracked split: ota_phase.split)
  then show ?thesis unfolding OtaConsumer_tick_def using refresh_tracked [OF assms] by blast
qed

lemma start_tracked:
  assumes "tracked k" "reached (k_world k)"
  shows "tracked (fst (OtaConsumer_start env path nowUs k))"
proof (cases "OtaConsumer_busy k")
  case True
  then show ?thesis using assms by (simp add: OtaConsumer_start_def)
next
  case False
  then have q: "\<not> sending (k_phase k)" by (rule not_busy_not_sending)
  obtain c where c: "live k c" using tracked_live [OF assms(1)] by blast
  have b: "live (k\<lparr> k_bundlePath := p, k_bundle := b \<rparr>) c" if "bundle_ok b" "source b" for p b using c that by (simp add: live_def)
  have "tracked (enter FAILED (k\<lparr> k_bundlePath := p, k_bundle := OtaBundle_init, k_verdict := V_FAILED, k_lastError := e \<rparr>))" for p e
    using b [OF bundle_ok_init source_init] by (intro trackedI [where c = c]) (simp_all add: sending_def)
  moreover have "tracked (enter QUERY (k\<lparr> k_bundlePath := p, k_bundle := b, k_bundleFileTime := ft, k_bundleFileSize := fs, k_lastError := [],
      k_verdict := V_NONE, k_progress := OtaProgress_init, k_targetSlot := NO_SLOT, k_session := 0, k_chunkData := 0, k_previousKnown := False,
      k_previousBuildEpoch := 0, k_ackTries := 0, k_statusTries := 1, k_nextStatusUs := t \<rparr>))" if "bundle_ok b" "source b" for p b ft fs t
    using b [OF that] by (intro trackedI [where c = c]) (simp_all add: sending_def)
  ultimately show ?thesis
    using assms load_here [OF assms(2)] unfolding OtaConsumer_start_def Let_def by (auto intro!: tracked_sends split: sum.split)
qed

lemma call_sink_tracked:
  assumes "tracked k" "k_sink k = Some f" "quiet m"
  shows "tracked (fst (call_sink f m k))"
proof -
  have "f = sink" using tracked_live [OF assms(1)] assms(2) by (auto simp: live_def)
  then show ?thesis using assms(1) quiet_kept [OF _ assms(3)]
    by (fastforce simp: tracked_def live_def offsets_ok_def call_sink_def split_beta)
qed

lemma abort_tracked: "tracked k \<Longrightarrow> tracked (fst (OtaConsumer_abortSession k))"
proof -
  assume k: "tracked k"
  have idle: "tracked (enter IDLE (k'\<lparr> k_progress := OtaProgress_init, k_targetSlot := NO_SLOT, k_session := 0, k_verdict := V_NONE, k_lastError := e \<rparr>))"
    if k': "tracked k'" for k' e
  proof -
    obtain c where "live k' c" using tracked_live [OF k'] by blast
    then show ?thesis by (intro trackedI [where c = c]) (simp_all add: sending_def)
  qed
  show ?thesis unfolding OtaConsumer_abortSession_def Let_def
    using k call_sink_tracked [OF k, of _ "ToUpdater (Abort (k_session k))"] by (auto intro!: idle split: option.split)
qed

lemma revert_tracked: "tracked k \<Longrightarrow> tracked (fst (OtaConsumer_revert nowUs k))"
  by (auto simp: OtaConsumer_revert_def sending_def intro!: tracked_sends tracked_enter)

lemma ask_tracked: "tracked k \<Longrightarrow> tracked (fst (OtaConsumer_requestBoardStatus k))"
  using call_sink_tracked [of k _ "ToUpdater StatusRequest"]
  by (auto simp: OtaConsumer_requestBoardStatus_def split: option.split prod.split)

text \<open>An event is usable when the world it starts in is one the run has reached and a status it brings is one
  that was heard.\<close>

definition usable :: "consumer_event \<Rightarrow> 'w consumer \<Rightarrow> bool" where
  "usable e k \<longleftrightarrow> reached (k_world k) \<and> (\<forall>status now. e = Incoming (OtaStatus status) now \<longrightarrow> heard status)"

lemma step_tracked: "tracked k \<Longrightarrow> usable e k \<Longrightarrow> tracked (consumer_step env e k)"
  by (cases e) (auto simp: usable_def start_tracked abort_tracked revert_tracked ask_tracked onEnvelope_tracked tick_tracked)

lemma run_tracked:
  assumes "tracked k" "\<And>n. n < length es \<Longrightarrow> usable (es ! n) (consumer_run env (take n es) k)"
  shows "tracked (consumer_run env es k)"
  using assms
proof (induction es rule: rev_induct)
  case (snoc e es)
  have "usable (es ! n) (consumer_run env (take n es) k)" if "n < length es" for n
    using snoc.prems(2) [of n] that by (simp add: nth_append)
  with snoc.prems(1) have "tracked (consumer_run env es k)" by (rule snoc.IH)
  moreover have "usable e (consumer_run env es k)" using snoc.prems(2) [of "length es"] by simp
  ultimately show ?case using step_tracked by (simp add: consumer_run_def)
qed (simp add: consumer_run_def)

end


section \<open>The abstract sender\<close>

text \<open>The messages a correct sender may have handed to the link, newest first, and the transfer that is
  open: the nonce and the image announced by the last begin. The images come from a given stock.\<close>

inductive sends_of :: "(bytes \<Rightarrow> bool) \<Rightarrow> ground_message list \<Rightarrow> (u32 \<times> bytes) option \<Rightarrow> bool" for stock where
  nothing: "sends_of stock [] None"
| other: "sends_of stock log c \<Longrightarrow> quiet m \<Longrightarrow> sends_of stock (m # log) c"
| announce: "sends_of stock log c \<Longrightarrow> s \<noteq> 0 \<Longrightarrow> length img < 2 ^ 32 \<Longrightarrow> stock img \<Longrightarrow>
    sends_of stock (ToUpdater (Begin s (of_nat (length img)) (crc32Mpeg2 img)) # log) (Some (s, img))"
| chunk: "sends_of stock log (Some (s, img)) \<Longrightarrow> piece img off d \<Longrightarrow> sends_of stock (ToUpdater (Chunk s off d) # log) (Some (s, img))"
| finish: "sends_of stock log (Some (s, img)) \<Longrightarrow> sends_of stock (ToUpdater (Finish s) # log) (Some (s, img))"

definition sends :: "ground_message list \<Rightarrow> (u32 \<times> bytes) option \<Rightarrow> bool" where
  "sends = sends_of (\<lambda>_. True)"

fun nonce :: "ground_message \<Rightarrow> u32 list" where
  "nonce (ToUpdater (Begin s n crc)) = [s]"
| "nonce m = []"

definition nonces :: "ground_message list \<Rightarrow> u32 list" where
  "nonces log = concat (map nonce log)"

lemma nonces_simps [simp]: "nonces [] = []" "nonces (m # log) = nonce m @ nonces log"
  by (simp_all add: nonces_def)

lemma nonces_mem: "s \<in> set (nonces log) \<longleftrightarrow> (\<exists>n crc. ToUpdater (Begin s n crc) \<in> set log)"
proof (induction log)
  case (Cons m log)
  then show ?case by (cases m rule: nonce.cases) auto
qed simp

text \<open>All that a log says of one nonce: one image was announced under it and its chunks are pieces of it.\<close>

definition one_image :: "ground_message list \<Rightarrow> u32 \<Rightarrow> bytes \<Rightarrow> bool" where
  "one_image log s img \<longleftrightarrow> length img < 2 ^ 32 \<and>
     (\<forall>n crc. ToUpdater (Begin s n crc) \<in> set log \<longrightarrow> n = of_nat (length img) \<and> crc = crc32Mpeg2 img) \<and>
     (\<forall>off d. ToUpdater (Chunk s off d) \<in> set log \<longrightarrow> piece img off d)"

lemma sends_one_image:
  assumes "sends_of stock log c" "distinct (nonces log)"
  shows "(\<forall>s. \<exists>img. one_image log s img \<and> (s \<in> set (nonces log) \<longrightarrow> stock img) \<and> (\<forall>i. c = Some (s, i) \<longrightarrow> i = img)) \<and> (\<forall>s i. c = Some (s, i) \<longrightarrow> s \<in> set (nonces log)) \<and>
    (\<forall>s off d. ToUpdater (Chunk s off d) \<in> set log \<longrightarrow> s \<in> set (nonces log))"
  using assms
proof (induction rule: sends_of.induct)
  case nothing
  then show ?case by (auto simp: one_image_def intro: exI [of _ "[]"])
next
  case (other log c m)
  then show ?case by (cases m rule: quiet.cases) (auto simp: one_image_def)
next
  case (announce log c s img)
  have s: "s \<notin> set (nonces log)" using announce.prems by simp
  have "\<forall>s off d. ToUpdater (Chunk s off d) \<in> set log \<longrightarrow> s \<in> set (nonces log)" using announce.IH announce.prems by simp
  then have n: "ToUpdater (Chunk s off d) \<notin> set log" for off d using s by blast
  let ?m = "ToUpdater (Begin s (of_nat (length img)) (crc32Mpeg2 img))"
  have here: "one_image (?m # log) s img" using s n announce.hyps(3) by (auto simp: one_image_def nonces_mem)
  have ih: "\<exists>i. one_image log s' i \<and> (s' \<in> set (nonces log) \<longrightarrow> stock i)" for s' using announce.IH announce.prems by auto
  have "\<exists>i. one_image (?m # log) s' i \<and> (s' \<in> set (nonces (?m # log)) \<longrightarrow> stock i) \<and> (\<forall>j. Some (s, img) = Some (s', j) \<longrightarrow> j = i)" for s'
  proof (cases "s' = s")
    case False
    then show ?thesis using ih [of s'] by (auto simp: one_image_def)
  qed (use here announce.hyps(4) in auto)
  then show ?case using announce.IH announce.prems by auto
next
  case (chunk log s img off d)
  then show ?case by (auto simp: one_image_def) blast
next
  case (finish log s img)
  then show ?case by (auto simp: one_image_def)
qed


section \<open>Every run of a ground station\<close>

text \<open>A consumer as the hub composes it, over any route, and the same with a record of what it hands over.\<close>

definition ground_station :: "consumer_config \<Rightarrow> string \<Rightarrow> 'w sink \<Rightarrow> ('w \<Rightarrow> 'w) \<Rightarrow> 'w \<Rightarrow> 'w consumer" where
  "ground_station config path sink obs w =
     setDefaultBundlePath path (setOnChange (Some obs) (setSink (Some sink) (OtaConsumer_init config w)))"

definition recording :: "'v sink \<Rightarrow> (ground_message list \<times> 'v) sink" where
  "recording f m = (\<lambda>(log, v). let (v', r) = f m v in ((m # log, v'), r))"

definition recording_obs :: "('v \<Rightarrow> 'v) \<Rightarrow> ground_message list \<times> 'v \<Rightarrow> ground_message list \<times> 'v" where
  "recording_obs g = (\<lambda>(log, v). (log, g v))"

definition recording_env :: "'v ota_env \<Rightarrow> (ground_message list \<times> 'v) ota_env" where
  "recording_env env = \<lparr> e_parse = e_parse env, e_file = (\<lambda>(log, v). e_file env v), e_wire = e_wire env,
     e_written = (\<lambda>(log, v). e_written env v), e_size = (\<lambda>(log, v). e_size env v),
     e_draw = (\<lambda>(log, v). let (n, v') = e_draw env v in (n, (log, v'))) \<rparr>"

text \<open>The stock of a run: the images of the bundles it has loaded, from the file as it was at one of its
  steps, that a status it has heard would pick.\<close>

definition loaded_in :: "'w ota_env \<Rightarrow> consumer_event list \<Rightarrow> 'w consumer \<Rightarrow> ota_bundle \<Rightarrow> bool" where
  "loaded_in env es k b \<longleftrightarrow> (\<exists>n file. n < length es \<and> load_bundle env file (consumer_run env (take n es) k) = Inr b)"

definition stock_of :: "'w ota_env \<Rightarrow> consumer_event list \<Rightarrow> 'w consumer \<Rightarrow> bytes \<Rightarrow> bool" where
  "stock_of env es k img \<longleftrightarrow> (\<exists>b i status now. loaded_in env es k b \<and>
     Incoming (OtaStatus status) now \<in> set es \<and> picked status b i \<and> img = bi_bytes i)"

definition run_worlds :: "'w ota_env \<Rightarrow> consumer_event list \<Rightarrow> 'w consumer \<Rightarrow> 'w set" where
  "run_worlds env es k = (\<lambda>n. k_world (consumer_run env (take n es) k)) ` {..<length es}"

lemma picked_empty: "\<not> picked status OtaBundle_init img"
  by (simp add: picked_def findOtaBundleImage_def OtaBundle_init_def)

lemma load_world: "k_world k' = k_world k \<Longrightarrow> load_bundle env path k' = load_bundle env path k"
  by (simp add: load_bundle_def)

interpretation any_route: tracked_route env sink obs "\<lambda>_ _. True" "\<lambda>_. True" "\<lambda>_. True" "\<lambda>_. True" for env sink obs
  by unfold_locales simp_all

interpretation recorded: tracked_route "recording_env env" "recording f" "recording_obs g" "\<lambda>w. sends_of (stock_of (recording_env env) es k) (fst w)"
    "\<lambda>w. w \<in> run_worlds (recording_env env) es k"
    "\<lambda>b. b = OtaBundle_init \<or> loaded_in (recording_env env) es k b"
    "\<lambda>status. \<exists>now. Incoming (OtaStatus status) now \<in> set es" for env f g es k
proof unfold_locales
  fix w :: "ground_message list \<times> 'a" and c :: "(u32 \<times> bytes) option" and s :: u32 and b status img
  assume a: "sends_of (stock_of (recording_env env) es k) (fst w) c" "s \<noteq> 0" "bundle_ok b" "\<exists>now. Incoming (OtaStatus status) now \<in> set es"
    "b = OtaBundle_init \<or> loaded_in (recording_env env) es k b"
    "picked status b img"
  have "stock_of (recording_env env) es k (bi_bytes img)" using a(4-6) picked_empty by (fastforce simp: stock_of_def)
  moreover have "findOtaBundleImage b (1 - ucast (ws_running_slot status)) = Some img" using a(6) by (simp add: picked_def)
  note bundle_image [OF a(3) this]
  ultimately show "sends_of (stock_of (recording_env env) es k) (fst (fst (recording f (ToUpdater (Begin s (bi_size img) (bi_crc32 img))) w))) (Some (s, bi_bytes img))"
    using sends_of.announce [OF a(1,2), of "bi_bytes img"] by (simp add: recording_def split_beta)
next
  fix k' path b
  assume "k_world k' \<in> run_worlds (recording_env env) es k" "load_bundle (recording_env env) path k' = Inr b"
  then show "b = OtaBundle_init \<or> loaded_in (recording_env env) es k b"
    by (auto simp: run_worlds_def loaded_in_def) (metis load_world)
qed (auto simp: recording_def recording_obs_def recording_env_def split_beta intro: sends_of.intros)

lemma station_fields [simp]:
  "k_sink (ground_station config path sink obs w) = Some sink" "k_onChange (ground_station config path sink obs w) = Some obs"
  "k_bundle (ground_station config path sink obs w) = OtaBundle_init" "k_phase (ground_station config path sink obs w) = IDLE"
  "k_world (ground_station config path sink obs w) = w" "k_config (ground_station config path sink obs w) = config"
  by (simp_all add: ground_station_def setDefaultBundlePath_def setOnChange_def setSink_def OtaConsumer_init_def)

lemma station_ok: "bundle_ok (k_bundle (ground_station config path sink obs w))" "\<not> sending (k_phase (ground_station config path sink obs w))"
  by (simp_all add: bundle_ok_def OtaBundle_init_def sending_def)

lemma recorded_run:
  assumes "k = ground_station config path (recording f) (recording_obs g) ([], v)"
  shows "\<exists>c. sends_of (stock_of (recording_env env) es k) (fst (k_world (consumer_run (recording_env env) es k))) c"
proof -
  have "k_sink k = Some (recording f)" "k_onChange k = Some (recording_obs g)" "k_bundle k = OtaBundle_init" "k_world k = ([], v)" "k_phase k = IDLE"
    by (simp_all add: assms)
  then have "recorded.tracked f g env es k k"
    by (auto simp: recorded.tracked_def recorded.live_def bundle_ok_init sending_def intro: sends_of.nothing)
  moreover have "recorded.usable env es k (es ! n) (consumer_run (recording_env env) (take n es) k)" if "n < length es" for n
    using that nth_mem [OF that] unfolding recorded.usable_def unfolding run_worlds_def by auto (metis nth_mem)
  ultimately have "recorded.tracked f g env es k (consumer_run (recording_env env) es k)" by (rule recorded.run_tracked)
  then show ?thesis by (auto simp: recorded.tracked_def recorded.live_def)
qed

lemma sends_any: "sends_of stock log c \<Longrightarrow> sends log c"
  unfolding sends_def by (induction rule: sends_of.induct) (auto intro: sends_of.intros)

text \<open>(C40) The offsets of a transfer never leave the image. After any run of a ground station, over any route
  and whatever messages arrive, the images of the bundle agree with their announced size and
  checksum; while a transfer is open its image is in the bundle, the chunk size is between 1 and
  240, the acknowledged offset is at most the sent one, the sent one at most the size of the image,
  and the two differ by less than one chunk more than the window of sixteen. So every chunk is
  copied from inside the image into the 240 bytes of the message.\<close>

theorem consumer_offsets_safe:
  "consumer_ok (consumer_run env es (ground_station config path sink obs w))"
proof -
  have "any_route.tracked sink obs (ground_station config path sink obs w)"
    using station_ok by (auto simp: any_route.tracked_def any_route.live_def)
  then have "any_route.tracked sink obs (consumer_run env es (ground_station config path sink obs w))"
    by (rule any_route.run_tracked) (simp add: any_route.usable_def)
  then show ?thesis by (auto simp: any_route.tracked_def any_route.live_def consumer_ok_def)
qed

text \<open>(C18) The consumer is a correct sender. Whatever the operator asks, the board answers and the clock
  says, the messages it hands to its route, in order, are those of the abstract sender: a begin
  announces the size and checksum of one image under a nonce that is not zero, and until the next
  begin every chunk and every finish carries that nonce and every chunk is a piece of that image
  at its offset.\<close>

theorem consumer_refines_sender:
  "\<exists>c. sends (fst (k_world (consumer_run (recording_env env) es
     (ground_station config path (recording f) (recording_obs g) ([], v))))) c"
  using recorded_run [OF refl, of env es config path f g v] sends_any by fast


section \<open>With the board\<close>

text \<open>The board receives nothing but messages of the log, in any order, with losses and repetitions.\<close>

fun delivered :: "ground_message list \<Rightarrow> updater_event \<Rightarrow> bool" where
  "delivered log (Message req inp) \<longleftrightarrow> ToUpdater req \<in> set log"
| "delivered log (Tick now) \<longleftrightarrow> True"

definition begun :: "ground_message list \<Rightarrow> updater \<Rightarrow> bool" where
  "begun log u \<longleftrightarrow> (u_sessionActive u \<longrightarrow> ToUpdater (Begin (u_session u) (u_imageSize u) (u_imageCrc u)) \<in> set log)"

lemma begun_step:
  assumes "begun log u" "delivered log e" "updater_step st e (u, s) = (u', s')"
  shows "begun log u'"
proof (cases e)
  case (Tick now)
  then show ?thesis using assms by (auto simp: begun_def OtaUpdater_tick_def closeSession_def split: if_splits)
next
  case (Message req inp)
  then show ?thesis using assms
    by (cases req) (auto simp: begun_def Let_def handleBegin_def handleChunk_def handleFinish_def handleAbort_def closeSession_def split_beta
        split: if_splits option.splits)
qed

lemma begun_run:
  "begun log u \<Longrightarrow> \<forall>e \<in> set es. delivered log e \<Longrightarrow> updater_run st es (u, s) = (u', s') \<Longrightarrow> begun log u'"
proof (induction es arbitrary: u s)
  case (Cons e es)
  obtain u1 s1 where e: "updater_step st e (u, s) = (u1, s1)" by fastforce
  then have "updater_run st es (u1, s1) = (u', s')" using Cons.prems(3) by (simp add: updater_run_def)
  then show ?case using Cons.IH begun_step [OF Cons.prems(1) _ e] Cons.prems(2) by simp
qed (simp add: updater_run_def)

lemma delivered_honest: "one_image log session img \<Longrightarrow> delivered log e \<Longrightarrow> honest img session e"
  by (cases "(img, session, e)" rule: honest.cases) (auto simp: one_image_def piece_def)

text \<open>The target a board writes to is the slot that a status naming its running slot makes a station pick.\<close>

lemma picked_target:
  assumes "picked status b i" "ucast (ws_running_slot status) = s_runningSlot s"
  shows "findOtaBundleImage b (targetSlot (FirmwareStoreStm32 ctl) s) = Some i"
proof -
  have "s_runningSlot s = 0 \<or> s_runningSlot s = 1"
    using assms by (auto simp: picked_def OTA_SLOT_COUNT_def word_unat_eq_iff less_2_cases_iff)
  then have "targetSlot (FirmwareStoreStm32 ctl) s = 1 - s_runningSlot s" by (auto simp: targetSlot_def runningSlot_def OTA_SLOT_A_def OTA_SLOT_B_def FirmwareStoreStm32_def OTA_SLOT_COUNT_def)
  then show ?thesis using assms by (simp add: picked_def)
qed

text \<open>(C1) From the bundle file to the flash. Let a ground station run under any circumstances, over any
  route, with no two of its sessions on the same nonce, and let it hear only statuses that name the
  slot the board really runs from. Let the board receive any of the station's messages, in any order,
  lost and repeated at will. When the board acknowledges a finish, then at some step of its run the
  station had loaded a bundle from its file, built for the chip a status named, the image of that
  bundle for the slot the board does not run from was announced under that nonce, and that slot
  holds the image's bytes, byte for byte; and the metadata stages it. The 32-bit counter of the
  metadata records must not be at its end, which is past the life of the flash.\<close>

theorem update_end_to_end:
  assumes "station = ground_station config path (recording f) (recording_obs g) ([], v)"
    and "log = fst (k_world (consumer_run (recording_env env) ces station))"
    and "\<forall>status now. Incoming (OtaStatus status) now \<in> set ces \<longrightarrow> ucast (ws_running_slot status) = s_runningSlot s"
    and "distinct (nonces log)" "flash_controller ctl" "\<forall>e \<in> set es. delivered log e"
    and "updater_run (FirmwareStoreStm32 ctl) es (OtaUpdater_init selfConfirm, s) = (u1, s1)"
    and "OtaUpdater_handle (FirmwareStoreStm32 ctl) (Finish session) inp u1 s1 = (u2, s2, Ack OtaOp_FINISH session OTA_OK, c)"
    and "meta_count ctl s1 < 2 ^ 32 - 1" and "t = targetSlot (FirmwareStoreStm32 ctl) s"
  shows "\<exists>n path0 b i m status now. n < length ces \<and> load_bundle (recording_env env) path0 (consumer_run (recording_env env) (take n ces) station) = Inr b \<and>
    Incoming (OtaStatus status) now \<in> set ces \<and> ob_mcuId b = ucast (ws_mcu status) \<and> findOtaBundleImage b t = Some i \<and>
    ToUpdater (Begin session (bi_size i) (bi_crc32 i)) \<in> set log \<and> take (unat (bi_size i)) (slot_content s2 t) = bi_bytes i \<and>
    FirmwareStoreStm32_readMeta ctl s1 = Some m \<and>
    FirmwareStoreStm32_readMeta ctl s2 = Some ((set_slot_state t OTA_SLOT_STAGED m)\<lparr> trialAttempted := False \<rparr>)"
proof -
  let ?st = "FirmwareStoreStm32 ctl" and ?u = "OtaUpdater_init selfConfirm" and ?stock = "stock_of (recording_env env) ces station"
  obtain c' where sent: "sends_of ?stock log c'" using recorded_run [OF assms(1)] unfolding assms(2) by blast
  then obtain img where img: "one_image log session img" "session \<in> set (nonces log) \<longrightarrow> ?stock img"
    using sends_one_image [OF sent assms(4)] by blast
  have u: "\<not> u_sessionActive ?u" by (simp add: OtaUpdater_init_def)
  have "\<forall>e \<in> set es. honest img session e" using assms(6) delivered_honest [OF img(1)] by blast
  note st = flash_controller.staged_is_image [OF assms(5) u this assms(7-9) refl]
  have h: "handleFinish ?st session inp u1 s1 = (u2, s2, Ack OtaOp_FINISH session OTA_OK)" using assms(8) by (auto split: prod.splits)
  then have a: "u_sessionActive u1" "u_session u1 = session" by (auto simp: handleFinish_def split: if_splits)
  have "begun log u1" by (rule begun_run [OF _ assms(6,7)]) (simp add: begun_def u)
  then have b: "ToUpdater (Begin session (u_imageSize u1) (u_imageCrc u1)) \<in> set log" using a by (simp add: begun_def)
  then have "session \<in> set (nonces log)" by (auto simp: nonces_mem)
  then obtain n path0 bun i status now where i: "n < length ces"
    "load_bundle (recording_env env) path0 (consumer_run (recording_env env) (take n ces) station) = Inr bun"
    "Incoming (OtaStatus status) now \<in> set ces" "picked status bun i" "img = bi_bytes i"
    using img(2) by (auto simp: stock_of_def loaded_in_def)
  have f: "findOtaBundleImage bun t = Some i" unfolding assms(10) by (rule picked_target [OF i(4)]) (use assms(3) i(3) in blast)
  note bi = bundle_image [OF load_ok [OF i(2)] f]
  have q: "u_imageSize u1 = bi_size i" "u_imageCrc u1 = bi_crc32 i" using img(1) b bi by (auto simp: one_image_def i(5))
  obtain m where m: "FirmwareStoreStm32_readMeta ctl s1 = Some m"
    "FirmwareStoreStm32_readMeta ctl s2 = Some ((set_slot_state t OTA_SLOT_STAGED m)\<lparr> trialAttempted := False \<rparr>)"
    using st assms(10) by auto
  have "ob_mcuId bun = ucast (ws_mcu status)" "take (unat (bi_size i)) (slot_content s2 t) = bi_bytes i"
    using i(4) st bi(1) q(1) assms(10) by (simp_all add: picked_def i(5))
  then show ?thesis using i(1-3) f b m unfolding q by blast
qed


text \<open>A bundle of two small images, a station that sends it over a route that takes everything, and the board
  of the earlier examples.\<close>

definition small_image_A :: bytes where
  "small_image_A = small_image[7 := 0]"

definition small_bundle :: ota_bundle where
  "small_bundle = \<lparr> ob_path = ''f'', ob_name = [], ob_mcuId = 1, ob_buildEpoch = 5, ob_gitHash = [], ob_wireHash = drop 2 (hexText 0),
     ob_images = [\<lparr> bi_slot = 0, bi_size = 520, bi_crc32 = crc32Mpeg2 small_image_A, bi_bytes = small_image_A \<rparr>,
                  \<lparr> bi_slot = 1, bi_size = 520, bi_crc32 = crc32Mpeg2 small_image, bi_bytes = small_image \<rparr>] \<rparr>"

definition manifest_entry :: "u32 \<Rightarrow> u32 \<Rightarrow> json" where
  "manifest_entry slot crc = JObject [(''slot'', JUnsigned (ucast slot)), (''size'', JUnsigned 520), (''crc32'', JUnsigned (ucast crc))]"

definition small_manifest :: "(string \<times> json) list" where
  "small_manifest = [(''mcuId'', JString ''stm32f405''), (''buildEpoch'', JUnsigned 5), (''wireHash'', JString (drop 2 (hexText 0))),
     (''images'', JArray [manifest_entry 0 (crc32Mpeg2 small_image_A), manifest_entry 1 (crc32Mpeg2 small_image)])]"

definition small_env :: "unit ota_env" where
  "small_env = \<lparr> e_parse = (\<lambda>_. Some (JObject small_manifest)),
     e_file = (\<lambda>_ _. Some (bundle_file [0] [small_image_A, small_image])), e_wire = 0, e_written = (\<lambda>_ _. Some 0), e_size = (\<lambda>_ _. Some 0),
     e_draw = (\<lambda>w. (0, w)) \<rparr>"

lemma crc_fits: "ucast (ucast (c :: u32) :: u64) = c" "\<not> 4294967295 < (ucast c :: u64)"
proof -
  have u: "unat (ucast c :: u64) = unat c" using unat_lt2p_32 [of c] by (simp add: unsigned_ucast_eq take_bit_nat_eq_self)
  show "ucast (ucast c :: u64) = c" by (rule bit_word_eqI) (simp add: bit_ucast_iff)
  show "\<not> 4294967295 < (ucast c :: u64)" using u unat_lt2p_32 [of c] by (simp add: word_less_nat_alt)
qed

lemma entry_read: "slot = 0 \<or> slot = 1 \<Longrightarrow> prev < int (unat slot) \<Longrightarrow>
  read_image (manifest_entry slot crc) prev = Inr \<lparr> bi_slot = ucast slot, bi_size = 520, bi_crc32 = crc, bi_bytes = [] \<rparr>"
  by (auto simp: read_image_def manifest_entry_def readManifestU32_def json_find_def OTA_SLOT_COUNT_def MAX_IMAGE_SIZE_def crc_fits)

lemma small_manifest_read: "read_manifest 0 path0 small_manifest = Inr (small_bundle\<lparr> ob_path := path0, ob_images := map without_bytes (ob_images small_bundle) \<rparr>)"
  apply (simp add: read_manifest_def small_manifest_def readMcuId_def json_find_def chip_name_def readBuildEpoch_def readManifestU32_def
    readImageList_def entry_read headerImageFormat_def OTA_SLOT_COUNT_def optional_text_def small_bundle_def without_bytes_def OTA_MCU_STM32F405_def)
  done
lemma small_consistent: "list_all (image_consistent 1) (ob_images small_bundle)"
  by (simp add: small_bundle_def image_consistent_def headerImageFormat_def OTA_MCU_STM32F405_def Let_def memcpy_header_def field32_def field16_def rd32_def rd16_def image_defs
    small_image_A_def) (simp add: small_image_def)

lemma small_loads_from: "path0 \<noteq> [] \<Longrightarrow> load_bundle (recording_env small_env) path0 k = Inr (small_bundle\<lparr> ob_path := path0 \<rparr>)"
  unfolding load_bundle_def load_bundle_iff
  using small_manifest_read small_consistent
  by (auto simp: recording_env_def small_env_def small_bundle_def intro: exI [of _ "[0]"])

lemma small_loads: "load_bundle (recording_env small_env) ''f'' k = Inr small_bundle"
  by (simp add: small_loads_from) (simp add: small_bundle_def)

lemma small_loads_only:
  assumes "load_bundle (recording_env small_env) path0 k = Inr b"
  shows "b = small_bundle\<lparr> ob_path := path0 \<rparr>"
proof (cases "path0 = []")
  case False
  then show ?thesis using assms small_loads_from by simp
qed (use assms in \<open>simp add: load_bundle_def loadOtaBundle_def\<close>)

abbreviation small_station :: "(ground_message list \<times> unit) consumer" where
  "small_station \<equiv> ground_station (Config_default\<lparr> cf_chunkDelayUs := 0 \<rparr>) ''f'' (recording (\<lambda>m w. (w, None))) (recording_obs id) ([], ())"

definition small_status :: wire_status where
  "small_status = \<lparr> ws_mcu = 1, ws_running_slot = 0, ws_active_slot = 0, ws_updater_busy = False,
     ws_slots = [\<lparr> wl_state = 3, wl_build_epoch = 1, wl_git_hash = [] \<rparr>, \<lparr> wl_state = 0, wl_build_epoch = 0, wl_git_hash = [] \<rparr>],
     ws_slot_size = 393216, ws_max_chunk_data = 240 \<rparr>"

lemmas station_defs = ground_station_def setDefaultBundlePath_def setOnChange_def setSink_def OtaConsumer_init_def

lemma rec_simps [simp]: "recording (\<lambda>m w. ((), None)) m (log, v) = ((m # log, ()), None)" "recording_obs id w = w"
  by (simp_all add: recording_def recording_obs_def split_beta)

lemma env_simps [simp]: "e_draw (recording_env small_env) (log, v) = (0, (log, ()))" "e_written (recording_env small_env) w p = Some 0"
  "e_size (recording_env small_env) w p = Some 0"
  by (simp_all add: recording_env_def small_env_def split_beta)

lemma find_small [simp]: "findOtaBundleImage small_bundle 1 = Some \<lparr> bi_slot = 1, bi_size = 520, bi_crc32 = crc32Mpeg2 small_image, bi_bytes = small_image \<rparr>"
  "ob_mcuId small_bundle = 1"
  by (simp_all add: findOtaBundleImage_def small_bundle_def OTA_SLOT_COUNT_def)

abbreviation small_events :: "consumer_event list" where
  "small_events \<equiv> [Start [] 0, Incoming (OtaStatus small_status) 1, Incoming (OtaAck 1 1 0) 2, Incoming (OtaChunkAck 1 520) 3]"

text \<open>What that station has handed over: the question, the announcement, three chunks and the end.\<close>

definition small_log :: "ground_message list" where
  "small_log = [ToUpdater (Finish 1), ToUpdater (Chunk 1 480 (drop 480 small_image)), ToUpdater (Chunk 1 240 (take 240 (drop 240 small_image))),
     ToUpdater (Chunk 1 0 (take 240 small_image)), ToUpdater (Begin 1 520 (crc32Mpeg2 small_image)), ToUpdater StatusRequest]"

lemmas send_defs = enter_def notifyChange_def emit_def call_sink_def Let_def min_def

lemma small_log_sent: "fst (k_world (consumer_run (recording_env small_env) small_events small_station)) = small_log"
  apply (simp add: consumer_run_def)
  apply (simp add: OtaConsumer_start_def small_loads OtaConsumer_busy_def busy_phase_def sendStatusRequest_def station_defs sent_or_reason_def send_defs)
  apply (simp add: onStatus_def openTransfer_def board_of_def small_status_def OTA_SLOT_COUNT_def drawSession_def OTA_CHUNK_DATA_SIZE_def upt_rec send_defs)
  apply (simp add: onAck_def op_code_def result_code_def OtaProgress_init_def pumpChunks_def OTA_CHUNK_ACK_WINDOW_def send_defs)
  apply (subst chunk_loop.simps, simp add: sendChunk_def send_defs)+
  apply (simp add: onChunkAck_def advance_to_def small_log_def send_defs)
  done

theorem update_end_to_end_witness:
  "\<exists>u1 s1 u2 s2. updater_run (FirmwareStoreStm32 sound_ctl) (transfer 1 idle_inputs small_chunks) (OtaUpdater_init True, blank_board) = (u1, s1) \<and>
    OtaUpdater_handle (FirmwareStoreStm32 sound_ctl) (Finish 1) idle_inputs u1 s1 = (u2, s2, Ack OtaOp_FINISH 1 OTA_OK, True) \<and>
    take 520 (slot_content s2 OTA_SLOT_B) = small_image"
proof -
  let ?st = "FirmwareStoreStm32 sound_ctl" and ?u = "OtaUpdater_init True"
  obtain u1 s1 where run: "updater_run ?st (transfer 1 idle_inputs small_chunks) (?u, blank_board) = (u1, s1)" by fastforce
  obtain u2 s2 r c where fin: "OtaUpdater_handle ?st (Finish 1) idle_inputs u1 s1 = (u2, s2, r, c)" by (metis prod_cases4)
  have c: "c = True" using fin by (auto split: prod.splits)
  have u: "\<not> u_sessionActive ?u" by (simp add: OtaUpdater_init_def)
  have ok: "r = Ack OtaOp_FINISH 1 OTA_OK" "meta_count sound_ctl s1 = 1"
    using working_flash.transfer_staged [OF wnor.working_flash_axioms _ _ u _ small_transfer_fits(1-3)
        blank_board_facts(1) [symmetric] small_transfer_fits(4) run fin] by (simp_all add: blank_board_facts)
  have fin': "OtaUpdater_handle ?st (Finish 1) idle_inputs u1 s1 = (u2, s2, Ack OtaOp_FINISH 1 OTA_OK, True)" using fin ok(1) c by simp
  have del: "\<forall>e \<in> set (transfer 1 idle_inputs small_chunks). delivered small_log e"
    by (simp add: transfer_def small_log_def) (simp add: small_chunks_def)
  have "distinct (nonces small_log)" by (simp add: small_log_def)
  moreover have "\<forall>status now. Incoming (OtaStatus status) now \<in> set small_events \<longrightarrow> ucast (ws_running_slot status) = s_runningSlot blank_board"
    by (simp add: small_status_def blank_board_facts OTA_SLOT_A_def)
  ultimately obtain path0 k b i where l: "load_bundle (recording_env small_env) path0 k = Inr b" "findOtaBundleImage b OTA_SLOT_B = Some i"
    "take (unat (bi_size i)) (slot_content s2 OTA_SLOT_B) = bi_bytes i"
    using update_end_to_end [OF refl small_log_sent [symmetric] _ _ nor.flash_controller_axioms del run fin' _ blank_board_facts(1) [symmetric]] ok(2) by auto
  have "i = \<lparr> bi_slot = 1, bi_size = 520, bi_crc32 = crc32Mpeg2 small_image, bi_bytes = small_image \<rparr>"
    using l(2) small_loads_only [OF l(1)] by (simp add: findOtaBundleImage_def small_bundle_def OTA_SLOT_COUNT_def OTA_SLOT_B_def)
  with l(3) have "take 520 (slot_content s2 OTA_SLOT_B) = small_image" by simp
  then show ?thesis using run fin' by (auto simp: small_log_def)
qed

end
