(* ===== verification/Consumer_Verdict.thy ===== *)
theory Consumer_Verdict
  imports Consumer_Correct
begin

text \<open>
  How a session of the ground side ends. With a board that stays silent every phase but the trial gives
  up after a bounded number of expired deadlines; a verdict is pronounced on a status message that
  justifies it and on nothing else; and a refused begin, which the board answers under the nonce zero,
  does not reach the session it refuses.
\<close>


section \<open>A silent board\<close>

text \<open>When the phase acts next, and how many times it may still act before it gives up.\<close>

definition alarm :: "'w consumer \<Rightarrow> u64" where
  "alarm k = (case k_phase k of QUERY \<Rightarrow> k_nextStatusUs k | TRANSFER \<Rightarrow> k_chunkDeadlineUs k | REBOOTING \<Rightarrow> k_settleUntilUs k | _ \<Rightarrow> k_deadlineUs k)"

definition patience :: "'w consumer \<Rightarrow> nat" where
  "patience k = (case k_phase k of
     QUERY \<Rightarrow> unat (cf_statusTries (k_config k)) - unat (k_statusTries k) + 1
   | TRANSFER \<Rightarrow> unat (cf_maxRetries (k_config k)) - unat (k_stalledRounds k) + 1
   | REBOOTING \<Rightarrow> 2
   | REVERTING \<Rightarrow> unat (cf_maxAckTries (k_config k)) - unat (k_ackTries k) + 1
   | ERASING \<Rightarrow> 1 | VERIFYING \<Rightarrow> 1 | WAITING_BOARD \<Rightarrow> 1 | _ \<Rightarrow> 0)"

text \<open>The ticks of a sequence that come at or after the alarm of the moment.\<close>

fun overdue :: "'w ota_env \<Rightarrow> u64 list \<Rightarrow> 'w consumer \<Rightarrow> nat" where
  "overdue env [] k = 0"
| "overdue env (t # ts) k = (if alarm k \<le> t then 1 else 0) + overdue env ts (OtaConsumer_tick env t k)"

definition gave_up :: "'w consumer \<Rightarrow> bool" where
  "gave_up k \<longleftrightarrow> k_phase k = FAILED \<and> k_verdict k = V_FAILED"

text \<open>What a send or the pump may do to the phase and the counters.\<close>

definition same_counters :: "'w consumer \<Rightarrow> 'w consumer \<Rightarrow> bool" where
  "same_counters k k' \<longleftrightarrow> k_phase k' = k_phase k \<and> k_config k' = k_config k \<and> k_stalledRounds k' = k_stalledRounds k \<and>
     k_statusTries k' = k_statusTries k \<and> k_ackTries k' = k_ackTries k \<and> k_verdict k' = k_verdict k"

lemma emit_counters: "emit m k = (k', ok) \<Longrightarrow> if ok then same_counters k k' else gave_up k'"
  by (auto simp: emit_def call_sink_def same_counters_def gave_up_def split: option.splits prod.splits if_splits)

lemma emit_on: "gave_up (fst (emit m k)) \<or> same_counters k (fst (emit m k))"
  using emit_counters [of m k] by (cases "emit m k") (auto split: if_splits)

lemma sendChunk_counters: "sendChunk k = (k', ok) \<Longrightarrow> if ok then same_counters k k' else gave_up k'"
  by (auto simp: sendChunk_def Let_def gave_up_def same_counters_def dest!: emit_counters split: option.splits prod.splits bool.splits)

lemma loop_rule:
  assumes "P k" "\<And>k k' ok. P k \<Longrightarrow> sendChunk k = (k', ok) \<Longrightarrow> P k'" "\<And>k t. P k \<Longrightarrow> P (k\<lparr> k_nextChunkUs := t \<rparr>)"
  shows "P (fst (chunk_loop nowUs wb k b))"
  using assms(1)
proof (induction nowUs wb k b rule: chunk_loop.induct)
  case (1 nowUs wb k b)
  show ?case
  proof (cases "pg_sentBytes (k_progress k) < pg_totalBytes (k_progress k) \<and>
       pg_sentBytes (k_progress k) - pg_ackedBytes (k_progress k) < wb \<and> k_nextChunkUs k \<le> nowUs \<and> k_chunkData k \<noteq> 0")
    case True
    obtain k1 ok where s: "sendChunk k = (k1, ok)" by fastforce
    have k1: "P k1" by (rule assms(2) [OF "1.prems" s])
    show ?thesis
    proof (cases ok)
      case ok: True
      then show ?thesis using "1.IH" [OF True s [symmetric]] assms(3) [OF k1] True s by (simp add: chunk_loop.simps [of _ _ k])
    next
      case False
      then show ?thesis using k1 True s by (simp add: chunk_loop.simps [of _ _ k])
    qed
  next
    case False
    then show ?thesis using "1.prems" by (auto simp: chunk_loop.simps [of _ _ k])
  qed
qed

lemma loop_counters: "gave_up (fst (chunk_loop nowUs wb k b)) \<or> same_counters k (fst (chunk_loop nowUs wb k b))"
proof (rule loop_rule [where P = "\<lambda>k'. gave_up k' \<or> same_counters k k'"])
  show "gave_up k \<or> same_counters k k" by (simp add: same_counters_def)
  show "gave_up k2 \<or> same_counters k k2" if "gave_up k1 \<or> same_counters k k1" "sendChunk k1 = (k2, ok)" for k1 k2 ok
    using sendChunk_counters [OF that(2)] that(1) by (auto simp: same_counters_def gave_up_def split: if_splits)
qed (auto simp: same_counters_def gave_up_def)

lemma pump_on: "gave_up (pumpChunks nowUs k) \<or> same_counters k (pumpChunks nowUs k)"
  using loop_counters [of nowUs "OTA_CHUNK_ACK_WINDOW * k_chunkData k" k False]
  by (auto simp: pumpChunks_def same_counters_def gave_up_def split: prod.split bool.split)

lemma count_up: "(a :: u32) < b \<Longrightarrow> unat b - unat (a + 1) < unat b - unat a"
proof -
  assume "a < b"
  then have "unat a < unat b" by (simp add: word_less_nat_alt)
  moreover have "unat (a + 1) = unat a + 1" using calculation unat_lt2p_32 [of b] by (simp add: unat_word_ariths)
  ultimately show ?thesis by simp
qed

text \<open>A waiting consumer after a step: it gave up, or it still waits with less patience by \<open>c\<close>.\<close>

definition waits :: "nat \<Rightarrow> 'w consumer \<Rightarrow> 'w consumer \<Rightarrow> bool" where
  "waits c k k' \<longleftrightarrow> gave_up k' \<or> OtaConsumer_busy k' \<and> k_phase k' \<noteq> TESTING \<and> patience k' + c \<le> patience k"

lemma waits_after:
  assumes "gave_up k1 \<or> same_counters k0 k1" "OtaConsumer_busy k0" "k_phase k0 \<noteq> TESTING" "patience k0 + c \<le> patience k"
  shows "waits c k k1"
proof -
  have "same_counters k0 k1 \<Longrightarrow> patience k1 = patience k0" by (auto simp: same_counters_def patience_def split: ota_phase.split)
  then show ?thesis using assms by (auto simp: waits_def same_counters_def OtaConsumer_busy_def)
qed

lemma waits_fail: "waits c k (fail r k)"
  by (simp add: waits_def gave_up_def)

lemma waits_refl: "OtaConsumer_busy k \<Longrightarrow> k_phase k \<noteq> TESTING \<Longrightarrow> waits 0 k k"
  by (simp add: waits_def)

lemmas waits_intros = waits_fail waits_refl waits_after [OF emit_on] waits_after [OF pump_on]

lemma silent_tick:
  assumes "OtaConsumer_busy k" "k_phase k \<noteq> TESTING"
  shows "waits (if alarm k \<le> t then 1 else 0) k (OtaConsumer_tick env t k)"
proof -
  have k': "OtaConsumer_tick env t k = tick_phase t k" using assms(1) by (simp add: OtaConsumer_tick_def refreshBundle_def)
  note upd = patience_def not_le OtaConsumer_busy_def busy_phase_def Suc_le_eq count_up
  show ?thesis
  proof (cases "k_phase k")
    case QUERY
    have "waits 1 k (fst (sendStatusRequest (k\<lparr> k_statusTries := k_statusTries k + 1, k_nextStatusUs := n \<rparr>)))"
      if "k_statusTries k < cf_statusTries (k_config k)" for n
      unfolding sendStatusRequest_def by (rule waits_intros) (simp_all add: upd QUERY that)
    then show ?thesis using QUERY assms by (auto simp: k' tick_phase_def alarm_def waits_fail waits_refl not_le)
  next
    case TRANSFER
    have "waits 1 k (pumpChunks t (notifyChange (k\<lparr> k_progress := p, k_stalledRounds := k_stalledRounds k + 1, k_nextChunkUs := t, k_chunkDeadlineUs := n \<rparr>)))"
      if "k_stalledRounds k < cf_maxRetries (k_config k)" for p n
      by (rule waits_intros) (simp_all add: upd TRANSFER that)
    moreover have "waits 0 k (pumpChunks t k)" by (rule waits_intros) (simp_all add: assms)
    ultimately show ?thesis using TRANSFER assms by (auto simp: k' tick_phase_def tick_transfer_def alarm_def waits_fail waits_refl not_le)
  next
    case REVERTING
    have "waits 1 k (fst (sendRevert (k\<lparr> k_ackTries := k_ackTries k + 1, k_deadlineUs := n \<rparr>)))"
      if "k_ackTries k < cf_maxAckTries (k_config k)" for n
      unfolding sendRevert_def by (rule waits_intros) (simp_all add: upd REVERTING that)
    then show ?thesis using REVERTING assms by (auto simp: k' tick_phase_def alarm_def waits_fail waits_refl not_le)
  next
    case WAITING_BOARD
    have "waits 0 k (status_poll t k)"
      unfolding status_poll_def sendStatusRequest_def using assms
      by (auto intro!: waits_intros(2,3)) (simp_all add: upd WAITING_BOARD)
    then show ?thesis using WAITING_BOARD assms by (auto simp: k' tick_phase_def alarm_def waits_fail)
  next
    case REBOOTING
    then show ?thesis using assms by (auto simp: k' tick_phase_def alarm_def waits_def upd)
  qed (use assms in \<open>auto simp: k' tick_phase_def alarm_def waits_fail waits_refl OtaConsumer_busy_def busy_phase_def\<close>)
qed

lemma refresh_keeps: "k_phase (refreshBundle env t k) = k_phase k" "k_verdict (refreshBundle env t k) = k_verdict k"
  by (simp_all add: refreshBundle_def Let_def split: option.split sum.split)

lemma gave_up_stays: "gave_up k \<Longrightarrow> gave_up (OtaConsumer_tick env t k)"
  by (simp add: gave_up_def OtaConsumer_tick_def tick_phase_def refresh_keeps)

lemma gave_up_run: "gave_up k \<Longrightarrow> gave_up (fold (OtaConsumer_tick env) ts k)"
  by (induction ts arbitrary: k) (simp_all add: gave_up_stays)

lemma busy_patience: "OtaConsumer_busy k \<Longrightarrow> k_phase k \<noteq> TESTING \<Longrightarrow> 0 < patience k"
  by (auto simp: OtaConsumer_busy_def busy_phase_def patience_def)

text \<open>(C30) A session with a silent board ends. Let the board say nothing while the clock ticks, in any phase
  but the trial of a new image, which waits for the operator. Each tick that comes after the deadline
  of the moment uses up one of a bounded number of attempts: the status requests left, the rounds of
  resending left, the revert requests left, or the one deadline of an erase, a verification or a
  reboot. When they are used up, whatever the route did with the messages, the session has failed
  and says so.\<close>

theorem silent_session_ends:
  assumes "OtaConsumer_busy k" "k_phase k \<noteq> TESTING" "patience k \<le> overdue env ts k"
  shows "k_phase (fold (OtaConsumer_tick env) ts k) = FAILED \<and> k_verdict (fold (OtaConsumer_tick env) ts k) = V_FAILED"
proof -
  have "gave_up (fold (OtaConsumer_tick env) ts k)"
    using assms
  proof (induction ts arbitrary: k)
    case Nil
    then show ?case using busy_patience [OF Nil.prems(1,2)] by simp
  next
    case (Cons t ts)
    from silent_tick [OF Cons.prems(1,2), of t env] show ?case unfolding waits_def
    proof
      assume "gave_up (OtaConsumer_tick env t k)"
      then show ?thesis by (simp add: gave_up_run)
    next
      assume b: "OtaConsumer_busy (OtaConsumer_tick env t k) \<and> k_phase (OtaConsumer_tick env t k) \<noteq> TESTING \<and>
        patience (OtaConsumer_tick env t k) + (if alarm k \<le> t then 1 else 0) \<le> patience k"
      then have "patience (OtaConsumer_tick env t k) \<le> overdue env ts (OtaConsumer_tick env t k)"
        using Cons.prems(3) by (auto split: if_splits)
      then show ?thesis using Cons.IH b by simp
    qed
  qed
  then show ?thesis by (simp add: gave_up_def)
qed


abbreviation no_env :: "unit ota_env" where
  "no_env \<equiv> \<lparr> e_parse = (\<lambda>_. None), e_file = (\<lambda>_ _. None), e_wire = 0, e_written = (\<lambda>_ _. None), e_size = (\<lambda>_ _. None), e_draw = (\<lambda>w. (0, w)) \<rparr>"

abbreviation open_route :: "unit consumer" where
  "open_route \<equiv> ground_station Config_default ''a'' (\<lambda>m w. (w, None)) id ()"

theorem silent_session_ends_witness:
  "k_phase (fold (OtaConsumer_tick no_env) [20, 2000000] (open_route\<lparr> k_phase := QUERY, k_statusTries := 4, k_nextStatusUs := 10 \<rparr>)) = FAILED"
proof -
  let ?k = "open_route\<lparr> k_phase := QUERY, k_statusTries := 4, k_nextStatusUs := 10 \<rparr>"
  have b: "OtaConsumer_busy ?k" "k_phase ?k \<noteq> TESTING" by (simp_all add: OtaConsumer_busy_def busy_phase_def)
  have t: "OtaConsumer_tick no_env 20 ?k = ?k\<lparr> k_statusTries := 5, k_nextStatusUs := 1000020 \<rparr>"
    using b(1) by (simp add: OtaConsumer_tick_def refreshBundle_def tick_phase_def)
       (simp add: sendStatusRequest_def emit_def call_sink_def Config_default_def US_PER_MS_def)
  have "patience ?k = 2" by (simp add: patience_def Config_default_def)
  moreover have "overdue no_env [20, 2000000] ?k = 2" using t by (simp add: alarm_def)
  ultimately show ?thesis using silent_session_ends [OF b, of no_env "[20, 2000000]"] by simp
qed


section \<open>Verdicts\<close>

text \<open>A status that justifies the verdict: the board runs the build of the bundle and its slot is not on
  trial any more; or it runs the build it ran before.\<close>

definition confirms :: "'w consumer \<Rightarrow> wire_status \<Rightarrow> u64 \<Rightarrow> bool" where
  "confirms k status nowUs \<longleftrightarrow> bs_buildEpoch (board_of status nowUs) = ob_buildEpoch (k_bundle k) \<and>
     running_state (board_of status nowUs) \<noteq> slot_state_code SlotState_TESTING"

definition rolled_back :: "'w consumer \<Rightarrow> wire_status \<Rightarrow> u64 \<Rightarrow> bool" where
  "rolled_back k status nowUs \<longleftrightarrow> bs_buildEpoch (board_of status nowUs) \<noteq> ob_buildEpoch (k_bundle k) \<and> k_previousKnown k \<and>
     bs_buildEpoch (board_of status nowUs) = k_previousBuildEpoch k"

definition judging :: "'w consumer \<Rightarrow> u64 \<Rightarrow> bool" where
  "judging k nowUs \<longleftrightarrow> k_phase k = TESTING \<or> k_phase k = WAITING_BOARD \<and> k_settleUntilUs k \<le> nowUs"

definition verdict_kept :: "'w consumer \<Rightarrow> 'w consumer \<Rightarrow> bool" where
  "verdict_kept k k' \<longleftrightarrow> k_verdict k' \<in> {k_verdict k, V_NONE, V_FAILED, V_REVERTED}"

lemma emit_verdict: "k_verdict (fst (emit m k)) \<in> {k_verdict k, V_FAILED}"
  by (auto simp: emit_def call_sink_def split: option.split prod.split)

lemma sendChunk_verdict: "k_verdict (fst (sendChunk k)) \<in> {k_verdict k, V_FAILED}"
proof (cases "findOtaBundleImage (k_bundle k) (k_targetSlot k)")
  case (Some img)
  let ?m = "ToUpdater (Chunk (k_session k) (pg_sentBytes (k_progress k)) (take (unat (min (pg_totalBytes (k_progress k) - pg_sentBytes (k_progress k))
    (k_chunkData k))) (drop (unat (pg_sentBytes (k_progress k))) (bi_bytes img))))"
  show ?thesis using emit_verdict [of ?m k] by (cases "emit ?m k") (auto simp: sendChunk_def Let_def Some split: bool.split)
qed (simp add: sendChunk_def)

lemma loop_verdict: "k_verdict (fst (chunk_loop nowUs wb k b)) \<in> {k_verdict k, V_FAILED}"
proof (rule loop_rule [where P = "\<lambda>k'. k_verdict k' \<in> {k_verdict k, V_FAILED}"])
  show "k_verdict k2 \<in> {k_verdict k, V_FAILED}" if "k_verdict k1 \<in> {k_verdict k, V_FAILED}" "sendChunk k1 = (k2, ok)" for k1 k2 ok
    using sendChunk_verdict [of k1] that by auto
qed simp_all

lemma pump_verdict: "k_verdict (pumpChunks nowUs k) \<in> {k_verdict k, V_FAILED}"
  using loop_verdict [of nowUs "OTA_CHUNK_ACK_WINDOW * k_chunkData k" k False]
  by (auto simp: pumpChunks_def split: prod.split bool.split)

lemma kept_upd:
  "verdict_kept k (notifyChange k1) = verdict_kept k k1" "verdict_kept k (enter p k1) = verdict_kept k k1" "verdict_kept k (fail r k1)"
  "verdict_kept k k" "verdict_kept k (k1\<lparr> k_verdict := V_NONE \<rparr>)" "verdict_kept k (k1\<lparr> k_verdict := V_FAILED \<rparr>)"
  "verdict_kept k (k1\<lparr> k_verdict := V_REVERTED \<rparr>)"
  "verdict_kept k (k1\<lparr> k_progress := x0 \<rparr>) = verdict_kept k k1" "verdict_kept k (k1\<lparr> k_nextChunkUs := x1 \<rparr>) = verdict_kept k k1"
   "verdict_kept k (k1\<lparr> k_chunkDeadlineUs := x2 \<rparr>) = verdict_kept k k1" "verdict_kept k (k1\<lparr> k_settleUntilUs := x3 \<rparr>) = verdict_kept k k1"
   "verdict_kept k (k1\<lparr> k_deadlineUs := x4 \<rparr>) = verdict_kept k k1" "verdict_kept k (k1\<lparr> k_stalledRounds := x5 \<rparr>) = verdict_kept k k1"
   "verdict_kept k (k1\<lparr> k_resendOffset := x6 \<rparr>) = verdict_kept k k1" "verdict_kept k (k1\<lparr> k_resendGuardUs := x7 \<rparr>) = verdict_kept k k1"
   "verdict_kept k (k1\<lparr> k_statusTries := x8 \<rparr>) = verdict_kept k k1" "verdict_kept k (k1\<lparr> k_nextStatusUs := x9 \<rparr>) = verdict_kept k k1"
   "verdict_kept k (k1\<lparr> k_ackTries := x10 \<rparr>) = verdict_kept k k1" "verdict_kept k (k1\<lparr> k_bundlePath := x11 \<rparr>) = verdict_kept k k1"
   "verdict_kept k (k1\<lparr> k_bundle := x12 \<rparr>) = verdict_kept k k1" "verdict_kept k (k1\<lparr> k_bundleFileTime := x13 \<rparr>) = verdict_kept k k1"
   "verdict_kept k (k1\<lparr> k_bundleFileSize := x14 \<rparr>) = verdict_kept k k1" "verdict_kept k (k1\<lparr> k_lastError := x15 \<rparr>) = verdict_kept k k1"
   "verdict_kept k (k1\<lparr> k_targetSlot := x16 \<rparr>) = verdict_kept k k1" "verdict_kept k (k1\<lparr> k_session := x17 \<rparr>) = verdict_kept k k1"
   "verdict_kept k (k1\<lparr> k_chunkData := x18 \<rparr>) = verdict_kept k k1" "verdict_kept k (k1\<lparr> k_previousKnown := x19 \<rparr>) = verdict_kept k k1"
   "verdict_kept k (k1\<lparr> k_previousBuildEpoch := x20 \<rparr>) = verdict_kept k k1" "verdict_kept k (k1\<lparr> k_world := x21 \<rparr>) = verdict_kept k k1"
   "verdict_kept k (k1\<lparr> k_board := x22 \<rparr>) = verdict_kept k k1"
  by (simp_all add: verdict_kept_def)

lemma kept_pump: "verdict_kept k k1 \<Longrightarrow> verdict_kept k (pumpChunks t k1)"
  using pump_verdict [of t k1] by (auto simp: verdict_kept_def)

lemma kept_emit: "verdict_kept k k1 \<Longrightarrow> verdict_kept k (fst (emit m k1))"
  using emit_verdict [of m k1] by (auto simp: verdict_kept_def)

lemma ack_verdict: "verdict_kept k (onAck session op result nowUs k)" "verdict_kept k (onChunkAck session n nowUs k)"
  by (simp_all add: onAck_def onChunkAck_def resume_at_def resend_at_def advance_to_def Let_def sendReboot_def kept_upd kept_pump kept_emit)

lemma tick_verdict: "verdict_kept k (OtaConsumer_tick env t k)"
proof -
  have "verdict_kept k1 (tick_phase t k1)" for k1 :: "'a consumer"
    by (simp add: tick_phase_def tick_transfer_def status_poll_def sendStatusRequest_def sendRevert_def kept_upd kept_pump kept_emit split: ota_phase.split)
  then show ?thesis unfolding OtaConsumer_tick_def using refresh_keeps(2) [of env t k] by (metis verdict_kept_def)
qed

lemma request_verdict:
  "verdict_kept k (fst (OtaConsumer_start env path t k))" "verdict_kept k (fst (OtaConsumer_abortSession k))"
  "verdict_kept k (fst (OtaConsumer_revert t k))" "verdict_kept k (fst (OtaConsumer_requestBoardStatus k))"
proof -
  show "verdict_kept k (fst (OtaConsumer_start env path t k))"
    by (simp add: OtaConsumer_start_def Let_def sendStatusRequest_def kept_upd kept_emit split: sum.split)
  show "verdict_kept k (fst (OtaConsumer_abortSession k))" by (simp add: OtaConsumer_abortSession_def kept_upd)
  show "verdict_kept k (fst (OtaConsumer_revert t k))" by (simp add: OtaConsumer_revert_def sendRevert_def kept_upd kept_emit)
  show "verdict_kept k (fst (OtaConsumer_requestBoardStatus k))"
    by (auto simp: OtaConsumer_requestBoardStatus_def call_sink_def kept_upd split: option.split prod.split)
qed

lemma open_verdict: "verdict_kept k (openTransfer env t k)"
  by (auto simp: openTransfer_def Let_def kept_upd split: option.split prod.split intro!: kept_emit)

lemma status_verdict:
  assumes "\<not> judging k nowUs"
  shows "verdict_kept k (onStatus env status nowUs k)"
proof -
  have "verdict_kept k (openTransfer env nowUs (k\<lparr> k_board := b \<rparr>))" for b
    using open_verdict [of "k\<lparr> k_board := b \<rparr>" env nowUs] by (simp add: verdict_kept_def)
  then show ?thesis using assms
    by (auto simp: onStatus_def Let_def judging_def kept_upd split: ota_phase.split)
qed

lemma judged_status:
  assumes "judging k nowUs"
  shows "k_verdict (onStatus env status nowUs k) =
    (if confirms k status nowUs then V_CONFIRMED else if rolled_back k status nowUs then V_ROLLED_BACK
     else if k_phase k = WAITING_BOARD \<and> bs_buildEpoch (board_of status nowUs) \<noteq> ob_buildEpoch (k_bundle k) then V_FAILED else k_verdict k)"
proof -
  have "bs_seen (board_of status nowUs)" by (simp add: board_of_def Let_def)
  then show ?thesis using assms
    by (auto simp: onStatus_def Let_def judging_def judgeReturn_def confirms_def rolled_back_def boardRunsBundle_def boardRunsPrevious_def not_le)
qed

text \<open>(C29) A verdict is read off the board. The consumer concludes that an update is confirmed exactly when,
  waiting for the board after the settling time or watching a trial, it receives a status in which
  the running slot carries the build of the bundle and is not on trial; and that it was rolled back
  exactly when the status carries the build the board ran before. When the two builds are the same one,
  the build of the bundle goes first. No other event of any kind - no acknowledgement, timeout or
  request - produces either verdict.\<close>

theorem consumer_verdict_sound:
  assumes "k_verdict k \<notin> {V_CONFIRMED, V_ROLLED_BACK}"
  shows "(k_verdict (consumer_step env e k) = V_CONFIRMED \<longleftrightarrow>
      (\<exists>status now. e = Incoming (OtaStatus status) now \<and> judging k now \<and> confirms k status now)) \<and>
    (k_verdict (consumer_step env e k) = V_ROLLED_BACK \<longleftrightarrow>
      (\<exists>status now. e = Incoming (OtaStatus status) now \<and> judging k now \<and> rolled_back k status now))"
proof (cases "\<exists>status now. e = Incoming (OtaStatus status) now \<and> judging k now")
  case True
  then show ?thesis using assms by (auto simp: judged_status rolled_back_def confirms_def split: if_splits)
next
  case False
  have "verdict_kept k (consumer_step env e k)"
  proof (cases e)
    case (Incoming m now)
    then show ?thesis using False ack_verdict status_verdict by (cases m) (auto simp: kept_upd)
  qed (simp_all add: request_verdict tick_verdict)
  then show ?thesis using assms False by (auto simp: verdict_kept_def)
qed

theorem consumer_verdict_sound_witness:
  "k_verdict (consumer_step no_env (Incoming (OtaStatus \<lparr> ws_mcu = 1, ws_running_slot = 1, ws_active_slot = 1, ws_updater_busy = False,
      ws_slots = [\<lparr> wl_state = 3, wl_build_epoch = 7, wl_git_hash = [] \<rparr>, \<lparr> wl_state = 3, wl_build_epoch = 9, wl_git_hash = [] \<rparr>],
      ws_slot_size = 1000, ws_max_chunk_data = 240 \<rparr>) 50)
    (open_route\<lparr> k_phase := TESTING, k_bundle := OtaBundle_init\<lparr> ob_buildEpoch := 9 \<rparr> \<rparr>)) = V_CONFIRMED"
proof -
  let ?k = "open_route\<lparr> k_phase := TESTING, k_bundle := OtaBundle_init\<lparr> ob_buildEpoch := 9 \<rparr> \<rparr>"
  let ?s = "\<lparr> ws_mcu = 1, ws_running_slot = 1, ws_active_slot = 1, ws_updater_busy = False,
      ws_slots = [\<lparr> wl_state = 3, wl_build_epoch = 7, wl_git_hash = [] \<rparr>, \<lparr> wl_state = 3, wl_build_epoch = 9, wl_git_hash = [] \<rparr>],
      ws_slot_size = 1000, ws_max_chunk_data = 240 \<rparr>"
  have "k_verdict ?k \<notin> {V_CONFIRMED, V_ROLLED_BACK}"
    by (simp add: ground_station_def setDefaultBundlePath_def setOnChange_def setSink_def OtaConsumer_init_def)
  moreover have "judging ?k 50 \<and> confirms ?k ?s 50"
    by (simp add: judging_def confirms_def board_of_def running_state_def slot_state_code_def OTA_SLOT_COUNT_def upt_rec Let_def)
  ultimately show ?thesis using consumer_verdict_sound [of ?k no_env "Incoming (OtaStatus ?s) 50"] by blast
qed


section \<open>A refused begin\<close>

text \<open>(C39) A refused begin is not heard. Whatever the reason for which a board refuses to open a session -
  armed, low battery, another session, a bad size, a store that fails - it answers under the nonce
  zero, and a consumer waiting for the erase takes that acknowledgement as one of another session:
  nothing changes, the reason is lost, and the session ends on the erase deadline with the text of a
  timeout.\<close>

theorem refused_begin_unheard:
  assumes "handleBegin st session n crc inp u s = (u', s', r)" "r \<noteq> Ack OtaOp_BEGIN session OTA_OK"
    and "k_phase k = ERASING" "k_session k = session" "session \<noteq> 0"
  shows "\<exists>m. wire_reply r = Some m \<and> OtaConsumer_onEnvelope env m nowUs k = (k, True) \<and>
    (k_deadlineUs k \<le> later \<or> k_phase (OtaConsumer_tick env later k) = ERASING) \<and>
    (later < k_deadlineUs k \<or> k_lastError (OtaConsumer_tick env later k) =
       ''the board did not finish erasing slot '' @ slotLetter (k_targetSlot k) @ '' in time'')"
proof -
  obtain res where r: "r = Ack OtaOp_BEGIN 0 res"
    using assms(1,2) by (auto simp: handleBegin_def Let_def split_beta split: if_splits option.splits)
  have b: "OtaConsumer_busy k" using assms(3) by (simp add: OtaConsumer_busy_def busy_phase_def)
  have "OtaConsumer_onEnvelope env (OtaAck 0 (op_code OtaOp_BEGIN) (result_code res)) nowUs k = (k, True)"
    using assms(4,5) by (simp add: onAck_def)
  moreover have "OtaConsumer_tick env later k = tick_phase later k" using b by (simp add: OtaConsumer_tick_def refreshBundle_def)
  ultimately show ?thesis using r assms(3) by (auto simp: tick_phase_def)
qed


theorem refused_begin_unheard_witness:
  "\<exists>m. wire_reply (Ack OtaOp_BEGIN 0 DENIED_ARMED) = Some m \<and>
     OtaConsumer_onEnvelope no_env m 20 (open_route\<lparr> k_phase := ERASING, k_session := 7, k_deadlineUs := 90 \<rparr>) =
       (open_route\<lparr> k_phase := ERASING, k_session := 7, k_deadlineUs := 90 \<rparr>, True)"
proof -
  let ?k = "open_route\<lparr> k_phase := ERASING, k_session := 7, k_deadlineUs := 90 \<rparr>" and ?inp = "\<lparr> in_armed = True, in_voltageOk = True, in_nowUs = 0 \<rparr>"
  have "handleBegin (FirmwareStoreStm32 sound_ctl) 7 520 1 ?inp (OtaUpdater_init True) blank_board = (OtaUpdater_init True, blank_board, Ack OtaOp_BEGIN 0 DENIED_ARMED)"
    by (simp add: handleBegin_def)
  from refused_begin_unheard [OF this, of ?k no_env 20 95] show ?thesis by auto
qed

end
