(* ===== verification/Node_Table.thy ===== *)
theory Node_Table
  imports Messenger
begin

text \<open>
  What the services above the messenger share. A service keeps one entry per node in an array whose
  used part is a dense prefix, found by a walk (\<^verbatim>\<open>lookup\<close>, \<^verbatim>\<open>find\<close>) and closed up by moving the last
  entry into the freed place; the list \<open>es\<close> is that prefix and \<open>key\<close> the id of an entry. The listeners
  of a service attach to a table of fixed size that counts those it has no room for. The services reach
  the wire through the messenger and the console through the log library: the record \<open>port\<close> is what
  these do to the world, for any type of world.

  Read as a map from node ids to entries, under distinct ids, the three operations on the array are
  insertion, update and deletion.
\<close>


section \<open>Ports\<close>

datatype log_level = TRACE | DEBUG | INFO | WARN | ERROR

text \<open>\<^verbatim>\<open>Messenger::send\<close> tells whether the message went out, \<^verbatim>\<open>AbsMessageHandler::request\<close> the id of the request,
  0 when it was not taken.\<close>

record ('b, 'w) port =
  pt_send :: "u32 \<Rightarrow> 'b \<Rightarrow> 'w \<Rightarrow> 'w \<times> bool"
  pt_request :: "request_policy \<Rightarrow> u32 \<Rightarrow> 'b \<Rightarrow> 'w \<Rightarrow> 'w \<times> u32"
  pt_log :: "log_level \<Rightarrow> string \<Rightarrow> 'w \<Rightarrow> 'w"

text \<open>A world that only records, over answers the test of a property chooses.\<close>

datatype 'b traffic = Sent u32 'b | Asked request_policy u32 'b | Logged log_level string

definition recorder :: "(u32 \<Rightarrow> bool) \<Rightarrow> (u32 \<Rightarrow> u32) \<Rightarrow> ('b, 'b traffic list) port" where
  "recorder sent_ok nid = \<lparr> pt_send = (\<lambda>dst b w. (w @ [Sent dst b], sent_ok dst)),
     pt_request = (\<lambda>p dst b w. (w @ [Asked p dst b], nid dst)), pt_log = (\<lambda>l t w. w @ [Logged l t]) \<rparr>"

lemma recorder_simps [simp]:
  "pt_send (recorder ok nid) dst b w = (w @ [Sent dst b], ok dst)" "pt_request (recorder ok nid) p dst b w = (w @ [Asked p dst b], nid dst)"
  "pt_log (recorder ok nid) l t w = w @ [Logged l t]"
  by (simp_all add: recorder_def)


section \<open>Listeners\<close>

definition listener_attach :: "nat \<Rightarrow> nat \<Rightarrow> nat list \<times> u32 \<Rightarrow> nat list \<times> u32" where
  "listener_attach cap l = (\<lambda>(ls, overflow). if cap \<le> length ls then (ls, overflow + 1) else (ls @ [l], overflow))"

definition listener_detach :: "nat \<Rightarrow> nat list \<times> u32 \<Rightarrow> nat list \<times> u32" where
  "listener_detach l = (\<lambda>(ls, overflow).
     if l \<in> set ls then (remove1 l ls, overflow) else (ls, if 0 < overflow then overflow - 1 else overflow))"


section \<open>Entries by node id\<close>

definition entry_lookup :: "('e \<Rightarrow> u32) \<Rightarrow> u32 \<Rightarrow> 'e list \<Rightarrow> 'e option" where
  "entry_lookup key nid es = find (\<lambda>e. key e = nid) es"

text \<open>Writing through the pointer \<^verbatim>\<open>lookup\<close> returned: the first entry of that id.\<close>

fun entry_update :: "('e \<Rightarrow> u32) \<Rightarrow> u32 \<Rightarrow> 'e \<Rightarrow> 'e list \<Rightarrow> 'e list" where
  "entry_update key nid e' [] = []"
| "entry_update key nid e' (e # es) = (if key e = nid then e' # es else e # entry_update key nid e' es)"

text \<open>The last entry takes the place of the one that goes.\<close>

definition entry_remove :: "('e \<Rightarrow> u32) \<Rightarrow> u32 \<Rightarrow> 'e list \<Rightarrow> 'e list" where
  "entry_remove key nid es = (if entry_lookup key nid es = None then es else butlast (entry_update key nid (last es) es))"

abbreviation ids_of :: "('e \<Rightarrow> u32) \<Rightarrow> 'e list \<Rightarrow> u32 set" where
  "ids_of key es \<equiv> key ` set es"

lemma entry_None: "entry_lookup key nid es = None \<longleftrightarrow> nid \<notin> ids_of key es"
  by (auto simp: entry_lookup_def find_None_iff)

lemma entry_Some: "entry_lookup key nid es = Some e \<Longrightarrow> e \<in> set es \<and> key e = nid"
  by (auto simp: entry_lookup_def find_Some_iff)

lemma lookup_mem: "distinct (map key es) \<Longrightarrow> e \<in> set es \<Longrightarrow> entry_lookup key (key e) es = Some e"
  unfolding entry_lookup_def by (induction es) auto

lemma entry_unique: "distinct (map key es) \<Longrightarrow> entry_lookup key nid es = Some e \<longleftrightarrow> e \<in> set es \<and> key e = nid"
  using lookup_mem entry_Some by metis

lemma length_update [simp]: "length (entry_update key nid e' es) = length es"
  by (induction es) auto

lemma map_key_update: "key e' = nid \<Longrightarrow> map key (entry_update key nid e' es) = map key es"
  by (induction es) auto

lemma lookup_update:
  "key e' = nid \<Longrightarrow> nid \<in> ids_of key es \<Longrightarrow> entry_lookup key i (entry_update key nid e' es) = (if i = nid then Some e' else entry_lookup key i es)"
  unfolding entry_lookup_def by (induction es) auto

lemma set_update: "e \<in> set (entry_update key nid e' es) \<Longrightarrow> e = e' \<or> e \<in> set es"
  by (induction es) (auto split: if_splits)

lemma lookup_snoc:
  "key e \<notin> ids_of key es \<Longrightarrow> entry_lookup key i (es @ [e]) = (if i = key e then Some e else entry_lookup key i es)"
  unfolding entry_lookup_def by (induction es) auto

lemma set_butlast_update:
  assumes "distinct (map key es)" "nid \<in> ids_of key es"
  shows "set (butlast (entry_update key nid (last es) es)) = {e \<in> set es. key e \<noteq> nid} \<and>
    distinct (map key (butlast (entry_update key nid (last es) es)))"
  using assms
proof (induction es)
  case (Cons e es)
  show ?case
  proof (cases "es = []")
    case True
    then show ?thesis using Cons.prems by simp
  next
    case False
    then have l: "last es \<in> set es" by simp
    show ?thesis
    proof (cases "key e = nid")
      case True
      have b: "set es = insert (last es) (set (butlast es))" using False by (metis append_butlast_last_id list.simps(15) rotate1.simps(2) set_rotate1)
      have d: "distinct (map key (butlast es) @ [key (last es)])"
        using Cons.prems(1) False by (metis append_butlast_last_id distinct.simps(2) list.simps(9) map_append map_is_Nil_conv list.map(1))
      have "\<forall>x \<in> set es. key x \<noteq> nid" using Cons.prems(1) True by (auto simp: image_iff)
      then show ?thesis using True False b d by auto
    next
      case ne: False
      have "entry_update key nid (last es) es \<noteq> []" using False by (metis length_0_conv length_update)
      moreover have "set (butlast (entry_update key nid (last es) es)) = {x \<in> set es. key x \<noteq> nid} \<and>
          distinct (map key (butlast (entry_update key nid (last es) es)))"
        using Cons.IH Cons.prems ne by auto
      ultimately show ?thesis using ne False Cons.prems(1) by auto
    qed
  qed
qed simp

text \<open>Read as a map.\<close>

lemma distinct_remove: "distinct (map key es) \<Longrightarrow> distinct (map key (entry_remove key nid es))"
  using set_butlast_update [of key es nid] by (auto simp: entry_remove_def entry_None)

lemma set_remove: "distinct (map key es) \<Longrightarrow> set (entry_remove key nid es) = {e \<in> set es. key e \<noteq> nid}"
  using set_butlast_update [of key es nid] by (auto simp: entry_remove_def entry_None)

lemma lookup_remove:
  assumes "distinct (map key es)"
  shows "entry_lookup key i (entry_remove key nid es) = (if i = nid then None else entry_lookup key i es)"
proof -
  have "entry_lookup key i (entry_remove key nid es) = Some e \<longleftrightarrow> (if i = nid then None else entry_lookup key i es) = Some e" for e
    using assms entry_unique [OF distinct_remove [OF assms], of i nid e] by (auto simp: entry_unique set_remove)
  then show ?thesis by (metis not_None_eq)
qed

lemma length_remove: "nid \<in> ids_of key es \<Longrightarrow> length (entry_remove key nid es) = length es - 1"
  by (simp add: entry_remove_def entry_None)

lemma length_remove_le: "length (entry_remove key nid es) \<le> length es"
  by (simp add: entry_remove_def)

lemmas table_lookups = lookup_update lookup_snoc lookup_remove

end
