(* ===== verification/Discovery.thy ===== *)
theory Discovery
  imports Node_Table
begin

text \<open>
  Who is on the network (\<^verbatim>\<open>components/discovery\<close>). Every node answers an identity request with its announce
  (\<^verbatim>\<open>Discovery\<close>); a ground node also keeps a directory of the others (\<^verbatim>\<open>DiscoveryDirectory\<close>): an entry opens
  when the transport reports the node up, is asked for its identity at the next tick, and is known, or
  mute when the messenger gives up on the request.

  The transport and the schema hash of the build are parameters: \<open>hops_of\<close> is \<^verbatim>\<open>Transport::findNode\<close> read for
  the distance, \<open>wire_hash\<close> is \<^verbatim>\<open>WIRE_HASH\<close>. The messenger and the listeners act on the world.

  The specification is a map from the nodes that are up to what is known of them.
\<close>


section \<open>State\<close>

record announce =
  an_kind :: u32
  an_name :: string
  an_mcu :: u32
  an_build_epoch :: u32
  an_git_hash :: string
  an_wire_hash :: u32

definition Announce_init :: announce where
  "Announce_init = \<lparr> an_kind = 0, an_name = [], an_mcu = 0, an_build_epoch = 0, an_git_hash = [], an_wire_hash = 0 \<rparr>"

text \<open>The kinds of nodes of the schema the services name.\<close>

definition NodeKind_FIRMWARE :: u32 where "NodeKind_FIRMWARE = 1"
definition NodeKind_DRONE_SIM :: u32 where "NodeKind_DRONE_SIM = 2"
definition NodeKind_GATEWAY :: u32 where "NodeKind_GATEWAY = 4"
definition NodeKind_RELAY :: u32 where "NodeKind_RELAY = 6"

datatype discovery_body = IdentityRequest | Announce announce

datatype entry_state = PENDING | KNOWN | MUTE

record directory_entry =
  de_id :: u32
  de_state :: entry_state
  de_announce :: announce
  de_wireMismatch :: bool
  de_hops :: u8
  de_askedUs :: u64
  de_requests :: u8
  de_updatedUs :: u64

definition DirectoryEntry_init :: directory_entry where
  "DirectoryEntry_init = \<lparr> de_id = 0, de_state = PENDING, de_announce = Announce_init, de_wireMismatch = False, de_hops = 0,
     de_askedUs = 0, de_requests = 0, de_updatedUs = 0 \<rparr>"

definition MAX_ENTRIES :: nat where "MAX_ENTRIES = MAX_NODES"
definition DIRECTORY_MAX_LISTENERS :: nat where "DIRECTORY_MAX_LISTENERS = 8"
definition IDENTITY_TIMEOUT_US :: u64 where "IDENTITY_TIMEOUT_US = 500000"
definition IDENTITY_RETRIES :: u8 where "IDENTITY_RETRIES = 5"

record 'w directory =
  d_self :: announce
  d_answered :: u32
  d_entries :: "directory_entry list"
  d_listeners :: "nat list"
  d_listenersOverflow :: u32
  d_requests :: u32
  d_learnt :: u32
  d_muted :: u32
  d_dropped :: u32
  d_lastTickUs :: u64
  d_world :: 'w

definition DiscoveryDirectory_init :: "announce \<Rightarrow> 'w \<Rightarrow> 'w directory" where
  "DiscoveryDirectory_init self w = \<lparr> d_self = self, d_answered = 0, d_entries = [], d_listeners = [], d_listenersOverflow = 0,
     d_requests = 0, d_learnt = 0, d_muted = 0, d_dropped = 0, d_lastTickUs = 0, d_world = w \<rparr>"

text \<open>The surroundings of a directory: the messenger, the two calls of a listener (by its number), the
  transport and the hash of the schema.\<close>

record 'w surroundings =
  sr_port :: "(discovery_body, 'w) port"
  sr_onIdentity :: "nat \<Rightarrow> directory_entry \<Rightarrow> 'w \<Rightarrow> 'w"
  sr_onForgotten :: "nat \<Rightarrow> u32 \<Rightarrow> 'w \<Rightarrow> 'w"
  sr_hops_of :: "'w \<Rightarrow> u32 \<Rightarrow> u8 option"
  sr_wire_hash :: u32


section \<open>Operations\<close>

definition sameAnnounce :: "announce \<Rightarrow> announce \<Rightarrow> bool" where
  "sameAnnounce a b \<longleftrightarrow> an_kind a = an_kind b \<and> an_mcu a = an_mcu b \<and> an_build_epoch a = an_build_epoch b \<and>
     an_wire_hash a = an_wire_hash b \<and> an_name a = an_name b \<and> an_git_hash a = an_git_hash b"

definition Directory_lookup :: "u32 \<Rightarrow> 'w directory \<Rightarrow> directory_entry option" where
  "Directory_lookup nodeId d = entry_lookup de_id nodeId (d_entries d)"

definition put_entry :: "directory_entry \<Rightarrow> 'w directory \<Rightarrow> 'w directory" where
  "put_entry e d = d\<lparr> d_entries := entry_update de_id (de_id e) e (d_entries d) \<rparr>"

definition with_hops :: "'w surroundings \<Rightarrow> 'w directory \<Rightarrow> directory_entry \<Rightarrow> directory_entry" where
  "with_hops sr d e = (case sr_hops_of sr (d_world d) (de_id e) of Some h \<Rightarrow> e\<lparr> de_hops := h \<rparr> | None \<Rightarrow> e)"

definition tell_identity :: "'w surroundings \<Rightarrow> directory_entry \<Rightarrow> 'w directory \<Rightarrow> 'w directory" where
  "tell_identity sr e d = d\<lparr> d_world := fold (\<lambda>l. sr_onIdentity sr l e) (d_listeners d) (d_world d) \<rparr>"

definition tell_forgotten :: "'w surroundings \<Rightarrow> u32 \<Rightarrow> 'w directory \<Rightarrow> 'w directory" where
  "tell_forgotten sr nodeId d = d\<lparr> d_world := fold (\<lambda>l. sr_onForgotten sr l nodeId) (d_listeners d) (d_world d) \<rparr>"

text \<open>\<^verbatim>\<open>Discovery::onMessage\<close>: the answer is a request of its own.\<close>

definition Discovery_onMessage :: "'w surroundings \<Rightarrow> u32 \<Rightarrow> 'w directory \<Rightarrow> 'w directory" where
  "Discovery_onMessage sr src d =
     (let (w, _) = pt_request (sr_port sr) RequestPolicy_default src (Announce (d_self d)) (d_world d) in
      d\<lparr> d_world := w, d_answered := d_answered d + 1 \<rparr>)"

definition learn_announce :: "'w surroundings \<Rightarrow> announce \<Rightarrow> u64 \<Rightarrow> directory_entry \<Rightarrow> 'w directory \<Rightarrow> 'w directory" where
  "learn_announce sr a nowUs e d =
     (let changed = (de_state e \<noteq> KNOWN \<or> \<not> sameAnnounce (de_announce e) a);
          e = (with_hops sr d (e\<lparr> de_announce := a, de_wireMismatch := (an_wire_hash a \<noteq> sr_wire_hash sr) \<rparr>))\<lparr> de_state := KNOWN \<rparr>;
          d = d\<lparr> d_learnt := d_learnt d + 1 \<rparr> in
      if changed then let e = e\<lparr> de_updatedUs := nowUs \<rparr> in tell_identity sr e (put_entry e d)
      else put_entry e d)"

fun DiscoveryDirectory_onMessage :: "'w surroundings \<Rightarrow> u32 \<Rightarrow> discovery_body \<Rightarrow> u64 \<Rightarrow> 'w directory \<Rightarrow> 'w directory" where
  "DiscoveryDirectory_onMessage sr src IdentityRequest nowUs d = Discovery_onMessage sr src d"
| "DiscoveryDirectory_onMessage sr src (Announce a) nowUs d =
     (case Directory_lookup src d of
        Some e \<Rightarrow> learn_announce sr a nowUs e d
      | None \<Rightarrow>
          if MAX_ENTRIES \<le> length (d_entries d) then d
          else let e = DirectoryEntry_init\<lparr> de_id := src \<rparr> in
            learn_announce sr a nowUs e (d\<lparr> d_entries := d_entries d @ [e] \<rparr>))"

definition DiscoveryDirectory_onNodeUp :: "'w surroundings \<Rightarrow> u32 \<Rightarrow> 'w directory \<Rightarrow> 'w directory" where
  "DiscoveryDirectory_onNodeUp sr nodeId d =
     (let e = with_hops sr d (DirectoryEntry_init\<lparr> de_id := nodeId \<rparr>) in
      case Directory_lookup nodeId d of
        Some _ \<Rightarrow> put_entry e d
      | None \<Rightarrow>
          if MAX_ENTRIES \<le> length (d_entries d) then d\<lparr> d_dropped := d_dropped d + 1 \<rparr>
          else d\<lparr> d_entries := d_entries d @ [e] \<rparr>)"

definition DiscoveryDirectory_onNodeDown :: "'w surroundings \<Rightarrow> u32 \<Rightarrow> 'w directory \<Rightarrow> 'w directory" where
  "DiscoveryDirectory_onNodeDown sr nodeId d =
     (if Directory_lookup nodeId d = None then d
      else tell_forgotten sr nodeId (d\<lparr> d_entries := entry_remove de_id nodeId (d_entries d) \<rparr>))"

definition DiscoveryDirectory_onRequestFailed :: "u32 \<Rightarrow> 'w directory \<Rightarrow> 'w directory" where
  "DiscoveryDirectory_onRequestFailed dst d =
     (case Directory_lookup dst d of
        None \<Rightarrow> d
      | Some e \<Rightarrow>
          if de_state e \<noteq> PENDING then d
          else put_entry (e\<lparr> de_state := MUTE, de_updatedUs := d_lastTickUs d \<rparr>) (d\<lparr> d_muted := d_muted d + 1 \<rparr>))"

definition Directory_ask :: "'w surroundings \<Rightarrow> u64 \<Rightarrow> directory_entry \<Rightarrow> 'w directory \<Rightarrow> 'w directory \<times> directory_entry" where
  "Directory_ask sr nowUs e d =
     (let (w, r) = pt_request (sr_port sr) \<lparr> rp_periodUs = IDENTITY_TIMEOUT_US, rp_retries = IDENTITY_RETRIES \<rparr> (de_id e) IdentityRequest (d_world d);
          d = d\<lparr> d_world := w, d_requests := d_requests d + 1 \<rparr> in
      if r = 0 then (d, e) else (d, e\<lparr> de_askedUs := nowUs, de_requests := 1 \<rparr>))"

text \<open>The walk of a tick: the entries already visited and those still ahead.\<close>

fun tick_entries :: "'w surroundings \<Rightarrow> u64 \<Rightarrow> directory_entry list \<Rightarrow> 'w directory \<Rightarrow> 'w directory \<times> directory_entry list" where
  "tick_entries sr nowUs [] d = (d, [])"
| "tick_entries sr nowUs (e # es) d =
     (let (d, e) = (if de_state e = PENDING \<and> de_requests e = 0 then Directory_ask sr nowUs e d else (d, e));
          (d, es) = tick_entries sr nowUs es d in
      (d, e # es))"

definition DiscoveryDirectory_tick :: "'w surroundings \<Rightarrow> u64 \<Rightarrow> 'w directory \<Rightarrow> 'w directory" where
  "DiscoveryDirectory_tick sr nowUs d =
     (let (d, es) = tick_entries sr nowUs (d_entries d) (d\<lparr> d_lastTickUs := nowUs \<rparr>) in d\<lparr> d_entries := es \<rparr>)"

definition DiscoveryDirectory_nodesOfKind :: "u32 list \<Rightarrow> nat \<Rightarrow> 'w directory \<Rightarrow> directory_entry list" where
  "DiscoveryDirectory_nodesOfKind kinds room d =
     take room (filter (\<lambda>e. de_state e = KNOWN \<and> an_kind (de_announce e) \<in> set kinds) (d_entries d))"

definition DiscoveryDirectory_attach :: "nat \<Rightarrow> 'w directory \<Rightarrow> 'w directory" where
  "DiscoveryDirectory_attach l d =
     (let (ls, n) = listener_attach DIRECTORY_MAX_LISTENERS l (d_listeners d, d_listenersOverflow d) in d\<lparr> d_listeners := ls, d_listenersOverflow := n \<rparr>)"

definition DiscoveryDirectory_detach :: "nat \<Rightarrow> 'w directory \<Rightarrow> 'w directory" where
  "DiscoveryDirectory_detach l d =
     (let (ls, n) = listener_detach l (d_listeners d, d_listenersOverflow d) in d\<lparr> d_listeners := ls, d_listenersOverflow := n \<rparr>)"

definition DiscoveryDirectory_ready :: "'w directory \<Rightarrow> bool" where
  "DiscoveryDirectory_ready d \<longleftrightarrow> d_listenersOverflow d = 0"


section \<open>Runs\<close>

datatype directory_event = Up u32 | Down u32 | Heard u32 discovery_body u64 | GaveUp u32 | DirTick u64 | Attach nat | Detach nat

fun directory_step :: "'w surroundings \<Rightarrow> directory_event \<Rightarrow> 'w directory \<Rightarrow> 'w directory" where
  "directory_step sr (Up n) d = DiscoveryDirectory_onNodeUp sr n d"
| "directory_step sr (Down n) d = DiscoveryDirectory_onNodeDown sr n d"
| "directory_step sr (Heard n b now) d = DiscoveryDirectory_onMessage sr n b now d"
| "directory_step sr (GaveUp n) d = DiscoveryDirectory_onRequestFailed n d"
| "directory_step sr (DirTick now) d = DiscoveryDirectory_tick sr now d"
| "directory_step sr (Attach l) d = DiscoveryDirectory_attach l d"
| "directory_step sr (Detach l) d = DiscoveryDirectory_detach l d"


section \<open>The map of the network\<close>

text \<open>What a node that is up is to the directory, and what each event does to that knowledge when the
  directory has at most \<^verbatim>\<open>MAX_ENTRIES\<close> places.\<close>

datatype knowledge = Asking | Identified announce | Silent

definition know :: "directory_entry \<Rightarrow> knowledge" where
  "know e = (case de_state e of PENDING \<Rightarrow> Asking | KNOWN \<Rightarrow> Identified (de_announce e) | MUTE \<Rightarrow> Silent)"

definition network :: "'w directory \<Rightarrow> u32 \<rightharpoonup> knowledge" where
  "network d = (\<lambda>n. map_option know (Directory_lookup n d))"

definition room_for :: "u32 \<Rightarrow> (u32 \<rightharpoonup> knowledge) \<Rightarrow> bool" where
  "room_for n m \<longleftrightarrow> n \<in> dom m \<or> card (dom m) < MAX_ENTRIES"

fun network_step :: "directory_event \<Rightarrow> (u32 \<rightharpoonup> knowledge) \<Rightarrow> (u32 \<rightharpoonup> knowledge)" where
  "network_step (Up n) m = (if room_for n m then m(n \<mapsto> Asking) else m)"
| "network_step (Down n) m = m(n := None)"
| "network_step (Heard n (Announce a) now) m = (if room_for n m then m(n \<mapsto> Identified a) else m)"
| "network_step (GaveUp n) m = (if m n = Some Asking then m(n \<mapsto> Silent) else m)"
| "network_step _ m = m"

definition directory_ok :: "u32 \<Rightarrow> 'w directory \<Rightarrow> bool" where
  "directory_ok hash d \<longleftrightarrow> distinct (map de_id (d_entries d)) \<and> length (d_entries d) \<le> MAX_ENTRIES \<and>
     (\<forall>e \<in> set (d_entries d). de_requests e \<le> 1 \<and> (de_state e = KNOWN \<longrightarrow> de_wireMismatch e = (an_wire_hash (de_announce e) \<noteq> hash)))"

lemma network_dom: "dom (network d) = de_id ` set (d_entries d)"
  using entry_None [of de_id _ "d_entries d"] by (auto simp: network_def Directory_lookup_def dom_def)

lemma network_room:
  assumes "directory_ok hash d"
  shows "room_for n (network d) \<longleftrightarrow> Directory_lookup n d \<noteq> None \<or> length (d_entries d) < MAX_ENTRIES"
proof -
  have "card (dom (network d)) = length (d_entries d)"
    using assms distinct_card [of "map de_id (d_entries d)"] by (simp add: network_dom directory_ok_def)
  then show ?thesis by (auto simp: room_for_def network_dom Directory_lookup_def entry_None)
qed

lemma put_ok:
  assumes "directory_ok hash d" "de_requests e \<le> 1" "de_state e = KNOWN \<longrightarrow> de_wireMismatch e = (an_wire_hash (de_announce e) \<noteq> hash)"
  shows "directory_ok hash (put_entry e d)"
  using assms set_update [of _ de_id "de_id e" e "d_entries d"] by (auto simp: directory_ok_def put_entry_def map_key_update)

lemma put_network:
  "Directory_lookup (de_id e) d \<noteq> None \<Longrightarrow> network (put_entry e d) = (network d)(de_id e \<mapsto> know e)"
  by (auto simp: network_def put_entry_def Directory_lookup_def lookup_update entry_None)

lemma add_network:
  "Directory_lookup (de_id e) d = None \<Longrightarrow> network (d\<lparr> d_entries := d_entries d @ [e] \<rparr>) = (network d)(de_id e \<mapsto> know e)"
  by (auto simp: network_def Directory_lookup_def lookup_snoc entry_None)

lemma add_ok:
  assumes "directory_ok hash d" "Directory_lookup (de_id e) d = None" "length (d_entries d) < MAX_ENTRIES" "de_requests e \<le> 1" "de_state e \<noteq> KNOWN"
  shows "directory_ok hash (d\<lparr> d_entries := d_entries d @ [e] \<rparr>)"
  using assms by (auto simp: directory_ok_def Directory_lookup_def entry_None)

lemma hops_fields [simp]: "de_id (with_hops sr d e) = de_id e" "de_state (with_hops sr d e) = de_state e" "de_requests (with_hops sr d e) = de_requests e"
  "de_announce (with_hops sr d e) = de_announce e" "de_wireMismatch (with_hops sr d e) = de_wireMismatch e"
  by (simp_all add: with_hops_def split: option.split)

lemma same_view: "d_entries d' = d_entries d \<Longrightarrow> network d' = network d \<and> directory_ok hash d' = directory_ok hash d"
  by (simp add: network_def Directory_lookup_def directory_ok_def)

lemma put_same [simp]: "d_entries (tell_identity sr e d) = d_entries d" "d_entries (tell_forgotten sr n d) = d_entries d"
  by (simp_all add: tell_identity_def tell_forgotten_def)

lemma learn_step:
  assumes "directory_ok (sr_wire_hash sr) d" "Directory_lookup (de_id e) d = Some e"
  shows "directory_ok (sr_wire_hash sr) (learn_announce sr a nowUs e d) \<and> network (learn_announce sr a nowUs e d) = (network d)(de_id e \<mapsto> Identified a)"
proof -
  let ?d = "d\<lparr> d_learnt := d_learnt d + 1 \<rparr>"
  define e1 where "e1 = (with_hops sr d (e\<lparr> de_announce := a, de_wireMismatch := (an_wire_hash a \<noteq> sr_wire_hash sr) \<rparr>))\<lparr> de_state := KNOWN \<rparr>"
  have "de_requests e \<le> 1" using assms entry_Some [of de_id "de_id e" "d_entries d" e] by (auto simp: directory_ok_def Directory_lookup_def)
  then have e1: "de_id e1 = de_id e" "de_requests e1 \<le> 1" "de_state e1 = KNOWN" "de_announce e1 = a" "de_wireMismatch e1 = (an_wire_hash a \<noteq> sr_wire_hash sr)"
    by (simp_all add: e1_def)
  have d: "directory_ok (sr_wire_hash sr) ?d" "network ?d = network d" "Directory_lookup (de_id e) ?d = Some e"
    using same_view [of ?d d] assms by (simp_all add: Directory_lookup_def)
  have p: "directory_ok (sr_wire_hash sr) (put_entry e2 ?d) \<and> network (put_entry e2 ?d) = (network d)(de_id e \<mapsto> Identified a)"
    if "e2 = e1 \<or> e2 = e1\<lparr> de_updatedUs := nowUs \<rparr>" for e2
    using that put_ok [OF d(1), of e2] put_network [of e2 ?d] d(2,3) e1 by (auto simp: know_def)
  have "network (tell_identity sr e2 x) = network x \<and> directory_ok h (tell_identity sr e2 x) = directory_ok h x" for e2 x h
    by (rule same_view) simp
  then show ?thesis using p by (simp add: learn_announce_def Let_def e1_def [symmetric])
qed

definition asked :: "u64 \<Rightarrow> directory_entry \<Rightarrow> directory_entry" where
  "asked nowUs e = e\<lparr> de_askedUs := nowUs, de_requests := 1 \<rparr>"

definition unasked :: "directory_entry \<Rightarrow> bool" where
  "unasked e \<longleftrightarrow> de_state e = PENDING \<and> de_requests e = 0"

lemma asked_fields [simp]: "de_id (asked t e) = de_id e" "de_state (asked t e) = de_state e" "de_announce (asked t e) = de_announce e"
  "de_wireMismatch (asked t e) = de_wireMismatch e" "de_requests (asked t e) = 1" "know (asked t e) = know e"
  by (simp_all add: asked_def know_def split: entry_state.split)

lemma tick_entries_rel: "tick_entries sr nowUs es d = (d', es') \<Longrightarrow> list_all2 (\<lambda>e e'. e' = e \<or> e' = asked nowUs e) es es'"
proof (induction es arbitrary: d d' es')
  case (Cons e es)
  obtain d1 e1 where 1: "(if de_state e = PENDING \<and> de_requests e = 0 then Directory_ask sr nowUs e d else (d, e)) = (d1, e1)" by fastforce
  obtain d2 es2 where 2: "tick_entries sr nowUs es d1 = (d2, es2)" by fastforce
  have "e1 = e \<or> e1 = asked nowUs e" using 1 by (auto simp: Directory_ask_def Let_def asked_def split: if_splits prod.splits)
  moreover have "es' = e1 # es2" using Cons.prems by (simp add: 1 2)
  ultimately show ?case using Cons.IH [OF 2] by simp
qed simp

lemma asked_network:
  "list_all2 (\<lambda>e e'. e' = e \<or> e' = asked t e) es es' \<Longrightarrow>
     map de_id es' = map de_id es \<and> (\<forall>n. map_option know (entry_lookup de_id n es') = map_option know (entry_lookup de_id n es))"
  by (induction rule: list_all2_induct) (auto simp: entry_lookup_def)

lemma asked_all:
  assumes "list_all2 (\<lambda>e e'. e' = e \<or> e' = asked t e) es es'" "\<forall>e \<in> set es. P e" "\<And>e. P e \<Longrightarrow> P (asked t e)"
  shows "\<forall>e \<in> set es'. P e"
  using assms(1,2) by (induction rule: list_all2_induct) (auto simp: assms(3))

lemma tick_step:
  assumes "directory_ok hash d"
  shows "directory_ok hash (DiscoveryDirectory_tick sr nowUs d) \<and> network (DiscoveryDirectory_tick sr nowUs d) = network d"
proof -
  obtain d' es' where t: "tick_entries sr nowUs (d_entries d) (d\<lparr> d_lastTickUs := nowUs \<rparr>) = (d', es')" by fastforce
  note r = tick_entries_rel [OF t]
  have a: "\<forall>e \<in> set (d_entries d). de_requests e \<le> 1 \<and> (de_state e = KNOWN \<longrightarrow> de_wireMismatch e = (an_wire_hash (de_announce e) \<noteq> hash))"
    using assms by (simp add: directory_ok_def)
  have "\<forall>e \<in> set es'. de_requests e \<le> 1 \<and> (de_state e = KNOWN \<longrightarrow> de_wireMismatch e = (an_wire_hash (de_announce e) \<noteq> hash))"
    by (rule asked_all [OF r a]) simp
  moreover have "length es' = length (d_entries d)" using r by (simp add: list_all2_lengthD)
  ultimately show ?thesis
    using asked_network [OF r] assms by (simp add: DiscoveryDirectory_tick_def t directory_ok_def network_def Directory_lookup_def)
qed

lemma step_refines:
  assumes "directory_ok (sr_wire_hash sr) d"
  shows "directory_ok (sr_wire_hash sr) (directory_step sr ev d) \<and> network (directory_step sr ev d) = network_step ev (network d)"
proof (cases ev)
  case (Up n)
  let ?e = "with_hops sr d (DirectoryEntry_init\<lparr> de_id := n \<rparr>)"
  have e: "de_id ?e = n" "de_requests ?e = 0" "de_state ?e = PENDING" "know ?e = Asking" by (simp_all add: DirectoryEntry_init_def know_def)
  show ?thesis using Up network_room [OF assms, of n] put_ok [OF assms, of ?e] put_network [of ?e d] add_ok [OF assms, of ?e] add_network [of ?e d] e assms
      same_view [of "d\<lparr> d_dropped := d_dropped d + 1 \<rparr>" d "sr_wire_hash sr"]
    by (auto simp: DiscoveryDirectory_onNodeUp_def Let_def not_le split: option.split)
next
  case (Down n)
  let ?d = "d\<lparr> d_entries := entry_remove de_id n (d_entries d) \<rparr>"
  have d: "distinct (map de_id (d_entries d))" using assms by (simp add: directory_ok_def)
  have n: "network ?d = (network d)(n := None)" using lookup_remove [OF d] by (auto simp: network_def Directory_lookup_def)
  have ok: "directory_ok (sr_wire_hash sr) ?d"
    using assms distinct_remove [OF d] set_remove [OF d, of n] length_remove_le [of de_id n "d_entries d"] by (auto simp: directory_ok_def)
  have "network d n = None \<Longrightarrow> (network d)(n := None) = network d" by auto
  then show ?thesis using Down n ok assms same_view [of "tell_forgotten sr n ?d" ?d "sr_wire_hash sr"]
    by (auto simp: DiscoveryDirectory_onNodeDown_def network_def)
next
  case (Heard n b now)
  show ?thesis
  proof (cases b)
    case IdentityRequest
    then show ?thesis using Heard assms same_view [of "Discovery_onMessage sr n d" d "sr_wire_hash sr"]
      by (simp add: Discovery_onMessage_def split: prod.split)
  next
    case (Announce a)
    let ?e = "DirectoryEntry_init\<lparr> de_id := n \<rparr>" let ?d = "d\<lparr> d_entries := d_entries d @ [?e] \<rparr>"
    have e: "de_id ?e = n" "de_requests ?e = 0" "de_state ?e = PENDING" by (simp_all add: DirectoryEntry_init_def)
    show ?thesis
    proof (cases "Directory_lookup n d")
      case (Some e)
      then have "de_id e = n" using entry_Some [of de_id n "d_entries d" e] by (simp add: Directory_lookup_def)
      then show ?thesis using learn_step [OF assms, of e] Some Announce Heard network_room [OF assms, of n] by simp
    next
      case None
      then have l: "Directory_lookup n ?d = Some ?e" by (simp add: Directory_lookup_def lookup_snoc entry_None)
      show ?thesis
      proof (cases "length (d_entries d) < MAX_ENTRIES")
        case True
        have "directory_ok (sr_wire_hash sr) ?d" using add_ok [OF assms, of ?e] None True e by simp
        from learn_step [OF this, of ?e a now] l e add_network [of ?e d] None
        show ?thesis using Announce Heard network_room [OF assms, of n] True by (simp add: Let_def)
      next
        case False
        then show ?thesis using None Announce Heard network_room [OF assms, of n] assms by simp
      qed
    qed
  qed
next
  case (GaveUp n)
  let ?d = "d\<lparr> d_muted := d_muted d + 1 \<rparr>"
  show ?thesis
  proof (cases "Directory_lookup n d")
    case None
    then show ?thesis using GaveUp assms by (simp add: DiscoveryDirectory_onRequestFailed_def network_def)
  next
    case (Some e)
    let ?e = "e\<lparr> de_state := MUTE, de_updatedUs := d_lastTickUs d \<rparr>"
    have e: "e \<in> set (d_entries d)" "de_id e = n" using entry_Some [of de_id n "d_entries d" e] Some by (simp_all add: Directory_lookup_def)
    have d: "directory_ok (sr_wire_hash sr) ?d" "network ?d = network d" "Directory_lookup n ?d = Some e"
      using same_view [of ?d d] assms Some by (simp_all add: Directory_lookup_def)
    have "de_requests ?e \<le> 1" using e assms by (auto simp: directory_ok_def)
    then show ?thesis using GaveUp Some assms put_ok [OF d(1), of ?e] put_network [of ?e ?d] d e
      by (auto simp: DiscoveryDirectory_onRequestFailed_def network_def know_def split: entry_state.splits)
  qed
next
  case (DirTick now)
  then show ?thesis using tick_step [OF assms] by simp
qed (use assms same_view [of "DiscoveryDirectory_attach _ d" d "sr_wire_hash sr"] same_view [of "DiscoveryDirectory_detach _ d" d "sr_wire_hash sr"]
  in \<open>auto simp: DiscoveryDirectory_attach_def DiscoveryDirectory_detach_def split: prod.splits\<close>)


lemma run_refines:
  "directory_ok (sr_wire_hash sr) d \<Longrightarrow> directory_ok (sr_wire_hash sr) (fold (directory_step sr) evs d) \<and>
     network (fold (directory_step sr) evs d) = fold network_step evs (network d)"
proof (induction evs arbitrary: d)
  case (Cons ev evs)
  show ?case using Cons.IH step_refines [OF Cons.prems, of ev] by auto
qed simp

text \<open>(C32) The directory is the network as the transport and the messenger report it. After any sequence of
  events it maps exactly the nodes that came up, or were heard, and did not go down, each to what is
  known of it: its last announce once one was heard since it came up, silent when the messenger gave
  up on a request to it before that, being asked otherwise; a node that comes up again starts over. A node
  that finds the directory full is not taken until there is room. The ids are distinct, at most
  \<^verbatim>\<open>MAX_ENTRIES\<close>, each known entry is flagged exactly when its schema differs from this build's, and
  each entry counts at most one question.\<close>

theorem directory_tracks_network:
  "network (fold (directory_step sr) evs (DiscoveryDirectory_init self w)) = fold network_step evs Map.empty \<and>
   directory_ok (sr_wire_hash sr) (fold (directory_step sr) evs (DiscoveryDirectory_init self w))"
proof -
  have "directory_ok (sr_wire_hash sr) (DiscoveryDirectory_init self w)" by (simp add: directory_ok_def DiscoveryDirectory_init_def)
  moreover have "network (DiscoveryDirectory_init self w) = Map.empty"
    by (simp add: network_def Directory_lookup_def entry_lookup_def DiscoveryDirectory_init_def)
  ultimately show ?thesis using run_refines [of sr "DiscoveryDirectory_init self w" evs] by simp
qed


section \<open>Questions\<close>

abbreviation identity_policy :: request_policy where
  "identity_policy \<equiv> \<lparr> rp_periodUs = IDENTITY_TIMEOUT_US, rp_retries = IDENTITY_RETRIES \<rparr>"

lemma tick_entries_recorded:
  "tick_entries (sr\<lparr> sr_port := recorder ok rid \<rparr>) nowUs es d =
     (d\<lparr> d_world := d_world d @ map (\<lambda>e. Asked identity_policy (de_id e) IdentityRequest) (filter unasked es),
         d_requests := d_requests d + of_nat (length (filter unasked es)) \<rparr>,
      map (\<lambda>e. if unasked e \<and> rid (de_id e) \<noteq> 0 then asked nowUs e else e) es)"
  by (induction es arbitrary: d) (auto simp: Directory_ask_def Let_def unasked_def asked_def ac_simps)

text \<open>Each node is asked once. A tick sends one identity request, under the policy of five sends every
  half second, to every entry that is pending and not yet asked, in the order of the table and to
  nobody else; an entry whose request the messenger took is marked, so that the next ticks leave it to
  the messenger, and one whose request was refused is asked again. With a messenger that takes every
  request the next tick asks nobody.\<close>

lemma directory_asks_once:
  "d_world (DiscoveryDirectory_tick (sr\<lparr> sr_port := recorder ok rid \<rparr>) nowUs d) =
     d_world d @ map (\<lambda>e. Asked identity_policy (de_id e) IdentityRequest) (filter unasked (d_entries d)) \<and>
   d_entries (DiscoveryDirectory_tick (sr\<lparr> sr_port := recorder ok rid \<rparr>) nowUs d) =
     map (\<lambda>e. if unasked e \<and> rid (de_id e) \<noteq> 0 then asked nowUs e else e) (d_entries d) \<and>
   (0 \<in> range rid \<or> filter unasked (d_entries (DiscoveryDirectory_tick (sr\<lparr> sr_port := recorder ok rid \<rparr>) nowUs d)) = [])"
proof -
  have "filter unasked (map (\<lambda>e. if unasked e \<and> rid (de_id e) \<noteq> 0 then asked nowUs e else e) es) = []" if "0 \<notin> range rid" for es
  proof -
    have "rid n \<noteq> 0" for n using that by (metis rangeI)
    then show ?thesis by (auto simp: filter_empty_conv unasked_def)
  qed
  then show ?thesis by (auto simp: DiscoveryDirectory_tick_def tick_entries_recorded)
qed

end
