(* ===== verification/Telemetry_Registry.thy ===== *)
theory Telemetry_Registry
  imports Prelude
begin

text \<open>
  The process-wide list of measures (\<^verbatim>\<open>components/telemetry/src/registry.cpp\<close>): a singly linked list through
  the entries themselves, with head, tail and count as the globals of the translation unit. An entry is
  linked by its constructor and unlinked by its destructor. Entries are numbered as the objects they are;
  \<open>rg_next\<close> is the field \<^verbatim>\<open>m_next\<close> of each, \<^verbatim>\<open>None\<close> the null pointer. The walk of a list that may
  be circular may not end, so both walks are partial functions.

  The lemmas show that the linked list is the list of the living entries in construction order and that
  every walk of it ends.
\<close>


section \<open>The list in memory\<close>

datatype telemetry_unit = UNIT_UNITLESS | UNIT_M | UNIT_M_PER_S | UNIT_M_PER_S2 | UNIT_RAD | UNIT_RAD_PER_S | UNIT_PA | UNIT_CELSIUS | UNIT_V
  | UNIT_A | UNIT_US | UNIT_COUNT

text \<open>One measure: \<^verbatim>\<open>read()\<close> looks at the memory of the process, through the pointer or the reader the entry
  was built with.\<close>

record ('m, 'v) telemetry_entry =
  te_name :: string
  te_unit :: telemetry_unit
  te_read :: "'m \<Rightarrow> 'v"

definition MAX_TELEMETRY_NAME :: nat where "MAX_TELEMETRY_NAME = 40"
definition MAX_TELEMETRY_ENTRIES :: nat where "MAX_TELEMETRY_ENTRIES = 128"

record registry =
  rg_head :: "nat option"
  rg_tail :: "nat option"
  rg_count :: nat
  rg_next :: "nat \<Rightarrow> nat option"

definition registry_init :: registry where
  "registry_init = \<lparr> rg_head = None, rg_tail = None, rg_count = 0, rg_next = (\<lambda>_. None) \<rparr>"

definition TelemetryEntry_link :: "nat \<Rightarrow> registry \<Rightarrow> registry" where
  "TelemetryEntry_link this r =
     (let r = (case rg_tail r of None \<Rightarrow> r\<lparr> rg_head := Some this \<rparr> | Some t \<Rightarrow> r\<lparr> rg_next := (rg_next r)(t := Some this) \<rparr>) in
      r\<lparr> rg_tail := Some this, rg_count := rg_count r + 1 \<rparr>)"

definition TelemetryEntry_construct :: "nat \<Rightarrow> registry \<Rightarrow> registry" where
  "TelemetryEntry_construct this r = TelemetryEntry_link this (r\<lparr> rg_next := (rg_next r)(this := None) \<rparr>)"

partial_function (option) unlink_walk :: "nat \<Rightarrow> nat option \<Rightarrow> nat option \<Rightarrow> registry \<Rightarrow> registry option" where
  "unlink_walk this previous entry r =
     (case entry of
        None \<Rightarrow> Some r
      | Some e \<Rightarrow>
          if e \<noteq> this then unlink_walk this (Some e) (rg_next r e) r
          else
            let r' = (case previous of
                        None \<Rightarrow> r\<lparr> rg_head := rg_next r this \<rparr>
                      | Some p \<Rightarrow> r\<lparr> rg_next := (rg_next r)(p := rg_next r this) \<rparr>);
                r' = (if rg_tail r' = Some this then r'\<lparr> rg_tail := previous \<rparr> else r') in
            Some (r'\<lparr> rg_count := rg_count r' - 1, rg_next := (rg_next r')(this := None) \<rparr>))"

definition TelemetryEntry_destroy :: "nat \<Rightarrow> registry \<Rightarrow> registry option" where
  "TelemetryEntry_destroy this r = unlink_walk this None (rg_head r) r"

definition telemetryEntries :: "registry \<Rightarrow> nat option" where "telemetryEntries r = rg_head r"

definition telemetryEntryCount :: "registry \<Rightarrow> nat" where "telemetryEntryCount r = rg_count r"

text \<open>The loop over the registry its users write: from an entry to the end through \<^verbatim>\<open>next()\<close>.\<close>

partial_function (option) registry_walk :: "registry \<Rightarrow> nat option \<Rightarrow> nat list option" where
  "registry_walk r entry =
     (case entry of None \<Rightarrow> Some [] | Some e \<Rightarrow> Option.bind (registry_walk r (rg_next r e)) (\<lambda>es. Some (e # es)))"


section \<open>The list it stands for\<close>

fun segment :: "(nat \<Rightarrow> nat option) \<Rightarrow> nat option \<Rightarrow> nat list \<Rightarrow> nat option \<Rightarrow> bool" where
  "segment nx p [] q \<longleftrightarrow> p = q"
| "segment nx p (x # xs) q \<longleftrightarrow> p = Some x \<and> segment nx (nx x) xs q"

definition holds_list :: "registry \<Rightarrow> nat list \<Rightarrow> bool" where
  "holds_list r xs \<longleftrightarrow> segment (rg_next r) (rg_head r) xs None \<and> distinct xs \<and>
     rg_tail r = (if xs = [] then None else Some (last xs)) \<and> rg_count r = length xs"

lemma segment_append: "segment nx p (xs @ ys) q \<longleftrightarrow> (\<exists>m. segment nx p xs m \<and> segment nx m ys q)"
  by (induction xs arbitrary: p) auto

lemma segment_upd [simp]: "a \<notin> set xs \<Longrightarrow> segment (nx(a := v)) p xs q = segment nx p xs q"
  by (induction xs arbitrary: p) auto

lemma segment_walk: "segment (rg_next r) p xs None \<Longrightarrow> registry_walk r p = Some xs"
  by (induction xs arbitrary: p) (auto simp: registry_walk.simps)

lemma segment_snoc:
  assumes "segment nx p (xs @ [a]) None" "b \<notin> set (xs @ [a])" "distinct (xs @ [a])"
  shows "segment (nx(b := None, a := Some b)) p (xs @ [a, b]) None"
  using assms by (auto simp: segment_append)

lemma construct_holds:
  assumes "holds_list r xs" "this \<notin> set xs"
  shows "holds_list (TelemetryEntry_construct this r) (xs @ [this])"
proof (cases xs rule: rev_cases)
  case Nil
  then show ?thesis using assms by (simp add: holds_list_def TelemetryEntry_construct_def TelemetryEntry_link_def)
next
  case (snoc ys y)
  have "segment ((rg_next r)(this := None, y := Some this)) (rg_head r) (ys @ [y, this]) None"
    by (rule segment_snoc) (use assms snoc in \<open>auto simp: holds_list_def\<close>)
  then show ?thesis using assms snoc by (auto simp: holds_list_def TelemetryEntry_construct_def TelemetryEntry_link_def)
qed

text \<open>The walk of the destructor: before it the entries passed, the last of them in \<open>previous\<close>.\<close>

lemma unlink_walk_finds:
  assumes "segment (rg_next r) p (ys @ this # zs) None" "this \<notin> set ys"
  shows "unlink_walk this previous p r =
    unlink_walk this (if ys = [] then previous else Some (last ys)) (Some this) r"
  using assms
proof (induction ys arbitrary: p previous)
  case (Cons y ys)
  then show ?case by (simp add: unlink_walk.simps [of this previous "Some y"] split: if_splits)
qed simp

lemma unlink_segment:
  assumes "segment nx p (ys @ this # zs) None" "distinct (ys @ this # zs)" "ys \<noteq> []"
  shows "segment (nx(last ys := nx this, this := None)) p (ys @ zs) None"
proof -
  obtain us u where ys: "ys = us @ [u]" using assms(3) by (metis rev_exhaust)
  show ?thesis using assms by (auto simp: ys segment_append)
qed

lemma destroy_holds:
  assumes "holds_list r xs" "this \<in> set xs"
  shows "\<exists>r'. TelemetryEntry_destroy this r = Some r' \<and> holds_list r' (remove1 this xs)"
proof -
  obtain ys zs where xs: "xs = ys @ this # zs" "this \<notin> set ys" using assms(2) by (metis split_list_first)
  have h: "segment (rg_next r) (rg_head r) (ys @ this # zs) None" "distinct (ys @ this # zs)" "rg_count r = Suc (length ys + length zs)"
    and t: "rg_tail r = Some (last (ys @ this # zs))"
    using assms(1) xs(1) by (auto simp: holds_list_def)
  have last: "rg_tail r = Some this \<longleftrightarrow> zs = []" using h(2) t by (auto dest: last_in_set)
  have rem: "remove1 this xs = ys @ zs" using xs by (simp add: remove1_append)
  let ?w = "unlink_walk this (if ys = [] then None else Some (last ys)) (Some this) r"
  have w: "TelemetryEntry_destroy this r = ?w"
    by (simp add: TelemetryEntry_destroy_def unlink_walk_finds [OF h(1) xs(2)])
  show ?thesis
  proof (cases "ys = []")
    case True
    then show ?thesis using h last rem t
      by (auto simp: w unlink_walk.simps [of this None] Let_def holds_list_def)
  next
    case False
    note s = unlink_segment [OF h(1,2) False]
    show ?thesis using False h last rem t s
      by (auto simp: w unlink_walk.simps [of this "Some _"] Let_def holds_list_def)
  qed
qed


section \<open>Lives\<close>

datatype life_event = Construct nat | Destroy nat

fun registry_step :: "life_event \<Rightarrow> registry \<Rightarrow> registry option" where
  "registry_step (Construct e) r = Some (TelemetryEntry_construct e r)"
| "registry_step (Destroy e) r = TelemetryEntry_destroy e r"

fun registry_run :: "life_event list \<Rightarrow> registry \<Rightarrow> registry option" where
  "registry_run [] r = Some r"
| "registry_run (ev # evs) r = Option.bind (registry_step ev r) (registry_run evs)"

text \<open>The living entries in construction order, for a program in which every object is constructed before
  it is destroyed and not twice while it lives.\<close>

fun lives :: "life_event list \<Rightarrow> nat list \<Rightarrow> nat list option" where
  "lives [] xs = Some xs"
| "lives (Construct e # evs) xs = (if e \<in> set xs then None else lives evs (xs @ [e]))"
| "lives (Destroy e # evs) xs = (if e \<in> set xs then lives evs (remove1 e xs) else None)"

lemma registry_run_holds:
  "lives evs xs = Some ys \<Longrightarrow> holds_list r xs \<Longrightarrow> \<exists>r'. registry_run evs r = Some r' \<and> holds_list r' ys"
proof (induction evs xs arbitrary: r rule: lives.induct)
  case (2 e evs xs)
  then show ?case using construct_holds [of r xs e] by (simp split: if_splits)
next
  case (3 e evs xs)
  then show ?case using destroy_holds [of r xs e] by (auto split: if_splits)
qed simp

lemma holds_init: "holds_list registry_init []"
  by (simp add: holds_list_def registry_init_def)

lemma holds_walk: "holds_list r xs \<Longrightarrow> registry_walk r (telemetryEntries r) = Some xs \<and> telemetryEntryCount r = length xs"
  by (simp add: holds_list_def segment_walk telemetryEntries_def telemetryEntryCount_def)

end
