(* ===== verification/Telemetry_Provider.thy ===== *)
theory Telemetry_Provider
  imports Telemetry_Registry Node_Table Subscriber_Table
begin

text \<open>
  The wire adapter of the measures (\<^verbatim>\<open>components/telemetry/include/telemetry/provider.hpp\<close>): it freezes the
  registry into a table whose indices are the wire ids, serves that table page by page, holds one
  configuration for the node (which measures, how often) and streams samples to at most two subscribers.
  The memory the measures are read from is an argument of \<^verbatim>\<open>sample\<close>, its values of any type; the messenger
  and the log are the world behind the port.

  The bounds the source takes from the generated message types (six descriptors per page, 32 values per
  message, 64 ids per configuration) are those of \<^verbatim>\<open>protocol/mark4.options\<close>.
\<close>


section \<open>State\<close>

type_synonym descriptor = "u32 \<times> string \<times> telemetry_unit"

datatype 'v telemetry_body =
    TelemetryListRequest u32
  | TelemetryConfigure "u32 list" u32
  | TelemetrySubscribe bool
  | TelemetryDescriptors u32 u32 "descriptor list"
  | TelemetryConfig "u32 list" u32
  | TelemetrySubscription bool
  | TelemetryData u64 "(u32 \<times> 'v) list"

definition TELEMETRY_MAX_SUBSCRIBERS :: nat where "TELEMETRY_MAX_SUBSCRIBERS = 2"
definition DESCRIPTORS_PER_PAGE :: nat where "DESCRIPTORS_PER_PAGE = 6"
definition VALUES_PER_MESSAGE :: nat where "VALUES_PER_MESSAGE = 32"
definition MAX_ENABLED :: nat where "MAX_ENABLED = 64"
definition MAX_PERIOD_MS :: u32 where "MAX_PERIOD_MS = 60000"
definition TELEMETRY_US_PER_MS :: u64 where "TELEMETRY_US_PER_MS = 1000"

record ('m, 'v, 'w) telemetry =
  tl_minPeriodMs :: u32
  tl_frameUs :: u64
  tl_entries :: "('m, 'v) telemetry_entry list"
  tl_subscribers :: subscriber_table
  tl_enabled :: "u32 list"
  tl_periodMs :: u32
  tl_lastConfigUs :: u64
  tl_lastSampleUs :: u64
  tl_streaming :: bool
  tl_messageCount :: u32
  tl_world :: 'w

definition TelemetryProvider_new :: "u32 \<Rightarrow> 'w \<Rightarrow> ('m, 'v, 'w) telemetry" where
  "TelemetryProvider_new minPeriodMs w = \<lparr> tl_minPeriodMs = (if minPeriodMs = 0 then 1 else minPeriodMs), tl_frameUs = 0, tl_entries = [],
     tl_subscribers = [], tl_enabled = [], tl_periodMs = 0, tl_lastConfigUs = 0, tl_lastSampleUs = 0, tl_streaming = False, tl_messageCount = 0,
     tl_world = w \<rparr>"


section \<open>Operations\<close>

definition tl_log :: "('v telemetry_body, 'w) port \<Rightarrow> log_level \<Rightarrow> string \<Rightarrow> ('m, 'v, 'w) telemetry \<Rightarrow> ('m, 'v, 'w) telemetry" where
  "tl_log pt l t p = p\<lparr> tl_world := pt_log pt l t (tl_world p) \<rparr>"

definition tl_request :: "('v telemetry_body, 'w) port \<Rightarrow> u32 \<Rightarrow> 'v telemetry_body \<Rightarrow> ('m, 'v, 'w) telemetry \<Rightarrow> ('m, 'v, 'w) telemetry" where
  "tl_request pt dst b p = p\<lparr> tl_world := fst (pt_request pt RequestPolicy_default dst b (tl_world p)) \<rparr>"

text \<open>The loop of \<^verbatim>\<open>init\<close> over the registry: the table, the names skipped and the entries that found it full.\<close>

fun freeze :: "('m, 'v) telemetry_entry list \<Rightarrow> ('m, 'v) telemetry_entry list \<times> nat \<times> nat \<Rightarrow> ('m, 'v) telemetry_entry list \<times> nat \<times> nat" where
  "freeze [] acc = acc"
| "freeze (e # es) (table, skippedNames, skippedOverflow) =
     freeze es (if length (te_name e) > MAX_TELEMETRY_NAME then (table, skippedNames + 1, skippedOverflow)
                else if length table = MAX_TELEMETRY_ENTRIES then (table, skippedNames, skippedOverflow + 1)
                else (table @ [e], skippedNames, skippedOverflow))"

definition TelemetryProvider_init ::
  "('v telemetry_body, 'w) port \<Rightarrow> ('m, 'v) telemetry_entry list \<Rightarrow> ('m, 'v, 'w) telemetry \<Rightarrow> ('m, 'v, 'w) telemetry \<times> bool" where
  "TelemetryProvider_init pt registered p =
     (let (table, skippedNames, skippedOverflow) = freeze registered ([], 0, 0);
          p = p\<lparr> tl_entries := table \<rparr>;
          p = (if skippedNames > 0 then tl_log pt WARN (to_string skippedNames @ '' measure(s) ignored: name over '' @ to_string MAX_TELEMETRY_NAME @
                 '' characters'') p else p);
          p = (if skippedOverflow > 0 then tl_log pt WARN (to_string skippedOverflow @ '' measure(s) ignored: the table holds '' @
                 to_string MAX_TELEMETRY_ENTRIES) p else p);
          p = tl_log pt INFO (to_string (length table) @ '' measures, '' @ to_string (unat (tl_minPeriodMs p)) @ '' ms floor, '' @
                to_string VALUES_PER_MESSAGE @ '' per message'') p in
      (p, length table > 0))"

definition descriptor_of :: "('m, 'v) telemetry_entry list \<Rightarrow> nat \<Rightarrow> descriptor" where
  "descriptor_of table i = (of_nat i, take MAX_TELEMETRY_NAME (te_name (table ! i)), te_unit (table ! i))"

definition telemetry_page :: "('m, 'v) telemetry_entry list \<Rightarrow> u32 \<Rightarrow> descriptor list" where
  "telemetry_page table cursor =
     (let total = length table; first = (if unat cursor > total then total else unat cursor) in
      map (descriptor_of table) [first ..< min total (first + DESCRIPTORS_PER_PAGE)])"

definition telemetry_sendPage :: "('v telemetry_body, 'w) port \<Rightarrow> u32 \<Rightarrow> u32 \<Rightarrow> ('m, 'v, 'w) telemetry \<Rightarrow> ('m, 'v, 'w) telemetry" where
  "telemetry_sendPage pt cursor dst p =
     tl_request pt dst (TelemetryDescriptors (of_nat (length (tl_entries p))) cursor (telemetry_page (tl_entries p) cursor)) p"

definition insertSorted :: "u32 \<Rightarrow> u32 list \<Rightarrow> u32 list" where
  "insertSorted i ids =
     (let at = length (takeWhile (\<lambda>x. x < i) ids) in
      if at < length ids \<and> ids ! at = i then ids else take at ids @ i # drop at ids)"

definition clampPeriod :: "u32 \<Rightarrow> ('m, 'v, 'w) telemetry \<Rightarrow> u32" where
  "clampPeriod requested p =
     (if requested < tl_minPeriodMs p then tl_minPeriodMs p else if requested > MAX_PERIOD_MS then MAX_PERIOD_MS else requested)"

text \<open>The loop of \<^verbatim>\<open>applyConfig\<close>: the enabled ids and those dropped.\<close>

fun enable_ids :: "nat \<Rightarrow> u32 list \<Rightarrow> u32 list \<times> nat \<Rightarrow> u32 list \<times> nat" where
  "enable_ids n [] acc = acc"
| "enable_ids n (i # ids) (enabled, unknown) =
     enable_ids n ids (if unat i \<ge> n \<or> length enabled = MAX_ENABLED then (enabled, unknown + 1) else (insertSorted i enabled, unknown))"

text \<open>What every other subscriber is told, in the order of the table.\<close>

definition telemetry_tellConfig :: "('v telemetry_body, 'w) port \<Rightarrow> u32 \<Rightarrow> ('m, 'v, 'w) telemetry \<Rightarrow> ('m, 'v, 'w) telemetry" where
  "telemetry_tellConfig pt requester p =
     (let config = TelemetryConfig (tl_enabled p) (if tl_streaming p then tl_periodMs p else 0);
          p = tl_request pt requester config p in
      fold (\<lambda>s p. if s \<noteq> requester then tl_request pt s config p else p) (tl_subscribers p) p)"

definition telemetry_stop :: "('m, 'v, 'w) telemetry \<Rightarrow> ('m, 'v, 'w) telemetry" where
  "telemetry_stop p = p\<lparr> tl_streaming := False, tl_enabled := [], tl_periodMs := 0 \<rparr>"

definition telemetry_applyConfig ::
  "('v telemetry_body, 'w) port \<Rightarrow> u32 list \<Rightarrow> u32 \<Rightarrow> u32 \<Rightarrow> u64 \<Rightarrow> ('m, 'v, 'w) telemetry \<Rightarrow> ('m, 'v, 'w) telemetry" where
  "telemetry_applyConfig pt ids period src nowUs p =
     (let wasStreaming = tl_streaming p;
          (enabled, unknown) = enable_ids (length (tl_entries p)) ids ([], 0);
          p = p\<lparr> tl_enabled := enabled \<rparr>;
          p = (if unknown > 0 then tl_log pt WARN (to_string unknown @ '' id(s) of the configuration dropped: unknown or past '' @ to_string MAX_ENABLED) p
               else p) in
      if period = 0 \<or> enabled = [] then
        let p = (if wasStreaming then tl_log pt INFO (''samples stopped by '' @ hex08 src) p else p) in
        telemetry_tellConfig pt src (telemetry_stop p)
      else
        let p = p\<lparr> tl_periodMs := clampPeriod period p, tl_lastConfigUs := nowUs, tl_streaming := True \<rparr>;
            p = tl_log pt INFO (to_string (length enabled) @ '' measures every '' @ to_string (unat (tl_periodMs p)) @ '' ms, asked by '' @ hex08 src) p in
        telemetry_tellConfig pt src p)"

definition telemetry_applySubscribe :: "('v telemetry_body, 'w) port \<Rightarrow> u32 \<Rightarrow> bool \<Rightarrow> ('m, 'v, 'w) telemetry \<Rightarrow> ('m, 'v, 'w) telemetry" where
  "telemetry_applySubscribe pt src enabled p =
     (let (p, applied) =
        (if enabled then
           let (subs, ok) = SubscriberTable_add TELEMETRY_MAX_SUBSCRIBERS src (tl_subscribers p);
               p = p\<lparr> tl_subscribers := subs \<rparr> in
           (if ok then p
            else tl_log pt WARN (''no room for '' @ hex08 src @ '': '' @ to_string (SubscriberTable_size (tl_subscribers p)) @ '' subscribers already'') p, ok)
         else (p\<lparr> tl_subscribers := fst (SubscriberTable_remove src (tl_subscribers p)) \<rparr>, False)) in
      tl_request pt src (TelemetrySubscription applied) p)"

fun TelemetryProvider_onMessage ::
  "('v telemetry_body, 'w) port \<Rightarrow> u32 \<Rightarrow> 'v telemetry_body \<Rightarrow> ('m, 'v, 'w) telemetry \<Rightarrow> ('m, 'v, 'w) telemetry \<times> bool" where
  "TelemetryProvider_onMessage pt src (TelemetryListRequest cursor) p = (telemetry_sendPage pt cursor src p, True)"
| "TelemetryProvider_onMessage pt src (TelemetryConfigure ids period) p = (telemetry_applyConfig pt ids period src (tl_frameUs p) p, True)"
| "TelemetryProvider_onMessage pt src (TelemetrySubscribe enabled) p = (telemetry_applySubscribe pt src enabled p, True)"
| "TelemetryProvider_onMessage pt src _ p = (p, False)"

definition TelemetryProvider_onNodeDown :: "('v telemetry_body, 'w) port \<Rightarrow> u32 \<Rightarrow> ('m, 'v, 'w) telemetry \<Rightarrow> ('m, 'v, 'w) telemetry" where
  "TelemetryProvider_onNodeDown pt nodeId p =
     (let (subs, removed) = SubscriberTable_remove nodeId (tl_subscribers p);
          p = p\<lparr> tl_subscribers := subs \<rparr> in
      if removed then tl_log pt INFO (hex08 nodeId @ '' gone, '' @ to_string (SubscriberTable_size subs) @ '' subscriber(s) left'') p else p)"

text \<open>One message of a sampling instant, to every subscriber.\<close>

definition send_batch :: "('v telemetry_body, 'w) port \<Rightarrow> 'v telemetry_body \<Rightarrow> ('m, 'v, 'w) telemetry \<Rightarrow> ('m, 'v, 'w) telemetry" where
  "send_batch pt b p =
     fold (\<lambda>s p. let (w, ok) = pt_send pt s b (tl_world p) in
             p\<lparr> tl_world := w, tl_messageCount := (if ok then tl_messageCount p + 1 else tl_messageCount p) \<rparr>) (tl_subscribers p) p"

function emit_from :: "('v telemetry_body, 'w) port \<Rightarrow> 'm \<Rightarrow> u64 \<Rightarrow> u32 list \<Rightarrow> ('m, 'v, 'w) telemetry \<Rightarrow> ('m, 'v, 'w) telemetry" where
  "emit_from pt m nowUs ids p =
     (if ids = [] then p
      else
        let values = map (\<lambda>i. (i, te_read (tl_entries p ! unat i) m)) (take VALUES_PER_MESSAGE ids) in
        emit_from pt m nowUs (drop VALUES_PER_MESSAGE ids) (send_batch pt (TelemetryData nowUs values) p))"
  by auto
termination by (relation "measure (\<lambda>(pt, m, t, ids, p). length ids)") (auto simp: VALUES_PER_MESSAGE_def)

declare emit_from.simps [simp del]

definition telemetry_emit :: "('v telemetry_body, 'w) port \<Rightarrow> 'm \<Rightarrow> u64 \<Rightarrow> ('m, 'v, 'w) telemetry \<Rightarrow> ('m, 'v, 'w) telemetry" where
  "telemetry_emit pt m nowUs p = emit_from pt m nowUs (tl_enabled p) p"

definition TelemetryProvider_sample :: "('v telemetry_body, 'w) port \<Rightarrow> 'm \<Rightarrow> u64 \<Rightarrow> ('m, 'v, 'w) telemetry \<Rightarrow> ('m, 'v, 'w) telemetry" where
  "TelemetryProvider_sample pt m nowUs p =
     (let p = p\<lparr> tl_frameUs := nowUs \<rparr> in
      if \<not> tl_streaming p \<or> SubscriberTable_empty (tl_subscribers p) then p
      else
        let periodUs = ucast (tl_periodMs p) * TELEMETRY_US_PER_MS;
            sampledUnderConfig = (tl_lastSampleUs p \<ge> tl_lastConfigUs p) in
        if sampledUnderConfig \<and> (nowUs < tl_lastSampleUs p \<or> nowUs - tl_lastSampleUs p < periodUs) then p
        else telemetry_emit pt m nowUs (p\<lparr> tl_lastSampleUs := nowUs \<rparr>))"

end
