(* ===== verification/Telemetry_Correct.thy ===== *)
theory Telemetry_Correct
  imports Telemetry_Provider
begin

text \<open>
  What the telemetry provider promises: the table it publishes is the registry in construction order, a
  configuration enables exactly the measures it names, told to everybody who holds the stream, and the
  stream is the enabled measures of every period, whole.
\<close>


section \<open>The enabled set\<close>

lemma insertSorted_insort:
  assumes "sorted ids" "distinct ids"
  shows "insertSorted i ids = insort_insert i ids"
proof -
  have 1: "takeWhile (\<lambda>x. x < i) ids @ i # dropWhile (\<lambda>x. x < i) ids = insort i ids" if "i \<notin> set ids"
    using assms(1) that by (induction ids) (auto simp: less_le_not_le)
  have 2: "length (takeWhile (\<lambda>x. x < i) ids) < length ids \<and> ids ! length (takeWhile (\<lambda>x. x < i) ids) = i" if "i \<in> set ids"
    using assms that by (induction ids) (auto simp: less_le_not_le)
  have 3: "\<not> (length (takeWhile (\<lambda>x. x < i) ids) < length ids \<and> ids ! length (takeWhile (\<lambda>x. x < i) ids) = i)" if "i \<notin> set ids"
    using that nth_mem by metis
  show ?thesis
    using 1 2 3 by (cases "i \<in> set ids") (auto simp: insertSorted_def Let_def insort_insert_key_def takeWhile_eq_take [symmetric] dropWhile_eq_drop [symmetric])
qed

definition enabled_of :: "nat \<Rightarrow> u32 list \<Rightarrow> u32 list" where
  "enabled_of n ids = sorted_list_of_set {i \<in> set ids. unat i < n}"

lemma enable_ids_run:
  assumes "sorted enabled" "distinct enabled" "length enabled + length ids \<le> MAX_ENABLED" "\<forall>i \<in> set enabled. unat i < n"
  shows "enable_ids n ids (enabled, u) = (sorted_list_of_set (set enabled \<union> {i \<in> set ids. unat i < n}), u + length (filter (\<lambda>i. n \<le> unat i) ids))"
  using assms
proof (induction ids arbitrary: enabled u)
  case Nil
  then show ?case by (simp add: sorted_list_of_set.idem_if_sorted_distinct)
next
  case (Cons i ids)
  show ?case
  proof (cases "n \<le> unat i")
    case True
    moreover have "set enabled \<union> {x. (x = i \<or> x \<in> set ids) \<and> unat x < n} = set enabled \<union> {x \<in> set ids. unat x < n}" using True by auto
    ultimately show ?thesis using Cons.IH [of enabled "u + 1"] Cons.prems by simp
  next
    case False
    let ?e = "insertSorted i enabled"
    have e: "?e = insort_insert i enabled" by (rule insertSorted_insort [OF Cons.prems(1,2)])
    have "sorted ?e" "distinct ?e" "set ?e = insert i (set enabled)" "length ?e \<le> Suc (length enabled)"
      using Cons.prems(1,2) by (auto simp: e sorted_insort_insert distinct_insort_insert set_insort_insert insort_insert_key_def sorted_insort
        distinct_insort set_insort_key)
    moreover have "set enabled \<union> {x. (x = i \<or> x \<in> set ids) \<and> unat x < n} = insert i (set enabled) \<union> {x \<in> set ids. unat x < n}" using False by auto
    ultimately show ?thesis using Cons.IH [of ?e u] Cons.prems False by simp
  qed
qed

lemma enable_ids_exact:
  "length ids \<le> MAX_ENABLED \<Longrightarrow> enable_ids n ids ([], 0) = (enabled_of n ids, length (filter (\<lambda>i. n \<le> unat i) ids))"
  using enable_ids_run [of "[]" ids n 0] by (simp add: enabled_of_def)

lemma enabled_of_nil: "enabled_of n ids = [] \<longleftrightarrow> (\<forall>i \<in> set ids. n \<le> unat i)"
  by (auto simp: enabled_of_def)


section \<open>What leaves the provider\<close>

lemma request_recorded [simp]:
  "tl_request (recorder ok rid) dst b p = p\<lparr> tl_world := tl_world p @ [Asked RequestPolicy_default dst b] \<rparr>"
  "tl_log (recorder ok rid) l t p = p\<lparr> tl_world := tl_world p @ [Logged l t] \<rparr>"
  by (simp_all add: tl_request_def tl_log_def)

definition is_log :: "'b traffic \<Rightarrow> bool" where
  "is_log t = (case t of Logged _ _ \<Rightarrow> True | _ \<Rightarrow> False)"

lemma is_log_simps [simp]: "is_log (Logged l t)" "\<not> is_log (Sent d b)" "\<not> is_log (Asked r d b)"
  by (simp_all add: is_log_def)

lemma tell_fold:
  "fold (\<lambda>s p. if s \<noteq> src then tl_request (recorder ok rid) s c p else p) subs p =
     p\<lparr> tl_world := tl_world p @ map (\<lambda>s. Asked RequestPolicy_default s c) (filter (\<lambda>s. s \<noteq> src) subs) \<rparr>"
  by (induction subs arbitrary: p) auto

lemma tell_recorded:
  "telemetry_tellConfig (recorder ok rid) src p =
     p\<lparr> tl_world := tl_world p @ map (\<lambda>s. Asked RequestPolicy_default s (TelemetryConfig (tl_enabled p) (if tl_streaming p then tl_periodMs p else 0)))
         (src # filter (\<lambda>s. s \<noteq> src) (tl_subscribers p)) \<rparr>"
  by (simp add: telemetry_tellConfig_def Let_def tell_fold [unfolded request_recorded] cong: if_cong)

text \<open>A configuration enables exactly the measures it names, and everybody who holds the stream is told.
  For a configuration within the wire bound of 64 ids, the enabled set afterwards is the known ids of the
  request, each once and in ascending order whatever the request listed; the samples run exactly when a
  period and a known id were asked for, at the asked period held between the floor of the composition and
  one minute, and the node stops otherwise. Log lines apart, the configuration as applied goes to the
  node that sent it and once to every other subscriber, and to nobody else; the table and the
  subscriptions stay.\<close>

lemma telemetry_config_applied:
  fixes p :: "('m, 'v, 'v telemetry_body traffic list) telemetry"
  assumes "length ids \<le> MAX_ENABLED" "tl_minPeriodMs p \<le> MAX_PERIOD_MS"
    and "q = fst (TelemetryProvider_onMessage (recorder ok rid) src (TelemetryConfigure ids period) p)"
    and "E = (if period = 0 then [] else sorted_list_of_set {i \<in> set ids. unat i < length (tl_entries p)})"
    and "T = (if E = [] then 0 else max (tl_minPeriodMs p) (min period MAX_PERIOD_MS))"
  shows "tl_enabled q = E \<and> (tl_streaming q \<longleftrightarrow> E \<noteq> []) \<and> tl_periodMs q = T \<and> tl_entries q = tl_entries p \<and> tl_subscribers q = tl_subscribers p \<and>
    (\<exists>logs. list_all is_log logs \<and> tl_world q = tl_world p @ logs @
       map (\<lambda>s. Asked RequestPolicy_default s (TelemetryConfig E T)) (src # filter (\<lambda>s. s \<noteq> src) (tl_subscribers p)))"
proof -
  let ?e = "enabled_of (length (tl_entries p)) ids" let ?u = "length (filter (\<lambda>i. length (tl_entries p) \<le> unat i) ids)"
  have e: "enable_ids (length (tl_entries p)) ids ([], 0) = (?e, ?u)" by (rule enable_ids_exact [OF assms(1)])
  have E: "E = (if period = 0 then [] else ?e)" by (simp add: assms(4) enabled_of_def)
  have clamp: "clampPeriod period p' = max (tl_minPeriodMs p) (min period MAX_PERIOD_MS)" if "tl_minPeriodMs p' = tl_minPeriodMs p" for p' :: "('m, 'v, 'v telemetry_body traffic list) telemetry"
    using assms(2) that by (auto simp: clampPeriod_def max_def min_def)
  show ?thesis
  proof (cases "E = []")
    case True
    then have "period = 0 \<or> ?e = []" by (auto simp: E split: if_splits)
    then show ?thesis using True assms(5)
      by (auto simp: assms(3) telemetry_applyConfig_def e Let_def tell_recorded telemetry_stop_def)
  next
    case False
    then have "period \<noteq> 0" "?e \<noteq> []" "E = ?e" by (auto simp: E split: if_splits)
    then show ?thesis using False assms(5)
      by (auto simp: assms(3) telemetry_applyConfig_def e Let_def tell_recorded clamp)
  qed
qed

definition small_telemetry :: "(nat, nat, nat telemetry_body traffic list) telemetry" where
  "small_telemetry = TelemetryProvider_new 5 [] \<lparr> tl_entries := map (\<lambda>k. \<lparr> te_name = ''a'', te_unit = UNIT_M, te_read = (\<lambda>m. m + k) \<rparr>) [0, 10, 20],
     tl_subscribers := [8, 7] \<rparr>"

lemma small_fields: "length (tl_entries small_telemetry) = 3" "tl_minPeriodMs small_telemetry = 5" "tl_subscribers small_telemetry = [8, 7]"
  by (simp_all add: small_telemetry_def TelemetryProvider_new_def)

lemma telemetry_config_applied_example:
  "tl_enabled (fst (TelemetryProvider_onMessage (recorder (\<lambda>_. True) (\<lambda>_. 1)) 7 (TelemetryConfigure [2, 9, 0, 2] 1) small_telemetry)) = [0, 2]"
proof -
  have "{i \<in> set [2, 9, 0, 2 :: u32]. unat i < length (tl_entries small_telemetry)} = {0, 2}" by (auto simp: small_fields)
  moreover have "sorted_list_of_set {0, 2 :: u32} = [0, 2]" by simp
  moreover have "length [2, 9, 0, 2 :: u32] \<le> MAX_ENABLED" "tl_minPeriodMs small_telemetry \<le> MAX_PERIOD_MS"
    by (simp_all add: MAX_ENABLED_def MAX_PERIOD_MS_def small_fields)
  ultimately show ?thesis
    using telemetry_config_applied [of "[2, 9, 0, 2]" small_telemetry _ "\<lambda>_. True" "\<lambda>_. 1" 7 1, OF _ _ refl refl refl] by simp
qed


section \<open>The stream\<close>

text \<open>What one node receives, value by value.\<close>

fun received :: "u32 \<Rightarrow> 'v telemetry_body traffic list \<Rightarrow> (u64 \<times> u32 \<times> 'v) list" where
  "received s [] = []"
| "received s (Sent d (TelemetryData t vs) # w) = (if d = s then map (\<lambda>(i, v). (t, i, v)) vs else []) @ received s w"
| "received s (_ # w) = received s w"


fun within_bound :: "'v telemetry_body traffic \<Rightarrow> bool" where
  "within_bound (Sent d (TelemetryData t vs)) \<longleftrightarrow> length vs \<le> VALUES_PER_MESSAGE"
| "within_bound _ \<longleftrightarrow> True"


lemma received_append: "received s (a @ b) = received s a @ received s b"
  by (induction s a rule: received.induct) auto

lemma send_batch_recorded:
  "send_batch (recorder ok rid) b p =
     p\<lparr> tl_world := tl_world p @ map (\<lambda>s. Sent s b) (tl_subscribers p), tl_messageCount := tl_messageCount p + of_nat (length (filter ok (tl_subscribers p))) \<rparr>"
proof -
  have "fold (\<lambda>s p. let (w, ok) = pt_send (recorder ok rid) s b (tl_world p) in
      p\<lparr> tl_world := w, tl_messageCount := (if ok then tl_messageCount p + 1 else tl_messageCount p) \<rparr>) ss q =
      q\<lparr> tl_world := tl_world q @ map (\<lambda>s. Sent s b) ss, tl_messageCount := tl_messageCount q + of_nat (length (filter ok ss)) \<rparr>" for ss q
    by (induction ss arbitrary: q) (auto simp: ac_simps)
  then show ?thesis by (simp add: send_batch_def)
qed

lemma received_map:
  "distinct ss \<Longrightarrow> received s (map (\<lambda>s. Sent s (TelemetryData t vs)) ss) = (if s \<in> set ss then map (\<lambda>(i, v). (t, i, v)) vs else [])"
  by (induction ss) auto

lemma within_map: "length vs \<le> VALUES_PER_MESSAGE \<Longrightarrow> list_all within_bound (map (\<lambda>s. Sent s (TelemetryData t vs)) ss)"
  by (induction ss) auto

text \<open>An instant goes out whole: the batches hold the enabled measures in order.\<close>

lemma emit_from_recorded:
  assumes "distinct (tl_subscribers p)"
  shows "\<exists>n sent. emit_from (recorder ok rid) m t ids p = p\<lparr> tl_world := tl_world p @ sent, tl_messageCount := n \<rparr> \<and> list_all within_bound sent \<and>
     (\<forall>s. received s sent = (if s \<in> set (tl_subscribers p) then map (\<lambda>i. (t, i, te_read (tl_entries p ! unat i) m)) ids else []))"
  using assms
proof (induction ids arbitrary: p rule: length_induct)
  case (1 ids)
  show ?case
  proof (cases "ids = []")
    case True
    have "p = p\<lparr> tl_world := tl_world p @ [], tl_messageCount := tl_messageCount p \<rparr>" by simp
    then show ?thesis using True by (intro exI [of _ "tl_messageCount p"] exI [of _ "[]"]) (simp add: emit_from.simps [of _ _ _ "[]"])
  next
    case False
    define vs where "vs = map (\<lambda>i. (i, te_read (tl_entries p ! unat i) m)) (take VALUES_PER_MESSAGE ids)"
    define W where "W = map (\<lambda>s. Sent s (TelemetryData t vs)) (tl_subscribers p)"
    let ?v = "\<lambda>i. (t, i, te_read (tl_entries p ! unat i) m)"
    obtain n where n: "send_batch (recorder ok rid) (TelemetryData t vs) p = p\<lparr> tl_world := tl_world p @ W, tl_messageCount := n \<rparr>" (is "_ = ?q")
      using send_batch_recorded W_def by metis
    have "length vs \<le> VALUES_PER_MESSAGE" by (simp add: vs_def)
    then have W: "list_all within_bound W" unfolding W_def by (rule within_map)
    have rW: "received s W = (if s \<in> set (tl_subscribers p) then map ?v (take VALUES_PER_MESSAGE ids) else [])" for s
      using "1.prems" by (simp add: W_def vs_def received_map o_def)
    have len: "length (drop VALUES_PER_MESSAGE ids) < length ids" using False by (simp add: VALUES_PER_MESSAGE_def)
    have "distinct (tl_subscribers ?q)" using "1.prems" by simp
    from "1.IH" [rule_format, OF len this] obtain n' sent where
      q: "emit_from (recorder ok rid) m t (drop VALUES_PER_MESSAGE ids) ?q = ?q\<lparr> tl_world := tl_world ?q @ sent, tl_messageCount := n' \<rparr>"
      and b: "list_all within_bound sent"
      and r: "\<forall>s. received s sent = (if s \<in> set (tl_subscribers ?q) then map (\<lambda>i. (t, i, te_read (tl_entries ?q ! unat i) m)) (drop VALUES_PER_MESSAGE ids) else [])"
      by blast
    have r': "received s sent = (if s \<in> set (tl_subscribers p) then map ?v (drop VALUES_PER_MESSAGE ids) else [])" for s using r by simp
    have e: "emit_from (recorder ok rid) m t ids p = ?q\<lparr> tl_world := tl_world ?q @ sent, tl_messageCount := n' \<rparr>"
      using False q by (simp add: emit_from.simps [of _ _ _ ids] Let_def n vs_def [symmetric])
    have m: "map ?v ids = map ?v (take VALUES_PER_MESSAGE ids) @ map ?v (drop VALUES_PER_MESSAGE ids)" by (metis append_take_drop_id map_append)
    have "\<forall>s. received s (W @ sent) = (if s \<in> set (tl_subscribers p) then map ?v ids else [])"
      unfolding m by (simp add: received_append rW r')
    then show ?thesis using e W b by (intro exI [of _ n'] exI [of _ "W @ sent"]) simp
  qed
qed

lemma period_us: "unat (ucast (T :: u32) * TELEMETRY_US_PER_MS :: u64) = unat T * 1000"
proof -
  have "unat T < 2 ^ 32" using unat_bound [of T] by simp
  then have "unat T * 1000 < 2 ^ 64" by simp
  then show ?thesis by (simp add: TELEMETRY_US_PER_MS_def unat_word_ariths unsigned_ucast_eq take_bit_nat_eq_self)
qed

definition due :: "('m, 'v, 'w) telemetry \<Rightarrow> u64 \<Rightarrow> bool" where
  "due p t \<longleftrightarrow> tl_streaming p \<and> tl_subscribers p \<noteq> [] \<and> (tl_lastSampleUs p < tl_lastConfigUs p \<or> unat (tl_lastSampleUs p) + unat (tl_periodMs p) * 1000 \<le> unat t)"

lemma due_wait:
  "\<not> (t < l \<or> t - l < P) \<longleftrightarrow> unat l + unat P \<le> unat t" for t l P :: u64
  by (cases "t < l") (auto simp: word_less_nat_alt unat_sub_if' not_less)

lemma sample_due:
  "TelemetryProvider_sample pt m t p =
     (if due p t then telemetry_emit pt m t (p\<lparr> tl_frameUs := t, tl_lastSampleUs := t \<rparr>) else p\<lparr> tl_frameUs := t \<rparr>)"
  using due_wait [of t "tl_lastSampleUs p" "ucast (tl_periodMs p) * TELEMETRY_US_PER_MS"]
  by (auto simp: TelemetryProvider_sample_def due_def Let_def SubscriberTable_empty_def period_us not_le)









text \<open>A configuration that arrives in the frame of a batch does not start with a sample: the batch carries
  the instant the configuration is stamped with and counts as sent under it, so the first values of the
  new configuration wait a whole period of it, up to a minute.\<close>

lemma telemetry_reconfigured_waits:
  fixes p :: "('m, 'v, 'v telemetry_body traffic list) telemetry"
  assumes "due p t" "distinct (tl_subscribers p)" "length ids \<le> MAX_ENABLED" "\<exists>i \<in> set ids. unat i < length (tl_entries p)" "period \<noteq> 0"
    and "r = fst (TelemetryProvider_onMessage (recorder ok rid) src (TelemetryConfigure ids period) (TelemetryProvider_sample (recorder ok rid) m t p))"
    and "unat t' < unat t + unat (clampPeriod period p) * 1000"
  shows "tl_streaming r \<and> TelemetryProvider_sample (recorder ok rid) m' t' r = r\<lparr> tl_frameUs := t' \<rparr>"
proof -
  let ?p = "p\<lparr> tl_frameUs := t, tl_lastSampleUs := t \<rparr>"
  obtain n sent where "emit_from (recorder ok rid) m t (tl_enabled p) ?p = ?p\<lparr> tl_world := tl_world ?p @ sent, tl_messageCount := n \<rparr>"
    using emit_from_recorded [of ?p ok rid m t "tl_enabled p"] assms(2) by auto
  then have q: "TelemetryProvider_sample (recorder ok rid) m t p = ?p\<lparr> tl_world := tl_world p @ sent, tl_messageCount := n \<rparr>"
    using assms(1) by (simp add: sample_due telemetry_emit_def)
  have "enabled_of (length (tl_entries p)) ids \<noteq> []" using assms(4) by (auto simp: enabled_of_nil not_le)
  then have "tl_streaming r" "tl_lastSampleUs r = t" "tl_lastConfigUs r = t" "tl_periodMs r = clampPeriod period p"
    using assms(5) by (simp_all add: assms(6) q telemetry_applyConfig_def enable_ids_exact [OF assms(3)] Let_def tell_recorded clampPeriod_def)
  then show ?thesis using assms(7) by (simp add: sample_due due_def)
qed


section \<open>The table\<close>

definition admissible :: "('m, 'v) telemetry_entry \<Rightarrow> bool" where
  "admissible e \<longleftrightarrow> length (te_name e) \<le> MAX_TELEMETRY_NAME"

lemma freeze_table:
  "length table \<le> MAX_TELEMETRY_ENTRIES \<Longrightarrow> fst (freeze es (table, a, b)) = take MAX_TELEMETRY_ENTRIES (table @ filter admissible es)"
proof (induction es arbitrary: table a b)
  case (Cons e es)
  then show ?case by (cases "length table = MAX_TELEMETRY_ENTRIES") (auto simp: admissible_def take_Cons')
qed simp

lemma init_table:
  "tl_entries (fst (TelemetryProvider_init pt es p)) = take MAX_TELEMETRY_ENTRIES (filter admissible es)"
  using freeze_table [of "[]" es 0 0] by (auto simp: TelemetryProvider_init_def Let_def tl_log_def split: prod.split)

text \<open>(C31) The table a node publishes is its registry. Take any lives of the entries a program can have, each
  constructed before it is destroyed and not twice while it lives: unlinking always ends, the registry is
  never circular, and the loop over it returns the living entries in construction order, as many as it
  counts. The table frozen from it is the first 128 of those whose name fits the wire, so the id of a
  measure is its rank and does not depend on the entries that came and went.\<close>

theorem telemetry_table_frozen:
  assumes "lives evs [] = Some xs"
  shows "\<exists>r. registry_run evs registry_init = Some r \<and> registry_walk r (telemetryEntries r) = Some xs \<and> telemetryEntryCount r = length xs \<and>
    tl_entries (fst (TelemetryProvider_init pt (map info xs) p)) =
      take MAX_TELEMETRY_ENTRIES (filter (\<lambda>e. length (te_name e) \<le> MAX_TELEMETRY_NAME) (map info xs))"
proof -
  obtain r where "registry_run evs registry_init = Some r" "holds_list r xs"
    using registry_run_holds [OF assms holds_init] by blast
  then show ?thesis using holds_walk [of r xs] init_table [of pt "map info xs" p] by (simp add: admissible_def [abs_def])
qed

theorem telemetry_table_frozen_witness:
  "\<exists>r. registry_run [Construct 4, Construct 9, Construct 2, Destroy 9, Construct 7, Destroy 7] registry_init = Some r \<and>
     registry_walk r (telemetryEntries r) = Some [4, 2]"
proof -
  have "lives [Construct 4, Construct 9, Construct 2, Destroy 9, Construct 7, Destroy 7] [] = Some [4, 2]" by simp
  from telemetry_table_frozen [OF this, of "recorder (\<lambda>_. True) (\<lambda>_. 1)" "\<lambda>_. \<lparr> te_name = [], te_unit = UNIT_M, te_read = (\<lambda>m. m) \<rparr>" small_telemetry]
  show ?thesis by blast
qed

lemma telemetry_page_take:
  "telemetry_page table cursor = take DESCRIPTORS_PER_PAGE (drop (unat cursor) (map (descriptor_of table) [0 ..< length table]))"
  by (auto simp: telemetry_page_def Let_def drop_map take_map drop_upt take_upt min_def intro!: arg_cong [of _ _ "map (descriptor_of table)"])

end
