(* ===== verification/Telemetry_Consumer.thy ===== *)
theory Telemetry_Consumer
  imports Telemetry_Correct Discovery Table_Pull
begin

text \<open>
  What a ground node keeps of the telemetry of the others (\<^verbatim>\<open>components/telemetry/include/telemetry/consumer.hpp\<close>):
  an entry per drone the directory identified, with the walk of its measure table, its configuration and
  whether this node holds its stream. \<open>N\<close>, the size of the storage of the composition, is an argument of
  the operation that opens an entry. The listeners act on the world like the messenger.
\<close>


section \<open>State\<close>

definition TELEMETRY_KINDS :: "u32 list" where "TELEMETRY_KINDS = [NodeKind_FIRMWARE, NodeKind_DRONE_SIM]"
definition TELEMETRY_MAX_LISTENERS :: nat where "TELEMETRY_MAX_LISTENERS = 2"

record telemetry_follow =
  tf_id :: u32
  tf_table :: "descriptor table_pull"
  tf_config :: "u32 list \<times> u32"
  tf_hasConfig :: bool
  tf_subscribed :: bool
  tf_subscribeRequest :: u32

definition telemetry_follow_init :: telemetry_follow where
  "telemetry_follow_init = \<lparr> tf_id = 0, tf_table = TablePull_init, tf_config = ([], 0), tf_hasConfig = False, tf_subscribed = False, tf_subscribeRequest = 0 \<rparr>"

record 'w telemetry_consumer =
  tc_entries :: "telemetry_follow list"
  tc_listeners :: "nat list"
  tc_listenersOverflow :: u32
  tc_requests :: u32
  tc_dropped :: u32
  tc_world :: 'w

definition TelemetryConsumer_new :: "'w \<Rightarrow> 'w telemetry_consumer" where
  "TelemetryConsumer_new w = \<lparr> tc_entries = [], tc_listeners = [], tc_listenersOverflow = 0, tc_requests = 0, tc_dropped = 0, tc_world = w \<rparr>"

record ('v, 'w) telemetry_ground =
  tg_port :: "('v telemetry_body, 'w) port"
  tg_onTable :: "nat \<Rightarrow> u32 \<Rightarrow> descriptor list \<Rightarrow> 'w \<Rightarrow> 'w"
  tg_onConfig :: "nat \<Rightarrow> u32 \<Rightarrow> u32 list \<times> u32 \<Rightarrow> bool \<Rightarrow> 'w \<Rightarrow> 'w"
  tg_onSamples :: "nat \<Rightarrow> u32 \<Rightarrow> u64 \<times> (u32 \<times> 'v) list \<Rightarrow> 'w \<Rightarrow> 'w"
  tg_onForgotten :: "nat \<Rightarrow> u32 \<Rightarrow> 'w \<Rightarrow> 'w"


section \<open>Operations\<close>

definition tc_lookup :: "u32 \<Rightarrow> 'w telemetry_consumer \<Rightarrow> telemetry_follow option" where
  "tc_lookup i c = entry_lookup tf_id i (tc_entries c)"

definition tc_put :: "telemetry_follow \<Rightarrow> 'w telemetry_consumer \<Rightarrow> 'w telemetry_consumer" where
  "tc_put e c = c\<lparr> tc_entries := entry_update tf_id (tf_id e) e (tc_entries c) \<rparr>"

definition tc_log :: "('v, 'w) telemetry_ground \<Rightarrow> string \<Rightarrow> 'w telemetry_consumer \<Rightarrow> 'w telemetry_consumer" where
  "tc_log g t c = c\<lparr> tc_world := pt_log (tg_port g) WARN t (tc_world c) \<rparr>"

definition tc_request :: "('v, 'w) telemetry_ground \<Rightarrow> u32 \<Rightarrow> 'v telemetry_body \<Rightarrow> 'w telemetry_consumer \<Rightarrow> 'w telemetry_consumer \<times> u32" where
  "tc_request g dst b c =
     (let (w, i) = pt_request (tg_port g) RequestPolicy_default dst b (tc_world c) in (c\<lparr> tc_world := w, tc_requests := tc_requests c + 1 \<rparr>, i))"

definition tc_tell :: "(nat \<Rightarrow> 'w \<Rightarrow> 'w) \<Rightarrow> 'w telemetry_consumer \<Rightarrow> 'w telemetry_consumer" where
  "tc_tell f c = c\<lparr> tc_world := fold f (tc_listeners c) (tc_world c) \<rparr>"

definition telemetry_askPage :: "('v, 'w) telemetry_ground \<Rightarrow> telemetry_follow \<Rightarrow> 'w telemetry_consumer \<Rightarrow> 'w telemetry_consumer \<times> bool" where
  "telemetry_askPage g e c =
     (let (c, i) = tc_request g (tf_id e) (TelemetryListRequest (tp_cursor (tf_table e))) c in
      (tc_put (e\<lparr> tf_table := TablePull_setRequestId i (tf_table e) \<rparr>) c, i \<noteq> 0))"

definition TelemetryConsumer_refresh :: "('v, 'w) telemetry_ground \<Rightarrow> u32 \<Rightarrow> 'w telemetry_consumer \<Rightarrow> 'w telemetry_consumer \<times> bool" where
  "TelemetryConsumer_refresh g nid c =
     (case tc_lookup nid c of None \<Rightarrow> (c, False) | Some e \<Rightarrow> telemetry_askPage g (e\<lparr> tf_table := TablePull_reset (tf_table e) \<rparr>) c)"

definition TelemetryConsumer_configure ::
  "('v, 'w) telemetry_ground \<Rightarrow> u32 \<Rightarrow> u32 list \<Rightarrow> u32 \<Rightarrow> 'w telemetry_consumer \<Rightarrow> 'w telemetry_consumer \<times> bool" where
  "TelemetryConsumer_configure g nid ids periodMs c =
     (let (c, i) = tc_request g nid (TelemetryConfigure (take MAX_ENABLED ids) periodMs) c in (c, i \<noteq> 0))"

definition TelemetryConsumer_subscribe :: "('v, 'w) telemetry_ground \<Rightarrow> u32 \<Rightarrow> bool \<Rightarrow> 'w telemetry_consumer \<Rightarrow> 'w telemetry_consumer \<times> bool" where
  "TelemetryConsumer_subscribe g nid enabled c =
     (case tc_lookup nid c of
        None \<Rightarrow> (c, False)
      | Some e \<Rightarrow> let (c, i) = tc_request g nid (TelemetrySubscribe enabled) c in (tc_put (e\<lparr> tf_subscribeRequest := i \<rparr>) c, i \<noteq> 0))"

definition telemetry_open :: "('v, 'w) telemetry_ground \<Rightarrow> nat \<Rightarrow> u32 \<Rightarrow> 'w telemetry_consumer \<Rightarrow> 'w telemetry_consumer" where
  "telemetry_open g N nid c =
     (if tc_lookup nid c \<noteq> None then c
      else if length (tc_entries c) = N
      then tc_log g (''no room for '' @ hex08 nid @ '': '' @ to_string (length (tc_entries c)) @ '' node(s) already'') (c\<lparr> tc_dropped := tc_dropped c + 1 \<rparr>)
      else
        let e = telemetry_follow_init\<lparr> tf_id := nid \<rparr> in
        fst (telemetry_askPage g e (c\<lparr> tc_entries := tc_entries c @ [e] \<rparr>)))"

definition TelemetryConsumer_onIdentity :: "('v, 'w) telemetry_ground \<Rightarrow> nat \<Rightarrow> directory_entry \<Rightarrow> 'w telemetry_consumer \<Rightarrow> 'w telemetry_consumer" where
  "TelemetryConsumer_onIdentity g N d c =
     (if de_wireMismatch d then c
      else if an_kind (de_announce d) \<in> set TELEMETRY_KINDS then telemetry_open g N (de_id d) c else c)"

definition tc_tellConfig :: "('v, 'w) telemetry_ground \<Rightarrow> telemetry_follow \<Rightarrow> 'w telemetry_consumer \<Rightarrow> 'w telemetry_consumer" where
  "tc_tellConfig g e c = tc_tell (\<lambda>l. tg_onConfig g l (tf_id e) (tf_config e) (tf_subscribed e)) c"

definition telemetry_onPage ::
  "('v, 'w) telemetry_ground \<Rightarrow> telemetry_follow \<Rightarrow> u32 \<Rightarrow> u32 \<Rightarrow> descriptor list \<Rightarrow> 'w telemetry_consumer \<Rightarrow> 'w telemetry_consumer" where
  "telemetry_onPage g e itemsTotal cursor items c =
     (let (table, ok) = TablePull_applyPage MAX_TELEMETRY_ENTRIES itemsTotal cursor items (tf_table e); e = e\<lparr> tf_table := table \<rparr> in
      if \<not> ok then c
      else if \<not> tp_complete table then fst (telemetry_askPage g e c)
      else tc_tell (\<lambda>l. tg_onTable g l (tf_id e) (tp_items table)) (tc_put e c))"

fun TelemetryConsumer_onMessage :: "('v, 'w) telemetry_ground \<Rightarrow> u32 \<Rightarrow> 'v telemetry_body \<Rightarrow> 'w telemetry_consumer \<Rightarrow> 'w telemetry_consumer \<times> bool" where
  "TelemetryConsumer_onMessage g src b c =
     (case tc_lookup src c of
        None \<Rightarrow> (c, False)
      | Some e \<Rightarrow>
          (case b of
             TelemetryDescriptors itemsTotal cursor items \<Rightarrow> (telemetry_onPage g e itemsTotal cursor items c, True)
           | TelemetryConfig ids period \<Rightarrow>
               let e = e\<lparr> tf_config := (ids, period), tf_hasConfig := True \<rparr> in (tc_tellConfig g e (tc_put e c), True)
           | TelemetrySubscription enabled \<Rightarrow>
               let e = e\<lparr> tf_subscribed := enabled, tf_subscribeRequest := 0 \<rparr> in (tc_tellConfig g e (tc_put e c), True)
           | TelemetryData t vs \<Rightarrow> (tc_tell (\<lambda>l. tg_onSamples g l src (t, vs)) c, True)
           | _ \<Rightarrow> (c, False)))"

definition TelemetryConsumer_onNodeDown :: "('v, 'w) telemetry_ground \<Rightarrow> u32 \<Rightarrow> 'w telemetry_consumer \<Rightarrow> 'w telemetry_consumer" where
  "TelemetryConsumer_onNodeDown g nodeId c =
     (if tc_lookup nodeId c = None then c
      else tc_tell (\<lambda>l. tg_onForgotten g l nodeId) (c\<lparr> tc_entries := entry_remove tf_id nodeId (tc_entries c) \<rparr>))"

definition TelemetryConsumer_onRequestFailed :: "('v, 'w) telemetry_ground \<Rightarrow> u32 \<Rightarrow> u32 \<Rightarrow> 'w telemetry_consumer \<Rightarrow> 'w telemetry_consumer" where
  "TelemetryConsumer_onRequestFailed g dst requestId c =
     (case tc_lookup dst c of
        None \<Rightarrow> c
      | Some e \<Rightarrow>
          if tp_requestId (tf_table e) = requestId
          then tc_log g (hex08 dst @ '' never answered for its measure table'') (tc_put (e\<lparr> tf_table := TablePull_abandon (tf_table e) \<rparr>) c)
          else if tf_subscribeRequest e = requestId
          then tc_log g (hex08 dst @ '' never took the telemetry subscribe'') (tc_put (e\<lparr> tf_subscribeRequest := 0 \<rparr>) c)
          else c)"

definition TelemetryConsumer_attach :: "nat \<Rightarrow> 'w telemetry_consumer \<Rightarrow> 'w telemetry_consumer" where
  "TelemetryConsumer_attach l c =
     (let (ls, n) = listener_attach TELEMETRY_MAX_LISTENERS l (tc_listeners c, tc_listenersOverflow c) in c\<lparr> tc_listeners := ls, tc_listenersOverflow := n \<rparr>)"

definition TelemetryConsumer_detach :: "nat \<Rightarrow> 'w telemetry_consumer \<Rightarrow> 'w telemetry_consumer" where
  "TelemetryConsumer_detach l c =
     (let (ls, n) = listener_detach l (tc_listeners c, tc_listenersOverflow c) in c\<lparr> tc_listeners := ls, tc_listenersOverflow := n \<rparr>)"

definition TelemetryConsumer_ready :: "'w telemetry_consumer \<Rightarrow> bool" where
  "TelemetryConsumer_ready c \<longleftrightarrow> tc_listenersOverflow c = 0"

end
