(* ===== verification/Pull_Dialogue.thy ===== *)
theory Pull_Dialogue
  imports Node_Table Table_Pull
begin

text \<open>
  A table pulled over a link that loses nothing. A provider serves the pages of a table, a consumer walks
  them, and every service of the project that publishes a table (measures, log modules, parameters) has
  such a pair. The locale \<open>paged_dialogue\<close> states what one round of a pair does to the walk of the consumer
  and to what it has published; its lemma says how such a dialogue ends. The services interpret it on
  their consumers and providers.

  A consumer records its requests and, beside them, what it publishes to its listeners.
\<close>


definition pair_port :: "(u32 \<Rightarrow> bool) \<Rightarrow> (u32 \<Rightarrow> u32) \<Rightarrow> ('b, 'b traffic list \<times> 'x) port" where
  "pair_port ok rid = \<lparr> pt_send = (\<lambda>dst b (w, x). ((w @ [Sent dst b], x), ok dst)), pt_request = (\<lambda>p dst b (w, x). ((w @ [Asked p dst b], x), rid dst)),
     pt_log = (\<lambda>l t (w, x). (w @ [Logged l t], x)) \<rparr>"

lemma pair_port_simps [simp]:
  "pt_send (pair_port ok rid) dst b w = ((fst w @ [Sent dst b], snd w), ok dst)" "pt_request (pair_port ok rid) p dst b w = ((fst w @ [Asked p dst b], snd w), rid dst)"
  "pt_log (pair_port ok rid) l t w = (fst w @ [Logged l t], snd w)"
  by (simp_all add: pair_port_def case_prod_beta)

text \<open>The bodies of the requests to a node.\<close>

fun asked_of :: "u32 \<Rightarrow> 'b traffic list \<Rightarrow> 'b list" where
  "asked_of n [] = []"
| "asked_of n (Asked p d b # w) = (if d = n then b # asked_of n w else asked_of n w)"
| "asked_of n (_ # w) = asked_of n w"

lemma asked_of_append [simp]: "asked_of n (a @ b) = asked_of n a @ asked_of n b"
  by (induction n a rule: asked_of.induct) auto


locale paged_dialogue =
  fixes round :: "'s \<Rightarrow> 's" and pull :: "'s \<Rightarrow> 'a table_pull" and asking idle :: "'s \<Rightarrow> bool" and told :: "'s \<Rightarrow> 'x list"
    and report :: "'a list \<Rightarrow> 'x list" and table :: "'a list" and k cap :: nat
  assumes fits: "length table < 2 ^ 32"
    and answered: "asking s \<Longrightarrow> pull_inv cap table (pull s) \<Longrightarrow> \<not> tp_complete (pull s) \<Longrightarrow>
      \<exists>i. pull (round s) = (apply_pages cap table [served_page table k (pull s)] (pull s))\<lparr> tp_requestId := i \<rparr>"
    and goes_on: "asking s \<Longrightarrow> \<not> tp_complete (pull s) \<Longrightarrow> if tp_complete (pull (round s)) then idle (round s) else asking (round s)"
    and tells: "asking s \<Longrightarrow> \<not> tp_complete (pull s) \<Longrightarrow>
      told (round s) = told s @ (if tp_complete (pull (round s)) then report (tp_items (pull (round s))) else [])"
    and at_rest: "idle s \<Longrightarrow> pull (round s) = pull s \<and> told (round s) = told s \<and> idle (round s)"
begin

lemma rest: "idle s \<Longrightarrow> pull ((round ^^ n) s) = pull s \<and> told ((round ^^ n) s) = told s"
proof (induction n arbitrary: s)
  case (Suc n)
  then show ?case using at_rest [of s] by (simp add: funpow_swap1)
qed simp

text \<open>A dialogue ends, holding the table, which was published once.\<close>

lemma completes:
  assumes "asking s" "pull_inv cap table (pull s)" "\<not> tp_complete (pull s)" "length table - unat (tp_cursor (pull s)) < n"
  shows "tp_complete (pull ((round ^^ n) s)) \<and> tp_items (pull ((round ^^ n) s)) = take cap table \<and> told ((round ^^ n) s) = told s @ report (take cap table)"
  using assms
proof (induction n arbitrary: s)
  case (Suc n)
  let ?q = "apply_pages cap table [served_page table k (pull s)] (pull s)"
  obtain i where q: "pull (round s) = ?q\<lparr> tp_requestId := i \<rparr>" using answered Suc.prems by blast
  note w = walk_step [OF fits Suc.prems(2,3), of k]
  have inv: "pull_inv cap table (pull (round s))" using w(1) by (auto simp: q pull_inv_def)
  note t = goes_on [OF Suc.prems(1,3)] tells [OF Suc.prems(1,3)]
  have it: "(round ^^ Suc n) s = (round ^^ n) (round s)" by (simp add: funpow_swap1)
  show ?case
  proof (cases "tp_complete (pull (round s))")
    case True
    then have "tp_items (pull (round s)) = take cap table" using inv unfolding pull_inv_def by blast
    then show ?thesis unfolding it using True t rest [of "round s" n] by simp
  next
    case False
    moreover have "length table - unat (tp_cursor (pull (round s))) < n" using w(2) False Suc.prems(4) by (simp add: q)
    ultimately show ?thesis unfolding it using Suc.IH [of "round s"] inv t by simp
  qed
qed simp

end

end
