(* ===== verification/Telemetry_Dialogue.thy ===== *)
theory Telemetry_Dialogue
  imports Telemetry_Consumer Pull_Dialogue
begin

text \<open>
  The measure table end to end: the consumer of a ground node and the provider of a drone over a link that
  loses nothing. One round takes the requests the consumer made, hands them to the provider and hands the
  answers back. The table the ground ends with is the table of the drone.
\<close>


section \<open>The pair\<close>

text \<open>A ground node whose listeners record the tables they are given.\<close>

definition telemetry_desk :: "(u32 \<Rightarrow> bool) \<Rightarrow> (u32 \<Rightarrow> u32) \<Rightarrow> ('v, 'v telemetry_body traffic list \<times> (nat \<times> u32 \<times> descriptor list) list) telemetry_ground" where
  "telemetry_desk ok rid = \<lparr> tg_port = pair_port ok rid, tg_onTable = (\<lambda>l n t (w, x). (w, x @ [(l, n, t)])), tg_onConfig = (\<lambda>_ _ _ _ w. w),
     tg_onSamples = (\<lambda>_ _ _ w. w), tg_onForgotten = (\<lambda>_ _ w. w) \<rparr>"

type_synonym ('m, 'v) telemetry_pair =
  "('v telemetry_body traffic list \<times> (nat \<times> u32 \<times> descriptor list) list) telemetry_consumer \<times> ('m, 'v, 'v telemetry_body traffic list) telemetry"

definition telemetry_exchange :: "(u32 \<Rightarrow> bool) \<Rightarrow> (u32 \<Rightarrow> u32) \<Rightarrow> u32 \<Rightarrow> u32 \<Rightarrow> ('m, 'v) telemetry_pair \<Rightarrow> ('m, 'v) telemetry_pair" where
  "telemetry_exchange ok rid node self = (\<lambda>(c, p).
     let p = fold (\<lambda>b p. fst (TelemetryProvider_onMessage (recorder ok rid) self b p)) (asked_of node (fst (tc_world c))) (p\<lparr> tl_world := [] \<rparr>);
         c = fold (\<lambda>b c. fst (TelemetryConsumer_onMessage (telemetry_desk ok rid) node b c)) (asked_of self (tl_world p)) (c\<lparr> tc_world := ([], snd (tc_world c)) \<rparr>) in
     (c, p))"

definition telemetry_pull :: "u32 \<Rightarrow> ('m, 'v) telemetry_pair \<Rightarrow> descriptor table_pull" where
  "telemetry_pull node = (\<lambda>(c, p). case tc_lookup node c of Some e \<Rightarrow> tf_table e | None \<Rightarrow> TablePull_init)"

definition measure_table :: "('m, 'v, 'w) telemetry \<Rightarrow> descriptor list" where
  "measure_table p = map (descriptor_of (tl_entries p)) [0 ..< length (tl_entries p)]"

text \<open>The state between two rounds: the question for the next page is the only request to the node under way.\<close>

definition telemetry_asking :: "u32 \<Rightarrow> descriptor list \<Rightarrow> nat list \<Rightarrow> ('m, 'v) telemetry_pair \<Rightarrow> bool" where
  "telemetry_asking node table ls = (\<lambda>(c, p). measure_table p = table \<and> tc_listeners c = ls \<and> \<not> tp_complete (telemetry_pull node (c, p)) \<and> tc_lookup node c \<noteq> None \<and>
     asked_of node (fst (tc_world c)) = [TelemetryListRequest (tp_cursor (telemetry_pull node (c, p)))])"

definition telemetry_idle :: "u32 \<Rightarrow> ('m, 'v) telemetry_pair \<Rightarrow> bool" where
  "telemetry_idle node = (\<lambda>(c, p). asked_of node (fst (tc_world c)) = [])"

definition telemetry_told :: "('m, 'v) telemetry_pair \<Rightarrow> (nat \<times> u32 \<times> descriptor list) list" where
  "telemetry_told = (\<lambda>(c, p). snd (tc_world c))"

definition telemetry_report :: "u32 \<Rightarrow> nat list \<Rightarrow> descriptor list \<Rightarrow> (nat \<times> u32 \<times> descriptor list) list" where
  "telemetry_report node ls items = map (\<lambda>l. (l, node, items)) ls"

lemma desk_simps [simp]: "tg_port (telemetry_desk ok rid) = pair_port ok rid" "tg_onTable (telemetry_desk ok rid) l n t w = (fst w, snd w @ [(l, n, t)])"
  by (simp_all add: telemetry_desk_def case_prod_beta)

lemma tell_desk: "fold (\<lambda>l. tg_onTable (telemetry_desk ok rid) l n t) ls w = (fst w, snd w @ map (\<lambda>l. (l, n, t)) ls)"
  by (induction ls arbitrary: w) auto

lemma lookup_put: "tc_lookup n c \<noteq> None \<Longrightarrow> tf_id e = n \<Longrightarrow> tc_lookup n (tc_put e c) = Some e"
  by (simp add: tc_lookup_def tc_put_def lookup_update entry_None)

lemma lookup_id: "tc_lookup n c = Some e \<Longrightarrow> tf_id e = n"
  using entry_Some [of tf_id n "tc_entries c" e] by (simp add: tc_lookup_def)

lemma lookup_world [simp]: "tc_lookup n (c\<lparr> tc_world := w \<rparr>) = tc_lookup n c" "tc_lookup n (c\<lparr> tc_world := w, tc_requests := r \<rparr>) = tc_lookup n c"
  by (simp_all add: tc_lookup_def)

text \<open>What a page does to the consumer.\<close>

lemma onPage_desk:
  fixes c :: "('v telemetry_body traffic list \<times> (nat \<times> u32 \<times> descriptor list) list) telemetry_consumer"
  assumes "tc_lookup node c = Some e" "fst (tc_world c) = []" and q: "TablePull_applyPage MAX_TELEMETRY_ENTRIES n cur items (tf_table e) = (q, True)"
    and c': "c' = telemetry_onPage (telemetry_desk ok rid) e n cur items c"
  shows "\<exists>e' i. tc_lookup node c' = Some e' \<and> tf_table e' = q\<lparr> tp_requestId := i \<rparr> \<and> tc_listeners c' = tc_listeners c \<and>
    snd (tc_world c') = snd (tc_world c) @ (if tp_complete q then telemetry_report node (tc_listeners c) (tp_items q) else []) \<and>
    asked_of node (fst (tc_world c')) = (if tp_complete q then [] else [TelemetryListRequest (tp_cursor q)])"
proof -
  have i: "tf_id e = node" using lookup_id assms(1) by blast
  show ?thesis
  proof (cases "tp_complete q")
    case True
    let ?e = "e\<lparr> tf_table := q \<rparr>"
    have "tc_lookup node (tc_put ?e c) = Some ?e" using lookup_put [of node c ?e] assms(1) i by simp
    then show ?thesis using True i assms(2)
      by (intro exI [of _ ?e] exI [of _ "tp_requestId q"]) (simp add: c' telemetry_onPage_def q Let_def tc_tell_def tell_desk telemetry_report_def tc_put_def)
  next
    case False
    let ?e = "e\<lparr> tf_table := q\<lparr> tp_requestId := rid node \<rparr> \<rparr>"
    have "tc_lookup node (tc_put ?e (c\<lparr> tc_world := w, tc_requests := r \<rparr>)) = Some ?e" for w r
      using lookup_put [of node "c\<lparr> tc_world := w, tc_requests := r \<rparr>" ?e] assms(1) i by simp
    then show ?thesis using False i assms(2)
      by (intro exI [of _ ?e] exI [of _ "rid node"])
        (simp add: c' telemetry_onPage_def q Let_def telemetry_askPage_def tc_request_def TablePull_setRequestId_def tc_put_def)
  qed
qed

lemma measure_world [simp]: "measure_table (p\<lparr> tl_world := w \<rparr>) = measure_table p"
  by (simp add: measure_table_def)

lemma measure_page: "telemetry_page (tl_entries p) cur = take 6 (drop (unat cur) (measure_table p))"
  by (simp add: telemetry_page_take measure_table_def DESCRIPTORS_PER_PAGE_def)

lemma exchange_asking:
  fixes s :: "('m, 'v) telemetry_pair"
  assumes "telemetry_asking node table ls s"
  shows "\<exists>i. telemetry_pull node (telemetry_exchange ok rid node self s) =
      (apply_pages MAX_TELEMETRY_ENTRIES table [served_page table 6 (telemetry_pull node s)] (telemetry_pull node s))\<lparr> tp_requestId := i \<rparr>"
    "if tp_complete (telemetry_pull node (telemetry_exchange ok rid node self s)) then telemetry_idle node (telemetry_exchange ok rid node self s)
     else telemetry_asking node table ls (telemetry_exchange ok rid node self s)"
    "telemetry_told (telemetry_exchange ok rid node self s) = telemetry_told s @
       (if tp_complete (telemetry_pull node (telemetry_exchange ok rid node self s))
        then telemetry_report node ls (tp_items (telemetry_pull node (telemetry_exchange ok rid node self s))) else [])"
proof -
  obtain c p where s: "s = (c, p)" by fastforce
  obtain e where e: "tc_lookup node c = Some e" and a: "measure_table p = table" "tc_listeners c = ls" "\<not> tp_complete (tf_table e)"
    "asked_of node (fst (tc_world c)) = [TelemetryListRequest (tp_cursor (tf_table e))]"
    using assms by (auto simp: telemetry_asking_def telemetry_pull_def s)
  let ?cur = "tp_cursor (tf_table e)" let ?items = "take 6 (drop (unat ?cur) table)"
  let ?c = "c\<lparr> tc_world := ([], snd (tc_world c)) \<rparr>"
  let ?q = "fst (TablePull_applyPage MAX_TELEMETRY_ENTRIES (of_nat (length table)) ?cur ?items (tf_table e))"
  let ?c' = "telemetry_onPage (telemetry_desk ok rid) e (of_nat (length table)) ?cur ?items ?c"
  let ?p = "p\<lparr> tl_world := [Asked RequestPolicy_default self (TelemetryDescriptors (of_nat (length table)) ?cur ?items)] \<rparr>"
  have len: "length (tl_entries p) = length table" using a(1) by (auto simp: measure_table_def)
  have x: "telemetry_exchange ok rid node self s = (?c', ?p)"
    using e by (simp add: telemetry_exchange_def s a(4) telemetry_sendPage_def measure_page a(1) len Let_def)
  have q: "TablePull_applyPage MAX_TELEMETRY_ENTRIES (of_nat (length table)) ?cur ?items (tf_table e) = (?q, True)"
    by (simp add: TablePull_applyPage_def Let_def split: prod.split)
  have "tc_lookup node ?c = Some e" "fst (tc_world ?c) = []" using e by simp_all
  from onPage_desk [OF this q refl, of ok rid] obtain e' i where
    n: "tc_lookup node ?c' = Some e'" "tf_table e' = ?q\<lparr> tp_requestId := i \<rparr>" "tc_listeners ?c' = ls"
      "snd (tc_world ?c') = snd (tc_world c) @ (if tp_complete ?q then telemetry_report node ls (tp_items ?q) else [])"
      "asked_of node (fst (tc_world ?c')) = (if tp_complete ?q then [] else [TelemetryListRequest (tp_cursor ?q)])"
    using a(2) by auto
  have pull: "telemetry_pull node (?c', ?p) = ?q\<lparr> tp_requestId := i \<rparr>" using n(1,2) by (simp add: telemetry_pull_def)
  have old: "telemetry_pull node s = tf_table e" using e by (simp add: telemetry_pull_def s)
  show "\<exists>i. telemetry_pull node (telemetry_exchange ok rid node self s) =
      (apply_pages MAX_TELEMETRY_ENTRIES table [served_page table 6 (telemetry_pull node s)] (telemetry_pull node s))\<lparr> tp_requestId := i \<rparr>"
    by (intro exI [of _ i]) (simp add: x pull old apply_pages_def served_page_def)
  have "measure_table ?p = table" using a(1) by (simp add: measure_table_def)
  then show "if tp_complete (telemetry_pull node (telemetry_exchange ok rid node self s)) then telemetry_idle node (telemetry_exchange ok rid node self s)
     else telemetry_asking node table ls (telemetry_exchange ok rid node self s)"
    using n by (simp add: x pull telemetry_idle_def telemetry_asking_def)
  show "telemetry_told (telemetry_exchange ok rid node self s) = telemetry_told s @
       (if tp_complete (telemetry_pull node (telemetry_exchange ok rid node self s))
        then telemetry_report node ls (tp_items (telemetry_pull node (telemetry_exchange ok rid node self s))) else [])"
    unfolding x pull using n by (simp add: telemetry_told_def s)
qed

lemma exchange_idle:
  "telemetry_idle node s \<Longrightarrow> telemetry_pull node (telemetry_exchange ok rid node self s) = telemetry_pull node s \<and>
     telemetry_told (telemetry_exchange ok rid node self s) = telemetry_told s \<and> telemetry_idle node (telemetry_exchange ok rid node self s)"
  by (cases s) (simp add: telemetry_idle_def telemetry_exchange_def telemetry_pull_def telemetry_told_def Let_def)

text \<open>The law of the dialogue for this pair; a table beyond the wire is left out by asking it to have at most
  the measures a provider freezes.\<close>

interpretation measures: paged_dialogue "telemetry_exchange ok rid node self" "telemetry_pull node" "telemetry_asking node (take MAX_TELEMETRY_ENTRIES table) ls"
  "telemetry_idle node" telemetry_told "telemetry_report node ls" "take MAX_TELEMETRY_ENTRIES table" 6 MAX_TELEMETRY_ENTRIES
  for ok rid node self table ls
  by unfold_locales (simp add: MAX_TELEMETRY_ENTRIES_def, (rule exchange_asking, assumption)+, rule exchange_idle)

text \<open>The ground ends with the measure table of the drone. A consumer with room for a node it does not
  follow yet, told by the directory that the node is a drone of this schema, and the provider of that node
  exchange messages over a link that loses nothing: after one round more than the drone has measures, at the latest, the
  entry of the node is complete and holds the table the drone froze, every id, name and unit, and
  every listener was given that table exactly once.\<close>

lemma telemetry_table_pulled:
  fixes c :: "('v telemetry_body traffic list \<times> (nat \<times> u32 \<times> descriptor list) list) telemetry_consumer"
    and p :: "('m, 'v, 'v telemetry_body traffic list) telemetry"
  assumes "tc_lookup node c = None" "length (tc_entries c) < N" "tc_world c = ([], [])"
    and "de_id d = node" "\<not> de_wireMismatch d" "an_kind (de_announce d) \<in> {NodeKind_FIRMWARE, NodeKind_DRONE_SIM}"
    and "length (tl_entries p) \<le> MAX_TELEMETRY_ENTRIES" "length (tl_entries p) < n"
    and "(c', p') = (telemetry_exchange ok rid node self ^^ n) (TelemetryConsumer_onIdentity (telemetry_desk ok rid) N d c, p)"
  shows "\<exists>e. tc_lookup node c' = Some e \<and> tp_complete (tf_table e) \<and>
    tp_items (tf_table e) = map (\<lambda>i. (of_nat i, take MAX_TELEMETRY_NAME (te_name (tl_entries p ! i)), te_unit (tl_entries p ! i))) [0 ..< length (tl_entries p)] \<and>
    snd (tc_world c') = map (\<lambda>l. (l, node, tp_items (tf_table e))) (tc_listeners c)"
proof -
  let ?s = "(TelemetryConsumer_onIdentity (telemetry_desk ok rid) N d c, p)" let ?t = "measure_table p"
  let ?e = "telemetry_follow_init\<lparr> tf_id := node \<rparr>"
  have len: "length ?t = length (tl_entries p)" by (simp add: measure_table_def)
  have t: "take MAX_TELEMETRY_ENTRIES ?t = ?t" using assms(7) len by simp
  have f: "entry_lookup tf_id node (entry_update tf_id node (?e\<lparr> tf_table := q \<rparr>) (tc_entries c @ [?e])) = Some (?e\<lparr> tf_table := q \<rparr>)" for q
    by (subst lookup_update) simp_all
  have s: "telemetry_pull node ?s = TablePull_init\<lparr> tp_requestId := rid node \<rparr>" "telemetry_asking node ?t (tc_listeners c) ?s" "telemetry_told ?s = []"
    using assms(1-6) f by (auto simp: TelemetryConsumer_onIdentity_def TELEMETRY_KINDS_def telemetry_open_def telemetry_askPage_def tc_request_def Let_def
      TablePull_setRequestId_def tc_put_def telemetry_follow_init_def telemetry_pull_def telemetry_asking_def tc_lookup_def telemetry_told_def TablePull_init_def)
  have inv: "pull_inv MAX_TELEMETRY_ENTRIES ?t (telemetry_pull node ?s)" "\<not> tp_complete (telemetry_pull node ?s)" "tp_cursor (telemetry_pull node ?s) = 0"
    by (simp_all add: s(1) pull_inv_def TablePull_init_def)
  have "tp_complete (telemetry_pull node (c', p')) \<and> tp_items (telemetry_pull node (c', p')) = ?t \<and>
      telemetry_told (c', p') = telemetry_report node (tc_listeners c) ?t"
    using measures.completes [of node ?t "tc_listeners c" ?s n ok rid self] inv s(2,3) assms(8) len by (simp add: t assms(9))
  then show ?thesis
    by (auto simp: telemetry_pull_def telemetry_told_def telemetry_report_def measure_table_def descriptor_of_def TablePull_init_def
      split: option.splits)
qed

lemma telemetry_table_pulled_example:
  "\<exists>e. tc_lookup 5 (fst ((telemetry_exchange (\<lambda>_. True) (\<lambda>_. 1) 5 6 ^^ 4)
       (TelemetryConsumer_onIdentity (telemetry_desk (\<lambda>_. True) (\<lambda>_. 1)) 1
          (DirectoryEntry_init\<lparr> de_id := 5, de_announce := Announce_init\<lparr> an_kind := 1 \<rparr> \<rparr>) (TelemetryConsumer_new ([], [])), small_telemetry))) = Some e \<and>
     tp_items (tf_table e) = [(0, ''a'', UNIT_M), (1, ''a'', UNIT_M), (2, ''a'', UNIT_M)]"
proof -
  let ?d = "DirectoryEntry_init\<lparr> de_id := 5, de_announce := Announce_init\<lparr> an_kind := 1 \<rparr> \<rparr>"
  let ?s = "(telemetry_exchange (\<lambda>_. True) (\<lambda>_. 1) 5 6 ^^ 4)
    (TelemetryConsumer_onIdentity (telemetry_desk (\<lambda>_. True) (\<lambda>_. 1)) 1 ?d (TelemetryConsumer_new ([], [])), small_telemetry)"
  have "map (\<lambda>i. (of_nat i :: u32, take MAX_TELEMETRY_NAME (te_name (tl_entries small_telemetry ! i)), te_unit (tl_entries small_telemetry ! i)))
      [0 ..< length (tl_entries small_telemetry)] = [(0, ''a'', UNIT_M), (1, ''a'', UNIT_M), (2, ''a'', UNIT_M)]"
    by (simp add: small_telemetry_def TelemetryProvider_new_def MAX_TELEMETRY_NAME_def upt_rec)
  then show ?thesis
    using telemetry_table_pulled [of 5 "TelemetryConsumer_new ([], [])" 1 ?d small_telemetry 4 "fst ?s" "snd ?s" "\<lambda>_. True" "\<lambda>_. 1" 6]
    by (auto simp: TelemetryConsumer_new_def tc_lookup_def entry_lookup_def DirectoryEntry_init_def Announce_init_def NodeKind_FIRMWARE_def
      small_fields MAX_TELEMETRY_ENTRIES_def)
qed

end
