(* ===== verification/Log.thy ===== *)
theory Log
  imports Node_Table Subscriber_Table
begin

text \<open>
  The log library and its route to the wire (\<^verbatim>\<open>components/log\<close>: \<^verbatim>\<open>module.cpp\<close>, \<^verbatim>\<open>wire.cpp\<close>, \<^verbatim>\<open>provider.cpp\<close>). A
  module is an id, a name and a threshold in a process-wide list, newest first; a line that passes the
  threshold of its module goes to the two sinks. The provider is one of them: it lets fifty lines per
  second through to its subscribers and to a local sink, and counts the rest. It also serves the module
  table and moves the levels.

  The record \<open>logging\<close> is the globals of the library and the fields of the provider together, because each
  calls the other: the provider logs through its own module and the library writes to the provider. The
  messenger, the clock and the sinks other than the provider belong to the world; what they log
  themselves while they carry a line is not part of the model.
\<close>


section \<open>Levels\<close>

fun level_rank :: "log_level \<Rightarrow> nat" where
  "level_rank TRACE = 0"
| "level_rank DEBUG = 1"
| "level_rank INFO = 2"
| "level_rank WARN = 3"
| "level_rank ERROR = 4"

lemma level_rank_inject: "level_rank a = level_rank b \<longleftrightarrow> a = b"
  by (cases a; cases b) simp_all

instantiation log_level :: linorder
begin

definition less_eq_log_level :: "log_level \<Rightarrow> log_level \<Rightarrow> bool" where "less_eq_log_level a b \<longleftrightarrow> level_rank a \<le> level_rank b"
definition less_log_level :: "log_level \<Rightarrow> log_level \<Rightarrow> bool" where "less_log_level a b \<longleftrightarrow> level_rank a < level_rank b"

instance
  by standard (auto simp: less_eq_log_level_def less_log_level_def level_rank_inject)

end

fun logLevelName :: "log_level \<Rightarrow> string" where
  "logLevelName TRACE = ''TRAC''"
| "logLevelName DEBUG = ''DBUG''"
| "logLevelName INFO = ''INFO''"
| "logLevelName WARN = ''WARN''"
| "logLevelName ERROR = ''ERR ''"

definition logLevelToWire :: "log_level \<Rightarrow> u32" where "logLevelToWire l = of_nat (level_rank l)"

definition logLevelFromWire :: "u32 \<Rightarrow> log_level option" where
  "logLevelFromWire wire = (if wire > 4 then None else Some ([TRACE, DEBUG, INFO, WARN, ERROR] ! unat wire))"


section \<open>State\<close>

definition LOG_MAX_NAME :: nat where "LOG_MAX_NAME = 32"
definition LOG_MAX_TEXT :: nat where "LOG_MAX_TEXT = 96"
definition LOG_DEFAULT_LEVEL :: log_level where "LOG_DEFAULT_LEVEL = INFO"
definition LOG_MAX_SINKS :: nat where "LOG_MAX_SINKS = 2"
definition LOG_MODULES_PER_PAGE :: nat where "LOG_MODULES_PER_PAGE = 8"
definition LOG_MAX_SUBSCRIBERS :: nat where "LOG_MAX_SUBSCRIBERS = 2"
definition MAX_LINES_PER_SECOND :: u32 where "MAX_LINES_PER_SECOND = 50"
definition WINDOW_US :: u64 where "WINDOW_US = 1000000"
definition LOG_MODULE_CORE :: u16 where "LOG_MODULE_CORE = 1"
definition LOG_MODULE_LOG_PROVIDER :: u16 where "LOG_MODULE_LOG_PROVIDER = 21"

record log_module =
  lm_id :: u16
  lm_name :: string
  lm_level :: log_level

record log_record =
  lr_moduleId :: u16
  lr_moduleName :: string
  lr_level :: log_level
  lr_timestampUs :: u64
  lr_text :: string

type_synonym module_info = "u32 \<times> string \<times> u32"

datatype log_body =
    Log u64 u32 u32 string
  | LogSubscribe bool
  | LogSubscription bool
  | LogModulesRequest u32
  | LogModules u32 u32 "module_info list"
  | LogModuleInfo module_info
  | LogSetLevel u32 u32

text \<open>A sink is the provider or one of the platform, by its number.\<close>

datatype log_sink = ProviderSink | PlatformSink nat

record 'w logging =
  lg_modules :: "log_module list"
  lg_sinks :: "log_sink option list"
  lg_clock :: "('w \<Rightarrow> u64) option"
  lg_subscribers :: subscriber_table
  lg_localSink :: "nat option"
  lg_windowStartUs :: u64
  lg_windowCount :: u32
  lg_windowDropped :: u32
  lg_dropped :: u32
  lg_linesSent :: u32
  lg_world :: 'w

record 'w log_env =
  le_port :: "(log_body, 'w) port"
  le_write :: "nat \<Rightarrow> log_record \<Rightarrow> 'w \<Rightarrow> 'w"

definition logging_init :: "'w \<Rightarrow> 'w logging" where
  "logging_init w = \<lparr> lg_modules = [], lg_sinks = replicate LOG_MAX_SINKS None, lg_clock = None, lg_subscribers = [], lg_localSink = None,
     lg_windowStartUs = 0, lg_windowCount = 0, lg_windowDropped = 0, lg_dropped = 0, lg_linesSent = 0, lg_world = w \<rparr>"


section \<open>The library\<close>

definition LogModule_new :: "u16 \<Rightarrow> string \<Rightarrow> 'w logging \<Rightarrow> 'w logging" where
  "LogModule_new i name g = g\<lparr> lg_modules := \<lparr> lm_id = i, lm_name = name, lm_level = LOG_DEFAULT_LEVEL \<rparr> # lg_modules g \<rparr>"

definition LogModule_enabled :: "log_level \<Rightarrow> log_module \<Rightarrow> bool" where
  "LogModule_enabled level m \<longleftrightarrow> level \<ge> lm_level m"

definition log_now :: "'w logging \<Rightarrow> u64" where
  "log_now g = (case lg_clock g of None \<Rightarrow> 0 | Some clock \<Rightarrow> clock (lg_world g))"

definition logSetClock :: "('w \<Rightarrow> u64) option \<Rightarrow> 'w logging \<Rightarrow> 'w logging" where
  "logSetClock clock g = g\<lparr> lg_clock := clock \<rparr>"

fun add_sink :: "log_sink \<Rightarrow> log_sink option list \<Rightarrow> log_sink option list \<times> bool" where
  "add_sink s [] = ([], False)"
| "add_sink s (slot # slots) = (if slot = None then (Some s # slots, True) else let (slots, ok) = add_sink s slots in (slot # slots, ok))"

definition logAddSink :: "log_sink \<Rightarrow> 'w logging \<Rightarrow> 'w logging \<times> bool" where
  "logAddSink s g = (let (slots, ok) = add_sink s (lg_sinks g) in (g\<lparr> lg_sinks := slots \<rparr>, ok))"

definition logRemoveSink :: "log_sink \<Rightarrow> 'w logging \<Rightarrow> 'w logging" where
  "logRemoveSink s g = g\<lparr> lg_sinks := map (\<lambda>slot. if slot = Some s then None else slot) (lg_sinks g) \<rparr>"

definition logFindModule :: "u16 \<Rightarrow> 'w logging \<Rightarrow> log_module option" where
  "logFindModule i g = find (\<lambda>m. lm_id m = i) (lg_modules g)"

text \<open>\<^verbatim>\<open>setLevel\<close> through the pointer \<^verbatim>\<open>logFindModule\<close> returned: the first module of that id.\<close>

fun set_level_of :: "u16 \<Rightarrow> log_level \<Rightarrow> log_module list \<Rightarrow> log_module list" where
  "set_level_of i level [] = []"
| "set_level_of i level (m # ms) = (if lm_id m = i then m\<lparr> lm_level := level \<rparr> # ms else m # set_level_of i level ms)"

definition logSetLevel :: "u16 \<Rightarrow> log_level \<Rightarrow> 'w logging \<Rightarrow> 'w logging \<times> bool" where
  "logSetLevel i level g =
     (if logFindModule i g = None then (g, False) else (g\<lparr> lg_modules := set_level_of i level (lg_modules g) \<rparr>, True))"

definition logSetLevelByPrefix :: "string \<Rightarrow> log_level \<Rightarrow> 'w logging \<Rightarrow> 'w logging \<times> nat" where
  "logSetLevelByPrefix pre level g =
     (let hit = (\<lambda>m. take (length pre) (lm_name m) = pre) in
      (g\<lparr> lg_modules := map (\<lambda>m. if hit m then m\<lparr> lm_level := level \<rparr> else m) (lg_modules g) \<rparr>, length (filter hit (lg_modules g))))"


section \<open>The wire\<close>

definition logFillModuleInfo :: "log_module \<Rightarrow> module_info" where
  "logFillModuleInfo m = (ucast (lm_id m), take LOG_MAX_NAME (lm_name m), logLevelToWire (lm_level m))"

definition logFillModulesPage :: "u32 \<Rightarrow> 'w logging \<Rightarrow> log_body" where
  "logFillModulesPage cursor g =
     LogModules (of_nat (length (lg_modules g))) cursor (map logFillModuleInfo (take LOG_MODULES_PER_PAGE (drop (unat cursor) (lg_modules g))))"


section \<open>The provider as a sink\<close>

definition LogProvider_setLocalSink :: "nat option \<Rightarrow> 'w logging \<Rightarrow> 'w logging" where
  "LogProvider_setLocalSink s g = g\<lparr> lg_localSink := s \<rparr>"

definition LogProvider_emit :: "'w log_env \<Rightarrow> log_record \<Rightarrow> 'w logging \<Rightarrow> 'w logging" where
  "LogProvider_emit env r g =
     (let g = (case lg_localSink g of None \<Rightarrow> g | Some s \<Rightarrow> g\<lparr> lg_world := le_write env s r (lg_world g) \<rparr>) in
      if SubscriberTable_empty (lg_subscribers g) then g
      else
        let b = Log (lr_timestampUs r) (logLevelToWire (lr_level r)) (ucast (lr_moduleId r)) (take LOG_MAX_TEXT (lr_text r)) in
        fold (\<lambda>s g. let (w, ok) = pt_send (le_port env) s b (lg_world g) in
                g\<lparr> lg_world := w, lg_linesSent := (if ok then lg_linesSent g + 1 else lg_linesSent g) \<rparr>) (lg_subscribers g) g)"

definition drop_notice :: "u32 \<Rightarrow> u64 \<Rightarrow> log_record" where
  "drop_notice n t = \<lparr> lr_moduleId = LOG_MODULE_CORE, lr_moduleName = ''log/core'', lr_level = WARN, lr_timestampUs = t,
     lr_text = take LOG_MAX_TEXT (to_string (unat n) @ '' lines dropped by the rate limit'') \<rparr>"

definition open_window :: "'w log_env \<Rightarrow> u64 \<Rightarrow> 'w logging \<Rightarrow> 'w logging" where
  "open_window env t g =
     (let g = g\<lparr> lg_windowStartUs := t, lg_windowCount := 0 \<rparr> in
      if lg_windowDropped g > 0 then
        let g = LogProvider_emit env (drop_notice (lg_windowDropped g) t) g in
        g\<lparr> lg_windowCount := lg_windowCount g + 1, lg_windowDropped := 0 \<rparr>
      else g)"

definition LogProvider_write :: "'w log_env \<Rightarrow> log_record \<Rightarrow> 'w logging \<Rightarrow> 'w logging" where
  "LogProvider_write env r g =
     (let g = (if lr_timestampUs r - lg_windowStartUs g \<ge> WINDOW_US then open_window env (lr_timestampUs r) g else g) in
      if lg_windowCount g \<ge> MAX_LINES_PER_SECOND
      then g\<lparr> lg_windowDropped := lg_windowDropped g + 1, lg_dropped := lg_dropped g + 1 \<rparr>
      else LogProvider_emit env r (g\<lparr> lg_windowCount := lg_windowCount g + 1 \<rparr>))"

definition write_sink :: "'w log_env \<Rightarrow> log_record \<Rightarrow> log_sink option \<Rightarrow> 'w logging \<Rightarrow> 'w logging" where
  "write_sink env r slot g =
     (case slot of
        None \<Rightarrow> g
      | Some ProviderSink \<Rightarrow> LogProvider_write env r g
      | Some (PlatformSink s) \<Rightarrow> g\<lparr> lg_world := le_write env s r (lg_world g) \<rparr>)"

definition LogModule_vlog :: "'w log_env \<Rightarrow> log_module \<Rightarrow> log_level \<Rightarrow> string \<Rightarrow> 'w logging \<Rightarrow> 'w logging" where
  "LogModule_vlog env m level text g =
     (let r = \<lparr> lr_moduleId = lm_id m, lr_moduleName = lm_name m, lr_level = level, lr_timestampUs = log_now g, lr_text = take LOG_MAX_TEXT text \<rparr> in
      fold (write_sink env r) (lg_sinks g) g)"

text \<open>The five methods \<^verbatim>\<open>trace\<close> to \<^verbatim>\<open>error\<close>.\<close>

definition LogModule_line :: "'w log_env \<Rightarrow> log_module \<Rightarrow> log_level \<Rightarrow> string \<Rightarrow> 'w logging \<Rightarrow> 'w logging" where
  "LogModule_line env m level text g = (if \<not> LogModule_enabled level m then g else LogModule_vlog env m level text g)"

definition provider_line :: "'w log_env \<Rightarrow> log_level \<Rightarrow> string \<Rightarrow> 'w logging \<Rightarrow> 'w logging" where
  "provider_line env level text g =
     (case logFindModule LOG_MODULE_LOG_PROVIDER g of None \<Rightarrow> g | Some m \<Rightarrow> LogModule_line env m level text g)"


section \<open>The provider as a handler\<close>

definition lg_request :: "'w log_env \<Rightarrow> u32 \<Rightarrow> log_body \<Rightarrow> 'w logging \<Rightarrow> 'w logging" where
  "lg_request env dst b g = g\<lparr> lg_world := fst (pt_request (le_port env) RequestPolicy_default dst b (lg_world g)) \<rparr>"

definition log_applySubscribe :: "'w log_env \<Rightarrow> u32 \<Rightarrow> bool \<Rightarrow> 'w logging \<Rightarrow> 'w logging" where
  "log_applySubscribe env src enabled g =
     (let (g, applied) =
        (if enabled then
           let (subs, ok) = SubscriberTable_add LOG_MAX_SUBSCRIBERS src (lg_subscribers g); g = g\<lparr> lg_subscribers := subs \<rparr> in
           (if ok then g
            else provider_line env WARN (''no room for '' @ hex08 src @ '': '' @ to_string (SubscriberTable_size (lg_subscribers g)) @ '' subscribers already'') g, ok)
         else (g\<lparr> lg_subscribers := fst (SubscriberTable_remove src (lg_subscribers g)) \<rparr>, False)) in
      lg_request env src (LogSubscription applied) g)"

definition log_sendPage :: "'w log_env \<Rightarrow> u32 \<Rightarrow> u32 \<Rightarrow> 'w logging \<Rightarrow> 'w logging" where
  "log_sendPage env src cursor g = lg_request env src (logFillModulesPage cursor g) g"

definition log_sendModuleInfo :: "'w log_env \<Rightarrow> u32 \<Rightarrow> log_module \<Rightarrow> 'w logging \<Rightarrow> 'w logging" where
  "log_sendModuleInfo env dst m g = lg_request env dst (LogModuleInfo (logFillModuleInfo m)) g"

definition log_applySetLevel :: "'w log_env \<Rightarrow> u32 \<Rightarrow> u32 \<Rightarrow> u32 \<Rightarrow> 'w logging \<Rightarrow> 'w logging" where
  "log_applySetLevel env src moduleId wireLevel g =
     (case (if moduleId > 0xFFFF then None else logFindModule (ucast moduleId) g) of
        None \<Rightarrow> provider_line env WARN (hex08 src @ '' asked for module '' @ to_string (unat moduleId) @ '', which this node has none of'') g
      | Some m \<Rightarrow>
          let moved = (case logLevelFromWire wireLevel of None \<Rightarrow> False | Some level \<Rightarrow> lm_level m \<noteq> level);
              m' = (case logLevelFromWire wireLevel of None \<Rightarrow> m | Some level \<Rightarrow> if moved then m\<lparr> lm_level := level \<rparr> else m);
              g = (if moved then g\<lparr> lg_modules := set_level_of (lm_id m) (lm_level m') (lg_modules g) \<rparr> else g);
              g = log_sendModuleInfo env src m' g in
          if \<not> moved then g else fold (\<lambda>s g. if s \<noteq> src then log_sendModuleInfo env s m' g else g) (lg_subscribers g) g)"

fun LogProvider_onMessage :: "'w log_env \<Rightarrow> u32 \<Rightarrow> log_body \<Rightarrow> 'w logging \<Rightarrow> 'w logging \<times> bool" where
  "LogProvider_onMessage env src (LogSubscribe enabled) g = (log_applySubscribe env src enabled g, True)"
| "LogProvider_onMessage env src (LogModulesRequest cursor) g = (log_sendPage env src cursor g, True)"
| "LogProvider_onMessage env src (LogSetLevel moduleId wireLevel) g = (log_applySetLevel env src moduleId wireLevel g, True)"
| "LogProvider_onMessage env src _ g = (g, False)"

definition LogProvider_onNodeDown :: "'w log_env \<Rightarrow> u32 \<Rightarrow> 'w logging \<Rightarrow> 'w logging" where
  "LogProvider_onNodeDown env nodeId g =
     (let (subs, removed) = SubscriberTable_remove nodeId (lg_subscribers g); g = g\<lparr> lg_subscribers := subs \<rparr> in
      if removed then provider_line env INFO (hex08 nodeId @ '' gone, '' @ to_string (SubscriberTable_size subs) @ '' subscriber(s) left'') g else g)"

end
