(* ===== verification/Log_Correct.thy ===== *)
theory Log_Correct
  imports Log "HOL-Library.Sublist"
begin

text \<open>
  What the log provider promises: every line is delivered in order or counted, and every counted line is
  announced; the stream of a second is bounded; a level moves where it is asked and everybody who follows
  the node hears of it.
\<close>


section \<open>Lines on the wire\<close>

definition line_body :: "log_record \<Rightarrow> log_body" where
  "line_body r = Log (lr_timestampUs r) (logLevelToWire (lr_level r)) (ucast (lr_moduleId r)) (take LOG_MAX_TEXT (lr_text r))"

definition quiet_env :: "(u32 \<Rightarrow> bool) \<Rightarrow> (u32 \<Rightarrow> u32) \<Rightarrow> log_body traffic list log_env" where
  "quiet_env ok rid = \<lparr> le_port = recorder ok rid, le_write = (\<lambda>_ _ w. w) \<rparr>"

lemma quiet_simps [simp]: "le_port (quiet_env ok rid) = recorder ok rid" "le_write (quiet_env ok rid) s r w = w"
  by (simp_all add: quiet_env_def)

text \<open>The messages one node was sent.\<close>

fun sent_to :: "u32 \<Rightarrow> 'b traffic list \<Rightarrow> 'b list" where
  "sent_to n [] = []"
| "sent_to n (Sent d b # w) = (if d = n then b # sent_to n w else sent_to n w)"
| "sent_to n (_ # w) = sent_to n w"

lemma sent_to_append [simp]: "sent_to n (a @ b) = sent_to n a @ sent_to n b"
  by (induction n a rule: sent_to.induct) auto

lemma sent_to_all: "distinct ss \<Longrightarrow> sent_to n (map (\<lambda>s. Sent s b) ss) = (if n \<in> set ss then [b] else [])"
  by (induction ss) auto

lemma emit_recorded:
  "LogProvider_emit (quiet_env ok rid) r g = g\<lparr> lg_world := lg_world g @ map (\<lambda>s. Sent s (line_body r)) (lg_subscribers g),
     lg_linesSent := lg_linesSent g + of_nat (length (filter ok (lg_subscribers g))) \<rparr>"
proof -
  have f: "fold (\<lambda>s g. let (w, ok) = pt_send (le_port (quiet_env ok rid)) s (line_body r) (lg_world g) in
      g\<lparr> lg_world := w, lg_linesSent := (if ok then lg_linesSent g + 1 else lg_linesSent g) \<rparr>) ss g =
      g\<lparr> lg_world := lg_world g @ map (\<lambda>s. Sent s (line_body r)) ss, lg_linesSent := lg_linesSent g + of_nat (length (filter ok ss)) \<rparr>"
    for ss and g :: "log_body traffic list logging"
    by (induction ss arbitrary: g) (auto simp: ac_simps)
  have "(case lg_localSink g of None \<Rightarrow> g | Some s \<Rightarrow> g\<lparr> lg_world := le_write (quiet_env ok rid) s r (lg_world g) \<rparr>) = g"
    by (simp split: option.split)
  then show ?thesis using f [of "lg_subscribers g" g] by (simp add: LogProvider_emit_def line_body_def [symmetric] SubscriberTable_empty_def)
qed


section \<open>The limiter\<close>

text \<open>What one write lets out, and the limiter after it, as functions of the fields of the limiter alone.\<close>

record limiter =
  li_start :: u64
  li_count :: u32
  li_pending :: u32
  li_dropped :: u32

definition limiter_of :: "'w logging \<Rightarrow> limiter" where
  "limiter_of g = \<lparr> li_start = lg_windowStartUs g, li_count = lg_windowCount g, li_pending = lg_windowDropped g, li_dropped = lg_dropped g \<rparr>"

definition opens :: "log_record \<Rightarrow> limiter \<Rightarrow> bool" where
  "opens r l \<longleftrightarrow> lr_timestampUs r - li_start l \<ge> WINDOW_US"

definition notices :: "log_record \<Rightarrow> limiter \<Rightarrow> (u32 \<times> u64) list" where
  "notices r l = (if opens r l \<and> li_pending l > 0 then [(li_pending l, lr_timestampUs r)] else [])"

definition opened :: "log_record \<Rightarrow> limiter \<Rightarrow> limiter" where
  "opened r l = (if opens r l then l\<lparr> li_start := lr_timestampUs r, li_count := (if li_pending l > 0 then 1 else 0), li_pending := 0 \<rparr> else l)"

definition full :: "log_record \<Rightarrow> limiter \<Rightarrow> bool" where
  "full r l \<longleftrightarrow> li_count (opened r l) \<ge> MAX_LINES_PER_SECOND"

definition limit :: "log_record \<Rightarrow> limiter \<Rightarrow> limiter" where
  "limit r l = (let l = opened r l in
     if li_count l \<ge> MAX_LINES_PER_SECOND then l\<lparr> li_pending := li_pending l + 1, li_dropped := li_dropped l + 1 \<rparr> else l\<lparr> li_count := li_count l + 1 \<rparr>)"

definition notice_of :: "u32 \<times> u64 \<Rightarrow> log_record" where "notice_of = (\<lambda>(n, t). drop_notice n t)"

definition let_out :: "log_record \<Rightarrow> limiter \<Rightarrow> log_record list" where
  "let_out r l = map notice_of (notices r l) @ (if full r l then [] else [r])"

lemma write_recorded:
  assumes "distinct (lg_subscribers g)" "g' = LogProvider_write (quiet_env ok rid) r g"
  shows "limiter_of g' = limit r (limiter_of g) \<and> lg_subscribers g' = lg_subscribers g \<and>
    sent_to s (lg_world g') = sent_to s (lg_world g) @ (if s \<in> set (lg_subscribers g) then map line_body (let_out r (limiter_of g)) else [])"
proof -
  note defs = LogProvider_write_def open_window_def Let_def emit_recorded limiter_of_def limit_def let_out_def notices_def opens_def opened_def
    full_def notice_of_def sent_to_all MAX_LINES_PER_SECOND_def
  consider (open0) "lr_timestampUs r - lg_windowStartUs g \<ge> WINDOW_US" "lg_windowDropped g = 0"
    | (open1) "lr_timestampUs r - lg_windowStartUs g \<ge> WINDOW_US" "lg_windowDropped g > 0"
    | (same) "\<not> lr_timestampUs r - lg_windowStartUs g \<ge> WINDOW_US"
    by (metis word_gt_0)
  then show ?thesis
  proof cases
    case open0
    then show ?thesis using assms(1) unfolding assms(2) by (simp add: defs)
  next
    case open1
    then show ?thesis using assms(1) unfolding assms(2) by (simp add: defs)
  next
    case same
    then show ?thesis using assms(1) unfolding assms(2) by (simp add: defs)
  qed
qed

text \<open>A run of the limiter: the notices and the lines of each write, in order.\<close>

fun limiter_run :: "log_record list \<Rightarrow> limiter \<Rightarrow> limiter \<times> log_record list" where
  "limiter_run [] l = (l, [])"
| "limiter_run (r # rs) l = (let (l', out) = limiter_run rs (limit r l) in (l', let_out r l @ out))"

lemma writes_recorded:
  assumes "distinct (lg_subscribers g)" "g' = fold (LogProvider_write (quiet_env ok rid)) rs g" "limiter_run rs (limiter_of g) = (l, out)"
  shows "limiter_of g' = l \<and> sent_to s (lg_world g') = sent_to s (lg_world g) @ (if s \<in> set (lg_subscribers g) then map line_body out else [])"
  using assms
proof (induction rs arbitrary: g out)
  case (Cons r rs)
  let ?g = "LogProvider_write (quiet_env ok rid) r g"
  note w = write_recorded [OF Cons.prems(1) refl, of ok rid r s]
  obtain out' where o: "limiter_run rs (limiter_of ?g) = (l, out')" "out = let_out r (limiter_of g) @ out'"
    using Cons.prems(3) w by (auto simp: Let_def split: prod.splits)
  show ?case using Cons.IH [of ?g out'] Cons.prems(1,2) w o by auto
qed simp

text \<open>Every line is let out or counted, and what is counted is announced or still pending.\<close>

lemma limiter_accounts:
  assumes "limiter_run rs l = (l', out)" "\<forall>r \<in> set rs. lr_moduleId r \<noteq> LOG_MODULE_CORE" "unat (li_pending l) + length rs < 2 ^ 32" "unat (li_dropped l) + length rs < 2 ^ 32"
  shows "\<exists>lost ns. subseq (filter (\<lambda>r. lr_moduleId r \<noteq> LOG_MODULE_CORE) out) rs \<and>
    length (filter (\<lambda>r. lr_moduleId r \<noteq> LOG_MODULE_CORE) out) + lost = length rs \<and>
    filter (\<lambda>r. lr_moduleId r = LOG_MODULE_CORE) out = map notice_of ns \<and>
    sum_list (map (\<lambda>x. unat (fst x)) ns) + unat (li_pending l') = unat (li_pending l) + lost \<and> unat (li_dropped l') = unat (li_dropped l) + lost"
  using assms
proof (induction rs arbitrary: l out)
  case Nil
  then show ?case by (intro exI [of _ 0] exI [of _ "[]"]) simp
next
  case (Cons r rs)
  obtain out' where o: "limiter_run rs (limit r l) = (l', out')" "out = let_out r l @ out'"
    using Cons.prems(1) by (auto simp: Let_def split: prod.splits)
  have inc: "unat (x + 1) = unat x + 1" if "unat x + length (r # rs) < 2 ^ 32" for x :: u32
    using that unat_plus_of_nat [of x 1] by simp
  have core: "lr_moduleId (notice_of x) = LOG_MODULE_CORE" for x by (simp add: notice_of_def drop_notice_def split: prod.split)
  have pend: "unat (li_pending (limit r l)) + sum_list (map (\<lambda>x. unat (fst x)) (notices r l)) = unat (li_pending l) + (if full r l then 1 else 0)"
    and drp: "unat (li_dropped (limit r l)) = unat (li_dropped l) + (if full r l then 1 else 0)"
    using inc [OF Cons.prems(3)] inc [OF Cons.prems(4)] by (auto simp: limit_def opened_def notices_def full_def Let_def word_gt_0 MAX_LINES_PER_SECOND_def split: if_splits)
  have b: "unat (li_pending (limit r l)) + length rs < 2 ^ 32" "unat (li_dropped (limit r l)) + length rs < 2 ^ 32"
    using pend drp Cons.prems(3,4) by (auto split: if_splits)
  have m: "\<forall>r \<in> set rs. lr_moduleId r \<noteq> LOG_MODULE_CORE" using Cons.prems(2) by simp
  from Cons.IH [OF o(1) m b] obtain lost ns where h: "subseq (filter (\<lambda>r. lr_moduleId r \<noteq> LOG_MODULE_CORE) out') rs"
    "length (filter (\<lambda>r. lr_moduleId r \<noteq> LOG_MODULE_CORE) out') + lost = length rs"
    "filter (\<lambda>r. lr_moduleId r = LOG_MODULE_CORE) out' = map notice_of ns"
    "sum_list (map (\<lambda>x. unat (fst x)) ns) + unat (li_pending l') = unat (li_pending (limit r l)) + lost" "unat (li_dropped l') = unat (li_dropped (limit r l)) + lost"
    by blast
  have f: "filter (\<lambda>r. lr_moduleId r \<noteq> LOG_MODULE_CORE) (let_out r l) = (if full r l then [] else [r])"
    "filter (\<lambda>r. lr_moduleId r = LOG_MODULE_CORE) (let_out r l) = map notice_of (notices r l)"
    using Cons.prems(2) core by (auto simp: let_out_def filter_map o_def)
  show ?case
    using h f pend drp by (intro exI [of _ "lost + (if full r l then 1 else 0)"] exI [of _ "notices r l @ ns"]) (auto simp: o(2))
qed

text \<open>Lines of one window.\<close>

lemma count_step:
  assumes "\<not> opens r l" "li_count l \<le> MAX_LINES_PER_SECOND"
  shows "li_start (limit r l) = li_start l \<and> li_count (limit r l) \<le> MAX_LINES_PER_SECOND \<and>
    unat (li_count l) + length (let_out r l) = unat (li_count (limit r l))"
proof (cases "li_count l \<ge> MAX_LINES_PER_SECOND")
  case True
  then show ?thesis using assms by (simp add: limit_def opened_def let_out_def notices_def full_def)
next
  case False
  then have "li_count l < 50" by (simp add: MAX_LINES_PER_SECOND_def)
  then have "unat (li_count l + 1) = unat (li_count l) + 1" "li_count l + 1 \<le> 50" using unat_inc_less [of "li_count l" 50] by simp_all
  then show ?thesis using assms False by (simp add: limit_def opened_def let_out_def notices_def full_def MAX_LINES_PER_SECOND_def)
qed

lemma closed_window:
  assumes "\<forall>r \<in> set rs. \<not> lr_timestampUs r - li_start l \<ge> WINDOW_US" "li_count l \<le> MAX_LINES_PER_SECOND" "limiter_run rs l = (l', out)"
  shows "unat (li_count l) + length out \<le> 50"
  using assms
proof (induction rs arbitrary: l out)
  case Nil
  then show ?case by (simp add: MAX_LINES_PER_SECOND_def word_le_nat_alt)
next
  case (Cons r rs)
  obtain out' where o: "limiter_run rs (limit r l) = (l', out')" "out = let_out r l @ out'"
    using Cons.prems(3) by (auto simp: Let_def split: prod.splits)
  have c: "li_start (limit r l) = li_start l" "li_count (limit r l) \<le> MAX_LINES_PER_SECOND" "unat (li_count l) + length (let_out r l) = unat (li_count (limit r l))"
    using count_step [of r l] Cons.prems(1,2) by (auto simp: opens_def)
  show ?case using Cons.IH [of "limit r l" out'] Cons.prems(1) c o by simp
qed

lemma open_step:
  assumes "opens r l"
  shows "li_start (limit r l) = lr_timestampUs r \<and> li_count (limit r l) \<le> MAX_LINES_PER_SECOND \<and> length (let_out r l) = unat (li_count (limit r l))"
proof -
  have "\<not> (50 :: u32) \<le> 1" by (simp add: word_le_nat_alt)
  then show ?thesis using assms by (simp add: limit_def opened_def let_out_def notices_def full_def Let_def MAX_LINES_PER_SECOND_def)
qed

lemma second_bounded:
  assumes "sorted (map (unat \<circ> lr_timestampUs) rs)" "\<forall>r \<in> set rs. unat (li_start l) \<le> unat (lr_timestampUs r)"
    and "\<forall>r \<in> set rs. \<forall>r' \<in> set rs. unat (lr_timestampUs r) < unat (lr_timestampUs r') + unat WINDOW_US"
    and "li_count l \<le> MAX_LINES_PER_SECOND" "limiter_run rs l = (l', out)"
  shows "length out \<le> (50 - unat (li_count l)) + 50"
  using assms
proof (induction rs arbitrary: l out)
  case (Cons r rs)
  obtain out' where o: "limiter_run rs (limit r l) = (l', out')" "out = let_out r l @ out'"
    using Cons.prems(5) by (auto simp: Let_def split: prod.splits)
  show ?case
  proof (cases "opens r l")
    case True
    note s = open_step [OF True]
    have "\<not> lr_timestampUs r' - lr_timestampUs r \<ge> WINDOW_US" if "r' \<in> set rs" for r'
    proof -
      have "unat (lr_timestampUs r) \<le> unat (lr_timestampUs r')" "unat (lr_timestampUs r') < unat (lr_timestampUs r) + unat WINDOW_US"
        using Cons.prems(1,3) that by auto
      then show ?thesis by (simp add: word_le_nat_alt unat_sub_if' not_le)
    qed
    then have "unat (li_count (limit r l)) + length out' \<le> 50" using closed_window [of rs "limit r l" l' out'] s o(1) by simp
    then show ?thesis using s o(2) by simp
  next
    case False
    note s = count_step [OF False Cons.prems(4)]
    have "length out' \<le> (50 - unat (li_count (limit r l))) + 50"
      using Cons.IH [of "limit r l" out'] Cons.prems s o(1) by simp
    moreover have "unat (li_count (limit r l)) \<le> 50" using s by (simp add: word_le_nat_alt MAX_LINES_PER_SECOND_def)
    ultimately show ?thesis using s o(2) by auto
  qed
qed simp


section \<open>Properties\<close>

text \<open>No line of the log is lost without a word. Whatever lines the modules write, each subscriber of the
  provider receives, beside the notices of the log core, a subsequence of them in order, unchanged;
  the lines it did not receive are exactly as many as the counter of dropped lines advanced, and the
  notices it received announce exactly those dropped before the current window: announced and pending
  together are what was pending before and what was dropped since.\<close>

lemma log_lines_accounted:
  assumes "distinct (lg_subscribers g)" "s \<in> set (lg_subscribers g)" "\<forall>r \<in> set rs. lr_moduleId r \<noteq> LOG_MODULE_CORE"
    and "unat (lg_windowDropped g) + length rs < 2 ^ 32" "unat (lg_dropped g) + length rs < 2 ^ 32"
    and "g' = fold (LogProvider_write (quiet_env ok rid)) rs g"
  shows "\<exists>out lost ns. sent_to s (lg_world g') = sent_to s (lg_world g) @ map line_body out \<and>
    subseq (filter (\<lambda>r. lr_moduleId r \<noteq> LOG_MODULE_CORE) out) rs \<and>
    length (filter (\<lambda>r. lr_moduleId r \<noteq> LOG_MODULE_CORE) out) + lost = length rs \<and>
    filter (\<lambda>r. lr_moduleId r = LOG_MODULE_CORE) out = map (\<lambda>(n, t). drop_notice n t) ns \<and>
    sum_list (map (\<lambda>x. unat (fst x)) ns) + unat (lg_windowDropped g') = unat (lg_windowDropped g) + lost \<and>
    unat (lg_dropped g') = unat (lg_dropped g) + lost"
proof -
  obtain l out where run: "limiter_run rs (limiter_of g) = (l, out)" by fastforce
  have w: "limiter_of g' = l" "sent_to s (lg_world g') = sent_to s (lg_world g) @ map line_body out"
    using writes_recorded [OF assms(1,6) run, of s] assms(2) by auto
  have f: "li_pending l = lg_windowDropped g'" "li_dropped l = lg_dropped g'" using w(1) by (auto simp: limiter_of_def)
  show ?thesis using limiter_accounts [OF run assms(3)] assms(4,5) w(2) f
    by (auto simp: limiter_of_def notice_of_def [abs_def])
qed

definition some_line :: "u64 \<Rightarrow> log_record" where
  "some_line t = \<lparr> lr_moduleId = 300, lr_moduleName = ''app'', lr_level = INFO, lr_timestampUs = t, lr_text = ''tick'' \<rparr>"

lemma log_lines_accounted_example:
  "\<exists>out lost. sent_to 7 (lg_world (fold (LogProvider_write (quiet_env (\<lambda>_. True) (\<lambda>_. 1))) (replicate 60 (some_line 5))
     ((logging_init [])\<lparr> lg_subscribers := [7] \<rparr>))) = map line_body out \<and> length (filter (\<lambda>r. lr_moduleId r \<noteq> LOG_MODULE_CORE) out) + lost = 60"
proof -
  let ?g = "(logging_init [])\<lparr> lg_subscribers := [7] \<rparr> :: log_body traffic list logging"
  have "\<forall>r \<in> set (replicate 60 (some_line 5)). lr_moduleId r \<noteq> LOG_MODULE_CORE" by (auto simp: some_line_def LOG_MODULE_CORE_def)
  from log_lines_accounted [of ?g 7, OF _ _ this _ _ refl, of "\<lambda>_. True" "\<lambda>_. 1"]
  show ?thesis by (auto simp: logging_init_def)
qed

text \<open>(C33) The log cannot flood the link. With a clock that does not go back, no second of lines, however many
  the modules write in it, puts more than a hundred messages on the wire for a subscriber, the notices
  included: what the window that was open has left, and one window of fifty.\<close>

theorem log_rate_bounded:
  assumes "distinct (lg_subscribers g)" "lg_windowCount g \<le> MAX_LINES_PER_SECOND"
    and "sorted (map (unat \<circ> lr_timestampUs) rs)" "\<forall>r \<in> set rs. unat (lg_windowStartUs g) \<le> unat (lr_timestampUs r)"
    and "\<forall>r \<in> set rs. \<forall>r' \<in> set rs. unat (lr_timestampUs r) < unat (lr_timestampUs r') + unat WINDOW_US"
    and "g' = fold (LogProvider_write (quiet_env ok rid)) rs g"
  shows "length (sent_to s (lg_world g')) \<le> length (sent_to s (lg_world g)) + (50 - unat (lg_windowCount g)) + 50"
proof -
  obtain l out where run: "limiter_run rs (limiter_of g) = (l, out)" by fastforce
  have "length out \<le> (50 - unat (lg_windowCount g)) + 50"
    using second_bounded [OF assms(3) _ assms(5) _ run] assms(2,4) by (simp add: limiter_of_def)
  then show ?thesis using writes_recorded [OF assms(1,6) run, of s] by auto
qed

theorem log_rate_bounded_witness:
  "length (sent_to 7 (lg_world (fold (LogProvider_write (quiet_env (\<lambda>_. True) (\<lambda>_. 1))) (replicate 500 (some_line 5))
     ((logging_init [])\<lparr> lg_subscribers := [7] \<rparr>)))) \<le> 100"
proof -
  let ?g = "(logging_init [])\<lparr> lg_subscribers := [7] \<rparr> :: log_body traffic list logging"
  have "sorted (map (unat \<circ> lr_timestampUs) (replicate 500 (some_line 5)))" by (simp add: sorted_replicate)
  from log_rate_bounded [of ?g, OF _ _ this _ _ refl, of 7 "\<lambda>_. True" "\<lambda>_. 1"]
  show ?thesis by (simp add: logging_init_def some_line_def WINDOW_US_def MAX_LINES_PER_SECOND_def)
qed

text \<open>A level moves where it is asked and nowhere else, and the node that asked and the others who hold the
  stream are told; a level this build does not know, or the one in place, moves nothing and is
  answered with what stands.\<close>

lemma find_set_level:
  "find (\<lambda>m. lm_id m = i) (set_level_of j level ms) =
     (if i = j then map_option (\<lambda>m. m\<lparr> lm_level := level \<rparr>) (find (\<lambda>m. lm_id m = i) ms) else find (\<lambda>m. lm_id m = i) ms)"
  by (induction ms) auto

lemma tell_infos:
  "fold (\<lambda>s g. if s \<noteq> src then log_sendModuleInfo (quiet_env ok rid) s m g else g) ss g =
     g\<lparr> lg_world := lg_world g @ map (\<lambda>s. Asked RequestPolicy_default s (LogModuleInfo (logFillModuleInfo m))) (filter (\<lambda>s. s \<noteq> src) ss) \<rparr>"
  by (induction ss arbitrary: g) (auto simp: log_sendModuleInfo_def lg_request_def)

lemma log_level_moved:
  assumes "moduleId \<le> 0xFFFF" "logFindModule (ucast moduleId) g = Some m"
    and "g' = fst (LogProvider_onMessage (quiet_env ok rid) src (LogSetLevel moduleId wire) g)"
    and "m' = (case logLevelFromWire wire of None \<Rightarrow> m | Some l \<Rightarrow> m\<lparr> lm_level := l \<rparr>)"
  shows "logFindModule i g' = (if i = ucast moduleId then Some m' else logFindModule i g) \<and>
    lg_world g' = lg_world g @ map (\<lambda>s. Asked RequestPolicy_default s (LogModuleInfo (logFillModuleInfo m')))
      (src # (if m' = m then [] else filter (\<lambda>s. s \<noteq> src) (lg_subscribers g)))"
proof -
  have i: "lm_id m = ucast moduleId" using assms(2) by (auto simp: logFindModule_def find_Some_iff)
  have n: "\<not> moduleId > 0xFFFF" using assms(1) by simp
  show ?thesis
  proof (cases "\<exists>l. logLevelFromWire wire = Some l \<and> lm_level m \<noteq> l")
    case True
    then obtain l where l: "logLevelFromWire wire = Some l" "lm_level m \<noteq> l" by blast
    have m': "m' = m\<lparr> lm_level := l \<rparr>" using l by (simp add: assms(4))
    have ne: "m' \<noteq> m" using l(2) unfolding m' by (metis log_module.select_convs(3) log_module.surjective log_module.update_convs(3))
    show ?thesis unfolding assms(3) using n assms(2) l ne i
      by (simp add: log_applySetLevel_def m' Let_def tell_infos log_sendModuleInfo_def lg_request_def logFindModule_def find_set_level)
  next
    case False
    then have m': "m' = m" by (cases "logLevelFromWire wire") (auto simp: assms(4))
    show ?thesis unfolding assms(3) m' using n assms(2) False i
      by (cases "logLevelFromWire wire") (auto simp: log_applySetLevel_def Let_def log_sendModuleInfo_def lg_request_def logFindModule_def)
  qed
qed

end
