(* ===== verification/Log_Consumer.thy ===== *)
theory Log_Consumer
  imports Log_Correct Discovery Pull_Dialogue
begin

text \<open>
  What a ground node keeps of the log of the others (\<^verbatim>\<open>components/log/include/log/consumer.hpp\<close>): an entry per
  node that has a provider, subscribed when it is opened, with the walk of its module table. The levels
  that move afterwards are written into the table. \<open>N\<close>, the size of the storage of the composition, is an
  argument of the operation that opens an entry.

  The dialogue at the end puts the consumer and the provider together: the ground ends with the module
  table of the node and holds its lines.
\<close>


section \<open>State\<close>

definition LOG_KINDS :: "u32 list" where "LOG_KINDS = [NodeKind_FIRMWARE, NodeKind_DRONE_SIM, NodeKind_RELAY, NodeKind_GATEWAY]"
definition MAX_MODULES :: nat where "MAX_MODULES = 32"
definition LOG_MAX_LISTENERS :: nat where "LOG_MAX_LISTENERS = 2"

record log_follow =
  lf_id :: u32
  lf_subscribed :: bool
  lf_subscribeRequest :: u32
  lf_modules :: "module_info table_pull"

definition log_follow_init :: log_follow where
  "log_follow_init = \<lparr> lf_id = 0, lf_subscribed = False, lf_subscribeRequest = 0, lf_modules = TablePull_init \<rparr>"

record 'w log_consumer =
  lc_entries :: "log_follow list"
  lc_listeners :: "nat list"
  lc_listenersOverflow :: u32
  lc_requests :: u32
  lc_dropped :: u32
  lc_world :: 'w

definition LogConsumer_new :: "'w \<Rightarrow> 'w log_consumer" where
  "LogConsumer_new w = \<lparr> lc_entries = [], lc_listeners = [], lc_listenersOverflow = 0, lc_requests = 0, lc_dropped = 0, lc_world = w \<rparr>"

record 'w log_ground =
  lgr_port :: "(log_body, 'w) port"
  lgr_onLine :: "nat \<Rightarrow> u32 \<Rightarrow> log_body \<Rightarrow> 'w \<Rightarrow> 'w"
  lgr_onModules :: "nat \<Rightarrow> u32 \<Rightarrow> module_info list \<Rightarrow> 'w \<Rightarrow> 'w"
  lgr_onForgotten :: "nat \<Rightarrow> u32 \<Rightarrow> 'w \<Rightarrow> 'w"


section \<open>Operations\<close>

definition lc_lookup :: "u32 \<Rightarrow> 'w log_consumer \<Rightarrow> log_follow option" where
  "lc_lookup i c = entry_lookup lf_id i (lc_entries c)"

definition lc_put :: "log_follow \<Rightarrow> 'w log_consumer \<Rightarrow> 'w log_consumer" where
  "lc_put e c = c\<lparr> lc_entries := entry_update lf_id (lf_id e) e (lc_entries c) \<rparr>"

definition lc_log :: "'w log_ground \<Rightarrow> string \<Rightarrow> 'w log_consumer \<Rightarrow> 'w log_consumer" where
  "lc_log g t c = c\<lparr> lc_world := pt_log (lgr_port g) WARN t (lc_world c) \<rparr>"

definition lc_request :: "'w log_ground \<Rightarrow> u32 \<Rightarrow> log_body \<Rightarrow> 'w log_consumer \<Rightarrow> 'w log_consumer \<times> u32" where
  "lc_request g dst b c =
     (let (w, i) = pt_request (lgr_port g) RequestPolicy_default dst b (lc_world c) in (c\<lparr> lc_world := w, lc_requests := lc_requests c + 1 \<rparr>, i))"

definition lc_tell :: "(nat \<Rightarrow> 'w \<Rightarrow> 'w) \<Rightarrow> 'w log_consumer \<Rightarrow> 'w log_consumer" where
  "lc_tell f c = c\<lparr> lc_world := fold f (lc_listeners c) (lc_world c) \<rparr>"

definition log_askPage :: "'w log_ground \<Rightarrow> log_follow \<Rightarrow> 'w log_consumer \<Rightarrow> 'w log_consumer \<times> bool" where
  "log_askPage g e c =
     (let (c, i) = lc_request g (lf_id e) (LogModulesRequest (tp_cursor (lf_modules e))) c in
      (lc_put (e\<lparr> lf_modules := TablePull_setRequestId i (lf_modules e) \<rparr>) c, i \<noteq> 0))"

definition LogConsumer_refresh :: "'w log_ground \<Rightarrow> u32 \<Rightarrow> 'w log_consumer \<Rightarrow> 'w log_consumer \<times> bool" where
  "LogConsumer_refresh g nid c =
     (case lc_lookup nid c of None \<Rightarrow> (c, False) | Some e \<Rightarrow> log_askPage g (e\<lparr> lf_modules := TablePull_reset (lf_modules e) \<rparr>) c)"

definition LogConsumer_setLevel :: "'w log_ground \<Rightarrow> u32 \<Rightarrow> u32 \<Rightarrow> u32 \<Rightarrow> 'w log_consumer \<Rightarrow> 'w log_consumer \<times> bool" where
  "LogConsumer_setLevel g nid moduleId level c = (let (c, i) = lc_request g nid (LogSetLevel moduleId level) c in (c, i \<noteq> 0))"

definition log_open :: "'w log_ground \<Rightarrow> nat \<Rightarrow> u32 \<Rightarrow> 'w log_consumer \<Rightarrow> 'w log_consumer" where
  "log_open g N nid c =
     (if lc_lookup nid c \<noteq> None then c
      else if length (lc_entries c) = N
      then lc_log g (''no room for '' @ hex08 nid @ '': '' @ to_string (length (lc_entries c)) @ '' node(s) already'') (c\<lparr> lc_dropped := lc_dropped c + 1 \<rparr>)
      else
        let e = log_follow_init\<lparr> lf_id := nid \<rparr>;
            (c, i) = lc_request g nid (LogSubscribe True) (c\<lparr> lc_entries := lc_entries c @ [e] \<rparr>);
            e = e\<lparr> lf_subscribeRequest := i \<rparr> in
        fst (log_askPage g e (lc_put e c)))"

definition LogConsumer_onIdentity :: "'w log_ground \<Rightarrow> nat \<Rightarrow> directory_entry \<Rightarrow> 'w log_consumer \<Rightarrow> 'w log_consumer" where
  "LogConsumer_onIdentity g N d c =
     (if de_wireMismatch d then c else if an_kind (de_announce d) \<in> set LOG_KINDS then log_open g N (de_id d) c else c)"

definition lc_tellModules :: "'w log_ground \<Rightarrow> log_follow \<Rightarrow> 'w log_consumer \<Rightarrow> 'w log_consumer" where
  "lc_tellModules g e c = lc_tell (\<lambda>l. lgr_onModules g l (lf_id e) (tp_items (lf_modules e))) c"

definition log_onPage :: "'w log_ground \<Rightarrow> log_follow \<Rightarrow> u32 \<Rightarrow> u32 \<Rightarrow> module_info list \<Rightarrow> 'w log_consumer \<Rightarrow> 'w log_consumer" where
  "log_onPage g e itemsTotal cursor items c =
     (let (table, ok) = TablePull_applyPage MAX_MODULES itemsTotal cursor items (lf_modules e); e = e\<lparr> lf_modules := table \<rparr> in
      if \<not> ok then c
      else if \<not> tp_complete table then fst (log_askPage g e c)
      else lc_tellModules g e (lc_put e c))"

text \<open>The loop of \<^verbatim>\<open>onModuleInfo\<close>: the first module of that id is replaced.\<close>

fun replace_info :: "module_info \<Rightarrow> module_info list \<Rightarrow> module_info list option" where
  "replace_info info [] = None"
| "replace_info info (known # ks) = (if fst known = fst info then Some (info # ks) else map_option (Cons known) (replace_info info ks))"

definition log_onModuleInfo :: "'w log_ground \<Rightarrow> log_follow \<Rightarrow> module_info \<Rightarrow> 'w log_consumer \<Rightarrow> 'w log_consumer" where
  "log_onModuleInfo g e info c =
     (if \<not> tp_complete (lf_modules e) then c
      else
        case replace_info info (tp_items (lf_modules e)) of
          None \<Rightarrow> c
        | Some items \<Rightarrow> let e = e\<lparr> lf_modules := (lf_modules e)\<lparr> tp_items := items \<rparr> \<rparr> in lc_tellModules g e (lc_put e c))"

definition LogConsumer_onMessage :: "'w log_ground \<Rightarrow> u32 \<Rightarrow> log_body \<Rightarrow> 'w log_consumer \<Rightarrow> 'w log_consumer \<times> bool" where
  "LogConsumer_onMessage g src b c =
     (case lc_lookup src c of
        None \<Rightarrow> (c, False)
      | Some e \<Rightarrow>
          (case b of
             LogSubscription enabled \<Rightarrow> (lc_put (e\<lparr> lf_subscribed := enabled, lf_subscribeRequest := 0 \<rparr>) c, True)
           | LogModules itemsTotal cursor items \<Rightarrow> (log_onPage g e itemsTotal cursor items c, True)
           | LogModuleInfo info \<Rightarrow> (log_onModuleInfo g e info c, True)
           | Log t level m text \<Rightarrow> (lc_tell (\<lambda>l. lgr_onLine g l src (Log t level m text)) c, True)
           | _ \<Rightarrow> (c, False)))"

definition LogConsumer_onNodeDown :: "'w log_ground \<Rightarrow> u32 \<Rightarrow> 'w log_consumer \<Rightarrow> 'w log_consumer" where
  "LogConsumer_onNodeDown g nodeId c =
     (if lc_lookup nodeId c = None then c
      else lc_tell (\<lambda>l. lgr_onForgotten g l nodeId) (c\<lparr> lc_entries := entry_remove lf_id nodeId (lc_entries c) \<rparr>))"

definition LogConsumer_onRequestFailed :: "'w log_ground \<Rightarrow> u32 \<Rightarrow> u32 \<Rightarrow> 'w log_consumer \<Rightarrow> 'w log_consumer" where
  "LogConsumer_onRequestFailed g dst requestId c =
     (case lc_lookup dst c of
        None \<Rightarrow> c
      | Some e \<Rightarrow>
          if tp_requestId (lf_modules e) = requestId
          then lc_log g (hex08 dst @ '' never answered for its module table'') (lc_put (e\<lparr> lf_modules := TablePull_abandon (lf_modules e) \<rparr>) c)
          else if lf_subscribeRequest e = requestId
          then lc_log g (hex08 dst @ '' never took the log subscribe'') (lc_put (e\<lparr> lf_subscribeRequest := 0 \<rparr>) c)
          else c)"

definition LogConsumer_attach :: "nat \<Rightarrow> 'w log_consumer \<Rightarrow> 'w log_consumer" where
  "LogConsumer_attach l c =
     (let (ls, n) = listener_attach LOG_MAX_LISTENERS l (lc_listeners c, lc_listenersOverflow c) in c\<lparr> lc_listeners := ls, lc_listenersOverflow := n \<rparr>)"

definition LogConsumer_detach :: "nat \<Rightarrow> 'w log_consumer \<Rightarrow> 'w log_consumer" where
  "LogConsumer_detach l c =
     (let (ls, n) = listener_detach l (lc_listeners c, lc_listenersOverflow c) in c\<lparr> lc_listeners := ls, lc_listenersOverflow := n \<rparr>)"

definition LogConsumer_ready :: "'w log_consumer \<Rightarrow> bool" where
  "LogConsumer_ready c \<longleftrightarrow> lc_listenersOverflow c = 0"


section \<open>The pair\<close>

definition log_desk :: "(u32 \<Rightarrow> bool) \<Rightarrow> (u32 \<Rightarrow> u32) \<Rightarrow> (log_body traffic list \<times> (nat \<times> u32 \<times> module_info list) list) log_ground" where
  "log_desk ok rid = \<lparr> lgr_port = pair_port ok rid, lgr_onLine = (\<lambda>_ _ _ w. w), lgr_onModules = (\<lambda>l n t (w, x). (w, x @ [(l, n, t)])),
     lgr_onForgotten = (\<lambda>_ _ w. w) \<rparr>"

type_synonym log_pair =
  "(log_body traffic list \<times> (nat \<times> u32 \<times> module_info list) list) log_consumer \<times> log_body traffic list logging"

definition log_exchange :: "(u32 \<Rightarrow> bool) \<Rightarrow> (u32 \<Rightarrow> u32) \<Rightarrow> u32 \<Rightarrow> u32 \<Rightarrow> log_pair \<Rightarrow> log_pair" where
  "log_exchange ok rid node self = (\<lambda>(c, g).
     let g = fold (\<lambda>b g. fst (LogProvider_onMessage (quiet_env ok rid) self b g)) (asked_of node (fst (lc_world c))) (g\<lparr> lg_world := [] \<rparr>);
         c = fold (\<lambda>b c. fst (LogConsumer_onMessage (log_desk ok rid) node b c)) (asked_of self (lg_world g)) (c\<lparr> lc_world := ([], snd (lc_world c)) \<rparr>) in
     (c, g))"

definition log_pull :: "u32 \<Rightarrow> log_pair \<Rightarrow> module_info table_pull" where
  "log_pull node = (\<lambda>(c, g). case lc_lookup node c of Some e \<Rightarrow> lf_modules e | None \<Rightarrow> TablePull_init)"

definition module_table :: "'w logging \<Rightarrow> module_info list" where
  "module_table g = map logFillModuleInfo (lg_modules g)"

definition log_asking :: "u32 \<Rightarrow> module_info list \<Rightarrow> nat list \<Rightarrow> log_pair \<Rightarrow> bool" where
  "log_asking node table ls = (\<lambda>(c, g). module_table g = table \<and> lc_listeners c = ls \<and> \<not> tp_complete (log_pull node (c, g)) \<and> lc_lookup node c \<noteq> None \<and>
     (\<exists>pre \<in> {[], [LogSubscribe True]}. asked_of node (fst (lc_world c)) = pre @ [LogModulesRequest (tp_cursor (log_pull node (c, g)))]))"

definition log_idle :: "u32 \<Rightarrow> log_pair \<Rightarrow> bool" where
  "log_idle node = (\<lambda>(c, g). asked_of node (fst (lc_world c)) = [])"

definition log_told :: "log_pair \<Rightarrow> (nat \<times> u32 \<times> module_info list) list" where
  "log_told = (\<lambda>(c, g). snd (lc_world c))"

definition log_report :: "u32 \<Rightarrow> nat list \<Rightarrow> module_info list \<Rightarrow> (nat \<times> u32 \<times> module_info list) list" where
  "log_report node ls items = map (\<lambda>l. (l, node, items)) ls"

lemma log_desk_simps [simp]: "lgr_port (log_desk ok rid) = pair_port ok rid" "lgr_onModules (log_desk ok rid) l n t w = (fst w, snd w @ [(l, n, t)])"
  by (simp_all add: log_desk_def case_prod_beta)

lemma log_tell_desk: "fold (\<lambda>l. lgr_onModules (log_desk ok rid) l n t) ls w = (fst w, snd w @ map (\<lambda>l. (l, n, t)) ls)"
  by (induction ls arbitrary: w) auto

lemma lc_lookup_put: "lc_lookup n c \<noteq> None \<Longrightarrow> lf_id e = n \<Longrightarrow> lc_lookup n (lc_put e c) = Some e"
  by (simp add: lc_lookup_def lc_put_def lookup_update entry_None)

lemma lc_lookup_id: "lc_lookup n c = Some e \<Longrightarrow> lf_id e = n"
  using entry_Some [of lf_id n "lc_entries c" e] by (simp add: lc_lookup_def)

lemma lc_lookup_world [simp]: "lc_lookup n (c\<lparr> lc_world := w \<rparr>) = lc_lookup n c" "lc_lookup n (c\<lparr> lc_world := w, lc_requests := r \<rparr>) = lc_lookup n c"
  by (simp_all add: lc_lookup_def)

lemma log_onPage_desk:
  assumes "lc_lookup node c = Some e" "fst (lc_world c) = []" and q: "TablePull_applyPage MAX_MODULES n cur items (lf_modules e) = (q, True)"
    and c': "c' = log_onPage (log_desk ok rid) e n cur items c"
  shows "\<exists>e' i. lc_lookup node c' = Some e' \<and> lf_modules e' = q\<lparr> tp_requestId := i \<rparr> \<and> lf_subscribed e' = lf_subscribed e \<and> lc_listeners c' = lc_listeners c \<and>
    snd (lc_world c') = snd (lc_world c) @ (if tp_complete q then log_report node (lc_listeners c) (tp_items q) else []) \<and>
    asked_of node (fst (lc_world c')) = (if tp_complete q then [] else [LogModulesRequest (tp_cursor q)])"
proof -
  have i: "lf_id e = node" using lc_lookup_id assms(1) by blast
  show ?thesis
  proof (cases "tp_complete q")
    case True
    let ?e = "e\<lparr> lf_modules := q \<rparr>"
    have "lc_lookup node (lc_put ?e c) = Some ?e" using lc_lookup_put [of node c ?e] assms(1) i by simp
    then show ?thesis using True i assms(2)
      by (intro exI [of _ ?e] exI [of _ "tp_requestId q"])
        (simp add: c' log_onPage_def q Let_def lc_tellModules_def lc_tell_def log_tell_desk log_report_def lc_put_def)
  next
    case False
    let ?e = "e\<lparr> lf_modules := q\<lparr> tp_requestId := rid node \<rparr> \<rparr>"
    have "lc_lookup node (lc_put ?e (c\<lparr> lc_world := w, lc_requests := r \<rparr>)) = Some ?e" for w r
      using lc_lookup_put [of node "c\<lparr> lc_world := w, lc_requests := r \<rparr>" ?e] assms(1) i by simp
    then show ?thesis using False i assms(2)
      by (intro exI [of _ ?e] exI [of _ "rid node"])
        (simp add: c' log_onPage_def q Let_def log_askPage_def lc_request_def TablePull_setRequestId_def lc_put_def)
  qed
qed

text \<open>Writing a line changes neither the modules nor the requests under way.\<close>

definition line_only :: "log_body traffic list logging \<Rightarrow> log_body traffic list logging \<Rightarrow> bool" where
  "line_only g g' \<longleftrightarrow> lg_modules g' = lg_modules g \<and> (\<forall>n. asked_of n (lg_world g') = asked_of n (lg_world g))"

lemma line_only_trans: "line_only a b \<Longrightarrow> line_only b c \<Longrightarrow> line_only a c"
  by (simp add: line_only_def)

lemma asked_of_sent [simp]: "asked_of n (map (\<lambda>s. Sent s b) ss) = []"
  by (induction ss) auto

lemma write_line_only: "line_only g (LogProvider_write (quiet_env ok rid) r g)"
  by (cases "lg_windowDropped g > 0"; simp add: line_only_def LogProvider_write_def open_window_def Let_def emit_recorded)

lemma provider_line_only: "line_only g (provider_line (quiet_env ok rid) level text g)"
proof -
  have 1: "line_only g (write_sink (quiet_env ok rid) r slot g)" for r slot g
    using write_line_only [of g ok rid r] by (cases slot) (auto simp: write_sink_def line_only_def split: log_sink.split)
  have "line_only g (fold (write_sink (quiet_env ok rid) r) slots g)" for r slots g
  proof (induction slots arbitrary: g)
    case (Cons slot slots)
    show ?case using line_only_trans [OF 1 Cons.IH] by simp
  qed (simp add: line_only_def)
  moreover have "line_only g g" by (simp add: line_only_def)
  ultimately show ?thesis
    by (auto simp: provider_line_def LogModule_line_def LogModule_vlog_def Let_def split: option.split)
qed

lemma subscribe_answer:
  "\<exists>a. lg_modules (log_applySubscribe (quiet_env ok rid) src True g) = lg_modules g \<and>
     asked_of src (lg_world (log_applySubscribe (quiet_env ok rid) src True g)) = asked_of src (lg_world g) @ [LogSubscription a]"
proof -
  obtain subs ok' where a: "SubscriberTable_add LOG_MAX_SUBSCRIBERS src (lg_subscribers g) = (subs, ok')" by fastforce
  have "line_only (g\<lparr> lg_subscribers := subs \<rparr>) (provider_line (quiet_env ok rid) l t (g\<lparr> lg_subscribers := subs \<rparr>))" for l t
    by (rule provider_line_only)
  then show ?thesis by (intro exI [of _ ok']) (simp add: log_applySubscribe_def a Let_def lg_request_def line_only_def)
qed

text \<open>What the provider answers to the requests of a round.\<close>

lemma provider_round:
  assumes "pre \<in> {[], [LogSubscribe True]}" "length (lg_modules g) < 2 ^ 32"
    and "g' = fold (\<lambda>b g. fst (LogProvider_onMessage (quiet_env ok rid) self b g)) (pre @ [LogModulesRequest cur]) (g\<lparr> lg_world := [] \<rparr>)"
  shows "\<exists>subs. lg_modules g' = lg_modules g \<and> (\<forall>b \<in> set subs. \<exists>a. b = LogSubscription a) \<and>
    asked_of self (lg_world g') = subs @ [LogModules (of_nat (length (module_table g))) cur (take 8 (drop (unat cur) (module_table g)))]"
proof -
  obtain a where a: "lg_modules (log_applySubscribe (quiet_env ok rid) self True (g\<lparr> lg_world := [] \<rparr>)) = lg_modules g"
    "asked_of self (lg_world (log_applySubscribe (quiet_env ok rid) self True (g\<lparr> lg_world := [] \<rparr>))) = [LogSubscription a]"
    using subscribe_answer [of ok rid self "g\<lparr> lg_world := [] \<rparr>"] by auto
  show ?thesis using assms(1)
    by (auto simp: assms(3) log_sendPage_def lg_request_def logFillModulesPage_def module_table_def take_map drop_map LOG_MODULES_PER_PAGE_def a)
qed

text \<open>What the consumer does with the answers before the page.\<close>

lemma subscriptions_kept:
  assumes "\<forall>b \<in> set subs. \<exists>a. b = LogSubscription a" "lc_lookup node c = Some e"
    and "c' = fold (\<lambda>b c. fst (LogConsumer_onMessage (log_desk ok rid) node b c)) subs c"
  shows "\<exists>e'. lc_lookup node c' = Some e' \<and> lf_modules e' = lf_modules e \<and> lc_world c' = lc_world c \<and> lc_listeners c' = lc_listeners c"
  using assms
proof (induction subs arbitrary: c e)
  case (Cons b subs)
  obtain a where b: "b = LogSubscription a" using Cons.prems(1) by auto
  let ?e = "e\<lparr> lf_subscribed := a, lf_subscribeRequest := 0 \<rparr>"
  have "lc_lookup node (lc_put ?e c) = Some ?e" using lc_lookup_put [of node c ?e] Cons.prems(2) lc_lookup_id [OF Cons.prems(2)] by simp
  moreover have "fst (LogConsumer_onMessage (log_desk ok rid) node b c) = lc_put ?e c" using Cons.prems(2) by (simp add: LogConsumer_onMessage_def b)
  ultimately show ?case using Cons.IH [of "lc_put ?e c" ?e] Cons.prems(1,3) by (auto simp: lc_put_def)
qed simp

lemma log_exchange_asking:
  fixes s :: log_pair
  assumes "log_asking node table ls s" "length table < 2 ^ 32"
  shows "\<exists>i. log_pull node (log_exchange ok rid node self s) =
      (apply_pages MAX_MODULES table [served_page table 8 (log_pull node s)] (log_pull node s))\<lparr> tp_requestId := i \<rparr>"
    "if tp_complete (log_pull node (log_exchange ok rid node self s)) then log_idle node (log_exchange ok rid node self s)
     else log_asking node table ls (log_exchange ok rid node self s)"
    "log_told (log_exchange ok rid node self s) = log_told s @
       (if tp_complete (log_pull node (log_exchange ok rid node self s)) then log_report node ls (tp_items (log_pull node (log_exchange ok rid node self s))) else [])"
proof -
  obtain c g where s: "s = (c, g)" by fastforce
  obtain e pre where e: "lc_lookup node c = Some e" and a: "module_table g = table" "lc_listeners c = ls" "\<not> tp_complete (lf_modules e)"
    "pre \<in> {[], [LogSubscribe True]}" "asked_of node (fst (lc_world c)) = pre @ [LogModulesRequest (tp_cursor (lf_modules e))]"
    using assms(1) by (auto simp: log_asking_def log_pull_def s)
  let ?cur = "tp_cursor (lf_modules e)" let ?items = "take 8 (drop (unat ?cur) table)"
  define c0 where "c0 = c\<lparr> lc_world := ([], snd (lc_world c)) \<rparr>"
  define g' where "g' = fold (\<lambda>b g. fst (LogProvider_onMessage (quiet_env ok rid) self b g)) (pre @ [LogModulesRequest ?cur]) (g\<lparr> lg_world := [] \<rparr>)"
  have "length (lg_modules g) < 2 ^ 32" using a(1) assms(2) by (auto simp: module_table_def)
  from provider_round [OF a(4) this g'_def] obtain subs where p: "lg_modules g' = lg_modules g" "\<forall>b \<in> set subs. \<exists>a. b = LogSubscription a"
    "asked_of self (lg_world g') = subs @ [LogModules (of_nat (length table)) ?cur ?items]"
    using a(1) by auto
  define c1 where "c1 = fold (\<lambda>b c. fst (LogConsumer_onMessage (log_desk ok rid) node b c)) subs c0"
  have "lc_lookup node c0 = Some e" using e by (simp add: c0_def)
  from subscriptions_kept [OF p(2) this c1_def] obtain e1 where e1: "lc_lookup node c1 = Some e1" "lf_modules e1 = lf_modules e"
    "fst (lc_world c1) = []" "snd (lc_world c1) = snd (lc_world c)" "lc_listeners c1 = ls"
    using a(2) by (auto simp: c0_def)
  define c' where "c' = log_onPage (log_desk ok rid) e1 (of_nat (length table)) ?cur ?items c1"
  have last: "fst (LogConsumer_onMessage (log_desk ok rid) node (LogModules (of_nat (length table)) ?cur ?items) c1) = c'"
    using e1(1) by (simp add: LogConsumer_onMessage_def c'_def)
  have "fold (\<lambda>b c. fst (LogConsumer_onMessage (log_desk ok rid) node b c)) (asked_of self (lg_world g')) c0 = c'"
    using last unfolding p(3) fold_append comp_apply c1_def [symmetric] by simp
  then have x: "log_exchange ok rid node self s = (c', g')"
    unfolding log_exchange_def s Let_def prod.case a(5) g'_def [symmetric] c0_def [symmetric] by simp
  define q where "q = fst (TablePull_applyPage MAX_MODULES (of_nat (length table)) ?cur ?items (lf_modules e))"
  have q: "TablePull_applyPage MAX_MODULES (of_nat (length table)) ?cur ?items (lf_modules e1) = (q, True)"
    by (simp add: q_def e1(2) TablePull_applyPage_def Let_def split: prod.split)
  from log_onPage_desk [OF e1(1,3) q c'_def] obtain e' i where
    n: "lc_lookup node c' = Some e'" "lf_modules e' = q\<lparr> tp_requestId := i \<rparr>" "lc_listeners c' = ls"
      "snd (lc_world c') = snd (lc_world c) @ (if tp_complete q then log_report node ls (tp_items q) else [])"
      "asked_of node (fst (lc_world c')) = (if tp_complete q then [] else [LogModulesRequest (tp_cursor q)])"
    using e1(4,5) by auto
  have pull: "log_pull node (c', g') = q\<lparr> tp_requestId := i \<rparr>" using n(1,2) by (simp add: log_pull_def)
  have old: "log_pull node s = lf_modules e" using e by (simp add: log_pull_def s)
  show "\<exists>i. log_pull node (log_exchange ok rid node self s) =
      (apply_pages MAX_MODULES table [served_page table 8 (log_pull node s)] (log_pull node s))\<lparr> tp_requestId := i \<rparr>"
    by (intro exI [of _ i]) (simp add: x pull old apply_pages_def served_page_def q_def)
  have "module_table g' = table" using a(1) p(1) by (simp add: module_table_def)
  then show "if tp_complete (log_pull node (log_exchange ok rid node self s)) then log_idle node (log_exchange ok rid node self s)
     else log_asking node table ls (log_exchange ok rid node self s)"
    using n by (simp add: x pull log_idle_def log_asking_def)
  show "log_told (log_exchange ok rid node self s) = log_told s @
       (if tp_complete (log_pull node (log_exchange ok rid node self s)) then log_report node ls (tp_items (log_pull node (log_exchange ok rid node self s))) else [])"
    unfolding x pull using n by (simp add: log_told_def s)
qed

lemma log_exchange_idle:
  "log_idle node s \<Longrightarrow> log_pull node (log_exchange ok rid node self s) = log_pull node s \<and>
     log_told (log_exchange ok rid node self s) = log_told s \<and> log_idle node (log_exchange ok rid node self s)"
  by (cases s) (simp add: log_idle_def log_exchange_def log_pull_def log_told_def Let_def)

text \<open>Ids of modules are sixteen bits wide, so a table of more modules than that has two of one id; the law is
  stated for the tables a node can have.\<close>

interpretation modules: paged_dialogue "log_exchange ok rid node self" "log_pull node" "log_asking node (take (2 ^ 16) table) ls"
  "log_idle node" log_told "log_report node ls" "take (2 ^ 16) table" 8 MAX_MODULES
  for ok rid node self table ls
proof unfold_locales
  show l: "length (take (2 ^ 16) table) < 2 ^ 32" by simp
  show "log_idle node s \<Longrightarrow> log_pull node (log_exchange ok rid node self s) = log_pull node s \<and>
      log_told (log_exchange ok rid node self s) = log_told s \<and> log_idle node (log_exchange ok rid node self s)" for s
    by (rule log_exchange_idle)
qed (rule log_exchange_asking, assumption, simp)+

text \<open>The ground ends with the log modules of the node. A consumer with room for a node it does not follow
  yet, told by the directory that the node is of a kind that logs and of this schema, and the provider of that node exchange
  messages over a link that loses nothing: after one round more than the node has modules, at the latest, the
  entry of the node is complete and holds the modules of the node with their levels, newest first,
  up to the 32 the consumer keeps, and every listener was given that table exactly once.\<close>

lemma log_table_pulled:
  assumes "lc_lookup node c = None" "length (lc_entries c) < N" "lc_world c = ([], [])"
    and "de_id d = node" "\<not> de_wireMismatch d" "an_kind (de_announce d) \<in> {NodeKind_FIRMWARE, NodeKind_DRONE_SIM, NodeKind_RELAY, NodeKind_GATEWAY}"
    and "length (lg_modules g) \<le> 2 ^ 16" "length (lg_modules g) < n"
    and "(c', g') = (log_exchange ok rid node self ^^ n) (LogConsumer_onIdentity (log_desk ok rid) N d c, g)"
  shows "\<exists>e. lc_lookup node c' = Some e \<and> tp_complete (lf_modules e) \<and>
    tp_items (lf_modules e) = take MAX_MODULES (map (\<lambda>m. (ucast (lm_id m), take LOG_MAX_NAME (lm_name m), logLevelToWire (lm_level m))) (lg_modules g)) \<and>
    snd (lc_world c') = map (\<lambda>l. (l, node, tp_items (lf_modules e))) (lc_listeners c)"
proof -
  let ?s = "(LogConsumer_onIdentity (log_desk ok rid) N d c, g)" let ?t = "module_table g"
  let ?e = "log_follow_init\<lparr> lf_id := node \<rparr>"
  have len: "length ?t = length (lg_modules g)" by (simp add: module_table_def)
  have t: "take (2 ^ 16) ?t = ?t" using assms(7) len by simp
  have f: "entry_lookup lf_id node (entry_update lf_id node (?e\<lparr> lf_modules := q, lf_subscribeRequest := r \<rparr>)
      (entry_update lf_id node (?e\<lparr> lf_subscribeRequest := r \<rparr>) (lc_entries c @ [?e]))) = Some (?e\<lparr> lf_modules := q, lf_subscribeRequest := r \<rparr>)" for q r
    using entry_None [of lf_id node "entry_update lf_id node (?e\<lparr> lf_subscribeRequest := r \<rparr>) (lc_entries c @ [?e])"]
    by (subst lookup_update) (simp_all add: lookup_update)
  have s: "log_pull node ?s = TablePull_init\<lparr> tp_requestId := rid node \<rparr>" "log_asking node ?t (lc_listeners c) ?s" "log_told ?s = []"
    using assms(1-6) f by (auto simp: LogConsumer_onIdentity_def LOG_KINDS_def log_open_def log_askPage_def lc_request_def Let_def
      TablePull_setRequestId_def lc_put_def log_follow_init_def log_pull_def log_asking_def lc_lookup_def log_told_def TablePull_init_def)
  have inv: "pull_inv MAX_MODULES ?t (log_pull node ?s)" "\<not> tp_complete (log_pull node ?s)" "tp_cursor (log_pull node ?s) = 0"
    by (simp_all add: s(1) pull_inv_def TablePull_init_def)
  have "tp_complete (log_pull node (c', g')) \<and> tp_items (log_pull node (c', g')) = take MAX_MODULES ?t \<and>
      log_told (c', g') = log_report node (lc_listeners c) (take MAX_MODULES ?t)"
    using modules.completes [of node ?t "lc_listeners c" ?s n ok rid self, unfolded t] inv s(2,3) assms(8) len by (simp add: assms(9))
  then show ?thesis
    by (auto simp: log_pull_def log_told_def log_report_def module_table_def logFillModuleInfo_def [abs_def] TablePull_init_def split: option.splits)
qed

definition small_logging :: "log_body traffic list logging" where
  "small_logging = LogModule_new 300 ''app'' (LogModule_new LOG_MODULE_CORE ''log/core'' (logging_init []))"

lemma log_table_pulled_example:
  "\<exists>e. lc_lookup 5 (fst ((log_exchange (\<lambda>_. True) (\<lambda>_. 1) 5 6 ^^ 3)
       (LogConsumer_onIdentity (log_desk (\<lambda>_. True) (\<lambda>_. 1)) 1
          (DirectoryEntry_init\<lparr> de_id := 5, de_announce := Announce_init\<lparr> an_kind := 6 \<rparr> \<rparr>) (LogConsumer_new ([], [])), small_logging))) = Some e \<and>
     tp_items (lf_modules e) = [(300, ''app'', 2), (1, ''log/core'', 2)]"
proof -
  let ?d = "DirectoryEntry_init\<lparr> de_id := 5, de_announce := Announce_init\<lparr> an_kind := 6 \<rparr> \<rparr>"
  let ?s = "(log_exchange (\<lambda>_. True) (\<lambda>_. 1) 5 6 ^^ 3)
    (LogConsumer_onIdentity (log_desk (\<lambda>_. True) (\<lambda>_. 1)) 1 ?d (LogConsumer_new ([], [])), small_logging)"
  have m: "lg_modules small_logging = [\<lparr> lm_id = 300, lm_name = ''app'', lm_level = INFO \<rparr>, \<lparr> lm_id = 1, lm_name = ''log/core'', lm_level = INFO \<rparr>]"
    by (simp add: small_logging_def LogModule_new_def logging_init_def LOG_MODULE_CORE_def LOG_DEFAULT_LEVEL_def)
  have "take MAX_MODULES (map (\<lambda>m. (ucast (lm_id m), take LOG_MAX_NAME (lm_name m), logLevelToWire (lm_level m))) (lg_modules small_logging)) =
      [(300, ''app'', 2), (1, ''log/core'', 2)]"
    by (simp add: m MAX_MODULES_def LOG_MAX_NAME_def logLevelToWire_def)
  then show ?thesis
    using log_table_pulled [of 5 "LogConsumer_new ([], [])" 1 ?d small_logging 3 "fst ?s" "snd ?s" "\<lambda>_. True" "\<lambda>_. 1" 6]
    by (auto simp: LogConsumer_new_def lc_lookup_def entry_lookup_def DirectoryEntry_init_def Announce_init_def NodeKind_RELAY_def m)
qed

end
