(* ===== verification/Float32.thy ===== *)
theory Float32
  imports Prelude
begin

text \<open>
  The \<^verbatim>\<open>float\<close> of the C++ code: IEEE 754 binary32 with round to nearest, ties to
  even, signed zeros, subnormals, infinities and one NaN (the code never looks
  at a NaN payload). Every finite binary32 number is an integer multiple of the
  smallest subnormal (2 to the power -149), so a finite value is a sign and a natural number
  of such units; sums are exact integer sums, products and quotients exact
  fractions, and each operation rounds its exact result once. That is the
  arithmetic of a single-precision FPU without excess precision. A compiler may
  contract a product and a sum into one fused operation, rounded once
  (the flags of the build leave it that choice); that is outside the model.

  The comparisons are those of the language: all of them are false as soon as
  one side is a NaN, so \<open>f32\<close> is an instance of \<open>ord\<close> and of nothing more.
\<close>

section \<open>Values\<close>

datatype f32 =
    NaN
  | Inf bool              \<comment> \<open>sign, \<open>True\<close> for negative\<close>
  | Fin bool nat          \<comment> \<open>sign and magnitude in units of the smallest subnormal\<close>

text \<open>Units per one, and the first magnitude past the range (2 to the power 128).\<close>

definition UNIT :: nat where "UNIT = 2 ^ 149"
definition OVERFLOW :: nat where "OVERFLOW = 2 ^ 277"

lemma UNIT_pos [simp]: "0 < UNIT" "UNIT \<noteq> 0" "0 < OVERFLOW" "OVERFLOW \<noteq> 0"
  by (simp_all add: UNIT_def OVERFLOW_def)

fun isnan :: "f32 \<Rightarrow> bool" where
  "isnan NaN = True"
| "isnan _ = False"

text \<open>\<^verbatim>\<open>std::isfinite\<close>.\<close>

fun isfinite :: "f32 \<Rightarrow> bool" where
  "isfinite (Fin _ _) = True"
| "isfinite _ = False"

fun signbit :: "f32 \<Rightarrow> bool" where
  "signbit NaN = False"
| "signbit (Inf s) = s"
| "signbit (Fin s _) = s"

text \<open>The exact value of a finite number, in units.\<close>

fun units :: "f32 \<Rightarrow> int" where
  "units (Fin s n) = (if s then - int n else int n)"
| "units _ = 0"

section \<open>Rounding\<close>

text \<open>
  The fraction \<open>a / b\<close> of units rounded to 24 significant bits: \<open>k\<close> is how many
  low bits of the integer part do not fit.
\<close>

fun bitlen :: "nat \<Rightarrow> nat" where
  "bitlen n = (if n = 0 then 0 else Suc (bitlen (n div 2)))"

declare bitlen.simps [simp del]

definition round_shift :: "nat \<Rightarrow> nat \<Rightarrow> nat" where
  "round_shift a b = bitlen (a div b) - 24"

definition round_mag :: "nat \<Rightarrow> nat \<Rightarrow> nat" where
  "round_mag a b =
     (let d = b * 2 ^ round_shift a b;
          m = a div d;
          r = a mod d;
          m' = (if 2 * r > d \<or> 2 * r = d \<and> odd m then m + 1 else m)
      in m' * 2 ^ round_shift a b)"

definition round32 :: "bool \<Rightarrow> nat \<Rightarrow> nat \<Rightarrow> f32" where
  "round32 s a b = (let n = round_mag a b in if n \<ge> OVERFLOW then Inf s else Fin s n)"

text \<open>A magnitude that binary32 has: at most 24 significant bits, in range.\<close>

definition representable :: "nat \<Rightarrow> bool" where
  "representable n \<longleftrightarrow> n < OVERFLOW \<and> (\<exists>m k. m \<le> 2 ^ 24 \<and> n = m * 2 ^ k)"

fun f32_ok :: "f32 \<Rightarrow> bool" where
  "f32_ok (Fin _ n) = representable n"
| "f32_ok _ = True"

section \<open>Arithmetic and comparisons\<close>

instantiation f32 :: "{zero, one, uminus, plus, minus, times, inverse, ord}"
begin

definition zero_f32 :: f32 where "zero_f32 = Fin False 0"

definition one_f32 :: f32 where "one_f32 = Fin False UNIT"

fun uminus_f32 :: "f32 \<Rightarrow> f32" where
  "uminus_f32 NaN = NaN"
| "uminus_f32 (Inf s) = Inf (\<not> s)"
| "uminus_f32 (Fin s n) = Fin (\<not> s) n"

fun plus_f32 :: "f32 \<Rightarrow> f32 \<Rightarrow> f32" where
  "plus_f32 (Fin s n) (Fin t m) =
     (let v = units (Fin s n) + units (Fin t m)
      in if v = 0 then Fin (s \<and> t) 0 else round32 (v < 0) (nat \<bar>v\<bar>) 1)"
| "plus_f32 (Inf s) (Inf t) = (if s = t then Inf s else NaN)"
| "plus_f32 (Inf s) (Fin _ _) = Inf s"
| "plus_f32 (Fin _ _) (Inf t) = Inf t"
| "plus_f32 NaN _ = NaN"
| "plus_f32 _ NaN = NaN"

definition minus_f32 :: "f32 \<Rightarrow> f32 \<Rightarrow> f32" where
  "minus_f32 a b = a + (- b)"

fun times_f32 :: "f32 \<Rightarrow> f32 \<Rightarrow> f32" where
  "times_f32 (Fin s n) (Fin t m) = round32 (s \<noteq> t) (n * m) UNIT"
| "times_f32 (Inf s) (Inf t) = Inf (s \<noteq> t)"
| "times_f32 (Inf s) (Fin t m) = (if m = 0 then NaN else Inf (s \<noteq> t))"
| "times_f32 (Fin s n) (Inf t) = (if n = 0 then NaN else Inf (s \<noteq> t))"
| "times_f32 NaN _ = NaN"
| "times_f32 _ NaN = NaN"

fun divide_f32 :: "f32 \<Rightarrow> f32 \<Rightarrow> f32" where
  "divide_f32 (Fin s n) (Fin t m) =
     (if m = 0 then if n = 0 then NaN else Inf (s \<noteq> t)
      else round32 (s \<noteq> t) (n * UNIT) m)"
| "divide_f32 (Inf s) (Inf t) = NaN"
| "divide_f32 (Inf s) (Fin t _) = Inf (s \<noteq> t)"
| "divide_f32 (Fin s _) (Inf t) = Fin (s \<noteq> t) 0"
| "divide_f32 NaN _ = NaN"
| "divide_f32 _ NaN = NaN"

definition inverse_f32 :: "f32 \<Rightarrow> f32" where
  "inverse_f32 a = divide 1 a"

fun less_f32 :: "f32 \<Rightarrow> f32 \<Rightarrow> bool" where
  "less_f32 (Fin s n) (Fin t m) \<longleftrightarrow> units (Fin s n) < units (Fin t m)"
| "less_f32 (Inf s) (Inf t) \<longleftrightarrow> s \<and> \<not> t"
| "less_f32 (Inf s) (Fin _ _) \<longleftrightarrow> s"
| "less_f32 (Fin _ _) (Inf t) \<longleftrightarrow> \<not> t"
| "less_f32 NaN _ \<longleftrightarrow> False"
| "less_f32 _ NaN \<longleftrightarrow> False"

fun less_eq_f32 :: "f32 \<Rightarrow> f32 \<Rightarrow> bool" where
  "less_eq_f32 (Fin s n) (Fin t m) \<longleftrightarrow> units (Fin s n) \<le> units (Fin t m)"
| "less_eq_f32 (Inf s) (Inf t) \<longleftrightarrow> s \<or> \<not> t"
| "less_eq_f32 (Inf s) (Fin _ _) \<longleftrightarrow> s"
| "less_eq_f32 (Fin _ _) (Inf t) \<longleftrightarrow> \<not> t"
| "less_eq_f32 NaN _ \<longleftrightarrow> False"
| "less_eq_f32 _ NaN \<longleftrightarrow> False"

instance ..

end

text \<open>The decimal literal \<open>a / b\<close>, e.g. \<^verbatim>\<open>0.05f\<close> as \<open>lit 5 100\<close>.\<close>

definition lit :: "nat \<Rightarrow> nat \<Rightarrow> f32" where
  "lit a b = round32 False (a * UNIT) b"

text \<open>\<^verbatim>\<open>std::fabs\<close>.\<close>

fun fabsf :: "f32 \<Rightarrow> f32" where
  "fabsf NaN = NaN"
| "fabsf (Inf _) = Inf False"
| "fabsf (Fin _ n) = Fin False n"

text \<open>
  \<^verbatim>\<open>std::sqrt\<close>, correctly rounded: the integer root of the exact value, bit by bit
  from the top (\<open>d\<close> is what the root found so far leaves), with a sticky half unit when it is not exact. The root of any
  nonzero value has far more than 24 bits in units, so the sticky half decides
  the rounding as the exact root would.
\<close>

fun isqrt_bits :: "nat \<Rightarrow> nat \<Rightarrow> nat \<Rightarrow> nat" where
  "isqrt_bits 0 d r = r"
| "isqrt_bits (Suc i) d r =
     (if (2 * r + 2 ^ i) * 2 ^ i \<le> d
      then isqrt_bits i (d - (2 * r + 2 ^ i) * 2 ^ i) (r + 2 ^ i)
      else isqrt_bits i d r)"

definition isqrt :: "nat \<Rightarrow> nat" where
  "isqrt N = isqrt_bits (bitlen N div 2 + 1) N 0"

fun sqrtf :: "f32 \<Rightarrow> f32" where
  "sqrtf NaN = NaN"
| "sqrtf (Inf s) = (if s then NaN else Inf False)"
| "sqrtf (Fin s n) =
     (if n = 0 then Fin s 0
      else if s then NaN
      else let N = n * UNIT; r = isqrt N
           in round32 False (2 * r + (if r * r = N then 0 else 1)) 2)"

text \<open>The conversions between \<^verbatim>\<open>std::uint64_t\<close> or \<^verbatim>\<open>std::uint32_t\<close> and \<^verbatim>\<open>float\<close>.\<close>

definition float_of :: "'a::len word \<Rightarrow> f32" where
  "float_of w = round32 False (unat w * UNIT) 1"

text \<open>
  What the code calls and the language leaves to the platform: the functions
  of \<^verbatim>\<open><cmath>\<close> that are not correctly rounded, and the result of converting a
  value outside the range of \<^verbatim>\<open>std::uint64_t\<close> to it, which the language leaves
  undefined. Nothing is assumed about any of them.
\<close>

record fpenv =
  fe_tan :: "f32 \<Rightarrow> f32"
  fe_asin :: "f32 \<Rightarrow> f32"
  fe_atan2 :: "f32 \<Rightarrow> f32 \<Rightarrow> f32"
  fe_pow :: "f32 \<Rightarrow> f32 \<Rightarrow> f32"
  fe_u64_range :: "f32 \<Rightarrow> u64"

text \<open>One platform, for the concrete examples.\<close>

definition quiet_env :: fpenv where
  "quiet_env = \<lparr>fe_tan = (\<lambda>x. x), fe_asin = (\<lambda>x. x), fe_atan2 = (\<lambda>y x. y), fe_pow = (\<lambda>x y. x),
                fe_u64_range = (\<lambda>_. 0)\<rparr>"

text \<open>\<^verbatim>\<open>static_cast<std::uint64_t>(x)\<close>: truncation toward zero when the result fits.\<close>

definition u64_of_float :: "fpenv \<Rightarrow> f32 \<Rightarrow> u64" where
  "u64_of_float fe x =
     (case x of
        Fin s n \<Rightarrow> if (s \<longrightarrow> n < UNIT) \<and> n < 2 ^ 64 * UNIT then of_nat (if s then 0 else n div UNIT)
                   else fe_u64_range fe x
      | _ \<Rightarrow> fe_u64_range fe x)"

section \<open>Rounding is correct\<close>

lemma bitlen_upper: "n < 2 ^ bitlen n"
  by (induction n rule: bitlen.induct) (subst bitlen.simps, auto)

lemma bitlen_lower: "n \<noteq> 0 \<Longrightarrow> 2 ^ bitlen n \<le> 2 * n"
proof (induction n rule: bitlen.induct)
  case (1 n)
  show ?case
  proof (cases "n div 2 = 0")
    case True
    with 1(2) show ?thesis by (simp add: bitlen.simps[of n] bitlen.simps[of 0])
  next
    case False
    with 1 have "2 ^ bitlen (n div 2) \<le> 2 * (n div 2)" by blast
    with 1(2) show ?thesis by (simp add: bitlen.simps[of n])
  qed
qed

lemma round_shift_bound:
  assumes "0 < b"
  shows "a div (b * 2 ^ round_shift a b) < 2 ^ 24"
proof -
  have "a div (b * 2 ^ round_shift a b) = a div b div 2 ^ round_shift a b"
    by (simp add: div_mult2_eq)
  also have "\<dots> < 2 ^ 24"
  proof -
    have "a div b < 2 ^ bitlen (a div b)" by (rule bitlen_upper)
    also have "\<dots> \<le> 2 ^ (round_shift a b + 24)"
      by (rule power_increasing) (simp_all add: round_shift_def)
    finally show ?thesis
      by (simp add: less_mult_imp_div_less power_add mult.commute)
  qed
  finally show ?thesis .
qed

lemma round_mag_parts:
  assumes "0 < b"
  obtains m where "m \<le> 2 ^ 24" "round_mag a b = m * 2 ^ round_shift a b"
    "2 * \<bar>int (m * (b * 2 ^ round_shift a b)) - int a\<bar> \<le> int (b * 2 ^ round_shift a b)"
proof -
  define d where "d = b * 2 ^ round_shift a b"
  define q where "q = a div d"
  define r where "r = a mod d"
  define m where "m = (if 2 * r > d \<or> 2 * r = d \<and> odd q then q + 1 else q)"
  have d: "0 < d" using assms by (simp add: d_def)
  have a: "a = q * d + r" and r: "r < d" using d by (simp_all add: q_def r_def)
  have "q < 2 ^ 24" using round_shift_bound[OF assms, of a] by (simp add: q_def d_def)
  then have m: "m \<le> 2 ^ 24" by (simp add: m_def)
  have val: "round_mag a b = m * 2 ^ round_shift a b"
    by (simp add: round_mag_def Let_def m_def q_def r_def d_def)
  have near: "2 * \<bar>int (m * d) - int a\<bar> \<le> int d"
  proof (cases "m = q")
    case True
    then have "2 * r \<le> d" by (auto simp: m_def split: if_splits)
    then show ?thesis by (simp add: True a)
  next
    case False
    then have "m = q + 1" "d \<le> 2 * r" by (auto simp: m_def split: if_splits)
    then show ?thesis using r by (simp add: a algebra_simps)
  qed
  show thesis by (rule that[OF m val]) (use near in \<open>simp add: d_def\<close>)
qed

text \<open>The result has at most 24 significant bits and is within half a unit in its last place.\<close>

lemma round_mag_representable:
  "0 < b \<Longrightarrow> round_mag a b < OVERFLOW \<Longrightarrow> representable (round_mag a b)"
  by (rule round_mag_parts[of b a]) (auto simp: representable_def)

lemma round_mag_nearest:
  assumes "0 < b"
  shows "2 * \<bar>int (round_mag a b * b) - int a\<bar> \<le> int (b * 2 ^ round_shift a b)"
  by (rule round_mag_parts[OF assms, of a]) (simp add: ac_simps)

lemma round_mag_0 [simp]: "round_mag 0 b = 0"
  by (simp add: round_mag_def Let_def)

lemma round32_0 [simp]: "round32 s 0 b = Fin s 0"
  by (simp add: round32_def)

lemma round32_cases:
  obtains "round32 s a b = Inf s" | n where "round32 s a b = Fin s n"
  by (cases "round_mag a b \<ge> OVERFLOW") (auto simp: round32_def Let_def)

lemma round32_ok [simp, intro]: "0 < b \<Longrightarrow> f32_ok (round32 s a b)"
  by (simp add: round32_def Let_def round_mag_representable)

lemma signbit_round32 [simp]: "signbit (round32 s a b) = s"
  by (rule round32_cases[of s a b]) simp_all

lemma isnan_round32 [simp]: "\<not> isnan (round32 s a b)"
  by (rule round32_cases[of s a b]) simp_all

lemma round32_nan [simp]: "round32 s a b \<noteq> NaN"
  by (rule round32_cases[of s a b]) simp_all

text \<open>Every operation stays inside binary32.\<close>

lemma f32_ok_const [simp, intro]:
  "f32_ok 0" "f32_ok 1" "0 < b \<Longrightarrow> f32_ok (lit a b)" "f32_ok (float_of w)"
proof -
  have "UNIT = 1 * 2 ^ 149" "UNIT < OVERFLOW" by (simp_all add: UNIT_def OVERFLOW_def)
  then have "representable UNIT" unfolding representable_def
    by (metis one_le_numeral one_le_power)
  then show "f32_ok 1" by (simp add: one_f32_def)
  have "representable 0" by (simp add: representable_def) 
  then show "f32_ok 0" by (simp add: zero_f32_def)
qed (simp_all add: lit_def float_of_def)

lemma f32_ok_arith [simp, intro]:
  fixes x y :: f32
  shows "f32_ok x \<Longrightarrow> f32_ok (- x)"
    and "f32_ok x \<Longrightarrow> f32_ok y \<Longrightarrow> f32_ok (x + y)"
    and "f32_ok x \<Longrightarrow> f32_ok y \<Longrightarrow> f32_ok (x - y)"
    and "f32_ok (x * y)" and "f32_ok (x / y)" and "f32_ok (sqrtf x)"
proof -
  have z: "representable 0" by (simp add: representable_def)
  have neg: "f32_ok z \<Longrightarrow> f32_ok (- z)" for z by (cases z) simp_all
  have add: "f32_ok (v + w)" for v w
    by (cases v; cases w) (simp_all add: z Let_def)
  show "f32_ok x \<Longrightarrow> f32_ok (- x)" by (rule neg)
  show "f32_ok (x + y)" by (rule add)
  show "f32_ok (x - y)" by (simp add: minus_f32_def add)
  show "f32_ok (x * y)" by (cases x; cases y) simp_all
  show "f32_ok (x / y)" by (cases x; cases y) (simp_all add: z)
  show "f32_ok (sqrtf x)" by (cases x) (simp_all add: z Let_def)
qed

section \<open>Comparisons and NaN\<close>

lemma nan_compare [simp]:
  "\<not> NaN < x" "\<not> x < NaN" "\<not> NaN \<le> x" "\<not> x \<le> NaN"
  by (cases x; simp)+

lemma nan_arith [simp]:
  "NaN + x = NaN" "x + NaN = NaN" "NaN * x = NaN" "x * NaN = NaN"
  "NaN / x = NaN" "x / NaN = NaN" "NaN - x = NaN" "x - NaN = NaN"
  by (cases x; simp add: minus_f32_def)+

lemma isnan_iff: "isnan x \<longleftrightarrow> x = NaN"
  by (cases x) simp_all

lemma not_le_f32: "(x :: f32) \<noteq> NaN \<Longrightarrow> y \<noteq> NaN \<Longrightarrow> \<not> x \<le> y \<longleftrightarrow> y < x"
  by (cases x; cases y) auto

lemma not_less_f32: "(x :: f32) \<noteq> NaN \<Longrightarrow> y \<noteq> NaN \<Longrightarrow> \<not> x < y \<longleftrightarrow> y \<le> x"
  by (cases x; cases y) auto

lemma f32_less_imp_le: "(x :: f32) < y \<Longrightarrow> x \<le> y"
  by (cases x; cases y) auto

lemma f32_le_trans: "(x :: f32) \<le> y \<Longrightarrow> y \<le> z \<Longrightarrow> x \<le> z"
  by (cases x; cases y; cases z) (auto split: if_splits)

lemma f32_le_refl [simp]: "(x :: f32) \<noteq> NaN \<Longrightarrow> x \<le> x"
  by (cases x) auto

lemma f32_less_irrefl [simp]: "\<not> (x :: f32) < x"
  by (cases x) auto

lemma f32_less_not_nan: "(x :: f32) < y \<Longrightarrow> x \<noteq> NaN \<and> y \<noteq> NaN"
  by auto

lemma f32_le_not_nan: "(x :: f32) \<le> y \<Longrightarrow> x \<noteq> NaN \<and> y \<noteq> NaN"
  by auto

lemma isfinite_iff: "isfinite x \<longleftrightarrow> (\<exists>s n. x = Fin s n)"
  by (cases x) simp_all

lemma zero_not_less: "\<not> (0 :: f32) < 0" "(0 :: f32) \<le> 0"
  by (simp_all add: zero_f32_def)

text \<open>A value between two finite ones is finite.\<close>

lemma between_finite: "isfinite a \<Longrightarrow> isfinite b \<Longrightarrow> a \<le> x \<Longrightarrow> x \<le> b \<Longrightarrow> isfinite x"
  by (cases a; cases b; cases x) auto

text \<open>A square is not below zero and a sum of squares under a bound has finite terms.\<close>

lemma round32_sign [simp]: "0 \<le> round32 False a b" "round32 True a b \<le> 0"
  by (rule round32_cases[of False a b]; simp add: zero_f32_def)
    (rule round32_cases[of True a b]; simp add: zero_f32_def)

lemma square_nonneg: "(x :: f32) \<noteq> NaN \<Longrightarrow> 0 \<le> x * x"
  by (cases x) (simp_all add: zero_f32_def[symmetric], simp_all add: zero_f32_def)

lemma plus_nonneg:
  assumes "(0 :: f32) \<le> x" "0 \<le> y"
  shows "0 \<le> x + y"
proof (cases "isfinite x \<and> isfinite y")
  case True
  then obtain s n t m where xy: "x = Fin s n" "y = Fin t m" by (auto simp: isfinite_iff)
  define v where "v = units x + units y"
  have v: "0 \<le> v" using assms by (simp add: v_def xy zero_f32_def)
  have "x + y = (if v = 0 then Fin (s \<and> t) 0 else round32 False (nat \<bar>v\<bar>) 1)"
    using v by (simp add: xy v_def Let_def)
  moreover have "0 \<le> Fin (s \<and> t) 0" by (simp add: zero_f32_def)
  ultimately show ?thesis by simp
next
  case False
  with assms show ?thesis by (cases x; cases y) (auto simp: zero_f32_def)
qed

lemma plus_infinity: "(0 :: f32) \<le> a \<Longrightarrow> Inf False + a = Inf False" "(0 :: f32) \<le> a \<Longrightarrow> a + Inf False = Inf False"
  by (cases a; auto simp: zero_f32_def)+

lemma not_infinity_less [simp]: "\<not> Inf False < x"
  by (cases x) simp_all

lemma square_infinite: "x \<noteq> NaN \<Longrightarrow> \<not> isfinite x \<Longrightarrow> x * x = Inf False"
  by (cases x) simp_all

lemma sum_squares_finite:
  assumes "x * x + y * y + z * z < (c :: f32)"
  shows "isfinite x \<and> isfinite y \<and> isfinite z"
proof -
  have n: "x \<noteq> NaN" "y \<noteq> NaN" "z \<noteq> NaN" using assms by auto
  note sq = n[THEN square_nonneg]
  show ?thesis
    using assms n sq square_infinite[of x] square_infinite[of y] square_infinite[of z]
    by (metis plus_infinity plus_nonneg not_infinity_less)
qed

text \<open>Products and sums that cannot be a NaN.\<close>

lemma times_finite_not_nan: "isfinite x \<Longrightarrow> isfinite y \<Longrightarrow> x * y \<noteq> NaN"
  by (auto simp: isfinite_iff)

lemma times_pos_not_nan: "(x :: f32) \<noteq> NaN \<Longrightarrow> 0 < y \<Longrightarrow> isfinite y \<Longrightarrow> x * y \<noteq> NaN"
  by (cases x; cases y) (auto simp: zero_f32_def split: if_splits)

lemma plus_finite_not_nan: "isfinite x \<Longrightarrow> y \<noteq> NaN \<Longrightarrow> x + y \<noteq> NaN"
  by (cases x; cases y) (auto simp: Let_def)

lemma divide_nonneg: "(0 :: f32) \<le> x \<Longrightarrow> 0 < y \<Longrightarrow> isfinite y \<Longrightarrow> 0 \<le> x / y"
  by (cases x; cases y) (auto simp: zero_f32_def round32_sign[unfolded zero_f32_def] split: if_splits)

lemma uminus_less_zero: "(0 :: f32) < x \<Longrightarrow> - x < 0" "x < (0 :: f32) \<Longrightarrow> 0 < - x"
  by (cases x; auto simp: zero_f32_def split: if_splits)+

lemma isfinite_uminus [simp]: "isfinite (- x) = isfinite x"
  by (cases x) simp_all

text \<open>The integer root is the floor of the real one.\<close>

lemma isqrt_bits_correct:
  assumes "r * r + d < (r + 2 ^ i) * (r + 2 ^ i)"
  shows "isqrt_bits i d r * isqrt_bits i d r \<le> r * r + d \<and>
         r * r + d < (isqrt_bits i d r + 1) * (isqrt_bits i d r + 1)"
  using assms
proof (induction i arbitrary: d r)
  case (Suc i)
  let ?s = "(2 * r + 2 ^ i) * 2 ^ i"
  have sq: "(r + 2 ^ i) * (r + 2 ^ i) = r * r + ?s" by (simp add: algebra_simps)
  show ?case
  proof (cases "?s \<le> d")
    case True
    then have "(r + 2 ^ i) * (r + 2 ^ i) + (d - ?s) = r * r + d" by (simp only: sq)
    with Suc.IH[of "r + 2 ^ i" "d - ?s"] Suc.prems True show ?thesis by (simp add: add.assoc mult_2)
  next
    case False
    with Suc.IH[of r d] show ?thesis by (simp add: sq)
  qed
qed simp

lemma isqrt_correct: "isqrt N * isqrt N \<le> N \<and> N < (isqrt N + 1) * (isqrt N + 1)"
proof -
  let ?b = "bitlen N div 2 + 1"
  have "N < 2 ^ bitlen N" by (rule bitlen_upper)
  also have "(2 :: nat) ^ bitlen N \<le> 2 ^ (?b + ?b)" by (rule power_increasing) simp_all
  finally have "0 * 0 + N < (0 + 2 ^ ?b) * (0 + 2 ^ ?b)" by (simp add: power_add)
  then show ?thesis unfolding isqrt_def using isqrt_bits_correct[of 0 N ?b] by simp
qed

section \<open>Evaluation\<close>

text \<open>
  What the simplifier needs to compute on concrete values: numerals stay
  binary, so a sum, a product or a root of literals is a normal form.
\<close>

lemma bitlen_numeral:
  "bitlen 0 = 0" "bitlen 1 = 1" "bitlen (Suc 0) = 1"
  "bitlen (numeral (num.Bit0 n)) = bitlen (numeral n) + 1"
  "bitlen (numeral (num.Bit1 n)) = bitlen (numeral n) + 1"
  by (simp_all add: bitlen.simps[of 0] bitlen.simps[of "Suc 0"] bitlen.simps[of "numeral (num.Bit0 n)"]
      bitlen.simps[of "numeral (num.Bit1 n)"])

lemma isqrt_bits_numeral:
  "isqrt_bits (numeral k) d r =
     (if (2 * r + 2 ^ pred_numeral k) * 2 ^ pred_numeral k \<le> d
      then isqrt_bits (pred_numeral k) (d - (2 * r + 2 ^ pred_numeral k) * 2 ^ pred_numeral k)
             (r + 2 ^ pred_numeral k)
      else isqrt_bits (pred_numeral k) d r)"
  by (simp add: numeral_eq_Suc)

lemmas float_eval = lit_def round32_def round_mag_def round_shift_def bitlen_numeral
  isqrt_bits_numeral isqrt_def UNIT_def OVERFLOW_def zero_f32_def one_f32_def minus_f32_def
  float_of_def Let_def

end
