(* ===== verification/Flight_Control.thy ===== *)
theory Flight_Control
  imports Float32
begin

text \<open>
  The frames the flight core exchanges with its platform
  (\<^verbatim>\<open>flight_core/types.hpp\<close>) and its control side: the motor mixer, the body
  rate controller, the attitude controller, the vertical controller and the stick
  mapper. Every member a class carries is a field of its record, the values
  kept for telemetry included; the \<^verbatim>\<open>TelemetryEntry\<close> members, which only register
  the address of such a value under a name, have no effect on the flight and are
  left out.
\<close>

section \<open>Types\<close>

datatype 'a vec3 = V3 (vx: 'a) (vy: 'a) (vz: 'a)

text \<open>An index into an array of three, and a loop over the three axes.\<close>

definition vnth :: "'a vec3 \<Rightarrow> nat \<Rightarrow> 'a" where
  "vnth v axis = (if axis = 0 then vx v else if axis = 1 then vy v else vz v)"

definition axes :: "(nat \<Rightarrow> 'a) \<Rightarrow> 'a vec3" where
  "axes f = V3 (f 0) (f 1) (f 2)"

lemma axes_simps [simp]:
  "vx (axes f) = f 0" "vy (axes f) = f 1" "vz (axes f) = f 2"
  "vnth (V3 a b c) 0 = a" "vnth (V3 a b c) 1 = b" "vnth (V3 a b c) (Suc 0) = b" "vnth (V3 a b c) 2 = c"
  by (simp_all add: axes_def vnth_def)

abbreviation zero3 :: "f32 vec3" where "zero3 \<equiv> V3 0 0 0"

definition GRAVITY_MPS2 :: f32 where "GRAVITY_MPS2 = lit 980665 100000"

record quaternion =
  q_w :: f32
  q_x :: f32
  q_y :: f32
  q_z :: f32

definition Quaternion_init :: quaternion where
  "Quaternion_init = \<lparr>q_w = 1, q_x = 0, q_y = 0, q_z = 0\<rparr>"

datatype pilot_mode = PM_MANUAL | PM_ALTITUDE_AUTO | PM_LEVEL

record rc_input =
  rc_killSwitch :: bool
  rc_throttle :: f32
  rc_roll :: f32
  rc_pitch :: f32
  rc_yaw :: f32
  rc_armSwitch :: bool
  rc_mode :: pilot_mode

definition RcInput_init :: rc_input where
  "RcInput_init = \<lparr>rc_killSwitch = True, rc_throttle = 0, rc_roll = 0, rc_pitch = 0, rc_yaw = 0,
     rc_armSwitch = False, rc_mode = PM_MANUAL\<rparr>"

record sensor_frame =
  sf_timestampUs :: u64
  sf_imuValid :: bool
  sf_baroValid :: bool
  sf_gyroRadS :: "f32 vec3"
  sf_accelMps2 :: "f32 vec3"
  sf_baroPa :: f32
  sf_rc :: rc_input

definition SensorFrame_init :: sensor_frame where
  "SensorFrame_init = \<lparr>sf_timestampUs = 0, sf_imuValid = False, sf_baroValid = False,
     sf_gyroRadS = zero3, sf_accelMps2 = zero3, sf_baroPa = 0, sf_rc = RcInput_init\<rparr>"

text \<open>The four motor commands are a list of length four.\<close>

record actuator_frame =
  af_timestampUs :: u64
  af_motor :: "f32 list"

definition ActuatorFrame_init :: actuator_frame where
  "ActuatorFrame_init = \<lparr>af_timestampUs = 0, af_motor = replicate 4 0\<rparr>"

section \<open>Mixer\<close>

definition clampCommand :: "f32 \<Rightarrow> f32" where
  "clampCommand v = (if v < 0 then 0 else if v > lit 1 1 then lit 1 1 else v)"

definition mixMotors :: "f32 \<Rightarrow> f32 vec3 \<Rightarrow> f32 list" where
  "mixMotors collective torqueCmd =
     (let roll = vnth torqueCmd 0; pitch = vnth torqueCmd 1; yaw = vnth torqueCmd 2
      in [clampCommand (collective - roll + pitch - yaw),
          clampCommand (collective - roll - pitch + yaw),
          clampCommand (collective + roll + pitch + yaw),
          clampCommand (collective + roll - pitch - yaw)])"

section \<open>Rate controller\<close>

definition DEFAULT_KP_ROLL_PITCH :: f32 where "DEFAULT_KP_ROLL_PITCH = lit 3 100"
definition DEFAULT_KI_ROLL_PITCH :: f32 where "DEFAULT_KI_ROLL_PITCH = lit 2 100"
definition DEFAULT_KP_YAW :: f32 where "DEFAULT_KP_YAW = lit 15 100"
definition DEFAULT_KI_YAW :: f32 where "DEFAULT_KI_YAW = lit 5 100"
definition RATE_INTEGRAL_LIMIT :: f32 where "RATE_INTEGRAL_LIMIT = lit 2 10"

record rate_controller =
  rate_kp :: "f32 vec3"
  rate_ki :: "f32 vec3"
  rate_integral :: "f32 vec3"
  rate_setpointRadS :: "f32 vec3"
  rate_measuredRadS :: "f32 vec3"
  rate_errorRadS :: "f32 vec3"
  rate_pTerm :: "f32 vec3"
  rate_output :: "f32 vec3"

definition RateController_init :: rate_controller where
  "RateController_init =
     \<lparr>rate_kp = V3 DEFAULT_KP_ROLL_PITCH DEFAULT_KP_ROLL_PITCH DEFAULT_KP_YAW,
      rate_ki = V3 DEFAULT_KI_ROLL_PITCH DEFAULT_KI_ROLL_PITCH DEFAULT_KI_YAW,
      rate_integral = zero3, rate_setpointRadS = zero3, rate_measuredRadS = zero3,
      rate_errorRadS = zero3, rate_pTerm = zero3, rate_output = zero3\<rparr>"

definition RateController_setKpRollPitch :: "rate_controller \<Rightarrow> f32 \<Rightarrow> rate_controller" where
  "RateController_setKpRollPitch c kp = c\<lparr>rate_kp := V3 kp kp (vz (rate_kp c))\<rparr>"

definition RateController_setKiRollPitch :: "rate_controller \<Rightarrow> f32 \<Rightarrow> rate_controller" where
  "RateController_setKiRollPitch c ki = c\<lparr>rate_ki := V3 ki ki (vz (rate_ki c))\<rparr>"

definition RateController_setKpYaw :: "rate_controller \<Rightarrow> f32 \<Rightarrow> rate_controller" where
  "RateController_setKpYaw c kp = c\<lparr>rate_kp := V3 (vx (rate_kp c)) (vy (rate_kp c)) kp\<rparr>"

definition RateController_setKiYaw :: "rate_controller \<Rightarrow> f32 \<Rightarrow> rate_controller" where
  "RateController_setKiYaw c ki = c\<lparr>rate_ki := V3 (vx (rate_ki c)) (vy (rate_ki c)) ki\<rparr>"

definition clampAbs :: "f32 \<Rightarrow> f32 \<Rightarrow> f32" where
  "clampAbs v limit = (if v < - limit then - limit else if v > limit then limit else v)"

text \<open>
  The loop body reads and writes its own axis only, so the three axes are
  computed side by side.
\<close>

definition RateController_update ::
  "rate_controller \<Rightarrow> f32 vec3 \<Rightarrow> f32 vec3 \<Rightarrow> f32 \<Rightarrow> rate_controller \<times> f32 vec3" where
  "RateController_update c setpointRadS gyroRadS dt =
     (let err = (\<lambda>axis. vnth setpointRadS axis - vnth gyroRadS axis);
          integral = (\<lambda>axis. clampAbs (vnth (rate_integral c) axis + vnth (rate_ki c) axis * err axis * dt)
                               RATE_INTEGRAL_LIMIT);
          pTerm = (\<lambda>axis. vnth (rate_kp c) axis * err axis);
          torque = axes (\<lambda>axis. pTerm axis + integral axis)
      in (c\<lparr>rate_integral := axes integral, rate_setpointRadS := setpointRadS,
            rate_measuredRadS := gyroRadS, rate_errorRadS := axes err,
            rate_pTerm := axes pTerm, rate_output := torque\<rparr>,
          torque))"

definition RateController_reset :: "rate_controller \<Rightarrow> rate_controller" where
  "RateController_reset c =
     c\<lparr>rate_integral := zero3, rate_setpointRadS := zero3, rate_measuredRadS := zero3,
       rate_errorRadS := zero3, rate_pTerm := zero3, rate_output := zero3\<rparr>"

section \<open>Attitude controller\<close>

definition ATTITUDE_DEFAULT_KP :: f32 where "ATTITUDE_DEFAULT_KP = lit 5 1"

record attitude_controller =
  ac_kp :: f32
  ac_errorSin :: "f32 vec3"
  ac_setpointRadS :: "f32 vec3"

definition AttitudeController_init :: attitude_controller where
  "AttitudeController_init = \<lparr>ac_kp = ATTITUDE_DEFAULT_KP, ac_errorSin = zero3, ac_setpointRadS = zero3\<rparr>"

definition AttitudeController_setKp :: "attitude_controller \<Rightarrow> f32 \<Rightarrow> attitude_controller" where
  "AttitudeController_setKp c kp = c\<lparr>ac_kp := kp\<rparr>"

definition AttitudeController_rateSetpointRadS ::
  "attitude_controller \<Rightarrow> quaternion \<Rightarrow> f32 vec3 \<Rightarrow> attitude_controller \<times> f32 vec3" where
  "AttitudeController_rateSetpointRadS c q desiredUpWorld =
     (let wx = vnth desiredUpWorld 0; wy = vnth desiredUpWorld 1; wz = vnth desiredUpWorld 2;
          upX = (lit 1 1 - lit 2 1 * (q_y q * q_y q + q_z q * q_z q)) * wx
                + lit 2 1 * (q_x q * q_y q + q_w q * q_z q) * wy
                + lit 2 1 * (q_x q * q_z q - q_w q * q_y q) * wz;
          upY = lit 2 1 * (q_x q * q_y q - q_w q * q_z q) * wx
                + (lit 1 1 - lit 2 1 * (q_x q * q_x q + q_z q * q_z q)) * wy
                + lit 2 1 * (q_y q * q_z q + q_w q * q_x q) * wz;
          sx = ac_kp c * (- upY);
          sy = ac_kp c * upX
      in (c\<lparr>ac_errorSin := V3 (- upY) upX (vz (ac_errorSin c)),
            ac_setpointRadS := V3 sx sy (vz (ac_setpointRadS c))\<rparr>,
          V3 sx sy 0))"

text \<open>The default argument: straight up.\<close>

definition DEFAULT_UP_WORLD :: "f32 vec3" where "DEFAULT_UP_WORLD = V3 0 0 (lit 1 1)"

section \<open>Vertical controller\<close>

definition DEFAULT_HOVER_COLLECTIVE :: f32 where "DEFAULT_HOVER_COLLECTIVE = lit 52 100"
definition VERTICAL_DEFAULT_KP :: f32 where "VERTICAL_DEFAULT_KP = lit 1 10"
definition VERTICAL_DEFAULT_KI :: f32 where "VERTICAL_DEFAULT_KI = lit 5 100"
definition VERTICAL_INTEGRAL_LIMIT :: f32 where "VERTICAL_INTEGRAL_LIMIT = lit 2 10"

record vertical_controller =
  vc_hoverCollective :: f32
  vc_kp :: f32
  vc_ki :: f32
  vc_integral :: f32
  vc_setpointMps :: f32
  vc_measuredMps :: f32
  vc_errorMps :: f32
  vc_pTerm :: f32
  vc_output :: f32

definition VerticalController_init :: vertical_controller where
  "VerticalController_init =
     \<lparr>vc_hoverCollective = DEFAULT_HOVER_COLLECTIVE, vc_kp = VERTICAL_DEFAULT_KP,
      vc_ki = VERTICAL_DEFAULT_KI, vc_integral = 0, vc_setpointMps = 0, vc_measuredMps = 0,
      vc_errorMps = 0, vc_pTerm = 0, vc_output = 0\<rparr>"

definition VerticalController_setHoverCollective ::
  "vertical_controller \<Rightarrow> f32 \<Rightarrow> vertical_controller" where
  "VerticalController_setHoverCollective c v = c\<lparr>vc_hoverCollective := v\<rparr>"

definition VerticalController_setKp :: "vertical_controller \<Rightarrow> f32 \<Rightarrow> vertical_controller" where
  "VerticalController_setKp c kp = c\<lparr>vc_kp := kp\<rparr>"

definition VerticalController_setKi :: "vertical_controller \<Rightarrow> f32 \<Rightarrow> vertical_controller" where
  "VerticalController_setKi c ki = c\<lparr>vc_ki := ki\<rparr>"

definition VerticalController_update ::
  "vertical_controller \<Rightarrow> f32 \<Rightarrow> f32 \<Rightarrow> f32 \<Rightarrow> vertical_controller \<times> f32" where
  "VerticalController_update c setpointMps verticalVelocityMps dt =
     (let err = setpointMps - verticalVelocityMps;
          i0 = vc_integral c + vc_ki c * err * dt;
          i1 = (if i0 > VERTICAL_INTEGRAL_LIMIT then VERTICAL_INTEGRAL_LIMIT
                else if i0 < - VERTICAL_INTEGRAL_LIMIT then - VERTICAL_INTEGRAL_LIMIT
                else i0);
          pTerm = vc_kp c * err;
          c0 = vc_hoverCollective c + pTerm + i1;
          c1 = (if c0 < 0 then 0 else c0);
          collective = (if c1 > lit 1 1 then lit 1 1 else c1)
      in (c\<lparr>vc_integral := i1, vc_setpointMps := setpointMps, vc_measuredMps := verticalVelocityMps,
            vc_errorMps := err, vc_pTerm := pTerm, vc_output := collective\<rparr>,
          collective))"

definition VerticalController_reset :: "vertical_controller \<Rightarrow> vertical_controller" where
  "VerticalController_reset c =
     c\<lparr>vc_integral := 0, vc_setpointMps := 0, vc_measuredMps := 0, vc_errorMps := 0,
       vc_pTerm := 0, vc_output := 0\<rparr>"

section \<open>Stick mapper\<close>

definition DEFAULT_RATE_ROLL_PITCH_RADS :: f32 where "DEFAULT_RATE_ROLL_PITCH_RADS = lit 35 10"
definition DEFAULT_RATE_YAW_RADS :: f32 where "DEFAULT_RATE_YAW_RADS = lit 26 10"
definition DEFAULT_TILT_MAX_RAD :: f32 where "DEFAULT_TILT_MAX_RAD = lit 5 10"
definition DEFAULT_DEADBAND :: f32 where "DEFAULT_DEADBAND = lit 5 100"
definition MIN_HEADING_NORM :: f32 where "MIN_HEADING_NORM = lit 1 1000"

record stick_mapper =
  sm_rateRollPitchRadS :: f32
  sm_rateYawRadS :: f32
  sm_tiltMaxRad :: f32
  sm_tanTiltMax :: f32
  sm_deadband :: f32

definition StickMapper_init :: "fpenv \<Rightarrow> stick_mapper" where
  "StickMapper_init fe =
     \<lparr>sm_rateRollPitchRadS = DEFAULT_RATE_ROLL_PITCH_RADS, sm_rateYawRadS = DEFAULT_RATE_YAW_RADS,
      sm_tiltMaxRad = DEFAULT_TILT_MAX_RAD, sm_tanTiltMax = fe_tan fe DEFAULT_TILT_MAX_RAD,
      sm_deadband = DEFAULT_DEADBAND\<rparr>"

definition StickMapper_setRateRollPitch :: "stick_mapper \<Rightarrow> f32 \<Rightarrow> stick_mapper" where
  "StickMapper_setRateRollPitch m v = m\<lparr>sm_rateRollPitchRadS := v\<rparr>"

definition StickMapper_setRateYaw :: "stick_mapper \<Rightarrow> f32 \<Rightarrow> stick_mapper" where
  "StickMapper_setRateYaw m v = m\<lparr>sm_rateYawRadS := v\<rparr>"

definition StickMapper_setTiltMax :: "fpenv \<Rightarrow> stick_mapper \<Rightarrow> f32 \<Rightarrow> stick_mapper" where
  "StickMapper_setTiltMax fe m tiltRad = m\<lparr>sm_tiltMaxRad := tiltRad, sm_tanTiltMax := fe_tan fe tiltRad\<rparr>"

definition StickMapper_setDeadband :: "stick_mapper \<Rightarrow> f32 \<Rightarrow> stick_mapper" where
  "StickMapper_setDeadband m v = m\<lparr>sm_deadband := v\<rparr>"

definition StickMapper_deflection :: "stick_mapper \<Rightarrow> f32 \<Rightarrow> f32" where
  "StickMapper_deflection m stick =
     (let magnitude = (if stick < 0 then - stick else stick)
      in if magnitude \<le> sm_deadband m then 0
         else let s0 = (magnitude - sm_deadband m) / (lit 1 1 - sm_deadband m);
                  scaled = (if s0 > lit 1 1 then lit 1 1 else s0)
              in if stick < 0 then - scaled else scaled)"

definition StickMapper_rateSetpointRadS :: "stick_mapper \<Rightarrow> rc_input \<Rightarrow> f32 vec3" where
  "StickMapper_rateSetpointRadS m rc =
     V3 (StickMapper_deflection m (rc_roll rc) * sm_rateRollPitchRadS m)
        (StickMapper_deflection m (rc_pitch rc) * sm_rateRollPitchRadS m)
        (- StickMapper_deflection m (rc_yaw rc) * sm_rateYawRadS m)"

definition StickMapper_yawRateRadS :: "stick_mapper \<Rightarrow> rc_input \<Rightarrow> f32" where
  "StickMapper_yawRateRadS m rc = - StickMapper_deflection m (rc_yaw rc) * sm_rateYawRadS m"

definition StickMapper_desiredUpWorld :: "stick_mapper \<Rightarrow> rc_input \<Rightarrow> quaternion \<Rightarrow> f32 vec3" where
  "StickMapper_desiredUpWorld m rc q =
     (let f0 = StickMapper_deflection m (rc_pitch rc) * sm_tanTiltMax m;
          r0 = StickMapper_deflection m (rc_roll rc) * sm_tanTiltMax m;
          lean = sqrtf (f0 * f0 + r0 * r0);
          forward = (if lean > sm_tanTiltMax m then f0 * (sm_tanTiltMax m / lean) else f0);
          right = (if lean > sm_tanTiltMax m then r0 * (sm_tanTiltMax m / lean) else r0);
          noseX = lit 1 1 - lit 2 1 * (q_y q * q_y q + q_z q * q_z q);
          noseY = lit 2 1 * (q_x q * q_y q + q_w q * q_z q);
          headingNorm = sqrtf (noseX * noseX + noseY * noseY);
          cosHeading = (if headingNorm > MIN_HEADING_NORM then noseX / headingNorm else lit 1 1);
          sinHeading = (if headingNorm > MIN_HEADING_NORM then noseY / headingNorm else 0);
          hx = forward;
          hy = - right;
          worldX = cosHeading * hx - sinHeading * hy;
          worldY = sinHeading * hx + cosHeading * hy;
          invNorm = lit 1 1 / sqrtf (worldX * worldX + worldY * worldY + lit 1 1)
      in V3 (worldX * invNorm) (worldY * invNorm) invNorm)"

end
