(* ===== verification/Flight_Estimators.thy ===== *)
theory Flight_Estimators
  imports Flight_Control
begin

text \<open>
  The estimation side of the flight core: the Mahony attitude estimator
  (\<^verbatim>\<open>attitude_estimator.cpp\<close>), the vertical complementary filter
  (\<^verbatim>\<open>vertical_estimator.cpp\<close>) and the throw detector (\<^verbatim>\<open>throw_detector.cpp\<close>),
  with the bounds their state keeps.
\<close>

section \<open>Attitude estimator\<close>

definition AHRS_DEFAULT_KP :: f32 where "AHRS_DEFAULT_KP = lit 2 1"
definition AHRS_DEFAULT_KI :: f32 where "AHRS_DEFAULT_KI = lit 1 10"
definition ACCEL_GATE_MPS2 :: f32 where "ACCEL_GATE_MPS2 = lit 1 1"
definition GYRO_QUIET_RADS :: f32 where "GYRO_QUIET_RADS = lit 15 10"
definition BIAS_LIMIT_RADS :: f32 where "BIAS_LIMIT_RADS = lit 5 100"
definition KI_ERROR_GATE_SIN :: f32 where "KI_ERROR_GATE_SIN = lit 17 100"

record attitude_estimator =
  ae_kp :: f32
  ae_ki :: f32
  ae_attitude :: quaternion
  ae_integralFb :: "f32 vec3"
  ae_eulerRad :: "f32 vec3"
  ae_gyroBiasRadS :: "f32 vec3"

definition AttitudeEstimator_init :: attitude_estimator where
  "AttitudeEstimator_init =
     \<lparr>ae_kp = AHRS_DEFAULT_KP, ae_ki = AHRS_DEFAULT_KI, ae_attitude = Quaternion_init,
      ae_integralFb = zero3, ae_eulerRad = zero3, ae_gyroBiasRadS = zero3\<rparr>"

definition AttitudeEstimator_setKp :: "attitude_estimator \<Rightarrow> f32 \<Rightarrow> attitude_estimator" where
  "AttitudeEstimator_setKp e kp = e\<lparr>ae_kp := kp\<rparr>"

definition AttitudeEstimator_setKi :: "attitude_estimator \<Rightarrow> f32 \<Rightarrow> attitude_estimator" where
  "AttitudeEstimator_setKi e ki = e\<lparr>ae_ki := ki\<rparr>"

definition AttitudeEstimator_gyroBiasRadS :: "attitude_estimator \<Rightarrow> f32 vec3" where
  "AttitudeEstimator_gyroBiasRadS e = axes (\<lambda>axis. - vnth (ae_integralFb e) axis)"

text \<open>The euclidean norm of three components, as the code writes it out everywhere.\<close>

definition norm3 :: "f32 vec3 \<Rightarrow> f32" where
  "norm3 v = sqrtf (vnth v 0 * vnth v 0 + vnth v 1 * vnth v 1 + vnth v 2 * vnth v 2)"

text \<open>
  The z component of the body up axis in the world, \<^verbatim>\<open>q.w * q.w - q.x * q.x -
  q.y * q.y + q.z * q.z\<close>.
\<close>

definition up_z :: "quaternion \<Rightarrow> f32" where
  "up_z q = q_w q * q_w q - q_x q * q_x q - q_y q * q_y q + q_z q * q_z q"

text \<open>The gravity direction error of the accelerometer against the estimate.\<close>

definition gravity_error :: "quaternion \<Rightarrow> f32 vec3 \<Rightarrow> f32 \<Rightarrow> f32 vec3" where
  "gravity_error q accel accelNorm =
     (let inv = lit 1 1 / accelNorm;
          ax = vnth accel 0 * inv; ay = vnth accel 1 * inv; az = vnth accel 2 * inv;
          hx = lit 2 1 * (q_x q * q_z q - q_w q * q_y q);
          hy = lit 2 1 * (q_w q * q_x q + q_y q * q_z q);
          hz = up_z q
      in V3 (ay * hz - az * hy) (az * hx - ax * hz) (ax * hy - ay * hx))"

text \<open>One axis of the bias integrator: advance, then clamp from above and from below.\<close>

definition bias_axis :: "f32 \<Rightarrow> f32 \<Rightarrow> f32 \<Rightarrow> f32 \<Rightarrow> f32" where
  "bias_axis ki fb e dtS =
     (let i0 = fb + ki * e * dtS;
          i1 = (if i0 > BIAS_LIMIT_RADS then BIAS_LIMIT_RADS else i0)
      in if i1 < - BIAS_LIMIT_RADS then - BIAS_LIMIT_RADS else i1)"

definition bias_update :: "f32 \<Rightarrow> f32 vec3 \<Rightarrow> f32 vec3 \<Rightarrow> f32 \<Rightarrow> f32 vec3" where
  "bias_update ki fb e dtS =
     (if vnth e 0 * vnth e 0 + vnth e 1 * vnth e 1 + vnth e 2 * vnth e 2
           < KI_ERROR_GATE_SIN * KI_ERROR_GATE_SIN
      then axes (\<lambda>axis. bias_axis ki (vnth fb axis) (vnth e axis) dtS)
      else fb)"

text \<open>One step of the quaternion along the body rates, normalized.\<close>

definition quat_integrate :: "quaternion \<Rightarrow> f32 \<Rightarrow> f32 \<Rightarrow> f32 \<Rightarrow> f32 \<Rightarrow> quaternion" where
  "quat_integrate q wx wy wz dtS =
     (let half = lit 5 10 * dtS;
          w = q_w q + half * (- q_x q * wx - q_y q * wy - q_z q * wz);
          x = q_x q + half * (q_w q * wx + q_y q * wz - q_z q * wy);
          y = q_y q + half * (q_w q * wy - q_x q * wz + q_z q * wx);
          z = q_z q + half * (q_w q * wz + q_x q * wy - q_y q * wx);
          norm = sqrtf (w * w + x * x + y * y + z * z);
          invNorm = lit 1 1 / norm
      in \<lparr>q_w = w * invNorm, q_x = x * invNorm, q_y = y * invNorm, q_z = z * invNorm\<rparr>)"

definition AttitudeEstimator_refreshTelemetry :: "fpenv \<Rightarrow> attitude_estimator \<Rightarrow> attitude_estimator" where
  "AttitudeEstimator_refreshTelemetry fe e =
     (let q = ae_attitude e;
          rollY = lit 2 1 * (q_w q * q_x q + q_y q * q_z q);
          rollX = lit 1 1 - lit 2 1 * (q_x q * q_x q + q_y q * q_y q);
          sinPitch = lit 2 1 * (q_w q * q_y q - q_z q * q_x q);
          yawY = lit 2 1 * (q_w q * q_z q + q_x q * q_y q);
          yawX = lit 1 1 - lit 2 1 * (q_y q * q_y q + q_z q * q_z q);
          clamped = (if sinPitch > lit 1 1 then lit 1 1
                     else if sinPitch < - lit 1 1 then - lit 1 1 else sinPitch)
      in e\<lparr>ae_eulerRad := V3 (fe_atan2 fe rollY rollX) (fe_asin fe clamped) (fe_atan2 fe yawY yawX),
           ae_gyroBiasRadS := axes (\<lambda>axis. - vnth (ae_integralFb e) axis)\<rparr>)"

definition AttitudeEstimator_update ::
  "fpenv \<Rightarrow> attitude_estimator \<Rightarrow> sensor_frame \<Rightarrow> f32 \<Rightarrow> bool \<Rightarrow> attitude_estimator" where
  "AttitudeEstimator_update fe e frame dtS allowAccelCorrection =
     (if dtS \<le> 0 then e
      else let gyro = sf_gyroRadS frame;
               gyroNorm = norm3 gyro;
               accelNorm = norm3 (sf_accelMps2 frame);
               q = ae_attitude e;
               trusted = (allowAccelCorrection \<and> gyroNorm < GYRO_QUIET_RADS
                          \<and> fabsf (accelNorm - GRAVITY_MPS2) < ACCEL_GATE_MPS2);
               err = (if trusted then gravity_error q (sf_accelMps2 frame) accelNorm else zero3);
               fb = (if trusted then bias_update (ae_ki e) (ae_integralFb e) err dtS
                     else ae_integralFb e);
               w = (\<lambda>axis. vnth gyro axis + vnth fb axis + ae_kp e * vnth err axis)
           in AttitudeEstimator_refreshTelemetry fe
                (e\<lparr>ae_integralFb := fb, ae_attitude := quat_integrate q (w 0) (w 1) (w 2) dtS\<rparr>))"

section \<open>Vertical estimator\<close>

definition DEFAULT_ALTITUDE_GAIN :: f32 where "DEFAULT_ALTITUDE_GAIN = lit 28 10"
definition DEFAULT_VELOCITY_GAIN :: f32 where "DEFAULT_VELOCITY_GAIN = lit 4 1"
definition REFERENCE_SAMPLES :: u32 where "REFERENCE_SAMPLES = 50"
definition REFERENCE_ACCEL_GATE_MPS2 :: f32 where "REFERENCE_ACCEL_GATE_MPS2 = lit 1 1"
definition REFERENCE_GYRO_QUIET_RADS :: f32 where "REFERENCE_GYRO_QUIET_RADS = lit 15 10"
definition MIN_PLAUSIBLE_PA :: f32 where "MIN_PLAUSIBLE_PA = lit 30000 1"
definition MAX_PLAUSIBLE_PA :: f32 where "MAX_PLAUSIBLE_PA = lit 110000 1"
definition MAX_INNOVATION_M :: f32 where "MAX_INNOVATION_M = lit 2 1"
definition HORIZONTAL_LEAK_S :: f32 where "HORIZONTAL_LEAK_S = lit 8 1"
definition SEA_LEVEL_PRESSURE_PA :: f32 where "SEA_LEVEL_PRESSURE_PA = lit 101325 1"
definition ATMOSPHERE_LAPSE_PER_M :: f32 where "ATMOSPHERE_LAPSE_PER_M = lit 225577 10000000000"
definition ATMOSPHERE_EXPONENT_INV :: f32 where "ATMOSPHERE_EXPONENT_INV = lit 1 1 / lit 525588 100000"
definition MIN_PRESSURE_PA :: f32 where "MIN_PRESSURE_PA = lit 1000 1"

record vertical_estimator =
  ve_altitudeGain :: f32
  ve_velocityGain :: f32
  ve_altitudeM :: f32
  ve_baroAltitudeM :: f32
  ve_velocityMps :: f32
  ve_horizontalX :: f32
  ve_horizontalY :: f32
  ve_referenceAltitudeM :: f32
  ve_referenceSumM :: f32
  ve_referenceCount :: u32
  ve_ready :: bool

definition VerticalEstimator_init :: vertical_estimator where
  "VerticalEstimator_init =
     \<lparr>ve_altitudeGain = DEFAULT_ALTITUDE_GAIN, ve_velocityGain = DEFAULT_VELOCITY_GAIN,
      ve_altitudeM = 0, ve_baroAltitudeM = 0, ve_velocityMps = 0, ve_horizontalX = 0,
      ve_horizontalY = 0, ve_referenceAltitudeM = 0, ve_referenceSumM = 0,
      ve_referenceCount = 0, ve_ready = False\<rparr>"

definition VerticalEstimator_setAltitudeGain :: "vertical_estimator \<Rightarrow> f32 \<Rightarrow> vertical_estimator" where
  "VerticalEstimator_setAltitudeGain e g = e\<lparr>ve_altitudeGain := g\<rparr>"

definition VerticalEstimator_setVelocityGain :: "vertical_estimator \<Rightarrow> f32 \<Rightarrow> vertical_estimator" where
  "VerticalEstimator_setVelocityGain e g = e\<lparr>ve_velocityGain := g\<rparr>"

definition PressureAltitudeM :: "fpenv \<Rightarrow> f32 \<Rightarrow> f32" where
  "PressureAltitudeM fe pressurePa =
     (let clampedPa = (if pressurePa < MIN_PRESSURE_PA then MIN_PRESSURE_PA else pressurePa);
          ratio = clampedPa / SEA_LEVEL_PRESSURE_PA
      in (lit 1 1 - fe_pow fe ratio ATMOSPHERE_EXPONENT_INV) / ATMOSPHERE_LAPSE_PER_M)"

definition baro_plausible :: "sensor_frame \<Rightarrow> bool" where
  "baro_plausible frame \<longleftrightarrow>
     sf_baroValid frame \<and> MIN_PLAUSIBLE_PA \<le> sf_baroPa frame \<and> sf_baroPa frame \<le> MAX_PLAUSIBLE_PA"

definition frame_resting :: "sensor_frame \<Rightarrow> bool" where
  "frame_resting frame \<longleftrightarrow>
     fabsf (norm3 (sf_accelMps2 frame) - GRAVITY_MPS2) < REFERENCE_ACCEL_GATE_MPS2
     \<and> norm3 (sf_gyroRadS frame) < REFERENCE_GYRO_QUIET_RADS"

text \<open>The capture of the reference, before the estimate runs.\<close>

definition reference_capture ::
  "vertical_estimator \<Rightarrow> sensor_frame \<Rightarrow> f32 \<Rightarrow> vertical_estimator" where
  "reference_capture e frame baroAltitudeM =
     (if \<not> baro_plausible frame \<or> \<not> frame_resting frame then e
      else let total_m = ve_referenceSumM e + baroAltitudeM;
               n = ve_referenceCount e + 1;
               e1 = e\<lparr>ve_referenceSumM := total_m, ve_referenceCount := n\<rparr>
           in if n \<ge> REFERENCE_SAMPLES
              then e1\<lparr>ve_referenceAltitudeM := total_m / float_of n, ve_ready := True\<rparr>
              else e1)"

text \<open>The prediction from the specific force rotated into the world frame.\<close>

definition vertical_predict ::
  "vertical_estimator \<Rightarrow> f32 vec3 \<Rightarrow> f32 \<Rightarrow> quaternion \<Rightarrow> vertical_estimator" where
  "vertical_predict e accel dtS q =
     (let ax = vnth accel 0; ay = vnth accel 1; az = vnth accel 2;
          accelWorldX = (lit 1 1 - lit 2 1 * (q_y q * q_y q + q_z q * q_z q)) * ax
                        + lit 2 1 * (q_x q * q_y q - q_w q * q_z q) * ay
                        + lit 2 1 * (q_x q * q_z q + q_w q * q_y q) * az;
          accelWorldY = lit 2 1 * (q_x q * q_y q + q_w q * q_z q) * ax
                        + (lit 1 1 - lit 2 1 * (q_x q * q_x q + q_z q * q_z q)) * ay
                        + lit 2 1 * (q_y q * q_z q - q_w q * q_x q) * az;
          accelWorldZ = lit 2 1 * (q_x q * q_z q - q_w q * q_y q) * ax
                        + lit 2 1 * (q_y q * q_z q + q_w q * q_x q) * ay
                        + (lit 1 1 - lit 2 1 * (q_x q * q_x q + q_y q * q_y q)) * az;
          verticalAccel = accelWorldZ - GRAVITY_MPS2;
          velocity = ve_velocityMps e + verticalAccel * dtS
      in e\<lparr>ve_horizontalX := ve_horizontalX e + (accelWorldX - ve_horizontalX e / HORIZONTAL_LEAK_S) * dtS,
           ve_horizontalY := ve_horizontalY e + (accelWorldY - ve_horizontalY e / HORIZONTAL_LEAK_S) * dtS,
           ve_velocityMps := velocity,
           ve_altitudeM := ve_altitudeM e + velocity * dtS\<rparr>)"

definition clamp_innovation :: "f32 \<Rightarrow> f32" where
  "clamp_innovation errorM =
     (let e1 = (if errorM > MAX_INNOVATION_M then MAX_INNOVATION_M else errorM)
      in if e1 < - MAX_INNOVATION_M then - MAX_INNOVATION_M else e1)"

definition VerticalEstimator_update ::
  "fpenv \<Rightarrow> vertical_estimator \<Rightarrow> sensor_frame \<Rightarrow> f32 \<Rightarrow> quaternion \<Rightarrow> vertical_estimator" where
  "VerticalEstimator_update fe e frame dtS q =
     (let baroAltitudeM = PressureAltitudeM fe (sf_baroPa frame)
      in if \<not> ve_ready e then reference_capture e frame baroAltitudeM
         else let e1 = (if baro_plausible frame
                        then e\<lparr>ve_baroAltitudeM := baroAltitudeM - ve_referenceAltitudeM e\<rparr> else e)
              in if dtS \<le> 0 then e1
                 else let e2 = vertical_predict e1 (sf_accelMps2 frame) dtS q
                      in if \<not> baro_plausible frame then e2
                         else let errorM = clamp_innovation
                                    ((baroAltitudeM - ve_referenceAltitudeM e2) - ve_altitudeM e2)
                              in e2\<lparr>ve_altitudeM := ve_altitudeM e2 + ve_altitudeGain e2 * errorM * dtS,
                                    ve_velocityMps := ve_velocityMps e2 + ve_velocityGain e2 * errorM * dtS\<rparr>)"

section \<open>Throw detector\<close>

datatype throw_state = TS_IDLE | TS_THRUST | TS_BALLISTIC

definition THRUST_THRESHOLD_MPS2 :: f32 where "THRUST_THRESHOLD_MPS2 = lit 2 1 * GRAVITY_MPS2"
definition FREE_FALL_THRESHOLD_MPS2 :: f32 where "FREE_FALL_THRESHOLD_MPS2 = lit 3 10 * GRAVITY_MPS2"
definition BALLISTIC_EXIT_MPS2 :: f32 where "BALLISTIC_EXIT_MPS2 = lit 5 10 * GRAVITY_MPS2"
definition THRUST_MIN_US :: u64 where "THRUST_MIN_US = 40000"
definition FREE_FALL_CONFIRM_US :: u64 where "FREE_FALL_CONFIRM_US = 50000"
definition RELEASE_TIMEOUT_US :: u64 where "RELEASE_TIMEOUT_US = 300000"
definition BALLISTIC_EXIT_CONFIRM_US :: u64 where "BALLISTIC_EXIT_CONFIRM_US = 100000"
definition MIN_RELEASE_VELOCITY_MPS :: f32 where "MIN_RELEASE_VELOCITY_MPS = lit 2 1"
definition THROW_US_PER_S :: f32 where "THROW_US_PER_S = lit 1000000 1"
definition TWO_G_MPS2 :: f32 where "TWO_G_MPS2 = lit 2 1 * GRAVITY_MPS2"

record throw_detector =
  td_state :: throw_state
  td_thrustStartUs :: u64
  td_thrustLastUs :: u64
  td_inFreeFallStreak :: bool
  td_freeFallStartUs :: u64
  td_inExitStreak :: bool
  td_exitStartUs :: u64
  td_candidateVelocityMps :: f32
  td_candidateAltitudeM :: f32
  td_throwCount :: u32
  td_releaseVelocityMps :: f32
  td_releaseTimestampUs :: u64
  td_apexTimestampUs :: u64
  td_apexAltitudeM :: f32

definition ThrowDetector_init :: throw_detector where
  "ThrowDetector_init =
     \<lparr>td_state = TS_IDLE, td_thrustStartUs = 0, td_thrustLastUs = 0, td_inFreeFallStreak = False,
      td_freeFallStartUs = 0, td_inExitStreak = False, td_exitStartUs = 0,
      td_candidateVelocityMps = 0, td_candidateAltitudeM = 0, td_throwCount = 0,
      td_releaseVelocityMps = 0, td_releaseTimestampUs = 0, td_apexTimestampUs = 0,
      td_apexAltitudeM = 0\<rparr>"

definition ThrowDetector_reset :: "throw_detector \<Rightarrow> throw_detector" where
  "ThrowDetector_reset d =
     d\<lparr>td_state := TS_IDLE, td_thrustStartUs := 0, td_thrustLastUs := 0,
       td_inFreeFallStreak := False, td_inExitStreak := False\<rparr>"

text \<open>The release: the throw is counted and its apex predicted.\<close>

definition throw_release :: "fpenv \<Rightarrow> throw_detector \<Rightarrow> throw_detector" where
  "throw_release fe d =
     d\<lparr>td_throwCount := td_throwCount d + 1,
       td_releaseVelocityMps := td_candidateVelocityMps d,
       td_releaseTimestampUs := td_freeFallStartUs d,
       td_apexTimestampUs := td_freeFallStartUs d
          + u64_of_float fe (td_candidateVelocityMps d / GRAVITY_MPS2 * THROW_US_PER_S),
       td_apexAltitudeM := td_candidateAltitudeM d
          + td_candidateVelocityMps d * td_candidateVelocityMps d / TWO_G_MPS2,
       td_state := TS_BALLISTIC, td_inExitStreak := False\<rparr>"

definition ThrowDetector_update ::
  "fpenv \<Rightarrow> throw_detector \<Rightarrow> sensor_frame \<Rightarrow> f32 \<Rightarrow> f32 \<Rightarrow> throw_detector" where
  "ThrowDetector_update fe d frame verticalVelocityMps altitudeM =
     (let norm = norm3 (sf_accelMps2 frame); now = sf_timestampUs frame
      in case td_state d of
           TS_IDLE \<Rightarrow>
             if norm \<ge> THRUST_THRESHOLD_MPS2
             then d\<lparr>td_state := TS_THRUST, td_thrustStartUs := now, td_thrustLastUs := now,
                    td_inFreeFallStreak := False\<rparr>
             else d
         | TS_THRUST \<Rightarrow>
             if norm \<ge> THRUST_THRESHOLD_MPS2
             then d\<lparr>td_thrustLastUs := now, td_inFreeFallStreak := False\<rparr>
             else if norm < FREE_FALL_THRESHOLD_MPS2
             then if \<not> td_inFreeFallStreak d
                  then d\<lparr>td_inFreeFallStreak := True, td_freeFallStartUs := now,
                         td_candidateVelocityMps := verticalVelocityMps,
                         td_candidateAltitudeM := altitudeM\<rparr>
                  else if now - td_freeFallStartUs d \<ge> FREE_FALL_CONFIRM_US
                  then if td_thrustLastUs d - td_thrustStartUs d \<ge> THRUST_MIN_US
                          \<and> td_candidateVelocityMps d \<ge> MIN_RELEASE_VELOCITY_MPS
                       then throw_release fe d
                       else ThrowDetector_reset d
                  else d
             else let d1 = d\<lparr>td_inFreeFallStreak := False\<rparr>
                  in if now - td_thrustLastUs d1 \<ge> RELEASE_TIMEOUT_US
                     then ThrowDetector_reset d1 else d1
         | TS_BALLISTIC \<Rightarrow>
             if norm \<ge> BALLISTIC_EXIT_MPS2
             then if \<not> td_inExitStreak d then d\<lparr>td_inExitStreak := True, td_exitStartUs := now\<rparr>
                  else if now - td_exitStartUs d \<ge> BALLISTIC_EXIT_CONFIRM_US
                  then ThrowDetector_reset d
                  else d
             else d\<lparr>td_inExitStreak := False\<rparr>)"

end
