(* ===== verification/Throw_Signature.thy ===== *)
theory Throw_Signature
  imports Flight_Estimators
begin

text \<open>
  What the throw detector must have seen before it counts a throw, over any
  sequence of samples with increasing timestamps, and what it accepts as a
  sustained thrust.
\<close>

type_synonym throw_sample = "sensor_frame \<times> f32 \<times> f32"

abbreviation sample_t :: "throw_sample \<Rightarrow> u64" where "sample_t s \<equiv> sf_timestampUs (fst s)"
abbreviation sample_norm :: "throw_sample \<Rightarrow> f32" where "sample_norm s \<equiv> norm3 (sf_accelMps2 (fst s))"
abbreviation sample_v :: "throw_sample \<Rightarrow> f32" where "sample_v s \<equiv> fst (snd s)"

definition throw_run :: "fpenv \<Rightarrow> throw_sample list \<Rightarrow> throw_detector" where
  "throw_run fe xs = foldl (\<lambda>d (f, v, a). ThrowDetector_update fe d f v a) ThrowDetector_init xs"

lemma throw_run_snoc [simp]:
  "throw_run fe (xs @ [x]) = ThrowDetector_update fe (throw_run fe xs) (fst x) (fst (snd x)) (snd (snd x))"
  by (simp add: throw_run_def split_beta)

text \<open>The thrust the detector remembers, and the free fall streak after it.\<close>

definition thrust_seen :: "throw_sample list \<Rightarrow> throw_detector \<Rightarrow> nat \<Rightarrow> nat \<Rightarrow> bool" where
  "thrust_seen xs d i j \<longleftrightarrow> i \<le> j \<and> j < length xs
     \<and> sample_norm (xs ! i) \<ge> THRUST_THRESHOLD_MPS2 \<and> sample_norm (xs ! j) \<ge> THRUST_THRESHOLD_MPS2
     \<and> sample_t (xs ! i) = td_thrustStartUs d \<and> sample_t (xs ! j) = td_thrustLastUs d"

definition fall_seen :: "throw_sample list \<Rightarrow> throw_detector \<Rightarrow> nat \<Rightarrow> nat \<Rightarrow> bool" where
  "fall_seen xs d j k \<longleftrightarrow> j < k \<and> k < length xs
     \<and> sample_t (xs ! k) = td_freeFallStartUs d \<and> sample_v (xs ! k) = td_candidateVelocityMps d
     \<and> (\<forall>l. k \<le> l \<and> l < length xs \<longrightarrow> sample_norm (xs ! l) < FREE_FALL_THRESHOLD_MPS2)"

definition signature_inv :: "throw_sample list \<Rightarrow> throw_detector \<Rightarrow> bool" where
  "signature_inv xs d \<longleftrightarrow>
     td_state d = TS_THRUST \<longrightarrow>
       (\<exists>i j. thrust_seen xs d i j \<and> (td_inFreeFallStreak d \<longrightarrow> (\<exists>k. fall_seen xs d j k)))"

lemma thrust_seen_snoc:
  "thrust_seen xs d i j \<Longrightarrow> td_thrustStartUs d' = td_thrustStartUs d \<Longrightarrow>
   td_thrustLastUs d' = td_thrustLastUs d \<Longrightarrow> thrust_seen (xs @ [x]) d' i j"
  by (auto simp: thrust_seen_def nth_append)

lemma fall_seen_snoc:
  "fall_seen xs d j k \<Longrightarrow> sample_norm x < FREE_FALL_THRESHOLD_MPS2 \<Longrightarrow>
   td_freeFallStartUs d' = td_freeFallStartUs d \<Longrightarrow>
   td_candidateVelocityMps d' = td_candidateVelocityMps d \<Longrightarrow> fall_seen (xs @ [x]) d' j k"
  by (auto simp: fall_seen_def nth_append)

lemma signature_inv_thrust:
  assumes "signature_inv xs d" "td_state d = TS_THRUST"
  shows "signature_inv (xs @ [x]) (ThrowDetector_update fe d (fst x) (sample_v x) a)"
proof -
  let ?d = "ThrowDetector_update fe d (fst x) (sample_v x) a" and ?now = "sample_t x"
  note upd = ThrowDetector_update_def Let_def assms(2)
  from assms obtain i j where ij: "thrust_seen xs d i j"
    and fall: "td_inFreeFallStreak d \<Longrightarrow> \<exists>k. fall_seen xs d j k" by (auto simp: signature_inv_def)
  consider (Thrust) "sample_norm x \<ge> THRUST_THRESHOLD_MPS2"
    | (Start) "\<not> sample_norm x \<ge> THRUST_THRESHOLD_MPS2" "sample_norm x < FREE_FALL_THRESHOLD_MPS2"
        "\<not> td_inFreeFallStreak d"
    | (Streak) "\<not> sample_norm x \<ge> THRUST_THRESHOLD_MPS2" "sample_norm x < FREE_FALL_THRESHOLD_MPS2"
        "td_inFreeFallStreak d"
    | (Between) "\<not> sample_norm x \<ge> THRUST_THRESHOLD_MPS2" "\<not> sample_norm x < FREE_FALL_THRESHOLD_MPS2"
    by blast
  then show ?thesis
  proof cases
    case Thrust
    then have d: "?d = d\<lparr>td_thrustLastUs := ?now, td_inFreeFallStreak := False\<rparr>" by (simp add: upd)
    have "thrust_seen (xs @ [x]) ?d i (length xs)"
      using ij Thrust by (auto simp: thrust_seen_def d nth_append)
    then show ?thesis by (auto simp: signature_inv_def d)
  next
    case Start
    then have d: "?d = d\<lparr>td_inFreeFallStreak := True, td_freeFallStartUs := ?now,
        td_candidateVelocityMps := sample_v x, td_candidateAltitudeM := a\<rparr>" by (simp add: upd)
    have "thrust_seen (xs @ [x]) ?d i j" by (rule thrust_seen_snoc[OF ij]) (simp_all add: d)
    moreover have "fall_seen (xs @ [x]) ?d j (length xs)"
      using ij Start by (auto simp: fall_seen_def thrust_seen_def d nth_append)
    ultimately show ?thesis by (auto simp: signature_inv_def)
  next
    case Streak
    from fall[OF Streak(3)] obtain k where k: "fall_seen xs d j k" ..
    show ?thesis
    proof (cases "?now - td_freeFallStartUs d \<ge> FREE_FALL_CONFIRM_US")
      case True
      then have "td_state ?d \<noteq> TS_THRUST"
        using Streak by (simp add: upd throw_release_def ThrowDetector_reset_def)
      then show ?thesis by (simp add: signature_inv_def)
    next
      case False
      then have d: "?d = d" using Streak by (simp add: upd)
      have "thrust_seen (xs @ [x]) ?d i j" by (rule thrust_seen_snoc[OF ij]) (simp_all add: d)
      moreover have "fall_seen (xs @ [x]) ?d j k"
        by (rule fall_seen_snoc[OF k]) (use Streak in \<open>simp_all add: d\<close>)
      ultimately show ?thesis by (auto simp: signature_inv_def)
    qed
  next
    case Between
    show ?thesis
    proof (cases "?now - td_thrustLastUs d \<ge> RELEASE_TIMEOUT_US")
      case True
      then show ?thesis using Between by (simp add: signature_inv_def upd ThrowDetector_reset_def)
    next
      case False
      then have d: "?d = d\<lparr>td_inFreeFallStreak := False\<rparr>" using Between by (simp add: upd)
      have "thrust_seen (xs @ [x]) ?d i j" by (rule thrust_seen_snoc[OF ij]) (simp_all add: d)
      then show ?thesis by (auto simp: signature_inv_def d)
    qed
  qed
qed

lemma signature_inv_run: "signature_inv xs (throw_run fe xs)"
proof (induction xs rule: rev_induct)
  case Nil
  show ?case by (simp add: signature_inv_def throw_run_def ThrowDetector_init_def)
next
  case (snoc x xs)
  let ?d = "throw_run fe xs"
  show ?case
  proof (cases "td_state ?d")
    case TS_IDLE
    then show ?thesis
      by (auto simp: signature_inv_def ThrowDetector_update_def Let_def thrust_seen_def nth_append
          intro!: exI[of _ "length xs"])
  next
    case TS_THRUST
    from signature_inv_thrust[OF snoc.IH this] show ?thesis by simp
  next
    case TS_BALLISTIC
    then show ?thesis
      by (simp add: signature_inv_def ThrowDetector_update_def Let_def ThrowDetector_reset_def)
  qed
qed

text \<open>What a sample that counts a throw found in the detector.\<close>

lemma count_requires:
  assumes "td_throwCount (ThrowDetector_update fe d f v a) \<noteq> td_throwCount d"
  shows "td_state d = TS_THRUST" "norm3 (sf_accelMps2 f) < FREE_FALL_THRESHOLD_MPS2"
    "td_inFreeFallStreak d" "sf_timestampUs f - td_freeFallStartUs d \<ge> FREE_FALL_CONFIRM_US"
    "td_thrustLastUs d - td_thrustStartUs d \<ge> THRUST_MIN_US"
    "td_candidateVelocityMps d \<ge> MIN_RELEASE_VELOCITY_MPS"
  using assms
  by (cases "td_state d";
      simp add: ThrowDetector_update_def Let_def ThrowDetector_reset_def split: if_splits)+

text \<open>(C21) A throw is only ever counted on a complete signature, in order: over any sequence of samples with
  increasing timestamps, when the last sample is counted as a throw there are two samples above the
  thrust threshold at least 40 ms apart, then a streak of samples all in free fall that
  lasts at least 50 ms and reaches the last one, and the vertical velocity at the start of that streak was at
  least 2 m/s upward. A drop without thrust is never counted.\<close>

theorem throw_counted_has_signature:
  assumes "sorted_wrt (<) (map sample_t (xs @ [x]))"
    and "td_throwCount (throw_run fe (xs @ [x])) \<noteq> td_throwCount (throw_run fe xs)"
  shows "\<exists>i j k. i \<le> j \<and> j < k \<and> k < length xs
           \<and> sample_norm (xs ! i) \<ge> THRUST_THRESHOLD_MPS2 \<and> sample_norm (xs ! j) \<ge> THRUST_THRESHOLD_MPS2
           \<and> unat (sample_t (xs ! i)) + 40000 \<le> unat (sample_t (xs ! j))
           \<and> (\<forall>l. k \<le> l \<and> l \<le> length xs \<longrightarrow> sample_norm ((xs @ [x]) ! l) < FREE_FALL_THRESHOLD_MPS2)
           \<and> unat (sample_t (xs ! k)) + 50000 \<le> unat (sample_t x)
           \<and> sample_v (xs ! k) \<ge> MIN_RELEASE_VELOCITY_MPS"
proof -
  let ?d = "throw_run fe xs"
  have "td_throwCount (ThrowDetector_update fe ?d (fst x) (fst (snd x)) (snd (snd x))) \<noteq> td_throwCount ?d"
    using assms(2) by simp
  note req = count_requires[OF this]
  from signature_inv_run[of xs fe] req(1,3) obtain i j k
    where ij: "thrust_seen xs ?d i j" and k: "fall_seen xs ?d j k" by (auto simp: signature_inv_def)
  have sorted: "sample_t (xs ! a) < sample_t (xs ! b)" if "a < b" "b < length xs" for a b
    using assms(1) that sorted_wrt_nth_less[of "(<)" "map sample_t xs" a b] by (simp add: sorted_wrt_append)
  have lx: "sample_t (xs ! k) < sample_t x"
    using assms(1) k by (simp add: sorted_wrt_append fall_seen_def del: throw_run_snoc) (metis nth_mem)
  have le: "sample_t (xs ! i) \<le> sample_t (xs ! j)"
    using sorted[of i j] ij by (cases "i = j") (auto simp: thrust_seen_def)
  have "unat (sample_t (xs ! i)) + 40000 \<le> unat (sample_t (xs ! j))"
    using req(5) ij le by (simp add: thrust_seen_def THRUST_MIN_US_def word_le_nat_alt unat_sub)
  moreover have "unat (sample_t (xs ! k)) + 50000 \<le> unat (sample_t x)"
    using req(4) k lx by (simp add: fall_seen_def FREE_FALL_CONFIRM_US_def word_le_nat_alt unat_sub
        word_less_nat_alt)
  moreover have "\<forall>l. k \<le> l \<and> l \<le> length xs \<longrightarrow> sample_norm ((xs @ [x]) ! l) < FREE_FALL_THRESHOLD_MPS2"
    using k req(2) by (auto simp: fall_seen_def nth_append)
  ultimately show ?thesis using ij k req(6)
    by (intro exI[of _ i] exI[of _ j] exI[of _ k]) (auto simp: thrust_seen_def fall_seen_def)
qed

section \<open>Concrete samples\<close>

definition sample_at :: "u64 \<Rightarrow> nat \<Rightarrow> throw_sample" where
  "sample_at t accel = (SensorFrame_init\<lparr>sf_timestampUs := t, sf_accelMps2 := V3 0 0 (lit accel 1)\<rparr>, lit 3 1, 0)"

lemma sample_norms:
  "norm3 (V3 0 0 (lit 30 (Suc 0))) = lit 30 (Suc 0)" "norm3 (V3 0 0 (lit 10 (Suc 0))) = lit 10 (Suc 0)" "norm3 (V3 0 0 (lit 0 (Suc 0))) = 0"
  by (simp_all add: norm3_def vnth_def float_eval cong: let_weak_cong)

lemma sample_thresholds:
  "THRUST_THRESHOLD_MPS2 \<le> lit 30 (Suc 0)" "\<not> THRUST_THRESHOLD_MPS2 \<le> lit 10 (Suc 0)" "\<not> THRUST_THRESHOLD_MPS2 \<le> 0"
  "\<not> lit 10 (Suc 0) < FREE_FALL_THRESHOLD_MPS2" "0 < FREE_FALL_THRESHOLD_MPS2"
  "MIN_RELEASE_VELOCITY_MPS \<le> lit 3 (Suc 0)"
  by (simp_all add: THRUST_THRESHOLD_MPS2_def FREE_FALL_THRESHOLD_MPS2_def MIN_RELEASE_VELOCITY_MPS_def
      GRAVITY_MPS2_def float_eval cong: let_weak_cong)

lemmas sample_eval = throw_run_def ThrowDetector_init_def ThrowDetector_update_def sample_at_def
  ThrowDetector_reset_def THRUST_MIN_US_def FREE_FALL_CONFIRM_US_def RELEASE_TIMEOUT_US_def Let_def
  sample_norms sample_thresholds

theorem throw_counted_has_signature_witness:
  "\<exists>i j k. i \<le> j \<and> j < k \<and> k < (3 :: nat)
     \<and> unat (sample_t ([sample_at 0 30, sample_at 50000 30, sample_at 60000 0] ! k)) + 50000 \<le> 110000"
proof -
  let ?xs = "[sample_at 0 30, sample_at 50000 30, sample_at 60000 0]" and ?x = "sample_at 110000 0"
  have t: "sorted_wrt (<) (map sample_t (?xs @ [?x]))" by (simp add: sample_at_def)
  have c: "td_throwCount (throw_run quiet_env (?xs @ [?x])) \<noteq> td_throwCount (throw_run quiet_env ?xs)"
    by (simp add: sample_eval throw_release_def)
  from throw_counted_has_signature[OF t c] obtain i j k
    where "i \<le> j" "j < k" "k < length ?xs" "unat (sample_t (?xs ! k)) + 50000 \<le> unat (sample_t ?x)" by blast
  moreover have "unat (sample_t ?x) = 110000" "length ?xs = 3" by (simp_all add: sample_at_def)
  ultimately show ?thesis by metis
qed

text \<open>
  A sustained thrust is measured from the first sample above the threshold to
  the last one: two single bumps a quarter of a second apart, with the drone at rest
  in the hand in between, count as a thrust long enough.
\<close>

lemma two_bumps_count_as_thrust:
  "td_throwCount (throw_run fe [sample_at 0 30, sample_at 10000 10, sample_at 240000 10,
     sample_at 250000 30, sample_at 260000 0, sample_at 310000 0]) = 1"
  by (simp add: sample_eval throw_release_def)

end
