(* ===== verification/Tuning_Table.thy ===== *)
theory Tuning_Table
  imports Flight_Estimators
begin

text \<open>
  The registry of the runtime tunable parameters (\<^verbatim>\<open>tuning_table.hpp\<close>,
  \<^verbatim>\<open>tuning_table.cpp\<close>): sixteen rows, each with a stable id, its name as sent to the
  ground, the live value, its bounds and whether it may change while armed.
\<close>

datatype tuning_status = TUNE_OK | TUNE_UNKNOWN_ID | TUNE_OUT_OF_BOUNDS | TUNE_LOCKED_WHILE_ARMED

definition TUNING_NAME_SIZE :: nat where "TUNING_NAME_SIZE = 16"

record tuning_param =
  tp_id :: u16
  tp_name :: string
  tp_value :: f32
  tp_minValue :: f32
  tp_maxValue :: f32
  tp_armedChange :: bool

definition TUNING_ID_RATE_KP_ROLL_PITCH :: u16 where "TUNING_ID_RATE_KP_ROLL_PITCH = 101"
definition TUNING_ID_RATE_KI_ROLL_PITCH :: u16 where "TUNING_ID_RATE_KI_ROLL_PITCH = 102"
definition TUNING_ID_RATE_KP_YAW :: u16 where "TUNING_ID_RATE_KP_YAW = 103"
definition TUNING_ID_RATE_KI_YAW :: u16 where "TUNING_ID_RATE_KI_YAW = 104"
definition TUNING_ID_ATTITUDE_KP :: u16 where "TUNING_ID_ATTITUDE_KP = 201"
definition TUNING_ID_VERTICAL_KP :: u16 where "TUNING_ID_VERTICAL_KP = 301"
definition TUNING_ID_VERTICAL_KI :: u16 where "TUNING_ID_VERTICAL_KI = 302"
definition TUNING_ID_HOVER_COLLECTIVE :: u16 where "TUNING_ID_HOVER_COLLECTIVE = 303"
definition TUNING_ID_AHRS_KP :: u16 where "TUNING_ID_AHRS_KP = 401"
definition TUNING_ID_AHRS_KI :: u16 where "TUNING_ID_AHRS_KI = 402"
definition TUNING_ID_VEST_ALTITUDE_GAIN :: u16 where "TUNING_ID_VEST_ALTITUDE_GAIN = 501"
definition TUNING_ID_VEST_VELOCITY_GAIN :: u16 where "TUNING_ID_VEST_VELOCITY_GAIN = 502"
definition TUNING_ID_STICK_RATE_ROLL_PITCH :: u16 where "TUNING_ID_STICK_RATE_ROLL_PITCH = 701"
definition TUNING_ID_STICK_RATE_YAW :: u16 where "TUNING_ID_STICK_RATE_YAW = 702"
definition TUNING_ID_STICK_TILT_MAX :: u16 where "TUNING_ID_STICK_TILT_MAX = 703"
definition TUNING_ID_STICK_DEADBAND :: u16 where "TUNING_ID_STICK_DEADBAND = 704"

lemmas tuning_ids = TUNING_ID_RATE_KP_ROLL_PITCH_def TUNING_ID_RATE_KI_ROLL_PITCH_def
  TUNING_ID_RATE_KP_YAW_def TUNING_ID_RATE_KI_YAW_def TUNING_ID_ATTITUDE_KP_def
  TUNING_ID_VERTICAL_KP_def TUNING_ID_VERTICAL_KI_def TUNING_ID_HOVER_COLLECTIVE_def
  TUNING_ID_AHRS_KP_def TUNING_ID_AHRS_KI_def TUNING_ID_VEST_ALTITUDE_GAIN_def
  TUNING_ID_VEST_VELOCITY_GAIN_def TUNING_ID_STICK_RATE_ROLL_PITCH_def
  TUNING_ID_STICK_RATE_YAW_def TUNING_ID_STICK_TILT_MAX_def TUNING_ID_STICK_DEADBAND_def

text \<open>A name field: the text, zero padded to its size.\<close>

definition makeName :: "string \<Rightarrow> string" where
  "makeName txt = txt @ replicate (TUNING_NAME_SIZE - length txt) (CHR 0x00)"

text \<open>One row, in the order of the aggregate initialiser.\<close>

definition tuning_row :: "u16 \<Rightarrow> string \<Rightarrow> f32 \<Rightarrow> f32 \<Rightarrow> f32 \<Rightarrow> bool \<Rightarrow> tuning_param" where
  "tuning_row i n v lo hi armed =
     \<lparr>tp_id = i, tp_name = makeName n, tp_value = v, tp_minValue = lo, tp_maxValue = hi,
      tp_armedChange = armed\<rparr>"

type_synonym tuning_table = "tuning_param list"

definition TuningTable_init :: tuning_table where
  "TuningTable_init =
     [tuning_row TUNING_ID_RATE_KP_ROLL_PITCH ''rate_kp_rp'' DEFAULT_KP_ROLL_PITCH 0 (lit 5 10) True,
      tuning_row TUNING_ID_RATE_KI_ROLL_PITCH ''rate_ki_rp'' DEFAULT_KI_ROLL_PITCH 0 (lit 5 10) True,
      tuning_row TUNING_ID_RATE_KP_YAW ''rate_kp_yaw'' DEFAULT_KP_YAW 0 (lit 1 1) True,
      tuning_row TUNING_ID_RATE_KI_YAW ''rate_ki_yaw'' DEFAULT_KI_YAW 0 (lit 1 1) True,
      tuning_row TUNING_ID_ATTITUDE_KP ''att_kp'' ATTITUDE_DEFAULT_KP 0 (lit 20 1) True,
      tuning_row TUNING_ID_VERTICAL_KP ''vz_kp'' VERTICAL_DEFAULT_KP 0 (lit 1 1) True,
      tuning_row TUNING_ID_VERTICAL_KI ''vz_ki'' VERTICAL_DEFAULT_KI 0 (lit 1 1) True,
      tuning_row TUNING_ID_HOVER_COLLECTIVE ''hover_coll'' DEFAULT_HOVER_COLLECTIVE 0 (lit 9 10) True,
      tuning_row TUNING_ID_AHRS_KP ''ahrs_kp'' AHRS_DEFAULT_KP 0 (lit 10 1) False,
      tuning_row TUNING_ID_AHRS_KI ''ahrs_ki'' AHRS_DEFAULT_KI 0 (lit 1 1) False,
      tuning_row TUNING_ID_VEST_ALTITUDE_GAIN ''vest_alt_gain'' DEFAULT_ALTITUDE_GAIN 0 (lit 10 1) False,
      tuning_row TUNING_ID_VEST_VELOCITY_GAIN ''vest_vel_gain'' DEFAULT_VELOCITY_GAIN 0 (lit 20 1) False,
      tuning_row TUNING_ID_STICK_RATE_ROLL_PITCH ''stick_rate_rp'' DEFAULT_RATE_ROLL_PITCH_RADS 0 (lit 12 1) True,
      tuning_row TUNING_ID_STICK_RATE_YAW ''stick_rate_yaw'' DEFAULT_RATE_YAW_RADS 0 (lit 8 1) True,
      tuning_row TUNING_ID_STICK_TILT_MAX ''stick_tilt_max'' DEFAULT_TILT_MAX_RAD 0 (lit 1 1) True,
      tuning_row TUNING_ID_STICK_DEADBAND ''stick_deadband'' DEFAULT_DEADBAND 0 (lit 5 10) True]"

text \<open>The linear scan for an id, as the index of the row.\<close>

fun TuningTable_find :: "tuning_table \<Rightarrow> u16 \<Rightarrow> nat option" where
  "TuningTable_find [] i = None"
| "TuningTable_find (p # ps) i = (if tp_id p = i then Some 0 else map_option Suc (TuningTable_find ps i))"

definition TuningTable_set :: "tuning_table \<Rightarrow> u16 \<Rightarrow> f32 \<Rightarrow> bool \<Rightarrow> tuning_table \<times> tuning_status" where
  "TuningTable_set t i v armed =
     (case TuningTable_find t i of
        None \<Rightarrow> (t, TUNE_UNKNOWN_ID)
      | Some k \<Rightarrow>
          let p = t ! k
          in if armed \<and> \<not> tp_armedChange p then (t, TUNE_LOCKED_WHILE_ARMED)
             else if \<not> (v \<ge> tp_minValue p \<and> v \<le> tp_maxValue p) then (t, TUNE_OUT_OF_BOUNDS)
             else (t[k := p\<lparr>tp_value := v\<rparr>], TUNE_OK))"

text \<open>\<^verbatim>\<open>get\<close> writes its out parameter only on success.\<close>

definition TuningTable_get :: "tuning_table \<Rightarrow> u16 \<Rightarrow> tuning_status + f32" where
  "TuningTable_get t i =
     (case TuningTable_find t i of
        None \<Rightarrow> Inl TUNE_UNKNOWN_ID
      | Some k \<Rightarrow> Inr (tp_value (t ! k)))"

definition TuningTable_info :: "tuning_table \<Rightarrow> nat \<Rightarrow> tuning_param option" where
  "TuningTable_info t index = (if index \<ge> length t then None else Some (t ! index))"

section \<open>The scan and the table\<close>

lemma find_Some: "TuningTable_find t i = Some k \<Longrightarrow> k < length t \<and> tp_id (t ! k) = i"
proof (induction t arbitrary: k)
  case (Cons p ps)
  then show ?case by (auto split: if_splits)
qed simp

lemma find_None: "TuningTable_find t i = None \<longleftrightarrow> i \<notin> tp_id ` set t"
  by (induction t) auto

lemma find_update:
  "TuningTable_find (t[k := p]) i = TuningTable_find t i" if "k < length t" "tp_id p = tp_id (t ! k)"
  using that
proof (induction t arbitrary: k)
  case (Cons a as)
  then show ?case by (cases k) auto
qed simp

end
