(* ===== verification/Flight_Core.thy ===== *)
theory Flight_Core
  imports Tuning_Table
begin

text \<open>
  The flight core (\<^verbatim>\<open>flight_core.hpp\<close>, \<^verbatim>\<open>flight_core.cpp\<close>): the state machine of
  the flight phases, the safety cutoffs, the control of each phase, the kill
  switch and input gates of \<^verbatim>\<open>step()\<close>, and the tuning entry points. One record
  holds every member of the class; \<open>FlightCore_step\<close> maps a core and a sensor frame
  to the next core and the actuator frame.
\<close>

datatype flight_phase =
    PH_IDLE | PH_ALTITUDE_AUTO | PH_ARMED | PH_BALLISTIC | PH_RECOVERY | PH_HOVER
  | PH_CUTOFF | PH_MANUAL | PH_FAULT | PH_LEVEL

definition CORE_US_PER_S :: f32 where "CORE_US_PER_S = lit 1000000 1"
definition STICK_DOWN_THROTTLE :: f32 where "STICK_DOWN_THROTTLE = lit 5 100"
definition STICK_UP_THROTTLE :: f32 where "STICK_UP_THROTTLE = lit 10 100"
definition STICK_CENTER :: f32 where "STICK_CENTER = lit 5 10"
definition STICK_CENTER_DEADBAND :: f32 where "STICK_CENTER_DEADBAND = lit 5 100"
definition STICK_CENTER_RELEASE :: f32 where "STICK_CENTER_RELEASE = lit 8 100"
definition STICK_VZ_RANGE_MPS :: f32 where "STICK_VZ_RANGE_MPS = lit 2 1"
definition IMU_FAULT_FRAMES :: u32 where "IMU_FAULT_FRAMES = 10"
definition MAX_STEP_S :: f32 where "MAX_STEP_S = lit 5 100"
definition CUTOFF_ACCEL_MPS2 :: f32 where "CUTOFF_ACCEL_MPS2 = lit 8 1 * GRAVITY_MPS2"
definition CUTOFF_GYRO_RADS :: f32 where "CUTOFF_GYRO_RADS = lit 30 1"
definition CUTOFF_TILT_MIN_UP :: f32 where "CUTOFF_TILT_MIN_UP = lit 26 100"
definition CUTOFF_TILT_CONFIRM_US :: u64 where "CUTOFF_TILT_CONFIRM_US = 300000"
definition SPINUP_LEAD_US :: u64 where "SPINUP_LEAD_US = 100000"
definition RECOVERED_MIN_UP :: f32 where "RECOVERED_MIN_UP = lit 9 10"
definition RECOVERY_TIMEOUT_US :: u64 where "RECOVERY_TIMEOUT_US = 2000000"
definition RECOVERY_MIN_COLLECTIVE :: f32 where "RECOVERY_MIN_COLLECTIVE = lit 3 10"
definition BRAKE_GAIN :: f32 where "BRAKE_GAIN = lit 1 1"
definition BRAKE_TILT_MAX :: f32 where "BRAKE_TILT_MAX = lit 36 100"
definition BRAKE_DONE_MPS :: f32 where "BRAKE_DONE_MPS = lit 15 100"
definition BRAKE_WINDOW_US :: u64 where "BRAKE_WINDOW_US = 4000000"

record flight_core =
  fc_phase :: flight_phase
  fc_stickCentered :: bool
  fc_lockedMode :: pilot_mode
  fc_takeoverArmed :: bool
  fc_stickDown :: bool
  fc_handledThrowCount :: u32
  fc_recoveryStartUs :: u64
  fc_hoverStartUs :: u64
  fc_brakeDone :: bool
  fc_tiltExceeded :: bool
  fc_tiltExceededSinceUs :: u64
  fc_stepCount :: u32
  fc_staleFrameCount :: u32
  fc_invalidFrameCount :: u32
  fc_imuInvalidRun :: u32
  fc_lastMotor :: "f32 list"
  fc_attitudeEstimator :: attitude_estimator
  fc_verticalEstimator :: vertical_estimator
  fc_throwDetector :: throw_detector
  fc_attitudeController :: attitude_controller
  fc_rateController :: rate_controller
  fc_verticalController :: vertical_controller
  fc_stickMapper :: stick_mapper
  fc_prevTimestampUs :: u64
  fc_hasPrevTimestamp :: bool
  fc_tuning :: tuning_table

definition FlightCore_init :: "fpenv \<Rightarrow> flight_core" where
  "FlightCore_init fe =
     \<lparr>fc_phase = PH_IDLE, fc_stickCentered = False, fc_lockedMode = PM_MANUAL,
      fc_takeoverArmed = False, fc_stickDown = True, fc_handledThrowCount = 0,
      fc_recoveryStartUs = 0, fc_hoverStartUs = 0, fc_brakeDone = False,
      fc_tiltExceeded = False, fc_tiltExceededSinceUs = 0, fc_stepCount = 0,
      fc_staleFrameCount = 0, fc_invalidFrameCount = 0, fc_imuInvalidRun = 0,
      fc_lastMotor = replicate 4 0,
      fc_attitudeEstimator = AttitudeEstimator_init, fc_verticalEstimator = VerticalEstimator_init,
      fc_throwDetector = ThrowDetector_init, fc_attitudeController = AttitudeController_init,
      fc_rateController = RateController_init, fc_verticalController = VerticalController_init,
      fc_stickMapper = StickMapper_init fe, fc_prevTimestampUs = 0, fc_hasPrevTimestamp = False,
      fc_tuning = TuningTable_init\<rparr>"

text \<open>\<^verbatim>\<open>reset()\<close> assigns a fresh instance over the core.\<close>

definition FlightCore_reset :: "fpenv \<Rightarrow> flight_core \<Rightarrow> flight_core" where
  "FlightCore_reset fe c = FlightCore_init fe"

definition FlightCore_armed :: "flight_core \<Rightarrow> bool" where
  "FlightCore_armed c \<longleftrightarrow> fc_phase c \<noteq> PH_IDLE \<and> fc_phase c \<noteq> PH_CUTOFF \<and> fc_phase c \<noteq> PH_FAULT"

section \<open>Input gates and cutoffs\<close>

definition isFrameFinite :: "sensor_frame \<Rightarrow> bool" where
  "isFrameFinite frame \<longleftrightarrow>
     (\<forall>axis \<in> set [0, 1, 2]. isfinite (vnth (sf_gyroRadS frame) axis)
                             \<and> isfinite (vnth (sf_accelMps2 frame) axis))
     \<and> isfinite (sf_baroPa frame) \<and> isfinite (rc_throttle (sf_rc frame))
     \<and> isfinite (rc_roll (sf_rc frame)) \<and> isfinite (rc_pitch (sf_rc frame))
     \<and> isfinite (rc_yaw (sf_rc frame))"

definition FlightCore_acceptsTimestamp :: "flight_core \<Rightarrow> u64 \<Rightarrow> bool" where
  "FlightCore_acceptsTimestamp c ts \<longleftrightarrow> \<not> fc_hasPrevTimestamp c \<or> ts > fc_prevTimestampUs c"

definition FlightCore_deriveDt :: "flight_core \<Rightarrow> u64 \<Rightarrow> flight_core \<times> f32" where
  "FlightCore_deriveDt c ts =
     (let dt = (if fc_hasPrevTimestamp c
                then let d = float_of (ts - fc_prevTimestampUs c) / CORE_US_PER_S
                     in if d > MAX_STEP_S then 0 else d
                else 0)
      in (c\<lparr>fc_prevTimestampUs := ts, fc_hasPrevTimestamp := True\<rparr>, dt))"

definition FlightCore_resetMission :: "flight_core \<Rightarrow> flight_core" where
  "FlightCore_resetMission c =
     c\<lparr>fc_phase := PH_IDLE, fc_rateController := RateController_reset (fc_rateController c),
       fc_verticalController := VerticalController_reset (fc_verticalController c),
       fc_tiltExceeded := False, fc_brakeDone := False, fc_lockedMode := PM_MANUAL,
       fc_takeoverArmed := False\<rparr>"

definition FlightCore_estimatedUpZ :: "flight_core \<Rightarrow> f32" where
  "FlightCore_estimatedUpZ c = up_z (ae_attitude (fc_attitudeEstimator c))"

definition ImpactTripped :: "sensor_frame \<Rightarrow> bool" where
  "ImpactTripped sensors \<longleftrightarrow> norm3 (sf_accelMps2 sensors) > CUTOFF_ACCEL_MPS2"

definition GyroSaturated :: "sensor_frame \<Rightarrow> bool" where
  "GyroSaturated sensors \<longleftrightarrow> norm3 (sf_gyroRadS sensors) > CUTOFF_GYRO_RADS"

definition FlightCore_tiltCutoffConfirmed :: "flight_core \<Rightarrow> sensor_frame \<Rightarrow> flight_core \<times> bool" where
  "FlightCore_tiltCutoffConfirmed c sensors =
     (if FlightCore_estimatedUpZ c < CUTOFF_TILT_MIN_UP
      then if \<not> fc_tiltExceeded c
           then (c\<lparr>fc_tiltExceeded := True, fc_tiltExceededSinceUs := sf_timestampUs sensors\<rparr>, False)
           else (c, sf_timestampUs sensors - fc_tiltExceededSinceUs c \<ge> CUTOFF_TILT_CONFIRM_US)
      else (c\<lparr>fc_tiltExceeded := False\<rparr>, False))"

definition FlightCore_cutoffTripped :: "flight_core \<Rightarrow> sensor_frame \<Rightarrow> flight_core \<times> bool" where
  "FlightCore_cutoffTripped c sensors =
     (if ImpactTripped sensors \<or> GyroSaturated sensors then (c, True)
      else FlightCore_tiltCutoffConfirmed c sensors)"

section \<open>Phases\<close>

text \<open>The two stick latches, updated on every frame before any transition.\<close>

definition FlightCore_stickLatches :: "flight_core \<Rightarrow> sensor_frame \<Rightarrow> flight_core" where
  "FlightCore_stickLatches c sensors =
     (let throttle = rc_throttle (sf_rc sensors);
          c1 = (if throttle < STICK_DOWN_THROTTLE then c\<lparr>fc_stickDown := True\<rparr>
                else if throttle > STICK_UP_THROTTLE then c\<lparr>fc_stickDown := False\<rparr>
                else c);
          centerError = throttle - STICK_CENTER;
          centerDistance = (if centerError < 0 then - centerError else centerError)
      in if centerDistance \<le> STICK_CENTER_DEADBAND then c1\<lparr>fc_stickCentered := True\<rparr>
         else if centerDistance > STICK_CENTER_RELEASE then c1\<lparr>fc_stickCentered := False\<rparr>
         else c1)"

definition advance_idle :: "flight_core \<Rightarrow> sensor_frame \<Rightarrow> flight_core" where
  "advance_idle c sensors =
     (let rc = sf_rc sensors
      in if \<not> ve_ready (fc_verticalEstimator c) \<or> \<not> sf_baroValid sensors then c
         else if \<not> rc_armSwitch rc then c
         else if (rc_mode rc = PM_MANUAL \<or> rc_mode rc = PM_LEVEL) \<and> fc_stickDown c
         then let c1 = c\<lparr>fc_lockedMode := rc_mode rc\<rparr>;
                  piloted = (if fc_lockedMode c1 = PM_LEVEL then PH_LEVEL else PH_MANUAL);
                  (c2, cut) = FlightCore_cutoffTripped c1 sensors
              in c2\<lparr>fc_phase := (if cut then PH_CUTOFF else piloted)\<rparr>
         else if rc_mode rc = PM_ALTITUDE_AUTO \<and> fc_stickCentered c
         then c\<lparr>fc_lockedMode := PM_ALTITUDE_AUTO,
                fc_handledThrowCount := td_throwCount (fc_throwDetector c),
                fc_phase := PH_ARMED\<rparr>
         else c)"

definition advance_piloted :: "flight_core \<Rightarrow> sensor_frame \<Rightarrow> flight_core" where
  "advance_piloted c sensors =
     (if \<not> rc_armSwitch (sf_rc sensors) then c\<lparr>fc_phase := PH_IDLE\<rparr>
      else let (c1, cut) = FlightCore_cutoffTripped c sensors
           in if cut then c1\<lparr>fc_phase := PH_CUTOFF\<rparr> else c1)"

definition advance_armed :: "flight_core \<Rightarrow> sensor_frame \<Rightarrow> flight_core" where
  "advance_armed c sensors =
     (if \<not> rc_armSwitch (sf_rc sensors) then c\<lparr>fc_phase := PH_IDLE\<rparr>
      else if td_throwCount (fc_throwDetector c) > fc_handledThrowCount c
      then c\<lparr>fc_handledThrowCount := td_throwCount (fc_throwDetector c), fc_phase := PH_BALLISTIC\<rparr>
      else c)"

definition advance_ballistic :: "flight_core \<Rightarrow> sensor_frame \<Rightarrow> flight_core" where
  "advance_ballistic c sensors =
     (if \<not> rc_armSwitch (sf_rc sensors) then c\<lparr>fc_phase := PH_IDLE\<rparr>
      else if GyroSaturated sensors then c\<lparr>fc_phase := PH_CUTOFF\<rparr>
      else if td_state (fc_throwDetector c) \<noteq> TS_BALLISTIC then c\<lparr>fc_phase := PH_ARMED\<rparr>
      else if sf_timestampUs sensors + SPINUP_LEAD_US \<ge> td_apexTimestampUs (fc_throwDetector c)
      then c\<lparr>fc_phase := PH_RECOVERY, fc_recoveryStartUs := sf_timestampUs sensors\<rparr>
      else c)"

definition advance_recovery :: "flight_core \<Rightarrow> sensor_frame \<Rightarrow> flight_core" where
  "advance_recovery c sensors =
     (if \<not> rc_armSwitch (sf_rc sensors) then c\<lparr>fc_phase := PH_IDLE\<rparr>
      else if ImpactTripped sensors \<or> GyroSaturated sensors
              \<or> sf_timestampUs sensors - fc_recoveryStartUs c > RECOVERY_TIMEOUT_US
      then c\<lparr>fc_phase := PH_CUTOFF\<rparr>
      else if FlightCore_estimatedUpZ c \<ge> RECOVERED_MIN_UP
      then c\<lparr>fc_phase := PH_HOVER, fc_hoverStartUs := sf_timestampUs sensors,
             fc_brakeDone := False, fc_takeoverArmed := False\<rparr>
      else c)"

definition advance_hover :: "flight_core \<Rightarrow> sensor_frame \<Rightarrow> flight_core" where
  "advance_hover c sensors =
     (if \<not> rc_armSwitch (sf_rc sensors) then c\<lparr>fc_phase := PH_IDLE\<rparr>
      else let (c1, cut) = FlightCore_cutoffTripped c sensors
           in if cut then c1\<lparr>fc_phase := PH_CUTOFF\<rparr>
              else if fc_stickCentered c1 then c1\<lparr>fc_takeoverArmed := True\<rparr>
              else if fc_takeoverArmed c1 then c1\<lparr>fc_phase := PH_ALTITUDE_AUTO\<rparr>
              else c1)"

definition advance_cutoff :: "flight_core \<Rightarrow> sensor_frame \<Rightarrow> flight_core" where
  "advance_cutoff c sensors =
     (if \<not> rc_armSwitch (sf_rc sensors) then c\<lparr>fc_phase := PH_IDLE\<rparr> else c)"

definition FlightCore_advancePhase :: "flight_core \<Rightarrow> sensor_frame \<Rightarrow> flight_core" where
  "FlightCore_advancePhase c0 sensors =
     (let c = FlightCore_stickLatches c0 sensors
      in case fc_phase c of
           PH_IDLE \<Rightarrow> advance_idle c sensors
         | PH_MANUAL \<Rightarrow> advance_piloted c sensors
         | PH_LEVEL \<Rightarrow> advance_piloted c sensors
         | PH_ALTITUDE_AUTO \<Rightarrow> advance_piloted c sensors
         | PH_ARMED \<Rightarrow> advance_armed c sensors
         | PH_BALLISTIC \<Rightarrow> advance_ballistic c sensors
         | PH_RECOVERY \<Rightarrow> advance_recovery c sensors
         | PH_HOVER \<Rightarrow> advance_hover c sensors
         | PH_CUTOFF \<Rightarrow> advance_cutoff c sensors
         | PH_FAULT \<Rightarrow> c)"

section \<open>Control\<close>

definition StickVerticalVelocityMps :: "f32 \<Rightarrow> f32" where
  "StickVerticalVelocityMps throttle =
     (let err = throttle - STICK_CENTER;
          magnitude = (if err < 0 then - err else err)
      in if magnitude \<le> STICK_CENTER_DEADBAND then 0
         else let scaled = (magnitude - STICK_CENTER_DEADBAND)
                             / (STICK_CENTER - STICK_CENTER_DEADBAND) * STICK_VZ_RANGE_MPS
              in if err < 0 then - scaled else scaled)"

definition FlightCore_brakeUpWorld :: "flight_core \<Rightarrow> f32 vec3" where
  "FlightCore_brakeUpWorld c =
     (let hx0 = - BRAKE_GAIN * ve_horizontalX (fc_verticalEstimator c) / GRAVITY_MPS2;
          hy0 = - BRAKE_GAIN * ve_horizontalY (fc_verticalEstimator c) / GRAVITY_MPS2;
          lean = sqrtf (hx0 * hx0 + hy0 * hy0);
          hx = (if lean > BRAKE_TILT_MAX then hx0 * (BRAKE_TILT_MAX / lean) else hx0);
          hy = (if lean > BRAKE_TILT_MAX then hy0 * (BRAKE_TILT_MAX / lean) else hy0);
          invNorm = lit 1 1 / sqrtf (hx * hx + hy * hy + lit 1 1)
      in V3 (hx * invNorm) (hy * invNorm) invNorm)"

definition control_off :: "flight_core \<Rightarrow> flight_core \<times> f32 list" where
  "control_off c =
     (c\<lparr>fc_rateController := RateController_reset (fc_rateController c),
        fc_verticalController := VerticalController_reset (fc_verticalController c),
        fc_tiltExceeded := False\<rparr>,
      replicate 4 0)"

definition control_recovery :: "flight_core \<Rightarrow> sensor_frame \<Rightarrow> f32 \<Rightarrow> flight_core \<times> f32 list" where
  "control_recovery c sensors dt =
     (let (ac, rateSetpoint) = AttitudeController_rateSetpointRadS (fc_attitudeController c)
                                 (ae_attitude (fc_attitudeEstimator c)) DEFAULT_UP_WORLD;
          (rate, torqueCmd) = RateController_update (fc_rateController c) rateSetpoint
                                 (sf_gyroRadS sensors) dt;
          c0 = vc_hoverCollective (fc_verticalController c) * FlightCore_estimatedUpZ c;
          collective = (if c0 < RECOVERY_MIN_COLLECTIVE then RECOVERY_MIN_COLLECTIVE else c0)
      in (c\<lparr>fc_attitudeController := ac, fc_rateController := rate\<rparr>, mixMotors collective torqueCmd))"

definition brake_latch :: "flight_core \<Rightarrow> sensor_frame \<Rightarrow> flight_core" where
  "brake_latch c sensors =
     (if fc_phase c = PH_HOVER \<and> \<not> fc_brakeDone c
      then let vx = ve_horizontalX (fc_verticalEstimator c); vy = ve_horizontalY (fc_verticalEstimator c)
           in if vx * vx + vy * vy < BRAKE_DONE_MPS * BRAKE_DONE_MPS
                 \<or> sf_timestampUs sensors - fc_hoverStartUs c \<ge> BRAKE_WINDOW_US
              then c\<lparr>fc_brakeDone := True\<rparr> else c
      else c)"

definition control_hover :: "flight_core \<Rightarrow> sensor_frame \<Rightarrow> f32 \<Rightarrow> flight_core \<times> f32 list" where
  "control_hover c0 sensors dt =
     (let c = brake_latch c0 sensors;
          braking = (fc_phase c = PH_HOVER \<and> \<not> fc_brakeDone c);
          (ac, rateSetpoint) = AttitudeController_rateSetpointRadS (fc_attitudeController c)
                                 (ae_attitude (fc_attitudeEstimator c))
                                 (if braking then FlightCore_brakeUpWorld c else DEFAULT_UP_WORLD);
          (rate, torqueCmd) = RateController_update (fc_rateController c) rateSetpoint
                                 (sf_gyroRadS sensors) dt;
          vzSetpoint = (if fc_phase c = PH_HOVER then 0
                        else StickVerticalVelocityMps (rc_throttle (sf_rc sensors)));
          (vc, collective) = VerticalController_update (fc_verticalController c) vzSetpoint
                               (ve_velocityMps (fc_verticalEstimator c)) dt
      in (c\<lparr>fc_attitudeController := ac, fc_rateController := rate, fc_verticalController := vc\<rparr>,
          mixMotors collective torqueCmd))"

definition control_direct :: "flight_core \<Rightarrow> sensor_frame \<Rightarrow> f32 \<Rightarrow> flight_core \<times> f32 list" where
  "control_direct c0 sensors dt =
     (let rc = sf_rc sensors;
          c = c0\<lparr>fc_verticalController := VerticalController_reset (fc_verticalController c0)\<rparr>
      in if rc_throttle rc \<le> 0
         then (c\<lparr>fc_rateController := RateController_reset (fc_rateController c)\<rparr>, replicate 4 0)
         else let (c1, rateSetpoint) =
                    (if fc_phase c = PH_MANUAL
                     then (c, StickMapper_rateSetpointRadS (fc_stickMapper c) rc)
                     else let q = ae_attitude (fc_attitudeEstimator c);
                              (ac, sp) = AttitudeController_rateSetpointRadS (fc_attitudeController c) q
                                           (StickMapper_desiredUpWorld (fc_stickMapper c) rc q)
                          in (c\<lparr>fc_attitudeController := ac\<rparr>,
                              V3 (vx sp) (vy sp) (StickMapper_yawRateRadS (fc_stickMapper c) rc)));
                  (rate, torqueCmd) = RateController_update (fc_rateController c1) rateSetpoint
                                        (sf_gyroRadS sensors) dt
              in (c1\<lparr>fc_rateController := rate\<rparr>, mixMotors (rc_throttle rc) torqueCmd))"

definition FlightCore_runControl :: "flight_core \<Rightarrow> sensor_frame \<Rightarrow> f32 \<Rightarrow> flight_core \<times> f32 list" where
  "FlightCore_runControl c sensors dt =
     (case fc_phase c of
        PH_IDLE \<Rightarrow> control_off c
      | PH_ARMED \<Rightarrow> control_off c
      | PH_BALLISTIC \<Rightarrow> control_off c
      | PH_CUTOFF \<Rightarrow> control_off c
      | PH_FAULT \<Rightarrow> control_off c
      | PH_RECOVERY \<Rightarrow> control_recovery c sensors dt
      | PH_ALTITUDE_AUTO \<Rightarrow> control_hover c sensors dt
      | PH_HOVER \<Rightarrow> control_hover c sensors dt
      | PH_MANUAL \<Rightarrow> control_direct c sensors dt
      | PH_LEVEL \<Rightarrow> control_direct c sensors dt)"

section \<open>One step\<close>

definition FlightCore_updateEstimators :: "fpenv \<Rightarrow> flight_core \<Rightarrow> sensor_frame \<Rightarrow> f32 \<Rightarrow> flight_core" where
  "FlightCore_updateEstimators fe c sensors dt =
     (let maneuvering = (fc_phase c = PH_RECOVERY \<or> fc_phase c = PH_HOVER \<and> \<not> fc_brakeDone c);
          ae = AttitudeEstimator_update fe (fc_attitudeEstimator c) sensors dt (\<not> maneuvering);
          ve = VerticalEstimator_update fe (fc_verticalEstimator c) sensors dt (ae_attitude ae);
          td = ThrowDetector_update fe (fc_throwDetector c) sensors (ve_velocityMps ve) (ve_altitudeM ve)
      in c\<lparr>fc_attitudeEstimator := ae, fc_verticalEstimator := ve, fc_throwDetector := td\<rparr>)"

definition motors_on :: "f32 list \<Rightarrow> bool" where
  "motors_on ms \<longleftrightarrow> (\<exists>m \<in> set ms. m > 0)"

definition FlightCore_stepWithoutImu :: "flight_core \<Rightarrow> sensor_frame \<Rightarrow> flight_core \<times> f32 list" where
  "FlightCore_stepWithoutImu c0 sensors =
     (let c = c0\<lparr>fc_imuInvalidRun := fc_imuInvalidRun c0 + 1\<rparr>;
          motorsOn = motors_on (fc_lastMotor c);
          c1 = (if motorsOn \<and> fc_imuInvalidRun c \<ge> IMU_FAULT_FRAMES
                then c\<lparr>fc_phase := PH_FAULT,
                       fc_rateController := RateController_reset (fc_rateController c),
                       fc_verticalController := VerticalController_reset (fc_verticalController c),
                       fc_lastMotor := replicate 4 0\<rparr>
                else if \<not> motorsOn \<and> \<not> rc_armSwitch (sf_rc sensors) \<and> fc_phase c \<noteq> PH_FAULT
                then FlightCore_resetMission c
                else c)
      in (c1, fc_lastMotor c1))"

definition step_kill :: "fpenv \<Rightarrow> flight_core \<Rightarrow> sensor_frame \<Rightarrow> flight_core" where
  "step_kill fe c sensors =
     (let c1 = c\<lparr>fc_lastMotor := replicate 4 0\<rparr>;
          c2 = (if isFrameFinite sensors \<and> FlightCore_acceptsTimestamp c1 (sf_timestampUs sensors)
                then let (c', dt) = FlightCore_deriveDt c1 (sf_timestampUs sensors)
                     in if sf_imuValid sensors then FlightCore_updateEstimators fe c' sensors dt else c'
                else c1)
      in FlightCore_resetMission c2)"

definition step_accepted :: "fpenv \<Rightarrow> flight_core \<Rightarrow> sensor_frame \<Rightarrow> flight_core \<times> f32 list" where
  "step_accepted fe c sensors =
     (let (c1, dt) = FlightCore_deriveDt c (sf_timestampUs sensors)
      in if \<not> sf_imuValid sensors then FlightCore_stepWithoutImu c1 sensors
         else let c2 = c1\<lparr>fc_imuInvalidRun := 0\<rparr>;
                  c3 = FlightCore_updateEstimators fe c2 sensors dt;
                  c4 = FlightCore_advancePhase c3 sensors;
                  (c5, motor) = FlightCore_runControl c4 sensors dt
              in (c5\<lparr>fc_lastMotor := motor\<rparr>, motor))"

definition FlightCore_step :: "fpenv \<Rightarrow> flight_core \<Rightarrow> sensor_frame \<Rightarrow> flight_core \<times> actuator_frame" where
  "FlightCore_step fe c0 sensors =
     (let c = c0\<lparr>fc_stepCount := fc_stepCount c0 + 1\<rparr>;
          (c', motor) =
            (if rc_killSwitch (sf_rc sensors) then (step_kill fe c sensors, replicate 4 0)
             else if \<not> isFrameFinite sensors
             then (c\<lparr>fc_invalidFrameCount := fc_invalidFrameCount c + 1\<rparr>, fc_lastMotor c)
             else if \<not> FlightCore_acceptsTimestamp c (sf_timestampUs sensors)
             then (c\<lparr>fc_staleFrameCount := fc_staleFrameCount c + 1\<rparr>, fc_lastMotor c)
             else step_accepted fe c sensors)
      in (c', \<lparr>af_timestampUs = sf_timestampUs sensors, af_motor = motor\<rparr>))"

section \<open>Tuning\<close>

definition FlightCore_applyParam :: "fpenv \<Rightarrow> flight_core \<Rightarrow> u16 \<Rightarrow> f32 \<Rightarrow> flight_core" where
  "FlightCore_applyParam fe c i v =
     (if i = TUNING_ID_RATE_KP_ROLL_PITCH
      then c\<lparr>fc_rateController := RateController_setKpRollPitch (fc_rateController c) v\<rparr>
      else if i = TUNING_ID_RATE_KI_ROLL_PITCH
      then c\<lparr>fc_rateController := RateController_setKiRollPitch (fc_rateController c) v\<rparr>
      else if i = TUNING_ID_RATE_KP_YAW
      then c\<lparr>fc_rateController := RateController_setKpYaw (fc_rateController c) v\<rparr>
      else if i = TUNING_ID_RATE_KI_YAW
      then c\<lparr>fc_rateController := RateController_setKiYaw (fc_rateController c) v\<rparr>
      else if i = TUNING_ID_ATTITUDE_KP
      then c\<lparr>fc_attitudeController := AttitudeController_setKp (fc_attitudeController c) v\<rparr>
      else if i = TUNING_ID_VERTICAL_KP
      then c\<lparr>fc_verticalController := VerticalController_setKp (fc_verticalController c) v\<rparr>
      else if i = TUNING_ID_VERTICAL_KI
      then c\<lparr>fc_verticalController := VerticalController_setKi (fc_verticalController c) v\<rparr>
      else if i = TUNING_ID_HOVER_COLLECTIVE
      then c\<lparr>fc_verticalController := VerticalController_setHoverCollective (fc_verticalController c) v\<rparr>
      else if i = TUNING_ID_AHRS_KP
      then c\<lparr>fc_attitudeEstimator := AttitudeEstimator_setKp (fc_attitudeEstimator c) v\<rparr>
      else if i = TUNING_ID_AHRS_KI
      then c\<lparr>fc_attitudeEstimator := AttitudeEstimator_setKi (fc_attitudeEstimator c) v\<rparr>
      else if i = TUNING_ID_VEST_ALTITUDE_GAIN
      then c\<lparr>fc_verticalEstimator := VerticalEstimator_setAltitudeGain (fc_verticalEstimator c) v\<rparr>
      else if i = TUNING_ID_VEST_VELOCITY_GAIN
      then c\<lparr>fc_verticalEstimator := VerticalEstimator_setVelocityGain (fc_verticalEstimator c) v\<rparr>
      else if i = TUNING_ID_STICK_RATE_ROLL_PITCH
      then c\<lparr>fc_stickMapper := StickMapper_setRateRollPitch (fc_stickMapper c) v\<rparr>
      else if i = TUNING_ID_STICK_RATE_YAW
      then c\<lparr>fc_stickMapper := StickMapper_setRateYaw (fc_stickMapper c) v\<rparr>
      else if i = TUNING_ID_STICK_TILT_MAX
      then c\<lparr>fc_stickMapper := StickMapper_setTiltMax fe (fc_stickMapper c) v\<rparr>
      else if i = TUNING_ID_STICK_DEADBAND
      then c\<lparr>fc_stickMapper := StickMapper_setDeadband (fc_stickMapper c) v\<rparr>
      else c)"

definition FlightCore_setParam :: "fpenv \<Rightarrow> flight_core \<Rightarrow> u16 \<Rightarrow> f32 \<Rightarrow> flight_core \<times> tuning_status" where
  "FlightCore_setParam fe c i v =
     (let (t, status) = TuningTable_set (fc_tuning c) i v (FlightCore_armed c);
          c1 = c\<lparr>fc_tuning := t\<rparr>
      in (if status = TUNE_OK then FlightCore_applyParam fe c1 i v else c1, status))"

definition FlightCore_getParam :: "flight_core \<Rightarrow> u16 \<Rightarrow> tuning_status + f32" where
  "FlightCore_getParam c i = TuningTable_get (fc_tuning c) i"

definition FlightCore_paramInfo :: "flight_core \<Rightarrow> nat \<Rightarrow> tuning_param option" where
  "FlightCore_paramInfo c index = TuningTable_info (fc_tuning c) index"

end
