(* ===== verification/Flight_Step.thy ===== *)
theory Flight_Step
  imports Flight_Core
begin

text \<open>
  The library the flight core proofs share: runs (any sequence of frames, tuning
  requests and resets from a fresh core), the contract of an invariant over them,
  what each operation leaves alone, the outcomes of a step, and the invariant of the
  motor commands.
\<close>

section \<open>Runs\<close>

datatype core_event = EvFrame sensor_frame | EvParam u16 f32 | EvReset

fun core_on :: "fpenv \<Rightarrow> flight_core \<Rightarrow> core_event \<Rightarrow> flight_core" where
  "core_on fe c (EvFrame f) = fst (FlightCore_step fe c f)"
| "core_on fe c (EvParam i v) = fst (FlightCore_setParam fe c i v)"
| "core_on fe c EvReset = FlightCore_reset fe c"

definition core_run :: "fpenv \<Rightarrow> flight_core \<Rightarrow> core_event list \<Rightarrow> flight_core" where
  "core_run fe c es = foldl (core_on fe) c es"

lemma core_run_simps [simp]:
  "core_run fe c [] = c"
  "core_run fe c (e # es) = core_run fe (core_on fe c e) es"
  "core_run fe c (es @ es') = core_run fe (core_run fe c es) es'"
  by (simp_all add: core_run_def)

text \<open>
  The contract of an invariant of the core: a fresh core has it, a step keeps
  it and a tuning request keeps it. Every state a run reaches then has it.
\<close>

locale core_invariant =
  fixes fe :: fpenv and inv :: "flight_core \<Rightarrow> bool"
  assumes inv_init: "inv (FlightCore_init fe)"
    and inv_step: "inv c \<Longrightarrow> inv (fst (FlightCore_step fe c f))"
    and inv_param: "inv c \<Longrightarrow> inv (fst (FlightCore_setParam fe c i v))"
begin

lemma inv_event: "inv c \<Longrightarrow> inv (core_on fe c e)"
  by (cases e) (simp_all add: inv_step inv_param FlightCore_reset_def inv_init)

lemma inv_run_from: "inv c \<Longrightarrow> inv (core_run fe c es)"
  by (induction es arbitrary: c) (simp_all add: inv_event)

lemma inv_run: "inv (core_run fe (FlightCore_init fe) es)"
  by (rule inv_run_from) (rule inv_init)

end

section \<open>What an operation leaves alone\<close>

lemma tilt_frame [frame_simps]:
  "fc_phase (fst (FlightCore_tiltCutoffConfirmed c f)) = fc_phase c"
  "fc_lockedMode (fst (FlightCore_tiltCutoffConfirmed c f)) = fc_lockedMode c"
  "fc_lastMotor (fst (FlightCore_tiltCutoffConfirmed c f)) = fc_lastMotor c"
  "fc_throwDetector (fst (FlightCore_tiltCutoffConfirmed c f)) = fc_throwDetector c"
  "fc_handledThrowCount (fst (FlightCore_tiltCutoffConfirmed c f)) = fc_handledThrowCount c"
  by (simp_all add: FlightCore_tiltCutoffConfirmed_def)

lemma cutoff_frame [frame_simps]:
  "fc_phase (fst (FlightCore_cutoffTripped c f)) = fc_phase c"
  "fc_lockedMode (fst (FlightCore_cutoffTripped c f)) = fc_lockedMode c"
  "fc_lastMotor (fst (FlightCore_cutoffTripped c f)) = fc_lastMotor c"
  "fc_throwDetector (fst (FlightCore_cutoffTripped c f)) = fc_throwDetector c"
  "fc_handledThrowCount (fst (FlightCore_cutoffTripped c f)) = fc_handledThrowCount c"
  by (simp_all add: FlightCore_cutoffTripped_def frame_simps)

lemma latches_frame [frame_simps]:
  "fc_phase (FlightCore_stickLatches c f) = fc_phase c"
  "fc_lockedMode (FlightCore_stickLatches c f) = fc_lockedMode c"
  "fc_lastMotor (FlightCore_stickLatches c f) = fc_lastMotor c"
  "fc_throwDetector (FlightCore_stickLatches c f) = fc_throwDetector c"
  "fc_handledThrowCount (FlightCore_stickLatches c f) = fc_handledThrowCount c"
  by (simp_all add: FlightCore_stickLatches_def Let_def)

lemma estimators_frame [frame_simps]:
  "fc_phase (FlightCore_updateEstimators fe c f dt) = fc_phase c"
  "fc_lockedMode (FlightCore_updateEstimators fe c f dt) = fc_lockedMode c"
  "fc_lastMotor (FlightCore_updateEstimators fe c f dt) = fc_lastMotor c"
  "fc_handledThrowCount (FlightCore_updateEstimators fe c f dt) = fc_handledThrowCount c"
  by (simp_all add: FlightCore_updateEstimators_def Let_def)

lemma brake_frame [frame_simps]:
  "fc_phase (brake_latch c f) = fc_phase c"
  "fc_lockedMode (brake_latch c f) = fc_lockedMode c"
  "fc_throwDetector (brake_latch c f) = fc_throwDetector c"
  "fc_handledThrowCount (brake_latch c f) = fc_handledThrowCount c"
  by (simp_all add: brake_latch_def Let_def)

lemmas control_defs = control_off_def control_recovery_def control_hover_def control_direct_def

lemma control_frame [frame_simps]:
  "fc_phase (fst (FlightCore_runControl c f dt)) = fc_phase c"
  "fc_lockedMode (fst (FlightCore_runControl c f dt)) = fc_lockedMode c"
  "fc_throwDetector (fst (FlightCore_runControl c f dt)) = fc_throwDetector c"
  "fc_handledThrowCount (fst (FlightCore_runControl c f dt)) = fc_handledThrowCount c"
  by (simp_all add: FlightCore_runControl_def control_defs Let_def frame_simps split: flight_phase.split prod.split)

lemma mission_frame [frame_simps]:
  "fc_phase (FlightCore_resetMission c) = PH_IDLE"
  "fc_lockedMode (FlightCore_resetMission c) = PM_MANUAL"
  "fc_lastMotor (FlightCore_resetMission c) = fc_lastMotor c"
  "fc_throwDetector (FlightCore_resetMission c) = fc_throwDetector c"
  by (simp_all add: FlightCore_resetMission_def)

lemma dt_frame [frame_simps]:
  "fc_phase (fst (FlightCore_deriveDt c ts)) = fc_phase c"
  "fc_lockedMode (fst (FlightCore_deriveDt c ts)) = fc_lockedMode c"
  "fc_lastMotor (fst (FlightCore_deriveDt c ts)) = fc_lastMotor c"
  "fc_throwDetector (fst (FlightCore_deriveDt c ts)) = fc_throwDetector c"
  "fc_handledThrowCount (fst (FlightCore_deriveDt c ts)) = fc_handledThrowCount c"
  "fc_imuInvalidRun (fst (FlightCore_deriveDt c ts)) = fc_imuInvalidRun c"
  by (simp_all add: FlightCore_deriveDt_def Let_def)

lemma apply_frame [frame_simps]:
  "fc_phase (FlightCore_applyParam fe c i v) = fc_phase c"
  "fc_lockedMode (FlightCore_applyParam fe c i v) = fc_lockedMode c"
  "fc_lastMotor (FlightCore_applyParam fe c i v) = fc_lastMotor c"
  by (simp_all add: FlightCore_applyParam_def)

lemma param_frame [frame_simps]:
  "fc_phase (fst (FlightCore_setParam fe c i v)) = fc_phase c"
  "fc_lockedMode (fst (FlightCore_setParam fe c i v)) = fc_lockedMode c"
  "fc_lastMotor (fst (FlightCore_setParam fe c i v)) = fc_lastMotor c"
  by (simp_all add: FlightCore_setParam_def Let_def split_beta frame_simps)

section \<open>The outcomes of a step\<close>

text \<open>
  A step is one of five things: a kill, a rejected frame, a frame without an
  IMU, or a frame that is flown.
\<close>

definition accepted :: "flight_core \<Rightarrow> sensor_frame \<Rightarrow> bool" where
  "accepted c f \<longleftrightarrow> \<not> rc_killSwitch (sf_rc f) \<and> isFrameFinite f \<and> FlightCore_acceptsTimestamp c (sf_timestampUs f)"

definition counted :: "flight_core \<Rightarrow> flight_core" where
  "counted c = c\<lparr>fc_stepCount := fc_stepCount c + 1\<rparr>"

lemma counted_frame [simp]:
  "fc_phase (counted c) = fc_phase c" "fc_lastMotor (counted c) = fc_lastMotor c"
  "fc_lockedMode (counted c) = fc_lockedMode c" "fc_throwDetector (counted c) = fc_throwDetector c"
  "fc_handledThrowCount (counted c) = fc_handledThrowCount c"
  "fc_imuInvalidRun (counted c) = fc_imuInvalidRun c"
  by (simp_all add: counted_def)

definition timed :: "flight_core \<Rightarrow> sensor_frame \<Rightarrow> flight_core" where
  "timed c f = fst (FlightCore_deriveDt (counted c) (sf_timestampUs f))"

definition estimated :: "fpenv \<Rightarrow> flight_core \<Rightarrow> sensor_frame \<Rightarrow> flight_core" where
  "estimated fe c f = FlightCore_updateEstimators fe (timed c f\<lparr>fc_imuInvalidRun := 0\<rparr>) f
                        (snd (FlightCore_deriveDt (counted c) (sf_timestampUs f)))"

definition advanced :: "fpenv \<Rightarrow> flight_core \<Rightarrow> sensor_frame \<Rightarrow> flight_core" where
  "advanced fe c f = FlightCore_advancePhase (estimated fe c f) f"

lemma timed_frame [simp]:
  "fc_phase (timed c f) = fc_phase c" "fc_lastMotor (timed c f) = fc_lastMotor c"
  "fc_lockedMode (timed c f) = fc_lockedMode c" "fc_throwDetector (timed c f) = fc_throwDetector c"
  "fc_handledThrowCount (timed c f) = fc_handledThrowCount c"
  "fc_imuInvalidRun (timed c f) = fc_imuInvalidRun c"
  by (simp_all add: timed_def frame_simps)

lemma estimated_frame [simp]:
  "fc_phase (estimated fe c f) = fc_phase c" "fc_lastMotor (estimated fe c f) = fc_lastMotor c"
  "fc_lockedMode (estimated fe c f) = fc_lockedMode c"
  "fc_handledThrowCount (estimated fe c f) = fc_handledThrowCount c"
  by (simp_all add: estimated_def frame_simps)

lemma step_cases:
  obtains (Kill) "rc_killSwitch (sf_rc f)"
      "FlightCore_step fe c f =
         (step_kill fe (counted c) f, \<lparr>af_timestampUs = sf_timestampUs f, af_motor = replicate 4 0\<rparr>)"
  | (Rejected) n k where "\<not> rc_killSwitch (sf_rc f)" "\<not> accepted c f"
      "FlightCore_step fe c f =
         (counted c\<lparr>fc_invalidFrameCount := n, fc_staleFrameCount := k\<rparr>,
          \<lparr>af_timestampUs = sf_timestampUs f, af_motor = fc_lastMotor c\<rparr>)"
  | (NoImu) "accepted c f" "\<not> sf_imuValid f"
      "FlightCore_step fe c f =
         (fst (FlightCore_stepWithoutImu (timed c f) f),
          \<lparr>af_timestampUs = sf_timestampUs f, af_motor = snd (FlightCore_stepWithoutImu (timed c f) f)\<rparr>)"
  | (Flown) m where "accepted c f" "sf_imuValid f"
      "m = snd (FlightCore_runControl (advanced fe c f) f (snd (FlightCore_deriveDt (counted c) (sf_timestampUs f))))"
      "FlightCore_step fe c f =
         (fst (FlightCore_runControl (advanced fe c f) f
                 (snd (FlightCore_deriveDt (counted c) (sf_timestampUs f))))\<lparr>fc_lastMotor := m\<rparr>,
          \<lparr>af_timestampUs = sf_timestampUs f, af_motor = m\<rparr>)"
proof -
  have acc: "FlightCore_acceptsTimestamp (counted c) ts = FlightCore_acceptsTimestamp c ts" for ts
    by (simp add: FlightCore_acceptsTimestamp_def counted_def)
  have step: "FlightCore_step fe c f =
     (let (c', motor) =
            (if rc_killSwitch (sf_rc f) then (step_kill fe (counted c) f, replicate 4 0)
             else if \<not> isFrameFinite f
             then (counted c\<lparr>fc_invalidFrameCount := fc_invalidFrameCount (counted c) + 1\<rparr>, fc_lastMotor c)
             else if \<not> FlightCore_acceptsTimestamp c (sf_timestampUs f)
             then (counted c\<lparr>fc_staleFrameCount := fc_staleFrameCount (counted c) + 1\<rparr>, fc_lastMotor c)
             else step_accepted fe (counted c) f)
      in (c', \<lparr>af_timestampUs = sf_timestampUs f, af_motor = motor\<rparr>))"
    by (simp add: FlightCore_step_def Let_def counted_def[symmetric] acc)
  have comm: "x\<lparr>fc_invalidFrameCount := n, fc_staleFrameCount := fc_staleFrameCount x\<rparr> = x\<lparr>fc_invalidFrameCount := n\<rparr>"
    "x\<lparr>fc_invalidFrameCount := fc_invalidFrameCount x, fc_staleFrameCount := k\<rparr> = x\<lparr>fc_staleFrameCount := k\<rparr>"
    for x :: flight_core and n k by simp_all
  consider "rc_killSwitch (sf_rc f)"
    | "\<not> rc_killSwitch (sf_rc f)" "\<not> isFrameFinite f"
    | "\<not> rc_killSwitch (sf_rc f)" "isFrameFinite f" "\<not> FlightCore_acceptsTimestamp c (sf_timestampUs f)"
    | "accepted c f" "\<not> sf_imuValid f" | "accepted c f" "sf_imuValid f"
    by (auto simp: accepted_def)
  then show thesis
  proof cases
    case 1
    then show ?thesis using Kill by (simp add: step)
  next
    case 2
    show ?thesis
    proof (rule Rejected)
      show "FlightCore_step fe c f =
         (counted c\<lparr>fc_invalidFrameCount := fc_invalidFrameCount (counted c) + 1,
                     fc_staleFrameCount := fc_staleFrameCount (counted c)\<rparr>,
          \<lparr>af_timestampUs = sf_timestampUs f, af_motor = fc_lastMotor c\<rparr>)"
        unfolding comm(1) step using 2 by (simp only: if_False if_True not_not prod.case Let_def not_True_eq_False not_False_eq_True)
    qed (use 2 in \<open>simp_all add: accepted_def\<close>)
  next
    case 3
    show ?thesis
    proof (rule Rejected)
      show "FlightCore_step fe c f =
         (counted c\<lparr>fc_invalidFrameCount := fc_invalidFrameCount (counted c),
                     fc_staleFrameCount := fc_staleFrameCount (counted c) + 1\<rparr>,
          \<lparr>af_timestampUs = sf_timestampUs f, af_motor = fc_lastMotor c\<rparr>)"
        unfolding comm(2) step using 3 by (simp only: if_False if_True not_not prod.case Let_def not_True_eq_False not_False_eq_True)
    qed (use 3 in \<open>simp_all add: accepted_def\<close>)
  next
    case 4
    then show ?thesis using NoImu by (simp add: step accepted_def step_accepted_def split_beta timed_def)
  next
    case 5
    then show ?thesis using Flown
      by (simp add: step accepted_def step_accepted_def Let_def split_beta timed_def[symmetric]
          estimated_def[symmetric] advanced_def[symmetric])
  qed
qed

text \<open>Fields no transition writes.\<close>

lemma tilt_frame2 [frame_simps]:
  "fc_attitudeEstimator (fst (FlightCore_tiltCutoffConfirmed c f)) = fc_attitudeEstimator c"
  "fc_verticalEstimator (fst (FlightCore_tiltCutoffConfirmed c f)) = fc_verticalEstimator c"
  "fc_prevTimestampUs (fst (FlightCore_tiltCutoffConfirmed c f)) = fc_prevTimestampUs c"
  "fc_hasPrevTimestamp (fst (FlightCore_tiltCutoffConfirmed c f)) = fc_hasPrevTimestamp c"
  "fc_tuning (fst (FlightCore_tiltCutoffConfirmed c f)) = fc_tuning c"
  "fc_stickDown (fst (FlightCore_tiltCutoffConfirmed c f)) = fc_stickDown c"
  "fc_stickCentered (fst (FlightCore_tiltCutoffConfirmed c f)) = fc_stickCentered c"
  by (simp_all add: FlightCore_tiltCutoffConfirmed_def)

lemma cutoff_frame2 [frame_simps]:
  "fc_attitudeEstimator (fst (FlightCore_cutoffTripped c f)) = fc_attitudeEstimator c"
  "fc_verticalEstimator (fst (FlightCore_cutoffTripped c f)) = fc_verticalEstimator c"
  "fc_prevTimestampUs (fst (FlightCore_cutoffTripped c f)) = fc_prevTimestampUs c"
  "fc_hasPrevTimestamp (fst (FlightCore_cutoffTripped c f)) = fc_hasPrevTimestamp c"
  "fc_tuning (fst (FlightCore_cutoffTripped c f)) = fc_tuning c"
  "fc_stickDown (fst (FlightCore_cutoffTripped c f)) = fc_stickDown c"
  "fc_stickCentered (fst (FlightCore_cutoffTripped c f)) = fc_stickCentered c"
  by (simp_all add: FlightCore_cutoffTripped_def frame_simps)

lemma latches_frame2 [frame_simps]:
  "fc_attitudeEstimator (FlightCore_stickLatches c f) = fc_attitudeEstimator c"
  "fc_verticalEstimator (FlightCore_stickLatches c f) = fc_verticalEstimator c"
  "fc_prevTimestampUs (FlightCore_stickLatches c f) = fc_prevTimestampUs c"
  "fc_hasPrevTimestamp (FlightCore_stickLatches c f) = fc_hasPrevTimestamp c"
  "fc_tuning (FlightCore_stickLatches c f) = fc_tuning c"
  by (simp_all add: FlightCore_stickLatches_def Let_def)

lemma advance_idle_frame2 [frame_simps]:
  "fc_attitudeEstimator (advance_idle c f) = fc_attitudeEstimator c"
  "fc_verticalEstimator (advance_idle c f) = fc_verticalEstimator c"
  "fc_prevTimestampUs (advance_idle c f) = fc_prevTimestampUs c"
  "fc_hasPrevTimestamp (advance_idle c f) = fc_hasPrevTimestamp c"
  "fc_tuning (advance_idle c f) = fc_tuning c"
  "fc_throwDetector (advance_idle c f) = fc_throwDetector c"
  "fc_stickDown (advance_idle c f) = fc_stickDown c"
  "fc_stickCentered (advance_idle c f) = fc_stickCentered c"
  by (simp_all add: advance_idle_def Let_def split_beta frame_simps)

lemma advance_piloted_frame2 [frame_simps]:
  "fc_attitudeEstimator (advance_piloted c f) = fc_attitudeEstimator c"
  "fc_verticalEstimator (advance_piloted c f) = fc_verticalEstimator c"
  "fc_prevTimestampUs (advance_piloted c f) = fc_prevTimestampUs c"
  "fc_hasPrevTimestamp (advance_piloted c f) = fc_hasPrevTimestamp c"
  "fc_tuning (advance_piloted c f) = fc_tuning c"
  "fc_throwDetector (advance_piloted c f) = fc_throwDetector c"
  "fc_stickDown (advance_piloted c f) = fc_stickDown c"
  "fc_stickCentered (advance_piloted c f) = fc_stickCentered c"
  by (simp_all add: advance_piloted_def Let_def split_beta frame_simps)

lemma advance_armed_frame2 [frame_simps]:
  "fc_attitudeEstimator (advance_armed c f) = fc_attitudeEstimator c"
  "fc_verticalEstimator (advance_armed c f) = fc_verticalEstimator c"
  "fc_prevTimestampUs (advance_armed c f) = fc_prevTimestampUs c"
  "fc_hasPrevTimestamp (advance_armed c f) = fc_hasPrevTimestamp c"
  "fc_tuning (advance_armed c f) = fc_tuning c"
  "fc_throwDetector (advance_armed c f) = fc_throwDetector c"
  "fc_stickDown (advance_armed c f) = fc_stickDown c"
  "fc_stickCentered (advance_armed c f) = fc_stickCentered c"
  by (simp_all add: advance_armed_def Let_def split_beta frame_simps)

lemma advance_ballistic_frame2 [frame_simps]:
  "fc_attitudeEstimator (advance_ballistic c f) = fc_attitudeEstimator c"
  "fc_verticalEstimator (advance_ballistic c f) = fc_verticalEstimator c"
  "fc_prevTimestampUs (advance_ballistic c f) = fc_prevTimestampUs c"
  "fc_hasPrevTimestamp (advance_ballistic c f) = fc_hasPrevTimestamp c"
  "fc_tuning (advance_ballistic c f) = fc_tuning c"
  "fc_throwDetector (advance_ballistic c f) = fc_throwDetector c"
  "fc_stickDown (advance_ballistic c f) = fc_stickDown c"
  "fc_stickCentered (advance_ballistic c f) = fc_stickCentered c"
  by (simp_all add: advance_ballistic_def Let_def split_beta frame_simps)

lemma advance_recovery_frame2 [frame_simps]:
  "fc_attitudeEstimator (advance_recovery c f) = fc_attitudeEstimator c"
  "fc_verticalEstimator (advance_recovery c f) = fc_verticalEstimator c"
  "fc_prevTimestampUs (advance_recovery c f) = fc_prevTimestampUs c"
  "fc_hasPrevTimestamp (advance_recovery c f) = fc_hasPrevTimestamp c"
  "fc_tuning (advance_recovery c f) = fc_tuning c"
  "fc_throwDetector (advance_recovery c f) = fc_throwDetector c"
  "fc_stickDown (advance_recovery c f) = fc_stickDown c"
  "fc_stickCentered (advance_recovery c f) = fc_stickCentered c"
  by (simp_all add: advance_recovery_def Let_def split_beta frame_simps)

lemma advance_hover_frame2 [frame_simps]:
  "fc_attitudeEstimator (advance_hover c f) = fc_attitudeEstimator c"
  "fc_verticalEstimator (advance_hover c f) = fc_verticalEstimator c"
  "fc_prevTimestampUs (advance_hover c f) = fc_prevTimestampUs c"
  "fc_hasPrevTimestamp (advance_hover c f) = fc_hasPrevTimestamp c"
  "fc_tuning (advance_hover c f) = fc_tuning c"
  "fc_throwDetector (advance_hover c f) = fc_throwDetector c"
  "fc_stickDown (advance_hover c f) = fc_stickDown c"
  "fc_stickCentered (advance_hover c f) = fc_stickCentered c"
  by (simp_all add: advance_hover_def Let_def split_beta frame_simps)

lemma advance_cutoff_frame2 [frame_simps]:
  "fc_attitudeEstimator (advance_cutoff c f) = fc_attitudeEstimator c"
  "fc_verticalEstimator (advance_cutoff c f) = fc_verticalEstimator c"
  "fc_prevTimestampUs (advance_cutoff c f) = fc_prevTimestampUs c"
  "fc_hasPrevTimestamp (advance_cutoff c f) = fc_hasPrevTimestamp c"
  "fc_tuning (advance_cutoff c f) = fc_tuning c"
  "fc_throwDetector (advance_cutoff c f) = fc_throwDetector c"
  "fc_stickDown (advance_cutoff c f) = fc_stickDown c"
  "fc_stickCentered (advance_cutoff c f) = fc_stickCentered c"
  by (simp_all add: advance_cutoff_def Let_def split_beta frame_simps)

lemma advance_estimators [frame_simps]:
  "fc_attitudeEstimator (FlightCore_advancePhase c f) = fc_attitudeEstimator c"
  "fc_verticalEstimator (FlightCore_advancePhase c f) = fc_verticalEstimator c"
  "fc_prevTimestampUs (FlightCore_advancePhase c f) = fc_prevTimestampUs c"
  "fc_hasPrevTimestamp (FlightCore_advancePhase c f) = fc_hasPrevTimestamp c"
  "fc_tuning (FlightCore_advancePhase c f) = fc_tuning c"
  "fc_throwDetector (FlightCore_advancePhase c f) = fc_throwDetector c"
  "fc_stickDown (FlightCore_advancePhase c f) = fc_stickDown (FlightCore_stickLatches c f)"
  "fc_stickCentered (FlightCore_advancePhase c f) = fc_stickCentered (FlightCore_stickLatches c f)"
  by (cases "fc_phase c"; simp add: FlightCore_advancePhase_def Let_def frame_simps)+

lemma brake_frame2 [frame_simps]:
  "fc_attitudeEstimator (brake_latch c f) = fc_attitudeEstimator c"
  "fc_verticalEstimator (brake_latch c f) = fc_verticalEstimator c"
  "fc_prevTimestampUs (brake_latch c f) = fc_prevTimestampUs c"
  "fc_hasPrevTimestamp (brake_latch c f) = fc_hasPrevTimestamp c"
  "fc_tuning (brake_latch c f) = fc_tuning c"
  "fc_stickDown (brake_latch c f) = fc_stickDown c"
  "fc_stickCentered (brake_latch c f) = fc_stickCentered c"
  by (simp_all add: brake_latch_def Let_def)

lemma control_off_frame2 [frame_simps]:
  "fc_attitudeEstimator (fst (control_off c)) = fc_attitudeEstimator c"
  "fc_verticalEstimator (fst (control_off c)) = fc_verticalEstimator c"
  "fc_prevTimestampUs (fst (control_off c)) = fc_prevTimestampUs c"
  "fc_hasPrevTimestamp (fst (control_off c)) = fc_hasPrevTimestamp c"
  "fc_tuning (fst (control_off c)) = fc_tuning c"
  "fc_stickDown (fst (control_off c)) = fc_stickDown c"
  "fc_stickCentered (fst (control_off c)) = fc_stickCentered c"
  by (simp_all add: control_off_def Let_def split_beta frame_simps)

lemma control_recovery_frame2 [frame_simps]:
  "fc_attitudeEstimator (fst (control_recovery c f dt)) = fc_attitudeEstimator c"
  "fc_verticalEstimator (fst (control_recovery c f dt)) = fc_verticalEstimator c"
  "fc_prevTimestampUs (fst (control_recovery c f dt)) = fc_prevTimestampUs c"
  "fc_hasPrevTimestamp (fst (control_recovery c f dt)) = fc_hasPrevTimestamp c"
  "fc_tuning (fst (control_recovery c f dt)) = fc_tuning c"
  "fc_stickDown (fst (control_recovery c f dt)) = fc_stickDown c"
  "fc_stickCentered (fst (control_recovery c f dt)) = fc_stickCentered c"
  by (simp_all add: control_recovery_def Let_def split_beta frame_simps)

lemma control_hover_frame2 [frame_simps]:
  "fc_attitudeEstimator (fst (control_hover c f dt)) = fc_attitudeEstimator c"
  "fc_verticalEstimator (fst (control_hover c f dt)) = fc_verticalEstimator c"
  "fc_prevTimestampUs (fst (control_hover c f dt)) = fc_prevTimestampUs c"
  "fc_hasPrevTimestamp (fst (control_hover c f dt)) = fc_hasPrevTimestamp c"
  "fc_tuning (fst (control_hover c f dt)) = fc_tuning c"
  "fc_stickDown (fst (control_hover c f dt)) = fc_stickDown c"
  "fc_stickCentered (fst (control_hover c f dt)) = fc_stickCentered c"
  by (simp_all add: control_hover_def Let_def split_beta frame_simps)

lemma control_direct_frame2 [frame_simps]:
  "fc_attitudeEstimator (fst (control_direct c f dt)) = fc_attitudeEstimator c"
  "fc_verticalEstimator (fst (control_direct c f dt)) = fc_verticalEstimator c"
  "fc_prevTimestampUs (fst (control_direct c f dt)) = fc_prevTimestampUs c"
  "fc_hasPrevTimestamp (fst (control_direct c f dt)) = fc_hasPrevTimestamp c"
  "fc_tuning (fst (control_direct c f dt)) = fc_tuning c"
  "fc_stickDown (fst (control_direct c f dt)) = fc_stickDown c"
  "fc_stickCentered (fst (control_direct c f dt)) = fc_stickCentered c"
  by (simp_all add: control_direct_def Let_def split_beta frame_simps)

lemma control_estimators [frame_simps]:
  "fc_attitudeEstimator (fst (FlightCore_runControl c f dt)) = fc_attitudeEstimator c"
  "fc_verticalEstimator (fst (FlightCore_runControl c f dt)) = fc_verticalEstimator c"
  "fc_prevTimestampUs (fst (FlightCore_runControl c f dt)) = fc_prevTimestampUs c"
  "fc_hasPrevTimestamp (fst (FlightCore_runControl c f dt)) = fc_hasPrevTimestamp c"
  "fc_tuning (fst (FlightCore_runControl c f dt)) = fc_tuning c"
  "fc_stickDown (fst (FlightCore_runControl c f dt)) = fc_stickDown c"
  "fc_stickCentered (fst (FlightCore_runControl c f dt)) = fc_stickCentered c"
  by (cases "fc_phase c"; simp add: FlightCore_runControl_def frame_simps)+

lemma counted_more [simp]:
  "fc_attitudeEstimator (counted c) = fc_attitudeEstimator c" "fc_verticalEstimator (counted c) = fc_verticalEstimator c"
  "fc_stickDown (counted c) = fc_stickDown c" "fc_stickCentered (counted c) = fc_stickCentered c"
  "fc_brakeDone (counted c) = fc_brakeDone c" "fc_tuning (counted c) = fc_tuning c"
  by (simp_all add: counted_def)

lemma timed_more [simp]:
  "fc_attitudeEstimator (timed c f) = fc_attitudeEstimator c" "fc_verticalEstimator (timed c f) = fc_verticalEstimator c"
  "fc_stickDown (timed c f) = fc_stickDown c" "fc_stickCentered (timed c f) = fc_stickCentered c"
  "fc_brakeDone (timed c f) = fc_brakeDone c" "fc_tuning (timed c f) = fc_tuning c"
  "fc_prevTimestampUs (timed c f) = sf_timestampUs f" "fc_hasPrevTimestamp (timed c f)"
  by (simp_all add: timed_def FlightCore_deriveDt_def Let_def)

lemma estimated_time [simp]:
  "fc_prevTimestampUs (estimated fe c f) = sf_timestampUs f" "fc_hasPrevTimestamp (estimated fe c f)"
  by (simp_all add: estimated_def FlightCore_updateEstimators_def Let_def)

text \<open>What a flown frame leaves in the estimators, and which phase and sticks it ends in.\<close>

abbreviation frame_dt :: "flight_core \<Rightarrow> sensor_frame \<Rightarrow> f32" where
  "frame_dt c f \<equiv> snd (FlightCore_deriveDt (counted c) (sf_timestampUs f))"

lemma flown_step:
  assumes "accepted c f" "sf_imuValid f"
  shows "fc_attitudeEstimator (fst (FlightCore_step fe c f)) = fc_attitudeEstimator (estimated fe c f)"
    and "fc_verticalEstimator (fst (FlightCore_step fe c f)) = fc_verticalEstimator (estimated fe c f)"
    and "fc_throwDetector (fst (FlightCore_step fe c f)) = fc_throwDetector (estimated fe c f)"
    and "fc_handledThrowCount (fst (FlightCore_step fe c f)) = fc_handledThrowCount (advanced fe c f)"
    and "fc_phase (fst (FlightCore_step fe c f)) = fc_phase (advanced fe c f)"
    and "fc_stickDown (fst (FlightCore_step fe c f)) = fc_stickDown (advanced fe c f)"
    and "fc_stickCentered (fst (FlightCore_step fe c f)) = fc_stickCentered (advanced fe c f)"
    and "fc_prevTimestampUs (fst (FlightCore_step fe c f)) = sf_timestampUs f"
    and "fc_hasPrevTimestamp (fst (FlightCore_step fe c f))"
proof -
  have eq: "fst (FlightCore_step fe c f) = fst (FlightCore_runControl (advanced fe c f) f (frame_dt c f))
      \<lparr>fc_lastMotor := snd (FlightCore_runControl (advanced fe c f) f (frame_dt c f))\<rparr>"
    by (cases rule: step_cases[of f fe c]) (use assms in \<open>simp_all add: accepted_def\<close>)
  note adv = advance_estimators[of "estimated fe c f" f, folded advanced_def]
  show "fc_attitudeEstimator (fst (FlightCore_step fe c f)) = fc_attitudeEstimator (estimated fe c f)"
    "fc_verticalEstimator (fst (FlightCore_step fe c f)) = fc_verticalEstimator (estimated fe c f)"
    "fc_throwDetector (fst (FlightCore_step fe c f)) = fc_throwDetector (estimated fe c f)"
    "fc_handledThrowCount (fst (FlightCore_step fe c f)) = fc_handledThrowCount (advanced fe c f)"
    "fc_phase (fst (FlightCore_step fe c f)) = fc_phase (advanced fe c f)"
    "fc_stickDown (fst (FlightCore_step fe c f)) = fc_stickDown (advanced fe c f)"
    "fc_stickCentered (fst (FlightCore_step fe c f)) = fc_stickCentered (advanced fe c f)"
    "fc_prevTimestampUs (fst (FlightCore_step fe c f)) = sf_timestampUs f"
    "fc_hasPrevTimestamp (fst (FlightCore_step fe c f))"
    unfolding eq by (simp_all add: control_estimators control_frame adv)
qed

lemma estimated_fields:
  "fc_attitudeEstimator (estimated fe c f) =
     AttitudeEstimator_update fe (fc_attitudeEstimator c) f (frame_dt c f)
       (\<not> (fc_phase c = PH_RECOVERY \<or> fc_phase c = PH_HOVER \<and> \<not> fc_brakeDone c))"
  "fc_verticalEstimator (estimated fe c f) =
     VerticalEstimator_update fe (fc_verticalEstimator c) f (frame_dt c f)
       (ae_attitude (fc_attitudeEstimator (estimated fe c f)))"
  "fc_throwDetector (estimated fe c f) =
     ThrowDetector_update fe (fc_throwDetector c) f
       (ve_velocityMps (fc_verticalEstimator (estimated fe c f)))
       (ve_altitudeM (fc_verticalEstimator (estimated fe c f)))"
  by (simp_all add: estimated_def FlightCore_updateEstimators_def Let_def)

lemma estimated_sticks [simp]:
  "fc_stickDown (estimated fe c f) = fc_stickDown c" "fc_stickCentered (estimated fe c f) = fc_stickCentered c"
  by (simp_all add: estimated_def FlightCore_updateEstimators_def Let_def)

lemma advance_disarmed:
  assumes "\<not> rc_armSwitch (sf_rc f)"
  shows "fc_phase (FlightCore_advancePhase c f) = (if fc_phase c = PH_FAULT then PH_FAULT else PH_IDLE)"
  using assms
  by (cases "fc_phase c")
    (simp_all add: FlightCore_advancePhase_def Let_def frame_simps advance_idle_def advance_piloted_def
      advance_armed_def advance_ballistic_def advance_recovery_def advance_hover_def advance_cutoff_def)

section \<open>Motors\<close>

text \<open>A phase that keeps the motors stopped, and a command inside its range (a NaN compares false).\<close>

definition grounded :: "flight_phase \<Rightarrow> bool" where
  "grounded p \<longleftrightarrow> p \<in> {PH_IDLE, PH_ARMED, PH_BALLISTIC, PH_CUTOFF, PH_FAULT}"

definition motor_ok :: "f32 \<Rightarrow> bool" where
  "motor_ok m \<longleftrightarrow> \<not> m < 0 \<and> \<not> m > lit 1 1"

lemma zeros4: "replicate 4 (0 :: f32) = [0, 0, 0, 0]"
  by (simp add: numeral_eq_Suc)

lemma lit_one: "lit (Suc 0) (Suc 0) = Fin False UNIT"
  by (simp add: float_eval cong: let_weak_cong)

lemma zero_motor [simp]: "motor_ok 0" "\<not> motors_on (replicate n 0)"
  by (simp_all add: motor_ok_def motors_on_def lit_one zero_f32_def)

lemma clampCommand_ok [simp]: "motor_ok (clampCommand v)"
  by (simp add: clampCommand_def motor_ok_def lit_one zero_f32_def)

lemma mixMotors_ok: "length (mixMotors col t) = 4 \<and> (\<forall>m \<in> set (mixMotors col t). motor_ok m)"
  by (simp add: mixMotors_def Let_def)

lemma runControl_motors:
  "length (snd (FlightCore_runControl c f dt)) = 4"
  "\<forall>m \<in> set (snd (FlightCore_runControl c f dt)). motor_ok m"
  using mixMotors_ok
  by (auto simp: FlightCore_runControl_def control_defs Let_def split_beta split: flight_phase.split)

lemma runControl_grounded:
  "grounded (fc_phase c) \<Longrightarrow> snd (FlightCore_runControl c f dt) = replicate 4 0"
  by (auto simp: FlightCore_runControl_def grounded_def control_off_def)

lemma kill_frame [frame_simps]:
  "fc_phase (step_kill fe c f) = PH_IDLE" "fc_lockedMode (step_kill fe c f) = PM_MANUAL"
  "fc_lastMotor (step_kill fe c f) = replicate 4 0"
  by (simp_all add: step_kill_def Let_def split_beta frame_simps)

text \<open>The four outcomes of a frame without an IMU.\<close>

lemma without_imu_cases:
  obtains (Fault) "motors_on (fc_lastMotor c)" "fc_imuInvalidRun c + 1 \<ge> IMU_FAULT_FRAMES"
      "fc_phase (fst (FlightCore_stepWithoutImu c f)) = PH_FAULT"
      "fc_lastMotor (fst (FlightCore_stepWithoutImu c f)) = replicate 4 0"
      "fc_lockedMode (fst (FlightCore_stepWithoutImu c f)) = fc_lockedMode c"
  | (Ended) "\<not> motors_on (fc_lastMotor c)" "\<not> rc_armSwitch (sf_rc f)" "fc_phase c \<noteq> PH_FAULT"
      "fc_phase (fst (FlightCore_stepWithoutImu c f)) = PH_IDLE"
      "fc_lastMotor (fst (FlightCore_stepWithoutImu c f)) = fc_lastMotor c"
      "fc_lockedMode (fst (FlightCore_stepWithoutImu c f)) = PM_MANUAL"
  | (Held) "motors_on (fc_lastMotor c) \<longrightarrow> fc_imuInvalidRun c + 1 < IMU_FAULT_FRAMES"
      "motors_on (fc_lastMotor c) \<or> rc_armSwitch (sf_rc f) \<or> fc_phase c = PH_FAULT"
      "FlightCore_stepWithoutImu c f =
         (c\<lparr>fc_imuInvalidRun := fc_imuInvalidRun c + 1\<rparr>, fc_lastMotor c)"
proof -
  consider "motors_on (fc_lastMotor c)" "fc_imuInvalidRun c + 1 \<ge> IMU_FAULT_FRAMES"
    | "\<not> motors_on (fc_lastMotor c)" "\<not> rc_armSwitch (sf_rc f)" "fc_phase c \<noteq> PH_FAULT"
    | "motors_on (fc_lastMotor c) \<longrightarrow> fc_imuInvalidRun c + 1 < IMU_FAULT_FRAMES"
      "motors_on (fc_lastMotor c) \<or> rc_armSwitch (sf_rc f) \<or> fc_phase c = PH_FAULT"
    by fastforce
  then show thesis
  proof cases
    case 1
    then show ?thesis using Fault by (simp add: FlightCore_stepWithoutImu_def Let_def)
  next
    case 2
    then show ?thesis using Ended by (simp add: FlightCore_stepWithoutImu_def Let_def frame_simps)
  next
    case 3
    then show ?thesis using Held
      by (auto simp: FlightCore_stepWithoutImu_def Let_def linorder_not_le[symmetric])
  qed
qed

lemma without_imu_out:
  "snd (FlightCore_stepWithoutImu c f) = fc_lastMotor (fst (FlightCore_stepWithoutImu c f))"
  by (simp add: FlightCore_stepWithoutImu_def Let_def)

lemma step_output: "af_motor (snd (FlightCore_step fe c f)) = fc_lastMotor (fst (FlightCore_step fe c f))"
  by (rule step_cases[of f fe c]) (simp_all add: frame_simps without_imu_out)

definition core_motors_ok :: "flight_core \<Rightarrow> bool" where
  "core_motors_ok c \<longleftrightarrow>
     length (fc_lastMotor c) = 4 \<and> (\<forall>m \<in> set (fc_lastMotor c). motor_ok m)
     \<and> (fc_phase c = PH_IDLE \<longrightarrow> \<not> motors_on (fc_lastMotor c))
     \<and> (grounded (fc_phase c) \<and> fc_phase c \<noteq> PH_IDLE \<longrightarrow> fc_lastMotor c = replicate 4 0)"

lemma core_motors_ok_zero: "fc_lastMotor c = replicate 4 0 \<Longrightarrow> core_motors_ok c"
  by (simp add: core_motors_ok_def)

lemma step_motors_ok:
  assumes "core_motors_ok c"
  shows "core_motors_ok (fst (FlightCore_step fe c f))"
proof (cases rule: step_cases[of f fe c])
  case Kill
  then show ?thesis by (simp add: core_motors_ok_zero frame_simps)
next
  case (Rejected n k)
  with assms show ?thesis by (simp add: core_motors_ok_def)
next
  case NoImu
  have t: "core_motors_ok (timed c f)" using assms by (simp add: core_motors_ok_def)
  show ?thesis
  proof (cases rule: without_imu_cases[of "timed c f" f])
    case Fault
    then show ?thesis using NoImu by (simp add: core_motors_ok_zero)
  next
    case Ended
    then show ?thesis using NoImu assms by (simp add: core_motors_ok_def)
  next
    case Held
    then show ?thesis using NoImu t by (simp add: core_motors_ok_def)
  qed
next
  case (Flown m)
  let ?c = "advanced fe c f" and ?dt = "snd (FlightCore_deriveDt (counted c) (sf_timestampUs f))"
  have "length m = 4" "\<forall>x \<in> set m. motor_ok x" "grounded (fc_phase ?c) \<Longrightarrow> m = replicate 4 0"
    using runControl_motors[of ?c f ?dt] runControl_grounded[of ?c f ?dt] Flown(3) by simp_all
  then show ?thesis using Flown(4) by (auto simp: core_motors_ok_def frame_simps grounded_def)
qed

interpretation motors: core_invariant fe core_motors_ok for fe
proof
  fix c f i v
  show "core_motors_ok (FlightCore_init fe)" by (simp add: FlightCore_init_def core_motors_ok_zero)
  show "core_motors_ok c \<Longrightarrow> core_motors_ok (fst (FlightCore_step fe c f))" by (rule step_motors_ok)
  show "core_motors_ok c \<Longrightarrow> core_motors_ok (fst (FlightCore_setParam fe c i v))"
    by (simp add: core_motors_ok_def frame_simps)
qed

text \<open>A fresh core and a frame with nothing wrong, for the witnesses.\<close>

abbreviation "fresh \<equiv> FlightCore_init quiet_env"

definition frame_at :: "u64 \<Rightarrow> bool \<Rightarrow> bool \<Rightarrow> bool \<Rightarrow> sensor_frame" where
  "frame_at ts kill arm imu =
     SensorFrame_init\<lparr>sf_timestampUs := ts, sf_imuValid := imu, sf_baroValid := True,
       sf_rc := RcInput_init\<lparr>rc_killSwitch := kill, rc_armSwitch := arm\<rparr>\<rparr>"

lemma frame_at_simps [simp]:
  "sf_timestampUs (frame_at ts kill arm imu) = ts" "sf_imuValid (frame_at ts kill arm imu) = imu"
  "rc_killSwitch (sf_rc (frame_at ts kill arm imu)) = kill"
  "rc_armSwitch (sf_rc (frame_at ts kill arm imu)) = arm"
  "isFrameFinite (frame_at ts kill arm imu)"
  by (simp_all add: frame_at_def SensorFrame_init_def RcInput_init_def isFrameFinite_def zero_f32_def
      vnth_def)


end
