(* ===== verification/Flight_Scenario.thy ===== *)
theory Flight_Scenario
  imports Flight_Step
begin

text \<open>
  A concrete flight, for the examples of the theories below: fifty frames at
  rest, which capture the reference of the vertical estimator, then the pilot's
  switches and a throw. Frames a tenth of a second apart are gaps in the
  stream, so no module integrates over them unless the scenario wants it to.
\<close>

definition rest_gap :: u64 where "rest_gap = 100000"

definition scene :: "u64 \<Rightarrow> f32 \<Rightarrow> f32 \<Rightarrow> bool \<Rightarrow> pilot_mode \<Rightarrow> f32 \<Rightarrow> sensor_frame" where
  "scene ts accel_z baro arm mode throttle =
     \<lparr>sf_timestampUs = ts, sf_imuValid = True, sf_baroValid = True, sf_gyroRadS = zero3,
      sf_accelMps2 = V3 0 0 accel_z, sf_baroPa = baro,
      sf_rc = RcInput_init\<lparr>rc_killSwitch := False, rc_armSwitch := arm, rc_mode := mode,
                            rc_throttle := throttle\<rparr>\<rparr>"

definition rest_frame :: "nat \<Rightarrow> sensor_frame" where
  "rest_frame n = scene (of_nat n * rest_gap) GRAVITY_MPS2 (lit 101325 1) False PM_MANUAL 0"

lemma scene_sel [simp]:
  "sf_timestampUs (scene ts a b arm m th) = ts" "sf_imuValid (scene ts a b arm m th)"
  "sf_baroValid (scene ts a b arm m th)" "sf_gyroRadS (scene ts a b arm m th) = zero3"
  "sf_accelMps2 (scene ts a b arm m th) = V3 0 0 a" "sf_baroPa (scene ts a b arm m th) = b"
  "rc_killSwitch (sf_rc (scene ts a b arm m th)) = False"
  "rc_armSwitch (sf_rc (scene ts a b arm m th)) = arm" "rc_mode (sf_rc (scene ts a b arm m th)) = m"
  "rc_throttle (sf_rc (scene ts a b arm m th)) = th"
  by (simp_all add: scene_def RcInput_init_def)

lemma scene_finite: "isfinite a \<Longrightarrow> isfinite b \<Longrightarrow> isfinite th \<Longrightarrow> isFrameFinite (scene ts a b arm m th)"
  by (simp add: isFrameFinite_def scene_def RcInput_init_def vnth_def zero_f32_def)

section \<open>The numbers of the scenario\<close>

lemma zero_norm: "norm3 zero3 = 0"
  by (simp add: norm3_def vnth_def float_eval cong: let_weak_cong)

lemma rest_norm:
  "fabsf (norm3 (V3 0 0 GRAVITY_MPS2) - GRAVITY_MPS2) < lit (Suc 0) (Suc 0)"
  "\<not> THRUST_THRESHOLD_MPS2 \<le> norm3 (V3 0 0 GRAVITY_MPS2)"
  by (simp_all add: norm3_def vnth_def GRAVITY_MPS2_def THRUST_THRESHOLD_MPS2_def float_eval cong: let_weak_cong)

lemma rest_numbers:
  "isfinite GRAVITY_MPS2" "isfinite (lit 101325 (Suc 0))" "isfinite 0"
  "0 < lit 15 10" "lit 30000 (Suc 0) \<le> lit 101325 (Suc 0)" "lit 101325 (Suc 0) \<le> lit 110000 (Suc 0)"
  by (simp_all add: GRAVITY_MPS2_def float_eval cong: let_weak_cong)

lemma gap_dt: "float_of (100000 :: u64) / CORE_US_PER_S > MAX_STEP_S"
  by (simp add: CORE_US_PER_S_def MAX_STEP_S_def float_eval cong: let_weak_cong)

lemma rest_frame_seen:
  "baro_plausible (rest_frame n)" "frame_resting (rest_frame n)" "isFrameFinite (rest_frame n)"
  by (simp_all add: rest_frame_def baro_plausible_def frame_resting_def scene_finite zero_norm rest_norm rest_numbers
      MIN_PLAUSIBLE_PA_def MAX_PLAUSIBLE_PA_def REFERENCE_ACCEL_GATE_MPS2_def REFERENCE_GYRO_QUIET_RADS_def)

section \<open>At rest\<close>

definition rested :: "nat \<Rightarrow> flight_core \<Rightarrow> bool" where
  "rested n c \<longleftrightarrow>
     fc_phase c = PH_IDLE \<and> fc_stickDown c \<and> (fc_hasPrevTimestamp c \<longleftrightarrow> 0 < n)
     \<and> fc_prevTimestampUs c = of_nat n * rest_gap
     \<and> fc_attitudeEstimator c = AttitudeEstimator_init \<and> fc_throwDetector c = ThrowDetector_init
     \<and> ve_referenceCount (fc_verticalEstimator c) = of_nat n
     \<and> (ve_ready (fc_verticalEstimator c) \<longleftrightarrow> 50 \<le> n)
     \<and> ve_velocityMps (fc_verticalEstimator c) = 0"

lemma rested_start: "rested 0 (FlightCore_init fe)"
  by (simp add: rested_def FlightCore_init_def VerticalEstimator_init_def)

lemma rested_dt:
  assumes "rested n c"
  shows "snd (FlightCore_deriveDt (counted c) (of_nat (Suc n) * rest_gap)) = 0"
  using assms gap_dt
  by (cases n) (simp_all add: rested_def FlightCore_deriveDt_def Let_def counted_def rest_gap_def algebra_simps)

lemma of_nat_less_small: "a < b \<Longrightarrow> b \<le> 1000 \<Longrightarrow> (of_nat a :: u64) * rest_gap < of_nat b * rest_gap"
  by (simp add: word_less_nat_alt rest_gap_def unat_word_ariths unat_of_nat)

lemma rest_accepted:
  assumes "rested n c" "n < 50"
  shows "accepted c (rest_frame (Suc n))"
proof -
  have "isFrameFinite (rest_frame (Suc n))" by (rule rest_frame_seen)
  moreover have "FlightCore_acceptsTimestamp c (of_nat (Suc n) * rest_gap)"
    using assms of_nat_less_small[of n "Suc n"] by (simp add: FlightCore_acceptsTimestamp_def rested_def del: of_nat_Suc)
  ultimately show ?thesis by (simp add: accepted_def rest_frame_def del: of_nat_Suc)
qed

lemma stick_down_numbers: "0 < STICK_DOWN_THROTTLE"
  by (simp add: STICK_DOWN_THROTTLE_def float_eval cong: let_weak_cong)

lemma rest_reference:
  assumes "\<not> ve_ready e"
  shows "VerticalEstimator_update fe e (rest_frame k) dt q =
           reference_capture e (rest_frame k) (PressureAltitudeM fe (lit 101325 (Suc 0)))"
  using assms by (simp add: VerticalEstimator_update_def Let_def rest_frame_def)

lemma rest_capture:
  assumes "ve_referenceCount e = of_nat n" "n < 50" "\<not> ve_ready e"
  shows "ve_referenceCount (reference_capture e (rest_frame k) b) = of_nat (Suc n)
       \<and> (ve_ready (reference_capture e (rest_frame k) b) \<longleftrightarrow> 50 \<le> Suc n)
       \<and> ve_velocityMps (reference_capture e (rest_frame k) b) = ve_velocityMps e"
proof -
  have "(of_nat n + 1 :: u32) \<ge> 50 \<longleftrightarrow> 50 \<le> Suc n"
    using assms(2) by (simp add: word_le_nat_alt unat_word_ariths unat_of_nat)
  then show ?thesis
    using assms by (simp add: reference_capture_def rest_frame_seen Let_def REFERENCE_SAMPLES_def add.commute)
qed

lemma rested_step:
  assumes "rested n c" "n < 50"
  shows "rested (Suc n) (fst (FlightCore_step fe c (rest_frame (Suc n))))"
proof -
  let ?f = "rest_frame (Suc n)"
  have ts: "sf_timestampUs ?f = of_nat (Suc n) * rest_gap" "sf_imuValid ?f" "sf_accelMps2 ?f = V3 0 0 GRAVITY_MPS2"
    "\<not> rc_armSwitch (sf_rc ?f)" "rc_throttle (sf_rc ?f) = 0"
    by (simp_all add: rest_frame_def del: of_nat_Suc)
  have dt: "frame_dt c ?f = 0" unfolding ts(1) by (rule rested_dt[OF assms(1)])
  note st = flown_step[OF rest_accepted[OF assms] ts(2), of fe]
  have ae: "fc_attitudeEstimator (estimated fe c ?f) = AttitudeEstimator_init"
    unfolding estimated_fields(1) dt using assms(1) by (simp add: AttitudeEstimator_update_def zero_not_less rested_def)
  have ve: "fc_verticalEstimator (estimated fe c ?f)
      = reference_capture (fc_verticalEstimator c) ?f (PressureAltitudeM fe (lit 101325 (Suc 0)))"
    unfolding estimated_fields(2) using assms by (intro rest_reference) (simp add: rested_def)
  have td: "fc_throwDetector (estimated fe c ?f) = ThrowDetector_init"
    unfolding estimated_fields(3) using assms(1)
    by (simp add: ThrowDetector_update_def ThrowDetector_init_def Let_def rested_def ts rest_norm)
  have "fc_phase (advanced fe c ?f) = PH_IDLE" "fc_stickDown (advanced fe c ?f)"
    using assms(1) advance_disarmed[OF ts(4), of "estimated fe c ?f"]
    by (simp_all add: advanced_def rested_def frame_simps FlightCore_stickLatches_def Let_def ts(5) stick_down_numbers)
  then show ?thesis using assms st ae ve td ts(1) rest_capture[of "fc_verticalEstimator c" n "Suc n"]
    by (simp add: rested_def del: of_nat_Suc)
qed

definition rest_events :: "nat \<Rightarrow> core_event list" where
  "rest_events n = map (\<lambda>k. EvFrame (rest_frame (Suc k))) [0..<n]"

text \<open>Fifty frames at rest capture the reference: the core may leave \<^verbatim>\<open>IDLE\<close> from then on.\<close>

lemma rested_run: "n \<le> 50 \<Longrightarrow> rested n (core_run fe (FlightCore_init fe) (rest_events n))"
proof (induction n)
  case (Suc n)
  then have "rested (Suc n) (fst (FlightCore_step fe (core_run fe (FlightCore_init fe) (rest_events n)) (rest_frame (Suc n))))"
    by (intro rested_step) simp_all
  then show ?case by (simp add: rest_events_def)
qed (simp add: rest_events_def rested_start)

section \<open>A crash and a throw\<close>

lemma gap_frame_dt:
  assumes "fc_hasPrevTimestamp c" "sf_timestampUs f - fc_prevTimestampUs c = 100000"
  shows "frame_dt c f = 0"
  using assms gap_dt by (simp add: FlightCore_deriveDt_def Let_def counted_def)

lemma vertical_gap:
  "ve_ready e \<Longrightarrow> ve_velocityMps (VerticalEstimator_update fe e f 0 q) = ve_velocityMps e
     \<and> ve_ready (VerticalEstimator_update fe e f 0 q)"
  by (simp add: VerticalEstimator_update_def Let_def zero_not_less)

lemma attitude_gap: "AttitudeEstimator_update fe e f 0 b = e"
  by (simp add: AttitudeEstimator_update_def zero_not_less)

lemma crash_numbers: "CUTOFF_ACCEL_MPS2 < norm3 (V3 0 0 (lit 100 (Suc 0)))" "isfinite (lit 100 (Suc 0))"
  by (simp_all add: CUTOFF_ACCEL_MPS2_def GRAVITY_MPS2_def norm3_def vnth_def float_eval cong: let_weak_cong)

definition crash_frame :: sensor_frame where
  "crash_frame = scene (51 * rest_gap) (lit 100 1) (lit 101325 1) True PM_MANUAL 0"

text \<open>An impact on the very frame that would start a flight is a cutoff.\<close>

lemma crash_run:
  "fc_phase (core_run fe (FlightCore_init fe) (rest_events 50 @ [EvFrame crash_frame])) = PH_CUTOFF"
proof -
  define c where "c = core_run fe (FlightCore_init fe) (rest_events 50)"
  have r: "rested 50 c" unfolding c_def by (rule rested_run) simp
  have acc: "accepted c crash_frame"
    using r by (simp add: accepted_def crash_frame_def scene_finite crash_numbers rest_numbers
        FlightCore_acceptsTimestamp_def rested_def rest_gap_def)
  have dt: "frame_dt c crash_frame = 0"
    by (rule gap_frame_dt) (use r in \<open>simp_all add: rested_def crash_frame_def rest_gap_def\<close>)
  have ready: "ve_ready (fc_verticalEstimator (estimated fe c crash_frame))"
    unfolding estimated_fields(2) dt using r vertical_gap by (simp add: rested_def)
  have "ImpactTripped crash_frame" by (simp add: ImpactTripped_def crash_frame_def crash_numbers)
  then have "fc_phase (advanced fe c crash_frame) = PH_CUTOFF"
    using r ready by (simp add: advanced_def FlightCore_advancePhase_def Let_def frame_simps rested_def
        advance_idle_def FlightCore_cutoffTripped_def crash_frame_def FlightCore_stickLatches_def stick_down_numbers)
  then show ?thesis
    using flown_step(5)[OF acc, of fe] by (simp add: c_def crash_frame_def)
qed

text \<open>The numbers of the throw: 50 ms at 60 m/s2 leave the hand at 2.5 m/s.\<close>

lemma norm_60: "norm3 (V3 0 0 (lit 60 (Suc 0))) = lit 60 (Suc 0)"
  by (simp add: norm3_def vnth_def float_eval cong: let_weak_cong)

lemma step_50ms:
  "float_of (50000 :: u64) / lit 1000000 (Suc 0) = lit 5 100" "\<not> lit 5 100 < lit 5 100" "\<not> lit 5 100 \<le> 0"
  by (simp_all add: float_eval cong: let_weak_cong)

lemma level_stays_level: "quat_integrate Quaternion_init 0 0 0 (lit 5 100) = Quaternion_init"
  by (simp add: quat_integrate_def Quaternion_init_def float_eval cong: let_weak_cong)

lemma thrust_numbers:
  "0 + 0 + lit 2 (Suc 0) * 0 = (0 :: f32)"
  "THRUST_THRESHOLD_MPS2 \<le> norm3 (V3 0 0 (lit 60 (Suc 0)))"
  "\<not> fabsf (norm3 (V3 0 0 (lit 60 (Suc 0))) - GRAVITY_MPS2) < ACCEL_GATE_MPS2"
  unfolding norm_60
  by (simp_all add: THRUST_THRESHOLD_MPS2_def GRAVITY_MPS2_def ACCEL_GATE_MPS2_def
      float_eval cong: let_weak_cong)

lemma fall_numbers:
  "0 < FREE_FALL_THRESHOLD_MPS2" "\<not> THRUST_THRESHOLD_MPS2 \<le> 0"
  "\<not> MIN_PLAUSIBLE_PA \<le> 0" "isfinite (lit 60 (Suc 0))" "isfinite (lit 5 10)"
  by (simp_all add: FREE_FALL_THRESHOLD_MPS2_def THRUST_THRESHOLD_MPS2_def GRAVITY_MPS2_def MIN_PLAUSIBLE_PA_def
      float_eval cong: let_weak_cong)

lemmas throw_numbers = step_50ms level_stays_level thrust_numbers fall_numbers zero_norm

lemma center_numbers:
  "\<not> lit 5 10 < STICK_DOWN_THROTTLE" "lit 5 10 > STICK_UP_THROTTLE"
  "(if lit 5 10 - STICK_CENTER < 0 then - (lit 5 10 - STICK_CENTER) else lit 5 10 - STICK_CENTER) \<le> STICK_CENTER_DEADBAND"
  by (simp_all add: STICK_DOWN_THROTTLE_def STICK_UP_THROTTLE_def STICK_CENTER_def STICK_CENTER_DEADBAND_def
      float_eval cong: let_weak_cong)

lemma release_velocity:
  "ve_velocityMps e = 0 \<Longrightarrow>
   MIN_RELEASE_VELOCITY_MPS \<le> ve_velocityMps (vertical_predict e (V3 0 0 (lit 60 (Suc 0))) (lit 5 100) Quaternion_init)"
  by (simp add: vertical_predict_def Quaternion_init_def MIN_RELEASE_VELOCITY_MPS_def GRAVITY_MPS2_def vnth_def
      float_eval cong: let_weak_cong)

definition throw_scene :: "u64 \<Rightarrow> f32 \<Rightarrow> sensor_frame" where
  "throw_scene ts accel_z = scene ts accel_z 0 True PM_ALTITUDE_AUTO (lit 5 10)"

definition throw_frames :: "sensor_frame list" where
  "throw_frames = [throw_scene 5100000 GRAVITY_MPS2, throw_scene 5200000 (lit 60 1),
     throw_scene 5250000 (lit 60 1), throw_scene 5350000 0, throw_scene 5450000 0]"

lemma throw_scene_sel [simp]:
  "sf_timestampUs (throw_scene ts a) = ts" "sf_imuValid (throw_scene ts a)" "sf_baroValid (throw_scene ts a)"
  "sf_gyroRadS (throw_scene ts a) = zero3" "sf_accelMps2 (throw_scene ts a) = V3 0 0 a"
  "rc_killSwitch (sf_rc (throw_scene ts a)) = False" "rc_armSwitch (sf_rc (throw_scene ts a))"
  "rc_mode (sf_rc (throw_scene ts a)) = PM_ALTITUDE_AUTO" "\<not> baro_plausible (throw_scene ts a)"
  by (simp_all add: throw_scene_def baro_plausible_def throw_numbers)

text \<open>What the core holds between two frames of the throw.\<close>

definition throwing :: "u64 \<Rightarrow> throw_detector \<Rightarrow> f32 \<Rightarrow> flight_core \<Rightarrow> bool" where
  "throwing ts d v c \<longleftrightarrow>
     fc_phase c = PH_ARMED \<and> fc_handledThrowCount c = 0 \<and> fc_hasPrevTimestamp c \<and> fc_prevTimestampUs c = ts
     \<and> fc_throwDetector c = d \<and> ve_ready (fc_verticalEstimator c) \<and> ve_velocityMps (fc_verticalEstimator c) = v
     \<and> ae_kp (fc_attitudeEstimator c) = lit 2 1 \<and> ae_integralFb (fc_attitudeEstimator c) = zero3
     \<and> ae_attitude (fc_attitudeEstimator c) = Quaternion_init"

lemma throw_accepted:
  "fc_hasPrevTimestamp c \<Longrightarrow> fc_prevTimestampUs c < ts \<Longrightarrow> isfinite a \<Longrightarrow> accepted c (throw_scene ts a)"
  by (simp add: accepted_def throw_scene_def scene_finite rest_numbers throw_numbers FlightCore_acceptsTimestamp_def)

lemma armed_advance:
  assumes "fc_phase c = PH_ARMED"
  shows "fc_phase (FlightCore_advancePhase c (throw_scene ts a)) =
           (if td_throwCount (fc_throwDetector c) > fc_handledThrowCount c then PH_BALLISTIC else PH_ARMED)"
    and "td_throwCount (fc_throwDetector c) \<le> fc_handledThrowCount c \<Longrightarrow>
         fc_handledThrowCount (FlightCore_advancePhase c (throw_scene ts a)) = fc_handledThrowCount c"
  using assms by (auto simp: FlightCore_advancePhase_def Let_def frame_simps advance_armed_def linorder_not_less[symmetric])

text \<open>A frame across a gap moves the detector alone.\<close>

lemma throwing_gap:
  assumes "throwing ts d v c" "ts + 100000 = ts'" "ts < ts'" "isfinite a"
    and "\<And>h. ThrowDetector_update fe d (throw_scene ts' a) v h = d' h"
    and "\<And>h. td_throwCount (d' h) = 0"
  shows "\<exists>h. throwing ts' (d' h) v (fst (FlightCore_step fe c (throw_scene ts' a)))"
proof -
  let ?f = "throw_scene ts' a"
  have acc: "accepted c ?f" using assms by (intro throw_accepted) (simp_all add: throwing_def)
  have "ts' - ts = 100000" using assms(2) by (metis add_diff_cancel_left')
  then have dt: "frame_dt c ?f = 0" using assms(1) by (intro gap_frame_dt) (simp_all add: throwing_def)
  have ae: "fc_attitudeEstimator (estimated fe c ?f) = fc_attitudeEstimator c"
    unfolding estimated_fields(1) dt by (rule attitude_gap)
  have ve: "ve_ready (fc_verticalEstimator (estimated fe c ?f))"
    "ve_velocityMps (fc_verticalEstimator (estimated fe c ?f)) = v"
    unfolding estimated_fields(2) dt using assms(1) vertical_gap by (simp_all add: throwing_def)
  obtain h where td: "fc_throwDetector (estimated fe c ?f) = d' h"
    unfolding estimated_fields(3) ve(2) using assms(1,5) by (simp add: throwing_def)
  have "fc_phase (advanced fe c ?f) = PH_ARMED" "fc_handledThrowCount (advanced fe c ?f) = 0"
    using armed_advance[of "estimated fe c ?f" ts' a] assms(1) td assms(6)
    by (simp_all add: advanced_def throwing_def)
  then show ?thesis
    using flown_step[OF acc, of fe] ae ve td assms(1) by (auto simp: throwing_def)
qed

text \<open>The arming frame, from fifty frames at rest.\<close>

lemma arming_step:
  assumes "rested 50 c"
  shows "throwing 5100000 ThrowDetector_init 0 (fst (FlightCore_step fe c (throw_scene 5100000 GRAVITY_MPS2)))"
proof -
  let ?f = "throw_scene 5100000 GRAVITY_MPS2"
  have acc: "accepted c ?f"
    by (rule throw_accepted) (use assms in \<open>simp_all add: rested_def rest_gap_def rest_numbers\<close>)
  have dt: "frame_dt c ?f = 0"
    by (rule gap_frame_dt) (use assms in \<open>simp_all add: rested_def rest_gap_def\<close>)
  have ae: "fc_attitudeEstimator (estimated fe c ?f) = AttitudeEstimator_init"
    unfolding estimated_fields(1) dt attitude_gap using assms by (simp add: rested_def)
  have ve: "ve_ready (fc_verticalEstimator (estimated fe c ?f))"
    "ve_velocityMps (fc_verticalEstimator (estimated fe c ?f)) = 0"
    unfolding estimated_fields(2) dt using assms vertical_gap by (simp_all add: rested_def)
  have td: "fc_throwDetector (estimated fe c ?f) = ThrowDetector_init"
    unfolding estimated_fields(3) using assms
    by (simp add: ThrowDetector_update_def ThrowDetector_init_def Let_def rested_def rest_norm)
  have "fc_stickCentered (FlightCore_stickLatches (estimated fe c ?f) ?f)"
    using center_numbers by (simp add: FlightCore_stickLatches_def Let_def throw_scene_def)
  then have "fc_phase (advanced fe c ?f) = PH_ARMED" "fc_handledThrowCount (advanced fe c ?f) = 0"
    using assms ve td by (simp_all add: advanced_def FlightCore_advancePhase_def Let_def frame_simps
        advance_idle_def rested_def ThrowDetector_init_def)
  then show ?thesis using flown_step[OF acc, of fe] ae ve td
    by (simp add: throwing_def AttitudeEstimator_init_def AHRS_DEFAULT_KP_def)
qed

definition thrust_detector :: "u64 \<Rightarrow> throw_detector" where
  "thrust_detector t = ThrowDetector_init\<lparr>td_state := TS_THRUST, td_thrustStartUs := 5200000, td_thrustLastUs := t\<rparr>"

definition falling_detector :: "f32 \<Rightarrow> f32 \<Rightarrow> throw_detector" where
  "falling_detector v h = (thrust_detector 5250000)\<lparr>td_inFreeFallStreak := True, td_freeFallStartUs := 5350000,
     td_candidateVelocityMps := v, td_candidateAltitudeM := h\<rparr>"

lemma detector_counts [simp]:
  "td_throwCount ThrowDetector_init = 0" "td_throwCount (thrust_detector t) = 0"
  "td_throwCount (falling_detector v h) = 0"
  by (simp_all add: thrust_detector_def falling_detector_def ThrowDetector_init_def)

lemma detector_moves:
  "ThrowDetector_update fe ThrowDetector_init (throw_scene 5200000 (lit 60 (Suc 0))) v h = thrust_detector 5200000"
  "ThrowDetector_update fe (thrust_detector 5200000) (throw_scene 5250000 (lit 60 (Suc 0))) v h = thrust_detector 5250000"
  "ThrowDetector_update fe (thrust_detector 5250000) (throw_scene 5350000 0) v h = falling_detector v h"
  "v \<ge> MIN_RELEASE_VELOCITY_MPS \<Longrightarrow>
   td_throwCount (ThrowDetector_update fe (falling_detector v a) (throw_scene 5450000 0) v' h') = 1"
  by (simp_all add: ThrowDetector_update_def Let_def thrust_detector_def falling_detector_def ThrowDetector_init_def
      throw_numbers FREE_FALL_CONFIRM_US_def THRUST_MIN_US_def throw_release_def)

text \<open>The frame that integrates: 50 ms of thrust.\<close>

lemma thrust_step:
  assumes "throwing 5200000 (thrust_detector 5200000) 0 c"
  shows "\<exists>v. v \<ge> MIN_RELEASE_VELOCITY_MPS
           \<and> throwing 5250000 (thrust_detector 5250000) v (fst (FlightCore_step fe c (throw_scene 5250000 (lit 60 (Suc 0)))))"
proof -
  let ?f = "throw_scene 5250000 (lit 60 (Suc 0))"
  have acc: "accepted c ?f"
    by (rule throw_accepted) (use assms in \<open>simp_all add: throwing_def throw_numbers\<close>)
  have dt: "frame_dt c ?f = lit 5 100"
    using assms throw_numbers(1-3)
    by (simp add: FlightCore_deriveDt_def Let_def counted_def throwing_def CORE_US_PER_S_def MAX_STEP_S_def)
  have ae: "ae_kp (fc_attitudeEstimator (estimated fe c ?f)) = lit 2 1"
    "ae_integralFb (fc_attitudeEstimator (estimated fe c ?f)) = zero3"
    "ae_attitude (fc_attitudeEstimator (estimated fe c ?f)) = Quaternion_init"
    unfolding estimated_fields(1) dt using assms throw_numbers
    by (simp_all add: AttitudeEstimator_update_def AttitudeEstimator_refreshTelemetry_def Let_def throwing_def vnth_def)
  define e where "e = fc_verticalEstimator c"
  have e: "ve_ready e" "ve_velocityMps e = 0" using assms by (simp_all add: e_def throwing_def)
  have ve: "fc_verticalEstimator (estimated fe c ?f) = vertical_predict e (V3 0 0 (lit 60 (Suc 0))) (lit 5 100) Quaternion_init"
    unfolding estimated_fields(2) dt ae(3) e_def[symmetric] using e(1) throw_numbers(3)
    by (simp add: VerticalEstimator_update_def Let_def)
  have ready: "ve_ready (fc_verticalEstimator (estimated fe c ?f))"
    unfolding ve using e(1) by (simp add: vertical_predict_def Let_def)
  have td: "fc_throwDetector (estimated fe c ?f) = thrust_detector 5250000"
    unfolding estimated_fields(3) using assms detector_moves(2) by (simp add: throwing_def)
  have "fc_phase (advanced fe c ?f) = PH_ARMED" "fc_handledThrowCount (advanced fe c ?f) = 0"
    using armed_advance[of "estimated fe c ?f" 5250000 "lit 60 (Suc 0)"] assms td
    by (simp_all add: advanced_def throwing_def)
  then show ?thesis using flown_step[OF acc, of fe] ae ready td release_velocity[OF e(2)] ve
    by (intro exI[of _ "ve_velocityMps (fc_verticalEstimator (estimated fe c ?f))"]) (simp add: throwing_def)
qed

lemma release_step:
  assumes "throwing 5350000 (falling_detector v h) v c" "v \<ge> MIN_RELEASE_VELOCITY_MPS"
  shows "fc_phase (fst (FlightCore_step fe c (throw_scene 5450000 0))) = PH_BALLISTIC"
proof -
  let ?f = "throw_scene 5450000 0"
  have acc: "accepted c ?f"
    by (rule throw_accepted) (use assms in \<open>simp_all add: throwing_def rest_numbers\<close>)
  have "td_throwCount (fc_throwDetector (estimated fe c ?f)) = 1"
    unfolding estimated_fields(3) using assms detector_moves(4) by (simp add: throwing_def)
  then have "fc_phase (advanced fe c ?f) = PH_BALLISTIC"
    using armed_advance[of "estimated fe c ?f" 5450000 0] assms(1) by (simp add: advanced_def throwing_def)
  then show ?thesis using flown_step(5)[OF acc, of fe] by simp
qed

definition throw_events :: "core_event list" where
  "throw_events = rest_events 50 @ map EvFrame throw_frames"

text \<open>The whole signature, from power-on: the core is ballistic.\<close>

lemma throw_run_ballistic: "fc_phase (core_run fe (FlightCore_init fe) throw_events) = PH_BALLISTIC"
proof -
  define c0 where "c0 = core_run fe (FlightCore_init fe) (rest_events 50)"
  define c1 where "c1 = fst (FlightCore_step fe c0 (throw_scene 5100000 GRAVITY_MPS2))"
  define c2 where "c2 = fst (FlightCore_step fe c1 (throw_scene 5200000 (lit 60 (Suc 0))))"
  define c3 where "c3 = fst (FlightCore_step fe c2 (throw_scene 5250000 (lit 60 (Suc 0))))"
  define c4 where "c4 = fst (FlightCore_step fe c3 (throw_scene 5350000 0))"
  have "rested 50 c0" unfolding c0_def by (rule rested_run) simp
  then have "throwing 5100000 ThrowDetector_init 0 c1" unfolding c1_def by (rule arming_step)
  then have "throwing 5200000 (thrust_detector 5200000) 0 c2" unfolding c2_def
    using throwing_gap[of 5100000 ThrowDetector_init 0 c1 5200000 "lit 60 (Suc 0)" fe "\<lambda>_. thrust_detector 5200000"]
    by (simp add: throw_numbers detector_moves)
  from thrust_step[OF this, of fe] obtain v where v: "v \<ge> MIN_RELEASE_VELOCITY_MPS"
    "throwing 5250000 (thrust_detector 5250000) v c3" unfolding c3_def by blast
  then obtain h where "throwing 5350000 (falling_detector v h) v c4" unfolding c4_def
    using throwing_gap[of 5250000 "thrust_detector 5250000" v c3 5350000 0 fe "falling_detector v"]
    by (auto simp: rest_numbers detector_moves)
  from release_step[OF this v(1), of fe] show ?thesis
    by (simp add: throw_events_def throw_frames_def c0_def c1_def c2_def c3_def c4_def)
qed

end
