(* ===== verification/Flight_Safety.thy ===== *)
theory Flight_Safety
  imports Flight_Scenario
begin

text \<open>
  What the flight core promises about its motors: the kill switch, the phases
  that keep them stopped, the frames it rejects, the arm switch, the two latches and
  the loss of the IMU.
\<close>

section \<open>Kill switch and stopped phases\<close>

text \<open>(C3) The kill switch decides the outputs whatever else the frame carries: in any state at all,
  a frame with the switch on gives four zero commands, ends the mission in \<^verbatim>\<open>IDLE\<close> with
  the mode that flies the least, and leaves nothing to hold for a later frame.\<close>

theorem kill_switch_cuts:
  assumes "rc_killSwitch (sf_rc f)"
  shows "case FlightCore_step fe c f of (c', a) \<Rightarrow>
           af_motor a = [0, 0, 0, 0] \<and> af_timestampUs a = sf_timestampUs f
           \<and> fc_lastMotor c' = [0, 0, 0, 0] \<and> fc_phase c' = PH_IDLE \<and> fc_lockedMode c' = PM_MANUAL
           \<and> \<not> FlightCore_armed c'"
  by (cases rule: step_cases[of f fe c])
    (use assms in \<open>simp_all add: frame_simps FlightCore_armed_def numeral_eq_Suc accepted_def\<close>)

theorem kill_switch_cuts_witness:
  "fc_phase (fst (FlightCore_step quiet_env (fresh\<lparr>fc_phase := PH_MANUAL\<rparr>) (frame_at 5 True True True))) = PH_IDLE"
  using kill_switch_cuts[of "frame_at 5 True True True" quiet_env "fresh\<lparr>fc_phase := PH_MANUAL\<rparr>"]
  by (simp add: split_beta)

text \<open>(C8) In every run from power-on, whatever frames, tuning requests and resets it is made of,
  a step answers with four commands, none below zero and none above one, and in a phase
  that keeps the motors stopped none is above zero; in every such phase but
  \<^verbatim>\<open>IDLE\<close> all four are exactly zero.\<close>

theorem motors_follow_phase:
  "case FlightCore_step fe (core_run fe (FlightCore_init fe) es) f of (c', a) \<Rightarrow>
     length (af_motor a) = 4
     \<and> list_all (\<lambda>m. \<not> m < 0 \<and> \<not> m > lit 1 1) (af_motor a)
     \<and> (if grounded (fc_phase c') then list_all (\<lambda>m. \<not> m > 0) (af_motor a) else True)
     \<and> (if grounded (fc_phase c') \<and> fc_phase c' \<noteq> PH_IDLE then af_motor a = [0, 0, 0, 0] else True)"
proof -
  have inv: "core_motors_ok (core_run fe (FlightCore_init fe) es)" by (rule motors.inv_run)
  show ?thesis
    using step_motors_ok[OF inv, of fe f] step_output[of fe "core_run fe (FlightCore_init fe) es" f]
    by (auto simp: split_beta core_motors_ok_def list_all_iff motor_ok_def motors_on_def numeral_eq_Suc zero_not_less)
qed

section \<open>Rejected frames, the arm switch and the latches\<close>

text \<open>A frame that is not a kill and carries a NaN or an infinity, or whose timestamp does not
  move time forward, is rejected as a whole: the outputs hold the last commands and nothing
  of the core changes but the step counter and the count of what was wrong.\<close>

lemma rejected_frame_holds:
  assumes "\<not> rc_killSwitch (sf_rc f)"
    and "\<not> isFrameFinite f \<or> fc_hasPrevTimestamp c \<and> sf_timestampUs f \<le> fc_prevTimestampUs c"
  shows "FlightCore_step fe c f =
           (if isFrameFinite f
            then c\<lparr>fc_stepCount := fc_stepCount c + 1, fc_staleFrameCount := fc_staleFrameCount c + 1\<rparr>
            else c\<lparr>fc_stepCount := fc_stepCount c + 1, fc_invalidFrameCount := fc_invalidFrameCount c + 1\<rparr>,
            \<lparr>af_timestampUs = sf_timestampUs f, af_motor = fc_lastMotor c\<rparr>)"
  using assms by (auto simp: FlightCore_step_def Let_def FlightCore_acceptsTimestamp_def)

lemma rejected_frame_holds_example:
  "fc_staleFrameCount (fst (FlightCore_step quiet_env
     (fresh\<lparr>fc_hasPrevTimestamp := True, fc_prevTimestampUs := 7\<rparr>) (frame_at 7 False True True))) = 1"
  using rejected_frame_holds[of "frame_at 7 False True True"
      "fresh\<lparr>fc_hasPrevTimestamp := True, fc_prevTimestampUs := 7\<rparr>" quiet_env]
  by (simp add: FlightCore_init_def)

lemma flown_grounded:
  assumes "accepted c f" "sf_imuValid f"
  shows "grounded (fc_phase (advanced fe c f)) \<Longrightarrow> fc_lastMotor (fst (FlightCore_step fe c f)) = replicate 4 0"
  by (cases rule: step_cases[of f fe c]; use assms in \<open>simp add: accepted_def frame_simps runControl_grounded\<close>)

text \<open>(C14) The arm switch is the single gate: a frame the core flies (finite, newer, IMU valid, no kill)
  with the switch off stops the motors and leaves no phase but \<^verbatim>\<open>IDLE\<close>, except
  \<^verbatim>\<open>FAULT\<close>, which only the kill switch leaves.\<close>

theorem arm_switch_gates:
  assumes "accepted c f" "sf_imuValid f" "\<not> rc_armSwitch (sf_rc f)"
  shows "case FlightCore_step fe c f of (c', a) \<Rightarrow>
           af_motor a = [0, 0, 0, 0] \<and> fc_phase c' = (if fc_phase c = PH_FAULT then PH_FAULT else PH_IDLE)"
proof -
  have "fc_phase (advanced fe c f) = (if fc_phase c = PH_FAULT then PH_FAULT else PH_IDLE)"
    using advance_disarmed[OF assms(3), of "estimated fe c f"] by (simp add: advanced_def)
  with flown_step(5)[OF assms(1,2), of fe] flown_grounded[OF assms(1,2), of fe] step_output[of fe c f] show ?thesis
    by (simp add: split_beta grounded_def numeral_eq_Suc split: if_splits)
qed

theorem arm_switch_gates_witness:
  "fc_phase (fst (FlightCore_step quiet_env (fresh\<lparr>fc_phase := PH_HOVER\<rparr>) (frame_at 7 False False True))) = PH_IDLE"
proof -
  have "accepted (fresh\<lparr>fc_phase := PH_HOVER\<rparr>) (frame_at 7 False False True)"
    by (simp add: accepted_def FlightCore_acceptsTimestamp_def FlightCore_init_def)
  with arm_switch_gates[of "fresh\<lparr>fc_phase := PH_HOVER\<rparr>" "frame_at 7 False False True" quiet_env]
  show ?thesis by (simp add: split_beta FlightCore_init_def)
qed

lemma advance_cutoff_latched:
  "rc_armSwitch (sf_rc f) \<Longrightarrow> fc_phase c = PH_CUTOFF \<Longrightarrow> fc_phase (FlightCore_advancePhase c f) = PH_CUTOFF"
  "fc_phase c = PH_FAULT \<Longrightarrow> fc_phase (FlightCore_advancePhase c f) = PH_FAULT"
  by (simp_all add: FlightCore_advancePhase_def Let_def frame_simps advance_cutoff_def)

text \<open>One step from a latched phase with its motors stopped.\<close>

definition latched :: "flight_phase \<Rightarrow> flight_core \<Rightarrow> bool" where
  "latched p c \<longleftrightarrow> fc_phase c = p \<and> fc_lastMotor c = replicate 4 0"

lemma latched_step:
  assumes "latched p c" "\<not> rc_killSwitch (sf_rc f)"
    and "p = PH_FAULT \<or> p = PH_CUTOFF \<and> rc_armSwitch (sf_rc f)"
  shows "latched p (fst (FlightCore_step fe c f))"
proof (cases rule: step_cases[of f fe c])
  case (Rejected n k)
  with assms show ?thesis by (simp add: latched_def)
next
  case NoImu
  show ?thesis
    by (cases rule: without_imu_cases[of "timed c f" f]) (use assms NoImu in \<open>auto simp: latched_def\<close>)
next
  case (Flown m)
  have "fc_phase (advanced fe c f) = p"
    using assms advance_cutoff_latched[where c = "estimated fe c f" and f = f]
    by (auto simp: advanced_def latched_def)
  with flown_step(5)[OF Flown(1,2), of fe] flown_grounded[OF Flown(1,2), of fe] assms(3) show ?thesis by (auto simp: latched_def grounded_def)
qed (use assms in simp)

lemma latched_frames:
  assumes "latched p c" "\<forall>f \<in> set fs. \<not> rc_killSwitch (sf_rc f)"
    and "p = PH_FAULT \<or> p = PH_CUTOFF \<and> (\<forall>f \<in> set fs. rc_armSwitch (sf_rc f))"
  shows "latched p (core_run fe c (map EvFrame fs))"
  using assms
proof (induction fs arbitrary: c)
  case (Cons f fs)
  then have "latched p (fst (FlightCore_step fe c f))" by (intro latched_step) auto
  with Cons show ?case by auto
qed simp

text \<open>(C13) The two latches: once a run has reached \<^verbatim>\<open>FAULT\<close>, no sequence of frames without the
  kill switch leaves it, and once it has reached \<^verbatim>\<open>CUTOFF\<close>, none leaves it while the arm switch stays
  on; all that time every command is zero.\<close>

theorem latches_hold:
  assumes "c = core_run fe (FlightCore_init fe) es"
    and "fc_phase c = PH_FAULT \<or> fc_phase c = PH_CUTOFF \<and> (\<forall>f \<in> set fs. rc_armSwitch (sf_rc f))"
    and "\<forall>f \<in> set fs. \<not> rc_killSwitch (sf_rc f)"
  shows "fc_phase (core_run fe c (map EvFrame fs)) = fc_phase c
         \<and> fc_lastMotor (core_run fe c (map EvFrame fs)) = [0, 0, 0, 0]"
proof -
  have "core_motors_ok c" unfolding assms(1) by (rule motors.inv_run)
  then have "latched (fc_phase c) c" using assms(2) by (auto simp: latched_def core_motors_ok_def grounded_def)
  from latched_frames[OF this assms(3) assms(2), of fe] show ?thesis by (simp add: latched_def numeral_eq_Suc)
qed

theorem latches_hold_witness:
  "fc_phase (core_run quiet_env (core_run quiet_env fresh (rest_events 50 @ [EvFrame crash_frame]))
     (map EvFrame [scene 9000000 GRAVITY_MPS2 0 True PM_MANUAL 0])) = PH_CUTOFF"
  using latches_hold[OF refl, of quiet_env "rest_events 50 @ [EvFrame crash_frame]"
      "[scene 9000000 GRAVITY_MPS2 0 True PM_MANUAL 0]"] crash_run[of quiet_env]
  by simp

section \<open>Loss of the IMU\<close>

text \<open>Frames the core takes but that carry no IMU, after an accepted timestamp.\<close>

fun lost_frames :: "u64 option \<Rightarrow> sensor_frame list \<Rightarrow> bool" where
  "lost_frames prev [] \<longleftrightarrow> True"
| "lost_frames prev (f # fs) \<longleftrightarrow>
     \<not> rc_killSwitch (sf_rc f) \<and> isFrameFinite f \<and> \<not> sf_imuValid f
     \<and> (case prev of None \<Rightarrow> True | Some t \<Rightarrow> t < sf_timestampUs f)
     \<and> lost_frames (Some (sf_timestampUs f)) fs"

definition prev_time :: "flight_core \<Rightarrow> u64 option" where
  "prev_time c = (if fc_hasPrevTimestamp c then Some (fc_prevTimestampUs c) else None)"

lemma lost_frame_accepted:
  "lost_frames (prev_time c) (f # fs) \<Longrightarrow> accepted c f"
  by (auto simp: accepted_def FlightCore_acceptsTimestamp_def prev_time_def split: if_splits)

lemma timed_prev [simp]: "prev_time (timed c f) = Some (sf_timestampUs f)"
  by (simp add: prev_time_def timed_def FlightCore_deriveDt_def Let_def)

lemma lost_step:
  assumes "accepted c f" "\<not> sf_imuValid f" "motors_on (fc_lastMotor c)" "unat (fc_imuInvalidRun c) < 10"
  shows "if unat (fc_imuInvalidRun c) + 1 < 10
         then fst (FlightCore_step fe c f) = timed c f\<lparr>fc_imuInvalidRun := fc_imuInvalidRun c + 1\<rparr>
         else latched PH_FAULT (fst (FlightCore_step fe c f))"
proof -
  have n: "unat (fc_imuInvalidRun c + 1) = unat (fc_imuInvalidRun c) + 1"
    using assms(4) by (simp add: unat_word_ariths)
  have ge: "fc_imuInvalidRun c + 1 \<ge> IMU_FAULT_FRAMES \<longleftrightarrow> \<not> unat (fc_imuInvalidRun c) + 1 < 10"
    by (simp add: word_le_nat_alt n IMU_FAULT_FRAMES_def not_less)
  have st: "fst (FlightCore_step fe c f) = fst (FlightCore_stepWithoutImu (timed c f) f)"
    by (cases rule: step_cases[of f fe c]) (use assms in \<open>simp_all add: accepted_def\<close>)
  show ?thesis
    by (cases rule: without_imu_cases[of "timed c f" f])
      (use assms(3) ge in \<open>auto simp: st latched_def linorder_not_le[symmetric]\<close>)
qed

lemma lost_run:
  assumes "lost_frames (prev_time c) fs" "motors_on (fc_lastMotor c)" "unat (fc_imuInvalidRun c) < 10"
  shows "let c' = core_run fe c (map EvFrame fs)
         in if unat (fc_imuInvalidRun c) + length fs < 10
            then fc_phase c' = fc_phase c \<and> fc_lastMotor c' = fc_lastMotor c
            else latched PH_FAULT c'"
  using assms
proof (induction fs arbitrary: c)
  case (Cons f fs)
  let ?c = "fst (FlightCore_step fe c f)"
  note acc = lost_frame_accepted[OF Cons.prems(1)]
  have imu: "\<not> sf_imuValid f" using Cons.prems(1) by simp
  note st = lost_step[OF acc imu Cons.prems(2,3), of fe]
  show ?case
  proof (cases "unat (fc_imuInvalidRun c) + 1 < 10")
    case True
    then have c: "?c = timed c f\<lparr>fc_imuInvalidRun := fc_imuInvalidRun c + 1\<rparr>" using st by simp
    have n: "unat (fc_imuInvalidRun c + 1) = unat (fc_imuInvalidRun c) + 1"
      using True by (simp add: unat_word_ariths)
    have "prev_time ?c = Some (sf_timestampUs f)"
      using timed_prev[of c f] by (auto simp: c prev_time_def simp del: timed_prev split: if_splits)
    then have "lost_frames (prev_time ?c) fs" using Cons.prems(1) by simp
    from Cons.IH[OF this] show ?thesis
      using Cons.prems(2) True by (simp add: c n Let_def)
  next
    case False
    with st have "latched PH_FAULT ?c" by simp
    moreover have "\<forall>f \<in> set fs. \<not> rc_killSwitch (sf_rc f)"
    proof -
      have "lost_frames p gs \<Longrightarrow> \<forall>f \<in> set gs. \<not> rc_killSwitch (sf_rc f)" for p gs
        by (induction p gs rule: lost_frames.induct) auto
      then show ?thesis using Cons.prems(1) by auto
    qed
    ultimately have "latched PH_FAULT (core_run fe ?c (map EvFrame fs))" by (intro latched_frames) auto
    then show ?thesis using False by (simp add: Let_def)
  qed
qed simp

text \<open>(C17) Losing the IMU with a motor running: fewer than ten such frames in a row hold the last commands
  and the phase, and from the tenth on the core is in \<^verbatim>\<open>FAULT\<close> with every motor at zero.\<close>

theorem imu_loss_cuts:
  assumes "lost_frames (prev_time c) fs" "motors_on (fc_lastMotor c)" "fc_imuInvalidRun c = 0"
  shows "case core_run fe c (map EvFrame fs) of c' \<Rightarrow>
           if length fs < 10 then fc_phase c' = fc_phase c \<and> fc_lastMotor c' = fc_lastMotor c
           else fc_phase c' = PH_FAULT \<and> fc_lastMotor c' = [0, 0, 0, 0]"
  using lost_run[OF assms(1,2), of fe] assms(3) by (auto simp: latched_def Let_def zeros4 split: if_splits)

theorem imu_loss_cuts_witness:
  "fc_phase (core_run quiet_env (fresh\<lparr>fc_phase := PH_MANUAL, fc_lastMotor := [1, 1, 1, 1]\<rparr>)
     (map EvFrame (map (\<lambda>t. frame_at t False True False) [1, 2, 3, 4, 5, 6, 7, 8, 9, 10]))) = PH_FAULT"
  using imu_loss_cuts[of "fresh\<lparr>fc_phase := PH_MANUAL, fc_lastMotor := [1, 1, 1, 1]\<rparr>"
      "map (\<lambda>t. frame_at t False True False) [1, 2, 3, 4, 5, 6, 7, 8, 9, 10]" quiet_env]
  by (simp add: motors_on_def zero_f32_def one_f32_def prev_time_def FlightCore_init_def)


end
