(* ===== verification/Flight_Path.thy ===== *)
theory Flight_Path
  imports Flight_Safety
begin

text \<open>
  How the flight core gets to fly by itself: the path every autonomous flight
  takes from a throw, what the throw detector must have seen, the pilot's mode latched
  on the way out of \<^verbatim>\<open>IDLE\<close>, and the time base every module integrates over.
\<close>

section \<open>The path of an autonomous flight\<close>

definition autonomous :: "flight_phase \<Rightarrow> bool" where
  "autonomous p \<longleftrightarrow> p \<in> {PH_BALLISTIC, PH_RECOVERY, PH_HOVER, PH_ALTITUDE_AUTO}"

text \<open>What each handler may make of the phase.\<close>

lemma advance_autonomous:
  assumes "autonomous (fc_phase (FlightCore_advancePhase c f))"
  shows "autonomous (fc_phase c) \<or>
         fc_phase c = PH_ARMED \<and> fc_phase (FlightCore_advancePhase c f) = PH_BALLISTIC
         \<and> fc_handledThrowCount c < td_throwCount (fc_throwDetector c)"
  using assms
  by (cases "fc_phase c")
    (auto simp: autonomous_def FlightCore_advancePhase_def Let_def frame_simps advance_idle_def
      advance_piloted_def advance_armed_def advance_cutoff_def split_beta split: if_splits)

lemma throw_update_count:
  "td_throwCount (ThrowDetector_update fe d f v a) = td_throwCount d
   \<or> td_state d = TS_THRUST \<and> td_state (ThrowDetector_update fe d f v a) = TS_BALLISTIC
     \<and> td_throwCount (ThrowDetector_update fe d f v a) = td_throwCount d + 1"
  by (cases "td_state d")
    (simp_all add: ThrowDetector_update_def Let_def ThrowDetector_reset_def throw_release_def)

lemma estimated_count:
  "td_throwCount (fc_throwDetector (estimated fe c f)) = td_throwCount (fc_throwDetector c)
   \<or> td_state (fc_throwDetector c) = TS_THRUST \<and> td_state (fc_throwDetector (estimated fe c f)) = TS_BALLISTIC
     \<and> td_throwCount (fc_throwDetector (estimated fe c f)) = td_throwCount (fc_throwDetector c) + 1"
  unfolding estimated_fields(3)[of fe c f] by (rule throw_update_count)

text \<open>
  While armed, every throw counted so far was acted upon; while ballistic the
  detector agrees.
\<close>

definition throw_inv :: "flight_core \<Rightarrow> bool" where
  "throw_inv c \<longleftrightarrow>
     (fc_phase c = PH_ARMED \<longrightarrow> td_throwCount (fc_throwDetector c) \<le> fc_handledThrowCount c)
     \<and> (fc_phase c = PH_BALLISTIC \<longrightarrow> td_throwCount (fc_throwDetector c) = fc_handledThrowCount c
          \<and> td_state (fc_throwDetector c) = TS_BALLISTIC)"

lemma advance_armed_from:
  assumes "fc_phase (FlightCore_advancePhase c f) = PH_ARMED"
  shows "fc_phase c = PH_IDLE \<and> fc_handledThrowCount (FlightCore_advancePhase c f) = td_throwCount (fc_throwDetector c)
       \<or> fc_phase c = PH_ARMED \<and> td_throwCount (fc_throwDetector c) \<le> fc_handledThrowCount c
         \<and> fc_handledThrowCount (FlightCore_advancePhase c f) = fc_handledThrowCount c
       \<or> fc_phase c = PH_BALLISTIC \<and> fc_handledThrowCount (FlightCore_advancePhase c f) = fc_handledThrowCount c"
  using assms
  by (cases "fc_phase c")
    (auto simp: FlightCore_advancePhase_def Let_def frame_simps advance_idle_def advance_piloted_def
      advance_armed_def advance_ballistic_def advance_recovery_def advance_hover_def advance_cutoff_def
      split_beta split: if_splits)

lemma advance_ballistic_from:
  assumes "fc_phase (FlightCore_advancePhase c f) = PH_BALLISTIC"
  shows "fc_phase c = PH_ARMED \<and> fc_handledThrowCount c < td_throwCount (fc_throwDetector c)
         \<and> fc_handledThrowCount (FlightCore_advancePhase c f) = td_throwCount (fc_throwDetector c)
       \<or> fc_phase c = PH_BALLISTIC \<and> td_state (fc_throwDetector c) = TS_BALLISTIC
         \<and> fc_handledThrowCount (FlightCore_advancePhase c f) = fc_handledThrowCount c"
  using assms
  by (cases "fc_phase c")
    (auto simp: FlightCore_advancePhase_def Let_def frame_simps advance_idle_def advance_piloted_def
      advance_armed_def advance_ballistic_def advance_recovery_def advance_hover_def advance_cutoff_def
      split_beta split: if_splits)


lemma grounded_by_imu_loss:
  assumes "accepted c f" "\<not> sf_imuValid f"
    and "fc_phase (fst (FlightCore_step fe c f)) \<notin> {PH_FAULT, PH_IDLE}"
  shows "fst (FlightCore_step fe c f) = timed c f\<lparr>fc_imuInvalidRun := fc_imuInvalidRun c + 1\<rparr>"
proof -
  have st: "fst (FlightCore_step fe c f) = fst (FlightCore_stepWithoutImu (timed c f) f)"
    by (cases rule: step_cases[of f fe c]) (use assms in \<open>simp_all add: accepted_def\<close>)
  show ?thesis
    by (cases rule: without_imu_cases[of "timed c f" f]) (use assms(3) in \<open>auto simp: st\<close>)
qed

lemma throw_inv_cong:
  "throw_inv c \<Longrightarrow> fc_phase c' = fc_phase c \<Longrightarrow> fc_throwDetector c' = fc_throwDetector c \<Longrightarrow>
   fc_handledThrowCount c' = fc_handledThrowCount c \<Longrightarrow> throw_inv c'"
  by (simp add: throw_inv_def)

lemma throw_inv_step:
  assumes "throw_inv c"
  shows "throw_inv (fst (FlightCore_step fe c f))"
proof (cases rule: step_cases[of f fe c])
  case Kill
  then show ?thesis by (simp add: throw_inv_def frame_simps)
next
  case (Rejected n k)
  then show ?thesis by (intro throw_inv_cong[OF assms]) simp_all
next
  case NoImu
  show ?thesis
  proof (cases "fc_phase (fst (FlightCore_step fe c f)) \<in> {PH_FAULT, PH_IDLE}")
    case True
    then show ?thesis by (auto simp: throw_inv_def)
  next
    case False
    from grounded_by_imu_loss[OF NoImu(1,2) this] show ?thesis
      by (intro throw_inv_cong[OF assms]) simp_all
  qed
next
  case (Flown m)
  let ?e = "estimated fe c f" and ?s = "fst (FlightCore_step fe c f)"
  note fields = flown_step(3-5)[OF Flown(1,2), of fe, unfolded advanced_def]
  have count: "td_state (fc_throwDetector c) = TS_BALLISTIC \<Longrightarrow>
      td_throwCount (fc_throwDetector ?e) = td_throwCount (fc_throwDetector c)"
    using estimated_count[of fe c f] by auto
  have new: "td_throwCount (fc_throwDetector c) < td_throwCount (fc_throwDetector ?e) \<Longrightarrow>
      td_state (fc_throwDetector ?e) = TS_BALLISTIC"
    using estimated_count[of fe c f] by auto
  have "fc_phase ?s = PH_ARMED \<Longrightarrow> td_throwCount (fc_throwDetector ?s) \<le> fc_handledThrowCount ?s"
    using advance_armed_from[of ?e f] assms count fields
    by (auto simp: throw_inv_def)
  moreover have "fc_phase ?s = PH_BALLISTIC \<Longrightarrow> td_throwCount (fc_throwDetector ?s) = fc_handledThrowCount ?s
      \<and> td_state (fc_throwDetector ?s) = TS_BALLISTIC"
  proof -
    assume "fc_phase ?s = PH_BALLISTIC"
    then consider "fc_phase c = PH_ARMED" "fc_handledThrowCount c < td_throwCount (fc_throwDetector ?e)"
        "fc_handledThrowCount (FlightCore_advancePhase (estimated fe c f) f) = td_throwCount (fc_throwDetector ?e)"
      | "fc_phase c = PH_BALLISTIC" "td_state (fc_throwDetector ?e) = TS_BALLISTIC"
        "fc_handledThrowCount (FlightCore_advancePhase (estimated fe c f) f) = fc_handledThrowCount c"
      using advance_ballistic_from[of ?e f] fields by auto
    then show ?thesis
    proof cases
      case 1
      then have "td_throwCount (fc_throwDetector c) < td_throwCount (fc_throwDetector ?e)"
        using assms by (auto simp: throw_inv_def)
      with new 1 fields show ?thesis by simp
    next
      case 2
      with assms count fields show ?thesis by (simp add: throw_inv_def)
    qed
  qed
  ultimately show ?thesis by (simp add: throw_inv_def)
qed

lemma param_throw_frame:
  "fc_throwDetector (fst (FlightCore_setParam fe c i v)) = fc_throwDetector c"
  "fc_handledThrowCount (fst (FlightCore_setParam fe c i v)) = fc_handledThrowCount c"
  by (simp_all add: FlightCore_setParam_def FlightCore_applyParam_def Let_def split_beta)

interpretation throws: core_invariant fe throw_inv for fe
proof
  fix c f i v
  show "throw_inv (FlightCore_init fe)" by (simp add: throw_inv_def FlightCore_init_def)
  show "throw_inv c \<Longrightarrow> throw_inv (fst (FlightCore_step fe c f))" by (rule throw_inv_step)
  show "throw_inv c \<Longrightarrow> throw_inv (fst (FlightCore_setParam fe c i v))"
    by (erule throw_inv_cong) (simp_all add: frame_simps param_throw_frame)
qed

text \<open>One event into an autonomous phase: it was autonomous already, or this very frame counted a throw.\<close>

definition throw_frame :: "flight_core \<Rightarrow> flight_core \<Rightarrow> bool" where
  "throw_frame c c' \<longleftrightarrow>
     fc_phase c = PH_ARMED \<and> fc_phase c' = PH_BALLISTIC
     \<and> td_state (fc_throwDetector c) = TS_THRUST \<and> td_state (fc_throwDetector c') = TS_BALLISTIC
     \<and> td_throwCount (fc_throwDetector c') = td_throwCount (fc_throwDetector c) + 1"

lemma autonomous_event:
  assumes "throw_inv c" "autonomous (fc_phase (core_on fe c e))"
  shows "autonomous (fc_phase c) \<or> throw_frame c (core_on fe c e)"
proof (cases e)
  case (EvFrame f)
  show ?thesis
  proof (cases rule: step_cases[of f fe c])
    case Kill
    then show ?thesis using assms(2) EvFrame by (simp add: frame_simps autonomous_def)
  next
    case (Rejected n k)
    then show ?thesis using assms(2) EvFrame by simp
  next
    case NoImu
    have "fc_phase (fst (FlightCore_step fe c f)) \<notin> {PH_FAULT, PH_IDLE}"
      using assms(2) EvFrame by (auto simp: autonomous_def)
    from grounded_by_imu_loss[OF NoImu(1,2) this] show ?thesis using assms(2) EvFrame by simp
  next
    case (Flown m)
    let ?e = "estimated fe c f"
    note fields = flown_step(3-5)[OF Flown(1,2), of fe, unfolded advanced_def]
    have "autonomous (fc_phase (FlightCore_advancePhase ?e f))" using assms(2) EvFrame fields by simp
    from advance_autonomous[OF this] show ?thesis
    proof
      assume "autonomous (fc_phase ?e)"
      then show ?thesis by simp
    next
      assume th: "fc_phase ?e = PH_ARMED \<and> fc_phase (FlightCore_advancePhase ?e f) = PH_BALLISTIC
         \<and> fc_handledThrowCount ?e < td_throwCount (fc_throwDetector ?e)"
      then have "td_throwCount (fc_throwDetector c) < td_throwCount (fc_throwDetector ?e)"
        using assms(1) by (auto simp: throw_inv_def)
      then have "throw_frame c (fst (FlightCore_step fe c f))"
        using estimated_count[of fe c f] th fields unfolding throw_frame_def by auto
      then show ?thesis using EvFrame by simp
    qed
  qed
qed (use assms in \<open>simp_all add: frame_simps FlightCore_reset_def FlightCore_init_def autonomous_def\<close>)

text \<open>(C6) No flight without a throw: in every run from power-on, a core that is flying by itself
  (\<^verbatim>\<open>RECOVERY\<close>, \<^verbatim>\<open>HOVER\<close>, \<^verbatim>\<open>ALTITUDE_AUTO\<close>) or about to (\<^verbatim>\<open>BALLISTIC\<close>) got there through one frame that found it
  \<^verbatim>\<open>ARMED\<close> and on which the detector completed a throw signature, and it has not left
  those phases since. A throw seen before arming never starts the motors.\<close>

theorem autonomous_flight_needs_throw:
  assumes "autonomous (fc_phase (core_run fe (FlightCore_init fe) es))"
  shows "\<exists>n < length es.
           throw_frame (core_run fe (FlightCore_init fe) (take n es))
                       (core_run fe (FlightCore_init fe) (take (n + 1) es))
           \<and> (\<forall>k. n < k \<and> k \<le> length es \<longrightarrow>
                autonomous (fc_phase (core_run fe (FlightCore_init fe) (take k es))))"
  using assms
proof (induction es rule: rev_induct)
  case Nil
  then show ?case by (simp add: autonomous_def FlightCore_init_def)
next
  case (snoc e es)
  let ?run = "\<lambda>es. core_run fe (FlightCore_init fe) es"
  have inv: "throw_inv (?run es)" by (rule throws.inv_run)
  have "autonomous (fc_phase (core_on fe (?run es) e))" using snoc.prems by simp
  from autonomous_event[OF inv this] show ?case
  proof
    assume "autonomous (fc_phase (?run es))"
    from snoc.IH[OF this] obtain n where n: "n < length es"
      "throw_frame (?run (take n es)) (?run (take (n + 1) es))"
      "\<forall>k. n < k \<and> k \<le> length es \<longrightarrow> autonomous (fc_phase (?run (take k es)))" by blast
    show ?thesis
    proof (intro exI[of _ n] conjI allI impI)
      fix k assume k: "n < k \<and> k \<le> length (es @ [e])"
      show "autonomous (fc_phase (?run (take k (es @ [e]))))"
        using n(3) k snoc.prems by (cases "k = Suc (length es)") auto
    qed (use n in simp_all)
  next
    assume "throw_frame (?run es) (core_on fe (?run es) e)"
    then show ?thesis using snoc.prems
      by (intro exI[of _ "length es"]) (auto simp: less_eq_Suc_le[symmetric] intro: le_antisym)
  qed
qed

theorem autonomous_flight_needs_throw_witness:
  "\<exists>n < length throw_events.
     throw_frame (core_run quiet_env fresh (take n throw_events))
                 (core_run quiet_env fresh (take (n + 1) throw_events))"
  using autonomous_flight_needs_throw[of quiet_env throw_events] throw_run_ballistic[of quiet_env]
  by (auto simp: autonomous_def)

section \<open>The mode latched at arming\<close>

text \<open>Which mode a phase flies in; a grounded phase says nothing.\<close>

definition phase_mode :: "flight_phase \<Rightarrow> pilot_mode option" where
  "phase_mode p =
     (case p of PH_MANUAL \<Rightarrow> Some PM_MANUAL | PH_LEVEL \<Rightarrow> Some PM_LEVEL
      | PH_IDLE \<Rightarrow> None | PH_CUTOFF \<Rightarrow> None | PH_FAULT \<Rightarrow> None | _ \<Rightarrow> Some PM_ALTITUDE_AUTO)"

definition mode_inv :: "flight_core \<Rightarrow> bool" where
  "mode_inv c \<longleftrightarrow> phase_mode (fc_phase c) \<in> {None, Some (fc_lockedMode c)}"

lemma advance_mode:
  "fc_phase c \<noteq> PH_IDLE \<Longrightarrow> fc_lockedMode (FlightCore_advancePhase c f) = fc_lockedMode c"
  by (cases "fc_phase c")
    (simp_all add: FlightCore_advancePhase_def Let_def frame_simps advance_piloted_def advance_armed_def
      advance_ballistic_def advance_recovery_def advance_hover_def advance_cutoff_def split_beta)

lemma advance_mode_inv:
  assumes "mode_inv c"
  shows "mode_inv (FlightCore_advancePhase c f)"
proof (cases "fc_phase c = PH_IDLE")
  case True
  then show ?thesis
    by (auto simp: mode_inv_def phase_mode_def FlightCore_advancePhase_def Let_def frame_simps advance_idle_def split_beta)
next
  case False
  have "phase_mode (fc_phase (FlightCore_advancePhase c f)) \<in> {None, phase_mode (fc_phase c)}"
    using False by (cases "fc_phase c")
      (simp_all add: phase_mode_def FlightCore_advancePhase_def Let_def frame_simps advance_piloted_def advance_armed_def
        advance_ballistic_def advance_recovery_def advance_hover_def advance_cutoff_def split_beta)
  with assms show ?thesis using advance_mode[OF False, of f] by (auto simp: mode_inv_def)
qed

lemma flown_mode:
  assumes "accepted c f" "sf_imuValid f"
  shows "fc_lockedMode (fst (FlightCore_step fe c f)) = fc_lockedMode (advanced fe c f)"
  by (cases rule: step_cases[of f fe c]) (use assms in \<open>simp_all add: accepted_def frame_simps\<close>)

lemma mode_inv_step:
  assumes "mode_inv c"
  shows "mode_inv (fst (FlightCore_step fe c f))"
proof (cases rule: step_cases[of f fe c])
  case Kill
  then show ?thesis by (simp add: mode_inv_def phase_mode_def frame_simps)
next
  case (Rejected n k)
  then show ?thesis using assms by (simp add: mode_inv_def)
next
  case NoImu
  then show ?thesis
    using assms grounded_by_imu_loss[OF NoImu(1,2), of fe] by (fastforce simp: mode_inv_def phase_mode_def)
next
  case (Flown m)
  have "mode_inv (estimated fe c f)" using assms by (simp add: mode_inv_def)
  from advance_mode_inv[OF this, of f] flown_mode[OF Flown(1,2), of fe] flown_step(5)[OF Flown(1,2), of fe]
  show ?thesis by (simp add: mode_inv_def advanced_def)
qed

interpretation modes: core_invariant fe mode_inv for fe
proof
  fix c f i v
  show "mode_inv (FlightCore_init fe)" by (simp add: mode_inv_def phase_mode_def FlightCore_init_def)
  show "mode_inv c \<Longrightarrow> mode_inv (fst (FlightCore_step fe c f))" by (rule mode_inv_step)
  show "mode_inv c \<Longrightarrow> mode_inv (fst (FlightCore_setParam fe c i v))" by (simp add: mode_inv_def frame_simps)
qed

lemma armed_step_mode:
  assumes "FlightCore_armed c" "FlightCore_armed (fst (FlightCore_step fe c f))"
  shows "fc_lockedMode (fst (FlightCore_step fe c f)) = fc_lockedMode c"
proof (cases rule: step_cases[of f fe c])
  case NoImu
  then show ?thesis
    using assms(2) grounded_by_imu_loss[OF NoImu(1,2), of fe] by (simp add: FlightCore_armed_def)
next
  case (Flown m)
  then show ?thesis
    using assms(1) flown_mode[OF Flown(1,2), of fe] advance_mode[of "estimated fe c f" f]
    by (simp add: FlightCore_armed_def advanced_def)
qed (use assms in \<open>simp_all add: FlightCore_armed_def frame_simps\<close>)

text \<open>(C23) The mode switch is read at arming and nowhere else: in every run the phase is the one of the mode the mission left
  \<^verbatim>\<open>IDLE\<close> with, and a frame that finds the core armed and leaves it armed keeps that mode, wherever the switch
  stands.\<close>

theorem mode_latched_at_arming:
  "case core_run fe (FlightCore_init fe) es of c \<Rightarrow>
     phase_mode (fc_phase c) \<in> {None, Some (fc_lockedMode c)}
     \<and> (if FlightCore_armed c \<and> FlightCore_armed (fst (FlightCore_step fe c f))
        then fc_lockedMode (fst (FlightCore_step fe c f)) = fc_lockedMode c else True)"
  using modes.inv_run[of fe es] armed_step_mode[of "core_run fe (FlightCore_init fe) es" fe f]
  by (simp add: mode_inv_def)

end
