(* ===== verification/Flight_Tuning.thy ===== *)
theory Flight_Tuning
  imports Flight_Step
begin

text \<open>
  Tuning a live core: the registry and the modules that own the parameters
  agree in every reachable state, every live value is inside its published bounds, and a
  request changes exactly the parameter it names or nothing at all.
\<close>

section \<open>The values the modules use\<close>

definition module_values :: "flight_core \<Rightarrow> f32 list" where
  "module_values c =
     [vx (rate_kp (fc_rateController c)), vx (rate_ki (fc_rateController c)),
      vz (rate_kp (fc_rateController c)), vz (rate_ki (fc_rateController c)),
      ac_kp (fc_attitudeController c), vc_kp (fc_verticalController c), vc_ki (fc_verticalController c),
      vc_hoverCollective (fc_verticalController c), ae_kp (fc_attitudeEstimator c),
      ae_ki (fc_attitudeEstimator c), ve_altitudeGain (fc_verticalEstimator c),
      ve_velocityGain (fc_verticalEstimator c), sm_rateRollPitchRadS (fc_stickMapper c),
      sm_rateYawRadS (fc_stickMapper c), sm_tiltMaxRad (fc_stickMapper c), sm_deadband (fc_stickMapper c)]"

text \<open>Values a parameter drives in two places: roll and pitch share a gain, the tilt carries its tangent.\<close>

definition shared_values :: "fpenv \<Rightarrow> flight_core \<Rightarrow> bool" where
  "shared_values fe c \<longleftrightarrow>
     vy (rate_kp (fc_rateController c)) = vx (rate_kp (fc_rateController c))
     \<and> vy (rate_ki (fc_rateController c)) = vx (rate_ki (fc_rateController c))
     \<and> sm_tanTiltMax (fc_stickMapper c) = fe_tan fe (sm_tiltMaxRad (fc_stickMapper c))"

text \<open>What no operation but a tuning request writes.\<close>

definition same_gains :: "flight_core \<Rightarrow> flight_core \<Rightarrow> bool" where
  "same_gains c' c \<longleftrightarrow>
     fc_tuning c' = fc_tuning c \<and> fc_stickMapper c' = fc_stickMapper c
     \<and> rate_kp (fc_rateController c') = rate_kp (fc_rateController c)
     \<and> rate_ki (fc_rateController c') = rate_ki (fc_rateController c)
     \<and> ac_kp (fc_attitudeController c') = ac_kp (fc_attitudeController c)
     \<and> vc_kp (fc_verticalController c') = vc_kp (fc_verticalController c)
     \<and> vc_ki (fc_verticalController c') = vc_ki (fc_verticalController c)
     \<and> vc_hoverCollective (fc_verticalController c') = vc_hoverCollective (fc_verticalController c)
     \<and> ae_kp (fc_attitudeEstimator c') = ae_kp (fc_attitudeEstimator c)
     \<and> ae_ki (fc_attitudeEstimator c') = ae_ki (fc_attitudeEstimator c)
     \<and> ve_altitudeGain (fc_verticalEstimator c') = ve_altitudeGain (fc_verticalEstimator c)
     \<and> ve_velocityGain (fc_verticalEstimator c') = ve_velocityGain (fc_verticalEstimator c)"

lemma same_gains_refl [simp]: "same_gains c c"
  by (simp add: same_gains_def)

lemma same_gains_trans: "same_gains a b \<Longrightarrow> same_gains b c \<Longrightarrow> same_gains a c"
  by (simp add: same_gains_def)

lemma same_gains_values:
  "same_gains c' c \<Longrightarrow> module_values c' = module_values c \<and> shared_values fe c' = shared_values fe c
     \<and> fc_tuning c' = fc_tuning c"
  by (simp add: same_gains_def module_values_def shared_values_def)

lemma module_gains [simp]:
  "rate_kp (RateController_reset r) = rate_kp r" "rate_ki (RateController_reset r) = rate_ki r"
  "rate_kp (fst (RateController_update r a b dt)) = rate_kp r"
  "rate_ki (fst (RateController_update r a b dt)) = rate_ki r"
  "ac_kp (fst (AttitudeController_rateSetpointRadS ac q u)) = ac_kp ac"
  "vc_kp (VerticalController_reset v) = vc_kp v" "vc_ki (VerticalController_reset v) = vc_ki v"
  "vc_hoverCollective (VerticalController_reset v) = vc_hoverCollective v"
  "vc_kp (fst (VerticalController_update v s m dt)) = vc_kp v"
  "vc_ki (fst (VerticalController_update v s m dt)) = vc_ki v"
  "vc_hoverCollective (fst (VerticalController_update v s m dt)) = vc_hoverCollective v"
  "ae_kp (AttitudeEstimator_update fe ae f dt allow) = ae_kp ae"
  "ae_ki (AttitudeEstimator_update fe ae f dt allow) = ae_ki ae"
  by (simp_all add: RateController_reset_def RateController_update_def Let_def
      AttitudeController_rateSetpointRadS_def VerticalController_reset_def VerticalController_update_def
      AttitudeEstimator_update_def AttitudeEstimator_refreshTelemetry_def)

lemma vertical_gains [simp]:
  "ve_altitudeGain (VerticalEstimator_update fe e f dt q) = ve_altitudeGain e"
  "ve_velocityGain (VerticalEstimator_update fe e f dt q) = ve_velocityGain e"
  by (simp_all add: VerticalEstimator_update_def reference_capture_def vertical_predict_def Let_def)

lemma same_gains_ops:
  "same_gains (fst (FlightCore_deriveDt c ts)) c" "same_gains (FlightCore_resetMission c) c"
  "same_gains (FlightCore_updateEstimators fe c f dt) c" "same_gains (fst (FlightCore_tiltCutoffConfirmed c f)) c"
  "same_gains (FlightCore_stickLatches c f) c" "same_gains (brake_latch c f) c" "same_gains (counted c) c"
  "same_gains (fst (control_off c)) c" "same_gains (fst (control_recovery c f dt)) c"
  "same_gains (fst (control_direct c f dt)) c"
  by (simp_all add: same_gains_def FlightCore_deriveDt_def FlightCore_resetMission_def FlightCore_updateEstimators_def
      FlightCore_tiltCutoffConfirmed_def FlightCore_stickLatches_def brake_latch_def counted_def
      control_off_def control_recovery_def control_direct_def Let_def split_beta)

lemma same_gains_cutoff: "same_gains (fst (FlightCore_cutoffTripped c f)) c"
  by (simp add: FlightCore_cutoffTripped_def same_gains_ops)

lemma same_gains_phase [simp]:
  "same_gains (c\<lparr>fc_phase := p\<rparr>) c' = same_gains c c'" "same_gains (c\<lparr>fc_lastMotor := m\<rparr>) c' = same_gains c c'"
  "same_gains (c\<lparr>fc_lockedMode := l\<rparr>) c' = same_gains c c'" "same_gains (c\<lparr>fc_takeoverArmed := b\<rparr>) c' = same_gains c c'"
  "same_gains (c\<lparr>fc_handledThrowCount := n\<rparr>) c' = same_gains c c'"
  "same_gains (c\<lparr>fc_recoveryStartUs := t\<rparr>) c' = same_gains c c'" "same_gains (c\<lparr>fc_hoverStartUs := t\<rparr>) c' = same_gains c c'"
  "same_gains (c\<lparr>fc_brakeDone := b\<rparr>) c' = same_gains c c'" "same_gains (c\<lparr>fc_imuInvalidRun := n\<rparr>) c' = same_gains c c'"
  "same_gains (c\<lparr>fc_invalidFrameCount := n\<rparr>) c' = same_gains c c'" "same_gains (c\<lparr>fc_staleFrameCount := n\<rparr>) c' = same_gains c c'"
  by (simp_all add: same_gains_def)

lemma same_gains_hover: "same_gains (fst (control_hover c f dt)) c"
proof -
  have "same_gains (fst (control_hover c f dt)) (brake_latch c f)"
    by (simp add: same_gains_def control_hover_def Let_def split_beta)
  then show ?thesis using same_gains_ops(6) by (rule same_gains_trans)
qed

lemma same_gains_control: "same_gains (fst (FlightCore_runControl c f dt)) c"
  by (cases "fc_phase c") (simp_all add: FlightCore_runControl_def same_gains_ops same_gains_hover)

lemma same_gains_cutoff_from:
  "same_gains (fst (FlightCore_cutoffTripped (c\<lparr>fc_lockedMode := l\<rparr>) f)) c"
  by (rule same_gains_trans[OF same_gains_cutoff]) simp

lemma same_gains_advance: "same_gains (FlightCore_advancePhase c f) c"
proof -
  have "same_gains (FlightCore_advancePhase c f) (FlightCore_stickLatches c f)"
    by (cases "fc_phase (FlightCore_stickLatches c f)")
      (simp_all add: FlightCore_advancePhase_def Let_def advance_idle_def advance_piloted_def advance_armed_def
        advance_ballistic_def advance_recovery_def advance_hover_def advance_cutoff_def split_beta
        same_gains_cutoff same_gains_cutoff_from)
  then show ?thesis using same_gains_ops(5) by (rule same_gains_trans)
qed

lemma same_gains_timed: "same_gains (timed c f) c"
  unfolding timed_def by (rule same_gains_trans[OF same_gains_ops(1) same_gains_ops(7)])

lemma same_gains_estimated: "same_gains (estimated fe c f) c"
  unfolding estimated_def by (rule same_gains_trans[OF same_gains_ops(3)]) (simp add: same_gains_timed)

lemma same_gains_kill: "same_gains (step_kill fe c f) c"
proof -
  define c1 where "c1 = c\<lparr>fc_lastMotor := replicate 4 0\<rparr>"
  define c2 where "c2 = (if isFrameFinite f \<and> FlightCore_acceptsTimestamp c1 (sf_timestampUs f)
      then if sf_imuValid f
           then FlightCore_updateEstimators fe (fst (FlightCore_deriveDt c1 (sf_timestampUs f))) f
                  (snd (FlightCore_deriveDt c1 (sf_timestampUs f)))
           else fst (FlightCore_deriveDt c1 (sf_timestampUs f))
      else c1)"
  have "same_gains c1 c" by (simp add: c1_def)
  moreover have "same_gains c2 c1"
    unfolding c2_def using same_gains_trans[OF same_gains_ops(3) same_gains_ops(1)] by (simp add: same_gains_ops)
  moreover have "step_kill fe c f = FlightCore_resetMission c2"
    by (simp add: step_kill_def Let_def split_beta c1_def c2_def)
  ultimately show ?thesis by (metis same_gains_ops(2) same_gains_trans)
qed

lemma same_gains_lost: "same_gains (fst (FlightCore_stepWithoutImu c f)) c"
  by (simp add: FlightCore_stepWithoutImu_def Let_def same_gains_def FlightCore_resetMission_def)

lemma same_gains_step: "same_gains (fst (FlightCore_step fe c f)) c"
proof (cases rule: step_cases[of f fe c])
  case Kill
  then show ?thesis by (simp add: same_gains_trans[OF same_gains_kill same_gains_ops(7)])
next
  case (Rejected n k)
  then show ?thesis by (simp add: same_gains_ops)
next
  case NoImu
  then show ?thesis by (simp add: same_gains_trans[OF same_gains_lost same_gains_timed])
next
  case (Flown m)
  have "same_gains (advanced fe c f) c"
    unfolding advanced_def by (rule same_gains_trans[OF same_gains_advance same_gains_estimated])
  then show ?thesis using Flown(4) same_gains_trans[OF same_gains_control] by simp
qed

section \<open>The registry\<close>

abbreviation tuning_ids_list :: "u16 list" where
  "tuning_ids_list \<equiv> [101, 102, 103, 104, 201, 301, 302, 303, 401, 402, 501, 502, 701, 702, 703, 704]"

lemma init_ids: "map tp_id TuningTable_init = tuning_ids_list" "length TuningTable_init = 16"
  by (simp_all add: TuningTable_init_def tuning_row_def tuning_ids)

text \<open>The registry a core holds: the rows of the initial table, with the values of the modules.\<close>

definition registry_of :: "f32 list \<Rightarrow> tuning_table" where
  "registry_of vs = map2 (\<lambda>p v. p\<lparr>tp_value := v\<rparr>) TuningTable_init vs"

definition in_bounds :: "f32 list \<Rightarrow> bool" where
  "in_bounds vs \<longleftrightarrow> list_all2 (\<lambda>p v. tp_minValue p \<le> v \<and> v \<le> tp_maxValue p) TuningTable_init vs"

definition tuning_inv :: "fpenv \<Rightarrow> flight_core \<Rightarrow> bool" where
  "tuning_inv fe c \<longleftrightarrow>
     fc_tuning c = registry_of (module_values c) \<and> in_bounds (module_values c) \<and> shared_values fe c"

lemma module_values_length [simp]: "length (module_values c) = 16"
  by (simp add: module_values_def)

lemma find_cong: "map tp_id t = map tp_id t' \<Longrightarrow> TuningTable_find t i = TuningTable_find t' i"
proof (induction t arbitrary: t')
  case (Cons p ps)
  then show ?case by (cases t') auto
qed simp

lemma registry_ids: "length vs = 16 \<Longrightarrow> map tp_id (registry_of vs) = tuning_ids_list"
  unfolding init_ids(1)[symmetric] by (rule nth_equalityI) (simp_all add: registry_of_def init_ids(2))

text \<open>The index of an id, computed once.\<close>

definition id_index :: "u16 \<Rightarrow> nat option" where
  "id_index i = TuningTable_find TuningTable_init i"

lemma find_registry: "length vs = 16 \<Longrightarrow> TuningTable_find (registry_of vs) i = id_index i"
  unfolding id_index_def by (rule find_cong) (simp add: registry_ids init_ids)

lemma id_index_eq:
  "id_index i =
     (if i = 101 then Some 0 else if i = 102 then Some 1 else if i = 103 then Some 2 else if i = 104 then Some 3
      else if i = 201 then Some 4 else if i = 301 then Some 5 else if i = 302 then Some 6
      else if i = 303 then Some 7 else if i = 401 then Some 8 else if i = 402 then Some 9
      else if i = 501 then Some 10 else if i = 502 then Some 11 else if i = 701 then Some 12
      else if i = 702 then Some 13 else if i = 703 then Some 14 else if i = 704 then Some 15 else None)"
  by (auto simp: id_index_def TuningTable_init_def tuning_row_def tuning_ids)

lemma id_index_bound: "id_index i = Some k \<Longrightarrow> k < 16"
  using find_Some[of TuningTable_init i k] by (simp add: id_index_def init_ids)

lemma registry_nth: "length vs = 16 \<Longrightarrow> k < 16 \<Longrightarrow> registry_of vs ! k = (TuningTable_init ! k)\<lparr>tp_value := vs ! k\<rparr>"
  by (simp add: registry_of_def init_ids)

lemma registry_update:
  "length vs = 16 \<Longrightarrow> k < 16 \<Longrightarrow>
   (registry_of vs)[k := (registry_of vs ! k)\<lparr>tp_value := v\<rparr>] = registry_of (vs[k := v])"
  by (rule nth_equalityI) (auto simp: registry_of_def init_ids nth_list_update)

lemma in_bounds_update:
  assumes "in_bounds vs" "k < 16" "tp_minValue (TuningTable_init ! k) \<le> v" "v \<le> tp_maxValue (TuningTable_init ! k)"
  shows "in_bounds (vs[k := v])"
  using assms by (auto simp: in_bounds_def list_all2_conv_all_nth nth_list_update init_ids)

text \<open>Applying a parameter writes its own module value, through every module that shares it.\<close>

lemma apply_values:
  assumes "id_index i = Some k"
  shows "module_values (FlightCore_applyParam fe c i v) = (module_values c)[k := v]"
proof -
  consider "i = 101" "k = 0"
    | "i = 102" "k = 1"
    | "i = 103" "k = 2"
    | "i = 104" "k = 3"
    | "i = 201" "k = 4"
    | "i = 301" "k = 5"
    | "i = 302" "k = 6"
    | "i = 303" "k = 7"
    | "i = 401" "k = 8"
    | "i = 402" "k = 9"
    | "i = 501" "k = 10"
    | "i = 502" "k = 11"
    | "i = 701" "k = 12"
    | "i = 702" "k = 13"
    | "i = 703" "k = 14"
    | "i = 704" "k = 15"
    using assms unfolding id_index_eq by (auto split: if_splits)
  then show ?thesis
    by cases (simp_all add: module_values_def FlightCore_applyParam_def tuning_ids
        RateController_setKpRollPitch_def RateController_setKiRollPitch_def RateController_setKpYaw_def
        RateController_setKiYaw_def AttitudeController_setKp_def VerticalController_setKp_def
        VerticalController_setKi_def VerticalController_setHoverCollective_def AttitudeEstimator_setKp_def
        AttitudeEstimator_setKi_def VerticalEstimator_setAltitudeGain_def VerticalEstimator_setVelocityGain_def
        StickMapper_setRateRollPitch_def StickMapper_setRateYaw_def StickMapper_setTiltMax_def
        StickMapper_setDeadband_def)
qed

lemma apply_shared: "shared_values fe c \<Longrightarrow> shared_values fe (FlightCore_applyParam fe c i v)"
  by (simp add: shared_values_def FlightCore_applyParam_def
        RateController_setKpRollPitch_def RateController_setKiRollPitch_def RateController_setKpYaw_def
        RateController_setKiYaw_def StickMapper_setRateRollPitch_def StickMapper_setRateYaw_def
        StickMapper_setTiltMax_def StickMapper_setDeadband_def)

lemma apply_tuning [simp]: "fc_tuning (FlightCore_applyParam fe c i v) = fc_tuning c"
  by (simp add: FlightCore_applyParam_def)

lemma values_tuning [simp]:
  "module_values (c\<lparr>fc_tuning := t\<rparr>) = module_values c" "shared_values fe (c\<lparr>fc_tuning := t\<rparr>) = shared_values fe c"
  by (simp_all add: module_values_def shared_values_def)

lemma armed_rows: "k < 16 \<Longrightarrow> tp_armedChange (TuningTable_init ! k) \<longleftrightarrow> k \<notin> {8, 9, 10, 11}"
  by (auto simp: TuningTable_init_def tuning_row_def nth_Cons' split: if_splits)

text \<open>The four outcomes of a request to a core whose registry and modules agree.\<close>

lemma setParam_cases:
  assumes "tuning_inv fe c"
  obtains (Unknown) "id_index i = None" "FlightCore_setParam fe c i v = (c, TUNE_UNKNOWN_ID)"
  | (Locked) k where "id_index i = Some k" "FlightCore_armed c" "k \<in> {8, 9, 10, 11}"
      "FlightCore_setParam fe c i v = (c, TUNE_LOCKED_WHILE_ARMED)"
  | (Bounds) k where "id_index i = Some k" "\<not> (FlightCore_armed c \<and> k \<in> {8, 9, 10, 11})"
      "\<not> (tp_minValue (TuningTable_init ! k) \<le> v \<and> v \<le> tp_maxValue (TuningTable_init ! k))"
      "FlightCore_setParam fe c i v = (c, TUNE_OUT_OF_BOUNDS)"
  | (Ok) k where "id_index i = Some k" "\<not> (FlightCore_armed c \<and> k \<in> {8, 9, 10, 11})"
      "tp_minValue (TuningTable_init ! k) \<le> v" "v \<le> tp_maxValue (TuningTable_init ! k)"
      "FlightCore_setParam fe c i v =
         (FlightCore_applyParam fe (c\<lparr>fc_tuning := registry_of ((module_values c)[k := v])\<rparr>) i v, TUNE_OK)"
proof -
  have reg: "fc_tuning c = registry_of (module_values c)" using assms by (simp add: tuning_inv_def)
  have same: "c\<lparr>fc_tuning := registry_of (module_values c)\<rparr> = c" using reg by simp
  note set = FlightCore_setParam_def TuningTable_set_def reg find_registry Let_def registry_nth registry_update
  show thesis
  proof (cases "id_index i")
    case None
    then show ?thesis using Unknown same by (simp add: set)
  next
    case (Some k)
    note k = id_index_bound[OF Some]
    consider "FlightCore_armed c \<and> k \<in> {8, 9, 10, 11}"
      | "\<not> (FlightCore_armed c \<and> k \<in> {8, 9, 10, 11})"
        "\<not> (tp_minValue (TuningTable_init ! k) \<le> v \<and> v \<le> tp_maxValue (TuningTable_init ! k))"
      | "\<not> (FlightCore_armed c \<and> k \<in> {8, 9, 10, 11})"
        "tp_minValue (TuningTable_init ! k) \<le> v \<and> v \<le> tp_maxValue (TuningTable_init ! k)"
      by blast
    then show ?thesis
    proof cases
      case 1
      then show ?thesis using Locked[OF Some] Some k same armed_rows[OF k] by (simp add: set)
    next
      case 2
      then show ?thesis using Bounds[OF Some] Some k same armed_rows[OF k] by (simp add: set)
    next
      case 3
      then show ?thesis using Ok[OF Some] Some k armed_rows[OF k] registry_update[of "module_values c" k v]
        by (simp add: set del: registry_update)
    qed
  qed
qed

lemma setParam_inv:
  assumes "tuning_inv fe c"
  shows "tuning_inv fe (fst (FlightCore_setParam fe c i v))"
using assms
proof (cases rule: setParam_cases[of fe c i v])
  case (Ok k)
  note k = id_index_bound[OF Ok(1)]
  have "in_bounds ((module_values c)[k := v])"
    using assms Ok k by (intro in_bounds_update) (simp_all add: tuning_inv_def)
  moreover have "shared_values fe (FlightCore_applyParam fe (c\<lparr>fc_tuning := registry_of ((module_values c)[k := v])\<rparr>) i v)"
    using assms by (intro apply_shared) (simp add: tuning_inv_def)
  ultimately show ?thesis using Ok(5) by (simp add: tuning_inv_def apply_values[OF Ok(1)])
qed (use assms in simp_all)

lemma default_numbers_1:
  "0 \<le> lit 3 100 \<and> lit 3 100 \<le> lit 5 10"
  "0 \<le> lit 2 100 \<and> lit 2 100 \<le> lit 5 10"
  "0 \<le> lit 15 100 \<and> lit 15 100 \<le> lit (Suc 0) (Suc 0)"
  by (simp_all add: float_eval cong: let_weak_cong)

lemma default_numbers_2:
  "0 \<le> lit 5 100 \<and> lit 5 100 \<le> lit (Suc 0) (Suc 0)"
  "0 \<le> lit 5 (Suc 0) \<and> lit 5 (Suc 0) \<le> lit 20 (Suc 0)"
  "0 \<le> lit (Suc 0) 10 \<and> lit (Suc 0) 10 \<le> lit (Suc 0) (Suc 0)"
  by (simp_all add: float_eval cong: let_weak_cong)

lemma default_numbers_3:
  "0 \<le> lit 52 100 \<and> lit 52 100 \<le> lit 9 10"
  "0 \<le> lit 2 (Suc 0) \<and> lit 2 (Suc 0) \<le> lit 10 (Suc 0)"
  "0 \<le> lit 28 10 \<and> lit 28 10 \<le> lit 10 (Suc 0)"
  by (simp_all add: float_eval cong: let_weak_cong)

lemma default_numbers_4:
  "0 \<le> lit 4 (Suc 0) \<and> lit 4 (Suc 0) \<le> lit 20 (Suc 0)"
  "0 \<le> lit 35 10 \<and> lit 35 10 \<le> lit 12 (Suc 0)"
  "0 \<le> lit 26 10 \<and> lit 26 10 \<le> lit 8 (Suc 0)"
  by (simp_all add: float_eval cong: let_weak_cong)

lemma default_numbers_5:
  "0 \<le> lit 5 10 \<and> lit 5 10 \<le> lit (Suc 0) (Suc 0)"
  "0 \<le> lit 5 100 \<and> lit 5 100 \<le> lit 5 10"
  by (simp_all add: float_eval cong: let_weak_cong)

lemmas default_numbers = default_numbers_1 default_numbers_2 default_numbers_3 default_numbers_4 default_numbers_5

lemma default_bounds: "in_bounds (map tp_value TuningTable_init)"
  unfolding in_bounds_def TuningTable_init_def tuning_row_def
  using default_numbers
  by (simp add: DEFAULT_KP_ROLL_PITCH_def DEFAULT_KI_ROLL_PITCH_def DEFAULT_KP_YAW_def DEFAULT_KI_YAW_def
      ATTITUDE_DEFAULT_KP_def VERTICAL_DEFAULT_KP_def VERTICAL_DEFAULT_KI_def DEFAULT_HOVER_COLLECTIVE_def
      AHRS_DEFAULT_KP_def AHRS_DEFAULT_KI_def DEFAULT_ALTITUDE_GAIN_def DEFAULT_VELOCITY_GAIN_def
      DEFAULT_RATE_ROLL_PITCH_RADS_def DEFAULT_RATE_YAW_RADS_def DEFAULT_TILT_MAX_RAD_def DEFAULT_DEADBAND_def)

lemma init_values: "module_values (FlightCore_init fe) = map tp_value TuningTable_init"
  by (simp add: module_values_def FlightCore_init_def TuningTable_init_def tuning_row_def RateController_init_def
      AttitudeController_init_def VerticalController_init_def AttitudeEstimator_init_def
      VerticalEstimator_init_def StickMapper_init_def)

lemma tuning_inv_init: "tuning_inv fe (FlightCore_init fe)"
proof -
  have "fc_tuning (FlightCore_init fe) = registry_of (map tp_value TuningTable_init)"
    unfolding registry_of_def by (rule nth_equalityI) (simp_all add: FlightCore_init_def)
  moreover have "shared_values fe (FlightCore_init fe)"
    by (simp add: shared_values_def FlightCore_init_def RateController_init_def StickMapper_init_def)
  ultimately show ?thesis by (simp add: tuning_inv_def init_values default_bounds)
qed

interpretation tuning: core_invariant fe "tuning_inv fe" for fe
proof
  fix c f i v
  show "tuning_inv fe (FlightCore_init fe)" by (rule tuning_inv_init)
  show "tuning_inv fe c \<Longrightarrow> tuning_inv fe (fst (FlightCore_step fe c f))"
    using same_gains_values[OF same_gains_step[of fe c f], of fe] by (simp add: tuning_inv_def)
  show "tuning_inv fe c \<Longrightarrow> tuning_inv fe (fst (FlightCore_setParam fe c i v))" by (rule setParam_inv)
qed

text \<open>(C20) The registry and the modules never disagree: in every run of frames, requests and resets, reading
  the sixteen parameters gives the values the modules fly on, each within its published bounds (so
  none is a NaN), with the roll and pitch gains equal and the stored tangent that of the
  maximum tilt.\<close>

theorem registry_agrees_with_modules:
  "case core_run fe (FlightCore_init fe) es of c \<Rightarrow>
     map (FlightCore_getParam c) (map tp_id TuningTable_init) = map Inr (module_values c)
     \<and> list_all2 (\<lambda>p v. tp_minValue p \<le> v \<and> v \<le> tp_maxValue p \<and> \<not> isnan v)
         TuningTable_init (module_values c)
     \<and> shared_values fe c"
proof -
  define c where "c = core_run fe (FlightCore_init fe) es"
  have inv: "tuning_inv fe c" unfolding c_def by (rule tuning.inv_run)
  have reg: "fc_tuning c = registry_of (module_values c)" using inv by (simp add: tuning_inv_def)
  have "map (FlightCore_getParam c) (map tp_id TuningTable_init) = map Inr (module_values c)"
  proof (rule nth_equalityI)
    fix k assume "k < length (map (FlightCore_getParam c) (map tp_id TuningTable_init))"
    then have k: "k < 16" by (simp add: init_ids(2))
    have "distinct (map tp_id TuningTable_init)" by (simp add: init_ids)
    moreover obtain j where j: "id_index (tp_id (TuningTable_init ! k)) = Some j"
      using k find_None[of TuningTable_init "tp_id (TuningTable_init ! k)"]
      by (cases "id_index (tp_id (TuningTable_init ! k))") (auto simp: id_index_def init_ids(2))
    moreover from j have "j < 16 \<and> tp_id (TuningTable_init ! j) = tp_id (TuningTable_init ! k)"
      using find_Some unfolding id_index_def by (metis init_ids(2))
    ultimately have "j = k" using k by (auto simp: distinct_conv_nth init_ids(2))
    then show "map (FlightCore_getParam c) (map tp_id TuningTable_init) ! k = map Inr (module_values c) ! k"
      using j k by (simp add: init_ids(2) FlightCore_getParam_def TuningTable_get_def reg find_registry registry_nth)
  qed (simp add: init_ids(2))
  moreover have "list_all2 (\<lambda>p v. tp_minValue p \<le> v \<and> v \<le> tp_maxValue p \<and> \<not> isnan v)
      TuningTable_init (module_values c)"
    using inv by (auto simp: tuning_inv_def in_bounds_def isnan_iff elim!: list_all2_mono)
  ultimately show ?thesis using inv by (simp add: c_def tuning_inv_def)
qed

lemma set_param_outcome:
  assumes "tuning_inv fe c"
  shows "FlightCore_setParam fe c i v =
       (case id_index i of
          None \<Rightarrow> (c, TUNE_UNKNOWN_ID)
        | Some k \<Rightarrow>
            if FlightCore_armed c \<and> i \<in> {401, 402, 501, 502} then (c, TUNE_LOCKED_WHILE_ARMED)
            else if \<not> (tp_minValue (TuningTable_init ! k) \<le> v \<and> v \<le> tp_maxValue (TuningTable_init ! k))
            then (c, TUNE_OUT_OF_BOUNDS)
            else (fst (FlightCore_setParam fe c i v), TUNE_OK))
     \<and> (if snd (FlightCore_setParam fe c i v) = TUNE_OK
        then (\<exists>k. id_index i = Some k
               \<and> module_values (fst (FlightCore_setParam fe c i v)) = (module_values c)[k := v]
               \<and> map tp_value (fc_tuning (fst (FlightCore_setParam fe c i v))) = (map tp_value (fc_tuning c))[k := v]
               \<and> fc_phase (fst (FlightCore_setParam fe c i v)) = fc_phase c)
        else fst (FlightCore_setParam fe c i v) = c)"
proof -
  have lock: "id_index i = Some k \<Longrightarrow> k \<in> {8, 9, 10, 11} \<longleftrightarrow> i \<in> {401, 402, 501, 502}" for k
    unfolding id_index_eq by (auto split: if_splits)
  have vals: "length vs = 16 \<Longrightarrow> map tp_value (registry_of vs) = vs" for vs
    by (rule nth_equalityI) (simp_all add: registry_of_def init_ids(2))
  show ?thesis
    using assms
  proof (cases rule: setParam_cases[of fe c i v])
    case (Ok k)
    have "map tp_value (fc_tuning c) = module_values c" using assms by (simp add: tuning_inv_def vals)
    moreover have "\<not> (FlightCore_armed c \<and> i \<in> {401, 402, 501, 502})" using Ok(2) lock[OF Ok(1)] by blast
    ultimately show ?thesis using Ok(1,3-5) by (simp add: apply_values[OF Ok(1)] vals frame_simps del: insert_iff)
  next
    case Unknown
    then show ?thesis by simp
  next
    case (Locked k)
    then have "FlightCore_armed c \<and> i \<in> {401, 402, 501, 502}" using lock[OF Locked(1)] by blast
    then show ?thesis using Locked(1,4) by (simp del: insert_iff)
  next
    case (Bounds k)
    then have "\<not> (FlightCore_armed c \<and> i \<in> {401, 402, 501, 502})" using lock[OF Bounds(1)] by blast
    then show ?thesis using Bounds(1,3,4) by (simp del: insert_iff)
  qed
qed

text \<open>(C22) A tuning request does all of what it says or nothing: to a core in any run, an id no row
  carries, an estimator gain while armed, and a value outside the bounds (a NaN included) are refused in that
  order with the core unchanged; anything else is accepted, the value is live in its module and in the registry,
  and every other parameter keeps its value.\<close>

theorem set_param_all_or_nothing:
  "case core_run fe (FlightCore_init fe) es of c \<Rightarrow>
     FlightCore_setParam fe c i v =
       (case TuningTable_find TuningTable_init i of
          None \<Rightarrow> (c, TUNE_UNKNOWN_ID)
        | Some k \<Rightarrow>
            if FlightCore_armed c \<and> i \<in> {401, 402, 501, 502} then (c, TUNE_LOCKED_WHILE_ARMED)
            else if \<not> (tp_minValue (TuningTable_init ! k) \<le> v \<and> v \<le> tp_maxValue (TuningTable_init ! k))
            then (c, TUNE_OUT_OF_BOUNDS)
            else (fst (FlightCore_setParam fe c i v), TUNE_OK))
     \<and> (if snd (FlightCore_setParam fe c i v) = TUNE_OK
        then (\<exists>k. TuningTable_find TuningTable_init i = Some k
               \<and> module_values (fst (FlightCore_setParam fe c i v)) = (module_values c)[k := v]
               \<and> map tp_value (fc_tuning (fst (FlightCore_setParam fe c i v))) = (map tp_value (fc_tuning c))[k := v]
               \<and> fc_phase (fst (FlightCore_setParam fe c i v)) = fc_phase c)
        else fst (FlightCore_setParam fe c i v) = c)"
  using set_param_outcome[OF tuning.inv_run, of fe es i v, unfolded id_index_def] by simp

end
