(* ===== verification/Flight_Bounds.thy ===== *)
theory Flight_Bounds
  imports Flight_Tuning
begin

text \<open>
  The numbers the flight core integrates over and the state its estimators
  keep: the integration step, the gyro bias, the capture of the barometric
  reference, the mode latched at arming, and the one way a finite frame can still
  destroy the attitude.
\<close>

section \<open>Integration step\<close>

lemma float_of_nonneg: "0 \<le> float_of w"
  by (simp add: float_of_def)

lemma us_numbers: "0 < CORE_US_PER_S" "isfinite CORE_US_PER_S" "isfinite MAX_STEP_S" "\<not> 0 > MAX_STEP_S" "0 \<le> MAX_STEP_S"
  by (simp_all add: CORE_US_PER_S_def MAX_STEP_S_def float_eval cong: let_weak_cong)

lemma divide_by_us: "0 \<le> x \<Longrightarrow> 0 \<le> x / CORE_US_PER_S"
  using us_numbers(1,2) by (rule divide_nonneg[rotated 1])

text \<open>Every module integrates over a bounded step: whatever two timestamps it sees, the core derives a finite step
  between zero and 50 ms, zero on its first frame and across a gap, and remembers the timestamp.\<close>

lemma step_dt_bounded:
  "case FlightCore_deriveDt c ts of (c', dt) \<Rightarrow>
     isfinite dt \<and> 0 \<le> dt \<and> dt \<le> MAX_STEP_S
     \<and> (if fc_hasPrevTimestamp c then True else dt = 0)
     \<and> c' = c\<lparr>fc_prevTimestampUs := ts, fc_hasPrevTimestamp := True\<rparr>"
proof -
  define d where "d = float_of (ts - fc_prevTimestampUs c) / CORE_US_PER_S"
  have d: "0 \<le> d" unfolding d_def by (rule divide_by_us) (rule float_of_nonneg)
  have in_range: "d \<le> MAX_STEP_S \<and> isfinite d" if "\<not> d > MAX_STEP_S"
  proof -
    have "d \<noteq> NaN" "MAX_STEP_S \<noteq> NaN" using d us_numbers by auto
    then have le: "d \<le> MAX_STEP_S" using that by (simp add: not_less_f32)
    moreover have "isfinite 0" by (simp add: zero_f32_def)
    ultimately show ?thesis using between_finite[OF _ us_numbers(3) d le] by simp
  qed
  have dt: "snd (FlightCore_deriveDt c ts) = (if fc_hasPrevTimestamp c then if d > MAX_STEP_S then 0 else d else 0)"
    by (simp add: FlightCore_deriveDt_def Let_def d_def)
  have zero: "isfinite 0" "(0 :: f32) \<le> 0" by (simp_all add: zero_f32_def)
  have "isfinite (snd (FlightCore_deriveDt c ts)) \<and> 0 \<le> snd (FlightCore_deriveDt c ts)
      \<and> snd (FlightCore_deriveDt c ts) \<le> MAX_STEP_S"
    unfolding dt using in_range d zero us_numbers(5) by simp
  moreover have "fst (FlightCore_deriveDt c ts) = c\<lparr>fc_prevTimestampUs := ts, fc_hasPrevTimestamp := True\<rparr>"
    by (simp add: FlightCore_deriveDt_def Let_def)
  ultimately show ?thesis using dt by (simp add: split_beta)
qed

section \<open>Gyro bias\<close>

definition bias_ok :: "f32 vec3 \<Rightarrow> bool" where
  "bias_ok v \<longleftrightarrow> list_all (\<lambda>b. - BIAS_LIMIT_RADS \<le> b \<and> b \<le> BIAS_LIMIT_RADS) [vx v, vy v, vz v]"

lemma bias_numbers:
  "isfinite BIAS_LIMIT_RADS" "- BIAS_LIMIT_RADS \<le> 0" "0 \<le> BIAS_LIMIT_RADS" "- BIAS_LIMIT_RADS \<le> BIAS_LIMIT_RADS"
  "- BIAS_LIMIT_RADS \<le> - BIAS_LIMIT_RADS" "BIAS_LIMIT_RADS \<le> BIAS_LIMIT_RADS" "\<not> BIAS_LIMIT_RADS < - BIAS_LIMIT_RADS"
  by (simp_all add: BIAS_LIMIT_RADS_def float_eval cong: let_weak_cong)

lemma bias_axis_bounds:
  assumes "- BIAS_LIMIT_RADS \<le> fb" "fb \<le> BIAS_LIMIT_RADS" "isfinite ki" "isfinite e" "0 < dt" "isfinite dt"
  shows "- BIAS_LIMIT_RADS \<le> bias_axis ki fb e dt \<and> bias_axis ki fb e dt \<le> BIAS_LIMIT_RADS"
proof -
  let ?L = BIAS_LIMIT_RADS and ?i = "fb + ki * e * dt"
  have "isfinite fb" using between_finite[OF _ bias_numbers(1) assms(1,2)] bias_numbers(1) by simp
  moreover have "ki * e * dt \<noteq> NaN"
    by (rule times_pos_not_nan) (use assms times_finite_not_nan in auto)
  ultimately have n: "?i \<noteq> NaN" by (rule plus_finite_not_nan)
  have L: "?L \<noteq> NaN" "- ?L \<noteq> NaN" using bias_numbers by auto
  show ?thesis
    using n L bias_numbers
    by (auto simp: bias_axis_def Let_def not_less_f32 not_less_f32[symmetric] simp del: not_less_f32)
qed

lemma bias_update_ok:
  assumes "bias_ok fb" "isfinite ki" "0 < dt" "isfinite dt"
  shows "bias_ok (bias_update ki fb e dt)"
proof (cases "vnth e 0 * vnth e 0 + vnth e 1 * vnth e 1 + vnth e 2 * vnth e 2 < KI_ERROR_GATE_SIN * KI_ERROR_GATE_SIN")
  case True
  from sum_squares_finite[OF this] bias_axis_bounds assms True show ?thesis
    by (simp add: bias_update_def bias_ok_def vnth_def)
next
  case False
  then show ?thesis using assms(1) by (simp add: bias_update_def)
qed

lemma attitude_bias_ok:
  assumes "bias_ok (ae_integralFb ae)" "isfinite (ae_ki ae)" "isfinite dt"
  shows "bias_ok (ae_integralFb (AttitudeEstimator_update fe ae f dt allow))"
proof (cases "dt \<le> 0")
  case False
  have "dt \<noteq> NaN" "(0 :: f32) \<noteq> NaN" using assms(3) by (auto simp: zero_f32_def)
  then have "0 < dt" using False by (simp add: not_le_f32)
  then show ?thesis using assms bias_update_ok False
    by (simp add: AttitudeEstimator_update_def Let_def AttitudeEstimator_refreshTelemetry_def)
qed (use assms in \<open>simp add: AttitudeEstimator_update_def\<close>)

text \<open>The bias of a core and the gain it learns with.\<close>

definition core_bias_ok :: "fpenv \<Rightarrow> flight_core \<Rightarrow> bool" where
  "core_bias_ok fe c \<longleftrightarrow> tuning_inv fe c \<and> bias_ok (ae_integralFb (fc_attitudeEstimator c))"

lemma tuned_ki_finite:
  assumes "tuning_inv fe c"
  shows "isfinite (ae_ki (fc_attitudeEstimator c))"
proof -
  have "module_values c ! 9 = ae_ki (fc_attitudeEstimator c)" by (simp add: module_values_def)
  moreover have "tp_minValue (TuningTable_init ! 9) = 0" "tp_maxValue (TuningTable_init ! 9) = lit 1 1"
    by (simp_all add: TuningTable_init_def tuning_row_def)
  moreover have "\<forall>i<16. tp_minValue (TuningTable_init ! i) \<le> module_values c ! i
      \<and> module_values c ! i \<le> tp_maxValue (TuningTable_init ! i)"
    using assms by (simp add: tuning_inv_def in_bounds_def list_all2_conv_all_nth init_ids(2))
  from this[rule_format, of 9]
  have "tp_minValue (TuningTable_init ! 9) \<le> module_values c ! 9 \<and> module_values c ! 9 \<le> tp_maxValue (TuningTable_init ! 9)"
    by simp
  ultimately have "0 \<le> ae_ki (fc_attitudeEstimator c) \<and> ae_ki (fc_attitudeEstimator c) \<le> lit 1 1" by (simp only:)
  then show ?thesis using between_finite[of 0 "lit 1 1"] lit_one by (simp add: zero_f32_def)
qed

lemma kill_attitude:
  "fc_attitudeEstimator (step_kill fe c f) = fc_attitudeEstimator c
   \<or> (\<exists>c' ts b. fc_attitudeEstimator (step_kill fe c f) =
        AttitudeEstimator_update fe (fc_attitudeEstimator c) f (snd (FlightCore_deriveDt c' ts)) b)"
proof -
  define c1 where "c1 = c\<lparr>fc_lastMotor := replicate 4 0\<rparr>"
  define d where "d = FlightCore_deriveDt c1 (sf_timestampUs f)"
  have mission: "fc_attitudeEstimator (FlightCore_resetMission x) = fc_attitudeEstimator x" for x
    by (simp add: FlightCore_resetMission_def)
  have same: "fc_attitudeEstimator c1 = fc_attitudeEstimator c" "fc_attitudeEstimator (fst d) = fc_attitudeEstimator c"
    by (simp_all add: c1_def d_def FlightCore_deriveDt_def Let_def)
  have upd: "fc_attitudeEstimator (FlightCore_updateEstimators fe (fst d) f (snd d)) =
      AttitudeEstimator_update fe (fc_attitudeEstimator c) f (snd d)
        (\<not> (fc_phase (fst d) = PH_RECOVERY \<or> fc_phase (fst d) = PH_HOVER \<and> \<not> fc_brakeDone (fst d)))"
    by (simp add: FlightCore_updateEstimators_def Let_def same)
  have "step_kill fe c f = FlightCore_resetMission
      (if isFrameFinite f \<and> FlightCore_acceptsTimestamp c1 (sf_timestampUs f)
       then if sf_imuValid f then FlightCore_updateEstimators fe (fst d) f (snd d) else fst d else c1)"
    by (simp add: step_kill_def Let_def split_beta c1_def[symmetric] d_def[symmetric])
  then show ?thesis using same upd unfolding d_def by (auto simp: mission)
qed

lemma step_bias_ok:
  assumes "core_bias_ok fe c"
  shows "core_bias_ok fe (fst (FlightCore_step fe c f))"
proof -
  have inv: "tuning_inv fe c" and bias: "bias_ok (ae_integralFb (fc_attitudeEstimator c))"
    using assms by (simp_all add: core_bias_ok_def)
  have dt: "isfinite (snd (FlightCore_deriveDt c' ts))" for c' ts
    using step_dt_bounded[of c' ts] by (simp add: split_beta)
  have upd: "bias_ok (ae_integralFb (AttitudeEstimator_update fe (fc_attitudeEstimator c) f (snd (FlightCore_deriveDt c' ts)) b))"
    for c' ts b by (rule attitude_bias_ok[OF bias tuned_ki_finite[OF inv] dt])
  have "bias_ok (ae_integralFb (fc_attitudeEstimator (fst (FlightCore_step fe c f))))"
  proof (cases rule: step_cases[of f fe c])
    case Kill
    then show ?thesis using bias upd kill_attitude[of fe "counted c" f] by auto
  next
    case (Rejected n k)
    then show ?thesis using bias by simp
  next
    case NoImu
    have "fc_attitudeEstimator (fst (FlightCore_stepWithoutImu x f)) = fc_attitudeEstimator x" for x
      by (simp add: FlightCore_stepWithoutImu_def Let_def FlightCore_resetMission_def)
    then show ?thesis using NoImu bias by simp
  next
    case (Flown m)
    from flown_step(1)[OF Flown(1,2), of fe] upd show ?thesis by (simp add: estimated_fields(1))
  qed
  then show ?thesis using tuning.inv_step[OF inv] by (simp add: core_bias_ok_def)
qed

lemma param_bias [simp]:
  "ae_integralFb (fc_attitudeEstimator (fst (FlightCore_setParam fe c i v))) = ae_integralFb (fc_attitudeEstimator c)"
  by (simp add: FlightCore_setParam_def FlightCore_applyParam_def AttitudeEstimator_setKp_def
      AttitudeEstimator_setKi_def Let_def split_beta)

interpretation bias: core_invariant fe "core_bias_ok fe" for fe
proof
  fix c f i v
  have "bias_ok zero3" using bias_numbers by (simp add: bias_ok_def)
  then show "core_bias_ok fe (FlightCore_init fe)"
    by (simp add: core_bias_ok_def tuning_inv_init) (simp add: FlightCore_init_def AttitudeEstimator_init_def)
  show "core_bias_ok fe c \<Longrightarrow> core_bias_ok fe (fst (FlightCore_step fe c f))" by (rule step_bias_ok)
  show "core_bias_ok fe c \<Longrightarrow> core_bias_ok fe (fst (FlightCore_setParam fe c i v))"
    by (simp add: core_bias_ok_def tuning.inv_param)
qed

text \<open>The gyro bias estimate stays physical: in every run, on every axis, it lies within 0.05 rad/s of zero, and
  is never a NaN, whatever the frames carried and however the integral gain was tuned.\<close>

lemma gyro_bias_bounded:
  "case ae_integralFb (fc_attitudeEstimator (core_run fe (FlightCore_init fe) es)) of v \<Rightarrow>
     list_all (\<lambda>b. \<not> isnan b \<and> - BIAS_LIMIT_RADS \<le> b \<and> b \<le> BIAS_LIMIT_RADS) [vx v, vy v, vz v]"
  using bias.inv_run[of fe es] by (auto simp: core_bias_ok_def bias_ok_def isnan_iff)

section \<open>Barometric reference\<close>

text \<open>A run of the vertical estimator, and the frames that may seed its reference.\<close>

type_synonym vertical_input = "sensor_frame \<times> f32 \<times> quaternion"

definition vertical_run :: "fpenv \<Rightarrow> vertical_input list \<Rightarrow> vertical_estimator" where
  "vertical_run fe xs = foldl (\<lambda>e (f, dt, q). VerticalEstimator_update fe e f dt q) VerticalEstimator_init xs"

definition seeds :: "vertical_input \<Rightarrow> bool" where
  "seeds x \<longleftrightarrow> baro_plausible (fst x) \<and> frame_resting (fst x)"

lemma vertical_run_snoc [simp]:
  "vertical_run fe (xs @ [x]) = VerticalEstimator_update fe (vertical_run fe xs) (fst x) (fst (snd x)) (snd (snd x))"
  by (simp add: vertical_run_def split_beta)

lemma ready_stays:
  "ve_ready e \<Longrightarrow> ve_ready (VerticalEstimator_update fe e f dt q)
     \<and> ve_referenceAltitudeM (VerticalEstimator_update fe e f dt q) = ve_referenceAltitudeM e"
  by (simp add: VerticalEstimator_update_def vertical_predict_def Let_def)

lemma capture_step:
  assumes "\<not> ve_ready e"
  shows "VerticalEstimator_update fe e (fst x) dt q =
           (if seeds x then reference_capture e (fst x) (PressureAltitudeM fe (sf_baroPa (fst x))) else e)"
    and "seeds x \<Longrightarrow> ve_referenceCount (reference_capture e (fst x) b) = ve_referenceCount e + 1
           \<and> (ve_ready (reference_capture e (fst x) b) \<longleftrightarrow> 50 \<le> ve_referenceCount e + 1)
           \<and> ve_altitudeM (reference_capture e (fst x) b) = ve_altitudeM e
           \<and> ve_velocityMps (reference_capture e (fst x) b) = ve_velocityMps e"
  using assms
  by (simp_all add: VerticalEstimator_update_def Let_def seeds_def reference_capture_def REFERENCE_SAMPLES_def)

lemma capturing:
  "length (filter seeds xs) < 50 \<Longrightarrow>
   \<not> ve_ready (vertical_run fe xs)
   \<and> ve_referenceCount (vertical_run fe xs) = of_nat (length (filter seeds xs))
   \<and> ve_altitudeM (vertical_run fe xs) = 0 \<and> ve_velocityMps (vertical_run fe xs) = 0"
proof (induction xs rule: rev_induct)
  case Nil
  show ?case by (simp add: vertical_run_def VerticalEstimator_init_def)
next
  case (snoc x xs)
  have n: "length (filter seeds xs) < 50" using snoc.prems by (simp split: if_splits)
  note IH = snoc.IH[OF n]
  show ?case
  proof (cases "seeds x")
    case True
    then have "length (filter seeds xs) < 49" using snoc.prems by simp
    then have "\<not> 50 \<le> (of_nat (length (filter seeds xs)) + 1 :: u32)"
      by (simp add: word_le_nat_alt unat_word_ariths unat_of_nat)
    with True IH show ?thesis
      using capture_step(1)[of "vertical_run fe xs" fe x] capture_step(2)[of "vertical_run fe xs" x] by simp
  next
    case False
    with IH show ?thesis using capture_step(1)[of "vertical_run fe xs" fe x] by simp
  qed
qed

lemma fiftieth_seed:
  assumes "length (filter seeds xs) = 49" "seeds x"
  shows "ve_ready (vertical_run fe (xs @ [x]))"
  using capturing[of xs fe] assms capture_step(1)[of "vertical_run fe xs" fe x]
    capture_step(2)[of "vertical_run fe xs" x] by simp

text \<open>The vertical estimate runs exactly from the fiftieth frame that may seed it (a fresh plausible pressure, the
  specific force near one g, a quiet gyro), in any sequence of frames, steps and attitudes: before it the altitude and
  the velocity are zero, and from it on the reference never moves.\<close>

lemma reference_needs_fifty_resting_frames:
  "case vertical_run fe xs of e \<Rightarrow>
     (ve_ready e \<longleftrightarrow> 50 \<le> length (filter seeds xs))
     \<and> (if ve_ready e then ve_referenceAltitudeM (vertical_run fe (xs @ [x])) = ve_referenceAltitudeM e
        else ve_altitudeM e = 0 \<and> ve_velocityMps e = 0)"
proof -
  have "50 \<le> length (filter seeds xs) \<Longrightarrow> ve_ready (vertical_run fe xs)"
  proof (induction xs rule: rev_induct)
    case (snoc x xs)
    show ?case
    proof (cases "50 \<le> length (filter seeds xs)")
      case True
      with snoc.IH ready_stays show ?thesis by simp
    next
      case False
      then have "length (filter seeds xs) = 49 \<and> seeds x" using snoc.prems by (simp split: if_splits)
      then show ?thesis using fiftieth_seed by blast
    qed
  qed simp
  then show ?thesis using capturing[of xs fe] ready_stays[of "vertical_run fe xs"]
    by (cases "50 \<le> length (filter seeds xs)") simp_all
qed

section \<open>A finite frame that destroys the attitude\<close>

text \<open>
  The core rejects NaN and infinities, yet a finite rate can be large enough
  for the norm of the quaternion to overflow: the normalization then multiplies by zero,
  and the next one divides by zero. From there on the attitude is a NaN, and the
  tilt cutoff, which compares it with a threshold, never trips again.
\<close>

definition huge_rate_frame :: sensor_frame where
  "huge_rate_frame = SensorFrame_init\<lparr>sf_imuValid := True, sf_gyroRadS := V3 (lit (10 ^ 30) 1) 0 0\<rparr>"

abbreviation nan_quaternion :: quaternion where
  "nan_quaternion \<equiv> \<lparr>q_w = NaN, q_x = NaN, q_y = NaN, q_z = NaN\<rparr>"

lemma huge_rate_is_finite: "isFrameFinite huge_rate_frame"
  by (simp add: isFrameFinite_def huge_rate_frame_def SensorFrame_init_def RcInput_init_def vnth_def float_eval
      cong: let_weak_cong)

lemma huge_rate_overflows:
  "quat_integrate Quaternion_init (lit (10 ^ 30) (Suc 0)) 0 0 (lit 1 100)
     = \<lparr>q_w = 0, q_x = 0, q_y = 0, q_z = 0\<rparr>"
  by (simp add: quat_integrate_def Quaternion_init_def float_eval cong: let_weak_cong)

lemma zero_quaternion_step:
  "quat_integrate \<lparr>q_w = 0, q_x = 0, q_y = 0, q_z = 0\<rparr> 0 0 0 (lit 1 100) = nan_quaternion"
  by (simp add: quat_integrate_def float_eval cong: let_weak_cong)

lemma nan_quaternion_stays: "quat_integrate nan_quaternion wx wy wz dt = nan_quaternion"
  by (simp add: quat_integrate_def Let_def)

lemma huge_rate_blinds_the_tilt_cutoff:
  "quat_integrate (quat_integrate Quaternion_init (lit (10 ^ 30) (Suc 0)) 0 0 (lit 1 100)) 0 0 0 (lit 1 100) = nan_quaternion"
  "ae_attitude (fc_attitudeEstimator c) = nan_quaternion \<Longrightarrow> \<not> snd (FlightCore_tiltCutoffConfirmed c f)"
  by (simp_all only: huge_rate_overflows zero_quaternion_step)
    (simp add: FlightCore_tiltCutoffConfirmed_def FlightCore_estimatedUpZ_def up_z_def)

end
