(* ===== verification/Tuning_Provider.thy ===== *)
theory Tuning_Provider
  imports Flight_Tuning Node_Table
begin

text \<open>
  The parameter table of the flight core on the wire (\<^verbatim>\<open>components/tuning/include/tuning/provider.hpp\<close>): a set or
  a get is answered with the value in effect, a list request with one page of descriptions. The core the
  provider holds a reference to is a field of its record, so a request and a step act on the same core; the
  messenger and the log are the world behind the port. The page size is the bound of \<^verbatim>\<open>TuningInfos.infos\<close> in
  \<^verbatim>\<open>protocol/mark4.options\<close>.

  Ids are 32 bits wide on the wire and 16 in the registry; the provider cuts them with a cast.
\<close>


section \<open>Messages and state\<close>

record tuning_info =
  ti_id :: u32
  ti_name :: string
  ti_value :: f32
  ti_minValue :: f32
  ti_maxValue :: f32
  ti_armedChange :: bool

datatype tuning_body =
    TuningSet u32 f32
  | TuningGet u32
  | TuningListRequest u32
  | TuningAck u32 f32 tuning_status
  | TuningInfos u32 u32 "tuning_info list"

definition INFOS_PER_PAGE :: nat where "INFOS_PER_PAGE = 8"
definition FlightCore_ParamCount :: nat where "FlightCore_ParamCount = 16"

text \<open>The status as the log prints it.\<close>

fun tuning_status_number :: "tuning_status \<Rightarrow> nat" where
  "tuning_status_number TUNE_OK = 0"
| "tuning_status_number TUNE_UNKNOWN_ID = 1"
| "tuning_status_number TUNE_OUT_OF_BOUNDS = 2"
| "tuning_status_number TUNE_LOCKED_WHILE_ARMED = 3"

record 'w tuning_provider =
  tnp_core :: flight_core
  tnp_requestCount :: u32
  tnp_answerCount :: u32
  tnp_world :: 'w

definition TuningProvider_new :: "flight_core \<Rightarrow> 'w \<Rightarrow> 'w tuning_provider" where
  "TuningProvider_new core w = \<lparr> tnp_core = core, tnp_requestCount = 0, tnp_answerCount = 0, tnp_world = w \<rparr>"


section \<open>Operations\<close>

definition tuning_answer :: "(tuning_body, 'w) port \<Rightarrow> u32 \<Rightarrow> tuning_body \<Rightarrow> 'w tuning_provider \<Rightarrow> 'w tuning_provider" where
  "tuning_answer pt dst b p =
     (let (w, i) = pt_request pt RequestPolicy_default dst b (tnp_world p); p = p\<lparr> tnp_world := w \<rparr> in
      if i \<noteq> 0 then p\<lparr> tnp_answerCount := tnp_answerCount p + 1 \<rparr> else p)"

text \<open>The value starts as zero and \<^verbatim>\<open>getParam\<close> writes it only for an id it has.\<close>

definition live_value :: "flight_core \<Rightarrow> u32 \<Rightarrow> f32" where
  "live_value core i = (case FlightCore_getParam core (ucast i) of Inl _ \<Rightarrow> 0 | Inr v \<Rightarrow> v)"

definition tuning_sendAck :: "(tuning_body, 'w) port \<Rightarrow> u32 \<Rightarrow> u32 \<Rightarrow> tuning_status \<Rightarrow> 'w tuning_provider \<Rightarrow> 'w tuning_provider" where
  "tuning_sendAck pt dst i status p =
     (let v = live_value (tnp_core p) i;
          p = (if status \<noteq> TUNE_OK
               then p\<lparr> tnp_world := pt_log pt WARN (hex08 dst @ '' asked for parameter '' @ to_string (unat i) @
                        '': refused (status '' @ to_string (tuning_status_number status) @ '')'') (tnp_world p) \<rparr>
               else p)
      in tuning_answer pt dst (TuningAck i v status) p)"

definition tuning_FillInfo :: "tuning_param \<Rightarrow> tuning_info" where
  "tuning_FillInfo param =
     \<lparr> ti_id = ucast (tp_id param), ti_name = take TUNING_NAME_SIZE (tp_name param) @ [CHR 0x00], ti_value = tp_value param,
       ti_minValue = tp_minValue param, ti_maxValue = tp_maxValue param, ti_armedChange = tp_armedChange param \<rparr>"

text \<open>The loop of \<^verbatim>\<open>sendPage\<close> over the table, with the room left in the page.\<close>

fun tuning_fill :: "flight_core \<Rightarrow> nat \<Rightarrow> nat \<Rightarrow> tuning_info list" where
  "tuning_fill core index 0 = []"
| "tuning_fill core index (Suc room) =
     (if index \<ge> FlightCore_ParamCount then []
      else case FlightCore_paramInfo core index of
             None \<Rightarrow> []
           | Some param \<Rightarrow> tuning_FillInfo param # tuning_fill core (index + 1) room)"

definition tuning_sendPage :: "(tuning_body, 'w) port \<Rightarrow> u32 \<Rightarrow> u32 \<Rightarrow> 'w tuning_provider \<Rightarrow> 'w tuning_provider" where
  "tuning_sendPage pt dst cursor p =
     (let first = (if unat cursor > FlightCore_ParamCount then FlightCore_ParamCount else unat cursor)
      in tuning_answer pt dst (TuningInfos (of_nat FlightCore_ParamCount) cursor (tuning_fill (tnp_core p) first INFOS_PER_PAGE)) p)"

fun TuningProvider_onMessage :: "fpenv \<Rightarrow> (tuning_body, 'w) port \<Rightarrow> u32 \<Rightarrow> tuning_body \<Rightarrow> 'w tuning_provider \<Rightarrow> 'w tuning_provider \<times> bool" where
  "TuningProvider_onMessage fe pt src (TuningSet i v) p =
     (let p = p\<lparr> tnp_requestCount := tnp_requestCount p + 1 \<rparr>;
          (core, status) = FlightCore_setParam fe (tnp_core p) (ucast i) v
      in (tuning_sendAck pt src i status (p\<lparr> tnp_core := core \<rparr>), True))"
| "TuningProvider_onMessage fe pt src (TuningGet i) p =
     (let p = p\<lparr> tnp_requestCount := tnp_requestCount p + 1 \<rparr>;
          status = (case FlightCore_getParam (tnp_core p) (ucast i) of Inl s \<Rightarrow> s | Inr _ \<Rightarrow> TUNE_OK)
      in (tuning_sendAck pt src i status p, True))"
| "TuningProvider_onMessage fe pt src (TuningListRequest cursor) p =
     (tuning_sendPage pt src cursor (p\<lparr> tnp_requestCount := tnp_requestCount p + 1 \<rparr>), True)"
| "TuningProvider_onMessage fe pt src _ p = (p, False)"

text \<open>One step of the core between two polls.\<close>

definition tuning_step :: "fpenv \<Rightarrow> sensor_frame \<Rightarrow> 'w tuning_provider \<Rightarrow> 'w tuning_provider" where
  "tuning_step fe f p = p\<lparr> tnp_core := fst (FlightCore_step fe (tnp_core p) f) \<rparr>"


section \<open>What the provider answers\<close>

text \<open>The table as its pages describe it.\<close>

definition param_table :: "flight_core \<Rightarrow> tuning_info list" where
  "param_table core = map tuning_FillInfo (fc_tuning core)"

lemma fill_page:
  assumes "length (fc_tuning core) = FlightCore_ParamCount"
  shows "tuning_fill core index room = take room (drop index (param_table core))"
  using assms
proof (induction room arbitrary: index)
  case (Suc room)
  then show ?case
    by (auto simp: FlightCore_paramInfo_def TuningTable_info_def param_table_def Cons_nth_drop_Suc [symmetric])
qed simp

lemma sendPage_recorded:
  assumes "length (fc_tuning (tnp_core p)) = FlightCore_ParamCount"
  shows "tnp_world (tuning_sendPage (recorder ok rid) dst cursor p) =
      tnp_world p @ [Asked RequestPolicy_default dst (TuningInfos 16 cursor (take 8 (drop (unat cursor) (param_table (tnp_core p)))))]
    \<and> tnp_core (tuning_sendPage (recorder ok rid) dst cursor p) = tnp_core p"
  using assms by (simp add: tuning_sendPage_def tuning_answer_def fill_page INFOS_PER_PAGE_def param_table_def Let_def FlightCore_ParamCount_def)

lemma asked_ack:
  "\<exists>pre. tnp_world (tuning_sendAck (recorder ok rid) dst i s p) =
      tnp_world p @ pre @ [Asked RequestPolicy_default dst (TuningAck i (live_value (tnp_core p) i) s)]
      \<and> (\<forall>t \<in> set pre. \<exists>txt. t = Logged WARN txt)"
  "tnp_core (tuning_sendAck (recorder ok rid) dst i s p) = tnp_core p"
  by (auto simp: tuning_sendAck_def tuning_answer_def Let_def)

end
