(* ===== verification/Tuning_Consumer.thy ===== *)
theory Tuning_Consumer
  imports Tuning_Provider Discovery Pull_Dialogue
begin

text \<open>
  What a ground node keeps of the parameters of the others (\<^verbatim>\<open>components/tuning/include/tuning/consumer.hpp\<close>): an
  entry per drone the directory identified, with the walk of its table. A write that the drone accepted is
  written into the table held. \<open>N\<close>, the size of the storage of the composition, is an argument of the
  operation that opens an entry.
\<close>


section \<open>State\<close>

definition TUNING_KINDS :: "u32 list" where "TUNING_KINDS = [NodeKind_FIRMWARE, NodeKind_DRONE_SIM]"
definition MAX_PARAMS :: nat where "MAX_PARAMS = 64"
definition TUNING_MAX_LISTENERS :: nat where "TUNING_MAX_LISTENERS = 2"

record tuning_follow =
  tn_id :: u32
  tn_table :: "tuning_info table_pull"

definition tuning_follow_init :: tuning_follow where
  "tuning_follow_init = \<lparr> tn_id = 0, tn_table = TablePull_init \<rparr>"

record 'w tuning_consumer =
  tnc_entries :: "tuning_follow list"
  tnc_listeners :: "nat list"
  tnc_listenersOverflow :: u32
  tnc_requests :: u32
  tnc_dropped :: u32
  tnc_world :: 'w

definition TuningConsumer_new :: "'w \<Rightarrow> 'w tuning_consumer" where
  "TuningConsumer_new w = \<lparr> tnc_entries = [], tnc_listeners = [], tnc_listenersOverflow = 0, tnc_requests = 0, tnc_dropped = 0, tnc_world = w \<rparr>"

record 'w tuning_ground =
  tng_port :: "(tuning_body, 'w) port"
  tng_onTable :: "nat \<Rightarrow> u32 \<Rightarrow> tuning_info list \<Rightarrow> 'w \<Rightarrow> 'w"
  tng_onResult :: "nat \<Rightarrow> u32 \<Rightarrow> u32 \<times> f32 \<times> tuning_status \<Rightarrow> 'w \<Rightarrow> 'w"
  tng_onForgotten :: "nat \<Rightarrow> u32 \<Rightarrow> 'w \<Rightarrow> 'w"


section \<open>Operations\<close>

definition tnc_lookup :: "u32 \<Rightarrow> 'w tuning_consumer \<Rightarrow> tuning_follow option" where
  "tnc_lookup i c = entry_lookup tn_id i (tnc_entries c)"

definition tnc_put :: "tuning_follow \<Rightarrow> 'w tuning_consumer \<Rightarrow> 'w tuning_consumer" where
  "tnc_put e c = c\<lparr> tnc_entries := entry_update tn_id (tn_id e) e (tnc_entries c) \<rparr>"

definition tnc_log :: "'w tuning_ground \<Rightarrow> string \<Rightarrow> 'w tuning_consumer \<Rightarrow> 'w tuning_consumer" where
  "tnc_log g t c = c\<lparr> tnc_world := pt_log (tng_port g) WARN t (tnc_world c) \<rparr>"

definition tnc_request :: "'w tuning_ground \<Rightarrow> u32 \<Rightarrow> tuning_body \<Rightarrow> 'w tuning_consumer \<Rightarrow> 'w tuning_consumer \<times> u32" where
  "tnc_request g dst b c =
     (let (w, i) = pt_request (tng_port g) RequestPolicy_default dst b (tnc_world c) in (c\<lparr> tnc_world := w, tnc_requests := tnc_requests c + 1 \<rparr>, i))"

definition tnc_tell :: "(nat \<Rightarrow> 'w \<Rightarrow> 'w) \<Rightarrow> 'w tuning_consumer \<Rightarrow> 'w tuning_consumer" where
  "tnc_tell f c = c\<lparr> tnc_world := fold f (tnc_listeners c) (tnc_world c) \<rparr>"

definition tuning_askPage :: "'w tuning_ground \<Rightarrow> tuning_follow \<Rightarrow> 'w tuning_consumer \<Rightarrow> 'w tuning_consumer \<times> bool" where
  "tuning_askPage g e c =
     (let (c, i) = tnc_request g (tn_id e) (TuningListRequest (tp_cursor (tn_table e))) c in
      (tnc_put (e\<lparr> tn_table := TablePull_setRequestId i (tn_table e) \<rparr>) c, i \<noteq> 0))"

definition TuningConsumer_refresh :: "'w tuning_ground \<Rightarrow> u32 \<Rightarrow> 'w tuning_consumer \<Rightarrow> 'w tuning_consumer \<times> bool" where
  "TuningConsumer_refresh g nid c =
     (case tnc_lookup nid c of None \<Rightarrow> (c, False) | Some e \<Rightarrow> tuning_askPage g (e\<lparr> tn_table := TablePull_reset (tn_table e) \<rparr>) c)"

definition TuningConsumer_set :: "'w tuning_ground \<Rightarrow> u32 \<Rightarrow> u32 \<Rightarrow> f32 \<Rightarrow> 'w tuning_consumer \<Rightarrow> 'w tuning_consumer \<times> bool" where
  "TuningConsumer_set g nid paramId v c = (let (c, i) = tnc_request g nid (TuningSet paramId v) c in (c, i \<noteq> 0))"

definition TuningConsumer_get :: "'w tuning_ground \<Rightarrow> u32 \<Rightarrow> u32 \<Rightarrow> 'w tuning_consumer \<Rightarrow> 'w tuning_consumer \<times> bool" where
  "TuningConsumer_get g nid paramId c = (let (c, i) = tnc_request g nid (TuningGet paramId) c in (c, i \<noteq> 0))"

definition tuning_open :: "'w tuning_ground \<Rightarrow> nat \<Rightarrow> u32 \<Rightarrow> 'w tuning_consumer \<Rightarrow> 'w tuning_consumer" where
  "tuning_open g N nid c =
     (if tnc_lookup nid c \<noteq> None then c
      else if length (tnc_entries c) = N
      then tnc_log g (''no room for '' @ hex08 nid @ '': '' @ to_string (length (tnc_entries c)) @ '' node(s) already'') (c\<lparr> tnc_dropped := tnc_dropped c + 1 \<rparr>)
      else
        let e = tuning_follow_init\<lparr> tn_id := nid \<rparr> in
        fst (tuning_askPage g e (c\<lparr> tnc_entries := tnc_entries c @ [e] \<rparr>)))"

definition TuningConsumer_onIdentity :: "'w tuning_ground \<Rightarrow> nat \<Rightarrow> directory_entry \<Rightarrow> 'w tuning_consumer \<Rightarrow> 'w tuning_consumer" where
  "TuningConsumer_onIdentity g N d c =
     (if de_wireMismatch d then c
      else if an_kind (de_announce d) \<in> set TUNING_KINDS then tuning_open g N (de_id d) c else c)"

text \<open>The directory forgot a node: presence does the work, through \<^verbatim>\<open>onNodeDown\<close>.\<close>

definition TuningConsumer_onForgotten :: "u32 \<Rightarrow> 'w tuning_consumer \<Rightarrow> 'w tuning_consumer" where
  "TuningConsumer_onForgotten nodeId c = c"

definition tuning_onPage :: "'w tuning_ground \<Rightarrow> tuning_follow \<Rightarrow> u32 \<Rightarrow> u32 \<Rightarrow> tuning_info list \<Rightarrow> 'w tuning_consumer \<Rightarrow> 'w tuning_consumer" where
  "tuning_onPage g e itemsTotal cursor items c =
     (let (table, ok) = TablePull_applyPage MAX_PARAMS itemsTotal cursor items (tn_table e); e = e\<lparr> tn_table := table \<rparr> in
      if \<not> ok then c
      else if \<not> tp_complete table then fst (tuning_askPage g e c)
      else tnc_tell (\<lambda>l. tng_onTable g l (tn_id e) (tp_items table)) (tnc_put e c))"

text \<open>The loop of \<^verbatim>\<open>onAck\<close>: the first parameter of that id takes the value.\<close>

fun set_known :: "u32 \<Rightarrow> f32 \<Rightarrow> tuning_info list \<Rightarrow> tuning_info list" where
  "set_known i v [] = []"
| "set_known i v (known # ks) = (if ti_id known = i then known\<lparr> ti_value := v \<rparr> # ks else known # set_known i v ks)"

definition tuning_onAck :: "'w tuning_ground \<Rightarrow> tuning_follow \<Rightarrow> u32 \<Rightarrow> f32 \<Rightarrow> tuning_status \<Rightarrow> 'w tuning_consumer \<Rightarrow> 'w tuning_consumer" where
  "tuning_onAck g e i v status c =
     (let e = (if status = TUNE_OK \<and> tp_complete (tn_table e)
               then e\<lparr> tn_table := (tn_table e)\<lparr> tp_items := set_known i v (tp_items (tn_table e)) \<rparr> \<rparr> else e)
      in tnc_tell (\<lambda>l. tng_onResult g l (tn_id e) (i, v, status)) (tnc_put e c))"

definition TuningConsumer_onMessage :: "'w tuning_ground \<Rightarrow> u32 \<Rightarrow> tuning_body \<Rightarrow> 'w tuning_consumer \<Rightarrow> 'w tuning_consumer \<times> bool" where
  "TuningConsumer_onMessage g src b c =
     (case tnc_lookup src c of
        None \<Rightarrow> (c, False)
      | Some e \<Rightarrow>
          (case b of
             TuningInfos itemsTotal cursor items \<Rightarrow> (tuning_onPage g e itemsTotal cursor items c, True)
           | TuningAck i v status \<Rightarrow> (tuning_onAck g e i v status c, True)
           | _ \<Rightarrow> (c, False)))"

definition TuningConsumer_onNodeDown :: "'w tuning_ground \<Rightarrow> u32 \<Rightarrow> 'w tuning_consumer \<Rightarrow> 'w tuning_consumer" where
  "TuningConsumer_onNodeDown g nodeId c =
     (if tnc_lookup nodeId c = None then c
      else tnc_tell (\<lambda>l. tng_onForgotten g l nodeId) (c\<lparr> tnc_entries := entry_remove tn_id nodeId (tnc_entries c) \<rparr>))"

definition TuningConsumer_onRequestFailed :: "'w tuning_ground \<Rightarrow> u32 \<Rightarrow> u32 \<Rightarrow> 'w tuning_consumer \<Rightarrow> 'w tuning_consumer" where
  "TuningConsumer_onRequestFailed g dst requestId c =
     (case tnc_lookup dst c of
        None \<Rightarrow> c
      | Some e \<Rightarrow>
          if tp_requestId (tn_table e) \<noteq> requestId then c
          else tnc_log g (hex08 dst @ '' never answered for its parameter table'') (tnc_put (e\<lparr> tn_table := TablePull_abandon (tn_table e) \<rparr>) c))"

definition TuningConsumer_attach :: "nat \<Rightarrow> 'w tuning_consumer \<Rightarrow> 'w tuning_consumer" where
  "TuningConsumer_attach l c =
     (let (ls, n) = listener_attach TUNING_MAX_LISTENERS l (tnc_listeners c, tnc_listenersOverflow c) in c\<lparr> tnc_listeners := ls, tnc_listenersOverflow := n \<rparr>)"

definition TuningConsumer_detach :: "nat \<Rightarrow> 'w tuning_consumer \<Rightarrow> 'w tuning_consumer" where
  "TuningConsumer_detach l c =
     (let (ls, n) = listener_detach l (tnc_listeners c, tnc_listenersOverflow c) in c\<lparr> tnc_listeners := ls, tnc_listenersOverflow := n \<rparr>)"

definition TuningConsumer_ready :: "'w tuning_consumer \<Rightarrow> bool" where
  "TuningConsumer_ready c \<longleftrightarrow> tnc_listenersOverflow c = 0"


section \<open>The entries\<close>

lemma tnc_lookup_put: "tnc_lookup n c \<noteq> None \<Longrightarrow> tn_id e = n \<Longrightarrow> tnc_lookup n (tnc_put e c) = Some e"
  by (simp add: tnc_lookup_def tnc_put_def lookup_update entry_None)

lemma tnc_lookup_id: "tnc_lookup n c = Some e \<Longrightarrow> tn_id e = n"
  using entry_Some [of tn_id n "tnc_entries c" e] by (simp add: tnc_lookup_def)

lemma tnc_lookup_world [simp]: "tnc_lookup n (c\<lparr> tnc_world := w \<rparr>) = tnc_lookup n c" "tnc_lookup n (c\<lparr> tnc_world := w, tnc_requests := r \<rparr>) = tnc_lookup n c"
  by (simp_all add: tnc_lookup_def)

lemma tnc_put_fields [simp]: "tnc_listeners (tnc_put e c) = tnc_listeners c" "tnc_world (tnc_put e c) = tnc_world c"
  by (simp_all add: tnc_put_def)

lemma set_known_absent: "\<forall>k \<in> set ks. ti_id k \<noteq> i \<Longrightarrow> set_known i v ks = ks"
  by (induction ks) auto

lemma set_known_at:
  "distinct (map ti_id ks) \<Longrightarrow> k < length ks \<Longrightarrow> ti_id (ks ! k) = i \<Longrightarrow> set_known i v ks = ks[k := (ks ! k)\<lparr> ti_value := v \<rparr>]"
proof (induction ks arbitrary: k)
  case (Cons a ks)
  show ?case
  proof (cases k)
    case (Suc m)
    then have "ti_id (ks ! m) \<in> set (map ti_id ks)" using Cons.prems(2) by simp
    then have "ti_id a \<noteq> i" using Cons.prems Suc by auto
    then show ?thesis using Cons.IH [of m] Cons.prems Suc by simp
  qed (use Cons.prems in simp)
qed simp

end
