(* ===== verification/Tuning_Dialogue.thy ===== *)
theory Tuning_Dialogue
  imports Tuning_Consumer
begin

text \<open>
  Tuning a drone from the ground, end to end: the consumer of a ground node, the provider of a drone and the
  flight core behind it, over a link that loses nothing. The ground pulls the table of the drone; then
  whatever it writes and whatever the drone flies, the table it holds is what flies. The last section is
  the request for which this is false.
\<close>


section \<open>The pair\<close>

definition tuning_desk :: "(u32 \<Rightarrow> bool) \<Rightarrow> (u32 \<Rightarrow> u32) \<Rightarrow> (tuning_body traffic list \<times> (nat \<times> u32 \<times> tuning_info list) list) tuning_ground" where
  "tuning_desk ok rid = \<lparr> tng_port = pair_port ok rid, tng_onTable = (\<lambda>l n t (w, x). (w, x @ [(l, n, t)])), tng_onResult = (\<lambda>_ _ _ w. w),
     tng_onForgotten = (\<lambda>_ _ w. w) \<rparr>"

type_synonym tuning_pair =
  "(tuning_body traffic list \<times> (nat \<times> u32 \<times> tuning_info list) list) tuning_consumer \<times> tuning_body traffic list tuning_provider"

definition tuning_exchange :: "fpenv \<Rightarrow> (u32 \<Rightarrow> bool) \<Rightarrow> (u32 \<Rightarrow> u32) \<Rightarrow> u32 \<Rightarrow> u32 \<Rightarrow> tuning_pair \<Rightarrow> tuning_pair" where
  "tuning_exchange fe ok rid node self = (\<lambda>(c, p).
     let p = fold (\<lambda>b p. fst (TuningProvider_onMessage fe (recorder ok rid) self b p)) (asked_of node (fst (tnc_world c))) (p\<lparr> tnp_world := [] \<rparr>);
         c = fold (\<lambda>b c. fst (TuningConsumer_onMessage (tuning_desk ok rid) node b c)) (asked_of self (tnp_world p)) (c\<lparr> tnc_world := ([], snd (tnc_world c)) \<rparr>) in
     (c, p))"

definition tuning_pull :: "u32 \<Rightarrow> tuning_pair \<Rightarrow> tuning_info table_pull" where
  "tuning_pull node = (\<lambda>(c, p). case tnc_lookup node c of Some e \<Rightarrow> tn_table e | None \<Rightarrow> TablePull_init)"

definition tuning_asking :: "u32 \<Rightarrow> tuning_info list \<Rightarrow> nat list \<Rightarrow> tuning_pair \<Rightarrow> bool" where
  "tuning_asking node table ls = (\<lambda>(c, p). param_table (tnp_core p) = table \<and> length table = 16 \<and> tnc_listeners c = ls \<and>
     \<not> tp_complete (tuning_pull node (c, p)) \<and> tnc_lookup node c \<noteq> None \<and>
     asked_of node (fst (tnc_world c)) = [TuningListRequest (tp_cursor (tuning_pull node (c, p)))])"

definition tuning_idle :: "u32 \<Rightarrow> tuning_pair \<Rightarrow> bool" where
  "tuning_idle node = (\<lambda>(c, p). asked_of node (fst (tnc_world c)) = [])"

definition tuning_told :: "tuning_pair \<Rightarrow> (nat \<times> u32 \<times> tuning_info list) list" where
  "tuning_told = (\<lambda>(c, p). snd (tnc_world c))"

definition tuning_report :: "u32 \<Rightarrow> nat list \<Rightarrow> tuning_info list \<Rightarrow> (nat \<times> u32 \<times> tuning_info list) list" where
  "tuning_report node ls items = map (\<lambda>l. (l, node, items)) ls"

lemma tuning_desk_simps [simp]: "tng_port (tuning_desk ok rid) = pair_port ok rid"
  "tng_onTable (tuning_desk ok rid) l n t w = (fst w, snd w @ [(l, n, t)])" "tng_onResult (tuning_desk ok rid) l n r w = w"
  by (simp_all add: tuning_desk_def case_prod_beta)

lemma tuning_tell_desk: "fold (\<lambda>l. tng_onTable (tuning_desk ok rid) l n t) ls w = (fst w, snd w @ map (\<lambda>l. (l, n, t)) ls)"
  by (induction ls arbitrary: w) auto

lemma tuning_tell_result: "fold (\<lambda>l. tng_onResult (tuning_desk ok rid) l n r) ls w = w"
  by (induction ls) auto


section \<open>The walk of the table\<close>

lemma tuning_onPage_desk:
  assumes "tnc_lookup node c = Some e" "fst (tnc_world c) = []" and q: "TablePull_applyPage MAX_PARAMS n cur items (tn_table e) = (q, True)"
    and c': "c' = tuning_onPage (tuning_desk ok rid) e n cur items c"
  shows "\<exists>e' i. tnc_lookup node c' = Some e' \<and> tn_table e' = q\<lparr> tp_requestId := i \<rparr> \<and> tnc_listeners c' = tnc_listeners c \<and>
    snd (tnc_world c') = snd (tnc_world c) @ (if tp_complete q then tuning_report node (tnc_listeners c) (tp_items q) else []) \<and>
    asked_of node (fst (tnc_world c')) = (if tp_complete q then [] else [TuningListRequest (tp_cursor q)])"
proof -
  have i: "tn_id e = node" using tnc_lookup_id assms(1) by blast
  show ?thesis
  proof (cases "tp_complete q")
    case True
    let ?e = "e\<lparr> tn_table := q \<rparr>"
    have "tnc_lookup node (tnc_put ?e c) = Some ?e" using tnc_lookup_put [of node c ?e] assms(1) i by simp
    then show ?thesis using True i assms(2)
      by (intro exI [of _ ?e] exI [of _ "tp_requestId q"]) (simp add: c' tuning_onPage_def q Let_def tnc_tell_def tuning_tell_desk tuning_report_def)
  next
    case False
    let ?e = "e\<lparr> tn_table := q\<lparr> tp_requestId := rid node \<rparr> \<rparr>"
    have "tnc_lookup node (tnc_put ?e (c\<lparr> tnc_world := w, tnc_requests := r \<rparr>)) = Some ?e" for w r
      using tnc_lookup_put [of node "c\<lparr> tnc_world := w, tnc_requests := r \<rparr>" ?e] assms(1) i by simp
    then show ?thesis using False i assms(2)
      by (intro exI [of _ ?e] exI [of _ "rid node"])
        (simp add: c' tuning_onPage_def q Let_def tuning_askPage_def tnc_request_def TablePull_setRequestId_def)
  qed
qed

lemma tuning_exchange_asking:
  assumes "tuning_asking node table ls s"
  shows "\<exists>i. tuning_pull node (tuning_exchange fe ok rid node self s) =
      (apply_pages MAX_PARAMS table [served_page table 8 (tuning_pull node s)] (tuning_pull node s))\<lparr> tp_requestId := i \<rparr>"
    "if tp_complete (tuning_pull node (tuning_exchange fe ok rid node self s)) then tuning_idle node (tuning_exchange fe ok rid node self s)
     else tuning_asking node table ls (tuning_exchange fe ok rid node self s)"
    "tuning_told (tuning_exchange fe ok rid node self s) = tuning_told s @
       (if tp_complete (tuning_pull node (tuning_exchange fe ok rid node self s))
        then tuning_report node ls (tp_items (tuning_pull node (tuning_exchange fe ok rid node self s))) else [])"
    "tnp_core (snd (tuning_exchange fe ok rid node self s)) = tnp_core (snd s)"
proof -
  obtain c p where s: "s = (c, p)" by fastforce
  obtain e where e: "tnc_lookup node c = Some e" and a: "param_table (tnp_core p) = table" "length table = 16" "tnc_listeners c = ls" "\<not> tp_complete (tn_table e)"
    "asked_of node (fst (tnc_world c)) = [TuningListRequest (tp_cursor (tn_table e))]"
    using assms by (auto simp: tuning_asking_def tuning_pull_def s)
  let ?cur = "tp_cursor (tn_table e)" let ?items = "take 8 (drop (unat ?cur) table)"
  let ?c = "c\<lparr> tnc_world := ([], snd (tnc_world c)) \<rparr>"
  define q where "q = fst (TablePull_applyPage MAX_PARAMS (of_nat (length table)) ?cur ?items (tn_table e))"
  define c' where "c' = tuning_onPage (tuning_desk ok rid) e (of_nat (length table)) ?cur ?items ?c"
  define p' where "p' = snd (tuning_exchange fe ok rid node self s)"
  have "length (fc_tuning (tnp_core p)) = FlightCore_ParamCount" using a(1,2) by (auto simp: param_table_def FlightCore_ParamCount_def)
  then have page: "tnp_world (tuning_sendPage (recorder ok rid) self ?cur (p\<lparr> tnp_world := [], tnp_requestCount := n \<rparr>)) =
      [Asked RequestPolicy_default self (TuningInfos (of_nat (length table)) ?cur ?items)] \<and>
      tnp_core (tuning_sendPage (recorder ok rid) self ?cur (p\<lparr> tnp_world := [], tnp_requestCount := n \<rparr>)) = tnp_core p" for n
    using sendPage_recorded [of "p\<lparr> tnp_world := [], tnp_requestCount := n \<rparr>" ok rid self ?cur] a(1,2) by simp
  then have x: "tuning_exchange fe ok rid node self s = (c', p')" and core: "tnp_core p' = tnp_core p"
    using e by (simp_all add: p'_def c'_def tuning_exchange_def s a(5) Let_def TuningConsumer_onMessage_def)
  have q: "TablePull_applyPage MAX_PARAMS (of_nat (length table)) ?cur ?items (tn_table e) = (q, True)"
    by (simp add: q_def TablePull_applyPage_def Let_def split: prod.split)
  have "tnc_lookup node ?c = Some e" "fst (tnc_world ?c) = []" using e by simp_all
  from tuning_onPage_desk [OF this q c'_def] obtain e' i where
    n: "tnc_lookup node c' = Some e'" "tn_table e' = q\<lparr> tp_requestId := i \<rparr>" "tnc_listeners c' = ls"
      "snd (tnc_world c') = snd (tnc_world c) @ (if tp_complete q then tuning_report node ls (tp_items q) else [])"
      "asked_of node (fst (tnc_world c')) = (if tp_complete q then [] else [TuningListRequest (tp_cursor q)])"
    using a(3) by auto
  have pull: "tuning_pull node (c', p') = q\<lparr> tp_requestId := i \<rparr>" using n(1,2) by (simp add: tuning_pull_def)
  have old: "tuning_pull node s = tn_table e" using e by (simp add: tuning_pull_def s)
  show "\<exists>i. tuning_pull node (tuning_exchange fe ok rid node self s) =
      (apply_pages MAX_PARAMS table [served_page table 8 (tuning_pull node s)] (tuning_pull node s))\<lparr> tp_requestId := i \<rparr>"
    by (intro exI [of _ i]) (simp add: x pull old apply_pages_def served_page_def q_def)
  show "if tp_complete (tuning_pull node (tuning_exchange fe ok rid node self s)) then tuning_idle node (tuning_exchange fe ok rid node self s)
     else tuning_asking node table ls (tuning_exchange fe ok rid node self s)"
    using n a(1,2) core by (simp add: x pull tuning_idle_def tuning_asking_def)
  show "tuning_told (tuning_exchange fe ok rid node self s) = tuning_told s @
       (if tp_complete (tuning_pull node (tuning_exchange fe ok rid node self s))
        then tuning_report node ls (tp_items (tuning_pull node (tuning_exchange fe ok rid node self s))) else [])"
    unfolding x pull using n by (simp add: tuning_told_def s)
  show "tnp_core (snd (tuning_exchange fe ok rid node self s)) = tnp_core (snd s)"
    using core by (simp add: p'_def s)
qed

lemma tuning_exchange_idle:
  "tuning_idle node s \<Longrightarrow> tuning_pull node (tuning_exchange fe ok rid node self s) = tuning_pull node s \<and>
     tuning_told (tuning_exchange fe ok rid node self s) = tuning_told s \<and> tuning_idle node (tuning_exchange fe ok rid node self s)"
  by (cases s) (simp add: tuning_idle_def tuning_exchange_def tuning_pull_def tuning_told_def Let_def)

interpretation parameters: paged_dialogue "tuning_exchange fe ok rid node self" "tuning_pull node" "tuning_asking node (take 16 table) ls"
  "tuning_idle node" tuning_told "tuning_report node ls" "take 16 table" 8 MAX_PARAMS
  for fe ok rid node self table ls
  by unfold_locales (simp, (rule tuning_exchange_asking, assumption)+, rule tuning_exchange_idle)


section \<open>What is held and what flies\<close>

text \<open>The state between two operations of the ground: nothing under way, the table whole and true.\<close>

definition ground_true :: "fpenv \<Rightarrow> u32 \<Rightarrow> tuning_pair \<Rightarrow> bool" where
  "ground_true fe node = (\<lambda>(c, p). asked_of node (fst (tnc_world c)) = [] \<and> tuning_inv fe (tnp_core p) \<and>
     (\<exists>e. tnc_lookup node c = Some e \<and> tp_complete (tn_table e) \<and> tp_items (tn_table e) = param_table (tnp_core p)))"

text \<open>What happens to a pair: the ground writes or reads a parameter and the link is drained, or the drone flies
  a frame.\<close>

datatype tuning_op = GroundSet u32 f32 | GroundGet u32 | DroneFrame sensor_frame

fun tuning_op_on :: "fpenv \<Rightarrow> (u32 \<Rightarrow> bool) \<Rightarrow> (u32 \<Rightarrow> u32) \<Rightarrow> u32 \<Rightarrow> u32 \<Rightarrow> tuning_op \<Rightarrow> tuning_pair \<Rightarrow> tuning_pair" where
  "tuning_op_on fe ok rid node self (GroundSet i v) (c, p) =
     tuning_exchange fe ok rid node self (fst (TuningConsumer_set (tuning_desk ok rid) node i v c), p)"
| "tuning_op_on fe ok rid node self (GroundGet i) (c, p) =
     tuning_exchange fe ok rid node self (fst (TuningConsumer_get (tuning_desk ok rid) node i c), p)"
| "tuning_op_on fe ok rid node self (DroneFrame f) (c, p) = (c, tuning_step fe f p)"

text \<open>The ids of a request that fit the registry.\<close>

fun op_narrow :: "tuning_op \<Rightarrow> bool" where
  "op_narrow (GroundSet i v) \<longleftrightarrow> unat i < 2 ^ 16"
| "op_narrow (GroundGet i) \<longleftrightarrow> unat i < 2 ^ 16"
| "op_narrow (DroneFrame f) \<longleftrightarrow> True"

lemma narrow_id: "unat (i :: u32) < 2 ^ 16 \<Longrightarrow> ucast (ucast i :: u16) = i"
  by (rule word_unat_eq_iff [THEN iffD2]) (simp add: unsigned_ucast_eq take_bit_nat_eq_self take_bit_word_eq_self unsigned_take_bit_eq)

lemma wide_id: "2 ^ 16 \<le> unat (i :: u32) \<Longrightarrow> ucast (j :: u16) \<noteq> i"
proof
  assume w: "2 ^ 16 \<le> unat i" and "ucast j = i"
  have "unat j < 2 ^ 16" using unsigned_less [of j] by simp
  then have "unat (ucast j :: u32) = unat j" by (simp add: unsigned_ucast_eq take_bit_nat_eq_self)
  then show False using w \<open>ucast j = i\<close> \<open>unat j < 2 ^ 16\<close> by simp
qed

lemma tuning_rows:
  assumes "tuning_inv fe c"
  shows "length (fc_tuning c) = 16" "map tp_id (fc_tuning c) = tuning_ids_list" "fc_tuning c = registry_of (module_values c)"
proof -
  show r: "fc_tuning c = registry_of (module_values c)" using assms by (simp add: tuning_inv_def)
  show "map tp_id (fc_tuning c) = tuning_ids_list" unfolding r by (rule registry_ids) simp
  show "length (fc_tuning c) = 16" unfolding r by (simp add: registry_of_def init_ids(2))
qed

lemma table_values: "map ti_value (param_table c) = map tp_value (fc_tuning c)"
  by (simp add: param_table_def tuning_FillInfo_def)

lemma registry_values: "length vs = 16 \<Longrightarrow> map tp_value (registry_of vs) = vs"
  by (rule nth_equalityI) (simp_all add: registry_of_def init_ids(2))

lemma table_ids: "tuning_inv fe c \<Longrightarrow> map ti_id (param_table c) = map ucast tuning_ids_list"
proof -
  assume inv: "tuning_inv fe c"
  have "map ti_id (param_table c) = map ucast (map tp_id (fc_tuning c))" by (simp add: param_table_def tuning_FillInfo_def)
  then show ?thesis by (simp only: tuning_rows(2) [OF inv])
qed

lemma table_distinct: "tuning_inv fe c \<Longrightarrow> distinct (map ti_id (param_table c))"
  by (subst table_ids) simp_all

text \<open>A step of the core leaves the table alone.\<close>

lemma step_table: "tuning_inv fe c \<Longrightarrow> param_table (fst (FlightCore_step fe c f)) = param_table c \<and> tuning_inv fe (fst (FlightCore_step fe c f))"
  using tuning.inv_step [of fe c f] same_gains_values [OF same_gains_step [of fe c f], of fe] tuning_rows(3) [of fe]
  by (simp add: param_table_def)

text \<open>A request, cut to the width of the registry, and the answer merged into the table held.\<close>

lemma set_then_ack:
  assumes "tuning_inv fe c" "FlightCore_setParam fe c (ucast i) v = (c', status)" "unat (i :: u32) < 2 ^ 16"
  shows "tuning_inv fe c' \<and> (if status = TUNE_OK then set_known i (live_value c' i) (param_table c) else param_table c) = param_table c'"
proof -
  have inv: "tuning_inv fe c'" using setParam_inv [OF assms(1), of "ucast i" v] assms(2) by simp
  note o = set_param_outcome [OF assms(1), of "ucast i" v, unfolded assms(2) fst_conv snd_conv]
  show ?thesis
  proof (cases "status = TUNE_OK")
    case True
    with o obtain k where k: "id_index (ucast i) = Some k" and vals: "module_values c' = (module_values c)[k := v]" by auto
    have b: "k < 16" "tp_id (TuningTable_init ! k) = ucast i"
      using k find_Some [of TuningTable_init "ucast i" k] by (auto simp: id_index_def init_ids(2))
    have reg: "fc_tuning c' = (fc_tuning c)[k := (fc_tuning c ! k)\<lparr> tp_value := v \<rparr>]"
      using tuning_rows(3) [OF assms(1)] tuning_rows(3) [OF inv] registry_update [of "module_values c" k v] b(1) vals by (simp add: registry_nth)
    have kid: "tp_id (fc_tuning c ! k) = ucast i" using tuning_rows(3) [OF assms(1)] b by (simp add: registry_nth)
    have live: "live_value c' i = v"
      using find_registry [of "module_values c'" "ucast i"] tuning_rows(3) [OF inv] k b(1) vals
      by (simp add: live_value_def FlightCore_getParam_def TuningTable_get_def registry_nth)
    have lk: "k < length (param_table c)" using b(1) tuning_rows(1) [OF assms(1)] by (simp add: param_table_def)
    have "ti_id (param_table c ! k) = i" using kid narrow_id [OF assms(3)] b(1) tuning_rows(1) [OF assms(1)] by (simp add: param_table_def tuning_FillInfo_def)
    from set_known_at [OF table_distinct [OF assms(1)] lk this, of v]
    have "set_known i v (param_table c) = param_table c'"
      using b(1) tuning_rows(1) [OF assms(1)] by (simp add: param_table_def reg map_update tuning_FillInfo_def)
    then show ?thesis using inv True live by simp
  next
    case False
    then show ?thesis using o inv by simp
  qed
qed

lemma get_then_ack:
  assumes "tuning_inv fe c" "FlightCore_getParam c (ucast i) = Inr v" "unat (i :: u32) < 2 ^ 16"
  shows "set_known i v (param_table c) = param_table c"
proof -
  obtain k where k: "TuningTable_find (fc_tuning c) (ucast i) = Some k" "v = tp_value (fc_tuning c ! k)"
    using assms(2) by (auto simp: FlightCore_getParam_def TuningTable_get_def split: option.splits)
  note b = find_Some [OF k(1)]
  have lk: "k < length (param_table c)" using b by (simp add: param_table_def)
  have "ti_id (param_table c ! k) = i" using b narrow_id [OF assms(3)] by (simp add: param_table_def tuning_FillInfo_def)
  from set_known_at [OF table_distinct [OF assms(1)] lk this, of v] show ?thesis
    using b k(2) lk by (simp add: param_table_def tuning_FillInfo_def list_update_same_conv)
qed


text \<open>The answer to a request, and what the ground does with it.\<close>

lemma ack_asked:
  "tnp_world p = [] \<Longrightarrow> asked_of self (tnp_world (tuning_sendAck (recorder ok rid) self i st p)) = [TuningAck i (live_value (tnp_core p) i) st]"
  by (simp add: tuning_sendAck_def tuning_answer_def Let_def)

lemma onAck_desk:
  assumes "tnc_lookup node c = Some e" "tp_complete (tn_table e)" and c': "c' = tuning_onAck (tuning_desk ok rid) e i v st c"
  shows "tnc_world c' = tnc_world c \<and> (\<exists>e'. tnc_lookup node c' = Some e' \<and> tp_complete (tn_table e') \<and>
    tp_items (tn_table e') = (if st = TUNE_OK then set_known i v (tp_items (tn_table e)) else tp_items (tn_table e)))"
proof -
  let ?e = "if st = TUNE_OK \<and> tp_complete (tn_table e) then e\<lparr> tn_table := (tn_table e)\<lparr> tp_items := set_known i v (tp_items (tn_table e)) \<rparr> \<rparr> else e"
  have "tn_id ?e = node" using tnc_lookup_id [OF assms(1)] by simp
  then have "tnc_lookup node (tnc_put ?e c) = Some ?e" using tnc_lookup_put [of node c ?e] assms(1) by blast
  moreover have "tnc_world c' = tnc_world c" by (simp add: c' tuning_onAck_def tnc_tell_def tuning_tell_result Let_def)
  moreover have "tnc_lookup node c' = tnc_lookup node (tnc_put ?e c)" by (simp add: c' tuning_onAck_def tnc_tell_def Let_def)
  ultimately show ?thesis using assms(2) by auto
qed

text \<open>One request of the ground, whose answer is \<open>TuningAck i v st\<close>.\<close>

lemma ground_request:
  assumes "ground_true fe node (c, p)"
    and c1: "c1 = fst (tnc_request (tuning_desk ok rid) node b c)"
    and b: "fst (TuningProvider_onMessage fe (recorder ok rid) self b (p\<lparr> tnp_world := [] \<rparr>)) = tuning_sendAck (recorder ok rid) self i st p1"
    and p1: "tnp_world p1 = []" "tuning_inv fe (tnp_core p1)"
    and merged: "(if st = TUNE_OK then set_known i (live_value (tnp_core p1) i) (param_table (tnp_core p)) else param_table (tnp_core p)) = param_table (tnp_core p1)"
  shows "ground_true fe node (tuning_exchange fe ok rid node self (c1, p)) \<and> tnp_core (snd (tuning_exchange fe ok rid node self (c1, p))) = tnp_core p1"
proof -
  obtain e where e: "tnc_lookup node c = Some e" "tp_complete (tn_table e)" "tp_items (tn_table e) = param_table (tnp_core p)"
    "asked_of node (fst (tnc_world c)) = []"
    using assms(1) by (auto simp: ground_true_def)
  define v where "v = live_value (tnp_core p1) i"
  define c0 where "c0 = c1\<lparr> tnc_world := ([], snd (tnc_world c1)) \<rparr>"
  have l0: "tnc_lookup node c0 = Some e" using e(1) by (simp add: c0_def c1 tnc_request_def Let_def tnc_lookup_def)
  define c' where "c' = tuning_onAck (tuning_desk ok rid) e i v st c0"
  have "asked_of node (fst (tnc_world c1)) = [b]" using e(4) by (simp add: c1 tnc_request_def Let_def)
  then have x: "tuning_exchange fe ok rid node self (c1, p) = (c', tuning_sendAck (recorder ok rid) self i st p1)"
    using l0 by (simp add: tuning_exchange_def b ack_asked [OF p1(1)] Let_def c0_def [symmetric] c'_def v_def TuningConsumer_onMessage_def)
  from onAck_desk [OF l0 e(2) c'_def] obtain e' where e': "tnc_world c' = tnc_world c0" "tnc_lookup node c' = Some e'" "tp_complete (tn_table e')"
    "tp_items (tn_table e') = (if st = TUNE_OK then set_known i v (tp_items (tn_table e)) else tp_items (tn_table e))"
    by blast
  have "fst (tnc_world c0) = []" by (simp add: c0_def)
  moreover have "tp_items (tn_table e') = param_table (tnp_core p1)"
    using e'(4) merged e(3) by (cases "st = TUNE_OK") (simp_all add: v_def)
  ultimately show ?thesis using e' p1(2) by (simp add: x ground_true_def asked_ack(2))
qed

lemma op_ground_true:
  assumes "ground_true fe node s" "op_narrow oper"
  shows "ground_true fe node (tuning_op_on fe ok rid node self oper s)"
proof -
  obtain c p where s: "s = (c, p)" by fastforce
  have inv: "tuning_inv fe (tnp_core p)" using assms(1) by (simp add: ground_true_def s)
  show ?thesis
  proof (cases oper)
    case (GroundSet i v)
    obtain core st where set: "FlightCore_setParam fe (tnp_core p) (ucast i) v = (core, st)" by fastforce
    let ?p1 = "p\<lparr> tnp_world := [], tnp_requestCount := tnp_requestCount p + 1, tnp_core := core \<rparr>"
    have "unat i < 2 ^ 16" using assms(2) GroundSet by simp
    note m = set_then_ack [OF inv set this]
    have "fst (TuningProvider_onMessage fe (recorder ok rid) self (TuningSet i v) (p\<lparr> tnp_world := [] \<rparr>)) = tuning_sendAck (recorder ok rid) self i st ?p1"
      by (simp add: set Let_def)
    then have "ground_true fe node (tuning_exchange fe ok rid node self (fst (tnc_request (tuning_desk ok rid) node (TuningSet i v) c), p))"
      by (rule ground_request [OF assms(1)[unfolded s] refl, THEN conjunct1]) (use m in \<open>cases "st = TUNE_OK"; simp\<close>)+
    then show ?thesis by (simp add: GroundSet s TuningConsumer_set_def case_prod_beta)
  next
    case (GroundGet i)
    define st where "st = (case FlightCore_getParam (tnp_core p) (ucast i) of Inl e \<Rightarrow> e | Inr _ \<Rightarrow> TUNE_OK)"
    let ?p1 = "p\<lparr> tnp_world := [], tnp_requestCount := tnp_requestCount p + 1 \<rparr>"
    have n: "unat i < 2 ^ 16" using assms(2) GroundGet by simp
    have "st = TUNE_OK \<Longrightarrow> \<exists>v. FlightCore_getParam (tnp_core p) (ucast i) = Inr v"
      by (auto simp: st_def FlightCore_getParam_def TuningTable_get_def split: option.splits)
    then have "(if st = TUNE_OK then set_known i (live_value (tnp_core p) i) (param_table (tnp_core p)) else param_table (tnp_core p)) = param_table (tnp_core p)"
      using get_then_ack [OF inv _ n] by (auto simp: live_value_def)
    note m = this
    have "fst (TuningProvider_onMessage fe (recorder ok rid) self (TuningGet i) (p\<lparr> tnp_world := [] \<rparr>)) = tuning_sendAck (recorder ok rid) self i st ?p1"
      by (simp add: st_def Let_def)
    then have "ground_true fe node (tuning_exchange fe ok rid node self (fst (tnc_request (tuning_desk ok rid) node (TuningGet i) c), p))"
      by (rule ground_request [OF assms(1)[unfolded s] refl, THEN conjunct1]) (use m inv in \<open>cases "st = TUNE_OK"; simp\<close>)+
    then show ?thesis by (simp add: GroundGet s TuningConsumer_get_def case_prod_beta)
  next
    case (DroneFrame f)
    then show ?thesis using assms(1) step_table [OF inv, of f] by (simp add: s ground_true_def tuning_step_def)
  qed
qed

lemma ops_ground_true:
  "ground_true fe node s \<Longrightarrow> \<forall>oper \<in> set ops. op_narrow oper \<Longrightarrow> ground_true fe node (fold (tuning_op_on fe ok rid node self) ops s)"
proof (induction ops arbitrary: s)
  case (Cons oper ops)
  then show ?case using op_ground_true [of fe node s oper] by simp
qed simp

text \<open>The walk leaves the core alone and ends with the table of the drone.\<close>

lemma walk_core:
  assumes "tuning_asking node (take 16 table) ls s \<or> tuning_idle node s"
  shows "tnp_core (snd ((tuning_exchange fe ok rid node self ^^ n) s)) = tnp_core (snd s) \<and>
    (tuning_asking node (take 16 table) ls ((tuning_exchange fe ok rid node self ^^ n) s) \<or> tuning_idle node ((tuning_exchange fe ok rid node self ^^ n) s))"
  using assms
proof (induction n arbitrary: s)
  case (Suc n)
  let ?s = "tuning_exchange fe ok rid node self s"
  have "tnp_core (snd ?s) = tnp_core (snd s) \<and> (tuning_asking node (take 16 table) ls ?s \<or> tuning_idle node ?s)"
  proof (cases "tuning_idle node s")
    case True
    then show ?thesis using tuning_exchange_idle [OF True]
      by (cases s) (auto simp: tuning_idle_def tuning_exchange_def Let_def)
  next
    case False
    then have a: "tuning_asking node (take 16 table) ls s" using Suc.prems by blast
    show ?thesis using tuning_exchange_asking(2,4) [OF a, of fe ok rid self] by (auto split: if_splits)
  qed
  then show ?case using Suc.IH [of ?s] by (simp add: funpow_swap1)
qed simp

lemma tuning_table_pulled:
  assumes "tnc_lookup node c = None" "length (tnc_entries c) < N" "tnc_world c = ([], [])"
    and "de_id d = node" "\<not> de_wireMismatch d" "an_kind (de_announce d) \<in> {NodeKind_FIRMWARE, NodeKind_DRONE_SIM}"
    and inv: "tuning_inv fe (tnp_core p)" and "16 < n"
    and s': "s' = (tuning_exchange fe ok rid node self ^^ n) (TuningConsumer_onIdentity (tuning_desk ok rid) N d c, p)"
  shows "ground_true fe node s' \<and> tnp_core (snd s') = tnp_core p \<and>
    snd (tnc_world (fst s')) = map (\<lambda>l. (l, node, param_table (tnp_core p))) (tnc_listeners c)"
proof -
  let ?s = "(TuningConsumer_onIdentity (tuning_desk ok rid) N d c, p)" let ?t = "param_table (tnp_core p)"
  let ?e = "tuning_follow_init\<lparr> tn_id := node \<rparr>"
  have len: "length ?t = 16" using tuning_rows(1) [OF inv] by (simp add: param_table_def)
  then have t: "take 16 ?t = ?t" by simp
  have f: "entry_lookup tn_id node (entry_update tn_id node (?e\<lparr> tn_table := q \<rparr>) (tnc_entries c @ [?e])) = Some (?e\<lparr> tn_table := q \<rparr>)" for q
    by (subst lookup_update) simp_all
  have s: "tuning_pull node ?s = TablePull_init\<lparr> tp_requestId := rid node \<rparr>" "tuning_asking node ?t (tnc_listeners c) ?s" "tuning_told ?s = []"
    using assms(1-6) f len by (auto simp: TuningConsumer_onIdentity_def TUNING_KINDS_def tuning_open_def tuning_askPage_def tnc_request_def Let_def
      TablePull_setRequestId_def tnc_put_def tuning_follow_init_def tuning_pull_def tuning_asking_def tnc_lookup_def tuning_told_def TablePull_init_def)
  have pull: "pull_inv MAX_PARAMS ?t (tuning_pull node ?s)" "\<not> tp_complete (tuning_pull node ?s)" "tp_cursor (tuning_pull node ?s) = 0"
    by (simp_all add: s(1) pull_inv_def TablePull_init_def)
  have "tp_complete (tuning_pull node s') \<and> tp_items (tuning_pull node s') = ?t \<and> tuning_told s' = tuning_report node (tnc_listeners c) ?t"
    using parameters.completes [where node = node and table = ?t and ls = "tnc_listeners c" and s = ?s and n = n and fe = fe and ok = ok and rid = rid and self = self, unfolded t] pull s(2,3) assms(8) len
    by (simp add: s' MAX_PARAMS_def)
  moreover have walk: "tnp_core (snd s') = tnp_core p" "tuning_asking node ?t (tnc_listeners c) s' \<or> tuning_idle node s'"
    using walk_core [of node ?t "tnc_listeners c" ?s n fe ok rid self] s(2) by (simp_all add: t s')
  moreover have "asked_of node (fst (tnc_world (fst s'))) = []"
    using calculation by (cases s') (auto simp: tuning_asking_def tuning_idle_def)
  ultimately show ?thesis using inv
    by (cases s') (auto simp: ground_true_def tuning_pull_def tuning_told_def tuning_report_def TablePull_init_def split: option.splits)
qed


text \<open>(C11) What the ground holds is what flies. The core of a drone has lived any run from power-on; a ground node that
  learns of the drone walks its parameter table over a link that loses nothing, and then the ground writes
  and reads parameters while the drone flies, in any order. Whatever was accepted or refused, the table the
  ground holds of the drone is complete, and its values are, in order, the sixteen values the modules of the
  core fly on. (The ids of the requests are those the registry can have, below 65536.)\<close>

theorem ground_holds_what_flies:
  fixes c :: "(tuning_body traffic list \<times> (nat \<times> u32 \<times> tuning_info list) list) tuning_consumer"
  assumes "tnc_lookup node c = None" "length (tnc_entries c) < N" "tnc_world c = ([], [])"
    and "de_id d = node" "\<not> de_wireMismatch d" "an_kind (de_announce d) \<in> {NodeKind_FIRMWARE, NodeKind_DRONE_SIM}"
    and "tnp_core p = core_run fe (FlightCore_init fe) es" "16 < n" "\<forall>oper \<in> set ops. op_narrow oper"
    and "(c', p') = fold (tuning_op_on fe ok rid node self) ops
           ((tuning_exchange fe ok rid node self ^^ n) (TuningConsumer_onIdentity (tuning_desk ok rid) N d c, p))"
  shows "\<exists>e. tnc_lookup node c' = Some e \<and> tp_complete (tn_table e) \<and>
    map ti_value (tp_items (tn_table e)) = module_values (tnp_core p') \<and>
    map ti_id (tp_items (tn_table e)) = map ucast (map tp_id TuningTable_init)"
proof -
  have "tuning_inv fe (tnp_core p)" unfolding assms(7) by (rule tuning.inv_run)
  from tuning_table_pulled [OF assms(1-6) this assms(8) refl]
  have "ground_true fe node (fold (tuning_op_on fe ok rid node self) ops
      ((tuning_exchange fe ok rid node self ^^ n) (TuningConsumer_onIdentity (tuning_desk ok rid) N d c, p)))"
    using ops_ground_true assms(9) by blast
  then have g: "ground_true fe node (c', p')" by (simp only: assms(10))
  then obtain e where e: "tnc_lookup node c' = Some e" "tp_complete (tn_table e)" "tp_items (tn_table e) = param_table (tnp_core p')"
    and inv: "tuning_inv fe (tnp_core p')" by (auto simp: ground_true_def)
  have "map ti_value (param_table (tnp_core p')) = module_values (tnp_core p')"
    unfolding table_values tuning_rows(3) [OF inv] by (rule registry_values) simp
  then show ?thesis using e table_ids [OF inv] by (simp add: init_ids(1))
qed

theorem ground_holds_what_flies_witness:
  "\<exists>c' p' e. (c', p') = fold (tuning_op_on Float32.quiet_env (\<lambda>_. True) (\<lambda>_. 1) 5 6) [GroundSet 101 (lit 4 100), GroundGet 999, DroneFrame SensorFrame_init]
       ((tuning_exchange Float32.quiet_env (\<lambda>_. True) (\<lambda>_. 1) 5 6 ^^ 17)
         (TuningConsumer_onIdentity (tuning_desk (\<lambda>_. True) (\<lambda>_. 1)) 1
            (DirectoryEntry_init\<lparr> de_id := 5, de_announce := Announce_init\<lparr> an_kind := NodeKind_FIRMWARE \<rparr> \<rparr>) (TuningConsumer_new ([], [])),
          TuningProvider_new (FlightCore_init Float32.quiet_env) [])) \<and>
     tnc_lookup 5 c' = Some e \<and> map ti_value (tp_items (tn_table e)) = module_values (tnp_core p')"
proof -
  let ?d = "DirectoryEntry_init\<lparr> de_id := 5, de_announce := Announce_init\<lparr> an_kind := NodeKind_FIRMWARE \<rparr> \<rparr>"
  let ?x = "fold (tuning_op_on Float32.quiet_env (\<lambda>_. True) (\<lambda>_. 1) 5 6) [GroundSet 101 (lit 4 100), GroundGet 999, DroneFrame SensorFrame_init]
       ((tuning_exchange Float32.quiet_env (\<lambda>_. True) (\<lambda>_. 1) 5 6 ^^ 17)
         (TuningConsumer_onIdentity (tuning_desk (\<lambda>_. True) (\<lambda>_. 1)) 1 ?d (TuningConsumer_new ([], [])),
          TuningProvider_new (FlightCore_init Float32.quiet_env) []))"
  have "(fst ?x, snd ?x) = ?x" by simp
  from ground_holds_what_flies [OF _ _ _ _ _ _ _ _ _ this, of "[]"]
  obtain e where "tnc_lookup 5 (fst ?x) = Some e" "map ti_value (tp_items (tn_table e)) = module_values (tnp_core (snd ?x))"
    by (auto simp: TuningConsumer_new_def tnc_lookup_def entry_lookup_def DirectoryEntry_init_def TuningProvider_new_def)
  then show ?thesis by (intro exI [of _ "fst ?x"] exI [of _ "snd ?x"] exI [of _ e]) simp
qed


section \<open>A request beyond the width of the registry\<close>

text \<open>The provider cuts an id to sixteen bits before it looks it up and answers under the id it was asked. A
  request for 65536 plus a parameter is accepted, moves that parameter, and leaves the table of the
  ground with a value that no longer flies.\<close>

lemma set_known_wide: "2 ^ 16 \<le> unat i \<Longrightarrow> set_known i v (param_table c) = param_table c"
  by (rule set_known_absent) (auto simp: param_table_def tuning_FillInfo_def wide_id)

lemma wide_id_moves_the_parameter:
  assumes "ground_true fe node (c, p)" "2 ^ 16 \<le> unat i"
    and set: "FlightCore_setParam fe (tnp_core p) (ucast i) v = (core, TUNE_OK)"
    and x: "(c', p') = tuning_op_on fe ok rid node self (GroundSet i v) (c, p)"
  shows "tnp_core p' = core \<and> (\<exists>k < 16. module_values core = (module_values (tnp_core p))[k := v]) \<and>
    (\<exists>e. tnc_lookup node c' = Some e \<and> tp_items (tn_table e) = param_table (tnp_core p))"
proof -
  have inv: "tuning_inv fe (tnp_core p)" using assms(1) by (simp add: ground_true_def)
  obtain e where e: "tnc_lookup node c = Some e" "tp_complete (tn_table e)" "tp_items (tn_table e) = param_table (tnp_core p)"
    "asked_of node (fst (tnc_world c)) = []"
    using assms(1) by (auto simp: ground_true_def)
  define c1 where "c1 = fst (tnc_request (tuning_desk ok rid) node (TuningSet i v) c)"
  define c0 where "c0 = c1\<lparr> tnc_world := ([], snd (tnc_world c1)) \<rparr>"
  let ?p1 = "p\<lparr> tnp_world := [], tnp_requestCount := tnp_requestCount p + 1, tnp_core := core \<rparr>"
  have l0: "tnc_lookup node c0 = Some e" using e(1) by (simp add: c0_def c1_def tnc_request_def Let_def tnc_lookup_def)
  define c2 where "c2 = tuning_onAck (tuning_desk ok rid) e i (live_value core i) TUNE_OK c0"
  have "asked_of node (fst (tnc_world c1)) = [TuningSet i v]" using e(4) by (simp add: c1_def tnc_request_def Let_def)
  moreover have "fst (TuningProvider_onMessage fe (recorder ok rid) self (TuningSet i v) (p\<lparr> tnp_world := [] \<rparr>)) =
      tuning_sendAck (recorder ok rid) self i TUNE_OK ?p1"
    by (simp add: set Let_def)
  moreover have "asked_of self (tnp_world (tuning_sendAck (recorder ok rid) self i TUNE_OK ?p1)) = [TuningAck i (live_value core i) TUNE_OK]"
    by (simp add: ack_asked)
  ultimately have "tuning_exchange fe ok rid node self (c1, p) = (c2, tuning_sendAck (recorder ok rid) self i TUNE_OK ?p1)"
    using l0 by (simp add: tuning_exchange_def Let_def c0_def [symmetric] c2_def TuningConsumer_onMessage_def del: TuningProvider_onMessage.simps)
  then have "c' = c2" "p' = tuning_sendAck (recorder ok rid) self i TUNE_OK ?p1"
    using x by (simp_all add: TuningConsumer_set_def case_prod_beta c1_def)
  moreover obtain k where "id_index (ucast i) = Some k" "module_values core = (module_values (tnp_core p))[k := v]"
    using set_param_outcome [OF inv, of "ucast i" v] by (auto simp: set)
  then have "\<exists>k < 16. module_values core = (module_values (tnp_core p))[k := v]" using id_index_bound by blast
  ultimately show ?thesis using onAck_desk [OF l0 e(2) c2_def] e(3) by (auto simp: asked_ack(2) set_known_wide [OF assms(2)])
qed

end
