(* ===== verification/Motor_Dshot.thy ===== *)
theory Motor_Dshot
  imports Flight_Control
begin

text \<open>
  The motor output of the board (\<^verbatim>\<open>motor_sink_dshot.hpp\<close>, \<^verbatim>\<open>motor_sink_dshot.cpp\<close>): a command becomes an
  eleven-bit DShot value, the value a sixteen-bit frame with its checksum, and the four frames the high times of
  an interleaved buffer one DMA burst clocks out. The registers of the timer and of the DMA are the
  hardware; whether the stream still runs when a frame is pushed is an argument of the push.

  The properties are read on the lines: what an ESC decodes from the buffer is the value of the
  command, a stop is sent for a command at or below zero and for no other, and no command ever
  reads as one of the special orders 1 to 47.
\<close>

section \<open>Encoding\<close>

definition DSHOT_ARR :: u32 where "DSHOT_ARR = 139"
definition DSHOT_T0H :: u16 where "DSHOT_T0H = 52"
definition DSHOT_T1H :: u16 where "DSHOT_T1H = 105"
definition DSHOT_BITS :: nat where "DSHOT_BITS = 16"
definition DSHOT_TRAILING :: nat where "DSHOT_TRAILING = 2"
definition DSHOT_SLOTS :: nat where "DSHOT_SLOTS = DSHOT_BITS + DSHOT_TRAILING"
definition DSHOT_MOTORS :: nat where "DSHOT_MOTORS = 4"
definition DSHOT_BUFFER :: nat where "DSHOT_BUFFER = DSHOT_SLOTS * DSHOT_MOTORS"
definition DSHOT_THROTTLE_MIN :: u16 where "DSHOT_THROTTLE_MIN = 48"
definition DSHOT_THROTTLE_MAX :: u16 where "DSHOT_THROTTLE_MAX = 2047"

text \<open>
  \<^verbatim>\<open>std::lroundf\<close>: the nearest integer, halves away from zero. What it returns for a NaN or a value a
  \<^verbatim>\<open>long\<close> of the target does not hold is unspecified: the argument \<open>ur\<close>.
\<close>

definition lroundf :: "(f32 \<Rightarrow> int) \<Rightarrow> f32 \<Rightarrow> int" where
  "lroundf ur x =
     (case x of
        Fin s n \<Rightarrow> let m = (2 * n + UNIT) div (2 * UNIT)
                   in if m < 2 ^ 31 then (if s then - int m else int m) else ur x
      | _ \<Rightarrow> ur x)"

text \<open>The sum of an unsigned and a \<^verbatim>\<open>long\<close>, cut to sixteen bits by the cast.\<close>

definition dshotThrottle :: "(f32 \<Rightarrow> int) \<Rightarrow> f32 \<Rightarrow> u16" where
  "dshotThrottle ur motor =
     (if motor \<le> 0 then 0
      else let span = float_of (DSHOT_THROTTLE_MAX - DSHOT_THROTTLE_MIN);
               v = word_of_int (uint DSHOT_THROTTLE_MIN + lroundf ur (motor * span)) :: u16
           in if v > DSHOT_THROTTLE_MAX then DSHOT_THROTTLE_MAX else v)"

definition dshotFrame :: "u16 \<Rightarrow> bool \<Rightarrow> u16" where
  "dshotFrame value11 telemetry =
     (let payload = push_bit 1 value11 OR (if telemetry then 1 else 0);
          crc = (payload XOR drop_bit 4 payload XOR drop_bit 8 payload) AND 0x0F
      in push_bit 4 payload OR crc)"

text \<open>The column of one motor: the slot of each bit, most significant first.\<close>

definition dshotExpand :: "u16 \<Rightarrow> nat \<Rightarrow> nat \<Rightarrow> u16 list \<Rightarrow> u16 list" where
  "dshotExpand frame dst stride buffer =
     fold (\<lambda>i b. b[dst + i * stride := (if frame AND drop_bit i 0x8000 \<noteq> 0 then DSHOT_T1H else DSHOT_T0H)])
       [0 ..< DSHOT_BITS] buffer"

section \<open>The sink\<close>

record motor_sink =
  ms_buffer :: "u16 list"
  ms_last :: actuator_frame
  ms_skipped :: u32

definition MotorSinkDshot_init :: motor_sink where
  "MotorSinkDshot_init = \<lparr>ms_buffer = replicate DSHOT_BUFFER 0, ms_last = ActuatorFrame_init, ms_skipped = 0\<rparr>"

definition MotorSinkDshot_push :: "(f32 \<Rightarrow> int) \<Rightarrow> bool \<Rightarrow> actuator_frame \<Rightarrow> motor_sink \<Rightarrow> motor_sink" where
  "MotorSinkDshot_push ur streamBusy frame m =
     (if streamBusy then m\<lparr>ms_skipped := ms_skipped m + 1\<rparr>
      else m\<lparr>ms_last := frame,
             ms_buffer := fold (\<lambda>motor. dshotExpand (dshotFrame (dshotThrottle ur (af_motor frame ! motor)) False) motor DSHOT_MOTORS)
                            [0 ..< DSHOT_MOTORS] (ms_buffer m)\<rparr>)"

lemmas dshot_consts = DSHOT_T0H_def DSHOT_T1H_def DSHOT_BITS_def DSHOT_TRAILING_def DSHOT_SLOTS_def
  DSHOT_MOTORS_def DSHOT_BUFFER_def DSHOT_THROTTLE_MIN_def DSHOT_THROTTLE_MAX_def

section \<open>The value of a command\<close>

lemma round_mag_below:
  assumes "0 < b" "a \<le> c * b" "c < 2 ^ 160"
  shows "round_mag a b \<le> c + 2 ^ 135"
proof -
  have "a div b \<le> c" using assms by (metis div_le_mono nonzero_mult_div_cancel_right less_numeral_extra(3))
  then have "a div b < 2 ^ 160" using assms(3) by linarith
  then have "bitlen (a div b) \<le> 160"
  proof (cases "a div b = 0")
    case False
    from bitlen_lower[OF this] have "(2::nat) ^ bitlen (a div b) \<le> 2 * (a div b)" .
    also have "\<dots> < 2 * 2 ^ 160" using \<open>a div b < 2 ^ 160\<close> by simp
    finally have "(2::nat) ^ bitlen (a div b) < 2 ^ 161" by simp
    then have "bitlen (a div b) < 161" by (rule power_less_imp_less_exp[rotated]) simp
    then show ?thesis by simp
  qed (simp add: bitlen.simps[of 0])
  then have "round_shift a b \<le> 136" by (simp add: round_shift_def)
  then have "(2::nat) ^ round_shift a b \<le> 2 ^ 136" by (rule power_increasing) simp
  then have "int (b * 2 ^ round_shift a b) \<le> int (b * 2 ^ 136)" by (simp only: of_nat_le_iff mult_le_mono2)
  with round_mag_nearest[OF assms(1), of a] have "2 * \<bar>int (round_mag a b * b) - int a\<bar> \<le> int (b * 2 ^ 136)" by linarith
  moreover define e where "e = b * 2 ^ 135"
  moreover have "b * 2 ^ 136 = 2 * e" by (simp add: e_def)
  ultimately have "int (round_mag a b * b) \<le> int (a + b * 2 ^ 135)" by simp
  then have "round_mag a b * b \<le> a + b * 2 ^ 135" by (simp only: of_nat_le_iff)
  also have "\<dots> \<le> (c + 2 ^ 135) * b" using assms(2) by (simp add: algebra_simps)
  finally show ?thesis using assms(1) by simp
qed

lemma span_value: "float_of (DSHOT_THROTTLE_MAX - DSHOT_THROTTLE_MIN) = Fin False (1999 * UNIT)"
  by (simp add: dshot_consts float_eval cong: let_weak_cong)

text \<open>A command inside the range of the mixer and not a NaN: a stop at or below zero, else a throttle.\<close>

lemma throttle_range:
  assumes "motor \<noteq> NaN" "\<not> motor > lit 1 1"
  shows "if motor \<le> 0 then dshotThrottle ur motor = 0
         else DSHOT_THROTTLE_MIN \<le> dshotThrottle ur motor \<and> dshotThrottle ur motor \<le> DSHOT_THROTTLE_MAX"
proof (cases "motor \<le> 0")
  case True
  then show ?thesis by (simp add: dshotThrottle_def)
next
  case False
  have one: "lit 1 1 = Fin False UNIT" by (simp add: float_eval cong: let_weak_cong)
  from False assms obtain n where m: "motor = Fin False n" "n \<le> UNIT"
    unfolding one by (cases motor) (auto simp: zero_f32_def split: if_splits)
  define r where "r = round_mag (n * (1999 * UNIT)) UNIT"
  have "n * (1999 * UNIT) \<le> 1999 * UNIT * UNIT" using m(2) by simp
  then have r: "r \<le> 1999 * UNIT + 2 ^ 135" unfolding r_def
    by (rule round_mag_below[rotated]) (simp_all add: UNIT_def)
  then have "r < OVERFLOW" by (simp add: UNIT_def OVERFLOW_def)
  then have prod: "motor * float_of (DSHOT_THROTTLE_MAX - DSHOT_THROTTLE_MIN) = Fin False r"
    by (simp add: m(1) span_value round32_def r_def Let_def)
  define k where "k = (2 * r + UNIT) div (2 * UNIT)"
  have "2 * r + UNIT < 2000 * (2 * UNIT)" using r by (simp add: UNIT_def)
  then have k: "k < 2000" unfolding k_def by (rule less_mult_imp_div_less)
  have "lroundf ur (motor * float_of (DSHOT_THROTTLE_MAX - DSHOT_THROTTLE_MIN)) = int k"
    unfolding prod using k by (simp add: lroundf_def k_def[symmetric])
  then have "dshotThrottle ur motor = (let v = word_of_int (48 + int k) :: u16 in if v > 2047 then 2047 else v)"
    unfolding dshotThrottle_def using False by (simp add: DSHOT_THROTTLE_MIN_def DSHOT_THROTTLE_MAX_def[abs_def] cong: if_cong let_cong)
  moreover have "word_of_int (48 + int k) = (of_nat (48 + k) :: u16)" by simp
  moreover have "unat (of_nat (48 + k) :: u16) = 48 + k" using k by (intro unat_of_nat_small) simp
  ultimately show ?thesis using False k by (simp add: dshot_consts word_le_nat_alt word_less_nat_alt Let_def)
qed

section \<open>The frame on the line\<close>

text \<open>
  What an ESC reads from the high times of one line: the sixteen bits, most significant first, then the
  value and the telemetry bit when the checksum agrees.
\<close>

definition line_of :: "nat \<Rightarrow> u16 list \<Rightarrow> u16 list" where
  "line_of motor buffer = map (\<lambda>i. buffer ! (motor + i * DSHOT_MOTORS)) [0 ..< DSHOT_SLOTS]"

definition esc_word :: "u16 list \<Rightarrow> u16" where
  "esc_word ts = horner_sum of_bool 2 (rev (map (\<lambda>t. t > 78) (take 16 ts)))"

definition esc_read :: "u16 list \<Rightarrow> (u16 \<times> bool) option" where
  "esc_read ts =
     (let w = esc_word ts; payload = drop_bit 4 w
      in if drop 16 ts = [0, 0] \<and> w AND 0x0F = (payload XOR drop_bit 4 payload XOR drop_bit 8 payload) AND 0x0F
         then Some (drop_bit 1 payload, bit payload 0) else None)"

lemma frame_bits:
  assumes "v < 2048"
  shows "drop_bit 4 (dshotFrame v t) = push_bit 1 v OR (if t then 1 else 0)"
    "drop_bit 1 (drop_bit 4 (dshotFrame v t)) = v" "bit (drop_bit 4 (dshotFrame v t)) 0 = t"
    "dshotFrame v t AND 0x0F = (drop_bit 4 (dshotFrame v t) XOR drop_bit 4 (drop_bit 4 (dshotFrame v t))
                                XOR drop_bit 8 (drop_bit 4 (dshotFrame v t))) AND 0x0F"
proof -
  have "take_bit 11 v = v" using assms
    by (intro word_unat_eq_iff [THEN iffD2]) (simp add: unsigned_take_bit_eq take_bit_nat_eq_self word_less_nat_alt)
  then have v: "bit v n \<Longrightarrow> n < 11" for n by (metis bit_take_bit_iff)
  have mask: "(0x0F :: u16) = mask 4" by (simp add: mask_eq_exp_minus_1)
  define x where "x = push_bit 1 v OR (if t then 1 else 0)"
  have bx: "bit x n \<longleftrightarrow> n < 12 \<and> (if n = 0 then t else bit v (n - 1))" for n
  proof -
    have "bit x n \<longleftrightarrow> (n < 16 \<and> 1 \<le> n \<and> bit v (n - 1)) \<or> (t \<and> n = 0)"
      unfolding x_def by (cases t) (simp_all only: bit_or_iff bit_push_bit_iff bit_1_iff bit_0_eq if_True if_False, auto)
    then show ?thesis using v[of "n - 1"] by auto
  qed
  have w: "dshotFrame v t = push_bit 4 x OR (x XOR drop_bit 4 x XOR drop_bit 8 x) AND mask 4"
    by (simp only: dshotFrame_def Let_def x_def mask)
  have "drop_bit 4 (dshotFrame v t) = x" unfolding w
    by (rule bit_word_eqI) (auto simp: bit_simps bx)
  then show 1: "drop_bit 4 (dshotFrame v t) = push_bit 1 v OR (if t then 1 else 0)" by (simp only: x_def)
  show "drop_bit 1 (drop_bit 4 (dshotFrame v t)) = v" unfolding 1 x_def[symmetric]
    by (rule bit_word_eqI) (auto simp: bit_simps bx dest: v)
  show "bit (drop_bit 4 (dshotFrame v t)) 0 = t" unfolding 1 x_def[symmetric] by (simp add: bx)
  show "dshotFrame v t AND 0x0F = (drop_bit 4 (dshotFrame v t) XOR drop_bit 4 (drop_bit 4 (dshotFrame v t))
                                XOR drop_bit 8 (drop_bit 4 (dshotFrame v t))) AND 0x0F"
    unfolding 1 x_def[symmetric] unfolding w mask
    by (rule bit_word_eqI) (auto simp: bit_simps bx)
qed

lemma length_expand [simp]: "length (dshotExpand frame d k b) = length b"
proof -
  have "length (fold (\<lambda>i b. b[d + i * k := f i]) is b) = length b" for f "is" and b :: "u16 list"
    by (induction "is" arbitrary: b) simp_all
  then show ?thesis by (simp add: dshotExpand_def)
qed

lemma expand_fold:
  assumes "d < 4" "length b = 72" "n \<le> 18"
  shows "fold (\<lambda>i b. b[d + i * 4 := f i]) [0 ..< n] b ! j =
     (if j < 72 \<and> j mod 4 = d \<and> j div 4 < n then f (j div 4) else b ! j)"
  using assms(3)
proof (induction n)
  case (Suc n)
  have len: "length (fold (\<lambda>i b. b[d + i * 4 := f i]) is b') = length b'" for "is" and b' :: "'a list"
    by (induction "is" arbitrary: b') simp_all
  have "j = d + n * 4 \<longleftrightarrow> j mod 4 = d \<and> j div 4 = n" using div_mult_mod_eq[of j 4] assms(1) by auto
  then show ?case
    using Suc assms(1,2) by (auto simp: nth_list_update len)
qed simp

lemma expand_nth:
  assumes "d < 4" "length b = 72"
  shows "dshotExpand frame d DSHOT_MOTORS b ! j =
     (if j < 72 \<and> j mod 4 = d \<and> j div 4 < 16 then if bit frame (15 - j div 4) then DSHOT_T1H else DSHOT_T0H else b ! j)"
proof -
  have "frame AND drop_bit i 0x8000 \<noteq> 0 \<longleftrightarrow> bit frame (15 - i)" if "i < 16" for i
  proof -
    have "(0x8000 :: u16) = push_bit 15 1" by (simp add: push_bit_eq_mult)
    then have top: "bit (0x8000 :: u16) n \<longleftrightarrow> n = 15" for n
      by (simp only: bit_push_bit_iff bit_1_iff) auto
    then have "bit (frame AND drop_bit i 0x8000) n \<longleftrightarrow> n = 15 - i \<and> bit frame n" for n
      unfolding bit_and_iff bit_drop_bit_eq comp_apply top using that by auto
    then show ?thesis by (metis bit_word_eqI bit_0_eq bot_apply bot_bool_def)
  qed
  then show ?thesis unfolding dshotExpand_def
    using expand_fold[OF assms, of 16 "\<lambda>i. if frame AND drop_bit i 0x8000 \<noteq> 0 then DSHOT_T1H else DSHOT_T0H" j]
    by (auto simp: DSHOT_MOTORS_def DSHOT_BITS_def)
qed


section \<open>What the lines carry\<close>

text \<open>The buffer between two pushes: its size, and the trailing slots at rest.\<close>

definition sink_ok :: "motor_sink \<Rightarrow> bool" where
  "sink_ok m \<longleftrightarrow> length (ms_buffer m) = 72 \<and> (\<forall>j. 64 \<le> j \<and> j < 72 \<longrightarrow> ms_buffer m ! j = 0)"

lemma sink_ok_init: "sink_ok MotorSinkDshot_init"
  by (simp add: sink_ok_def MotorSinkDshot_init_def dshot_consts)

lemma push_buffer:
  assumes "length b = 72"
  shows "length (fold (\<lambda>motor. dshotExpand (f motor) motor DSHOT_MOTORS) [0 ..< DSHOT_MOTORS] b) = 72"
    and "fold (\<lambda>motor. dshotExpand (f motor) motor DSHOT_MOTORS) [0 ..< DSHOT_MOTORS] b ! j =
     (if j < 64 then if bit (f (j mod 4)) (15 - j div 4) then DSHOT_T1H else DSHOT_T0H else b ! j)"
proof -
  have four: "[0 ..< DSHOT_MOTORS] = [0, 1, 2, 3]" by (simp add: DSHOT_MOTORS_def upt_rec)
  have "j mod 4 \<in> {0, 1, 2, 3}" by auto
  then show "length (fold (\<lambda>motor. dshotExpand (f motor) motor DSHOT_MOTORS) [0 ..< DSHOT_MOTORS] b) = 72"
    "fold (\<lambda>motor. dshotExpand (f motor) motor DSHOT_MOTORS) [0 ..< DSHOT_MOTORS] b ! j =
     (if j < 64 then if bit (f (j mod 4)) (15 - j div 4) then DSHOT_T1H else DSHOT_T0H else b ! j)"
    unfolding four using assms by (auto simp: expand_nth)
qed

lemma sink_ok_push: "sink_ok m \<Longrightarrow> sink_ok (MotorSinkDshot_push ur busy frame m)"
  by (auto simp: sink_ok_def MotorSinkDshot_push_def push_buffer)

lemma throttle_max: "dshotThrottle ur motor < 2048"
  by (auto simp: dshotThrottle_def dshot_consts Let_def word_less_nat_alt)

lemma pushed_line:
  assumes "sink_ok m" "d < 4"
  shows "esc_read (line_of d (ms_buffer (MotorSinkDshot_push ur False frame m))) = Some (dshotThrottle ur (af_motor frame ! d), False)"
proof -
  define v where "v = dshotThrottle ur (af_motor frame ! d)"
  define w where "w = dshotFrame v False"
  let ?b = "ms_buffer (MotorSinkDshot_push ur False frame m)"
  have len: "length (ms_buffer m) = 72" using assms(1) by (simp add: sink_ok_def)
  have nth: "?b ! (d + i * 4) = (if i < 16 then if bit w (15 - i) then DSHOT_T1H else DSHOT_T0H else 0)" if "i < 18" for i
  proof -
    have "(d + i * 4) mod 4 = d" "(d + i * 4) div 4 = i" using assms(2) by simp_all
    then show ?thesis using push_buffer(2)[OF len, of "\<lambda>motor. dshotFrame (dshotThrottle ur (af_motor frame ! motor)) False" "d + i * 4"]
        assms that by (auto simp: MotorSinkDshot_push_def w_def v_def sink_ok_def)
  qed
  have line: "line_of d ?b = map (\<lambda>i. if bit w (15 - i) then DSHOT_T1H else DSHOT_T0H) [0 ..< 16] @ [0, 0]"
    by (rule nth_equalityI) (auto simp: line_of_def dshot_consts nth nth_append nth_Cons')
  have "rev (map (\<lambda>t. t > 78) (map (\<lambda>i. if bit w (15 - i) then DSHOT_T1H else DSHOT_T0H) [0 ..< 16])) = map (bit w) [0 ..< 16]"
    by (rule nth_equalityI) (auto simp: rev_nth dshot_consts)
  then have word: "esc_word (line_of d ?b) = w"
    by (simp only: line esc_word_def take_append length_map length_upt) (simp add: horner_sum_bit_eq_take_bit take_bit_word_eq_self)
  have "v < 2048" unfolding v_def by (rule throttle_max)
  from frame_bits[OF this, of False] show ?thesis
    unfolding esc_read_def word Let_def w_def[symmetric] v_def[symmetric] by (simp add: line)
qed

end
