(* ===== verification/Firmware_Loop.thy ===== *)
theory Firmware_Loop
  imports Tuning_Provider Motor_Dshot Ota_Lifecycle
begin

text \<open>
  The flight process of the board: the tracker of the pilot's messages with its fail-safe
  (\<^verbatim>\<open>platform_common/rc_tracker.hpp\<close>), the gate and the wire adapter of the updater (\<^verbatim>\<open>ota/flight_gate.hpp\<close>,
  \<^verbatim>\<open>ota/provider.hpp\<close>), and the loop of \<^verbatim>\<open>drone_firmware/firmware_app.cpp\<close> that ties them to the flight core, the
  parameter service, the firmware store and the motors.

  The loop is a function of the state and of one event: a sensor frame with the messages its poll
  delivers, or, while an update session parks the flight loop, one round of the update loop. The
  messages are those of the handlers that act on the aircraft, in the order the messenger dispatches them; the
  other services (status, telemetry, log, identity) and the status LED only report, and are components of
  their own. The store is a parameter, as it is of the updater.
\<close>


section \<open>The pilot's messages\<close>

record rc_message =
  rm_kill :: bool
  rm_arm :: bool
  rm_mode :: u32
  rm_throttle :: f32
  rm_roll :: f32
  rm_pitch :: f32
  rm_yaw :: f32

definition RC_ALTITUDE_AUTO :: u32 where "RC_ALTITUDE_AUTO = 1"
definition RC_LEVEL :: u32 where "RC_LEVEL = 2"
definition RC_TIMEOUT_US :: u64 where "RC_TIMEOUT_US = 200000"

record rc_tracker =
  rt_rc :: rc_input
  rt_lastRcUs :: u64
  rt_everReceived :: bool
  rt_rcPacketCount :: u32

definition RcTracker_init :: rc_tracker where
  "RcTracker_init = \<lparr>rt_rc = RcInput_init, rt_lastRcUs = 0, rt_everReceived = False, rt_rcPacketCount = 0\<rparr>"

definition RcTracker_onRc :: "rc_message \<Rightarrow> u64 \<Rightarrow> rc_tracker \<Rightarrow> rc_tracker" where
  "RcTracker_onRc m nowUs t =
     \<lparr>rt_rc = \<lparr>rc_killSwitch = rm_kill m, rc_throttle = rm_throttle m, rc_roll = rm_roll m, rc_pitch = rm_pitch m,
               rc_yaw = rm_yaw m, rc_armSwitch = rm_arm m,
               rc_mode = (if rm_mode m = RC_ALTITUDE_AUTO then PM_ALTITUDE_AUTO
                          else if rm_mode m = RC_LEVEL then PM_LEVEL else PM_MANUAL)\<rparr>,
      rt_lastRcUs = nowUs, rt_everReceived = True, rt_rcPacketCount = rt_rcPacketCount t + 1\<rparr>"

definition RcTracker_failsafeActive :: "u64 \<Rightarrow> rc_tracker \<Rightarrow> bool" where
  "RcTracker_failsafeActive nowUs t \<longleftrightarrow> \<not> rt_everReceived t \<or> nowUs - rt_lastRcUs t > RC_TIMEOUT_US"

definition RcTracker_graft :: "rc_tracker \<Rightarrow> sensor_frame \<Rightarrow> sensor_frame" where
  "RcTracker_graft t frame =
     frame\<lparr>sf_rc := if RcTracker_failsafeActive (sf_timestampUs frame) t then RcInput_init else rt_rc t\<rparr>"


section \<open>The process\<close>

datatype firmware_message = RcBody rc_message | RebootBody | TuningBody tuning_body | OtaBody ota_request

text \<open>Where the loop stands: at the wait for a frame, at the head of the update loop, or in the reset.\<close>

datatype loop_point = Flying | Updating | Resetting

record ('w, 's) firmware =
  fw_point :: loop_point
  fw_tuning :: "'w tuning_provider"
  fw_rcTracker :: rc_tracker
  fw_updater :: updater
  fw_store :: 's
  fw_consumed :: u32
  fw_otaConsumedSeen :: u32
  fw_armInhibited :: bool
  fw_rebootRequested :: bool
  fw_motorSink :: motor_sink
  fw_actuators :: actuator_frame

abbreviation fw_core :: "('w, 's) firmware \<Rightarrow> flight_core" where
  "fw_core fw \<equiv> tnp_core (fw_tuning fw)"

text \<open>What the composition is made of: the platform of the floats, the messenger and the log, the store.\<close>

record ('w, 's) board =
  bo_fe :: fpenv
  bo_round :: "f32 \<Rightarrow> int"
  bo_tuning :: "(tuning_body, 'w) port"
  bo_otaSend :: "u32 \<Rightarrow> ota_reply \<Rightarrow> 'w \<Rightarrow> 'w"
  bo_store :: "'s store"

text \<open>\<^verbatim>\<open>FlightOtaGate\<close>: armed is what the core says, the voltage always passes.\<close>

definition FlightOtaGate_armed :: "flight_core \<Rightarrow> bool" where
  "FlightOtaGate_armed core = FlightCore_armed core"

definition FlightOtaGate_voltageOk :: "flight_core \<Rightarrow> bool" where
  "FlightOtaGate_voltageOk core = True"

definition OtaProvider_onMessage :: "('w, 's) board \<Rightarrow> u32 \<Rightarrow> ota_request \<Rightarrow> u64 \<Rightarrow> ('w, 's) firmware \<Rightarrow> ('w, 's) firmware \<times> bool" where
  "OtaProvider_onMessage bo src request nowUs fw =
     (let inp = \<lparr>in_armed = FlightOtaGate_armed (fw_core fw), in_voltageOk = FlightOtaGate_voltageOk (fw_core fw), in_nowUs = nowUs\<rparr>;
          (u, s, reply, consumed) = OtaUpdater_handle (bo_store bo) request inp (fw_updater fw) (fw_store fw);
          fw = fw\<lparr>fw_updater := u, fw_store := s\<rparr>;
          fw = (if reply \<noteq> NoReply
                then fw\<lparr>fw_tuning := (fw_tuning fw)\<lparr>tnp_world := bo_otaSend bo src reply (tnp_world (fw_tuning fw))\<rparr>\<rparr> else fw)
      in (if consumed then fw\<lparr>fw_consumed := fw_consumed fw + 1\<rparr> else fw, consumed))"

definition Commands_onMessage :: "firmware_message \<Rightarrow> u64 \<Rightarrow> ('w, 's) firmware \<Rightarrow> ('w, 's) firmware" where
  "Commands_onMessage m nowUs fw =
     (case m of
        RcBody rc \<Rightarrow> fw\<lparr>fw_rcTracker := RcTracker_onRc rc nowUs (fw_rcTracker fw)\<rparr>
      | RebootBody \<Rightarrow> fw\<lparr>fw_rebootRequested := True\<rparr>
      | _ \<Rightarrow> fw)"

text \<open>One message of a poll, at the handler of its tag.\<close>

definition firmware_dispatch :: "('w, 's) board \<Rightarrow> u64 \<Rightarrow> u32 \<times> firmware_message \<Rightarrow> ('w, 's) firmware \<Rightarrow> ('w, 's) firmware" where
  "firmware_dispatch bo nowUs = (\<lambda>(src, m) fw.
     case m of
       TuningBody b \<Rightarrow> fw\<lparr>fw_tuning := fst (TuningProvider_onMessage (bo_fe bo) (bo_tuning bo) src b (fw_tuning fw))\<rparr>
     | OtaBody r \<Rightarrow> fst (OtaProvider_onMessage bo src r nowUs fw)
     | _ \<Rightarrow> Commands_onMessage m nowUs fw)"

definition FirmwareApp_pollTransport :: "('w, 's) board \<Rightarrow> (u32 \<times> firmware_message) list \<Rightarrow> u64 \<Rightarrow> ('w, 's) firmware \<Rightarrow> ('w, 's) firmware" where
  "FirmwareApp_pollTransport bo ms nowUs fw = fold (firmware_dispatch bo nowUs) ms fw"

definition trial_unconfirmed :: "'s store \<Rightarrow> 's \<Rightarrow> bool" where
  "trial_unconfirmed st s = (case st_readMeta st s of Some meta \<Rightarrow> otaTrialUnconfirmed meta (st_runningSlot st s) | None \<Rightarrow> False)"

definition FirmwareApp_refreshArmInterlock :: "('w, 's) board \<Rightarrow> ('w, 's) firmware \<Rightarrow> ('w, 's) firmware" where
  "FirmwareApp_refreshArmInterlock bo fw = fw\<lparr>fw_armInhibited := trial_unconfirmed (bo_store bo) (fw_store fw)\<rparr>"

text \<open>The process as \<^verbatim>\<open>init()\<close> leaves it when everything came up.\<close>

definition FirmwareApp_init :: "('w, 's) board \<Rightarrow> 's \<Rightarrow> 'w \<Rightarrow> ('w, 's) firmware" where
  "FirmwareApp_init bo s w =
     FirmwareApp_refreshArmInterlock bo
       \<lparr>fw_point = Flying, fw_tuning = TuningProvider_new (FlightCore_init (bo_fe bo)) w, fw_rcTracker = RcTracker_init,
        fw_updater = OtaUpdater_init True, fw_store = s, fw_consumed = 0, fw_otaConsumedSeen = 0, fw_armInhibited = False,
        fw_rebootRequested = False, fw_motorSink = MotorSinkDshot_init, fw_actuators = ActuatorFrame_init\<rparr>"

text \<open>The re-reading of the metadata after a message of the updater, the same lines in both loops.\<close>

definition refresh_if_consumed :: "('w, 's) board \<Rightarrow> ('w, 's) firmware \<Rightarrow> ('w, 's) firmware" where
  "refresh_if_consumed bo fw =
     (if fw_consumed fw \<noteq> fw_otaConsumedSeen fw
      then FirmwareApp_refreshArmInterlock bo (fw\<lparr>fw_otaConsumedSeen := fw_consumed fw\<rparr>) else fw)"

text \<open>From the poll to the motors: one pass of the loop of \<^verbatim>\<open>run()\<close>.\<close>

definition fly_frame :: "('w, 's) board \<Rightarrow> bool \<Rightarrow> sensor_frame \<Rightarrow> ('w, 's) firmware \<Rightarrow> ('w, 's) firmware" where
  "fly_frame bo streamBusy frame0 fw =
     (let frame1 = RcTracker_graft (fw_rcTracker fw) frame0;
          frame = (if fw_armInhibited fw then frame1\<lparr>sf_rc := (sf_rc frame1)\<lparr>rc_armSwitch := False\<rparr>\<rparr> else frame1);
          (core, actuators) = FlightCore_step (bo_fe bo) (fw_core fw) frame
      in fw\<lparr>fw_tuning := (fw_tuning fw)\<lparr>tnp_core := core\<rparr>, fw_actuators := actuators,
            fw_motorSink := MotorSinkDshot_push (bo_round bo) streamBusy actuators (fw_motorSink fw)\<rparr>)"

definition FirmwareApp_run_pass :: "('w, 's) board \<Rightarrow> (u32 \<times> firmware_message) list \<Rightarrow> bool \<Rightarrow> sensor_frame \<Rightarrow> ('w, 's) firmware \<Rightarrow> ('w, 's) firmware" where
  "FirmwareApp_run_pass bo ms streamBusy frame fw =
     (let fw = FirmwareApp_pollTransport bo ms (sf_timestampUs frame) fw
      in if fw_rebootRequested fw then fw\<lparr>fw_point := Resetting\<rparr>
         else let fw = refresh_if_consumed bo fw
              in if u_sessionActive (fw_updater fw) then fw\<lparr>fw_point := Updating\<rparr>
                 else fly_frame bo streamBusy frame fw)"

text \<open>One pass of the loop of \<^verbatim>\<open>runUpdateMode()\<close>: the poll at one instant, the tick at another.\<close>

definition FirmwareApp_update_pass :: "('w, 's) board \<Rightarrow> (u32 \<times> firmware_message) list \<Rightarrow> u64 \<Rightarrow> u64 \<Rightarrow> ('w, 's) firmware \<Rightarrow> ('w, 's) firmware" where
  "FirmwareApp_update_pass bo ms nowUs tickUs fw =
     (let fw = FirmwareApp_pollTransport bo ms nowUs fw
      in if fw_rebootRequested fw then fw\<lparr>fw_point := Resetting\<rparr>
         else let fw = refresh_if_consumed bo fw;
                  fw = fw\<lparr>fw_updater := OtaUpdater_tick tickUs (fw_updater fw)\<rparr>
              in fw\<lparr>fw_point := if u_sessionActive (fw_updater fw) then Updating else Flying\<rparr>)"

text \<open>One turn of the process, wherever it stands.\<close>

record firmware_event =
  ev_messages :: "(u32 \<times> firmware_message) list"
  ev_frame :: sensor_frame
  ev_streamBusy :: bool
  ev_nowUs :: u64
  ev_tickUs :: u64

definition firmware_turn :: "('w, 's) board \<Rightarrow> ('w, 's) firmware \<Rightarrow> firmware_event \<Rightarrow> ('w, 's) firmware" where
  "firmware_turn bo fw ev =
     (case fw_point fw of
        Flying \<Rightarrow> FirmwareApp_run_pass bo (ev_messages ev) (ev_streamBusy ev) (ev_frame ev) fw
      | Updating \<Rightarrow> FirmwareApp_update_pass bo (ev_messages ev) (ev_nowUs ev) (ev_tickUs ev) fw
      | Resetting \<Rightarrow> fw)"

definition firmware_run :: "('w, 's) board \<Rightarrow> ('w, 's) firmware \<Rightarrow> firmware_event list \<Rightarrow> ('w, 's) firmware" where
  "firmware_run bo fw evs = foldl (firmware_turn bo) fw evs"

lemma firmware_run_simps [simp]:
  "firmware_run bo fw [] = fw"
  "firmware_run bo fw (ev # evs) = firmware_run bo (firmware_turn bo fw ev) evs"
  "firmware_run bo fw (evs @ evs') = firmware_run bo (firmware_run bo fw evs) evs'"
  by (simp_all add: firmware_run_def)

end
