(* ===== verification/Firmware_Safe.thy ===== *)
theory Firmware_Safe
  imports Firmware_Loop Flight_Safety
begin

text \<open>
  What the flight process of the board promises as a whole: the motors stop when the pilot goes silent, an
  update is only ever open on a board whose motors are stopped, an image on trial does not arm, and what the
  ESCs read on their lines is what the core commanded. The laws of an invariant of the process are a locale,
  over its operations in the order a turn composes them; the properties interpret it.
\<close>


section \<open>Invariants of the process\<close>

locale firmware_invariant =
  fixes bo :: "('w, 's) board" and inv :: "('w, 's) firmware \<Rightarrow> bool"
  assumes inv_message: "inv fw \<Longrightarrow> inv (firmware_dispatch bo t m fw)"
    and inv_refresh: "inv fw \<Longrightarrow> inv (refresh_if_consumed bo fw)"
    and inv_fly: "inv fw \<Longrightarrow> \<not> u_sessionActive (fw_updater fw) \<Longrightarrow> inv (fly_frame bo busy f fw)"
    and inv_tick: "inv fw \<Longrightarrow> inv (fw\<lparr>fw_updater := OtaUpdater_tick t (fw_updater fw)\<rparr>)"
    and inv_point: "inv fw \<Longrightarrow> inv (fw\<lparr>fw_point := x\<rparr>)"
begin

lemma inv_poll: "inv fw \<Longrightarrow> inv (FirmwareApp_pollTransport bo ms t fw)"
  unfolding FirmwareApp_pollTransport_def by (induction ms arbitrary: fw) (simp_all add: inv_message)

lemma inv_turn: "inv fw \<Longrightarrow> inv (firmware_turn bo fw ev)"
  by (simp add: firmware_turn_def FirmwareApp_run_pass_def FirmwareApp_update_pass_def Let_def inv_poll inv_refresh inv_fly
      inv_tick inv_point split: loop_point.split)

lemma inv_run: "inv fw \<Longrightarrow> inv (firmware_run bo fw evs)"
  by (induction evs arbitrary: fw) (simp_all add: inv_turn)

end


section \<open>What a message leaves alone\<close>

text \<open>A message reaches the core as a tuning request or not at all.\<close>

lemma tuning_core:
  "tnp_core (fst (TuningProvider_onMessage fe pt src b p)) =
     (case b of TuningSet i v \<Rightarrow> fst (FlightCore_setParam fe (tnp_core p) (ucast i) v) | _ \<Rightarrow> tnp_core p)"
  by (cases b) (simp_all add: tuning_sendAck_def tuning_answer_def tuning_sendPage_def Let_def case_prod_beta)

lemma dispatch_core:
  "fw_core (firmware_dispatch bo t m fw) =
     (case m of (src, TuningBody (TuningSet i v)) \<Rightarrow> fst (FlightCore_setParam (bo_fe bo) (fw_core fw) (ucast i) v) | _ \<Rightarrow> fw_core fw)"
  by (auto simp: firmware_dispatch_def tuning_core OtaProvider_onMessage_def Commands_onMessage_def Let_def case_prod_beta
      split: firmware_message.split tuning_body.split prod.split)

lemma dispatch_frame [simp]:
  "fw_actuators (firmware_dispatch bo t m fw) = fw_actuators fw" "fw_motorSink (firmware_dispatch bo t m fw) = fw_motorSink fw"
  "fw_point (firmware_dispatch bo t m fw) = fw_point fw" "fw_armInhibited (firmware_dispatch bo t m fw) = fw_armInhibited fw"
  "fw_otaConsumedSeen (firmware_dispatch bo t m fw) = fw_otaConsumedSeen fw"
  by (auto simp: firmware_dispatch_def OtaProvider_onMessage_def Commands_onMessage_def Let_def case_prod_beta
      split: firmware_message.split)

lemma poll_frame [simp]:
  "fw_actuators (FirmwareApp_pollTransport bo ms t fw) = fw_actuators fw" "fw_motorSink (FirmwareApp_pollTransport bo ms t fw) = fw_motorSink fw"
  "fw_point (FirmwareApp_pollTransport bo ms t fw) = fw_point fw" "fw_armInhibited (FirmwareApp_pollTransport bo ms t fw) = fw_armInhibited fw"
  "fw_otaConsumedSeen (FirmwareApp_pollTransport bo ms t fw) = fw_otaConsumedSeen fw"
  unfolding FirmwareApp_pollTransport_def by (induction ms arbitrary: fw) simp_all

lemma refresh_frame [simp]:
  "fw_tuning (refresh_if_consumed bo fw) = fw_tuning fw" "fw_actuators (refresh_if_consumed bo fw) = fw_actuators fw"
  "fw_motorSink (refresh_if_consumed bo fw) = fw_motorSink fw" "fw_updater (refresh_if_consumed bo fw) = fw_updater fw"
  "fw_store (refresh_if_consumed bo fw) = fw_store fw" "fw_rcTracker (refresh_if_consumed bo fw) = fw_rcTracker fw"
  "fw_point (refresh_if_consumed bo fw) = fw_point fw" "fw_consumed (refresh_if_consumed bo fw) = fw_consumed fw"
  by (simp_all add: refresh_if_consumed_def FirmwareApp_refreshArmInterlock_def)

lemma fly_fields [simp]:
  "fw_updater (fly_frame bo busy f fw) = fw_updater fw" "fw_store (fly_frame bo busy f fw) = fw_store fw"
  "fw_rcTracker (fly_frame bo busy f fw) = fw_rcTracker fw" "fw_point (fly_frame bo busy f fw) = fw_point fw"
  "fw_armInhibited (fly_frame bo busy f fw) = fw_armInhibited fw" "fw_consumed (fly_frame bo busy f fw) = fw_consumed fw"
  "fw_otaConsumedSeen (fly_frame bo busy f fw) = fw_otaConsumedSeen fw"
  by (simp_all add: fly_frame_def Let_def case_prod_beta)

text \<open>The frame the core is stepped with.\<close>

definition stepped_frame :: "('w, 's) firmware \<Rightarrow> sensor_frame \<Rightarrow> sensor_frame" where
  "stepped_frame fw f = (let f1 = RcTracker_graft (fw_rcTracker fw) f
                         in if fw_armInhibited fw then f1\<lparr>sf_rc := (sf_rc f1)\<lparr>rc_armSwitch := False\<rparr>\<rparr> else f1)"

lemma fly_core:
  "fw_core (fly_frame bo busy f fw) = fst (FlightCore_step (bo_fe bo) (fw_core fw) (stepped_frame fw f))"
  "fw_actuators (fly_frame bo busy f fw) = snd (FlightCore_step (bo_fe bo) (fw_core fw) (stepped_frame fw f))"
  "fw_motorSink (fly_frame bo busy f fw) =
     MotorSinkDshot_push (bo_round bo) busy (snd (FlightCore_step (bo_fe bo) (fw_core fw) (stepped_frame fw f))) (fw_motorSink fw)"
  by (simp_all add: fly_frame_def stepped_frame_def Let_def case_prod_beta)


section \<open>The core and the outputs\<close>

text \<open>The core has lived a run from power-on, the last command frame is the last the core gave, the sink is sound.\<close>

definition core_lived :: "('w, 's) board \<Rightarrow> ('w, 's) firmware \<Rightarrow> bool" where
  "core_lived bo fw \<longleftrightarrow> (\<exists>es. fw_core fw = core_run (bo_fe bo) (FlightCore_init (bo_fe bo)) es)
     \<and> af_motor (fw_actuators fw) = fc_lastMotor (fw_core fw) \<and> sink_ok (fw_motorSink fw)"

lemma lived_step:
  assumes "c = core_run fe c0 es"
  shows "\<exists>es. fst (FlightCore_step fe c f) = core_run fe c0 es" "\<exists>es. fst (FlightCore_setParam fe c i v) = core_run fe c0 es"
  by (rule exI[of _ "es @ [EvFrame f]"], simp add: assms) (rule exI[of _ "es @ [EvParam i v]"], simp add: assms)

lemma setParam_motor: "fc_lastMotor (fst (FlightCore_setParam fe c i v)) = fc_lastMotor c" "fc_phase (fst (FlightCore_setParam fe c i v)) = fc_phase c"
  by (simp_all add: frame_simps)

interpretation lived: firmware_invariant bo "core_lived bo" for bo :: "('w, 's) board"
proof
  fix fw :: "('w, 's) firmware" and t m busy f x
  show "core_lived bo fw \<Longrightarrow> core_lived bo (firmware_dispatch bo t m fw)"
    by (auto simp: core_lived_def dispatch_core lived_step setParam_motor split: prod.split firmware_message.split tuning_body.split)
  show "core_lived bo fw \<Longrightarrow> core_lived bo (fly_frame bo busy f fw)"
    by (auto simp: core_lived_def fly_core step_output sink_ok_push lived_step)
qed (simp_all add: core_lived_def)

lemma lived_init: "core_lived bo (FirmwareApp_init bo s w)"
  by (auto simp: core_lived_def FirmwareApp_init_def FirmwareApp_refreshArmInterlock_def TuningProvider_new_def sink_ok_init
      FlightCore_init_def ActuatorFrame_init_def intro: exI[of _ "[]"])

lemma lived_motors: "core_lived bo fw \<Longrightarrow> core_motors_ok (fw_core fw)"
  using motors.inv_run by (auto simp: core_lived_def)


section \<open>Updates\<close>

text \<open>A session is open only on a core that is not armed.\<close>

definition update_safe :: "('w, 's) board \<Rightarrow> ('w, 's) firmware \<Rightarrow> bool" where
  "update_safe bo fw \<longleftrightarrow> core_lived bo fw \<and> (u_sessionActive (fw_updater fw) \<longrightarrow> \<not> FlightCore_armed (fw_core fw))"

lemma session_opens:
  assumes "OtaUpdater_handle st r inp u s = (u', s', reply, consumed)" "u_sessionActive u'"
  shows "u_sessionActive u \<or> \<not> in_armed inp"
  using assms by (cases r)
    (auto simp: handleBegin_def handleChunk_def handleFinish_def handleAbort_def closeSession_def Let_def case_prod_beta
      split: if_splits option.splits)

lemma tick_closes: "u_sessionActive (OtaUpdater_tick t u) \<Longrightarrow> u_sessionActive u"
  by (auto simp: OtaUpdater_tick_def split: if_splits)

lemma dispatch_session:
  assumes "u_sessionActive (fw_updater (firmware_dispatch bo t m fw))"
  shows "u_sessionActive (fw_updater fw) \<or> \<not> FlightCore_armed (fw_core fw)"
proof (cases "\<exists>src r. m = (src, OtaBody r)")
  case True
  then obtain src r where m: "m = (src, OtaBody r)" by blast
  let ?inp = "\<lparr>in_armed = FlightOtaGate_armed (fw_core fw), in_voltageOk = FlightOtaGate_voltageOk (fw_core fw), in_nowUs = t\<rparr>"
  obtain u s rep co where h: "OtaUpdater_handle (bo_store bo) r ?inp (fw_updater fw) (fw_store fw) = (u, s, rep, co)" by (metis prod_cases4)
  have "fw_updater (firmware_dispatch bo t m fw) = u" by (simp add: m firmware_dispatch_def OtaProvider_onMessage_def h Let_def)
  with session_opens[OF h] assms show ?thesis by (auto simp: FlightOtaGate_armed_def)
next
  case False
  then have "fw_updater (firmware_dispatch bo t m fw) = fw_updater fw"
    by (cases m) (auto simp: firmware_dispatch_def Commands_onMessage_def split: firmware_message.split)
  then show ?thesis using assms by simp
qed

lemma dispatch_armed: "FlightCore_armed (fw_core (firmware_dispatch bo t m fw)) = FlightCore_armed (fw_core fw)"
  by (auto simp: dispatch_core FlightCore_armed_def setParam_motor split: prod.split firmware_message.split tuning_body.split)

interpretation updates: firmware_invariant bo "update_safe bo" for bo :: "('w, 's) board"
proof
  fix fw :: "('w, 's) firmware" and t m busy f x
  show "update_safe bo fw \<Longrightarrow> update_safe bo (firmware_dispatch bo t m fw)"
    using dispatch_session[of bo t m fw] by (auto simp: update_safe_def dispatch_armed lived.inv_message)
  show "update_safe bo fw \<Longrightarrow> \<not> u_sessionActive (fw_updater fw) \<Longrightarrow> update_safe bo (fly_frame bo busy f fw)"
    by (simp add: update_safe_def lived.inv_fly)
  show "update_safe bo fw \<Longrightarrow> update_safe bo (fw\<lparr>fw_updater := OtaUpdater_tick t (fw_updater fw)\<rparr>)"
    using tick_closes[of t "fw_updater fw"] by (auto simp: update_safe_def lived.inv_tick)
qed (simp_all add: update_safe_def lived.inv_refresh lived.inv_point)

lemma safe_init: "update_safe bo (FirmwareApp_init bo s w)"
  using lived_init[of bo s w]
  by (simp add: update_safe_def FirmwareApp_init_def FirmwareApp_refreshArmInterlock_def TuningProvider_new_def FlightCore_armed_def FlightCore_init_def)

lemma unarmed_motors:
  assumes "core_motors_ok c" "\<not> FlightCore_armed c"
  shows "\<not> motors_on (fc_lastMotor c)"
proof -
  have "grounded (fc_phase c)" using assms(2) by (auto simp: FlightCore_armed_def grounded_def)
  then show ?thesis using assms(1) by (cases "fc_phase c = PH_IDLE") (simp_all add: core_motors_ok_def)
qed


text \<open>(C5) An update is only ever open on a board whose motors are stopped. In every run of the flight process from
  power-on - whatever frames, pilot messages, tuning requests and update messages it is made of, in any order, over any
  store - an open session means a core that is not armed and a last command without a motor on; and a turn
  that begins or ends in the update loop leaves the motor output alone.\<close>

theorem update_only_on_ground:
  "case firmware_run bo (FirmwareApp_init bo s w) evs of fw \<Rightarrow> case firmware_turn bo fw ev of fw' \<Rightarrow>
     (if u_sessionActive (fw_updater fw) then \<not> FlightCore_armed (fw_core fw) \<and> \<not> motors_on (af_motor (fw_actuators fw)) else True)
     \<and> (if fw_point fw = Updating \<or> fw_point fw' = Updating
        then fw_motorSink fw' = fw_motorSink fw \<and> fw_actuators fw' = fw_actuators fw else True)"
proof -
  define fw where "fw = firmware_run bo (FirmwareApp_init bo s w) evs"
  have safe: "update_safe bo fw" unfolding fw_def by (rule updates.inv_run[OF safe_init])
  then have "u_sessionActive (fw_updater fw) \<Longrightarrow> \<not> motors_on (af_motor (fw_actuators fw))"
    using unarmed_motors[OF lived_motors] by (auto simp: update_safe_def core_lived_def)
  moreover have "fw_point fw = Updating \<or> fw_point (firmware_turn bo fw ev) = Updating \<Longrightarrow>
      fw_motorSink (firmware_turn bo fw ev) = fw_motorSink fw \<and> fw_actuators (firmware_turn bo fw ev) = fw_actuators fw"
    by (cases "fw_point fw") (auto simp: firmware_turn_def FirmwareApp_run_pass_def FirmwareApp_update_pass_def Let_def split: if_splits)
  ultimately show ?thesis using safe by (simp add: fw_def[symmetric] update_safe_def)
qed


section \<open>The lines\<close>

text \<open>A turn that flies a frame.\<close>

lemma flying_turn:
  assumes "fw_point fw = Flying" "fw_point (firmware_turn bo fw ev) = Flying"
  obtains fw1 where "fw1 = refresh_if_consumed bo (FirmwareApp_pollTransport bo (ev_messages ev) (sf_timestampUs (ev_frame ev)) fw)"
    "\<not> u_sessionActive (fw_updater fw1)" "firmware_turn bo fw ev = fly_frame bo (ev_streamBusy ev) (ev_frame ev) fw1"
  using assms that by (auto simp: firmware_turn_def FirmwareApp_run_pass_def Let_def split: if_splits)

lemma flown_lines:
  assumes "core_lived bo fw" "fw_point fw = Flying" "fw_point (firmware_turn bo fw ev) = Flying" "\<not> ev_streamBusy ev" "d < 4"
  shows "esc_read (line_of d (ms_buffer (fw_motorSink (firmware_turn bo fw ev)))) =
     Some (dshotThrottle (bo_round bo) (af_motor (fw_actuators (firmware_turn bo fw ev)) ! d), False)"
proof -
  from flying_turn[OF assms(2,3)] obtain fw1
    where fw1: "fw1 = refresh_if_consumed bo (FirmwareApp_pollTransport bo (ev_messages ev) (sf_timestampUs (ev_frame ev)) fw)"
      "firmware_turn bo fw ev = fly_frame bo (ev_streamBusy ev) (ev_frame ev) fw1" by blast
  have "sink_ok (fw_motorSink fw1)" using assms(1) by (simp add: fw1(1) core_lived_def)
  from pushed_line[OF this assms(5)] show ?thesis using assms(4) by (simp add: fw1(2) fly_core)
qed

text \<open>(C10) The ESCs read what the core commands. In every run of the flight process from power-on, after a turn that
  flies a frame (and finds the DMA stream free), each of the four lines decodes, checksum included, to the
  throttle value of its motor's command, without a telemetry request; for a command that is a number this is
  0, a stop, or in the range 48 to 2047, never one of the special orders 1 to 47; and in every phase that
  keeps the motors stopped it is 0.\<close>

theorem lines_carry_commands:
  assumes "fw = firmware_run bo (FirmwareApp_init bo s w) evs" "fw_point fw = Flying" "\<not> ev_streamBusy ev"
    and "fw' = firmware_turn bo fw ev" "fw_point fw' = Flying" "d < 4" "m = af_motor (fw_actuators fw') ! d"
  shows "\<exists>v. esc_read (line_of d (ms_buffer (fw_motorSink fw'))) = Some (v, False) \<and> v = dshotThrottle (bo_round bo) m \<and>
    (isnan m \<or> v = 0 \<or> 48 \<le> v \<and> v \<le> 2047) \<and> (grounded (fc_phase (fw_core fw')) \<longrightarrow> isnan m \<or> v = 0)"
proof -
  have "core_lived bo fw" unfolding assms(1) by (rule lived.inv_run[OF lived_init])
  moreover have l': "core_lived bo fw'" unfolding assms(4) using calculation by (rule lived.inv_turn)
  moreover have ok: "core_motors_ok (fw_core fw')" using l' by (rule lived_motors)
  moreover have m: "m = fc_lastMotor (fw_core fw') ! d" using l' by (simp add: core_lived_def assms(7))
  moreover have "m \<in> set (fc_lastMotor (fw_core fw'))" using ok assms(6) by (simp add: m core_motors_ok_def)
  then have "motor_ok m" and g: "grounded (fc_phase (fw_core fw')) \<Longrightarrow> \<not> m > 0"
    using ok unarmed_motors[OF ok]
    by (auto simp: core_motors_ok_def motors_on_def zero_not_less dest!: bspec split: if_splits)
  then have "\<not> isnan m \<Longrightarrow> if m \<le> 0 then dshotThrottle (bo_round bo) m = 0
      else 48 \<le> dshotThrottle (bo_round bo) m \<and> dshotThrottle (bo_round bo) m \<le> 2047"
    using throttle_range[of m "bo_round bo", unfolded DSHOT_THROTTLE_MIN_def DSHOT_THROTTLE_MAX_def] by (simp add: motor_ok_def isnan_iff)
  then have r: "isnan m \<or> dshotThrottle (bo_round bo) m = 0 \<or> 48 \<le> dshotThrottle (bo_round bo) m \<and> dshotThrottle (bo_round bo) m \<le> 2047"
    by (metis (full_types))
  have "\<not> isnan m \<Longrightarrow> \<not> m > 0 \<Longrightarrow> m \<le> 0" using not_less_f32[of 0 m] by (simp add: isnan_iff zero_f32_def)
  then have z: "grounded (fc_phase (fw_core fw')) \<Longrightarrow> isnan m \<or> dshotThrottle (bo_round bo) m = 0"
    using g by (auto simp: dshotThrottle_def)
  from flown_lines[OF calculation(1) assms(2) assms(5)[unfolded assms(4)] assms(3,6)]
  have "esc_read (line_of d (ms_buffer (fw_motorSink fw'))) = Some (dshotThrottle (bo_round bo) m, False)"
    unfolding assms(4,7) .
  then show ?thesis using r z by blast
qed


section \<open>A silent pilot\<close>

text \<open>The instants at which a turn, and a run, hears the pilot.\<close>

definition heard :: "('w, 's) firmware \<Rightarrow> firmware_event \<Rightarrow> u64 list" where
  "heard fw ev =
     (if \<exists>m \<in> set (ev_messages ev). case m of (src, RcBody rc) \<Rightarrow> True | _ \<Rightarrow> False
      then case fw_point fw of Flying \<Rightarrow> [sf_timestampUs (ev_frame ev)] | Updating \<Rightarrow> [ev_nowUs ev] | Resetting \<Rightarrow> []
      else [])"

fun heard_at :: "('w, 's) board \<Rightarrow> ('w, 's) firmware \<Rightarrow> firmware_event list \<Rightarrow> u64 list" where
  "heard_at bo fw [] = []"
| "heard_at bo fw (ev # evs) = heard fw ev @ heard_at bo (firmware_turn bo fw ev) evs"

lemma heard_at_append: "heard_at bo fw (evs @ evs') = heard_at bo fw evs @ heard_at bo (firmware_run bo fw evs) evs'"
  by (induction evs arbitrary: fw) simp_all

lemma dispatch_tracker:
  "fw_rcTracker (firmware_dispatch bo t m fw) =
     (case m of (src, RcBody rc) \<Rightarrow> RcTracker_onRc rc t (fw_rcTracker fw) | _ \<Rightarrow> fw_rcTracker fw)"
  by (auto simp: firmware_dispatch_def OtaProvider_onMessage_def Commands_onMessage_def Let_def case_prod_beta
      split: prod.split firmware_message.split)

lemma poll_tracker:
  "fw_rcTracker (FirmwareApp_pollTransport bo ms t fw) = fw_rcTracker fw
   \<or> (\<exists>m \<in> set ms. case m of (src, RcBody rc) \<Rightarrow> True | _ \<Rightarrow> False)
      \<and> rt_lastRcUs (fw_rcTracker (FirmwareApp_pollTransport bo ms t fw)) = t"
  unfolding FirmwareApp_pollTransport_def
proof (induction ms arbitrary: fw)
  case (Cons m ms)
  show ?case
    using Cons.IH[of "firmware_dispatch bo t m fw"]
    by (auto simp: dispatch_tracker RcTracker_onRc_def split: prod.splits firmware_message.splits)
qed simp

lemma turn_tracker:
  "fw_rcTracker (firmware_turn bo fw ev) = fw_rcTracker fw \<or> rt_lastRcUs (fw_rcTracker (firmware_turn bo fw ev)) \<in> set (heard fw ev)"
  using poll_tracker[of bo "ev_messages ev" "sf_timestampUs (ev_frame ev)" fw] poll_tracker[of bo "ev_messages ev" "ev_nowUs ev" fw]
  by (cases "fw_point fw")
    (auto simp: firmware_turn_def FirmwareApp_run_pass_def FirmwareApp_update_pass_def Let_def heard_def)

lemma run_tracker:
  "rt_everReceived (fw_rcTracker (firmware_run bo fw evs)) \<Longrightarrow> \<not> rt_everReceived (fw_rcTracker fw) \<Longrightarrow>
   rt_lastRcUs (fw_rcTracker (firmware_run bo fw evs)) \<in> set (heard_at bo fw evs)"
proof (induction evs rule: rev_induct)
  case (snoc ev evs)
  then show ?case using turn_tracker[of bo "firmware_run bo fw evs" ev] by (auto simp: heard_at_append)
qed simp

lemma kill_stops:
  assumes "rc_killSwitch (sf_rc f)"
  shows "af_motor (snd (FlightCore_step fe c f)) = replicate 4 0 \<and> fc_phase (fst (FlightCore_step fe c f)) = PH_IDLE"
  by (cases rule: step_cases[of f fe c]) (use assms in \<open>simp_all add: frame_simps accepted_def\<close>)

lemma silent_frame:
  assumes "RcTracker_failsafeActive (sf_timestampUs f) (fw_rcTracker fw)"
  shows "rc_killSwitch (sf_rc (stepped_frame fw f))"
  using assms by (simp add: stepped_frame_def RcTracker_graft_def RcInput_init_def Let_def)

lemma unheard_failsafe:
  assumes "rt_everReceived t \<longrightarrow> unat (rt_lastRcUs t) + 200000 < unat now"
  shows "RcTracker_failsafeActive now t"
proof (cases "rt_everReceived t")
  case True
  then have "unat (rt_lastRcUs t) + 200000 < unat now" using assms by blast
  moreover then have "unat (now - rt_lastRcUs t) = unat now - unat (rt_lastRcUs t)" by (intro unat_sub) (simp add: word_le_nat_alt)
  ultimately have "200000 < unat (now - rt_lastRcUs t)" by linarith
  then show ?thesis by (simp add: RcTracker_failsafeActive_def RC_TIMEOUT_US_def word_less_nat_alt)
qed (simp add: RcTracker_failsafeActive_def)

section \<open>A board for the examples\<close>

text \<open>A store that only knows its metadata, on a board whose running slot is A.\<close>

definition meta_store :: "meta_state store" where
  "meta_store = \<lparr>st_runningSlot = (\<lambda>_. OTA_SLOT_A), st_slotSize = (\<lambda>_. OTA_SLOT_SIZE), st_mcuId = (\<lambda>_. 1),
     st_eraseSlot = (\<lambda>_ s. (s, True)), st_program = (\<lambda>_ _ _ s. (s, True)), st_read = (\<lambda>_ _ _ _. None), st_crc32 = (\<lambda>_ _ _ _. 0),
     st_readMeta = Some, st_writeMeta = (\<lambda>m s. (m, True)), st_imageValid = (\<lambda>_ _ _. False), st_readIdentity = (\<lambda>_ _. None)\<rparr>"

definition example_board :: "(unit, meta_state) board" where
  "example_board = \<lparr>bo_fe = Float32.quiet_env, bo_round = (\<lambda>_. 0),
     bo_tuning = \<lparr>pt_send = (\<lambda>_ _ w. (w, True)), pt_request = (\<lambda>_ _ _ w. (w, 1)), pt_log = (\<lambda>_ _ w. w)\<rparr>,
     bo_otaSend = (\<lambda>_ _ w. w), bo_store = meta_store\<rparr>"

definition trial_meta :: meta_state where
  "trial_meta = \<lparr>activeSlot = OTA_SLOT_B, slotState = [OTA_SLOT_TESTING, OTA_SLOT_VALID], trialAttempted = True\<rparr>"

definition arm_message :: rc_message where
  "arm_message = \<lparr>rm_kill = False, rm_arm = True, rm_mode = RC_ALTITUDE_AUTO, rm_throttle = lit 5 10, rm_roll = 0, rm_pitch = 0, rm_yaw = 0\<rparr>"

text \<open>A frame at an instant, with the pilot heard or not.\<close>

definition heard_event :: "u64 \<Rightarrow> bool \<Rightarrow> firmware_event" where
  "heard_event t spoke = \<lparr>ev_messages = (if spoke then [(9, RcBody arm_message)] else []), ev_frame = SensorFrame_init\<lparr>sf_timestampUs := t\<rparr>,
     ev_streamBusy = False, ev_nowUs = t, ev_tickUs = t\<rparr>"

lemma example_turn:
  assumes "fw_point fw = Flying" "\<not> fw_rebootRequested fw" "\<not> u_sessionActive (fw_updater fw)"
  shows "fw_point (firmware_turn bo fw (heard_event t spoke)) = Flying" "\<not> fw_rebootRequested (firmware_turn bo fw (heard_event t spoke))"
    "\<not> u_sessionActive (fw_updater (firmware_turn bo fw (heard_event t spoke)))"
    "fw_store (firmware_turn bo fw (heard_event t spoke)) = fw_store fw"
  using assms by (simp_all add: firmware_turn_def heard_event_def FirmwareApp_run_pass_def FirmwareApp_pollTransport_def
      firmware_dispatch_def Commands_onMessage_def Let_def refresh_if_consumed_def FirmwareApp_refreshArmInterlock_def
      fly_frame_def case_prod_beta)

lemma example_init:
  "fw_point (FirmwareApp_init bo s w) = Flying" "\<not> fw_rebootRequested (FirmwareApp_init bo s w)"
  "\<not> u_sessionActive (fw_updater (FirmwareApp_init bo s w))" "fw_store (FirmwareApp_init bo s w) = s"
  by (simp_all add: FirmwareApp_init_def FirmwareApp_refreshArmInterlock_def OtaUpdater_init_def)

lemma example_heard: "fw_point fw = Flying \<Longrightarrow> heard fw (heard_event t spoke) = (if spoke then [t] else [])"
  by (simp add: heard_def heard_event_def)

section \<open>A silent pilot and the lines\<close>

text \<open>(C2) A board that has not heard its pilot for 200 ms stops its motors, whatever it was doing. In every run of the
  flight process from power-on, on a frame flown more than 200 ms after every pilot message of the run (or with none at
  all) the four commands are zero, the mission is over, and, once the frame is on the lines, every ESC
  reads a stop.\<close>

theorem lost_pilot_stops_motors:
  assumes "fw = firmware_run bo (FirmwareApp_init bo s w) evs" "fw_point fw = Flying"
    and "fw' = firmware_turn bo fw ev" "fw_point fw' = Flying"
    and "\<forall>t \<in> set (heard_at bo (FirmwareApp_init bo s w) (evs @ [ev])). unat t + 200000 < unat (sf_timestampUs (ev_frame ev))"
  shows "af_motor (fw_actuators fw') = [0, 0, 0, 0] \<and> fc_phase (fw_core fw') = PH_IDLE \<and>
    (if ev_streamBusy ev then True
     else map (\<lambda>d. esc_read (line_of d (ms_buffer (fw_motorSink fw')))) [0, 1, 2, 3] = replicate 4 (Some (0, False)))"
proof -
  let ?init = "FirmwareApp_init bo s w"
  from flying_turn[OF assms(2) assms(4)[unfolded assms(3)]] obtain fw1
    where fw1: "fw1 = refresh_if_consumed bo (FirmwareApp_pollTransport bo (ev_messages ev) (sf_timestampUs (ev_frame ev)) fw)"
      "fw' = fly_frame bo (ev_streamBusy ev) (ev_frame ev) fw1" unfolding assms(3) by blast
  have run: "fw' = firmware_run bo ?init (evs @ [ev])" by (simp add: assms(1,3))
  have "\<not> rt_everReceived (fw_rcTracker ?init)"
    by (simp add: FirmwareApp_init_def FirmwareApp_refreshArmInterlock_def RcTracker_init_def)
  from run_tracker[OF _ this, of bo "evs @ [ev]"]
  have "rt_everReceived (fw_rcTracker fw') \<longrightarrow> unat (rt_lastRcUs (fw_rcTracker fw')) + 200000 < unat (sf_timestampUs (ev_frame ev))"
    using assms(5) run by auto
  then have "RcTracker_failsafeActive (sf_timestampUs (ev_frame ev)) (fw_rcTracker fw1)" by (intro unheard_failsafe) (simp add: fw1(2))
  from kill_stops[OF silent_frame[OF this]] have z: "af_motor (fw_actuators fw') = replicate 4 0" "fc_phase (fw_core fw') = PH_IDLE"
    by (simp_all add: fw1(2) fly_core)
  have "core_lived bo fw" unfolding assms(1) by (rule lived.inv_run[OF lived_init])
  then have "esc_read (line_of d (ms_buffer (fw_motorSink fw'))) = Some (0, False)" if "\<not> ev_streamBusy ev" "d < 4" for d
    using flown_lines[of bo fw ev d] assms(2-4) that z(1) by (simp add: dshotThrottle_def zero_not_less)
  then show ?thesis using z by (auto simp: numeral_eq_Suc)
qed

theorem lost_pilot_stops_motors_witness:
  "fc_phase (fw_core (firmware_run example_board (FirmwareApp_init example_board trial_meta ()) [heard_event 1000 True, heard_event 300000 False])) = PH_IDLE"
proof -
  let ?i = "FirmwareApp_init example_board trial_meta ()"
  let ?f = "firmware_turn example_board ?i (heard_event 1000 True)"
  have t: "fw_point ?f = Flying" "\<not> fw_rebootRequested ?f" "\<not> u_sessionActive (fw_updater ?f)"
    by (rule example_turn[OF example_init(1-3)])+
  note t' = example_turn[OF t]
  have "heard_at example_board ?i ([heard_event 1000 True] @ [heard_event 300000 False]) = [1000]"
    using t(1) by (simp add: example_heard example_init)
  then have "\<forall>t \<in> set (heard_at example_board ?i ([heard_event 1000 True] @ [heard_event 300000 False])).
      unat t + 200000 < unat (sf_timestampUs (ev_frame (heard_event 300000 False)))"
    by (simp add: heard_event_def)
  from lost_pilot_stops_motors[OF _ t(1) refl t'(1) this] show ?thesis by simp
qed

theorem lines_carry_commands_witness:
  "\<exists>v. esc_read (line_of 2 (ms_buffer (fw_motorSink (firmware_turn example_board (FirmwareApp_init example_board trial_meta ()) (heard_event 1000 True))))) = Some (v, False)"
  using lines_carry_commands[of "FirmwareApp_init example_board trial_meta ()" example_board trial_meta "()" "[]" "heard_event 1000 True" _ 2,
      OF _ example_init(1) _ refl example_turn(1)[OF example_init(1-3)] _ refl]
  by (auto simp: heard_event_def)

section \<open>An image on trial\<close>

text \<open>The cached interlock is the one of the metadata at every head of the loop. A poll of the board delivers far fewer
  messages than the counter has values.\<close>

definition interlock_fresh :: "('w, 's) board \<Rightarrow> ('w, 's) firmware \<Rightarrow> bool" where
  "interlock_fresh bo fw \<longleftrightarrow> fw_consumed fw = fw_otaConsumedSeen fw \<and> fw_armInhibited fw = trial_unconfirmed (bo_store bo) (fw_store fw)"

lemma dispatch_consumed:
  "\<exists>k \<le> 1. fw_consumed (firmware_dispatch bo t m fw) = fw_consumed fw + of_nat k \<and>
     (k = 0 \<longrightarrow> fw_store (firmware_dispatch bo t m fw) = fw_store fw)"
proof (cases "\<exists>src r. m = (src, OtaBody r)")
  case True
  then obtain src r where m: "m = (src, OtaBody r)" by blast
  let ?inp = "\<lparr>in_armed = FlightOtaGate_armed (fw_core fw), in_voltageOk = FlightOtaGate_voltageOk (fw_core fw), in_nowUs = t\<rparr>"
  obtain u st rep co where h: "OtaUpdater_handle (bo_store bo) r ?inp (fw_updater fw) (fw_store fw) = (u, st, rep, co)" by (metis prod_cases4)
  have "\<not> co \<Longrightarrow> st = fw_store fw" using h by (cases r) (auto simp: Let_def case_prod_beta)
  then show ?thesis
    by (intro exI[of _ "if co then 1 else 0"]) (simp add: m firmware_dispatch_def OtaProvider_onMessage_def h Let_def)
next
  case False
  then show ?thesis
    by (intro exI[of _ 0], cases m) (auto simp: firmware_dispatch_def Commands_onMessage_def split: firmware_message.split)
qed

lemma poll_consumed:
  "\<exists>k \<le> length ms. fw_consumed (FirmwareApp_pollTransport bo ms t fw) = fw_consumed fw + of_nat k \<and>
     (k = 0 \<longrightarrow> fw_store (FirmwareApp_pollTransport bo ms t fw) = fw_store fw)"
  unfolding FirmwareApp_pollTransport_def
proof (induction ms arbitrary: fw)
  case (Cons m ms)
  obtain j where j: "j \<le> 1" "fw_consumed (firmware_dispatch bo t m fw) = fw_consumed fw + of_nat j"
    "j = 0 \<longrightarrow> fw_store (firmware_dispatch bo t m fw) = fw_store fw" using dispatch_consumed by blast
  from Cons.IH[of "firmware_dispatch bo t m fw"] obtain k where "k \<le> length ms"
    "fw_consumed (fold (firmware_dispatch bo t) (m # ms) fw) = fw_consumed (firmware_dispatch bo t m fw) + of_nat k"
    "k = 0 \<longrightarrow> fw_store (fold (firmware_dispatch bo t) (m # ms) fw) = fw_store (firmware_dispatch bo t m fw)" by auto
  with j show ?case by (intro exI[of _ "j + k"]) auto
qed simp

lemma interlock_polled:
  assumes "interlock_fresh bo fw" "length ms < 2 ^ 32"
  shows "interlock_fresh bo (refresh_if_consumed bo (FirmwareApp_pollTransport bo ms t fw))"
proof -
  obtain k where k: "k \<le> length ms" "fw_consumed (FirmwareApp_pollTransport bo ms t fw) = fw_consumed fw + of_nat k"
    "k = 0 \<longrightarrow> fw_store (FirmwareApp_pollTransport bo ms t fw) = fw_store fw" using poll_consumed by blast
  have "(of_nat k :: u32) = 0 \<longleftrightarrow> k = 0"
    using k(1) assms(2) unat_of_nat_small[of k, where 'a = 32] by (auto simp del: of_nat_unat ucast_id)
  with k assms(1) show ?thesis
    by (auto simp: interlock_fresh_def refresh_if_consumed_def FirmwareApp_refreshArmInterlock_def)
qed

lemma turn_interlock:
  assumes "interlock_fresh bo fw" "length (ev_messages ev) < 2 ^ 32" "fw_point (firmware_turn bo fw ev) \<noteq> Resetting"
  shows "interlock_fresh bo (firmware_turn bo fw ev)"
  using assms interlock_polled[OF assms(1,2)]
  by (auto simp: firmware_turn_def FirmwareApp_run_pass_def FirmwareApp_update_pass_def Let_def interlock_fresh_def
      split: loop_point.splits if_splits)

text \<open>A core that is not armed stays so on a frame whose arm switch is off.\<close>

lemma disarmed_stays:
  assumes "\<not> FlightCore_armed c" "\<not> rc_armSwitch (sf_rc f)"
  shows "\<not> FlightCore_armed (fst (FlightCore_step fe c f))"
proof (cases rule: step_cases[of f fe c])
  case NoImu
  then show ?thesis using assms
    by (auto simp: FlightCore_armed_def FlightCore_stepWithoutImu_def Let_def FlightCore_resetMission_def)
next
  case (Flown m)
  then show ?thesis using advance_disarmed[OF assms(2), of "estimated fe c f"]
    by (simp add: FlightCore_armed_def frame_simps advanced_def)
qed (use assms in \<open>simp_all add: FlightCore_armed_def frame_simps\<close>)

lemma poll_armed: "FlightCore_armed (fw_core (FirmwareApp_pollTransport bo ms t fw)) = FlightCore_armed (fw_core fw)"
  unfolding FirmwareApp_pollTransport_def by (induction ms arbitrary: fw) (simp_all add: dispatch_armed)

lemma turn_disarmed:
  assumes "interlock_fresh bo fw" "length (ev_messages ev) < 2 ^ 32" "\<not> FlightCore_armed (fw_core fw)"
    and "trial_unconfirmed (bo_store bo) (fw_store (firmware_turn bo fw ev))"
  shows "\<not> FlightCore_armed (fw_core (firmware_turn bo fw ev))"
proof -
  define fw1 where "fw1 = refresh_if_consumed bo (FirmwareApp_pollTransport bo (ev_messages ev) (sf_timestampUs (ev_frame ev)) fw)"
  have fresh: "interlock_fresh bo fw1" unfolding fw1_def by (rule interlock_polled[OF assms(1,2)])
  have "\<not> FlightCore_armed (fw_core fw1)" using assms(3) by (simp add: fw1_def poll_armed)
  moreover have "fw_armInhibited fw1 \<Longrightarrow> \<not> rc_armSwitch (sf_rc (stepped_frame fw1 f))" for f
    by (simp add: stepped_frame_def Let_def)
  ultimately have fly: "fw_armInhibited fw1 \<Longrightarrow> \<not> FlightCore_armed (fw_core (fly_frame bo busy f fw1))" for busy f
    using disarmed_stays by (simp add: fly_core)
  show ?thesis
    using assms(3,4) fresh fly
    by (cases "fw_point fw")
      (auto simp: firmware_turn_def FirmwareApp_run_pass_def FirmwareApp_update_pass_def Let_def poll_armed interlock_fresh_def fw1_def
        split: if_splits)
qed

text \<open>(C9) An image on trial does not fly. In every run of the flight process from power-on, as long as the metadata says
  after each turn that the running image is on trial and not confirmed, the core is not armed and no
  motor is commanded on, whatever the pilot asks.\<close>

theorem trial_image_never_arms:
  assumes "\<forall>k \<le> length evs. trial_unconfirmed (bo_store bo) (fw_store (firmware_run bo (FirmwareApp_init bo s w) (take k evs)))"
    and "\<forall>ev \<in> set evs. length (ev_messages ev) < 2 ^ 32"
  shows "case firmware_run bo (FirmwareApp_init bo s w) evs of fw \<Rightarrow>
    \<not> FlightCore_armed (fw_core fw) \<and> \<not> motors_on (af_motor (fw_actuators fw))"
proof -
  let ?init = "FirmwareApp_init bo s w"
  have "\<not> FlightCore_armed (fw_core (firmware_run bo ?init evs)) \<and>
      (fw_point (firmware_run bo ?init evs) \<noteq> Resetting \<longrightarrow> interlock_fresh bo (firmware_run bo ?init evs))"
    using assms
  proof (induction evs rule: rev_induct)
    case Nil
    show ?case by (simp add: FirmwareApp_init_def FirmwareApp_refreshArmInterlock_def TuningProvider_new_def FlightCore_armed_def
        FlightCore_init_def interlock_fresh_def)
  next
    case (snoc ev evs)
    let ?fw = "firmware_run bo ?init evs"
    have "trial_unconfirmed (bo_store bo) (fw_store (firmware_run bo ?init (take k evs)))" if "k \<le> length evs" for k
      using snoc.prems(1) that by (auto dest!: spec[of _ k])
    then have ih: "\<not> FlightCore_armed (fw_core ?fw)" "fw_point ?fw \<noteq> Resetting \<longrightarrow> interlock_fresh bo ?fw"
      using snoc.IH snoc.prems(2) by simp_all
    have t: "trial_unconfirmed (bo_store bo) (fw_store (firmware_turn bo ?fw ev))"
      using snoc.prems(1)[rule_format, of "Suc (length evs)"] by simp
    show ?case
    proof (cases "fw_point ?fw = Resetting")
      case True
      then show ?thesis using ih by (simp add: firmware_turn_def)
    next
      case False
      then show ?thesis
        using ih turn_disarmed[OF _ _ ih(1) t] turn_interlock[of bo ?fw ev] snoc.prems(2) by simp
    qed
  qed
  moreover have "core_lived bo (firmware_run bo ?init evs)" by (rule lived.inv_run[OF lived_init])
  ultimately show ?thesis using unarmed_motors[OF lived_motors] by (auto simp: core_lived_def)
qed


theorem trial_image_never_arms_witness:
  "\<not> FlightCore_armed (fw_core (firmware_run example_board (FirmwareApp_init example_board trial_meta ()) [heard_event 1000 True]))"
proof -
  let ?i = "FirmwareApp_init example_board trial_meta ()"
  have t: "trial_unconfirmed (bo_store example_board) trial_meta"
    by (simp add: trial_unconfirmed_def example_board_def meta_store_def trial_meta_def otaTrialUnconfirmed_def slot_defs)
  have "trial_unconfirmed (bo_store example_board) (fw_store (firmware_run example_board ?i (take k [heard_event 1000 True])))" for k
    using t by (cases k) (simp_all add: example_init example_turn(4)[OF example_init(1-3)])
  then show ?thesis using trial_image_never_arms[of "[heard_event 1000 True]" example_board trial_meta "()"]
    by (simp add: heard_event_def)
qed

end
