(* ===== verification/Transport_Report.thy ===== *)
theory Transport_Report
  imports Discovery Subscriber_Table
begin

text \<open>
  The transport of a node, reported to the others (\<^verbatim>\<open>components/transport/include/transport/provider.hpp\<close>,
  \<^verbatim>\<open>consumer.hpp\<close>). The provider sends every subscriber one report a second: the counters of its transport
  and messenger, its links, and its table of peers cut into pages. The consumer keeps one entry per node the
  directory identified, merges the pages of a report and tells its listeners when one is complete.

  The provider reads its own transport and messenger while it sends through them: \<open>node_view\<close> says where they
  are in the world, and what the two questions \<^verbatim>\<open>kind()\<close> and \<^verbatim>\<open>rxErrors()\<close> of a link answer. The page sizes
  are the bounds of \<^verbatim>\<open>TransportReport\<close> in \<^verbatim>\<open>protocol/mark4.options\<close>. \<open>N\<close> is the size of the storage of the
  composition.
\<close>


section \<open>Messages\<close>

record wire_link =
  wl_kind :: u32
  wl_frames_in :: u32
  wl_bytes_in :: u32
  wl_frames_out :: u32
  wl_bytes_out :: u32
  wl_refused :: u32
  wl_rx_errors :: u32

record wire_peer =
  wp_id :: u32
  wp_link :: u32
  wp_hops :: u32
  wp_received :: u32
  wp_lost :: u32
  wp_duplicates :: u32
  wp_age_ms :: u32
  wp_unicast_heard :: bool

record transport_counters =
  tr_sent :: u32
  tr_sent_bytes :: u32
  tr_refused :: u32
  tr_dropped :: u32
  tr_relayed :: u32
  tr_expired :: u32
  tr_restarted :: u32
  tr_undecodable :: u32
  tr_unhandled :: u32
  tr_requests :: u32
  tr_resent :: u32
  tr_completed :: u32
  tr_failed :: u32
  tr_unmatched_acks :: u32

record transport_report = transport_counters +
  tr_links :: "wire_link list"
  tr_peer_cursor :: u32
  tr_peer_total :: u32
  tr_peers :: "wire_peer list"

definition TransportReport_zero :: transport_report where
  "TransportReport_zero =
     \<lparr> tr_sent = 0, tr_sent_bytes = 0, tr_refused = 0, tr_dropped = 0, tr_relayed = 0, tr_expired = 0, tr_restarted = 0,
       tr_undecodable = 0, tr_unhandled = 0, tr_requests = 0, tr_resent = 0, tr_completed = 0, tr_failed = 0,
       tr_unmatched_acks = 0, tr_links = [], tr_peer_cursor = 0, tr_peer_total = 0, tr_peers = [] \<rparr>"

datatype report_body =
    TransportSubscribe bool
  | TransportSubscription bool
  | TransportReport transport_report


section \<open>The provider\<close>

definition REPORT_PERIOD_US :: u64 where "REPORT_PERIOD_US = 1000000"
definition REPORT_MAX_SUBSCRIBERS :: nat where "REPORT_MAX_SUBSCRIBERS = 2"
definition PEERS_PER_PAGE :: nat where "PEERS_PER_PAGE = 4"
definition MAX_WIRE_LINKS :: nat where "MAX_WIRE_LINKS = 4"
definition REPORT_US_PER_MS :: u64 where "REPORT_US_PER_MS = 1000"

record 'w node_view =
  nv_transport :: "'w \<Rightarrow> transport"
  nv_messenger :: "'w \<Rightarrow> messenger"
  nv_link_kind :: "'w \<Rightarrow> nat \<Rightarrow> link_kind"
  nv_rxErrors :: "'w \<Rightarrow> nat \<Rightarrow> u32"

record 'w transport_provider =
  rpv_subscribers :: subscriber_table
  rpv_lastReportUs :: u64
  rpv_reported :: bool
  rpv_pageCount :: u32
  rpv_world :: 'w

definition TransportProvider_new :: "'w \<Rightarrow> 'w transport_provider" where
  "TransportProvider_new w = \<lparr> rpv_subscribers = [], rpv_lastReportUs = 0, rpv_reported = False, rpv_pageCount = 0, rpv_world = w \<rparr>"

fun WireKind :: "link_kind \<Rightarrow> u32" where
  "WireKind LK_UART = 1"
| "WireKind LK_UDP = 2"

definition wire_link_of :: "link_kind \<Rightarrow> link_stats \<Rightarrow> u32 \<Rightarrow> wire_link" where
  "wire_link_of kind stats rxErrors =
     \<lparr> wl_kind = WireKind kind, wl_frames_in = ls_framesIn stats, wl_bytes_in = ls_bytesIn stats, wl_frames_out = ls_framesOut stats,
       wl_bytes_out = ls_bytesOut stats, wl_refused = ls_refused stats, wl_rx_errors = rxErrors \<rparr>"

definition wire_peer_of :: "u64 \<Rightarrow> node \<Rightarrow> wire_peer" where
  "wire_peer_of nowUs n =
     \<lparr> wp_id = n_id n, wp_link = of_nat (n_link n), wp_hops = ucast (n_hops n), wp_received = n_received n, wp_lost = n_lost n,
       wp_duplicates = n_duplicates n, wp_age_ms = ucast ((nowUs - min nowUs (n_lastSeenUs n)) div REPORT_US_PER_MS),
       wp_unicast_heard = n_unicastHeard n \<rparr>"

text \<open>The loop of \<^verbatim>\<open>fillPage\<close> over the table, with the room left in the page.\<close>

fun fill_peers :: "u64 \<Rightarrow> node list \<Rightarrow> nat \<Rightarrow> nat \<Rightarrow> wire_peer list" where
  "fill_peers nowUs ns i 0 = []"
| "fill_peers nowUs ns i (Suc room) =
     (if i < length ns then wire_peer_of nowUs (ns ! i) # fill_peers nowUs ns (i + 1) room else [])"

definition report_counters :: "transport \<Rightarrow> messenger \<Rightarrow> transport_report" where
  "report_counters t m = TransportReport_zero
     \<lparr> tr_sent := t_sent t, tr_sent_bytes := of_nat (t_sentBytes t), tr_refused := t_refused t, tr_dropped := t_dropped t,
       tr_relayed := t_relayed t, tr_expired := t_expired t, tr_restarted := t_restarted t, tr_undecodable := m_undecodable m,
       tr_unhandled := m_unhandled m, tr_requests := m_requests m, tr_resent := m_resent m, tr_completed := m_completed m,
       tr_failed := m_failed m, tr_unmatched_acks := m_unmatchedAcks m \<rparr>"

definition TransportProvider_fillPage :: "'w node_view \<Rightarrow> u32 \<Rightarrow> u64 \<Rightarrow> 'w \<Rightarrow> transport_report" where
  "TransportProvider_fillPage nv cursor nowUs w =
     (let t = nv_transport nv w; links = min (length (t_links t)) MAX_WIRE_LINKS in
      (report_counters t (nv_messenger nv w))
        \<lparr> tr_links := map (\<lambda>i. wire_link_of (nv_link_kind nv w i) (t_linkStats t ! i) (nv_rxErrors nv w i)) [0..<links],
          tr_peer_cursor := cursor, tr_peer_total := of_nat (length (t_nodes t)),
          tr_peers := fill_peers nowUs (take (unat (of_nat (length (t_nodes t)) :: u32)) (t_nodes t)) (unat cursor) PEERS_PER_PAGE \<rparr>)"

text \<open>One page to every subscriber, in the order of the table.\<close>

definition report_send :: "(report_body, 'w) port \<Rightarrow> transport_report \<Rightarrow> 'w transport_provider \<Rightarrow> 'w transport_provider" where
  "report_send pt page p =
     fold (\<lambda>s p. let (w, ok) = pt_send pt s (TransportReport page) (rpv_world p) in
             p\<lparr> rpv_world := w, rpv_pageCount := (if ok then rpv_pageCount p + 1 else rpv_pageCount p) \<rparr>) (rpv_subscribers p) p"

lemma length_fill: "length (fill_peers nowUs ns i room) = min room (length ns - i)"
  by (induction room arbitrary: i) auto

lemma page_peers_total:
  "length (tr_peers (TransportProvider_fillPage nv cursor nowUs w)) =
     min PEERS_PER_PAGE (unat (tr_peer_total (TransportProvider_fillPage nv cursor nowUs w)) - unat cursor)"
proof -
  have "unat (of_nat k :: u32) \<le> k" for k by (simp add: unat_of_nat)
  then show ?thesis by (simp add: TransportProvider_fillPage_def Let_def length_fill)
qed

lemma page_advances:
  fixes cursor total :: u32
  assumes "cursor + of_nat (min PEERS_PER_PAGE (unat total - unat cursor)) < total"
  shows "unat cursor < unat total"
    and "unat (cursor + of_nat (min PEERS_PER_PAGE (unat total - unat cursor))) = unat cursor + min PEERS_PER_PAGE (unat total - unat cursor)"
proof -
  show c: "unat cursor < unat total"
  proof (rule ccontr)
    assume "\<not> unat cursor < unat total"
    then show False using assms by (simp add: word_less_nat_alt)
  qed
  have "unat cursor + min PEERS_PER_PAGE (unat total - unat cursor) < 2 ^ 32" using c unat_bound [of total] by simp
  then show "unat (cursor + of_nat (min PEERS_PER_PAGE (unat total - unat cursor))) = unat cursor + min PEERS_PER_PAGE (unat total - unat cursor)"
    by (simp add: unat_word_ariths unat_of_nat min_def split: if_splits)
qed

text \<open>The page loop of \<^verbatim>\<open>tick\<close>.\<close>

function report_pages :: "(report_body, 'w) port \<Rightarrow> 'w node_view \<Rightarrow> u64 \<Rightarrow> u32 \<Rightarrow> 'w transport_provider \<Rightarrow> 'w transport_provider" where
  "report_pages pt nv nowUs cursor p =
     (let page = TransportProvider_fillPage nv cursor nowUs (rpv_world p);
          p = report_send pt page p;
          cursor = cursor + of_nat (length (tr_peers page)) in
      if cursor < tr_peer_total page then report_pages pt nv nowUs cursor p else p)"
  by auto
termination
proof (relation "measure (\<lambda>(pt, nv, nowUs, cursor, p). 2 ^ 32 - unat cursor)", goal_cases)
  case (2 pt nv nowUs cursor p page q cursor')
  let ?page = "TransportProvider_fillPage nv cursor nowUs (rpv_world p)"
  have l: "cursor + of_nat (min PEERS_PER_PAGE (unat (tr_peer_total ?page) - unat cursor)) < tr_peer_total ?page"
    using 2 page_peers_total [of nv cursor nowUs "rpv_world p"] by simp
  have "unat cursor' = unat cursor + min PEERS_PER_PAGE (unat (tr_peer_total ?page) - unat cursor)"
    using page_advances(2) [OF l] 2 page_peers_total [of nv cursor nowUs "rpv_world p"] by simp
  then have "unat cursor < unat cursor'" using page_advances(1) [OF l] by (simp add: PEERS_PER_PAGE_def)
  then show ?case using unat_bound [of cursor] unat_bound [of cursor'] by simp
qed simp

declare report_pages.simps [simp del]

definition TransportProvider_tick :: "(report_body, 'w) port \<Rightarrow> 'w node_view \<Rightarrow> u64 \<Rightarrow> 'w transport_provider \<Rightarrow> 'w transport_provider" where
  "TransportProvider_tick pt nv nowUs p =
     (if SubscriberTable_empty (rpv_subscribers p) then p
      else if rpv_reported p \<and> nowUs - rpv_lastReportUs p < REPORT_PERIOD_US then p
      else report_pages pt nv nowUs 0 (p\<lparr> rpv_lastReportUs := nowUs, rpv_reported := True \<rparr>))"

definition rpv_log :: "(report_body, 'w) port \<Rightarrow> log_level \<Rightarrow> string \<Rightarrow> 'w transport_provider \<Rightarrow> 'w transport_provider" where
  "rpv_log pt l t p = p\<lparr> rpv_world := pt_log pt l t (rpv_world p) \<rparr>"

fun TransportProvider_onMessage :: "(report_body, 'w) port \<Rightarrow> u32 \<Rightarrow> report_body \<Rightarrow> 'w transport_provider \<Rightarrow> 'w transport_provider \<times> bool" where
  "TransportProvider_onMessage pt src (TransportSubscribe enabled) p =
     (let (p, applied) =
        (if enabled then
           let (subs, ok) = SubscriberTable_add REPORT_MAX_SUBSCRIBERS src (rpv_subscribers p);
               p = p\<lparr> rpv_subscribers := subs \<rparr> in
           (if ok then p
            else rpv_log pt WARN (''no room for '' @ hex08 src @ '': '' @ to_string (SubscriberTable_size subs) @ '' subscribers already'') p, ok)
         else (p\<lparr> rpv_subscribers := fst (SubscriberTable_remove src (rpv_subscribers p)) \<rparr>, False)) in
      (p\<lparr> rpv_world := fst (pt_request pt RequestPolicy_default src (TransportSubscription applied) (rpv_world p)) \<rparr>, True))"
| "TransportProvider_onMessage pt src _ p = (p, False)"

definition TransportProvider_onNodeDown :: "(report_body, 'w) port \<Rightarrow> u32 \<Rightarrow> 'w transport_provider \<Rightarrow> 'w transport_provider" where
  "TransportProvider_onNodeDown pt nodeId p =
     (let (subs, removed) = SubscriberTable_remove nodeId (rpv_subscribers p);
          p = p\<lparr> rpv_subscribers := subs \<rparr> in
      if removed then rpv_log pt INFO (hex08 nodeId @ '' gone, '' @ to_string (SubscriberTable_size subs) @ '' subscriber(s) left'') p else p)"


section \<open>The consumer\<close>

definition REPORT_KINDS :: "u32 list" where
  "REPORT_KINDS = [NodeKind_FIRMWARE, NodeKind_DRONE_SIM, NodeKind_RELAY, NodeKind_GATEWAY]"
definition REPORT_MAX_LISTENERS :: nat where "REPORT_MAX_LISTENERS = 2"
definition MAX_PEERS :: nat where "MAX_PEERS = MAX_NODES"

text \<open>\<^verbatim>\<open>peers\<close> and \<^verbatim>\<open>staging\<close> are arrays with a count beside them: the lists of their counted prefixes.\<close>

record report_entry =
  re_id :: u32
  re_local :: bool
  re_subscribed :: bool
  re_subscribeRequest :: u32
  re_hasReport :: bool
  re_last :: transport_report
  re_peers :: "wire_peer list"
  re_receivedUs :: u64
  re_reports :: u32
  re_staging :: "wire_peer list"
  re_stagingValid :: bool

definition ReportEntry_init :: report_entry where
  "ReportEntry_init = \<lparr> re_id = 0, re_local = False, re_subscribed = False, re_subscribeRequest = 0, re_hasReport = False,
     re_last = TransportReport_zero, re_peers = [], re_receivedUs = 0, re_reports = 0, re_staging = [], re_stagingValid = False \<rparr>"

record 'w transport_consumer =
  rc_entries :: "report_entry list"
  rc_listeners :: "nat list"
  rc_listenersOverflow :: u32
  rc_wanted :: bool
  rc_world :: 'w

definition TransportConsumer_new :: "'w \<Rightarrow> 'w transport_consumer" where
  "TransportConsumer_new w = \<lparr> rc_entries = [], rc_listeners = [], rc_listenersOverflow = 0, rc_wanted = False, rc_world = w \<rparr>"

record 'w report_ground =
  rg_port :: "(report_body, 'w) port"
  rg_onReport :: "nat \<Rightarrow> u32 \<Rightarrow> report_entry \<Rightarrow> u64 \<Rightarrow> 'w \<Rightarrow> 'w"
  rg_onForgotten :: "nat \<Rightarrow> u32 \<Rightarrow> 'w \<Rightarrow> 'w"

definition rc_lookup :: "u32 \<Rightarrow> 'w transport_consumer \<Rightarrow> report_entry option" where
  "rc_lookup i c = entry_lookup re_id i (rc_entries c)"

definition rc_put :: "report_entry \<Rightarrow> 'w transport_consumer \<Rightarrow> 'w transport_consumer" where
  "rc_put e c = c\<lparr> rc_entries := entry_update re_id (re_id e) e (rc_entries c) \<rparr>"

definition rc_log :: "'w report_ground \<Rightarrow> string \<Rightarrow> 'w transport_consumer \<Rightarrow> 'w transport_consumer" where
  "rc_log g t c = c\<lparr> rc_world := pt_log (rg_port g) WARN t (rc_world c) \<rparr>"

definition rc_tell :: "(nat \<Rightarrow> 'w \<Rightarrow> 'w) \<Rightarrow> 'w transport_consumer \<Rightarrow> 'w transport_consumer" where
  "rc_tell f c = c\<lparr> rc_world := fold f (rc_listeners c) (rc_world c) \<rparr>"

text \<open>\<^verbatim>\<open>subscribe\<close>: the entry with the id of the request it waits for.\<close>

definition report_subscribe :: "'w report_ground \<Rightarrow> bool \<Rightarrow> report_entry \<Rightarrow> 'w \<Rightarrow> 'w \<times> report_entry" where
  "report_subscribe g enabled e w =
     (let (w, i) = pt_request (rg_port g) RequestPolicy_default (re_id e) (TransportSubscribe enabled) w
      in (w, e\<lparr> re_subscribeRequest := i \<rparr>))"

text \<open>The loop of \<^verbatim>\<open>setWanted\<close>.\<close>

fun want_entries :: "'w report_ground \<Rightarrow> bool \<Rightarrow> report_entry list \<Rightarrow> 'w \<Rightarrow> 'w \<times> report_entry list" where
  "want_entries g wanted [] w = (w, [])"
| "want_entries g wanted (e # es) w =
     (let (w, e) =
        (if re_local e then (w, e)
         else if wanted then report_subscribe g True e w
         else
           let (w, e) = (if re_subscribed e then report_subscribe g False e w else (w, e)) in
           (w, e\<lparr> re_hasReport := False, re_peers := [], re_staging := [], re_stagingValid := False \<rparr>));
          (w, es) = want_entries g wanted es w
      in (w, e # es))"

definition TransportConsumer_setWanted :: "'w report_ground \<Rightarrow> bool \<Rightarrow> 'w transport_consumer \<Rightarrow> 'w transport_consumer" where
  "TransportConsumer_setWanted g wanted c =
     (if rc_wanted c = wanted then c
      else let (w, es) = want_entries g wanted (rc_entries c) (rc_world c)
           in c\<lparr> rc_wanted := wanted, rc_entries := es, rc_world := w \<rparr>)"

definition TransportConsumer_openLocal :: "'w report_ground \<Rightarrow> nat \<Rightarrow> u32 \<Rightarrow> 'w transport_consumer \<Rightarrow> 'w transport_consumer \<times> bool" where
  "TransportConsumer_openLocal g N i c =
     (case rc_lookup i c of
        Some e \<Rightarrow> (rc_put (e\<lparr> re_local := True \<rparr>) c, True)
      | None \<Rightarrow>
          if length (rc_entries c) = N
          then (rc_log g (''no room for the local entry '' @ hex08 i @ '': '' @ to_string (length (rc_entries c)) @ '' node(s) already'') c, False)
          else (c\<lparr> rc_entries := rc_entries c @ [ReportEntry_init\<lparr> re_id := i, re_local := True \<rparr>] \<rparr>, True))"

text \<open>The copy loop of \<^verbatim>\<open>accept\<close> stops where the staging is full.\<close>

definition stage_peers :: "wire_peer list \<Rightarrow> wire_peer list \<Rightarrow> wire_peer list" where
  "stage_peers staging peers = staging @ take (MAX_PEERS - length staging) peers"

definition report_complete :: "transport_report \<Rightarrow> u64 \<Rightarrow> report_entry \<Rightarrow> report_entry" where
  "report_complete page nowUs e = e\<lparr> re_last := page\<lparr> tr_peers := [] \<rparr>, re_peers := re_staging e, re_hasReport := True,
     re_receivedUs := nowUs, re_reports := re_reports e + 1, re_stagingValid := False \<rparr>"

text \<open>What a page does to its entry, and whether it completes the report.\<close>

definition accept_page :: "transport_report \<Rightarrow> u64 \<Rightarrow> report_entry \<Rightarrow> report_entry \<times> bool" where
  "accept_page page nowUs e =
     (let taken =
        (if tr_peer_cursor page = 0 then Some (e\<lparr> re_staging := [], re_stagingValid := True \<rparr>)
         else if \<not> re_stagingValid e \<or> tr_peer_cursor page \<noteq> of_nat (length (re_staging e)) then None
         else Some e) in
      case taken of
        None \<Rightarrow> (e\<lparr> re_stagingValid := False \<rparr>, False)
      | Some e \<Rightarrow>
          let e = e\<lparr> re_staging := stage_peers (re_staging e) (tr_peers page) \<rparr> in
          if tr_peer_cursor page + of_nat (length (tr_peers page)) < tr_peer_total page then (e, False)
          else (report_complete page nowUs e, True))"

definition TransportConsumer_accept :: "'w report_ground \<Rightarrow> u32 \<Rightarrow> transport_report \<Rightarrow> u64 \<Rightarrow> 'w transport_consumer \<Rightarrow> 'w transport_consumer" where
  "TransportConsumer_accept g nodeId page nowUs c =
     (case rc_lookup nodeId c of
        None \<Rightarrow> c
      | Some e \<Rightarrow>
          let (e, complete) = accept_page page nowUs e; c = rc_put e c in
          if complete then rc_tell (\<lambda>l. rg_onReport g l nodeId e nowUs) c else c)"

definition report_open :: "'w report_ground \<Rightarrow> nat \<Rightarrow> u32 \<Rightarrow> 'w transport_consumer \<Rightarrow> 'w transport_consumer" where
  "report_open g N i c =
     (if rc_lookup i c \<noteq> None then c
      else if length (rc_entries c) = N
      then rc_log g (''no room for '' @ hex08 i @ '': '' @ to_string (length (rc_entries c)) @ '' node(s) already'') c
      else
        let e = ReportEntry_init\<lparr> re_id := i \<rparr>;
            (w, e) = (if rc_wanted c then report_subscribe g True e (rc_world c) else (rc_world c, e))
        in c\<lparr> rc_entries := rc_entries c @ [e], rc_world := w \<rparr>)"

definition TransportConsumer_onIdentity :: "'w report_ground \<Rightarrow> nat \<Rightarrow> directory_entry \<Rightarrow> 'w transport_consumer \<Rightarrow> 'w transport_consumer" where
  "TransportConsumer_onIdentity g N d c =
     (if de_wireMismatch d then c
      else if an_kind (de_announce d) \<in> set REPORT_KINDS then report_open g N (de_id d) c else c)"

text \<open>The directory forgot a node: presence does the work, through \<^verbatim>\<open>onNodeDown\<close>.\<close>

definition TransportConsumer_onForgotten :: "u32 \<Rightarrow> 'w transport_consumer \<Rightarrow> 'w transport_consumer" where
  "TransportConsumer_onForgotten nodeId c = c"

definition TransportConsumer_onMessage :: "'w report_ground \<Rightarrow> u32 \<Rightarrow> report_body \<Rightarrow> u64 \<Rightarrow> 'w transport_consumer \<Rightarrow> 'w transport_consumer \<times> bool" where
  "TransportConsumer_onMessage g src b nowUs c =
     (case rc_lookup src c of
        None \<Rightarrow> (c, False)
      | Some e \<Rightarrow>
          (case b of
             TransportSubscription enabled \<Rightarrow> (rc_put (e\<lparr> re_subscribed := enabled, re_subscribeRequest := 0 \<rparr>) c, True)
           | TransportReport page \<Rightarrow> (TransportConsumer_accept g src page nowUs c, True)
           | TransportSubscribe _ \<Rightarrow> (c, False)))"

definition TransportConsumer_onNodeDown :: "'w report_ground \<Rightarrow> u32 \<Rightarrow> 'w transport_consumer \<Rightarrow> 'w transport_consumer" where
  "TransportConsumer_onNodeDown g nodeId c =
     (if rc_lookup nodeId c = None then c
      else rc_tell (\<lambda>l. rg_onForgotten g l nodeId) (c\<lparr> rc_entries := entry_remove re_id nodeId (rc_entries c) \<rparr>))"

definition TransportConsumer_onRequestFailed :: "'w report_ground \<Rightarrow> u32 \<Rightarrow> u32 \<Rightarrow> 'w transport_consumer \<Rightarrow> 'w transport_consumer" where
  "TransportConsumer_onRequestFailed g dst requestId c =
     (case rc_lookup dst c of
        None \<Rightarrow> c
      | Some e \<Rightarrow>
          if re_subscribeRequest e \<noteq> requestId then c
          else rc_log g (hex08 dst @ '' never took the transport subscribe'') (rc_put (e\<lparr> re_subscribeRequest := 0 \<rparr>) c))"

definition TransportConsumer_attach :: "nat \<Rightarrow> 'w transport_consumer \<Rightarrow> 'w transport_consumer" where
  "TransportConsumer_attach l c =
     (let (ls, n) = listener_attach REPORT_MAX_LISTENERS l (rc_listeners c, rc_listenersOverflow c) in c\<lparr> rc_listeners := ls, rc_listenersOverflow := n \<rparr>)"

definition TransportConsumer_detach :: "nat \<Rightarrow> 'w transport_consumer \<Rightarrow> 'w transport_consumer" where
  "TransportConsumer_detach l c =
     (let (ls, n) = listener_detach l (rc_listeners c, rc_listenersOverflow c) in c\<lparr> rc_listeners := ls, rc_listenersOverflow := n \<rparr>)"

definition TransportConsumer_ready :: "'w transport_consumer \<Rightarrow> bool" where
  "TransportConsumer_ready c \<longleftrightarrow> rc_listenersOverflow c = 0"

end
