(* ===== verification/Report_Whole.thy ===== *)
theory Report_Whole
  imports Transport_Report "HOL-Library.Sublist"
begin

text \<open>
  What the transport reports promise: a report that is complete on the ground is one report of the node, its
  whole table of peers, however the pages of the reports before and after were lost, as long as the first
  page of each arrives. The last section shows why that condition is there, and the stream a consumer cannot
  get rid of.

  The provider reads the table while it sends, page after page. The locale \<open>reporting_node\<close> states what it
  relies on for its pages to be pages of one table; it is interpreted on the transport and the messenger of
  the node.
\<close>


section \<open>The pages of a table\<close>

definition wire_table :: "u64 \<Rightarrow> transport \<Rightarrow> wire_peer list" where
  "wire_table nowUs t = map (wire_peer_of nowUs) (t_nodes t)"

definition page_of :: "wire_peer list \<Rightarrow> nat \<Rightarrow> transport_report \<Rightarrow> bool" where
  "page_of table c page \<longleftrightarrow> tr_peer_cursor page = of_nat c \<and> tr_peer_total page = of_nat (length table) \<and>
     tr_peers page = take PEERS_PER_PAGE (drop c table)"

text \<open>The pages of one report from a cursor on.\<close>

fun pages_from :: "wire_peer list \<Rightarrow> nat \<Rightarrow> transport_report list \<Rightarrow> bool" where
  "pages_from table c [] = False"
| "pages_from table c (page # pages) = (page_of table c page \<and>
     (if c + PEERS_PER_PAGE < length table then pages_from table (c + PEERS_PER_PAGE) pages else pages = []))"

lemma fill_peers_table: "fill_peers nowUs ns i room = take room (drop i (map (wire_peer_of nowUs) ns))"
proof (induction room arbitrary: i)
  case (Suc room)
  then show ?case by (cases "i < length ns") (simp_all add: Cons_nth_drop_Suc [symmetric] drop_map)
qed simp

lemma fillPage_page:
  assumes "length (t_nodes (nv_transport nv w)) < 2 ^ 32"
  shows "page_of (wire_table nowUs (nv_transport nv w)) (unat cursor) (TransportProvider_fillPage nv cursor nowUs w)"
  using assms by (simp add: page_of_def TransportProvider_fillPage_def Let_def wire_table_def fill_peers_table unat_of_nat_small)

lemma wire_peer_rx_view: "wire_peer_of nowUs (rx_view n) = wire_peer_of nowUs n"
  by (simp add: wire_peer_of_def)

lemma wire_table_tx_only: "tx_only t u \<Longrightarrow> wire_table nowUs u = wire_table nowUs t"
proof -
  assume "tx_only t u"
  then have "map (wire_peer_of nowUs) (map rx_view (t_nodes u)) = map (wire_peer_of nowUs) (map rx_view (t_nodes t))"
    by (simp add: tx_only_def)
  then show ?thesis by (simp add: wire_table_def comp_def wire_peer_rx_view)
qed


section \<open>A node that reports\<close>

locale reporting_node =
  fixes pt :: "(report_body, 'w) port" and nv :: "'w node_view" and ok :: "'w \<Rightarrow> bool" and out :: "'w \<Rightarrow> (u32 \<times> report_body) list"
  assumes few: "ok w \<Longrightarrow> length (t_nodes (nv_transport nv w)) \<le> MAX_NODES"
    and send_ok: "ok w \<Longrightarrow> ok (fst (pt_send pt dst b w))"
    and send_table: "ok w \<Longrightarrow> wire_table nowUs (nv_transport nv (fst (pt_send pt dst b w))) = wire_table nowUs (nv_transport nv w)"
    and send_out: "out (fst (pt_send pt dst b w)) = out w @ [(dst, b)]"
begin

lemma send_page:
  assumes "ok (rpv_world p)"
  shows "ok (rpv_world (report_send pt page p)) \<and>
    wire_table nowUs (nv_transport nv (rpv_world (report_send pt page p))) = wire_table nowUs (nv_transport nv (rpv_world p)) \<and>
    out (rpv_world (report_send pt page p)) = out (rpv_world p) @ map (\<lambda>s. (s, TransportReport page)) (rpv_subscribers p) \<and>
    rpv_subscribers (report_send pt page p) = rpv_subscribers p"
proof -
  let ?f = "\<lambda>s p. let (w, ok) = pt_send pt s (TransportReport page) (rpv_world p) in
             p\<lparr> rpv_world := w, rpv_pageCount := (if ok then rpv_pageCount p + 1 else rpv_pageCount p) \<rparr>"
  have "ok (rpv_world q) \<Longrightarrow> ok (rpv_world (fold ?f ss q)) \<and>
      wire_table nowUs (nv_transport nv (rpv_world (fold ?f ss q))) = wire_table nowUs (nv_transport nv (rpv_world q)) \<and>
      out (rpv_world (fold ?f ss q)) = out (rpv_world q) @ map (\<lambda>s. (s, TransportReport page)) ss \<and>
      rpv_subscribers (fold ?f ss q) = rpv_subscribers q" for ss and q :: "'w transport_provider"
  proof (induction ss arbitrary: q)
    case (Cons s ss)
    show ?case using Cons.IH [of "?f s q"] send_ok [OF Cons.prems] send_table [OF Cons.prems] send_out by (simp add: Let_def split_beta)
  qed simp
  then show ?thesis using assms by (simp add: report_send_def)
qed

lemma pages_sent:
  "ok (rpv_world p) \<Longrightarrow> wire_table nowUs (nv_transport nv (rpv_world p)) = table \<Longrightarrow>
   \<exists>pages. pages_from table (unat cursor) pages \<and>
     out (rpv_world (report_pages pt nv nowUs cursor p)) =
       out (rpv_world p) @ concat (map (\<lambda>pg. map (\<lambda>s. (s, TransportReport pg)) (rpv_subscribers p)) pages)"
proof (induction "length table - unat cursor" arbitrary: cursor p rule: less_induct)
  case less
  let ?page = "TransportProvider_fillPage nv cursor nowUs (rpv_world p)"
  let ?p = "report_send pt ?page p" and ?c = "cursor + of_nat (length (tr_peers (TransportProvider_fillPage nv cursor nowUs (rpv_world p))))"
  have n: "length table \<le> MAX_NODES" using few [OF less.prems(1)] less.prems(2) by (auto simp: wire_table_def)
  then have "length (t_nodes (nv_transport nv (rpv_world p))) < 2 ^ 32" using less.prems(2) by (auto simp: wire_table_def MAX_NODES_def)
  then have page: "page_of table (unat cursor) ?page" using fillPage_page [of nv "rpv_world p" nowUs cursor] less.prems(2) by simp
  note s = send_page [OF less.prems(1), of ?page]
  have total: "unat (tr_peer_total ?page) = length table" using page n by (simp add: page_of_def unat_of_nat_small MAX_NODES_def)
  have l: "length (tr_peers ?page) = min PEERS_PER_PAGE (length table - unat cursor)" using page by (simp add: page_of_def)
  show ?case
  proof (cases "unat cursor + PEERS_PER_PAGE < length table")
    case True
    then have c: "unat ?c = unat cursor + PEERS_PER_PAGE"
      using l n by (simp add: PEERS_PER_PAGE_def MAX_NODES_def unat_word_ariths)
    then have more: "?c < tr_peer_total ?page" using True total by (simp add: word_less_nat_alt)
    have d: "length table - unat ?c < length table - unat cursor" using c True by (simp add: PEERS_PER_PAGE_def)
    obtain pages where pages: "pages_from table (unat ?c) pages"
      "out (rpv_world (report_pages pt nv nowUs ?c ?p)) =
        out (rpv_world ?p) @ concat (map (\<lambda>pg. map (\<lambda>s. (s, TransportReport pg)) (rpv_subscribers ?p)) pages)"
      using less.hyps [OF d, of ?p] s [THEN conjunct1] s [THEN conjunct2, THEN conjunct1] less.prems by auto
    have "pages_from table (unat cursor) (?page # pages)" using page pages(1) c True by simp
    then show ?thesis
      using pages(2) s more by (intro exI [of _ "?page # pages"]) (simp add: report_pages.simps [of pt nv nowUs cursor] Let_def)
  next
    case False
    have "\<not> ?c < tr_peer_total ?page"
    proof
      assume lt: "?c < tr_peer_total ?page"
      have "?c = cursor + of_nat (min PEERS_PER_PAGE (unat (tr_peer_total ?page) - unat cursor))" using l total by simp
      then show False using page_advances [of cursor "tr_peer_total ?page"] lt total False by (simp add: word_less_nat_alt)
    qed
    moreover have "pages_from table (unat cursor) [?page]" using page False by simp
    ultimately show ?thesis
      using s False by (intro exI [of _ "[?page]"]) (simp add: report_pages.simps [of pt nv nowUs cursor] Let_def)
  qed
qed

lemma tick_report:
  assumes "ok (rpv_world p)" "rpv_subscribers p \<noteq> []" "rpv_reported p \<Longrightarrow> REPORT_PERIOD_US \<le> nowUs - rpv_lastReportUs p"
  shows "\<exists>pages. pages_from (wire_table nowUs (nv_transport nv (rpv_world p))) 0 pages \<and>
     out (rpv_world (TransportProvider_tick pt nv nowUs p)) =
       out (rpv_world p) @ concat (map (\<lambda>pg. map (\<lambda>s. (s, TransportReport pg)) (rpv_subscribers p)) pages)"
  using assms pages_sent [of "p\<lparr> rpv_lastReportUs := nowUs, rpv_reported := True \<rparr>" nowUs _ 0]
  by (auto simp: TransportProvider_tick_def SubscriberTable_empty_def not_less [symmetric])

end


section \<open>The node over its own transport and messenger\<close>

text \<open>The port of a provider attached to the messenger of its node, with what was handed to it recorded in the
  application's part of the world.\<close>

definition report_port :: "'b codec \<Rightarrow> (report_body \<Rightarrow> 'b envelope) \<Rightarrow> nat \<Rightarrow> (report_body, (u32 \<times> report_body) list world) port" where
  "report_port codec enc owner =
     \<lparr> pt_send = (\<lambda>dst b w. let (w, ok) = Messenger_send codec dst (enc b) w in ((fst w, msgr w, app w @ [(dst, b)]), ok)),
       pt_request = (\<lambda>policy dst b w. let (w, i) = Messenger_request codec dst (enc b) owner policy w in ((fst w, msgr w, app w @ [(dst, b)]), i)),
       pt_log = (\<lambda>l t w. w) \<rparr>"

definition report_view :: "(nat \<Rightarrow> link_kind) \<Rightarrow> (nat \<Rightarrow> u32) \<Rightarrow> 'a world node_view" where
  "report_view kind rxErrors = \<lparr> nv_transport = fst, nv_messenger = msgr, nv_link_kind = (\<lambda>w. kind), nv_rxErrors = (\<lambda>w. rxErrors) \<rparr>"

lemma send_app: "app (fst (Messenger_send codec dst e w)) = app w"
  by (auto simp: Messenger_send_def Let_def split_beta split: option.splits)

interpretation node: reporting_node "report_port codec enc owner" "report_view kind rxErrors" "\<lambda>w. transport_inv (fst w)" app
  for codec enc owner kind rxErrors
proof unfold_locales
  fix w :: "(u32 \<times> report_body) list world" and dst b nowUs
  have t: "tx_only (fst w) (fst (fst (Messenger_send codec dst (enc b) w)))" by (rule sends_tx_only [OF send_sends])
  show "transport_inv (fst w) \<Longrightarrow> length (t_nodes (nv_transport (report_view kind rxErrors) w)) \<le> MAX_NODES"
    by (simp add: transport_inv_def report_view_def)
  show "transport_inv (fst w) \<Longrightarrow> transport_inv (fst (fst (pt_send (report_port codec enc owner) dst b w)))"
    using tx_only_inv [OF t] by (simp add: report_port_def split_beta)
  show "transport_inv (fst w) \<Longrightarrow> wire_table nowUs (nv_transport (report_view kind rxErrors) (fst (pt_send (report_port codec enc owner) dst b w))) =
      wire_table nowUs (nv_transport (report_view kind rxErrors) w)"
    using wire_table_tx_only [OF t] by (simp add: report_port_def report_view_def split_beta)
  show "app (fst (pt_send (report_port codec enc owner) dst b w)) = app w @ [(dst, b)]"
    by (simp add: report_port_def split_beta send_app)
qed


section \<open>What the ground makes of the pages\<close>

text \<open>The report an entry holds.\<close>

definition held :: "report_entry \<Rightarrow> bool \<times> transport_report \<times> wire_peer list \<times> u64 \<times> u32" where
  "held e = (re_hasReport e, re_last e, re_peers e, re_receivedUs e, re_reports e)"

definition feed :: "(u64 \<times> transport_report) list \<Rightarrow> report_entry \<Rightarrow> report_entry" where
  "feed = fold (\<lambda>(nowUs, page) e. fst (accept_page page nowUs e))"

lemma feed_simps [simp]: "feed [] e = e" "feed (d # ds) e = feed ds (fst (accept_page (snd d) (fst d) e))" "feed (ds @ ds') e = feed ds' (feed ds e)"
  by (simp_all add: feed_def split_beta)

text \<open>Pages that do not continue what is staged leave what is held.\<close>

lemma stray_page:
  assumes "tr_peer_cursor page \<noteq> 0" "\<not> re_stagingValid e \<or> tr_peer_cursor page \<noteq> of_nat (length (re_staging e))"
  shows "held (fst (accept_page page nowUs e)) = held e" "\<not> re_stagingValid (fst (accept_page page nowUs e))"
  using assms by (simp_all add: accept_page_def held_def)

lemma stray_pages:
  "\<forall>d \<in> set ds. tr_peer_cursor (snd d) \<noteq> 0 \<Longrightarrow> \<not> re_stagingValid e \<Longrightarrow> held (feed ds e) = held e"
proof (induction ds arbitrary: e)
  case (Cons d ds)
  then show ?case using stray_page [of "snd d" e "fst d"] by simp
qed simp

lemma pages_cursors: "pages_from table c pages \<Longrightarrow> page \<in> set pages \<Longrightarrow> \<exists>k. tr_peer_cursor page = of_nat k \<and> c \<le> k \<and> (k = c \<or> k < length table)"
proof (induction table c pages rule: pages_from.induct)
  case (2 table c p ps)
  show ?case
  proof (cases "page = p")
    case True
    then show ?thesis using "2.prems" by (auto simp: page_of_def)
  next
    case False
    then have m: "c + PEERS_PER_PAGE < length table" "pages_from table (c + PEERS_PER_PAGE) ps" "page \<in> set ps"
      using "2.prems" by (auto split: if_splits)
    obtain k where "tr_peer_cursor page = of_nat k" "c + PEERS_PER_PAGE \<le> k" "k = c + PEERS_PER_PAGE \<or> k < length table"
      using "2.IH" m by blast
    then show ?thesis using m(1) by (intro exI [of _ k]) auto
  qed
qed simp

text \<open>One page that continues what is staged.\<close>

lemma next_page:
  assumes "page_of table c page" "length table \<le> MAX_PEERS" "c < length table \<or> c = 0"
    and "c = 0 \<or> re_stagingValid e \<and> re_staging e = take c table"
  shows "if c + PEERS_PER_PAGE < length table
         then held (fst (accept_page page nowUs e)) = held e \<and> re_stagingValid (fst (accept_page page nowUs e)) \<and>
           re_staging (fst (accept_page page nowUs e)) = take (c + PEERS_PER_PAGE) table \<and> \<not> snd (accept_page page nowUs e)
         else held (fst (accept_page page nowUs e)) = (True, page\<lparr> tr_peers := [] \<rparr>, table, nowUs, re_reports e + 1) \<and>
           snd (accept_page page nowUs e)"
proof -
  have n: "length table < 2 ^ 32" using assms(2) by (simp add: MAX_PEERS_def MAX_NODES_def)
  have z: "(of_nat c :: u32) = 0 \<longleftrightarrow> c = 0"
  proof -
    have "unat (of_nat c :: u32) = c" using assms(3) n by (intro unat_of_nat_small) auto
    then show ?thesis unfolding unat_0_iff [symmetric] by (simp only:)
  qed
  let ?m = "min PEERS_PER_PAGE (length table - c)"
  have l: "length (tr_peers page) = ?m" using assms(1) by (simp add: page_of_def)
  have e: "stage_peers (take c table) (tr_peers page) = take (c + PEERS_PER_PAGE) table"
  proof -
    have "take (MAX_PEERS - length (take c table)) (tr_peers page) = tr_peers page"
      using assms(2,3) l by auto
    then show ?thesis using assms(1) by (simp only: stage_peers_def page_of_def take_add)
  qed
  have s: "tr_peer_cursor page + of_nat (length (tr_peers page)) < tr_peer_total page \<longleftrightarrow> c + PEERS_PER_PAGE < length table"
  proof -
    have "c + ?m < 2 ^ 32" using assms(3) n by (auto simp: min_def)
    then have "unat (of_nat (c + ?m) :: u32) = c + ?m" by (intro unat_of_nat_small) simp
    moreover have "tr_peer_cursor page + of_nat (length (tr_peers page)) = of_nat (c + ?m)"
      unfolding l of_nat_add using assms(1) by (simp add: page_of_def)
    moreover have "unat (tr_peer_total page) = length table" using assms(1) n by (simp add: page_of_def unat_of_nat_small)
    ultimately have "tr_peer_cursor page + of_nat (length (tr_peers page)) < tr_peer_total page \<longleftrightarrow> c + ?m < length table"
      by (simp only: word_less_nat_alt)
    moreover have "c + ?m < length table \<longleftrightarrow> c + PEERS_PER_PAGE < length table" by auto
    ultimately show ?thesis by (simp only:)
  qed
  have c: "tr_peer_cursor page = of_nat c" using assms(1) by (simp add: page_of_def)
  define f where "f = (if c = 0 then e\<lparr> re_staging := [], re_stagingValid := True \<rparr> else e)"
  have f: "re_stagingValid f" "re_staging f = take c table" "held f = held e" "re_reports f = re_reports e"
    using assms(4) by (auto simp: f_def held_def)
  let ?g = "f\<lparr> re_staging := take (c + PEERS_PER_PAGE) table \<rparr>"
  have a: "accept_page page nowUs e =
      (if tr_peer_cursor page + of_nat (length (tr_peers page)) < tr_peer_total page then (?g, False) else (report_complete page nowUs ?g, True))"
  proof (cases "c = 0")
    case True
    then show ?thesis using c e by (simp add: accept_page_def f_def)
  next
    case False
    have k: "length (re_staging e) = c" "re_stagingValid e" "re_staging e = take c table" using assms(3,4) False by auto
    have "f = e" using False by (simp add: f_def)
    then show ?thesis using c z False k e by (simp add: accept_page_def)
  qed
  show ?thesis unfolding a using f s by (simp add: held_def report_complete_def)
qed

text \<open>What is held once a report came whole, the last page at the last instant.\<close>

definition held_whole :: "wire_peer list \<Rightarrow> (u64 \<times> transport_report) list \<Rightarrow> u32 \<Rightarrow> bool \<times> transport_report \<times> wire_peer list \<times> u64 \<times> u32" where
  "held_whole table ds n = (True, (snd (last ds))\<lparr> tr_peers := [] \<rparr>, table, fst (last ds), n + 1)"

text \<open>The rest of a report, of which some pages are lost.\<close>

lemma rest_of_report:
  assumes "pages_from table c pages" "subseq (map snd ds) pages" "length table \<le> MAX_PEERS" "0 < c" "c < length table"
    and "re_stagingValid e" "re_staging e = take c table"
  shows "held (feed ds e) = (if map snd ds = pages then held_whole table ds (re_reports e) else held e)"
  using assms
proof (induction pages arbitrary: c ds e)
  case (Cons page pages)
  have n: "length table < 2 ^ 32" using Cons.prems(3) by (simp add: MAX_PEERS_def MAX_NODES_def)
  have pg: "page_of table c page" using Cons.prems(1) by simp
  have valid: "c = 0 \<or> re_stagingValid e \<and> re_staging e = take c table" using Cons.prems(6,7) by simp
  note step = next_page [OF pg Cons.prems(3) disjI1 [OF Cons.prems(5)] valid]
  consider (got) t ds' where "ds = (t, page) # ds'" "subseq (map snd ds') pages" | (lost) "subseq (map snd ds) pages" "map snd ds \<noteq> page # pages"
    using Cons.prems(2) by (cases ds) (auto simp: subseq_Cons2_iff split: if_splits dest: subseq_Cons')
  then show ?case
  proof cases
    case got
    show ?thesis
    proof (cases "c + PEERS_PER_PAGE < length table")
      case True
      have s: "held (fst (accept_page page t e)) = held e" "re_stagingValid (fst (accept_page page t e))"
        "re_staging (fst (accept_page page t e)) = take (c + PEERS_PER_PAGE) table"
        using step [of t] True by simp_all
      have r: "re_reports (fst (accept_page page t e)) = re_reports e" using s(1) by (simp add: held_def)
      have pf: "pages_from table (c + PEERS_PER_PAGE) pages" using Cons.prems(1) True by simp
      then have "pages \<noteq> []" by auto
      then show ?thesis using Cons.IH [OF pf got(2) Cons.prems(3) _ True s(2,3)] got(1) s(1) r by (auto simp: PEERS_PER_PAGE_def held_whole_def)
    next
      case False
      then have "pages = []" using Cons.prems(1) by simp
      then show ?thesis using step [of t] False got list_emb_Nil2 [of "(=)" "map snd ds'"] by (simp add: held_whole_def)
    qed
  next
    case lost
    show ?thesis
    proof (cases ds)
      case (Cons d ds')
      have later: "tr_peer_cursor x \<noteq> 0 \<and> tr_peer_cursor x \<noteq> of_nat c" if x: "x \<in> set pages" for x
      proof -
        have more: "c + PEERS_PER_PAGE < length table" "pages_from table (c + PEERS_PER_PAGE) pages" using Cons.prems(1) x by (auto split: if_splits)
        obtain k where k: "tr_peer_cursor x = of_nat k" "c + PEERS_PER_PAGE \<le> k" "k = c + PEERS_PER_PAGE \<or> k < length table"
          using pages_cursors [OF more(2) x] by blast
        then have "unat (tr_peer_cursor x) = k" "c < k" using more(1) n by (auto intro!: unat_of_nat_small simp: PEERS_PER_PAGE_def)
        moreover have "unat (of_nat c :: u32) = c" using Cons.prems(5) n by (intro unat_of_nat_small) simp
        ultimately show ?thesis by force
      qed
      have sub: "snd ` set ds \<subseteq> set pages"
      proof
        fix x assume "x \<in> snd ` set ds"
        then have "x \<in> set (map snd ds)" by simp
        then obtain y where "y \<in> set pages" "x = y" using list_emb_set [OF lost(1)] by blast
        then show "x \<in> set pages" by simp
      qed
      then have "held (fst (accept_page (snd d) (fst d) e)) = held e" "\<not> re_stagingValid (fst (accept_page (snd d) (fst d) e))"
        using stray_page [of "snd d" e "fst d"] later [of "snd d"] Cons.prems(5,7) Cons by auto
      then show ?thesis using stray_pages [of ds' "fst (accept_page (snd d) (fst d) e)"] later sub lost(2) Cons by auto
    qed simp
  qed
qed simp

text \<open>One report whose first page arrives.\<close>

lemma one_report:
  assumes "pages_from table 0 pages" "length table \<le> MAX_PEERS" "subseq (map snd ds) (tl pages)"
  shows "held (feed ((t, hd pages) # ds) e) = (if hd pages # map snd ds = pages then held_whole table ((t, hd pages) # ds) (re_reports e) else held e)"
proof -
  obtain page rest where p: "pages = page # rest" using assms(1) by (cases pages) auto
  have pg: "page_of table 0 page" using assms(1) p by simp
  note step = next_page [OF pg assms(2), of e t]
  show ?thesis
  proof (cases "PEERS_PER_PAGE < length table")
    case True
    then have s: "held (fst (accept_page page t e)) = held e" "re_stagingValid (fst (accept_page page t e))"
      "re_staging (fst (accept_page page t e)) = take PEERS_PER_PAGE table"
      using step by simp_all
    have r: "re_reports (fst (accept_page page t e)) = re_reports e" using s(1) by (simp add: held_def)
    have pf: "pages_from table PEERS_PER_PAGE rest" using assms(1) p True by simp
    then have "rest \<noteq> []" by auto
    then show ?thesis
      using rest_of_report [OF pf _ assms(2) _ True s(2,3), of ds] assms(3) p s(1) r by (auto simp: PEERS_PER_PAGE_def held_whole_def)
  next
    case False
    then have "rest = []" using assms(1) p by simp
    then show ?thesis using step False p assms(3) list_emb_Nil2 [of "(=)" "map snd ds"] by (simp add: held_whole_def)
  qed
qed


section \<open>The messages of many nodes\<close>

text \<open>An entry without what its subscription keeps: the pages read and write nothing else.\<close>

definition unsubscribed :: "report_entry \<Rightarrow> report_entry" where
  "unsubscribed e = e\<lparr> re_subscribed := False, re_subscribeRequest := 0 \<rparr>"

lemma accept_unsubscribed: "unsubscribed (fst (accept_page page t e)) = fst (accept_page page t (unsubscribed e))"
  by (simp add: accept_page_def unsubscribed_def report_complete_def Let_def)

lemma feed_unsubscribed: "unsubscribed (feed ds e) = feed ds (unsubscribed e)"
  by (induction ds arbitrary: e) (simp_all add: accept_unsubscribed)

lemma held_unsubscribed: "held (unsubscribed e) = held e"
  by (simp add: held_def unsubscribed_def)

lemma accept_id [simp]: "re_id (fst (accept_page page t e)) = re_id e"
  by (simp add: accept_page_def report_complete_def Let_def)

fun report_arrives :: "'w report_ground \<Rightarrow> u32 \<times> u64 \<times> report_body \<Rightarrow> 'w transport_consumer \<Rightarrow> 'w transport_consumer" where
  "report_arrives g (src, t, b) c = fst (TransportConsumer_onMessage g src b t c)"

fun pages_heard :: "u32 \<Rightarrow> (u32 \<times> u64 \<times> report_body) list \<Rightarrow> (u64 \<times> transport_report) list" where
  "pages_heard n [] = []"
| "pages_heard n ((src, t, TransportReport page) # ms) = (if src = n then (t, page) # pages_heard n ms else pages_heard n ms)"
| "pages_heard n (m # ms) = pages_heard n ms"

lemma rc_lookup_put: "rc_lookup m c = Some f \<Longrightarrow> re_id e = m \<Longrightarrow> rc_lookup n (rc_put e c) = (if n = m then Some e else rc_lookup n c)"
proof -
  assume m: "rc_lookup m c = Some f" and e: "re_id e = m"
  have "m \<in> ids_of re_id (rc_entries c)" using entry_Some [of re_id m "rc_entries c" f] m by (auto simp: rc_lookup_def)
  then show ?thesis using e lookup_update [of re_id e m "rc_entries c" n] by (simp add: rc_lookup_def rc_put_def)
qed

lemma rc_lookup_tell [simp]: "rc_lookup n (rc_tell f c) = rc_lookup n c"
  by (simp add: rc_lookup_def rc_tell_def)

lemma rc_lookup_id: "rc_lookup n c = Some e \<Longrightarrow> re_id e = n"
  using entry_Some [of re_id n "rc_entries c" e] by (simp add: rc_lookup_def)

lemma arrives_lookup:
  assumes "rc_lookup n c = Some e"
  shows "map_option unsubscribed (rc_lookup n (report_arrives g m c)) = Some (feed (pages_heard n [m]) (unsubscribed e))"
proof -
  obtain src t b where m: "m = (src, t, b)" by (cases m)
  show ?thesis
  proof (cases "rc_lookup src c")
    case None
    then have "src \<noteq> n" using assms by auto
    then show ?thesis using None assms m by (cases b) (simp_all add: TransportConsumer_onMessage_def)
  next
    case (Some f)
    note put = rc_lookup_put [OF Some] rc_lookup_id [OF Some]
    have f: "n = src \<Longrightarrow> f = e" using Some assms by simp
    show ?thesis
    proof (cases b)
      case (TransportReport page)
      then have "rc_lookup n (report_arrives g m c) = (if n = src then Some (fst (accept_page page t f)) else rc_lookup n c)"
        using m Some put by (simp add: TransportConsumer_onMessage_def TransportConsumer_accept_def Let_def split_beta)
      then show ?thesis using TransportReport m assms f by (simp add: accept_unsubscribed)
    next
      case (TransportSubscription enabled)
      then have "rc_lookup n (report_arrives g m c) =
          (if n = src then Some (f\<lparr> re_subscribed := enabled, re_subscribeRequest := 0 \<rparr>) else rc_lookup n c)"
        using m Some put by (simp add: TransportConsumer_onMessage_def)
      then show ?thesis using TransportSubscription m assms f by (simp add: unsubscribed_def)
    next
      case (TransportSubscribe x)
      then show ?thesis using m Some assms by (simp add: TransportConsumer_onMessage_def)
    qed
  qed
qed

lemma pages_heard_Cons: "pages_heard n (m # ms) = pages_heard n [m] @ pages_heard n ms"
  by (cases "(n, [m])" rule: pages_heard.cases) auto

lemma ground_lookup:
  "rc_lookup n c = Some e \<Longrightarrow>
     map_option unsubscribed (rc_lookup n (fold (report_arrives g) ms c)) = Some (feed (pages_heard n ms) (unsubscribed e))"
proof (induction ms arbitrary: c e)
  case (Cons m ms)
  obtain e' where e': "rc_lookup n (report_arrives g m c) = Some e'" "unsubscribed e' = feed (pages_heard n [m]) (unsubscribed e)"
    using arrives_lookup [OF Cons.prems, of g m] by auto
  then show ?case using Cons.IH [OF e'(1)] by (subst pages_heard_Cons) simp
qed simp


section \<open>Reports end to end\<close>

text \<open>One report on its way: the provider as it ticked and when, and what of its pages the ground heard, and when.\<close>

record flown_report =
  fr_provider :: "(u32 \<times> report_body) list world transport_provider"
  fr_nowUs :: u64
  fr_heard :: "(u64 \<times> transport_report) list"

fun pages_for :: "u32 \<Rightarrow> (u32 \<times> report_body) list \<Rightarrow> transport_report list" where
  "pages_for g [] = []"
| "pages_for g ((dst, TransportReport page) # out) = (if dst = g then page # pages_for g out else pages_for g out)"
| "pages_for g (_ # out) = pages_for g out"

text \<open>The pages of the report for the node \<open>g\<close>, and the table they were cut from.\<close>

definition pages_sent_to :: "'b codec \<Rightarrow> (report_body \<Rightarrow> 'b envelope) \<Rightarrow> nat \<Rightarrow> (nat \<Rightarrow> link_kind) \<Rightarrow> (nat \<Rightarrow> u32) \<Rightarrow> u32 \<Rightarrow> flown_report \<Rightarrow> transport_report list" where
  "pages_sent_to codec enc owner kind rxErrors g r =
     pages_for g (drop (length (app (rpv_world (fr_provider r))))
       (app (rpv_world (TransportProvider_tick (report_port codec enc owner) (report_view kind rxErrors) (fr_nowUs r) (fr_provider r)))))"

definition table_sent :: "flown_report \<Rightarrow> wire_peer list" where
  "table_sent r = wire_table (fr_nowUs r) (fst (rpv_world (fr_provider r)))"

text \<open>A report due, of a sound transport, to its subscriber \<open>g\<close>.\<close>

definition report_due :: "u32 \<Rightarrow> flown_report \<Rightarrow> bool" where
  "report_due g r \<longleftrightarrow>
     transport_inv (fst (rpv_world (fr_provider r))) \<and>
     distinct (rpv_subscribers (fr_provider r)) \<and> g \<in> set (rpv_subscribers (fr_provider r)) \<and>
     (rpv_reported (fr_provider r) \<longrightarrow> REPORT_PERIOD_US \<le> fr_nowUs r - rpv_lastReportUs (fr_provider r))"

text \<open>Its first page arrives, and any of the others may not.\<close>

definition report_flies :: "'b codec \<Rightarrow> (report_body \<Rightarrow> 'b envelope) \<Rightarrow> nat \<Rightarrow> (nat \<Rightarrow> link_kind) \<Rightarrow> (nat \<Rightarrow> u32) \<Rightarrow> u32 \<Rightarrow> flown_report \<Rightarrow> bool" where
  "report_flies codec enc owner kind rxErrors g r \<longleftrightarrow> report_due g r \<and>
     fr_heard r \<noteq> [] \<and> snd (hd (fr_heard r)) = hd (pages_sent_to codec enc owner kind rxErrors g r) \<and>
     subseq (map snd (tl (fr_heard r))) (tl (pages_sent_to codec enc owner kind rxErrors g r))"

text \<open>What a report makes of what is held: everything, or nothing.\<close>

definition report_taken :: "'b codec \<Rightarrow> (report_body \<Rightarrow> 'b envelope) \<Rightarrow> nat \<Rightarrow> (nat \<Rightarrow> link_kind) \<Rightarrow> (nat \<Rightarrow> u32) \<Rightarrow> u32 \<Rightarrow> flown_report \<Rightarrow>
    bool \<times> transport_report \<times> wire_peer list \<times> u64 \<times> u32 \<Rightarrow> bool \<times> transport_report \<times> wire_peer list \<times> u64 \<times> u32" where
  "report_taken codec enc owner kind rxErrors g r = (\<lambda>(has, counters, peers, at, n).
     if map snd (fr_heard r) = pages_sent_to codec enc owner kind rxErrors g r then held_whole (table_sent r) (fr_heard r) n
     else (has, counters, peers, at, n))"

lemma pages_for_append [simp]: "pages_for g (a @ b) = pages_for g a @ pages_for g b"
  by (induction g a rule: pages_for.induct) auto

lemma pages_for_page: "distinct subs \<Longrightarrow> pages_for g (map (\<lambda>s. (s, TransportReport pg)) subs) = (if g \<in> set subs then [pg] else [])"
  by (induction subs) auto

lemma pages_for_pages:
  "distinct subs \<Longrightarrow> g \<in> set subs \<Longrightarrow> pages_for g (concat (map (\<lambda>pg. map (\<lambda>s. (s, TransportReport pg)) subs) pages)) = pages"
  by (induction pages) (simp_all add: pages_for_page)

lemma flight_pages:
  assumes "report_due g r"
  shows "pages_from (table_sent r) 0 (pages_sent_to codec enc owner kind rxErrors g r) \<and> length (table_sent r) \<le> MAX_PEERS"
proof -
  let ?p = "fr_provider r"
  have ne: "rpv_subscribers ?p \<noteq> []" and inv: "transport_inv (fst (rpv_world ?p))"
    and due: "rpv_reported ?p \<Longrightarrow> REPORT_PERIOD_US \<le> fr_nowUs r - rpv_lastReportUs ?p"
    and subs: "distinct (rpv_subscribers ?p)" "g \<in> set (rpv_subscribers ?p)"
    using assms by (auto simp: report_due_def)
  obtain pages where pages: "pages_from (table_sent r) 0 pages"
    "app (rpv_world (TransportProvider_tick (report_port codec enc owner) (report_view kind rxErrors) (fr_nowUs r) ?p)) =
      app (rpv_world ?p) @ concat (map (\<lambda>pg. map (\<lambda>s. (s, TransportReport pg)) (rpv_subscribers ?p)) pages)"
    using node.tick_report [OF inv ne due, where kind = kind and rxErrors = rxErrors and codec = codec and enc = enc and owner = owner]
    by (auto simp: table_sent_def report_view_def)
  have "length (table_sent r) \<le> MAX_PEERS"
    using inv by (simp add: table_sent_def wire_table_def transport_inv_def MAX_PEERS_def)
  then show ?thesis using pages subs by (simp add: pages_sent_to_def pages_for_pages)
qed

lemma report_lands:
  assumes "report_flies codec enc owner kind rxErrors g r"
  shows "held (feed (fr_heard r) e) = report_taken codec enc owner kind rxErrors g r (held e)"
proof -
  obtain d ds where d: "fr_heard r = d # ds" using assms by (cases "fr_heard r") (auto simp: report_flies_def)
  have pages: "snd d = hd (pages_sent_to codec enc owner kind rxErrors g r)"
    "subseq (map snd ds) (tl (pages_sent_to codec enc owner kind rxErrors g r))" using assms d by (simp_all add: report_flies_def)
  have f: "pages_from (table_sent r) 0 (pages_sent_to codec enc owner kind rxErrors g r) \<and> length (table_sent r) \<le> MAX_PEERS"
    by (rule flight_pages) (use assms in \<open>simp add: report_flies_def\<close>)
  have "(fst d, hd (pages_sent_to codec enc owner kind rxErrors g r)) = d" using pages(1) by (cases d) simp
  then show ?thesis
    using one_report [OF conjunct1 [OF f] conjunct2 [OF f] pages(2), of "fst d" e] d pages(1)
    by (simp only: report_taken_def held_def list.map split_beta prod.sel d)
qed

lemma reports_land:
  assumes "\<forall>r \<in> set rs. report_flies codec enc owner kind rxErrors g r"
  shows "held (feed (concat (map fr_heard rs)) e) = fold (report_taken codec enc owner kind rxErrors g) rs (held e)"
  using assms
proof (induction rs arbitrary: e)
  case (Cons r rs)
  then show ?case using report_lands [of codec enc owner kind rxErrors g r e] by simp
qed simp

text \<open>A report is whole or it is not there. A node reports to a ground node over its real transport and messenger, as often as it is due, each report cut into
  pages of four peers. The network may lose any page but the first of each report, and the ground hears any
  other message of any node in between. What the ground then holds of the node is, report by report, the
  node's whole table of peers and the counters of the last page when every page came, and what it held before when
  one was lost: never a table the node did not have.\<close>

lemma reports_whole_or_nothing:
  assumes "rc_lookup n c = Some e" "\<forall>r \<in> set rs. report_flies codec enc owner kind rxErrors g r"
    and "pages_heard n ms = concat (map fr_heard rs)"
  shows "\<exists>e'. rc_lookup n (fold (report_arrives gr) ms c) = Some e' \<and> held e' = fold (report_taken codec enc owner kind rxErrors g) rs (held e)"
proof -
  obtain e' where e': "rc_lookup n (fold (report_arrives gr) ms c) = Some e'" "unsubscribed e' = feed (pages_heard n ms) (unsubscribed e)"
    using ground_lookup [OF assms(1), of gr ms] by auto
  then have "held e' = held (feed (concat (map fr_heard rs)) (unsubscribed e))" using assms(3) held_unsubscribed by metis
  then show ?thesis using e'(1) reports_land [OF assms(2)] by (simp add: held_unsubscribed)
qed

text \<open>A node with five peers reports twice; the second page of the first report is lost.\<close>

definition paged_peer :: "u32 \<Rightarrow> node" where
  "paged_peer i = Node_init\<lparr> n_id := i, n_received := 10 * i \<rparr>"

definition paged_transport :: transport where
  "paged_transport = (Transport_init 2 7)\<lparr> t_links := [\<lparr> lp_answers = [], lp_out = [] \<rparr>], t_nodes := map paged_peer [1, 3, 4, 5, 6] \<rparr>"

definition paged_report :: "u64 \<Rightarrow> flown_report" where
  "paged_report nowUs =
     \<lparr> fr_provider = (TransportProvider_new (paged_transport, Messenger_new 4, []))\<lparr> rpv_subscribers := [1] \<rparr>, fr_nowUs = nowUs, fr_heard = [] \<rparr>"

definition paged_codec :: "report_body codec" where
  "paged_codec = \<lparr> pb_encode = (\<lambda>e n. Some [1, 2, 3]), pb_decode = (\<lambda>bs. None), env_zero = TransportSubscribe False, env_max = 512 \<rparr>"

definition paged_envelope :: "report_body \<Rightarrow> report_body envelope" where
  "paged_envelope b = \<lparr> env_which_body = 56, env_request_id = 0, env_body = b \<rparr>"

definition paged_pages :: "u64 \<Rightarrow> transport_report list" where
  "paged_pages nowUs = pages_sent_to paged_codec paged_envelope 0 (\<lambda>i. LK_UDP) (\<lambda>i. 0) 1 (paged_report nowUs)"

definition paged_heard :: "(u64 \<times> transport_report) list" where
  "paged_heard = (20, hd (paged_pages 10)) # map (Pair 1000020) (paged_pages 1000010)"

definition paged_ground :: "report_body traffic list report_ground" where
  "paged_ground = \<lparr> rg_port = recorder (\<lambda>_. True) (\<lambda>_. 1), rg_onReport = (\<lambda>l n e t w. w), rg_onForgotten = (\<lambda>l n w. w) \<rparr>"

lemma paged_due: "report_due 1 (paged_report nowUs)"
  by (simp add: report_due_def paged_report_def TransportProvider_new_def paged_transport_def Transport_init_def transport_inv_def
      MAX_LINKS_def MAX_NODES_def MAX_LISTENERS_def paged_peer_def node_ok_def Node_init_def BROADCAST_NODE_def)

lemma paged_pages_from: "pages_from (table_sent (paged_report nowUs)) 0 (paged_pages nowUs)"
  unfolding paged_pages_def by (rule conjunct1 [OF flight_pages [OF paged_due]])

lemma paged_pages_ne: "paged_pages nowUs \<noteq> []"
  using paged_pages_from [of nowUs] by auto

lemma paged_flies:
  assumes "ds = hd (paged_pages nowUs) # rest" "subseq rest (tl (paged_pages nowUs))"
  shows "report_flies paged_codec paged_envelope 0 (\<lambda>i. LK_UDP) (\<lambda>i. 0) 1 ((paged_report nowUs)\<lparr> fr_heard := map (Pair t) ds \<rparr>)"
  using paged_due [of nowUs] assms
  by (simp add: report_flies_def report_due_def pages_sent_to_def paged_pages_def comp_def)

lemma reports_whole_or_nothing_example:
  "\<exists>e. rc_lookup 2 (fold (report_arrives paged_ground) (map (\<lambda>(t, page). (2, t, TransportReport page)) paged_heard)
      ((TransportConsumer_new [])\<lparr> rc_entries := [ReportEntry_init\<lparr> re_id := 2 \<rparr>] \<rparr>)) = Some e \<and>
     re_reports e = 1 \<and> re_receivedUs e = 1000020 \<and> map wp_id (re_peers e) = [1, 3, 4, 5, 6]"
proof -
  let ?r1 = "(paged_report 10)\<lparr> fr_heard := map (Pair 20) [hd (paged_pages 10)] \<rparr>"
  let ?r2 = "(paged_report 1000010)\<lparr> fr_heard := map (Pair 1000020) (paged_pages 1000010) \<rparr>"
  let ?e = "ReportEntry_init\<lparr> re_id := 2 \<rparr>"
  let ?c = "(TransportConsumer_new [])\<lparr> rc_entries := [?e] \<rparr> :: report_body traffic list transport_consumer"
  let ?ms = "map (\<lambda>(t, page). (2, t, TransportReport page)) paged_heard"
  have h: "pages_heard 2 (map (\<lambda>(t, page). (2, t, TransportReport page)) ds) = ds" for ds by (induction ds) auto
  have c: "rc_lookup 2 ?c = Some ?e" by (simp add: rc_lookup_def entry_lookup_def)
  have f1: "report_flies paged_codec paged_envelope 0 (\<lambda>i. LK_UDP) (\<lambda>i. 0) 1 ?r1"
    by (rule paged_flies [of _ _ "[]"]) simp_all
  have f2: "report_flies paged_codec paged_envelope 0 (\<lambda>i. LK_UDP) (\<lambda>i. 0) 1 ?r2"
    by (rule paged_flies [of _ _ "tl (paged_pages 1000010)"]) (simp_all add: paged_pages_ne)
  have sent: "pages_sent_to paged_codec paged_envelope 0 (\<lambda>i. LK_UDP) (\<lambda>i. 0) 1 ?r1 = paged_pages 10"
    "pages_sent_to paged_codec paged_envelope 0 (\<lambda>i. LK_UDP) (\<lambda>i. 0) 1 ?r2 = paged_pages 1000010"
    by (simp_all add: pages_sent_to_def paged_pages_def)
  have two: "[hd (paged_pages 10)] \<noteq> paged_pages 10"
  proof
    assume one: "[hd (paged_pages 10)] = paged_pages 10"
    have "pages_from (table_sent (paged_report 10)) 0 [hd (paged_pages 10)]" unfolding one by (rule paged_pages_from)
    then show False
      by (simp add: table_sent_def wire_table_def paged_report_def TransportProvider_new_def paged_transport_def PEERS_PER_PAGE_def)
  qed
  have all: "\<forall>r \<in> set [?r1, ?r2]. report_flies paged_codec paged_envelope 0 (\<lambda>i. LK_UDP) (\<lambda>i. 0) 1 r" using f1 f2 by simp
  have heard: "pages_heard 2 ?ms = concat (map fr_heard [?r1, ?r2])" unfolding h by (simp add: paged_heard_def)
  obtain e where e: "rc_lookup 2 (fold (report_arrives paged_ground) ?ms ?c) = Some e"
    "held e = fold (report_taken paged_codec paged_envelope 0 (\<lambda>i. LK_UDP) (\<lambda>i. 0) 1) [?r1, ?r2] (held ?e)"
    using reports_whole_or_nothing [OF c all heard, of paged_ground] by blast
  have "held e = held_whole (table_sent ?r2) (map (Pair 1000020) (paged_pages 1000010)) 0"
    using e(2) two sent by (simp add: report_taken_def held_def ReportEntry_init_def comp_def)
  then have "re_reports e = 1" "re_receivedUs e = 1000020" "re_peers e = table_sent ?r2"
    by (simp_all add: held_def held_whole_def last_map paged_pages_ne)
  then show ?thesis
    using e(1) by (simp add: table_sent_def wire_table_def paged_report_def TransportProvider_new_def paged_transport_def paged_peer_def
        wire_peer_of_def Node_init_def)
qed


section \<open>Two lost pages mix two reports\<close>

text \<open>The header of \<^verbatim>\<open>accept\<close> says that a report that lost a page is abandoned. When the second page of one
  report and the first page of the next are lost, the ends meet: the consumer completes a report
  of which the first four peers are of one instant and the rest of another, and the node never had that
  table.\<close>

lemma two_lost_pages_mix_reports:
  assumes "pages_from a 0 [a0, a1]" "pages_from b 0 [b0, b1]" "length a \<le> 8" "length b \<le> 8"
  shows "re_peers (feed [(t, a0), (u, b1)] e) = take 4 a @ drop 4 b \<and> re_reports (feed [(t, a0), (u, b1)] e) = re_reports e + 1"
proof -
  have la: "4 < length a" and lb: "4 < length b" using assms by (auto simp: PEERS_PER_PAGE_def split: if_splits)
  have a0: "tr_peer_cursor a0 = 0" "tr_peer_total a0 = of_nat (length a)" "tr_peers a0 = take 4 a"
    using assms(1) by (simp_all add: page_of_def PEERS_PER_PAGE_def)
  have b1: "tr_peer_cursor b1 = 4" "tr_peer_total b1 = of_nat (length b)" "tr_peers b1 = drop 4 b"
    using assms(2,4) lb by (simp_all add: page_of_def PEERS_PER_PAGE_def)
  have more: "(4 :: u32) < of_nat (length a)"
    using la assms(3) by (simp add: word_less_nat_alt unat_of_nat_small)
  have done_: "\<not> (4 + of_nat (length b - 4) :: u32) < of_nat (length b)" using lb by (simp add: of_nat_diff)
  show ?thesis using a0 b1 more done_ la lb assms(3,4)
    by (simp add: accept_page_def stage_peers_def report_complete_def MAX_PEERS_def MAX_NODES_def Let_def)
qed


section \<open>A stream nobody wants\<close>

text \<open>Turning the reports off while the answer to the subscribe is on its way sends no unsubscribe: the
  node keeps streaming, and what arrives is held and published, although nothing is wanted any more.\<close>

lemma unwanted_stream_goes_on:
  fixes c :: "report_body traffic list transport_consumer"
  assumes "rc_lookup n c = Some e" "rc_entries c = [e]" "\<not> re_local e" "\<not> re_subscribed e" "\<not> rc_wanted c"
    and "rg_port g = recorder ok nid" "c' = TransportConsumer_setWanted g False (TransportConsumer_setWanted g True c)"
    and "pages_from table 0 [page]" "length table \<le> 4"
  shows "rc_world c' = rc_world c @ [Asked RequestPolicy_default n (TransportSubscribe True)] \<and> \<not> rc_wanted c' \<and>
    (\<exists>e'. rc_lookup n (fold (report_arrives g) [(n, t, TransportSubscription True), (n, u, TransportReport page)] c') = Some e' \<and>
       re_hasReport e' \<and> re_peers e' = table)"
proof -
  have n: "re_id e = n" using rc_lookup_id [OF assms(1)] .
  let ?e = "e\<lparr> re_subscribeRequest := nid n, re_hasReport := False, re_peers := [], re_staging := [], re_stagingValid := False \<rparr>"
  have c': "c' = c\<lparr> rc_wanted := False, rc_entries := [?e], rc_world := rc_world c @ [Asked RequestPolicy_default n (TransportSubscribe True)] \<rparr>"
    using assms(2-7) n by (simp add: TransportConsumer_setWanted_def report_subscribe_def)
  have l: "rc_lookup n c' = Some ?e" using n by (simp add: c' rc_lookup_def entry_lookup_def)
  obtain e' where e': "rc_lookup n (fold (report_arrives g) [(n, t, TransportSubscription True), (n, u, TransportReport page)] c') = Some e'"
    "unsubscribed e' = feed [(u, page)] (unsubscribed ?e)"
    using ground_lookup [OF l, of g "[(n, t, TransportSubscription True), (n, u, TransportReport page)]"] by auto
  have "held (feed ((u, hd [page]) # []) (unsubscribed ?e)) = held_whole table [(u, page)] (re_reports (unsubscribed ?e))"
    using one_report [OF assms(8), of "[]" u "unsubscribed ?e"] assms(9) by (simp add: MAX_PEERS_def MAX_NODES_def)
  then have "held e' = held_whole table [(u, page)] (re_reports (unsubscribed ?e))" using e'(2) held_unsubscribed [of e'] by simp
  then show ?thesis using e'(1) c' by (simp add: held_def held_whole_def)
qed

end
