(* ===== verification/Status_Stream.thy ===== *)
theory Status_Stream
  imports Firmware_Safe Discovery Subscriber_Table
begin

text \<open>
  The small fixed report of what a drone is doing (\<^verbatim>\<open>components/status/include/status\<close>): \<^verbatim>\<open>packStatus\<close>
  (\<^verbatim>\<open>status_packer.hpp\<close>), the provider that sends one report every tenth frame to its subscribers
  (\<^verbatim>\<open>status_provider.hpp\<close>) and the consumer of a ground node (\<^verbatim>\<open>consumer.hpp\<close>). The provider is tied to the turns
  of the flight process of \<^verbatim>\<open>firmware_app.cpp\<close> as the loop ties it: after the step of each frame flown. What
  a ground node reads is then what the motors got.
\<close>


section \<open>The report\<close>

record plant_truth =
  pl_attitude_quat :: "f32 list"
  pl_position_m :: "f32 list"
  pl_velocity_mps :: "f32 list"

record status =
  st_timestamp_us :: u64
  st_attitude_quat :: "f32 list"
  st_motor :: "f32 list"
  st_flight_phase :: nat
  st_throw_state :: nat
  st_throw_count :: u32
  st_imu_valid :: bool
  st_baro_valid :: bool
  st_truth :: "plant_truth option"
  st_rc_link_ok :: bool

text \<open>The numbers of the schema, pinned to those of the core's enumerations.\<close>

fun wire_phase :: "flight_phase \<Rightarrow> nat" where
  "wire_phase PH_IDLE = 0"
| "wire_phase PH_ALTITUDE_AUTO = 1"
| "wire_phase PH_ARMED = 2"
| "wire_phase PH_BALLISTIC = 3"
| "wire_phase PH_RECOVERY = 4"
| "wire_phase PH_HOVER = 5"
| "wire_phase PH_CUTOFF = 6"
| "wire_phase PH_MANUAL = 7"
| "wire_phase PH_FAULT = 8"
| "wire_phase PH_LEVEL = 9"

fun wire_throw_state :: "throw_state \<Rightarrow> nat" where
  "wire_throw_state TS_IDLE = 0"
| "wire_throw_state TS_THRUST = 1"
| "wire_throw_state TS_BALLISTIC = 2"

definition packStatus :: "sensor_frame \<Rightarrow> actuator_frame \<Rightarrow> flight_core \<Rightarrow> bool \<Rightarrow> status" where
  "packStatus frame actuators core rcLinkOk =
     (let q = ae_attitude (fc_attitudeEstimator core); detector = fc_throwDetector core in
      \<lparr> st_timestamp_us = sf_timestampUs frame, st_attitude_quat = [q_w q, q_x q, q_y q, q_z q], st_motor = af_motor actuators,
        st_flight_phase = wire_phase (fc_phase core), st_throw_state = wire_throw_state (td_state detector),
        st_throw_count = td_throwCount detector, st_imu_valid = sf_imuValid frame, st_baro_valid = sf_baroValid frame,
        st_truth = None, st_rc_link_ok = rcLinkOk \<rparr>)"

datatype status_body =
    StatusSubscribe bool
  | StatusSubscription bool
  | StatusBody status


section \<open>The provider\<close>

definition STATUS_PERIOD_FRAMES :: u32 where "STATUS_PERIOD_FRAMES = 10"
definition STATUS_MAX_SUBSCRIBERS :: nat where "STATUS_MAX_SUBSCRIBERS = 4"

record 'w status_provider =
  spv_subscribers :: subscriber_table
  spv_frameCount :: u32
  spv_messageCount :: u32
  spv_answerCount :: u32
  spv_world :: 'w

definition StatusProvider_new :: "'w \<Rightarrow> 'w status_provider" where
  "StatusProvider_new w = \<lparr> spv_subscribers = [], spv_frameCount = 0, spv_messageCount = 0, spv_answerCount = 0, spv_world = w \<rparr>"

definition status_send :: "(status_body, 'w) port \<Rightarrow> status \<Rightarrow> 'w status_provider \<Rightarrow> 'w status_provider" where
  "status_send pt r p =
     fold (\<lambda>s p. let (w, ok) = pt_send pt s (StatusBody r) (spv_world p) in
             p\<lparr> spv_world := w, spv_messageCount := (if ok then spv_messageCount p + 1 else spv_messageCount p) \<rparr>) (spv_subscribers p) p"

definition StatusProvider_publish ::
  "(status_body, 'w) port \<Rightarrow> sensor_frame \<Rightarrow> actuator_frame \<Rightarrow> flight_core \<Rightarrow> bool \<Rightarrow> plant_truth option \<Rightarrow> 'w status_provider \<Rightarrow> 'w status_provider" where
  "StatusProvider_publish pt frame actuators core rcLinkOk truth p =
     (let p = p\<lparr> spv_frameCount := spv_frameCount p + 1 \<rparr> in
      if spv_frameCount p mod STATUS_PERIOD_FRAMES \<noteq> 0 \<or> SubscriberTable_empty (spv_subscribers p) then p
      else
        let r = packStatus frame actuators core rcLinkOk;
            r = (case truth of None \<Rightarrow> r | Some x \<Rightarrow> r\<lparr> st_truth := Some x \<rparr>) in
        status_send pt r p)"

definition spv_log :: "(status_body, 'w) port \<Rightarrow> log_level \<Rightarrow> string \<Rightarrow> 'w status_provider \<Rightarrow> 'w status_provider" where
  "spv_log pt l t p = p\<lparr> spv_world := pt_log pt l t (spv_world p) \<rparr>"

fun StatusProvider_onMessage :: "(status_body, 'w) port \<Rightarrow> u32 \<Rightarrow> status_body \<Rightarrow> 'w status_provider \<Rightarrow> 'w status_provider \<times> bool" where
  "StatusProvider_onMessage pt src (StatusSubscribe enabled) p =
     (let (p, applied) =
        (if enabled then
           let (subs, ok) = SubscriberTable_add STATUS_MAX_SUBSCRIBERS src (spv_subscribers p);
               p = p\<lparr> spv_subscribers := subs \<rparr> in
           (if ok then p
            else spv_log pt WARN (''no room for '' @ hex08 src @ '': '' @ to_string (SubscriberTable_size subs) @ '' subscribers already'') p, ok)
         else (p\<lparr> spv_subscribers := fst (SubscriberTable_remove src (spv_subscribers p)) \<rparr>, False));
          (w, i) = pt_request pt RequestPolicy_default src (StatusSubscription applied) (spv_world p);
          p = p\<lparr> spv_world := w \<rparr> in
      (if i \<noteq> 0 then p\<lparr> spv_answerCount := spv_answerCount p + 1 \<rparr> else p, True))"
| "StatusProvider_onMessage pt src _ p = (p, False)"

definition StatusProvider_onNodeDown :: "(status_body, 'w) port \<Rightarrow> u32 \<Rightarrow> 'w status_provider \<Rightarrow> 'w status_provider" where
  "StatusProvider_onNodeDown pt nodeId p =
     (let (subs, removed) = SubscriberTable_remove nodeId (spv_subscribers p);
          p = p\<lparr> spv_subscribers := subs \<rparr> in
      if removed then spv_log pt INFO (hex08 nodeId @ '' gone, '' @ to_string (SubscriberTable_size subs) @ '' subscriber(s) left'') p else p)"


section \<open>The consumer\<close>

definition STATUS_KINDS :: "u32 list" where "STATUS_KINDS = [NodeKind_FIRMWARE, NodeKind_DRONE_SIM]"
definition STATUS_MAX_LISTENERS :: nat where "STATUS_MAX_LISTENERS = 2"

definition Status_zero :: status where
  "Status_zero = \<lparr> st_timestamp_us = 0, st_attitude_quat = replicate 4 0, st_motor = replicate 4 0, st_flight_phase = 0, st_throw_state = 0,
     st_throw_count = 0, st_imu_valid = False, st_baro_valid = False, st_truth = None, st_rc_link_ok = False \<rparr>"

record status_entry =
  se_id :: u32
  se_subscribed :: bool
  se_subscribeRequest :: u32
  se_hasStatus :: bool
  se_last :: status
  se_receivedUs :: u64
  se_received :: u32

definition StatusEntry_init :: status_entry where
  "StatusEntry_init = \<lparr> se_id = 0, se_subscribed = False, se_subscribeRequest = 0, se_hasStatus = False, se_last = Status_zero,
     se_receivedUs = 0, se_received = 0 \<rparr>"

record 'w status_consumer =
  stc_entries :: "status_entry list"
  stc_listeners :: "nat list"
  stc_listenersOverflow :: u32
  stc_requests :: u32
  stc_dropped :: u32
  stc_world :: 'w

definition StatusConsumer_new :: "'w \<Rightarrow> 'w status_consumer" where
  "StatusConsumer_new w = \<lparr> stc_entries = [], stc_listeners = [], stc_listenersOverflow = 0, stc_requests = 0, stc_dropped = 0, stc_world = w \<rparr>"

record 'w status_ground =
  sg_port :: "(status_body, 'w) port"
  sg_onStatus :: "nat \<Rightarrow> u32 \<Rightarrow> status \<Rightarrow> u64 \<Rightarrow> 'w \<Rightarrow> 'w"
  sg_onForgotten :: "nat \<Rightarrow> u32 \<Rightarrow> 'w \<Rightarrow> 'w"

definition stc_lookup :: "u32 \<Rightarrow> 'w status_consumer \<Rightarrow> status_entry option" where
  "stc_lookup i c = entry_lookup se_id i (stc_entries c)"

definition stc_put :: "status_entry \<Rightarrow> 'w status_consumer \<Rightarrow> 'w status_consumer" where
  "stc_put e c = c\<lparr> stc_entries := entry_update se_id (se_id e) e (stc_entries c) \<rparr>"

definition stc_log :: "'w status_ground \<Rightarrow> string \<Rightarrow> 'w status_consumer \<Rightarrow> 'w status_consumer" where
  "stc_log g t c = c\<lparr> stc_world := pt_log (sg_port g) WARN t (stc_world c) \<rparr>"

definition stc_tell :: "(nat \<Rightarrow> 'w \<Rightarrow> 'w) \<Rightarrow> 'w status_consumer \<Rightarrow> 'w status_consumer" where
  "stc_tell f c = c\<lparr> stc_world := fold f (stc_listeners c) (stc_world c) \<rparr>"

definition status_open :: "'w status_ground \<Rightarrow> nat \<Rightarrow> u32 \<Rightarrow> 'w status_consumer \<Rightarrow> 'w status_consumer" where
  "status_open g N i c =
     (if stc_lookup i c \<noteq> None then c
      else if length (stc_entries c) = N
      then stc_log g (''no room for '' @ hex08 i @ '': '' @ to_string (length (stc_entries c)) @ '' node(s) already'') (c\<lparr> stc_dropped := stc_dropped c + 1 \<rparr>)
      else
        let (w, r) = pt_request (sg_port g) RequestPolicy_default i (StatusSubscribe True) (stc_world c)
        in c\<lparr> stc_entries := stc_entries c @ [StatusEntry_init\<lparr> se_id := i, se_subscribeRequest := r \<rparr>], stc_requests := stc_requests c + 1,
              stc_world := w \<rparr>)"

definition StatusConsumer_onIdentity :: "'w status_ground \<Rightarrow> nat \<Rightarrow> directory_entry \<Rightarrow> 'w status_consumer \<Rightarrow> 'w status_consumer" where
  "StatusConsumer_onIdentity g N d c =
     (if de_wireMismatch d then c
      else if an_kind (de_announce d) \<in> set STATUS_KINDS then status_open g N (de_id d) c else c)"

text \<open>The directory forgot a node: presence does the work, through \<^verbatim>\<open>onNodeDown\<close>.\<close>

definition StatusConsumer_onForgotten :: "u32 \<Rightarrow> 'w status_consumer \<Rightarrow> 'w status_consumer" where
  "StatusConsumer_onForgotten nodeId c = c"

definition StatusConsumer_onMessage :: "'w status_ground \<Rightarrow> u32 \<Rightarrow> status_body \<Rightarrow> u64 \<Rightarrow> 'w status_consumer \<Rightarrow> 'w status_consumer \<times> bool" where
  "StatusConsumer_onMessage g src b nowUs c =
     (case stc_lookup src c of
        None \<Rightarrow> (c, False)
      | Some e \<Rightarrow>
          (case b of
             StatusSubscription enabled \<Rightarrow> (stc_put (e\<lparr> se_subscribed := enabled, se_subscribeRequest := 0 \<rparr>) c, True)
           | StatusBody r \<Rightarrow>
               (stc_tell (\<lambda>l. sg_onStatus g l src r nowUs)
                  (stc_put (e\<lparr> se_hasStatus := True, se_last := r, se_receivedUs := nowUs, se_received := se_received e + 1 \<rparr>) c), True)
           | StatusSubscribe _ \<Rightarrow> (c, False)))"

definition StatusConsumer_onNodeDown :: "'w status_ground \<Rightarrow> u32 \<Rightarrow> 'w status_consumer \<Rightarrow> 'w status_consumer" where
  "StatusConsumer_onNodeDown g nodeId c =
     (if stc_lookup nodeId c = None then c
      else stc_tell (\<lambda>l. sg_onForgotten g l nodeId) (c\<lparr> stc_entries := entry_remove se_id nodeId (stc_entries c) \<rparr>))"

definition StatusConsumer_onRequestFailed :: "'w status_ground \<Rightarrow> u32 \<Rightarrow> u32 \<Rightarrow> 'w status_consumer \<Rightarrow> 'w status_consumer" where
  "StatusConsumer_onRequestFailed g dst requestId c =
     (case stc_lookup dst c of
        None \<Rightarrow> c
      | Some e \<Rightarrow>
          if se_subscribeRequest e \<noteq> requestId then c
          else stc_log g (hex08 dst @ '' never took the status subscribe'') (stc_put (e\<lparr> se_subscribeRequest := 0 \<rparr>) c))"

definition StatusConsumer_attach :: "nat \<Rightarrow> 'w status_consumer \<Rightarrow> 'w status_consumer" where
  "StatusConsumer_attach l c =
     (let (ls, n) = listener_attach STATUS_MAX_LISTENERS l (stc_listeners c, stc_listenersOverflow c) in c\<lparr> stc_listeners := ls, stc_listenersOverflow := n \<rparr>)"

definition StatusConsumer_detach :: "nat \<Rightarrow> 'w status_consumer \<Rightarrow> 'w status_consumer" where
  "StatusConsumer_detach l c =
     (let (ls, n) = listener_detach l (stc_listeners c, stc_listenersOverflow c) in c\<lparr> stc_listeners := ls, stc_listenersOverflow := n \<rparr>)"

definition StatusConsumer_ready :: "'w status_consumer \<Rightarrow> bool" where
  "StatusConsumer_ready c \<longleftrightarrow> stc_listenersOverflow c = 0"

end
