(* ===== verification/Status_Honest.thy ===== *)
theory Status_Honest
  imports Status_Stream
begin

text \<open>
  What a ground node reads in the status of a drone: the reports of a run of the flight process are pictures of
  it, one frame in ten, and in each the motors follow the phase and are stopped when the drone has lost
  its pilot.
\<close>


section \<open>The process with its reports\<close>

text \<open>What the poll of a turn brings to the provider: a message, or the news that a node is gone.\<close>

datatype status_input = StatusHeard u32 status_body | StatusNodeGone u32

fun take_input :: "(status_body, 'w) port \<Rightarrow> status_input \<Rightarrow> 'w status_provider \<Rightarrow> 'w status_provider" where
  "take_input pt (StatusHeard src b) p = fst (StatusProvider_onMessage pt src b p)"
| "take_input pt (StatusNodeGone i) p = StatusProvider_onNodeDown pt i p"

text \<open>A turn of the loop with its call of \<^verbatim>\<open>publish\<close>, after the step of a frame that is flown.\<close>

definition reporting_turn ::
  "('w, 's) board \<Rightarrow> (status_body, 'v) port \<Rightarrow> ('w, 's) firmware \<times> 'v status_provider \<Rightarrow> status_input list \<times> firmware_event \<Rightarrow>
     ('w, 's) firmware \<times> 'v status_provider" where
  "reporting_turn bo pt = (\<lambda>(fw, p) (inputs, ev).
     let p = fold (take_input pt) inputs p; fw' = firmware_turn bo fw ev in
     if fw_point fw = Flying \<and> fw_point fw' = Flying
     then (fw', StatusProvider_publish pt (ev_frame ev) (fw_actuators fw') (fw_core fw')
                  (\<not> RcTracker_failsafeActive (sf_timestampUs (ev_frame ev)) (fw_rcTracker fw')) None p)
     else (fw', p))"

definition reporting_run ::
  "('w, 's) board \<Rightarrow> (status_body, 'v) port \<Rightarrow> ('w, 's) firmware \<times> 'v status_provider \<Rightarrow> (status_input list \<times> firmware_event) list \<Rightarrow>
     ('w, 's) firmware \<times> 'v status_provider" where
  "reporting_run bo pt = foldl (reporting_turn bo pt)"

lemma reporting_run_simps [simp]:
  "reporting_run bo pt x [] = x" "reporting_run bo pt x (evs @ [ev]) = reporting_turn bo pt (reporting_run bo pt x evs) ev"
  "reporting_run bo pt x (ev # evs) = reporting_run bo pt (reporting_turn bo pt x ev) evs"
  by (simp_all add: reporting_run_def)

lemma fst_reporting_turn [simp]: "fst (reporting_turn bo pt x ev) = firmware_turn bo (fst x) (snd ev)"
  by (simp add: reporting_turn_def Let_def split_beta)

lemma fst_reporting_run: "fst (reporting_run bo pt x evs) = firmware_run bo (fst x) (map snd evs)"
  by (induction evs rule: rev_induct) simp_all

text \<open>The picture a report is of a turn.\<close>

definition picture_of :: "('w, 's) firmware \<Rightarrow> firmware_event \<Rightarrow> status" where
  "picture_of fw ev = packStatus (ev_frame ev) (fw_actuators fw) (fw_core fw)
     (\<not> RcTracker_failsafeActive (sf_timestampUs (ev_frame ev)) (fw_rcTracker fw))"

text \<open>The only traffic of the messages is requests and log lines; a report goes to the subscribers on every tenth frame.\<close>

definition reports_in :: "status_body traffic list \<Rightarrow> (u32 \<times> status) list" where
  "reports_in w = concat (map (\<lambda>t. case t of Sent s (StatusBody r) \<Rightarrow> [(s, r)] | _ \<Rightarrow> []) w)"

lemma reports_in_append [simp]: "reports_in (a @ b) = reports_in a @ reports_in b" "reports_in [] = []"
  by (simp_all add: reports_in_def)

lemma message_reports: "reports_in (spv_world (fst (StatusProvider_onMessage (recorder ok nid) src b p))) = reports_in (spv_world p)"
  by (cases b) (simp_all add: spv_log_def reports_in_def Let_def split_beta)

lemma input_reports: "reports_in (spv_world (take_input (recorder ok nid) m p)) = reports_in (spv_world p)"
proof (cases m)
  case (StatusNodeGone i)
  then show ?thesis by (simp add: StatusProvider_onNodeDown_def spv_log_def reports_in_def Let_def split_beta)
qed (simp add: message_reports)

lemma input_count: "spv_frameCount (take_input pt m p) = spv_frameCount p"
proof (cases m)
  case (StatusHeard src b)
  then show ?thesis by (cases b) (simp_all add: spv_log_def Let_def split_beta)
qed (simp add: StatusProvider_onNodeDown_def spv_log_def Let_def split_beta)

lemma inputs_frame:
  "reports_in (spv_world (fold (take_input (recorder ok nid)) ms p)) = reports_in (spv_world p)"
  "spv_frameCount (fold (take_input pt) ms q) = spv_frameCount q"
proof -
  show "reports_in (spv_world (fold (take_input (recorder ok nid)) ms p)) = reports_in (spv_world p)"
    by (induction ms arbitrary: p) (simp_all add: input_reports)
  show "spv_frameCount (fold (take_input pt) ms q) = spv_frameCount q"
    by (induction ms arbitrary: q) (simp_all add: input_count)
qed

lemma send_reports:
  "reports_in (spv_world (status_send (recorder ok nid) r p)) = reports_in (spv_world p) @ map (\<lambda>s. (s, r)) (spv_subscribers p)"
  "spv_frameCount (status_send (recorder ok nid) r p) = spv_frameCount p" "spv_subscribers (status_send (recorder ok nid) r p) = spv_subscribers p"
proof -
  let ?f = "\<lambda>s p. let (w, ok) = pt_send (recorder ok nid) s (StatusBody r) (spv_world p) in
             p\<lparr> spv_world := w, spv_messageCount := (if ok then spv_messageCount p + 1 else spv_messageCount p) \<rparr>"
  have "reports_in (spv_world (fold ?f ss q)) = reports_in (spv_world q) @ map (\<lambda>s. (s, r)) ss \<and>
      spv_frameCount (fold ?f ss q) = spv_frameCount q \<and> spv_subscribers (fold ?f ss q) = spv_subscribers q"
    for ss and q :: "status_body traffic list status_provider"
    by (induction ss arbitrary: q) (simp_all add: reports_in_def)
  then show "reports_in (spv_world (status_send (recorder ok nid) r p)) = reports_in (spv_world p) @ map (\<lambda>s. (s, r)) (spv_subscribers p)"
    "spv_frameCount (status_send (recorder ok nid) r p) = spv_frameCount p" "spv_subscribers (status_send (recorder ok nid) r p) = spv_subscribers p"
    by (simp_all add: status_send_def)
qed

lemma publish_reports:
  "reports_in (spv_world (StatusProvider_publish (recorder ok nid) f a c l None p)) =
     reports_in (spv_world p) @
       (if (spv_frameCount p + 1) mod STATUS_PERIOD_FRAMES = 0 then map (\<lambda>s. (s, packStatus f a c l)) (spv_subscribers p) else [])"
  "spv_frameCount (StatusProvider_publish (recorder ok nid) f a c l None p) = spv_frameCount p + 1"
  "spv_subscribers (StatusProvider_publish (recorder ok nid) f a c l None p) = spv_subscribers p"
  by (auto simp: StatusProvider_publish_def Let_def send_reports SubscriberTable_empty_def)

text \<open>The turns of a run that fly a frame.\<close>

definition flies :: "('w, 's) board \<Rightarrow> ('w, 's) firmware \<Rightarrow> firmware_event \<Rightarrow> bool" where
  "flies bo fw ev \<longleftrightarrow> fw_point fw = Flying \<and> fw_point (firmware_turn bo fw ev) = Flying"

fun frames_flown :: "('w, 's) board \<Rightarrow> ('w, 's) firmware \<Rightarrow> firmware_event list \<Rightarrow> nat" where
  "frames_flown bo fw [] = 0"
| "frames_flown bo fw (ev # evs) = (if flies bo fw ev then 1 else 0) + frames_flown bo (firmware_turn bo fw ev) evs"

lemma frames_flown_snoc: "frames_flown bo fw (evs @ [ev]) = frames_flown bo fw evs + (if flies bo (firmware_run bo fw evs) ev then 1 else 0)"
  by (induction evs arbitrary: fw) simp_all

lemma run_count: "spv_frameCount (snd (reporting_run bo (recorder ok nid) (fw, p) evs)) = spv_frameCount p + of_nat (frames_flown bo fw (map snd evs))"
proof (induction evs rule: rev_induct)
  case (snoc ev evs)
  then show ?case
    by (simp add: reporting_turn_def Let_def split_beta publish_reports inputs_frame fst_reporting_run frames_flown_snoc flies_def)
qed simp

lemma turn_reports:
  "reports_in (spv_world (snd (reporting_turn bo (recorder ok nid) x ev))) = reports_in (spv_world (snd x)) @
     (if flies bo (fst x) (snd ev) \<and> (spv_frameCount (snd x) + 1) mod STATUS_PERIOD_FRAMES = 0
      then map (\<lambda>s. (s, picture_of (firmware_turn bo (fst x) (snd ev)) (snd ev))) (spv_subscribers (fold (take_input (recorder ok nid)) (fst ev) (snd x)))
      else [])"
  by (simp add: reporting_turn_def Let_def split_beta publish_reports inputs_frame flies_def picture_of_def)

text \<open>Every report of a run is the picture of a turn that flew a frame, and of every tenth such turn.\<close>

lemma report_pictured:
  assumes "(s, r) \<in> set (reports_in (spv_world (snd (reporting_run bo (recorder ok nid) (fw, StatusProvider_new []) evs))))"
  shows "\<exists>evs1 x evs2. evs = evs1 @ x # evs2 \<and> flies bo (firmware_run bo fw (map snd evs1)) (snd x) \<and>
    of_nat (frames_flown bo fw (map snd evs1) + 1) mod STATUS_PERIOD_FRAMES = (0 :: u32) \<and>
    r = picture_of (firmware_run bo fw (map snd evs1 @ [snd x])) (snd x)"
  using assms
proof (induction evs rule: rev_induct)
  case Nil
  then show ?case by (simp add: StatusProvider_new_def)
next
  case (snoc x evs)
  let ?y = "reporting_run bo (recorder ok nid) (fw, StatusProvider_new []) evs"
  have fw: "fst ?y = firmware_run bo fw (map snd evs)" by (simp add: fst_reporting_run)
  show ?case
  proof (cases "(s, r) \<in> set (reports_in (spv_world (snd ?y)))")
    case True
    obtain evs1 z evs2 where z: "evs = evs1 @ z # evs2" "flies bo (firmware_run bo fw (map snd evs1)) (snd z)"
      "of_nat (frames_flown bo fw (map snd evs1) + 1) mod STATUS_PERIOD_FRAMES = (0 :: u32)"
      "r = picture_of (firmware_run bo fw (map snd evs1 @ [snd z])) (snd z)"
      using snoc.IH [OF True] by (elim exE conjE) (rule that)
    have "evs @ [x] = evs1 @ z # (evs2 @ [x])" by (simp add: z(1))
    then show ?thesis using z(2-4) by (intro exI conjI)
  next
    case False
    have "(s, r) \<in> set (reports_in (spv_world (snd (reporting_turn bo (recorder ok nid) ?y x))))" using snoc.prems by simp
    then have n: "flies bo (fst ?y) (snd x)" "(spv_frameCount (snd ?y) + 1) mod STATUS_PERIOD_FRAMES = 0"
      "r = picture_of (firmware_turn bo (fst ?y) (snd x)) (snd x)"
      using False unfolding turn_reports by (auto split: if_split_asm)
    have "spv_frameCount (snd ?y) = of_nat (frames_flown bo fw (map snd evs))"
      using run_count [of bo ok nid fw "StatusProvider_new []" evs] by (simp add: StatusProvider_new_def)
    then have "of_nat (frames_flown bo fw (map snd evs) + 1) mod STATUS_PERIOD_FRAMES = (0 :: u32)" using n(2) by (simp add: add.commute)
    moreover have "r = picture_of (firmware_run bo fw (map snd evs @ [snd x])) (snd x)" using n(3) by (simp add: fw)
    moreover have "evs @ [x] = evs @ x # []" by simp
    ultimately show ?thesis using n(1) unfolding fw by (intro exI conjI)
  qed
qed


section \<open>What a report says\<close>

lemma picture_simps [simp]:
  "st_motor (picture_of fw ev) = af_motor (fw_actuators fw)" "st_flight_phase (picture_of fw ev) = wire_phase (fc_phase (fw_core fw))"
  "st_rc_link_ok (picture_of fw ev) = (\<not> RcTracker_failsafeActive (sf_timestampUs (ev_frame ev)) (fw_rcTracker fw))"
  by (simp_all add: picture_of_def packStatus_def Let_def)

text \<open>The motors of a report: four commands, in range, none above zero in a phase that stops them, and stopped
  when the report says that the pilot is lost.\<close>

definition report_honest :: "status \<Rightarrow> bool" where
  "report_honest r \<longleftrightarrow> length (st_motor r) = 4 \<and> (\<forall>m \<in> set (st_motor r). \<not> m < 0 \<and> \<not> m > lit 1 1) \<and>
     (st_flight_phase r \<in> wire_phase ` {PH_IDLE, PH_ARMED, PH_BALLISTIC, PH_CUTOFF, PH_FAULT} \<longrightarrow> (\<forall>m \<in> set (st_motor r). \<not> m > 0)) \<and>
     (\<not> st_rc_link_ok r \<longrightarrow> st_motor r = [0, 0, 0, 0] \<and> st_flight_phase r = 0)"

lemma picture_honest:
  assumes "core_lived bo fw" "flies bo fw ev"
  shows "report_honest (picture_of (firmware_turn bo fw ev) ev)"
proof -
  let ?fw = "firmware_turn bo fw ev"
  have l: "core_lived bo ?fw" using assms(1) by (rule lived.inv_turn)
  have ok: "core_motors_ok (fw_core ?fw)" using l by (rule lived_motors)
  have m: "af_motor (fw_actuators ?fw) = fc_lastMotor (fw_core ?fw)" using l by (simp add: core_lived_def)
  have g: "grounded (fc_phase (fw_core ?fw)) \<Longrightarrow> \<forall>m \<in> set (fc_lastMotor (fw_core ?fw)). \<not> m > 0"
    using ok by (auto simp: core_motors_ok_def motors_on_def zero_not_less dest!: bspec)
  have w: "wire_phase (fc_phase (fw_core ?fw)) \<in> wire_phase ` {PH_IDLE, PH_ARMED, PH_BALLISTIC, PH_CUTOFF, PH_FAULT} \<Longrightarrow> grounded (fc_phase (fw_core ?fw))"
    by (cases "fc_phase (fw_core ?fw)") (simp_all add: grounded_def)
  obtain fw1 where fw1: "fw1 = refresh_if_consumed bo (FirmwareApp_pollTransport bo (ev_messages ev) (sf_timestampUs (ev_frame ev)) fw)"
    "?fw = fly_frame bo (ev_streamBusy ev) (ev_frame ev) fw1"
    using flying_turn [of fw bo ev] assms(2) unfolding flies_def by blast
  have lost: "af_motor (fw_actuators ?fw) = replicate 4 0 \<and> fc_phase (fw_core ?fw) = PH_IDLE"
    if "RcTracker_failsafeActive (sf_timestampUs (ev_frame ev)) (fw_rcTracker ?fw)"
  proof -
    have "RcTracker_failsafeActive (sf_timestampUs (ev_frame ev)) (fw_rcTracker fw1)" using that by (simp add: fw1(2))
    from kill_stops [OF silent_frame [OF this]] show ?thesis by (simp add: fw1(2) fly_core)
  qed
  have "length (fc_lastMotor (fw_core ?fw)) = 4" "\<forall>m \<in> set (fc_lastMotor (fw_core ?fw)). \<not> m < 0 \<and> \<not> m > lit 1 1"
    using ok by (simp_all add: core_motors_ok_def motor_ok_def)
  then show ?thesis using lost g w by (auto simp: report_honest_def m zeros4)
qed

text \<open>Whatever a run from power-on brings, every report that leaves the board is the picture of a turn that flew a
  frame, the tenth since the one before, and truthful about the motors and the pilot.\<close>

lemma status_reports_honest:
  assumes "(s, r) \<in> set (reports_in (spv_world (snd (reporting_run bo (recorder ok nid) (FirmwareApp_init bo st w, StatusProvider_new []) evs))))"
    and "fw = FirmwareApp_init bo st w"
  shows "\<exists>evs1 x evs2. evs = evs1 @ x # evs2 \<and> flies bo (firmware_run bo fw (map snd evs1)) (snd x) \<and>
    of_nat (frames_flown bo fw (map snd evs1) + 1) mod STATUS_PERIOD_FRAMES = (0 :: u32) \<and>
    r = picture_of (firmware_run bo fw (map snd evs1 @ [snd x])) (snd x) \<and> report_honest r"
proof -
  obtain evs1 x evs2 where x: "evs = evs1 @ x # evs2" "flies bo (firmware_run bo fw (map snd evs1)) (snd x)"
    "of_nat (frames_flown bo fw (map snd evs1) + 1) mod STATUS_PERIOD_FRAMES = (0 :: u32)"
    "r = picture_of (firmware_run bo fw (map snd evs1 @ [snd x])) (snd x)"
    using report_pictured [OF assms(1), folded assms(2)] by (elim exE conjE) (rule that)
  have "core_lived bo (firmware_run bo fw (map snd evs1))" unfolding assms(2) by (rule lived.inv_run [OF lived_init])
  then have "report_honest r" using picture_honest [OF _ x(2)] unfolding x(4) by simp
  then show ?thesis by (intro exI conjI) (rule x)+
qed

text \<open>A report of a node the consumer follows is what it holds of that node.\<close>

lemma status_held:
  assumes "stc_lookup src c = Some e"
  shows "stc_lookup src (fst (StatusConsumer_onMessage g src (StatusBody r) nowUs c)) =
    Some (e\<lparr> se_hasStatus := True, se_last := r, se_receivedUs := nowUs, se_received := se_received e + 1 \<rparr>)"
proof -
  have "e \<in> set (stc_entries c)" "se_id e = src" using entry_Some [OF assms [unfolded stc_lookup_def]] by simp_all
  then have "src \<in> ids_of se_id (stc_entries c)" by blast
  then show ?thesis using assms \<open>se_id e = src\<close>
    by (simp add: StatusConsumer_onMessage_def stc_put_def stc_lookup_def stc_tell_def lookup_update)
qed

end
