(* ===== verification/Spec2Isabelle.thy ===== *)
theory Spec2Isabelle
  imports Uart_Link Transport_Correct Subscriber_Table Table_Pull Messenger_Correct Ota_Lifecycle Ota_Bundle Consumer_Verdict Discovery
    Telemetry_Dialogue Log_Consumer Throw_Signature Flight_Path Flight_Bounds Tuning_Dialogue Firmware_Safe Report_Whole Status_Honest
begin

text \<open>
  A verification development of the drone-mark4 software (\<^verbatim>\<open>src/software\<close>): the C++
  that flies the aircraft, the protocol stack it shares with the ground, and the
  over-the-air update from the bundle on the ground to the bootloader of the board.

  \<^bold>\<open>The program.\<close> Three processes are built from the same components: the firmware of
  the flight controller (\<^verbatim>\<open>drone_firmware\<close>), its bootloader (\<^verbatim>\<open>drone_boot\<close>) and the
  ground station (\<^verbatim>\<open>hub\<close>). Each node owns one \<^verbatim>\<open>Transport\<close>, which moves frames over
  its links (a serial line, UDP) and keeps the table of the nodes it hears; one
  \<^verbatim>\<open>Messenger\<close> above it, which decodes the single wire message, hands its body to the
  handler of its tag, and repeats requests until they are acknowledged; and above
  that the services, in pairs: a provider on the drone, a consumer on the ground
  (telemetry, log, tuning, update, discovery, status, transport reports). Behind the providers of the drone
  stands the flight core, one function from a sensor frame to four motor commands,
  and behind the updater the flash of the board, which the bootloader reads at the
  next reset.

  \<^bold>\<open>How the model is laid out.\<close> A class is a record with one field per member, under a
  prefix; a method is a definition under its own name (with the class in front where
  two classes share it) from the record to the new record and what it sends or
  returns. An enumeration is a datatype, or its wire number where any number can
  arrive. Integers are words of the width the code declares, so they wrap as it
  does; an \<^verbatim>\<open>int\<close> or \<^verbatim>\<open>std::size_t\<close> that only counts below a stated bound is a
  \<open>nat\<close>. A \<^verbatim>\<open>float\<close> is the binary32 of \<open>Float32\<close>. A callback, a listener and
  everything else the code calls through an interface is an argument; a \<^verbatim>\<open>false\<close>,
  an early return and a refusal is a branch.

  \<^item> \<open>Prelude\<close>: words, byte order, lists and options, and the theorem collections.
  \<^item> \<open>Serial_Framing\<close>, \<open>Uart_Link\<close>: \<^verbatim>\<open>transport/serial_framing.hpp\<close>,
    \<^verbatim>\<open>uart_link.cpp\<close>. The encoder, the decoder a byte at a time, the link over a byte
    stream that cuts reads anywhere.
  \<^item> \<open>Frame_Codec\<close>, \<open>Transport\<close>, \<open>Transport_Correct\<close>: \<^verbatim>\<open>transport/frame.hpp\<close>,
    \<^verbatim>\<open>transport.hpp\<close>, \<^verbatim>\<open>transport.cpp\<close>. Composition, learning, delivery, relay, boot ids,
    expiry, keepalive; then the invariant of its fixed tables, and the hop bound.
  \<^item> \<open>Envelope\<close>, \<open>Messenger\<close>, \<open>Messenger_Correct\<close>: \<^verbatim>\<open>protocol/envelope.cpp\<close>,
    \<^verbatim>\<open>messaging/messenger.cpp\<close>. The dispatch, the pending requests, the retries; then
    the counters that balance and the life of a request.
  \<^item> \<open>Subscriber_Table\<close>, \<open>Table_Pull\<close>, \<open>Node_Table\<close>, \<open>Pull_Dialogue\<close>: the parts
    the services share (\<^verbatim>\<open>messaging/subscriber_table.hpp\<close>, \<^verbatim>\<open>table_pull.hpp\<close>, the dense
    table of nodes of every consumer), and the locale of a table pulled page by page.
  \<^item> \<open>Discovery\<close>: \<^verbatim>\<open>discovery/\<close>. \<open>Telemetry_Registry\<close>, \<open>Telemetry_Provider\<close>,
    \<open>Telemetry_Consumer\<close>, \<open>Telemetry_Correct\<close>, \<open>Telemetry_Dialogue\<close>: \<^verbatim>\<open>telemetry/\<close>.
    \<open>Log\<close>, \<open>Log_Consumer\<close>, \<open>Log_Correct\<close>: \<^verbatim>\<open>log/\<close>.
  \<^item> \<open>Transport_Report\<close>, \<open>Report_Whole\<close>: the counters and the node table of a transport sent to
    the ground in pages (\<^verbatim>\<open>transport/provider.hpp\<close>, \<^verbatim>\<open>consumer.hpp\<close>); that a report held on
    the ground is one table of the node. \<open>Status_Stream\<close>, \<open>Status_Honest\<close>: \<^verbatim>\<open>status/\<close> tied to
    the turns of the flight process; that a report says what the motors got.
  \<^item> \<open>Ota_Image\<close>, \<open>Crc32_Mpeg2\<close>, \<open>Meta_Log\<close>, \<open>Internal_Flash\<close>, \<open>Firmware_Store\<close>,
    \<open>Store_Contract\<close>: the formats, the metadata log and the flash of the board
    (\<^verbatim>\<open>protocol/ota_image.hpp\<close>, \<^verbatim>\<open>ota/meta_log.hpp\<close>, \<^verbatim>\<open>ota/crc32_mpeg2.hpp\<close>,
    \<^verbatim>\<open>platform_stm32/internal_flash\<close>, \<^verbatim>\<open>ota_slots.hpp\<close>, \<^verbatim>\<open>firmware_store_stm32\<close>).
  \<^item> \<open>Boot_Policy\<close>, \<open>Boot_App\<close>: the decision of a reset and the bootloader.
    \<open>Ota_Updater\<close>, \<open>Updater_Correct\<close>: the session on the board (\<^verbatim>\<open>ota/updater.hpp\<close>).
    \<open>Ota_Bundle\<close>, \<open>Ota_Consumer\<close>, \<open>Consumer_Correct\<close>, \<open>Consumer_Verdict\<close>: the ground
    side (\<^verbatim>\<open>ota/bundle.cpp\<close>, \<^verbatim>\<open>ota/consumer.cpp\<close>). \<open>Ota_Lifecycle\<close>: board, resets and
    bootloader together.
  \<^item> \<open>Float32\<close>, \<open>Flight_Control\<close>, \<open>Flight_Estimators\<close>, \<open>Tuning_Table\<close>, \<open>Flight_Core\<close>:
    \<^verbatim>\<open>flight-core/\<close>, every module and \<^verbatim>\<open>step()\<close>. \<open>Flight_Step\<close>, \<open>Flight_Safety\<close>,
    \<open>Flight_Path\<close>, \<open>Throw_Signature\<close>, \<open>Flight_Tuning\<close>, \<open>Flight_Bounds\<close>: what it promises;
    \<open>Flight_Scenario\<close>: a concrete flight the examples use.
  \<^item> \<open>Tuning_Provider\<close>, \<open>Tuning_Consumer\<close>, \<open>Tuning_Dialogue\<close>: \<^verbatim>\<open>tuning/\<close> and the two
    ends together with the core.
  \<^item> \<open>Motor_Dshot\<close>, \<open>Firmware_Loop\<close>, \<open>Firmware_Safe\<close>: the motor lines
    (\<^verbatim>\<open>motor_sink_dshot\<close>), the tracker of the pilot (\<^verbatim>\<open>platform_common/rc_tracker.hpp\<close>),
    and one turn of the loop of \<^verbatim>\<open>drone_firmware/firmware_app.cpp\<close>; then the process
    as a whole.

  \<^bold>\<open>The interfaces.\<close> Wherever one part relies on another, what it relies on is a locale,
  and the theory that provides the part interprets it on the definitions of the code:
  the store the updater drives and its contract, the backend of the metadata log, the
  reference behaviour of the flash controller, the handlers of the messenger and the
  callbacks of the transport, the route of the update consumer, the node a report is
  read from while it is sent, the invariant of a run of the flight core and of the
  flight process, the dialogue of a paged table (on the measures and on the parameters). The lemmas of a client are proved once in
  its locale and reach a property through that interpretation.

  \<^bold>\<open>What is proved.\<close> Each property carries its number in the text above its
  theorem. Those on the update go from the bundle file to the verdict: what a loaded
  bundle is, member by member of its manifest, that the consumer is a correct sender,
  that what the board stages is the image of the bundle the station had loaded for that
  slot, that the updater stages what was sent and touches nothing else, that losing power in a record loses nothing, that the
  bootloader starts only valid images and that a staged image gets one trial. Those on
  the flight core: the kill switch, the arm switch, the latches, the loss of the IMU,
  the throw every autonomous flight needs, the range of the commands, and the tuning
  registry that agrees with the modules. Those on the flight process: the pilot that
  falls silent, updates only on the ground, no flight on trial firmware, and that the
  ESCs read what was commanded. Those on the stack: round trip and resynchronisation of
  the line, the tables of the transport, the hop bound, the books and retries of the
  messenger, the directory, the streams of telemetry and log, and the pulled tables.

  \<^bold>\<open>Bounds and fuel.\<close> Loops are structural recursion over the list they walk, or a
  \<^verbatim>\<open>function\<close> with its measure (the bytes left to program, the slots left to scan), so
  they end by definition, with these exceptions. The two walks of the telemetry registry
  follow pointers and are \<^verbatim>\<open>partial_function (option)\<close>; that they return, so that the list is never
  circular, is part of the theorem on the table a node publishes. Draining a link is given fuel, and any fuel above what
  the link still holds gives the same frames (\<open>drain_fuel\<close>). The poll of the transport takes
  what each link receives in it as a list. A pulled table is walked for as many rounds
  as it has pages, which the dialogue theorems prove to be enough. One theorem bounds a
  life: the power cut in the metadata log allows 40 million appends, far beyond what the two
  flash sectors endure.

  \<^bold>\<open>Parameters and assumptions.\<close> What is not in the sources is an argument: nanopb and
  the generated messages (a body is a datatype, its encoding a function; the bounds of
  the generated arrays are in the datatype's users), the file system and the JSON
  parser of the bundle reader, the flash controller under its contract (\<^verbatim>\<open>flash_ctl\<close>:
  it may fail, it does not write outside what it was told), the random source of the
  nonces, the clock, the DMA stream's busy flag, the libm functions of the flight core
  (\<^verbatim>\<open>tan\<close>, \<^verbatim>\<open>asin\<close>, \<^verbatim>\<open>atan2\<close>, \<^verbatim>\<open>pow\<close>), and \<^verbatim>\<open>lroundf\<close> of a NaN, whose value C leaves open.
  \<open>Float32\<close> takes the arithmetic of binary32 with round to nearest even, each operation
  rounded once: no excess precision and no fused multiply-add, although the flags of the
  build leave a compiler free to contract. A NaN has one value. Each object is used by one thread, as the firmware does; the ISR of
  the serial line is the stream of the link.

  \<^bold>\<open>Not modelled.\<close> The drivers that are sequences of register accesses (sensors, I2C,
  UART, board, clock, start-up code, LEDs), the simulated platform and its UDP and
  file plumbing, the HTTP and WebSocket gateway of the hub, the ESP32 bridge (another
  tool chain over the same transport), the mobile application and the simulator (not
  C++), the vendored CMSIS, and the tests. Bring-up order and log texts of the
  applications are not modelled; of the bootloader, the jump itself is a value.
\<close>

end
